(* ===== verification/Sdec_Prelude.thy ===== *)
theory Sdec_Prelude
  imports Main "HOL-Library.Word" "HOL-Library.Code_Target_Nat"
begin

text \<open>
  The prelude of the development: the machine integers of the Rust code, the result type and its
  sequencing, little-endian byte encodings, slice copies, and the generic lemmas on them that the
  component theories share.  Nothing here is specific to one crate.
\<close>

unbundle bit_operations_syntax

section \<open>Machine integers\<close>

type_synonym u8 = "8 word"
type_synonym u16 = "16 word"
type_synonym u32 = "32 word"
type_synonym u64 = "64 word"

text \<open>
  Signed integers are the same words, read through \<^const>\<open>sint\<close>; comparisons of signed values in
  the code are comparisons of \<^const>\<open>sint\<close> here.  A \<^verbatim>\<open>usize\<close> is a natural number; the code's saturating
  operations saturate at the 64-bit maximum.
\<close>

type_synonym i32 = "32 word"
type_synonym i64 = "64 word"
type_synonym usize = nat

definition usize_max :: usize where
  "usize_max = 2 ^ 64 - 1"

text \<open>
  Code equations for evaluating the model: the widths of the words as literals, so that an operation
  on words normalises its result in one step.
\<close>

lemma usize_max_literal [code]: "usize_max = 18446744073709551615"
  by (simp add: usize_max_def)

lemma power_literals [code_unfold]:
  "(2 :: nat) ^ 32 = 4294967296" "(2 :: int) ^ 31 = 2147483648"
  "(2 :: int) ^ 31 - 1 = 2147483647"
  by simp_all

lemma take_bit_int_literal [code]:
  "take_bit n (k :: int) =
    (let m = (if n = 64 then 18446744073709551616 else if n = 32 then 4294967296
              else if n = 16 then 65536 else if n = 8 then 256 else 2 ^ n)
     in if 0 \<le> k \<and> k < m then k else k mod m)"
  by (simp add: Let_def take_bit_eq_mod)

definition saturating_mul :: "usize \<Rightarrow> usize \<Rightarrow> usize" where
  "saturating_mul a b = min (a * b) usize_max"

definition saturating_sub :: "usize \<Rightarrow> usize \<Rightarrow> usize" where
  "saturating_sub a b = a - b"

definition div_ceil :: "usize \<Rightarrow> usize \<Rightarrow> usize" where
  "div_ceil a b = (a + b - 1) div b"

lemma div_ceil_8_aligned: "p mod 8 = 0 \<Longrightarrow> 8 * div_ceil p 8 = p"
  by (auto simp: div_ceil_def)

lemma div_ceil_8_padded:
  assumes "p mod 8 \<noteq> 0"
  shows "8 * div_ceil p 8 = p + (8 - p mod 8)"
proof -
  define q r where "q = p div 8" and "r = p mod 8"
  have p: "p = 8 * q + r" by (simp add: q_def r_def)
  have r: "r < 8" "r \<noteq> 0" using assms by (simp_all add: r_def)
  have "p + 8 - 1 = 8 * (q + 1) + (r - 1)" using r p by simp
  then have "(p + 8 - 1) div 8 = q + 1" using r by simp
  then show ?thesis using r p by (simp add: div_ceil_def r_def [symmetric])
qed

section \<open>Results\<close>

text \<open>
  \<^verbatim>\<open>Result<T, E>\<close> is \<open>'e + 'a\<close>, with \<^const>\<open>Inl\<close> for \<^verbatim>\<open>Err\<close> and \<^const>\<open>Inr\<close> for \<^verbatim>\<open>Ok\<close>;
  \<open>and_then\<close> is the sequencing that \<^verbatim>\<open>?\<close> performs, and \<open>map_err\<close> is \<^verbatim>\<open>Result::map_err\<close> (also the
  \<^verbatim>\<open>From\<close> conversion of an error that \<^verbatim>\<open>?\<close> inserts).
\<close>

named_theorems res_simps "how results are sequenced"

fun and_then :: "'e + 'a \<Rightarrow> ('a \<Rightarrow> 'e + 'b) \<Rightarrow> 'e + 'b" where
  "and_then (Inl e) f = Inl e"
| "and_then (Inr x) f = f x"

fun map_err :: "('e \<Rightarrow> 'f) \<Rightarrow> 'e + 'a \<Rightarrow> 'f + 'a" where
  "map_err h (Inl e) = Inl (h e)"
| "map_err h (Inr x) = Inr x"

fun ok_or :: "'e \<Rightarrow> 'a option \<Rightarrow> 'e + 'a" where
  "ok_or e None = Inl e"
| "ok_or e (Some x) = Inr x"

fun is_ok :: "'e + 'a \<Rightarrow> bool" where
  "is_ok (Inl e) = False"
| "is_ok (Inr x) = True"

lemma and_then_Inr_iff [res_simps]:
  "and_then m f = Inr y \<longleftrightarrow> (\<exists>x. m = Inr x \<and> f x = Inr y)"
  by (cases m) auto

lemma and_then_Inl_iff:
  "and_then m f = Inl e \<longleftrightarrow> m = Inl e \<or> (\<exists>x. m = Inr x \<and> f x = Inl e)"
  by (cases m) auto

lemma map_err_Inr_iff [res_simps]: "map_err h m = Inr y \<longleftrightarrow> m = Inr y"
  by (cases m) auto

lemma map_err_Inl_iff: "map_err h m = Inl e \<longleftrightarrow> (\<exists>e'. m = Inl e' \<and> e = h e')"
  by (cases m) auto

lemma ok_or_Inr_iff [res_simps]: "ok_or e x = Inr y \<longleftrightarrow> x = Some y"
  by (cases x) auto

lemma if_Inl_Inr_iff [res_simps]:
  "(if c then Inl e else m) = Inr y \<longleftrightarrow> \<not> c \<and> m = Inr y"
  by auto

lemma is_ok_iff: "is_ok m \<longleftrightarrow> (\<exists>x. m = Inr x)"
  by (cases m) auto

lemma and_then_cong [fundef_cong]:
  "m = m' \<Longrightarrow> (\<And>x. m' = Inr x \<Longrightarrow> f x = f' x) \<Longrightarrow> and_then m f = and_then m' f'"
  by (cases m') auto

text \<open>For evaluation the continuation waits for the result it continues.\<close>

lemma and_then_unfold [code_unfold]:
  "and_then m f = (case m of Inl e \<Rightarrow> Inl e | Inr x \<Rightarrow> f x)"
  by (cases m) auto

lemma and_then_assoc: "and_then (and_then m f) g = and_then m (\<lambda>x. and_then (f x) g)"
  by (cases m) auto

lemma and_then_if: "and_then (if c then m else m') f = (if c then and_then m f else and_then m' f)"
  by simp

lemma and_then_E:
  assumes "and_then m f = Inr y"
  obtains x where "m = Inr x" and "f x = Inr y"
  using assms by (cases m) auto

section \<open>Slices\<close>

text \<open>
  \<^verbatim>\<open>out[i..i + ys.len()].copy_from_slice(ys)\<close> and \<^verbatim>\<open>out.copy_within(a..b, i)\<close>; the callers check the
  bounds, as the code does.
\<close>

definition splice :: "'a list \<Rightarrow> nat \<Rightarrow> 'a list \<Rightarrow> 'a list" where
  "splice xs i ys = take i xs @ ys @ drop (i + length ys) xs"

definition sub_slice :: "'a list \<Rightarrow> nat \<Rightarrow> nat \<Rightarrow> 'a list" where
  "sub_slice xs a b = take (b - a) (drop a xs)"

definition copy_within :: "'a list \<Rightarrow> nat \<Rightarrow> nat \<Rightarrow> nat \<Rightarrow> 'a list" where
  "copy_within xs a b i = splice xs i (sub_slice xs a b)"

lemma length_splice [simp]: "i + length ys \<le> length xs \<Longrightarrow> length (splice xs i ys) = length xs"
  by (simp add: splice_def)

lemma length_sub_slice [simp]: "b \<le> length xs \<Longrightarrow> length (sub_slice xs a b) = b - a"
  by (simp add: sub_slice_def)

lemma sub_slice_append:
  "a \<le> b \<Longrightarrow> b \<le> c \<Longrightarrow> sub_slice xs a b @ sub_slice xs b c = sub_slice xs a c"
proof -
  assume le: "a \<le> b" "b \<le> c"
  then have "take (c - a) (drop a xs) = take ((b - a) + (c - b)) (drop a xs)" by simp
  also have "\<dots> = take (b - a) (drop a xs) @ take (c - b) (drop (b - a) (drop a xs))"
    by (rule take_add)
  finally show ?thesis using le by (simp add: sub_slice_def)
qed

lemma sub_slice_prefix:
  "b \<le> length xs \<Longrightarrow> sub_slice (xs @ ys) a b = sub_slice xs a b"
  by (simp add: sub_slice_def drop_append take_append)

lemma nth_splice:
  "i + length ys \<le> length xs \<Longrightarrow> j < length xs \<Longrightarrow>
    splice xs i ys ! j = (if i \<le> j \<and> j < i + length ys then ys ! (j - i) else xs ! j)"
  by (auto simp: splice_def nth_append min_def)

lemma take_splice_before: "j \<le> i \<Longrightarrow> i \<le> length xs \<Longrightarrow> take j (splice xs i ys) = take j xs"
  by (simp add: splice_def min_def)

lemma take_splice_end:
  "i \<le> length xs \<Longrightarrow> take (i + length ys) (splice xs i ys) = take i xs @ ys"
  by (simp add: splice_def)

section \<open>Little-endian bytes\<close>

text \<open>\<^verbatim>\<open>to_le_bytes\<close> (of a value of \<open>n\<close> bytes) and \<^verbatim>\<open>from_le_bytes\<close>.\<close>

fun to_le_bytes :: "nat \<Rightarrow> 'a::len word \<Rightarrow> u8 list" where
  "to_le_bytes 0 x = []"
| "to_le_bytes (Suc n) x = ucast x # to_le_bytes n (drop_bit 8 x)"

fun from_le_bytes :: "u8 list \<Rightarrow> 'a::len word" where
  "from_le_bytes [] = 0"
| "from_le_bytes (b # bs) = ucast b OR push_bit 8 (from_le_bytes bs)"

lemma length_to_le_bytes [simp]: "length (to_le_bytes n x) = n"
  by (induction n x rule: to_le_bytes.induct) auto

lemma bit_from_le_bytes:
  "bit (from_le_bytes bs :: 'a::len word) i \<longleftrightarrow>
    i < LENGTH('a) \<and> i div 8 < length bs \<and> bit (bs ! (i div 8)) (i mod 8)"
proof (induction bs arbitrary: i)
  case Nil
  then show ?case by simp
next
  case (Cons b bs)
  have len8: "\<not> bit b j" if "8 \<le> j" for j
    using that bit_imp_le_length [of b j] by auto
  show ?case
  proof (cases "i < 8")
    case True
    then show ?thesis by (auto simp: bit_simps)
  next
    case False
    then have i: "i div 8 = Suc ((i - 8) div 8)" "i mod 8 = (i - 8) mod 8"
      by (simp_all add: div_if mod_if)
    from False have "i - 8 < LENGTH('a)" if "i < LENGTH('a)" using that by simp
    with False Cons.IH [of "i - 8"] len8 i show ?thesis
      by (auto simp: bit_simps)
  qed
qed

lemma nth_to_le_bytes:
  "i < n \<Longrightarrow> to_le_bytes n x ! i = ucast (drop_bit (8 * i) x)"
proof (induction n x arbitrary: i rule: to_le_bytes.induct)
  case (2 n x)
  then show ?case by (cases i) (simp_all add: drop_bit_drop_bit algebra_simps)
qed simp

lemma from_to_le_bytes:
  assumes "LENGTH('a) \<le> 8 * n"
  shows "from_le_bytes (to_le_bytes n x) = (x :: 'a::len word)"
proof (rule bit_word_eqI)
  fix i assume i: "i < LENGTH('a)"
  with assms have "i div 8 < n" by (simp add: div_less_iff_less_mult mult.commute)
  then show "bit (from_le_bytes (to_le_bytes n x) :: 'a word) i = bit x i"
    using i by (simp add: bit_from_le_bytes nth_to_le_bytes bit_simps)
qed

lemma to_from_le_bytes:
  assumes "length bs = n" and "8 * n \<le> LENGTH('a)"
  shows "to_le_bytes n (from_le_bytes bs :: 'a::len word) = bs"
proof (rule nth_equalityI)
  show "length (to_le_bytes n (from_le_bytes bs :: 'a word)) = length bs"
    using assms by simp
next
  fix i assume "i < length (to_le_bytes n (from_le_bytes bs :: 'a word))"
  then have i: "i < n" by simp
  show "to_le_bytes n (from_le_bytes bs :: 'a word) ! i = bs ! i"
  proof (rule bit_word_eqI)
    fix j assume j: "j < LENGTH(8)"
    then have "(8 * i + j) div 8 = i" "(8 * i + j) mod 8 = j" by simp_all
    moreover have "8 * i + j < LENGTH('a)" using i j assms by simp
    ultimately show "bit (to_le_bytes n (from_le_bytes bs :: 'a word) ! i) j = bit (bs ! i) j"
      using i j assms by (simp add: nth_to_le_bytes bit_simps bit_from_le_bytes)
  qed
qed

lemma to_le_bytes_inj:
  assumes "LENGTH('a) \<le> 8 * n" and "to_le_bytes n (x :: 'a::len word) = to_le_bytes n y"
  shows "x = y"
  using assms from_to_le_bytes by metis

lemma to_le_bytes_eq_iff [simp]:
  "LENGTH('a) \<le> 8 * n \<Longrightarrow> to_le_bytes n (x :: 'a::len word) = to_le_bytes n y \<longleftrightarrow> x = y"
  using to_le_bytes_inj by auto

section \<open>Bits of words\<close>

lemma word_shift_in_bit:
  "push_bit 1 (drop_bit (Suc m) v) OR of_bool (bit v m) = drop_bit m (v :: 'a::len word)"
proof (rule bit_word_eqI)
  fix n assume "n < LENGTH('a)"
  then show "bit (push_bit 1 (drop_bit (Suc m) v) OR of_bool (bit v m)) n = bit (drop_bit m v) n"
    unfolding bit_or_iff bit_push_bit_iff by (cases n) (simp_all add: bit_simps)
qed

lemma drop_bit_and_1_iff: "drop_bit i v AND 1 = (1 :: 'a::len word) \<longleftrightarrow> bit v i"
proof -
  have "drop_bit i v AND 1 = of_bool (bit v i)"
    by (simp add: and_one_eq bit_iff_odd_drop_bit mod2_eq_if)
  then show ?thesis by simp
qed

lemma drop_bit_eq_zero_unat: "unat v < 2 ^ n \<Longrightarrow> drop_bit n (v :: 'a::len word) = 0"
  unfolding word_unat_eq_iff unat_drop_bit_eq by (simp add: drop_bit_eq_div)

lemma bit_above_length: "LENGTH('a) \<le> n \<Longrightarrow> \<not> bit (w :: 'a::len word) n"
  using bit_imp_le_length by fastforce

end
