(* ===== verification/Varint.thy ===== *)
theory Varint
  imports Sdec_Prelude
begin

text \<open>
  The 32-bit varint of the wire format: seven bits per byte, low group first, the top bit set on
  every byte but the last.  The repository implements it four times (the bit writer and the growing
  bit writer, wire/src/packet.rs and wire/src/session.rs); this theory holds the reference encoder
  and decoder that all of them are related to, and the round trip of the reference pair.
\<close>

text \<open>
  The byte that one round of every writer's loop emits: the low seven bits, with the continuation
  bit set when bits are left.
\<close>

definition varint_byte :: "u32 \<Rightarrow> u8" where
  "varint_byte value =
    (let byte = ucast (value AND 0x7F) in if drop_bit 7 value \<noteq> 0 then byte OR 0x80 else byte)"

lemma drop_bit_7_less: "drop_bit 7 value \<noteq> (0 :: u32) \<Longrightarrow> unat (drop_bit 7 value) < unat value"
proof -
  assume "drop_bit 7 value \<noteq> 0"
  then have "value \<noteq> 0" by auto
  then have "0 < unat value" by (simp add: unat_gt_0)
  then show ?thesis unfolding unat_drop_bit_eq by (simp add: drop_bit_eq_div)
qed

function varint_encode :: "u32 \<Rightarrow> u8 list" where
  "varint_encode v =
    varint_byte v # (if drop_bit 7 v = 0 then [] else varint_encode (drop_bit 7 v))"
  by pat_completeness auto
termination
  by (relation "measure unat") (auto intro: drop_bit_7_less)

declare varint_encode.simps [simp del]

text \<open>
  The reference decoder runs over the shifts of the groups; \<^const>\<open>None\<close> when the bytes or the shifts
  run out before a final byte.
\<close>

fun varint_groups :: "nat list \<Rightarrow> u32 \<Rightarrow> u8 list \<Rightarrow> (u32 \<times> u8 list) option" where
  "varint_groups [] acc bs = None"
| "varint_groups (s # ss) acc [] = None"
| "varint_groups (s # ss) acc (b # bs) =
    (let acc' = acc OR push_bit s (ucast (b AND 0x7F))
     in if b AND 0x80 = 0 then Some (acc', bs) else varint_groups ss acc' bs)"

definition varint_decode :: "u8 list \<Rightarrow> (u32 \<times> u8 list) option" where
  "varint_decode bs = varint_groups [0, 7, 14, 21, 28] 0 bs"

lemma bit_7F: "bit (0x7F :: 'a::len word) i \<longleftrightarrow> i < LENGTH('a) \<and> i < 7"
proof -
  have "(0x7F :: 'a word) = mask 7" by (simp add: mask_eq_exp_minus_1)
  then show ?thesis by (simp only: bit_mask_iff possible_bit_word)
qed

lemma bit_80: "bit (0x80 :: u8) i \<longleftrightarrow> i = 7"
proof -
  have "(0x80 :: u8) = push_bit 7 1" by simp
  then show ?thesis by (simp only: bit_push_bit_iff bit_1_iff possible_bit_word) auto
qed

lemma and_80_eq_0: "b AND 0x80 = (0 :: u8) \<longleftrightarrow> \<not> bit b 7"
proof
  assume "b AND 0x80 = 0"
  then have "\<not> bit (b AND 0x80) 7" by simp
  then show "\<not> bit b 7" by (simp add: bit_and_iff bit_80)
next
  assume "\<not> bit b 7"
  then show "b AND 0x80 = 0"
    by (intro bit_word_eqI) (simp only: bit_and_iff bit_80, auto)
qed

lemma bit_varint_byte:
  "bit (varint_byte v) i \<longleftrightarrow> i < 7 \<and> bit v i \<or> i = 7 \<and> drop_bit 7 v \<noteq> 0"
proof (cases "drop_bit 7 v = 0")
  case True
  then show ?thesis
    by (simp only: varint_byte_def Let_def bit_ucast_iff bit_and_iff bit_7F simp_thms if_False)
       auto
next
  case False
  then show ?thesis
    by (simp only: varint_byte_def Let_def bit_or_iff bit_ucast_iff bit_and_iff bit_7F bit_80
        simp_thms if_True) auto
qed

lemma varint_byte_last: "varint_byte v AND 0x80 = 0 \<longleftrightarrow> drop_bit 7 v = 0"
  by (simp add: and_80_eq_0 bit_varint_byte)

lemma varint_byte_group:
  "take_bit s v OR push_bit s (ucast (varint_byte (drop_bit s v) AND 0x7F)) = take_bit (s + 7) v"
  by (rule bit_word_eqI)
    (simp only: bit_or_iff bit_take_bit_iff bit_push_bit_iff bit_ucast_iff bit_and_iff bit_7F
      bit_varint_byte bit_drop_bit_eq, auto)

lemma take_bit_of_drop_bit_0:
  assumes "drop_bit n v = 0"
  shows "take_bit n v = (v :: 'a::len word)"
  using bits_ident [of n v] assms by simp

lemma varint_groups_step:
  "varint_groups (s # ss) (take_bit s v) (varint_encode (drop_bit s v) @ rest) =
    (if drop_bit (s + 7) v = 0 then Some (v, rest)
     else varint_groups ss (take_bit (s + 7) v) (varint_encode (drop_bit (s + 7) v) @ rest))"
proof -
  have d: "drop_bit 7 (drop_bit s v) = drop_bit (s + 7) v"
    by (simp add: drop_bit_drop_bit add.commute)
  show ?thesis
    by (subst varint_encode.simps)
       (simp add: Let_def varint_byte_last varint_byte_group d take_bit_of_drop_bit_0
         del: drop_bit_drop_bit)
qed

lemma drop_bit_35 [simp]: "drop_bit 35 (v :: u32) = 0"
  by (rule bit_word_eqI) (simp add: bit_drop_bit_eq bit_above_length)

lemma varint_decode_encode: "varint_decode (varint_encode v @ rest) = Some (v, rest)"
  using varint_groups_step [of 0 "[7, 14, 21, 28]" v rest]
    varint_groups_step [of 7 "[14, 21, 28]" v rest] varint_groups_step [of 14 "[21, 28]" v rest]
    varint_groups_step [of 21 "[28]" v rest] varint_groups_step [of 28 "[]" v rest]
  by (simp add: varint_decode_def split: if_splits)

lemma varint_encode_nonempty [simp]: "varint_encode v \<noteq> []"
  by (subst varint_encode.simps) simp

text \<open>The length of an encoding, and the decoder's remainder is a suffix after at most 5 bytes.\<close>

lemma varint_groups_suffix:
  "varint_groups ss acc bs = Some (v, rest) \<Longrightarrow>
    \<exists>used. bs = used @ rest \<and> 0 < length used \<and> length used \<le> length ss"
proof (induction ss acc bs rule: varint_groups.induct)
  case (3 s ss acc b bs)
  let ?acc = "acc OR push_bit s (ucast (b AND 0x7F))"
  show ?case
  proof (cases "b AND 0x80 = 0")
    case True
    then have "b # bs = [b] @ rest" using "3.prems" by (simp add: Let_def)
    then show ?thesis by (metis length_Cons list.size(3) less_Suc_eq_le zero_le Suc_le_mono
        zero_less_Suc)
  next
    case False
    then obtain used where "bs = used @ rest" "length used \<le> length ss"
      using 3 by (auto simp: Let_def)
    then show ?thesis by (intro exI [of _ "b # used"]) simp
  qed
qed simp_all

lemma varint_length:
  "length (varint_encode v) \<le> 5" "0 < length (varint_encode v)"
proof -
  obtain used where "varint_encode v @ [] = used @ []" "length used \<le> 5"
    using varint_groups_suffix [of "[0, 7, 14, 21, 28]" 0 "varint_encode v @ []" v "[]"]
      varint_decode_encode [of v "[]"] unfolding varint_decode_def by auto
  then show "length (varint_encode v) \<le> 5" by simp
qed simp


text \<open>The decoder looks at the bytes it uses and at no other.\<close>

lemma varint_groups_local:
  "varint_groups ss acc bs = Some (v, rest) \<Longrightarrow>
    \<exists>used. bs = used @ rest \<and> (\<forall>r. varint_groups ss acc (used @ r) = Some (v, r))"
proof (induction ss acc bs rule: varint_groups.induct)
  case (3 s ss acc b bs)
  let ?acc = "acc OR push_bit s (ucast (b AND 0x7F))"
  show ?case
  proof (cases "b AND 0x80 = 0")
    case True
    then show ?thesis using "3.prems" by (intro exI [of _ "[b]"]) (simp add: Let_def)
  next
    case False
    with "3.prems" have "varint_groups ss ?acc bs = Some (v, rest)" by (simp add: Let_def)
    from "3.IH" [OF refl False this] obtain used
      where "bs = used @ rest" "\<forall>r. varint_groups ss ?acc (used @ r) = Some (v, r)" by blast
    then show ?thesis using False by (intro exI [of _ "b # used"]) (simp add: Let_def)
  qed
qed simp_all

lemma varint_decode_local:
  assumes "varint_decode bs = Some (v, rest)"
  obtains used where "bs = used @ rest" and "\<And>r. varint_decode (used @ r) = Some (v, r)"
  using varint_groups_local assms unfolding varint_decode_def by blast

end
