(* ===== verification/Bit_Writer.thy ===== *)
theory Bit_Writer
  imports Bit_Reader Varint
begin

text \<open>
  The bounded bit writer of the bitstream crate (bitstream/src/writer.rs).  A writer is the caller's
  buffer and a bit position; the operations return the written buffer, and an error as soon as a
  write does not fit.  A writer that failed is dropped by every caller, so an error carries no writer.

  \<open>extends w w'\<close> is the contract of every operation: the position does not go back, the buffer keeps
  its length and no bit below the old position changes.
\<close>

record bit_writer =
  bw_buf :: "u8 list"
  bw_pos :: usize

definition writer_new :: "u8 list \<Rightarrow> bit_writer" where
  "writer_new buf = \<lparr>bw_buf = buf, bw_pos = 0\<rparr>"

definition writer_bits_remaining :: "bit_writer \<Rightarrow> usize" where
  "writer_bits_remaining w = saturating_sub (saturating_mul (length (bw_buf w)) 8) (bw_pos w)"

definition writer_bits_written :: "bit_writer \<Rightarrow> usize" where
  "writer_bits_written w = bw_pos w"

definition writer_ensure_bits :: "usize \<Rightarrow> bit_writer \<Rightarrow> bit_error + unit" where
  "writer_ensure_bits n w =
    (let avail = writer_bits_remaining w in
     if n > avail then Inl (WriteOverflow n avail) else Inr ())"

definition writer_ensure_aligned :: "bit_writer \<Rightarrow> bit_error + unit" where
  "writer_ensure_aligned w =
    (if bw_pos w mod 8 \<noteq> 0 then Inl (MisalignedAccess (bw_pos w)) else Inr ())"

definition write_bit_unchecked :: "bool \<Rightarrow> bit_writer \<Rightarrow> bit_writer" where
  "write_bit_unchecked value w =
    (let byte_idx = bw_pos w div 8;
         bit_idx = bw_pos w mod 8;
         mask = push_bit (7 - bit_idx) (1 :: u8);
         old = bw_buf w ! byte_idx
     in w\<lparr>bw_buf := (bw_buf w)[byte_idx := (if value then old OR mask else old AND NOT mask)],
          bw_pos := bw_pos w + 1\<rparr>)"

definition write_bit :: "bool \<Rightarrow> bit_writer \<Rightarrow> bit_error + bit_writer" where
  "write_bit value w =
    and_then (writer_ensure_bits 1 w) (\<lambda>_. Inr (write_bit_unchecked value w))"

text \<open>The loop \<^verbatim>\<open>for i in (0..bits).rev()\<close>.\<close>

fun write_bits_loop :: "u64 \<Rightarrow> nat \<Rightarrow> bit_writer \<Rightarrow> bit_writer" where
  "write_bits_loop value 0 w = w"
| "write_bits_loop value (Suc i) w =
     write_bits_loop value i (write_bit_unchecked (drop_bit i value AND 1 = 1) w)"

definition write_bits :: "u64 \<Rightarrow> u8 \<Rightarrow> bit_writer \<Rightarrow> bit_error + bit_writer" where
  "write_bits value n w =
    (if n > 64 then Inl (InvalidBitCount n 64)
     else if n = 0 then Inr w
     else if n < 64 \<and> value \<ge> push_bit (unat n) 1 then Inl (ValueOutOfRange value n)
     else
       and_then (writer_ensure_bits (unat n) w) (\<lambda>_. Inr (write_bits_loop value (unat n) w)))"

text \<open>The loop \<^verbatim>\<open>for _ in 0..padding\<close>.\<close>

fun write_padding :: "nat \<Rightarrow> bit_writer \<Rightarrow> bit_writer" where
  "write_padding 0 w = w"
| "write_padding (Suc n) w = write_padding n (write_bit_unchecked False w)"

definition writer_align_to_byte :: "bit_writer \<Rightarrow> bit_error + bit_writer" where
  "writer_align_to_byte w =
    (let rem = bw_pos w mod 8 in
     if rem = 0 then Inr w
     else
       let padding = 8 - rem in
       and_then (writer_ensure_bits padding w) (\<lambda>_.
         Inr (write_padding padding w)))"

definition write_u8_aligned :: "u8 \<Rightarrow> bit_writer \<Rightarrow> bit_error + bit_writer" where
  "write_u8_aligned value w =
    and_then (writer_ensure_aligned w) (\<lambda>_.
    and_then (writer_ensure_bits 8 w) (\<lambda>_.
      let idx = bw_pos w div 8
      in Inr (w\<lparr>bw_buf := (bw_buf w)[idx := value], bw_pos := bw_pos w + 8\<rparr>)))"

definition write_bytes_aligned :: "u8 list \<Rightarrow> bit_writer \<Rightarrow> bit_error + bit_writer" where
  "write_bytes_aligned bytes w =
    and_then (writer_ensure_aligned w) (\<lambda>_.
    and_then (writer_ensure_bits (length bytes * 8) w) (\<lambda>_.
      let idx = bw_pos w div 8
      in Inr (w\<lparr>bw_buf := splice (bw_buf w) idx bytes,
                bw_pos := bw_pos w + length bytes * 8\<rparr>)))"

definition write_u16_aligned :: "u16 \<Rightarrow> bit_writer \<Rightarrow> bit_error + bit_writer" where
  "write_u16_aligned value w = write_bytes_aligned (to_le_bytes 2 value) w"

definition write_u32_aligned :: "u32 \<Rightarrow> bit_writer \<Rightarrow> bit_error + bit_writer" where
  "write_u32_aligned value w = write_bytes_aligned (to_le_bytes 4 value) w"

definition write_u64_aligned :: "u64 \<Rightarrow> bit_writer \<Rightarrow> bit_error + bit_writer" where
  "write_u64_aligned value w = write_bytes_aligned (to_le_bytes 8 value) w"

function write_varu32_loop :: "u32 \<Rightarrow> bit_writer \<Rightarrow> bit_error + bit_writer" where
  "write_varu32_loop value w =
    and_then (write_u8_aligned (varint_byte value) w) (\<lambda>w'.
      if drop_bit 7 value = 0 then Inr w' else write_varu32_loop (drop_bit 7 value) w')"
  by pat_completeness auto
termination
  by (relation "measure (\<lambda>(value, w). unat value)") (auto intro: drop_bit_7_less)

declare write_varu32_loop.simps [simp del]

definition write_varu32 :: "u32 \<Rightarrow> bit_writer \<Rightarrow> bit_error + bit_writer" where
  "write_varu32 value w =
    and_then (writer_ensure_aligned w) (\<lambda>_. write_varu32_loop value w)"

definition zigzag_encode :: "i32 \<Rightarrow> u32" where
  "zigzag_encode value = push_bit 1 value XOR signed_drop_bit 31 value"

definition write_vars32 :: "i32 \<Rightarrow> bit_writer \<Rightarrow> bit_error + bit_writer" where
  "write_vars32 value w = write_varu32 (zigzag_encode value) w"

definition writer_finish :: "bit_writer \<Rightarrow> usize" where
  "writer_finish w = div_ceil (bw_pos w) 8"

section \<open>The contract of a write\<close>

definition writer_ok :: "bit_writer \<Rightarrow> bool" where
  "writer_ok w \<longleftrightarrow> bw_pos w \<le> bit_capacity (bw_buf w)"

definition extends :: "bit_writer \<Rightarrow> bit_writer \<Rightarrow> bool" where
  "extends w w' \<longleftrightarrow> bw_pos w \<le> bw_pos w' \<and> length (bw_buf w') = length (bw_buf w) \<and>
     (writer_ok w \<longrightarrow> writer_ok w') \<and> (\<forall>i < bw_pos w. bit_at (bw_buf w') i = bit_at (bw_buf w) i)"

lemma extends_refl [simp, intro]: "extends w w"
  by (simp add: extends_def)

lemma extends_trans [trans]: "extends a b \<Longrightarrow> extends b c \<Longrightarrow> extends a c"
  by (auto simp: extends_def)

lemma extends_ok: "extends w w' \<Longrightarrow> writer_ok w \<Longrightarrow> writer_ok w'"
  by (simp add: extends_def)

lemma extends_pos: "extends w w' \<Longrightarrow> bw_pos w \<le> bw_pos w'"
  by (simp add: extends_def)

lemma extends_length: "extends w w' \<Longrightarrow> length (bw_buf w') = length (bw_buf w)"
  by (simp add: extends_def)

lemma writer_new_ok [simp]: "writer_ok (writer_new buf)"
  by (simp add: writer_ok_def writer_new_def)

lemma writer_remaining_eq: "writer_bits_remaining w = bit_capacity (bw_buf w) - bw_pos w"
  by (simp add: writer_bits_remaining_def saturating_sub_def bit_capacity_def)

lemma writer_ensure_bits_Inr [simp]:
  "writer_ensure_bits n w = Inr u \<longleftrightarrow> n \<le> bit_capacity (bw_buf w) - bw_pos w"
  by (simp add: writer_ensure_bits_def writer_remaining_eq Let_def)

lemma writer_ensure_aligned_Inr [simp]:
  "writer_ensure_aligned w = Inr u \<longleftrightarrow> bw_pos w mod 8 = 0"
  by (simp add: writer_ensure_aligned_def)

text \<open>Writing one bit sets exactly that bit.\<close>

lemma write_bit_unchecked_pos [simp]: "bw_pos (write_bit_unchecked v w) = Suc (bw_pos w)"
  by (simp add: write_bit_unchecked_def Let_def)

lemma write_bit_unchecked_length [simp]:
  "length (bw_buf (write_bit_unchecked v w)) = length (bw_buf w)"
  by (simp add: write_bit_unchecked_def Let_def)

lemma bit_at_write_bit_unchecked:
  assumes "bw_pos w < 8 * length (bw_buf w)"
  shows "bit_at (bw_buf (write_bit_unchecked v w)) i =
    (if i = bw_pos w then v else bit_at (bw_buf w) i)"
proof -
  let ?p = "bw_pos w"
  have p: "?p div 8 < length (bw_buf w)" using assms by (simp add: div_less_iff_less_mult)
  have mask: "bit (2 ^ (7 - ?p mod 8) :: u8) k \<longleftrightarrow> k = 7 - ?p mod 8" for k
    by (auto simp: bit_simps)
  show ?thesis
  proof (cases "i div 8 = ?p div 8")
    case False
    then show ?thesis
      by (auto simp: bit_at_def write_bit_unchecked_def Let_def nth_list_update)
  next
    case True
    have "i mod 8 < 8" and "?p mod 8 < 8" by simp_all
    then have "7 - i mod 8 = 7 - ?p mod 8 \<longleftrightarrow> i mod 8 = ?p mod 8" by linarith
    moreover have "i = ?p \<longleftrightarrow> i mod 8 = ?p mod 8"
      using True by (metis div_mult_mod_eq)
    ultimately have "7 - i mod 8 = 7 - ?p mod 8 \<longleftrightarrow> i = ?p" by simp
    with True p show ?thesis
      by (auto simp: bit_at_def write_bit_unchecked_def Let_def bit_or_iff bit_and_iff bit_not_iff
          mask)
  qed
qed


lemma write_bit_unchecked_extends:
  assumes "1 \<le> bit_capacity (bw_buf w) - bw_pos w"
  shows "extends w (write_bit_unchecked v w)"
proof -
  have "bw_pos w < 8 * length (bw_buf w)" using assms bit_capacity_le [of "bw_buf w"] by simp
  then show ?thesis using assms
    by (auto simp: extends_def bit_at_write_bit_unchecked writer_ok_def
        bit_capacity_cong [OF write_bit_unchecked_length])
qed

lemma capacity_write_bit_unchecked [simp]:
  "bit_capacity (bw_buf (write_bit_unchecked v w)) = bit_capacity (bw_buf w)"
  by (rule bit_capacity_cong) simp

lemma write_bits_loop_extends:
  "n \<le> bit_capacity (bw_buf w) - bw_pos w \<Longrightarrow> extends w (write_bits_loop value n w)"
proof (induction n arbitrary: w)
  case (Suc n)
  let ?w = "write_bit_unchecked (drop_bit n value AND 1 = 1) w"
  have "extends w ?w" using Suc.prems by (intro write_bit_unchecked_extends) simp
  moreover have "extends ?w (write_bits_loop value n ?w)" using Suc by simp
  ultimately show ?case by (simp add: extends_trans)
qed simp

lemma write_bits_loop_pos [simp]: "bw_pos (write_bits_loop value n w) = bw_pos w + n"
  by (induction n arbitrary: w) auto

lemma padding_extends:
  "n \<le> bit_capacity (bw_buf w) - bw_pos w \<Longrightarrow> extends w (write_padding n w) \<and>
    bw_pos (write_padding n w) = bw_pos w + n"
proof (induction n arbitrary: w)
  case (Suc n)
  let ?w = "write_bit_unchecked False w"
  have "extends w ?w" using Suc.prems by (intro write_bit_unchecked_extends) simp
  moreover have "extends ?w (write_padding n ?w) \<and> bw_pos (write_padding n ?w) = bw_pos ?w + n"
    using Suc by simp
  ultimately show ?case by (auto intro: extends_trans)
qed simp

text \<open>A write of whole bytes at an aligned position.\<close>

lemma splice_extends:
  assumes "bw_pos w mod 8 = 0" and "length bytes * 8 \<le> bit_capacity (bw_buf w) - bw_pos w"
  shows "extends w (w\<lparr>bw_buf := splice (bw_buf w) (bw_pos w div 8) bytes,
    bw_pos := bw_pos w + length bytes * 8\<rparr>)"
proof (cases "bytes = []")
  case True
  then show ?thesis by (simp add: splice_def extends_def writer_ok_def)
next
  case False
  let ?k = "bw_pos w div 8"
  have pos: "bw_pos w = 8 * ?k" using assms(1) by auto
  have pos_cap: "bw_pos w + length bytes * 8 \<le> bit_capacity (bw_buf w)"
    using assms(2) False by (cases bytes) auto
  then have fits: "?k + length bytes \<le> length (bw_buf w)"
    using bit_capacity_le [of "bw_buf w"] pos by linarith
  have "bit_capacity (splice (bw_buf w) ?k bytes) = bit_capacity (bw_buf w)"
    using fits by (intro bit_capacity_cong) simp
  moreover have "splice (bw_buf w) ?k bytes ! (i div 8) = bw_buf w ! (i div 8)"
    if "i < bw_pos w" for i
  proof -
    have "i div 8 < ?k" using that pos by (simp add: div_less_iff_less_mult mult.commute)
    then show ?thesis using fits by (subst nth_splice) auto
  qed
  ultimately show ?thesis
    using fits pos_cap by (simp add: extends_def writer_ok_def bit_at_def)
qed

lemma write_u8_as_bytes: "write_u8_aligned value w = write_bytes_aligned [value] w"
proof -
  have "bw_pos w div 8 < length (bw_buf w)" if "8 \<le> bit_capacity (bw_buf w) - bw_pos w"
    using that by (intro bit_capacity_div) simp
  then show ?thesis
    by (cases "writer_ensure_aligned w"; cases "writer_ensure_bits 8 w")
       (auto simp: write_u8_aligned_def write_bytes_aligned_def Let_def splice_def
         upd_conv_take_nth_drop)
qed

named_theorems write_extends "what a successful write leaves of the writer"

lemma write_bit_extends [write_extends]: "write_bit v w = Inr w' \<Longrightarrow> extends w w'"
  by (auto simp: write_bit_def res_simps intro: write_bit_unchecked_extends)

lemma write_bits_extends [write_extends]: "write_bits v n w = Inr w' \<Longrightarrow> extends w w'"
  by (auto simp: write_bits_def res_simps split: if_splits intro: write_bits_loop_extends)

lemma writer_align_extends [write_extends]: "writer_align_to_byte w = Inr w' \<Longrightarrow> extends w w'"
  by (auto simp: writer_align_to_byte_def res_simps Let_def split: if_splits
      dest: padding_extends)

lemma write_bytes_extends [write_extends]: "write_bytes_aligned bs w = Inr w' \<Longrightarrow> extends w w'"
  by (auto simp: write_bytes_aligned_def res_simps Let_def intro: splice_extends)

lemma write_u8_extends [write_extends]: "write_u8_aligned v w = Inr w' \<Longrightarrow> extends w w'"
  unfolding write_u8_as_bytes by (rule write_bytes_extends)

lemma write_u16_extends [write_extends]: "write_u16_aligned v w = Inr w' \<Longrightarrow> extends w w'"
  unfolding write_u16_aligned_def by (rule write_bytes_extends)

lemma write_u32_extends [write_extends]: "write_u32_aligned v w = Inr w' \<Longrightarrow> extends w w'"
  unfolding write_u32_aligned_def by (rule write_bytes_extends)

lemma write_u64_extends [write_extends]: "write_u64_aligned v w = Inr w' \<Longrightarrow> extends w w'"
  unfolding write_u64_aligned_def by (rule write_bytes_extends)

lemma write_varu32_loop_extends: "write_varu32_loop v w = Inr w' \<Longrightarrow> extends w w'"
proof (induction v w arbitrary: w' rule: write_varu32_loop.induct)
  case (1 v w)
  from "1.prems" obtain w1 where w1: "write_u8_aligned (varint_byte v) w = Inr w1"
    and rest: "(if drop_bit 7 v = 0 then Inr w1 else write_varu32_loop (drop_bit 7 v) w1) = Inr w'"
    by (subst (asm) write_varu32_loop.simps) (auto elim: and_then_E)
  from w1 have "extends w w1" by (rule write_u8_extends)
  with rest "1.IH" [OF w1] show ?case by (auto split: if_splits intro: extends_trans)
qed

lemma write_varu32_extends [write_extends]: "write_varu32 v w = Inr w' \<Longrightarrow> extends w w'"
  by (auto simp: write_varu32_def res_simps intro: write_varu32_loop_extends)

lemma write_vars32_extends [write_extends]: "write_vars32 v w = Inr w' \<Longrightarrow> extends w w'"
  unfolding write_vars32_def by (rule write_varu32_extends)

end
