(* ===== verification/Bit_Roundtrip.thy ===== *)
theory Bit_Roundtrip
  imports Bit_Writer
begin

text \<open>
  What is written is read back.  \<open>holds d w\<close> says that the slice \<open>d\<close> carries every bit that \<open>w\<close>
  has written; the locale \<open>bit_codec\<close> is the contract of a write operation and the read operation
  that inverts it, on any slice that holds the result of the write, at the position where the write
  began.  It is interpreted on every pair of operations of the bitstream crate; the codec crate's
  field and section codecs are built from these interpretations.
\<close>

section \<open>Slices that hold what a writer wrote\<close>

definition reader_at :: "u8 list \<Rightarrow> nat \<Rightarrow> bit_reader" where
  "reader_at d p = \<lparr>rd_data = d, rd_pos = p\<rparr>"

lemma reader_at_sel [simp]: "rd_data (reader_at d p) = d" "rd_pos (reader_at d p) = p"
  by (simp_all add: reader_at_def)

lemma reader_at_upd [simp]: "reader_at d p\<lparr>rd_pos := q\<rparr> = reader_at d q"
  by (simp add: reader_at_def)

lemma reader_new_at: "reader_new d = reader_at d 0"
  by (simp add: reader_new_def reader_at_def)

lemma reader_remaining_at: "reader_bits_remaining (reader_at d p) = bit_capacity d - p"
  by (simp add: reader_bits_remaining_def saturating_sub_def bit_capacity_def)

definition holds :: "u8 list \<Rightarrow> bit_writer \<Rightarrow> bool" where
  "holds d w \<longleftrightarrow> bw_pos w \<le> bit_capacity d \<and>
     (\<forall>i < bw_pos w. bit_at d i = bit_at (bw_buf w) i)"

lemma holds_extends: "holds d w' \<Longrightarrow> extends w w' \<Longrightarrow> holds d w"
  by (auto simp: holds_def extends_def)

lemma holds_self: "writer_ok w \<Longrightarrow> holds (bw_buf w) w"
  by (simp add: holds_def writer_ok_def)

lemma holds_byte:
  assumes "holds d w" and "8 * (j + 1) \<le> bw_pos w"
  shows "d ! j = bw_buf w ! j"
  using assms by (intro byte_eq_from_bits) (simp add: holds_def)

lemma bit_at_take: "i < 8 * n \<Longrightarrow> bit_at (take n bs) i = bit_at bs i"
  by (simp add: bit_at_def div_less_iff_less_mult mult.commute)

lemma bit_at_prefix: "i < 8 * length bs \<Longrightarrow> bit_at (bs @ cs) i = bit_at bs i"
  by (simp add: bit_at_def nth_append div_less_iff_less_mult mult.commute)

lemma finish_bounds: "bw_pos w \<le> 8 * writer_finish w" "8 * writer_finish w < bw_pos w + 8"
  unfolding writer_finish_def div_ceil_def by presburger+

lemma writer_ok_finish: "writer_ok w \<Longrightarrow> writer_finish w \<le> length (bw_buf w)"
  using bit_capacity_le [of "bw_buf w"] finish_bounds(2) [of w] by (simp add: writer_ok_def)

text \<open>The finished prefix of the buffer, alone or followed by other bytes, holds the writer.\<close>

lemma holds_finish_append:
  assumes "writer_ok w"
  shows "holds (take (writer_finish w) (bw_buf w) @ rest) w"
proof -
  let ?d = "take (writer_finish w) (bw_buf w)"
  have len: "length ?d = writer_finish w" using writer_ok_finish [OF assms] by simp
  have "bw_pos w \<le> usize_max"
    using assms by (simp add: writer_ok_def bit_capacity_def saturating_mul_def)
  then have "bw_pos w \<le> bit_capacity (?d @ rest)"
    using finish_bounds(1) [of w] len by (simp add: bit_capacity_def saturating_mul_def)
  moreover have "bit_at (?d @ rest) i = bit_at (bw_buf w) i" if "i < bw_pos w" for i
    using that finish_bounds(1) [of w] len by (simp add: bit_at_prefix bit_at_take)
  ultimately show ?thesis by (simp add: holds_def)
qed

lemma holds_finish: "writer_ok w \<Longrightarrow> holds (take (writer_finish w) (bw_buf w)) w"
  using holds_finish_append [of w "[]"] by simp

section \<open>The contract of a write and its read\<close>

fun try_fold :: "('a \<Rightarrow> 's \<Rightarrow> 'e + 's) \<Rightarrow> 'a list \<Rightarrow> 's \<Rightarrow> 'e + 's" where
  "try_fold f [] s = Inr s"
| "try_fold f (x # xs) s = and_then (f x s) (try_fold f xs)"

fun read_all :: "nat \<Rightarrow> ('r \<Rightarrow> 'e + 'a \<times> 'r) \<Rightarrow> 'r \<Rightarrow> 'e + 'a list \<times> 'r" where
  "read_all 0 rd r = Inr ([], r)"
| "read_all (Suc n) rd r =
     and_then (rd r) (\<lambda>(x, r1). and_then (read_all n rd r1) (\<lambda>(xs, r2). Inr (x # xs, r2)))"

lemma try_fold_append: "try_fold f (xs @ ys) s = and_then (try_fold f xs s) (try_fold f ys)"
proof (induction xs arbitrary: s)
  case (Cons x xs)
  then show ?case by (cases "f x s") auto
qed simp

lemma try_fold_extends:
  "(\<And>x w w'. x \<in> set xs \<Longrightarrow> f x w = Inr w' \<Longrightarrow> extends w w') \<Longrightarrow> try_fold f xs w = Inr w' \<Longrightarrow>
    extends w w'"
proof (induction xs arbitrary: w)
  case (Cons x xs)
  from Cons.prems(2) obtain w1 where w1: "f x w = Inr w1" "try_fold f xs w1 = Inr w'"
    by (auto elim: and_then_E)
  have "extends w w1" using Cons.prems(1) w1(1) by (meson list.set_intros(1))
  moreover have "extends w1 w'"
    by (rule Cons.IH [OF _ w1(2)]) (use Cons.prems(1) in \<open>meson list.set_intros(2)\<close>)
  ultimately show ?case by (rule extends_trans)
qed simp

locale bit_codec =
  fixes wr :: "'a \<Rightarrow> bit_writer \<Rightarrow> 'e + bit_writer"
    and rd :: "bit_reader \<Rightarrow> 'f + 'b \<times> bit_reader"
    and ok :: "'a \<Rightarrow> bool"
    and view :: "'a \<Rightarrow> 'b"
  assumes wr_extends: "wr x w = Inr w' \<Longrightarrow> extends w w'"
    and rd_wr: "wr x w = Inr w' \<Longrightarrow> ok x \<Longrightarrow> holds d w' \<Longrightarrow>
      rd (reader_at d (bw_pos w)) = Inr (view x, reader_at d (bw_pos w'))"
begin

lemma all_extends: "try_fold wr xs w = Inr w' \<Longrightarrow> extends w w'"
  by (rule try_fold_extends) (rule wr_extends)

lemma read_all_try_fold:
  "try_fold wr xs w = Inr w' \<Longrightarrow> list_all ok xs \<Longrightarrow> holds d w' \<Longrightarrow>
    read_all (length xs) rd (reader_at d (bw_pos w)) =
      Inr (map view xs, reader_at d (bw_pos w'))"
proof (induction xs arbitrary: w)
  case (Cons x xs)
  from Cons.prems(1) obtain w1 where w1: "wr x w = Inr w1" "try_fold wr xs w1 = Inr w'"
    by (auto elim: and_then_E)
  have "holds d w1" using all_extends [OF w1(2)] Cons.prems(3) by (rule holds_extends [rotated])
  with rd_wr [OF w1(1)] Cons.prems(2)
  have "rd (reader_at d (bw_pos w)) = Inr (view x, reader_at d (bw_pos w1))" by simp
  with Cons.IH [OF w1(2)] Cons.prems show ?case by simp
qed simp

lemma written_is_read:
  assumes "wr x (writer_new buf) = Inr w'" and "ok x"
  shows "rd (reader_new (take (writer_finish w') (bw_buf w') @ rest)) =
    Inr (view x, reader_at (take (writer_finish w') (bw_buf w') @ rest) (bw_pos w'))"
proof -
  have "writer_ok w'" using wr_extends [OF assms(1)] by (rule extends_ok) simp
  then have "holds (take (writer_finish w') (bw_buf w') @ rest) w'" by (rule holds_finish_append)
  from rd_wr [OF assms this] show ?thesis by (simp add: reader_new_at writer_new_def)
qed

end

section \<open>Single bits and bit fields\<close>

lemma read_bit_at:
  "p < bit_capacity d \<Longrightarrow> read_bit (reader_at d p) = Inr (bit_at d p, reader_at d (Suc p))"
  by (simp add: read_bit_def reader_remaining_at Let_def drop_bit_and_1_iff bit_at_def)

lemma read_bit_written:
  assumes "1 \<le> bit_capacity (bw_buf w) - bw_pos w" and "holds d (write_bit_unchecked v w)"
  shows "read_bit (reader_at d (bw_pos w)) = Inr (v, reader_at d (Suc (bw_pos w)))"
proof -
  have "bw_pos w < 8 * length (bw_buf w)" using assms(1) bit_capacity_le [of "bw_buf w"] by simp
  then have "bit_at d (bw_pos w) = v" "bw_pos w < bit_capacity d"
    using assms(2) by (auto simp: holds_def bit_at_write_bit_unchecked)
  then show ?thesis by (simp add: read_bit_at)
qed

interpretation bits1: bit_codec write_bit read_bit "\<lambda>_. True" "\<lambda>b. b"
proof
  fix x w w' assume wr: "write_bit x w = Inr w'"
  then show "extends w w'" by (rule write_extends)
  fix d assume "holds d w'"
  with wr show "read_bit (reader_at d (bw_pos w)) = Inr (x, reader_at d (bw_pos w'))"
    using read_bit_written [of w d x] by (auto simp: write_bit_def res_simps)
qed

lemma read_bits_loop_written:
  "n \<le> bit_capacity (bw_buf w) - bw_pos w \<Longrightarrow> holds d (write_bits_loop v n w) \<Longrightarrow>
    read_bits_loop n (drop_bit n v) (reader_at d (bw_pos w)) = Inr (v, reader_at d (bw_pos w + n))"
proof (induction n arbitrary: w)
  case (Suc n)
  let ?w = "write_bit_unchecked (drop_bit n v AND 1 = 1) w"
  have "extends ?w (write_bits_loop v n ?w)"
    using Suc.prems(1) by (intro write_bits_loop_extends) simp
  then have "holds d ?w" using Suc.prems(2) by (auto intro: holds_extends)
  then have "read_bit (reader_at d (bw_pos w)) = Inr (bit v n, reader_at d (Suc (bw_pos w)))"
    using Suc.prems(1) read_bit_written [of w d "drop_bit n v AND 1 = 1"]
    by (simp add: drop_bit_and_1_iff)
  moreover have "read_bits_loop n (drop_bit n v) (reader_at d (Suc (bw_pos w))) =
      Inr (v, reader_at d (Suc (bw_pos w) + n))"
    using Suc.IH [of ?w] Suc.prems by simp
  moreover have "push_bit 1 (drop_bit (Suc n) v) OR of_bool (bit v n) = drop_bit n v"
    by (rule word_shift_in_bit)
  ultimately show ?case by (simp only: read_bits_loop.simps and_then.simps prod.case) simp
qed simp

lemma word_less_exp_drop:
  assumes "n < 64" and "v < push_bit n (1 :: u64)"
  shows "drop_bit n v = 0"
proof -
  have "unat v < unat (push_bit n (1 :: u64))" using assms(2) by (simp add: word_less_nat_alt)
  also have "\<dots> = 2 ^ n" 
    unfolding unsigned_push_bit_eq using assms(1)
    by (simp add: push_bit_eq_mult take_bit_nat_eq_self)
  finally show ?thesis by (rule drop_bit_eq_zero_unat)
qed

lemma read_bits_written:
  assumes "write_bits v n w = Inr w'" and "holds d w'" and "n \<noteq> 0 \<or> v = 0"
  shows "read_bits n (reader_at d (bw_pos w)) = Inr (v, reader_at d (bw_pos w'))"
proof (cases "n = 0")
  case True
  then show ?thesis using assms by (simp add: write_bits_def read_bits_def)
next
  case False
  from False assms(1) have n: "n \<le> 64" "n < 64 \<Longrightarrow> v < push_bit (unat n) 1"
    and fits: "unat n \<le> bit_capacity (bw_buf w) - bw_pos w"
    and w': "w' = write_bits_loop v (unat n) w"
    by (auto simp: write_bits_def res_simps not_less not_le split: if_splits)
  have un: "unat n \<le> 64" "n < 64 \<longleftrightarrow> unat n < 64" "0 < unat n"
    using n(1) False by (simp_all add: word_le_nat_alt word_less_nat_alt unat_gt_0)
  have "drop_bit (unat n) v = 0"
  proof (cases "n < 64")
    case True
    then show ?thesis using n(2) un(2) by (intro word_less_exp_drop) auto
  next
    case False
    then have "unat n = 64" using un by simp
    then show ?thesis by (intro drop_bit_eq_zero_unat) (use unsigned_less [of v] in simp)
  qed
  moreover have "bw_pos w + unat n \<le> bit_capacity d" using assms(2) w' by (simp add: holds_def)
  ultimately show ?thesis
    using False n(1) read_bits_loop_written [OF fits, of d v] assms(2) w'
    by (simp add: read_bits_def reader_remaining_at not_less)
qed

interpretation bits: bit_codec "\<lambda>v. write_bits v n" "read_bits n" "\<lambda>v. n \<noteq> 0 \<or> v = 0" "\<lambda>v. v"
  for n
  by unfold_locales (auto intro: write_extends read_bits_written)


section \<open>Aligned bytes\<close>

lemma read_aligned_bytes_written:
  assumes "write_bytes_aligned bs w = Inr w'" and "holds d w'"
  shows "read_aligned_bytes (length bs) (reader_at d (bw_pos w)) = Inr (bs, reader_at d (bw_pos w'))"
proof -
  let ?k = "bw_pos w div 8"
  from assms(1) have al: "bw_pos w mod 8 = 0"
    and fits: "length bs * 8 \<le> bit_capacity (bw_buf w) - bw_pos w"
    and w': "w' = w\<lparr>bw_buf := splice (bw_buf w) ?k bs, bw_pos := bw_pos w + length bs * 8\<rparr>"
    by (auto simp: write_bytes_aligned_def res_simps Let_def)
  have pos: "bw_pos w = 8 * ?k" using al by auto
  have cap: "bw_pos w + length bs * 8 \<le> bit_capacity d" using assms(2) w' by (simp add: holds_def)
  then have len: "?k + length bs \<le> length d"
    using bit_capacity_le [of d] pos by linarith
  have "sub_slice d ?k (?k + length bs) = bs"
  proof (rule nth_equalityI)
    show "length (sub_slice d ?k (?k + length bs)) = length bs" using len by simp
    fix j assume "j < length (sub_slice d ?k (?k + length bs))"
    then have j: "j < length bs" using len by simp
    have bl: "?k + length bs \<le> length (bw_buf w)"
      using fits bit_capacity_le [of "bw_buf w"] pos j by linarith
    have "8 * (?k + j + 1) \<le> bw_pos w'" using w' pos j by simp
    then have "d ! (?k + j) = splice (bw_buf w) ?k bs ! (?k + j)"
      using holds_byte [OF assms(2)] w' by simp
    also have "\<dots> = bs ! j" using bl j by (simp add: nth_splice)
    finally show "sub_slice d ?k (?k + length bs) ! j = bs ! j"
      using j len by (simp add: sub_slice_def)
  qed
  then show ?thesis
    using al cap w' by (simp add: read_aligned_bytes_def reader_ensure_aligned_def
        reader_ensure_bits_def reader_remaining_at Let_def)
qed

lemma read_u8_as_bytes:
  assumes "read_aligned_bytes 1 r = Inr ([b], r')"
  shows "read_u8_aligned r = Inr (b, r')"
proof -
  from assms have al: "rd_pos r mod 8 = 0" and e: "reader_ensure_bits 8 r = Inr ()"
    and b: "sub_slice (rd_data r) (rd_pos r div 8) (rd_pos r div 8 + 1) = [b]"
    and r': "r' = r\<lparr>rd_pos := rd_pos r + 8\<rparr>"
    by (auto simp: read_aligned_bytes_def res_simps reader_ensure_aligned_def Let_def
        split: if_splits)
  from b have "rd_data r ! (rd_pos r div 8) = b"
    by (cases "drop (rd_pos r div 8) (rd_data r)")
       (auto simp: sub_slice_def dest: nth_via_drop)
  with al e r' show ?thesis
    by (simp add: read_u8_aligned_def reader_ensure_aligned_def Let_def)
qed

interpretation u8s: bit_codec write_u8_aligned read_u8_aligned "\<lambda>_. True" "\<lambda>v. v"
proof
  fix x w w' assume wr: "write_u8_aligned x w = Inr w'"
  then show "extends w w'" by (rule write_extends)
  fix d assume "holds d w'"
  with wr read_aligned_bytes_written [of "[x]"]
  have "read_aligned_bytes 1 (reader_at d (bw_pos w)) = Inr ([x], reader_at d (bw_pos w'))"
    by (simp add: write_u8_as_bytes)
  then show "read_u8_aligned (reader_at d (bw_pos w)) = Inr (x, reader_at d (bw_pos w'))"
    by (rule read_u8_as_bytes)
qed

lemma read_le_written:
  assumes "write_bytes_aligned (to_le_bytes n x) w = Inr w'" and "holds d w'"
    and "LENGTH('a) \<le> 8 * n"
  shows "and_then (read_aligned_bytes n (reader_at d (bw_pos w)))
      (\<lambda>(bytes, r'). Inr (from_le_bytes bytes, r')) =
    Inr (x :: 'a::len word, reader_at d (bw_pos w'))"
  using read_aligned_bytes_written [OF assms(1,2)] assms(3) by (simp add: from_to_le_bytes)

interpretation u16s: bit_codec write_u16_aligned read_u16_aligned "\<lambda>_. True" "\<lambda>v. v"
  by unfold_locales
    (auto simp: write_u16_aligned_def read_u16_aligned_def intro: write_bytes_extends read_le_written)

interpretation u32s: bit_codec write_u32_aligned read_u32_aligned "\<lambda>_. True" "\<lambda>v. v"
  by unfold_locales
    (auto simp: write_u32_aligned_def read_u32_aligned_def intro: write_bytes_extends read_le_written)

interpretation u64s: bit_codec write_u64_aligned read_u64_aligned "\<lambda>_. True" "\<lambda>v. v"
  by unfold_locales
    (auto simp: write_u64_aligned_def read_u64_aligned_def intro: write_bytes_extends read_le_written)

section \<open>Alignment\<close>

lemma padding_pos:
  "writer_align_to_byte w = Inr w' \<Longrightarrow> bw_pos w' mod 8 = 0 \<and> bw_pos w' = 8 * div_ceil (bw_pos w) 8"
proof -
  assume a: "writer_align_to_byte w = Inr w'"
  show ?thesis
  proof (cases "bw_pos w mod 8 = 0")
    case True
    with a have "w' = w" by (simp add: writer_align_to_byte_def)
    with True show ?thesis by (simp add: div_ceil_8_aligned)
  next
    case False
    with a have "w' = write_padding (8 - bw_pos w mod 8) w"
      and "8 - bw_pos w mod 8 \<le> bit_capacity (bw_buf w) - bw_pos w"
      by (auto simp: writer_align_to_byte_def res_simps Let_def)
    then have "bw_pos w' = bw_pos w + (8 - bw_pos w mod 8)" using padding_extends by simp
    with div_ceil_8_padded [OF False] show ?thesis by (metis mod_mult_self1_is_0)
  qed
qed

lemma reader_align_written:
  assumes "writer_align_to_byte w = Inr w'" and "holds d w'"
  shows "reader_align_to_byte (reader_at d (bw_pos w)) = Inr (reader_at d (bw_pos w'))"
proof -
  have cap: "bw_pos w' \<le> bit_capacity d" using assms(2) by (simp add: holds_def)
  have pos: "bw_pos w' = 8 * div_ceil (bw_pos w) 8" using padding_pos [OF assms(1)] by simp
  show ?thesis
  proof (cases "bw_pos w mod 8 = 0")
    case True
    then have "bw_pos w' = bw_pos w" using pos by (simp add: div_ceil_8_aligned)
    with True show ?thesis by (simp add: reader_align_to_byte_def)
  next
    case False
    then have "bw_pos w' = bw_pos w + (8 - bw_pos w mod 8)"
      using pos by (simp add: div_ceil_8_padded)
    with False cap show ?thesis
      by (simp add: reader_align_to_byte_def reader_remaining_at Let_def)
  qed
qed


section \<open>Varints\<close>

lemma write_varu32_loop_bytes:
  assumes "bw_pos w mod 8 = 0"
  shows "write_varu32_loop v w = try_fold write_u8_aligned (varint_encode v) w"
  using assms
proof (induction v w rule: write_varu32_loop.induct)
  case (1 v w)
  have al: "bw_pos w' mod 8 = 0" if "write_u8_aligned b w = Inr w'" for b w'
    using that "1.prems" by (auto simp: write_u8_aligned_def res_simps Let_def)
  show ?case
  proof (cases "write_u8_aligned (varint_byte v) w")
    case (Inr w')
    with "1.IH" [OF Inr] al [OF Inr] show ?thesis
      by (subst write_varu32_loop.simps, subst varint_encode.simps) simp
  qed (subst write_varu32_loop.simps, subst varint_encode.simps, simp)
qed

text \<open>The reader's loop computes the reference decoder on the bytes from its position on.\<close>

lemma read_u8_at:
  assumes "8 * (k + 1) \<le> bit_capacity d"
  shows "read_u8_aligned (reader_at d (8 * k)) = Inr (d ! k, reader_at d (8 * (k + 1)))"
  using assms by (simp add: read_u8_aligned_def reader_ensure_aligned_def reader_ensure_bits_def
      reader_remaining_at Let_def)

lemma read_varu32_loop_groups:
  "varint_groups ss acc (drop k d) = Some (v, rest) \<Longrightarrow> 8 * (length d - length rest) \<le> bit_capacity d \<Longrightarrow>
    read_varu32_loop ss acc (reader_at d (8 * k)) = Inr (v, reader_at d (8 * (length d - length rest)))"
proof (induction ss acc "drop k d" arbitrary: k rule: varint_groups.induct)
  case (3 s ss acc b bs)
  have k: "k < length d" "d ! k = b" "bs = drop (Suc k) d"
    using "3.hyps"(2) by (metis drop_all linorder_not_less list.distinct(1), metis nth_via_drop,
        metis drop_Suc tl_drop list.sel(3))
  obtain used where u: "b # bs = used @ rest" "0 < length used"
    using varint_groups_suffix "3.prems"(1) "3.hyps"(2) by metis
  then have "length rest \<le> length bs"
    by (cases used) auto
  then have "Suc k \<le> length d - length rest" using k by simp
  then have "8 * (k + 1) \<le> bit_capacity d" using "3.prems"(2) by simp
  note rd = read_u8_at [OF this]
  show ?case
  proof (cases "b AND 0x80 = 0")
    case True
    then have "rest = bs" "v = acc OR push_bit s (ucast (b AND 0x7F))"
      using "3.prems"(1) "3.hyps"(2) [symmetric] by (simp_all add: Let_def)
    moreover have "length d - length bs = k + 1" using k by simp
    ultimately show ?thesis using True rd k(2) by (simp add: Let_def)
  next
    case False
    with "3.prems" "3.hyps"(2) [symmetric] "3.hyps"(1) [OF refl False, of "Suc k"] k rd
    show ?thesis by (simp add: Let_def)
  qed
next
  case (2 s ss acc)
  then show ?case by (metis option.distinct(1) varint_groups.simps(2))
qed simp

lemma read_varu32_at:
  assumes "varint_decode (drop k d) = Some (v, rest)"
    and "8 * (length d - length rest) \<le> bit_capacity d"
  shows "read_varu32 (reader_at d (8 * k)) = Inr (v, reader_at d (8 * (length d - length rest)))"
  using read_varu32_loop_groups [OF assms(1) [unfolded varint_decode_def] assms(2)]
  by (simp only: read_varu32_def reader_ensure_aligned_def reader_at_sel) simp


text \<open>A list of bytes written one by one is the same buffer as the list written at once.\<close>

lemma try_fold_u8_read:
  assumes "try_fold write_u8_aligned bs w = Inr w'" and "holds d w'" and "bw_pos w mod 8 = 0"
  shows "bw_pos w' = bw_pos w + 8 * length bs \<and>
    (bs \<noteq> [] \<longrightarrow> take (length bs) (drop (bw_pos w div 8) d) = bs)"
  using assms
proof (induction bs arbitrary: w)
  case (Cons b bs)
  from Cons.prems(1) obtain w1 where w1: "write_u8_aligned b w = Inr w1"
    and rest: "try_fold write_u8_aligned bs w1 = Inr w'"
    by (auto elim: and_then_E)
  have pos1: "bw_pos w1 = bw_pos w + 8"
    using w1 by (auto simp: write_u8_aligned_def res_simps Let_def)
  have "holds d w1" using u8s.all_extends [OF rest] Cons.prems(2) by (auto intro: holds_extends)
  with u8s.rd_wr [OF w1] have rd: "read_u8_aligned (reader_at d (bw_pos w)) = Inr (b, reader_at d (bw_pos w1))"
    by simp
  then have "d ! (bw_pos w div 8) = b"
    by (auto simp: read_u8_aligned_def res_simps Let_def)
  moreover have "bw_pos w1 \<le> bit_capacity d" using \<open>holds d w1\<close> by (simp add: holds_def)
  then have "bw_pos w div 8 < length d"
    using pos1 by (intro bit_capacity_div) simp
  ultimately have dk: "drop (bw_pos w div 8) d = b # drop (Suc (bw_pos w div 8)) d"
    by (metis Cons_nth_drop_Suc)
  have "bw_pos w1 div 8 = Suc (bw_pos w div 8)" "bw_pos w1 mod 8 = 0"
    using pos1 Cons.prems(3) by simp_all
  with Cons.IH [OF rest Cons.prems(2)] dk pos1 show ?case
    by (cases bs) simp_all
qed simp

lemma read_varu32_written:
  assumes "write_varu32 v w = Inr w'" and "holds d w'"
  shows "read_varu32 (reader_at d (bw_pos w)) = Inr (v, reader_at d (bw_pos w'))"
proof -
  let ?k = "bw_pos w div 8" and ?n = "length (varint_encode v)"
  from assms(1) have al: "bw_pos w mod 8 = 0"
    and wr: "try_fold write_u8_aligned (varint_encode v) w = Inr w'"
    by (auto simp: write_varu32_def res_simps write_varu32_loop_bytes)
  from try_fold_u8_read [OF wr assms(2) al]
  have pos: "bw_pos w' = bw_pos w + 8 * ?n" and tk: "take ?n (drop ?k d) = varint_encode v"
    by simp_all
  have k: "bw_pos w = 8 * ?k" using al by auto
  have "drop ?k d = varint_encode v @ drop ?n (drop ?k d)"
    using tk by (metis append_take_drop_id)
  then have dec: "varint_decode (drop ?k d) = Some (v, drop ?n (drop ?k d))"
    by (metis varint_decode_encode)
  have cap: "bw_pos w' \<le> bit_capacity d" using assms(2) by (simp add: holds_def)
  then have "length d - length (drop ?n (drop ?k d)) = ?k + ?n"
    using bit_capacity_le [of d] pos k by simp
  with read_varu32_at [OF dec] cap pos k show ?thesis by simp
qed

interpretation varu32s: bit_codec write_varu32 read_varu32 "\<lambda>_. True" "\<lambda>v. v"
  by unfold_locales (auto intro: write_extends read_varu32_written)

section \<open>Zigzag\<close>

lemma bit_signed_drop_31: "i < 32 \<Longrightarrow> bit (signed_drop_bit 31 (v :: i32)) i \<longleftrightarrow> bit v 31"
  by (cases "i = 0") (auto simp: bit_signed_drop_bit_iff min_def)

lemma zigzag_decode_encode: "zigzag_decode (zigzag_encode v) = v"
proof (rule bit_word_eqI)
  fix i assume "i < LENGTH(32)"
  then have i: "i < 32" by simp
  let ?z = "zigzag_encode v"
  have zj: "bit ?z j \<longleftrightarrow> (1 \<le> j \<and> bit v (j - 1)) \<noteq> bit v 31" if "j < 32" for j
    using that
    by (simp only: zigzag_encode_def bit_xor_iff bit_push_bit_iff bit_signed_drop_31) auto
  have z0: "bit ?z 0 \<longleftrightarrow> bit v 31" using zj [of 0] by simp
  have "?z AND 1 = of_bool (bit v 31)"
    using z0 by (auto simp: and_one_eq mod2_eq_if bit_0)
  then have neg: "bit (- (?z AND 1)) i \<longleftrightarrow> bit v 31"
    using i by (cases "bit v 31") (auto simp: bit_minus_1_iff)
  have "bit (drop_bit 1 ?z) i \<longleftrightarrow> (i < 31 \<and> (bit v i \<noteq> bit v 31))"
    using zj [of "Suc i"] bit_above_length [of "Suc i" ?z]
    by (cases "i < 31") (auto simp: bit_drop_bit_eq)
  with neg i show "bit (zigzag_decode ?z) i = bit v i"
    unfolding zigzag_decode_def bit_xor_iff by (cases "i = 31") auto
qed

interpretation vars32s: bit_codec write_vars32 read_vars32 "\<lambda>_. True" "\<lambda>v. v"
proof
  fix x w w' assume wr: "write_vars32 x w = Inr w'"
  then show "extends w w'" by (rule write_extends)
  fix d assume "holds d w'"
  with wr show "read_vars32 (reader_at d (bw_pos w)) = Inr (x, reader_at d (bw_pos w'))"
    by (simp add: write_vars32_def read_vars32_def read_varu32_written zigzag_decode_encode)
qed

end
