(* ===== verification/Bit_Vec_Writer.thy ===== *)
theory Bit_Vec_Writer
  imports Bit_Roundtrip
begin

text \<open>
  The growable bit writer of the bitstream crate (\<^verbatim>\<open>BitVecWriter\<close> in bitstream/src/writer.rs), its
  buffer-length invariant, and its relation to the bounded writer: after the growth step every
  operation is the bounded writer's operation on the grown buffer, so that what the growable writer
  emits is read back by the same reader.
\<close>

record bit_vec_writer =
  vw_buf :: "u8 list"
  vw_pos :: usize

definition vec_writer_new :: bit_vec_writer where
  "vec_writer_new = \<lparr>vw_buf = [], vw_pos = 0\<rparr>"

text \<open>The capacity only reserves memory; the buffer starts empty.\<close>

definition vec_writer_with_capacity :: "usize \<Rightarrow> bit_vec_writer" where
  "vec_writer_with_capacity bytes = \<lparr>vw_buf = [], vw_pos = 0\<rparr>"

definition vec_bits_written :: "bit_vec_writer \<Rightarrow> usize" where
  "vec_bits_written v = vw_pos v"

definition vec_ensure_capacity_bits :: "usize \<Rightarrow> bit_vec_writer \<Rightarrow> bit_vec_writer" where
  "vec_ensure_capacity_bits n v =
    (let required_bits = vw_pos v + n;
         required_bytes = div_ceil required_bits 8
     in if required_bytes > length (vw_buf v) then
          v\<lparr>vw_buf := vw_buf v @ replicate (required_bytes - length (vw_buf v)) 0\<rparr>
        else v)"

definition vec_ensure_aligned :: "bit_vec_writer \<Rightarrow> bit_error + unit" where
  "vec_ensure_aligned v =
    (if vw_pos v mod 8 \<noteq> 0 then Inl (MisalignedAccess (vw_pos v)) else Inr ())"

definition vec_write_bit_unchecked :: "bool \<Rightarrow> bit_vec_writer \<Rightarrow> bit_vec_writer" where
  "vec_write_bit_unchecked value v =
    (let byte_idx = vw_pos v div 8;
         bit_idx = vw_pos v mod 8;
         mask = push_bit (7 - bit_idx) (1 :: u8);
         old = vw_buf v ! byte_idx
     in v\<lparr>vw_buf := (vw_buf v)[byte_idx := (if value then old OR mask else old AND NOT mask)],
          vw_pos := vw_pos v + 1\<rparr>)"

definition vec_write_bit :: "bool \<Rightarrow> bit_vec_writer \<Rightarrow> bit_vec_writer" where
  "vec_write_bit value v = vec_write_bit_unchecked value (vec_ensure_capacity_bits 1 v)"

fun vec_write_bits_loop :: "u64 \<Rightarrow> nat \<Rightarrow> bit_vec_writer \<Rightarrow> bit_vec_writer" where
  "vec_write_bits_loop value 0 v = v"
| "vec_write_bits_loop value (Suc i) v =
     vec_write_bits_loop value i (vec_write_bit_unchecked (drop_bit i value AND 1 = 1) v)"

definition vec_write_bits :: "u64 \<Rightarrow> u8 \<Rightarrow> bit_vec_writer \<Rightarrow> bit_error + bit_vec_writer" where
  "vec_write_bits value n v =
    (if n > 64 then Inl (InvalidBitCount n 64)
     else if n = 0 then Inr v
     else if n < 64 \<and> value \<ge> push_bit (unat n) 1 then Inl (ValueOutOfRange value n)
     else Inr (vec_write_bits_loop value (unat n) (vec_ensure_capacity_bits (unat n) v)))"

fun vec_write_padding :: "nat \<Rightarrow> bit_vec_writer \<Rightarrow> bit_vec_writer" where
  "vec_write_padding 0 v = v"
| "vec_write_padding (Suc n) v = vec_write_padding n (vec_write_bit_unchecked False v)"

definition vec_align_to_byte :: "bit_vec_writer \<Rightarrow> bit_vec_writer" where
  "vec_align_to_byte v =
    (let rem = vw_pos v mod 8 in
     if rem = 0 then v
     else
       let padding = 8 - rem
       in vec_write_padding padding (vec_ensure_capacity_bits padding v))"

definition vec_write_u8_aligned :: "u8 \<Rightarrow> bit_vec_writer \<Rightarrow> bit_error + bit_vec_writer" where
  "vec_write_u8_aligned value v =
    and_then (vec_ensure_aligned v) (\<lambda>_.
      let v' = vec_ensure_capacity_bits 8 v; idx = vw_pos v' div 8
      in Inr (v'\<lparr>vw_buf := (vw_buf v')[idx := value], vw_pos := vw_pos v' + 8\<rparr>))"

definition vec_write_bytes_aligned :: "u8 list \<Rightarrow> bit_vec_writer \<Rightarrow> bit_error + bit_vec_writer" where
  "vec_write_bytes_aligned bytes v =
    and_then (vec_ensure_aligned v) (\<lambda>_.
      let v' = vec_ensure_capacity_bits (length bytes * 8) v; idx = vw_pos v' div 8
      in Inr (v'\<lparr>vw_buf := splice (vw_buf v') idx bytes,
                 vw_pos := vw_pos v' + length bytes * 8\<rparr>))"

definition vec_write_u16_aligned :: "u16 \<Rightarrow> bit_vec_writer \<Rightarrow> bit_error + bit_vec_writer" where
  "vec_write_u16_aligned value v = vec_write_bytes_aligned (to_le_bytes 2 value) v"

definition vec_write_u32_aligned :: "u32 \<Rightarrow> bit_vec_writer \<Rightarrow> bit_error + bit_vec_writer" where
  "vec_write_u32_aligned value v = vec_write_bytes_aligned (to_le_bytes 4 value) v"

definition vec_write_u64_aligned :: "u64 \<Rightarrow> bit_vec_writer \<Rightarrow> bit_error + bit_vec_writer" where
  "vec_write_u64_aligned value v = vec_write_bytes_aligned (to_le_bytes 8 value) v"

function vec_write_varu32_loop :: "u32 \<Rightarrow> bit_vec_writer \<Rightarrow> bit_error + bit_vec_writer" where
  "vec_write_varu32_loop value v =
    and_then (vec_write_u8_aligned (varint_byte value) v) (\<lambda>v'.
      if drop_bit 7 value = 0 then Inr v' else vec_write_varu32_loop (drop_bit 7 value) v')"
  by pat_completeness auto
termination
  by (relation "measure (\<lambda>(value, v). unat value)") (auto intro: drop_bit_7_less)

declare vec_write_varu32_loop.simps [simp del]

definition vec_write_varu32 :: "u32 \<Rightarrow> bit_vec_writer \<Rightarrow> bit_error + bit_vec_writer" where
  "vec_write_varu32 value v =
    and_then (vec_ensure_aligned v) (\<lambda>_. vec_write_varu32_loop value v)"

definition vec_write_vars32 :: "i32 \<Rightarrow> bit_vec_writer \<Rightarrow> bit_error + bit_vec_writer" where
  "vec_write_vars32 value v = vec_write_varu32 (zigzag_encode value) v"

definition vec_finish :: "bit_vec_writer \<Rightarrow> u8 list" where
  "vec_finish v = (let bytes = div_ceil (vw_pos v) 8 in take bytes (vw_buf v))"

section \<open>The buffer is exactly as long as the bits written\<close>

definition vec_ok :: "bit_vec_writer \<Rightarrow> bool" where
  "vec_ok v \<longleftrightarrow> length (vw_buf v) = div_ceil (vw_pos v) 8"

definition as_bounded :: "bit_vec_writer \<Rightarrow> bit_writer" where
  "as_bounded v = \<lparr>bw_buf = vw_buf v, bw_pos = vw_pos v\<rparr>"

lemma as_bounded_sel [simp]: "bw_buf (as_bounded v) = vw_buf v" "bw_pos (as_bounded v) = vw_pos v"
  by (simp_all add: as_bounded_def)

lemma div_ceil_mono: "a \<le> b \<Longrightarrow> div_ceil a 8 \<le> div_ceil b 8"
  by (simp add: div_ceil_def div_le_mono)

lemma grown_length:
  "vec_ok v \<Longrightarrow> length (vw_buf (vec_ensure_capacity_bits n v)) = div_ceil (vw_pos v + n) 8"
  using div_ceil_mono [of "vw_pos v" "vw_pos v + n"]
  by (auto simp: vec_ok_def vec_ensure_capacity_bits_def Let_def)

lemma grown_pos [simp]: "vw_pos (vec_ensure_capacity_bits n v) = vw_pos v"
  by (simp add: vec_ensure_capacity_bits_def Let_def)

lemma unchecked_bounded:
  "as_bounded (vec_write_bit_unchecked b v) = write_bit_unchecked b (as_bounded v)"
  by (simp add: as_bounded_def vec_write_bit_unchecked_def write_bit_unchecked_def Let_def)

lemma unchecked_length [simp]:
  "length (vw_buf (vec_write_bit_unchecked b v)) = length (vw_buf v)"
  "vw_pos (vec_write_bit_unchecked b v) = Suc (vw_pos v)"
  by (simp_all add: vec_write_bit_unchecked_def Let_def)

lemma bits_loop_bounded:
  "as_bounded (vec_write_bits_loop value n v) = write_bits_loop value n (as_bounded v)"
  by (induction n arbitrary: v) (simp_all add: unchecked_bounded)

lemma bits_loop_length [simp]:
  "length (vw_buf (vec_write_bits_loop value n v)) = length (vw_buf v)"
  "vw_pos (vec_write_bits_loop value n v) = vw_pos v + n"
  by (induction n arbitrary: v) simp_all

lemma padding_length:
  "length (vw_buf (vec_write_padding n v)) = length (vw_buf v) \<and>
   vw_pos (vec_write_padding n v) = vw_pos v + n"
  by (induction n arbitrary: v) simp_all

lemma vec_write_bit_ok: "vec_ok v \<Longrightarrow> vec_ok (vec_write_bit b v)"
  using grown_length [of v 1] by (simp add: vec_write_bit_def vec_ok_def [of "vec_write_bit_unchecked b x" for b x])

lemma vec_write_bits_ok: "vec_ok v \<Longrightarrow> vec_write_bits value n v = Inr v' \<Longrightarrow> vec_ok v'"
  using grown_length [of v "unat n"]
  by (auto simp: vec_write_bits_def vec_ok_def [of "vec_write_bits_loop a m x" for a m x] split: if_splits)

lemma vec_align_ok: "vec_ok v \<Longrightarrow> vec_ok (vec_align_to_byte v) \<and> vw_pos (vec_align_to_byte v) mod 8 = 0"
proof (cases "vw_pos v mod 8 = 0")
  case False
  assume ok: "vec_ok v"
  let ?p = "8 - vw_pos v mod 8"
  have "vec_ok (vec_write_padding ?p (vec_ensure_capacity_bits ?p v))"
    using grown_length [OF ok, of ?p] padding_length [of ?p "vec_ensure_capacity_bits ?p v"]
    by (simp add: vec_ok_def)
  moreover have "vw_pos v + ?p = 8 * div_ceil (vw_pos v) 8"
    using div_ceil_8_padded [OF False] by simp
  ultimately show ?thesis
    using False padding_length [of ?p "vec_ensure_capacity_bits ?p v"]
    by (simp add: vec_align_to_byte_def Let_def)
qed (simp add: vec_align_to_byte_def)

text \<open>At an aligned position, writing bytes appends them.\<close>

lemma grown_append:
  assumes "vec_ok v" and "vw_pos v mod 8 = 0"
  shows "vw_buf (vec_ensure_capacity_bits (n * 8) v) = vw_buf v @ replicate n 0"
proof -
  have len: "8 * length (vw_buf v) = vw_pos v"
    using assms div_ceil_8_aligned by (simp add: vec_ok_def)
  have "(vw_pos v + n * 8) mod 8 = 0" using assms(2) by simp
  from div_ceil_8_aligned [OF this] len have "div_ceil (vw_pos v + n * 8) 8 = length (vw_buf v) + n"
    by simp
  then show ?thesis by (simp add: vec_ensure_capacity_bits_def Let_def)
qed

lemma vec_write_bytes_append:
  assumes "vec_ok v" and "vw_pos v mod 8 = 0"
  shows "vec_write_bytes_aligned bytes v =
    Inr \<lparr>vw_buf = vw_buf v @ bytes, vw_pos = vw_pos v + length bytes * 8\<rparr>"
proof -
  have "vw_pos v div 8 = length (vw_buf v)"
    using assms div_ceil_8_aligned [OF assms(2)] by (simp add: vec_ok_def)
  then show ?thesis
    using assms grown_append [OF assms, of "length bytes"]
    by (simp add: vec_write_bytes_aligned_def vec_ensure_aligned_def Let_def splice_def)
qed

lemma vec_write_u8_append:
  assumes "vec_ok v" and "vw_pos v mod 8 = 0"
  shows "vec_write_u8_aligned b v = Inr \<lparr>vw_buf = vw_buf v @ [b], vw_pos = vw_pos v + 8\<rparr>"
proof -
  have "vw_pos v div 8 = length (vw_buf v)"
    using assms div_ceil_8_aligned [OF assms(2)] by (simp add: vec_ok_def)
  then show ?thesis
    using assms grown_append [OF assms, of 1]
    by (simp add: vec_write_u8_aligned_def vec_ensure_aligned_def Let_def)
qed

lemma vec_ok_append:
  assumes "vec_ok v" and "vw_pos v mod 8 = 0"
  shows "vec_ok \<lparr>vw_buf = vw_buf v @ bs, vw_pos = vw_pos v + length bs * 8\<rparr>"
  using assms div_ceil_8_aligned [of "vw_pos v"] div_ceil_8_aligned [of "vw_pos v + length bs * 8"]
  by (simp add: vec_ok_def)

lemma vec_write_varu32_loop_append:
  "vec_ok v \<Longrightarrow> vw_pos v mod 8 = 0 \<Longrightarrow> vec_write_varu32_loop x v =
    Inr \<lparr>vw_buf = vw_buf v @ varint_encode x, vw_pos = vw_pos v + length (varint_encode x) * 8\<rparr>"
proof (induction x v rule: vec_write_varu32_loop.induct)
  case (1 x v)
  let ?v = "\<lparr>vw_buf = vw_buf v @ [varint_byte x], vw_pos = vw_pos v + 8\<rparr>"
  note wr = vec_write_u8_append [OF "1.prems", of "varint_byte x"]
  have ok: "vec_ok ?v" using vec_ok_append [OF "1.prems", of "[varint_byte x]"] by simp
  show ?case
    using "1.IH" [OF wr] ok "1.prems"(2)
    by (subst vec_write_varu32_loop.simps, subst (1 2) varint_encode.simps) (simp add: wr)
qed

lemma vec_write_varu32_append:
  "vec_ok v \<Longrightarrow> vw_pos v mod 8 = 0 \<Longrightarrow> vec_write_varu32 x v =
    Inr \<lparr>vw_buf = vw_buf v @ varint_encode x, vw_pos = vw_pos v + length (varint_encode x) * 8\<rparr>"
  by (simp add: vec_write_varu32_def vec_ensure_aligned_def vec_write_varu32_loop_append)

section \<open>Agreement with the bounded writer\<close>

text \<open>
  On a buffer that fits the address space, a bit field written by the growable writer is the bit
  field that the bounded writer puts into the grown buffer.
\<close>

lemma vec_write_bits_bounded:
  assumes "vec_ok v" and "vw_pos v + unat n \<le> usize_max"
  shows "write_bits value n (as_bounded (vec_ensure_capacity_bits (unat n) v)) =
    and_then (vec_write_bits value n v) (\<lambda>v'. Inr (as_bounded v'))"
proof -
  let ?g = "vec_ensure_capacity_bits (unat n) v"
  have "vw_pos v + unat n \<le> 8 * div_ceil (vw_pos v + unat n) 8"
    using div_ceil_8_aligned [of "vw_pos v + unat n"] div_ceil_8_padded [of "vw_pos v + unat n"]
    by (cases "(vw_pos v + unat n) mod 8 = 0") auto
  then have "unat n \<le> bit_capacity (vw_buf ?g) - vw_pos v"
    using grown_length [OF assms(1), of "unat n"] assms(2)
    by (simp add: bit_capacity_def saturating_mul_def)
  then have "writer_ensure_bits (unat n) (as_bounded ?g) = Inr ()"
    by (simp only: writer_ensure_bits_Inr as_bounded_sel grown_pos)
  then have e: "and_then (writer_ensure_bits (unat n) (as_bounded ?g)) f = f ()"
    for f :: "unit \<Rightarrow> bit_error + bit_writer"
    by (simp only: and_then.simps)
  have "vec_ensure_capacity_bits 0 v = v"
    using assms(1) by (simp add: vec_ensure_capacity_bits_def vec_ok_def Let_def)
  with e show ?thesis
    by (simp add: write_bits_def vec_write_bits_def bits_loop_bounded)
qed

lemma vec_ok_finish: "vec_ok v \<Longrightarrow> vec_finish v = vw_buf v"
  by (simp add: vec_ok_def vec_finish_def)

lemma vec_bits_roundtrip:
  assumes "vec_ok v" and "vec_write_bits value n v = Inr v'" and "vw_pos v + unat n \<le> usize_max"
    and "n \<noteq> 0"
  shows "read_bits n (reader_at (vec_finish v') (vw_pos v)) =
    Inr (value, reader_at (vec_finish v') (vw_pos v + unat n))"
proof -
  let ?g = "vec_ensure_capacity_bits (unat n) v"
  have ok': "vec_ok v'" using vec_write_bits_ok [OF assms(1,2)] .
  have pos: "vw_pos v' = vw_pos v + unat n"
    using assms(2,4) by (auto simp: vec_write_bits_def split: if_splits)
  have wr: "write_bits value n (as_bounded ?g) = Inr (as_bounded v')"
    using vec_write_bits_bounded [OF assms(1,3)] assms(2) by simp
  have "vw_pos v' \<le> 8 * length (vw_buf v')"
    using ok' div_ceil_8_aligned [of "vw_pos v'"] div_ceil_8_padded [of "vw_pos v'"]
    by (cases "vw_pos v' mod 8 = 0") (auto simp: vec_ok_def)
  then have "holds (vec_finish v') (as_bounded v')"
    using assms(3) pos vec_ok_finish [OF ok']
    by (simp add: holds_def bit_capacity_def saturating_mul_def)
  from bits.rd_wr [OF wr _ this] assms(4) pos show ?thesis by simp
qed

end
