(* ===== verification/Schema_Model.thy ===== *)
theory Schema_Model
  imports Sdec_Prelude
begin

text \<open>
  The schema crate: identifiers (schema/src/lib.rs), field definitions (schema/src/field.rs), schemas,
  their builder and their validation (schema/src/schema.rs, schema/src/error.rs).  Validation is
  characterised as one predicate on the whole schema, and the builder as validation of the component
  list it was given.
\<close>

section \<open>Identifiers\<close>

text \<open>
  The code's ids wrap \<^verbatim>\<open>NonZeroU16\<close>; a zero id cannot be constructed there.  Here the id is the
  wrapped word, \<open>new\<close> refuses zero, and a zero id inside a schema is excluded by \<open>schema_ids_ok\<close> where
  a lemma needs it.
\<close>

datatype component_id = ComponentId u16

fun component_id_get :: "component_id \<Rightarrow> u16" where
  "component_id_get (ComponentId raw) = raw"

definition component_id_new :: "u16 \<Rightarrow> component_id option" where
  "component_id_new raw = (if raw = 0 then None else Some (ComponentId raw))"

datatype field_id = FieldId u16

fun field_id_get :: "field_id \<Rightarrow> u16" where
  "field_id_get (FieldId raw) = raw"

definition field_id_new :: "u16 \<Rightarrow> field_id option" where
  "field_id_new raw = (if raw = 0 then None else Some (FieldId raw))"

instantiation component_id :: linorder
begin

definition less_eq_component_id :: "component_id \<Rightarrow> component_id \<Rightarrow> bool" where
  "less_eq_component_id a b \<longleftrightarrow> component_id_get a \<le> component_id_get b"

definition less_component_id :: "component_id \<Rightarrow> component_id \<Rightarrow> bool" where
  "less_component_id a b \<longleftrightarrow> component_id_get a < component_id_get b"

instance
proof
  fix x y :: component_id
  show "x \<le> y \<Longrightarrow> y \<le> x \<Longrightarrow> x = y"
    by (cases x; cases y) (simp add: less_eq_component_id_def)
qed (auto simp: less_eq_component_id_def less_component_id_def)

end

instantiation field_id :: linorder
begin

definition less_eq_field_id :: "field_id \<Rightarrow> field_id \<Rightarrow> bool" where
  "less_eq_field_id a b \<longleftrightarrow> field_id_get a \<le> field_id_get b"

definition less_field_id :: "field_id \<Rightarrow> field_id \<Rightarrow> bool" where
  "less_field_id a b \<longleftrightarrow> field_id_get a < field_id_get b"

instance
proof
  fix x y :: field_id
  show "x \<le> y \<Longrightarrow> y \<le> x \<Longrightarrow> x = y"
    by (cases x; cases y) (simp add: less_eq_field_id_def)
qed (auto simp: less_eq_field_id_def less_field_id_def)

end

section \<open>Fields\<close>

record fixed_point =
  min_q :: i64
  max_q :: i64
  scale :: u32

definition fixed_point_new :: "i64 \<Rightarrow> i64 \<Rightarrow> u32 \<Rightarrow> fixed_point" where
  "fixed_point_new lo hi s = \<lparr>min_q = lo, max_q = hi, scale = s\<rparr>"

datatype field_codec =
    BoolCodec
  | UIntCodec u8
  | SIntCodec u8
  | VarUIntCodec
  | VarSIntCodec
  | FixedPointCodec fixed_point

definition codec_bool :: field_codec where "codec_bool = BoolCodec"

definition codec_uint :: "u8 \<Rightarrow> field_codec" where "codec_uint bits = UIntCodec bits"

definition codec_sint :: "u8 \<Rightarrow> field_codec" where "codec_sint bits = SIntCodec bits"

definition codec_var_uint :: field_codec where "codec_var_uint = VarUIntCodec"

definition codec_var_sint :: field_codec where "codec_var_sint = VarSIntCodec"

definition codec_fixed_point :: "i64 \<Rightarrow> i64 \<Rightarrow> u32 \<Rightarrow> field_codec" where
  "codec_fixed_point lo hi s = FixedPointCodec (fixed_point_new lo hi s)"

datatype change_policy = Always | Threshold u32

record field_def =
  fd_id :: field_id
  fd_codec :: field_codec
  fd_change :: change_policy

definition field_def_new :: "field_id \<Rightarrow> field_codec \<Rightarrow> field_def" where
  "field_def_new i c = \<lparr>fd_id = i, fd_codec = c, fd_change = Always\<rparr>"

definition field_def_with_threshold :: "field_id \<Rightarrow> field_codec \<Rightarrow> u32 \<Rightarrow> field_def" where
  "field_def_with_threshold i c threshold_q =
    \<lparr>fd_id = i, fd_codec = c, fd_change = Threshold threshold_q\<rparr>"

definition field_def_change :: "change_policy \<Rightarrow> field_def \<Rightarrow> field_def" where
  "field_def_change change f = f\<lparr>fd_change := change\<rparr>"

section \<open>Schemas\<close>

record component_def =
  cd_id :: component_id
  cd_fields :: "field_def list"

definition component_def_new :: "component_id \<Rightarrow> component_def" where
  "component_def_new i = \<lparr>cd_id = i, cd_fields = []\<rparr>"

definition component_def_with_fields :: "component_id \<Rightarrow> field_def list \<Rightarrow> component_def" where
  "component_def_with_fields i fs = \<lparr>cd_id = i, cd_fields = fs\<rparr>"

definition component_def_field :: "field_def \<Rightarrow> component_def \<Rightarrow> component_def" where
  "component_def_field f c = c\<lparr>cd_fields := cd_fields c @ [f]\<rparr>"

record schema =
  components :: "component_def list"

datatype schema_error =
    DuplicateComponentId component_id
  | DuplicateFieldId component_id field_id
  | InvalidBitWidth u8
  | InvalidFixedPointScale u32
  | InvalidFixedPointRange i64 i64

definition validate_fixed_point :: "fixed_point \<Rightarrow> schema_error + unit" where
  "validate_fixed_point fp =
    (if scale fp = 0 then Inl (InvalidFixedPointScale (scale fp))
     else if sint (min_q fp) > sint (max_q fp) then
       Inl (InvalidFixedPointRange (min_q fp) (max_q fp))
     else Inr ())"

text \<open>The threshold of the change policy is not restricted: the code's check of it is empty.\<close>

definition validate_field :: "field_def \<Rightarrow> schema_error + unit" where
  "validate_field f =
    (case fd_codec f of
       UIntCodec bits \<Rightarrow> if bits = 0 \<or> bits > 64 then Inl (InvalidBitWidth bits) else Inr ()
     | SIntCodec bits \<Rightarrow> if bits = 0 \<or> bits > 64 then Inl (InvalidBitWidth bits) else Inr ()
     | FixedPointCodec fp \<Rightarrow> validate_fixed_point fp
     | BoolCodec \<Rightarrow> Inr ()
     | VarUIntCodec \<Rightarrow> Inr ()
     | VarSIntCodec \<Rightarrow> Inr ())"

text \<open>The two loops of \<^verbatim>\<open>Schema::validate\<close>; the sets are the code's hash sets.\<close>

fun validate_fields_loop :: "component_id \<Rightarrow> field_id set \<Rightarrow> field_def list \<Rightarrow> schema_error + unit" where
  "validate_fields_loop component field_ids [] = Inr ()"
| "validate_fields_loop component field_ids (f # fs) =
    (if fd_id f \<in> field_ids then Inl (DuplicateFieldId component (fd_id f))
     else and_then (validate_field f) (\<lambda>_.
       validate_fields_loop component (insert (fd_id f) field_ids) fs))"

fun validate_components_loop :: "component_id set \<Rightarrow> component_def list \<Rightarrow> schema_error + unit" where
  "validate_components_loop component_ids [] = Inr ()"
| "validate_components_loop component_ids (c # cs) =
    (if cd_id c \<in> component_ids then Inl (DuplicateComponentId (cd_id c))
     else and_then (validate_fields_loop (cd_id c) {} (cd_fields c)) (\<lambda>_.
       validate_components_loop (insert (cd_id c) component_ids) cs))"

definition schema_validate :: "schema \<Rightarrow> schema_error + unit" where
  "schema_validate s = validate_components_loop {} (components s)"

definition schema_new :: "component_def list \<Rightarrow> schema_error + schema" where
  "schema_new cs =
    (let s = \<lparr>components = cs\<rparr> in and_then (schema_validate s) (\<lambda>_. Inr s))"

record schema_builder =
  builder_components :: "component_def list"

definition schema_builder_new :: schema_builder where
  "schema_builder_new = \<lparr>builder_components = []\<rparr>"

definition builder_component :: "component_def \<Rightarrow> schema_builder \<Rightarrow> schema_builder" where
  "builder_component c b = b\<lparr>builder_components := builder_components b @ [c]\<rparr>"

definition builder_build :: "schema_builder \<Rightarrow> schema_error + schema" where
  "builder_build b = schema_new (builder_components b)"

section \<open>What validation means\<close>

fun codec_ok :: "field_codec \<Rightarrow> bool" where
  "codec_ok (UIntCodec bits) \<longleftrightarrow> 0 < bits \<and> bits \<le> 64"
| "codec_ok (SIntCodec bits) \<longleftrightarrow> 0 < bits \<and> bits \<le> 64"
| "codec_ok (FixedPointCodec fp) \<longleftrightarrow> scale fp \<noteq> 0 \<and> sint (min_q fp) \<le> sint (max_q fp)"
| "codec_ok _ \<longleftrightarrow> True"

definition component_ok :: "component_def \<Rightarrow> bool" where
  "component_ok c \<longleftrightarrow> distinct (map fd_id (cd_fields c)) \<and>
     list_all (\<lambda>f. codec_ok (fd_codec f)) (cd_fields c)"

definition schema_ok :: "schema \<Rightarrow> bool" where
  "schema_ok s \<longleftrightarrow> distinct (map cd_id (components s)) \<and> list_all component_ok (components s)"

definition schema_ids_ok :: "schema \<Rightarrow> bool" where
  "schema_ids_ok s \<longleftrightarrow> list_all (\<lambda>c. component_id_get (cd_id c) \<noteq> 0) (components s)"

lemma validate_field_Inr: "validate_field f = Inr u \<longleftrightarrow> codec_ok (fd_codec f)"
  by (cases "fd_codec f")
     (auto simp: validate_field_def validate_fixed_point_def not_less not_le word_neq_0_conv)

lemma validate_fields_loop_Inr:
  "validate_fields_loop c seen fs = Inr u \<longleftrightarrow>
    distinct (map fd_id fs) \<and> seen \<inter> set (map fd_id fs) = {} \<and>
    list_all (\<lambda>f. codec_ok (fd_codec f)) fs"
  by (induction c seen fs rule: validate_fields_loop.induct)
     (auto simp: res_simps validate_field_Inr)

lemma validate_components_loop_Inr:
  "validate_components_loop seen cs = Inr u \<longleftrightarrow>
    distinct (map cd_id cs) \<and> seen \<inter> set (map cd_id cs) = {} \<and> list_all component_ok cs"
  by (induction seen cs rule: validate_components_loop.induct)
     (auto simp: res_simps validate_fields_loop_Inr component_ok_def)

lemma schema_validate_Inr: "schema_validate s = Inr u \<longleftrightarrow> schema_ok s"
  by (simp add: schema_validate_def validate_components_loop_Inr schema_ok_def)

lemma schema_new_Inr: "schema_new cs = Inr s \<longleftrightarrow> s = \<lparr>components = cs\<rparr> \<and> schema_ok s"
  by (auto simp: schema_new_def Let_def res_simps schema_validate_Inr)

end
