(* ===== verification/Schema_Hash.thy ===== *)
theory Schema_Hash
  imports Schema_Model
begin

text \<open>
  Schema hashing (schema/src/hash.rs).  BLAKE3 is not code of the repository: it is the parameter
  \<open>blake3\<close>, a function from the hashed bytes to the digest, and the incremental hasher is the list of
  bytes it was updated with.  What the crate itself decides is which bytes it hashes; they determine
  the schema.
\<close>

type_synonym hasher = "u8 list"

definition hash_write_u8 :: "hasher \<Rightarrow> u8 \<Rightarrow> hasher" where
  "hash_write_u8 hasher v = hasher @ [v]"

definition hash_write_u16 :: "hasher \<Rightarrow> u16 \<Rightarrow> hasher" where
  "hash_write_u16 hasher v = hasher @ to_le_bytes 2 v"

definition hash_write_u32 :: "hasher \<Rightarrow> u32 \<Rightarrow> hasher" where
  "hash_write_u32 hasher v = hasher @ to_le_bytes 4 v"

definition hash_write_i64 :: "hasher \<Rightarrow> i64 \<Rightarrow> hasher" where
  "hash_write_i64 hasher v = hasher @ to_le_bytes 8 v"

definition hash_write_fixed_point :: "hasher \<Rightarrow> fixed_point \<Rightarrow> hasher" where
  "hash_write_fixed_point hasher fp =
    hash_write_u32 (hash_write_i64 (hash_write_i64 hasher (min_q fp)) (max_q fp)) (scale fp)"

fun hash_write_codec :: "hasher \<Rightarrow> field_codec \<Rightarrow> hasher" where
  "hash_write_codec hasher BoolCodec = hash_write_u8 hasher 0"
| "hash_write_codec hasher (UIntCodec bits) = hash_write_u8 (hash_write_u8 hasher 1) bits"
| "hash_write_codec hasher (SIntCodec bits) = hash_write_u8 (hash_write_u8 hasher 2) bits"
| "hash_write_codec hasher VarUIntCodec = hash_write_u8 hasher 3"
| "hash_write_codec hasher VarSIntCodec = hash_write_u8 hasher 4"
| "hash_write_codec hasher (FixedPointCodec fp) =
     hash_write_fixed_point (hash_write_u8 hasher 5) fp"

fun hash_write_change_policy :: "hasher \<Rightarrow> change_policy \<Rightarrow> hasher" where
  "hash_write_change_policy hasher Always = hash_write_u8 hasher 0"
| "hash_write_change_policy hasher (Threshold threshold_q) =
     hash_write_u32 (hash_write_u8 hasher 1) threshold_q"

definition hash_write_field :: "field_def \<Rightarrow> hasher \<Rightarrow> hasher" where
  "hash_write_field f hasher =
    hash_write_change_policy
      (hash_write_codec (hash_write_u16 hasher (field_id_get (fd_id f))) (fd_codec f)) (fd_change f)"

definition hash_write_component :: "component_def \<Rightarrow> hasher \<Rightarrow> hasher" where
  "hash_write_component c hasher =
    fold hash_write_field (cd_fields c)
      (hash_write_u32 (hash_write_u16 hasher (component_id_get (cd_id c)))
        (of_nat (length (cd_fields c))))"

definition schema_hash_input :: "schema \<Rightarrow> u8 list" where
  "schema_hash_input s =
    fold hash_write_component (components s)
      (hash_write_u32 [] (of_nat (length (components s))))"

definition schema_hash :: "(u8 list \<Rightarrow> u8 list) \<Rightarrow> schema \<Rightarrow> u64" where
  "schema_hash blake3 s = from_le_bytes (sub_slice (blake3 (schema_hash_input s)) 0 8)"

section \<open>The hashed bytes determine the schema\<close>

text \<open>
  An encoder \<open>e\<close> is prefix-free on \<open>ok\<close> when two encodings followed by anything agree only for equal
  values; lists of such encodings whose lengths agree inherit it.
\<close>

definition prefix_free :: "('a \<Rightarrow> bool) \<Rightarrow> ('a \<Rightarrow> u8 list) \<Rightarrow> bool" where
  "prefix_free ok e \<longleftrightarrow>
    (\<forall>x y r s. ok x \<longrightarrow> ok y \<longrightarrow> e x @ r = e y @ s \<longrightarrow> x = y \<and> r = s)"

lemma prefix_freeD:
  "prefix_free ok e \<Longrightarrow> ok x \<Longrightarrow> ok y \<Longrightarrow> e x @ r = e y @ s \<Longrightarrow> x = y \<and> r = s"
  unfolding prefix_free_def by blast

lemma prefix_free_list:
  assumes "prefix_free ok e"
  shows "length xs = length ys \<Longrightarrow> list_all ok xs \<Longrightarrow> list_all ok ys \<Longrightarrow>
    concat (map e xs) @ r = concat (map e ys) @ s \<Longrightarrow> xs = ys \<and> r = s"
proof (induction xs ys rule: list_induct2)
  case (Cons x xs y ys)
  have "e x @ (concat (map e xs) @ r) = e y @ (concat (map e ys) @ s)"
    using Cons.prems(3) by simp
  with prefix_freeD [OF assms] Cons.prems have "x = y" "concat (map e xs) @ r = concat (map e ys) @ s"
    by auto
  with Cons show ?case by simp
qed simp

lemma fold_append_concat:
  "(\<And>x h. f x h = h @ e x) \<Longrightarrow> fold f xs h = h @ concat (map e xs)"
  by (induction xs arbitrary: h) simp_all

fun codec_bytes :: "field_codec \<Rightarrow> u8 list" where
  "codec_bytes BoolCodec = [0]"
| "codec_bytes (UIntCodec bits) = [1, bits]"
| "codec_bytes (SIntCodec bits) = [2, bits]"
| "codec_bytes VarUIntCodec = [3]"
| "codec_bytes VarSIntCodec = [4]"
| "codec_bytes (FixedPointCodec fp) =
     5 # to_le_bytes 8 (min_q fp) @ to_le_bytes 8 (max_q fp) @ to_le_bytes 4 (scale fp)"

fun policy_bytes :: "change_policy \<Rightarrow> u8 list" where
  "policy_bytes Always = [0]"
| "policy_bytes (Threshold t) = 1 # to_le_bytes 4 t"

definition field_bytes :: "field_def \<Rightarrow> u8 list" where
  "field_bytes f =
    to_le_bytes 2 (field_id_get (fd_id f)) @ codec_bytes (fd_codec f) @ policy_bytes (fd_change f)"

definition component_bytes :: "component_def \<Rightarrow> u8 list" where
  "component_bytes c =
    to_le_bytes 2 (component_id_get (cd_id c)) @
    to_le_bytes 4 (of_nat (length (cd_fields c)) :: u32) @ concat (map field_bytes (cd_fields c))"

lemma hash_codec_bytes: "hash_write_codec h c = h @ codec_bytes c"
  by (cases c) (simp_all add: hash_write_u8_def hash_write_fixed_point_def hash_write_u32_def
      hash_write_i64_def)

lemma hash_policy_bytes: "hash_write_change_policy h p = h @ policy_bytes p"
  by (cases p) (simp_all add: hash_write_u8_def hash_write_u32_def)

lemma hash_field_bytes: "hash_write_field f h = h @ field_bytes f"
  by (simp add: hash_write_field_def field_bytes_def hash_codec_bytes hash_policy_bytes
      hash_write_u16_def)

lemma hash_component_bytes: "hash_write_component c h = h @ component_bytes c"
  by (simp add: hash_write_component_def component_bytes_def hash_write_u16_def hash_write_u32_def
      fold_append_concat [OF hash_field_bytes])

lemma schema_hash_input_bytes:
  "schema_hash_input s =
    to_le_bytes 4 (of_nat (length (components s)) :: u32) @ concat (map component_bytes (components s))"
  by (simp add: schema_hash_input_def hash_write_u32_def fold_append_concat [OF hash_component_bytes])

lemma codec_bytes_prefix_free: "codec_bytes c @ r = codec_bytes c' @ s \<Longrightarrow> c = c' \<and> r = s"
  by (cases c; cases c') (auto intro: fixed_point.equality)

lemma policy_bytes_prefix_free: "policy_bytes p @ r = policy_bytes p' @ s \<Longrightarrow> p = p' \<and> r = s"
  by (cases p; cases p') auto

lemma field_bytes_prefix_free: "prefix_free (\<lambda>_. True) field_bytes"
  unfolding prefix_free_def
proof (intro allI impI)
  fix f g :: field_def and r s
  assume "field_bytes f @ r = field_bytes g @ s"
  then have e: "field_id_get (fd_id f) = field_id_get (fd_id g)"
    and rest: "codec_bytes (fd_codec f) @ policy_bytes (fd_change f) @ r =
      codec_bytes (fd_codec g) @ policy_bytes (fd_change g) @ s"
    by (simp_all add: field_bytes_def)
  then have "fd_id f = fd_id g" by (cases "fd_id f"; cases "fd_id g") simp
  with codec_bytes_prefix_free [OF rest] show "f = g \<and> r = s"
    using policy_bytes_prefix_free by auto
qed

text \<open>A list whose length is a 32-bit count.\<close>

definition count_ok :: "'a list \<Rightarrow> bool" where
  "count_ok xs \<longleftrightarrow> length xs < 2 ^ 32"

lemma counted_append:
  assumes "count_ok xs" and "count_ok ys"
    and "to_le_bytes 4 (of_nat (length xs) :: u32) @ r = to_le_bytes 4 (of_nat (length ys) :: u32) @ s"
  shows "length xs = length ys \<and> r = s"
proof -
  from assms(3) have "(of_nat (length xs) :: u32) = of_nat (length ys)" "r = s"
    by simp_all
  then have "unat (of_nat (length xs) :: u32) = unat (of_nat (length ys) :: u32)" by simp
  with \<open>r = s\<close> show ?thesis
    using assms(1,2) by (simp add: count_ok_def unat_of_nat take_bit_nat_eq_self)
qed

lemma component_bytes_prefix_free: "prefix_free (\<lambda>c. count_ok (cd_fields c)) component_bytes"
  unfolding prefix_free_def
proof (intro allI impI)
  fix c d :: component_def and r s
  assume ok: "count_ok (cd_fields c)" "count_ok (cd_fields d)"
  assume "component_bytes c @ r = component_bytes d @ s"
  then have e: "component_id_get (cd_id c) = component_id_get (cd_id d)"
    and rest: "to_le_bytes 4 (of_nat (length (cd_fields c)) :: u32) @ concat (map field_bytes (cd_fields c)) @ r =
      to_le_bytes 4 (of_nat (length (cd_fields d)) :: u32) @ concat (map field_bytes (cd_fields d)) @ s"
    by (simp_all add: component_bytes_def)
  from counted_append [OF ok rest] have "length (cd_fields c) = length (cd_fields d)"
    and "concat (map field_bytes (cd_fields c)) @ r = concat (map field_bytes (cd_fields d)) @ s"
    by auto
  from prefix_free_list [OF field_bytes_prefix_free this(1) _ _ this(2)]
  have "cd_fields c = cd_fields d" "r = s" by (simp_all add: list_all_iff)
  moreover from e have "cd_id c = cd_id d" by (cases "cd_id c"; cases "cd_id d") simp
  ultimately show "c = d \<and> r = s" by simp
qed

definition schema_counts_ok :: "schema \<Rightarrow> bool" where
  "schema_counts_ok s \<longleftrightarrow>
    count_ok (components s) \<and> list_all (\<lambda>c. count_ok (cd_fields c)) (components s)"

lemma schema_hash_input_inj:
  assumes "schema_counts_ok s" and "schema_counts_ok t"
    and "schema_hash_input s = schema_hash_input t"
  shows "s = t"
proof -
  have "to_le_bytes 4 (of_nat (length (components s)) :: u32) @ concat (map component_bytes (components s)) =
      to_le_bytes 4 (of_nat (length (components t)) :: u32) @ concat (map component_bytes (components t))"
    using assms(3) by (simp add: schema_hash_input_bytes)
  from counted_append [OF _ _ this] assms(1,2)
  have "length (components s) = length (components t)"
    and "concat (map component_bytes (components s)) @ [] = concat (map component_bytes (components t)) @ []"
    by (auto simp: schema_counts_ok_def)
  from prefix_free_list [OF component_bytes_prefix_free this(1) _ _ this(2)] assms(1,2)
  show ?thesis by (simp add: schema_counts_ok_def)
qed

end
