(* ===== verification/Wire_Header.thy ===== *)
theory Wire_Header
  imports Sdec_Prelude
begin

text \<open>
  The wire crate's errors (wire/src/error.rs), limits (wire/src/limits.rs) and packet header
  (wire/src/header.rs): the flag word, its validity rules and the header record.
\<close>

section \<open>Errors\<close>

datatype wire_limit_kind = PacketBytes | SectionCount | SectionLength

datatype section_framing_error =
    FramingInvalidVarint
  | FramingLengthOverflow u64
  | Truncated usize usize \<comment> \<open>needed, available\<close>

datatype decode_error =
    PacketTooSmall usize usize \<comment> \<open>actual, required\<close>
  | InvalidMagic u32
  | UnsupportedVersion u16
  | InvalidFlags u16
  | InvalidBaselineTick u32 u16 \<comment> \<open>baseline tick, flags\<close>
  | PayloadLengthMismatch u32 usize \<comment> \<open>header length, actual length\<close>
  | UnknownSectionTag u8
  | LimitsExceeded wire_limit_kind usize usize \<comment> \<open>kind, limit, actual\<close>
  | SectionFraming section_framing_error

datatype encode_error =
    BufferTooSmall usize usize \<comment> \<open>needed, available\<close>
  | LengthOverflow usize

section \<open>Limits\<close>

record limits =
  max_packet_bytes :: usize
  max_sections :: usize
  max_section_len :: usize

definition limits_default :: limits where
  "limits_default = \<lparr>max_packet_bytes = 64 * 1024, max_sections = 16, max_section_len = 32 * 1024\<rparr>"

definition limits_for_testing :: limits where
  "limits_for_testing = \<lparr>max_packet_bytes = 4096, max_sections = 8, max_section_len = 1024\<rparr>"

definition limits_unlimited :: limits where
  "limits_unlimited =
    \<lparr>max_packet_bytes = usize_max, max_sections = usize_max, max_section_len = usize_max\<rparr>"

section \<open>Packet flags\<close>

definition MAGIC :: u32 where "MAGIC = 0x53444543"

definition VERSION :: u16 where "VERSION = 2"

definition HEADER_SIZE :: usize where "HEADER_SIZE = 4 + 2 + 2 + 8 + 4 + 4 + 4"

datatype packet_flags = PacketFlags u16

fun flags_raw :: "packet_flags \<Rightarrow> u16" where
  "flags_raw (PacketFlags raw) = raw"

definition FULL_SNAPSHOT :: u16 where "FULL_SNAPSHOT = push_bit 0 1"

definition DELTA_SNAPSHOT :: u16 where "DELTA_SNAPSHOT = push_bit 1 1"

definition SESSION_INIT :: u16 where "SESSION_INIT = push_bit 2 1"

definition RESERVED_MASK :: u16 where "RESERVED_MASK = NOT 0b111"

definition is_full_snapshot :: "packet_flags \<Rightarrow> bool" where
  "is_full_snapshot f \<longleftrightarrow> flags_raw f AND FULL_SNAPSHOT \<noteq> 0"

definition is_delta_snapshot :: "packet_flags \<Rightarrow> bool" where
  "is_delta_snapshot f \<longleftrightarrow> flags_raw f AND DELTA_SNAPSHOT \<noteq> 0"

definition is_valid_v0 :: "packet_flags \<Rightarrow> bool" where
  "is_valid_v0 f \<longleftrightarrow>
    (let has_full = is_full_snapshot f;
         has_delta = is_delta_snapshot f;
         has_reserved = (flags_raw f AND RESERVED_MASK \<noteq> 0)
     in has_full \<noteq> has_delta \<and> \<not> has_reserved)"

definition is_session_init :: "packet_flags \<Rightarrow> bool" where
  "is_session_init f \<longleftrightarrow> flags_raw f AND SESSION_INIT \<noteq> 0"

definition is_valid_v2 :: "packet_flags \<Rightarrow> bool" where
  "is_valid_v2 f \<longleftrightarrow>
    (let has_full = is_full_snapshot f;
         has_delta = is_delta_snapshot f;
         has_session = is_session_init f;
         has_reserved = (flags_raw f AND RESERVED_MASK \<noteq> 0)
     in if has_reserved then False
        else if has_session then \<not> has_full \<and> \<not> has_delta
        else has_full \<noteq> has_delta)"

definition flags_full_snapshot :: packet_flags where
  "flags_full_snapshot = PacketFlags FULL_SNAPSHOT"

definition flags_delta_snapshot :: packet_flags where
  "flags_delta_snapshot = PacketFlags DELTA_SNAPSHOT"

definition flags_session_init :: packet_flags where
  "flags_session_init = PacketFlags SESSION_INIT"

section \<open>The packet header\<close>

record packet_header =
  ph_version :: u16
  ph_flags :: packet_flags
  ph_schema_hash :: u64
  ph_tick :: u32
  ph_baseline_tick :: u32
  ph_payload_len :: u32

definition header_full_snapshot :: "u64 \<Rightarrow> u32 \<Rightarrow> u32 \<Rightarrow> packet_header" where
  "header_full_snapshot schema_hash tick payload_len =
    \<lparr>ph_version = VERSION, ph_flags = flags_full_snapshot, ph_schema_hash = schema_hash,
     ph_tick = tick, ph_baseline_tick = 0, ph_payload_len = payload_len\<rparr>"

definition header_delta_snapshot :: "u64 \<Rightarrow> u32 \<Rightarrow> u32 \<Rightarrow> u32 \<Rightarrow> packet_header" where
  "header_delta_snapshot schema_hash tick baseline_tick payload_len =
    \<lparr>ph_version = VERSION, ph_flags = flags_delta_snapshot, ph_schema_hash = schema_hash,
     ph_tick = tick, ph_baseline_tick = baseline_tick, ph_payload_len = payload_len\<rparr>"

section \<open>Which flag words are valid\<close>

lemma flag_bit_test: "(raw AND push_bit n 1 \<noteq> 0) \<longleftrightarrow> bit (raw :: 'a::len word) n"
  by (simp add: and_exp_eq_0_iff_not_bit)

lemma flag_tests [simp]:
  "is_full_snapshot (PacketFlags raw) \<longleftrightarrow> bit raw 0"
  "is_delta_snapshot (PacketFlags raw) \<longleftrightarrow> bit raw 1"
  "is_session_init (PacketFlags raw) \<longleftrightarrow> bit raw 2"
  by (simp_all only: is_full_snapshot_def is_delta_snapshot_def is_session_init_def FULL_SNAPSHOT_def
      DELTA_SNAPSHOT_def SESSION_INIT_def flags_raw.simps flag_bit_test)

lemma reserved_clear:
  "raw AND NOT (mask n) = 0 \<longleftrightarrow> unat (raw :: 'a::len word) < 2 ^ n"
proof -
  have "raw AND NOT (mask n) = 0 \<longleftrightarrow> take_bit n raw = raw"
    unfolding bit_eq_iff by (auto simp: bit_simps)
  also have "\<dots> \<longleftrightarrow> take_bit n (unat raw) = unat raw"
    by (simp only: word_unat_eq_iff unsigned_take_bit_eq)
  also have "\<dots> \<longleftrightarrow> unat raw < 2 ^ n"
    by (metis take_bit_nat_eq_self_iff)
  finally show ?thesis .
qed

lemma unat_less_8_cases:
  assumes "unat (raw :: 'a::len word) < 8" and "3 < LENGTH('a)"
  shows "raw \<in> {0, 1, 2, 3, 4, 5, 6, 7}"
proof -
  have raw: "raw = of_nat (unat raw)" by simp
  have "unat raw = 0 \<or> unat raw = 1 \<or> unat raw = 2 \<or> unat raw = 3 \<or> unat raw = 4 \<or>
      unat raw = 5 \<or> unat raw = 6 \<or> unat raw = 7"
    using assms(1) by linarith
  then show ?thesis by (elim disjE) (subst raw, simp)+
qed

lemma is_valid_v2_iff: "is_valid_v2 (PacketFlags raw) \<longleftrightarrow> raw \<in> {1, 2, 4}"
proof -
  have m: "RESERVED_MASK = NOT (mask 3)" by (simp add: RESERVED_MASK_def mask_eq_exp_minus_1)
  have res: "raw AND RESERVED_MASK = 0 \<longleftrightarrow> unat raw < 8"
    unfolding m by (simp add: reserved_clear)
  have "unat raw < 8 \<longleftrightarrow> raw \<in> {0, 1, 2, 3, 4, 5, 6, 7}"
    using unat_less_8_cases [of raw] by auto
  then show ?thesis
    by (auto simp: is_valid_v2_def Let_def res bit_0 bit_numeral_rec bit_Suc)
qed

end
