(* ===== verification/Wire_Packet.thy ===== *)
theory Wire_Packet
  imports Wire_Header Varint
begin

text \<open>
  Packet decoding and section framing (wire/src/packet.rs).  Functions that index the caller's
  buffer without a check of their own return \<^const>\<open>None\<close> where the index panics; the lemmas show that
  their callers' length checks exclude it.  The section decoder is related to the list of framed
  sections it accepts, the header decoder to the header encoder.
\<close>

section \<open>Section tags and packets\<close>

datatype section_tag =
    EntityCreate
  | EntityDestroy
  | EntityUpdate
  | EntityUpdateSparse
  | EntityUpdateSparsePacked
  | SessionInit

fun tag_byte :: "section_tag \<Rightarrow> u8" where
  "tag_byte EntityCreate = 1"
| "tag_byte EntityDestroy = 2"
| "tag_byte EntityUpdate = 3"
| "tag_byte EntityUpdateSparse = 4"
| "tag_byte EntityUpdateSparsePacked = 5"
| "tag_byte SessionInit = 6"

definition parse_section_tag :: "u8 \<Rightarrow> decode_error + section_tag" where
  "parse_section_tag tag =
    (if tag = 1 then Inr EntityCreate
     else if tag = 2 then Inr EntityDestroy
     else if tag = 3 then Inr EntityUpdate
     else if tag = 4 then Inr EntityUpdateSparse
     else if tag = 5 then Inr EntityUpdateSparsePacked
     else if tag = 6 then Inr SessionInit
     else Inl (UnknownSectionTag tag))"

record wire_section =
  ws_tag :: section_tag
  ws_body :: "u8 list"

record wire_packet =
  wp_header :: packet_header
  wp_sections :: "wire_section list"

section \<open>Varints on slices\<close>

text \<open>The loop \<^verbatim>\<open>for _ in 0..5\<close>.\<close>

fun packet_read_varu32_loop ::
  "nat \<Rightarrow> u8 list \<Rightarrow> u32 \<Rightarrow> nat \<Rightarrow> usize \<Rightarrow> decode_error + u32 \<times> usize" where
  "packet_read_varu32_loop 0 buf value shift offset =
     Inl (SectionFraming FramingInvalidVarint)"
| "packet_read_varu32_loop (Suc n) buf value shift offset =
    (if offset \<ge> length buf then Inl (SectionFraming (Truncated (offset + 1) (length buf)))
     else
       let byte = buf ! offset;
           offset' = offset + 1;
           value' = value OR push_bit shift (ucast (byte AND 0x7F))
       in if byte AND 0x80 = 0 then Inr (value', offset')
          else packet_read_varu32_loop n buf value' (shift + 7) offset')"

definition packet_read_varu32 :: "u8 list \<Rightarrow> usize \<Rightarrow> decode_error + u32 \<times> usize" where
  "packet_read_varu32 buf offset = packet_read_varu32_loop 5 buf 0 0 offset"

text \<open>
  \<^verbatim>\<open>write_varu32(value, &mut out[base..])\<close>: the bytes go to \<open>base + offset\<close>; the result is the number
  of bytes and the buffer.
\<close>

function packet_write_varu32_loop ::
  "u32 \<Rightarrow> u8 list \<Rightarrow> usize \<Rightarrow> usize \<Rightarrow> (usize \<times> u8 list) option" where
  "packet_write_varu32_loop value out base offset =
    (if base + offset < length out then
       let out' = out[base + offset := varint_byte value]
       in if drop_bit 7 value = 0 then Some (offset + 1, out')
          else packet_write_varu32_loop (drop_bit 7 value) out' base (offset + 1)
     else None)"
  by pat_completeness auto
termination
  by (relation "measure (\<lambda>(value, out, base, offset). unat value)") (auto intro: drop_bit_7_less)

declare packet_write_varu32_loop.simps [simp del]

definition packet_write_varu32 :: "u32 \<Rightarrow> u8 list \<Rightarrow> usize \<Rightarrow> (usize \<times> u8 list) option" where
  "packet_write_varu32 value out base = packet_write_varu32_loop value out base 0"

function varu32_len_loop :: "u32 \<Rightarrow> usize \<Rightarrow> usize" where
  "varu32_len_loop value len =
    (if value \<ge> 0x80 then varu32_len_loop (drop_bit 7 value) (len + 1) else len)"
  by pat_completeness auto
termination
proof (relation "measure (\<lambda>(value, len). unat value)")
  fix v :: u32 and len :: usize
  assume "v \<ge> 0x80"
  then have "unat v \<noteq> 0" by (simp add: word_le_nat_alt)
  then show "((drop_bit 7 v, len + 1), (v, len)) \<in> measure (\<lambda>(value, len). unat value)"
    unfolding in_measure prod.case unat_drop_bit_eq by (simp add: drop_bit_eq_div)
qed simp

declare varu32_len_loop.simps [simp del]

definition varu32_len :: "u32 \<Rightarrow> usize" where
  "varu32_len value = varu32_len_loop value 1"

lemma packet_read_varu32_loop_offset:
  "packet_read_varu32_loop n buf acc shift k = Inr (v, k') \<Longrightarrow> k < k' \<and> k' \<le> length buf"
  by (induction n buf acc shift k rule: packet_read_varu32_loop.induct)
     (auto simp: Let_def dest: Suc_lessD split: if_splits)

lemma packet_read_varu32_offset:
  "packet_read_varu32 buf k = Inr (v, k') \<Longrightarrow> k < k' \<and> k' \<le> length buf"
  unfolding packet_read_varu32_def by (rule packet_read_varu32_loop_offset)

section \<open>Decoding\<close>

function decode_sections_loop ::
  "u8 list \<Rightarrow> limits \<Rightarrow> usize \<Rightarrow> wire_section list \<Rightarrow> decode_error + wire_section list" where
  "decode_sections_loop payload limits offset sections =
    (if offset < length payload then
       if length sections \<ge> max_sections limits then
         Inl (LimitsExceeded SectionCount (max_sections limits) (length sections + 1))
       else
         let tag = payload ! offset in
         and_then (packet_read_varu32 payload (offset + 1)) (\<lambda>(len, offset').
         let len_usize = unat len in
         if len_usize > max_section_len limits then
           Inl (LimitsExceeded SectionLength (max_section_len limits) len_usize)
         else if offset' + len_usize > length payload then
           Inl (SectionFraming (Truncated (offset' + len_usize) (length payload)))
         else
           and_then (parse_section_tag tag) (\<lambda>tag.
           decode_sections_loop payload limits (offset' + len_usize)
             (sections @ [\<lparr>ws_tag = tag, ws_body = sub_slice payload offset' (offset' + len_usize)\<rparr>])))
     else Inr sections)"
  by pat_completeness auto
termination
  by (relation "measure (\<lambda>(payload, limits, offset, sections). length payload - offset)")
     (auto dest: packet_read_varu32_offset)

declare decode_sections_loop.simps [simp del]

definition decode_sections :: "u8 list \<Rightarrow> limits \<Rightarrow> decode_error + wire_section list" where
  "decode_sections payload limits = decode_sections_loop payload limits 0 []"

definition decode_packet :: "u8 list \<Rightarrow> limits \<Rightarrow> decode_error + wire_packet" where
  "decode_packet buf limits =
    (if length buf < HEADER_SIZE then Inl (PacketTooSmall (length buf) HEADER_SIZE)
     else if length buf > max_packet_bytes limits then
       Inl (LimitsExceeded PacketBytes (max_packet_bytes limits) (length buf))
     else
     let magic = from_le_bytes (sub_slice buf 0 4) in
     if magic \<noteq> MAGIC then Inl (InvalidMagic magic)
     else
     let version = from_le_bytes (sub_slice buf 4 6) in
     if version \<noteq> VERSION then Inl (UnsupportedVersion version)
     else
     let raw = from_le_bytes (sub_slice buf 6 8); flags = PacketFlags raw in
     if \<not> is_valid_v2 flags then Inl (InvalidFlags raw)
     else
     let schema_hash = from_le_bytes (sub_slice buf 8 16);
         tick = from_le_bytes (sub_slice buf 16 20);
         baseline_tick = from_le_bytes (sub_slice buf 20 24);
         payload_len = from_le_bytes (sub_slice buf 24 28) in
     if \<not> is_session_init flags \<and> is_full_snapshot flags \<and> baseline_tick \<noteq> 0 then
       Inl (InvalidBaselineTick baseline_tick raw)
     else if \<not> is_session_init flags \<and> is_delta_snapshot flags \<and> baseline_tick = 0 then
       Inl (InvalidBaselineTick baseline_tick raw)
     else
     let actual_payload_len = length buf - HEADER_SIZE in
     if unat payload_len \<noteq> actual_payload_len then
       Inl (PayloadLengthMismatch payload_len actual_payload_len)
     else
     let header = \<lparr>ph_version = version, ph_flags = flags, ph_schema_hash = schema_hash,
                   ph_tick = tick, ph_baseline_tick = baseline_tick, ph_payload_len = payload_len\<rparr>;
         payload = drop HEADER_SIZE buf in
     and_then (decode_sections payload limits) (\<lambda>sections.
       Inr \<lparr>wp_header = header, wp_sections = sections\<rparr>))"

section \<open>Encoding\<close>

definition encode_header :: "packet_header \<Rightarrow> u8 list \<Rightarrow> encode_error + usize \<times> u8 list" where
  "encode_header header out =
    (if length out < HEADER_SIZE then Inl (BufferTooSmall HEADER_SIZE (length out))
     else
       let out = splice out 0 (to_le_bytes 4 MAGIC);
           out = splice out 4 (to_le_bytes 2 (ph_version header));
           out = splice out 6 (to_le_bytes 2 (flags_raw (ph_flags header)));
           out = splice out 8 (to_le_bytes 8 (ph_schema_hash header));
           out = splice out 16 (to_le_bytes 4 (ph_tick header));
           out = splice out 20 (to_le_bytes 4 (ph_baseline_tick header));
           out = splice out 24 (to_le_bytes 4 (ph_payload_len header))
       in Inr (HEADER_SIZE, out))"

definition encode_section ::
  "section_tag \<Rightarrow> u8 list \<Rightarrow> u8 list \<Rightarrow> (encode_error + usize \<times> u8 list) option" where
  "encode_section tag body out =
    (if length body \<ge> 2 ^ 32 then Some (Inl (LengthOverflow (length body)))
     else
       let len_u32 = of_nat (length body);
           len_bytes = varu32_len len_u32;
           needed = 1 + len_bytes + length body in
       if length out < needed then Some (Inl (BufferTooSmall needed (length out)))
       else
         let out = out[0 := tag_byte tag] in
         case packet_write_varu32 len_u32 out 1 of
           None \<Rightarrow> None
         | Some (n, out) \<Rightarrow>
             let offset = 1 + n in
             if offset + length body > length out then None
             else Some (Inr (needed, splice out offset body)))"

section \<open>The slice varints and the reference varint\<close>

lemma packet_read_varu32_groups:
  "n \<le> 5 \<Longrightarrow> varint_groups (map (\<lambda>i. s + 7 * i) [0..<n]) acc (drop k d) = Some (v, rest) \<Longrightarrow>
    packet_read_varu32_loop n d acc s k = Inr (v, length d - length rest)"
proof (induction n d acc s k rule: packet_read_varu32_loop.induct)
  case (2 n d acc s k)
  let ?acc = "acc OR push_bit s (ucast (d ! k AND 0x7F))"
  have up: "map (\<lambda>i. s + 7 * i) [0..<Suc n] = s # map (\<lambda>i. (s + 7) + 7 * i) [0..<n]"
    unfolding map_upt_Suc by (simp add: algebra_simps)
  show ?case
  proof (cases "k < length d")
    case True
    then have dk: "drop k d = d ! k # drop (Suc k) d" by (simp add: Cons_nth_drop_Suc)
    show ?thesis
    proof (cases "d ! k AND 0x80 = 0")
      case True
      then have "v = ?acc" "rest = drop (Suc k) d"
        using "2.prems"(2) unfolding up dk by (simp_all add: Let_def)
      with True \<open>k < length d\<close> show ?thesis by (simp add: Let_def)
    next
      case False
      then have "varint_groups (map (\<lambda>i. (s + 7) + 7 * i) [0..<n]) ?acc (drop (k + 1) d) = Some (v, rest)"
        using "2.prems"(2) unfolding up dk by (simp add: Let_def)
      with "2.IH" [OF _ refl refl refl False] "2.prems"(1) True False show ?thesis
        by (simp add: Let_def)
    qed
  next
    case False
    then show ?thesis using "2.prems"(2) unfolding up by simp
  qed
qed simp

lemma packet_read_varu32_decode:
  assumes "varint_decode (drop k d) = Some (v, rest)"
  shows "packet_read_varu32 d k = Inr (v, length d - length rest)"
proof -
  have "map (\<lambda>i. 0 + 7 * i) [0..<5] = [0, 7, 14, 21, 28]" by (simp add: upt_rec)
  with assms show ?thesis
    unfolding packet_read_varu32_def varint_decode_def
    by (intro packet_read_varu32_groups) simp_all
qed

lemma packet_write_varu32_loop_splice:
  "base + offset + length (varint_encode v) \<le> length out \<Longrightarrow>
    packet_write_varu32_loop v out base offset =
      Some (offset + length (varint_encode v), splice out (base + offset) (varint_encode v))"
proof (induction v out base offset rule: packet_write_varu32_loop.induct)
  case (1 v out base offset)
  show ?case
  proof (cases "drop_bit 7 v = 0")
    case True
    then have "varint_encode v = [varint_byte v]" by (subst varint_encode.simps) simp
    then show ?thesis using True "1.prems"
      by (subst packet_write_varu32_loop.simps)
         (simp add: Let_def splice_def upd_conv_take_nth_drop)
  next
    case False
    then have e: "varint_encode v = varint_byte v # varint_encode (drop_bit 7 v)"
      by (subst varint_encode.simps) simp
    have lt: "base + offset < length out" using "1.prems" e by simp
    have "splice (out[base + offset := varint_byte v]) (base + offset + 1) bs =
        splice out (base + offset) (varint_byte v # bs)" for bs
      using lt by (simp add: splice_def upd_conv_take_nth_drop take_Suc_conv_app_nth min_def ac_simps)
    with False e lt "1.prems" "1.IH" [OF lt refl False] show ?thesis
      by (subst packet_write_varu32_loop.simps) (simp add: Let_def)
  qed
qed

lemma varu32_len_loop_length: "varu32_len_loop v n + 1 = n + length (varint_encode v)"
proof (induction v n rule: varu32_len_loop.induct)
  case (1 v n)
  have "v \<ge> 0x80 \<longleftrightarrow> drop_bit 7 v \<noteq> 0"
    unfolding word_unat_eq_iff unat_drop_bit_eq
    by (simp add: drop_bit_eq_div word_le_nat_alt div_greater_zero_iff)
  with 1 show ?case
    by (subst varu32_len_loop.simps, subst varint_encode.simps) auto
qed

lemma varu32_len_length: "varu32_len v = length (varint_encode v)"
  using varu32_len_loop_length [of v 1] by (simp add: varu32_len_def)


lemma packet_groups_read:
  "n \<le> 5 \<Longrightarrow> packet_read_varu32_loop n d acc s k = Inr (v, k') \<Longrightarrow>
    varint_groups (map (\<lambda>i. s + 7 * i) [0..<n]) acc (drop k d) = Some (v, drop k' d)"
proof (induction n d acc s k rule: packet_read_varu32_loop.induct)
  case (2 n d acc s k)
  let ?acc = "acc OR push_bit s (ucast (d ! k AND 0x7F))"
  have up: "map (\<lambda>i. s + 7 * i) [0..<Suc n] = s # map (\<lambda>i. (s + 7) + 7 * i) [0..<n]"
    unfolding map_upt_Suc by (simp add: algebra_simps)
  from "2.prems"(2) have k: "k < length d" by (auto split: if_splits)
  then have dk: "drop k d = d ! k # drop (Suc k) d" by (simp add: Cons_nth_drop_Suc)
  show ?case
  proof (cases "d ! k AND 0x80 = 0")
    case True
    then have "v = ?acc" "k' = Suc k" using "2.prems"(2) k by (simp_all add: Let_def)
    then show ?thesis unfolding up dk using True by (simp add: Let_def)
  next
    case False
    then have "packet_read_varu32_loop n d ?acc (s + 7) (k + 1) = Inr (v, k')"
      using "2.prems"(2) k by (simp add: Let_def)
    with "2.IH" [OF _ refl refl refl False] "2.prems"(1) k False show ?thesis
      unfolding up dk by (simp add: Let_def)
  qed
qed simp

lemma packet_read_varu32_iff:
  "packet_read_varu32 d k = Inr (v, k') \<longleftrightarrow>
    varint_decode (drop k d) = Some (v, drop k' d) \<and> k < length d \<and> k' \<le> length d"
proof
  assume rd: "packet_read_varu32 d k = Inr (v, k')"
  have "map (\<lambda>i. 0 + 7 * i) [0..<5] = [0, 7, 14, 21, 28]" by (simp add: upt_rec)
  with packet_groups_read [of 5 d 0 0 k v k'] rd packet_read_varu32_offset [OF rd]
  show "varint_decode (drop k d) = Some (v, drop k' d) \<and> k < length d \<and> k' \<le> length d"
    by (simp add: packet_read_varu32_def varint_decode_def)
next
  assume "varint_decode (drop k d) = Some (v, drop k' d) \<and> k < length d \<and> k' \<le> length d"
  then show "packet_read_varu32 d k = Inr (v, k')"
    using packet_read_varu32_decode [of k d v "drop k' d"] by simp
qed

section \<open>Framed payloads\<close>

text \<open>
  \<open>framed payload sections\<close>: the payload is the concatenation of sections, each a known tag, a
  varint of the body's length in at most five bytes (canonical or not) and the body.
\<close>

inductive framed :: "u8 list \<Rightarrow> wire_section list \<Rightarrow> bool" where
  framed_Nil: "framed [] []"
| framed_Cons: "varint_decode len = Some (of_nat (length body), []) \<Longrightarrow> length body < 2 ^ 32 \<Longrightarrow>
    framed rest secs \<Longrightarrow>
    framed (tag_byte t # len @ body @ rest) (\<lparr>ws_tag = t, ws_body = body\<rparr> # secs)"

inductive_cases framed_ConsE: "framed payload (s # secs)"
inductive_simps framed_Nil_iff [simp]: "framed payload []"

definition sections_within :: "limits \<Rightarrow> wire_section list \<Rightarrow> bool" where
  "sections_within l secs \<longleftrightarrow> length secs \<le> max_sections l \<and>
     list_all (\<lambda>s. length (ws_body s) \<le> max_section_len l) secs"

definition section_bytes :: "wire_section \<Rightarrow> u8 list" where
  "section_bytes s =
    tag_byte (ws_tag s) # varint_encode (of_nat (length (ws_body s))) @ ws_body s"

lemma parse_tag_byte [simp]: "parse_section_tag (tag_byte t) = Inr t"
  by (cases t) (simp_all add: parse_section_tag_def)

lemma parse_section_tag_Inr: "parse_section_tag b = Inr t \<longleftrightarrow> b = tag_byte t"
  by (cases t) (auto simp: parse_section_tag_def split: if_splits)

lemma unat_of_nat_u32: "n < 2 ^ 32 \<Longrightarrow> unat (of_nat n :: u32) = n"
  by (simp add: unat_of_nat)

lemma framed_section_bytes:
  "list_all (\<lambda>s. length (ws_body s) < 2 ^ 32) secs \<Longrightarrow> framed (concat (map section_bytes secs)) secs"
proof (induction secs)
  case (Cons s secs)
  have "framed (tag_byte (ws_tag s) # varint_encode (of_nat (length (ws_body s))) @ ws_body s @
      concat (map section_bytes secs)) (\<lparr>ws_tag = ws_tag s, ws_body = ws_body s\<rparr> # secs)"
    using Cons varint_decode_encode [of _ "[]"] by (intro framed_Cons) auto
  moreover have "\<lparr>ws_tag = ws_tag s, ws_body = ws_body s\<rparr> = s" by simp
  ultimately show ?case by (simp add: section_bytes_def [of s])
qed (simp add: framed_Nil)

lemma varint_decode_append:
  "varint_decode len = Some (v, []) \<Longrightarrow> varint_decode (len @ r) = Some (v, r)"
  by (metis append_Nil2 varint_decode_local)

lemma decode_sections_loop_framed:
  "framed (drop k d) secs \<Longrightarrow> k \<le> length d \<Longrightarrow> length acc + length secs \<le> max_sections l \<Longrightarrow>
    list_all (\<lambda>s. length (ws_body s) \<le> max_section_len l) secs \<Longrightarrow>
    decode_sections_loop d l k acc = Inr (acc @ secs)"
proof (induction "drop k d" secs arbitrary: k acc rule: framed.induct)
  case framed_Nil
  then show ?case by (subst decode_sections_loop.simps) simp
next
  case (framed_Cons len body rest secs t)
  let ?o = "k + 1 + length len"
  have k: "k < length d" "d ! k = tag_byte t"
    using framed_Cons(5) by (metis drop_all linorder_not_less list.distinct(1), metis nth_via_drop)
  have d1: "drop (k + 1) d = len @ body @ rest"
    using framed_Cons(5) by (metis Suc_eq_plus1 drop_Suc list.sel(3) tl_drop)
  then have d2: "drop ?o d = body @ rest" by (metis append_eq_conv_conj drop_drop add.commute)
  then have d3: "drop (?o + length body) d = rest" by (metis append_eq_conv_conj drop_drop add.commute)
  have lens: "length d - (k + 1) = length len + length body + length rest"
    using d1 by (metis add.assoc length_append length_drop)
  have "varint_decode (drop (k + 1) d) = Some (of_nat (length body), drop ?o d)"
    unfolding d1 d2 using framed_Cons(1) by (rule varint_decode_append)
  moreover have "len \<noteq> []" using framed_Cons(1) by (auto simp: varint_decode_def)
  ultimately have rd: "packet_read_varu32 d (k + 1) = Inr (of_nat (length body), ?o)"
    unfolding packet_read_varu32_iff using lens k by (cases len) auto
  have body: "sub_slice d ?o (?o + length body) = body"
    unfolding sub_slice_def d2 by simp
  have "decode_sections_loop d l (?o + length body) (acc @ [\<lparr>ws_tag = t, ws_body = body\<rparr>]) =
      Inr ((acc @ [\<lparr>ws_tag = t, ws_body = body\<rparr>]) @ secs)"
    using framed_Cons lens k d3 by (intro framed_Cons(4)) auto
  then show ?case
    using k rd body framed_Cons(2,7,8) lens
    by (subst decode_sections_loop.simps) (simp add: Let_def unat_of_nat_u32)
qed

lemma decode_sections_loop_sound:
  "decode_sections_loop d l k acc = Inr secs \<Longrightarrow> k \<le> length d \<Longrightarrow> length acc \<le> max_sections l \<Longrightarrow>
    \<exists>new. secs = acc @ new \<and> framed (drop k d) new \<and> length secs \<le> max_sections l \<and>
      list_all (\<lambda>s. length (ws_body s) \<le> max_section_len l) new"
proof (induction d l k acc rule: decode_sections_loop.induct)
  case (1 d l k acc)
  show ?case
  proof (cases "k < length d")
    case False
    then show ?thesis using "1.prems" by (subst (asm) decode_sections_loop.simps) simp
  next
    case True
    with "1.prems"(1) obtain len k' t where lim: "length acc < max_sections l"
      and rd: "packet_read_varu32 d (k + 1) = Inr (len, k')"
      and sz: "unat len \<le> max_section_len l" "k' + unat len \<le> length d"
      and t: "parse_section_tag (d ! k) = Inr t"
      and rest: "decode_sections_loop d l (k' + unat len)
        (acc @ [\<lparr>ws_tag = t, ws_body = sub_slice d k' (k' + unat len)\<rparr>]) = Inr secs"
      by (subst (asm) decode_sections_loop.simps)
         (auto simp: Let_def res_simps not_le not_less split: if_splits)
    let ?body = "sub_slice d k' (k' + unat len)"
    have IH: "\<exists>new. secs = (acc @ [\<lparr>ws_tag = t, ws_body = ?body\<rparr>]) @ new \<and>
        framed (drop (k' + unat len) d) new \<and> length secs \<le> max_sections l \<and>
        list_all (\<lambda>s. length (ws_body s) \<le> max_section_len l) new"
      by (rule "1.IH" [OF True _ refl rd refl refl _ _ t rest]) (use lim sz in auto)
    then obtain new where new: "secs = acc @ \<lparr>ws_tag = t, ws_body = ?body\<rparr> # new"
      "framed (drop (k' + unat len) d) new" "length secs \<le> max_sections l"
      "list_all (\<lambda>s. length (ws_body s) \<le> max_section_len l) new" by auto
    from rd have "varint_decode (drop (k + 1) d) = Some (len, drop k' d)" "k' \<le> length d"
      unfolding packet_read_varu32_iff by simp_all
    then obtain lb where lb: "drop (k + 1) d = lb @ drop k' d" "varint_decode (lb @ []) = Some (len, [])"
      by (blast elim: varint_decode_local)
    have bl: "length ?body = unat len" using sz(2) by simp
    have "drop k' d = ?body @ drop (k' + unat len) d"
      by (simp add: sub_slice_def) (metis add.commute append_take_drop_id drop_drop)
    with lb(1) True t have "drop k d = tag_byte t # lb @ ?body @ drop (k' + unat len) d"
      by (simp add: parse_section_tag_Inr Cons_nth_drop_Suc [symmetric])
    moreover have "framed (tag_byte t # lb @ ?body @ drop (k' + unat len) d)
        (\<lparr>ws_tag = t, ws_body = ?body\<rparr> # new)"
      using new(2) lb(2) bl unsigned_less [of len] by (intro framed_Cons) auto
    ultimately show ?thesis using new sz(1) bl by auto
  qed
qed

lemma decode_sections_iff:
  "decode_sections payload l = Inr secs \<longleftrightarrow> framed payload secs \<and> sections_within l secs"
proof
  assume "decode_sections payload l = Inr secs"
  then show "framed payload secs \<and> sections_within l secs"
    using decode_sections_loop_sound [of payload l 0 "[]" secs]
    by (simp add: decode_sections_def sections_within_def)
next
  assume "framed payload secs \<and> sections_within l secs"
  then show "decode_sections payload l = Inr secs"
    using decode_sections_loop_framed [of 0 payload secs "[]" l]
    by (simp add: decode_sections_def sections_within_def)
qed

section \<open>Encoded sections\<close>

lemma encode_section_total: "encode_section tag body out \<noteq> None"
  using packet_write_varu32_loop_splice [of 1 0 "of_nat (length body)" "out[0 := tag_byte tag]"]
  by (auto simp: encode_section_def Let_def varu32_len_length packet_write_varu32_def)

lemma encode_section_bytes:
  assumes "encode_section tag body out = Some (Inr (n, out'))"
  shows "take n out' = section_bytes \<lparr>ws_tag = tag, ws_body = body\<rparr> \<and> n \<le> length out'"
proof -
  let ?len = "varint_encode (of_nat (length body))"
  let ?o1 = "out[0 := tag_byte tag]"
  from assms have n: "n = 1 + length ?len + length body" and fits: "n \<le> length out"
    by (auto simp: encode_section_def Let_def varu32_len_length split: if_splits option.splits)
  have wr: "packet_write_varu32 (of_nat (length body)) ?o1 1 =
      Some (length ?len, splice ?o1 1 ?len)"
    using packet_write_varu32_loop_splice [of 1 0 "of_nat (length body)" ?o1] fits n
    by (simp add: packet_write_varu32_def)
  have out': "out' = splice (splice ?o1 1 ?len) (1 + length ?len) body"
    using assms fits n wr
    by (auto simp: encode_section_def Let_def varu32_len_length split: if_splits)
  have "take n out' = take (1 + length ?len) (splice ?o1 1 ?len) @ body"
    unfolding out' n using fits n by (intro take_splice_end) simp
  also have "take (1 + length ?len) (splice ?o1 1 ?len) = take 1 ?o1 @ ?len"
    using fits n by (intro take_splice_end) simp
  also have "take 1 ?o1 = [tag_byte tag]" using fits n by (cases out) auto
  finally show ?thesis using fits n by (simp add: section_bytes_def out')
qed


section \<open>The header on the wire\<close>

definition header_bytes :: "packet_header \<Rightarrow> u8 list" where
  "header_bytes h =
    to_le_bytes 4 MAGIC @ to_le_bytes 2 (ph_version h) @ to_le_bytes 2 (flags_raw (ph_flags h)) @
    to_le_bytes 8 (ph_schema_hash h) @ to_le_bytes 4 (ph_tick h) @
    to_le_bytes 4 (ph_baseline_tick h) @ to_le_bytes 4 (ph_payload_len h)"

definition header_ok :: "packet_header \<Rightarrow> bool" where
  "header_ok h \<longleftrightarrow> ph_version h = VERSION \<and> is_valid_v2 (ph_flags h) \<and>
    (is_full_snapshot (ph_flags h) \<longrightarrow> ph_baseline_tick h = 0) \<and>
    (is_delta_snapshot (ph_flags h) \<longrightarrow> ph_baseline_tick h \<noteq> 0)"

lemma header_bytes_length [simp]: "length (header_bytes h) = 28"
  by (simp add: header_bytes_def)

lemma HEADER_SIZE_eq: "HEADER_SIZE = 28"
  by (simp add: HEADER_SIZE_def)

lemma encode_header_bytes:
  assumes "encode_header h out = Inr (n, out')"
  shows "n = 28 \<and> length out' = length out \<and> take 28 out' = header_bytes h \<and>
    drop 28 out' = drop 28 out"
proof -
  from assms have n: "n = 28" and fits: "28 \<le> length out"
    by (auto simp: encode_header_def HEADER_SIZE_eq Let_def split: if_splits)
  let ?s1 = "splice out 0 (to_le_bytes 4 MAGIC)"
  let ?s2 = "splice ?s1 4 (to_le_bytes 2 (ph_version h))"
  let ?s3 = "splice ?s2 6 (to_le_bytes 2 (flags_raw (ph_flags h)))"
  let ?s4 = "splice ?s3 8 (to_le_bytes 8 (ph_schema_hash h))"
  let ?s5 = "splice ?s4 16 (to_le_bytes 4 (ph_tick h))"
  let ?s6 = "splice ?s5 20 (to_le_bytes 4 (ph_baseline_tick h))"
  let ?s7 = "splice ?s6 24 (to_le_bytes 4 (ph_payload_len h))"
  have out': "out' = ?s7" using assms fits
    by (simp add: encode_header_def HEADER_SIZE_eq Let_def split: if_splits)
  have step: "take (i + k) (splice xs i (to_le_bytes k v)) = take i xs @ to_le_bytes k v"
    if "i \<le> length xs" for xs i k and v :: "'x::len word"
    using take_splice_end [OF that, of "to_le_bytes k v"] by simp
  have "take 28 ?s7 = header_bytes h"
    using fits step [of 24 ?s6 4 "ph_payload_len h"] step [of 20 ?s5 4 "ph_baseline_tick h"]
      step [of 16 ?s4 4 "ph_tick h"] step [of 8 ?s3 8 "ph_schema_hash h"]
      step [of 6 ?s2 2 "flags_raw (ph_flags h)"] step [of 4 ?s1 2 "ph_version h"]
      step [of 0 out 4 MAGIC]
    by (simp add: header_bytes_def)
  moreover have "drop 28 ?s7 = drop 28 out" using fits by (simp add: splice_def)
  ultimately show ?thesis using fits n out' by simp
qed

lemma header_slices:
  assumes "28 \<le> length buf"
  shows "take 28 buf = header_bytes h \<longleftrightarrow>
    from_le_bytes (sub_slice buf 0 4) = MAGIC \<and> from_le_bytes (sub_slice buf 4 6) = ph_version h \<and>
    from_le_bytes (sub_slice buf 6 8) = flags_raw (ph_flags h) \<and>
    from_le_bytes (sub_slice buf 8 16) = ph_schema_hash h \<and>
    from_le_bytes (sub_slice buf 16 20) = ph_tick h \<and>
    from_le_bytes (sub_slice buf 20 24) = ph_baseline_tick h \<and>
    from_le_bytes (sub_slice buf 24 28) = ph_payload_len h"
proof -
  have le: "from_le_bytes xs = (w :: 'a::len word) \<longleftrightarrow> xs = to_le_bytes n w"
    if "length xs = n" "8 * n = LENGTH('a)" for xs n and w :: "'a::len word"
    using that to_from_le_bytes [of xs n, where 'a = 'a] from_to_le_bytes [of n w] by auto
  have "take 28 buf = sub_slice buf 0 4 @ sub_slice buf 4 6 @ sub_slice buf 6 8 @
      sub_slice buf 8 16 @ sub_slice buf 16 20 @ sub_slice buf 20 24 @ sub_slice buf 24 28"
    by (simp add: sub_slice_append) (simp add: sub_slice_def)
  then show ?thesis
    using assms
    by (simp add: header_bytes_def le [of _ 4] le [of _ 2] le [of _ 8])
qed

lemma decode_packet_iff:
  "decode_packet buf l = Inr p \<longleftrightarrow>
    HEADER_SIZE \<le> length buf \<and> length buf \<le> max_packet_bytes l \<and>
    take HEADER_SIZE buf = header_bytes (wp_header p) \<and> header_ok (wp_header p) \<and>
    unat (ph_payload_len (wp_header p)) = length buf - HEADER_SIZE \<and>
    framed (drop HEADER_SIZE buf) (wp_sections p) \<and> sections_within l (wp_sections p)"
  (is "?lhs \<longleftrightarrow> ?rhs")
proof (cases "28 \<le> length buf")
  case False
  then show ?thesis by (simp add: decode_packet_def HEADER_SIZE_eq)
next
  case True
  have session: "bit raw 2 \<Longrightarrow> is_valid_v2 (PacketFlags raw) \<Longrightarrow> \<not> bit raw 0 \<and> \<not> bit raw (Suc 0)"
    for raw by (simp add: is_valid_v2_def Let_def split: if_splits)
  have flags: "PacketFlags raw = f \<longleftrightarrow> raw = flags_raw f" for raw f by (cases f) simp
  show ?thesis
  proof
    assume ?lhs
    with True show ?rhs
      by (auto simp: decode_packet_def HEADER_SIZE_eq Let_def res_simps header_slices header_ok_def
          decode_sections_iff split: if_splits dest: session)
  next
    assume rhs: ?rhs
    obtain h secs where p: "p = \<lparr>wp_header = h, wp_sections = secs\<rparr>" by (cases p)
    obtain v f s t b n where h: "h = \<lparr>ph_version = v, ph_flags = f, ph_schema_hash = s, ph_tick = t,
      ph_baseline_tick = b, ph_payload_len = n\<rparr>" by (cases h)
    from rhs True show ?lhs
      by (cases f) (auto simp: p h decode_packet_def HEADER_SIZE_eq Let_def header_slices
          header_ok_def decode_sections_iff [THEN iffD2])
  qed
qed

end
