(* ===== verification/Wire_Session.thy ===== *)
theory Wire_Session
  imports Wire_Packet
begin

text \<open>
  The compact session header (wire/src/session.rs): one flag byte and three varints (tick delta,
  baseline delta, payload length) relative to the tick of the last packet.
\<close>

definition SESSION_MAX_HEADER_SIZE :: usize where
  "SESSION_MAX_HEADER_SIZE = 1 + 5 + 5 + 5"

datatype session_flags = SessionFlags u8

fun session_flags_raw :: "session_flags \<Rightarrow> u8" where
  "session_flags_raw (SessionFlags raw) = raw"

definition SESSION_FULL_SNAPSHOT :: u8 where "SESSION_FULL_SNAPSHOT = push_bit 0 1"

definition SESSION_DELTA_SNAPSHOT :: u8 where "SESSION_DELTA_SNAPSHOT = push_bit 1 1"

definition SESSION_RESERVED_MASK :: u8 where "SESSION_RESERVED_MASK = NOT 0b11"

definition session_is_full_snapshot :: "session_flags \<Rightarrow> bool" where
  "session_is_full_snapshot f \<longleftrightarrow> session_flags_raw f AND SESSION_FULL_SNAPSHOT \<noteq> 0"

definition session_is_delta_snapshot :: "session_flags \<Rightarrow> bool" where
  "session_is_delta_snapshot f \<longleftrightarrow> session_flags_raw f AND SESSION_DELTA_SNAPSHOT \<noteq> 0"

definition session_flags_is_valid :: "session_flags \<Rightarrow> bool" where
  "session_flags_is_valid f \<longleftrightarrow>
    (let has_full = session_is_full_snapshot f;
         has_delta = session_is_delta_snapshot f;
         has_reserved = (session_flags_raw f AND SESSION_RESERVED_MASK \<noteq> 0)
     in has_full \<noteq> has_delta \<and> \<not> has_reserved)"

definition session_flags_full_snapshot :: session_flags where
  "session_flags_full_snapshot = SessionFlags SESSION_FULL_SNAPSHOT"

definition session_flags_delta_snapshot :: session_flags where
  "session_flags_delta_snapshot = SessionFlags SESSION_DELTA_SNAPSHOT"

record session_header =
  sh_flags :: session_flags
  sh_tick :: u32
  sh_baseline_tick :: u32
  sh_payload_len :: u32
  sh_header_len :: usize

section \<open>Varints\<close>

text \<open>
  The reader's value is 64 bits wide and truncated at the end; \<open>count\<close> is the number of bytes read.
\<close>

function session_read_varu32_loop ::
  "u8 list \<Rightarrow> u64 \<Rightarrow> nat \<Rightarrow> nat \<Rightarrow> usize \<Rightarrow> decode_error + u32 \<times> usize" where
  "session_read_varu32_loop buf value shift count offset =
    (if offset \<ge> length buf then
       Inl (SectionFraming (Truncated 1 (saturating_sub (length buf) offset)))
     else
       let byte = buf ! offset;
           offset' = offset + 1;
           count' = count + 1;
           value' = value OR push_bit shift (ucast (byte AND 0x7F))
       in if byte AND 0x80 = 0 then Inr (ucast value', offset')
          else if count' \<ge> 5 then Inl (SectionFraming FramingInvalidVarint)
          else session_read_varu32_loop buf value' (shift + 7) count' offset')"
  by pat_completeness auto
termination
  by (relation "measure (\<lambda>(buf, value, shift, count, offset). 5 - count)") auto

declare session_read_varu32_loop.simps [simp del]

definition session_read_varu32 :: "u8 list \<Rightarrow> usize \<Rightarrow> decode_error + u32 \<times> usize" where
  "session_read_varu32 buf offset = session_read_varu32_loop buf 0 0 0 offset"

text \<open>\<^verbatim>\<open>write_varu32(value, &mut out[base..])\<close>; \<^const>\<open>None\<close> is the panic of an index out of bounds.\<close>

function session_write_varu32_loop ::
  "u32 \<Rightarrow> u8 list \<Rightarrow> usize \<Rightarrow> usize \<Rightarrow> (usize \<times> u8 list) option" where
  "session_write_varu32_loop value out base offset =
    (if base + offset < length out then
       let out' = out[base + offset := varint_byte value]
       in if drop_bit 7 value = 0 then Some (offset + 1, out')
          else session_write_varu32_loop (drop_bit 7 value) out' base (offset + 1)
     else None)"
  by pat_completeness auto
termination
  by (relation "measure (\<lambda>(value, out, base, offset). unat value)") (auto intro: drop_bit_7_less)

declare session_write_varu32_loop.simps [simp del]

definition session_write_varu32 :: "u32 \<Rightarrow> u8 list \<Rightarrow> usize \<Rightarrow> (usize \<times> u8 list) option" where
  "session_write_varu32 value out base = session_write_varu32_loop value out base 0"

section \<open>The header\<close>

definition encode_session_header ::
  "u8 list \<Rightarrow> session_flags \<Rightarrow> u32 \<Rightarrow> u32 \<Rightarrow> u32 \<Rightarrow> (encode_error + usize \<times> u8 list) option" where
  "encode_session_header out flags tick_delta baseline_delta payload_len =
    (if length out < SESSION_MAX_HEADER_SIZE then
       Some (Inl (BufferTooSmall SESSION_MAX_HEADER_SIZE (length out)))
     else if \<not> session_flags_is_valid flags then Some (Inl (LengthOverflow 0))
     else
       let out = out[0 := session_flags_raw flags]; offset = 1 in
       case session_write_varu32 tick_delta out offset of None \<Rightarrow> None
       | Some (n, out) \<Rightarrow>
         let offset = offset + n in
         case session_write_varu32 baseline_delta out offset of None \<Rightarrow> None
         | Some (n, out) \<Rightarrow>
           let offset = offset + n in
           case session_write_varu32 payload_len out offset of None \<Rightarrow> None
           | Some (n, out) \<Rightarrow> Some (Inr (offset + n, out)))"

text \<open>\<^verbatim>\<open>checked_add\<close> and \<^verbatim>\<open>checked_sub\<close> on 32 bits.\<close>

definition checked_add_u32 :: "u32 \<Rightarrow> u32 \<Rightarrow> u32 option" where
  "checked_add_u32 a b = (if unat a + unat b < 2 ^ 32 then Some (a + b) else None)"

definition checked_sub_u32 :: "u32 \<Rightarrow> u32 \<Rightarrow> u32 option" where
  "checked_sub_u32 a b = (if b \<le> a then Some (a - b) else None)"

definition decode_session_header :: "u8 list \<Rightarrow> u32 \<Rightarrow> decode_error + session_header" where
  "decode_session_header buf last_tick =
    (if buf = [] then Inl (PacketTooSmall (length buf) 1)
     else
     let flags = SessionFlags (buf ! 0); raw16 = ucast (session_flags_raw flags) in
     if \<not> session_flags_is_valid flags then Inl (InvalidFlags raw16)
     else
     let offset = 1 in
     and_then (session_read_varu32 buf offset) (\<lambda>(tick_delta, offset).
     if tick_delta = 0 then Inl (InvalidFlags raw16)
     else
     and_then (ok_or (InvalidFlags raw16) (checked_add_u32 last_tick tick_delta)) (\<lambda>tick.
     and_then (session_read_varu32 buf offset) (\<lambda>(baseline_delta, offset).
     and_then (ok_or (InvalidBaselineTick baseline_delta raw16)
       (checked_sub_u32 tick baseline_delta)) (\<lambda>baseline_tick.
     if session_is_full_snapshot flags \<and> baseline_delta \<noteq> 0 then
       Inl (InvalidBaselineTick baseline_tick raw16)
     else if session_is_delta_snapshot flags \<and> baseline_tick = 0 then
       Inl (InvalidBaselineTick baseline_tick raw16)
     else
     and_then (session_read_varu32 buf offset) (\<lambda>(payload_len, offset).
       Inr \<lparr>sh_flags = flags, sh_tick = tick, sh_baseline_tick = baseline_tick,
            sh_payload_len = payload_len, sh_header_len = offset\<rparr>))))))"

section \<open>The two slice varints are the same codec\<close>

lemma session_write_is_packet_write:
  "session_write_varu32_loop v out base offset = packet_write_varu32_loop v out base offset"
proof (induction v out base offset rule: session_write_varu32_loop.induct)
  case (1 v out base offset)
  then show ?case
    by (subst session_write_varu32_loop.simps, subst packet_write_varu32_loop.simps) (simp add: Let_def)
qed

lemma ucast_or: "ucast (a OR b) = (ucast a OR ucast b :: 'b::len word)"
  by (rule bit_word_eqI) (auto simp: bit_simps)

lemma ucast_push_group:
  "ucast (push_bit s (ucast (b AND 0x7F :: u8) :: u64)) = (push_bit s (ucast (b AND 0x7F)) :: u32)"
  by (rule bit_word_eqI) (auto simp: bit_push_bit_iff bit_ucast_iff)

lemma session_read_is_packet_read:
  "n + m = 5 \<Longrightarrow> 0 < n \<Longrightarrow>
    (session_read_varu32_loop buf value64 shift m offset = Inr r \<longleftrightarrow>
     packet_read_varu32_loop n buf (ucast value64) shift offset = Inr r)"
proof (induction n arbitrary: value64 shift m offset)
  case (Suc n)
  let ?byte = "buf ! offset"
  have v: "ucast (value64 OR push_bit shift (ucast (?byte AND 0x7F))) =
      (ucast value64 OR push_bit shift (ucast (?byte AND 0x7F)) :: u32)"
    by (simp only: ucast_or ucast_push_group)
  show ?case
  proof (cases "n = 0")
    case True
    then show ?thesis using Suc.prems v
      by (subst session_read_varu32_loop.simps) (simp add: Let_def)
  next
    case False
    have IH: "session_read_varu32_loop buf (value64 OR push_bit shift (ucast (?byte AND 0x7F)))
          (shift + 7) (m + 1) (offset + 1) = Inr r \<longleftrightarrow>
        packet_read_varu32_loop n buf (ucast value64 OR push_bit shift (ucast (?byte AND 0x7F)))
          (shift + 7) (offset + 1) = Inr r"
      using Suc.IH [of "m + 1" "value64 OR push_bit shift (ucast (?byte AND 0x7F))" "shift + 7" "offset + 1"]
        Suc.prems False v by simp
    then show ?thesis using Suc.prems False v
      by (subst session_read_varu32_loop.simps) (simp add: Let_def)
  qed
qed simp

lemma session_read_varu32_iff:
  "session_read_varu32 buf k = Inr (v, k') \<longleftrightarrow>
    varint_decode (drop k buf) = Some (v, drop k' buf) \<and> k < length buf \<and> k' \<le> length buf"
  using session_read_is_packet_read [of 5 0 buf 0 0 k "(v, k')"] packet_read_varu32_iff [of buf k v k']
  by (simp add: session_read_varu32_def packet_read_varu32_def)

lemma session_read_encoded:
  "drop k buf = varint_encode v @ rest \<Longrightarrow> k < length buf \<Longrightarrow>
    session_read_varu32 buf k = Inr (v, k + length (varint_encode v))"
proof -
  assume d: "drop k buf = varint_encode v @ rest" and k: "k < length buf"
  have "drop (k + length (varint_encode v)) buf = rest"
    using d by (metis append_eq_conv_conj drop_drop add.commute)
  moreover have "k + length (varint_encode v) \<le> length buf"
    using d k by (metis add_le_cancel_left le_add_diff_inverse length_append length_drop
        le_add1 less_imp_le)
  ultimately show ?thesis
    using d k by (simp add: session_read_varu32_iff varint_decode_encode)
qed

section \<open>Flags\<close>

lemma session_flag_tests [simp]:
  "session_is_full_snapshot (SessionFlags raw) \<longleftrightarrow> bit raw 0"
  "session_is_delta_snapshot (SessionFlags raw) \<longleftrightarrow> bit raw 1"
  by (simp_all only: session_is_full_snapshot_def session_is_delta_snapshot_def
      SESSION_FULL_SNAPSHOT_def SESSION_DELTA_SNAPSHOT_def session_flags_raw.simps flag_bit_test)

lemma session_flags_valid_iff: "session_flags_is_valid (SessionFlags raw) \<longleftrightarrow> raw \<in> {1, 2}"
proof -
  have m: "SESSION_RESERVED_MASK = NOT (mask 2)"
    by (simp add: SESSION_RESERVED_MASK_def mask_eq_exp_minus_1)
  have res: "raw AND SESSION_RESERVED_MASK = 0 \<longleftrightarrow> unat raw < 4"
    unfolding m by (simp add: reserved_clear)
  have "unat raw < 4 \<longleftrightarrow> raw \<in> {0, 1, 2, 3}"
  proof
    assume "unat raw < 4"
    then have "unat raw = 0 \<or> unat raw = 1 \<or> unat raw = 2 \<or> unat raw = 3" by linarith
    moreover have raw: "raw = of_nat (unat raw)" by simp
    ultimately show "raw \<in> {0, 1, 2, 3}" by (elim disjE) (subst raw, simp)+
  qed auto
  then show ?thesis
    by (auto simp: session_flags_is_valid_def Let_def res bit_0 bit_numeral_rec bit_Suc)
qed

section \<open>Round trip and bounds of the header\<close>

definition session_header_bytes :: "session_flags \<Rightarrow> u32 \<Rightarrow> u32 \<Rightarrow> u32 \<Rightarrow> u8 list" where
  "session_header_bytes flags tick_delta baseline_delta payload_len =
    session_flags_raw flags # varint_encode tick_delta @ varint_encode baseline_delta @
    varint_encode payload_len"

lemma session_header_bytes_length:
  "length (session_header_bytes f a b c) \<le> SESSION_MAX_HEADER_SIZE"
  using varint_length(1) [of a] varint_length(1) [of b] varint_length(1) [of c]
  by (simp add: session_header_bytes_def SESSION_MAX_HEADER_SIZE_def)

lemma session_write_varu32_splice:
  "base + length (varint_encode v) \<le> length out \<Longrightarrow>
    session_write_varu32 v out base =
      Some (length (varint_encode v), splice out base (varint_encode v))"
  using packet_write_varu32_loop_splice [of base 0 v out]
  by (simp add: session_write_varu32_def session_write_is_packet_write)

text \<open>With a buffer of the maximal size and valid flags, the encoder neither fails nor panics.\<close>

lemma encode_session_header_bytes:
  assumes "SESSION_MAX_HEADER_SIZE \<le> length out" and "session_flags_is_valid f"
  obtains out' where "encode_session_header out f a b c =
      Some (Inr (length (session_header_bytes f a b c), out'))"
    and "length out' = length out"
    and "take (length (session_header_bytes f a b c)) out' = session_header_bytes f a b c"
    and "drop (length (session_header_bytes f a b c)) out' = drop (length (session_header_bytes f a b c)) out"
proof -
  let ?la = "length (varint_encode a)" and ?lb = "length (varint_encode b)"
  let ?lc = "length (varint_encode c)"
  let ?o0 = "out[0 := session_flags_raw f]"
  let ?o1 = "splice ?o0 1 (varint_encode a)"
  let ?o2 = "splice ?o1 (1 + ?la) (varint_encode b)"
  let ?o3 = "splice ?o2 (1 + ?la + ?lb) (varint_encode c)"
  have len: "16 \<le> length out" using assms(1) by (simp add: SESSION_MAX_HEADER_SIZE_def)
  note fives = varint_length(1) [of a] varint_length(1) [of b] varint_length(1) [of c]
  have n: "length (session_header_bytes f a b c) = 1 + ?la + ?lb + ?lc"
    by (simp add: session_header_bytes_def)
  have "encode_session_header out f a b c = Some (Inr (1 + ?la + ?lb + ?lc, ?o3))"
    using assms len fives
    by (simp add: encode_session_header_def Let_def session_write_varu32_splice)
  moreover have "take (1 + ?la + ?lb + ?lc) ?o3 = take (1 + ?la + ?lb) ?o2 @ varint_encode c"
    using len fives by (intro take_splice_end) simp
  moreover have "take (1 + ?la + ?lb) ?o2 = take (1 + ?la) ?o1 @ varint_encode b"
    using len fives by (intro take_splice_end) simp
  moreover have "take (1 + ?la) ?o1 = take 1 ?o0 @ varint_encode a"
    using len fives by (intro take_splice_end) simp
  moreover have "take 1 ?o0 = [session_flags_raw f]" using len by (cases out) auto
  moreover have "drop (1 + ?la + ?lb + ?lc) ?o3 = drop (1 + ?la + ?lb + ?lc) out"
    using len fives by (cases out) (simp_all add: splice_def ac_simps)
  moreover have "length ?o3 = length out" using len fives by simp
  ultimately show thesis
    by (intro that [of ?o3], unfold n) (simp_all add: session_header_bytes_def)
qed

lemma decode_session_header_encoded:
  assumes "session_flags_is_valid f" and "a \<noteq> 0" and "unat last_tick + unat a < 2 ^ 32"
    and "b \<le> last_tick + a"
    and "session_is_full_snapshot f \<Longrightarrow> b = 0"
    and "session_is_delta_snapshot f \<Longrightarrow> b < last_tick + a"
  shows "decode_session_header (session_header_bytes f a b c @ payload) last_tick =
    Inr \<lparr>sh_flags = f, sh_tick = last_tick + a, sh_baseline_tick = last_tick + a - b,
         sh_payload_len = c, sh_header_len = length (session_header_bytes f a b c)\<rparr>"
proof -
  let ?buf = "session_header_bytes f a b c @ payload"
  let ?la = "length (varint_encode a)" and ?lb = "length (varint_encode b)"
  have d1: "drop 1 ?buf = varint_encode a @ (varint_encode b @ varint_encode c @ payload)"
    by (simp add: session_header_bytes_def)
  have d2: "drop (1 + ?la) ?buf = varint_encode b @ (varint_encode c @ payload)"
    by (simp add: session_header_bytes_def)
  have d3: "drop (1 + ?la + ?lb) ?buf = varint_encode c @ payload"
    by (simp add: session_header_bytes_def)
  have l: "1 < length ?buf" "1 + ?la < length ?buf" "1 + ?la + ?lb < length ?buf"
    by (simp_all add: session_header_bytes_def)
  note rd = session_read_encoded [OF d1 l(1)] session_read_encoded [OF d2 l(2)]
    session_read_encoded [OF d3 l(3)]
  have f0: "SessionFlags (?buf ! 0) = f" "?buf \<noteq> []"
    by (cases f; simp add: session_header_bytes_def)+
  have nz: "last_tick + a - b \<noteq> 0" if "b < last_tick + a" using that by auto
  show ?thesis
    unfolding decode_session_header_def
    using assms f0 rd nz
    by (auto simp: Let_def checked_add_u32_def checked_sub_u32_def session_header_bytes_def)
qed

lemma encode_session_header_decodes:
  assumes "encode_session_header out f a b c = Some (Inr (n, out'))" and "a \<noteq> 0"
    and "unat last_tick + unat a < 2 ^ 32" and "b \<le> last_tick + a"
    and "session_is_full_snapshot f \<Longrightarrow> b = 0"
    and "session_is_delta_snapshot f \<Longrightarrow> b < last_tick + a"
  shows "decode_session_header (take n out' @ payload) last_tick =
    Inr \<lparr>sh_flags = f, sh_tick = last_tick + a, sh_baseline_tick = last_tick + a - b,
         sh_payload_len = c, sh_header_len = n\<rparr>"
proof -
  have f: "SESSION_MAX_HEADER_SIZE \<le> length out" "session_flags_is_valid f"
    using assms(1) by (auto simp: encode_session_header_def split: if_splits)
  from encode_session_header_bytes [OF f, of a b c] assms(1)
  have "n = length (session_header_bytes f a b c)" "take n out' = session_header_bytes f a b c"
    by (metis Pair_inject option.inject sum.inject(2))+
  with decode_session_header_encoded [OF f(2) assms(2-)] show ?thesis by simp
qed

lemma decode_session_header_sound:
  assumes "decode_session_header buf last_tick = Inr h"
  shows "last_tick < sh_tick h" and "sh_baseline_tick h \<le> sh_tick h"
    and "sh_header_len h \<le> length buf" and "sh_header_len h \<le> SESSION_MAX_HEADER_SIZE"
    and "session_flags_is_valid (sh_flags h)"
    and "session_is_delta_snapshot (sh_flags h) \<Longrightarrow> sh_baseline_tick h \<noteq> 0"
    and "session_is_full_snapshot (sh_flags h) \<Longrightarrow> sh_baseline_tick h = sh_tick h"
proof -
  from assms obtain a k1 b k2 c k3 where
    v: "session_flags_is_valid (sh_flags h)" and a: "a \<noteq> 0" "checked_add_u32 last_tick a = Some (sh_tick h)"
    and b: "checked_sub_u32 (sh_tick h) b = Some (sh_baseline_tick h)"
    and full: "session_is_full_snapshot (sh_flags h) \<longrightarrow> b = 0"
    and delta: "session_is_delta_snapshot (sh_flags h) \<longrightarrow> sh_baseline_tick h \<noteq> 0"
    and r1: "session_read_varu32 buf 1 = Inr (a, k1)" and r2: "session_read_varu32 buf k1 = Inr (b, k2)"
    and r3: "session_read_varu32 buf k2 = Inr (c, k3)" and len: "sh_header_len h = k3"
    by (auto simp: decode_session_header_def Let_def res_simps split: if_splits)
  have step: "k' \<le> k + 5" if "session_read_varu32 buf k = Inr (v, k')" for k v k'
  proof -
    from that have dec: "varint_groups [0, 7, 14, 21, 28] 0 (drop k buf) = Some (v, drop k' buf)"
      and le: "k < length buf" "k' \<le> length buf"
      unfolding session_read_varu32_iff varint_decode_def by simp_all
    then obtain used where "drop k buf = used @ drop k' buf" "length used \<le> 5"
      using varint_groups_suffix by fastforce
    then have "length buf - k \<le> 5 + (length buf - k')" by (metis add_right_mono length_append length_drop)
    with le show ?thesis by linarith
  qed
  show "sh_header_len h \<le> length buf" using r3 len by (simp add: session_read_varu32_iff)
  show "sh_header_len h \<le> SESSION_MAX_HEADER_SIZE"
    using step [OF r1] step [OF r2] step [OF r3] len by (simp add: SESSION_MAX_HEADER_SIZE_def)
  have t: "sh_tick h = last_tick + a" "unat last_tick + unat a < 2 ^ 32"
    using a(2) by (auto simp: checked_add_u32_def split: if_splits)
  then have "unat (sh_tick h) = unat last_tick + unat a" "0 < unat a"
    using a(1) by (simp_all add: unat_plus_if' unat_gt_0)
  then show "last_tick < sh_tick h" by (simp add: word_less_nat_alt)
  show "sh_baseline_tick h \<le> sh_tick h"
    using b word_sub_le [of b "sh_tick h"] by (auto simp: checked_sub_u32_def split: if_splits)
  show "session_flags_is_valid (sh_flags h)" by (rule v)
  show "session_is_delta_snapshot (sh_flags h) \<Longrightarrow> sh_baseline_tick h \<noteq> 0" using delta by simp
  show "session_is_full_snapshot (sh_flags h) \<Longrightarrow> sh_baseline_tick h = sh_tick h"
    using b full by (auto simp: checked_sub_u32_def split: if_splits)
qed

end
