(* ===== verification/Codec_Types.thy ===== *)
theory Codec_Types
  imports Schema_Hash Wire_Session Bit_Roundtrip
begin

text \<open>
  The codec crate's shared types: ticks and entity ids (codec/src/types.rs), errors
  (codec/src/error.rs), limits (codec/src/limits.rs), the encoder's scratch buffers
  (codec/src/scratch.rs) and the snapshot data types (codec/src/snapshot.rs).
\<close>

section \<open>Ticks and entities\<close>

datatype snapshot_tick = SnapshotTick u32

fun tick_raw :: "snapshot_tick \<Rightarrow> u32" where
  "tick_raw (SnapshotTick t) = t"

definition tick_is_zero :: "snapshot_tick \<Rightarrow> bool" where
  "tick_is_zero t \<longleftrightarrow> tick_raw t = 0"

datatype entity_id = EntityId u32

fun entity_raw :: "entity_id \<Rightarrow> u32" where
  "entity_raw (EntityId i) = i"

lemma tick_raw_inject [simp]: "tick_raw a = tick_raw b \<longleftrightarrow> a = b"
  by (cases a; cases b) simp

lemma entity_raw_inject [simp]: "entity_raw a = entity_raw b \<longleftrightarrow> a = b"
  by (cases a; cases b) simp

lemma EntityId_raw [simp]: "EntityId (entity_raw e) = e"
  by (cases e) simp

lemma SnapshotTick_raw [simp]: "SnapshotTick (tick_raw t) = t"
  by (cases t) simp

instantiation snapshot_tick :: linorder
begin

definition less_eq_snapshot_tick :: "snapshot_tick \<Rightarrow> snapshot_tick \<Rightarrow> bool" where
  "less_eq_snapshot_tick a b \<longleftrightarrow> tick_raw a \<le> tick_raw b"

definition less_snapshot_tick :: "snapshot_tick \<Rightarrow> snapshot_tick \<Rightarrow> bool" where
  "less_snapshot_tick a b \<longleftrightarrow> tick_raw a < tick_raw b"

instance
  by standard (auto simp: less_eq_snapshot_tick_def less_snapshot_tick_def dest: order.antisym)

end

instantiation entity_id :: linorder
begin

definition less_eq_entity_id :: "entity_id \<Rightarrow> entity_id \<Rightarrow> bool" where
  "less_eq_entity_id a b \<longleftrightarrow> entity_raw a \<le> entity_raw b"

definition less_entity_id :: "entity_id \<Rightarrow> entity_id \<Rightarrow> bool" where
  "less_entity_id a b \<longleftrightarrow> entity_raw a < entity_raw b"

instance
  by standard (auto simp: less_eq_entity_id_def less_entity_id_def dest: order.antisym)

end

section \<open>Errors\<close>

datatype codec_limit_kind =
    EntitiesCreate
  | EntitiesUpdate
  | EntitiesDestroy
  | TotalEntitiesAfterApply
  | ComponentsPerEntity
  | FieldsPerComponent
  | SectionBytes

datatype mask_kind = ComponentMask | FieldMask component_id

datatype mask_reason =
    NotEnoughBits usize usize \<comment> \<open>expected, available\<close>
  | FieldCountMismatch usize usize \<comment> \<open>expected, actual\<close>
  | MissingField field_id
  | UnknownComponent component_id
  | InvalidComponentId u16
  | InvalidFieldIndex usize usize \<comment> \<open>index, maximum\<close>
  | ComponentPresenceMismatch component_id
  | EmptyFieldMask component_id

datatype value_reason =
    UnsignedOutOfRange u8 u64
  | SignedOutOfRange u8 i64
  | VarUIntOutOfRange u64
  | VarSIntOutOfRange i64
  | FixedPointOutOfRange i64 i64 i64 \<comment> \<open>minimum, maximum, value\<close>
  | TypeMismatch string string \<comment> \<open>expected, found\<close>

datatype codec_error =
    Wire decode_error
  | Bitstream bit_error
  | OutputTooSmall usize usize \<comment> \<open>needed, available\<close>
  | SchemaMismatch u64 u64 \<comment> \<open>expected, found\<close>
  | CodecLimitsExceeded codec_limit_kind usize usize \<comment> \<open>kind, limit, actual\<close>
  | InvalidMask mask_kind mask_reason
  | InvalidValue component_id field_id value_reason
  | InvalidEntityOrder u32 u32 \<comment> \<open>previous, current\<close>
  | TrailingSectionData section_tag usize
  | UnexpectedSection section_tag
  | DuplicateSection section_tag
  | DuplicateUpdateEncoding
  | BaselineTickMismatch u32 u32 \<comment> \<open>expected, found\<close>
  | BaselineNotFound u32
  | EntityNotFound u32
  | ComponentNotFound u32 u16
  | DuplicateEntity u32
  | EntityAlreadyExists u32
  | SessionMissing
  | SessionInitInvalid
  | SessionUnsupportedMode u8
  | SessionOutOfOrder u32 u32 \<comment> \<open>previous, current\<close>

fun needs_resync :: "codec_error \<Rightarrow> bool" where
  "needs_resync SessionMissing = True"
| "needs_resync SessionInitInvalid = True"
| "needs_resync (SessionUnsupportedMode _) = True"
| "needs_resync (SessionOutOfOrder _ _) = True"
| "needs_resync (SchemaMismatch _ _) = True"
| "needs_resync (BaselineNotFound _) = True"
| "needs_resync (BaselineTickMismatch _ _) = True"
| "needs_resync (Wire (InvalidBaselineTick _ _)) = True"
| "needs_resync (Wire (InvalidFlags _)) = True"
| "needs_resync _ = False"

text \<open>The \<^verbatim>\<open>?\<close> on a bitstream result inside the codec.\<close>

abbreviation lift_bit :: "bit_error + 'a \<Rightarrow> codec_error + 'a" where
  "lift_bit \<equiv> map_err Bitstream"

section \<open>Limits\<close>

record codec_limits =
  max_entities_create :: usize
  max_entities_update :: usize
  max_entities_destroy :: usize
  max_components_per_entity :: usize
  max_fields_per_component :: usize
  max_section_bytes :: usize
  max_total_entities_after_apply :: usize

definition codec_limits_default :: codec_limits where
  "codec_limits_default =
    \<lparr>max_entities_create = 1024, max_entities_update = 2048, max_entities_destroy = 1024,
     max_components_per_entity = 64, max_fields_per_component = 64,
     max_section_bytes = 64 * 1024, max_total_entities_after_apply = 4096\<rparr>"

definition codec_limits_for_testing :: codec_limits where
  "codec_limits_for_testing =
    \<lparr>max_entities_create = 32, max_entities_update = 64, max_entities_destroy = 32,
     max_components_per_entity = 16, max_fields_per_component = 16,
     max_section_bytes = 4096, max_total_entities_after_apply = 128\<rparr>"

definition codec_limits_unlimited :: codec_limits where
  "codec_limits_unlimited =
    \<lparr>max_entities_create = usize_max, max_entities_update = usize_max,
     max_entities_destroy = usize_max, max_components_per_entity = usize_max,
     max_fields_per_component = usize_max, max_section_bytes = usize_max,
     max_total_entities_after_apply = usize_max\<rparr>"

section \<open>Scratch buffers\<close>

record codec_scratch =
  sc_component_changed :: "bool list"
  sc_field_mask :: "bool list"

definition codec_scratch_new :: codec_scratch where
  "codec_scratch_new = \<lparr>sc_component_changed = [], sc_field_mask = []\<rparr>"

definition ensure_component_capacity :: "usize \<Rightarrow> codec_scratch \<Rightarrow> codec_scratch" where
  "ensure_component_capacity n sc =
    (if length (sc_component_changed sc) < n then
       sc\<lparr>sc_component_changed := sc_component_changed sc @
         replicate (n - length (sc_component_changed sc)) False\<rparr>
     else sc)"

definition ensure_field_capacity :: "usize \<Rightarrow> codec_scratch \<Rightarrow> codec_scratch" where
  "ensure_field_capacity n sc =
    (if length (sc_field_mask sc) < n then
       sc\<lparr>sc_field_mask := sc_field_mask sc @ replicate (n - length (sc_field_mask sc)) False\<rparr>
     else sc)"

text \<open>The grown buffers, and the two slices that the caller gets of them.\<close>

definition component_and_field_masks_mut ::
  "usize \<Rightarrow> usize \<Rightarrow> codec_scratch \<Rightarrow> codec_scratch \<times> bool list \<times> bool list" where
  "component_and_field_masks_mut n m sc =
    (let sc = ensure_field_capacity m (ensure_component_capacity n sc)
     in (sc, take n (sc_component_changed sc), take m (sc_field_mask sc)))"

lemma scratch_slices_length:
  "component_and_field_masks_mut n m sc = (sc', cs, fs) \<Longrightarrow> length cs = n \<and> length fs = m"
  by (auto simp: component_and_field_masks_mut_def ensure_field_capacity_def
      ensure_component_capacity_def Let_def)

section \<open>Snapshots\<close>

datatype field_value =
    BoolV bool
  | UIntV u64
  | SIntV i64
  | VarUIntV u64
  | VarSIntV i64
  | FixedPointV i64

record component_snapshot =
  cs_id :: component_id
  cs_fields :: "field_value list"

record entity_snapshot =
  es_id :: entity_id
  es_components :: "component_snapshot list"

record snapshot =
  sn_tick :: snapshot_tick
  sn_entities :: "entity_snapshot list"

end
