(* ===== verification/Field_Codec.thy ===== *)
theory Field_Codec
  imports Codec_Types
begin

text \<open>
  Field values on the wire (codec/src/snapshot.rs): the range checks, the sign and fixed-point
  encodings, the writers and readers of a field value (the source has two copies of each, for the
  masked and the sparse encodings), and bit masks.  The casts and shifts are the release build's:
  a shift amount is taken modulo the width, and signed arithmetic wraps.
\<close>

section \<open>Range checks and integer encodings\<close>

definition validate_uint :: "component_id \<Rightarrow> field_id \<Rightarrow> u8 \<Rightarrow> u64 \<Rightarrow> codec_error + unit" where
  "validate_uint component field bits v =
    (if bits = 64 then Inr ()
     else
       let max = push_bit (unat bits mod 128) (1 :: 128 word)
       in if ucast v \<ge> max then Inl (InvalidValue component field (UnsignedOutOfRange bits v))
          else Inr ())"

definition encode_sint :: "component_id \<Rightarrow> field_id \<Rightarrow> u8 \<Rightarrow> i64 \<Rightarrow> codec_error + u64" where
  "encode_sint component field bits v =
    (if bits = 64 then Inr v
     else
       let min = - push_bit (unat (bits - 1) mod 128) (1 :: 128 word);
           max = push_bit (unat (bits - 1) mod 128) (1 :: 128 word) - 1;
           value_i128 = scast v :: 128 word
       in if sint value_i128 < sint min \<or> sint value_i128 > sint max then
            Inl (InvalidValue component field (SignedOutOfRange bits v))
          else
            let mask = push_bit (unat bits mod 64) (1 :: u64) - 1
            in Inr (v AND mask))"

definition decode_sint :: "u8 \<Rightarrow> u64 \<Rightarrow> codec_error + i64" where
  "decode_sint bits raw =
    (if bits = 64 then Inr raw
     else if bits = 0 then Inr 0
     else
       let sign_bit = push_bit (unat (bits - 1) mod 64) (1 :: u64)
       in if raw AND sign_bit = 0 then Inr raw
          else
            let mask = push_bit (unat bits mod 64) (1 :: u64) - 1;
                v = raw AND mask
            in Inr (v - push_bit (unat bits mod 64) 1))"

definition leading_zeros :: "u64 \<Rightarrow> nat" where
  "leading_zeros r = length (takeWhile (\<lambda>i. \<not> bit r i) (rev [0..<64]))"

definition required_bits :: "u64 \<Rightarrow> u8" where
  "required_bits rng = (if rng = 0 then 0 else of_nat (64 - leading_zeros rng))"

fun codec_name :: "field_codec \<Rightarrow> string" where
  "codec_name BoolCodec = ''bool''"
| "codec_name (UIntCodec _) = ''uint''"
| "codec_name (SIntCodec _) = ''sint''"
| "codec_name VarUIntCodec = ''varuint''"
| "codec_name VarSIntCodec = ''varsint''"
| "codec_name (FixedPointCodec _) = ''fixed-point''"

fun value_name :: "field_value \<Rightarrow> string" where
  "value_name (BoolV _) = ''bool''"
| "value_name (UIntV _) = ''uint''"
| "value_name (SIntV _) = ''sint''"
| "value_name (VarUIntV _) = ''varuint''"
| "value_name (VarSIntV _) = ''varsint''"
| "value_name (FixedPointV _) = ''fixed-point''"

section \<open>Writing and reading a field value\<close>

definition write_field_value ::
  "component_id \<Rightarrow> field_def \<Rightarrow> field_value \<Rightarrow> bit_writer \<Rightarrow> codec_error + bit_writer" where
  "write_field_value component_id field v w =
    (case (fd_codec field, v) of
       (BoolCodec, BoolV v) \<Rightarrow> lift_bit (write_bit v w)
     | (UIntCodec bits, UIntV v) \<Rightarrow>
         and_then (validate_uint component_id (fd_id field) bits v) (\<lambda>_.
           lift_bit (write_bits v bits w))
     | (SIntCodec bits, SIntV v) \<Rightarrow>
         and_then (encode_sint component_id (fd_id field) bits v) (\<lambda>encoded.
           lift_bit (write_bits encoded bits w))
     | (VarUIntCodec, VarUIntV v) \<Rightarrow>
         if v > 0xFFFFFFFF then
           Inl (InvalidValue component_id (fd_id field) (VarUIntOutOfRange v))
         else
           and_then (lift_bit (writer_align_to_byte w)) (\<lambda>w.
             lift_bit (write_varu32 (ucast v) w))
     | (VarSIntCodec, VarSIntV v) \<Rightarrow>
         if sint v < - (2 ^ 31) \<or> sint v > 2 ^ 31 - 1 then
           Inl (InvalidValue component_id (fd_id field) (VarSIntOutOfRange v))
         else
           and_then (lift_bit (writer_align_to_byte w)) (\<lambda>w.
             lift_bit (write_vars32 (ucast v) w))
     | (FixedPointCodec fp, FixedPointV v) \<Rightarrow>
         if sint v < sint (min_q fp) \<or> sint v > sint (max_q fp) then
           Inl (InvalidValue component_id (fd_id field)
             (FixedPointOutOfRange (min_q fp) (max_q fp) v))
         else
           let offset = v - min_q fp;
               rng = max_q fp - min_q fp;
               bits = required_bits rng
           in if bits > 0 then lift_bit (write_bits offset bits w) else Inr w
     | (codec, v) \<Rightarrow>
         Inl (InvalidValue component_id (fd_id field)
           (TypeMismatch (codec_name codec) (value_name v))))"

definition write_field_value_sparse ::
  "component_id \<Rightarrow> field_def \<Rightarrow> field_value \<Rightarrow> bit_writer \<Rightarrow> codec_error + bit_writer" where
  "write_field_value_sparse component_id field v w =
    (case (fd_codec field, v) of
       (BoolCodec, BoolV v) \<Rightarrow> lift_bit (write_bit v w)
     | (UIntCodec bits, UIntV v) \<Rightarrow>
         and_then (validate_uint component_id (fd_id field) bits v) (\<lambda>_.
           lift_bit (write_bits v bits w))
     | (SIntCodec bits, SIntV v) \<Rightarrow>
         and_then (encode_sint component_id (fd_id field) bits v) (\<lambda>encoded.
           lift_bit (write_bits encoded bits w))
     | (VarUIntCodec, VarUIntV v) \<Rightarrow>
         if v > 0xFFFFFFFF then
           Inl (InvalidValue component_id (fd_id field) (VarUIntOutOfRange v))
         else
           and_then (lift_bit (writer_align_to_byte w)) (\<lambda>w.
             lift_bit (write_varu32 (ucast v) w))
     | (VarSIntCodec, VarSIntV v) \<Rightarrow>
         if sint v < - (2 ^ 31) \<or> sint v > 2 ^ 31 - 1 then
           Inl (InvalidValue component_id (fd_id field) (VarSIntOutOfRange v))
         else
           and_then (lift_bit (writer_align_to_byte w)) (\<lambda>w.
             lift_bit (write_vars32 (ucast v) w))
     | (FixedPointCodec fp, FixedPointV v) \<Rightarrow>
         if sint v < sint (min_q fp) \<or> sint v > sint (max_q fp) then
           Inl (InvalidValue component_id (fd_id field)
             (FixedPointOutOfRange (min_q fp) (max_q fp) v))
         else
           let offset = v - min_q fp;
               rng = max_q fp - min_q fp;
               bits = required_bits rng
           in if bits > 0 then lift_bit (write_bits offset bits w) else Inr w
     | (codec, v) \<Rightarrow>
         Inl (InvalidValue component_id (fd_id field)
           (TypeMismatch (codec_name codec) (value_name v))))"

definition read_field_value ::
  "component_id \<Rightarrow> field_def \<Rightarrow> bit_reader \<Rightarrow> codec_error + field_value \<times> bit_reader" where
  "read_field_value component_id field r =
    (case fd_codec field of
       BoolCodec \<Rightarrow> and_then (lift_bit (read_bit r)) (\<lambda>(v, r). Inr (BoolV v, r))
     | UIntCodec bits \<Rightarrow>
         and_then (lift_bit (read_bits bits r)) (\<lambda>(v, r).
         and_then (validate_uint component_id (fd_id field) bits v) (\<lambda>_. Inr (UIntV v, r)))
     | SIntCodec bits \<Rightarrow>
         and_then (lift_bit (read_bits bits r)) (\<lambda>(raw, r).
         and_then (decode_sint bits raw) (\<lambda>v. Inr (SIntV v, r)))
     | VarUIntCodec \<Rightarrow>
         and_then (lift_bit (reader_align_to_byte r)) (\<lambda>r.
         and_then (lift_bit (read_varu32 r)) (\<lambda>(v, r). Inr (VarUIntV (ucast v), r)))
     | VarSIntCodec \<Rightarrow>
         and_then (lift_bit (reader_align_to_byte r)) (\<lambda>r.
         and_then (lift_bit (read_vars32 r)) (\<lambda>(v, r). Inr (VarSIntV (scast v), r)))
     | FixedPointCodec fp \<Rightarrow>
         let rng = max_q fp - min_q fp;
             bits = required_bits rng
         in and_then (if bits = 0 then Inr (0, r) else lift_bit (read_bits bits r)) (\<lambda>(offset, r).
              let v = min_q fp + offset in
              if sint v < sint (min_q fp) \<or> sint v > sint (max_q fp) then
                Inl (InvalidValue component_id (fd_id field)
                  (FixedPointOutOfRange (min_q fp) (max_q fp) v))
              else Inr (FixedPointV v, r)))"

definition read_field_value_sparse ::
  "component_id \<Rightarrow> field_def \<Rightarrow> bit_reader \<Rightarrow> codec_error + field_value \<times> bit_reader" where
  "read_field_value_sparse component_id field r =
    (case fd_codec field of
       BoolCodec \<Rightarrow> and_then (lift_bit (read_bit r)) (\<lambda>(v, r). Inr (BoolV v, r))
     | UIntCodec bits \<Rightarrow>
         and_then (lift_bit (read_bits bits r)) (\<lambda>(v, r).
         and_then (validate_uint component_id (fd_id field) bits v) (\<lambda>_. Inr (UIntV v, r)))
     | SIntCodec bits \<Rightarrow>
         and_then (lift_bit (read_bits bits r)) (\<lambda>(raw, r).
         and_then (decode_sint bits raw) (\<lambda>v. Inr (SIntV v, r)))
     | VarUIntCodec \<Rightarrow>
         and_then (lift_bit (reader_align_to_byte r)) (\<lambda>r.
         and_then (lift_bit (read_varu32 r)) (\<lambda>(v, r). Inr (VarUIntV (ucast v), r)))
     | VarSIntCodec \<Rightarrow>
         and_then (lift_bit (reader_align_to_byte r)) (\<lambda>r.
         and_then (lift_bit (read_vars32 r)) (\<lambda>(v, r). Inr (VarSIntV (scast v), r)))
     | FixedPointCodec fp \<Rightarrow>
         let rng = max_q fp - min_q fp;
             bits = required_bits rng
         in and_then (if bits = 0 then Inr (0, r) else lift_bit (read_bits bits r)) (\<lambda>(offset, r).
              let v = min_q fp + offset in
              if sint v < sint (min_q fp) \<or> sint v > sint (max_q fp) then
                Inl (InvalidValue component_id (fd_id field)
                  (FixedPointOutOfRange (min_q fp) (max_q fp) v))
              else Inr (FixedPointV v, r)))"

lemma write_field_value_sparse_eq: "write_field_value_sparse = write_field_value"
  by (intro ext) (simp add: write_field_value_sparse_def write_field_value_def)

lemma read_field_value_sparse_eq: "read_field_value_sparse = read_field_value"
  by (intro ext) (simp add: read_field_value_sparse_def read_field_value_def)

section \<open>Masks\<close>

definition read_mask ::
  "bit_reader \<Rightarrow> usize \<Rightarrow> mask_kind \<Rightarrow> codec_error + bool list \<times> bit_reader" where
  "read_mask r expected_bits kind =
    (if reader_bits_remaining r < expected_bits then
       Inl (InvalidMask kind (NotEnoughBits expected_bits (reader_bits_remaining r)))
     else lift_bit (read_all expected_bits read_bit r))"


section \<open>The integer encodings invert each other\<close>

lemma leading_zeros_bit:
  assumes "r \<noteq> 0"
  shows "leading_zeros r < 64" and "bit r (63 - leading_zeros r)"
    and "\<And>i. 63 - leading_zeros r < i \<Longrightarrow> \<not> bit r i"
proof -
  let ?is = "rev [0..<64] :: nat list"
  let ?t = "takeWhile (\<lambda>i. \<not> bit r i) ?is"
  from assms obtain i where i: "bit r i" "i < 64"
    using bit_word_eqI [of r 0] by auto
  have "?t \<noteq> ?is"
  proof
    assume "?t = ?is"
    then have "\<forall>x \<in> set ?is. \<not> bit r x" by (metis set_takeWhileD)
    then show False using i by simp
  qed
  then have lt: "length ?t < length ?is"
    by (metis append_Nil2 le_neq_implies_less length_takeWhile_le takeWhile_eq_take take_all_iff
        linorder_not_le)
  then show lz: "leading_zeros r < 64" by (simp add: leading_zeros_def)
  have nth: "?is ! k = 63 - k" if "k < 64" for k using that by (simp add: rev_nth)
  from nth_length_takeWhile [OF lt] have "bit r (?is ! leading_zeros r)"
    by (simp add: leading_zeros_def)
  then show "bit r (63 - leading_zeros r)" using nth lz by simp
  fix i assume i: "63 - leading_zeros r < i"
  show "\<not> bit r i"
  proof (cases "i < 64")
    case True
    then have k: "63 - i < leading_zeros r" using i lz by linarith
    then have "?t ! (63 - i) = ?is ! (63 - i)"
      by (intro takeWhile_nth) (simp add: leading_zeros_def)
    moreover have "?t ! (63 - i) \<in> set ?t" using k by (intro nth_mem) (simp add: leading_zeros_def)
    ultimately have "\<not> bit r (?is ! (63 - i))" by (metis set_takeWhileD)
    then show ?thesis using True nth [of "63 - i"] by simp
  next
    case False
    then show ?thesis using bit_above_length [of i r] by simp
  qed
qed

lemma unat_required_bits: "unat (required_bits r) = (if r = 0 then 0 else 64 - leading_zeros r)"
  using leading_zeros_bit(1) [of r] by (simp add: required_bits_def unat_of_nat)

lemma required_bits_0 [simp]: "required_bits r = 0 \<longleftrightarrow> r = 0"
proof
  assume "required_bits r = 0"
  then have "unat (required_bits r) = 0" by simp
  then show "r = 0" using leading_zeros_bit(1) [of r] by (auto simp: unat_required_bits split: if_splits)
qed (simp add: required_bits_def)

lemma required_bits_zero [simp]: "required_bits 0 = 0"
  by (simp add: required_bits_def)

lemma required_bits_le: "required_bits r \<le> 64"
  by (simp add: word_le_nat_alt unat_required_bits)

lemma required_bits_bound: "unat r < 2 ^ unat (required_bits r)"
proof (cases "r = 0")
  case False
  have high: "\<not> bit r i" if "64 - leading_zeros r \<le> i" for i
    using leading_zeros_bit(1) [OF False] leading_zeros_bit(3) [OF False, of i] that by simp
  have "take_bit (unat (required_bits r)) r = r"
    using high False
    by (intro bit_word_eqI) (auto simp: bit_take_bit_iff unat_required_bits not_less [symmetric])
  then have "take_bit (unat (required_bits r)) (unat r) = unat r"
    by (metis unsigned_take_bit_eq)
  then show ?thesis by (metis take_bit_nat_eq_self_iff)
qed simp

lemma sint_word_of_int_128:
  "- (2 ^ 127) \<le> k \<Longrightarrow> k < 2 ^ 127 \<Longrightarrow> sint (word_of_int k :: 128 word) = k"
  by (simp add: sint_sbintrunc' signed_take_bit_int_eq_self)

lemma decode_encode_sint:
  assumes "encode_sint c f bits v = Inr raw" and "bits \<noteq> 0" and "bits \<le> 64"
  shows "decode_sint bits raw = Inr v"
proof (cases "bits = 64")
  case True
  with assms(1) show ?thesis by (simp add: encode_sint_def decode_sint_def)
next
  case False
  define n where "n = unat bits"
  have "unat bits \<noteq> 64" using False word_unat_eq_iff [of bits 64] by simp
  moreover have "unat bits \<le> 64" using assms(3) by (simp add: word_le_nat_alt)
  ultimately have n: "0 < n" "n < 64" "unat (bits - 1) = n - 1"
    using assms(2) unat_gt_0 [of bits] unat_minus_one [of bits] by (simp_all add: n_def)
  have m: "(n - Suc 0) mod 128 = n - Suc 0" "n mod 64 = n" "(n - Suc 0) mod 64 = n - Suc 0"
    using n by simp_all
  let ?p = "push_bit (n - 1) 1 :: 128 word"
  from assms(1) False have range: "sint (- ?p) \<le> sint (scast v :: 128 word)"
      "sint (scast v :: 128 word) \<le> sint (?p - 1)"
    and raw: "raw = v AND (push_bit n 1 - 1)"
    by (auto simp: encode_sint_def Let_def n(3) m n_def [symmetric] split: if_splits)
  have pw: "(2 :: int) ^ (n - 1) \<le> 2 ^ 62" using n by (intro power_increasing) auto
  have bounds: "- (2 ^ (n - 1)) \<le> sint v" "sint v < 2 ^ (n - 1)"
  proof -
    have p: "?p = word_of_int (2 ^ (n - 1))" by simp
    have "sint (- ?p) = sint (word_of_int (- (2 ^ (n - 1))) :: 128 word)" by simp
    also have "\<dots> = - (2 ^ (n - 1))"
    proof (rule sint_word_of_int_128)
      show "- (2 ^ (n - 1)) < (2 :: int) ^ 127" by (rule order.strict_trans1 [of _ 0]) simp_all
    qed (use pw in simp)
    finally have "sint (- ?p) = - (2 ^ (n - 1))" .
    moreover have "?p - 1 = word_of_int (2 ^ (n - 1) - 1)" by simp
    then have "sint (?p - 1) = 2 ^ (n - 1) - 1"
    proof (simp only:, intro sint_word_of_int_128)
      show "- (2 ^ 127) \<le> (2 :: int) ^ (n - 1) - 1" by (rule order.trans [of _ 0]) simp_all
    qed (use pw in simp)
    moreover have "sint (scast v :: 128 word) = sint v"
      using sint_ge [of v] sint_lt [of v] by (simp add: signed_scast_eq signed_take_bit_int_eq_self)
    ultimately show "- (2 ^ (n - 1)) \<le> sint v" "sint v < 2 ^ (n - 1)" using range by simp_all
  qed
  then have sx: "signed_take_bit (n - 1) (sint v) = sint v" by (rule signed_take_bit_int_eq_self)
  have ext: "bit v i = bit v (n - 1)" if "n - 1 \<le> i" "i < 64" for i
  proof -
    have "bit (sint v) i = bit (signed_take_bit (n - 1) (sint v)) i" by (simp only: sx)
    also have "\<dots> = bit (sint v) (n - 1)" using that by (simp add: bit_signed_take_bit_iff)
    finally show ?thesis using that n by (simp add: bit_sint_iff)
  qed
  have mask: "2 ^ n - 1 = (mask n :: u64)" by (simp add: mask_eq_exp_minus_1)
  have rawb: "raw = take_bit n v" by (simp add: raw mask take_bit_eq_mask)
  have sign: "raw AND 2 ^ (n - Suc 0) = 0 \<longleftrightarrow> \<not> bit v (n - Suc 0)"
    using n by (simp add: and_exp_eq_0_iff_not_bit rawb bit_take_bit_iff)
  have dec: "decode_sint bits raw = (if raw AND 2 ^ (n - Suc 0) = 0 then Inr raw
      else Inr ((raw AND mask n) - 2 ^ n))"
    using False assms(2) by (simp add: decode_sint_def Let_def n(3) m n_def [symmetric] mask)
  show ?thesis
  proof (cases "bit v (n - 1)")
    case False
    have "raw = v"
    proof (rule bit_word_eqI)
      fix i assume "i < LENGTH(64)"
      then show "bit raw i = bit v i"
        using ext [of i] n False by (cases "i < n") (simp_all add: rawb bit_take_bit_iff)
    qed
    with False sign dec show ?thesis by simp
  next
    case True
    have "(raw AND mask n) - push_bit n 1 = raw + NOT (mask n)"
      by (simp add: rawb take_bit_eq_mask minus_exp_eq_not_mask [symmetric])
    also have "\<dots> = raw OR NOT (mask n)"
      by (intro disjunctive_add) (auto simp: rawb bit_simps)
    also have "\<dots> = v"
    proof (rule bit_word_eqI)
      fix i assume "i < LENGTH(64)"
      then show "bit (raw OR NOT (mask n)) i = bit v i"
        using ext [of i] n True
        by (cases "i < n") (simp_all add: rawb bit_take_bit_iff bit_or_iff bit_not_iff bit_mask_iff)
    qed
    finally show ?thesis using True by (simp add: dec sign)
  qed
qed


section \<open>A written field value is read back\<close>

lemma ucast_u32_u64:
  assumes "\<not> v > (0xFFFFFFFF :: u64)"
  shows "ucast (ucast v :: u32) = v"
proof -
  have "unat v < 2 ^ 32" using assms by (simp add: word_less_nat_alt)
  then have "take_bit 32 (unat v) = unat v" by (simp add: take_bit_nat_eq_self)
  then have t: "take_bit 32 v = v" by (simp only: word_unat_eq_iff unsigned_take_bit_eq)
  have "bit (ucast (ucast v :: u32) :: u64) i = bit (take_bit 32 v) i" if "i < 64" for i
    using that by (auto simp: bit_ucast_iff bit_take_bit_iff)
  then show ?thesis unfolding t by (intro bit_word_eqI) simp
qed

lemma scast_i32_i64:
  assumes "\<not> (sint (v :: i64) < - (2 ^ 31) \<or> sint v > 2 ^ 31 - 1)"
  shows "scast (ucast v :: i32) = v"
proof -
  have st: "signed_take_bit 31 (sint v) = sint v"
    using assms by (intro signed_take_bit_int_eq_self) auto
  have "bit (scast (ucast v :: i32) :: i64) i = bit v i" if "i < 64" for i
  proof -
    have "bit (sint v) i = bit (signed_take_bit 31 (sint v)) i" by (simp only: st)
    then have e: "bit v i = bit v (min 31 i)"
      using that by (simp only: bit_signed_take_bit_iff bit_sint_iff possible_bit_int) simp
    have "bit (scast (ucast v :: i32) :: i64) i = bit v (min 31 i)"
      using that by (simp add: bit_signed_iff bit_ucast_iff min_def)
    with e show ?thesis by (simp only:)
  qed
  then show ?thesis by (intro bit_word_eqI) simp
qed

lemma write_field_value_extends: "write_field_value c f v w = Inr w' \<Longrightarrow> extends w w'"
  by (cases "fd_codec f"; cases v)
     (auto simp: write_field_value_def Let_def res_simps split: if_splits
       intro: write_extends extends_trans [OF writer_align_extends])

lemma read_align_then:
  assumes "writer_align_to_byte w = Inr w1" and "extends w1 w'" and "holds d w'"
  shows "reader_align_to_byte (reader_at d (bw_pos w)) = Inr (reader_at d (bw_pos w1))"
  using assms by (intro reader_align_written) (auto intro: holds_extends)

lemma read_field_value_written:
  assumes wr: "write_field_value c f v w = Inr w'" and ok: "codec_ok (fd_codec f)"
    and d: "holds d w'"
  shows "read_field_value c f (reader_at d (bw_pos w)) = Inr (v, reader_at d (bw_pos w'))"
proof (cases "fd_codec f")
  case BoolCodec
  with wr obtain b where "v = BoolV b" "write_bit b w = Inr w'"
    by (cases v) (auto simp: write_field_value_def res_simps)
  then show ?thesis using d BoolCodec by (simp add: read_field_value_def bits1.rd_wr)
next
  case (UIntCodec bits)
  with wr obtain x where v: "v = UIntV x" and val: "validate_uint c (fd_id f) bits x = Inr ()"
    and wb: "write_bits x bits w = Inr w'"
    by (cases v) (auto simp: write_field_value_def res_simps)
  have "bits \<noteq> 0" using ok UIntCodec by auto
  then show ?thesis
    using read_bits_written [OF wb d] UIntCodec val by (simp add: read_field_value_def v)
next
  case (SIntCodec bits)
  with wr obtain x e where v: "v = SIntV x" and enc: "encode_sint c (fd_id f) bits x = Inr e"
    and wb: "write_bits e bits w = Inr w'"
    by (cases v) (auto simp: write_field_value_def res_simps)
  have "bits \<noteq> 0" "bits \<le> 64" using ok SIntCodec by auto
  then show ?thesis
    using read_bits_written [OF wb d] SIntCodec decode_encode_sint [OF enc]
    by (simp add: read_field_value_def v)
next
  case VarUIntCodec
  with wr obtain x w1 where v: "v = VarUIntV x" and x: "\<not> x > 0xFFFFFFFF"
    and al: "writer_align_to_byte w = Inr w1" and wv: "write_varu32 (ucast x) w1 = Inr w'"
    by (cases v) (auto simp: write_field_value_def res_simps split: if_splits)
  show ?thesis
    using read_align_then [OF al write_varu32_extends [OF wv] d] read_varu32_written [OF wv d]
      VarUIntCodec ucast_u32_u64 [OF x] by (simp add: read_field_value_def v)
next
  case VarSIntCodec
  with wr obtain x w1 where v: "v = VarSIntV x"
    and x: "\<not> (sint x < - (2 ^ 31) \<or> sint x > 2 ^ 31 - 1)"
    and al: "writer_align_to_byte w = Inr w1" and wv: "write_vars32 (ucast x) w1 = Inr w'"
    by (cases v) (auto simp: write_field_value_def res_simps split: if_splits)
  show ?thesis
    using read_align_then [OF al write_vars32_extends [OF wv] d] vars32s.rd_wr [OF wv _ d]
      VarSIntCodec scast_i32_i64 [OF x] by (simp add: read_field_value_def v)
next
  case (FixedPointCodec fp)
  let ?bits = "required_bits (max_q fp - min_q fp)"
  from FixedPointCodec wr obtain x where v: "v = FixedPointV x"
    and x: "\<not> (sint x < sint (min_q fp) \<or> sint x > sint (max_q fp))"
    and wb: "(if ?bits > 0 then lift_bit (write_bits (x - min_q fp) ?bits w) else Inr w) = Inr w'"
    by (cases v) (auto simp: write_field_value_def Let_def split: if_splits)
  show ?thesis
  proof (cases "?bits = 0")
    case True
    then have "max_q fp = min_q fp" by simp
    then have "sint x = sint (min_q fp)" using x by simp
    then have "x = min_q fp" by (rule signed_word_eqI)
    then show ?thesis using True wb FixedPointCodec x by (simp add: read_field_value_def v Let_def)
  next
    case False
    then have "?bits > 0" using word_neq_0_conv by blast
    with wb have "write_bits (x - min_q fp) ?bits w = Inr w'" by (simp add: map_err_Inr_iff)
    from read_bits_written [OF this d] False FixedPointCodec x show ?thesis
      by (simp add: read_field_value_def v Let_def)
  qed
qed

interpretation field_values: bit_codec "write_field_value c f" "read_field_value c f"
  "\<lambda>_. codec_ok (fd_codec f)" "\<lambda>v. v" for c f
  by unfold_locales (auto intro: write_field_value_extends read_field_value_written)

lemma read_mask_written:
  assumes "try_fold write_bit bs w = Inr w'" and "holds d w'" and "n = length bs"
  shows "read_mask (reader_at d (bw_pos w)) n k = Inr (bs, reader_at d (bw_pos w'))"
proof -
  have "bw_pos w' = bw_pos w + length bs"
    using assms(1)
  proof (induction bs arbitrary: w)
    case (Cons b bs)
    from Cons.prems obtain w1 where "write_bit b w = Inr w1" "try_fold write_bit bs w1 = Inr w'"
      by (auto elim: and_then_E)
    moreover from this(1) have "bw_pos w1 = Suc (bw_pos w)"
      by (auto simp: write_bit_def res_simps)
    ultimately show ?case using Cons.IH by simp
  qed simp
  with assms(2,3) have "\<not> reader_bits_remaining (reader_at d (bw_pos w)) < n"
    by (auto simp: reader_remaining_at holds_def)
  then show ?thesis
    using bits1.read_all_try_fold [OF assms(1) _ assms(2)] assms(3)
    by (simp add: read_mask_def list_all_iff)
qed


section \<open>Which values a codec accepts\<close>

fun value_ok :: "field_codec \<Rightarrow> field_value \<Rightarrow> bool" where
  "value_ok BoolCodec (BoolV _) \<longleftrightarrow> True"
| "value_ok (UIntCodec bits) (UIntV v) \<longleftrightarrow> unat v < 2 ^ unat bits"
| "value_ok (SIntCodec bits) (SIntV v) \<longleftrightarrow>
     - (2 ^ (unat bits - 1)) \<le> sint v \<and> sint v < 2 ^ (unat bits - 1)"
| "value_ok VarUIntCodec (VarUIntV v) \<longleftrightarrow> unat v < 2 ^ 32"
| "value_ok VarSIntCodec (VarSIntV v) \<longleftrightarrow> - (2 ^ 31) \<le> sint v \<and> sint v < 2 ^ 31"
| "value_ok (FixedPointCodec fp) (FixedPointV v) \<longleftrightarrow>
     sint (min_q fp) \<le> sint v \<and> sint v \<le> sint (max_q fp)"
| "value_ok _ _ \<longleftrightarrow> False"

definition overflow :: "bit_error \<Rightarrow> bool" where
  "overflow e \<longleftrightarrow> (\<exists>a b. e = WriteOverflow a b)"

lemma unat_bits_cases:
  assumes "(bits :: u8) \<le> 64" and "bits \<noteq> 64"
  shows "unat bits < 64"
proof -
  have "unat bits \<noteq> 64" using assms(2) word_unat_eq_iff [of bits 64] by simp
  moreover have "unat bits \<le> 64" using assms(1) by (simp add: word_le_nat_alt)
  ultimately show ?thesis by simp
qed

lemma unat_power_128: "n < 128 \<Longrightarrow> unat (2 ^ n :: 128 word) = 2 ^ n"
  unfolding push_bit_of_1 [symmetric] unsigned_push_bit_eq
  by (simp add: push_bit_eq_mult take_bit_nat_eq_self)

lemma unat_power_64: "n < 64 \<Longrightarrow> unat (2 ^ n :: u64) = 2 ^ n"
  unfolding push_bit_of_1 [symmetric] unsigned_push_bit_eq
  by (simp add: push_bit_eq_mult take_bit_nat_eq_self)

lemma unat_ucast_128: "unat (ucast (v :: u64) :: 128 word) = unat v"
proof -
  have "unat v < 2 ^ 128" by (rule order.strict_trans [OF unsigned_less [of v]]) simp
  then show ?thesis by (simp add: unsigned_ucast_eq take_bit_nat_eq_self)
qed

lemma validate_uint_iff:
  assumes "bits \<le> 64"
  shows "validate_uint c f bits v =
    (if unat v < 2 ^ unat bits then Inr () else Inl (InvalidValue c f (UnsignedOutOfRange bits v)))"
proof (cases "bits = 64")
  case True
  then show ?thesis using unsigned_less [of v] by (simp add: validate_uint_def)
next
  case False
  then have "unat bits < 64" using assms by (intro unat_bits_cases)
  then show ?thesis
    using False by (simp add: validate_uint_def word_le_nat_alt unat_power_128 unat_ucast_128 not_le)
qed

lemma encode_sint_iff:
  assumes "bits \<le> 64" and "0 < bits"
  shows "encode_sint c f bits v =
    (if value_ok (SIntCodec bits) (SIntV v) then Inr (take_bit (unat bits) v)
     else Inl (InvalidValue c f (SignedOutOfRange bits v)))"
proof (cases "bits = 64")
  case True
  have "take_bit 64 v = v" by (intro bit_word_eqI) (simp add: bit_take_bit_iff)
  then show ?thesis using True sint_ge [of v] sint_lt [of v] by (simp add: encode_sint_def)
next
  case False
  define n where "n = unat bits"
  have n: "0 < n" "n < 64" "unat (bits - 1) = n - Suc 0"
    using assms False unat_bits_cases [of bits] unat_gt_0 [of bits] unat_minus_one [of bits]
      word_neq_0_conv [of bits]
    by (simp_all add: n_def)
  have m: "(n - Suc 0) mod 128 = n - Suc 0" "n mod 64 = n" using n by simp_all
  have pw: "(2 :: int) ^ (n - 1) \<le> 2 ^ 62" using n by (intro power_increasing) auto
  have lo: "sint (- (2 ^ (n - Suc 0)) :: 128 word) = - (2 ^ (n - Suc 0))"
  proof -
    have "- (2 ^ (n - 1)) < (2 :: int) ^ 127" by (rule order.strict_trans1 [of _ 0]) simp_all
    then have "sint (word_of_int (- (2 ^ (n - 1))) :: 128 word) = - (2 ^ (n - 1))"
      using pw by (intro sint_word_of_int_128) simp_all
    then show ?thesis by simp
  qed
  have hi: "sint (2 ^ (n - Suc 0) - 1 :: 128 word) = 2 ^ (n - Suc 0) - 1"
  proof -
    have "- (2 ^ 127) \<le> (2 :: int) ^ (n - 1) - 1" by (rule order.trans [of _ 0]) simp_all
    then have "sint (word_of_int (2 ^ (n - 1) - 1) :: 128 word) = 2 ^ (n - 1) - 1"
      using pw by (intro sint_word_of_int_128) simp_all
    then show ?thesis by simp
  qed
  have sc: "sint (scast v :: 128 word) = sint v"
    using sint_ge [of v] sint_lt [of v] by (simp add: signed_scast_eq signed_take_bit_int_eq_self)
  have mask: "v AND (2 ^ n - 1) = take_bit n v"
    by (simp add: take_bit_eq_mask mask_eq_exp_minus_1)
  show ?thesis
    using False m
    by (auto simp: encode_sint_def Let_def n(3) n_def [symmetric] lo hi sc mask)
qed

lemma write_bits_overflow:
  assumes "n \<le> 64" and "unat v < 2 ^ unat n" and "write_bits v n w = Inl e"
  shows "overflow e"
proof -
  have "\<not> v \<ge> push_bit (unat n) 1" if "n < 64"
    using that assms(2) by (simp add: word_le_nat_alt word_less_nat_alt unat_power_64)
  then show ?thesis
    using assms by (auto simp: write_bits_def overflow_def and_then_Inl_iff writer_ensure_bits_def
        Let_def split: if_splits)
qed

lemma write_u8_overflow: "bw_pos w mod 8 = 0 \<Longrightarrow> write_u8_aligned b w = Inl e \<Longrightarrow> overflow e"
  by (auto simp: write_u8_aligned_def and_then_Inl_iff writer_ensure_aligned_def
      writer_ensure_bits_def overflow_def Let_def split: if_splits)

lemma write_bytes_overflow:
  "bw_pos w mod 8 = 0 \<Longrightarrow> try_fold write_u8_aligned bs w = Inl e \<Longrightarrow> overflow e"
proof (induction bs arbitrary: w)
  case (Cons b bs)
  show ?case
  proof (cases "write_u8_aligned b w")
    case (Inl e')
    then show ?thesis using Cons.prems write_u8_overflow by auto
  next
    case (Inr w1)
    then have "bw_pos w1 mod 8 = 0"
      using Cons.prems(1) by (auto simp: write_u8_aligned_def res_simps Let_def)
    then show ?thesis using Cons Inr by simp
  qed
qed simp

lemma write_varu32_overflow:
  "bw_pos w mod 8 = 0 \<Longrightarrow> write_varu32 v w = Inl e \<Longrightarrow> overflow e"
  by (simp add: write_varu32_def writer_ensure_aligned_def write_varu32_loop_bytes
      write_bytes_overflow)

lemma align_overflow: "writer_align_to_byte w = Inl e \<Longrightarrow> overflow e"
  by (auto simp: writer_align_to_byte_def and_then_Inl_iff writer_ensure_bits_def overflow_def
      Let_def split: if_splits)

lemma fixed_point_offset:
  assumes "sint lo \<le> sint v" and "sint v \<le> sint (hi :: i64)"
  shows "unat (v - lo) \<le> unat (hi - lo)"
proof -
  have u: "uint (x - lo) = sint x - sint lo" if "sint lo \<le> sint x" for x :: i64
  proof -
    have "x - lo = word_of_int (sint x - sint lo)" by simp
    then have "uint (x - lo) = (sint x - sint lo) mod 2 ^ 64"
      by (simp only: uint_word_of_int) simp
    moreover have "sint x - sint lo < 2 ^ 64" using sint_lt [of x] sint_ge [of lo] by simp
    ultimately show ?thesis using that by simp
  qed
  have "uint (v - lo) \<le> uint (hi - lo)" using assms by (simp add: u)
  then show ?thesis by (simp flip: word_le_def add: word_le_nat_alt)
qed

text \<open>
  A value the codec does not accept is rejected as such; a value it accepts can only fail for lack of
  room in the buffer.
\<close>

lemma write_field_value_rejects:
  "codec_ok (fd_codec f) \<Longrightarrow> \<not> value_ok (fd_codec f) v \<Longrightarrow>
    \<exists>reason. write_field_value c f v w = Inl (InvalidValue c (fd_id f) reason)"
proof (cases "fd_codec f")
  case VarUIntCodec
  assume "\<not> value_ok (fd_codec f) v"
  with VarUIntCodec show ?thesis
    by (cases v) (auto simp: write_field_value_def word_less_nat_alt)
qed (cases v; auto simp: write_field_value_def validate_uint_iff encode_sint_iff not_le not_less)+

lemma write_field_value_accepts:
  assumes ok: "codec_ok (fd_codec f)" "value_ok (fd_codec f) v"
    and e: "write_field_value c f v w = Inl e"
  shows "\<exists>b. e = Bitstream b \<and> overflow b"
proof (cases "fd_codec f")
  case BoolCodec
  with ok e show ?thesis
    by (cases v) (auto simp: write_field_value_def map_err_Inl_iff write_bit_def and_then_Inl_iff
        writer_ensure_bits_def overflow_def Let_def split: if_splits)
next
  case (UIntCodec bits)
  with ok e show ?thesis
    by (cases v) (auto simp: write_field_value_def validate_uint_iff map_err_Inl_iff
        dest: write_bits_overflow [rotated 2])
next
  case (SIntCodec bits)
  have "unat (take_bit (unat bits) (x :: u64)) < 2 ^ unat bits" for x
    by (simp add: unsigned_take_bit_eq)
  with SIntCodec ok e show ?thesis
    by (cases v) (auto simp: write_field_value_def encode_sint_iff map_err_Inl_iff
        dest: write_bits_overflow [rotated 2])
next
  case VarUIntCodec
  with ok e show ?thesis
    by (cases v) (auto simp: write_field_value_def and_then_Inl_iff map_err_Inl_iff res_simps
        word_less_nat_alt dest: align_overflow write_varu32_overflow [rotated] padding_pos
        split: if_splits)
next
  case VarSIntCodec
  with ok e show ?thesis
    by (cases v) (auto simp: write_field_value_def and_then_Inl_iff map_err_Inl_iff res_simps
        write_vars32_def dest: align_overflow write_varu32_overflow [rotated] padding_pos
        split: if_splits)
next
  case (FixedPointCodec fp)
  let ?bits = "required_bits (max_q fp - min_q fp)"
  from FixedPointCodec ok e obtain x where v: "v = FixedPointV x"
    and x: "sint (min_q fp) \<le> sint x" "sint x \<le> sint (max_q fp)"
    and wb: "lift_bit (write_bits (x - min_q fp) ?bits w) = Inl e"
    by (cases v) (auto simp: write_field_value_def Let_def split: if_splits)
  have "unat (x - min_q fp) < 2 ^ unat ?bits"
    using fixed_point_offset [OF x] required_bits_bound [of "max_q fp - min_q fp"] by linarith
  with wb show ?thesis
    by (auto simp: map_err_Inl_iff dest: write_bits_overflow [OF required_bits_le])
qed

end
