(* ===== verification/Section_Writer.thy ===== *)
theory Section_Writer
  imports Field_Codec
begin

text \<open>
  How the codec writes a section (\<^verbatim>\<open>write_section\<close> of codec/src/snapshot.rs): the body goes behind the
  space of a maximal varint, then the tag and the length are put in front and the body is moved down
  to them.  A result is an option of an error or a value: \<^const>\<open>None\<close> is a panic (an index or a slice out
  of bounds), which the lemmas exclude.
\<close>

section \<open>Results that may panic\<close>

fun try_then :: "('e + 'a) option \<Rightarrow> ('a \<Rightarrow> ('e + 'b) option) \<Rightarrow> ('e + 'b) option" where
  "try_then None f = None"
| "try_then (Some (Inl e)) f = Some (Inl e)"
| "try_then (Some (Inr x)) f = f x"

lemma try_then_Inr [res_simps]:
  "try_then m f = Some (Inr y) \<longleftrightarrow> (\<exists>x. m = Some (Inr x) \<and> f x = Some (Inr y))"
  by (cases "(m, f)" rule: try_then.cases) auto

lemma try_then_None:
  "try_then m f = None \<longleftrightarrow> m = None \<or> (\<exists>x. m = Some (Inr x) \<and> f x = None)"
  by (cases "(m, f)" rule: try_then.cases) auto

lemma if_Some_Inl_Inr [res_simps]:
  "(if c then Some (Inl e) else m) = Some (Inr y) \<longleftrightarrow> \<not> c \<and> m = Some (Inr y)"
  by auto

lemma try_then_unfold [code_unfold]:
  "try_then m f =
    (case m of None \<Rightarrow> None
     | Some r \<Rightarrow> (case r of Inl e \<Rightarrow> Some (Inl e) | Inr x \<Rightarrow> f x))"
  by (cases "(m, f)" rule: try_then.cases) auto

section \<open>Varints on a slice\<close>

definition VARINT_MAX_BYTES :: usize where "VARINT_MAX_BYTES = 5"

function section_varu32_len_loop :: "u32 \<Rightarrow> usize \<Rightarrow> usize" where
  "section_varu32_len_loop value len =
    (if value \<ge> 0x80 then section_varu32_len_loop (drop_bit 7 value) (len + 1) else len)"
  by pat_completeness auto
termination
proof (relation "measure (\<lambda>(value, len). unat value)")
  fix v :: u32 and len :: usize
  assume "v \<ge> 0x80"
  then have "unat v \<noteq> 0" by (simp add: word_le_nat_alt)
  then show "((drop_bit 7 v, len + 1), (v, len)) \<in> measure (\<lambda>(value, len). unat value)"
    unfolding in_measure prod.case unat_drop_bit_eq by (simp add: drop_bit_eq_div)
qed simp

declare section_varu32_len_loop.simps [simp del]

definition section_varu32_len :: "u32 \<Rightarrow> usize" where
  "section_varu32_len value = section_varu32_len_loop value 1"

function section_write_varu32_loop :: "u32 \<Rightarrow> u8 list \<Rightarrow> usize \<Rightarrow> u8 list option" where
  "section_write_varu32_loop value out offset =
    (if offset < length out then
       let out' = out[offset := varint_byte value]
       in if drop_bit 7 value = 0 then Some out'
          else section_write_varu32_loop (drop_bit 7 value) out' (offset + 1)
     else None)"
  by pat_completeness auto
termination
  by (relation "measure (\<lambda>(value, out, offset). unat value)") (auto intro: drop_bit_7_less)

declare section_write_varu32_loop.simps [simp del]

definition section_write_varu32 :: "u32 \<Rightarrow> u8 list \<Rightarrow> u8 list option" where
  "section_write_varu32 value out = section_write_varu32_loop value out 0"

lemma section_write_is_packet_write:
  "section_write_varu32_loop v out n = map_option snd (packet_write_varu32_loop v out 0 n)"
proof (induction v out n rule: section_write_varu32_loop.induct)
  case (1 v out n)
  then show ?case
    by (subst section_write_varu32_loop.simps, subst packet_write_varu32_loop.simps)
       (simp add: Let_def)
qed

lemma section_varu32_len_is_packet_len: "section_varu32_len_loop v n = varu32_len_loop v n"
proof (induction v n rule: section_varu32_len_loop.induct)
  case (1 v n)
  then show ?case by (subst section_varu32_len_loop.simps, subst varu32_len_loop.simps) simp
qed

lemma section_varu32_len_length: "section_varu32_len v = length (varint_encode v)"
  using varu32_len_length [of v]
  by (simp add: section_varu32_len_def varu32_len_def section_varu32_len_is_packet_len)

lemma section_write_varu32_slice:
  "length out = length (varint_encode v) \<Longrightarrow> section_write_varu32 v out = Some (varint_encode v)"
  using packet_write_varu32_loop_splice [of 0 0 v out]
  by (simp add: section_write_varu32_def section_write_is_packet_write splice_def)

section \<open>Writing a section\<close>

definition write_section ::
  "section_tag \<Rightarrow> u8 list \<Rightarrow> codec_limits \<Rightarrow> (bit_writer \<Rightarrow> codec_error + bit_writer) \<Rightarrow>
    (codec_error + usize \<times> u8 list) option" where
  "write_section tag out limits write_body =
    (if length out < 1 + VARINT_MAX_BYTES then
       Some (Inl (OutputTooSmall (1 + VARINT_MAX_BYTES) (length out)))
     else
     let body_start = 1 + VARINT_MAX_BYTES;
         writer = writer_new (drop body_start out) in
     case write_body writer of Inl e \<Rightarrow> Some (Inl e)
     | Inr writer \<Rightarrow>
     let body_len = writer_finish writer;
         out = take body_start out @ bw_buf writer in
     if body_len > max_section_bytes limits then
       Some (Inl (CodecLimitsExceeded SectionBytes (max_section_bytes limits) body_len))
     else if body_len \<ge> 2 ^ 32 then Some (Inl (OutputTooSmall body_len (length out)))
     else
     let len_u32 = of_nat body_len;
         len_bytes = section_varu32_len len_u32;
         total_needed = 1 + len_bytes + body_len in
     if length out < total_needed then Some (Inl (OutputTooSmall total_needed (length out)))
     else
     let out = out[0 := tag_byte tag] in
     case section_write_varu32 len_u32 (sub_slice out 1 (1 + len_bytes)) of None \<Rightarrow> None
     | Some s \<Rightarrow>
     let out = splice out 1 s;
         shift = VARINT_MAX_BYTES - len_bytes in
     if shift > 0 then
       if body_start + body_len > length out \<or> 1 + len_bytes + body_len > length out then None
       else Some (Inr (total_needed, copy_within out body_start (body_start + body_len) (1 + len_bytes)))
     else Some (Inr (total_needed, out)))"

text \<open>
  The section written is the wire format's section of the body that the closure wrote: tag, varint
  length, body bytes.  The closure's contract is \<open>extends\<close>.
\<close>

definition body_writer :: "(bit_writer \<Rightarrow> codec_error + bit_writer) \<Rightarrow> bool" where
  "body_writer f \<longleftrightarrow> (\<forall>w w'. f w = Inr w' \<longrightarrow> extends w w')"

lemma body_writerD: "body_writer f \<Longrightarrow> f w = Inr w' \<Longrightarrow> extends w w'"
  by (simp add: body_writer_def)

definition written_body :: "bit_writer \<Rightarrow> u8 list" where
  "written_body w = take (writer_finish w) (bw_buf w)"

lemma written_body_length: "writer_ok w \<Longrightarrow> length (written_body w) = writer_finish w"
  using writer_ok_finish [of w] by (simp add: written_body_def)

lemma written_body_holds: "writer_ok w \<Longrightarrow> holds (written_body w) w"
  unfolding written_body_def by (rule holds_finish)

lemma write_section_result:
  assumes out_len: "6 \<le> length out"
    and w_ok: "writer_ok w"
    and w_len: "length (bw_buf w) = length out - 6"
    and lim: "writer_finish w \<le> max_section_bytes l" "writer_finish w < 2 ^ 32"
    and body: "f (writer_new (drop 6 out)) = Inr w"
  shows "\<exists>out'. write_section tag out l f =
      Some (Inr (length (section_bytes \<lparr>ws_tag = tag, ws_body = written_body w\<rparr>), out')) \<and>
    length out' = length out \<and>
    take (length (section_bytes \<lparr>ws_tag = tag, ws_body = written_body w\<rparr>)) out' =
      section_bytes \<lparr>ws_tag = tag, ws_body = written_body w\<rparr>"
proof -
  let ?n = "writer_finish w" and ?len = "varint_encode (of_nat (writer_finish w))"
  let ?k = "length ?len"
  let ?o0 = "(take 6 out @ bw_buf w)[0 := tag_byte tag]"
  let ?o1 = "splice ?o0 1 ?len"
  let ?body = "written_body w"
  let ?bytes = "section_bytes \<lparr>ws_tag = tag, ws_body = ?body\<rparr>"
  have finish_fits: "6 + ?n \<le> length out"
    using writer_ok_finish [OF w_ok] w_len out_len by simp
  have bl: "length ?body = ?n" by (rule written_body_length [OF w_ok])
  have bytes: "?bytes = tag_byte tag # ?len @ ?body" "length ?bytes = 1 + ?k + ?n"
    by (simp_all add: section_bytes_def bl)
  have k: "?k \<le> 5" "0 < ?k" using varint_length by auto
  have ol: "length ?o0 = length out" "length ?o1 = length out" using w_len out_len k by auto
  have wr: "section_write_varu32 (of_nat ?n) (sub_slice ?o0 1 (1 + ?k)) = Some ?len"
    using ol finish_fits k by (intro section_write_varu32_slice) simp
  have head: "take (1 + ?k) ?o1 = tag_byte tag # ?len"
  proof -
    have "take (1 + ?k) ?o1 = take 1 ?o0 @ ?len" using ol out_len by (intro take_splice_end) simp
    moreover have "take 1 ?o0 = [tag_byte tag]" using out_len by (cases out) auto
    ultimately show ?thesis by simp
  qed
  have rest: "drop 6 ?o1 = bw_buf w"
    using out_len k by (cases out) (simp_all add: splice_def)
  have slice: "sub_slice ?o1 6 (6 + ?n) = ?body"
    unfolding sub_slice_def rest written_body_def by simp
  let ?o2 = "if 5 - ?k > 0 then copy_within ?o1 6 (6 + ?n) (1 + ?k) else ?o1"
  have res: "write_section tag out l f = Some (Inr (length ?bytes, ?o2))"
    using out_len body lim finish_fits ol k wr w_len
    by (simp add: write_section_def VARINT_MAX_BYTES_def Let_def section_varu32_len_length bytes(2))
  have len2: "length ?o2 = length out"
    using ol finish_fits k bl by (simp add: copy_within_def slice)
  have "take (1 + ?k + ?n) ?o2 = tag_byte tag # ?len @ ?body"
  proof (cases "5 - ?k > 0")
    case True
    then have "?o2 = splice ?o1 (1 + ?k) ?body" by (simp only: copy_within_def slice if_True)
    moreover have "take (1 + ?k + length ?body) (splice ?o1 (1 + ?k) ?body) =
        take (1 + ?k) ?o1 @ ?body"
      using ol finish_fits k by (intro take_splice_end) simp
    ultimately show ?thesis using head bl by simp
  next
    case False
    then have "1 + ?k = 6" using k by simp
    then have "take (1 + ?k + ?n) ?o1 = take (1 + ?k) ?o1 @ take ?n (drop 6 ?o1)"
      by (simp add: take_add)
    with False head rest show ?thesis by (simp add: written_body_def)
  qed
  with res len2 bytes show ?thesis by auto
qed

lemma write_section_inv:
  assumes "write_section tag out l f = Some (Inr (n, out'))" and "body_writer f"
  obtains w where "f (writer_new (drop 6 out)) = Inr w" and "writer_ok w"
    and "n = length (section_bytes \<lparr>ws_tag = tag, ws_body = written_body w\<rparr>)"
    and "length out' = length out"
    and "take n out' = section_bytes \<lparr>ws_tag = tag, ws_body = written_body w\<rparr>"
    and "writer_finish w \<le> max_section_bytes l" and "writer_finish w < 2 ^ 32"
proof -
  from assms(1) obtain w where len: "6 \<le> length out" and w: "f (writer_new (drop 6 out)) = Inr w"
    and lim: "writer_finish w \<le> max_section_bytes l" "writer_finish w < 2 ^ 32"
    by (auto simp: write_section_def VARINT_MAX_BYTES_def Let_def split: if_splits sum.splits)
  note ext = body_writerD [OF assms(2) w]
  have ok: "writer_ok w" by (rule extends_ok [OF ext]) simp
  have wl: "length (bw_buf w) = length out - 6"
    using extends_length [OF ext] by (simp add: writer_new_def)
  from write_section_result [where f = f, OF len ok wl lim w, of tag] assms(1)
  show thesis by (intro that [OF w ok]) (use lim in auto)
qed

lemma write_section_no_panic: "body_writer f \<Longrightarrow> write_section tag out l f \<noteq> None"
proof
  assume bw: "body_writer f" and none: "write_section tag out l f = None"
  then obtain w where len: "6 \<le> length out" and w: "f (writer_new (drop 6 out)) = Inr w"
    and lim: "writer_finish w \<le> max_section_bytes l" "writer_finish w < 2 ^ 32"
    by (auto simp: write_section_def VARINT_MAX_BYTES_def Let_def split: if_splits sum.splits)
  note ext = body_writerD [OF bw w]
  have ok: "writer_ok w" by (rule extends_ok [OF ext]) simp
  have wl: "length (bw_buf w) = length out - 6"
    using extends_length [OF ext] by (simp add: writer_new_def)
  from write_section_result [where f = f, OF len ok wl lim w, of tag] none show False by auto
qed

end
