(* ===== verification/Full_Snapshot.thy ===== *)
theory Full_Snapshot
  imports Section_Writer
begin

text \<open>
  Full snapshots (codec/src/snapshot.rs): the encoder with its create section, the decoder, and the
  round trip between them.  The digest \<open>blake3\<close> behind the schema hash is a parameter.
\<close>

section \<open>Encoding\<close>

definition find_component :: "entity_snapshot \<Rightarrow> component_id \<Rightarrow> component_snapshot option" where
  "find_component entity i = find (\<lambda>c. cs_id c = i) (es_components entity)"

fun ensure_known_loop :: "schema \<Rightarrow> component_snapshot list \<Rightarrow> codec_error + unit" where
  "ensure_known_loop s [] = Inr ()"
| "ensure_known_loop s (component # cs) =
    (if list_all (\<lambda>c. cd_id c \<noteq> cs_id component) (components s) then
       Inl (InvalidMask ComponentMask (UnknownComponent (cs_id component)))
     else ensure_known_loop s cs)"

definition ensure_known_components :: "schema \<Rightarrow> entity_snapshot \<Rightarrow> codec_error + unit" where
  "ensure_known_components s entity = ensure_known_loop s (es_components entity)"

definition write_component_mask ::
  "schema \<Rightarrow> entity_snapshot \<Rightarrow> bit_writer \<Rightarrow> codec_error + bit_writer" where
  "write_component_mask s entity w =
    try_fold (\<lambda>component w.
      let present = find_component entity (cd_id component) \<noteq> None
      in lift_bit (write_bit present w)) (components s) w"

definition write_component_fields ::
  "component_def \<Rightarrow> component_snapshot \<Rightarrow> codec_limits \<Rightarrow> bit_writer \<Rightarrow> codec_error + bit_writer" where
  "write_component_fields component snapshot limits w =
    (if length (cd_fields component) > max_fields_per_component limits then
       Inl (CodecLimitsExceeded FieldsPerComponent (max_fields_per_component limits)
         (length (cd_fields component)))
     else if length (cs_fields snapshot) \<noteq> length (cd_fields component) then
       Inl (InvalidMask (FieldMask (cd_id component))
         (FieldCountMismatch (length (cd_fields component)) (length (cs_fields snapshot))))
     else if length (cs_fields snapshot) > max_fields_per_component limits then
       Inl (CodecLimitsExceeded FieldsPerComponent (max_fields_per_component limits)
         (length (cs_fields snapshot)))
     else
       and_then (try_fold (\<lambda>_ w. lift_bit (write_bit True w)) (cd_fields component) w) (\<lambda>w.
       try_fold (\<lambda>(field, v) w. write_field_value (cd_id component) field v w)
         (zip (cd_fields component) (cs_fields snapshot)) w))"

text \<open>One round of the loop over the entities, after the order check.\<close>

definition encode_create_entity ::
  "schema \<Rightarrow> codec_limits \<Rightarrow> entity_snapshot \<Rightarrow> bit_writer \<Rightarrow> codec_error + bit_writer" where
  "encode_create_entity s limits entity w =
    and_then (lift_bit (writer_align_to_byte w)) (\<lambda>w.
    and_then (lift_bit (write_u32_aligned (entity_raw (es_id entity)) w)) (\<lambda>w.
    if length (es_components entity) > max_components_per_entity limits then
      Inl (CodecLimitsExceeded ComponentsPerEntity (max_components_per_entity limits)
        (length (es_components entity)))
    else
    and_then (ensure_known_components s entity) (\<lambda>_.
    and_then (write_component_mask s entity w) (\<lambda>w.
    try_fold (\<lambda>component w.
      case find_component entity (cd_id component) of
        Some snapshot \<Rightarrow> write_component_fields component snapshot limits w
      | None \<Rightarrow> Inr w) (components s) w))))"

fun encode_entities_loop ::
  "schema \<Rightarrow> codec_limits \<Rightarrow> u32 option \<Rightarrow> entity_snapshot list \<Rightarrow> bit_writer \<Rightarrow>
    codec_error + bit_writer" where
  "encode_entities_loop s limits prev_id [] w = Inr w"
| "encode_entities_loop s limits prev_id (entity # entities) w =
    (let eid = entity_raw (es_id entity);
         continue = and_then (encode_create_entity s limits entity w) (\<lambda>w.
           encode_entities_loop s limits (Some eid) entities w)
     in case prev_id of
          Some prev \<Rightarrow> if eid \<le> prev then Inl (InvalidEntityOrder prev eid) else continue
        | None \<Rightarrow> continue)"

definition encode_create_body ::
  "schema \<Rightarrow> entity_snapshot list \<Rightarrow> codec_limits \<Rightarrow> bit_writer \<Rightarrow> codec_error + bit_writer" where
  "encode_create_body s entities limits w =
    (if length (components s) > max_components_per_entity limits then
       Inl (CodecLimitsExceeded ComponentsPerEntity (max_components_per_entity limits)
         (length (components s)))
     else
       and_then (lift_bit (writer_align_to_byte w)) (\<lambda>w.
       and_then (lift_bit (write_varu32 (of_nat (length entities)) w)) (\<lambda>w.
       and_then (encode_entities_loop s limits None entities w) (\<lambda>w.
       lift_bit (writer_align_to_byte w)))))"

definition encode_full_snapshot ::
  "(u8 list \<Rightarrow> u8 list) \<Rightarrow> schema \<Rightarrow> snapshot_tick \<Rightarrow> entity_snapshot list \<Rightarrow> codec_limits \<Rightarrow> u8 list \<Rightarrow>
    (codec_error + usize \<times> u8 list) option" where
  "encode_full_snapshot blake3 s tick entities limits out =
    (if length out < HEADER_SIZE then Some (Inl (OutputTooSmall HEADER_SIZE (length out)))
     else if length entities > max_entities_create limits then
       Some (Inl (CodecLimitsExceeded EntitiesCreate (max_entities_create limits) (length entities)))
     else
       try_then
         (if entities \<noteq> [] then
            try_then (write_section EntityCreate (drop HEADER_SIZE out) limits
                (encode_create_body s entities limits)) (\<lambda>(written, tail).
              Some (Inr (HEADER_SIZE + written, take HEADER_SIZE out @ tail)))
          else Some (Inr (HEADER_SIZE, out))) (\<lambda>(offset, out).
       let payload_len = offset - HEADER_SIZE;
           header = header_full_snapshot (schema_hash blake3 s) (tick_raw tick) (of_nat payload_len)
       in case encode_header header (take HEADER_SIZE out) of
            Inl _ \<Rightarrow> Some (Inl (OutputTooSmall HEADER_SIZE (length out)))
          | Inr (_, head) \<Rightarrow> Some (Inr (offset, head @ drop HEADER_SIZE out))))"

section \<open>Decoding\<close>

text \<open>The field loop: \<open>mask[idx]\<close> is the mask bit beside the field.\<close>

fun decode_fields_loop ::
  "component_def \<Rightarrow> field_def list \<Rightarrow> bool list \<Rightarrow> bit_reader \<Rightarrow>
    codec_error + field_value list \<times> bit_reader" where
  "decode_fields_loop component (field # fds) (present # mbits) r =
    (if \<not> present then
       Inl (InvalidMask (FieldMask (cd_id component)) (MissingField (fd_id field)))
     else
       and_then (read_field_value (cd_id component) field r) (\<lambda>(v, r).
       and_then (decode_fields_loop component fds mbits r) (\<lambda>(vs, r). Inr (v # vs, r))))"
| "decode_fields_loop component fds mbits r = Inr ([], r)"

definition decode_component_fields ::
  "component_def \<Rightarrow> bit_reader \<Rightarrow> codec_limits \<Rightarrow> codec_error + field_value list \<times> bit_reader" where
  "decode_component_fields component r limits =
    (if length (cd_fields component) > max_fields_per_component limits then
       Inl (CodecLimitsExceeded FieldsPerComponent (max_fields_per_component limits)
         (length (cd_fields component)))
     else
       and_then (read_mask r (length (cd_fields component)) (FieldMask (cd_id component)))
         (\<lambda>(mbits, r). decode_fields_loop component (cd_fields component) mbits r))"

fun decode_components_loop ::
  "codec_limits \<Rightarrow> component_def list \<Rightarrow> bool list \<Rightarrow> bit_reader \<Rightarrow>
    codec_error + component_snapshot list \<times> bit_reader" where
  "decode_components_loop limits (component # cs) (present # mbits) r =
    (if present then
       and_then (decode_component_fields component r limits) (\<lambda>(fds, r).
       and_then (decode_components_loop limits cs mbits r) (\<lambda>(rest, r).
         Inr (\<lparr>cs_id = cd_id component, cs_fields = fds\<rparr> # rest, r)))
     else decode_components_loop limits cs mbits r)"
| "decode_components_loop limits cs mbits r = Inr ([], r)"

text \<open>One round of the loop over the entities, after the order check.\<close>

definition decode_create_entity ::
  "schema \<Rightarrow> codec_limits \<Rightarrow> u32 \<Rightarrow> bit_reader \<Rightarrow> codec_error + entity_snapshot \<times> bit_reader" where
  "decode_create_entity s limits eid r =
    and_then (read_mask r (length (components s)) ComponentMask) (\<lambda>(mbits, r).
    and_then (decode_components_loop limits (components s) mbits r) (\<lambda>(cs, r).
      Inr (\<lparr>es_id = EntityId eid, es_components = cs\<rparr>, r)))"

fun decode_entities_loop ::
  "schema \<Rightarrow> codec_limits \<Rightarrow> nat \<Rightarrow> u32 option \<Rightarrow> bit_reader \<Rightarrow>
    codec_error + entity_snapshot list \<times> bit_reader" where
  "decode_entities_loop s limits 0 prev_id r = Inr ([], r)"
| "decode_entities_loop s limits (Suc n) prev_id r =
    and_then (lift_bit (reader_align_to_byte r)) (\<lambda>r.
    and_then (lift_bit (read_u32_aligned r)) (\<lambda>(eid, r).
    let continue = and_then (decode_create_entity s limits eid r) (\<lambda>(e, r).
          and_then (decode_entities_loop s limits n (Some eid) r) (\<lambda>(es, r). Inr (e # es, r)))
    in case prev_id of
         Some prev \<Rightarrow> if eid \<le> prev then Inl (InvalidEntityOrder prev eid) else continue
       | None \<Rightarrow> continue))"

definition decode_create_section ::
  "schema \<Rightarrow> u8 list \<Rightarrow> codec_limits \<Rightarrow> codec_error + entity_snapshot list" where
  "decode_create_section s body limits =
    (if length body > max_section_bytes limits then
       Inl (CodecLimitsExceeded SectionBytes (max_section_bytes limits) (length body))
     else
     and_then (lift_bit (reader_align_to_byte (reader_new body))) (\<lambda>r.
     and_then (lift_bit (read_varu32 r)) (\<lambda>(raw, r).
     let count = unat raw in
     if count > max_entities_create limits then
       Inl (CodecLimitsExceeded EntitiesCreate (max_entities_create limits) count)
     else if length (components s) > max_components_per_entity limits then
       Inl (CodecLimitsExceeded ComponentsPerEntity (max_components_per_entity limits)
         (length (components s)))
     else
     and_then (decode_entities_loop s limits count None r) (\<lambda>(entities, r).
     and_then (lift_bit (reader_align_to_byte r)) (\<lambda>r.
     let remaining_bits = reader_bits_remaining r in
     if remaining_bits \<noteq> 0 then Inl (TrailingSectionData EntityCreate remaining_bits)
     else Inr entities)))))"

text \<open>The loop over the sections, with the entities decoded so far and whether a create was seen.\<close>

fun full_sections_loop ::
  "schema \<Rightarrow> codec_limits \<Rightarrow> wire_section list \<Rightarrow> bool \<Rightarrow> entity_snapshot list \<Rightarrow>
    codec_error + entity_snapshot list" where
  "full_sections_loop s limits [] create_seen entities = Inr entities"
| "full_sections_loop s limits (section # sections) create_seen entities =
    (if ws_tag section = EntityCreate then
       if create_seen then Inl (DuplicateSection (ws_tag section))
       else and_then (decode_create_section s (ws_body section) limits) (\<lambda>decoded.
         full_sections_loop s limits sections True decoded)
     else Inl (UnexpectedSection (ws_tag section)))"

definition decode_full_snapshot_from_packet ::
  "(u8 list \<Rightarrow> u8 list) \<Rightarrow> schema \<Rightarrow> wire_packet \<Rightarrow> codec_limits \<Rightarrow> codec_error + snapshot" where
  "decode_full_snapshot_from_packet blake3 s packet limits =
    (let header = wp_header packet; raw = flags_raw (ph_flags header) in
     if \<not> is_full_snapshot (ph_flags header) then Inl (Wire (InvalidFlags raw))
     else if ph_baseline_tick header \<noteq> 0 then
       Inl (Wire (InvalidBaselineTick (ph_baseline_tick header) raw))
     else if ph_schema_hash header \<noteq> schema_hash blake3 s then
       Inl (SchemaMismatch (schema_hash blake3 s) (ph_schema_hash header))
     else
       and_then (full_sections_loop s limits (wp_sections packet) False []) (\<lambda>entities.
         Inr \<lparr>sn_tick = SnapshotTick (ph_tick header), sn_entities = entities\<rparr>))"

definition decode_full_snapshot ::
  "(u8 list \<Rightarrow> u8 list) \<Rightarrow> schema \<Rightarrow> u8 list \<Rightarrow> limits \<Rightarrow> codec_limits \<Rightarrow> codec_error + snapshot" where
  "decode_full_snapshot blake3 s bytes wire_limits limits =
    and_then (map_err Wire (decode_packet bytes wire_limits)) (\<lambda>packet.
      decode_full_snapshot_from_packet blake3 s packet limits)"

section \<open>The canonical form of an entity\<close>

text \<open>
  The encoder visits the schema's components in schema order and takes the first component snapshot
  with the id: this is the entity the decoder sees.
\<close>

definition canonical_entity :: "schema \<Rightarrow> entity_snapshot \<Rightarrow> entity_snapshot" where
  "canonical_entity s e =
    e\<lparr>es_components := List.map_filter (\<lambda>c. find_component e (cd_id c)) (components s)\<rparr>"

lemma find_component_id: "find_component e i = Some c \<Longrightarrow> cs_id c = i"
  by (auto simp: find_component_def find_Some_iff)

section \<open>Every writer extends\<close>

lemma lift_extends: "(\<And>w'. m = Inr w' \<Longrightarrow> extends w w') \<Longrightarrow> lift_bit m = Inr w' \<Longrightarrow> extends w w'"
  by (simp add: map_err_Inr_iff)

lemma write_component_mask_extends:
  "write_component_mask s e w = Inr w' \<Longrightarrow> extends w w'"
  unfolding write_component_mask_def
  by (rule try_fold_extends) (auto simp: Let_def map_err_Inr_iff intro: write_bit_extends)

lemma write_component_fields_parts:
  assumes "write_component_fields c snap l w = Inr w'"
  obtains w1 where "try_fold (\<lambda>_ w. lift_bit (write_bit True w)) (cd_fields c) w = Inr w1"
    and "try_fold (\<lambda>(field, v) w. write_field_value (cd_id c) field v w)
      (zip (cd_fields c) (cs_fields snap)) w1 = Inr w'"
    and "length (cd_fields c) \<le> max_fields_per_component l"
    and "length (cs_fields snap) = length (cd_fields c)"
    and "extends w w1" and "extends w1 w'"
proof -
  from assms obtain w1 where w1: "try_fold (\<lambda>_ w. lift_bit (write_bit True w)) (cd_fields c) w = Inr w1"
    and f: "try_fold (\<lambda>(field, v) w. write_field_value (cd_id c) field v w)
      (zip (cd_fields c) (cs_fields snap)) w1 = Inr w'"
    and "length (cd_fields c) \<le> max_fields_per_component l"
    and "length (cs_fields snap) = length (cd_fields c)"
    unfolding write_component_fields_def by (auto simp: res_simps not_less)
  moreover have "extends w w1"
    using w1 by (rule try_fold_extends [rotated]) (simp add: map_err_Inr_iff write_bit_extends)
  moreover have "extends w1 w'"
    using f by (rule try_fold_extends [rotated]) (auto intro: write_field_value_extends)
  ultimately show thesis using that by blast
qed

lemma write_component_fields_extends:
  "write_component_fields c snap l w = Inr w' \<Longrightarrow> extends w w'"
  by (meson write_component_fields_parts extends_trans)

lemma encode_create_entity_extends:
  "encode_create_entity s l e w = Inr w' \<Longrightarrow> extends w w'"
proof -
  assume "encode_create_entity s l e w = Inr w'"
  then obtain w1 w2 w3 where "writer_align_to_byte w = Inr w1"
    and "write_u32_aligned (entity_raw (es_id e)) w1 = Inr w2"
    and "write_component_mask s e w2 = Inr w3"
    and f: "try_fold (\<lambda>component w. case find_component e (cd_id component) of
        Some snapshot \<Rightarrow> write_component_fields component snapshot l w | None \<Rightarrow> Inr w)
      (components s) w3 = Inr w'"
    by (auto simp: encode_create_entity_def res_simps)
  then have "extends w w3"
    by (meson extends_trans writer_align_extends write_u32_extends write_component_mask_extends)
  moreover have "extends w3 w'"
    using f by (rule try_fold_extends [rotated])
      (auto split: option.splits intro: write_component_fields_extends)
  ultimately show ?thesis by (rule extends_trans)
qed

lemma encode_entities_loop_step:
  "encode_entities_loop s l prev (e # es) w = Inr w' \<longleftrightarrow>
    (\<forall>p. prev = Some p \<longrightarrow> p < entity_raw (es_id e)) \<and>
    (\<exists>w1. encode_create_entity s l e w = Inr w1 \<and>
      encode_entities_loop s l (Some (entity_raw (es_id e))) es w1 = Inr w')"
  by (cases prev) (auto simp: Let_def res_simps not_le)

lemma encode_entities_loop_extends:
  "encode_entities_loop s l prev es w = Inr w' \<Longrightarrow> extends w w'"
proof (induction es arbitrary: prev w)
  case (Cons e es)
  then show ?case
    unfolding encode_entities_loop_step
    by (meson extends_trans encode_create_entity_extends)
qed simp

lemma encode_create_body_parts:
  assumes "encode_create_body s es l w = Inr w'"
  obtains w1 w2 w3 where "writer_align_to_byte w = Inr w1"
    and "write_varu32 (of_nat (length es)) w1 = Inr w2"
    and "encode_entities_loop s l None es w2 = Inr w3" and "writer_align_to_byte w3 = Inr w'"
    and "length (components s) \<le> max_components_per_entity l"
    and "extends w w1" "extends w1 w2" "extends w2 w3" "extends w3 w'"
  using assms
  by (auto simp: encode_create_body_def res_simps not_less intro: writer_align_extends
      write_varu32_extends encode_entities_loop_extends)

lemma encode_create_body_writer: "body_writer (encode_create_body s es l)"
  unfolding body_writer_def by (meson encode_create_body_parts extends_trans)


section \<open>Round trip of a create section\<close>

lemma try_fold_lift: "try_fold (\<lambda>x w. lift_bit (g x w)) xs w = lift_bit (try_fold g xs w)"
proof (induction xs arbitrary: w)
  case (Cons x xs)
  then show ?case by (cases "g x w") auto
qed simp

lemma try_fold_map: "try_fold (\<lambda>x. g (h x)) xs w = try_fold g (map h xs) w"
proof (induction xs arbitrary: w)
  case (Cons x xs)
  then show ?case by (cases "g (h x) w") auto
qed simp

lemma decode_fields_written:
  "try_fold (\<lambda>(field, v) w. write_field_value (cd_id c) field v w) (zip fs vs) w = Inr w' \<Longrightarrow>
    length vs = length fs \<Longrightarrow> list_all (\<lambda>f. codec_ok (fd_codec f)) fs \<Longrightarrow> holds d w' \<Longrightarrow>
    decode_fields_loop c fs (replicate (length fs) True) (reader_at d (bw_pos w)) =
      Inr (vs, reader_at d (bw_pos w'))"
proof (induction fs arbitrary: vs w)
  case (Cons f fs)
  from Cons.prems(2) obtain v vs' where vs: "vs = v # vs'" by (cases vs) auto
  from Cons.prems(1) obtain w1 where w1: "write_field_value (cd_id c) f v w = Inr w1"
    and rest: "try_fold (\<lambda>(field, v) w. write_field_value (cd_id c) field v w) (zip fs vs') w1 = Inr w'"
    by (auto simp: vs elim: and_then_E)
  have "extends w1 w'"
    using rest by (rule try_fold_extends [rotated]) (auto intro: write_field_value_extends)
  then have "holds d w1" using Cons.prems(4) by (auto intro: holds_extends)
  with field_values.rd_wr [OF w1] Cons.prems(3)
  have "read_field_value (cd_id c) f (reader_at d (bw_pos w)) = Inr (v, reader_at d (bw_pos w1))"
    by simp
  with Cons.IH [OF rest] Cons.prems vs show ?case by simp
qed simp

lemma decode_component_written:
  assumes wr: "write_component_fields c snap l w = Inr w'" and ok: "component_ok c" and d: "holds d w'"
  shows "decode_component_fields c (reader_at d (bw_pos w)) l =
    Inr (cs_fields snap, reader_at d (bw_pos w'))"
proof -
  from wr obtain w1 where m: "try_fold (\<lambda>_ w. lift_bit (write_bit True w)) (cd_fields c) w = Inr w1"
    and f: "try_fold (\<lambda>(field, v) w. write_field_value (cd_id c) field v w)
      (zip (cd_fields c) (cs_fields snap)) w1 = Inr w'"
    and lim: "length (cd_fields c) \<le> max_fields_per_component l"
    and len: "length (cs_fields snap) = length (cd_fields c)" and ext: "extends w1 w'"
    by (rule write_component_fields_parts)
  have "try_fold write_bit (replicate (length (cd_fields c)) True) w = Inr w1"
    using m try_fold_map [of write_bit "\<lambda>_. True" "cd_fields c" w]
    by (simp add: try_fold_lift map_err_Inr_iff map_replicate_const)
  moreover have "holds d w1" using d ext by (rule holds_extends)
  ultimately have "read_mask (reader_at d (bw_pos w)) (length (cd_fields c)) k =
      Inr (replicate (length (cd_fields c)) True, reader_at d (bw_pos w1))" for k
    by (rule read_mask_written) simp
  moreover have "list_all (\<lambda>f. codec_ok (fd_codec f)) (cd_fields c)"
    using ok by (simp add: component_ok_def)
  ultimately show ?thesis
    using decode_fields_written [OF f len _ d] lim by (simp add: decode_component_fields_def)
qed

lemma decode_components_written:
  "try_fold (\<lambda>component w. case find_component e (cd_id component) of
      Some snapshot \<Rightarrow> write_component_fields component snapshot l w | None \<Rightarrow> Inr w) cs w = Inr w' \<Longrightarrow>
    list_all component_ok cs \<Longrightarrow> holds d w' \<Longrightarrow>
    decode_components_loop l cs (map (\<lambda>c. find_component e (cd_id c) \<noteq> None) cs)
        (reader_at d (bw_pos w)) =
      Inr (List.map_filter (\<lambda>c. find_component e (cd_id c)) cs, reader_at d (bw_pos w'))"
proof (induction cs arbitrary: w)
  case (Cons c cs)
  let ?f = "\<lambda>component w. case find_component e (cd_id component) of
      Some snapshot \<Rightarrow> write_component_fields component snapshot l w | None \<Rightarrow> Inr w"
  from Cons.prems(1) obtain w1 where w1: "?f c w = Inr w1" and rest: "try_fold ?f cs w1 = Inr w'"
    by (auto elim: and_then_E)
  have "extends w1 w'"
    using rest by (rule try_fold_extends [rotated])
      (auto split: option.splits intro: write_component_fields_extends)
  then have h1: "holds d w1" using Cons.prems(3) by (auto intro: holds_extends)
  show ?case
  proof (cases "find_component e (cd_id c)")
    case None
    with w1 Cons.IH [OF rest] Cons.prems show ?thesis by (simp add: map_filter_simps)
  next
    case (Some snap)
    with w1 have wr: "write_component_fields c snap l w = Inr w1" by simp
    have snap: "\<lparr>cs_id = cd_id c, cs_fields = cs_fields snap\<rparr> = snap"
      using find_component_id [OF Some] by simp
    from decode_component_written [OF wr _ h1] Cons.IH [OF rest] Cons.prems Some snap
    show ?thesis by (simp add: map_filter_simps)
  qed
qed (simp add: map_filter_simps)

lemma decode_entity_body_written:
  assumes w3: "write_component_mask s e w2 = Inr w3"
    and f: "try_fold (\<lambda>component w. case find_component e (cd_id component) of
        Some snapshot \<Rightarrow> write_component_fields component snapshot l w | None \<Rightarrow> Inr w)
      (components s) w3 = Inr w'"
    and ok: "schema_ok s" and d: "holds d w'"
  shows "decode_create_entity s l (entity_raw (es_id e)) (reader_at d (bw_pos w2)) =
    Inr (canonical_entity s e, reader_at d (bw_pos w'))"
proof -
  have "extends w3 w'"
    using f by (rule try_fold_extends [rotated])
      (auto split: option.splits intro: write_component_fields_extends)
  then have h3: "holds d w3" using d by (auto intro: holds_extends)
  let ?m = "map (\<lambda>c. find_component e (cd_id c) \<noteq> None) (components s)"
  have "try_fold write_bit ?m w2 = Inr w3"
    using w3 try_fold_map [of write_bit "\<lambda>c. find_component e (cd_id c) \<noteq> None" "components s" w2]
    by (simp add: write_component_mask_def Let_def try_fold_lift map_err_Inr_iff)
  then have m: "read_mask (reader_at d (bw_pos w2)) (length (components s)) k =
      Inr (?m, reader_at d (bw_pos w3))" for k
    using h3 by (rule read_mask_written) simp
  have "list_all component_ok (components s)" using ok by (simp add: schema_ok_def)
  from decode_components_written [OF f this d] m show ?thesis
    by (simp add: decode_create_entity_def canonical_entity_def)
qed

lemma decode_create_entity_written:
  assumes wr: "encode_create_entity s l e w = Inr w'" and ok: "schema_ok s" and d: "holds d w'"
  obtains r where "reader_align_to_byte (reader_at d (bw_pos w)) = Inr r"
    and "\<exists>r'. read_u32_aligned r = Inr (entity_raw (es_id e), r') \<and>
      decode_create_entity s l (entity_raw (es_id e)) r' =
        Inr (canonical_entity s e, reader_at d (bw_pos w'))"
proof -
  from wr obtain w1 w2 w3 where w1: "writer_align_to_byte w = Inr w1"
    and w2: "write_u32_aligned (entity_raw (es_id e)) w1 = Inr w2"
    and w3: "write_component_mask s e w2 = Inr w3"
    and f: "try_fold (\<lambda>component w. case find_component e (cd_id component) of
        Some snapshot \<Rightarrow> write_component_fields component snapshot l w | None \<Rightarrow> Inr w)
      (components s) w3 = Inr w'"
    by (auto simp: encode_create_entity_def res_simps)
  have "extends w3 w'"
    using f by (rule try_fold_extends [rotated])
      (auto split: option.splits intro: write_component_fields_extends)
  then have "extends w2 w'" using write_component_mask_extends [OF w3] by (rule extends_trans [rotated])
  then have h2: "holds d w2" using d by (auto intro: holds_extends)
  then have h1: "holds d w1" using write_u32_extends [OF w2] by (auto intro: holds_extends)
  from decode_entity_body_written [OF w3 f ok d] u32s.rd_wr [OF w2 _ h2] reader_align_written [OF w1 h1]
  show thesis by (intro that) auto
qed

lemma decode_entities_written:
  "encode_entities_loop s l prev es w = Inr w' \<Longrightarrow> schema_ok s \<Longrightarrow> holds d w' \<Longrightarrow>
    decode_entities_loop s l (length es) prev (reader_at d (bw_pos w)) =
      Inr (map (canonical_entity s) es, reader_at d (bw_pos w'))"
proof (induction es arbitrary: prev w)
  case (Cons e es)
  from Cons.prems(1) obtain w1 where order: "\<forall>p. prev = Some p \<longrightarrow> p < entity_raw (es_id e)"
    and w1: "encode_create_entity s l e w = Inr w1"
    and rest: "encode_entities_loop s l (Some (entity_raw (es_id e))) es w1 = Inr w'"
    unfolding encode_entities_loop_step by blast
  have "holds d w1"
    using encode_entities_loop_extends [OF rest] Cons.prems(3) by (auto intro: holds_extends)
  from decode_create_entity_written [OF w1 Cons.prems(2) this] obtain r r'
    where "reader_align_to_byte (reader_at d (bw_pos w)) = Inr r"
      and "read_u32_aligned r = Inr (entity_raw (es_id e), r')"
      and "decode_create_entity s l (entity_raw (es_id e)) r' =
        Inr (canonical_entity s e, reader_at d (bw_pos w1))" by metis
  with Cons.IH [OF rest Cons.prems(2,3)] order show ?case
    by (cases prev) (auto simp: Let_def)
qed simp

text \<open>
  The body of a section that starts at bit 0 and ends at a byte boundary leaves no bit over.
\<close>

lemma written_body_remaining:
  assumes "bw_pos w mod 8 = 0"
  shows "reader_bits_remaining (reader_at (written_body w) (bw_pos w)) = 0"
proof -
  have "8 * writer_finish w = bw_pos w" using div_ceil_8_aligned [OF assms] by (simp add: writer_finish_def)
  then have "8 * length (written_body w) \<le> bw_pos w"
    by (simp add: written_body_def)
  then show ?thesis using bit_capacity_le [of "written_body w"] by (simp add: reader_remaining_at)
qed

lemma decode_create_section_written:
  assumes wr: "encode_create_body s es l (writer_new buf) = Inr w'" and ok: "schema_ok s"
    and cnt: "length es < 2 ^ 32" "length es \<le> max_entities_create l"
    and sz: "writer_finish w' \<le> max_section_bytes l"
  shows "decode_create_section s (written_body w') l = Inr (map (canonical_entity s) es)"
proof -
  let ?d = "written_body w'"
  from wr obtain w1 w2 w3 where w1: "writer_align_to_byte (writer_new buf) = Inr w1"
    and w2: "write_varu32 (of_nat (length es)) w1 = Inr w2"
    and w3: "encode_entities_loop s l None es w2 = Inr w3" and w4: "writer_align_to_byte w3 = Inr w'"
    and comps: "length (components s) \<le> max_components_per_entity l"
    and e: "extends (writer_new buf) w1" "extends w1 w2" "extends w2 w3" "extends w3 w'"
    by (rule encode_create_body_parts)
  have wok: "writer_ok w'"
    using e by (meson extends_trans extends_ok writer_new_ok)
  have h4: "holds ?d w'" using wok by (rule written_body_holds)
  have h3: "holds ?d w3" using h4 e(4) by (rule holds_extends)
  have h2: "holds ?d w2" using h3 e(3) by (rule holds_extends)
  have h1: "holds ?d w1" using h2 e(2) by (rule holds_extends)
  have "reader_align_to_byte (reader_new ?d) = Inr (reader_at ?d (bw_pos w1))"
    using reader_align_written [OF w1 h1] by (simp add: reader_new_at writer_new_def)
  moreover have "length ?d \<le> max_section_bytes l"
    using sz written_body_length [OF wok] by simp
  moreover have "bw_pos w' mod 8 = 0" using padding_pos [OF w4] by simp
  ultimately show ?thesis
    using read_varu32_written [OF w2 h2] decode_entities_written [OF w3 ok h3]
      reader_align_written [OF w4 h4] written_body_remaining [of w'] cnt comps
    by (simp add: decode_create_section_def Let_def unat_of_nat_u32)
qed


section \<open>Round trip of a packet\<close>

lemma encode_header_exact:
  "length head = 28 \<Longrightarrow> encode_header h head = Inr (HEADER_SIZE, header_bytes h)"
proof -
  assume len: "length head = 28"
  then obtain out' where e: "encode_header h head = Inr (28, out')"
    by (auto simp: encode_header_def HEADER_SIZE_eq Let_def)
  from encode_header_bytes [OF this] len have "out' = header_bytes h" by auto
  with e show ?thesis by (simp add: HEADER_SIZE_eq)
qed

lemma encode_header_fails: "encode_header h head = Inl e \<Longrightarrow> length head < 28"
  by (auto simp: encode_header_def HEADER_SIZE_eq Let_def split: if_splits)

lemma decode_packet_built:
  assumes "header_ok h" and "unat (ph_payload_len h) = length payload"
    and "framed payload secs" and "sections_within l secs" and "28 + length payload \<le> max_packet_bytes l"
  shows "decode_packet (header_bytes h @ payload) l = Inr \<lparr>wp_header = h, wp_sections = secs\<rparr>"
  using assms by (simp add: decode_packet_iff HEADER_SIZE_eq)

definition wire_room :: "limits \<Rightarrow> usize \<Rightarrow> bool" where
  "wire_room l n \<longleftrightarrow> n < 2 ^ 32 \<and> n \<le> max_packet_bytes l \<and> n \<le> max_section_len l \<and> 1 \<le> max_sections l"

lemma section_bytes_within:
  assumes "length (section_bytes sec) \<le> max_section_len l" and "1 \<le> max_sections l"
  shows "sections_within l [sec]"
  using assms by (simp add: sections_within_def section_bytes_def)

lemma framed_single:
  "length (ws_body sec) < 2 ^ 32 \<Longrightarrow> framed (section_bytes sec) [sec]"
  using framed_section_bytes [of "[sec]"] by simp

lemma header_full_ok: "header_ok (header_full_snapshot h t n)"
  unfolding header_ok_def header_full_snapshot_def flags_full_snapshot_def FULL_SNAPSHOT_def
  by (simp add: is_valid_v2_iff)

lemma encode_full_snapshot_bytes:
  assumes "encode_full_snapshot blake3 s tick es l out = Some (Inr (n, out'))"
  obtains payload where "length out' = length out" and "n = 28 + length payload" and "n \<le> length out'"
    and "take n out' = header_bytes (header_full_snapshot (schema_hash blake3 s) (tick_raw tick)
      (of_nat (length payload))) @ payload"
    and "length es \<le> max_entities_create l"
    and "es = [] \<and> payload = [] \<or>
      es \<noteq> [] \<and> (\<exists>w buf. encode_create_body s es l (writer_new buf) = Inr w \<and> writer_ok w \<and>
        payload = section_bytes \<lparr>ws_tag = EntityCreate, ws_body = written_body w\<rparr> \<and>
        writer_finish w \<le> max_section_bytes l \<and> writer_finish w < 2 ^ 32)"
proof -
  have len: "28 \<le> length out" and cnt: "length es \<le> max_entities_create l"
    using assms by (auto simp: encode_full_snapshot_def HEADER_SIZE_eq res_simps not_less)
  let ?h = "\<lambda>n. header_full_snapshot (schema_hash blake3 s) (tick_raw tick) (of_nat n)"
  show thesis
  proof (cases "es = []")
    case True
    then have "n = 28" "out' = header_bytes (?h 0) @ drop 28 out"
      using assms len by (auto simp: encode_full_snapshot_def HEADER_SIZE_eq Let_def
          encode_header_exact split: if_splits)
    then show thesis using True len cnt by (intro that [of "[]"]) simp_all
  next
    case False
    from assms False len obtain k tail where
      ws: "write_section EntityCreate (drop 28 out) l (encode_create_body s es l) = Some (Inr (k, tail))"
      and n: "n = 28 + k" and out': "out' = header_bytes (?h k) @ tail"
      by (auto simp: encode_full_snapshot_def HEADER_SIZE_eq Let_def res_simps
          encode_header_exact split: if_splits)
    from write_section_inv [OF ws encode_create_body_writer] obtain w where
      w: "encode_create_body s es l (writer_new (drop 6 (drop 28 out))) = Inr w" "writer_ok w"
        "k = length (section_bytes \<lparr>ws_tag = EntityCreate, ws_body = written_body w\<rparr>)"
        "length tail = length (drop 28 out)"
        "take k tail = section_bytes \<lparr>ws_tag = EntityCreate, ws_body = written_body w\<rparr>"
        "writer_finish w \<le> max_section_bytes l" "writer_finish w < 2 ^ 32" .
    have "k \<le> length tail" using w(3,5) by (metis length_take min.absorb_iff2 nat_le_linear)
    with w n out' len cnt False show thesis
      by (intro that [of "section_bytes \<lparr>ws_tag = EntityCreate, ws_body = written_body w\<rparr>"]) auto
  qed
qed

lemma full_snapshot_decodes:
  assumes enc: "encode_full_snapshot blake3 s tick es l out = Some (Inr (n, out'))"
    and ok: "schema_ok s" and cnt: "length es < 2 ^ 32" and room: "wire_room wl n"
  shows "decode_full_snapshot blake3 s (take n out') wl l =
    Inr \<lparr>sn_tick = tick, sn_entities = map (canonical_entity s) es\<rparr>"
proof -
  from enc obtain payload where n: "n = 28 + length payload"
    and bytes: "take n out' = header_bytes (header_full_snapshot (schema_hash blake3 s) (tick_raw tick)
      (of_nat (length payload))) @ payload"
    and lim: "length es \<le> max_entities_create l"
    and body: "es = [] \<and> payload = [] \<or>
      es \<noteq> [] \<and> (\<exists>w buf. encode_create_body s es l (writer_new buf) = Inr w \<and> writer_ok w \<and>
        payload = section_bytes \<lparr>ws_tag = EntityCreate, ws_body = written_body w\<rparr> \<and>
        writer_finish w \<le> max_section_bytes l \<and> writer_finish w < 2 ^ 32)"
    by (rule encode_full_snapshot_bytes)
  let ?h = "header_full_snapshot (schema_hash blake3 s) (tick_raw tick) (of_nat (length payload))"
  have plen: "unat (ph_payload_len ?h) = length payload"
    using room n by (simp add: header_full_snapshot_def wire_room_def unat_of_nat_u32)
  have full: "is_full_snapshot (ph_flags ?h)" "ph_baseline_tick ?h = 0"
      "ph_schema_hash ?h = schema_hash blake3 s" "ph_tick ?h = tick_raw tick"
    by (simp_all add: header_full_snapshot_def flags_full_snapshot_def FULL_SNAPSHOT_def)
  show ?thesis
  proof (cases "es = []")
    case True
    with body have p: "payload = []" by simp
    have "decode_packet (header_bytes ?h @ payload) wl = Inr \<lparr>wp_header = ?h, wp_sections = []\<rparr>"
      using room plen n p
      by (intro decode_packet_built) (auto simp: header_full_ok wire_room_def sections_within_def framed_Nil)
    with True full bytes show ?thesis
      by (simp add: decode_full_snapshot_def decode_full_snapshot_from_packet_def Let_def)
  next
    case False
    with body obtain w buf where w: "encode_create_body s es l (writer_new buf) = Inr w" "writer_ok w"
      and p: "payload = section_bytes \<lparr>ws_tag = EntityCreate, ws_body = written_body w\<rparr>"
      and sz: "writer_finish w \<le> max_section_bytes l" "writer_finish w < 2 ^ 32" by blast
    let ?sec = "\<lparr>ws_tag = EntityCreate, ws_body = written_body w\<rparr>"
    have "framed payload [?sec]"
      unfolding p using written_body_length [OF w(2)] sz(2) by (intro framed_single) simp
    moreover have "sections_within wl [?sec]"
      using room n p by (intro section_bytes_within) (simp_all add: wire_room_def)
    ultimately have "decode_packet (header_bytes ?h @ payload) wl =
        Inr \<lparr>wp_header = ?h, wp_sections = [?sec]\<rparr>"
      using room plen n by (intro decode_packet_built) (auto simp: header_full_ok wire_room_def)
    with full bytes decode_create_section_written [OF w(1) ok cnt lim sz(1)] show ?thesis
      by (simp add: decode_full_snapshot_def decode_full_snapshot_from_packet_def Let_def)
  qed
qed

lemma case_sum_Some:
  "(case m of Inl e \<Rightarrow> Some (f e) | Inr (a, b) \<Rightarrow> Some (g a b)) \<noteq> None"
  by (cases m) (auto split: prod.splits)

lemma encode_full_snapshot_no_panic: "encode_full_snapshot blake3 s tick es l out \<noteq> None"
proof
  assume "encode_full_snapshot blake3 s tick es l out = None"
  then have "write_section EntityCreate (drop HEADER_SIZE out) l (encode_create_body s es l) = None"
    by (auto simp: encode_full_snapshot_def try_then_None Let_def case_sum_Some split: if_splits)
  then show False using write_section_no_panic [OF encode_create_body_writer] by blast
qed

section \<open>What a decoded snapshot satisfies\<close>

lemma decode_entities_sorted:
  "decode_entities_loop s l n prev r = Inr (es, r') \<Longrightarrow>
    length es = n \<and> sorted_wrt (<) (map es_id es) \<and>
    (\<forall>p. prev = Some p \<longrightarrow> (\<forall>e \<in> set es. p < entity_raw (es_id e)))"
proof (induction n arbitrary: prev r es)
  case (Suc n)
  from Suc.prems obtain r1 eid r2 e r3 es' where
    prev: "\<forall>p. prev = Some p \<longrightarrow> p < eid"
    and e: "decode_create_entity s l eid r2 = Inr (e, r3)"
    and rest: "decode_entities_loop s l n (Some eid) r3 = Inr (es', r')" and es: "es = e # es'"
    by (cases prev) (auto simp: Let_def res_simps not_le split: if_splits)
  have id: "entity_raw (es_id e) = eid"
    using e by (auto simp: decode_create_entity_def res_simps)
  have IH: "length es' = n" "sorted_wrt (<) (map es_id es')" "\<forall>e' \<in> set es'. eid < entity_raw (es_id e')"
    using Suc.IH [OF rest] by auto
  then have "\<forall>e' \<in> set es'. es_id e < es_id e'" using id by (simp add: less_entity_id_def)
  with IH id prev show ?case by (fastforce simp: es)
qed simp

lemma decode_create_section_sorted:
  "decode_create_section s body l = Inr es \<Longrightarrow>
    sorted_wrt (<) (map es_id es) \<and> length es \<le> max_entities_create l"
  unfolding decode_create_section_def
  by (auto simp: res_simps Let_def not_less dest: decode_entities_sorted)

lemma full_sections_sorted:
  "full_sections_loop s l secs seen es0 = Inr es \<Longrightarrow>
    sorted_wrt (<) (map es_id es0) \<and> length es0 \<le> max_entities_create l \<Longrightarrow>
    sorted_wrt (<) (map es_id es) \<and> length es \<le> max_entities_create l"
proof (induction secs arbitrary: seen es0)
  case (Cons sec secs)
  then obtain d where "decode_create_section s (ws_body sec) l = Inr d"
    and "full_sections_loop s l secs True d = Inr es"
    by (auto simp: res_simps split: if_splits)
  with Cons.IH decode_create_section_sorted show ?case by blast
qed simp

lemma decode_full_snapshot_sorted:
  assumes "decode_full_snapshot blake3 s bytes wl l = Inr sn"
  shows "sorted_wrt (<) (map es_id (sn_entities sn)) \<and> length (sn_entities sn) \<le> max_entities_create l"
proof -
  from assms obtain secs where "full_sections_loop s l secs False [] = Inr (sn_entities sn)"
    unfolding decode_full_snapshot_def decode_full_snapshot_from_packet_def Let_def
    by (auto simp only: res_simps snapshot.simps split: if_splits)
  with full_sections_sorted show ?thesis by fastforce
qed

end
