(* ===== verification/Delta_Diff.thy ===== *)
theory Delta_Diff
  imports Full_Snapshot
begin

text \<open>
  Comparing two snapshots (codec/src/delta.rs): the change predicate of a field with its threshold,
  the field mask of a component, whether an entity has updates, the counts of a diff and the choice
  of the update encoding.

  The scans of the code walk both entity lists with two indices or two iterators; here they recurse
  over the two lists, one equation per case of the \<^verbatim>\<open>match\<close>.  The scratch buffers are passed along
  explicitly; \<open>changed_mask\<close> below is the mask without them, and every scan is related to it, so
  that no result depends on what the buffers held.
\<close>

section \<open>Order checks\<close>

fun ensure_sorted_loop :: "u32 option \<Rightarrow> u32 list \<Rightarrow> codec_error + unit" where
  "ensure_sorted_loop prev [] = Inr ()"
| "ensure_sorted_loop prev (raw # ids) =
    (case prev of
       Some prev_id \<Rightarrow>
         if raw \<le> prev_id then Inl (InvalidEntityOrder prev_id raw)
         else ensure_sorted_loop (Some raw) ids
     | None \<Rightarrow> ensure_sorted_loop (Some raw) ids)"

definition ensure_entity_ids_sorted :: "entity_id list \<Rightarrow> codec_error + unit" where
  "ensure_entity_ids_sorted ids = ensure_sorted_loop None (map entity_raw ids)"

definition ensure_entities_sorted :: "entity_snapshot list \<Rightarrow> codec_error + unit" where
  "ensure_entities_sorted entities = ensure_sorted_loop None (map (\<lambda>e. entity_raw (es_id e)) entities)"

section \<open>Changed fields\<close>

definition type_mismatch :: "component_id \<Rightarrow> field_def \<Rightarrow> field_value \<Rightarrow> codec_error" where
  "type_mismatch component_id field current =
    InvalidValue component_id (fd_id field)
      (TypeMismatch (codec_name (fd_codec field)) (value_name current))"

fun field_differs ::
  "component_id \<Rightarrow> field_def \<Rightarrow> field_value \<Rightarrow> field_value \<Rightarrow> codec_error + bool" where
  "field_differs c f (BoolV a) (BoolV b) = Inr (a \<noteq> b)"
| "field_differs c f (UIntV a) (UIntV b) = Inr (a \<noteq> b)"
| "field_differs c f (SIntV a) (SIntV b) = Inr (a \<noteq> b)"
| "field_differs c f (VarUIntV a) (VarUIntV b) = Inr (a \<noteq> b)"
| "field_differs c f (VarSIntV a) (VarSIntV b) = Inr (a \<noteq> b)"
| "field_differs c f (FixedPointV a) (FixedPointV b) = Inr (a \<noteq> b)"
| "field_differs c f a b = Inl (type_mismatch c f b)"

text \<open>
  \<^verbatim>\<open>i64::unsigned_abs\<close> and \<^verbatim>\<open>u64::abs_diff\<close>.  The difference \<^verbatim>\<open>a - b\<close> that the code takes the absolute
  value of is the wrapping one of a release build.
\<close>

definition unsigned_abs :: "i64 \<Rightarrow> u64" where
  "unsigned_abs v = (if sint v < 0 then - v else v)"

definition abs_diff :: "u64 \<Rightarrow> u64 \<Rightarrow> u64" where
  "abs_diff a b = (if a < b then b - a else a - b)"

fun field_exceeds_threshold ::
  "component_id \<Rightarrow> field_def \<Rightarrow> field_value \<Rightarrow> field_value \<Rightarrow> u32 \<Rightarrow> codec_error + bool" where
  "field_exceeds_threshold c f (FixedPointV a) (FixedPointV b) q = Inr (unsigned_abs (a - b) > ucast q)"
| "field_exceeds_threshold c f (UIntV a) (UIntV b) q = Inr (abs_diff a b > ucast q)"
| "field_exceeds_threshold c f (SIntV a) (SIntV b) q = Inr (unsigned_abs (a - b) > ucast q)"
| "field_exceeds_threshold c f (VarUIntV a) (VarUIntV b) q = Inr (abs_diff a b > ucast q)"
| "field_exceeds_threshold c f (VarSIntV a) (VarSIntV b) q = Inr (unsigned_abs (a - b) > ucast q)"
| "field_exceeds_threshold c f (BoolV a) (BoolV b) q = Inr (a \<noteq> b)"
| "field_exceeds_threshold c f a b q = Inl (type_mismatch c f b)"

definition field_changed ::
  "component_id \<Rightarrow> field_def \<Rightarrow> field_value \<Rightarrow> field_value \<Rightarrow> codec_error + bool" where
  "field_changed c f a b =
    (case fd_change f of
       Always \<Rightarrow> field_differs c f a b
     | Threshold q \<Rightarrow> field_exceeds_threshold c f a b q)"

text \<open>The slots beyond the shortest of the zipped lists keep what they held.\<close>

fun field_mask_loop ::
  "component_id \<Rightarrow> field_def list \<Rightarrow> field_value list \<Rightarrow> field_value list \<Rightarrow> bool list \<Rightarrow>
    codec_error + bool list" where
  "field_mask_loop c (f # fs) (a # as) (b # bs) (slot # slots) =
    and_then (field_changed c f a b) (\<lambda>changed.
    and_then (field_mask_loop c fs as bs slots) (\<lambda>rest. Inr (changed # rest)))"
| "field_mask_loop c fs as bs slots = Inr slots"

definition compute_field_mask_into ::
  "component_def \<Rightarrow> component_snapshot \<Rightarrow> component_snapshot \<Rightarrow> bool list \<Rightarrow> codec_error + bool list" where
  "compute_field_mask_into component base cur slots =
    field_mask_loop (cd_id component) (cd_fields component) (cs_fields base) (cs_fields cur) slots"

text \<open>
  What each scan does with the scratch buffers for one component: take the two slices, fill the field
  slice, which stays in the buffer.
\<close>

definition store_field_mask :: "bool list \<Rightarrow> codec_scratch \<Rightarrow> codec_scratch" where
  "store_field_mask mbits sc = sc\<lparr>sc_field_mask := splice (sc_field_mask sc) 0 mbits\<rparr>"

definition scratch_field_mask ::
  "usize \<Rightarrow> component_def \<Rightarrow> component_snapshot \<Rightarrow> component_snapshot \<Rightarrow> codec_scratch \<Rightarrow>
    codec_error + bool list \<times> codec_scratch" where
  "scratch_field_mask component_count component base cur sc =
    (let (sc, _, slots) =
       component_and_field_masks_mut component_count (length (cd_fields component)) sc
     in and_then (compute_field_mask_into component base cur slots) (\<lambda>mbits.
       Inr (mbits, store_field_mask mbits sc)))"

section \<open>Matching components\<close>

text \<open>The checks that every scan makes on the two snapshots of a component.\<close>

definition check_field_counts ::
  "component_def \<Rightarrow> component_snapshot \<Rightarrow> component_snapshot \<Rightarrow> codec_limits \<Rightarrow> codec_error + unit" where
  "check_field_counts component base cur limits =
    (if length (cs_fields base) \<noteq> length (cd_fields component) \<or>
        length (cs_fields cur) \<noteq> length (cd_fields component) then
       Inl (InvalidMask (FieldMask (cd_id component))
         (FieldCountMismatch (length (cd_fields component))
           (max (length (cs_fields base)) (length (cs_fields cur)))))
     else if length (cd_fields component) > max_fields_per_component limits then
       Inl (CodecLimitsExceeded FieldsPerComponent (max_fields_per_component limits)
         (length (cd_fields component)))
     else Inr ())"

definition presence_mismatch :: "component_def \<Rightarrow> codec_error" where
  "presence_mismatch component =
    InvalidMask ComponentMask (ComponentPresenceMismatch (cd_id component))"

definition matched_component ::
  "component_def \<Rightarrow> entity_snapshot \<Rightarrow> entity_snapshot \<Rightarrow> codec_limits \<Rightarrow>
    codec_error + (component_snapshot \<times> component_snapshot) option" where
  "matched_component component base cur limits =
    (case (find_component base (cd_id component), find_component cur (cd_id component)) of
       (Some b, Some c) \<Rightarrow> and_then (check_field_counts component b c limits) (\<lambda>_. Inr (Some (b, c)))
     | (None, None) \<Rightarrow> Inr None
     | _ \<Rightarrow> Inl (presence_mismatch component))"

fun presence_loop ::
  "entity_snapshot \<Rightarrow> entity_snapshot \<Rightarrow> component_def list \<Rightarrow> codec_error + unit" where
  "presence_loop base cur [] = Inr ()"
| "presence_loop base cur (component # cs) =
    (if (find_component base (cd_id component) \<noteq> None) \<noteq> (find_component cur (cd_id component) \<noteq> None)
     then Inl (presence_mismatch component)
     else presence_loop base cur cs)"

definition ensure_component_presence_matches ::
  "schema \<Rightarrow> entity_snapshot \<Rightarrow> entity_snapshot \<Rightarrow> codec_error + unit" where
  "ensure_component_presence_matches s base cur = presence_loop base cur (components s)"

text \<open>The inner loop of \<open>entity_has_updates\<close> returns at the first changed field.\<close>

fun any_field_changed ::
  "component_id \<Rightarrow> field_def list \<Rightarrow> field_value list \<Rightarrow> field_value list \<Rightarrow> codec_error + bool" where
  "any_field_changed c (f # fs) (a # as) (b # bs) =
    and_then (field_changed c f a b) (\<lambda>changed.
      if changed then Inr True else any_field_changed c fs as bs)"
| "any_field_changed c fs as bs = Inr False"

fun has_updates_loop ::
  "codec_limits \<Rightarrow> entity_snapshot \<Rightarrow> entity_snapshot \<Rightarrow> component_def list \<Rightarrow> codec_error + bool" where
  "has_updates_loop limits base cur [] = Inr False"
| "has_updates_loop limits base cur (component # cs) =
    (case (find_component base (cd_id component), find_component cur (cd_id component)) of
       (Some b, Some c) \<Rightarrow>
         and_then (check_field_counts component b c limits) (\<lambda>_.
         and_then (any_field_changed (cd_id component) (cd_fields component) (cs_fields b) (cs_fields c))
           (\<lambda>changed. if changed then Inr True else has_updates_loop limits base cur cs))
     | _ \<Rightarrow> has_updates_loop limits base cur cs)"

definition entity_has_updates ::
  "schema \<Rightarrow> entity_snapshot \<Rightarrow> entity_snapshot \<Rightarrow> codec_limits \<Rightarrow> codec_error + bool" where
  "entity_has_updates s base cur limits =
    and_then (ensure_component_presence_matches s base cur) (\<lambda>_.
      has_updates_loop limits base cur (components s))"

section \<open>Counting the differences\<close>

record diff_counts =
  dc_creates :: usize
  dc_updates :: usize
  dc_destroys :: usize

definition diff_counts_default :: diff_counts where
  "diff_counts_default = \<lparr>dc_creates = 0, dc_updates = 0, dc_destroys = 0\<rparr>"

fun diff_counts_loop ::
  "schema \<Rightarrow> codec_limits \<Rightarrow> entity_snapshot list \<Rightarrow> entity_snapshot list \<Rightarrow> diff_counts \<Rightarrow>
    codec_error + diff_counts" where
  "diff_counts_loop s limits (b # bs) (c # cs) counts =
    (if entity_raw (es_id b) < entity_raw (es_id c) then
       diff_counts_loop s limits bs (c # cs) (counts\<lparr>dc_destroys := dc_destroys counts + 1\<rparr>)
     else if entity_raw (es_id b) > entity_raw (es_id c) then
       diff_counts_loop s limits (b # bs) cs (counts\<lparr>dc_creates := dc_creates counts + 1\<rparr>)
     else
       and_then (entity_has_updates s b c limits) (\<lambda>updated.
       diff_counts_loop s limits bs cs
         (if updated then counts\<lparr>dc_updates := dc_updates counts + 1\<rparr> else counts)))"
| "diff_counts_loop s limits (b # bs) [] counts =
    diff_counts_loop s limits bs [] (counts\<lparr>dc_destroys := dc_destroys counts + 1\<rparr>)"
| "diff_counts_loop s limits [] (c # cs) counts =
    diff_counts_loop s limits [] cs (counts\<lparr>dc_creates := dc_creates counts + 1\<rparr>)"
| "diff_counts_loop s limits [] [] counts = Inr counts"

definition diff_counts_of ::
  "schema \<Rightarrow> snapshot \<Rightarrow> snapshot \<Rightarrow> codec_limits \<Rightarrow> diff_counts \<Rightarrow> codec_error + diff_counts" where
  "diff_counts_of s baseline current limits counts =
    diff_counts_loop s limits (sn_entities baseline) (sn_entities current) counts"

section \<open>Choosing the update encoding\<close>

datatype update_encoding = Masked | Sparse

definition delta_varu32_len :: "u32 \<Rightarrow> usize" where
  "delta_varu32_len v =
    (if v < push_bit 7 1 then 1
     else if v < push_bit 14 1 then 2
     else if v < push_bit 21 1 then 3
     else if v < push_bit 28 1 then 4
     else 5)"

definition count_changed :: "bool list \<Rightarrow> usize" where
  "count_changed mbits = length (filter (\<lambda>b. b) mbits)"

text \<open>The width of a packed field index.\<close>

definition field_index_bits :: "component_def \<Rightarrow> u8" where
  "field_index_bits component =
    required_bits (of_nat (saturating_sub (length (cd_fields component)) 1))"

fun select_components_loop ::
  "usize \<Rightarrow> codec_limits \<Rightarrow> entity_snapshot \<Rightarrow> entity_snapshot \<Rightarrow> component_def list \<Rightarrow>
    usize \<Rightarrow> usize \<Rightarrow> codec_scratch \<Rightarrow> codec_error + usize \<times> usize \<times> codec_scratch" where
  "select_components_loop component_count limits base cur [] mask_bits sparse_bits sc =
    Inr (mask_bits, sparse_bits, sc)"
| "select_components_loop component_count limits base cur (component # cs) mask_bits sparse_bits sc =
    and_then (matched_component component base cur limits) (\<lambda>pair.
    case pair of
      Some (b, c) \<Rightarrow>
        and_then (scratch_field_mask component_count component b c sc) (\<lambda>(mbits, sc).
        let changed = count_changed mbits in
        if changed > 0 then
          let field_count = length (cd_fields component);
              index_bits = unat (field_index_bits component);
              mask_bits = mask_bits + field_count;
              sparse_bits = sparse_bits + index_bits * changed
                + delta_varu32_len (entity_raw (es_id cur)) * 8
                + delta_varu32_len (ucast (component_id_get (cd_id component))) * 8
                + delta_varu32_len (of_nat changed) * 8
          in select_components_loop component_count limits base cur cs mask_bits sparse_bits sc
        else select_components_loop component_count limits base cur cs mask_bits sparse_bits sc)
    | None \<Rightarrow> select_components_loop component_count limits base cur cs mask_bits sparse_bits sc)"

fun select_entities_loop ::
  "schema \<Rightarrow> codec_limits \<Rightarrow> entity_snapshot list \<Rightarrow> entity_snapshot list \<Rightarrow>
    usize \<Rightarrow> usize \<Rightarrow> codec_scratch \<Rightarrow> codec_error + usize \<times> usize \<times> codec_scratch" where
  "select_entities_loop s limits (base # bs) (cur # cs) mask_bits sparse_bits sc =
    (if es_id base < es_id cur then
       select_entities_loop s limits bs (cur # cs) mask_bits sparse_bits sc
     else if es_id base > es_id cur then
       select_entities_loop s limits (base # bs) cs mask_bits sparse_bits sc
     else
       and_then (select_components_loop (length (components s)) limits base cur (components s)
           mask_bits sparse_bits sc) (\<lambda>(mask_bits, sparse_bits, sc).
         select_entities_loop s limits bs cs mask_bits sparse_bits sc))"
| "select_entities_loop s limits bs cs mask_bits sparse_bits sc = Inr (mask_bits, sparse_bits, sc)"

definition select_update_encoding ::
  "schema \<Rightarrow> snapshot \<Rightarrow> snapshot \<Rightarrow> codec_limits \<Rightarrow> codec_scratch \<Rightarrow>
    codec_error + update_encoding \<times> codec_scratch" where
  "select_update_encoding s baseline current limits sc =
    and_then (select_entities_loop s limits (sn_entities baseline) (sn_entities current) 0 0 sc)
      (\<lambda>(mask_bits, sparse_bits, sc).
        if mask_bits = 0 then Inr (Masked, sc)
        else if sparse_bits \<le> mask_bits then Inr (Sparse, sc)
        else Inr (Masked, sc))"

section \<open>Counting the entries of a sparse update\<close>

fun count_components_loop ::
  "usize \<Rightarrow> codec_limits \<Rightarrow> entity_snapshot \<Rightarrow> entity_snapshot \<Rightarrow> component_def list \<Rightarrow>
    usize \<Rightarrow> codec_scratch \<Rightarrow> codec_error + usize \<times> codec_scratch" where
  "count_components_loop component_count limits base cur [] count sc = Inr (count, sc)"
| "count_components_loop component_count limits base cur (component # cs) count sc =
    and_then (matched_component component base cur limits) (\<lambda>pair.
    case pair of
      Some (b, c) \<Rightarrow>
        and_then (scratch_field_mask component_count component b c sc) (\<lambda>(mbits, sc).
        count_components_loop component_count limits base cur cs
          (if list_ex (\<lambda>b. b) mbits then count + 1 else count) sc)
    | None \<Rightarrow> count_components_loop component_count limits base cur cs count sc)"

fun count_entities_loop ::
  "schema \<Rightarrow> codec_limits \<Rightarrow> entity_snapshot list \<Rightarrow> entity_snapshot list \<Rightarrow>
    usize \<Rightarrow> codec_scratch \<Rightarrow> codec_error + usize \<times> codec_scratch" where
  "count_entities_loop s limits (base # bs) (cur # cs) count sc =
    (if es_id base < es_id cur then count_entities_loop s limits bs (cur # cs) count sc
     else if es_id base > es_id cur then count_entities_loop s limits (base # bs) cs count sc
     else
       and_then (entity_has_updates s base cur limits) (\<lambda>updated.
       and_then
         (if updated then
            count_components_loop (length (components s)) limits base cur (components s) count sc
          else Inr (count, sc)) (\<lambda>(count, sc).
         count_entities_loop s limits bs cs count sc)))"
| "count_entities_loop s limits bs cs count sc = Inr (count, sc)"

definition count_sparse_update_entries ::
  "schema \<Rightarrow> snapshot \<Rightarrow> snapshot \<Rightarrow> codec_limits \<Rightarrow> codec_scratch \<Rightarrow>
    codec_error + usize \<times> codec_scratch" where
  "count_sparse_update_entries s baseline current limits sc =
    count_entities_loop s limits (sn_entities baseline) (sn_entities current) 0 sc"

section \<open>The mask without the scratch buffers\<close>

definition changed_mask ::
  "component_def \<Rightarrow> component_snapshot \<Rightarrow> component_snapshot \<Rightarrow> codec_error + bool list" where
  "changed_mask component base cur =
    compute_field_mask_into component base cur (replicate (length (cd_fields component)) False)"

lemma field_mask_loop_slots:
  "length as = length fs \<Longrightarrow> length bs = length fs \<Longrightarrow> length slots = length fs \<Longrightarrow>
    length slots' = length fs \<Longrightarrow> field_mask_loop c fs as bs slots = field_mask_loop c fs as bs slots'"
proof (induction c fs as bs slots arbitrary: slots' rule: field_mask_loop.induct)
  case (1 c f fs a as b bs slot slots)
  from "1.prems" obtain x xs where slots': "slots' = x # xs" by (cases slots') auto
  show ?case
  proof (cases "field_changed c f a b")
    case (Inr y)
    have "field_mask_loop c fs as bs slots = field_mask_loop c fs as bs xs"
      by (rule "1.IH" [OF Inr]) (use "1.prems" slots' in simp_all)
    with Inr slots' show ?thesis by simp
  qed (simp add: slots')
qed simp_all

lemma field_mask_loop_length: "field_mask_loop c fs as bs slots = Inr m \<Longrightarrow> length m = length slots"
  by (induction c fs as bs slots arbitrary: m rule: field_mask_loop.induct) (auto simp: res_simps)

lemma check_field_counts_Inr:
  "check_field_counts component base cur limits = Inr u \<longleftrightarrow>
    length (cs_fields base) = length (cd_fields component) \<and>
    length (cs_fields cur) = length (cd_fields component) \<and>
    length (cd_fields component) \<le> max_fields_per_component limits"
  by (auto simp: check_field_counts_def)

text \<open>The value of a result, mapped: it forgets the buffers that come back with it.\<close>

fun map_ok :: "('a \<Rightarrow> 'b) \<Rightarrow> 'e + 'a \<Rightarrow> 'e + 'b" where
  "map_ok f (Inl e) = Inl e"
| "map_ok f (Inr x) = Inr (f x)"

lemma map_ok_Inr_iff [res_simps]: "map_ok f m = Inr y \<longleftrightarrow> (\<exists>x. m = Inr x \<and> y = f x)"
  by (cases m) auto

lemma map_ok_and_then: "map_ok f (and_then m g) = and_then m (\<lambda>x. map_ok f (g x))"
  by (cases m) auto

lemma map_ok_threaded:
  assumes "map_ok fst m = m'" and "\<And>x t. map_ok f (g x t) = g' x"
  shows "map_ok f (and_then m (\<lambda>(x, t). g x t)) = and_then m' g'"
  using assms by (cases m) auto

lemma splice_0_full: "length ys = length xs \<Longrightarrow> splice xs 0 ys = ys"
  by (simp add: splice_def)

lemma scratch_field_mask_changed:
  assumes "check_field_counts component b c limits = Inr u"
  shows "map_ok fst (scratch_field_mask n component b c sc) = changed_mask component b c"
proof -
  obtain sc' slots' slots where m:
    "component_and_field_masks_mut n (length (cd_fields component)) sc = (sc', slots', slots)"
    by (cases "component_and_field_masks_mut n (length (cd_fields component)) sc") auto
  then have "length slots = length (cd_fields component)" using scratch_slices_length by blast
  with assms have "compute_field_mask_into component b c slots = changed_mask component b c"
    unfolding compute_field_mask_into_def changed_mask_def check_field_counts_Inr
    by (intro field_mask_loop_slots) simp_all
  with m show ?thesis
    by (cases "changed_mask component b c") (simp_all add: scratch_field_mask_def)
qed

lemma matched_component_Some:
  "matched_component component base cur limits = Inr (Some (b, c)) \<longleftrightarrow>
    find_component base (cd_id component) = Some b \<and> find_component cur (cd_id component) = Some c \<and>
    check_field_counts component b c limits = Inr ()"
  by (auto simp: matched_component_def res_simps split: option.splits)

lemma matched_component_None:
  "matched_component component base cur limits = Inr None \<longleftrightarrow>
    find_component base (cd_id component) = None \<and> find_component cur (cd_id component) = None"
  by (auto simp: matched_component_def res_simps split: option.splits)

end
