(* ===== verification/Varint_Writers.thy ===== *)
theory Varint_Writers
  imports Delta_Diff Bit_Vec_Writer
begin

text \<open>
  The varint loops of the writers in closed form: how many bytes a 32-bit value takes, which bytes they
  are, and where each loop puts them.  The four loops (\<^verbatim>\<open>write_varu32\<close> of the bounded and of the growing
  bit writer, \<^verbatim>\<open>write_varu32\<close> of wire/src/packet.rs and of codec/src/snapshot.rs) write the same bytes;
  the checked ones stop where the buffer ends.
\<close>

text \<open>The seven-bit groups of a value, low group first, the continuation bit on all but the last.\<close>

definition varint_bytes :: "u32 \<Rightarrow> usize \<Rightarrow> u8 list" where
  "varint_bytes v n =
    map (\<lambda>i. let group = ucast (drop_bit (7 * i) v AND 0x7F) in if i + 1 < n then group OR 0x80 else group) [0..<n]"

lemma length_varint_bytes [simp]: "length (varint_bytes v n) = n"
  by (simp add: varint_bytes_def)

lemma varint_bytes_Suc:
  "varint_bytes v (Suc n) =
    (let group = ucast (v AND 0x7F) in if 0 < n then group OR 0x80 else group) # varint_bytes (drop_bit 7 v) n"
  by (simp add: varint_bytes_def map_upt_Suc Let_def add.commute del: upt_Suc)

lemma varint_encode_bytes: "varint_encode v = varint_bytes v (length (varint_encode v))"
proof (induction v rule: varint_encode.induct)
  case (1 v)
  have "length (varint_encode v) = Suc (if drop_bit 7 v = 0 then 0 else length (varint_encode (drop_bit 7 v)))"
    by (subst varint_encode.simps) simp
  moreover have "varint_encode v = varint_byte v # (if drop_bit 7 v = 0 then [] else varint_encode (drop_bit 7 v))"
    by (rule varint_encode.simps)
  ultimately show ?case
    using 1 by (simp add: varint_bytes_Suc varint_byte_def Let_def varint_length) (simp add: varint_bytes_def)
qed

lemma varint_encode_closed: "varint_encode v = varint_bytes v (varu32_len v)"
  unfolding varu32_len_length by (rule varint_encode_bytes)

text \<open>How many groups there are: the length is the least with which the value fits.\<close>

lemma varint_encode_fits: "unat v < 2 ^ (7 * length (varint_encode v)) \<and>
    (1 < length (varint_encode v) \<longrightarrow> 2 ^ (7 * (length (varint_encode v) - 1)) \<le> unat v)"
proof (induction v rule: varint_encode.induct)
  case (1 v)
  have div: "unat (drop_bit 7 v) = unat v div 2 ^ 7" unfolding unat_drop_bit_eq by (simp add: drop_bit_eq_div)
  show ?case
  proof (cases "drop_bit 7 v = 0")
    case True
    with div have "unat v < 2 ^ 7" by simp
    with True show ?thesis by (subst (1 2 3) varint_encode.simps) simp
  next
    case False
    let ?n = "length (varint_encode (drop_bit 7 v))"
    have n: "length (varint_encode v) = Suc ?n" using False by (subst varint_encode.simps) simp
    from 1 [OF False] div have hi: "unat v div 2 ^ 7 < 2 ^ (7 * ?n)"
      and lo: "1 < ?n \<Longrightarrow> 2 ^ (7 * (?n - 1)) \<le> unat v div 2 ^ 7" by simp_all
    from hi have "unat v < 2 ^ (7 * ?n) * 2 ^ 7" by (simp add: div_less_iff_less_mult)
    then have "unat v < 2 ^ (7 * Suc ?n)" by (simp add: power_add)
    moreover have "2 ^ (7 * ?n) \<le> unat v"
    proof (cases "1 < ?n")
      case True
      from lo [OF True] have "2 ^ (7 * (?n - 1)) * 2 ^ 7 \<le> unat v" by (simp add: less_eq_div_iff_mult_less_eq)
      moreover have "(2 :: nat) ^ (7 * (?n - 1)) * 2 ^ 7 = 2 ^ (7 * ?n)"
        using True by (cases ?n) (simp_all add: power_add)
      ultimately show ?thesis by simp
    next
      case f: False
      moreover have "0 < ?n" by (rule varint_length(2))
      ultimately have "?n = 1" by linarith
      moreover have "unat v div 2 ^ 7 \<noteq> 0" using False div by (metis unat_eq_zero)
      ultimately show ?thesis by (simp add: div_eq_0_iff not_less)
    qed
    ultimately show ?thesis by (simp add: n)
  qed
qed

text \<open>The estimate with which the delta encoder compares its two update bodies is the length written.\<close>

lemma delta_varu32_len_closed: "delta_varu32_len v = varu32_len v"
proof -
  let ?n = "length (varint_encode v)"
  have bounds: "v < push_bit 7 1 \<longleftrightarrow> unat v < 2 ^ 7" "v < push_bit 14 1 \<longleftrightarrow> unat v < 2 ^ 14"
    "v < push_bit 21 1 \<longleftrightarrow> unat v < 2 ^ 21" "v < push_bit 28 1 \<longleftrightarrow> unat v < 2 ^ 28"
    by (simp_all add: word_less_nat_alt push_bit_eq_mult)
  have "?n \<in> {1, 2, 3, 4, 5}" using varint_length [of v] by (simp add: le_Suc_eq numeral_eq_Suc)
  with varint_encode_fits [of v] show ?thesis
    unfolding delta_varu32_len_def varu32_len_length bounds by auto
qed

section \<open>The loops\<close>

lemma splice_whole: "k + length bs \<le> length out \<Longrightarrow> splice out k bs = take k out @ bs @ drop (k + length bs) out"
  by (simp add: splice_def)

lemma packet_write_loop_overflow:
  "length out < base + offset + length (varint_encode v) \<Longrightarrow> packet_write_varu32_loop v out base offset = None"
proof (induction v out base offset rule: packet_write_varu32_loop.induct)
  case (1 v out base offset)
  then show ?case
    by (subst packet_write_varu32_loop.simps, subst (asm) (3) varint_encode.simps) (auto simp: Let_def)
qed

lemma section_write_loop_closed:
  "section_write_varu32_loop v out k =
    (if k + varu32_len v \<le> length out
     then Some (take k out @ varint_bytes v (varu32_len v) @ drop (k + varu32_len v) out) else None)"
proof (cases "k + varu32_len v \<le> length out")
  case True
  with packet_write_varu32_loop_splice [of 0 k v out] show ?thesis
    by (simp add: section_write_is_packet_write varu32_len_length splice_whole varint_encode_bytes [symmetric])
next
  case False
  with packet_write_loop_overflow [of out 0 k v] show ?thesis
    by (simp add: section_write_is_packet_write varu32_len_length)
qed

lemma packet_write_closed:
  "packet_write_varu32 v out base =
    (if base + varu32_len v \<le> length out
     then Some (varu32_len v, take base out @ varint_bytes v (varu32_len v) @ drop (base + varu32_len v) out)
     else None)"
  using packet_write_varu32_loop_splice [of base 0 v out] packet_write_loop_overflow [of out base 0 v]
  by (simp add: packet_write_varu32_def varu32_len_length splice_whole varint_encode_bytes [symmetric])

lemma write_u8_aligned_room:
  "bw_pos w mod 8 = 0 \<Longrightarrow> write_u8_aligned b w =
    (if bw_pos w + 8 \<le> bit_capacity (bw_buf w)
     then Inr (w\<lparr>bw_buf := (bw_buf w)[bw_pos w div 8 := b], bw_pos := bw_pos w + 8\<rparr>)
     else Inl (WriteOverflow 8 (writer_bits_remaining w)))"
  by (auto simp: write_u8_aligned_def writer_ensure_aligned_def writer_ensure_bits_def writer_bits_remaining_def
      saturating_sub_def bit_capacity_def Let_def)

lemma write_bytes_room:
  "bw_pos w = 8 * k \<Longrightarrow> 8 * (k + length bs) \<le> bit_capacity (bw_buf w) \<Longrightarrow> try_fold write_u8_aligned bs w =
    Inr (w\<lparr>bw_buf := splice (bw_buf w) k bs, bw_pos := 8 * (k + length bs)\<rparr>)"
proof (induction bs arbitrary: w k)
  case (Cons b bs)
  let ?w = "w\<lparr>bw_buf := (bw_buf w)[k := b], bw_pos := 8 * Suc k\<rparr>"
  have step: "write_u8_aligned b w = Inr ?w" using Cons.prems by (simp add: write_u8_aligned_room)
  have "try_fold write_u8_aligned bs ?w =
      Inr (?w\<lparr>bw_buf := splice (bw_buf ?w) (Suc k) bs, bw_pos := 8 * (Suc k + length bs)\<rparr>)"
    using Cons.prems by (intro Cons.IH) (simp_all add: bit_capacity_def)
  moreover have "splice ((bw_buf w)[k := b]) (Suc k) bs = splice (bw_buf w) k (b # bs)"
    using Cons.prems(2) bit_capacity_le [of "bw_buf w"]
    by (simp add: splice_def upd_conv_take_nth_drop take_Suc_conv_app_nth min_def ac_simps)
  ultimately show ?case by (simp add: step)
qed (simp add: splice_def)

lemma write_bytes_no_room:
  "bw_pos w = 8 * k \<Longrightarrow> bit_capacity (bw_buf w) < 8 * (k + length bs) \<Longrightarrow> bs \<noteq> [] \<Longrightarrow>
    \<exists>e. try_fold write_u8_aligned bs w = Inl e"
proof (induction bs arbitrary: w k)
  case (Cons b bs)
  show ?case
  proof (cases "8 * Suc k \<le> bit_capacity (bw_buf w)")
    case True
    let ?w = "w\<lparr>bw_buf := (bw_buf w)[k := b], bw_pos := 8 * k + 8\<rparr>"
    have "bs \<noteq> []" using True Cons.prems by auto
    with Cons.prems Cons.IH [of ?w "Suc k"] True show ?thesis
      by (simp add: write_u8_aligned_room bit_capacity_def)
  qed (use Cons.prems in \<open>simp add: write_u8_aligned_room\<close>)
qed simp

lemma write_varu32_closed:
  "if bw_pos w mod 8 = 0 \<and> bw_pos w + 8 * varu32_len v \<le> bit_capacity (bw_buf w)
   then write_varu32 v w = Inr (w\<lparr>
     bw_buf := splice (bw_buf w) (bw_pos w div 8) (varint_bytes v (varu32_len v)),
     bw_pos := bw_pos w + 8 * varu32_len v\<rparr>)
   else \<exists>e. write_varu32 v w = Inl e"
proof (cases "bw_pos w mod 8 = 0")
  case True
  then have k: "bw_pos w = 8 * (bw_pos w div 8)" by auto
  have "varint_encode v \<noteq> []" using varint_length(2) [of v] by auto
  with True write_bytes_room [OF k, of "varint_encode v"] write_bytes_no_room [OF k, of "varint_encode v"] k
  show ?thesis
    by (auto simp: write_varu32_def writer_ensure_aligned_def write_varu32_loop_bytes varu32_len_length
        varint_encode_bytes [symmetric] not_le distrib_left)
qed (simp add: write_varu32_def writer_ensure_aligned_def)

section \<open>What the packet reader accepts\<close>

text \<open>
  A fifth byte that carries bits beyond the 32nd is not refused: these bits are shifted out.  The bytes
  below spell the number 7 * 2 ^ 32, and are read as 0.
\<close>

lemma overflowing_length_read: "packet_read_varu32 [128, 128, 128, 128, 112] 0 = Inr (0, 5)"
  by code_simp

end
