(* ===== verification/Delta_Decode.thy ===== *)
theory Delta_Decode
  imports Full_Snapshot
begin

text \<open>
  Decoding delta packets (codec/src/delta.rs): the destroy, create and three update sections, and the
  sections of a packet together.  The two sparse update sections differ in how they read the head of an
  entry and a field index; they are instances of one loop here.
\<close>

section \<open>The decoded updates\<close>

record delta_update_component =
  uc_id :: component_id
  uc_fields :: "(usize \<times> field_value) list"

record delta_update_entity =
  ue_id :: entity_id
  ue_components :: "delta_update_component list"

record delta_decoded =
  dd_tick :: snapshot_tick
  dd_baseline_tick :: snapshot_tick
  dd_destroys :: "entity_id list"
  dd_creates :: "entity_snapshot list"
  dd_updates :: "delta_update_entity list"

section \<open>What every section shares\<close>

definition check_section_bytes :: "u8 list \<Rightarrow> codec_limits \<Rightarrow> codec_error + unit" where
  "check_section_bytes body limits =
    (if length body > max_section_bytes limits then
       Inl (CodecLimitsExceeded SectionBytes (max_section_bytes limits) (length body))
     else Inr ())"

text \<open>The opening of a section body: the count of its entries, checked against a limit.\<close>

definition read_section_count ::
  "u8 list \<Rightarrow> codec_limit_kind \<Rightarrow> usize \<Rightarrow> codec_error + usize \<times> bit_reader" where
  "read_section_count body kind limit =
    and_then (lift_bit (reader_align_to_byte (reader_new body))) (\<lambda>r.
    and_then (lift_bit (read_varu32 r)) (\<lambda>(raw, r).
    let count = unat raw in
    if count > limit then Inl (CodecLimitsExceeded kind limit count) else Inr (count, r)))"

definition check_trailing :: "section_tag \<Rightarrow> bit_reader \<Rightarrow> codec_error + unit" where
  "check_trailing tag r =
    and_then (lift_bit (reader_align_to_byte r)) (\<lambda>r.
    if reader_bits_remaining r \<noteq> 0 then Inl (TrailingSectionData tag (reader_bits_remaining r))
    else Inr ())"

text \<open>The id that starts an entity of the destroy, create and masked update sections.\<close>

definition read_ordered_id :: "u32 option \<Rightarrow> bit_reader \<Rightarrow> codec_error + u32 \<times> bit_reader" where
  "read_ordered_id prev r =
    and_then (lift_bit (reader_align_to_byte r)) (\<lambda>r.
    and_then (lift_bit (read_u32_aligned r)) (\<lambda>(raw, r).
    case prev of
      Some prev_id \<Rightarrow> if raw \<le> prev_id then Inl (InvalidEntityOrder prev_id raw) else Inr (raw, r)
    | None \<Rightarrow> Inr (raw, r)))"

section \<open>Destroys and creates\<close>

fun decode_destroy_loop ::
  "nat \<Rightarrow> u32 option \<Rightarrow> bit_reader \<Rightarrow> codec_error + entity_id list \<times> bit_reader" where
  "decode_destroy_loop 0 prev r = Inr ([], r)"
| "decode_destroy_loop (Suc n) prev r =
    and_then (read_ordered_id prev r) (\<lambda>(raw, r).
    and_then (decode_destroy_loop n (Some raw) r) (\<lambda>(ids, r). Inr (EntityId raw # ids, r)))"

definition decode_destroy_section :: "u8 list \<Rightarrow> codec_limits \<Rightarrow> codec_error + entity_id list" where
  "decode_destroy_section body limits =
    and_then (check_section_bytes body limits) (\<lambda>_.
    and_then (read_section_count body EntitiesDestroy (max_entities_destroy limits)) (\<lambda>(count, r).
    and_then (decode_destroy_loop count None r) (\<lambda>(ids, r).
    and_then (check_trailing EntityDestroy r) (\<lambda>_. Inr ids))))"

definition decode_full_component ::
  "component_def \<Rightarrow> bit_reader \<Rightarrow> codec_limits \<Rightarrow> codec_error + field_value list \<times> bit_reader" where
  "decode_full_component component r limits =
    (if length (cd_fields component) > max_fields_per_component limits then
       Inl (CodecLimitsExceeded FieldsPerComponent (max_fields_per_component limits)
         (length (cd_fields component)))
     else
       and_then (read_mask r (length (cd_fields component)) (FieldMask (cd_id component)))
         (\<lambda>(mbits, r). decode_fields_loop component (cd_fields component) mbits r))"

text \<open>The loop \<^verbatim>\<open>for (idx, component) in schema.components.iter().enumerate()\<close> of creates and updates.\<close>

fun masked_components_loop ::
  "(component_def \<Rightarrow> bit_reader \<Rightarrow> codec_error + 'a \<times> bit_reader) \<Rightarrow> component_def list \<Rightarrow> bool list \<Rightarrow>
    bit_reader \<Rightarrow> codec_error + (component_id \<times> 'a) list \<times> bit_reader" where
  "masked_components_loop read_component (component # cs) (present # mbits) r =
    (if present then
       and_then (read_component component r) (\<lambda>(fds, r).
       and_then (masked_components_loop read_component cs mbits r) (\<lambda>(rest, r).
         Inr ((cd_id component, fds) # rest, r)))
     else masked_components_loop read_component cs mbits r)"
| "masked_components_loop read_component cs mbits r = Inr ([], r)"

fun delta_decode_create_loop ::
  "schema \<Rightarrow> codec_limits \<Rightarrow> nat \<Rightarrow> u32 option \<Rightarrow> bit_reader \<Rightarrow>
    codec_error + entity_snapshot list \<times> bit_reader" where
  "delta_decode_create_loop s limits 0 prev r = Inr ([], r)"
| "delta_decode_create_loop s limits (Suc n) prev r =
    and_then (read_ordered_id prev r) (\<lambda>(raw, r).
    and_then (read_mask r (length (components s)) ComponentMask) (\<lambda>(mbits, r).
    and_then (masked_components_loop (\<lambda>c r. decode_full_component c r limits) (components s) mbits r)
      (\<lambda>(cs, r).
    let entity = \<lparr>es_id = EntityId raw,
          es_components = map (\<lambda>(i, fds). \<lparr>cs_id = i, cs_fields = fds\<rparr>) cs\<rparr> in
    and_then (ensure_known_components s entity) (\<lambda>_.
    and_then (delta_decode_create_loop s limits n (Some raw) r) (\<lambda>(es, r). Inr (entity # es, r))))))"

definition delta_decode_create_section ::
  "schema \<Rightarrow> u8 list \<Rightarrow> codec_limits \<Rightarrow> codec_error + entity_snapshot list" where
  "delta_decode_create_section s body limits =
    and_then (check_section_bytes body limits) (\<lambda>_.
    and_then (read_section_count body EntitiesCreate (max_entities_create limits)) (\<lambda>(count, r).
    and_then (delta_decode_create_loop s limits count None r) (\<lambda>(es, r).
    and_then (check_trailing EntityCreate r) (\<lambda>_. Inr es))))"

section \<open>Masked updates\<close>

text \<open>The loop over \<^verbatim>\<open>component.fields.iter().enumerate()\<close>, with \<^verbatim>\<open>mask[idx]\<close> beside the field.\<close>

fun read_update_fields ::
  "component_id \<Rightarrow> usize \<Rightarrow> field_def list \<Rightarrow> bool list \<Rightarrow> bit_reader \<Rightarrow>
    codec_error + (usize \<times> field_value) list \<times> bit_reader" where
  "read_update_fields c idx (field # fs) (changed # mbits) r =
    (if changed then
       and_then (read_field_value c field r) (\<lambda>(v, r).
       and_then (read_update_fields c (Suc idx) fs mbits r) (\<lambda>(rest, r). Inr ((idx, v) # rest, r)))
     else read_update_fields c (Suc idx) fs mbits r)"
| "read_update_fields c idx fs mbits r = Inr ([], r)"

definition decode_update_component ::
  "component_def \<Rightarrow> bit_reader \<Rightarrow> codec_limits \<Rightarrow>
    codec_error + (usize \<times> field_value) list \<times> bit_reader" where
  "decode_update_component component r limits =
    (if length (cd_fields component) > max_fields_per_component limits then
       Inl (CodecLimitsExceeded FieldsPerComponent (max_fields_per_component limits)
         (length (cd_fields component)))
     else
       and_then (read_mask r (length (cd_fields component)) (FieldMask (cd_id component))) (\<lambda>(mbits, r).
       if \<not> list_ex (\<lambda>b. b) mbits then
         Inl (InvalidMask (FieldMask (cd_id component)) (EmptyFieldMask (cd_id component)))
       else read_update_fields (cd_id component) 0 (cd_fields component) mbits r))"

fun decode_masked_loop ::
  "schema \<Rightarrow> codec_limits \<Rightarrow> nat \<Rightarrow> u32 option \<Rightarrow> bit_reader \<Rightarrow>
    codec_error + delta_update_entity list \<times> bit_reader" where
  "decode_masked_loop s limits 0 prev r = Inr ([], r)"
| "decode_masked_loop s limits (Suc n) prev r =
    and_then (read_ordered_id prev r) (\<lambda>(raw, r).
    and_then (read_mask r (length (components s)) ComponentMask) (\<lambda>(mbits, r).
    and_then (masked_components_loop (\<lambda>c r. decode_update_component c r limits) (components s) mbits r)
      (\<lambda>(cs, r).
    and_then (decode_masked_loop s limits n (Some raw) r) (\<lambda>(us, r).
      Inr (\<lparr>ue_id = EntityId raw,
            ue_components = map (\<lambda>(i, fds). \<lparr>uc_id = i, uc_fields = fds\<rparr>) cs\<rparr> # us, r)))))"

definition decode_update_section_masked ::
  "schema \<Rightarrow> u8 list \<Rightarrow> codec_limits \<Rightarrow> codec_error + delta_update_entity list" where
  "decode_update_section_masked s body limits =
    and_then (check_section_bytes body limits) (\<lambda>_.
    and_then (read_section_count body EntitiesUpdate (max_entities_update limits)) (\<lambda>(count, r).
    and_then (decode_masked_loop s limits count None r) (\<lambda>(us, r).
    and_then (check_trailing EntityUpdate r) (\<lambda>_. Inr us))))"

section \<open>Sparse updates\<close>

definition read_head_varint :: "bit_reader \<Rightarrow> codec_error + (u32 \<times> u16) \<times> bit_reader" where
  "read_head_varint r =
    and_then (lift_bit (reader_align_to_byte r)) (\<lambda>r.
    and_then (lift_bit (read_u32_aligned r)) (\<lambda>(eid, r).
    and_then (lift_bit (read_u16_aligned r)) (\<lambda>(raw, r). Inr ((eid, raw), r))))"

definition read_index_varint :: "component_def \<Rightarrow> bit_reader \<Rightarrow> codec_error + usize \<times> bit_reader" where
  "read_index_varint component r =
    and_then (lift_bit (reader_align_to_byte r)) (\<lambda>r.
    and_then (lift_bit (read_varu32 r)) (\<lambda>(raw, r). Inr (unat raw, r)))"

definition read_head_packed :: "bit_reader \<Rightarrow> codec_error + (u32 \<times> u16) \<times> bit_reader" where
  "read_head_packed r =
    and_then (lift_bit (reader_align_to_byte r)) (\<lambda>r.
    and_then (lift_bit (read_varu32 r)) (\<lambda>(eid, r).
    and_then (lift_bit (read_varu32 r)) (\<lambda>(raw, r).
    if raw > 0xFFFF then Inl (InvalidMask ComponentMask (InvalidComponentId 0xFFFF))
    else Inr ((eid, ucast raw), r))))"

definition read_index_packed :: "component_def \<Rightarrow> bit_reader \<Rightarrow> codec_error + usize \<times> bit_reader" where
  "read_index_packed component r =
    (let index_bits =
       required_bits (of_nat (saturating_sub (length (cd_fields component)) 1))
     in if index_bits = 0 then Inr (0, r)
        else and_then (lift_bit (read_bits index_bits r)) (\<lambda>(raw, r). Inr (unat raw, r)))"

definition check_entry_order ::
  "u32 option \<Rightarrow> u16 option \<Rightarrow> u32 \<Rightarrow> u16 \<Rightarrow> codec_error + unit" where
  "check_entry_order prev_entity prev_component eid raw =
    (case prev_entity of
       Some prev \<Rightarrow>
         if eid < prev then Inl (InvalidEntityOrder prev eid)
         else if eid = prev then
           (case prev_component of
              Some prev_raw \<Rightarrow> if raw \<le> prev_raw then Inl (InvalidEntityOrder prev eid) else Inr ()
            | None \<Rightarrow> Inr ())
         else Inr ()
     | None \<Rightarrow> Inr ())"

definition check_field_count :: "component_def \<Rightarrow> usize \<Rightarrow> codec_limits \<Rightarrow> codec_error + unit" where
  "check_field_count component field_count limits =
    (if field_count = 0 then
       Inl (InvalidMask (FieldMask (cd_id component)) (EmptyFieldMask (cd_id component)))
     else if field_count > max_fields_per_component limits then
       Inl (CodecLimitsExceeded FieldsPerComponent (max_fields_per_component limits) field_count)
     else if field_count > length (cd_fields component) then
       Inl (InvalidMask (FieldMask (cd_id component))
         (FieldCountMismatch (length (cd_fields component)) field_count))
     else Inr ())"

fun read_sparse_fields ::
  "(component_def \<Rightarrow> bit_reader \<Rightarrow> codec_error + usize \<times> bit_reader) \<Rightarrow> component_def \<Rightarrow> nat \<Rightarrow>
    usize option \<Rightarrow> bit_reader \<Rightarrow> codec_error + (usize \<times> field_value) list \<times> bit_reader" where
  "read_sparse_fields read_index component 0 prev_index r = Inr ([], r)"
| "read_sparse_fields read_index component (Suc n) prev_index r =
    and_then (read_index component r) (\<lambda>(field_index, r).
    if field_index \<ge> length (cd_fields component) then
      Inl (InvalidMask (FieldMask (cd_id component))
        (InvalidFieldIndex field_index (length (cd_fields component))))
    else if (case prev_index of Some prev \<Rightarrow> field_index \<le> prev | None \<Rightarrow> False) then
      Inl (InvalidMask (FieldMask (cd_id component))
        (InvalidFieldIndex field_index (length (cd_fields component))))
    else
      let field = cd_fields component ! field_index in
      and_then (read_field_value_sparse (cd_id component) field r) (\<lambda>(v, r).
      and_then (read_sparse_fields read_index component n (Some field_index) r) (\<lambda>(rest, r).
        Inr ((field_index, v) # rest, r))))"

text \<open>The last entity of the list gets the component when it has the entry's id.\<close>

definition push_update ::
  "u32 \<Rightarrow> delta_update_component \<Rightarrow> delta_update_entity list \<Rightarrow> delta_update_entity list" where
  "push_update eid component updates =
    (if updates \<noteq> [] \<and> entity_raw (ue_id (last updates)) = eid then
       butlast updates @
         [(last updates)\<lparr>ue_components := ue_components (last updates) @ [component]\<rparr>]
     else updates @ [\<lparr>ue_id = EntityId eid, ue_components = [component]\<rparr>])"

fun decode_sparse_loop ::
  "(bit_reader \<Rightarrow> codec_error + (u32 \<times> u16) \<times> bit_reader) \<Rightarrow>
    (component_def \<Rightarrow> bit_reader \<Rightarrow> codec_error + usize \<times> bit_reader) \<Rightarrow> schema \<Rightarrow> codec_limits \<Rightarrow>
    nat \<Rightarrow> u32 option \<Rightarrow> u16 option \<Rightarrow> delta_update_entity list \<Rightarrow> bit_reader \<Rightarrow>
    codec_error + delta_update_entity list \<times> bit_reader" where
  "decode_sparse_loop read_head read_index s limits 0 prev_entity prev_component updates r =
    Inr (updates, r)"
| "decode_sparse_loop read_head read_index s limits (Suc n) prev_entity prev_component updates r =
    and_then (read_head r) (\<lambda>((eid, raw), r).
    and_then (ok_or (InvalidMask ComponentMask (InvalidComponentId raw)) (component_id_new raw)) (\<lambda>cid.
    and_then (check_entry_order prev_entity prev_component eid raw) (\<lambda>_.
    and_then (ok_or (InvalidMask ComponentMask (UnknownComponent cid))
      (find (\<lambda>component. cd_id component = cid) (components s))) (\<lambda>component.
    and_then (lift_bit (read_varu32 r)) (\<lambda>(raw_count, r).
    let field_count = unat raw_count in
    and_then (check_field_count component field_count limits) (\<lambda>_.
    and_then (read_sparse_fields read_index component field_count None r) (\<lambda>(fds, r).
    decode_sparse_loop read_head read_index s limits n (Some eid) (Some raw)
      (push_update eid \<lparr>uc_id = cd_id component, uc_fields = fds\<rparr> updates) r)))))))"

definition decode_update_section_sparse ::
  "(bit_reader \<Rightarrow> codec_error + (u32 \<times> u16) \<times> bit_reader) \<Rightarrow>
    (component_def \<Rightarrow> bit_reader \<Rightarrow> codec_error + usize \<times> bit_reader) \<Rightarrow> section_tag \<Rightarrow> schema \<Rightarrow>
    u8 list \<Rightarrow> codec_limits \<Rightarrow> codec_error + delta_update_entity list" where
  "decode_update_section_sparse read_head read_index tag s body limits =
    and_then (check_section_bytes body limits) (\<lambda>_.
    and_then (read_section_count body EntitiesUpdate
      (saturating_mul (max_entities_update limits) (max_components_per_entity limits))) (\<lambda>(count, r).
    and_then (decode_sparse_loop read_head read_index s limits count None None [] r) (\<lambda>(updates, r).
    and_then (check_trailing tag r) (\<lambda>_.
    let unique_entities = length updates in
    if unique_entities > max_entities_update limits then
      Inl (CodecLimitsExceeded EntitiesUpdate (max_entities_update limits) unique_entities)
    else Inr updates))))"

definition decode_update_section_sparse_varint ::
  "schema \<Rightarrow> u8 list \<Rightarrow> codec_limits \<Rightarrow> codec_error + delta_update_entity list" where
  "decode_update_section_sparse_varint =
    decode_update_section_sparse read_head_varint read_index_varint EntityUpdateSparse"

definition decode_update_section_sparse_packed ::
  "schema \<Rightarrow> u8 list \<Rightarrow> codec_limits \<Rightarrow> codec_error + delta_update_entity list" where
  "decode_update_section_sparse_packed =
    decode_update_section_sparse read_head_packed read_index_packed EntityUpdateSparsePacked"

section \<open>The sections of a packet\<close>

record delta_sections =
  ds_destroys :: "entity_id list option"
  ds_creates :: "entity_snapshot list option"
  ds_updates_masked :: "delta_update_entity list option"
  ds_updates_sparse :: "delta_update_entity list option"

text \<open>One arm of the \<^verbatim>\<open>match\<close>: a second section of the kind is an error, else its body is decoded.\<close>

definition once_only ::
  "section_tag \<Rightarrow> 'a option \<Rightarrow> codec_error + 'a \<Rightarrow> codec_error + 'a" where
  "once_only tag seen decoded = (if seen \<noteq> None then Inl (DuplicateSection tag) else decoded)"

definition delta_section ::
  "schema \<Rightarrow> codec_limits \<Rightarrow> wire_section \<Rightarrow> delta_sections \<Rightarrow> codec_error + delta_sections" where
  "delta_section s limits sec acc =
    (case ws_tag sec of
       EntityDestroy \<Rightarrow>
         and_then (once_only (ws_tag sec) (ds_destroys acc) (decode_destroy_section (ws_body sec) limits))
           (\<lambda>x. Inr (acc\<lparr>ds_destroys := Some x\<rparr>))
     | EntityCreate \<Rightarrow>
         and_then (once_only (ws_tag sec) (ds_creates acc)
             (delta_decode_create_section s (ws_body sec) limits))
           (\<lambda>x. Inr (acc\<lparr>ds_creates := Some x\<rparr>))
     | EntityUpdate \<Rightarrow>
         and_then (once_only (ws_tag sec) (ds_updates_masked acc)
             (decode_update_section_masked s (ws_body sec) limits))
           (\<lambda>x. Inr (acc\<lparr>ds_updates_masked := Some x\<rparr>))
     | EntityUpdateSparse \<Rightarrow>
         and_then (once_only (ws_tag sec) (ds_updates_sparse acc)
             (decode_update_section_sparse_varint s (ws_body sec) limits))
           (\<lambda>x. Inr (acc\<lparr>ds_updates_sparse := Some x\<rparr>))
     | EntityUpdateSparsePacked \<Rightarrow>
         and_then (once_only (ws_tag sec) (ds_updates_sparse acc)
             (decode_update_section_sparse_packed s (ws_body sec) limits))
           (\<lambda>x. Inr (acc\<lparr>ds_updates_sparse := Some x\<rparr>))
     | _ \<Rightarrow> Inl (UnexpectedSection (ws_tag sec)))"

definition unwrap_or_default :: "'a list option \<Rightarrow> 'a list" where
  "unwrap_or_default x = (case x of Some xs \<Rightarrow> xs | None \<Rightarrow> [])"

definition decode_delta_sections ::
  "schema \<Rightarrow> wire_packet \<Rightarrow> codec_limits \<Rightarrow>
    codec_error + entity_id list \<times> entity_snapshot list \<times> delta_update_entity list" where
  "decode_delta_sections s packet limits =
    and_then (try_fold (delta_section s limits) (wp_sections packet)
      \<lparr>ds_destroys = None, ds_creates = None, ds_updates_masked = None, ds_updates_sparse = None\<rparr>)
    (\<lambda>acc.
      and_then
        (case (ds_updates_masked acc, ds_updates_sparse acc) of
           (Some _, Some _) \<Rightarrow> Inl DuplicateUpdateEncoding
         | (Some updates, None) \<Rightarrow> Inr updates
         | (None, Some updates) \<Rightarrow> Inr updates
         | (None, None) \<Rightarrow> Inr []) (\<lambda>updates.
        Inr (unwrap_or_default (ds_destroys acc), unwrap_or_default (ds_creates acc), updates)))"

text \<open>The header checks that decoding and applying share.\<close>

definition check_delta_flags :: "packet_header \<Rightarrow> codec_error + unit" where
  "check_delta_flags header =
    (if \<not> is_delta_snapshot (ph_flags header) then
       Inl (Wire (InvalidFlags (flags_raw (ph_flags header))))
     else if ph_baseline_tick header = 0 then
       Inl (Wire (InvalidBaselineTick (ph_baseline_tick header) (flags_raw (ph_flags header))))
     else Inr ())"

definition decode_delta_packet ::
  "(u8 list \<Rightarrow> u8 list) \<Rightarrow> schema \<Rightarrow> wire_packet \<Rightarrow> codec_limits \<Rightarrow> codec_error + delta_decoded" where
  "decode_delta_packet blake3 s packet limits =
    (let header = wp_header packet in
     and_then (check_delta_flags header) (\<lambda>_.
     if ph_schema_hash header \<noteq> schema_hash blake3 s then
       Inl (SchemaMismatch (schema_hash blake3 s) (ph_schema_hash header))
     else
     and_then (decode_delta_sections s packet limits) (\<lambda>(destroys, creates, updates).
       Inr \<lparr>dd_tick = SnapshotTick (ph_tick header),
            dd_baseline_tick = SnapshotTick (ph_baseline_tick header),
            dd_destroys = destroys, dd_creates = creates, dd_updates = updates\<rparr>)))"

end
