(* ===== verification/Delta_Apply.thy ===== *)
theory Delta_Apply
  imports Delta_Decode Delta_Diff
begin

text \<open>
  Applying a delta to a baseline (codec/src/delta.rs): destroys and creates are merged into the sorted
  entity list, updates find their entity by binary search.  The lemmas state what each step does to
  the list as a finite map from entity ids to entities.
\<close>

fun apply_destroys ::
  "entity_snapshot list \<Rightarrow> entity_id list \<Rightarrow> codec_error + entity_snapshot list" where
  "apply_destroys (b # bs) (d # ds) =
    (if entity_raw (es_id b) < entity_raw d then
       and_then (apply_destroys bs (d # ds)) (\<lambda>rest. Inr (b # rest))
     else if entity_raw (es_id b) > entity_raw d then Inl (EntityNotFound (entity_raw d))
     else apply_destroys bs ds)"
| "apply_destroys (b # bs) [] = and_then (apply_destroys bs []) (\<lambda>rest. Inr (b # rest))"
| "apply_destroys [] (d # ds) = Inl (EntityNotFound (entity_raw d))"
| "apply_destroys [] [] = Inr []"

fun apply_creates ::
  "entity_snapshot list \<Rightarrow> entity_snapshot list \<Rightarrow> codec_error + entity_snapshot list" where
  "apply_creates (b # bs) (c # cs) =
    (if entity_raw (es_id b) < entity_raw (es_id c) then
       and_then (apply_creates bs (c # cs)) (\<lambda>rest. Inr (b # rest))
     else if entity_raw (es_id b) > entity_raw (es_id c) then
       and_then (apply_creates (b # bs) cs) (\<lambda>rest. Inr (c # rest))
     else Inl (EntityAlreadyExists (entity_raw (es_id c))))"
| "apply_creates (b # bs) [] = and_then (apply_creates bs []) (\<lambda>rest. Inr (b # rest))"
| "apply_creates [] (c # cs) = and_then (apply_creates [] cs) (\<lambda>rest. Inr (c # rest))"
| "apply_creates [] [] = Inr []"

text \<open>
  \<^verbatim>\<open>binary_search_by_key\<close> on the entities in \<open>[lo, hi)\<close>: the index of an entity with the id, or
  \<^const>\<open>None\<close> for the insertion point that the caller ignores.
\<close>

function search_entity :: "entity_snapshot list \<Rightarrow> u32 \<Rightarrow> nat \<Rightarrow> nat \<Rightarrow> nat option" where
  "search_entity entities key lo hi =
    (if lo < hi then
       let mid = (lo + hi) div 2; found = entity_raw (es_id (entities ! mid)) in
       if found < key then search_entity entities key (mid + 1) hi
       else if key < found then search_entity entities key lo mid
       else Some mid
     else None)"
  by pat_completeness auto
termination
  by (relation "measure (\<lambda>(entities, key, lo, hi). hi - lo)") auto

declare search_entity.simps [simp del]

definition binary_search_by_id :: "entity_snapshot list \<Rightarrow> u32 \<Rightarrow> nat option" where
  "binary_search_by_id entities key = search_entity entities key 0 (length entities)"

text \<open>The innermost loop of \<open>apply_updates\<close> assigns the fields of one component.\<close>

fun assign_fields ::
  "component_id \<Rightarrow> (usize \<times> field_value) list \<Rightarrow> field_value list \<Rightarrow> codec_error + field_value list" where
  "assign_fields c [] vs = Inr vs"
| "assign_fields c ((idx, v) # us) vs =
    (if idx \<ge> length vs then
       Inl (InvalidMask (FieldMask c) (FieldCountMismatch (length vs) (idx + 1)))
     else assign_fields c us (vs[idx := v]))"

fun update_component ::
  "u32 \<Rightarrow> delta_update_component \<Rightarrow> component_snapshot list \<Rightarrow> codec_error + component_snapshot list" where
  "update_component eid u [] = Inl (ComponentNotFound eid (component_id_get (uc_id u)))"
| "update_component eid u (c # cs) =
    (if cs_id c = uc_id u then
       and_then (assign_fields (uc_id u) (uc_fields u) (cs_fields c)) (\<lambda>vs.
         Inr (c\<lparr>cs_fields := vs\<rparr> # cs))
     else and_then (update_component eid u cs) (\<lambda>rest. Inr (c # rest)))"

definition update_entity :: "delta_update_entity \<Rightarrow> entity_snapshot \<Rightarrow> codec_error + entity_snapshot" where
  "update_entity u e =
    and_then (try_fold (update_component (entity_raw (ue_id u))) (ue_components u) (es_components e))
      (\<lambda>cs. Inr (e\<lparr>es_components := cs\<rparr>))"

definition apply_update ::
  "delta_update_entity \<Rightarrow> entity_snapshot list \<Rightarrow> codec_error + entity_snapshot list" where
  "apply_update u entities =
    and_then (ok_or (EntityNotFound (entity_raw (ue_id u)))
      (binary_search_by_id entities (entity_raw (ue_id u)))) (\<lambda>idx.
    and_then (update_entity u (entities ! idx)) (\<lambda>e. Inr (entities[idx := e])))"

definition apply_updates ::
  "delta_update_entity list \<Rightarrow> entity_snapshot list \<Rightarrow> codec_error + entity_snapshot list" where
  "apply_updates updates entities = try_fold apply_update updates entities"

definition apply_delta_snapshot_from_packet ::
  "(u8 list \<Rightarrow> u8 list) \<Rightarrow> schema \<Rightarrow> snapshot \<Rightarrow> wire_packet \<Rightarrow> codec_limits \<Rightarrow> codec_error + snapshot" where
  "apply_delta_snapshot_from_packet blake3 s baseline packet limits =
    (let header = wp_header packet in
     and_then (check_delta_flags header) (\<lambda>_.
     if ph_baseline_tick header \<noteq> tick_raw (sn_tick baseline) then
       Inl (BaselineTickMismatch (tick_raw (sn_tick baseline)) (ph_baseline_tick header))
     else if ph_schema_hash header \<noteq> schema_hash blake3 s then
       Inl (SchemaMismatch (schema_hash blake3 s) (ph_schema_hash header))
     else
     and_then (decode_delta_sections s packet limits) (\<lambda>(destroys, creates, updates).
     and_then (ensure_entities_sorted (sn_entities baseline)) (\<lambda>_.
     and_then (ensure_entities_sorted creates) (\<lambda>_.
     and_then (apply_destroys (sn_entities baseline) destroys) (\<lambda>remaining.
     and_then (apply_creates remaining creates) (\<lambda>remaining.
     if length remaining > max_total_entities_after_apply limits then
       Inl (CodecLimitsExceeded TotalEntitiesAfterApply (max_total_entities_after_apply limits)
         (length remaining))
     else
     and_then (apply_updates updates remaining) (\<lambda>remaining.
       Inr \<lparr>sn_tick = SnapshotTick (ph_tick header), sn_entities = remaining\<rparr>))))))))"

definition apply_delta_snapshot ::
  "(u8 list \<Rightarrow> u8 list) \<Rightarrow> schema \<Rightarrow> snapshot \<Rightarrow> u8 list \<Rightarrow> limits \<Rightarrow> codec_limits \<Rightarrow>
    codec_error + snapshot" where
  "apply_delta_snapshot blake3 s baseline bytes wire_limits limits =
    and_then (map_err Wire (decode_packet bytes wire_limits)) (\<lambda>packet.
      apply_delta_snapshot_from_packet blake3 s baseline packet limits)"

section \<open>Sorted entity lists\<close>

abbreviation ids_sorted :: "entity_snapshot list \<Rightarrow> bool" where
  "ids_sorted es \<equiv> sorted_wrt (<) (map es_id es)"

lemma raw_less [simp]: "entity_raw a < entity_raw b \<longleftrightarrow> a < b"
  by (simp add: less_entity_id_def)

lemma ensure_sorted_loop_Inr:
  "ensure_sorted_loop prev ids = Inr u \<longleftrightarrow>
    sorted_wrt (<) ids \<and> (\<forall>p. prev = Some p \<longrightarrow> (\<forall>x \<in> set ids. p < x))"
proof (induction prev ids rule: ensure_sorted_loop.induct)
  case (2 prev raw ids)
  then show ?case by (cases prev) (auto simp: not_le)
qed simp

lemma ensure_entities_sorted_Inr: "ensure_entities_sorted es = Inr u \<longleftrightarrow> ids_sorted es"
  by (simp add: ensure_entities_sorted_def ensure_sorted_loop_Inr sorted_wrt_map)

lemma ensure_entity_ids_sorted_Inr: "ensure_entity_ids_sorted ids = Inr u \<longleftrightarrow> sorted_wrt (<) ids"
  by (simp add: ensure_entity_ids_sorted_def ensure_sorted_loop_Inr sorted_wrt_map)

lemma ids_sorted_unique:
  "ids_sorted xs \<Longrightarrow> ids_sorted ys \<Longrightarrow> set xs = set ys \<Longrightarrow> xs = ys"
proof (induction xs arbitrary: ys)
  case (Cons x xs)
  then obtain y zs where ys: "ys = y # zs" by (cases ys) auto
  have "y = x"
  proof (rule ccontr)
    assume "y \<noteq> x"
    then have "y \<in> set xs" "x \<in> set zs" using Cons.prems(3) ys by auto
    then have "es_id x < es_id y" "es_id y < es_id x" using Cons.prems(1,2) ys by auto
    then show False by simp
  qed
  moreover have "x \<notin> set xs" "y \<notin> set zs" using Cons.prems(1,2) ys by auto
  ultimately have same: "set xs = set zs" using Cons.prems(3) ys by auto
  have "xs = zs" by (rule Cons.IH [OF _ _ same]) (use Cons.prems(1,2) ys in simp_all)
  then show ?case by (simp add: ys \<open>y = x\<close>)
qed simp

lemma ids_sorted_inj:
  "ids_sorted es \<Longrightarrow> a \<in> set es \<Longrightarrow> b \<in> set es \<Longrightarrow> es_id a = es_id b \<Longrightarrow> a = b"
  by (induction es) auto

lemma ids_sorted_filter: "ids_sorted es \<Longrightarrow> ids_sorted (filter P es)"
  by (induction es) auto

lemma below_all_notin: "\<forall>x \<in> A. k < f x \<Longrightarrow> k \<notin> f ` (A :: 'a set)" for k :: "'b::order"
  by auto

section \<open>Destroys\<close>

lemma apply_destroys_iff:
  "ids_sorted bs \<Longrightarrow> sorted_wrt (<) ds \<Longrightarrow>
    apply_destroys bs ds = Inr rs \<longleftrightarrow>
      set ds \<subseteq> es_id ` set bs \<and> rs = filter (\<lambda>b. es_id b \<notin> set ds) bs"
proof (induction bs ds arbitrary: rs rule: apply_destroys.induct)
  case (1 b bs d ds)
  consider "es_id b < d" | "d < es_id b" | "es_id b = d" by (rule linorder_cases)
  then show ?case
  proof cases
    case 1
    then have "es_id b \<notin> set (d # ds)" using "1.prems"(2) by auto
    moreover from this have "set (d # ds) \<subseteq> es_id ` set (b # bs) \<longleftrightarrow> set (d # ds) \<subseteq> es_id ` set bs"
      by (simp add: image_iff) blast
    moreover have "apply_destroys bs (d # ds) = Inr xs \<longleftrightarrow>
        set (d # ds) \<subseteq> es_id ` set bs \<and> xs = filter (\<lambda>b. es_id b \<notin> set (d # ds)) bs" for xs
      using 1 "1.prems" by (intro "1.IH"(1)) auto
    moreover have "apply_destroys (b # bs) (d # ds) =
        and_then (apply_destroys bs (d # ds)) (\<lambda>rest. Inr (b # rest))" using 1 by simp
    ultimately show ?thesis by (simp only: and_then_Inr_iff filter.simps if_True sum.inject) metis
  next
    case 2
    then have "d \<notin> es_id ` set (b # bs)" using "1.prems"(1) by auto
    with 2 show ?thesis by auto
  next
    case 3
    have nb: "d \<notin> es_id ` set bs" and nd: "d \<notin> set ds" using "1.prems" 3 by auto
    have "filter (\<lambda>x. es_id x \<notin> set (d # ds)) bs = filter (\<lambda>x. es_id x \<notin> set ds) bs"
      using nb by (intro filter_cong) auto
    moreover have "set (d # ds) \<subseteq> es_id ` set (b # bs) \<longleftrightarrow> set ds \<subseteq> es_id ` set bs"
      using nd 3 by auto
    moreover have "apply_destroys (b # bs) (d # ds) = apply_destroys bs ds" using 3 by simp
    moreover have "apply_destroys bs ds = Inr rs \<longleftrightarrow>
        set ds \<subseteq> es_id ` set bs \<and> rs = filter (\<lambda>b. es_id b \<notin> set ds) bs"
      using 3 "1.prems" by (intro "1.IH"(2)) auto
    ultimately show ?thesis using 3 by simp
  qed
qed (auto simp: res_simps)

section \<open>Creates\<close>

lemma apply_creates_sound:
  "ids_sorted bs \<Longrightarrow> ids_sorted cs \<Longrightarrow> apply_creates bs cs = Inr rs \<Longrightarrow>
    ids_sorted rs \<and> set rs = set bs \<union> set cs \<and> es_id ` set bs \<inter> es_id ` set cs = {}"
proof (induction bs cs arbitrary: rs rule: apply_creates.induct)
  case (1 b bs c cs)
  consider "es_id b < es_id c" | "es_id c < es_id b" | "es_id b = es_id c" by (rule linorder_cases)
  then show ?case
  proof cases
    case 1
    then obtain rest where r: "apply_creates bs (c # cs) = Inr rest" "rs = b # rest"
      using "1.prems"(3) by (auto simp: res_simps)
    have least: "\<forall>x \<in> set (c # cs). es_id b < es_id x" using 1 "1.prems"(2) by auto
    have "ids_sorted rest \<and> set rest = set bs \<union> set (c # cs) \<and>
        es_id ` set bs \<inter> es_id ` set (c # cs) = {}"
      by (rule "1.IH"(1) [OF _ _ _ r(1)]) (use 1 "1.prems" in simp_all)
    moreover have "es_id b \<notin> es_id ` set (c # cs)" using least by (rule below_all_notin)
    moreover have "\<forall>x \<in> set bs. es_id b < es_id x" using "1.prems"(1) by simp
    ultimately show ?thesis using r(2) least by (simp add: ball_Un insert_commute)
  next
    case 2
    then obtain rest where r: "apply_creates (b # bs) cs = Inr rest" "rs = c # rest"
      using "1.prems"(3) by (auto simp: res_simps split: if_splits)
    have least: "\<forall>x \<in> set (b # bs). es_id c < es_id x" using 2 "1.prems"(1) by auto
    have "ids_sorted rest \<and> set rest = set (b # bs) \<union> set cs \<and>
        es_id ` set (b # bs) \<inter> es_id ` set cs = {}"
      by (rule "1.IH"(2) [OF _ _ _ _ r(1)]) (use 2 "1.prems" in simp_all)
    moreover have "es_id c \<notin> es_id ` set (b # bs)" using least by (rule below_all_notin)
    moreover have "\<forall>x \<in> set cs. es_id c < es_id x" using "1.prems"(2) by simp
    ultimately show ?thesis using r(2) least by (simp add: ball_Un Int_commute)
  next
    case 3
    then show ?thesis using "1.prems"(3) by simp
  qed
qed (auto simp: res_simps)

lemma apply_creates_complete:
  "ids_sorted bs \<Longrightarrow> ids_sorted cs \<Longrightarrow> es_id ` set bs \<inter> es_id ` set cs = {} \<Longrightarrow>
    \<exists>rs. apply_creates bs cs = Inr rs"
proof (induction bs cs rule: apply_creates.induct)
  case (1 b bs c cs)
  consider "es_id b < es_id c" | "es_id c < es_id b" | "es_id b = es_id c" by (rule linorder_cases)
  then show ?case
  proof cases
    case 1
    with "1.IH"(1) "1.prems" show ?thesis by (auto simp: res_simps)
  next
    case 2
    with "1.IH"(2) "1.prems" show ?thesis by (auto simp: res_simps)
  next
    case 3
    then show ?thesis using "1.prems"(3) by simp
  qed
qed (auto simp: res_simps)

lemma apply_creates_iff:
  assumes "ids_sorted bs" and "ids_sorted cs"
  shows "apply_creates bs cs = Inr rs \<longleftrightarrow>
    es_id ` set bs \<inter> es_id ` set cs = {} \<and> ids_sorted rs \<and> set rs = set bs \<union> set cs"
  using apply_creates_sound [OF assms] apply_creates_complete [OF assms] ids_sorted_unique by metis

section \<open>Updates\<close>

lemma search_entity_range:
  "search_entity es key lo hi = Some i \<Longrightarrow> lo \<le> i \<and> i < hi \<and> entity_raw (es_id (es ! i)) = key"
proof (induction es key lo hi rule: search_entity.induct)
  case (1 es key lo hi)
  show ?case
  proof (cases "lo < hi")
    case True
    let ?m = "(lo + hi) div 2"
    note un = search_entity.simps [of es key lo hi]
    consider "entity_raw (es_id (es ! ?m)) < key" | "key < entity_raw (es_id (es ! ?m))"
      | "entity_raw (es_id (es ! ?m)) = key" by (rule linorder_cases)
    then show ?thesis
    proof cases
      case 1
      with True un "1.IH"(1) "1.prems" show ?thesis by (fastforce simp: Let_def)
    next
      case 2
      with True un "1.IH"(2) "1.prems" show ?thesis by (fastforce simp: Let_def)
    next
      case 3
      with True un "1.prems" show ?thesis by (auto simp: Let_def)
    qed
  next
    case False
    with "1.prems" show ?thesis by (subst (asm) search_entity.simps) simp
  qed
qed

lemma ids_sorted_nth_less: "ids_sorted es \<Longrightarrow> i < j \<Longrightarrow> j < length es \<Longrightarrow> es_id (es ! i) < es_id (es ! j)"
  by (simp add: sorted_wrt_iff_nth_less)

lemma search_entity_finds:
  "ids_sorted es \<Longrightarrow> lo \<le> k \<Longrightarrow> k < hi \<Longrightarrow> hi \<le> length es \<Longrightarrow>
    entity_raw (es_id (es ! k)) = key \<Longrightarrow> search_entity es key lo hi = Some k"
proof (induction es key lo hi rule: search_entity.induct)
  case (1 es key lo hi)
  let ?m = "(lo + hi) div 2"
  have lt: "lo < hi" using "1.prems" by simp
  then have m: "lo \<le> ?m" "?m < hi" by auto
  note un = search_entity.simps [of es key lo hi]
  consider "?m < k" | "k < ?m" | "?m = k" by (rule linorder_cases)
  then show ?case
  proof cases
    case 1
    then have "entity_raw (es_id (es ! ?m)) < key"
      using ids_sorted_nth_less [of es ?m k] "1.prems" by auto
    with 1 un lt "1.IH"(1) [OF lt refl refl] "1.prems" show ?thesis by (simp add: Let_def)
  next
    case 2
    then have "key < entity_raw (es_id (es ! ?m))"
      using ids_sorted_nth_less [of es k ?m] "1.prems" m by auto
    then have "\<not> entity_raw (es_id (es ! ?m)) < key" by simp
    moreover have "search_entity es key lo ?m = Some k"
      using \<open>key < _\<close> calculation lt m 2 "1.prems" by (intro "1.IH"(2) [OF lt refl refl]) simp_all
    ultimately show ?thesis using un lt \<open>key < _\<close> by (simp add: Let_def)
  next
    case 3
    with un lt "1.prems" show ?thesis by (simp add: Let_def)
  qed
qed

lemma binary_search_iff:
  assumes "ids_sorted es"
  shows "binary_search_by_id es key = Some i \<longleftrightarrow> i < length es \<and> entity_raw (es_id (es ! i)) = key"
  using search_entity_range [of es key 0 "length es" i]
    search_entity_finds [OF assms, of 0 i "length es" key]
  by (auto simp: binary_search_by_id_def)

lemma update_entity_id: "update_entity u e = Inr e' \<Longrightarrow> es_id e' = es_id e"
  by (auto simp: update_entity_def res_simps)

lemma map_eq_update:
  assumes "ids_sorted es" and "i < length es"
  shows "es[i := e'] = map (\<lambda>x. if es_id x = es_id (es ! i) then e' else x) es"
proof (rule nth_equalityI)
  fix j assume j: "j < length (es[i := e'])"
  then have "es_id (es ! j) = es_id (es ! i) \<longleftrightarrow> j = i"
    using assms ids_sorted_nth_less [of es i j] ids_sorted_nth_less [of es j i]
    by (cases i j rule: linorder_cases) auto
  with j show "es[i := e'] ! j = map (\<lambda>x. if es_id x = es_id (es ! i) then e' else x) es ! j" by simp
qed simp

text \<open>An update replaces the one entity with its id, and fails when there is none.\<close>

lemma apply_update_iff:
  assumes "ids_sorted es"
  shows "apply_update u es = Inr es' \<longleftrightarrow>
    (\<exists>e e'. e \<in> set es \<and> es_id e = ue_id u \<and> update_entity u e = Inr e' \<and>
      es' = map (\<lambda>x. if es_id x = ue_id u then e' else x) es)"
  (is "?lhs \<longleftrightarrow> ?rhs")
proof
  assume ?lhs
  then obtain i e' where i: "i < length es" "es_id (es ! i) = ue_id u"
    and e': "update_entity u (es ! i) = Inr e'" and es': "es' = es[i := e']"
    by (auto simp: apply_update_def res_simps binary_search_iff [OF assms])
  with map_eq_update [OF assms i(1), of e'] show ?rhs
    by (intro exI [of _ "es ! i"] exI [of _ e']) simp
next
  assume ?rhs
  then obtain e e' where e: "e \<in> set es" "es_id e = ue_id u" "update_entity u e = Inr e'"
    and es': "es' = map (\<lambda>x. if es_id x = ue_id u then e' else x) es" by blast
  then obtain i where i: "i < length es" "es ! i = e" by (auto simp: in_set_conv_nth)
  then have "binary_search_by_id es (entity_raw (ue_id u)) = Some i"
    using e(2) by (simp add: binary_search_iff [OF assms])
  with i e es' map_eq_update [OF assms i(1), of e'] show ?lhs by (simp add: apply_update_def)
qed

lemma apply_update_sorted:
  assumes "ids_sorted es" and "apply_update u es = Inr es'"
  shows "ids_sorted es' \<and> map es_id es' = map es_id es"
proof -
  from assms obtain e e' where "es_id e = ue_id u" "update_entity u e = Inr e'"
    and es': "es' = map (\<lambda>x. if es_id x = ue_id u then e' else x) es"
    by (auto simp: apply_update_iff)
  then have "es_id e' = ue_id u" using update_entity_id by simp
  then have "map es_id es' = map es_id es" by (simp add: es')
  with assms(1) show ?thesis by simp
qed

lemma apply_updates_sorted:
  "ids_sorted es \<Longrightarrow> apply_updates us es = Inr es' \<Longrightarrow> ids_sorted es' \<and> map es_id es' = map es_id es"
  unfolding apply_updates_def
proof (induction us arbitrary: es)
  case (Cons u us)
  from Cons.prems(2) obtain es1 where "apply_update u es = Inr es1" "try_fold apply_update us es1 = Inr es'"
    by (auto elim: and_then_E)
  with Cons.IH [of es1] apply_update_sorted [OF Cons.prems(1)] Cons.prems(1) show ?case by simp
qed simp

text \<open>Updates with distinct ids act independently, each on its own entity.\<close>

definition updated_entity :: "delta_update_entity list \<Rightarrow> entity_snapshot \<Rightarrow> codec_error + entity_snapshot" where
  "updated_entity us e =
    (case find (\<lambda>u. ue_id u = es_id e) us of Some u \<Rightarrow> update_entity u e | None \<Rightarrow> Inr e)"

lemma apply_updates_pointwise:
  "ids_sorted es \<Longrightarrow> distinct (map ue_id us) \<Longrightarrow> ue_id ` set us \<subseteq> es_id ` set es \<Longrightarrow>
    (\<And>e. e \<in> set es \<Longrightarrow> updated_entity us e = Inr (g e)) \<Longrightarrow> apply_updates us es = Inr (map g es)"
  unfolding apply_updates_def
proof (induction us arbitrary: es g)
  case Nil
  then have "g e = e" if "e \<in> set es" for e using that by (simp add: updated_entity_def)
  then show ?case by (simp add: map_idI)
next
  case (Cons u us)
  from Cons.prems(3) obtain e where e: "e \<in> set es" "es_id e = ue_id u" by auto
  have upd: "update_entity u e = Inr (g e)"
    using Cons.prems(4) [OF e(1)] e(2) by (simp add: updated_entity_def)
  let ?h = "\<lambda>x. if es_id x = ue_id u then g e else x"
  have step: "apply_update u es = Inr (map ?h es)"
    using e upd by (auto simp: apply_update_iff [OF Cons.prems(1)])
  let ?g = "\<lambda>y. if es_id y = ue_id u then y else g y"
  have sorted: "ids_sorted (map ?h es)" and ids: "map es_id (map ?h es) = map es_id es"
    using apply_update_sorted [OF Cons.prems(1) step] by simp_all
  have idset: "es_id ` set (map ?h es) = es_id ` set es"
    using arg_cong [OF ids, of set] unfolding set_map [of es_id] .
  have fresh: "ue_id v \<noteq> ue_id u" if "v \<in> set us" for v
    using imageI [OF that, of ue_id] Cons.prems(2) by (cases "ue_id v = ue_id u") auto
  have "updated_entity us y = Inr (?g y)" if y: "y \<in> set (map ?h es)" for y
  proof (cases "es_id y = ue_id u")
    case True
    then have "find (\<lambda>v. ue_id v = es_id y) us = None" using fresh by (auto simp: find_None_iff)
    with True show ?thesis by (simp add: updated_entity_def)
  next
    case False
    with y update_entity_id [OF upd] e(2) have "y \<in> set es" by (auto split: if_splits)
    with Cons.prems(4) [of y] False show ?thesis by (auto simp: updated_entity_def)
  qed
  with Cons.IH [OF sorted, of ?g] Cons.prems(2,3) idset
  have "try_fold apply_update us (map ?h es) = Inr (map ?g (map ?h es))" by auto
  moreover have "map ?g (map ?h es) = map g es"
    using ids_sorted_inj [OF Cons.prems(1) e(1)] update_entity_id [OF upd] e(2) by auto
  ultimately show ?case using step by simp
qed

section \<open>What a successful application guarantees\<close>

lemma apply_destroys_kept:
  "apply_destroys bs ds = Inr rs \<Longrightarrow> ids_sorted bs \<Longrightarrow> ids_sorted rs \<and> set rs \<subseteq> set bs"
proof (induction bs ds arbitrary: rs rule: apply_destroys.induct)
  case (1 b bs d ds)
  then show ?case by (fastforce simp: res_simps split: if_splits)
qed (fastforce simp: res_simps)+

lemma apply_delta_sound:
  assumes "apply_delta_snapshot_from_packet blake3 s baseline p l = Inr sn"
  shows "is_delta_snapshot (ph_flags (wp_header p))"
    and "ph_baseline_tick (wp_header p) = tick_raw (sn_tick baseline)" and "tick_raw (sn_tick baseline) \<noteq> 0"
    and "ph_schema_hash (wp_header p) = schema_hash blake3 s"
    and "tick_raw (sn_tick sn) = ph_tick (wp_header p)"
    and "ids_sorted (sn_entities baseline)" and "ids_sorted (sn_entities sn)"
    and "length (sn_entities sn) \<le> max_total_entities_after_apply l"
proof -
  from assms obtain destroys creates updates r1 r2 r3 where
    flags: "check_delta_flags (wp_header p) = Inr ()"
    and h: "ph_baseline_tick (wp_header p) = tick_raw (sn_tick baseline)"
      "ph_schema_hash (wp_header p) = schema_hash blake3 s"
    and sorted: "ids_sorted (sn_entities baseline)" "ids_sorted creates"
    and r1: "apply_destroys (sn_entities baseline) destroys = Inr r1"
    and r2: "apply_creates r1 creates = Inr r2" "length r2 \<le> max_total_entities_after_apply l"
    and r3: "apply_updates updates r2 = Inr r3" and sn: "sn = \<lparr>sn_tick = SnapshotTick (ph_tick (wp_header p)), sn_entities = r3\<rparr>"
    by (auto simp: apply_delta_snapshot_from_packet_def Let_def res_simps ensure_entities_sorted_Inr not_less)
  note k1 = apply_destroys_kept [OF r1 sorted(1)]
  then have s2: "ids_sorted r2" using apply_creates_sound [OF _ sorted(2) r2(1)] by blast
  have r3': "ids_sorted r3" "map es_id r3 = map es_id r2" using apply_updates_sorted [OF s2 r3] by blast+
  from r3'(2) have "length r3 = length r2" by (metis length_map)
  with r2(2) show "length (sn_entities sn) \<le> max_total_entities_after_apply l" by (simp add: sn)
  show "is_delta_snapshot (ph_flags (wp_header p))" "tick_raw (sn_tick baseline) \<noteq> 0"
    using flags h(1) by (auto simp: check_delta_flags_def split: if_splits)
  show "ph_baseline_tick (wp_header p) = tick_raw (sn_tick baseline)"
    "ph_schema_hash (wp_header p) = schema_hash blake3 s" by (fact h)+
  show "tick_raw (sn_tick sn) = ph_tick (wp_header p)" "ids_sorted (sn_entities sn)"
    using r3'(1) by (simp_all add: sn)
  show "ids_sorted (sn_entities baseline)" by (fact sorted)
qed

end
