(* ===== verification/Baseline_Store.thy ===== *)
theory Baseline_Store
  imports Codec_Types
begin

text \<open>
  The baseline history (codec/src/baseline.rs): a ring buffer of snapshots keyed by strictly
  increasing ticks.  \<open>history\<close> abstracts a store to the list of its entries, oldest first; the
  locale \<open>baseline_history\<close> is the contract of such a store, with the laws in terms of the list, and
  the ring buffer is an interpretation of it.
\<close>

datatype baseline_error = OutOfOrder snapshot_tick snapshot_tick \<comment> \<open>last tick, new tick\<close>

record 'v entry =
  en_tick :: snapshot_tick
  en_value :: 'v

record 'v baseline_store =
  bs_entries :: "'v entry option list"
  bs_head :: usize
  bs_len :: usize
  bs_last_tick :: "snapshot_tick option"

definition store_new :: "usize \<Rightarrow> 'v baseline_store" where
  "store_new cap =
    \<lparr>bs_entries = replicate cap None, bs_head = 0, bs_len = 0, bs_last_tick = None\<rparr>"

definition store_capacity :: "'v baseline_store \<Rightarrow> usize" where
  "store_capacity b = length (bs_entries b)"

definition store_len :: "'v baseline_store \<Rightarrow> usize" where
  "store_len b = bs_len b"

definition store_is_empty :: "'v baseline_store \<Rightarrow> bool" where
  "store_is_empty b \<longleftrightarrow> bs_len b = 0"

definition store_insert ::
  "snapshot_tick \<Rightarrow> 'v \<Rightarrow> 'v baseline_store \<Rightarrow> baseline_error + 'v baseline_store" where
  "store_insert tick v b =
    (let cap = length (bs_entries b);
         store =
           (if bs_len b < cap then
              let idx = (bs_head b + bs_len b) mod cap
              in b\<lparr>bs_entries := (bs_entries b)[idx := Some \<lparr>en_tick = tick, en_value = v\<rparr>],
                   bs_len := bs_len b + 1\<rparr>
            else
              b\<lparr>bs_entries := (bs_entries b)[bs_head b := Some \<lparr>en_tick = tick, en_value = v\<rparr>],
                bs_head := (bs_head b + 1) mod cap\<rparr>)\<lparr>bs_last_tick := Some tick\<rparr>
     in case bs_last_tick b of
          Some prev \<Rightarrow> if tick \<le> prev then Inl (OutOfOrder prev tick) else Inr store
        | None \<Rightarrow> Inr store)"

text \<open>The iterator, oldest to newest: the \<^verbatim>\<open>filter_map\<close> drops empty slots.\<close>

definition store_iter :: "'v baseline_store \<Rightarrow> (snapshot_tick \<times> 'v) list" where
  "store_iter b =
    (let cap = length (bs_entries b) in
     concat (map (\<lambda>i.
       let idx = (bs_head b + i) mod cap
       in case bs_entries b ! idx of
            None \<Rightarrow> []
          | Some e \<Rightarrow> [(en_tick e, en_value e)]) [0..<bs_len b]))"

definition store_get :: "snapshot_tick \<Rightarrow> 'v baseline_store \<Rightarrow> 'v option" where
  "store_get tick b = map_option snd (find (\<lambda>(t, v). t = tick) (store_iter b))"

definition store_latest_at_or_before ::
  "snapshot_tick \<Rightarrow> 'v baseline_store \<Rightarrow> (snapshot_tick \<times> 'v) option" where
  "store_latest_at_or_before tick b = find (\<lambda>(t, v). t \<le> tick) (rev (store_iter b))"

section \<open>The contract of a baseline history\<close>

locale baseline_history =
  fixes new :: "nat \<Rightarrow> 's"
    and ins :: "snapshot_tick \<Rightarrow> 'v \<Rightarrow> 's \<Rightarrow> baseline_error + 's"
    and entries :: "'s \<Rightarrow> (snapshot_tick \<times> 'v) list"
    and cap :: "'s \<Rightarrow> nat"
    and last_seen :: "'s \<Rightarrow> snapshot_tick option"
    and valid :: "'s \<Rightarrow> bool"
  assumes new_valid: "0 < n \<Longrightarrow> valid (new n)"
    and new_entries: "entries (new n) = []" "cap (new n) = n" "last_seen (new n) = None"
    and ins_fails: "valid s \<Longrightarrow> ins t v s = Inl e \<longleftrightarrow>
      (\<exists>l. last_seen s = Some l \<and> t \<le> l \<and> e = OutOfOrder l t)"
    and ins_valid: "valid s \<Longrightarrow> ins t v s = Inr s' \<Longrightarrow> valid s'"
    and ins_entries: "valid s \<Longrightarrow> ins t v s = Inr s' \<Longrightarrow> entries s' =
      (if length (entries s) < cap s then entries s else tl (entries s)) @ [(t, v)]"
    and ins_cap: "valid s \<Longrightarrow> ins t v s = Inr s' \<Longrightarrow> cap s' = cap s \<and> last_seen s' = Some t"
    and valid_cap: "valid s \<Longrightarrow> 0 < cap s \<and> length (entries s) \<le> cap s"
begin

text \<open>Inserting a sequence of snapshots, oldest first.\<close>

fun ins_all :: "(snapshot_tick \<times> 'v) list \<Rightarrow> 's \<Rightarrow> baseline_error + 's" where
  "ins_all [] s = Inr s"
| "ins_all ((t, v) # xs) s = and_then (ins t v s) (ins_all xs)"

definition ordered :: "'s \<Rightarrow> bool" where
  "ordered s \<longleftrightarrow> sorted_wrt (<) (map fst (entries s)) \<and>
     (\<forall>(t, v) \<in> set (entries s). \<exists>l. last_seen s = Some l \<and> t \<le> l)"

lemma new_ordered: "ordered (new n)"
  by (simp add: ordered_def new_entries)

lemma sorted_wrt_tl: "sorted_wrt P xs \<Longrightarrow> sorted_wrt P (tl xs)"
  by (cases xs) auto

lemma ins_ordered:
  assumes "valid s" and "ordered s" and "ins t v s = Inr s'"
  shows "ordered s'"
proof -
  let ?kept = "if length (entries s) < cap s then entries s else tl (entries s)"
  have sub: "set ?kept \<subseteq> set (entries s)" by (cases "entries s") auto
  have less: "t' < t" if mem: "(t', v') \<in> set (entries s)" for t' v'
  proof -
    obtain l where l: "last_seen s = Some l" "t' \<le> l"
      using bspec [OF conjunct2 [OF assms(2) [unfolded ordered_def]] mem] by auto
    have "\<not> t \<le> l" using ins_fails [OF assms(1), of t v "OutOfOrder l t"] assms(3) l(1) by simp
    with l(2) show ?thesis by simp
  qed
  have kept: "sorted_wrt (<) (map fst ?kept)"
    using assms(2) sorted_wrt_tl [of "(<)" "map fst (entries s)"] by (simp add: ordered_def map_tl)
  have all: "x < t" if "x \<in> set (map fst ?kept)" for x
    using that sub less by fastforce
  have "sorted_wrt (<) (map fst ?kept @ [t])"
    unfolding sorted_wrt_append using kept all by auto
  moreover have "\<forall>(t', v') \<in> set (?kept @ [(t, v)]). t' \<le> t"
  proof
    fix x assume x: "x \<in> set (?kept @ [(t, v)])"
    show "case x of (t', v') \<Rightarrow> t' \<le> t"
    proof (cases "x = (t, v)")
      case False
      with x sub have "x \<in> set (entries s)" by auto
      with less show ?thesis by (cases x) (auto intro: order.strict_implies_order)
    qed simp
  qed
  ultimately show ?thesis
    unfolding ordered_def using ins_entries [OF assms(1,3)] ins_cap [OF assms(1,3)] by auto
qed

text \<open>A newly inserted snapshot is the last entry, and the last one to be evicted.\<close>

lemma ins_last: "valid s \<Longrightarrow> ins t v s = Inr s' \<Longrightarrow> last (entries s') = (t, v)"
  by (simp add: ins_entries)

lemma ins_all_entries:
  "valid s \<Longrightarrow> ins_all xs s = Inr s' \<Longrightarrow>
    valid s' \<and> cap s' = cap s \<and>
    entries s' = drop (length (entries s) + length xs - cap s) (entries s @ xs)"
proof (induction xs arbitrary: s)
  case Nil
  then show ?case using valid_cap [of s] by simp
next
  case (Cons x xs)
  obtain t v where x: "x = (t, v)" by (cases x)
  with Cons.prems obtain s1 where s1: "ins t v s = Inr s1" "ins_all xs s1 = Inr s'"
    by (auto elim: and_then_E)
  have v1: "valid s1" and c1: "cap s1 = cap s"
    using ins_valid ins_cap s1(1) Cons.prems(1) by blast+
  note e1 = ins_entries [OF Cons.prems(1) s1(1)]
  note cap = valid_cap [OF Cons.prems(1)]
  from Cons.IH [OF v1 s1(2)] c1 e1 cap show ?case
    by (cases "entries s")
       (auto simp: x Suc_diff_le not_less drop_Cons' split: if_splits)
qed

end

section \<open>The ring buffer\<close>

definition slot :: "'v baseline_store \<Rightarrow> nat \<Rightarrow> nat" where
  "slot b i = (bs_head b + i) mod length (bs_entries b)"

definition store_ok :: "'v baseline_store \<Rightarrow> bool" where
  "store_ok b \<longleftrightarrow> 0 < length (bs_entries b) \<and> bs_len b \<le> length (bs_entries b) \<and>
     bs_head b < length (bs_entries b) \<and>
     (bs_len b < length (bs_entries b) \<longrightarrow> bs_head b = 0) \<and>
     (\<forall>i < bs_len b. bs_entries b ! slot b i \<noteq> None)"

definition entry_pair :: "'v entry \<Rightarrow> snapshot_tick \<times> 'v" where
  "entry_pair e = (en_tick e, en_value e)"

lemma store_iter_map:
  assumes "store_ok b"
  shows "store_iter b = map (\<lambda>i. entry_pair (the (bs_entries b ! slot b i))) [0..<bs_len b]"
proof -
  have "concat (map (\<lambda>i. case bs_entries b ! slot b i of None \<Rightarrow> []
      | Some e \<Rightarrow> [(en_tick e, en_value e)]) [0..<n]) =
    map (\<lambda>i. entry_pair (the (bs_entries b ! slot b i))) [0..<n]" if "n \<le> bs_len b" for n
    using that assms by (induction n) (auto simp: store_ok_def entry_pair_def split: option.splits)
  then show ?thesis by (simp add: store_iter_def slot_def Let_def)
qed

lemma store_iter_length: "store_ok b \<Longrightarrow> length (store_iter b) = bs_len b"
  by (simp add: store_iter_map)

lemma slot_wrap:
  assumes "h < n" and "i < (n :: nat)"
  shows "(h + i) mod n = (if h + i < n then h + i else h + i - n)"
  using assms by (simp add: mod_if)

lemma slot_inj:
  assumes "h < n" and "i < n" and "j < n" and "(h + i) mod n = (h + j) mod (n :: nat)"
  shows "i = j"
  using assms by (simp add: slot_wrap split: if_splits)

lemma slot_last:
  assumes "h < n"
  shows "((h + 1) mod n + (n - 1)) mod n = (h :: nat)"
proof (cases "h + 1 < n")
  case True
  then have "(h + 1) mod n + (n - 1) = h + n" using assms by simp
  then show ?thesis using assms by simp
next
  case False
  then have "h + 1 = n" using assms by simp
  then show ?thesis using assms by auto
qed

lemma slot_rotate:
  assumes "h < n" and "i < n - 1"
  shows "((h + 1) mod n + i) mod n = (h + Suc i) mod (n :: nat)"
  using assms by (simp add: mod_simps)

text \<open>The store while it fills up, and once it is full.\<close>

lemma insert_filling:
  assumes ok: "store_ok b" and room: "bs_len b < length (bs_entries b)"
    and r: "store_insert t v b = Inr b'"
  shows "store_ok b' \<and> store_iter b' = store_iter b @ [(t, v)]"
proof -
  let ?n = "length (bs_entries b)" and ?e = "\<lparr>en_tick = t, en_value = v\<rparr>"
  have head: "bs_head b = 0" using ok room by (simp add: store_ok_def)
  have b': "b' = b\<lparr>bs_entries := (bs_entries b)[bs_len b := Some ?e], bs_len := bs_len b + 1,
      bs_last_tick := Some t\<rparr>"
    using r room head by (auto simp: store_insert_def Let_def split: option.splits if_splits)
  have sl: "slot b i = i" "slot b' i = i" if "i < ?n" for i
    using that head by (simp_all add: slot_def b')
  have ok': "store_ok b'"
    using ok room sl head by (auto simp: store_ok_def b' [symmetric] nth_list_update less_Suc_eq)
      (auto simp: b' nth_list_update)
  have "entry_pair (the (bs_entries b' ! slot b' i)) = entry_pair (the (bs_entries b ! slot b i))"
    if "i < bs_len b" for i
    using that room sl by (simp add: b')
  then have "store_iter b' = store_iter b @ [entry_pair ?e]"
    using ok ok' sl room by (simp add: store_iter_map) (simp add: b')
  with ok' show ?thesis by (simp add: entry_pair_def)
qed

lemma insert_full:
  assumes ok: "store_ok b" and full: "\<not> bs_len b < length (bs_entries b)"
    and r: "store_insert t v b = Inr b'"
  shows "store_ok b' \<and> store_iter b' = tl (store_iter b) @ [(t, v)]"
proof -
  let ?n = "length (bs_entries b)" and ?e = "\<lparr>en_tick = t, en_value = v\<rparr>" and ?h = "bs_head b"
  have n: "0 < ?n" "?h < ?n" "bs_len b = ?n" using ok full by (auto simp: store_ok_def)
  have b': "b' = b\<lparr>bs_entries := (bs_entries b)[?h := Some ?e], bs_head := (?h + 1) mod ?n,
      bs_last_tick := Some t\<rparr>"
    using r full by (auto simp: store_insert_def Let_def split: option.splits if_splits)
  have sl: "slot b' i = slot b (Suc i)" if "i < ?n - 1" for i
    using slot_rotate [OF n(2) that] by (simp add: slot_def b')
  have ne: "slot b (Suc i) \<noteq> ?h" if "i < ?n - 1" for i
  proof -
    have "Suc i < ?n" using that by simp
    then show ?thesis using slot_inj [of ?h ?n "Suc i" 0] n by (auto simp: slot_def)
  qed
  have lst: "slot b' (?n - 1) = ?h"
    using slot_last [OF n(2)] by (simp add: slot_def b')
  have at: "bs_entries b' ! slot b' i = (if i = ?n - 1 then Some ?e else bs_entries b ! slot b (Suc i))"
    if "i < ?n" for i
  proof (cases "i = ?n - 1")
    case True
    then show ?thesis using lst n by (simp add: b')
  next
    case False
    then have "i < ?n - 1" using that by simp
    then show ?thesis using sl ne [of i] False unfolding b' by simp
  qed
  have len': "bs_len b' = ?n" "length (bs_entries b') = ?n" using n by (simp_all add: b')
  have filled: "bs_entries b ! slot b i \<noteq> None" if "i < ?n" for i
    using ok that n by (simp add: store_ok_def)
  have ok': "store_ok b'"
    unfolding store_ok_def len' using n at filled by (auto simp: b')
  have tl: "tl (store_iter b) = map (\<lambda>i. entry_pair (the (bs_entries b ! slot b (Suc i)))) [0..<?n - 1]"
  proof (rule nth_equalityI)
    fix i assume "i < length (tl (store_iter b))"
    then have "Suc i < ?n" "i < ?n - 1" using n by (simp_all add: store_iter_map [OF ok])
    then show "tl (store_iter b) ! i =
        map (\<lambda>i. entry_pair (the (bs_entries b ! slot b (Suc i)))) [0..<?n - 1] ! i"
      using n by (simp add: store_iter_map [OF ok] nth_tl)
  qed (use n in \<open>simp add: store_iter_map [OF ok]\<close>)
  have split: "[0..<?n] = [0..<?n - 1] @ [?n - 1]"
    using n by (metis Suc_pred' upt_Suc_append zero_le)
  have "store_iter b' = map (\<lambda>i. entry_pair (the (bs_entries b' ! slot b' i))) ([0..<?n - 1] @ [?n - 1])"
    by (simp only: store_iter_map [OF ok'] len' split)
  also have "\<dots> = tl (store_iter b) @ [entry_pair ?e]"
    using n at by (simp add: tl)
  finally show ?thesis using ok' by (simp add: entry_pair_def)
qed

lemma store_new_ok: "0 < n \<Longrightarrow> store_ok (store_new n)"
  by (simp add: store_ok_def store_new_def)

lemma store_insert_shape:
  "store_insert t v b = Inr b' \<Longrightarrow>
    length (bs_entries b') = length (bs_entries b) \<and> bs_last_tick b' = Some t"
  by (auto simp: store_insert_def Let_def split: option.splits if_splits)

interpretation ring: baseline_history store_new store_insert store_iter store_capacity bs_last_tick store_ok
proof
  fix s s' :: "'v baseline_store" and t v and e :: baseline_error
  show "store_ok (store_new n)" if "0 < n" for n using that by (rule store_new_ok)
  show "store_iter (store_new n) = []" "store_capacity (store_new n) = n"
    "bs_last_tick (store_new n) = None" for n
    by (simp_all add: store_iter_def store_new_def store_capacity_def)
  show "store_insert t v s = Inl e \<longleftrightarrow> (\<exists>l. bs_last_tick s = Some l \<and> t \<le> l \<and> e = OutOfOrder l t)"
    by (auto simp: store_insert_def Let_def split: option.splits)
  assume ok: "store_ok s"
  show "0 < store_capacity s \<and> length (store_iter s) \<le> store_capacity s"
    using ok by (simp add: store_iter_length store_capacity_def store_ok_def)
  assume r: "store_insert t v s = Inr s'"
  show "store_ok s'" using insert_filling [OF ok _ r] insert_full [OF ok _ r] by blast
  show "store_iter s' =
      (if length (store_iter s) < store_capacity s then store_iter s else tl (store_iter s)) @ [(t, v)]"
    using insert_filling [OF ok _ r] insert_full [OF ok _ r]
    by (simp add: store_iter_length [OF ok] store_capacity_def)
  show "store_capacity s' = store_capacity s \<and> bs_last_tick s' = Some t"
    using store_insert_shape [OF r] by (simp add: store_capacity_def)
qed

section \<open>Lookups\<close>

lemma find_unique:
  assumes "sorted_wrt (<) (map fst xs)"
  shows "map_option snd (find (\<lambda>(t, v). t = (k :: 'k::linorder)) xs) = Some v \<longleftrightarrow> (k, v) \<in> set xs"
  using assms
proof (induction xs)
  case (Cons x xs)
  show ?case
  proof (cases "fst x = k")
    case True
    have "(k, w) \<notin> set xs" for w using Cons.prems True by force
    with True show ?thesis by (cases x) auto
  next
    case False
    then show ?thesis using Cons by (cases x) auto
  qed
qed simp

lemma store_get_iff:
  "ring.ordered b \<Longrightarrow> store_get t b = Some v \<longleftrightarrow> (t, v) \<in> set (store_iter b)"
  unfolding store_get_def by (rule find_unique) (simp add: ring.ordered_def)

lemma find_rev_latest:
  assumes "sorted_wrt (<) (map fst xs)" and "find (\<lambda>(t, v). t \<le> (k :: 'k::linorder)) (rev xs) = Some (t, v)"
  shows "(t, v) \<in> set xs \<and> t \<le> k \<and> (\<forall>(t', v') \<in> set xs. t' \<le> k \<longrightarrow> t' \<le> t)"
  using assms
proof (induction xs rule: rev_induct)
  case (snoc x xs)
  show ?case
  proof (cases "fst x \<le> k")
    case True
    with snoc.prems(2) have "x = (t, v)" by (cases x) simp
    moreover have "\<forall>(t', v') \<in> set xs. t' < fst x"
      using snoc.prems(1) by (auto simp: sorted_wrt_append)
    ultimately show ?thesis using True by fastforce
  next
    case False
    have "sorted_wrt (<) (map fst xs)" using snoc.prems(1) by (simp add: sorted_wrt_append)
    moreover have "find (\<lambda>(t, v). t \<le> k) (rev xs) = Some (t, v)"
      using snoc.prems(2) False by (cases x) simp
    ultimately show ?thesis using snoc.IH False by auto
  qed
qed simp

lemma store_latest_Some:
  assumes "ring.ordered b" and "store_latest_at_or_before k b = Some (t, v)"
  shows "(t, v) \<in> set (store_iter b) \<and> t \<le> k \<and> (\<forall>(t', v') \<in> set (store_iter b). t' \<le> k \<longrightarrow> t' \<le> t)"
proof (rule find_rev_latest)
  show "sorted_wrt (<) (map fst (store_iter b))" using assms(1) by (simp add: ring.ordered_def)
  show "find (\<lambda>(t, v). t \<le> k) (rev (store_iter b)) = Some (t, v)"
    using assms(2) by (simp add: store_latest_at_or_before_def)
qed

lemma find_None_all: "find P xs = None \<longleftrightarrow> (\<forall>x \<in> set xs. \<not> P x)"
  by (induction xs) auto

lemma store_latest_None:
  "store_latest_at_or_before k b = None \<longleftrightarrow> (\<forall>(t, v) \<in> set (store_iter b). k < t)"
proof -
  have "\<not> (case x of (t, v) \<Rightarrow> t \<le> k) \<longleftrightarrow> (case x of (t, v) \<Rightarrow> k < t)"
    for x :: "snapshot_tick \<times> 'a" by (cases x) (simp only: prod.case not_le)
  then show ?thesis by (simp only: store_latest_at_or_before_def find_None_all set_rev)
qed

end
