(* ===== verification/Delta_Encode.thy ===== *)
theory Delta_Encode
  imports Delta_Diff Wire_Session Baseline_Store
begin

text \<open>
  The scan-based delta encoder (codec/src/delta.rs): the bodies of the destroy, create and update
  sections, the payload and the two packet forms (with a full header, with a compact session header).
  A result of \<^const>\<open>None\<close> is a panic of the code (a slice out of range).

  The two sparse update bodies of the code differ in how they write the head of an entry and a field
  index; they are instances of one body here.
\<close>

section \<open>Destroys and creates\<close>

definition write_destroy_id :: "entity_id \<Rightarrow> bit_writer \<Rightarrow> codec_error + bit_writer" where
  "write_destroy_id eid w =
    and_then (lift_bit (writer_align_to_byte w)) (\<lambda>w. lift_bit (write_u32_aligned (entity_raw eid) w))"

fun destroy_loop ::
  "entity_snapshot list \<Rightarrow> entity_snapshot list \<Rightarrow> bit_writer \<Rightarrow> codec_error + bit_writer" where
  "destroy_loop (b # bs) (c # cs) w =
    (if entity_raw (es_id b) < entity_raw (es_id c) then
       and_then (write_destroy_id (es_id b) w) (destroy_loop bs (c # cs))
     else if entity_raw (es_id b) > entity_raw (es_id c) then destroy_loop (b # bs) cs w
     else destroy_loop bs cs w)"
| "destroy_loop (b # bs) [] w = and_then (write_destroy_id (es_id b) w) (destroy_loop bs [])"
| "destroy_loop [] (c # cs) w = destroy_loop [] cs w"
| "destroy_loop [] [] w = Inr w"

definition encode_destroy_body ::
  "snapshot \<Rightarrow> snapshot \<Rightarrow> usize \<Rightarrow> codec_limits \<Rightarrow> bit_writer \<Rightarrow> codec_error + bit_writer" where
  "encode_destroy_body baseline current destroy_count limits w =
    (if destroy_count > max_entities_destroy limits then
       Inl (CodecLimitsExceeded EntitiesDestroy (max_entities_destroy limits) destroy_count)
     else
       and_then (lift_bit (writer_align_to_byte w)) (\<lambda>w.
       and_then (lift_bit (write_varu32 (of_nat destroy_count) w)) (\<lambda>w.
       and_then (destroy_loop (sn_entities baseline) (sn_entities current) w) (\<lambda>w.
       lift_bit (writer_align_to_byte w)))))"

definition write_full_component ::
  "component_def \<Rightarrow> component_snapshot \<Rightarrow> codec_limits \<Rightarrow> bit_writer \<Rightarrow> codec_error + bit_writer" where
  "write_full_component component snapshot limits w =
    (if length (cs_fields snapshot) \<noteq> length (cd_fields component) then
       Inl (InvalidMask (FieldMask (cd_id component))
         (FieldCountMismatch (length (cd_fields component)) (length (cs_fields snapshot))))
     else if length (cs_fields snapshot) > max_fields_per_component limits then
       Inl (CodecLimitsExceeded FieldsPerComponent (max_fields_per_component limits)
         (length (cs_fields snapshot)))
     else
       and_then (try_fold (\<lambda>_ w. lift_bit (write_bit True w)) (cd_fields component) w) (\<lambda>w.
       try_fold (\<lambda>(field, v) w. write_field_value (cd_id component) field v w)
         (zip (cd_fields component) (cs_fields snapshot)) w))"

definition write_create_entity ::
  "schema \<Rightarrow> entity_snapshot \<Rightarrow> codec_limits \<Rightarrow> bit_writer \<Rightarrow> codec_error + bit_writer" where
  "write_create_entity s entity limits w =
    and_then (lift_bit (writer_align_to_byte w)) (\<lambda>w.
    and_then (lift_bit (write_u32_aligned (entity_raw (es_id entity)) w)) (\<lambda>w.
    and_then (ensure_known_components s entity) (\<lambda>_.
    and_then (write_component_mask s entity w) (\<lambda>w.
    try_fold (\<lambda>component w.
      case find_component entity (cd_id component) of
        Some snapshot \<Rightarrow> write_full_component component snapshot limits w
      | None \<Rightarrow> Inr w) (components s) w))))"

fun create_loop ::
  "schema \<Rightarrow> codec_limits \<Rightarrow> entity_snapshot list \<Rightarrow> entity_snapshot list \<Rightarrow> bit_writer \<Rightarrow>
    codec_error + bit_writer" where
  "create_loop s limits (b # bs) (c # cs) w =
    (if entity_raw (es_id b) < entity_raw (es_id c) then create_loop s limits bs (c # cs) w
     else if entity_raw (es_id b) > entity_raw (es_id c) then
       and_then (write_create_entity s c limits w) (create_loop s limits (b # bs) cs)
     else create_loop s limits bs cs w)"
| "create_loop s limits (b # bs) [] w = create_loop s limits bs [] w"
| "create_loop s limits [] (c # cs) w =
    and_then (write_create_entity s c limits w) (create_loop s limits [] cs)"
| "create_loop s limits [] [] w = Inr w"

definition delta_encode_create_body ::
  "schema \<Rightarrow> snapshot \<Rightarrow> snapshot \<Rightarrow> usize \<Rightarrow> codec_limits \<Rightarrow> bit_writer \<Rightarrow>
    codec_error + bit_writer" where
  "delta_encode_create_body s baseline current create_count limits w =
    (if create_count > max_entities_create limits then
       Inl (CodecLimitsExceeded EntitiesCreate (max_entities_create limits) create_count)
     else
       and_then (lift_bit (writer_align_to_byte w)) (\<lambda>w.
       and_then (lift_bit (write_varu32 (of_nat create_count) w)) (\<lambda>w.
       and_then (create_loop s limits (sn_entities baseline) (sn_entities current) w) (\<lambda>w.
       lift_bit (writer_align_to_byte w)))))"

section \<open>Masked updates\<close>

definition fill_component_changed :: "usize \<Rightarrow> codec_scratch \<Rightarrow> codec_scratch" where
  "fill_component_changed n sc =
    sc\<lparr>sc_component_changed := splice (sc_component_changed sc) 0 (replicate n False)\<rparr>"

text \<open>The first loop of \<open>write_update_components\<close> writes which components changed.\<close>

fun changed_bits_loop ::
  "usize \<Rightarrow> codec_limits \<Rightarrow> entity_snapshot \<Rightarrow> entity_snapshot \<Rightarrow> usize \<Rightarrow> component_def list \<Rightarrow>
    codec_scratch \<Rightarrow> bit_writer \<Rightarrow> codec_error + bit_writer \<times> codec_scratch" where
  "changed_bits_loop component_count limits base cur idx [] sc w = Inr (w, sc)"
| "changed_bits_loop component_count limits base cur idx (component # cs) sc w =
    and_then (matched_component component base cur limits) (\<lambda>pair.
    case pair of
      Some (b, c) \<Rightarrow>
        and_then (scratch_field_mask component_count component b c sc) (\<lambda>(mbits, sc).
        let any_changed = list_ex (\<lambda>b. b) mbits in
        and_then (lift_bit (write_bit any_changed w)) (\<lambda>w.
        changed_bits_loop component_count limits base cur (Suc idx) cs
          (if any_changed
           then sc\<lparr>sc_component_changed := (sc_component_changed sc)[idx := True]\<rparr> else sc) w))
    | None \<Rightarrow>
        and_then (lift_bit (write_bit False w)) (\<lambda>w.
        changed_bits_loop component_count limits base cur (Suc idx) cs sc w))"

text \<open>The second loop writes the field mask and the changed values of those components.\<close>

definition write_changed_fields ::
  "component_def \<Rightarrow> component_snapshot \<Rightarrow> component_snapshot \<Rightarrow> bool list \<Rightarrow> bit_writer \<Rightarrow>
    codec_error + bit_writer" where
  "write_changed_fields component b c mbits w =
    and_then (try_fold (\<lambda>changed w. lift_bit (write_bit changed w)) mbits w) (\<lambda>w.
    try_fold (\<lambda>(field, _, cur_val, changed) w.
        if changed then write_field_value (cd_id component) field cur_val w else Inr w)
      (zip (cd_fields component) (zip (cs_fields b) (zip (cs_fields c) mbits))) w)"

fun changed_fields_loop ::
  "usize \<Rightarrow> codec_limits \<Rightarrow> entity_snapshot \<Rightarrow> entity_snapshot \<Rightarrow> usize \<Rightarrow> component_def list \<Rightarrow>
    codec_scratch \<Rightarrow> bit_writer \<Rightarrow> codec_error + bit_writer \<times> codec_scratch" where
  "changed_fields_loop component_count limits base cur idx [] sc w = Inr (w, sc)"
| "changed_fields_loop component_count limits base cur idx (component # cs) sc w =
    (case (find_component base (cd_id component), find_component cur (cd_id component)) of
       (Some b, Some c) \<Rightarrow>
         if length (cd_fields component) > max_fields_per_component limits then
           Inl (CodecLimitsExceeded FieldsPerComponent (max_fields_per_component limits)
             (length (cd_fields component)))
         else
           let (sc, component_changed, slots) =
             component_and_field_masks_mut component_count (length (cd_fields component)) sc in
           if component_changed ! idx then
             and_then (compute_field_mask_into component b c slots) (\<lambda>mbits.
             and_then (write_changed_fields component b c mbits w) (\<lambda>w.
             changed_fields_loop component_count limits base cur (Suc idx) cs
               (store_field_mask mbits sc) w))
           else changed_fields_loop component_count limits base cur (Suc idx) cs sc w
     | _ \<Rightarrow> changed_fields_loop component_count limits base cur (Suc idx) cs sc w)"

definition write_update_components ::
  "schema \<Rightarrow> entity_snapshot \<Rightarrow> entity_snapshot \<Rightarrow> codec_limits \<Rightarrow> codec_scratch \<Rightarrow> bit_writer \<Rightarrow>
    codec_error + bit_writer \<times> codec_scratch" where
  "write_update_components s base cur limits sc w =
    (let component_count = length (components s);
         (sc, component_changed, _) = component_and_field_masks_mut component_count 0 sc;
         sc = fill_component_changed (length component_changed) sc
     in and_then (changed_bits_loop component_count limits base cur 0 (components s) sc w) (\<lambda>(w, sc).
        changed_fields_loop component_count limits base cur 0 (components s) sc w))"

fun masked_loop ::
  "schema \<Rightarrow> codec_limits \<Rightarrow> entity_snapshot list \<Rightarrow> entity_snapshot list \<Rightarrow> codec_scratch \<Rightarrow>
    bit_writer \<Rightarrow> codec_error + bit_writer \<times> codec_scratch" where
  "masked_loop s limits (b # bs) (c # cs) sc w =
    (if entity_raw (es_id b) < entity_raw (es_id c) then masked_loop s limits bs (c # cs) sc w
     else if entity_raw (es_id b) > entity_raw (es_id c) then masked_loop s limits (b # bs) cs sc w
     else
       and_then (entity_has_updates s b c limits) (\<lambda>updated.
       and_then
         (if updated then
            and_then (lift_bit (writer_align_to_byte w)) (\<lambda>w.
            and_then (lift_bit (write_u32_aligned (entity_raw (es_id c)) w)) (\<lambda>w.
            and_then (ensure_component_presence_matches s b c) (\<lambda>_.
            write_update_components s b c limits sc w)))
          else Inr (w, sc)) (\<lambda>(w, sc). masked_loop s limits bs cs sc w)))"
| "masked_loop s limits (b # bs) [] sc w = masked_loop s limits bs [] sc w"
| "masked_loop s limits [] (c # cs) sc w = masked_loop s limits [] cs sc w"
| "masked_loop s limits [] [] sc w = Inr (w, sc)"

definition encode_update_body_masked ::
  "schema \<Rightarrow> snapshot \<Rightarrow> snapshot \<Rightarrow> usize \<Rightarrow> codec_limits \<Rightarrow> codec_scratch \<Rightarrow> bit_writer \<Rightarrow>
    codec_error + bit_writer \<times> codec_scratch" where
  "encode_update_body_masked s baseline current update_count limits sc w =
    (if update_count > max_entities_update limits then
       Inl (CodecLimitsExceeded EntitiesUpdate (max_entities_update limits) update_count)
     else
       and_then (lift_bit (writer_align_to_byte w)) (\<lambda>w.
       and_then (lift_bit (write_varu32 (of_nat update_count) w)) (\<lambda>w.
       and_then (masked_loop s limits (sn_entities baseline) (sn_entities current) sc w) (\<lambda>(w, sc).
       and_then (lift_bit (writer_align_to_byte w)) (\<lambda>w. Inr (w, sc))))))"

section \<open>Sparse updates\<close>

text \<open>
  An entry is one changed component of one entity: a head (entity, component, number of changed
  fields), then an index and a value per changed field.
\<close>

definition write_head_packed :: "u32 \<Rightarrow> component_id \<Rightarrow> usize \<Rightarrow> bit_writer \<Rightarrow> codec_error + bit_writer" where
  "write_head_packed eid cid changed w =
    and_then (lift_bit (writer_align_to_byte w)) (\<lambda>w.
    and_then (lift_bit (write_varu32 eid w)) (\<lambda>w.
    and_then (lift_bit (write_varu32 (ucast (component_id_get cid)) w)) (\<lambda>w.
    lift_bit (write_varu32 (of_nat changed) w))))"

definition write_index_packed :: "component_def \<Rightarrow> usize \<Rightarrow> bit_writer \<Rightarrow> codec_error + bit_writer" where
  "write_index_packed component idx w =
    (let index_bits = field_index_bits component in
     if index_bits > 0 then lift_bit (write_bits (of_nat idx) index_bits w) else Inr w)"

definition write_head_varint :: "u32 \<Rightarrow> component_id \<Rightarrow> usize \<Rightarrow> bit_writer \<Rightarrow> codec_error + bit_writer" where
  "write_head_varint eid cid changed w =
    and_then (lift_bit (writer_align_to_byte w)) (\<lambda>w.
    and_then (lift_bit (write_u32_aligned eid w)) (\<lambda>w.
    and_then (lift_bit (write_u16_aligned (component_id_get cid) w)) (\<lambda>w.
    lift_bit (write_varu32 (of_nat changed) w))))"

definition write_index_varint :: "component_def \<Rightarrow> usize \<Rightarrow> bit_writer \<Rightarrow> codec_error + bit_writer" where
  "write_index_varint component idx w =
    and_then (lift_bit (writer_align_to_byte w)) (\<lambda>w. lift_bit (write_varu32 (of_nat idx) w))"

text \<open>The field loop, with \<open>field_mask[idx]\<close> and \<open>fields[idx]\<close> beside the field.\<close>

fun sparse_fields_loop ::
  "(component_def \<Rightarrow> usize \<Rightarrow> bit_writer \<Rightarrow> codec_error + bit_writer) \<Rightarrow> component_def \<Rightarrow> usize \<Rightarrow>
    field_def list \<Rightarrow> bool list \<Rightarrow> field_value list \<Rightarrow> bit_writer \<Rightarrow> codec_error + bit_writer" where
  "sparse_fields_loop write_index component idx (field # fs) (changed # mbits) (v # vs) w =
    (if changed then
       and_then (write_index component idx w) (\<lambda>w.
       and_then (write_field_value_sparse (cd_id component) field v w) (\<lambda>w.
       sparse_fields_loop write_index component (Suc idx) fs mbits vs w))
     else sparse_fields_loop write_index component (Suc idx) fs mbits vs w)"
| "sparse_fields_loop write_index component idx fs mbits vs w = Inr w"

fun sparse_components_loop ::
  "(u32 \<Rightarrow> component_id \<Rightarrow> usize \<Rightarrow> bit_writer \<Rightarrow> codec_error + bit_writer) \<Rightarrow>
    (component_def \<Rightarrow> usize \<Rightarrow> bit_writer \<Rightarrow> codec_error + bit_writer) \<Rightarrow>
    usize \<Rightarrow> codec_limits \<Rightarrow> entity_snapshot \<Rightarrow> entity_snapshot \<Rightarrow> component_def list \<Rightarrow>
    codec_scratch \<Rightarrow> bit_writer \<Rightarrow> codec_error + bit_writer \<times> codec_scratch" where
  "sparse_components_loop write_head write_index component_count limits base cur [] sc w = Inr (w, sc)"
| "sparse_components_loop write_head write_index component_count limits base cur (component # cs) sc w =
    and_then (matched_component component base cur limits) (\<lambda>pair.
    case pair of
      Some (b, c) \<Rightarrow>
        and_then (scratch_field_mask component_count component b c sc) (\<lambda>(mbits, sc).
        let changed_fields = count_changed mbits in
        and_then
          (if changed_fields > 0 then
             and_then (write_head (entity_raw (es_id cur)) (cd_id component) changed_fields w) (\<lambda>w.
             sparse_fields_loop write_index component 0 (cd_fields component) mbits (cs_fields c) w)
           else Inr w) (\<lambda>w.
        sparse_components_loop write_head write_index component_count limits base cur cs sc w))
    | None \<Rightarrow>
        sparse_components_loop write_head write_index component_count limits base cur cs sc w)"

fun sparse_entities_loop ::
  "(u32 \<Rightarrow> component_id \<Rightarrow> usize \<Rightarrow> bit_writer \<Rightarrow> codec_error + bit_writer) \<Rightarrow>
    (component_def \<Rightarrow> usize \<Rightarrow> bit_writer \<Rightarrow> codec_error + bit_writer) \<Rightarrow>
    schema \<Rightarrow> codec_limits \<Rightarrow> entity_snapshot list \<Rightarrow> entity_snapshot list \<Rightarrow>
    codec_scratch \<Rightarrow> bit_writer \<Rightarrow> codec_error + bit_writer \<times> codec_scratch" where
  "sparse_entities_loop write_head write_index s limits (base # bs) (cur # cs) sc w =
    (if es_id base < es_id cur then
       sparse_entities_loop write_head write_index s limits bs (cur # cs) sc w
     else if es_id base > es_id cur then
       sparse_entities_loop write_head write_index s limits (base # bs) cs sc w
     else
       and_then (entity_has_updates s base cur limits) (\<lambda>updated.
       and_then
         (if updated then
            sparse_components_loop write_head write_index (length (components s)) limits base cur
              (components s) sc w
          else Inr (w, sc)) (\<lambda>(w, sc).
       sparse_entities_loop write_head write_index s limits bs cs sc w)))"
| "sparse_entities_loop write_head write_index s limits bs cs sc w = Inr (w, sc)"

definition encode_update_body_sparse ::
  "(u32 \<Rightarrow> component_id \<Rightarrow> usize \<Rightarrow> bit_writer \<Rightarrow> codec_error + bit_writer) \<Rightarrow>
    (component_def \<Rightarrow> usize \<Rightarrow> bit_writer \<Rightarrow> codec_error + bit_writer) \<Rightarrow>
    schema \<Rightarrow> snapshot \<Rightarrow> snapshot \<Rightarrow> usize \<Rightarrow> codec_limits \<Rightarrow> codec_scratch \<Rightarrow> bit_writer \<Rightarrow>
    codec_error + bit_writer \<times> codec_scratch" where
  "encode_update_body_sparse write_head write_index s baseline current update_count limits sc w =
    (if update_count > max_entities_update limits then
       Inl (CodecLimitsExceeded EntitiesUpdate (max_entities_update limits) update_count)
     else
       and_then (count_sparse_update_entries s baseline current limits sc) (\<lambda>(entry_count, sc).
       let entry_limit = saturating_mul (max_entities_update limits) (max_components_per_entity limits) in
       if entry_count > entry_limit then
         Inl (CodecLimitsExceeded EntitiesUpdate entry_limit entry_count)
       else
         and_then (lift_bit (writer_align_to_byte w)) (\<lambda>w.
         and_then (lift_bit (write_varu32 (of_nat entry_count) w)) (\<lambda>w.
         and_then (sparse_entities_loop write_head write_index s limits
             (sn_entities baseline) (sn_entities current) sc w) (\<lambda>(w, sc).
         and_then (lift_bit (writer_align_to_byte w)) (\<lambda>w. Inr (w, sc)))))))"

definition encode_update_body_sparse_packed ::
  "schema \<Rightarrow> snapshot \<Rightarrow> snapshot \<Rightarrow> usize \<Rightarrow> codec_limits \<Rightarrow> codec_scratch \<Rightarrow> bit_writer \<Rightarrow>
    codec_error + bit_writer \<times> codec_scratch" where
  "encode_update_body_sparse_packed = encode_update_body_sparse write_head_packed write_index_packed"

definition encode_update_body_sparse_varint ::
  "schema \<Rightarrow> snapshot \<Rightarrow> snapshot \<Rightarrow> usize \<Rightarrow> codec_limits \<Rightarrow> codec_scratch \<Rightarrow> bit_writer \<Rightarrow>
    codec_error + bit_writer \<times> codec_scratch" where
  "encode_update_body_sparse_varint = encode_update_body_sparse write_head_varint write_index_varint"

section \<open>The payload\<close>

datatype encode_update_mode = AutoMode | SparseMode

text \<open>
  The step that the payload encoders repeat: \<^verbatim>\<open>let written = write_section(tag, &mut out[offset..], ..)?;
  offset += written\<close>.  The body forgets the scratch buffers it used: see the theorem that no result
  depends on them.
\<close>

definition append_section ::
  "section_tag \<Rightarrow> codec_limits \<Rightarrow> (bit_writer \<Rightarrow> codec_error + bit_writer) \<Rightarrow> usize \<times> u8 list \<Rightarrow>
    (codec_error + usize \<times> u8 list) option" where
  "append_section tag limits write_body = (\<lambda>(offset, out).
    if offset > length out then None
    else
      try_then (write_section tag (drop offset out) limits write_body) (\<lambda>(written, tail).
        Some (Inr (offset + written, take offset out @ tail))))"

text \<open>A section is there when it has entries.\<close>

definition append_section_if ::
  "usize \<Rightarrow> section_tag \<Rightarrow> codec_limits \<Rightarrow> (bit_writer \<Rightarrow> codec_error + bit_writer) \<Rightarrow> usize \<times> u8 list \<Rightarrow>
    (codec_error + usize \<times> u8 list) option" where
  "append_section_if n tag limits write_body st =
    (if n > 0 then append_section tag limits write_body st else Some (Inr st))"

definition append_updates ::
  "schema \<Rightarrow> snapshot \<Rightarrow> snapshot \<Rightarrow> usize \<Rightarrow> codec_limits \<Rightarrow> codec_scratch \<Rightarrow> encode_update_mode \<Rightarrow>
    usize \<times> u8 list \<Rightarrow> (codec_error + usize \<times> u8 list) option" where
  "append_updates s baseline current update_count limits sc mode st =
    try_then
      (case mode of
         AutoMode \<Rightarrow> Some (select_update_encoding s baseline current limits sc)
       | SparseMode \<Rightarrow> Some (Inr (Sparse, sc))) (\<lambda>(encoding, sc).
    case encoding of
      Masked \<Rightarrow>
        append_section EntityUpdate limits
          (\<lambda>w. map_ok fst (encode_update_body_masked s baseline current update_count limits sc w)) st
    | Sparse \<Rightarrow>
        append_section EntityUpdateSparsePacked limits
          (\<lambda>w. map_ok fst (encode_update_body_sparse_packed s baseline current update_count limits sc w)) st)"

definition encode_delta_payload_with_mode ::
  "schema \<Rightarrow> snapshot_tick \<Rightarrow> snapshot \<Rightarrow> snapshot \<Rightarrow> codec_limits \<Rightarrow> codec_scratch \<Rightarrow> u8 list \<Rightarrow>
    encode_update_mode \<Rightarrow> (codec_error + usize \<times> u8 list) option" where
  "encode_delta_payload_with_mode s baseline_tick baseline current limits sc out mode =
    (if sn_tick baseline \<noteq> baseline_tick then
       Some (Inl (BaselineTickMismatch (tick_raw (sn_tick baseline)) (tick_raw baseline_tick)))
     else
     try_then (Some (ensure_entities_sorted (sn_entities baseline))) (\<lambda>_.
     try_then (Some (ensure_entities_sorted (sn_entities current))) (\<lambda>_.
     try_then (Some (diff_counts_of s baseline current limits diff_counts_default)) (\<lambda>counts.
     if dc_creates counts > max_entities_create limits then
       Some (Inl (CodecLimitsExceeded EntitiesCreate (max_entities_create limits) (dc_creates counts)))
     else if dc_updates counts > max_entities_update limits then
       Some (Inl (CodecLimitsExceeded EntitiesUpdate (max_entities_update limits) (dc_updates counts)))
     else if dc_destroys counts > max_entities_destroy limits then
       Some (Inl (CodecLimitsExceeded EntitiesDestroy (max_entities_destroy limits) (dc_destroys counts)))
     else
     try_then (append_section_if (dc_destroys counts) EntityDestroy limits
         (encode_destroy_body baseline current (dc_destroys counts) limits) (0, out)) (\<lambda>st.
     try_then (append_section_if (dc_creates counts) EntityCreate limits
         (delta_encode_create_body s baseline current (dc_creates counts) limits) st) (\<lambda>st.
     if dc_updates counts > 0
     then append_updates s baseline current (dc_updates counts) limits sc mode st
     else Some (Inr st)))))))"

section \<open>The packets\<close>

text \<open>The header in front of a payload, as the two packet encoders write it.\<close>

definition finish_delta_packet ::
  "(u8 list \<Rightarrow> u8 list) \<Rightarrow> schema \<Rightarrow> snapshot_tick \<Rightarrow> snapshot_tick \<Rightarrow> u8 list \<Rightarrow> usize \<Rightarrow> u8 list \<Rightarrow>
    codec_error + usize \<times> u8 list" where
  "finish_delta_packet blake3 s tick baseline_tick out payload_len payload =
    (let header = header_delta_snapshot (schema_hash blake3 s) (tick_raw tick) (tick_raw baseline_tick)
           (of_nat payload_len)
     in case encode_header header (take HEADER_SIZE out) of
          Inl _ \<Rightarrow> Inl (OutputTooSmall HEADER_SIZE (length out))
        | Inr (_, head) \<Rightarrow> Inr (HEADER_SIZE + payload_len, head @ payload))"

definition encode_delta_snapshot_with_scratch_mode ::
  "(u8 list \<Rightarrow> u8 list) \<Rightarrow> schema \<Rightarrow> snapshot_tick \<Rightarrow> snapshot_tick \<Rightarrow> snapshot \<Rightarrow> snapshot \<Rightarrow>
    codec_limits \<Rightarrow> codec_scratch \<Rightarrow> u8 list \<Rightarrow> encode_update_mode \<Rightarrow>
    (codec_error + usize \<times> u8 list) option" where
  "encode_delta_snapshot_with_scratch_mode blake3 s tick baseline_tick baseline current limits sc out mode =
    (if length out < HEADER_SIZE then Some (Inl (OutputTooSmall HEADER_SIZE (length out)))
     else
       try_then (encode_delta_payload_with_mode s baseline_tick baseline current limits sc
           (drop HEADER_SIZE out) mode) (\<lambda>(payload_len, payload).
       Some (finish_delta_packet blake3 s tick baseline_tick out payload_len payload)))"

definition encode_delta_snapshot_with_scratch where
  "encode_delta_snapshot_with_scratch blake3 s tick baseline_tick baseline current limits sc out =
    encode_delta_snapshot_with_scratch_mode blake3 s tick baseline_tick baseline current limits sc out
      AutoMode"

definition encode_delta_snapshot where
  "encode_delta_snapshot blake3 s tick baseline_tick baseline current limits out =
    encode_delta_snapshot_with_scratch blake3 s tick baseline_tick baseline current limits
      codec_scratch_new out"

definition encode_delta_snapshot_for_client_with_scratch where
  "encode_delta_snapshot_for_client_with_scratch blake3 s tick baseline_tick baseline current limits sc out =
    encode_delta_snapshot_with_scratch_mode blake3 s tick baseline_tick baseline current limits sc out
      SparseMode"

definition encode_delta_snapshot_for_client where
  "encode_delta_snapshot_for_client blake3 s tick baseline_tick baseline current limits out =
    encode_delta_snapshot_for_client_with_scratch blake3 s tick baseline_tick baseline current limits
      codec_scratch_new out"

text \<open>The compact form; the third component of the result is the caller's last tick.\<close>

definition encode_delta_snapshot_for_client_session_with_scratch ::
  "schema \<Rightarrow> snapshot_tick \<Rightarrow> snapshot_tick \<Rightarrow> snapshot \<Rightarrow> snapshot \<Rightarrow> codec_limits \<Rightarrow>
    codec_scratch \<Rightarrow> snapshot_tick \<Rightarrow> u8 list \<Rightarrow> (codec_error + usize \<times> u8 list \<times> snapshot_tick) option" where
  "encode_delta_snapshot_for_client_session_with_scratch s tick baseline_tick baseline current limits
     sc last_tick out =
    (let max_header = SESSION_MAX_HEADER_SIZE in
     if length out < max_header then Some (Inl (OutputTooSmall max_header (length out)))
     else if tick_raw tick \<le> tick_raw last_tick then
       Some (Inl (InvalidEntityOrder (tick_raw last_tick) (tick_raw tick)))
     else if tick_raw baseline_tick > tick_raw tick then
       Some (Inl (BaselineTickMismatch (tick_raw baseline_tick) (tick_raw tick)))
     else
       try_then (encode_delta_payload_with_mode s baseline_tick baseline current limits sc
           (drop max_header out) SparseMode) (\<lambda>(payload_len, payload).
       let tick_delta = tick_raw tick - tick_raw last_tick;
           baseline_delta = tick_raw tick - tick_raw baseline_tick in
       case encode_session_header (take max_header out) session_flags_delta_snapshot
           tick_delta baseline_delta (of_nat payload_len) of
         None \<Rightarrow> None
       | Some (Inl _) \<Rightarrow> Some (Inl (OutputTooSmall max_header (length out)))
       | Some (Inr (header_len, head)) \<Rightarrow>
           let out = head @ payload in
           if header_len < max_header then
             if max_header + payload_len > length out \<or> header_len + payload_len > length out then None
             else Some (Inr (header_len + payload_len,
               copy_within out max_header (max_header + payload_len) header_len, tick))
           else Some (Inr (header_len + payload_len, out, tick))))"

definition encode_delta_snapshot_for_client_session where
  "encode_delta_snapshot_for_client_session s tick baseline_tick baseline current limits last_tick out =
    encode_delta_snapshot_for_client_session_with_scratch s tick baseline_tick baseline current limits
      codec_scratch_new last_tick out"

definition select_baseline_tick :: "'v baseline_store \<Rightarrow> snapshot_tick \<Rightarrow> snapshot_tick option" where
  "select_baseline_tick store ack_tick = map_option fst (store_latest_at_or_before ack_tick store)"

end
