(* ===== verification/Delta_Changes.thy ===== *)
theory Delta_Changes
  imports Delta_Apply Delta_Encode
begin

text \<open>
  What a delta means, without bits and buffers: the destroyed and created entities of two sorted
  lists, the updates of the entities in both, and the entities that applying them yields.  The scans of
  the encoder are related to these here; the sections that carry them are in the next theories.
\<close>

section \<open>Changes of components and entities\<close>

text \<open>The changed values with their field indices.\<close>

fun picked :: "nat \<Rightarrow> bool list \<Rightarrow> 'a list \<Rightarrow> (nat \<times> 'a) list" where
  "picked i (m # ms) (v # vs) = (if m then (i, v) # picked (Suc i) ms vs else picked (Suc i) ms vs)"
| "picked i ms vs = []"

definition component_change ::
  "codec_limits \<Rightarrow> entity_snapshot \<Rightarrow> entity_snapshot \<Rightarrow> component_def \<Rightarrow>
    codec_error + delta_update_component option" where
  "component_change limits base cur component =
    and_then (matched_component component base cur limits) (\<lambda>pair.
    case pair of
      None \<Rightarrow> Inr None
    | Some (b, c) \<Rightarrow>
        and_then (changed_mask component b c) (\<lambda>mbits.
        Inr (if list_ex (\<lambda>b. b) mbits
             then Some \<lparr>uc_id = cd_id component, uc_fields = picked 0 mbits (cs_fields c)\<rparr>
             else None)))"

fun entity_changes ::
  "codec_limits \<Rightarrow> entity_snapshot \<Rightarrow> entity_snapshot \<Rightarrow> component_def list \<Rightarrow>
    codec_error + delta_update_component list" where
  "entity_changes limits base cur [] = Inr []"
| "entity_changes limits base cur (component # cs) =
    and_then (component_change limits base cur component) (\<lambda>u.
    and_then (entity_changes limits base cur cs) (\<lambda>us.
    Inr (case u of Some u \<Rightarrow> u # us | None \<Rightarrow> us)))"

fun diff_updates ::
  "schema \<Rightarrow> codec_limits \<Rightarrow> entity_snapshot list \<Rightarrow> entity_snapshot list \<Rightarrow>
    codec_error + delta_update_entity list" where
  "diff_updates s limits (b # bs) (c # cs) =
    (if es_id b < es_id c then diff_updates s limits bs (c # cs)
     else if es_id c < es_id b then diff_updates s limits (b # bs) cs
     else
       and_then (entity_has_updates s b c limits) (\<lambda>updated.
       if updated then
         and_then (entity_changes limits b c (components s)) (\<lambda>us.
         and_then (diff_updates s limits bs cs) (\<lambda>rest.
         Inr (\<lparr>ue_id = es_id c, ue_components = us\<rparr> # rest)))
       else diff_updates s limits bs cs))"
| "diff_updates s limits bs cs = Inr []"

definition destroyed :: "entity_snapshot list \<Rightarrow> entity_snapshot list \<Rightarrow> entity_snapshot list" where
  "destroyed bs cs = filter (\<lambda>b. es_id b \<notin> es_id ` set cs) bs"

definition created :: "entity_snapshot list \<Rightarrow> entity_snapshot list \<Rightarrow> entity_snapshot list" where
  "created bs cs = filter (\<lambda>c. es_id c \<notin> es_id ` set bs) cs"

section \<open>Masks\<close>

lemma count_changed_pos: "0 < count_changed m \<longleftrightarrow> list_ex (\<lambda>b. b) m"
  by (induction m) (auto simp: count_changed_def)

lemma length_picked: "length m = length vs \<Longrightarrow> length (picked i m vs) = count_changed m"
  by (induction i m vs rule: picked.induct) (auto simp: count_changed_def)

lemma picked_none: "\<not> list_ex (\<lambda>b. b) m \<Longrightarrow> picked i m vs = []"
  by (induction i m vs rule: picked.induct) auto

lemma changed_mask_length: "changed_mask component b c = Inr m \<Longrightarrow> length m = length (cd_fields component)"
  by (auto simp: changed_mask_def compute_field_mask_into_def dest: field_mask_loop_length)

lemma any_field_changed_mask:
  "field_mask_loop c fs as bs slots = Inr m \<Longrightarrow> length as = length fs \<Longrightarrow> length bs = length fs \<Longrightarrow>
    length slots = length fs \<Longrightarrow> any_field_changed c fs as bs = Inr (list_ex (\<lambda>b. b) m)"
proof (induction c fs as bs slots arbitrary: m rule: field_mask_loop.induct)
  case (1 c f fs a as b bs slot slots)
  from "1.prems"(1) obtain v m' where v: "field_changed c f a b = Inr v"
    and m': "field_mask_loop c fs as bs slots = Inr m'" "m = v # m'"
    by (auto elim!: and_then_E)
  have "any_field_changed c fs as bs = Inr (list_ex (\<lambda>b. b) m')"
    using "1.IH" [OF v m'(1)] "1.prems" by simp
  with v m'(2) show ?case by simp
qed auto

lemma any_field_changed_False:
  "any_field_changed c fs as bs = Inr False \<Longrightarrow> length as = length fs \<Longrightarrow> length bs = length fs \<Longrightarrow>
    length slots = length fs \<Longrightarrow> \<exists>m. field_mask_loop c fs as bs slots = Inr m \<and> \<not> list_ex (\<lambda>b. b) m"
proof (induction c fs as bs slots rule: field_mask_loop.induct)
  case (1 c f fs a as b bs slot slots)
  from "1.prems"(1) have v: "field_changed c f a b = Inr False"
    and rest: "any_field_changed c fs as bs = Inr False"
    by (auto elim!: and_then_E split: if_splits)
  from "1.IH" [OF v rest] "1.prems" obtain m where
    "field_mask_loop c fs as bs slots = Inr m" "\<not> list_ex (\<lambda>b. b) m" by auto
  with v show ?case by (intro exI [of _ "False # m"]) simp
qed auto

lemma component_change_cases:
  assumes "component_change limits base cur component = Inr u"
  obtains (absent) "u = None" and "matched_component component base cur limits = Inr None"
  | (present) b c m where "matched_component component base cur limits = Inr (Some (b, c))"
      and "changed_mask component b c = Inr m"
      and "u = (if list_ex (\<lambda>b. b) m
        then Some \<lparr>uc_id = cd_id component, uc_fields = picked 0 m (cs_fields c)\<rparr> else None)"
proof -
  from assms obtain pair where pair: "matched_component component base cur limits = Inr pair"
    unfolding component_change_def by (rule and_then_E)
  show thesis
  proof (cases pair)
    case None
    with assms pair show thesis by (intro absent) (simp_all add: component_change_def)
  next
    case (Some bc)
    obtain b c where bc: "bc = (b, c)" by (cases bc)
    with assms pair Some obtain m where m: "changed_mask component b c = Inr m"
      by (auto simp: component_change_def elim!: and_then_E)
    with assms pair Some bc show thesis by (intro present [of b c m]) (simp_all add: component_change_def)
  qed
qed

section \<open>An entity has updates exactly when it has changes\<close>

lemma presence_loop_Inr:
  "presence_loop base cur cs = Inr u \<longleftrightarrow>
    (\<forall>c \<in> set cs. find_component base (cd_id c) \<noteq> None \<longleftrightarrow> find_component cur (cd_id c) \<noteq> None)"
  by (induction cs) auto

lemma has_updates_changes:
  "has_updates_loop limits base cur cs = Inr updated \<Longrightarrow> entity_changes limits base cur cs = Inr us \<Longrightarrow>
    updated \<longleftrightarrow> us \<noteq> []"
proof (induction cs arbitrary: us)
  case (Cons component cs)
  from Cons.prems(2) obtain u us' where u: "component_change limits base cur component = Inr u"
    and us': "entity_changes limits base cur cs = Inr us'"
    and us: "us = (case u of Some u \<Rightarrow> u # us' | None \<Rightarrow> us')"
    by (auto simp: res_simps)
  from u show ?case
  proof (cases rule: component_change_cases)
    case absent
    then have "has_updates_loop limits base cur cs = Inr updated"
      using Cons.prems(1) by (simp add: matched_component_None)
    with Cons.IH [OF _ us'] us absent(1) show ?thesis by simp
  next
    case (present b c m)
    then have found: "find_component base (cd_id component) = Some b"
        "find_component cur (cd_id component) = Some c"
      and counts: "check_field_counts component b c limits = Inr ()"
      by (simp_all add: matched_component_Some)
    have "any_field_changed (cd_id component) (cd_fields component) (cs_fields b) (cs_fields c) =
        Inr (list_ex (\<lambda>b. b) m)"
      using present(2) counts unfolding check_field_counts_Inr changed_mask_def compute_field_mask_into_def
      by (intro any_field_changed_mask) auto
    with found counts Cons.prems(1) Cons.IH [OF _ us'] us present(3) show ?thesis
      by (auto split: if_splits)
  qed
qed simp

lemma no_updates_no_changes:
  "has_updates_loop limits base cur cs = Inr False \<Longrightarrow> presence_loop base cur cs = Inr u \<Longrightarrow>
    entity_changes limits base cur cs = Inr []"
proof (induction cs)
  case (Cons component cs)
  then have pres: "find_component base (cd_id component) \<noteq> None \<longleftrightarrow>
      find_component cur (cd_id component) \<noteq> None"
    and rest: "presence_loop base cur cs = Inr u"
    by (auto split: if_splits)
  show ?case
  proof (cases "find_component base (cd_id component)")
    case None
    with pres have "matched_component component base cur limits = Inr None"
      by (simp add: matched_component_None)
    with None Cons.prems(1) Cons.IH [OF _ rest] show ?thesis by (simp add: component_change_def)
  next
    case (Some b)
    with pres obtain c where c: "find_component cur (cd_id component) = Some c" by auto
    with Some Cons.prems(1) have counts: "check_field_counts component b c limits = Inr ()"
      and "any_field_changed (cd_id component) (cd_fields component) (cs_fields b) (cs_fields c) = Inr False"
      and tail: "has_updates_loop limits base cur cs = Inr False"
      by (auto simp: res_simps split: if_splits)
    then obtain m where m: "changed_mask component b c = Inr m" "\<not> list_ex (\<lambda>b. b) m"
      using any_field_changed_False unfolding check_field_counts_Inr changed_mask_def compute_field_mask_into_def
      by (metis length_replicate)
    have "matched_component component base cur limits = Inr (Some (b, c))"
      using Some c counts by (simp add: matched_component_Some)
    with m tail Cons.IH [OF _ rest] show ?thesis by (simp add: component_change_def)
  qed
qed simp

lemma entity_has_updates_changes:
  "entity_has_updates s base cur limits = Inr updated \<Longrightarrow>
    entity_changes limits base cur (components s) = Inr us \<Longrightarrow> updated \<longleftrightarrow> us \<noteq> []"
  by (auto simp: entity_has_updates_def res_simps dest: has_updates_changes)

lemma entity_has_no_updates:
  "entity_has_updates s base cur limits = Inr False \<Longrightarrow>
    entity_changes limits base cur (components s) = Inr []"
  by (auto simp: entity_has_updates_def ensure_component_presence_matches_def res_simps
      intro: no_updates_no_changes)

section \<open>The merges on sorted lists\<close>

lemma merge_base_first:
  assumes "ids_sorted (c # cs)" and "es_id b < es_id c"
  shows "destroyed (b # bs) (c # cs) = b # destroyed bs (c # cs)"
    and "created (b # bs) (c # cs) = created bs (c # cs)"
proof -
  have "\<forall>x \<in> set (c # cs). es_id b < es_id x" using assms by auto
  then have "es_id b \<notin> es_id ` set (c # cs)" by (rule below_all_notin)
  then show "destroyed (b # bs) (c # cs) = b # destroyed bs (c # cs)" by (simp add: destroyed_def)
  show "created (b # bs) (c # cs) = created bs (c # cs)"
    unfolding created_def by (rule filter_cong) (use assms in auto)
qed

lemma merge_current_first:
  assumes "ids_sorted (b # bs)" and "es_id c < es_id b"
  shows "created (b # bs) (c # cs) = c # created (b # bs) cs"
    and "destroyed (b # bs) (c # cs) = destroyed (b # bs) cs"
proof -
  have "\<forall>x \<in> set (b # bs). es_id c < es_id x" using assms by auto
  then have "es_id c \<notin> es_id ` set (b # bs)" by (rule below_all_notin)
  then show "created (b # bs) (c # cs) = c # created (b # bs) cs" by (simp add: created_def)
  show "destroyed (b # bs) (c # cs) = destroyed (b # bs) cs"
    unfolding destroyed_def by (rule filter_cong) (use assms in auto)
qed

lemma merge_both:
  assumes "ids_sorted (b # bs)" and "ids_sorted (c # cs)" and "es_id b = es_id c"
  shows "destroyed (b # bs) (c # cs) = destroyed bs cs"
    and "created (b # bs) (c # cs) = created bs cs"
proof -
  have "\<forall>x \<in> set bs. es_id x \<noteq> es_id c" "\<forall>x \<in> set cs. es_id x \<noteq> es_id b" using assms by auto
  then show "destroyed (b # bs) (c # cs) = destroyed bs cs" "created (b # bs) (c # cs) = created bs cs"
    unfolding destroyed_def created_def using assms(3) by (auto intro!: filter_cong)
qed

lemma merge_empty [simp]:
  "destroyed [] cs = []" "created bs [] = []" "destroyed bs [] = bs" "created [] cs = cs"
  by (simp_all add: destroyed_def created_def)

lemmas merge_simps = merge_base_first merge_current_first merge_both

lemma destroyed_sorted: "ids_sorted bs \<Longrightarrow> ids_sorted (destroyed bs cs)"
  unfolding destroyed_def by (rule ids_sorted_filter)

lemma created_sorted: "ids_sorted cs \<Longrightarrow> ids_sorted (created bs cs)"
  unfolding created_def by (rule ids_sorted_filter)

lemma diff_counts_loop_result:
  "diff_counts_loop s l bs cs counts = Inr counts' \<Longrightarrow> ids_sorted bs \<Longrightarrow> ids_sorted cs \<Longrightarrow>
    dc_destroys counts' = dc_destroys counts + length (destroyed bs cs) \<and>
    dc_creates counts' = dc_creates counts + length (created bs cs) \<and>
    (\<forall>us. diff_updates s l bs cs = Inr us \<longrightarrow> dc_updates counts' = dc_updates counts + length us)"
proof (induction s l bs cs counts rule: diff_counts_loop.induct)
  case (1 s limits b bs c cs counts)
  consider "es_id b < es_id c" | "es_id c < es_id b" | "es_id b = es_id c" by (rule linorder_cases)
  then show ?case
  proof cases
    case 1
    then show ?thesis using "1.IH"(1) "1.prems" merge_base_first [OF "1.prems"(3) 1] by simp
  next
    case 2
    then have "\<not> es_id b < es_id c" by simp
    then show ?thesis using 2 "1.IH"(2) "1.prems" merge_current_first [OF "1.prems"(2) 2] by simp
  next
    case 3
    from 3 "1.prems"(1) obtain updated where u: "entity_has_updates s b c limits = Inr updated"
      and rest: "diff_counts_loop s limits bs cs
        (if updated then counts\<lparr>dc_updates := dc_updates counts + 1\<rparr> else counts) = Inr counts'"
      by (auto elim: and_then_E)
    from "1.IH"(3) [OF _ _ u rest] "1.prems" 3
    have IH: "dc_destroys counts' = dc_destroys counts + length (destroyed bs cs)"
      "dc_creates counts' = dc_creates counts + length (created bs cs)"
      "\<And>us. diff_updates s limits bs cs = Inr us \<Longrightarrow>
        dc_updates counts' = (if updated then 1 else 0) + dc_updates counts + length us"
      by auto
    from IH(1,2) IH(3) u show ?thesis
      using 3 merge_both [OF "1.prems"(2,3) 3] by (auto simp: res_simps)
  qed
next
  case (2 s limits b bs counts)
  then show ?case by simp
next
  case (3 s limits c cs counts)
  then show ?case by simp
next
  case (4 s limits counts)
  then show ?case by simp
qed

lemma destroy_loop_destroyed:
  "ids_sorted bs \<Longrightarrow> ids_sorted cs \<Longrightarrow>
    destroy_loop bs cs w = try_fold (\<lambda>e. write_destroy_id (es_id e)) (destroyed bs cs) w"
proof (induction bs cs w rule: destroy_loop.induct)
  case (1 b bs c cs w)
  consider "es_id b < es_id c" | "es_id c < es_id b" | "es_id b = es_id c" by (rule linorder_cases)
  then show ?case
  proof cases
    case 1
    with "1.IH"(1) "1.prems" merge_base_first [OF "1.prems"(2) 1] show ?thesis
      by (cases "write_destroy_id (es_id b) w") simp_all
  next
    case 2
    then have "\<not> es_id b < es_id c" by simp
    with 2 "1.IH"(2) "1.prems" merge_current_first [OF "1.prems"(1) 2] show ?thesis by simp
  next
    case 3
    with "1.IH"(3) "1.prems" merge_both [OF "1.prems" 3] show ?thesis by simp
  qed
next
  case (2 b bs w)
  then show ?case by (cases "write_destroy_id (es_id b) w") simp_all
qed simp_all

lemma create_loop_created:
  "ids_sorted bs \<Longrightarrow> ids_sorted cs \<Longrightarrow>
    create_loop s l bs cs w = try_fold (\<lambda>e. write_create_entity s e l) (created bs cs) w"
proof (induction s l bs cs w rule: create_loop.induct)
  case (1 s l b bs c cs w)
  consider "es_id b < es_id c" | "es_id c < es_id b" | "es_id b = es_id c" by (rule linorder_cases)
  then show ?case
  proof cases
    case 1
    with "1.IH"(1) "1.prems" merge_base_first [OF "1.prems"(2) 1] show ?thesis by simp
  next
    case 2
    then have "\<not> es_id b < es_id c" by simp
    with 2 "1.IH"(2) "1.prems" merge_current_first [OF "1.prems"(1) 2] show ?thesis
      by (cases "write_create_entity s c l w") simp_all
  next
    case 3
    with "1.IH"(3) "1.prems" merge_both [OF "1.prems" 3] show ?thesis by simp
  qed
next
  case (3 s l c cs w)
  then show ?case by (cases "write_create_entity s c l w") simp_all
qed simp_all

lemma diff_updates_ids:
  "diff_updates s l bs cs = Inr us \<Longrightarrow> ids_sorted bs \<Longrightarrow> ids_sorted cs \<Longrightarrow>
    sorted_wrt (<) (map ue_id us) \<and> ue_id ` set us \<subseteq> es_id ` set bs \<inter> es_id ` set cs"
proof (induction s l bs cs arbitrary: us rule: diff_updates.induct)
  case (1 s limits b bs c cs)
  consider "es_id b < es_id c" | "es_id c < es_id b" | "es_id b = es_id c" by (rule linorder_cases)
  then show ?case
  proof cases
    case 1
    with "1.IH"(1) "1.prems" show ?thesis by auto
  next
    case 2
    then have "\<not> es_id b < es_id c" by simp
    with 2 "1.IH"(2) "1.prems" show ?thesis by auto
  next
    case 3
    from 3 "1.prems"(1) obtain updated where u: "entity_has_updates s b c limits = Inr updated"
      by (auto elim: and_then_E)
    show ?thesis
    proof (cases updated)
      case True
      with 3 "1.prems"(1) u obtain ch rest where
        rest: "diff_updates s limits bs cs = Inr rest" and us: "us = \<lparr>ue_id = es_id c, ue_components = ch\<rparr> # rest"
        and ch: "entity_changes limits b c (components s) = Inr ch"
        by (auto elim!: and_then_E)
      have IH: "sorted_wrt (<) (map ue_id rest) \<and> ue_id ` set rest \<subseteq> es_id ` set bs \<inter> es_id ` set cs"
        using "1.IH"(3) [OF _ _ u True ch rest] 3 "1.prems" by simp
      moreover have "\<forall>x \<in> set cs. es_id c < es_id x" using "1.prems"(3) by simp
      ultimately have "\<forall>x \<in> ue_id ` set rest. es_id c < x" by auto
      with IH us 3 show ?thesis by auto
    next
      case False
      with 3 u "1.IH"(4) [OF _ _ u False] "1.prems" show ?thesis by auto
    qed
  qed
qed auto

section \<open>The order of the changes\<close>

lemma picked_sorted: "sorted_wrt (<) (map fst (picked i m vs)) \<and> (\<forall>x \<in> set (picked i m vs). i \<le> fst x)"
proof (induction i m vs rule: picked.induct)
  case (1 i m ms v vs)
  then show ?case by (cases m) (force dest: Suc_leD simp: Suc_le_eq)+
qed simp_all

text \<open>Updates in the order of the component ids, and of the field indices within a component.\<close>

definition update_ordered :: "delta_update_entity \<Rightarrow> bool" where
  "update_ordered u \<longleftrightarrow> sorted_wrt (<) (map uc_id (ue_components u)) \<and>
    (\<forall>c \<in> set (ue_components u). sorted_wrt (<) (map fst (uc_fields c)))"

lemma entity_changes_ordered:
  "entity_changes l base cur cs = Inr ch \<Longrightarrow> sorted_wrt (<) (map cd_id cs) \<Longrightarrow>
    sorted_wrt (<) (map uc_id ch) \<and> uc_id ` set ch \<subseteq> cd_id ` set cs \<and>
    (\<forall>c \<in> set ch. sorted_wrt (<) (map fst (uc_fields c)))"
proof (induction cs arbitrary: ch)
  case (Cons d cs)
  from Cons.prems(1) obtain u us where u: "component_change l base cur d = Inr u"
    and us: "entity_changes l base cur cs = Inr us" "ch = (case u of Some u \<Rightarrow> u # us | None \<Rightarrow> us)"
    by (auto simp: res_simps)
  have IH: "sorted_wrt (<) (map uc_id us)" "uc_id ` set us \<subseteq> cd_id ` set cs"
    "\<forall>c \<in> set us. sorted_wrt (<) (map fst (uc_fields c))"
    using Cons.IH [OF us(1)] Cons.prems(2) by simp_all
  have above: "cd_id d < uc_id c" if "c \<in> set us" for c
    using IH(2) that Cons.prems(2) by auto
  from u show ?case
  proof (cases rule: component_change_cases)
    case (present b c m)
    then show ?thesis using IH us(2) above picked_sorted by (auto split: option.splits)
  qed (use IH us(2) in auto)
qed simp

lemma diff_updates_ordered:
  "diff_updates s l bs cs = Inr us \<Longrightarrow> sorted_wrt (<) (map cd_id (components s)) \<Longrightarrow>
    \<forall>u \<in> set us. ue_components u \<noteq> [] \<and> update_ordered u"
proof (induction s l bs cs arbitrary: us rule: diff_updates.induct)
  case (1 s l b bs c cs)
  consider "es_id b < es_id c" | "es_id c < es_id b" | "es_id b = es_id c" by (rule linorder_cases)
  then show ?case
  proof cases
    case 1
    with "1.IH"(1) "1.prems" show ?thesis by simp
  next
    case 2
    then have "\<not> es_id b < es_id c" by simp
    with 2 "1.IH"(2) "1.prems" show ?thesis by simp
  next
    case 3
    from 3 "1.prems"(1) obtain updated where u: "entity_has_updates s b c l = Inr updated"
      by (auto elim: and_then_E)
    show ?thesis
    proof (cases updated)
      case True
      with 3 "1.prems"(1) u obtain ch rest where ch: "entity_changes l b c (components s) = Inr ch"
        and rest: "diff_updates s l bs cs = Inr rest" and us: "us = \<lparr>ue_id = es_id c, ue_components = ch\<rparr> # rest"
        by (auto elim!: and_then_E)
      have "\<forall>u \<in> set rest. ue_components u \<noteq> [] \<and> update_ordered u"
        using "1.IH"(3) [OF _ _ u True ch rest] 3 "1.prems"(2) by simp
      moreover have "ch \<noteq> []" using entity_has_updates_changes [OF u ch] True by simp
      ultimately show ?thesis using entity_changes_ordered [OF ch "1.prems"(2)] us
        by (simp add: update_ordered_def)
    next
      case False
      with 3 u "1.IH"(4) [OF _ _ u False] "1.prems" show ?thesis by simp
    qed
  qed
qed simp_all

end
