(* ===== verification/Delta_Merge.thy ===== *)
theory Delta_Merge
  imports Delta_Changes
begin

text \<open>
  What applying a delta yields: the snapshot whose entities are those of the current one, where an
  entity that was in the baseline keeps its baseline fields except for the changed ones.  The three
  apply steps of the code, run on the differences of two sorted snapshots, are proved to yield it.
\<close>

section \<open>Merged components and entities\<close>

fun merge_fields :: "bool list \<Rightarrow> 'a list \<Rightarrow> 'a list \<Rightarrow> 'a list" where
  "merge_fields (m # ms) (b # bs) (c # cs) = (if m then c else b) # merge_fields ms bs cs"
| "merge_fields ms bs cs = bs"

definition merge_component ::
  "component_def list \<Rightarrow> entity_snapshot \<Rightarrow> component_snapshot \<Rightarrow> component_snapshot" where
  "merge_component cs cur x =
    (case find (\<lambda>d. cd_id d = cs_id x) cs of
       None \<Rightarrow> x
     | Some d \<Rightarrow>
         (case find_component cur (cs_id x) of
            None \<Rightarrow> x
          | Some c \<Rightarrow>
              (case changed_mask d x c of
                 Inl _ \<Rightarrow> x
               | Inr m \<Rightarrow> x\<lparr>cs_fields := merge_fields m (cs_fields x) (cs_fields c)\<rparr>)))"

definition merge_entity :: "schema \<Rightarrow> entity_snapshot \<Rightarrow> entity_snapshot \<Rightarrow> entity_snapshot" where
  "merge_entity s base cur =
    base\<lparr>es_components := map (merge_component (components s) cur) (es_components base)\<rparr>"

definition delta_target :: "schema \<Rightarrow> entity_snapshot list \<Rightarrow> entity_snapshot list \<Rightarrow> entity_snapshot list" where
  "delta_target s bs cs =
    map (\<lambda>c. case find (\<lambda>b. es_id b = es_id c) bs of
        Some b \<Rightarrow> merge_entity s b c
      | None \<Rightarrow> canonical_entity s c) cs"

text \<open>The component ids of an entity are distinct: the code looks components up by id.\<close>

definition entity_ok :: "entity_snapshot \<Rightarrow> bool" where
  "entity_ok e \<longleftrightarrow> distinct (map cs_id (es_components e))"

section \<open>Fields\<close>

lemma length_merge_fields [simp]: "length (merge_fields m bs cs) = length bs"
  by (induction m bs cs rule: merge_fields.induct) simp_all

lemma merge_fields_none: "\<not> list_ex (\<lambda>b. b) m \<Longrightarrow> merge_fields m bs cs = bs"
  by (induction m bs cs rule: merge_fields.induct) auto

lemma assign_picked:
  "length m = length bs \<Longrightarrow> length cs = length bs \<Longrightarrow>
    assign_fields i (picked (length pre) m cs) (pre @ bs) = Inr (pre @ merge_fields m bs cs)"
proof (induction m bs cs arbitrary: pre rule: merge_fields.induct)
  case (1 m ms b bs c cs)
  from "1.IH" [of "pre @ [if m then c else b]"] "1.prems" show ?case by (cases m) simp_all
qed auto

section \<open>Components\<close>

lemma update_component_map:
  assumes "distinct (map cs_id cs)" and "find (\<lambda>c. cs_id c = uc_id u) cs = Some b"
    and "assign_fields (uc_id u) (uc_fields u) (cs_fields b) = Inr vs"
  shows "update_component eid u cs =
    Inr (map (\<lambda>x. if cs_id x = uc_id u then b\<lparr>cs_fields := vs\<rparr> else x) cs)"
  using assms
proof (induction cs)
  case (Cons c cs)
  show ?case
  proof (cases "cs_id c = uc_id u")
    case True
    then have "c = b" "uc_id u \<notin> cs_id ` set cs" using Cons.prems(1,2) by auto
    then have "map (\<lambda>x. if cs_id x = uc_id u then b\<lparr>cs_fields := vs\<rparr> else x) cs = cs"
      by (intro map_idI) (metis imageI)
    with True \<open>c = b\<close> Cons.prems(3) show ?thesis by simp
  next
    case False
    with Cons show ?thesis by simp
  qed
qed simp

lemma merge_component_id [simp]: "cs_id (merge_component cs cur x) = cs_id x"
  by (simp add: merge_component_def split: option.split sum.split)

lemma find_key_None: "find (\<lambda>x. f x = k) xs = None \<longleftrightarrow> k \<notin> f ` set xs"
  by (induction xs) auto

lemma apply_changes:
  "entity_changes l base cur cs = Inr us \<Longrightarrow> distinct (map cd_id cs) \<Longrightarrow> distinct (map cs_id xs) \<Longrightarrow>
    (\<And>c. c \<in> set cs \<Longrightarrow> find (\<lambda>x. cs_id x = cd_id c) xs = find_component base (cd_id c)) \<Longrightarrow>
    try_fold (update_component eid) us xs = Inr (map (merge_component cs cur) xs)"
proof (induction cs arbitrary: us xs)
  case Nil
  then show ?case by (simp add: merge_component_def)
next
  case (Cons d cs)
  from Cons.prems(1) obtain u us' where u: "component_change l base cur d = Inr u"
    and us': "entity_changes l base cur cs = Inr us'"
    and us: "us = (case u of Some u \<Rightarrow> u # us' | None \<Rightarrow> us')"
    by (auto simp: res_simps)
  have d: "cd_id d \<notin> cd_id ` set cs" "distinct (map cd_id cs)" using Cons.prems(2) by auto
  have other: "merge_component (d # cs) cur x = merge_component cs cur x" if "cs_id x \<noteq> cd_id d" for x
    using that by (auto simp: merge_component_def)
  have last: "merge_component cs cur x = x" if "cs_id x = cd_id d" for x
    using that d(1) find_key_None [of cd_id "cs_id x" cs] by (simp add: merge_component_def)
  note IH = Cons.IH [OF us' d(2)]
  from u show ?case
  proof (cases rule: component_change_cases)
    case absent
    then have "find (\<lambda>x. cs_id x = cd_id d) xs = None"
      using Cons.prems(4) [of d] by (simp add: matched_component_None)
    then have "map (merge_component (d # cs) cur) xs = map (merge_component cs cur) xs"
      by (intro map_cong refl other) (auto simp: find_None_iff)
    moreover have "try_fold (update_component eid) us' xs = Inr (map (merge_component cs cur) xs)"
      using Cons.prems(3,4) by (intro IH) auto
    ultimately show ?thesis using us absent(1) by simp
  next
    case (present b c m)
    then have found: "find (\<lambda>x. cs_id x = cd_id d) xs = Some b" "find_component cur (cd_id d) = Some c"
      and counts: "check_field_counts d b c l = Inr ()"
      using Cons.prems(4) [of d] by (simp_all add: matched_component_Some)
    then have b: "b \<in> set xs" "cs_id b = cd_id d" by (auto simp: find_Some_iff)
    have only: "x = b" if "x \<in> set xs" "cs_id x = cd_id d" for x
      using that b Cons.prems(3) by (metis distinct_map inj_onD)
    have mb: "merge_component (d # cs) cur b = b\<lparr>cs_fields := merge_fields m (cs_fields b) (cs_fields c)\<rparr>"
      using b found(2) present(2) by (simp add: merge_component_def)
    let ?h = "\<lambda>x. if cs_id x = cd_id d then b\<lparr>cs_fields := merge_fields m (cs_fields b) (cs_fields c)\<rparr> else x"
    have all: "map (merge_component (d # cs) cur) xs = map (merge_component cs cur) (map ?h xs)"
      using only mb other last b(2) by auto
    have ids: "map cs_id (map ?h xs) = map cs_id xs" using b(2) by simp
    have "find (\<lambda>x. cs_id x = cd_id e) (map ?h xs) = find_component base (cd_id e)" if "e \<in> set cs" for e
    proof -
      have "cd_id e \<noteq> cd_id d" using that d(1) by (metis imageI)
      then have "find (\<lambda>x. cs_id x = cd_id e) (map ?h xs) = find (\<lambda>x. cs_id x = cd_id e) xs"
        using b(2) by (induction xs) auto
      with Cons.prems(4) [of e] that show ?thesis by simp
    qed
    then have rest: "try_fold (update_component eid) us' (map ?h xs) = Inr (map (merge_component cs cur) (map ?h xs))"
      using Cons.prems(3) ids by (intro IH) (simp_all only:)
    show ?thesis
    proof (cases "list_ex (\<lambda>b. b) m")
      case True
      let ?u = "\<lparr>uc_id = cd_id d, uc_fields = picked 0 m (cs_fields c)\<rparr>"
      have "assign_fields (cd_id d) (picked 0 m (cs_fields c)) (cs_fields b) =
          Inr (merge_fields m (cs_fields b) (cs_fields c))"
        using assign_picked [of m "cs_fields b" "cs_fields c" "cd_id d" "[]"] changed_mask_length [OF present(2)] counts
        by (simp add: check_field_counts_Inr)
      then have "update_component eid ?u xs = Inr (map ?h xs)"
        using update_component_map [OF Cons.prems(3), of ?u b] found(1) by simp
      with rest all us present(3) True show ?thesis by simp
    next
      case False
      then have "b\<lparr>cs_fields := merge_fields m (cs_fields b) (cs_fields c)\<rparr> = b" by (simp add: merge_fields_none)
      then have "map ?h xs = xs" using only by (intro map_idI) auto
      with rest all us present(3) False show ?thesis by simp
    qed
  qed
qed

lemma update_entity_merged:
  assumes "entity_changes l base cur (components s) = Inr us" and "schema_ok s" and "entity_ok base"
  shows "update_entity \<lparr>ue_id = i, ue_components = us\<rparr> base = Inr (merge_entity s base cur)"
  using apply_changes [OF assms(1), of "es_components base" "entity_raw i"] assms(2,3)
  by (simp add: update_entity_def merge_entity_def schema_ok_def entity_ok_def find_component_def)

lemma unchanged_entity_merged:
  assumes "entity_changes l base cur (components s) = Inr []" and "schema_ok s" and "entity_ok base"
  shows "merge_entity s base cur = base"
  using update_entity_merged [OF assms] by (simp add: update_entity_def)

section \<open>Entities\<close>

text \<open>Each pair of entities with one id has its changes in the updates, or has none.\<close>

lemma diff_updates_find:
  "diff_updates s l bs cs = Inr us \<Longrightarrow> ids_sorted bs \<Longrightarrow> ids_sorted cs \<Longrightarrow>
    b \<in> set bs \<Longrightarrow> c \<in> set cs \<Longrightarrow> es_id b = es_id c \<Longrightarrow>
    \<exists>ch. entity_changes l b c (components s) = Inr ch \<and>
      find (\<lambda>u. ue_id u = es_id b) us =
        (if ch = [] then None else Some \<lparr>ue_id = es_id c, ue_components = ch\<rparr>)"
proof (induction s l bs cs arbitrary: us rule: diff_updates.induct)
  case (1 s limits x bs y cs)
  consider "es_id x < es_id y" | "es_id y < es_id x" | "es_id x = es_id y" by (rule linorder_cases)
  then show ?case
  proof cases
    case 1
    have "b \<noteq> x" using 1 "1.prems"(3,5,6) by auto
    with 1 "1.IH"(1) "1.prems" show ?thesis by simp
  next
    case 2
    then have "\<not> es_id x < es_id y" by simp
    moreover have "c \<noteq> y" using 2 "1.prems"(2,4,6) by auto
    ultimately show ?thesis using 2 "1.IH"(2) "1.prems" by simp
  next
    case 3
    have sorted: "ids_sorted bs" "ids_sorted cs" using "1.prems"(2,3) by simp_all
    from 3 "1.prems"(1) obtain updated where u: "entity_has_updates s x y limits = Inr updated"
      by (auto elim: and_then_E)
    obtain rest where rest: "diff_updates s limits bs cs = Inr rest"
      and us: "if updated then \<exists>ch. entity_changes limits x y (components s) = Inr ch \<and>
          us = \<lparr>ue_id = es_id y, ue_components = ch\<rparr> # rest else us = rest"
      using 3 "1.prems"(1) u by (cases updated) (auto elim!: and_then_E)
    have fresh: "es_id y \<notin> ue_id ` set rest"
      using diff_updates_ids [OF rest sorted] "1.prems"(3) by fastforce
    show ?thesis
    proof (cases "c = y")
      case True
      then have "b = x" using 3 "1.prems"(2,4,6) by auto
      show ?thesis
      proof (cases updated)
        case True
        with us obtain ch where ch: "entity_changes limits x y (components s) = Inr ch"
          and us: "us = \<lparr>ue_id = es_id y, ue_components = ch\<rparr> # rest" by auto
        moreover have "ch \<noteq> []" using entity_has_updates_changes [OF u ch] True by simp
        ultimately show ?thesis using \<open>b = x\<close> \<open>c = y\<close> 3 by simp
      next
        case False
        then have "entity_changes limits x y (components s) = Inr []"
          using u by (intro entity_has_no_updates) simp
        moreover have "find (\<lambda>u. ue_id u = es_id y) rest = None"
          using fresh by (simp add: find_key_None)
        ultimately show ?thesis using \<open>b = x\<close> \<open>c = y\<close> 3 us False by simp
      qed
    next
      case False
      then have c: "c \<in> set cs" using "1.prems"(5) by simp
      then have "es_id y < es_id c" using "1.prems"(3) by auto
      then have ne: "es_id b \<noteq> es_id x" "es_id y \<noteq> es_id b" using 3 "1.prems"(6) by auto
      then have b: "b \<in> set bs" using "1.prems"(4) by auto
      have IH: "\<exists>ch. entity_changes limits b c (components s) = Inr ch \<and>
          find (\<lambda>u. ue_id u = es_id b) rest =
            (if ch = [] then None else Some \<lparr>ue_id = es_id c, ue_components = ch\<rparr>)"
      proof (cases updated)
        case True
        with us obtain ch where ch: "entity_changes limits x y (components s) = Inr ch" by auto
        have "\<not> es_id x < es_id y" "\<not> es_id y < es_id x" using 3 by simp_all
        from "1.IH"(3) [OF this u True ch rest sorted b c "1.prems"(6)] show ?thesis .
      next
        case False
        have "\<not> es_id x < es_id y" "\<not> es_id y < es_id x" using 3 by simp_all
        from "1.IH"(4) [OF this u False rest sorted b c "1.prems"(6)] show ?thesis .
      qed
      moreover have "find (\<lambda>u. ue_id u = es_id b) us = find (\<lambda>u. ue_id u = es_id b) rest"
        using us ne(2) by (auto split: if_splits)
      ultimately show ?thesis by simp
    qed
  qed
qed auto

text \<open>The entities after destroys and creates, each with its counterpart in the result.\<close>

definition merged_with :: "schema \<Rightarrow> entity_snapshot list \<Rightarrow> entity_snapshot list \<Rightarrow> entity_snapshot \<Rightarrow> entity_snapshot" where
  "merged_with s bs cs e =
    (if es_id e \<in> es_id ` set bs then
       (case find (\<lambda>c. es_id c = es_id e) cs of Some c \<Rightarrow> merge_entity s e c | None \<Rightarrow> e)
     else e)"

lemma find_entity:
  assumes "ids_sorted es" and "e \<in> set es"
  shows "find (\<lambda>x. es_id x = es_id e) es = Some e"
proof -
  have "distinct (map es_id es)" using assms(1) by (simp add: strict_sorted_iff)
  then show ?thesis using assms(2) by (induction es) auto
qed

lemma updated_entity_merged:
  assumes us: "diff_updates s l bs cs = Inr us" and sorted: "ids_sorted bs" "ids_sorted cs"
    and ok: "schema_ok s" "\<forall>b \<in> set bs. entity_ok b"
    and e: "e \<in> set bs \<and> es_id e \<in> es_id ` set cs \<or> es_id e \<notin> es_id ` set bs"
  shows "updated_entity us e = Inr (merged_with s bs cs e)"
proof (cases "e \<in> set bs \<and> es_id e \<in> es_id ` set cs")
  case True
  then obtain c where c: "c \<in> set cs" "es_id e = es_id c" by auto
  from diff_updates_find [OF us sorted _ c] True obtain ch where
    ch: "entity_changes l e c (components s) = Inr ch"
    and f: "find (\<lambda>u. ue_id u = es_id e) us =
      (if ch = [] then None else Some \<lparr>ue_id = es_id c, ue_components = ch\<rparr>)" by auto
  have "entity_ok e" using True ok(2) by simp
  then have "updated_entity us e = Inr (merge_entity s e c)"
    using f ch ok(1) unchanged_entity_merged [of l e c s] update_entity_merged [OF ch]
    by (auto simp: updated_entity_def)
  moreover have "merged_with s bs cs e = merge_entity s e c"
    using True find_entity [OF sorted(2) c(1)] imageI [of e "set bs" es_id] c(2)
    by (simp add: merged_with_def)
  ultimately show ?thesis by simp
next
  case False
  with e have "es_id e \<notin> es_id ` set bs" by blast
  moreover from this have "find (\<lambda>u. ue_id u = es_id e) us = None"
    using diff_updates_ids [OF us sorted] by (auto simp: find_key_None)
  ultimately show ?thesis by (simp add: updated_entity_def merged_with_def)
qed

lemma canonical_entity_id [simp]: "es_id (canonical_entity s e) = es_id e"
  by (simp add: canonical_entity_def)

lemma merge_entity_id [simp]: "es_id (merge_entity s b c) = es_id b"
  by (simp add: merge_entity_def)

lemma delta_target_ids: "map es_id (delta_target s bs cs) = map es_id cs"
proof -
  have "es_id (case find (\<lambda>b. es_id b = es_id c) bs of Some b \<Rightarrow> merge_entity s b c
      | None \<Rightarrow> canonical_entity s c) = es_id c" for c
    by (auto simp: find_Some_iff split: option.split)
  then show ?thesis by (simp add: delta_target_def)
qed

section \<open>The three steps together\<close>

lemma merged_with_target:
  assumes sorted: "ids_sorted bs" "ids_sorted cs" and c: "c \<in> set cs" and id: "es_id e = es_id c"
    and e: "e \<in> set (filter (\<lambda>b. es_id b \<in> es_id ` set cs) bs) \<union>
      set (map (canonical_entity s) (created bs cs))"
  shows "merged_with s bs cs e =
    (case find (\<lambda>b. es_id b = es_id c) bs of Some b \<Rightarrow> merge_entity s b c | None \<Rightarrow> canonical_entity s c)"
proof (cases "e \<in> set bs")
  case True
  have "find (\<lambda>b. es_id b = es_id c) bs = Some e" using find_entity [OF sorted(1) True] id by simp
  moreover have "find (\<lambda>x. es_id x = es_id e) cs = Some c" using find_entity [OF sorted(2) c] id by simp
  ultimately show ?thesis using True by (simp add: merged_with_def)
next
  case False
  with e obtain c' where c': "c' \<in> set cs" "es_id c' \<notin> es_id ` set bs" "e = canonical_entity s c'"
    by (auto simp: created_def)
  then have "c' = c" using ids_sorted_inj [OF sorted(2) c'(1) c] id by simp
  moreover have "find (\<lambda>b. es_id b = es_id c) bs = None"
    using c'(2) \<open>c' = c\<close> by (simp add: find_key_None)
  ultimately show ?thesis using c' id by (simp add: merged_with_def)
qed

theorem apply_differences:
  assumes sorted: "ids_sorted bs" "ids_sorted cs" and us: "diff_updates s l bs cs = Inr us"
    and ok: "schema_ok s" "\<forall>b \<in> set bs. entity_ok b"
  shows "and_then (apply_destroys bs (map es_id (destroyed bs cs))) (\<lambda>rs.
      and_then (apply_creates rs (map (canonical_entity s) (created bs cs))) (\<lambda>rs.
      if length rs > n then Inl (err (length rs)) else apply_updates us rs)) =
    (if length cs > n then Inl (err (length cs)) else Inr (delta_target s bs cs))"
proof -
  let ?kept = "filter (\<lambda>b. es_id b \<in> es_id ` set cs) bs"
  let ?new = "map (canonical_entity s) (created bs cs)"
  have "set (map es_id (destroyed bs cs)) \<subseteq> es_id ` set bs" by (auto simp: destroyed_def)
  moreover have "filter (\<lambda>b. es_id b \<notin> set (map es_id (destroyed bs cs))) bs = ?kept"
    by (rule filter_cong) (use ids_sorted_inj [OF sorted(1)] in \<open>auto simp: destroyed_def\<close>)
  ultimately have d: "apply_destroys bs (map es_id (destroyed bs cs)) = Inr ?kept"
    using apply_destroys_iff [OF sorted(1) destroyed_sorted [OF sorted(1)], of cs ?kept] by simp
  have kept: "ids_sorted ?kept" using sorted(1) by (rule ids_sorted_filter)
  have new: "ids_sorted ?new" "es_id ` set ?new = es_id ` set (created bs cs)"
    using created_sorted [OF sorted(2), of bs] by (simp_all add: comp_def image_image)
  have parts: "es_id ` set ?kept = es_id ` set bs \<inter> es_id ` set cs"
    "es_id ` set ?new = es_id ` set cs - es_id ` set bs"
    unfolding new(2) created_def by (auto simp: image_iff)
  then have disj: "es_id ` set ?kept \<inter> es_id ` set ?new = {}" by blast
  from apply_creates_complete [OF kept new(1) disj] obtain rs where rs: "apply_creates ?kept ?new = Inr rs"
    by blast
  have all: "ids_sorted rs" "set rs = set ?kept \<union> set ?new"
    using rs unfolding apply_creates_iff [OF kept new(1)] set_append by blast+
  have ids: "es_id ` set rs = es_id ` set cs"
    unfolding all(2) image_Un parts by blast
  have same: "map es_id rs = map es_id cs"
    using all(1) sorted(2) ids by (intro strict_sorted_equal) simp_all
  then have len: "length rs = length cs" by (metis length_map)
  have "apply_updates us rs = Inr (map (merged_with s bs cs) rs)"
  proof (rule apply_updates_pointwise [OF all(1)])
    show "distinct (map ue_id us)"
      using diff_updates_ids [OF us sorted] by (simp add: strict_sorted_iff)
    show "ue_id ` set us \<subseteq> es_id ` set rs" using diff_updates_ids [OF us sorted] ids by auto
    fix e assume "e \<in> set rs"
    then have "e \<in> set bs \<and> es_id e \<in> es_id ` set cs \<or> es_id e \<notin> es_id ` set bs"
      using all(2) by (auto simp: created_def)
    then show "updated_entity us e = Inr (merged_with s bs cs e)"
      by (rule updated_entity_merged [OF us sorted ok])
  qed
  moreover have "map (merged_with s bs cs) rs = delta_target s bs cs"
    unfolding delta_target_def
  proof (rule nth_equalityI)
    fix i assume "i < length (map (merged_with s bs cs) rs)"
    then have i: "i < length rs" "i < length cs" using len by simp_all
    then have "rs ! i \<in> set rs" "cs ! i \<in> set cs" by simp_all
    moreover have "es_id (rs ! i) = es_id (cs ! i)" using same i by (metis nth_map)
    ultimately show "map (merged_with s bs cs) rs ! i =
        map (\<lambda>c. case find (\<lambda>b. es_id b = es_id c) bs of Some b \<Rightarrow> merge_entity s b c
          | None \<Rightarrow> canonical_entity s c) cs ! i"
      using all(2) i merged_with_target [OF sorted, of "cs ! i" "rs ! i" s] by simp
  qed (simp add: len)
  ultimately show ?thesis using d rs len by simp
qed

section \<open>Nothing is left to change\<close>

lemma field_unchanged_refl: "field_changed c f v v = Inr False"
proof -
  have "unsigned_abs (0 :: i64) = 0" by (simp add: unsigned_abs_def)
  then show ?thesis by (cases v; cases "fd_change f") (simp_all add: field_changed_def abs_diff_def)
qed

lemma merged_mask:
  "field_mask_loop c fs as bs slots = Inr m \<Longrightarrow> length as = length fs \<Longrightarrow> length bs = length fs \<Longrightarrow>
    length slots = length fs \<Longrightarrow>
    field_mask_loop c fs (merge_fields m as bs) bs slots = Inr (replicate (length fs) False)"
proof (induction c fs as bs slots arbitrary: m rule: field_mask_loop.induct)
  case (1 c f fs a as b bs slot slots)
  from "1.prems"(1) obtain v m' where v: "field_changed c f a b = Inr v"
    and m': "field_mask_loop c fs as bs slots = Inr m'" "m = v # m'"
    by (auto elim!: and_then_E)
  have "field_mask_loop c fs (merge_fields m' as bs) bs slots = Inr (replicate (length fs) False)"
    using "1.prems" by (intro "1.IH" [OF v m'(1)]) simp_all
  with v m'(2) show ?case by (cases v) (simp_all add: field_unchanged_refl)
qed auto

lemma find_component_merged:
  "find_component (merge_entity s base cur) i =
    map_option (merge_component (components s) cur) (find_component base i)"
proof -
  have "find (\<lambda>x. cs_id x = i) (map (merge_component (components s) cur) xs) =
      map_option (merge_component (components s) cur) (find (\<lambda>x. cs_id x = i) xs)" for xs
    by (induction xs) simp_all
  then show ?thesis by (simp add: find_component_def merge_entity_def)
qed

lemma find_schema_component: "schema_ok s \<Longrightarrow> d \<in> set (components s) \<Longrightarrow>
    find (\<lambda>x. cd_id x = cd_id d) (components s) = Some d"
proof -
  assume "schema_ok s" "d \<in> set (components s)"
  moreover have "distinct (map cd_id xs) \<Longrightarrow> d \<in> set xs \<Longrightarrow> find (\<lambda>x. cd_id x = cd_id d) xs = Some d" for xs
    by (induction xs) auto
  ultimately show ?thesis by (simp add: schema_ok_def)
qed

lemma merged_component_value:
  assumes "schema_ok s" and "d \<in> set (components s)" and "find_component base (cd_id d) = Some b"
    and "find_component cur (cd_id d) = Some c" and "changed_mask d b c = Inr m"
  shows "find_component (merge_entity s base cur) (cd_id d) =
    Some (b\<lparr>cs_fields := merge_fields m (cs_fields b) (cs_fields c)\<rparr>)"
  using assms find_component_id [OF assms(3)] find_schema_component [OF assms(1,2)]
  by (simp add: find_component_merged merge_component_def)

text \<open>Every component of the schema that the changes covered is covered, unchanged, afterwards.\<close>

lemma entity_changes_each:
  "entity_changes l base cur cs = Inr us \<Longrightarrow> d \<in> set cs \<Longrightarrow> \<exists>u. component_change l base cur d = Inr u"
  by (induction cs arbitrary: us) (auto simp: res_simps)

lemma merged_presence:
  "entity_changes l base cur (components s) = Inr us \<Longrightarrow>
    ensure_component_presence_matches s (merge_entity s base cur) cur = Inr ()"
proof -
  assume ch: "entity_changes l base cur (components s) = Inr us"
  have "find_component (merge_entity s base cur) (cd_id d) \<noteq> None \<longleftrightarrow> find_component cur (cd_id d) \<noteq> None"
    if d: "d \<in> set (components s)" for d
  proof -
    obtain u where "component_change l base cur d = Inr u" using entity_changes_each [OF ch d] by blast
    then show ?thesis
      by (cases rule: component_change_cases)
        (auto simp: matched_component_None matched_component_Some find_component_merged)
  qed
  then show ?thesis by (simp add: ensure_component_presence_matches_def presence_loop_Inr)
qed

lemma merged_no_updates:
  assumes "schema_ok s" and ch: "entity_changes l base cur (components s) = Inr us"
  shows "set cs \<subseteq> set (components s) \<Longrightarrow> has_updates_loop l (merge_entity s base cur) cur cs = Inr False"
proof (induction cs)
  case (Cons d cs)
  then have d: "d \<in> set (components s)" by simp
  have IH: "has_updates_loop l (merge_entity s base cur) cur cs = Inr False" using Cons by simp
  obtain u where "component_change l base cur d = Inr u" using entity_changes_each [OF ch d] by blast
  then show ?case
  proof (cases rule: component_change_cases)
    case absent
    with IH show ?thesis by (simp add: matched_component_None find_component_merged)
  next
    case (present b c m)
    let ?b = "b\<lparr>cs_fields := merge_fields m (cs_fields b) (cs_fields c)\<rparr>"
    from present have found: "find_component base (cd_id d) = Some b" "find_component cur (cd_id d) = Some c"
      and counts: "check_field_counts d b c l = Inr ()"
      by (simp_all add: matched_component_Some)
    have merged: "find_component (merge_entity s base cur) (cd_id d) = Some ?b"
      using merged_component_value [OF assms(1) d found present(2)] .
    have counts': "check_field_counts d ?b c l = Inr ()" using counts by (simp add: check_field_counts_Inr)
    have "field_mask_loop (cd_id d) (cd_fields d) (cs_fields ?b) (cs_fields c)
        (replicate (length (cd_fields d)) False) = Inr (replicate (length (cd_fields d)) False)"
      using merged_mask [of "cd_id d" "cd_fields d" "cs_fields b" "cs_fields c"] present(2) counts
      by (simp add: changed_mask_def compute_field_mask_into_def check_field_counts_Inr)
    from any_field_changed_mask [OF this] counts'
    have "any_field_changed (cd_id d) (cd_fields d) (cs_fields ?b) (cs_fields c) = Inr False"
      by (auto simp: check_field_counts_Inr list_ex_iff)
    with IH merged found(2) counts' show ?thesis by simp
  qed
qed simp

theorem update_converges:
  assumes "schema_ok s" and "entity_ok base" and "entity_changes l base cur (components s) = Inr us"
    and "update_entity \<lparr>ue_id = i, ue_components = us\<rparr> base = Inr e"
  shows "entity_has_updates s e cur l = Inr False"
proof -
  have "e = merge_entity s base cur" using update_entity_merged [OF assms(3,1,2), of i] assms(4) by simp
  then show ?thesis
    using merged_presence [OF assms(3)] merged_no_updates [OF assms(1,3) subset_refl]
    by (simp add: entity_has_updates_def)
qed

section \<open>Without thresholds the result is the current snapshot\<close>

text \<open>
  A field is compared exactly when it has no threshold, or when its value is a boolean: a threshold
  does not apply to those.
\<close>

definition no_thresholds :: "schema \<Rightarrow> bool" where
  "no_thresholds s \<longleftrightarrow>
    list_all (\<lambda>c. list_all (\<lambda>f. fd_change f = Always) (cd_fields c)) (components s)"

definition exact_field :: "field_def \<times> field_value \<Rightarrow> bool" where
  "exact_field = (\<lambda>(f, v). fd_change f = Always \<or> (case v of BoolV _ \<Rightarrow> True | _ \<Rightarrow> False))"

definition exact_values :: "schema \<Rightarrow> entity_snapshot \<Rightarrow> bool" where
  "exact_values s e \<longleftrightarrow> list_all (\<lambda>d. list_all (\<lambda>c. cs_id c = cd_id d \<longrightarrow>
    list_all exact_field (zip (cd_fields d) (cs_fields c))) (es_components e)) (components s)"

lemma exact_valuesD:
  assumes "exact_values s e" and "d \<in> set (components s)" and "find_component e (cd_id d) = Some c"
  shows "list_all exact_field (zip (cd_fields d) (cs_fields c))"
proof -
  have "c \<in> set (es_components e)" "cs_id c = cd_id d"
    using assms(3) by (auto simp: find_component_def find_Some_iff)
  with assms(1,2) show ?thesis by (auto simp: exact_values_def list_all_iff)
qed

lemma no_thresholds_exact: "no_thresholds s \<Longrightarrow> exact_values s e"
  by (fastforce simp: exact_values_def no_thresholds_def list_all_iff exact_field_def dest: set_zip_leftD)

lemma differs_False: "field_differs c f a b = Inr False \<Longrightarrow> a = b"
  by (cases "(c, f, a, b)" rule: field_differs.cases) auto

lemma unchanged_exact: "field_changed c f a b = Inr False \<Longrightarrow> exact_field (f, b) \<Longrightarrow> a = b"
  by (cases b; cases a; cases "fd_change f") (auto simp: field_changed_def exact_field_def dest: differs_False)

lemma merge_fields_current:
  "field_mask_loop c fs as bs slots = Inr m \<Longrightarrow> length as = length fs \<Longrightarrow> length bs = length fs \<Longrightarrow>
    length slots = length fs \<Longrightarrow> list_all exact_field (zip fs bs) \<Longrightarrow> merge_fields m as bs = bs"
proof (induction c fs as bs slots arbitrary: m rule: field_mask_loop.induct)
  case (1 c f fs a as b bs slot slots)
  from "1.prems"(1) obtain v m' where v: "field_changed c f a b = Inr v"
    and m': "field_mask_loop c fs as bs slots = Inr m'" "m = v # m'"
    by (auto elim!: and_then_E)
  have "merge_fields m' as bs = bs" using "1.prems" by (intro "1.IH" [OF v m'(1)]) simp_all
  moreover have "a = b" if "\<not> v"
    using v that "1.prems"(5) unchanged_exact [of c f a b] by simp
  ultimately show ?case using m'(2) by auto
qed auto

lemma merge_entity_current:
  assumes s: "schema_ok s" and exact: "exact_values s cur"
    and ch: "entity_changes l base cur (components s) = Inr us"
    and canon: "canonical_entity s base = base" "canonical_entity s cur = cur" and id: "es_id base = es_id cur"
  shows "merge_entity s base cur = cur"
proof -
  have each: "map_option (merge_component (components s) cur) (find_component base (cd_id d)) =
      find_component cur (cd_id d)" if d: "d \<in> set (components s)" for d
  proof -
    obtain u where "component_change l base cur d = Inr u" using entity_changes_each [OF ch d] by blast
    then show ?thesis
    proof (cases rule: component_change_cases)
      case absent
      then show ?thesis by (simp add: matched_component_None)
    next
      case (present b c m)
      then have found: "find_component base (cd_id d) = Some b" "find_component cur (cd_id d) = Some c"
        and counts: "check_field_counts d b c l = Inr ()"
        by (simp_all add: matched_component_Some)
      have "list_all exact_field (zip (cd_fields d) (cs_fields c))" by (rule exact_valuesD [OF exact d found(2)])
      then have "merge_fields m (cs_fields b) (cs_fields c) = cs_fields c"
        using present(2) counts
        by (intro merge_fields_current [of "cd_id d" "cd_fields d" _ _ "replicate (length (cd_fields d)) False"])
          (simp_all add: changed_mask_def compute_field_mask_into_def check_field_counts_Inr)
      moreover have "cs_id b = cs_id c" using found by (simp add: find_component_id)
      ultimately show ?thesis
        using merged_component_value [OF s d found present(2)] found
        by (simp add: find_component_merged)
    qed
  qed
  have "map (merge_component (components s) cur) (List.map_filter (\<lambda>d. find_component base (cd_id d)) cs) =
      List.map_filter (\<lambda>d. find_component cur (cd_id d)) cs" if "set cs \<subseteq> set (components s)" for cs
    using that
  proof (induction cs)
    case (Cons d cs)
    with each [of d, symmetric] show ?case by (cases "find_component base (cd_id d)") (simp_all add: List.map_filter_simps)
  qed (simp add: List.map_filter_simps)
  then have "map (merge_component (components s) cur) (es_components (canonical_entity s base)) =
      es_components (canonical_entity s cur)"
    by (simp add: canonical_entity_def)
  with canon id show ?thesis by (simp add: merge_entity_def)
qed

lemma present_components_ids:
  "cs_id ` set (List.map_filter (\<lambda>d. find_component e (cd_id d)) cs) \<subseteq> cd_id ` set cs"
  using find_component_id by (fastforce simp: List.map_filter_def)

lemma present_components_distinct:
  "distinct (map cd_id cs) \<Longrightarrow>
    distinct (map cs_id (List.map_filter (\<lambda>d. find_component e (cd_id d)) cs))"
proof (induction cs)
  case (Cons d cs)
  then show ?case
    using present_components_ids [of e cs] find_component_id
    by (fastforce simp: List.map_filter_simps split: option.split)
qed (simp add: List.map_filter_simps)

lemma canonical_entity_ok: "schema_ok s \<Longrightarrow> entity_ok (canonical_entity s e)"
  using present_components_distinct [of "components s" e]
  by (simp add: entity_ok_def canonical_entity_def schema_ok_def)

theorem delta_target_current:
  assumes s: "schema_ok s" and exact: "\<forall>e \<in> set cs. exact_values s e" and us: "diff_updates s l bs cs = Inr us"
    and sorted: "ids_sorted bs" "ids_sorted cs"
    and canon: "\<forall>e \<in> set bs \<union> set cs. canonical_entity s e = e"
  shows "delta_target s bs cs = cs"
  unfolding delta_target_def
proof (rule map_idI)
  fix c assume c: "c \<in> set cs"
  show "(case find (\<lambda>b. es_id b = es_id c) bs of Some b \<Rightarrow> merge_entity s b c
      | None \<Rightarrow> canonical_entity s c) = c"
  proof (cases "find (\<lambda>b. es_id b = es_id c) bs")
    case None
    with canon c show ?thesis by simp
  next
    case (Some b)
    then have b: "b \<in> set bs" "es_id b = es_id c" by (auto simp: find_Some_iff)
    from diff_updates_find [OF us sorted b(1) c b(2)] obtain ch where
      "entity_changes l b c (components s) = Inr ch" by blast
    with Some b c canon s exact show ?thesis by (simp add: merge_entity_current)
  qed
qed

section \<open>What a threshold lets stand\<close>

lemma len_64: "LENGTH(64) = 64"
  by simp

lemma unsigned_abs_value: "unat (unsigned_abs v) = nat \<bar>sint v\<bar>"
proof (cases "sint v < 0")
  case True
  have "- v = word_of_int (- sint v)" by simp
  then have "uint (- v) = take_bit 64 (- sint v)" by (metis uint_word_of_int_eq len_64)
  moreover have "take_bit 64 (- sint v) = - sint v"
    using True sint_greater_eq [of v] by (intro take_bit_int_eq_self) simp_all
  ultimately have "uint (- v) = - sint v" by simp
  with True show ?thesis by (simp add: unsigned_abs_def unat_eq_nat_uint)
next
  case False
  have "uint v = take_bit 64 (sint v)" by transfer (simp add: take_bit_signed_take_bit)
  moreover have "take_bit 64 (sint v) = sint v"
    using False sint_less [of v] by (intro take_bit_int_eq_self) simp_all
  ultimately have "uint v = sint v" by simp
  with False show ?thesis by (simp add: unsigned_abs_def unat_eq_nat_uint)
qed

lemma abs_diff_value: "unat (abs_diff a b) = nat \<bar>int (unat a) - int (unat b)\<bar>"
proof (cases "a < b")
  case True
  then have "unat (b - a) = unat b - unat a" "unat a < unat b"
    by (simp_all add: unat_sub word_less_nat_alt word_le_nat_alt)
  moreover from this have "unat b - unat a = nat \<bar>int (unat a) - int (unat b)\<bar>" by linarith
  ultimately show ?thesis using True by (simp only: abs_diff_def if_True)
next
  case False
  then have "unat (a - b) = unat a - unat b" "unat b \<le> unat a"
    by (simp_all add: unat_sub word_less_nat_alt word_le_nat_alt)
  moreover from this have "unat a - unat b = nat \<bar>int (unat a) - int (unat b)\<bar>" by linarith
  ultimately show ?thesis using False by (simp only: abs_diff_def if_False)
qed

lemma sint_diff_exact:
  assumes "- (2 ^ 63) \<le> sint a - sint b" and "sint a - sint b < 2 ^ 63"
  shows "sint (a - b :: i64) = sint a - sint b"
proof -
  have "a - b = word_of_int (sint a - sint b)" by simp
  then have "sint (a - b) = signed_take_bit 63 (sint a - sint b)"
    by (simp only: sint_sbintrunc' ) simp
  with assms show ?thesis by (simp add: signed_take_bit_int_eq_self)
qed

text \<open>The distance of two values of one type, and what the threshold compares it with.\<close>

fun value_distance :: "field_value \<Rightarrow> field_value \<Rightarrow> nat option" where
  "value_distance (UIntV a) (UIntV b) = Some (nat \<bar>int (unat a) - int (unat b)\<bar>)"
| "value_distance (VarUIntV a) (VarUIntV b) = Some (nat \<bar>int (unat a) - int (unat b)\<bar>)"
| "value_distance (SIntV a) (SIntV b) = Some (nat \<bar>sint a - sint b\<bar>)"
| "value_distance (VarSIntV a) (VarSIntV b) = Some (nat \<bar>sint a - sint b\<bar>)"
| "value_distance (FixedPointV a) (FixedPointV b) = Some (nat \<bar>sint a - sint b\<bar>)"
| "value_distance a b = None"

lemma threshold_exact:
  assumes "value_distance a b = Some n" and "n < 2 ^ 63" and "fd_change f = Threshold q"
  shows "field_changed c f a b = Inr (unat q < n)"
proof -
  have q: "(ucast q :: u64) < x \<longleftrightarrow> unat q < unat x" for x :: u64
    by (simp add: word_less_nat_alt unsigned_ucast_eq take_bit_nat_eq_self unsigned_less [where 'a = nat]
        order_less_trans [OF unsigned_less])
  have signed: "((ucast q :: u64) < unsigned_abs (x - y)) = (unat q < n)"
    if "n = nat \<bar>sint x - sint y\<bar>" for x y
    using that assms(2) sint_diff_exact [of x y] by (simp add: q unsigned_abs_value)
  have unsigned: "((ucast q :: u64) < abs_diff x y) = (unat q < n)"
    if "n = nat \<bar>int (unat x) - int (unat y)\<bar>" for x y
    using that by (simp add: q abs_diff_value)
  show ?thesis
    using assms(1,3) signed unsigned
    by (cases "(a, b)" rule: value_distance.cases) (auto simp: field_changed_def)
qed

end
