(* ===== verification/Thresholds.thy ===== *)
theory Thresholds
  imports Delta_Merge
begin

text \<open>
  What a threshold decides for every pair of values (\<^verbatim>\<open>field_exceeds_threshold\<close> of codec/src/delta.rs):
  on unsigned values their distance; on signed and fixed-point values, whose difference is taken in 64
  bits, the distance on the circle of 2^64 values, which is smaller once the distance exceeds 2^63.
\<close>

fun value_subtracted :: "field_value \<Rightarrow> bool" where
  "value_subtracted (SIntV a) = True"
| "value_subtracted (VarSIntV a) = True"
| "value_subtracted (FixedPointV a) = True"
| "value_subtracted v = False"

lemma sint_of_int_range: "- (2 ^ 63) \<le> r \<Longrightarrow> r < 2 ^ 63 \<Longrightarrow> sint (word_of_int r :: i64) = r"
  by (simp add: signed_of_int signed_take_bit_int_eq_self)

lemma sint_diff_wrapped:
  fixes x y :: i64
  defines "d \<equiv> sint x - sint y"
  shows "\<bar>sint (x - y)\<bar> = min \<bar>d\<bar> (2 ^ 64 - \<bar>d\<bar>)"
proof -
  have diff: "x - y = word_of_int d" by (simp add: d_def)
  have shift: "word_of_int d = (word_of_int (d - 2 ^ 64) :: i64)" "word_of_int d = (word_of_int (d + 2 ^ 64) :: i64)"
    by (simp_all add: word_of_int_eq_iff take_bit_eq_mod)
  have "- (2 ^ 63) \<le> sint x \<and> sint x < 2 ^ 63" "- (2 ^ 63) \<le> sint y \<and> sint y < 2 ^ 63"
    using sint_range_size [of x] sint_range_size [of y] by (simp_all add: word_size)
  then consider "- (2 ^ 63) \<le> d" "d < 2 ^ 63" | "2 ^ 63 \<le> d" "d < 2 ^ 64" | "d < - (2 ^ 63)" "- (2 ^ 64) < d"
    unfolding d_def by (cases "sint x - sint y < - (2 ^ 63)"; cases "sint x - sint y < 2 ^ 63") auto
  then show ?thesis
  proof cases
    case 1
    then show ?thesis by (simp add: diff sint_of_int_range)
  next
    case 2
    then have "sint (word_of_int (d - 2 ^ 64) :: i64) = d - 2 ^ 64" by (intro sint_of_int_range) simp_all
    with 2 show ?thesis unfolding diff shift(1) by simp
  next
    case 3
    then have "sint (word_of_int (d + 2 ^ 64) :: i64) = d + 2 ^ 64" by (intro sint_of_int_range) simp_all
    with 3 show ?thesis unfolding diff shift(2) by simp
  qed
qed

lemma threshold_decides:
  assumes "value_distance a b = Some n" and "fd_change f = Threshold q"
  shows "field_changed c f a b = Inr (unat q < (if value_subtracted a then min n (2 ^ 64 - n) else n))"
proof -
  have q: "(ucast q :: u64) < x \<longleftrightarrow> unat q < unat x" for x :: u64
    by (simp add: word_less_nat_alt unsigned_ucast_eq take_bit_nat_eq_self unsigned_less [where 'a = nat]
        order_less_trans [OF unsigned_less])
  have signed: "((ucast q :: u64) < unsigned_abs (x - y)) = (unat q < min n (2 ^ 64 - n))"
    if "n = nat \<bar>sint x - sint y\<bar>" for x y
  proof -
    have "int n = \<bar>sint x - sint y\<bar>" using that by simp
    with sint_diff_wrapped [of x y] have "nat \<bar>sint (x - y)\<bar> = min n (2 ^ 64 - n)"
      by (auto simp: min_def nat_diff_distrib)
    then show ?thesis by (simp add: q unsigned_abs_value)
  qed
  have unsigned: "((ucast q :: u64) < abs_diff x y) = (unat q < n)"
    if "n = nat \<bar>int (unat x) - int (unat y)\<bar>" for x y
    using that by (simp add: q abs_diff_value)
  show ?thesis
    using assms signed unsigned
    by (cases "(a, b)" rule: value_distance.cases) (auto simp: field_changed_def)
qed

end
