(* ===== verification/Change_Lists.thy ===== *)
theory Change_Lists
  imports Delta_Encode Delta_Decode
begin

text \<open>
  The delta encoder for callers that track their changes (\<^verbatim>\<open>encode_delta_from_changes\<close> of
  codec/src/delta.rs): the component lookup, the validation of the change lists, the section bodies
  and the packet.  The decoders are those of the scan-based deltas.
\<close>

section \<open>The component lookup\<close>

text \<open>Two vectors indexed by the component id: the index in the schema, and the width of a field index.\<close>

record component_lookup =
  cl_index :: "usize option list"
  cl_index_bits :: "u8 list"

definition cd_key :: "component_def \<Rightarrow> usize" where
  "cd_key component = unat (component_id_get (cd_id component))"

fun lookup_loop :: "usize \<Rightarrow> component_def list \<Rightarrow> component_lookup \<Rightarrow> component_lookup" where
  "lookup_loop component_index [] lookup = lookup"
| "lookup_loop component_index (component # cs) lookup =
    lookup_loop (Suc component_index) cs
      \<lparr>cl_index = (cl_index lookup)[cd_key component := Some component_index],
       cl_index_bits = (cl_index_bits lookup)[cd_key component := field_index_bits component]\<rparr>"

definition build_component_lookup :: "schema \<Rightarrow> component_lookup" where
  "build_component_lookup s =
    (let max_id = fold (\<lambda>component. max (cd_key component)) (components s) 0
     in lookup_loop 0 (components s)
          \<lparr>cl_index = replicate (max_id + 1) None, cl_index_bits = replicate (max_id + 1) 0\<rparr>)"

text \<open>
  \<^verbatim>\<open>Vec::get\<close>; the schema index that the lookup holds is within the schema it was built from (lemma
  \<open>lookup_component_find\<close>).
\<close>

definition lookup_component ::
  "schema \<Rightarrow> component_lookup \<Rightarrow> component_id \<Rightarrow> codec_error + component_def" where
  "lookup_component s lookup i =
    (let idx = unat (component_id_get i) in
     case (if idx < length (cl_index lookup) then Some (cl_index lookup ! idx) else None) of
       Some (Some component_index) \<Rightarrow> Inr (components s ! component_index)
     | _ \<Rightarrow> Inl (InvalidMask ComponentMask (UnknownComponent i)))"

definition lookup_index_bits :: "component_lookup \<Rightarrow> component_id \<Rightarrow> u8" where
  "lookup_index_bits lookup i =
    (let idx = unat (component_id_get i) in
     if idx < length (cl_index_bits lookup) then cl_index_bits lookup ! idx else 0)"

section \<open>Validation\<close>

fun check_field_indices ::
  "component_def \<Rightarrow> component_id \<Rightarrow> (usize \<times> field_value) list \<Rightarrow> codec_error + unit" where
  "check_field_indices component i [] = Inr ()"
| "check_field_indices component i ((field_idx, _) # fs) =
    (if field_idx \<ge> length (cd_fields component) then
       Inl (InvalidMask (FieldMask i)
         (InvalidFieldIndex field_idx (saturating_sub (length (cd_fields component)) 1)))
     else check_field_indices component i fs)"

definition validate_component_update ::
  "schema \<Rightarrow> codec_limits \<Rightarrow> component_lookup \<Rightarrow> delta_update_component \<Rightarrow> codec_error + unit" where
  "validate_component_update s limits lookup update =
    and_then (lookup_component s lookup (uc_id update)) (\<lambda>component.
    if uc_fields update = [] then
      Inl (InvalidMask (FieldMask (uc_id update)) (EmptyFieldMask (uc_id update)))
    else if length (uc_fields update) > max_fields_per_component limits then
      Inl (CodecLimitsExceeded FieldsPerComponent (max_fields_per_component limits)
        (length (uc_fields update)))
    else check_field_indices component (uc_id update) (uc_fields update))"

fun validate_component_updates ::
  "schema \<Rightarrow> codec_limits \<Rightarrow> component_lookup \<Rightarrow> delta_update_component list \<Rightarrow> codec_error + unit" where
  "validate_component_updates s limits lookup [] = Inr ()"
| "validate_component_updates s limits lookup (update # us) =
    and_then (validate_component_update s limits lookup update) (\<lambda>_.
      validate_component_updates s limits lookup us)"

fun validate_updates_loop ::
  "schema \<Rightarrow> codec_limits \<Rightarrow> component_lookup \<Rightarrow> u32 option \<Rightarrow> delta_update_entity list \<Rightarrow>
    codec_error + unit" where
  "validate_updates_loop s limits lookup prev [] = Inr ()"
| "validate_updates_loop s limits lookup prev (update # us) =
    (let i = entity_raw (ue_id update) in
     and_then (case prev of
         Some prev_id \<Rightarrow> if i \<le> prev_id then Inl (InvalidEntityOrder prev_id i) else Inr ()
       | None \<Rightarrow> Inr ()) (\<lambda>_.
     if length (ue_components update) > max_components_per_entity limits then
       Inl (CodecLimitsExceeded ComponentsPerEntity (max_components_per_entity limits)
         (length (ue_components update)))
     else
       and_then (validate_component_updates s limits lookup (ue_components update)) (\<lambda>_.
       validate_updates_loop s limits lookup (Some i) us)))"

definition validate_updates_for_encoding ::
  "schema \<Rightarrow> delta_update_entity list \<Rightarrow> codec_limits \<Rightarrow> component_lookup \<Rightarrow> codec_error + unit" where
  "validate_updates_for_encoding s updates limits lookup = validate_updates_loop s limits lookup None updates"

section \<open>The section bodies\<close>

definition encode_destroy_body_from_list ::
  "entity_id list \<Rightarrow> codec_limits \<Rightarrow> bit_writer \<Rightarrow> codec_error + bit_writer" where
  "encode_destroy_body_from_list destroys limits w =
    (if length destroys > max_entities_destroy limits then
       Inl (CodecLimitsExceeded EntitiesDestroy (max_entities_destroy limits) (length destroys))
     else
       and_then (lift_bit (writer_align_to_byte w)) (\<lambda>w.
       and_then (lift_bit (write_varu32 (of_nat (length destroys)) w)) (\<lambda>w.
       and_then (try_fold write_destroy_id destroys w) (\<lambda>w.
       lift_bit (writer_align_to_byte w)))))"

definition encode_create_body_from_list ::
  "schema \<Rightarrow> entity_snapshot list \<Rightarrow> codec_limits \<Rightarrow> bit_writer \<Rightarrow> codec_error + bit_writer" where
  "encode_create_body_from_list s creates limits w =
    (if length creates > max_entities_create limits then
       Inl (CodecLimitsExceeded EntitiesCreate (max_entities_create limits) (length creates))
     else
       and_then (lift_bit (writer_align_to_byte w)) (\<lambda>w.
       and_then (lift_bit (write_varu32 (of_nat (length creates)) w)) (\<lambda>w.
       and_then (try_fold (\<lambda>entity. write_create_entity s entity limits) creates w) (\<lambda>w.
       lift_bit (writer_align_to_byte w)))))"

text \<open>
  One field of an update.  \<^verbatim>\<open>component.fields[*field_idx]\<close> panics out of range; the validation that the
  payload encoder runs first excludes it (lemma \<open>validate_updates_Inr\<close>).
\<close>

definition write_update_field ::
  "component_def \<Rightarrow> u8 \<Rightarrow> usize \<times> field_value \<Rightarrow> bit_writer \<Rightarrow> codec_error + bit_writer" where
  "write_update_field component index_bits = (\<lambda>(field_idx, v) w.
    and_then (if index_bits > 0 then lift_bit (write_bits (of_nat field_idx) index_bits w) else Inr w) (\<lambda>w.
    write_field_value_sparse (cd_id component) (cd_fields component ! field_idx) v w))"

definition write_update_component ::
  "schema \<Rightarrow> component_lookup \<Rightarrow> u32 \<Rightarrow> delta_update_component \<Rightarrow> bit_writer \<Rightarrow> codec_error + bit_writer" where
  "write_update_component s lookup eid update w =
    and_then (lookup_component s lookup (uc_id update)) (\<lambda>component.
    and_then (lift_bit (writer_align_to_byte w)) (\<lambda>w.
    and_then (lift_bit (write_varu32 eid w)) (\<lambda>w.
    and_then (lift_bit (write_varu32 (ucast (component_id_get (cd_id component))) w)) (\<lambda>w.
    and_then (lift_bit (write_varu32 (of_nat (length (uc_fields update))) w)) (\<lambda>w.
    let index_bits = lookup_index_bits lookup (cd_id component) in
    try_fold (write_update_field component index_bits) (uc_fields update) w)))))"

definition write_update_entity ::
  "schema \<Rightarrow> component_lookup \<Rightarrow> delta_update_entity \<Rightarrow> bit_writer \<Rightarrow> codec_error + bit_writer" where
  "write_update_entity s lookup update w =
    try_fold (write_update_component s lookup (entity_raw (ue_id update))) (ue_components update) w"

definition encode_update_body_sparse_packed_from_updates ::
  "schema \<Rightarrow> delta_update_entity list \<Rightarrow> codec_limits \<Rightarrow> component_lookup \<Rightarrow> bit_writer \<Rightarrow>
    codec_error + bit_writer" where
  "encode_update_body_sparse_packed_from_updates s updates limits lookup w =
    (if length updates > max_entities_update limits then
       Inl (CodecLimitsExceeded EntitiesUpdate (max_entities_update limits) (length updates))
     else
     let entry_count = sum_list (map (\<lambda>update. length (ue_components update)) updates);
         entry_limit = saturating_mul (max_entities_update limits) (max_components_per_entity limits) in
     if entry_count > entry_limit then
       Inl (CodecLimitsExceeded EntitiesUpdate entry_limit entry_count)
     else
       and_then (lift_bit (writer_align_to_byte w)) (\<lambda>w.
       and_then (lift_bit (write_varu32 (of_nat entry_count) w)) (\<lambda>w.
       and_then (try_fold (write_update_entity s lookup) updates w) (\<lambda>w.
       lift_bit (writer_align_to_byte w)))))"

section \<open>The payload and the packet\<close>

definition encode_delta_payload_from_updates ::
  "schema \<Rightarrow> entity_id list \<Rightarrow> entity_snapshot list \<Rightarrow> delta_update_entity list \<Rightarrow> codec_limits \<Rightarrow>
    u8 list \<Rightarrow> (codec_error + usize \<times> u8 list) option" where
  "encode_delta_payload_from_updates s destroys creates updates limits out =
    (if length destroys > max_entities_destroy limits then
       Some (Inl (CodecLimitsExceeded EntitiesDestroy (max_entities_destroy limits) (length destroys)))
     else if length creates > max_entities_create limits then
       Some (Inl (CodecLimitsExceeded EntitiesCreate (max_entities_create limits) (length creates)))
     else if length updates > max_entities_update limits then
       Some (Inl (CodecLimitsExceeded EntitiesUpdate (max_entities_update limits) (length updates)))
     else
     try_then (Some (ensure_entity_ids_sorted destroys)) (\<lambda>_.
     try_then (Some (ensure_entities_sorted creates)) (\<lambda>_.
     let lookup = build_component_lookup s in
     try_then (Some (validate_updates_for_encoding s updates limits lookup)) (\<lambda>_.
     try_then (append_section_if (length destroys) EntityDestroy limits
         (encode_destroy_body_from_list destroys limits) (0, out)) (\<lambda>st.
     try_then (append_section_if (length creates) EntityCreate limits
         (encode_create_body_from_list s creates limits) st) (\<lambda>st.
     append_section_if (length updates) EntityUpdateSparsePacked limits
       (encode_update_body_sparse_packed_from_updates s updates limits lookup) st))))))"

definition encode_delta_snapshot_from_updates ::
  "(u8 list \<Rightarrow> u8 list) \<Rightarrow> schema \<Rightarrow> snapshot_tick \<Rightarrow> snapshot_tick \<Rightarrow> entity_id list \<Rightarrow>
    entity_snapshot list \<Rightarrow> delta_update_entity list \<Rightarrow> codec_limits \<Rightarrow> u8 list \<Rightarrow>
    (codec_error + usize \<times> u8 list) option" where
  "encode_delta_snapshot_from_updates blake3 s tick baseline_tick destroys creates updates limits out =
    (if length out < HEADER_SIZE then Some (Inl (OutputTooSmall HEADER_SIZE (length out)))
     else
       try_then (encode_delta_payload_from_updates s destroys creates updates limits
           (drop HEADER_SIZE out)) (\<lambda>(payload_len, payload).
       Some (finish_delta_packet blake3 s tick baseline_tick out payload_len payload)))"

text \<open>The encoder context; its scratch buffers are not used by the code (it marks them dead).\<close>

record session_encoder =
  se_schema :: schema
  se_limits :: codec_limits
  se_scratch :: codec_scratch

definition session_encoder_new :: "schema \<Rightarrow> codec_limits \<Rightarrow> session_encoder" where
  "session_encoder_new s limits = \<lparr>se_schema = s, se_limits = limits, se_scratch = codec_scratch_new\<rparr>"

definition encode_delta_from_changes ::
  "(u8 list \<Rightarrow> u8 list) \<Rightarrow> session_encoder \<Rightarrow> snapshot_tick \<Rightarrow> snapshot_tick \<Rightarrow> entity_snapshot list \<Rightarrow>
    entity_id list \<Rightarrow> delta_update_entity list \<Rightarrow> u8 list \<Rightarrow> (codec_error + usize \<times> u8 list) option" where
  "encode_delta_from_changes blake3 session tick baseline_tick creates destroys updates out =
    encode_delta_snapshot_from_updates blake3 (se_schema session) tick baseline_tick destroys creates updates
      (se_limits session) out"

end
