(* ===== verification/Delta_Sections.thy ===== *)
theory Delta_Sections
  imports Delta_Changes
begin

text \<open>
  The sections of a delta are read back as they were written: destroys, creates and masked updates.
  Every body has the same frame (a count, the entries, padding), which is treated once.
\<close>

section \<open>The frame of a section body\<close>

definition section_body ::
  "usize \<Rightarrow> (bit_writer \<Rightarrow> codec_error + bit_writer) \<Rightarrow> bit_writer \<Rightarrow> codec_error + bit_writer" where
  "section_body n entries w =
    and_then (lift_bit (writer_align_to_byte w)) (\<lambda>w.
    and_then (lift_bit (write_varu32 (of_nat n) w)) (\<lambda>w.
    and_then (entries w) (\<lambda>w. lift_bit (writer_align_to_byte w))))"

lemma section_body_writer: "body_writer entries \<Longrightarrow> body_writer (section_body n entries)"
  unfolding body_writer_def
proof (intro allI impI)
  fix w w' assume ent: "\<forall>w w'. entries w = Inr w' \<longrightarrow> extends w w'" and "section_body n entries w = Inr w'"
  then obtain w1 w2 w3 where w1: "writer_align_to_byte w = Inr w1"
    and w2: "write_varu32 (of_nat n) w1 = Inr w2" and w3: "entries w2 = Inr w3"
    and w4: "writer_align_to_byte w3 = Inr w'"
    by (auto simp: section_body_def res_simps)
  have "extends w w1" "extends w1 w2" using w1 w2 by (auto intro: write_extends)
  moreover have "extends w2 w3" "extends w3 w'" using w3 w4 ent by (auto intro: write_extends)
  ultimately show "extends w w'" by (meson extends_trans)
qed

text \<open>The decoders of section bodies, with what they do after the trailing check.\<close>

lemma section_body_read:
  assumes wr: "section_body n entries (writer_new buf) = Inr w'" and ent: "body_writer entries"
    and n: "n < 2 ^ 32" "n \<le> limit" and sz: "writer_finish w' \<le> max_section_bytes l"
    and dec: "\<And>w w1. entries w = Inr w1 \<Longrightarrow> holds (written_body w') w1 \<Longrightarrow>
      read_entries n (reader_at (written_body w') (bw_pos w)) =
        Inr (x, reader_at (written_body w') (bw_pos w1))"
  shows "and_then (check_section_bytes (written_body w') l) (\<lambda>_.
    and_then (read_section_count (written_body w') kind limit) (\<lambda>(count, r).
    and_then (read_entries count r) (\<lambda>(x, r).
    and_then (check_trailing tag r) (\<lambda>_. k x)))) = k x"
proof -
  let ?d = "written_body w'"
  from wr obtain w1 w2 w3 where w1: "writer_align_to_byte (writer_new buf) = Inr w1"
    and w2: "write_varu32 (of_nat n) w1 = Inr w2" and w3: "entries w2 = Inr w3"
    and w4: "writer_align_to_byte w3 = Inr w'"
    by (auto simp: section_body_def res_simps)
  have wok: "writer_ok w'"
    using body_writerD [OF section_body_writer [OF ent] wr] by (rule extends_ok) simp
  have h4: "holds ?d w'" using wok by (rule written_body_holds)
  have h3: "holds ?d w3" using h4 writer_align_extends [OF w4] by (rule holds_extends)
  have h2: "holds ?d w2" using h3 body_writerD [OF ent w3] by (rule holds_extends)
  have h1: "holds ?d w1" using h2 write_varu32_extends [OF w2] by (rule holds_extends)
  have "reader_align_to_byte (reader_new ?d) = Inr (reader_at ?d (bw_pos w1))"
    using reader_align_written [OF w1 h1] by (simp add: reader_new_at writer_new_def)
  moreover have "length ?d \<le> max_section_bytes l" using sz written_body_length [OF wok] by simp
  moreover have "bw_pos w' mod 8 = 0" using padding_pos [OF w4] by simp
  ultimately show ?thesis
    using read_varu32_written [OF w2 h2] dec [OF w3 h3] reader_align_written [OF w4 h4]
      written_body_remaining [of w'] n
    by (simp add: check_section_bytes_def read_section_count_def check_trailing_def Let_def
        unat_of_nat_u32)
qed

lemma read_ordered_id_written:
  assumes "and_then (lift_bit (writer_align_to_byte w)) (\<lambda>w. lift_bit (write_u32_aligned raw w)) = Inr w'"
    and d: "holds d w'" and prev: "\<And>p. prev = Some p \<Longrightarrow> p < raw"
  shows "read_ordered_id prev (reader_at d (bw_pos w)) = Inr (raw, reader_at d (bw_pos w'))"
proof -
  from assms(1) obtain w1 where w1: "writer_align_to_byte w = Inr w1"
    and w2: "write_u32_aligned raw w1 = Inr w'"
    by (auto simp: res_simps)
  have "holds d w1" using d write_u32_extends [OF w2] by (rule holds_extends)
  from reader_align_written [OF w1 this] u32s.rd_wr [OF w2 _ d] prev show ?thesis
    by (cases prev) (auto simp: read_ordered_id_def not_le)
qed

lemma write_id_extends:
  "and_then (lift_bit (writer_align_to_byte w)) (\<lambda>w. lift_bit (write_u32_aligned raw w)) = Inr w' \<Longrightarrow>
    extends w w'"
  by (auto simp: res_simps intro: extends_trans write_extends)

section \<open>Destroys\<close>

lemma write_destroy_extends: "write_destroy_id i w = Inr w' \<Longrightarrow> extends w w'"
  unfolding write_destroy_id_def by (rule write_id_extends)

lemma destroys_extend: "try_fold (\<lambda>e. write_destroy_id (es_id e)) es w = Inr w' \<Longrightarrow> extends w w'"
  by (rule try_fold_extends [rotated]) (auto intro: write_destroy_extends)

lemma destroys_written:
  "try_fold (\<lambda>e. write_destroy_id (es_id e)) es w = Inr w' \<Longrightarrow> ids_sorted es \<Longrightarrow>
    (\<And>p e. prev = Some p \<Longrightarrow> e \<in> set es \<Longrightarrow> p < entity_raw (es_id e)) \<Longrightarrow> holds d w' \<Longrightarrow>
    decode_destroy_loop (length es) prev (reader_at d (bw_pos w)) =
      Inr (map es_id es, reader_at d (bw_pos w'))"
proof (induction es arbitrary: w prev)
  case (Cons e es)
  from Cons.prems(1) obtain w1 where w1: "write_destroy_id (es_id e) w = Inr w1"
    and rest: "try_fold (\<lambda>e. write_destroy_id (es_id e)) es w1 = Inr w'"
    by (auto elim: and_then_E)
  have "holds d w1" using Cons.prems(4) destroys_extend [OF rest] by (rule holds_extends)
  then have "read_ordered_id prev (reader_at d (bw_pos w)) =
      Inr (entity_raw (es_id e), reader_at d (bw_pos w1))"
    using w1 Cons.prems(3) unfolding write_destroy_id_def by (intro read_ordered_id_written) auto
  moreover have "decode_destroy_loop (length es) (Some (entity_raw (es_id e))) (reader_at d (bw_pos w1)) =
      Inr (map es_id es, reader_at d (bw_pos w'))"
    using Cons.prems(2,4) by (intro Cons.IH [OF rest]) auto
  ultimately show ?case by simp
qed simp

lemma encode_destroy_body_frame:
  assumes "ids_sorted (sn_entities baseline)" and "ids_sorted (sn_entities current)"
  shows "encode_destroy_body baseline current n l w =
    (if n > max_entities_destroy l then Inl (CodecLimitsExceeded EntitiesDestroy (max_entities_destroy l) n)
     else section_body n (try_fold (\<lambda>e. write_destroy_id (es_id e))
       (destroyed (sn_entities baseline) (sn_entities current))) w)"
  using destroy_loop_destroyed [OF assms] by (simp add: encode_destroy_body_def section_body_def)

lemma destroy_section_written:
  assumes wr: "encode_destroy_body baseline current n l (writer_new buf) = Inr w'"
    and sorted: "ids_sorted (sn_entities baseline)" "ids_sorted (sn_entities current)"
    and n: "n = length (destroyed (sn_entities baseline) (sn_entities current))" "n < 2 ^ 32"
    and sz: "writer_finish w' \<le> max_section_bytes l"
  shows "decode_destroy_section (written_body w') l =
    Inr (map es_id (destroyed (sn_entities baseline) (sn_entities current)))"
proof -
  let ?es = "destroyed (sn_entities baseline) (sn_entities current)"
  from wr have lim: "n \<le> max_entities_destroy l"
    and body: "section_body n (try_fold (\<lambda>e. write_destroy_id (es_id e)) ?es) (writer_new buf) = Inr w'"
    by (auto simp: encode_destroy_body_frame [OF sorted] split: if_splits)
  have "body_writer (try_fold (\<lambda>e. write_destroy_id (es_id e)) ?es)"
    by (simp add: body_writer_def destroys_extend)
  then show ?thesis
    unfolding decode_destroy_section_def
    by (rule section_body_read [OF body _ n(2) lim sz])
      (use destroys_written [where prev = None] destroyed_sorted [OF sorted(1)] n(1) in auto)
qed

section \<open>Creates\<close>

lemma full_component_same:
  "write_full_component c snap l w = Inr w' \<longleftrightarrow> write_component_fields c snap l w = Inr w'"
  by (auto simp: write_full_component_def write_component_fields_def)

lemma decode_full_component_same: "decode_full_component c r l = decode_component_fields c r l"
  by (simp add: decode_full_component_def decode_component_fields_def)

lemma try_fold_Inr_cong:
  assumes "\<And>x w w'. f x w = Inr w' \<longleftrightarrow> g x w = Inr w'"
  shows "try_fold f xs w = Inr w' \<longleftrightarrow> try_fold g xs w = Inr w'"
proof (induction xs arbitrary: w)
  case (Cons x xs)
  then show ?case by (simp add: and_then_Inr_iff assms)
qed simp

lemma write_create_entity_parts:
  assumes "write_create_entity s e l w = Inr w'"
  obtains w2 w3 where
    "and_then (lift_bit (writer_align_to_byte w)) (\<lambda>w. lift_bit (write_u32_aligned (entity_raw (es_id e)) w)) =
      Inr w2"
    and "write_component_mask s e w2 = Inr w3" and "ensure_known_components s e = Inr ()"
    and "try_fold (\<lambda>component w. case find_component e (cd_id component) of
        Some snapshot \<Rightarrow> write_component_fields component snapshot l w | None \<Rightarrow> Inr w)
      (components s) w3 = Inr w'"
    and "extends w2 w'"
proof -
  from assms obtain w1 w2 w3 where w: "writer_align_to_byte w = Inr w1"
      "write_u32_aligned (entity_raw (es_id e)) w1 = Inr w2" "write_component_mask s e w2 = Inr w3"
      "ensure_known_components s e = Inr ()"
    and f: "try_fold (\<lambda>component w. case find_component e (cd_id component) of
        Some snapshot \<Rightarrow> write_full_component component snapshot l w | None \<Rightarrow> Inr w)
      (components s) w3 = Inr w'"
    by (auto simp: write_create_entity_def res_simps)
  have f': "try_fold (\<lambda>component w. case find_component e (cd_id component) of
        Some snapshot \<Rightarrow> write_component_fields component snapshot l w | None \<Rightarrow> Inr w)
      (components s) w3 = Inr w'"
    using f by (rule iffD1 [OF try_fold_Inr_cong, rotated])
      (simp add: full_component_same split: option.split)
  have "extends w3 w'"
    using f' by (rule try_fold_extends [rotated])
      (auto split: option.splits intro: write_component_fields_extends)
  then have "extends w2 w'"
    using write_component_mask_extends [OF w(3)] by (rule extends_trans [rotated])
  with w f' show thesis by (intro that [of w2 w3]) simp_all
qed

lemma write_create_entity_extends: "write_create_entity s e l w = Inr w' \<Longrightarrow> extends w w'"
  by (elim write_create_entity_parts) (rule extends_trans [OF write_id_extends])

lemma creates_extend: "try_fold (\<lambda>e. write_create_entity s e l) es w = Inr w' \<Longrightarrow> extends w w'"
  by (rule try_fold_extends [rotated]) (auto intro: write_create_entity_extends)

lemma masked_components_create:
  "map_ok (\<lambda>(cs, r). (map (\<lambda>(i, fds). \<lparr>cs_id = i, cs_fields = fds\<rparr>) cs, r))
      (masked_components_loop (\<lambda>c r. decode_full_component c r l) cs mbits r) =
    decode_components_loop l cs mbits r"
proof (induction l cs mbits r rule: decode_components_loop.induct)
  case (1 l component cs present mbits r)
  show ?case
  proof (cases present)
    case True
    show ?thesis
    proof (cases "decode_component_fields component r l")
      case (Inr p)
      obtain fds r1 where p: "p = (fds, r1)" by (cases p)
      have IH: "decode_components_loop l cs mbits r1 =
          map_ok (\<lambda>(cs, r). (map (\<lambda>(i, fds). \<lparr>cs_id = i, cs_fields = fds\<rparr>) cs, r))
            (masked_components_loop (\<lambda>c r. decode_full_component c r l) cs mbits r1)"
        using 1(1) [OF True Inr prod.collapse] p by simp
      show ?thesis
        by (cases "masked_components_loop (\<lambda>c r. decode_full_component c r l) cs mbits r1")
          (auto simp: True Inr p IH decode_full_component_same)
    qed (simp add: True decode_full_component_same)
  next
    case False
    with 1(2) show ?thesis by simp
  qed
qed simp_all

text \<open>The create loop of the delta decoder is the entity loop of the full decoder with one more check.\<close>

lemma known_loop_Inr:
  "ensure_known_loop s cs = Inr u \<longleftrightarrow> (\<forall>c \<in> set cs. cs_id c \<in> cd_id ` set (components s))"
proof (induction cs)
  case (Cons c cs)
  have "list_all (\<lambda>x. cd_id x \<noteq> cs_id c) (components s) \<longleftrightarrow> cs_id c \<notin> cd_id ` set (components s)"
    by (auto simp: list_all_iff image_iff eq_commute)
  with Cons show ?case by simp
qed simp

lemma canonical_known: "ensure_known_components s (canonical_entity s e) = Inr ()"
proof -
  have "cs_id x \<in> cd_id ` set (components s)" if "x \<in> set (es_components (canonical_entity s e))" for x
  proof -
    from that obtain c where "c \<in> set (components s)" "find_component e (cd_id c) = Some x"
      by (auto simp: canonical_entity_def List.map_filter_def)
    then show ?thesis using find_component_id by auto
  qed
  then show ?thesis by (simp add: ensure_known_components_def known_loop_Inr)
qed

lemma creates_written:
  "try_fold (\<lambda>e. write_create_entity s e l) es w = Inr w' \<Longrightarrow> ids_sorted es \<Longrightarrow> schema_ok s \<Longrightarrow>
    (\<And>p e. prev = Some p \<Longrightarrow> e \<in> set es \<Longrightarrow> p < entity_raw (es_id e)) \<Longrightarrow> holds d w' \<Longrightarrow>
    delta_decode_create_loop s l (length es) prev (reader_at d (bw_pos w)) =
      Inr (map (canonical_entity s) es, reader_at d (bw_pos w'))"
proof (induction es arbitrary: w prev)
  case (Cons e es)
  from Cons.prems(1) obtain w1 where w1: "write_create_entity s e l w = Inr w1"
    and rest: "try_fold (\<lambda>e. write_create_entity s e l) es w1 = Inr w'"
    by (auto elim: and_then_E)
  have h1: "holds d w1" using Cons.prems(5) creates_extend [OF rest] by (rule holds_extends)
  from w1 show ?case
  proof (rule write_create_entity_parts)
    fix w2 w3
    assume id: "and_then (lift_bit (writer_align_to_byte w))
        (\<lambda>w. lift_bit (write_u32_aligned (entity_raw (es_id e)) w)) = Inr w2"
      and body: "write_component_mask s e w2 = Inr w3"
        "try_fold (\<lambda>component w. case find_component e (cd_id component) of
            Some snapshot \<Rightarrow> write_component_fields component snapshot l w | None \<Rightarrow> Inr w)
          (components s) w3 = Inr w1"
      and "extends w2 w1"
    then have h2: "holds d w2" using h1 by (auto intro: holds_extends)
    have rd: "read_ordered_id prev (reader_at d (bw_pos w)) =
        Inr (entity_raw (es_id e), reader_at d (bw_pos w2))"
      using id h2 Cons.prems(4) by (intro read_ordered_id_written) auto
    have "decode_create_entity s l (entity_raw (es_id e)) (reader_at d (bw_pos w2)) =
        Inr (canonical_entity s e, reader_at d (bw_pos w1))"
      using decode_entity_body_written [OF body Cons.prems(3) h1] .
    then obtain mbits r cs where m: "read_mask (reader_at d (bw_pos w2)) (length (components s)) ComponentMask =
        Inr (mbits, r)"
      and cs: "decode_components_loop l (components s) mbits r = Inr (cs, reader_at d (bw_pos w1))"
      and ce: "canonical_entity s e = \<lparr>es_id = es_id e, es_components = cs\<rparr>"
      by (auto simp: decode_create_entity_def elim!: and_then_E)
    from cs obtain fs where fs: "masked_components_loop (\<lambda>c r. decode_full_component c r l) (components s) mbits r =
        Inr (fs, reader_at d (bw_pos w1))" "map (\<lambda>(i, fds). \<lparr>cs_id = i, cs_fields = fds\<rparr>) fs = cs"
      by (auto simp: masked_components_create [symmetric] map_ok_Inr_iff)
    have "delta_decode_create_loop s l (length es) (Some (entity_raw (es_id e))) (reader_at d (bw_pos w1)) =
        Inr (map (canonical_entity s) es, reader_at d (bw_pos w'))"
      using Cons.prems(2,3,5) by (intro Cons.IH [OF rest]) auto
    with rd m fs canonical_known [of s e] ce show ?thesis by simp
  qed
qed simp

lemma delta_create_body_frame:
  assumes "ids_sorted (sn_entities baseline)" and "ids_sorted (sn_entities current)"
  shows "delta_encode_create_body s baseline current n l w =
    (if n > max_entities_create l then Inl (CodecLimitsExceeded EntitiesCreate (max_entities_create l) n)
     else section_body n (try_fold (\<lambda>e. write_create_entity s e l)
       (created (sn_entities baseline) (sn_entities current))) w)"
  using create_loop_created [OF assms] by (simp add: delta_encode_create_body_def section_body_def)

lemma creates_section_written:
  assumes body: "section_body (length es) (try_fold (\<lambda>e. write_create_entity s e l) es) (writer_new buf) = Inr w'"
    and ok: "schema_ok s" and sorted: "ids_sorted es"
    and n: "length es < 2 ^ 32" "length es \<le> max_entities_create l"
    and sz: "writer_finish w' \<le> max_section_bytes l"
  shows "delta_decode_create_section s (written_body w') l = Inr (map (canonical_entity s) es)"
proof -
  have "body_writer (try_fold (\<lambda>e. write_create_entity s e l) es)"
    by (simp add: body_writer_def creates_extend)
  then show ?thesis
    unfolding delta_decode_create_section_def
    by (rule section_body_read [OF body _ n sz])
      (use creates_written [where prev = None] sorted ok in auto)
qed

section \<open>Masked updates\<close>

lemma scratch_mask_value:
  assumes "check_field_counts component b c l = Inr u" and "scratch_field_mask n component b c sc = Inr (m, sc')"
  shows "changed_mask component b c = Inr m"
  using scratch_field_mask_changed [OF assms(1), of n sc] assms(2) by simp

lemma scratch_mask_keeps:
  assumes "n \<le> length (sc_component_changed sc)" and "scratch_field_mask n component b c sc = Inr (m, sc')"
  shows "sc_component_changed sc' = sc_component_changed sc"
  using assms by (auto simp: scratch_field_mask_def component_and_field_masks_mut_def Let_def res_simps
      ensure_component_capacity_def ensure_field_capacity_def store_field_mask_def split: if_splits)

text \<open>The flag that says whether a component changed.\<close>

definition flag_of :: "codec_limits \<Rightarrow> entity_snapshot \<Rightarrow> entity_snapshot \<Rightarrow> component_def \<Rightarrow> bool \<Rightarrow> bool" where
  "flag_of l base cur component flag \<longleftrightarrow>
    (\<exists>u. component_change l base cur component = Inr u \<and> (flag \<longleftrightarrow> u \<noteq> None))"

lemma changed_bits_written:
  "changed_bits_loop n l base cur idx cs sc w = Inr (w', sc') \<Longrightarrow> idx + length cs \<le> n \<Longrightarrow>
    n \<le> length (sc_component_changed sc) \<Longrightarrow>
    \<exists>flags. list_all2 (flag_of l base cur) cs flags \<and> try_fold write_bit flags w = Inr w' \<and>
      length (sc_component_changed sc') = length (sc_component_changed sc) \<and>
      (\<forall>i < length cs. sc_component_changed sc' ! (idx + i) = (sc_component_changed sc ! (idx + i) \<or> flags ! i)) \<and>
      (\<forall>j < idx. sc_component_changed sc' ! j = sc_component_changed sc ! j)"
proof (induction cs arbitrary: idx sc w)
  case (Cons component cs)
  from Cons.prems(1) obtain pair where pair: "matched_component component base cur l = Inr pair"
    by (auto elim: and_then_E)
  have "\<exists>flag w1 sc1. flag_of l base cur component flag \<and> write_bit flag w = Inr w1 \<and>
      length (sc_component_changed sc1) = length (sc_component_changed sc) \<and>
      sc_component_changed sc1 ! idx = (sc_component_changed sc ! idx \<or> flag) \<and>
      (\<forall>j. j \<noteq> idx \<longrightarrow> sc_component_changed sc1 ! j = sc_component_changed sc ! j) \<and>
      changed_bits_loop n l base cur (Suc idx) cs sc1 w1 = Inr (w', sc')"
  proof (cases pair)
    case None
    with Cons.prems(1) pair obtain w1 where "write_bit False w = Inr w1"
      and "changed_bits_loop n l base cur (Suc idx) cs sc w1 = Inr (w', sc')"
      by (auto simp: res_simps elim!: and_then_E)
    moreover have "flag_of l base cur component False"
      using pair None by (simp add: flag_of_def component_change_def)
    ultimately show ?thesis by (intro exI [of _ False] exI [of _ w1] exI [of _ sc]) simp
  next
    case (Some bc)
    obtain b c where bc: "bc = (b, c)" by (cases bc)
    from Some bc pair have counts: "check_field_counts component b c l = Inr ()"
      by (simp add: matched_component_Some)
    let ?upd = "\<lambda>m sc. if list_ex (\<lambda>b. b) m
      then sc\<lparr>sc_component_changed := (sc_component_changed sc)[idx := True]\<rparr> else sc"
    from Cons.prems(1) pair Some bc obtain m sc0 w1 where
      m: "scratch_field_mask n component b c sc = Inr (m, sc0)"
      and w1: "write_bit (list_ex (\<lambda>b. b) m) w = Inr w1"
      and rest: "changed_bits_loop n l base cur (Suc idx) cs (?upd m sc0) w1 = Inr (w', sc')"
      by (auto simp: res_simps Let_def elim!: and_then_E)
    have "sc_component_changed sc0 = sc_component_changed sc"
      using scratch_mask_keeps [OF Cons.prems(3) m] .
    moreover have "flag_of l base cur component (list_ex (\<lambda>b. b) m)"
      using pair Some bc scratch_mask_value [OF counts m] by (simp add: flag_of_def component_change_def)
    moreover have "idx < length (sc_component_changed sc)" using Cons.prems by simp
    ultimately show ?thesis using w1 rest
      by (intro exI [of _ "list_ex (\<lambda>b. b) m"] exI [of _ w1] exI [of _ "?upd m sc0"]) simp
  qed
  then obtain flag w1 sc1 where flag: "flag_of l base cur component flag" "write_bit flag w = Inr w1"
    and sc1: "length (sc_component_changed sc1) = length (sc_component_changed sc)"
      "sc_component_changed sc1 ! idx = (sc_component_changed sc ! idx \<or> flag)"
      "\<And>j. j \<noteq> idx \<Longrightarrow> sc_component_changed sc1 ! j = sc_component_changed sc ! j"
    and rest: "changed_bits_loop n l base cur (Suc idx) cs sc1 w1 = Inr (w', sc')"
    by blast
  from Cons.IH [OF rest] Cons.prems(2,3) sc1(1) obtain flags where
    flags: "list_all2 (flag_of l base cur) cs flags" "try_fold write_bit flags w1 = Inr w'"
      "length (sc_component_changed sc') = length (sc_component_changed sc)"
    and tail: "\<And>i. i < length cs \<Longrightarrow> sc_component_changed sc' ! (Suc idx + i) =
        (sc_component_changed sc1 ! (Suc idx + i) \<or> flags ! i)"
    and front: "\<And>j. j < Suc idx \<Longrightarrow> sc_component_changed sc' ! j = sc_component_changed sc1 ! j"
    by auto
  have "sc_component_changed sc' ! (idx + i) = (sc_component_changed sc ! (idx + i) \<or> (flag # flags) ! i)"
    if "i < length (component # cs)" for i
    using that front [of idx] sc1(2) tail sc1(3) by (cases i) auto
  with flag flags front sc1(3) show ?case by (intro exI [of _ "flag # flags"]) auto
qed simp

lemma update_fields_written:
  "try_fold (\<lambda>(field, _, cur_val, changed) w.
        if changed then write_field_value c field cur_val w else Inr w)
      (zip fs (zip as (zip vs m))) w = Inr w' \<Longrightarrow>
    length as = length fs \<Longrightarrow> length vs = length fs \<Longrightarrow> length m = length fs \<Longrightarrow>
    list_all (\<lambda>f. codec_ok (fd_codec f)) fs \<Longrightarrow> holds d w' \<Longrightarrow>
    read_update_fields c i fs m (reader_at d (bw_pos w)) = Inr (picked i m vs, reader_at d (bw_pos w'))"
proof (induction fs arbitrary: as vs m w i)
  case (Cons f fs)
  then obtain a as' v vs' b m' where lists: "as = a # as'" "vs = v # vs'" "m = b # m'"
    by (metis length_Suc_conv length_Cons)
  let ?wr = "\<lambda>(field, _, cur_val, changed) w.
    if changed then write_field_value c field cur_val w else Inr w"
  from Cons.prems(1) lists obtain w1 where w1: "?wr (f, a, v, b) w = Inr w1"
    and rest: "try_fold ?wr (zip fs (zip as' (zip vs' m'))) w1 = Inr w'"
    by (auto elim: and_then_E)
  have "extends w1 w'"
    using rest by (rule try_fold_extends [rotated])
      (auto intro: write_field_value_extends split: if_splits)
  with Cons.prems(6) have h1: "holds d w1" by (rule holds_extends)
  have IH: "read_update_fields c (Suc i) fs m' (reader_at d (bw_pos w1)) =
      Inr (picked (Suc i) m' vs', reader_at d (bw_pos w'))"
    using Cons.prems lists by (intro Cons.IH [OF rest]) simp_all
  show ?case
  proof (cases b)
    case True
    with w1 have "write_field_value c f v w = Inr w1" by simp
    from read_field_value_written [OF this _ h1] Cons.prems(5) IH True lists show ?thesis by simp
  next
    case False
    with w1 IH lists show ?thesis by simp
  qed
qed simp

lemma changed_component_written:
  assumes wr: "write_changed_fields component b c m w = Inr w'"
    and counts: "check_field_counts component b c l = Inr ()"
    and m: "length m = length (cd_fields component)" "list_ex (\<lambda>b. b) m"
    and ok: "component_ok component"
  shows "extends w w'"
    and "holds d w' \<Longrightarrow> decode_update_component component (reader_at d (bw_pos w)) l =
      Inr (picked 0 m (cs_fields c), reader_at d (bw_pos w'))"
proof -
  let ?wr = "\<lambda>(field, _, cur_val, changed) w.
    if changed then write_field_value (cd_id component) field cur_val w else Inr w"
  let ?zs = "zip (cd_fields component) (zip (cs_fields b) (zip (cs_fields c) m))"
  from wr obtain w1 where w1: "try_fold write_bit m w = Inr w1" and rest: "try_fold ?wr ?zs w1 = Inr w'"
    by (auto simp: write_changed_fields_def try_fold_lift map_err_Inr_iff elim!: and_then_E)
  have e: "extends w1 w'"
    using rest by (rule try_fold_extends [rotated])
      (auto intro: write_field_value_extends split: if_splits)
  moreover have "extends w w1" using bits1.all_extends [OF w1] .
  ultimately show "extends w w'" by (rule extends_trans [rotated])
  assume d: "holds d w'"
  have "list_all (\<lambda>f. codec_ok (fd_codec f)) (cd_fields component)"
    using ok by (simp add: component_ok_def)
  then have "read_update_fields (cd_id component) 0 (cd_fields component) m (reader_at d (bw_pos w1)) =
      Inr (picked 0 m (cs_fields c), reader_at d (bw_pos w'))"
    using counts m(1) d by (intro update_fields_written [OF rest]) (auto simp: check_field_counts_Inr)
  with read_mask_written [OF w1 holds_extends [OF d e] m(1) [symmetric]] m counts
  show "decode_update_component component (reader_at d (bw_pos w)) l =
      Inr (picked 0 m (cs_fields c), reader_at d (bw_pos w'))"
    by (simp add: decode_update_component_def check_field_counts_Inr)
qed

lemma masks_mut_within:
  assumes "component_and_field_masks_mut n m sc = (sc', changed, slots)"
    and "n \<le> length (sc_component_changed sc)"
  shows "sc_component_changed sc' = sc_component_changed sc" and "changed = take n (sc_component_changed sc)"
    and "length slots = m"
  using assms scratch_slices_length [OF assms(1)]
  by (auto simp: component_and_field_masks_mut_def Let_def ensure_component_capacity_def
      ensure_field_capacity_def split: if_splits)

lemma compute_is_changed_mask:
  assumes "check_field_counts component b c l = Inr ()" and "length slots = length (cd_fields component)"
  shows "compute_field_mask_into component b c slots = changed_mask component b c"
  using assms unfolding compute_field_mask_into_def changed_mask_def check_field_counts_Inr
  by (intro field_mask_loop_slots) simp_all

text \<open>What the second loop has to leave behind for the components that are still to come.\<close>

definition decodes_changes ::
  "codec_limits \<Rightarrow> component_def list \<Rightarrow> bool list \<Rightarrow> delta_update_component list \<Rightarrow>
    bit_writer \<Rightarrow> bit_writer \<Rightarrow> bool" where
  "decodes_changes l cs flags us w w' \<longleftrightarrow> extends w w' \<and>
    (\<forall>d. holds d w' \<longrightarrow>
      masked_components_loop (\<lambda>c r. decode_update_component c r l) cs flags (reader_at d (bw_pos w)) =
        Inr (map (\<lambda>u. (uc_id u, uc_fields u)) us, reader_at d (bw_pos w')))"

lemma decodes_changes_skip:
  "decodes_changes l cs flags us w w' \<Longrightarrow> decodes_changes l (component # cs) (False # flags) us w w'"
  by (simp add: decodes_changes_def)

lemma decodes_changes_step:
  assumes wr: "write_changed_fields component b c m w = Inr w1"
    and counts: "check_field_counts component b c l = Inr ()"
    and m: "length m = length (cd_fields component)" "list_ex (\<lambda>b. b) m"
    and ok: "component_ok component" and rest: "decodes_changes l cs flags us w1 w'"
  shows "decodes_changes l (component # cs) (True # flags)
    (\<lparr>uc_id = cd_id component, uc_fields = picked 0 m (cs_fields c)\<rparr> # us) w w'"
proof -
  note step = changed_component_written [OF wr counts m ok]
  have e: "extends w1 w'" using rest by (simp add: decodes_changes_def)
  have "holds d w1" if "holds d w'" for d using that e by (rule holds_extends)
  with step rest extends_trans [OF step(1) e] show ?thesis by (simp add: decodes_changes_def)
qed

lemma changed_fields_written:
  "changed_fields_loop n l base cur idx cs sc w = Inr (w', sc') \<Longrightarrow> idx + length cs \<le> n \<Longrightarrow>
    n \<le> length (sc_component_changed sc) \<Longrightarrow> list_all2 (flag_of l base cur) cs flags \<Longrightarrow>
    (\<forall>i < length cs. sc_component_changed sc ! (idx + i) = flags ! i) \<Longrightarrow> list_all component_ok cs \<Longrightarrow>
    \<exists>us. entity_changes l base cur cs = Inr us \<and> decodes_changes l cs flags us w w'"
proof (induction cs arbitrary: idx sc w flags)
  case Nil
  then show ?case by (simp add: decodes_changes_def)
next
  case (Cons component cs)
  from Cons.prems(4) obtain flag fl where flags: "flags = flag # fl"
    and flag: "flag_of l base cur component flag" and fl: "list_all2 (flag_of l base cur) cs fl"
    by (auto simp: list_all2_Cons1)
  have at: "sc_component_changed sc ! idx = flag" using Cons.prems(5) flags by force
  have later: "\<forall>i < length cs. sc_component_changed sc ! (Suc idx + i) = fl ! i"
    using Cons.prems(5) flags by force
  have ok: "component_ok component" "list_all component_ok cs" using Cons.prems(6) by simp_all
  from flag obtain u where u: "component_change l base cur component = Inr u" "flag \<longleftrightarrow> u \<noteq> None"
    by (auto simp: flag_of_def)
  have IH: "\<exists>us. entity_changes l base cur cs = Inr us \<and> decodes_changes l cs fl us w1 w'"
    if "changed_fields_loop n l base cur (Suc idx) cs sc1 w1 = Inr (w', sc')"
      and "sc_component_changed sc1 = sc_component_changed sc" for sc1 w1
    using that Cons.prems(2,3) later ok(2) by (intro Cons.IH [OF that(1) _ _ fl]) simp_all
  from u(1) show ?case
  proof (cases rule: component_change_cases)
    case absent
    then have "changed_fields_loop n l base cur (Suc idx) cs sc w = Inr (w', sc')"
      using Cons.prems(1) by (simp add: matched_component_None)
    from IH [OF this refl] u absent(1) flags show ?thesis
      by (auto intro: decodes_changes_skip)
  next
    case (present b c m)
    then have found: "find_component base (cd_id component) = Some b"
        "find_component cur (cd_id component) = Some c"
      and counts: "check_field_counts component b c l = Inr ()"
      by (simp_all add: matched_component_Some)
    obtain sc1 changed slots where mm: "component_and_field_masks_mut n (length (cd_fields component)) sc =
        (sc1, changed, slots)"
      by (cases "component_and_field_masks_mut n (length (cd_fields component)) sc") auto
    note sc1 = masks_mut_within [OF mm Cons.prems(3)]
    have ch: "changed ! idx = flag" using sc1(2) at Cons.prems(2) by simp
    have mask: "compute_field_mask_into component b c slots = Inr m"
      using compute_is_changed_mask [OF counts sc1(3)] present(2) by simp
    have flag_m: "flag \<longleftrightarrow> list_ex (\<lambda>b. b) m" using u(2) present(3) by simp
    show ?thesis
    proof (cases flag)
      case True
      with Cons.prems(1) found counts mm ch mask obtain w1 where
        w1: "write_changed_fields component b c m w = Inr w1"
        and rest: "changed_fields_loop n l base cur (Suc idx) cs (store_field_mask m sc1) w1 = Inr (w', sc')"
        by (auto simp: check_field_counts_Inr elim!: and_then_E)
      from IH [OF rest] sc1(1) obtain us where "entity_changes l base cur cs = Inr us"
        and us: "decodes_changes l cs fl us w1 w'"
        by (auto simp: store_field_mask_def)
      moreover have "length m = length (cd_fields component)" using changed_mask_length [OF present(2)] .
      ultimately show ?thesis
        using decodes_changes_step [OF w1 counts _ _ ok(1) us] flag_m True u(1) present(3) flags by simp
    next
      case False
      with Cons.prems(1) found counts mm ch
      have "changed_fields_loop n l base cur (Suc idx) cs sc1 w = Inr (w', sc')"
        by (simp add: check_field_counts_Inr)
      from IH [OF this sc1(1)] u False flags show ?thesis by (auto intro: decodes_changes_skip)
    qed
  qed
qed

lemma write_update_components_written:
  assumes wr: "write_update_components s base cur l sc w = Inr (w', sc')" and ok: "schema_ok s"
  obtains us flags w1 where "entity_changes l base cur (components s) = Inr us"
    and "try_fold write_bit flags w = Inr w1" and "length flags = length (components s)"
    and "decodes_changes l (components s) flags us w1 w'"
proof -
  let ?n = "length (components s)"
  obtain sc0 changed slots where mm: "component_and_field_masks_mut ?n 0 sc = (sc0, changed, slots)"
    by (cases "component_and_field_masks_mut ?n 0 sc") auto
  have len: "length changed = ?n" using scratch_slices_length [OF mm] by simp
  have len0: "?n \<le> length (sc_component_changed sc0)"
    using mm by (auto simp: component_and_field_masks_mut_def Let_def ensure_component_capacity_def
        ensure_field_capacity_def)
  let ?sc = "fill_component_changed ?n sc0"
  from wr mm len obtain w1 sc1 where
    bits: "changed_bits_loop ?n l base cur 0 (components s) ?sc w = Inr (w1, sc1)"
    and rest: "changed_fields_loop ?n l base cur 0 (components s) sc1 w1 = Inr (w', sc')"
    by (auto simp: write_update_components_def Let_def elim!: and_then_E)
  have lenf: "?n \<le> length (sc_component_changed ?sc)" and clear: "\<And>i. i < ?n \<Longrightarrow> \<not> sc_component_changed ?sc ! i"
    using len0 by (simp_all add: fill_component_changed_def nth_splice)
  from changed_bits_written [OF bits _ lenf] obtain flags where
    fl: "list_all2 (flag_of l base cur) (components s) flags" "try_fold write_bit flags w = Inr w1"
    and sc1: "length (sc_component_changed sc1) = length (sc_component_changed ?sc)"
      "\<forall>i < ?n. sc_component_changed sc1 ! i = (sc_component_changed ?sc ! i \<or> flags ! i)"
    by auto
  have "list_all component_ok (components s)" using ok by (simp add: schema_ok_def)
  with changed_fields_written [OF rest _ _ fl(1)] sc1 lenf clear obtain us where
    "entity_changes l base cur (components s) = Inr us" "decodes_changes l (components s) flags us w1 w'"
    by auto
  with fl show thesis by (intro that) (auto dest: list_all2_lengthD)
qed

lemma changed_bits_extend:
  "changed_bits_loop n l base cur idx cs sc w = Inr (w', sc') \<Longrightarrow> extends w w'"
proof (induction cs arbitrary: idx sc w)
  case (Cons c cs)
  then obtain b idx sc w1 where "write_bit b w = Inr w1" "changed_bits_loop n l base cur idx cs sc w1 = Inr (w', sc')"
    by (fastforce simp: Let_def res_simps split: option.splits)
  then show ?case using Cons.IH by (blast intro: extends_trans write_extends)
qed simp

lemma write_changed_fields_extends: "write_changed_fields component b c m w = Inr w' \<Longrightarrow> extends w w'"
proof -
  let ?wr = "\<lambda>(field, _, cur_val, changed) w.
    if changed then write_field_value (cd_id component) field cur_val w else Inr w"
  assume "write_changed_fields component b c m w = Inr w'"
  then obtain w1 where w1: "try_fold write_bit m w = Inr w1"
    and rest: "try_fold ?wr (zip (cd_fields component) (zip (cs_fields b) (zip (cs_fields c) m))) w1 = Inr w'"
    by (auto simp: write_changed_fields_def try_fold_lift map_err_Inr_iff elim!: and_then_E)
  have "extends w1 w'"
    using rest by (rule try_fold_extends [rotated])
      (auto intro: write_field_value_extends split: if_splits)
  with bits1.all_extends [OF w1] show ?thesis by (rule extends_trans)
qed

lemma changed_fields_extend:
  "changed_fields_loop n l base cur idx cs sc w = Inr (w', sc') \<Longrightarrow> extends w w'"
  by (induction cs arbitrary: idx sc w)
    (auto simp: Let_def res_simps split: option.splits prod.splits if_splits
      intro: extends_trans write_changed_fields_extends)

lemma masked_loop_extends: "masked_loop s l bs cs sc w = Inr (w', sc') \<Longrightarrow> extends w w'"
proof (induction s l bs cs sc w rule: masked_loop.induct)
  case (1 s l b bs c cs sc w)
  consider "es_id b < es_id c" | "es_id c < es_id b" | "es_id b = es_id c" by (rule linorder_cases)
  then show ?case
  proof cases
    case 1
    with "1.IH"(1) "1.prems" show ?thesis by simp
  next
    case 2
    then have "\<not> es_id b < es_id c" by simp
    with 2 "1.IH"(2) "1.prems" show ?thesis by simp
  next
    case 3
    from 3 "1.prems" obtain updated w1 sc1 where u: "entity_has_updates s b c l = Inr updated"
      and step: "(if updated then
            and_then (lift_bit (writer_align_to_byte w)) (\<lambda>w.
            and_then (lift_bit (write_u32_aligned (entity_raw (es_id c)) w)) (\<lambda>w.
            and_then (ensure_component_presence_matches s b c) (\<lambda>_.
            write_update_components s b c l sc w)))
          else Inr (w, sc)) = Inr (w1, sc1)"
      and rest: "masked_loop s l bs cs sc1 w1 = Inr (w', sc')"
      by (auto elim!: and_then_E)
    have "extends w w1"
    proof (cases updated)
      case True
      with step obtain w2 where id: "and_then (lift_bit (writer_align_to_byte w))
          (\<lambda>w. lift_bit (write_u32_aligned (entity_raw (es_id c)) w)) = Inr w2"
        and comps: "write_update_components s b c l sc w2 = Inr (w1, sc1)"
        by (auto simp: res_simps)
      from comps obtain w3 sc2 sc3 n where "changed_bits_loop n l b c 0 (components s) sc2 w2 = Inr (w3, sc3)"
        and "changed_fields_loop n l b c 0 (components s) sc3 w3 = Inr (w1, sc1)"
        by (auto simp: write_update_components_def Let_def split: prod.splits elim!: and_then_E)
      then have "extends w2 w1" by (blast intro: extends_trans changed_bits_extend changed_fields_extend)
      with write_id_extends [OF id] show ?thesis by (rule extends_trans)
    qed (use step in simp)
    moreover have not_less: "\<not> entity_raw (es_id b) < entity_raw (es_id c)"
      "\<not> entity_raw (es_id b) > entity_raw (es_id c)" using 3 by simp_all
    ultimately show ?thesis using "1.IH"(3) [OF not_less u step refl rest] by (blast intro: extends_trans)
  qed
qed auto

text \<open>One updated entity of the masked body, in front of whatever follows.\<close>

lemma masked_entity_written:
  assumes id: "and_then (lift_bit (writer_align_to_byte w))
      (\<lambda>w. lift_bit (write_u32_aligned (entity_raw (es_id c)) w)) = Inr w2"
    and comps: "write_update_components s b c l sc w2 = Inr (w1, sc1)" and ok: "schema_ok s"
  obtains ch where "entity_changes l b c (components s) = Inr ch" and "extends w w1"
    and "\<forall>d prev n. holds d w1 \<and> (\<forall>p. prev = Some p \<longrightarrow> p < entity_raw (es_id c)) \<longrightarrow>
      decode_masked_loop s l (Suc n) prev (reader_at d (bw_pos w)) =
        and_then (decode_masked_loop s l n (Some (entity_raw (es_id c))) (reader_at d (bw_pos w1)))
          (\<lambda>(us, r). Inr (\<lparr>ue_id = es_id c, ue_components = ch\<rparr> # us, r))"
proof -
  from comps ok obtain ch flags w3 where
    ch: "entity_changes l b c (components s) = Inr ch"
    and fl: "try_fold write_bit flags w2 = Inr w3" "length flags = length (components s)"
    and body: "decodes_changes l (components s) flags ch w3 w1"
    by (rule write_update_components_written)
  have e: "extends w w2" "extends w2 w3" "extends w3 w1"
    using write_id_extends [OF id] bits1.all_extends [OF fl(1)] body by (simp_all add: decodes_changes_def)
  show thesis
  proof (rule that [OF ch], goal_cases)
    case 1
    show ?case using e by (meson extends_trans)
  next
    case 2
    show ?case
    proof (intro allI impI, elim conjE)
    fix d :: "u8 list" and prev :: "u32 option" and n
    assume h1: "holds d w1" and prev: "\<forall>p. prev = Some p \<longrightarrow> p < entity_raw (es_id c)"
    have h3: "holds d w3" using h1 e(3) by (rule holds_extends)
    have h2: "holds d w2" using h3 e(2) by (rule holds_extends)
    have "read_ordered_id prev (reader_at d (bw_pos w)) =
        Inr (entity_raw (es_id c), reader_at d (bw_pos w2))"
      using prev by (intro read_ordered_id_written [OF id h2]) simp
    moreover note read_mask_written [OF fl(1) h3 fl(2) [symmetric], of ComponentMask]
    moreover have "masked_components_loop (\<lambda>c r. decode_update_component c r l) (components s) flags
        (reader_at d (bw_pos w3)) = Inr (map (\<lambda>u. (uc_id u, uc_fields u)) ch, reader_at d (bw_pos w1))"
      using body h1 by (simp add: decodes_changes_def)
    moreover have "map (\<lambda>u. \<lparr>uc_id = uc_id u, uc_fields = uc_fields u\<rparr>) ch = ch"
      by (rule map_idI) simp
    ultimately show "decode_masked_loop s l (Suc n) prev (reader_at d (bw_pos w)) =
        and_then (decode_masked_loop s l n (Some (entity_raw (es_id c))) (reader_at d (bw_pos w1)))
          (\<lambda>(us, r). Inr (\<lparr>ue_id = es_id c, ue_components = ch\<rparr> # us, r))"
      by (simp add: comp_def)
    qed
  qed
qed

text \<open>The whole masked body.\<close>

lemma masked_loop_written:
  "masked_loop s l bs cs sc w = Inr (w', sc') \<Longrightarrow> ids_sorted bs \<Longrightarrow> ids_sorted cs \<Longrightarrow> schema_ok s \<Longrightarrow>
    \<exists>us. diff_updates s l bs cs = Inr us \<and> extends w w' \<and>
      (\<forall>d prev. holds d w' \<longrightarrow> (\<forall>p. prev = Some p \<longrightarrow> (\<forall>u \<in> set us. p < entity_raw (ue_id u))) \<longrightarrow>
        decode_masked_loop s l (length us) prev (reader_at d (bw_pos w)) =
          Inr (us, reader_at d (bw_pos w')))"
proof (induction s l bs cs sc w rule: masked_loop.induct)
  case (1 s l b bs c cs sc w)
  consider "es_id b < es_id c" | "es_id c < es_id b" | "es_id b = es_id c" by (rule linorder_cases)
  then show ?case
  proof cases
    case 1
    with "1.IH"(1) "1.prems" show ?thesis by simp
  next
    case 2
    then have "\<not> es_id b < es_id c" by simp
    with 2 "1.IH"(2) "1.prems" show ?thesis by simp
  next
    case 3
    from 3 "1.prems"(1) obtain updated w1 sc1 where u: "entity_has_updates s b c l = Inr updated"
      and step: "(if updated then
            and_then (lift_bit (writer_align_to_byte w)) (\<lambda>w.
            and_then (lift_bit (write_u32_aligned (entity_raw (es_id c)) w)) (\<lambda>w.
            and_then (ensure_component_presence_matches s b c) (\<lambda>_.
            write_update_components s b c l sc w)))
          else Inr (w, sc)) = Inr (w1, sc1)"
      and rest: "masked_loop s l bs cs sc1 w1 = Inr (w', sc')"
      by (auto elim!: and_then_E)
    have sorted: "ids_sorted bs" "ids_sorted cs" using "1.prems"(2,3) by simp_all
    have not_less: "\<not> entity_raw (es_id b) < entity_raw (es_id c)"
      "\<not> entity_raw (es_id b) > entity_raw (es_id c)" using 3 by simp_all
    from "1.IH"(3) [OF not_less u step refl rest sorted "1.prems"(4)] obtain us where
      us: "diff_updates s l bs cs = Inr us" and e: "extends w1 w'"
      and dec: "\<And>d prev. holds d w' \<Longrightarrow> (\<And>p u. prev = Some p \<Longrightarrow> u \<in> set us \<Longrightarrow> p < entity_raw (ue_id u)) \<Longrightarrow>
        decode_masked_loop s l (length us) prev (reader_at d (bw_pos w1)) =
          Inr (us, reader_at d (bw_pos w'))"
      by blast
    show ?thesis
    proof (cases updated)
      case False
      with step u us 3 e dec show ?thesis by auto
    next
      case True
      with step obtain w2 where
        id: "and_then (lift_bit (writer_align_to_byte w)) (\<lambda>w. lift_bit (write_u32_aligned (entity_raw (es_id c)) w)) =
          Inr w2"
        and comps: "write_update_components s b c l sc w2 = Inr (w1, sc1)"
        by (auto simp: res_simps)
      from id comps "1.prems"(4) obtain ch where ch: "entity_changes l b c (components s) = Inr ch"
        and e1: "extends w w1"
        and dec1: "\<forall>d prev n. holds d w1 \<and> (\<forall>p. prev = Some p \<longrightarrow> p < entity_raw (es_id c)) \<longrightarrow>
          decode_masked_loop s l (Suc n) prev (reader_at d (bw_pos w)) =
            and_then (decode_masked_loop s l n (Some (entity_raw (es_id c))) (reader_at d (bw_pos w1)))
              (\<lambda>(us, r). Inr (\<lparr>ue_id = es_id c, ue_components = ch\<rparr> # us, r))"
        by (rule masked_entity_written)
      let ?u = "\<lparr>ue_id = es_id c, ue_components = ch\<rparr>"
      have above: "\<forall>v \<in> set us. es_id c < ue_id v"
        using diff_updates_ids [OF us sorted] "1.prems"(3) by auto
      have "decode_masked_loop s l (length (?u # us)) prev (reader_at d (bw_pos w)) =
          Inr (?u # us, reader_at d (bw_pos w'))"
        if d: "holds d w'" and prev: "\<forall>p. prev = Some p \<longrightarrow> (\<forall>v \<in> set (?u # us). p < entity_raw (ue_id v))"
        for d prev
      proof -
        have "decode_masked_loop s l (length us) (Some (entity_raw (es_id c))) (reader_at d (bw_pos w1)) =
            Inr (us, reader_at d (bw_pos w'))"
          using above by (intro dec [OF d]) auto
        with dec1 holds_extends [OF d e] prev show ?thesis by simp
      qed
      moreover have "extends w w'" using e1 e by (rule extends_trans)
      moreover have "diff_updates s l (b # bs) (c # cs) = Inr (?u # us)" using 3 u True ch us by simp
      ultimately show ?thesis by (intro exI [of _ "?u # us"]) blast
    qed
  qed
qed auto

lemma masked_body_frame:
  "map_ok fst (encode_update_body_masked s baseline current n l sc w) =
    (if n > max_entities_update l then Inl (CodecLimitsExceeded EntitiesUpdate (max_entities_update l) n)
     else section_body n
       (\<lambda>w. map_ok fst (masked_loop s l (sn_entities baseline) (sn_entities current) sc w)) w)"
proof -
  have join: "and_then m (\<lambda>x. map_ok fst (case x of (w, sc) \<Rightarrow> and_then (f w) (\<lambda>w. Inr (w, sc)))) =
      and_then (map_ok fst m) f"
    for m :: "codec_error + bit_writer \<times> codec_scratch" and f :: "bit_writer \<Rightarrow> codec_error + bit_writer"
  proof (cases m)
    case (Inr p)
    then show ?thesis by (cases p; cases "f (fst p)") simp_all
  qed simp
  show ?thesis
    by (simp add: encode_update_body_masked_def section_body_def map_ok_and_then join)
qed

lemma masked_body_writer:
  "body_writer (\<lambda>w. map_ok fst (encode_update_body_masked s baseline current n l sc w))"
proof -
  have "body_writer (\<lambda>w. map_ok fst (masked_loop s l bs cs sc w))" for bs cs
    by (auto simp: body_writer_def map_ok_Inr_iff intro: masked_loop_extends)
  from section_body_writer [OF this, of n] show ?thesis
    by (auto simp: body_writer_def masked_body_frame split: if_splits)
qed

lemma masked_section_written:
  assumes wr: "map_ok fst (encode_update_body_masked s baseline current n l sc (writer_new buf)) = Inr w'"
    and sorted: "ids_sorted (sn_entities baseline)" "ids_sorted (sn_entities current)" and ok: "schema_ok s"
    and n: "\<And>us. diff_updates s l (sn_entities baseline) (sn_entities current) = Inr us \<Longrightarrow>
      n = length us \<and> n < 2 ^ 32" and sz: "writer_finish w' \<le> max_section_bytes l"
  obtains us where "diff_updates s l (sn_entities baseline) (sn_entities current) = Inr us"
    and "decode_update_section_masked s (written_body w') l = Inr us"
proof -
  let ?ent = "\<lambda>w. map_ok fst (masked_loop s l (sn_entities baseline) (sn_entities current) sc w)"
  from wr have lim: "n \<le> max_entities_update l"
    and body: "section_body n ?ent (writer_new buf) = Inr w'"
    by (auto simp: masked_body_frame split: if_splits)
  have loop: "\<exists>us. diff_updates s l (sn_entities baseline) (sn_entities current) = Inr us \<and> extends w w1 \<and>
      (\<forall>d. holds d w1 \<longrightarrow> decode_masked_loop s l (length us) None (reader_at d (bw_pos w)) =
        Inr (us, reader_at d (bw_pos w1)))" if "?ent w = Inr w1" for w w1
  proof -
    from that obtain sc' where
      "masked_loop s l (sn_entities baseline) (sn_entities current) sc w = Inr (w1, sc')"
      by (auto simp: map_ok_Inr_iff)
    from masked_loop_written [OF this sorted ok] show ?thesis by fastforce
  qed
  then have bw: "body_writer ?ent" by (force simp: body_writer_def)
  from body obtain w2 w3 where "?ent w2 = Inr w3" by (auto simp: section_body_def res_simps)
  from loop [OF this] obtain us where us: "diff_updates s l (sn_entities baseline) (sn_entities current) = Inr us"
    by blast
  have "decode_update_section_masked s (written_body w') l = Inr us"
    unfolding decode_update_section_masked_def
    by (rule section_body_read [OF body bw _ lim sz]) (use loop us n [OF us] in force)+
  with us show thesis by (rule that)
qed

end
