(* ===== verification/Delta_Sparse.thy ===== *)
theory Delta_Sparse
  imports Delta_Sections
begin

text \<open>
  Sparse updates are read back.  The two forms of an entry (packed and aligned) satisfy one contract,
  the locale \<open>entry_codec\<close>; the field, component and entity loops are treated once in it.
\<close>

text \<open>Induction along the merge of two lists.\<close>

lemma list_induct_merge [case_names 1 2 3]:
  assumes "\<And>b bs c cs. P bs (c # cs) \<Longrightarrow> P (b # bs) cs \<Longrightarrow> P bs cs \<Longrightarrow> P (b # bs) (c # cs)"
    and "\<And>cs. P [] cs" and "\<And>bs. P bs []"
  shows "P bs cs"
proof (induction bs arbitrary: cs)
  case (Cons b bs)
  then show ?case by (induction cs) (auto intro: assms)
qed (rule assms)

section \<open>Bounds that validation gives\<close>

lemma field_ids_finite: "finite (UNIV :: field_id set)" "card (UNIV :: field_id set) \<le> 65536"
proof -
  have u: "(UNIV :: field_id set) = FieldId ` UNIV" by (metis UNIV_eq_I field_id.exhaust rangeI)
  show "finite (UNIV :: field_id set)" unfolding u by simp
  have "card (FieldId ` UNIV) \<le> card (UNIV :: u16 set)" by (rule card_image_le) simp
  then show "card (UNIV :: field_id set) \<le> 65536" unfolding u by (simp add: card_word)
qed

lemma component_fields_bound: "component_ok c \<Longrightarrow> length (cd_fields c) \<le> 65536"
proof -
  assume "component_ok c"
  then have "length (cd_fields c) = card (set (map fd_id (cd_fields c)))"
    by (metis component_ok_def distinct_card length_map)
  also have "\<dots> \<le> card (UNIV :: field_id set)" using field_ids_finite(1) by (intro card_mono) simp_all
  finally show ?thesis using field_ids_finite(2) by simp
qed

lemma find_by_id: "distinct (map f xs) \<Longrightarrow> x \<in> set xs \<Longrightarrow> find (\<lambda>y. f y = f x) xs = Some x"
  by (induction xs) auto

lemma check_entry_order_Inr:
  "check_entry_order pe pc eid raw = Inr () \<longleftrightarrow>
    (\<forall>p. pe = Some p \<longrightarrow> p < eid \<or> p = eid \<and> (\<forall>q. pc = Some q \<longrightarrow> q < raw))"
  by (auto simp: check_entry_order_def split: option.splits)

text \<open>The components of one entity, pushed one after the other.\<close>

lemma push_updates_same:
  "ue_id u = EntityId eid \<Longrightarrow>
    fold (push_update eid) ch (acc @ [u]) = acc @ [u\<lparr>ue_components := ue_components u @ ch\<rparr>]"
  by (induction ch arbitrary: u) (simp_all add: push_update_def)

lemma push_updates_new:
  assumes "acc \<noteq> [] \<Longrightarrow> entity_raw (ue_id (last acc)) \<noteq> eid" and "ch \<noteq> []"
  shows "fold (push_update eid) ch acc = acc @ [\<lparr>ue_id = EntityId eid, ue_components = ch\<rparr>]"
proof -
  obtain c cs where ch: "ch = c # cs" using assms(2) by (cases ch) auto
  have "push_update eid c acc = acc @ [\<lparr>ue_id = EntityId eid, ue_components = [c]\<rparr>]"
    using assms(1) by (auto simp: push_update_def)
  then show ?thesis by (simp add: ch push_updates_same)
qed

text \<open>
  What the entries of one entity have to decode to, whatever comes after them: the state of the loop
  stays as it was, when there are none, or has the entity's id.
\<close>

definition decodes_entries where
  "decodes_entries read_head read_index s l eid cs ch w w' \<longleftrightarrow> extends w w' \<and>
    (\<forall>d k pe pc acc. holds d w' \<longrightarrow>
      (\<forall>c \<in> set cs. check_entry_order pe pc eid (component_id_get (cd_id c)) = Inr ()) \<longrightarrow>
      (\<exists>pe' pc'. (pe' = pe \<or> pe' = Some eid) \<and>
        decode_sparse_loop read_head read_index s l (length ch + k) pe pc acc (reader_at d (bw_pos w)) =
          decode_sparse_loop read_head read_index s l k pe' pc' (fold (push_update eid) ch acc)
            (reader_at d (bw_pos w'))))"

lemma decodes_entries_skip:
  "decodes_entries rh ri s l eid cs ch w w' \<Longrightarrow> decodes_entries rh ri s l eid (c # cs) ch w w'"
  by (simp add: decodes_entries_def)

lemma decodes_entries_step:
  assumes e: "extends w w1"
    and first: "\<And>d n pe pc acc. holds d w1 \<Longrightarrow>
      check_entry_order pe pc eid (component_id_get (cd_id c)) = Inr () \<Longrightarrow>
      decode_sparse_loop rh ri s l (Suc n) pe pc acc (reader_at d (bw_pos w)) =
        decode_sparse_loop rh ri s l n (Some eid) (Some (component_id_get (cd_id c)))
          (push_update eid u acc) (reader_at d (bw_pos w1))"
    and less: "\<forall>x \<in> set cs. cd_id c < cd_id x" and rest: "decodes_entries rh ri s l eid cs ch w1 w'"
  shows "decodes_entries rh ri s l eid (c # cs) (u # ch) w w'"
  unfolding decodes_entries_def
proof (intro conjI allI impI)
  have e1: "extends w1 w'" using rest by (simp add: decodes_entries_def)
  with e show "extends w w'" by (rule extends_trans)
  fix d k pe pc acc
  assume d: "holds d w'"
    and order: "\<forall>x \<in> set (c # cs). check_entry_order pe pc eid (component_id_get (cd_id x)) = Inr ()"
  have "\<forall>x \<in> set cs. check_entry_order (Some eid) (Some (component_id_get (cd_id c))) eid
      (component_id_get (cd_id x)) = Inr ()"
    using less by (simp add: check_entry_order_Inr less_component_id_def)
  with rest d obtain pe' pc' where "pe' = Some eid"
    and "decode_sparse_loop rh ri s l (length ch + k) (Some eid) (Some (component_id_get (cd_id c)))
        (push_update eid u acc) (reader_at d (bw_pos w1)) =
      decode_sparse_loop rh ri s l k pe' pc' (fold (push_update eid) ch (push_update eid u acc))
        (reader_at d (bw_pos w'))"
    unfolding decodes_entries_def by (metis (no_types, lifting))
  with first [OF holds_extends [OF d e1], of pe pc "length ch + k" acc] order
  show "\<exists>pe' pc'. (pe' = pe \<or> pe' = Some eid) \<and>
      decode_sparse_loop rh ri s l (length (u # ch) + k) pe pc acc (reader_at d (bw_pos w)) =
        decode_sparse_loop rh ri s l k pe' pc' (fold (push_update eid) (u # ch) acc)
          (reader_at d (bw_pos w'))"
    by auto
qed

text \<open>The number of entries of a list of updates, and what they decode to.\<close>

definition update_entry_count :: "delta_update_entity list \<Rightarrow> nat" where
  "update_entry_count us = sum_list (map (\<lambda>u. length (ue_components u)) us)"

definition decodes_sparse where
  "decodes_sparse read_head read_index s l us w w' \<longleftrightarrow> extends w w' \<and>
    (\<forall>d pe pc acc. holds d w' \<longrightarrow>
      (\<forall>u \<in> set us. (\<forall>p. pe = Some p \<longrightarrow> p < entity_raw (ue_id u)) \<and>
        (acc \<noteq> [] \<longrightarrow> ue_id (last acc) < ue_id u)) \<longrightarrow>
      decode_sparse_loop read_head read_index s l (update_entry_count us) pe pc acc
        (reader_at d (bw_pos w)) = Inr (acc @ us, reader_at d (bw_pos w')))"

lemma decodes_sparse_step:
  assumes one: "decodes_entries rh ri s l (entity_raw eid) cs ch w w1" and ch: "ch \<noteq> []"
    and above: "\<forall>v \<in> set us. eid < ue_id v" and rest: "decodes_sparse rh ri s l us w1 w'"
  shows "decodes_sparse rh ri s l (\<lparr>ue_id = eid, ue_components = ch\<rparr> # us) w w'"
  unfolding decodes_sparse_def
proof (intro conjI allI impI)
  let ?u = "\<lparr>ue_id = eid, ue_components = ch\<rparr>"
  have e: "extends w w1" "extends w1 w'" using one rest by (simp_all add: decodes_entries_def decodes_sparse_def)
  then show "extends w w'" by (rule extends_trans)
  fix d pe pc and acc :: "delta_update_entity list"
  assume d: "holds d w'" and prev: "\<forall>u \<in> set (?u # us). (\<forall>p. pe = Some p \<longrightarrow> p < entity_raw (ue_id u)) \<and>
    (acc \<noteq> [] \<longrightarrow> ue_id (last acc) < ue_id u)"
  have "\<forall>c \<in> set cs. check_entry_order pe pc (entity_raw eid) (component_id_get (cd_id c)) = Inr ()"
    using prev by (simp add: check_entry_order_Inr)
  with one holds_extends [OF d e(2)] obtain pe' pc' where pe': "pe' = pe \<or> pe' = Some (entity_raw eid)"
    and step: "decode_sparse_loop rh ri s l (length ch + update_entry_count us) pe pc acc (reader_at d (bw_pos w)) =
      decode_sparse_loop rh ri s l (update_entry_count us) pe' pc' (fold (push_update (entity_raw eid)) ch acc)
        (reader_at d (bw_pos w1))"
    unfolding decodes_entries_def by blast
  have push: "fold (push_update (entity_raw eid)) ch acc = acc @ [?u]"
    using prev ch by (subst push_updates_new) auto
  have "\<forall>u \<in> set us. (\<forall>p. pe' = Some p \<longrightarrow> p < entity_raw (ue_id u)) \<and> eid < ue_id u"
    using pe' prev above by auto
  with rest d have "decode_sparse_loop rh ri s l (update_entry_count us) pe' pc' (acc @ [?u])
      (reader_at d (bw_pos w1)) = Inr ((acc @ [?u]) @ us, reader_at d (bw_pos w'))"
    unfolding decodes_sparse_def by simp
  with step push show "decode_sparse_loop rh ri s l (update_entry_count (?u # us)) pe pc acc
      (reader_at d (bw_pos w)) = Inr (acc @ ?u # us, reader_at d (bw_pos w'))"
    by (simp add: update_entry_count_def)
qed

section \<open>The contract of an entry\<close>

locale entry_codec =
  fixes write_head :: "u32 \<Rightarrow> component_id \<Rightarrow> usize \<Rightarrow> bit_writer \<Rightarrow> codec_error + bit_writer"
    and write_index :: "component_def \<Rightarrow> usize \<Rightarrow> bit_writer \<Rightarrow> codec_error + bit_writer"
    and read_head :: "bit_reader \<Rightarrow> codec_error + (u32 \<times> u16) \<times> bit_reader"
    and read_index :: "component_def \<Rightarrow> bit_reader \<Rightarrow> codec_error + usize \<times> bit_reader"
  assumes head_extends: "write_head eid cid n w = Inr w' \<Longrightarrow> extends w w'"
    and head_read: "write_head eid cid n w = Inr w' \<Longrightarrow> holds d w' \<Longrightarrow> n < 2 ^ 32 \<Longrightarrow>
      \<exists>r. read_head (reader_at d (bw_pos w)) = Inr ((eid, component_id_get cid), r) \<and>
        read_varu32 r = Inr (of_nat n, reader_at d (bw_pos w'))"
    and index_extends: "write_index c i w = Inr w' \<Longrightarrow> extends w w'"
    and index_read: "write_index c i w = Inr w' \<Longrightarrow> i < length (cd_fields c) \<Longrightarrow>
      length (cd_fields c) \<le> 65536 \<Longrightarrow> holds d w' \<Longrightarrow>
      read_index c (reader_at d (bw_pos w)) = Inr (i, reader_at d (bw_pos w'))"
begin

lemma fields_step:
  assumes "sparse_fields_loop write_index c i (f # fs) (b # m) (v # vs) w = Inr w'" and b
  obtains w1 w2 where "write_index c i w = Inr w1" and "write_field_value (cd_id c) f v w1 = Inr w2"
    and "sparse_fields_loop write_index c (Suc i) fs m vs w2 = Inr w'"
  using assms by (auto simp: write_field_value_sparse_eq elim!: and_then_E)

lemma fields_extend: "sparse_fields_loop write_index c i fs m vs w = Inr w' \<Longrightarrow> extends w w'"
proof (induction fs arbitrary: i m vs w)
  case (Cons f fs)
  show ?case
  proof (cases m)
    case m: (Cons changed m')
    show ?thesis
    proof (cases vs)
      case vs: (Cons v vs')
      show ?thesis
      proof (cases changed)
        case True
        from Cons.prems obtain w1 w2 where w: "write_index c i w = Inr w1"
            "write_field_value (cd_id c) f v w1 = Inr w2"
          and rest: "sparse_fields_loop write_index c (Suc i) fs m' vs' w2 = Inr w'"
          unfolding m vs using True by (rule fields_step)
        have "extends w w2" using w by (meson extends_trans index_extends write_field_value_extends)
        then show ?thesis using Cons.IH [OF rest] by (rule extends_trans)
      next
        case False
        with Cons m vs show ?thesis by simp
      qed
    qed (use Cons.prems in simp)
  qed (use Cons.prems in simp)
qed simp

text \<open>The changed fields of a component, with their indices.\<close>

lemma fields_written:
  "sparse_fields_loop write_index c i fs m vs w = Inr w' \<Longrightarrow> fs = drop i (cd_fields c) \<Longrightarrow>
    length m = length fs \<Longrightarrow> length vs = length fs \<Longrightarrow> list_all (\<lambda>f. codec_ok (fd_codec f)) fs \<Longrightarrow>
    length (cd_fields c) \<le> 65536 \<Longrightarrow> holds d w' \<Longrightarrow> (\<forall>p. prev = Some p \<longrightarrow> p < i) \<Longrightarrow>
    read_sparse_fields read_index c (count_changed m) prev (reader_at d (bw_pos w)) =
      Inr (picked i m vs, reader_at d (bw_pos w'))"
proof (induction fs arbitrary: i m vs w prev)
  case Nil
  then show ?case by (simp add: count_changed_def)
next
  case (Cons f fs)
  from Cons.prems(3,4) obtain b m' v vs' where lists: "m = b # m'" "vs = v # vs'"
    by (metis length_Suc_conv length_Cons)
  have fs: "fs = drop (Suc i) (cd_fields c)" and f: "cd_fields c ! i = f" and i: "i < length (cd_fields c)"
  proof -
    show "i < length (cd_fields c)" using Cons.prems(2) by (metis drop_all leI list.distinct(1))
    then have "drop i (cd_fields c) = cd_fields c ! i # drop (Suc i) (cd_fields c)"
      by (rule Cons_nth_drop_Suc [symmetric])
    with Cons.prems(2) show "fs = drop (Suc i) (cd_fields c)" "cd_fields c ! i = f" by simp_all
  qed
  have ok: "codec_ok (fd_codec f)" "list_all (\<lambda>f. codec_ok (fd_codec f)) fs" using Cons.prems(5) by simp_all
  have len: "length m' = length fs" "length vs' = length fs" using Cons.prems(3,4) lists by simp_all
  show ?case
  proof (cases b)
    case True
    from Cons.prems(1) obtain w1 w2 where w1: "write_index c i w = Inr w1"
      and w2: "write_field_value (cd_id c) f v w1 = Inr w2"
      and rest: "sparse_fields_loop write_index c (Suc i) fs m' vs' w2 = Inr w'"
      unfolding lists using True by (rule fields_step)
    have h2: "holds d w2" using Cons.prems(7) fields_extend [OF rest] by (rule holds_extends)
    have h1: "holds d w1" using h2 write_field_value_extends [OF w2] by (rule holds_extends)
    have "read_sparse_fields read_index c (count_changed m') (Some i) (reader_at d (bw_pos w2)) =
        Inr (picked (Suc i) m' vs', reader_at d (bw_pos w'))"
      using Cons.prems(6,7) by (intro Cons.IH [OF rest fs len ok(2)]) simp_all
    moreover note index_read [OF w1 i Cons.prems(6) h1]
    moreover note read_field_value_written [OF w2 ok(1) h2]
    ultimately show ?thesis using i f Cons.prems(8) True lists
      by (cases prev) (auto simp: count_changed_def read_field_value_sparse_eq)
  next
    case False
    with Cons.prems(1) lists have rest: "sparse_fields_loop write_index c (Suc i) fs m' vs' w = Inr w'"
      by simp
    have "read_sparse_fields read_index c (count_changed m') prev (reader_at d (bw_pos w)) =
        Inr (picked (Suc i) m' vs', reader_at d (bw_pos w'))"
      using Cons.prems(6-8) by (intro Cons.IH [OF rest fs len ok(2)]) auto
    with False lists show ?thesis by (simp add: count_changed_def)
  qed
qed

lemma components_extend:
  "sparse_components_loop write_head write_index n l base cur cs sc w = Inr (w', sc') \<Longrightarrow> extends w w'"
proof (induction cs arbitrary: sc w)
  case (Cons c cs)
  from Cons.prems obtain pair where pair: "matched_component c base cur l = Inr pair"
    by (auto elim: and_then_E)
  show ?case
  proof (cases pair)
    case None
    with Cons pair show ?thesis by simp
  next
    case (Some bc)
    obtain b x where "bc = (b, x)" by (cases bc)
    with Some Cons.prems pair obtain m sc1 w1 where
      step: "(if count_changed m > 0 then
          and_then (write_head (entity_raw (es_id cur)) (cd_id c) (count_changed m) w)
            (sparse_fields_loop write_index c 0 (cd_fields c) m (cs_fields x))
        else Inr w) = Inr w1"
      and rest: "sparse_components_loop write_head write_index n l base cur cs sc1 w1 = Inr (w', sc')"
      by (auto simp: Let_def elim!: and_then_E)
    have "extends w w1"
      using step by (auto simp: res_simps split: if_splits intro: extends_trans head_extends fields_extend)
    then show ?thesis using Cons.IH [OF rest] by (rule extends_trans)
  qed
qed simp

lemma entities_extend:
  "sparse_entities_loop write_head write_index s l bs cs sc w = Inr (w', sc') \<Longrightarrow> extends w w'"
proof (induction bs cs arbitrary: sc w rule: list_induct_merge)
  case (1 b bs c cs)
  consider "es_id b < es_id c" | "es_id c < es_id b" | "es_id b = es_id c" by (rule linorder_cases)
  then show ?case
  proof cases
    case 1
    with "1.IH"(1) "1.prems" show ?thesis by simp
  next
    case 2
    then have "\<not> es_id b < es_id c" by simp
    with 2 "1.IH"(2) "1.prems" show ?thesis by simp
  next
    case 3
    with "1.prems" obtain updated w1 sc1 where
      step: "(if updated then
          sparse_components_loop write_head write_index (length (components s)) l b c (components s) sc w
        else Inr (w, sc)) = Inr (w1, sc1)"
      and rest: "sparse_entities_loop write_head write_index s l bs cs sc1 w1 = Inr (w', sc')"
      by (auto elim!: and_then_E)
    have "extends w w1" using step by (auto split: if_splits intro: components_extend)
    then show ?thesis using "1.IH"(3) [OF rest] by (rule extends_trans)
  qed
qed simp_all

text \<open>
  The entries of one entity.  \<open>order_ok\<close> is the order check of the decoder; the state after the
  entries is the one before them, when there were none, or has the entity's id.
\<close>

lemma component_written:
  assumes wr: "and_then (write_head eid (cd_id c) (count_changed m) w)
      (sparse_fields_loop write_index c 0 (cd_fields c) m vs) = Inr w'"
    and c: "find (\<lambda>x. cd_id x = cd_id c) (components s) = Some c" "component_id_get (cd_id c) \<noteq> 0"
    and ok: "component_ok c" and counts: "length (cd_fields c) \<le> max_fields_per_component l"
    and m: "length m = length (cd_fields c)" "length vs = length (cd_fields c)" "list_ex (\<lambda>b. b) m"
  shows "extends w w'"
    and "holds d w' \<Longrightarrow> check_entry_order pe pc eid (component_id_get (cd_id c)) = Inr () \<Longrightarrow>
      decode_sparse_loop read_head read_index s l (Suc n) pe pc acc (reader_at d (bw_pos w)) =
        decode_sparse_loop read_head read_index s l n (Some eid) (Some (component_id_get (cd_id c)))
          (push_update eid \<lparr>uc_id = cd_id c, uc_fields = picked 0 m vs\<rparr> acc) (reader_at d (bw_pos w'))"
proof -
  from wr obtain w1 where w1: "write_head eid (cd_id c) (count_changed m) w = Inr w1"
    and rest: "sparse_fields_loop write_index c 0 (cd_fields c) m vs w1 = Inr w'"
    by (rule and_then_E)
  note e = head_extends [OF w1] fields_extend [OF rest]
  then show "extends w w'" by (rule extends_trans)
  assume d: "holds d w'" and order: "check_entry_order pe pc eid (component_id_get (cd_id c)) = Inr ()"
  have few: "length (cd_fields c) \<le> 65536" using ok by (rule component_fields_bound)
  have cnt: "count_changed m \<le> length (cd_fields c)" "0 < count_changed m"
    using length_filter_le [of "\<lambda>b. b" m] m by (simp_all add: count_changed_pos) (simp add: count_changed_def)
  then have small: "count_changed m < 2 ^ 32" using few by simp
  from head_read [OF w1 holds_extends [OF d e(2)] small] obtain r where
    r: "read_head (reader_at d (bw_pos w)) = Inr ((eid, component_id_get (cd_id c)), r)"
      "read_varu32 r = Inr (of_nat (count_changed m), reader_at d (bw_pos w1))"
    by blast
  have "read_sparse_fields read_index c (count_changed m) None (reader_at d (bw_pos w1)) =
      Inr (picked 0 m vs, reader_at d (bw_pos w'))"
    using ok m few d by (intro fields_written [OF rest]) (simp_all add: component_ok_def)
  moreover have "component_id_new (component_id_get (cd_id c)) = Some (cd_id c)"
    using c(2) by (cases "cd_id c") (simp add: component_id_new_def)
  moreover have "check_field_count c (count_changed m) l = Inr ()"
    using cnt counts by (simp add: check_field_count_def)
  ultimately show "decode_sparse_loop read_head read_index s l (Suc n) pe pc acc (reader_at d (bw_pos w)) =
        decode_sparse_loop read_head read_index s l n (Some eid) (Some (component_id_get (cd_id c)))
          (push_update eid \<lparr>uc_id = cd_id c, uc_fields = picked 0 m vs\<rparr> acc) (reader_at d (bw_pos w'))"
    using r order c(1) small by (simp add: Let_def unat_of_nat_u32)
qed

lemma components_written:
  "sparse_components_loop write_head write_index n l base cur cs sc w = Inr (w', sc') \<Longrightarrow>
    set cs \<subseteq> set (components s) \<Longrightarrow> sorted_wrt (<) (map cd_id cs) \<Longrightarrow> schema_ok s \<Longrightarrow> schema_ids_ok s \<Longrightarrow>
    \<exists>ch. entity_changes l base cur cs = Inr ch \<and>
      decodes_entries read_head read_index s l (entity_raw (es_id cur)) cs ch w w'"
proof (induction cs arbitrary: sc w)
  case Nil
  then show ?case by (auto simp: decodes_entries_def)
next
  case (Cons c cs)
  let ?eid = "entity_raw (es_id cur)"
  let ?dec = "decodes_entries read_head read_index s l ?eid"
  from Cons.prems(1) obtain pair where pair: "matched_component c base cur l = Inr pair"
    by (auto elim: and_then_E)
  have c: "c \<in> set (components s)" "set cs \<subseteq> set (components s)" using Cons.prems(2) by simp_all
  have sorted: "sorted_wrt (<) (map cd_id cs)" and less: "\<forall>x \<in> set cs. cd_id c < cd_id x"
    using Cons.prems(3) by simp_all
  note IH = Cons.IH [OF _ c(2) sorted Cons.prems(4,5)]
  have skip: ?case if none: "component_change l base cur c = Inr None"
    and rest: "sparse_components_loop write_head write_index n l base cur cs sc0 w = Inr (w', sc')" for sc0
    using IH [OF rest] none by (auto intro: decodes_entries_skip)
  show ?case
  proof (cases pair)
    case None
    with Cons.prems(1) pair
    have "sparse_components_loop write_head write_index n l base cur cs sc w = Inr (w', sc')" by simp
    moreover have "component_change l base cur c = Inr None"
      using pair None by (simp add: component_change_def)
    ultimately show ?thesis by (intro skip)
  next
    case (Some bc)
    obtain b x where bc: "bc = (b, x)" by (cases bc)
    from Some bc pair have counts: "check_field_counts c b x l = Inr ()" by (simp add: matched_component_Some)
    from Cons.prems(1) pair Some bc obtain m sc1 w1 where
      m: "scratch_field_mask n c b x sc = Inr (m, sc1)"
      and step: "(if count_changed m > 0 then
          and_then (write_head ?eid (cd_id c) (count_changed m) w)
            (sparse_fields_loop write_index c 0 (cd_fields c) m (cs_fields x))
        else Inr w) = Inr w1"
      and rest: "sparse_components_loop write_head write_index n l base cur cs sc1 w1 = Inr (w', sc')"
      by (auto simp: Let_def elim!: and_then_E)
    have mask: "changed_mask c b x = Inr m" by (rule scratch_mask_value [OF counts m])
    show ?thesis
    proof (cases "list_ex (\<lambda>b. b) m")
      case False
      then have "w1 = w" using step count_changed_pos [of m] by simp
      moreover have "component_change l base cur c = Inr None"
        using pair Some bc mask False by (simp add: component_change_def)
      ultimately show ?thesis using rest by (intro skip) simp_all
    next
      case True
      from IH [OF rest] obtain ch where ch: "entity_changes l base cur cs = Inr ch" and dec: "?dec cs ch w1 w'"
        by blast
      have entry: "and_then (write_head ?eid (cd_id c) (count_changed m) w)
          (sparse_fields_loop write_index c 0 (cd_fields c) m (cs_fields x)) = Inr w1"
        using step True count_changed_pos [of m] by simp
      have found: "find (\<lambda>x. cd_id x = cd_id c) (components s) = Some c"
        using Cons.prems(4) c(1) by (intro find_by_id) (simp_all add: schema_ok_def)
      have ok: "component_id_get (cd_id c) \<noteq> 0" "component_ok c"
        using Cons.prems(4,5) c(1) by (auto simp: schema_ids_ok_def schema_ok_def list_all_iff)
      have len: "length (cd_fields c) \<le> max_fields_per_component l" "length (cs_fields x) = length (cd_fields c)"
        using counts by (simp_all add: check_field_counts_Inr)
      note one = component_written [OF entry found ok len(1) changed_mask_length [OF mask] len(2) True]
      let ?u = "\<lparr>uc_id = cd_id c, uc_fields = picked 0 m (cs_fields x)\<rparr>"
      have "?dec (c # cs) (?u # ch) w w'"
        using one(1) one(2) less dec by (rule decodes_entries_step)
      moreover have "entity_changes l base cur (c # cs) = Inr (?u # ch)"
        using pair Some bc mask True ch by (simp add: component_change_def)
      ultimately show ?thesis by blast
    qed
  qed
qed

lemma entities_written:
  "sparse_entities_loop write_head write_index s l bs cs sc w = Inr (w', sc') \<Longrightarrow>
    ids_sorted bs \<Longrightarrow> ids_sorted cs \<Longrightarrow> sorted_wrt (<) (map cd_id (components s)) \<Longrightarrow> schema_ok s \<Longrightarrow>
    schema_ids_ok s \<Longrightarrow>
    \<exists>us. diff_updates s l bs cs = Inr us \<and> decodes_sparse read_head read_index s l us w w'"
proof (induction bs cs arbitrary: sc w rule: list_induct_merge)
  case (1 b bs c cs)
  consider "es_id b < es_id c" | "es_id c < es_id b" | "es_id b = es_id c" by (rule linorder_cases)
  then show ?case
  proof cases
    case 1
    with "1.IH"(1) "1.prems" show ?thesis by simp
  next
    case 2
    then have "\<not> es_id b < es_id c" by simp
    with 2 "1.IH"(2) "1.prems" show ?thesis by simp
  next
    case 3
    from 3 "1.prems"(1) obtain updated w1 sc1 where u: "entity_has_updates s b c l = Inr updated"
      and step: "(if updated then
          sparse_components_loop write_head write_index (length (components s)) l b c (components s) sc w
        else Inr (w, sc)) = Inr (w1, sc1)"
      and rest: "sparse_entities_loop write_head write_index s l bs cs sc1 w1 = Inr (w', sc')"
      by (auto elim!: and_then_E)
    have sorted: "ids_sorted bs" "ids_sorted cs" using "1.prems"(2,3) by simp_all
    from "1.IH"(3) [OF rest sorted "1.prems"(4-6)] obtain us where us: "diff_updates s l bs cs = Inr us"
      and dec: "decodes_sparse read_head read_index s l us w1 w'" by blast
    show ?thesis
    proof (cases updated)
      case False
      with step u us 3 dec show ?thesis by simp
    next
      case True
      with step have "sparse_components_loop write_head write_index (length (components s)) l b c
          (components s) sc w = Inr (w1, sc1)" by simp
      from components_written [OF this subset_refl "1.prems"(4-6)] obtain ch where
        ch: "entity_changes l b c (components s) = Inr ch"
        and one: "decodes_entries read_head read_index s l (entity_raw (es_id c)) (components s) ch w w1"
        by blast
      have "ch \<noteq> []" using entity_has_updates_changes [OF u ch] True by simp
      moreover have "\<forall>v \<in> set us. es_id c < ue_id v"
        using diff_updates_ids [OF us sorted] "1.prems"(3) by auto
      ultimately have "decodes_sparse read_head read_index s l (\<lparr>ue_id = es_id c, ue_components = ch\<rparr> # us) w w'"
        using one dec by (intro decodes_sparse_step) simp_all
      moreover have "diff_updates s l (b # bs) (c # cs) =
          Inr (\<lparr>ue_id = es_id c, ue_components = ch\<rparr> # us)" using 3 u True ch us by simp
      ultimately show ?thesis by blast
    qed
  qed
qed (auto simp: decodes_sparse_def update_entry_count_def)

end

section \<open>Counting the entries\<close>

lemma count_components_changes:
  "count_components_loop n l base cur cs count sc = Inr (count', sc') \<Longrightarrow>
    \<exists>ch. entity_changes l base cur cs = Inr ch \<and> count' = count + length ch"
proof (induction cs arbitrary: count sc)
  case (Cons c cs)
  from Cons.prems obtain pair where pair: "matched_component c base cur l = Inr pair"
    by (auto elim: and_then_E)
  show ?case
  proof (cases pair)
    case None
    with Cons pair show ?thesis by (fastforce simp: component_change_def)
  next
    case (Some bc)
    obtain b x where bc: "bc = (b, x)" by (cases bc)
    from Some bc pair have counts: "check_field_counts c b x l = Inr ()" by (simp add: matched_component_Some)
    from Cons.prems pair Some bc obtain m sc1 where m: "scratch_field_mask n c b x sc = Inr (m, sc1)"
      and rest: "count_components_loop n l base cur cs (if list_ex (\<lambda>b. b) m then count + 1 else count) sc1 =
        Inr (count', sc')"
      by (auto elim!: and_then_E)
    from Cons.IH [OF rest] obtain ch where ch: "entity_changes l base cur cs = Inr ch"
      and "count' = (if list_ex (\<lambda>b. b) m then count + 1 else count) + length ch" by blast
    with pair Some bc scratch_mask_value [OF counts m] show ?thesis by (simp add: component_change_def)
  qed
qed simp

lemma count_entities_changes:
  "count_entities_loop s l bs cs count sc = Inr (count', sc') \<Longrightarrow>
    \<exists>us. diff_updates s l bs cs = Inr us \<and> count' = count + update_entry_count us"
proof (induction bs cs arbitrary: count sc rule: list_induct_merge)
  case (1 b bs c cs)
  consider "es_id b < es_id c" | "es_id c < es_id b" | "es_id b = es_id c" by (rule linorder_cases)
  then show ?case
  proof cases
    case 1
    with "1.IH"(1) "1.prems" show ?thesis by simp
  next
    case 2
    then have "\<not> es_id b < es_id c" by simp
    with 2 "1.IH"(2) "1.prems" show ?thesis by simp
  next
    case 3
    from 3 "1.prems"(1) obtain updated count1 sc1 where u: "entity_has_updates s b c l = Inr updated"
      and step: "(if updated then
          count_components_loop (length (components s)) l b c (components s) count sc
        else Inr (count, sc)) = Inr (count1, sc1)"
      and rest: "count_entities_loop s l bs cs count1 sc1 = Inr (count', sc')"
      by (auto elim!: and_then_E)
    from "1.IH"(3) [OF rest] obtain us where us: "diff_updates s l bs cs = Inr us"
      "count' = count1 + update_entry_count us" by blast
    show ?thesis
    proof (cases updated)
      case False
      with step u us 3 show ?thesis by simp
    next
      case True
      with step obtain ch where "entity_changes l b c (components s) = Inr ch" "count1 = count + length ch"
        using count_components_changes by fastforce
      with us u True 3 show ?thesis by (simp add: update_entry_count_def)
    qed
  qed
qed (simp_all add: update_entry_count_def)

section \<open>The sparse body\<close>

context entry_codec
begin

lemma body_frame:
  assumes "map_ok fst (encode_update_body_sparse write_head write_index s baseline current n l sc w) = Inr w'"
  obtains us sc1 where "diff_updates s l (sn_entities baseline) (sn_entities current) = Inr us"
    and "n \<le> max_entities_update l"
    and "update_entry_count us \<le> saturating_mul (max_entities_update l) (max_components_per_entity l)"
    and "section_body (update_entry_count us) (\<lambda>w. map_ok fst (sparse_entities_loop write_head write_index s l
      (sn_entities baseline) (sn_entities current) sc1 w)) w = Inr w'"
proof -
  from assms obtain entry_count sc1 w1 w2 w3 sc3 where n: "n \<le> max_entities_update l"
    and count: "count_sparse_update_entries s baseline current l sc = Inr (entry_count, sc1)"
    and lim: "entry_count \<le> saturating_mul (max_entities_update l) (max_components_per_entity l)"
    and w: "writer_align_to_byte w = Inr w1" "write_varu32 (of_nat entry_count) w1 = Inr w2"
      "sparse_entities_loop write_head write_index s l (sn_entities baseline) (sn_entities current) sc1 w2 =
        Inr (w3, sc3)"
      "writer_align_to_byte w3 = Inr w'"
    by (auto simp: encode_update_body_sparse_def Let_def map_ok_Inr_iff res_simps split: if_splits)
  from count obtain us where us: "diff_updates s l (sn_entities baseline) (sn_entities current) = Inr us"
    "entry_count = update_entry_count us"
    using count_entities_changes unfolding count_sparse_update_entries_def by fastforce
  show thesis
    by (rule that [of us sc1, OF us(1) n lim [unfolded us(2)]]) (use w us(2) in \<open>simp add: section_body_def\<close>)
qed

lemma section_written:
  assumes wr: "map_ok fst (encode_update_body_sparse write_head write_index s baseline current n l sc
      (writer_new buf)) = Inr w'"
    and sorted: "ids_sorted (sn_entities baseline)" "ids_sorted (sn_entities current)"
    and ok: "schema_ok s" "schema_ids_ok s" "sorted_wrt (<) (map cd_id (components s))"
    and n: "\<And>us. diff_updates s l (sn_entities baseline) (sn_entities current) = Inr us \<Longrightarrow>
      n = length us \<and> update_entry_count us < 2 ^ 32"
    and sz: "writer_finish w' \<le> max_section_bytes l"
  obtains us where "diff_updates s l (sn_entities baseline) (sn_entities current) = Inr us"
    and "decode_update_section_sparse read_head read_index tag s (written_body w') l = Inr us"
proof -
  from wr obtain us sc1 where us: "diff_updates s l (sn_entities baseline) (sn_entities current) = Inr us"
    and lim: "n \<le> max_entities_update l"
      "update_entry_count us \<le> saturating_mul (max_entities_update l) (max_components_per_entity l)"
    and body: "section_body (update_entry_count us) (\<lambda>w. map_ok fst (sparse_entities_loop write_head write_index
      s l (sn_entities baseline) (sn_entities current) sc1 w)) (writer_new buf) = Inr w'"
    by (rule body_frame)
  let ?ent = "\<lambda>w. map_ok fst (sparse_entities_loop write_head write_index s l
    (sn_entities baseline) (sn_entities current) sc1 w)"
  have loop: "decodes_sparse read_head read_index s l us w w1" if "?ent w = Inr w1" for w w1
  proof -
    from that obtain sc' where "sparse_entities_loop write_head write_index s l (sn_entities baseline)
        (sn_entities current) sc1 w = Inr (w1, sc')"
      by (auto simp: map_ok_Inr_iff)
    from entities_written [OF this sorted ok(3,1,2)] us show ?thesis by simp
  qed
  then have bw: "body_writer ?ent" by (auto simp: body_writer_def decodes_sparse_def)
  have cnt: "n = length us" "update_entry_count us < 2 ^ 32" using n [OF us] by simp_all
  have "decode_update_section_sparse read_head read_index tag s (written_body w') l =
      (let unique_entities = length us in
       if unique_entities > max_entities_update l then
         Inl (CodecLimitsExceeded EntitiesUpdate (max_entities_update l) unique_entities)
       else Inr us)"
    unfolding decode_update_section_sparse_def
    by (rule section_body_read [OF body bw cnt(2) lim(2) sz])
      (use loop in \<open>force simp: decodes_sparse_def\<close>)
  with us lim(1) cnt(1) show thesis by (intro that) (simp_all add: Let_def)
qed

lemma body_extends:
  "body_writer (\<lambda>w. map_ok fst (encode_update_body_sparse write_head write_index s baseline current n l sc w))"
  unfolding body_writer_def
proof (intro allI impI)
  fix w w'
  assume "map_ok fst (encode_update_body_sparse write_head write_index s baseline current n l sc w) = Inr w'"
  then obtain us sc1 where body: "section_body (update_entry_count us) (\<lambda>w. map_ok fst (sparse_entities_loop
      write_head write_index s l (sn_entities baseline) (sn_entities current) sc1 w)) w = Inr w'"
    by (rule body_frame)
  have "body_writer (\<lambda>w. map_ok fst (sparse_entities_loop write_head write_index s l bs cs sc1 w))" for bs cs
    by (auto simp: body_writer_def map_ok_Inr_iff intro: entities_extend)
  from body_writerD [OF section_body_writer [OF this] body] show "extends w w'" .
qed

end

section \<open>The two entry formats\<close>

lemma index_bits_bound:
  assumes "i < length (cd_fields c)" and "length (cd_fields c) \<le> 65536"
  shows "field_index_bits c = 0 \<Longrightarrow> i = 0"
    and "unat (of_nat i :: u64) = i"
proof -
  have "unat (of_nat (length (cd_fields c) - 1) :: u64) = length (cd_fields c) - 1"
    using assms(2) by (simp add: unat_of_nat)
  then have "length (cd_fields c) = 1" if "field_index_bits c = 0"
    using that assms(1) by (auto simp: field_index_bits_def saturating_sub_def)
  then show "field_index_bits c = 0 \<Longrightarrow> i = 0" using assms(1) by simp
  show "unat (of_nat i :: u64) = i" using assms by (simp add: unat_of_nat)
qed

interpretation packed: entry_codec write_head_packed write_index_packed read_head_packed read_index_packed
proof
  fix eid cid n w w' assume wr: "write_head_packed eid cid n w = Inr w'"
  then obtain w1 w2 w3 where w: "writer_align_to_byte w = Inr w1" "write_varu32 eid w1 = Inr w2"
      "write_varu32 (ucast (component_id_get cid)) w2 = Inr w3" "write_varu32 (of_nat n) w3 = Inr w'"
    by (auto simp: write_head_packed_def res_simps)
  then show "extends w w'" by (meson extends_trans write_extends)
  fix d assume d: "holds d w'" and n: "n < 2 ^ 32"
  have h3: "holds d w3" using d write_varu32_extends [OF w(4)] by (rule holds_extends)
  have h2: "holds d w2" using h3 write_varu32_extends [OF w(3)] by (rule holds_extends)
  have h1: "holds d w1" using h2 write_varu32_extends [OF w(2)] by (rule holds_extends)
  have small: "\<not> (ucast (component_id_get cid) :: u32) > 0xFFFF"
    using unsigned_less [of "component_id_get cid", where ?'a = nat]
    by (simp add: not_less word_le_nat_alt unsigned_ucast_eq take_bit_nat_eq_self)
  have "(ucast (ucast (component_id_get cid) :: u32) :: u16) = component_id_get cid"
    by (rule bit_word_eqI) (simp add: bit_simps)
  with small show "\<exists>r. read_head_packed (reader_at d (bw_pos w)) = Inr ((eid, component_id_get cid), r) \<and>
      read_varu32 r = Inr (of_nat n, reader_at d (bw_pos w'))"
    using reader_align_written [OF w(1) h1] read_varu32_written [OF w(2) h2] read_varu32_written [OF w(3) h3]
      read_varu32_written [OF w(4) d]
    by (simp add: read_head_packed_def)
next
  fix c i w w' assume "write_index_packed c i w = Inr w'"
  then show "extends w w'" by (auto simp: write_index_packed_def Let_def res_simps split: if_splits intro: write_extends)
next
  fix c i w w' d assume wr: "write_index_packed c i w = Inr w'" and i: "i < length (cd_fields c)"
    and few: "length (cd_fields c) \<le> 65536" and d: "holds d w'"
  note bounds = index_bits_bound [OF i few]
  show "read_index_packed c (reader_at d (bw_pos w)) = Inr (i, reader_at d (bw_pos w'))"
  proof (cases "field_index_bits c = 0")
    case True
    with wr bounds show ?thesis
      by (simp add: write_index_packed_def read_index_packed_def field_index_bits_def)
  next
    case False
    with wr have "write_bits (of_nat i) (field_index_bits c) w = Inr w'"
      by (simp add: write_index_packed_def Let_def word_neq_0_conv [symmetric] res_simps)
    from read_bits_written [OF this d] False bounds show ?thesis
      by (simp add: read_index_packed_def Let_def field_index_bits_def)
  qed
qed

interpretation aligned: entry_codec write_head_varint write_index_varint read_head_varint read_index_varint
proof
  fix eid cid n w w' assume wr: "write_head_varint eid cid n w = Inr w'"
  then obtain w1 w2 w3 where w: "writer_align_to_byte w = Inr w1" "write_u32_aligned eid w1 = Inr w2"
      "write_u16_aligned (component_id_get cid) w2 = Inr w3" "write_varu32 (of_nat n) w3 = Inr w'"
    by (auto simp: write_head_varint_def res_simps)
  then show "extends w w'" by (meson extends_trans write_extends)
  fix d assume d: "holds d w'" and n: "n < 2 ^ 32"
  have h3: "holds d w3" using d write_varu32_extends [OF w(4)] by (rule holds_extends)
  have h2: "holds d w2" using h3 write_u16_extends [OF w(3)] by (rule holds_extends)
  have h1: "holds d w1" using h2 write_u32_extends [OF w(2)] by (rule holds_extends)
  show "\<exists>r. read_head_varint (reader_at d (bw_pos w)) = Inr ((eid, component_id_get cid), r) \<and>
      read_varu32 r = Inr (of_nat n, reader_at d (bw_pos w'))"
    using reader_align_written [OF w(1) h1] u32s.rd_wr [OF w(2) _ h2] u16s.rd_wr [OF w(3) _ h3]
      read_varu32_written [OF w(4) d]
    by (simp add: read_head_varint_def)
next
  fix c i w w' assume "write_index_varint c i w = Inr w'"
  then show "extends w w'" by (auto simp: write_index_varint_def res_simps intro: extends_trans write_extends)
next
  fix c i w w' d assume wr: "write_index_varint c i w = Inr w'" and i: "i < length (cd_fields c)"
    and few: "length (cd_fields c) \<le> 65536" and d: "holds d w'"
  from wr obtain w1 where w: "writer_align_to_byte w = Inr w1" "write_varu32 (of_nat i) w1 = Inr w'"
    by (auto simp: write_index_varint_def res_simps)
  have "holds d w1" using d write_varu32_extends [OF w(2)] by (rule holds_extends)
  moreover have "unat (of_nat i :: u32) = i" using i few by (simp add: unat_of_nat)
  ultimately show "read_index_varint c (reader_at d (bw_pos w)) = Inr (i, reader_at d (bw_pos w'))"
    using reader_align_written [OF w(1)] read_varu32_written [OF w(2) d]
    by (simp add: read_index_varint_def)
qed

end
