(* ===== verification/Delta_Payload.thy ===== *)
theory Delta_Payload
  imports Delta_Sparse Delta_Merge
begin

text \<open>
  The payload of a delta packet: its sections, one after the other, what the section decoder makes of
  them, and that the encoder never panics.
\<close>

section \<open>Appending a section\<close>

definition sections_written :: "usize \<Rightarrow> wire_section list \<Rightarrow> usize \<times> u8 list \<Rightarrow> bool" where
  "sections_written n secs st \<longleftrightarrow> length (snd st) = n \<and> fst st \<le> n \<and>
    take (fst st) (snd st) = concat (map section_bytes secs) \<and>
    list_all (\<lambda>sec. length (ws_body sec) < 2 ^ 32) secs"

lemma sections_written_offset: "sections_written n secs (offset, out) \<Longrightarrow> offset \<le> length out"
  by (simp add: sections_written_def)

lemma append_section_written:
  assumes ap: "append_section tag l f st = Some (Inr st')" and bw: "body_writer f"
    and st: "sections_written n secs st"
  obtains w buf where "f (writer_new buf) = Inr w" and "writer_finish w \<le> max_section_bytes l"
    and "sections_written n (secs @ [\<lparr>ws_tag = tag, ws_body = written_body w\<rparr>]) st'"
proof -
  obtain offset out where eq: "st = (offset, out)" by (cases st)
  from ap obtain k tail where ws: "write_section tag (drop offset out) l f = Some (Inr (k, tail))"
    and st': "st' = (offset + k, take offset out @ tail)"
    by (auto simp: append_section_def eq res_simps split: if_splits)
  from write_section_inv [OF ws bw] obtain w where w: "f (writer_new (drop 6 (drop offset out))) = Inr w"
      "writer_ok w" "k = length (section_bytes \<lparr>ws_tag = tag, ws_body = written_body w\<rparr>)"
      "length tail = length (drop offset out)"
      "take k tail = section_bytes \<lparr>ws_tag = tag, ws_body = written_body w\<rparr>"
      "writer_finish w \<le> max_section_bytes l" "writer_finish w < 2 ^ 32" .
  have len: "length out = n" "offset \<le> n" and pre: "take offset out = concat (map section_bytes secs)"
    and small: "list_all (\<lambda>sec. length (ws_body sec) < 2 ^ 32) secs"
    using st by (simp_all add: sections_written_def eq)
  have "k \<le> length tail" using w(3,5) by (metis length_take min.absorb_iff2 nat_le_linear)
  moreover have "length (take offset out) = offset" using len by simp
  then have "take (offset + k) (take offset out @ tail) = take offset out @ take k tail"
    by (simp add: take_add)
  ultimately have "sections_written n (secs @ [\<lparr>ws_tag = tag, ws_body = written_body w\<rparr>]) st'"
    using len small w(4,5,7) written_body_length [OF w(2)]
    by (simp add: sections_written_def st' pre [symmetric])
  with w show thesis by (intro that)
qed

lemma append_section_no_panic:
  assumes "sections_written n secs st" and "body_writer f"
  shows "append_section tag l f st \<noteq> None"
proof -
  obtain offset out where st: "st = (offset, out)" by (cases st)
  show ?thesis
    using write_section_no_panic [OF assms(2), of tag "drop offset out" l]
      sections_written_offset [OF assms(1) [unfolded st]]
    unfolding st append_section_def by (auto simp: try_then_None simp del: not_None_eq)
qed

section \<open>Bodies\<close>

lemma destroy_body_writer:
  assumes "ids_sorted (sn_entities baseline)" and "ids_sorted (sn_entities current)"
  shows "body_writer (encode_destroy_body baseline current n l)"
proof -
  have "body_writer (try_fold (\<lambda>e. write_destroy_id (es_id e)) es)" for es :: "entity_snapshot list"
    by (simp add: body_writer_def destroys_extend)
  from section_body_writer [OF this, of n] show ?thesis
    by (simp add: body_writer_def encode_destroy_body_frame [OF assms])
qed

lemma create_body_writer:
  assumes "ids_sorted (sn_entities baseline)" and "ids_sorted (sn_entities current)"
  shows "body_writer (delta_encode_create_body s baseline current n l)"
proof -
  have "body_writer (try_fold (\<lambda>e. write_create_entity s e l) es)" for es
    by (simp add: body_writer_def creates_extend)
  from section_body_writer [OF this, of n] show ?thesis
    by (simp add: body_writer_def delta_create_body_frame [OF assms])
qed

lemma packed_body_writer:
  "body_writer (\<lambda>w. map_ok fst (encode_update_body_sparse_packed s baseline current n l sc w))"
  unfolding encode_update_body_sparse_packed_def by (rule packed.body_extends)

text \<open>The update section, whichever encoding is chosen, is that of one of the two bodies.\<close>

lemma append_updates_cases [consumes 2, case_names masked sparse]:
  assumes "append_updates s baseline current k l sc mode st = r" and "\<And>e. r \<noteq> Some (Inl e)"
  obtains (masked) sc' where "append_section EntityUpdate l
      (\<lambda>w. map_ok fst (encode_update_body_masked s baseline current k l sc' w)) st = r"
  | (sparse) sc' where "append_section EntityUpdateSparsePacked l
      (\<lambda>w. map_ok fst (encode_update_body_sparse_packed s baseline current k l sc' w)) st = r"
proof (cases mode)
  case SparseMode
  with assms show thesis by (intro sparse [of sc]) (simp add: append_updates_def)
next
  case AutoMode
  show thesis
  proof (cases "select_update_encoding s baseline current l sc")
    case (Inl e)
    with AutoMode assms show thesis by (auto simp: append_updates_def)
  next
    case (Inr p)
    obtain enc sc' where "p = (enc, sc')" by (cases p)
    with Inr AutoMode assms masked [of sc'] sparse [of sc'] show thesis
      by (cases enc) (simp_all add: append_updates_def)
  qed
qed

lemma append_updates_no_panic:
  assumes "sections_written n secs st"
  shows "append_updates s baseline current k l sc mode st \<noteq> None"
proof
  assume none: "append_updates s baseline current k l sc mode st = None"
  have "\<And>e. None \<noteq> Some (Inl e)" by simp
  from none this show False
    by (cases rule: append_updates_cases)
      (use append_section_no_panic [OF assms masked_body_writer]
        append_section_no_panic [OF assms packed_body_writer] in auto)
qed

section \<open>No panic\<close>

lemma append_if_written:
  assumes "append_section_if k tag l f st = Some (Inr st')" and "body_writer f" and "sections_written n secs st"
  shows "\<exists>secs'. sections_written n secs' st'"
  using assms append_section_written [of tag l f st st' n secs]
  by (auto simp: append_section_if_def split: if_splits)

lemma append_if_no_panic:
  "sections_written n secs st \<Longrightarrow> body_writer f \<Longrightarrow> append_section_if k tag l f st \<noteq> None"
  using append_section_no_panic [of n secs st f tag l] by (simp add: append_section_if_def)

lemma payload_no_panic: "encode_delta_payload_with_mode s bt baseline current l sc out mode \<noteq> None"
proof
  assume none: "encode_delta_payload_with_mode s bt baseline current l sc out mode = None"
  have start: "sections_written (length out) [] (0, out)" by (simp add: sections_written_def)
  from none have sorted: "ids_sorted (sn_entities baseline)" "ids_sorted (sn_entities current)"
    by (auto simp: encode_delta_payload_with_mode_def try_then_None ensure_entities_sorted_Inr split: if_splits)
  note writers = destroy_body_writer [OF sorted] create_body_writer [OF sorted]
  from none obtain counts :: diff_counts and a b where
    st: "append_section_if (dc_destroys counts) EntityDestroy l
      (encode_destroy_body baseline current (dc_destroys counts) l) (0, out) = Some (Inr (a, b))"
    and next': "try_then (append_section_if (dc_creates counts) EntityCreate l
         (delta_encode_create_body s baseline current (dc_creates counts) l) (a, b)) (\<lambda>st.
       if dc_updates counts > 0 then append_updates s baseline current (dc_updates counts) l sc mode st
       else Some (Inr st)) = None"
    using append_if_no_panic [OF start writers(1)]
    by (auto simp: encode_delta_payload_with_mode_def try_then_None [where m = "Some _"]
        try_then_None [where m = "append_section_if _ EntityDestroy _ _ _"] simp del: not_None_eq split: if_splits)
  from append_if_written [OF st writers(1) start] obtain secs where
    secs: "sections_written (length out) secs (a, b)" ..
  with next' obtain c d where
    st': "append_section_if (dc_creates counts) EntityCreate l
         (delta_encode_create_body s baseline current (dc_creates counts) l) (a, b) = Some (Inr (c, d))"
    and none': "append_updates s baseline current (dc_updates counts) l sc mode (c, d) = None"
    using append_if_no_panic [OF secs writers(2)]
    by (auto simp: try_then_None simp del: not_None_eq split: if_splits)
  from append_if_written [OF st' writers(2) secs] obtain secs' where "sections_written (length out) secs' (c, d)" ..
  from append_updates_no_panic [OF this] none' show False by blast
qed

section \<open>What the payload decodes to\<close>

definition payload_state ::
  "schema \<Rightarrow> codec_limits \<Rightarrow> usize \<Rightarrow> wire_section list \<Rightarrow> delta_sections \<Rightarrow> usize \<times> u8 list \<Rightarrow> bool" where
  "payload_state s l n secs acc st \<longleftrightarrow> sections_written n secs st \<and>
    try_fold (delta_section s l) secs
      \<lparr>ds_destroys = None, ds_creates = None, ds_updates_masked = None, ds_updates_sparse = None\<rparr> = Inr acc"

lemma append_state:
  assumes ap: "append_section tag l f st = Some (Inr st')" and bw: "body_writer f"
    and st: "payload_state s l n secs acc st"
    and dec: "\<And>w buf. f (writer_new buf) = Inr w \<Longrightarrow> writer_finish w \<le> max_section_bytes l \<Longrightarrow>
      delta_section s l \<lparr>ws_tag = tag, ws_body = written_body w\<rparr> acc = Inr acc'"
  obtains secs' where "payload_state s l n secs' acc' st'" and "length secs' \<le> Suc (length secs)"
proof -
  have "sections_written n secs st" using st by (simp add: payload_state_def)
  from append_section_written [OF ap bw this] obtain w buf where w: "f (writer_new buf) = Inr w"
      "writer_finish w \<le> max_section_bytes l"
    and sw: "sections_written n (secs @ [\<lparr>ws_tag = tag, ws_body = written_body w\<rparr>]) st'" .
  from sw dec [OF w] st
  have "payload_state s l n (secs @ [\<lparr>ws_tag = tag, ws_body = written_body w\<rparr>]) acc' st'"
    by (simp add: payload_state_def try_fold_append)
  then show thesis by (rule that) simp
qed

lemma append_if_state:
  assumes ap: "append_section_if k tag l f st = Some (Inr st')" and bw: "body_writer f"
    and st: "payload_state s l n secs acc st" and zero: "k = 0 \<Longrightarrow> acc' = acc"
    and dec: "\<And>w buf. k > 0 \<Longrightarrow> f (writer_new buf) = Inr w \<Longrightarrow> writer_finish w \<le> max_section_bytes l \<Longrightarrow>
      delta_section s l \<lparr>ws_tag = tag, ws_body = written_body w\<rparr> acc = Inr acc'"
  obtains secs' where "payload_state s l n secs' acc' st'" and "length secs' \<le> Suc (length secs)"
proof (cases "k = 0")
  case True
  with ap st zero show thesis by (intro that [of secs]) (simp_all add: append_section_if_def)
next
  case False
  with ap have "append_section tag l f st = Some (Inr st')" by (simp add: append_section_if_def)
  from append_state [OF this bw st] dec False that show thesis by blast
qed

lemma append_update_state:
  assumes ap: "append_section tag l f st = Some (Inr st')" and bw: "body_writer f"
    and st: "payload_state s l n secs acc st"
    and dec: "\<And>w buf. f (writer_new buf) = Inr w \<Longrightarrow> writer_finish w \<le> max_section_bytes l \<Longrightarrow>
      \<exists>us. d = Inr us \<and> delta_section s l \<lparr>ws_tag = tag, ws_body = written_body w\<rparr> acc = Inr (g us)"
  shows "\<exists>secs' us. payload_state s l n secs' (g us) st' \<and> length secs' \<le> Suc (length secs) \<and> d = Inr us"
proof -
  have "sections_written n secs st" using st by (simp add: payload_state_def)
  from append_section_written [OF ap bw this] obtain w buf where w: "f (writer_new buf) = Inr w"
      "writer_finish w \<le> max_section_bytes l" by blast
  from dec [OF w] obtain us where us: "d = Inr us" by blast
  show ?thesis
    by (rule append_state [OF ap bw st, of "g us"]) (use dec us in fastforce)+
qed

text \<open>The sizes that the 32-bit counts of the sections have to hold.\<close>

definition counts_fit :: "schema \<Rightarrow> snapshot \<Rightarrow> snapshot \<Rightarrow> bool" where
  "counts_fit s baseline current \<longleftrightarrow>
    length (sn_entities baseline) < 2 ^ 32 \<and> length (sn_entities current) < 2 ^ 32 \<and>
    length (sn_entities current) * length (components s) < 2 ^ 32"

lemma entity_changes_length: "entity_changes l base cur cs = Inr us \<Longrightarrow> length us \<le> length cs"
  by (induction cs arbitrary: us) (fastforce simp: res_simps split: option.splits)+

lemma diff_updates_sizes:
  "diff_updates s l bs cs = Inr us \<Longrightarrow>
    length us \<le> length cs \<and> update_entry_count us \<le> length cs * length (components s)"
proof (induction bs cs arbitrary: us rule: list_induct_merge)
  case (1 b bs c cs)
  consider "es_id b < es_id c" | "es_id c < es_id b" | "es_id b = es_id c" by (rule linorder_cases)
  then show ?case
  proof cases
    case 1
    with "1.IH"(1) "1.prems" show ?thesis by simp
  next
    case 2
    then have "\<not> es_id b < es_id c" by simp
    with 2 "1.IH"(2) "1.prems" show ?thesis by fastforce
  next
    case 3
    with "1.prems" obtain updated where u: "entity_has_updates s b c l = Inr updated"
      by (auto elim: and_then_E)
    show ?thesis
    proof (cases updated)
      case True
      with 3 u "1.prems" obtain ch rest where ch: "entity_changes l b c (components s) = Inr ch"
        and rest: "diff_updates s l bs cs = Inr rest" and us: "us = \<lparr>ue_id = es_id c, ue_components = ch\<rparr> # rest"
        by (auto elim!: and_then_E)
      from "1.IH"(3) [OF rest] entity_changes_length [OF ch] us show ?thesis
        by (simp add: update_entry_count_def)
    next
      case False
      with 3 u "1.prems" "1.IH"(3) show ?thesis by fastforce
    qed
  qed
qed (simp_all add: update_entry_count_def)

lemma no_updates_counted:
  "diff_counts_loop s l bs cs counts = Inr counts' \<Longrightarrow> dc_updates counts \<le> dc_updates counts' \<and>
    (dc_updates counts' = dc_updates counts \<longrightarrow> diff_updates s l bs cs = Inr [])"
proof (induction s l bs cs counts rule: diff_counts_loop.induct)
  case (1 s l b bs c cs counts)
  consider "es_id b < es_id c" | "es_id c < es_id b" | "es_id b = es_id c" by (rule linorder_cases)
  then show ?case
  proof cases
    case 1
    with "1.IH"(1) "1.prems" show ?thesis by simp
  next
    case 2
    then have "\<not> es_id b < es_id c" by simp
    with 2 "1.IH"(2) "1.prems" show ?thesis by simp
  next
    case 3
    then have "\<not> entity_raw (es_id b) < entity_raw (es_id c)" "\<not> entity_raw (es_id b) > entity_raw (es_id c)"
      by simp_all
    note IH = "1.IH"(3) [OF this]
    from 3 "1.prems" obtain updated where u: "entity_has_updates s b c l = Inr updated"
      and rest: "diff_counts_loop s l bs cs
        (if updated then counts\<lparr>dc_updates := dc_updates counts + 1\<rparr> else counts) = Inr counts'"
      by (auto elim: and_then_E)
    from IH [OF u rest] u 3 show ?thesis by (cases updated) simp_all
  qed
qed simp_all

theorem payload_decodes:
  assumes enc: "encode_delta_payload_with_mode s bt baseline current l sc out mode = Some (Inr (n, payload))"
    and ok: "schema_ok s" "schema_ids_ok s" "sorted_wrt (<) (map cd_id (components s))"
    and fit: "counts_fit s baseline current"
  obtains secs us where "n \<le> length payload" and "length payload = length out"
    and "take n payload = concat (map section_bytes secs)"
    and "list_all (\<lambda>sec. length (ws_body sec) < 2 ^ 32) secs" and "length secs \<le> 3"
    and "sn_tick baseline = bt"
    and "ids_sorted (sn_entities baseline)" and "ids_sorted (sn_entities current)"
    and "diff_updates s l (sn_entities baseline) (sn_entities current) = Inr us"
    and "\<forall>h. decode_delta_sections s \<lparr>wp_header = h, wp_sections = secs\<rparr> l =
      Inr (map es_id (destroyed (sn_entities baseline) (sn_entities current)),
        map (canonical_entity s) (created (sn_entities baseline) (sn_entities current)), us)"
proof -
  note result = that
  let ?D = "destroyed (sn_entities baseline) (sn_entities current)"
  let ?C = "created (sn_entities baseline) (sn_entities current)"
  from enc obtain counts :: diff_counts and st st' where tick: "sn_tick baseline = bt"
    and sorted: "ids_sorted (sn_entities baseline)" "ids_sorted (sn_entities current)"
    and counts: "diff_counts_of s baseline current l diff_counts_default = Inr counts"
    and lim: "dc_creates counts \<le> max_entities_create l"
    and d: "append_section_if (dc_destroys counts) EntityDestroy l
      (encode_destroy_body baseline current (dc_destroys counts) l) (0, out) = Some (Inr st)"
    and c: "append_section_if (dc_creates counts) EntityCreate l
         (delta_encode_create_body s baseline current (dc_creates counts) l) st = Some (Inr st')"
    and u: "(if dc_updates counts > 0 then append_updates s baseline current (dc_updates counts) l sc mode st'
       else Some (Inr st')) = Some (Inr (n, payload))"
    by (auto simp: encode_delta_payload_with_mode_def try_then_Inr if_Some_Inl_Inr ensure_entities_sorted_Inr not_less)
  have cnt: "dc_destroys counts = length ?D" "dc_creates counts = length ?C"
    and ucnt: "\<And>us. diff_updates s l (sn_entities baseline) (sn_entities current) = Inr us \<Longrightarrow>
      dc_updates counts = length us"
    using diff_counts_loop_result [OF _ sorted] counts
    by (fastforce simp: diff_counts_of_def diff_counts_default_def)+
  have usizes: "dc_updates counts = length us \<and> update_entry_count us < 2 ^ 32"
    if "diff_updates s l (sn_entities baseline) (sn_entities current) = Inr us" for us
    using diff_updates_sizes [OF that] ucnt [OF that] fit by (simp add: counts_fit_def)
  have umasked: "dc_updates counts = length us \<and> dc_updates counts < 2 ^ 32"
    if "diff_updates s l (sn_entities baseline) (sn_entities current) = Inr us" for us
    using diff_updates_sizes [OF that] ucnt [OF that] fit by (simp add: counts_fit_def)
  have "length ?D \<le> length (sn_entities baseline)" "length ?C \<le> length (sn_entities current)"
    unfolding destroyed_def created_def by (rule length_filter_le)+
  then have small: "length ?D < 2 ^ 32" "length ?C < 2 ^ 32" using fit by (simp_all add: counts_fit_def)
  let ?acc0 = "\<lparr>ds_destroys = None, ds_creates = None, ds_updates_masked = None, ds_updates_sparse = None\<rparr>"
  let ?acc1 = "?acc0\<lparr>ds_destroys := if ?D = [] then None else Some (map es_id ?D)\<rparr>"
  let ?acc2 = "?acc1\<lparr>ds_creates := if ?C = [] then None else Some (map (canonical_entity s) ?C)\<rparr>"
  have start: "payload_state s l (length out) [] ?acc0 (0, out)"
    by (simp add: payload_state_def sections_written_def)
  obtain secs1 where s1: "payload_state s l (length out) secs1 ?acc1 st" "length secs1 \<le> 1"
  proof (rule append_if_state [OF d destroy_body_writer [OF sorted] start, of ?acc1])
    fix w buf assume "encode_destroy_body baseline current (dc_destroys counts) l (writer_new buf) = Inr w"
      and "writer_finish w \<le> max_section_bytes l" and "dc_destroys counts > 0"
    with destroy_section_written [OF _ sorted cnt(1)] small(1) cnt(1)
    show "delta_section s l \<lparr>ws_tag = EntityDestroy, ws_body = written_body w\<rparr> ?acc0 = Inr ?acc1"
      by (simp add: delta_section_def once_only_def)
  qed (use cnt(1) in simp_all)
  obtain secs2 where s2: "payload_state s l (length out) secs2 ?acc2 st'" "length secs2 \<le> 2"
  proof (rule append_if_state [OF c create_body_writer [OF sorted] s1(1), of ?acc2])
    fix w buf assume "delta_encode_create_body s baseline current (dc_creates counts) l (writer_new buf) = Inr w"
      and sz: "writer_finish w \<le> max_section_bytes l" and pos: "dc_creates counts > 0"
    then have "section_body (length ?C) (try_fold (\<lambda>e. write_create_entity s e l) ?C) (writer_new buf) = Inr w"
      using lim by (simp add: delta_create_body_frame [OF sorted] cnt(2))
    from creates_section_written [OF this ok(1) created_sorted [OF sorted(2)] small(2) _ sz] lim pos
    show "delta_section s l \<lparr>ws_tag = EntityCreate, ws_body = written_body w\<rparr> ?acc1 = Inr ?acc2"
      by (simp add: delta_section_def once_only_def cnt(2))
  qed (use cnt(2) s1(2) in simp_all)
  have finish: thesis if st: "payload_state s l (length out) secs acc (n, payload)" and len: "length secs \<le> 3"
    and us: "diff_updates s l (sn_entities baseline) (sn_entities current) = Inr us"
    and acc: "acc = ?acc2 \<and> us = [] \<or> acc = ?acc2\<lparr>ds_updates_masked := Some us\<rparr> \<or>
      acc = ?acc2\<lparr>ds_updates_sparse := Some us\<rparr>" for secs acc us
  proof (rule result [of secs us])
    show "\<forall>h. decode_delta_sections s \<lparr>wp_header = h, wp_sections = secs\<rparr> l =
        Inr (map es_id ?D, map (canonical_entity s) ?C, us)"
      using st acc by (auto simp: payload_state_def decode_delta_sections_def unwrap_or_default_def)
  qed (use st len tick sorted us in \<open>simp_all add: payload_state_def sections_written_def\<close>)
  show thesis
  proof (cases "dc_updates counts > 0")
    case False
    then have "diff_updates s l (sn_entities baseline) (sn_entities current) = Inr []"
      using no_updates_counted [of s l _ _ diff_counts_default counts] counts
      by (simp add: diff_counts_of_def diff_counts_default_def)
    moreover have "st' = (n, payload)" using False u by simp
    ultimately show thesis using finish [of secs2 ?acc2 "[]"] s2 by simp
  next
    case True
    then have upd: "append_updates s baseline current (dc_updates counts) l sc mode st' = Some (Inr (n, payload))"
      using u by simp
    have "\<And>e. Some (Inr (n, payload)) \<noteq> Some (Inl e)" by simp
    from upd this show thesis
    proof (cases rule: append_updates_cases)
      case (masked sc')
      have dec: "\<exists>us. diff_updates s l (sn_entities baseline) (sn_entities current) = Inr us \<and>
          delta_section s l \<lparr>ws_tag = EntityUpdate, ws_body = written_body w\<rparr> ?acc2 =
            Inr (?acc2\<lparr>ds_updates_masked := Some us\<rparr>)"
        if "map_ok fst (encode_update_body_masked s baseline current (dc_updates counts) l sc' (writer_new buf)) = Inr w"
          and "writer_finish w \<le> max_section_bytes l" for w buf
        by (rule masked_section_written [OF that(1) sorted ok(1) umasked that(2)])
          (simp_all add: delta_section_def once_only_def)
      have "\<exists>secs us. payload_state s l (length out) secs (?acc2\<lparr>ds_updates_masked := Some us\<rparr>) (n, payload) \<and>
          length secs \<le> Suc (length secs2) \<and>
          diff_updates s l (sn_entities baseline) (sn_entities current) = Inr us"
        by (rule append_update_state [OF masked masked_body_writer s2(1)]) (rule dec)
      then obtain secs us where
        "payload_state s l (length out) secs (?acc2\<lparr>ds_updates_masked := Some us\<rparr>) (n, payload)"
        "length secs \<le> Suc (length secs2)"
        "diff_updates s l (sn_entities baseline) (sn_entities current) = Inr us" by (elim exE conjE)
      then show thesis using s2(2) by (intro finish) auto
    next
      case (sparse sc')
      have dec: "\<exists>us. diff_updates s l (sn_entities baseline) (sn_entities current) = Inr us \<and>
          delta_section s l \<lparr>ws_tag = EntityUpdateSparsePacked, ws_body = written_body w\<rparr> ?acc2 =
            Inr (?acc2\<lparr>ds_updates_sparse := Some us\<rparr>)"
        if "map_ok fst (encode_update_body_sparse_packed s baseline current (dc_updates counts) l sc' (writer_new buf)) = Inr w"
          and "writer_finish w \<le> max_section_bytes l" for w buf
        by (rule packed.section_written [OF that(1) [unfolded encode_update_body_sparse_packed_def] sorted ok usizes that(2),
              where tag = EntityUpdateSparsePacked])
          (simp_all add: delta_section_def once_only_def decode_update_section_sparse_packed_def)
      have "\<exists>secs us. payload_state s l (length out) secs (?acc2\<lparr>ds_updates_sparse := Some us\<rparr>) (n, payload) \<and>
          length secs \<le> Suc (length secs2) \<and>
          diff_updates s l (sn_entities baseline) (sn_entities current) = Inr us"
        by (rule append_update_state [OF sparse packed_body_writer s2(1)]) (rule dec)
      then obtain secs us where
        "payload_state s l (length out) secs (?acc2\<lparr>ds_updates_sparse := Some us\<rparr>) (n, payload)"
        "length secs \<le> Suc (length secs2)"
        "diff_updates s l (sn_entities baseline) (sn_entities current) = Inr us" by (elim exE conjE)
      then show thesis using s2(2) by (intro finish) auto
    qed
  qed
qed

section \<open>The update encodings\<close>

text \<open>The three update encodings carry the same updates.\<close>

lemma update_encodings_agree:
  assumes sorted: "ids_sorted (sn_entities baseline)" "ids_sorted (sn_entities current)"
    and ok: "schema_ok s" "schema_ids_ok s" "sorted_wrt (<) (map cd_id (components s))"
    and us: "diff_updates s l (sn_entities baseline) (sn_entities current) = Inr us"
    and n: "n = length us" "n < 2 ^ 32" "update_entry_count us < 2 ^ 32"
  shows "map_ok fst (encode_update_body_masked s baseline current n l sc (writer_new buf)) = Inr w \<Longrightarrow>
      writer_finish w \<le> max_section_bytes l \<Longrightarrow> decode_update_section_masked s (written_body w) l = Inr us"
    and "map_ok fst (encode_update_body_sparse_packed s baseline current n l sc (writer_new buf)) = Inr w \<Longrightarrow>
      writer_finish w \<le> max_section_bytes l \<Longrightarrow> decode_update_section_sparse_packed s (written_body w) l = Inr us"
    and "map_ok fst (encode_update_body_sparse_varint s baseline current n l sc (writer_new buf)) = Inr w \<Longrightarrow>
      writer_finish w \<le> max_section_bytes l \<Longrightarrow> decode_update_section_sparse_varint s (written_body w) l = Inr us"
proof -
  have cnt: "n = length us' \<and> n < 2 ^ 32" "n = length us' \<and> update_entry_count us' < 2 ^ 32"
    if "diff_updates s l (sn_entities baseline) (sn_entities current) = Inr us'" for us'
    using that us n by simp_all
  show "decode_update_section_masked s (written_body w) l = Inr us"
    if "map_ok fst (encode_update_body_masked s baseline current n l sc (writer_new buf)) = Inr w"
      "writer_finish w \<le> max_section_bytes l"
    by (rule masked_section_written [OF that(1) sorted ok(1) cnt(1) that(2)]) (use us in auto)
  show "decode_update_section_sparse_packed s (written_body w) l = Inr us"
    if "map_ok fst (encode_update_body_sparse_packed s baseline current n l sc (writer_new buf)) = Inr w"
      "writer_finish w \<le> max_section_bytes l"
    by (rule packed.section_written [OF that(1) [unfolded encode_update_body_sparse_packed_def] sorted ok cnt(2) that(2),
          where tag = EntityUpdateSparsePacked])
      (use us in \<open>auto simp: decode_update_section_sparse_packed_def\<close>)
  show "decode_update_section_sparse_varint s (written_body w) l = Inr us"
    if "map_ok fst (encode_update_body_sparse_varint s baseline current n l sc (writer_new buf)) = Inr w"
      "writer_finish w \<le> max_section_bytes l"
    by (rule aligned.section_written [OF that(1) [unfolded encode_update_body_sparse_varint_def] sorted ok cnt(2) that(2),
          where tag = EntityUpdateSparse])
      (use us in \<open>auto simp: decode_update_section_sparse_varint_def\<close>)
qed

end
