(* ===== verification/Delta_Roundtrip.thy ===== *)
theory Delta_Roundtrip
  imports Delta_Payload
begin

text \<open>
  The delta packets end to end: what is encoded from a baseline and a current snapshot is decoded to
  their differences, and applying it to the baseline yields the target of \<open>Delta_Merge\<close>.
\<close>

section \<open>The packet with a full header\<close>

definition delta_room :: "limits \<Rightarrow> usize \<Rightarrow> bool" where
  "delta_room l n \<longleftrightarrow> n < 2 ^ 32 \<and> n \<le> max_packet_bytes l \<and> n \<le> max_section_len l \<and> 3 \<le> max_sections l"

lemma header_delta_ok: "b \<noteq> 0 \<Longrightarrow> header_ok (header_delta_snapshot h t b n)"
  unfolding header_ok_def header_delta_snapshot_def flags_delta_snapshot_def DELTA_SNAPSHOT_def
  by (simp add: is_valid_v2_iff)

lemma section_length_le:
  "sec \<in> set secs \<Longrightarrow> length (ws_body sec) \<le> length (concat (map section_bytes secs))"
proof -
  assume "sec \<in> set secs"
  then have "length (section_bytes sec) \<le> sum_list (map (length \<circ> section_bytes) secs)"
    by (intro member_le_sum_list) auto
  moreover have "length (ws_body sec) \<le> length (section_bytes sec)" by (simp add: section_bytes_def)
  ultimately show ?thesis by (simp add: length_concat comp_def)
qed

lemma sections_within_room:
  assumes "length (concat (map section_bytes secs)) \<le> n" and "delta_room l n" and "length secs \<le> 3"
  shows "sections_within l secs"
  using assms section_length_le [of _ secs] by (fastforce simp: sections_within_def delta_room_def list_all_iff)

text \<open>A payload of sections behind its header is the packet of those sections.\<close>

lemma delta_packet_built:
  assumes k: "length payload = k" and secs: "payload = concat (map section_bytes secs)"
      "list_all (\<lambda>sec. length (ws_body sec) < 2 ^ 32) secs" "length secs \<le> 3"
    and room: "delta_room wl (HEADER_SIZE + k)" and bt: "b \<noteq> 0"
  shows "decode_packet (header_bytes (header_delta_snapshot h t b (of_nat k)) @ payload) wl =
    Inr \<lparr>wp_header = header_delta_snapshot h t b (of_nat k), wp_sections = secs\<rparr>"
proof (rule decode_packet_built)
  show "header_ok (header_delta_snapshot h t b (of_nat k))" using bt by (rule header_delta_ok)
  show "unat (ph_payload_len (header_delta_snapshot h t b (of_nat k))) = length payload"
    using room k by (simp add: header_delta_snapshot_def delta_room_def unat_of_nat_u32)
  show "framed payload secs" unfolding secs(1) by (rule framed_section_bytes [OF secs(2)])
  have "length (concat (map section_bytes secs)) \<le> HEADER_SIZE + k" using k secs(1) by simp
  then show "sections_within wl secs" using room secs(3) by (rule sections_within_room)
  show "28 + length payload \<le> max_packet_bytes wl" using room k by (simp add: delta_room_def HEADER_SIZE_eq)
qed

lemma delta_packet_bytes:
  assumes enc: "encode_delta_snapshot_with_scratch_mode blake3 s tick bt baseline current l sc out mode =
      Some (Inr (n, out'))"
  obtains k payload where
    "encode_delta_payload_with_mode s bt baseline current l sc (drop HEADER_SIZE out) mode =
      Some (Inr (k, payload))"
    and "n = HEADER_SIZE + k" and "out' = header_bytes (header_delta_snapshot (schema_hash blake3 s)
      (tick_raw tick) (tick_raw bt) (of_nat k)) @ payload"
proof -
  from enc obtain k payload where len: "HEADER_SIZE \<le> length out"
    and p: "encode_delta_payload_with_mode s bt baseline current l sc (drop HEADER_SIZE out) mode =
      Some (Inr (k, payload))"
    and f: "finish_delta_packet blake3 s tick bt out k payload = Inr (n, out')"
    by (auto simp: encode_delta_snapshot_with_scratch_mode_def res_simps not_less)
  have "length (take HEADER_SIZE out) = 28" using len by (simp add: HEADER_SIZE_eq)
  from encode_header_exact [OF this] f p show thesis
    by (intro that [of k payload]) (simp_all add: finish_delta_packet_def Let_def)
qed

lemma delta_packet_decodes:
  assumes enc: "encode_delta_snapshot_with_scratch_mode blake3 s tick bt baseline current l sc out mode =
      Some (Inr (n, out'))"
    and ok: "schema_ok s" "schema_ids_ok s" "sorted_wrt (<) (map cd_id (components s))"
    and fit: "counts_fit s baseline current" and room: "delta_room wl n" and bt: "tick_raw bt \<noteq> 0"
  obtains p us where "decode_packet (take n out') wl = Inr p"
    and "wp_header p = header_delta_snapshot (schema_hash blake3 s) (tick_raw tick) (tick_raw bt)
      (ph_payload_len (wp_header p))"
    and "sn_tick baseline = bt"
    and "ids_sorted (sn_entities baseline)" and "ids_sorted (sn_entities current)"
    and "diff_updates s l (sn_entities baseline) (sn_entities current) = Inr us"
    and "decode_delta_sections s p l =
      Inr (map es_id (destroyed (sn_entities baseline) (sn_entities current)),
        map (canonical_entity s) (created (sn_entities baseline) (sn_entities current)), us)"
proof -
  from enc obtain k payload where
    p: "encode_delta_payload_with_mode s bt baseline current l sc (drop HEADER_SIZE out) mode =
      Some (Inr (k, payload))"
    and n: "n = HEADER_SIZE + k" and out': "out' = header_bytes (header_delta_snapshot (schema_hash blake3 s)
      (tick_raw tick) (tick_raw bt) (of_nat k)) @ payload"
    by (rule delta_packet_bytes)
  let ?h = "header_delta_snapshot (schema_hash blake3 s) (tick_raw tick) (tick_raw bt) (of_nat k)"
  obtain secs us where secs: "k \<le> length payload"
      and "length payload = length (drop HEADER_SIZE out)"
      and secs2: "take k payload = concat (map section_bytes secs)"
      "list_all (\<lambda>sec. length (ws_body sec) < 2 ^ 32) secs" "length secs \<le> 3"
    and facts: "sn_tick baseline = bt" "ids_sorted (sn_entities baseline)" "ids_sorted (sn_entities current)"
      "diff_updates s l (sn_entities baseline) (sn_entities current) = Inr us"
    and dec: "\<forall>h. decode_delta_sections s \<lparr>wp_header = h, wp_sections = secs\<rparr> l =
      Inr (map es_id (destroyed (sn_entities baseline) (sn_entities current)),
        map (canonical_entity s) (created (sn_entities baseline) (sn_entities current)), us)"
    by (rule payload_decodes [OF p ok fit])
  have k: "length (take k payload) = k" using secs by simp
  have "take n out' = header_bytes ?h @ take k payload" by (simp add: n out' HEADER_SIZE_eq)
  moreover have "decode_packet (header_bytes ?h @ take k payload) wl = Inr \<lparr>wp_header = ?h, wp_sections = secs\<rparr>"
    using k secs2 room [unfolded n] bt by (rule delta_packet_built)
  ultimately show thesis
    by (intro that [of "\<lparr>wp_header = ?h, wp_sections = secs\<rparr>" us])
      (simp_all add: facts dec, simp add: header_delta_snapshot_def)
qed

lemma header_delta_fields:
  "h = header_delta_snapshot sh t b n \<Longrightarrow> b \<noteq> 0 \<Longrightarrow> check_delta_flags h = Inr () \<and>
    ph_schema_hash h = sh \<and> ph_tick h = t \<and> ph_baseline_tick h = b"
  by (simp add: header_delta_snapshot_def check_delta_flags_def flags_delta_snapshot_def DELTA_SNAPSHOT_def)

text \<open>Applying the sections to the baseline.\<close>

lemma apply_decoded:
  assumes h: "check_delta_flags (wp_header p) = Inr ()" "ph_schema_hash (wp_header p) = schema_hash blake3 s"
      "ph_baseline_tick (wp_header p) = tick_raw (sn_tick baseline)"
    and sorted: "ids_sorted (sn_entities baseline)" "ids_sorted (sn_entities current)"
    and us: "diff_updates s l (sn_entities baseline) (sn_entities current) = Inr us"
    and dec: "decode_delta_sections s p l =
      Inr (map es_id (destroyed (sn_entities baseline) (sn_entities current)),
        map (canonical_entity s) (created (sn_entities baseline) (sn_entities current)), us)"
    and ok: "schema_ok s" "\<forall>b \<in> set (sn_entities baseline). entity_ok b"
  shows "apply_delta_snapshot_from_packet blake3 s baseline p l =
    (if length (sn_entities current) > max_total_entities_after_apply l then
       Inl (CodecLimitsExceeded TotalEntitiesAfterApply (max_total_entities_after_apply l)
         (length (sn_entities current)))
     else Inr \<lparr>sn_tick = SnapshotTick (ph_tick (wp_header p)),
       sn_entities = delta_target s (sn_entities baseline) (sn_entities current)\<rparr>)"
proof -
  let ?bs = "sn_entities baseline" and ?cs = "sn_entities current"
  let ?new = "map (canonical_entity s) (created ?bs ?cs)"
  note three = apply_differences [OF sorted us ok, of "max_total_entities_after_apply l"
      "CodecLimitsExceeded TotalEntitiesAfterApply (max_total_entities_after_apply l)"]
  have "ensure_entities_sorted ?bs = Inr ()" using sorted(1) by (simp add: ensure_entities_sorted_Inr)
  moreover have "ensure_entities_sorted ?new = Inr ()"
    using created_sorted [OF sorted(2), of ?bs] by (simp add: ensure_entities_sorted_Inr comp_def)
  ultimately have "apply_delta_snapshot_from_packet blake3 s baseline p l =
      and_then (and_then (apply_destroys ?bs (map es_id (destroyed ?bs ?cs))) (\<lambda>rs.
        and_then (apply_creates rs ?new) (\<lambda>rs.
        if length rs > max_total_entities_after_apply l then
          Inl (CodecLimitsExceeded TotalEntitiesAfterApply (max_total_entities_after_apply l) (length rs))
        else apply_updates us rs)))
      (\<lambda>es. Inr \<lparr>sn_tick = SnapshotTick (ph_tick (wp_header p)), sn_entities = es\<rparr>)"
    using h dec by (simp add: apply_delta_snapshot_from_packet_def Let_def and_then_assoc and_then_if cong: if_cong)
  also have "\<dots> = (if length ?cs > max_total_entities_after_apply l then
       Inl (CodecLimitsExceeded TotalEntitiesAfterApply (max_total_entities_after_apply l) (length ?cs))
     else Inr \<lparr>sn_tick = SnapshotTick (ph_tick (wp_header p)), sn_entities = delta_target s ?bs ?cs\<rparr>)"
    unfolding three by simp
  finally show ?thesis .
qed

theorem delta_roundtrip_target:
  assumes enc: "encode_delta_snapshot_with_scratch_mode blake3 s tick bt baseline current l sc out mode =
      Some (Inr (n, out'))"
    and ok: "schema_ok s" "schema_ids_ok s" "sorted_wrt (<) (map cd_id (components s))"
    and ents: "\<forall>b \<in> set (sn_entities baseline). entity_ok b"
    and fit: "counts_fit s baseline current" and room: "delta_room wl n" and bt: "tick_raw bt \<noteq> 0"
  shows "apply_delta_snapshot blake3 s baseline (take n out') wl l =
    (if length (sn_entities current) > max_total_entities_after_apply l then
       Inl (CodecLimitsExceeded TotalEntitiesAfterApply (max_total_entities_after_apply l)
         (length (sn_entities current)))
     else Inr \<lparr>sn_tick = tick,
       sn_entities = delta_target s (sn_entities baseline) (sn_entities current)\<rparr>)"
proof -
  from delta_packet_decodes [OF enc ok fit room bt] obtain p us where
    p: "decode_packet (take n out') wl = Inr p"
    and h: "wp_header p = header_delta_snapshot (schema_hash blake3 s) (tick_raw tick) (tick_raw bt)
      (ph_payload_len (wp_header p))" and tick: "sn_tick baseline = bt"
    and d: "ids_sorted (sn_entities baseline)" "ids_sorted (sn_entities current)"
      "diff_updates s l (sn_entities baseline) (sn_entities current) = Inr us"
      "decode_delta_sections s p l =
      Inr (map es_id (destroyed (sn_entities baseline) (sn_entities current)),
        map (canonical_entity s) (created (sn_entities baseline) (sn_entities current)), us)" .
  note hf = header_delta_fields [OF h bt]
  with tick have "ph_baseline_tick (wp_header p) = tick_raw (sn_tick baseline)" by simp
  note applied = apply_decoded [OF _ _ this d ok(1) ents]
  show ?thesis
    unfolding apply_delta_snapshot_def p by (simp add: applied hf)
qed

theorem delta_packet_differences:
  assumes enc: "encode_delta_snapshot_with_scratch_mode blake3 s tick bt baseline current l sc out mode =
      Some (Inr (n, out'))"
    and ok: "schema_ok s" "schema_ids_ok s" "sorted_wrt (<) (map cd_id (components s))"
    and fit: "counts_fit s baseline current" and room: "delta_room wl n" and bt: "tick_raw bt \<noteq> 0"
  obtains p us where "decode_packet (take n out') wl = Inr p"
    and "diff_updates s l (sn_entities baseline) (sn_entities current) = Inr us"
    and "decode_delta_packet blake3 s p l = Inr \<lparr>dd_tick = tick, dd_baseline_tick = bt,
      dd_destroys = map es_id (destroyed (sn_entities baseline) (sn_entities current)),
      dd_creates = map (canonical_entity s) (created (sn_entities baseline) (sn_entities current)),
      dd_updates = us\<rparr>"
proof -
  obtain p us where p: "decode_packet (take n out') wl = Inr p"
    and h: "wp_header p = header_delta_snapshot (schema_hash blake3 s) (tick_raw tick) (tick_raw bt)
      (ph_payload_len (wp_header p))"
    and "sn_tick baseline = bt" and "ids_sorted (sn_entities baseline)" and "ids_sorted (sn_entities current)"
    and d: "diff_updates s l (sn_entities baseline) (sn_entities current) = Inr us"
      "decode_delta_sections s p l =
      Inr (map es_id (destroyed (sn_entities baseline) (sn_entities current)),
        map (canonical_entity s) (created (sn_entities baseline) (sn_entities current)), us)"
    by (rule delta_packet_decodes [OF enc ok fit room bt])
  with header_delta_fields [OF h bt] show thesis
    by (intro that [OF p d(1)]) (simp add: decode_delta_packet_def Let_def)
qed

text \<open>Without thresholds, and on snapshots in schema order, the receiver gets the current snapshot.\<close>

lemma delta_roundtrip_current:
  assumes enc: "encode_delta_snapshot_with_scratch_mode blake3 s tick bt baseline current l sc out mode =
      Some (Inr (n, out'))"
    and ok: "schema_ok s" "schema_ids_ok s" "sorted_wrt (<) (map cd_id (components s))" 
    and th: "\<forall>e \<in> set (sn_entities current). exact_values s e"
    and canon: "\<forall>e \<in> set (sn_entities baseline) \<union> set (sn_entities current). canonical_entity s e = e"
    and fit: "counts_fit s baseline current" and room: "delta_room wl n" and bt: "tick_raw bt \<noteq> 0"
    and total: "length (sn_entities current) \<le> max_total_entities_after_apply l"
  shows "apply_delta_snapshot blake3 s baseline (take n out') wl l =
    Inr \<lparr>sn_tick = tick, sn_entities = sn_entities current\<rparr>"
proof -
  obtain p us where "decode_packet (take n out') wl = Inr p"
    and "wp_header p = header_delta_snapshot (schema_hash blake3 s) (tick_raw tick) (tick_raw bt)
      (ph_payload_len (wp_header p))"
    and "sn_tick baseline = bt" and sorted: "ids_sorted (sn_entities baseline)" "ids_sorted (sn_entities current)"
    and us: "diff_updates s l (sn_entities baseline) (sn_entities current) = Inr us"
    and "decode_delta_sections s p l =
      Inr (map es_id (destroyed (sn_entities baseline) (sn_entities current)),
        map (canonical_entity s) (created (sn_entities baseline) (sn_entities current)), us)"
    by (rule delta_packet_decodes [OF enc ok fit room bt])
  have "\<forall>b \<in> set (sn_entities baseline). entity_ok b"
    using canon canonical_entity_ok [OF ok(1)] by (metis Un_iff)
  from delta_roundtrip_target [OF enc ok this fit room bt] total
    delta_target_current [OF ok(1) th us sorted canon]
  show ?thesis by simp
qed

section \<open>No panic\<close>

theorem encode_delta_no_panic:
  "encode_delta_snapshot_with_scratch_mode blake3 s tick bt baseline current l sc out mode \<noteq> None"
  using payload_no_panic [of s bt baseline current l sc "drop HEADER_SIZE out" mode]
  by (auto simp: encode_delta_snapshot_with_scratch_mode_def try_then_None simp del: not_None_eq)

end
