(* ===== verification/Change_Roundtrip.thy ===== *)
theory Change_Roundtrip
  imports Change_Lists Delta_Roundtrip
begin

text \<open>
  The packets encoded from change lists decode to those lists, whenever the lists are in the order that
  the decoder asks for; the encoder checks a part of that order only.
\<close>

section \<open>The lookup finds the component of an id\<close>

lemma cd_key_iff: "cd_key c = unat (component_id_get i) \<longleftrightarrow> cd_id c = i"
  by (cases "cd_id c"; cases i) (simp add: cd_key_def word_unat_eq_iff)

lemma cd_key_inj: "cd_key c = cd_key d \<longleftrightarrow> cd_id c = cd_id d"
  using cd_key_iff [of c "cd_id d"] by (simp add: cd_key_def)

lemma lookup_loop_lengths:
  "length (cl_index (lookup_loop i cs lk)) = length (cl_index lk) \<and>
    length (cl_index_bits (lookup_loop i cs lk)) = length (cl_index_bits lk)"
  by (induction i cs lk rule: lookup_loop.induct) simp_all

lemma lookup_loop_other:
  "k \<notin> cd_key ` set cs \<Longrightarrow> cl_index (lookup_loop i cs lk) ! k = cl_index lk ! k \<and>
    cl_index_bits (lookup_loop i cs lk) ! k = cl_index_bits lk ! k"
  by (induction i cs lk rule: lookup_loop.induct) auto

lemma lookup_loop_entry:
  "distinct (map cd_key cs) \<Longrightarrow> j < length cs \<Longrightarrow> cd_key (cs ! j) < length (cl_index lk) \<Longrightarrow>
    length (cl_index_bits lk) = length (cl_index lk) \<Longrightarrow>
    cl_index (lookup_loop i cs lk) ! cd_key (cs ! j) = Some (i + j) \<and>
      cl_index_bits (lookup_loop i cs lk) ! cd_key (cs ! j) = field_index_bits (cs ! j)"
proof (induction i cs lk arbitrary: j rule: lookup_loop.induct)
  case (2 i c cs lk)
  show ?case
  proof (cases j)
    case 0
    with "2.prems" lookup_loop_other [of "cd_key c" cs] show ?thesis by simp
  next
    case (Suc j')
    with "2.prems" "2.IH" [of j'] show ?thesis by simp
  qed
qed simp

lemma max_key: "c \<in> set cs \<Longrightarrow> cd_key c \<le> fold (\<lambda>c. max (cd_key c)) cs n"
proof (induction cs arbitrary: n)
  case (Cons x xs)
  have "m \<le> fold (\<lambda>c. max (cd_key c)) xs m" for m
    by (induction xs arbitrary: m) (simp, metis fold_simps(2) max.bounded_iff max.cobounded2 order_trans)
  from this [of "max (cd_key x) n"] Cons show ?case by auto
qed simp

lemma lookup_component_find:
  assumes "schema_ok s"
  shows "lookup_component s (build_component_lookup s) i =
      ok_or (InvalidMask ComponentMask (UnknownComponent i)) (find (\<lambda>c. cd_id c = i) (components s))"
    and "c \<in> set (components s) \<Longrightarrow>
      lookup_index_bits (build_component_lookup s) (cd_id c) = field_index_bits c"
proof -
  let ?m = "fold (\<lambda>c. max (cd_key c)) (components s) 0"
  let ?lk = "\<lparr>cl_index = replicate (?m + 1) None, cl_index_bits = replicate (?m + 1) 0\<rparr>"
  let ?b = "build_component_lookup s"
  have b: "?b = lookup_loop 0 (components s) ?lk" by (simp add: build_component_lookup_def Let_def)
  have len: "length (cl_index ?b) = ?m + 1" "length (cl_index_bits ?b) = ?m + 1"
    using lookup_loop_lengths [of 0 "components s" ?lk] unfolding b by simp_all
  have "distinct (map cd_id (components s))" using assms by (simp add: schema_ok_def)
  then have dist: "distinct (map cd_key (components s))"
    by (simp add: distinct_map inj_on_def cd_key_inj)
  have entry: "cl_index ?b ! cd_key (components s ! j) = Some j \<and>
      cl_index_bits ?b ! cd_key (components s ! j) = field_index_bits (components s ! j) \<and>
      cd_key (components s ! j) < ?m + 1"
    if "j < length (components s)" for j
    using lookup_loop_entry [OF dist that, of ?lk 0] max_key [OF nth_mem [OF that], of 0] unfolding b by simp
  show "c \<in> set (components s) \<Longrightarrow> lookup_index_bits ?b (cd_id c) = field_index_bits c"
    using entry len by (auto simp: in_set_conv_nth lookup_index_bits_def cd_key_def)
  show "lookup_component s ?b i =
      ok_or (InvalidMask ComponentMask (UnknownComponent i)) (find (\<lambda>c. cd_id c = i) (components s))"
  proof (cases "find (\<lambda>c. cd_id c = i) (components s)")
    case (Some c)
    then obtain j where "j < length (components s)" "c = components s ! j" "cd_id c = i"
      by (auto simp: find_Some_iff)
    with entry [of j] len Some show ?thesis
      by (simp add: lookup_component_def Let_def cd_key_iff [THEN iffD2, symmetric])
  next
    case None
    then have "unat (component_id_get i) \<notin> cd_key ` set (components s)"
      by (auto simp: find_None_iff cd_key_iff [symmetric])
    then have "cl_index ?b ! unat (component_id_get i) = replicate (?m + 1) None ! unat (component_id_get i)"
      using lookup_loop_other unfolding b by fastforce
    then show ?thesis using None len
      by (auto simp: lookup_component_def Let_def simp del: replicate.simps)
  qed
qed

section \<open>What validation accepts\<close>

lemma check_field_indices_Inr:
  "check_field_indices c i fs = Inr u \<longleftrightarrow> (\<forall>f \<in> set fs. fst f < length (cd_fields c))"
  by (induction c i fs rule: check_field_indices.induct) (auto simp: not_le)

definition update_known :: "schema \<Rightarrow> codec_limits \<Rightarrow> delta_update_component \<Rightarrow> bool" where
  "update_known s l u \<longleftrightarrow> (\<exists>c. find (\<lambda>c. cd_id c = uc_id u) (components s) = Some c \<and>
    uc_fields u \<noteq> [] \<and> length (uc_fields u) \<le> max_fields_per_component l \<and>
    (\<forall>f \<in> set (uc_fields u). fst f < length (cd_fields c)))"

lemma validate_component_update_Inr:
  assumes "schema_ok s"
  shows "validate_component_update s l (build_component_lookup s) u = Inr v \<longleftrightarrow> update_known s l u"
  by (cases "find (\<lambda>c. cd_id c = uc_id u) (components s)")
    (auto simp: validate_component_update_def lookup_component_find(1) [OF assms] update_known_def
      check_field_indices_Inr not_less)

lemma validate_component_updates_Inr:
  assumes "schema_ok s"
  shows "validate_component_updates s l (build_component_lookup s) us = Inr v \<longleftrightarrow>
    (\<forall>u \<in> set us. update_known s l u)"
proof (induction us)
  case (Cons u us)
  then show ?case
    using validate_component_update_Inr [OF assms, of l u "()"]
    by (cases "validate_component_update s l (build_component_lookup s) u") simp_all
qed simp

lemma validate_updates_loop_Inr:
  assumes "schema_ok s"
  shows "validate_updates_loop s l (build_component_lookup s) prev us = Inr v \<longleftrightarrow>
    sorted_wrt (<) (map ue_id us) \<and> (\<forall>p. prev = Some p \<longrightarrow> (\<forall>u \<in> set us. p < entity_raw (ue_id u))) \<and>
    (\<forall>u \<in> set us. length (ue_components u) \<le> max_components_per_entity l \<and>
      (\<forall>c \<in> set (ue_components u). update_known s l c))"
proof (induction us arbitrary: prev)
  case (Cons u us)
  have comps: "validate_component_updates s l (build_component_lookup s) (ue_components u) = Inr () \<longleftrightarrow>
      (\<forall>c \<in> set (ue_components u). update_known s l c)"
    by (rule validate_component_updates_Inr [OF assms])
  have above: "p < entity_raw (ue_id x)" if "p < entity_raw (ue_id u)" "ue_id u < ue_id x" for p x
    using that by (metis order_less_trans raw_less)
  show ?case
    using comps Cons.IH [of "Some (entity_raw (ue_id u))"]
    by (cases "validate_component_updates s l (build_component_lookup s) (ue_components u)"; cases prev)
      (auto simp: Let_def not_le not_less intro: above)
qed simp

lemma validate_updates_Inr:
  assumes "schema_ok s"
  shows "validate_updates_for_encoding s us l (build_component_lookup s) = Inr v \<longleftrightarrow>
    sorted_wrt (<) (map ue_id us) \<and>
    (\<forall>u \<in> set us. length (ue_components u) \<le> max_components_per_entity l \<and>
      (\<forall>c \<in> set (ue_components u). update_known s l c))"
  by (simp add: validate_updates_for_encoding_def validate_updates_loop_Inr [OF assms])

section \<open>The entries are read back\<close>

lemma write_update_field_packed:
  "write_update_field c (field_index_bits c) (i, v) w =
    and_then (write_index_packed c i w) (\<lambda>w. write_field_value (cd_id c) (cd_fields c ! i) v w)"
  by (simp add: write_update_field_def write_index_packed_def Let_def write_field_value_sparse_eq)

lemma write_update_field_extends: "write_update_field c bits f w = Inr w' \<Longrightarrow> extends w w'"
  by (cases f) (auto simp: write_update_field_def res_simps write_field_value_sparse_eq split: if_splits
      intro: extends_trans write_extends write_field_value_extends)

lemma update_fields_extend: "try_fold (write_update_field c bits) fs w = Inr w' \<Longrightarrow> extends w w'"
  by (rule try_fold_extends [rotated]) (auto intro: write_update_field_extends)

lemma listed_fields_written:
  "try_fold (write_update_field c (field_index_bits c)) fs w = Inr w' \<Longrightarrow> component_ok c \<Longrightarrow>
    (\<forall>f \<in> set fs. fst f < length (cd_fields c)) \<Longrightarrow> sorted_wrt (<) (map fst fs) \<Longrightarrow>
    (\<And>p f. prev = Some p \<Longrightarrow> f \<in> set fs \<Longrightarrow> p < fst f) \<Longrightarrow> holds d w' \<Longrightarrow>
    read_sparse_fields read_index_packed c (length fs) prev (reader_at d (bw_pos w)) =
      Inr (fs, reader_at d (bw_pos w'))"
proof (induction fs arbitrary: w prev)
  case (Cons f fs)
  obtain i v where f: "f = (i, v)" by (cases f)
  from Cons.prems(1) obtain w1 w2 where w1: "write_index_packed c i w = Inr w1"
    and w2: "write_field_value (cd_id c) (cd_fields c ! i) v w1 = Inr w2"
    and rest: "try_fold (write_update_field c (field_index_bits c)) fs w2 = Inr w'"
    by (auto simp: f write_update_field_packed elim!: and_then_E)
  have h2: "holds d w2" using Cons.prems(6) update_fields_extend [OF rest] by (rule holds_extends)
  have h1: "holds d w1" using h2 write_field_value_extends [OF w2] by (rule holds_extends)
  have i: "i < length (cd_fields c)" using Cons.prems(3) f by simp
  have "codec_ok (fd_codec (cd_fields c ! i))"
    using Cons.prems(2) i by (simp add: component_ok_def list_all_length)
  note rd = packed.index_read [OF w1 i component_fields_bound [OF Cons.prems(2)] h1]
    read_field_value_written [OF w2 this h2]
  have "read_sparse_fields read_index_packed c (length fs) (Some i) (reader_at d (bw_pos w2)) =
      Inr (fs, reader_at d (bw_pos w'))"
    using Cons.prems(2-4,6) f by (intro Cons.IH [OF rest]) auto
  moreover have "p < i" if "prev = Some p" for p using Cons.prems(5) [OF that, of f] f by simp
  ultimately show ?case using rd i f
    by (cases prev) (auto simp: read_field_value_sparse_eq not_le)
qed simp

lemma sorted_below_length:
  assumes "sorted_wrt (<) (xs :: nat list)" and "\<forall>x \<in> set xs. x < n"
  shows "length xs \<le> n"
proof -
  have "distinct xs" using assms(1) by (simp add: strict_sorted_iff)
  then have "length xs = card (set xs)" by (simp add: distinct_card)
  also have "\<dots> \<le> card {..<n}" using assms(2) by (intro card_mono) auto
  finally show ?thesis by simp
qed

text \<open>One entry, in the form of the contract of \<open>Delta_Sparse\<close>.\<close>

lemma write_update_component_parts:
  assumes s: "schema_ok s" and c: "find (\<lambda>c. cd_id c = uc_id u) (components s) = Some c"
  shows "write_update_component s (build_component_lookup s) eid u w =
    and_then (write_head_packed eid (cd_id c) (length (uc_fields u)) w)
      (try_fold (write_update_field c (field_index_bits c)) (uc_fields u))"
proof -
  have "c \<in> set (components s)" using c by (auto simp: find_Some_iff)
  then show ?thesis
    by (simp add: write_update_component_def lookup_component_find [OF s] c write_head_packed_def
        and_then_assoc Let_def)
qed

lemma update_entry_written:
  assumes wr: "write_update_component s (build_component_lookup s) eid u w = Inr w'"
    and s: "schema_ok s" "schema_ids_ok s" and c: "find (\<lambda>c. cd_id c = uc_id u) (components s) = Some c"
    and u: "update_known s l u" and sorted: "sorted_wrt (<) (map fst (uc_fields u))"
  shows "extends w w'"
    and "holds d w' \<Longrightarrow> check_entry_order pe pc eid (component_id_get (cd_id c)) = Inr () \<Longrightarrow>
      decode_sparse_loop read_head_packed read_index_packed s l (Suc n) pe pc acc (reader_at d (bw_pos w)) =
        decode_sparse_loop read_head_packed read_index_packed s l n (Some eid)
          (Some (component_id_get (cd_id c))) (push_update eid u acc) (reader_at d (bw_pos w'))"
proof -
  from wr obtain w1 where w1: "write_head_packed eid (cd_id c) (length (uc_fields u)) w = Inr w1"
    and rest: "try_fold (write_update_field c (field_index_bits c)) (uc_fields u) w1 = Inr w'"
    unfolding write_update_component_parts [OF s(1) c] by (rule and_then_E)
  note e = packed.head_extends [OF w1] update_fields_extend [OF rest]
  then show "extends w w'" by (rule extends_trans)
  assume d: "holds d w'" and order: "check_entry_order pe pc eid (component_id_get (cd_id c)) = Inr ()"
  have mem: "c \<in> set (components s)" and cid: "cd_id c = uc_id u" using c by (auto simp: find_Some_iff)
  then have ok: "component_ok c" "component_id_get (cd_id c) \<noteq> 0"
    using s by (auto simp: schema_ok_def schema_ids_ok_def list_all_iff)
  have fs: "uc_fields u \<noteq> []" "length (uc_fields u) \<le> max_fields_per_component l"
      "\<forall>f \<in> set (uc_fields u). fst f < length (cd_fields c)"
    using u c by (auto simp: update_known_def)
  have few: "length (uc_fields u) \<le> length (cd_fields c)"
    using sorted_below_length [OF sorted, of "length (cd_fields c)"] fs(3) by simp
  then have small: "length (uc_fields u) < 2 ^ 32" using component_fields_bound [OF ok(1)] by simp
  from packed.head_read [OF w1 holds_extends [OF d e(2)] small] obtain r where
    r: "read_head_packed (reader_at d (bw_pos w)) = Inr ((eid, component_id_get (cd_id c)), r)"
      "read_varu32 r = Inr (of_nat (length (uc_fields u)), reader_at d (bw_pos w1))"
    by blast
  have "read_sparse_fields read_index_packed c (length (uc_fields u)) None (reader_at d (bw_pos w1)) =
      Inr (uc_fields u, reader_at d (bw_pos w'))"
    using ok fs sorted d by (intro listed_fields_written [OF rest]) simp_all
  moreover have "component_id_new (component_id_get (cd_id c)) = Some (cd_id c)"
    using ok(2) by (cases "cd_id c") (simp add: component_id_new_def)
  moreover have "check_field_count c (length (uc_fields u)) l = Inr ()"
    using fs few by (simp add: check_field_count_def)
  ultimately show "decode_sparse_loop read_head_packed read_index_packed s l (Suc n) pe pc acc
        (reader_at d (bw_pos w)) =
      decode_sparse_loop read_head_packed read_index_packed s l n (Some eid)
          (Some (component_id_get (cd_id c))) (push_update eid u acc) (reader_at d (bw_pos w'))"
    using r order c cid small by (cases u) (simp add: Let_def unat_of_nat_u32)
qed

text \<open>\<^const>\<open>update_ordered\<close> is the order that the decoder asks for and the encoder does not check.\<close>

lemma update_components_written:
  "try_fold (write_update_component s (build_component_lookup s) eid) us w = Inr w' \<Longrightarrow>
    schema_ok s \<Longrightarrow> schema_ids_ok s \<Longrightarrow> (\<forall>u \<in> set us. update_known s l u) \<Longrightarrow>
    sorted_wrt (<) (map uc_id us) \<Longrightarrow> (\<forall>u \<in> set us. sorted_wrt (<) (map fst (uc_fields u))) \<Longrightarrow>
    \<exists>cs :: component_def list. map cd_id cs = map uc_id us \<and>
      decodes_entries read_head_packed read_index_packed s l eid cs us w w'"
proof (induction us arbitrary: w)
  case Nil
  then show ?case by (auto simp: decodes_entries_def)
next
  case (Cons u us)
  from Cons.prems(1) obtain w1 where w1: "write_update_component s (build_component_lookup s) eid u w = Inr w1"
    and rest: "try_fold (write_update_component s (build_component_lookup s) eid) us w1 = Inr w'"
    by (auto elim: and_then_E)
  have u: "update_known s l u" "sorted_wrt (<) (map fst (uc_fields u))" using Cons.prems(4,6) by simp_all
  then obtain c where c: "find (\<lambda>c. cd_id c = uc_id u) (components s) = Some c"
    by (auto simp: update_known_def)
  then have cid: "cd_id c = uc_id u" by (auto simp: find_Some_iff)
  have "\<forall>u \<in> set us. update_known s l u" "sorted_wrt (<) (map uc_id us)"
    "\<forall>u \<in> set us. sorted_wrt (<) (map fst (uc_fields u))" using Cons.prems(4-6) by simp_all
  from Cons.IH [OF rest Cons.prems(2,3) this] obtain cs :: "component_def list" where cs: "map cd_id cs = map uc_id us"
    and dec: "decodes_entries read_head_packed read_index_packed s l eid cs us w1 w'" by (elim exE conjE)
  have "\<forall>i \<in> set (map uc_id us). uc_id u < i" using Cons.prems(5) by simp
  then have less: "\<forall>x \<in> set cs. cd_id c < cd_id x" unfolding cs [symmetric] cid by simp
  note one = update_entry_written [OF w1 Cons.prems(2,3) c u]
  have "decodes_entries read_head_packed read_index_packed s l eid (c # cs) (u # us) w w'"
    using one(1) one(2) less dec by (rule decodes_entries_step)
  with cs cid show ?case by (intro exI [of _ "c # cs"]) simp
qed

abbreviation nonempty_updates :: "delta_update_entity list \<Rightarrow> delta_update_entity list" where
  "nonempty_updates us \<equiv> filter (\<lambda>u. ue_components u \<noteq> []) us"

lemma updates_written:
  "try_fold (write_update_entity s (build_component_lookup s)) us w = Inr w' \<Longrightarrow>
    schema_ok s \<Longrightarrow> schema_ids_ok s \<Longrightarrow> sorted_wrt (<) (map ue_id us) \<Longrightarrow>
    (\<forall>u \<in> set us. update_ordered u \<and> (\<forall>c \<in> set (ue_components u). update_known s l c)) \<Longrightarrow>
    decodes_sparse read_head_packed read_index_packed s l (nonempty_updates us) w w'"
proof (induction us arbitrary: w)
  case Nil
  then show ?case by (simp add: decodes_sparse_def update_entry_count_def)
next
  case (Cons u us)
  from Cons.prems(1) obtain w1 where w1: "write_update_entity s (build_component_lookup s) u w = Inr w1"
    and rest: "try_fold (write_update_entity s (build_component_lookup s)) us w1 = Inr w'"
    by (auto elim: and_then_E)
  have IH: "decodes_sparse read_head_packed read_index_packed s l (nonempty_updates us) w1 w'"
    using Cons.prems(4,5) by (intro Cons.IH [OF rest Cons.prems(2,3)]) simp_all
  show ?case
  proof (cases "ue_components u = []")
    case True
    with w1 IH show ?thesis by (simp add: write_update_entity_def)
  next
    case False
    have "\<forall>c \<in> set (ue_components u). update_known s l c" "sorted_wrt (<) (map uc_id (ue_components u))"
      "\<forall>c \<in> set (ue_components u). sorted_wrt (<) (map fst (uc_fields c))"
      using Cons.prems(5) by (simp_all add: update_ordered_def)
    from update_components_written [OF w1 [unfolded write_update_entity_def] Cons.prems(2,3) this] obtain cs :: "component_def list" where
      "decodes_entries read_head_packed read_index_packed s l (entity_raw (ue_id u)) cs (ue_components u) w w1"
      by (elim exE conjE)
    moreover have "\<forall>v \<in> set (nonempty_updates us). ue_id u < ue_id v" using Cons.prems(4) by simp
    ultimately have "decodes_sparse read_head_packed read_index_packed s l
        (\<lparr>ue_id = ue_id u, ue_components = ue_components u\<rparr> # nonempty_updates us) w w'"
      using False IH by (intro decodes_sparse_step) simp_all
    with False show ?thesis by (cases u) simp
  qed
qed

lemma entry_count_nonempty: "update_entry_count (nonempty_updates us) = update_entry_count us"
  by (induction us) (simp_all add: update_entry_count_def)

lemma length_nonempty: "length (nonempty_updates us) \<le> length us"
  by (rule length_filter_le)

section \<open>The bodies\<close>

lemma write_update_component_head:
  "write_update_component s lookup eid u w =
    and_then (lookup_component s lookup (uc_id u)) (\<lambda>c.
    and_then (write_head_packed eid (cd_id c) (length (uc_fields u)) w)
      (try_fold (write_update_field c (lookup_index_bits lookup (cd_id c))) (uc_fields u)))"
  by (simp add: write_update_component_def write_head_packed_def and_then_assoc Let_def)

lemma write_update_component_extends: "write_update_component s lookup eid u w = Inr w' \<Longrightarrow> extends w w'"
  by (auto simp: write_update_component_head elim!: and_then_E
      intro: extends_trans packed.head_extends update_fields_extend)

lemma write_update_entity_extends: "write_update_entity s lookup u w = Inr w' \<Longrightarrow> extends w w'"
  unfolding write_update_entity_def by (rule try_fold_extends [rotated]) (auto intro: write_update_component_extends)

lemma write_updates_writer: "body_writer (try_fold (write_update_entity s lookup) us)"
  unfolding body_writer_def by (auto intro: try_fold_extends [rotated] write_update_entity_extends)

lemma change_bodies_frame:
  "encode_destroy_body_from_list ds l w =
    (if length ds > max_entities_destroy l then
       Inl (CodecLimitsExceeded EntitiesDestroy (max_entities_destroy l) (length ds))
     else section_body (length ds) (try_fold write_destroy_id ds) w)"
  "encode_create_body_from_list s cs l w =
    (if length cs > max_entities_create l then
       Inl (CodecLimitsExceeded EntitiesCreate (max_entities_create l) (length cs))
     else section_body (length cs) (try_fold (\<lambda>e. write_create_entity s e l) cs) w)"
  by (simp_all add: encode_destroy_body_from_list_def encode_create_body_from_list_def section_body_def)

lemma update_body_frame:
  "encode_update_body_sparse_packed_from_updates s us l lookup w =
    (if length us > max_entities_update l then
       Inl (CodecLimitsExceeded EntitiesUpdate (max_entities_update l) (length us))
     else if update_entry_count us > saturating_mul (max_entities_update l) (max_components_per_entity l) then
       Inl (CodecLimitsExceeded EntitiesUpdate
         (saturating_mul (max_entities_update l) (max_components_per_entity l)) (update_entry_count us))
     else section_body (update_entry_count us) (try_fold (write_update_entity s lookup) us) w)"
  by (simp add: encode_update_body_sparse_packed_from_updates_def section_body_def update_entry_count_def Let_def)

lemma change_bodies_writer:
  "body_writer (encode_destroy_body_from_list ds l)"
  "body_writer (encode_create_body_from_list s cs l)"
  "body_writer (encode_update_body_sparse_packed_from_updates s us l lookup)"
proof -
  have "body_writer (try_fold write_destroy_id ds)"
    by (auto simp: body_writer_def intro: try_fold_extends write_destroy_extends)
  note d = section_body_writer [OF this, of "length ds"]
  have "body_writer (try_fold (\<lambda>e. write_create_entity s e l) cs)"
    by (simp add: body_writer_def creates_extend)
  note c = section_body_writer [OF this, of "length cs"]
  note u = section_body_writer [OF write_updates_writer [of s lookup us], of "update_entry_count us"]
  show "body_writer (encode_destroy_body_from_list ds l)" "body_writer (encode_create_body_from_list s cs l)"
    "body_writer (encode_update_body_sparse_packed_from_updates s us l lookup)"
    using d c u by (auto simp: body_writer_def change_bodies_frame update_body_frame split: if_splits)
qed

text \<open>The destroy list is that of entities without components.\<close>

lemma destroy_list_written:
  assumes wr: "encode_destroy_body_from_list ds l (writer_new buf) = Inr w"
    and sorted: "sorted_wrt (<) ds" and n: "length ds < 2 ^ 32" and sz: "writer_finish w \<le> max_section_bytes l"
  shows "decode_destroy_section (written_body w) l = Inr ds"
proof -
  let ?es = "map (\<lambda>i. \<lparr>es_id = i, es_components = []\<rparr>) ds"
  have ids: "map es_id ?es = ds" by (simp add: comp_def)
  have fold: "try_fold write_destroy_id ds = try_fold (\<lambda>e. write_destroy_id (es_id e)) ?es"
    using try_fold_map [of write_destroy_id es_id ?es] unfolding ids by (intro ext) simp
  from wr have lim: "length ds \<le> max_entities_destroy l"
    and body: "section_body (length ds) (try_fold (\<lambda>e. write_destroy_id (es_id e)) ?es) (writer_new buf) = Inr w"
    by (auto simp: change_bodies_frame fold split: if_splits)
  have "body_writer (try_fold (\<lambda>e. write_destroy_id (es_id e)) ?es)"
    by (simp add: body_writer_def destroys_extend)
  moreover have "ids_sorted ?es" using sorted by (simp add: comp_def)
  ultimately show ?thesis
    unfolding decode_destroy_section_def
    by (intro section_body_read [OF body _ n lim sz]) (use destroys_written [of ?es _ _ None] ids in auto)
qed

lemma create_list_written:
  assumes wr: "encode_create_body_from_list s cs l (writer_new buf) = Inr w" and s: "schema_ok s"
    and sorted: "ids_sorted cs" and n: "length cs < 2 ^ 32" and sz: "writer_finish w \<le> max_section_bytes l"
  shows "delta_decode_create_section s (written_body w) l = Inr (map (canonical_entity s) cs)"
proof -
  from wr have lim: "length cs \<le> max_entities_create l"
    and body: "section_body (length cs) (try_fold (\<lambda>e. write_create_entity s e l) cs) (writer_new buf) = Inr w"
    by (auto simp: change_bodies_frame split: if_splits)
  from creates_section_written [OF body s sorted n lim sz] show ?thesis .
qed

lemma update_list_written:
  assumes wr: "encode_update_body_sparse_packed_from_updates s us l (build_component_lookup s) (writer_new buf) = Inr w"
    and s: "schema_ok s" "schema_ids_ok s"
    and valid: "validate_updates_for_encoding s us l (build_component_lookup s) = Inr ()"
    and ord: "\<forall>u \<in> set us. update_ordered u"
    and n: "update_entry_count us < 2 ^ 32" and sz: "writer_finish w \<le> max_section_bytes l"
  shows "decode_update_section_sparse_packed s (written_body w) l = Inr (nonempty_updates us)"
proof -
  from wr have lim: "length us \<le> max_entities_update l"
      "update_entry_count us \<le> saturating_mul (max_entities_update l) (max_components_per_entity l)"
    and body: "section_body (update_entry_count us)
      (try_fold (write_update_entity s (build_component_lookup s)) us) (writer_new buf) = Inr w"
    by (auto simp: update_body_frame split: if_splits)
  from valid have "sorted_wrt (<) (map ue_id us)"
      "\<forall>u \<in> set us. update_ordered u \<and> (\<forall>c \<in> set (ue_components u). update_known s l c)"
    using ord by (auto simp: validate_updates_Inr [OF s(1)])
  from updates_written [OF _ s this] have dec: "decodes_sparse read_head_packed read_index_packed s l
      (nonempty_updates us) w0 w1" if "try_fold (write_update_entity s (build_component_lookup s)) us w0 = Inr w1"
    for w0 w1 using that by blast
  have "length (nonempty_updates us) \<le> max_entities_update l"
    using length_nonempty lim(1) by (rule order_trans)
  moreover have "decode_update_section_sparse_packed s (written_body w) l =
      (let unique_entities = length (nonempty_updates us) in
       if unique_entities > max_entities_update l then
         Inl (CodecLimitsExceeded EntitiesUpdate (max_entities_update l) unique_entities)
       else Inr (nonempty_updates us))"
    unfolding decode_update_section_sparse_packed_def decode_update_section_sparse_def
    by (rule section_body_read [OF body write_updates_writer n lim(2) sz])
      (use dec in \<open>force simp: decodes_sparse_def entry_count_nonempty\<close>)
  ultimately show ?thesis by (simp add: Let_def)
qed

end
