(* ===== verification/Change_Packets.thy ===== *)
theory Change_Packets
  imports Change_Roundtrip
begin

text \<open>
  The packet of three change lists: what it decodes to, that encoding never panics, and that the lists
  of a scan give the same receiver state as the scan-based encoder.
\<close>

section \<open>The payload\<close>

lemma change_payload_no_panic: "encode_delta_payload_from_updates s ds cs us l out \<noteq> None"
proof
  assume none: "encode_delta_payload_from_updates s ds cs us l out = None"
  let ?d = "append_section_if (length ds) EntityDestroy l (encode_destroy_body_from_list ds l) (0, out)"
  let ?c = "append_section_if (length cs) EntityCreate l (encode_create_body_from_list s cs l)"
  let ?u = "append_section_if (length us) EntityUpdateSparsePacked l
    (encode_update_body_sparse_packed_from_updates s us l (build_component_lookup s))"
  from none have steps: "try_then ?d (\<lambda>st. try_then (?c st) ?u) = None"
    by (auto simp: encode_delta_payload_from_updates_def Let_def try_then_None [where m = "Some _"]
        simp del: not_None_eq split: if_splits)
  have start: "sections_written (length out) [] (0, out)" by (simp add: sections_written_def)
  note d = append_if_no_panic [OF start change_bodies_writer(1), of "length ds" EntityDestroy l ds l]
  from steps d obtain st where st: "?d = Some (Inr st)" and steps': "try_then (?c st) ?u = None"
    by (auto simp: try_then_None simp del: not_None_eq)
  from append_if_written [OF st change_bodies_writer(1) start] obtain secs where
    secs: "sections_written (length out) secs st" ..
  from steps' append_if_no_panic [OF secs change_bodies_writer(2), of "length cs" EntityCreate l s cs l]
  obtain st' where st': "?c st = Some (Inr st')" and last: "?u st' = None"
    by (auto simp: try_then_None simp del: not_None_eq)
  from append_if_written [OF st' change_bodies_writer(2) secs] obtain secs' where
    "sections_written (length out) secs' st'" ..
  from append_if_no_panic [OF this change_bodies_writer(3), of "length us" EntityUpdateSparsePacked l s us l
      "build_component_lookup s"] last show False by simp
qed

lemma change_payload_decodes:
  assumes enc: "encode_delta_payload_from_updates s ds cs us l out = Some (Inr (n, payload))"
    and s: "schema_ok s" "schema_ids_ok s" and ord: "\<forall>u \<in> set us. update_ordered u"
    and small: "length ds < 2 ^ 32" "length cs < 2 ^ 32" "update_entry_count us < 2 ^ 32"
  obtains secs where "n \<le> length payload" and "take n payload = concat (map section_bytes secs)"
    and "list_all (\<lambda>sec. length (ws_body sec) < 2 ^ 32) secs" and "length secs \<le> 3"
    and "sorted_wrt (<) ds" and "ids_sorted cs"
    and "validate_updates_for_encoding s us l (build_component_lookup s) = Inr ()"
    and "\<forall>h. decode_delta_sections s \<lparr>wp_header = h, wp_sections = secs\<rparr> l =
      Inr (ds, map (canonical_entity s) cs, nonempty_updates us)"
proof -
  from enc obtain st st' where sorted: "sorted_wrt (<) ds" "ids_sorted cs"
    and valid: "validate_updates_for_encoding s us l (build_component_lookup s) = Inr ()"
    and d: "append_section_if (length ds) EntityDestroy l (encode_destroy_body_from_list ds l) (0, out) = Some (Inr st)"
    and c: "append_section_if (length cs) EntityCreate l (encode_create_body_from_list s cs l) st = Some (Inr st')"
    and u: "append_section_if (length us) EntityUpdateSparsePacked l
      (encode_update_body_sparse_packed_from_updates s us l (build_component_lookup s)) st' = Some (Inr (n, payload))"
    by (auto simp: encode_delta_payload_from_updates_def Let_def try_then_Inr if_Some_Inl_Inr
        ensure_entity_ids_sorted_Inr ensure_entities_sorted_Inr)
  let ?acc0 = "\<lparr>ds_destroys = None, ds_creates = None, ds_updates_masked = None, ds_updates_sparse = None\<rparr>"
  let ?acc1 = "?acc0\<lparr>ds_destroys := if ds = [] then None else Some ds\<rparr>"
  let ?acc2 = "?acc1\<lparr>ds_creates := if cs = [] then None else Some (map (canonical_entity s) cs)\<rparr>"
  let ?acc3 = "?acc2\<lparr>ds_updates_sparse := if us = [] then None else Some (nonempty_updates us)\<rparr>"
  have start: "payload_state s l (length out) [] ?acc0 (0, out)"
    by (simp add: payload_state_def sections_written_def)
  obtain secs1 where s1: "payload_state s l (length out) secs1 ?acc1 st" "length secs1 \<le> 1"
  proof (rule append_if_state [OF d change_bodies_writer(1) start, of ?acc1])
    fix w buf assume "encode_destroy_body_from_list ds l (writer_new buf) = Inr w"
      and "writer_finish w \<le> max_section_bytes l" and "length ds > 0"
    with destroy_list_written [OF _ sorted(1) small(1)]
    show "delta_section s l \<lparr>ws_tag = EntityDestroy, ws_body = written_body w\<rparr> ?acc0 = Inr ?acc1"
      by (simp add: delta_section_def once_only_def)
  qed simp_all
  obtain secs2 where s2: "payload_state s l (length out) secs2 ?acc2 st'" "length secs2 \<le> 2"
  proof (rule append_if_state [OF c change_bodies_writer(2) s1(1), of ?acc2])
    fix w buf assume "encode_create_body_from_list s cs l (writer_new buf) = Inr w"
      and "writer_finish w \<le> max_section_bytes l" and "length cs > 0"
    with create_list_written [OF _ s(1) sorted(2) small(2)]
    show "delta_section s l \<lparr>ws_tag = EntityCreate, ws_body = written_body w\<rparr> ?acc1 = Inr ?acc2"
      by (simp add: delta_section_def once_only_def)
  qed (use s1(2) in simp_all)
  obtain secs3 where s3: "payload_state s l (length out) secs3 ?acc3 (n, payload)" "length secs3 \<le> 3"
  proof (rule append_if_state [OF u change_bodies_writer(3) s2(1), of ?acc3])
    fix w buf
    assume "encode_update_body_sparse_packed_from_updates s us l (build_component_lookup s) (writer_new buf) = Inr w"
      and "writer_finish w \<le> max_section_bytes l" and "length us > 0"
    with update_list_written [OF _ s valid ord small(3)]
    show "delta_section s l \<lparr>ws_tag = EntityUpdateSparsePacked, ws_body = written_body w\<rparr> ?acc2 = Inr ?acc3"
      by (simp add: delta_section_def once_only_def)
  qed (use s2(2) in simp_all)
  show thesis
  proof (rule that [of secs3])
    show "\<forall>h. decode_delta_sections s \<lparr>wp_header = h, wp_sections = secs3\<rparr> l =
        Inr (ds, map (canonical_entity s) cs, nonempty_updates us)"
      using s3(1) by (auto simp: payload_state_def decode_delta_sections_def unwrap_or_default_def)
  qed (use s3 sorted valid in \<open>simp_all add: payload_state_def sections_written_def\<close>)
qed

section \<open>The packet\<close>

lemma change_packet_decodes:
  assumes enc: "encode_delta_snapshot_from_updates blake3 s tick bt ds cs us l out = Some (Inr (n, out'))"
    and s: "schema_ok s" "schema_ids_ok s" and ord: "\<forall>u \<in> set us. update_ordered u"
    and small: "length ds < 2 ^ 32" "length cs < 2 ^ 32" "update_entry_count us < 2 ^ 32"
    and room: "delta_room wl n" and bt: "tick_raw bt \<noteq> 0"
  obtains p where "decode_packet (take n out') wl = Inr p"
    and "wp_header p = header_delta_snapshot (schema_hash blake3 s) (tick_raw tick) (tick_raw bt)
      (ph_payload_len (wp_header p))"
    and "decode_delta_sections s p l = Inr (ds, map (canonical_entity s) cs, nonempty_updates us)"
proof -
  from enc obtain k payload where len: "HEADER_SIZE \<le> length out"
    and p: "encode_delta_payload_from_updates s ds cs us l (drop HEADER_SIZE out) = Some (Inr (k, payload))"
    and f: "finish_delta_packet blake3 s tick bt out k payload = Inr (n, out')"
    by (auto simp: encode_delta_snapshot_from_updates_def try_then_Inr if_Some_Inl_Inr not_less)
  let ?h = "header_delta_snapshot (schema_hash blake3 s) (tick_raw tick) (tick_raw bt) (of_nat k)"
  have "length (take HEADER_SIZE out) = 28" using len by (simp add: HEADER_SIZE_eq)
  from encode_header_exact [OF this] f have n: "n = HEADER_SIZE + k" and out': "out' = header_bytes ?h @ payload"
    by (simp_all add: finish_delta_packet_def Let_def)
  obtain secs where kp: "k \<le> length payload" and secs: "take k payload = concat (map section_bytes secs)"
      "list_all (\<lambda>sec. length (ws_body sec) < 2 ^ 32) secs" "length secs \<le> 3"
    and dec: "\<forall>h. decode_delta_sections s \<lparr>wp_header = h, wp_sections = secs\<rparr> l =
      Inr (ds, map (canonical_entity s) cs, nonempty_updates us)"
    by (rule change_payload_decodes [OF p s ord small])
  have k: "length (take k payload) = k" using kp by (simp only: length_take min.absorb2)
  have "take n out' = header_bytes ?h @ take k payload" by (simp add: n out' HEADER_SIZE_eq)
  with delta_packet_built [OF k secs room [unfolded n] bt] dec show thesis
    by (intro that [of "\<lparr>wp_header = ?h, wp_sections = secs\<rparr>"]) (simp_all, simp add: header_delta_snapshot_def)
qed

theorem change_lists_decode:
  assumes "encode_delta_snapshot_from_updates blake3 s tick bt ds cs us l out = Some (Inr (n, out'))"
    and "schema_ok s" "schema_ids_ok s" and "\<forall>u \<in> set us. update_ordered u"
    and "length ds < 2 ^ 32" "length cs < 2 ^ 32" "update_entry_count us < 2 ^ 32"
    and "delta_room wl n" and bt: "tick_raw bt \<noteq> 0"
  shows "and_then (map_err Wire (decode_packet (take n out') wl)) (\<lambda>p. decode_delta_packet blake3 s p l) =
    Inr \<lparr>dd_tick = tick, dd_baseline_tick = bt, dd_destroys = ds,
      dd_creates = map (canonical_entity s) cs, dd_updates = nonempty_updates us\<rparr>"
proof -
  obtain p where "decode_packet (take n out') wl = Inr p"
    and h: "wp_header p = header_delta_snapshot (schema_hash blake3 s) (tick_raw tick) (tick_raw bt)
      (ph_payload_len (wp_header p))"
    and "decode_delta_sections s p l = Inr (ds, map (canonical_entity s) cs, nonempty_updates us)"
    by (rule change_packet_decodes [OF assms])
  with header_delta_fields [OF h bt] show ?thesis by (simp add: decode_delta_packet_def Let_def)
qed

theorem change_lists_no_panic:
  "encode_delta_snapshot_from_updates blake3 s tick bt ds cs us l out \<noteq> None"
  using change_payload_no_panic [of s ds cs us l "drop HEADER_SIZE out"]
  by (auto simp: encode_delta_snapshot_from_updates_def try_then_None simp del: not_None_eq)

section \<open>The lists of a scan\<close>

theorem scanned_changes_applied:
  assumes enc: "encode_delta_snapshot_from_updates blake3 s tick bt
      (map es_id (destroyed (sn_entities baseline) (sn_entities current)))
      (created (sn_entities baseline) (sn_entities current)) us l out = Some (Inr (n, out'))"
    and us: "diff_updates s l (sn_entities baseline) (sn_entities current) = Inr us"
    and s: "schema_ok s" "schema_ids_ok s" "sorted_wrt (<) (map cd_id (components s))"
    and sorted: "ids_sorted (sn_entities baseline)" "ids_sorted (sn_entities current)"
    and ents: "\<forall>b \<in> set (sn_entities baseline). entity_ok b"
    and fit: "counts_fit s baseline current" and room: "delta_room wl n"
    and bt: "tick_raw bt \<noteq> 0" "sn_tick baseline = bt"
  shows "apply_delta_snapshot blake3 s baseline (take n out') wl l =
    (if length (sn_entities current) > max_total_entities_after_apply l then
       Inl (CodecLimitsExceeded TotalEntitiesAfterApply (max_total_entities_after_apply l)
         (length (sn_entities current)))
     else Inr \<lparr>sn_tick = tick,
       sn_entities = delta_target s (sn_entities baseline) (sn_entities current)\<rparr>)"
proof -
  let ?bs = "sn_entities baseline" and ?cs = "sn_entities current"
  note ord = diff_updates_ordered [OF us s(3)]
  have "length (destroyed ?bs ?cs) \<le> length ?bs" "length (created ?bs ?cs) \<le> length ?cs"
    unfolding destroyed_def created_def by (rule length_filter_le)+
  then have small: "length (map es_id (destroyed ?bs ?cs)) < 2 ^ 32" "length (created ?bs ?cs) < 2 ^ 32"
      "update_entry_count us < 2 ^ 32"
    using fit diff_updates_sizes [OF us] by (simp_all add: counts_fit_def)
  have "\<forall>u \<in> set us. update_ordered u" "nonempty_updates us = us" using ord by (auto intro: filter_True)
  from change_packet_decodes [OF enc s(1,2) this(1) small room bt(1)] this(2) obtain p where
    p: "decode_packet (take n out') wl = Inr p"
    and h: "wp_header p = header_delta_snapshot (schema_hash blake3 s) (tick_raw tick) (tick_raw bt)
      (ph_payload_len (wp_header p))"
    and d: "decode_delta_sections s p l =
      Inr (map es_id (destroyed ?bs ?cs), map (canonical_entity s) (created ?bs ?cs), us)" by auto
  note hf = header_delta_fields [OF h bt(1)]
  with bt(2) have "ph_baseline_tick (wp_header p) = tick_raw (sn_tick baseline)" by simp
  note applied = apply_decoded [OF _ _ this sorted us d s(1) ents]
  show ?thesis unfolding apply_delta_snapshot_def p by (simp add: applied hf)
qed

end
