(* ===== verification/Unordered_Updates.thy ===== *)
theory Unordered_Updates
  imports Change_Packets
begin

text \<open>
  The order of the entries of a bit-packed sparse section: the encoders write the updates they are given,
  the decoder insists that the component ids of an entity and the field indices of a component increase.
  So whatever limits a receiver has, a packet that it decodes had ordered updates.  The scanning encoder
  is covered by the change encoder: its section is the one of the updates that the scan finds.
\<close>

section \<open>What a receiver that decodes an entry has checked\<close>

lemma listed_fields_checked:
  "try_fold (write_update_field c (field_index_bits c)) fs w = Inr w' \<Longrightarrow> component_ok c \<Longrightarrow>
    (\<forall>f \<in> set fs. fst f < length (cd_fields c)) \<Longrightarrow> holds d w' \<Longrightarrow>
    read_sparse_fields read_index_packed c (length fs) prev (reader_at d (bw_pos w)) = Inr r \<Longrightarrow>
    sorted_wrt (<) (map fst fs) \<and> (\<forall>p f. prev = Some p \<longrightarrow> f \<in> set fs \<longrightarrow> p < fst f)"
proof (induction fs arbitrary: w prev r)
  case (Cons f fs)
  obtain i v where f: "f = (i, v)" by (cases f)
  from Cons.prems(1) obtain w1 w2 where w1: "write_index_packed c i w = Inr w1"
    and w2: "write_field_value (cd_id c) (cd_fields c ! i) v w1 = Inr w2"
    and rest: "try_fold (write_update_field c (field_index_bits c)) fs w2 = Inr w'"
    by (auto simp: f write_update_field_packed elim!: and_then_E)
  have h2: "holds d w2" using Cons.prems(4) update_fields_extend [OF rest] by (rule holds_extends)
  have h1: "holds d w1" using h2 write_field_value_extends [OF w2] by (rule holds_extends)
  have i: "i < length (cd_fields c)" using Cons.prems(3) f by simp
  have "codec_ok (fd_codec (cd_fields c ! i))"
    using Cons.prems(2) i by (simp add: component_ok_def list_all_length)
  note rd = packed.index_read [OF w1 i component_fields_bound [OF Cons.prems(2)] h1]
    read_field_value_written [OF w2 this h2]
  from Cons.prems(5) rd i f obtain r' where prev: "\<And>p. prev = Some p \<Longrightarrow> p < i"
    and tail: "read_sparse_fields read_index_packed c (length fs) (Some i) (reader_at d (bw_pos w2)) = Inr r'"
    by (cases prev) (auto simp: read_field_value_sparse_eq not_le res_simps split: if_splits)
  have "sorted_wrt (<) (map fst fs) \<and> (\<forall>p g. Some i = Some p \<longrightarrow> g \<in> set fs \<longrightarrow> p < fst g)"
    using Cons.prems(2-4) by (intro Cons.IH [OF rest _ _ _ tail]) auto
  with prev f show ?case by (auto dest!: bspec intro: less_trans)
qed simp

lemma update_entry_checked:
  assumes wr: "write_update_component s (build_component_lookup s) eid u w = Inr w'"
    and s: "schema_ok s" "schema_ids_ok s" and u: "update_known s l u" and few: "length (uc_fields u) < 2 ^ 32"
    and d: "holds d w'"
    and dec: "decode_sparse_loop read_head_packed read_index_packed s l' (Suc n) pe pc acc (reader_at d (bw_pos w)) =
      Inr r"
  shows "check_entry_order pe pc eid (component_id_get (uc_id u)) = Inr ()"
    and "sorted_wrt (<) (map fst (uc_fields u))"
    and "decode_sparse_loop read_head_packed read_index_packed s l' n (Some eid)
      (Some (component_id_get (uc_id u))) (push_update eid u acc) (reader_at d (bw_pos w')) = Inr r"
proof -
  from u obtain c where c: "find (\<lambda>c. cd_id c = uc_id u) (components s) = Some c"
    by (auto simp: update_known_def)
  from wr obtain w1 where w1: "write_head_packed eid (cd_id c) (length (uc_fields u)) w = Inr w1"
    and rest: "try_fold (write_update_field c (field_index_bits c)) (uc_fields u) w1 = Inr w'"
    unfolding write_update_component_parts [OF s(1) c] by (rule and_then_E)
  have mem: "c \<in> set (components s)" and cid: "cd_id c = uc_id u" using c by (auto simp: find_Some_iff)
  then have ok: "component_ok c" "component_id_get (cd_id c) \<noteq> 0"
    using s by (auto simp: schema_ok_def schema_ids_ok_def list_all_iff)
  have fs: "\<forall>f \<in> set (uc_fields u). fst f < length (cd_fields c)" using u c by (auto simp: update_known_def)
  from packed.head_read [OF w1 holds_extends [OF d update_fields_extend [OF rest]] few] obtain r1 where
    r1: "read_head_packed (reader_at d (bw_pos w)) = Inr ((eid, component_id_get (cd_id c)), r1)"
      "read_varu32 r1 = Inr (of_nat (length (uc_fields u)), reader_at d (bw_pos w1))"
    by blast
  have "component_id_new (component_id_get (cd_id c)) = Some (cd_id c)"
    using ok(2) by (cases "cd_id c") (simp add: component_id_new_def)
  with dec r1 c cid few obtain fds r2 where order: "check_entry_order pe pc eid (component_id_get (uc_id u)) = Inr ()"
    and read: "read_sparse_fields read_index_packed c (length (uc_fields u)) None (reader_at d (bw_pos w1)) = Inr (fds, r2)"
    and next': "decode_sparse_loop read_head_packed read_index_packed s l' n (Some eid)
      (Some (component_id_get (uc_id u))) (push_update eid \<lparr>uc_id = uc_id u, uc_fields = fds\<rparr> acc) r2 = Inr r"
    by (auto simp: Let_def unat_of_nat_u32 res_simps)
  show "check_entry_order pe pc eid (component_id_get (uc_id u)) = Inr ()" by (rule order)
  show sorted: "sorted_wrt (<) (map fst (uc_fields u))"
    using listed_fields_checked [OF rest ok(1) fs d read] by simp
  have "read_sparse_fields read_index_packed c (length (uc_fields u)) None (reader_at d (bw_pos w1)) =
      Inr (uc_fields u, reader_at d (bw_pos w'))"
    using ok fs sorted d by (intro listed_fields_written [OF rest]) simp_all
  with read next' show "decode_sparse_loop read_head_packed read_index_packed s l' n (Some eid)
      (Some (component_id_get (uc_id u))) (push_update eid u acc) (reader_at d (bw_pos w')) = Inr r"
    by (cases u) simp
qed

lemma update_components_checked:
  "try_fold (write_update_component s (build_component_lookup s) eid) us w = Inr w' \<Longrightarrow>
    schema_ok s \<Longrightarrow> schema_ids_ok s \<Longrightarrow>
    (\<forall>u \<in> set us. update_known s l u \<and> length (uc_fields u) < 2 ^ 32) \<Longrightarrow> holds d w' \<Longrightarrow>
    decode_sparse_loop read_head_packed read_index_packed s l' (length us + k) pe pc acc (reader_at d (bw_pos w)) =
      Inr r \<Longrightarrow>
    sorted_wrt (<) (map uc_id us) \<and> (\<forall>u \<in> set us. sorted_wrt (<) (map fst (uc_fields u))) \<and>
    (\<forall>q. pe = Some eid \<longrightarrow> pc = Some q \<longrightarrow> (\<forall>u \<in> set us. q < component_id_get (uc_id u))) \<and>
    (\<exists>pe' pc' acc'. decode_sparse_loop read_head_packed read_index_packed s l' k pe' pc' acc'
      (reader_at d (bw_pos w')) = Inr r)"
proof (induction us arbitrary: w pe pc acc)
  case Nil
  then show ?case by auto
next
  case (Cons u us)
  from Cons.prems(1) obtain w1 where w1: "write_update_component s (build_component_lookup s) eid u w = Inr w1"
    and rest: "try_fold (write_update_component s (build_component_lookup s) eid) us w1 = Inr w'"
    by (auto elim: and_then_E)
  have "extends w1 w'" using rest by (rule try_fold_extends [rotated]) (rule write_update_component_extends)
  with Cons.prems(5) have h1: "holds d w1" by (rule holds_extends)
  note one = update_entry_checked [OF w1 Cons.prems(2,3) _ _ h1, of l l' "length us + k" pe pc acc r]
  let ?raw = "component_id_get (uc_id u)"
  have checked: "check_entry_order pe pc eid ?raw = Inr ()" "sorted_wrt (<) (map fst (uc_fields u))"
    and next': "decode_sparse_loop read_head_packed read_index_packed s l' (length us + k) (Some eid) (Some ?raw)
      (push_update eid u acc) (reader_at d (bw_pos w1)) = Inr r"
    using one Cons.prems(4,6) by simp_all
  from Cons.IH [OF rest Cons.prems(2,3) _ Cons.prems(5) next'] Cons.prems(4)
  have IH: "sorted_wrt (<) (map uc_id us)" "\<forall>u \<in> set us. sorted_wrt (<) (map fst (uc_fields u))"
    "\<forall>v \<in> set us. ?raw < component_id_get (uc_id v)"
    "\<exists>pe' pc' acc'. decode_sparse_loop read_head_packed read_index_packed s l' k pe' pc' acc'
      (reader_at d (bw_pos w')) = Inr r" by simp_all
  have "\<forall>q. pe = Some eid \<longrightarrow> pc = Some q \<longrightarrow> q < ?raw" using checked(1) by (auto simp: check_entry_order_Inr)
  moreover have "\<forall>v \<in> set us. uc_id u < uc_id v" using IH(3) by (simp add: less_component_id_def)
  ultimately show ?case using IH checked(2) by (auto intro: less_trans)
qed

lemma updates_checked:
  "try_fold (write_update_entity s (build_component_lookup s)) us w = Inr w' \<Longrightarrow>
    schema_ok s \<Longrightarrow> schema_ids_ok s \<Longrightarrow>
    (\<forall>u \<in> set us. \<forall>c \<in> set (ue_components u). update_known s l c \<and> length (uc_fields c) < 2 ^ 32) \<Longrightarrow> holds d w' \<Longrightarrow>
    decode_sparse_loop read_head_packed read_index_packed s l' (update_entry_count us) pe pc acc
      (reader_at d (bw_pos w)) = Inr r \<Longrightarrow>
    \<forall>u \<in> set us. update_ordered u"
proof (induction us arbitrary: w pe pc acc)
  case (Cons u us)
  from Cons.prems(1) obtain w1 where w1: "write_update_entity s (build_component_lookup s) u w = Inr w1"
    and rest: "try_fold (write_update_entity s (build_component_lookup s)) us w1 = Inr w'"
    by (auto elim: and_then_E)
  have h1: "holds d w1" using Cons.prems(5) body_writerD [OF write_updates_writer rest] by (rule holds_extends)
  have count: "update_entry_count (u # us) = length (ue_components u) + update_entry_count us"
    by (simp add: update_entry_count_def)
  have "\<forall>c \<in> set (ue_components u). update_known s l c \<and> length (uc_fields c) < 2 ^ 32" using Cons.prems(4) by simp
  from update_components_checked [OF w1 [unfolded write_update_entity_def] Cons.prems(2,3) this h1 Cons.prems(6) [unfolded count]]
  obtain pe' pc' acc' where "update_ordered u"
    and "decode_sparse_loop read_head_packed read_index_packed s l' (update_entry_count us) pe' pc' acc'
      (reader_at d (bw_pos w1)) = Inr r" by (auto simp: update_ordered_def)
  with Cons.IH [OF rest Cons.prems(2,3) _ Cons.prems(5)] Cons.prems(4) show ?case by auto
qed simp

section \<open>The scanning encoder writes the updates it finds\<close>

lemma picked_below:
  "f \<in> set (picked i m vs) \<Longrightarrow> i \<le> fst f \<and> fst f < i + length vs"
  by (induction i m vs rule: picked.induct) (auto split: if_splits)

lemma sparse_fields_as_list:
  "fs = drop i (cd_fields c) \<Longrightarrow> length m = length fs \<Longrightarrow> length vs = length fs \<Longrightarrow>
    sparse_fields_loop write_index_packed c i fs m vs =
      try_fold (write_update_field c (field_index_bits c)) (picked i m vs)"
proof (induction fs arbitrary: i m vs)
  case (Cons f fs)
  then obtain b m' v vs' where lists: "m = b # m'" "vs = v # vs'" by (metis length_Suc_conv length_Cons)
  have i: "i < length (cd_fields c)" using Cons.prems(1) by (metis drop_all leI list.distinct(1))
  then have "drop i (cd_fields c) = cd_fields c ! i # drop (Suc i) (cd_fields c)"
    by (rule Cons_nth_drop_Suc [symmetric])
  with Cons.prems(1) have f: "fs = drop (Suc i) (cd_fields c)" "cd_fields c ! i = f" by simp_all
  note IH = Cons.IH [OF f(1), of m' vs']
  show ?case using IH Cons.prems(2,3) lists f(2)
    by (intro ext) (simp add: write_update_field_packed and_then_assoc write_field_value_sparse_eq)
qed (simp add: fun_eq_iff)

lemma components_as_list:
  "sparse_components_loop write_head_packed write_index_packed n l base cur cs sc w = Inr (w', sc') \<Longrightarrow>
    set cs \<subseteq> set (components s) \<Longrightarrow> schema_ok s \<Longrightarrow>
    \<exists>ch. entity_changes l base cur cs = Inr ch \<and>
      try_fold (write_update_component s (build_component_lookup s) (entity_raw (es_id cur))) ch w = Inr w' \<and>
      (\<forall>u \<in> set ch. update_known s l u \<and> length (uc_fields u) < 2 ^ 32)"
proof (induction cs arbitrary: sc w)
  case (Cons c cs)
  let ?eid = "entity_raw (es_id cur)"
  from Cons.prems(1) obtain pair where pair: "matched_component c base cur l = Inr pair"
    by (auto elim: and_then_E)
  have c: "c \<in> set (components s)" "set cs \<subseteq> set (components s)" using Cons.prems(2) by simp_all
  note IH = Cons.IH [OF _ c(2) Cons.prems(3)]
  show ?case
  proof (cases pair)
    case None
    with Cons.prems(1) pair IH show ?thesis by (fastforce simp: component_change_def)
  next
    case (Some bc)
    obtain b x where bc: "bc = (b, x)" by (cases bc)
    from Some bc pair have counts: "check_field_counts c b x l = Inr ()" by (simp add: matched_component_Some)
    from Cons.prems(1) pair Some bc obtain m sc1 w1 where
      m: "scratch_field_mask n c b x sc = Inr (m, sc1)"
      and step: "(if count_changed m > 0 then
          and_then (write_head_packed ?eid (cd_id c) (count_changed m) w)
            (sparse_fields_loop write_index_packed c 0 (cd_fields c) m (cs_fields x))
        else Inr w) = Inr w1"
      and rest: "sparse_components_loop write_head_packed write_index_packed n l base cur cs sc1 w1 = Inr (w', sc')"
      by (auto simp: Let_def elim!: and_then_E)
    have mask: "changed_mask c b x = Inr m" by (rule scratch_mask_value [OF counts m])
    from IH [OF rest] obtain ch where ch: "entity_changes l base cur cs = Inr ch"
      "try_fold (write_update_component s (build_component_lookup s) ?eid) ch w1 = Inr w'"
      "\<forall>u \<in> set ch. update_known s l u \<and> length (uc_fields u) < 2 ^ 32" by blast
    show ?thesis
    proof (cases "list_ex (\<lambda>b. b) m")
      case False
      then have "w1 = w" using step count_changed_pos [of m] by simp
      moreover have "component_change l base cur c = Inr None"
        using pair Some bc mask False by (simp add: component_change_def)
      ultimately show ?thesis using ch by auto
    next
      case True
      let ?u = "\<lparr>uc_id = cd_id c, uc_fields = picked 0 m (cs_fields x)\<rparr>"
      have found: "find (\<lambda>x. cd_id x = cd_id c) (components s) = Some c"
        using Cons.prems(3) c(1) by (intro find_by_id) (simp_all add: schema_ok_def)
      have len: "length (cd_fields c) \<le> max_fields_per_component l" "length (cs_fields x) = length (cd_fields c)"
        "length m = length (cd_fields c)"
        using counts changed_mask_length [OF mask] by (simp_all add: check_field_counts_Inr)
      have ok: "component_ok c" using Cons.prems(3) c(1) by (auto simp: schema_ok_def list_all_iff)
      have cnt: "length (picked 0 m (cs_fields x)) = count_changed m" "0 < count_changed m"
        "count_changed m \<le> length (cd_fields c)"
        using len True count_changed_pos [of m] length_filter_le [of "\<lambda>b. b" m]
        by (simp_all add: length_picked) (simp add: count_changed_def)
      have "write_update_component s (build_component_lookup s) ?eid ?u w = Inr w1"
        using step cnt sparse_fields_as_list [of "cd_fields c" 0 c m "cs_fields x"] len
        by (simp add: write_update_component_parts [OF Cons.prems(3), of ?u c] found)
      moreover have "update_known s l ?u \<and> length (uc_fields ?u) < 2 ^ 32"
        using found cnt len picked_below [of _ 0 m "cs_fields x"] component_fields_bound [OF ok]
        by (auto simp: update_known_def)
      moreover have "entity_changes l base cur (c # cs) = Inr (?u # ch)"
        using pair Some bc mask True ch(1) by (simp add: component_change_def)
      ultimately show ?thesis using ch(2,3) by auto
    qed
  qed
qed simp

lemma entities_as_list:
  "sparse_entities_loop write_head_packed write_index_packed s l bs cs sc w = Inr (w', sc') \<Longrightarrow> schema_ok s \<Longrightarrow>
    \<exists>us. diff_updates s l bs cs = Inr us \<and>
      try_fold (write_update_entity s (build_component_lookup s)) us w = Inr w' \<and>
      (\<forall>u \<in> set us. \<forall>c \<in> set (ue_components u). update_known s l c \<and> length (uc_fields c) < 2 ^ 32)"
proof (induction bs cs arbitrary: sc w rule: list_induct_merge)
  case (1 b bs c cs)
  consider "es_id b < es_id c" | "es_id c < es_id b" | "es_id b = es_id c" by (rule linorder_cases)
  then show ?case
  proof cases
    case 1
    with "1.IH"(1) "1.prems" show ?thesis by simp
  next
    case 2
    then have "\<not> es_id b < es_id c" by simp
    with 2 "1.IH"(2) "1.prems" show ?thesis by simp
  next
    case 3
    from 3 "1.prems"(1) obtain updated w1 sc1 where u: "entity_has_updates s b c l = Inr updated"
      and step: "(if updated then
          sparse_components_loop write_head_packed write_index_packed (length (components s)) l b c (components s) sc w
        else Inr (w, sc)) = Inr (w1, sc1)"
      and rest: "sparse_entities_loop write_head_packed write_index_packed s l bs cs sc1 w1 = Inr (w', sc')"
      by (auto elim!: and_then_E)
    from "1.IH"(3) [OF rest "1.prems"(2)] obtain us where us: "diff_updates s l bs cs = Inr us"
      "try_fold (write_update_entity s (build_component_lookup s)) us w1 = Inr w'"
      "\<forall>u \<in> set us. \<forall>c \<in> set (ue_components u). update_known s l c \<and> length (uc_fields c) < 2 ^ 32" by blast
    show ?thesis
    proof (cases updated)
      case False
      with step u us 3 show ?thesis by simp
    next
      case True
      with step have "sparse_components_loop write_head_packed write_index_packed (length (components s)) l b c
          (components s) sc w = Inr (w1, sc1)" by simp
      from components_as_list [OF this subset_refl "1.prems"(2)] obtain ch where
        ch: "entity_changes l b c (components s) = Inr ch"
          "try_fold (write_update_component s (build_component_lookup s) (entity_raw (es_id c))) ch w = Inr w1"
          "\<forall>u \<in> set ch. update_known s l u \<and> length (uc_fields u) < 2 ^ 32" by blast
      let ?u = "\<lparr>ue_id = es_id c, ue_components = ch\<rparr>"
      have "diff_updates s l (b # bs) (c # cs) = Inr (?u # us)" using 3 u True ch(1) us(1) by simp
      moreover have "try_fold (write_update_entity s (build_component_lookup s)) (?u # us) w = Inr w'"
        using ch(2) us(2) by (simp add: write_update_entity_def)
      ultimately show ?thesis using ch(3) us(3) by (intro exI [of _ "?u # us"]) simp
    qed
  qed
qed simp_all

section \<open>The section\<close>

lemma packed_section_checked:
  assumes wr: "section_body (update_entry_count us) ent (writer_new buf) = Inr w'" and bw: "body_writer ent"
    and list: "\<And>w w1. ent w = Inr w1 \<Longrightarrow> try_fold (write_update_entity s (build_component_lookup s)) us w = Inr w1"
    and s: "schema_ok s" "schema_ids_ok s" and n: "update_entry_count us < 2 ^ 32"
    and known: "\<forall>u \<in> set us. \<forall>c \<in> set (ue_components u). update_known s l c \<and> length (uc_fields c) < 2 ^ 32"
    and dec: "decode_update_section_sparse_packed s (written_body w') l' = Inr us'"
  shows "\<forall>u \<in> set us. update_ordered u"
proof -
  let ?d = "written_body w'"
  from wr obtain w1 w2 w3 where w1: "writer_align_to_byte (writer_new buf) = Inr w1"
    and w2: "write_varu32 (of_nat (update_entry_count us)) w1 = Inr w2" and w3: "ent w2 = Inr w3"
    and w4: "writer_align_to_byte w3 = Inr w'"
    by (auto simp: section_body_def res_simps)
  have wok: "writer_ok w'"
    using body_writerD [OF section_body_writer [OF bw] wr] by (rule extends_ok) simp
  have h4: "holds ?d w'" using wok by (rule written_body_holds)
  have h3: "holds ?d w3" using h4 writer_align_extends [OF w4] by (rule holds_extends)
  have h2: "holds ?d w2" using h3 body_writerD [OF bw w3] by (rule holds_extends)
  have h1: "holds ?d w1" using h2 write_varu32_extends [OF w2] by (rule holds_extends)
  have "reader_align_to_byte (reader_new ?d) = Inr (reader_at ?d (bw_pos w1))"
    using reader_align_written [OF w1 h1] by (simp add: reader_new_at writer_new_def)
  with dec read_varu32_written [OF w2 h2] n obtain r where
    "decode_sparse_loop read_head_packed read_index_packed s l' (update_entry_count us) None None []
      (reader_at ?d (bw_pos w2)) = Inr r"
    by (auto simp: decode_update_section_sparse_packed_def decode_update_section_sparse_def read_section_count_def
        Let_def unat_of_nat_u32 res_simps)
  then show ?thesis by (rule updates_checked [OF list [OF w3] s known h3])
qed

section \<open>The sections of a packet\<close>

text \<open>The bytes of a payload determine its sections.\<close>

lemma framed_unique: "framed bs xs \<Longrightarrow> framed bs ys \<Longrightarrow> xs = ys"
proof (induction bs xs arbitrary: ys rule: framed.induct)
  case framed_Nil
  then show ?case by (auto elim: framed.cases)
next
  case (framed_Cons len body rest secs t)
  from framed_Cons.prems obtain t' len' body' rest' secs' where ys: "ys = \<lparr>ws_tag = t', ws_body = body'\<rparr> # secs'"
    and eq: "tag_byte t # len @ body @ rest = tag_byte t' # len' @ body' @ rest'"
    and len': "varint_decode len' = Some (of_nat (length body'), [])" "length body' < 2 ^ 32"
    and rest': "framed rest' secs'"
    by (cases rule: framed.cases) auto
  have "varint_decode (len @ body @ rest) = Some (of_nat (length body), body @ rest)"
    "varint_decode (len' @ body' @ rest') = Some (of_nat (length body'), body' @ rest')"
    using framed_Cons.hyps(1) len'(1) by (simp_all add: varint_decode_append)
  with eq have n: "(of_nat (length body) :: u32) = of_nat (length body')" and tail: "body @ rest = body' @ rest'"
    by simp_all
  from n have "length body = length body'" using framed_Cons.hyps(2) len'(2) by (metis unat_of_nat_u32)
  with tail have "body = body'" "rest = rest'" by simp_all
  moreover have "t = t'" using eq by (cases t; cases t') simp_all
  ultimately show ?case using framed_Cons.IH rest' ys by simp
qed

lemma decoded_sections:
  assumes "decode_packet (header_bytes h @ concat (map section_bytes secs)) wl = Inr p"
    and "list_all (\<lambda>sec. length (ws_body sec) < 2 ^ 32) secs"
  shows "wp_sections p = secs"
proof -
  have "framed (concat (map section_bytes secs)) (wp_sections p)"
    using assms(1) unfolding decode_packet_iff by (simp add: HEADER_SIZE_eq)
  then show ?thesis using framed_section_bytes [OF assms(2)] by (rule framed_unique)
qed

lemma packed_section_decoded:
  "try_fold (delta_section s l) secs acc = Inr acc' \<Longrightarrow>
    \<lparr>ws_tag = EntityUpdateSparsePacked, ws_body = body\<rparr> \<in> set secs \<Longrightarrow>
    \<exists>us. decode_update_section_sparse_packed s body l = Inr us"
proof (induction secs arbitrary: acc)
  case (Cons sec secs)
  then show ?case
    by (auto simp: delta_section_def once_only_def elim!: and_then_E split: if_splits)
qed simp

lemma packed_delta_decoded:
  assumes "decode_delta_sections s p l = Inr dd"
    and "\<lparr>ws_tag = EntityUpdateSparsePacked, ws_body = body\<rparr> \<in> set (wp_sections p)"
  shows "\<exists>us. decode_update_section_sparse_packed s body l = Inr us"
  using assms packed_section_decoded [of s l "wp_sections p" _ _ body]
  by (auto simp: decode_delta_sections_def elim!: and_then_E split: if_splits)

lemma append_if_sections:
  assumes "append_section_if k tag l f st = Some (Inr st')" and "body_writer f" and "sections_written n secs st"
  obtains more where "sections_written n (secs @ more) st'"
    and "k > 0 \<Longrightarrow> \<exists>w buf. f (writer_new buf) = Inr w \<and> more = [\<lparr>ws_tag = tag, ws_body = written_body w\<rparr>]"
proof (cases "k > 0")
  case True
  with assms(1) have "append_section tag l f st = Some (Inr st')" by (simp add: append_section_if_def)
  from append_section_written [OF this assms(2,3)] that show thesis by blast
next
  case False
  with assms(1,3) show thesis by (intro that [of "[]"]) (simp_all add: append_section_if_def)
qed

text \<open>A packet of the change encoder, whatever digest and limits the receiver has.\<close>

theorem change_packet_checked:
  assumes enc: "encode_delta_snapshot_from_updates blake3 s tick bt ds cs us l out = Some (Inr (n, out'))"
    and s: "schema_ok s" "schema_ids_ok s" and n: "update_entry_count us < 2 ^ 32"
    and few: "\<forall>u \<in> set us. \<forall>c \<in> set (ue_components u). length (uc_fields c) < 2 ^ 32"
    and p: "decode_packet (take n out') wl = Inr p" and dec: "decode_delta_sections s p l' = Inr dd"
  shows "\<forall>u \<in> set us. update_ordered u"
proof (cases "us = []")
  case False
  from enc obtain k payload where len: "HEADER_SIZE \<le> length out"
    and pl: "encode_delta_payload_from_updates s ds cs us l (drop HEADER_SIZE out) = Some (Inr (k, payload))"
    and f: "finish_delta_packet blake3 s tick bt out k payload = Inr (n, out')"
    by (auto simp: encode_delta_snapshot_from_updates_def try_then_Inr if_Some_Inl_Inr not_less)
  let ?h = "header_delta_snapshot (schema_hash blake3 s) (tick_raw tick) (tick_raw bt) (of_nat k)"
  let ?body = "encode_update_body_sparse_packed_from_updates s us l (build_component_lookup s)"
  have "length (take HEADER_SIZE out) = 28" using len by (simp add: HEADER_SIZE_eq)
  from encode_header_exact [OF this] f have "n = HEADER_SIZE + k" "out' = header_bytes ?h @ payload"
    by (simp_all add: finish_delta_packet_def Let_def)
  then have out': "take n out' = header_bytes ?h @ take k payload" by (simp add: HEADER_SIZE_eq)
  from pl obtain st st' where valid: "validate_updates_for_encoding s us l (build_component_lookup s) = Inr ()"
    and d: "append_section_if (length ds) EntityDestroy l (encode_destroy_body_from_list ds l)
      (0, drop HEADER_SIZE out) = Some (Inr st)"
    and c: "append_section_if (length cs) EntityCreate l (encode_create_body_from_list s cs l) st = Some (Inr st')"
    and u: "append_section_if (length us) EntityUpdateSparsePacked l ?body st' = Some (Inr (k, payload))"
    by (auto simp: encode_delta_payload_from_updates_def Let_def try_then_Inr if_Some_Inl_Inr)
  have "sections_written (length out - HEADER_SIZE) [] (0, drop HEADER_SIZE out)" by (simp add: sections_written_def)
  from append_if_sections [OF d change_bodies_writer(1) this] obtain secs1 where
    "sections_written (length out - HEADER_SIZE) secs1 st" by auto
  from append_if_sections [OF c change_bodies_writer(2) this] obtain secs2 where
    s2: "sections_written (length out - HEADER_SIZE) secs2 st'" by blast
  from append_if_sections [OF u change_bodies_writer(3) s2] False obtain w buf where w: "?body (writer_new buf) = Inr w"
    and secs: "sections_written (length out - HEADER_SIZE)
      (secs2 @ [\<lparr>ws_tag = EntityUpdateSparsePacked, ws_body = written_body w\<rparr>]) (k, payload)"
    by (metis length_greater_0_conv)
  let ?secs = "secs2 @ [\<lparr>ws_tag = EntityUpdateSparsePacked, ws_body = written_body w\<rparr>]"
  have "wp_sections p = ?secs"
    using p secs unfolding out' by (intro decoded_sections) (simp_all add: sections_written_def)
  then have "\<lparr>ws_tag = EntityUpdateSparsePacked, ws_body = written_body w\<rparr> \<in> set (wp_sections p)" by simp
  from packed_delta_decoded [OF dec this] obtain us' where
    body: "decode_update_section_sparse_packed s (written_body w) l' = Inr us'" ..
  from w have "section_body (update_entry_count us) (try_fold (write_update_entity s (build_component_lookup s)) us)
      (writer_new buf) = Inr w" by (simp add: update_body_frame split: if_splits)
  moreover have "\<forall>u \<in> set us. \<forall>c \<in> set (ue_components u). update_known s l c \<and> length (uc_fields c) < 2 ^ 32"
    using valid few by (simp add: validate_updates_Inr [OF s(1)])
  ultimately show ?thesis
    by (intro packed_section_checked [OF _ write_updates_writer _ s n _ body, where buf = buf and l = l]) simp_all
qed simp

text \<open>A packet of the scanning encoder for clients, which always writes the sparse section.\<close>

theorem client_packet_checked:
  assumes enc: "encode_delta_snapshot_with_scratch_mode blake3 s tick bt baseline current l sc out SparseMode =
      Some (Inr (n, out'))"
    and s: "schema_ok s" "schema_ids_ok s" and fit: "counts_fit s baseline current"
    and us: "diff_updates s l (sn_entities baseline) (sn_entities current) = Inr us"
    and p: "decode_packet (take n out') wl = Inr p" and dec: "decode_delta_sections s p l' = Inr dd"
  shows "\<forall>u \<in> set us. update_ordered u"
proof -
  from enc obtain k payload where pl: "encode_delta_payload_with_mode s bt baseline current l sc (drop HEADER_SIZE out)
      SparseMode = Some (Inr (k, payload))"
    and n: "n = HEADER_SIZE + k" and o: "out' = header_bytes (header_delta_snapshot (schema_hash blake3 s)
      (tick_raw tick) (tick_raw bt) (of_nat k)) @ payload"
    by (rule delta_packet_bytes)
  let ?h = "header_delta_snapshot (schema_hash blake3 s) (tick_raw tick) (tick_raw bt) (of_nat k)"
  have out': "take n out' = header_bytes ?h @ take k payload" by (simp add: n o HEADER_SIZE_eq)
  let ?body = "\<lambda>m w. map_ok fst (encode_update_body_sparse_packed s baseline current m l sc w)"
  from pl obtain counts :: diff_counts and st st' where
    sorted: "ids_sorted (sn_entities baseline)" "ids_sorted (sn_entities current)"
    and counts: "diff_counts_of s baseline current l diff_counts_default = Inr counts"
    and d: "append_section_if (dc_destroys counts) EntityDestroy l
      (encode_destroy_body baseline current (dc_destroys counts) l) (0, drop HEADER_SIZE out) = Some (Inr st)"
    and c: "append_section_if (dc_creates counts) EntityCreate l
         (delta_encode_create_body s baseline current (dc_creates counts) l) st = Some (Inr st')"
    and u0: "(if dc_updates counts > 0 then append_updates s baseline current (dc_updates counts) l sc SparseMode st'
       else Some (Inr st')) = Some (Inr (k, payload))"
    by (auto simp: encode_delta_payload_with_mode_def try_then_Inr if_Some_Inl_Inr ensure_entities_sorted_Inr)
  from u0 have u: "append_section_if (dc_updates counts) EntityUpdateSparsePacked l (?body (dc_updates counts)) st' =
      Some (Inr (k, payload))"
    by (simp add: append_updates_def append_section_if_def split: if_splits)
  show ?thesis
  proof (cases "dc_updates counts > 0")
    case False
    then have "us = []"
      using no_updates_counted counts us by (fastforce simp: diff_counts_of_def diff_counts_default_def)
    then show ?thesis by simp
  next
    case True
    let ?len = "length out - HEADER_SIZE"
    have "sections_written ?len [] (0, drop HEADER_SIZE out)" by (simp add: sections_written_def)
    from append_if_sections [OF d destroy_body_writer [OF sorted] this] obtain secs1 where
      "sections_written ?len secs1 st" by auto
    from append_if_sections [OF c create_body_writer [OF sorted] this] obtain secs2 where
      s2: "sections_written ?len secs2 st'" by blast
    from append_if_sections [OF u packed.body_extends [folded encode_update_body_sparse_packed_def] s2] True
    obtain w buf where w: "?body (dc_updates counts) (writer_new buf) = Inr w"
      and secs: "sections_written ?len
        (secs2 @ [\<lparr>ws_tag = EntityUpdateSparsePacked, ws_body = written_body w\<rparr>]) (k, payload)"
      by metis
    let ?secs = "secs2 @ [\<lparr>ws_tag = EntityUpdateSparsePacked, ws_body = written_body w\<rparr>]"
    have "wp_sections p = ?secs"
      using p secs unfolding out' by (intro decoded_sections) (simp_all add: sections_written_def)
    then have "\<lparr>ws_tag = EntityUpdateSparsePacked, ws_body = written_body w\<rparr> \<in> set (wp_sections p)" by simp
    from packed_delta_decoded [OF dec this] obtain us' where
      body: "decode_update_section_sparse_packed s (written_body w) l' = Inr us'" ..
    let ?ent = "\<lambda>sc1 w. map_ok fst (sparse_entities_loop write_head_packed write_index_packed s l
      (sn_entities baseline) (sn_entities current) sc1 w)"
    from w [unfolded encode_update_body_sparse_packed_def] obtain us1 sc1 where
      "diff_updates s l (sn_entities baseline) (sn_entities current) = Inr us1"
      and "section_body (update_entry_count us1) (?ent sc1) (writer_new buf) = Inr w"
      by (rule packed.body_frame)
    with us have frame: "section_body (update_entry_count us) (?ent sc1) (writer_new buf) = Inr w" by simp
    then obtain w2 w3 where "?ent sc1 w2 = Inr w3" by (auto simp: section_body_def res_simps)
    with entities_as_list [OF _ s(1)] us
    have known: "\<forall>u \<in> set us. \<forall>c \<in> set (ue_components u). update_known s l c \<and> length (uc_fields c) < 2 ^ 32"
      by (fastforce simp: map_ok_Inr_iff)
    have list: "try_fold (write_update_entity s (build_component_lookup s)) us w = Inr w1" if "?ent sc1 w = Inr w1"
      for w w1
      using entities_as_list [OF _ s(1)] us that by (fastforce simp: map_ok_Inr_iff)
    have "body_writer (?ent sc1)" by (auto simp: body_writer_def map_ok_Inr_iff intro: packed.entities_extend)
    moreover have "update_entry_count us < 2 ^ 32" using diff_updates_sizes [OF us] fit by (simp add: counts_fit_def)
    ultimately show ?thesis by (intro packed_section_checked [OF frame _ list s _ known body])
  qed
qed

section \<open>Unordered updates are refused by every receiver\<close>

theorem unordered_changes_refused:
  assumes "encode_delta_snapshot_from_updates blake3 s tick bt ds cs us l out = Some (Inr (n, out'))"
    and "schema_ok s" "schema_ids_ok s" and "update_entry_count us < 2 ^ 32"
    and "\<forall>u \<in> set us. \<forall>c \<in> set (ue_components u). length (uc_fields c) < 2 ^ 32"
    and "u \<in> set us" "\<not> update_ordered u"
  shows "and_then (map_err Wire (decode_packet (take n out') wl)) (\<lambda>p. decode_delta_packet blake3' s p l') \<noteq> Inr dd"
  using change_packet_checked [OF assms(1-5)] assms(6,7)
  by (fastforce simp: decode_delta_packet_def Let_def and_then_Inr_iff map_err_Inr_iff split: if_splits)

theorem unordered_delta_refused:
  assumes "encode_delta_snapshot_with_scratch_mode blake3 s tick bt baseline current l sc out SparseMode =
      Some (Inr (n, out'))"
    and "schema_ok s" "schema_ids_ok s" and "counts_fit s baseline current"
    and "diff_updates s l (sn_entities baseline) (sn_entities current) = Inr us"
    and "u \<in> set us" "\<not> update_ordered u"
  shows "apply_delta_snapshot blake3' s view (take n out') wl l' \<noteq> Inr r"
  using client_packet_checked [OF assms(1-5)] assms(6,7)
  by (fastforce simp: apply_delta_snapshot_def apply_delta_snapshot_from_packet_def Let_def and_then_Inr_iff
      map_err_Inr_iff split: if_splits)

end
