(* ===== verification/Delta_Indexed.thy ===== *)
theory Delta_Indexed
  imports Delta_Roundtrip
begin

text \<open>
  The delta encoder once more, with every slice and index of the scratch buffers and of the field lists
  as an operation that panics out of range (\<^verbatim>\<open>&mut self.component_changed[..components]\<close>,
  \<^verbatim>\<open>field_mask[idx]\<close>, \<^verbatim>\<open>curr_component.fields[idx]\<close>, \<^verbatim>\<open>component_changed[idx]\<close>).  The definitions of
  \<open>Delta_Encode\<close> take these values by matching; here it is shown that no index is out of range, so that
  both are the same function.
\<close>

section \<open>Indices and slices that panic\<close>

definition index_or_panic :: "'a list \<Rightarrow> usize \<Rightarrow> 'a option" where
  "index_or_panic xs i = (if i < length xs then Some (xs ! i) else None)"

definition prefix_or_panic :: "'a list \<Rightarrow> usize \<Rightarrow> 'a list option" where
  "prefix_or_panic xs n = (if n \<le> length xs then Some (take n xs) else None)"

lemma try_then_lift:
  "(\<And>x. m = Inr x \<Longrightarrow> f x = Some (g x)) \<Longrightarrow> try_then (Some m) f = Some (and_then m g)"
  by (cases m) simp_all

lemma try_then_lift_total: "(\<And>x. f x = Some (g x)) \<Longrightarrow> try_then (Some m) f = Some (and_then m g)"
  by (rule try_then_lift)

definition masks_checked :: "usize \<Rightarrow> usize \<Rightarrow> codec_scratch \<Rightarrow> (codec_scratch \<times> bool list \<times> bool list) option" where
  "masks_checked cn fn sc =
    (let sc = ensure_field_capacity fn (ensure_component_capacity cn sc)
     in Option.bind (prefix_or_panic (sc_component_changed sc) cn) (\<lambda>component_changed.
        Option.bind (prefix_or_panic (sc_field_mask sc) fn) (\<lambda>field_mask.
        Some (sc, component_changed, field_mask))))"

lemma masks_checked_total: "masks_checked cn fn sc = Some (component_and_field_masks_mut cn fn sc)"
  by (simp add: masks_checked_def component_and_field_masks_mut_def prefix_or_panic_def Let_def
      ensure_component_capacity_def ensure_field_capacity_def)

definition field_mask_checked ::
  "usize \<Rightarrow> component_def \<Rightarrow> component_snapshot \<Rightarrow> component_snapshot \<Rightarrow> codec_scratch \<Rightarrow>
    (codec_error + bool list \<times> codec_scratch) option" where
  "field_mask_checked component_count component base cur sc =
    Option.bind (masks_checked component_count (length (cd_fields component)) sc) (\<lambda>(sc, _, slots).
    Some (and_then (compute_field_mask_into component base cur slots) (\<lambda>mbits.
      Inr (mbits, store_field_mask mbits sc))))"

lemma field_mask_checked_total: "field_mask_checked n c b x sc = Some (scratch_field_mask n c b x sc)"
  by (simp add: field_mask_checked_def masks_checked_total scratch_field_mask_def split: prod.split)

section \<open>The scans that count and choose\<close>

fun count_components_checked ::
  "usize \<Rightarrow> codec_limits \<Rightarrow> entity_snapshot \<Rightarrow> entity_snapshot \<Rightarrow> component_def list \<Rightarrow>
    usize \<Rightarrow> codec_scratch \<Rightarrow> (codec_error + usize \<times> codec_scratch) option" where
  "count_components_checked component_count limits base cur [] count sc = Some (Inr (count, sc))"
| "count_components_checked component_count limits base cur (component # cs) count sc =
    try_then (Some (matched_component component base cur limits)) (\<lambda>pair.
    case pair of
      Some (b, c) \<Rightarrow>
        try_then (field_mask_checked component_count component b c sc) (\<lambda>(mbits, sc).
        count_components_checked component_count limits base cur cs
          (if list_ex (\<lambda>b. b) mbits then count + 1 else count) sc)
    | None \<Rightarrow> count_components_checked component_count limits base cur cs count sc)"

lemma count_components_total:
  "count_components_checked n l base cur cs count sc = Some (count_components_loop n l base cur cs count sc)"
  by (induction cs arbitrary: count sc)
    (auto simp: field_mask_checked_total intro!: try_then_lift_total split: option.split)

fun count_entities_checked ::
  "schema \<Rightarrow> codec_limits \<Rightarrow> entity_snapshot list \<Rightarrow> entity_snapshot list \<Rightarrow>
    usize \<Rightarrow> codec_scratch \<Rightarrow> (codec_error + usize \<times> codec_scratch) option" where
  "count_entities_checked s limits (base # bs) (cur # cs) count sc =
    (if es_id base < es_id cur then count_entities_checked s limits bs (cur # cs) count sc
     else if es_id base > es_id cur then count_entities_checked s limits (base # bs) cs count sc
     else
       try_then (Some (entity_has_updates s base cur limits)) (\<lambda>updated.
       try_then
         (if updated then
            count_components_checked (length (components s)) limits base cur (components s) count sc
          else Some (Inr (count, sc))) (\<lambda>(count, sc).
         count_entities_checked s limits bs cs count sc)))"
| "count_entities_checked s limits bs cs count sc = Some (Inr (count, sc))"

lemma count_entities_total:
  "count_entities_checked s l bs cs count sc = Some (count_entities_loop s l bs cs count sc)"
proof (induction bs cs arbitrary: count sc rule: list_induct_merge)
  case (1 b bs c cs)
  have "(if updated then count_components_checked (length (components s)) l b c (components s) count sc
      else Some (Inr (count, sc))) = Some (if updated then count_components_loop (length (components s)) l b c (components s) count sc
      else Inr (count, sc))" for updated by (simp add: count_components_total)
  with 1 show ?case by (auto intro!: try_then_lift_total)
qed simp_all

fun select_components_checked ::
  "usize \<Rightarrow> codec_limits \<Rightarrow> entity_snapshot \<Rightarrow> entity_snapshot \<Rightarrow> component_def list \<Rightarrow>
    usize \<Rightarrow> usize \<Rightarrow> codec_scratch \<Rightarrow> (codec_error + usize \<times> usize \<times> codec_scratch) option" where
  "select_components_checked component_count limits base cur [] mask_bits sparse_bits sc =
    Some (Inr (mask_bits, sparse_bits, sc))"
| "select_components_checked component_count limits base cur (component # cs) mask_bits sparse_bits sc =
    try_then (Some (matched_component component base cur limits)) (\<lambda>pair.
    case pair of
      Some (b, c) \<Rightarrow>
        try_then (field_mask_checked component_count component b c sc) (\<lambda>(mbits, sc).
        let changed = count_changed mbits in
        if changed > 0 then
          let field_count = length (cd_fields component);
              index_bits = unat (field_index_bits component);
              mask_bits = mask_bits + field_count;
              sparse_bits = sparse_bits + index_bits * changed
                + delta_varu32_len (entity_raw (es_id cur)) * 8
                + delta_varu32_len (ucast (component_id_get (cd_id component))) * 8
                + delta_varu32_len (of_nat changed) * 8
          in select_components_checked component_count limits base cur cs mask_bits sparse_bits sc
        else select_components_checked component_count limits base cur cs mask_bits sparse_bits sc)
    | None \<Rightarrow> select_components_checked component_count limits base cur cs mask_bits sparse_bits sc)"

lemma select_components_total:
  "select_components_checked n l base cur cs m p sc = Some (select_components_loop n l base cur cs m p sc)"
  by (induction cs arbitrary: m p sc)
    (auto simp: field_mask_checked_total Let_def intro!: try_then_lift_total split: option.split)

fun select_entities_checked ::
  "schema \<Rightarrow> codec_limits \<Rightarrow> entity_snapshot list \<Rightarrow> entity_snapshot list \<Rightarrow>
    usize \<Rightarrow> usize \<Rightarrow> codec_scratch \<Rightarrow> (codec_error + usize \<times> usize \<times> codec_scratch) option" where
  "select_entities_checked s limits (base # bs) (cur # cs) mask_bits sparse_bits sc =
    (if es_id base < es_id cur then
       select_entities_checked s limits bs (cur # cs) mask_bits sparse_bits sc
     else if es_id base > es_id cur then
       select_entities_checked s limits (base # bs) cs mask_bits sparse_bits sc
     else
       try_then (select_components_checked (length (components s)) limits base cur (components s)
           mask_bits sparse_bits sc) (\<lambda>(mask_bits, sparse_bits, sc).
         select_entities_checked s limits bs cs mask_bits sparse_bits sc))"
| "select_entities_checked s limits bs cs mask_bits sparse_bits sc = Some (Inr (mask_bits, sparse_bits, sc))"

lemma select_entities_total:
  "select_entities_checked s l bs cs m p sc = Some (select_entities_loop s l bs cs m p sc)"
  by (induction bs cs arbitrary: m p sc rule: list_induct_merge)
    (auto simp: select_components_total intro!: try_then_lift_total)

definition select_update_encoding_checked ::
  "schema \<Rightarrow> snapshot \<Rightarrow> snapshot \<Rightarrow> codec_limits \<Rightarrow> codec_scratch \<Rightarrow>
    (codec_error + update_encoding \<times> codec_scratch) option" where
  "select_update_encoding_checked s baseline current limits sc =
    try_then (select_entities_checked s limits (sn_entities baseline) (sn_entities current) 0 0 sc)
      (\<lambda>(mask_bits, sparse_bits, sc).
        if mask_bits = 0 then Some (Inr (Masked, sc))
        else if sparse_bits \<le> mask_bits then Some (Inr (Sparse, sc))
        else Some (Inr (Masked, sc)))"

lemma select_update_encoding_total:
  "select_update_encoding_checked s b c l sc = Some (select_update_encoding s b c l sc)"
  by (auto simp: select_update_encoding_checked_def select_update_encoding_def select_entities_total
      intro!: try_then_lift_total)

section \<open>The sparse body\<close>

fun sparse_fields_checked ::
  "(component_def \<Rightarrow> usize \<Rightarrow> bit_writer \<Rightarrow> codec_error + bit_writer) \<Rightarrow> component_def \<Rightarrow> usize \<Rightarrow>
    field_def list \<Rightarrow> bool list \<Rightarrow> field_value list \<Rightarrow> bit_writer \<Rightarrow> (codec_error + bit_writer) option" where
  "sparse_fields_checked write_index component idx [] mbits vs w = Some (Inr w)"
| "sparse_fields_checked write_index component idx (field # fs) mbits vs w =
    Option.bind (index_or_panic mbits idx) (\<lambda>changed.
    if changed then
      try_then (Some (write_index component idx w)) (\<lambda>w.
      Option.bind (index_or_panic vs idx) (\<lambda>v.
      try_then (Some (write_field_value_sparse (cd_id component) field v w)) (\<lambda>w.
      sparse_fields_checked write_index component (Suc idx) fs mbits vs w)))
    else sparse_fields_checked write_index component (Suc idx) fs mbits vs w)"

lemma sparse_fields_total:
  "idx + length fs \<le> length mbits \<Longrightarrow> idx + length fs \<le> length vs \<Longrightarrow>
    sparse_fields_checked write_index c idx fs mbits vs w =
      Some (sparse_fields_loop write_index c idx fs (drop idx mbits) (drop idx vs) w)"
proof (induction fs arbitrary: idx w)
  case (Cons f fs)
  then have i: "idx < length mbits" "idx < length vs" by simp_all
  then have "drop idx mbits = mbits ! idx # drop (Suc idx) mbits" "drop idx vs = vs ! idx # drop (Suc idx) vs"
    by (simp_all add: Cons_nth_drop_Suc)
  with Cons i show ?case by (auto simp: index_or_panic_def intro!: try_then_lift_total)
qed simp

fun sparse_components_checked ::
  "(u32 \<Rightarrow> component_id \<Rightarrow> usize \<Rightarrow> bit_writer \<Rightarrow> codec_error + bit_writer) \<Rightarrow>
    (component_def \<Rightarrow> usize \<Rightarrow> bit_writer \<Rightarrow> codec_error + bit_writer) \<Rightarrow>
    usize \<Rightarrow> codec_limits \<Rightarrow> entity_snapshot \<Rightarrow> entity_snapshot \<Rightarrow> component_def list \<Rightarrow>
    codec_scratch \<Rightarrow> bit_writer \<Rightarrow> (codec_error + bit_writer \<times> codec_scratch) option" where
  "sparse_components_checked write_head write_index component_count limits base cur [] sc w = Some (Inr (w, sc))"
| "sparse_components_checked write_head write_index component_count limits base cur (component # cs) sc w =
    try_then (Some (matched_component component base cur limits)) (\<lambda>pair.
    case pair of
      Some (b, c) \<Rightarrow>
        try_then (field_mask_checked component_count component b c sc) (\<lambda>(mbits, sc).
        let changed_fields = count_changed mbits in
        try_then
          (if changed_fields > 0 then
             try_then (Some (write_head (entity_raw (es_id cur)) (cd_id component) changed_fields w)) (\<lambda>w.
             sparse_fields_checked write_index component 0 (cd_fields component) mbits (cs_fields c) w)
           else Some (Inr w)) (\<lambda>w.
        sparse_components_checked write_head write_index component_count limits base cur cs sc w))
    | None \<Rightarrow>
        sparse_components_checked write_head write_index component_count limits base cur cs sc w)"

text \<open>The two lists have the length that the guard asks for, and the mask that of its slice.\<close>

lemma scratch_field_mask_length:
  "scratch_field_mask n c b x sc = Inr (m, sc') \<Longrightarrow> length m = length (cd_fields c)"
  by (auto simp: scratch_field_mask_def res_simps compute_field_mask_into_def split: prod.splits
      dest!: field_mask_loop_length scratch_slices_length)

lemma sparse_components_total:
  "sparse_components_checked wh wi n l base cur cs sc w = Some (sparse_components_loop wh wi n l base cur cs sc w)"
proof (induction cs arbitrary: sc w)
  case (Cons component cs)
  show ?case unfolding sparse_components_checked.simps sparse_components_loop.simps
  proof (rule try_then_lift)
    fix pair assume pair: "matched_component component base cur l = Inr pair"
    show "(case pair of None \<Rightarrow> sparse_components_checked wh wi n l base cur cs sc w
        | Some (b, c) \<Rightarrow> try_then (field_mask_checked n component b c sc) (\<lambda>(mbits, sc).
            let changed_fields = count_changed mbits in
            try_then (if changed_fields > 0 then
                try_then (Some (wh (entity_raw (es_id cur)) (cd_id component) changed_fields w)) (\<lambda>w.
                sparse_fields_checked wi component 0 (cd_fields component) mbits (cs_fields c) w)
              else Some (Inr w)) (\<lambda>w. sparse_components_checked wh wi n l base cur cs sc w))) =
      Some (case pair of None \<Rightarrow> sparse_components_loop wh wi n l base cur cs sc w
        | Some (b, c) \<Rightarrow> and_then (scratch_field_mask n component b c sc) (\<lambda>(mbits, sc).
            let changed_fields = count_changed mbits in
            and_then (if changed_fields > 0 then
                and_then (wh (entity_raw (es_id cur)) (cd_id component) changed_fields w) (\<lambda>w.
                sparse_fields_loop wi component 0 (cd_fields component) mbits (cs_fields c) w)
              else Inr w) (\<lambda>w. sparse_components_loop wh wi n l base cur cs sc w)))"
    proof (cases pair)
      case (Some bc)
      obtain b c where bc: "bc = (b, c)" by fastforce
      with pair Some have counts: "length (cs_fields c) = length (cd_fields component)"
        by (simp add: matched_component_Some check_field_counts_Inr)
      have "sparse_fields_checked wi component 0 (cd_fields component) m (cs_fields c) w1 =
          Some (sparse_fields_loop wi component 0 (cd_fields component) m (cs_fields c) w1)"
        if "length m = length (cd_fields component)" for m w1
        using sparse_fields_total [of 0 "cd_fields component" m "cs_fields c"] that counts by simp
      then have "try_then (Some (wh (entity_raw (es_id cur)) (cd_id component) k w)) (\<lambda>w.
            sparse_fields_checked wi component 0 (cd_fields component) m (cs_fields c) w) =
          Some (and_then (wh (entity_raw (es_id cur)) (cd_id component) k w) (\<lambda>w.
            sparse_fields_loop wi component 0 (cd_fields component) m (cs_fields c) w))"
        if "length m = length (cd_fields component)" for m k
        using that by (intro try_then_lift_total) simp
      with Some bc Cons.IH show ?thesis
        by (auto simp: field_mask_checked_total Let_def intro!: try_then_lift dest!: scratch_field_mask_length)
    qed (simp add: Cons.IH)
  qed
qed simp

fun sparse_entities_checked ::
  "(u32 \<Rightarrow> component_id \<Rightarrow> usize \<Rightarrow> bit_writer \<Rightarrow> codec_error + bit_writer) \<Rightarrow>
    (component_def \<Rightarrow> usize \<Rightarrow> bit_writer \<Rightarrow> codec_error + bit_writer) \<Rightarrow>
    schema \<Rightarrow> codec_limits \<Rightarrow> entity_snapshot list \<Rightarrow> entity_snapshot list \<Rightarrow>
    codec_scratch \<Rightarrow> bit_writer \<Rightarrow> (codec_error + bit_writer \<times> codec_scratch) option" where
  "sparse_entities_checked write_head write_index s limits (base # bs) (cur # cs) sc w =
    (if es_id base < es_id cur then
       sparse_entities_checked write_head write_index s limits bs (cur # cs) sc w
     else if es_id base > es_id cur then
       sparse_entities_checked write_head write_index s limits (base # bs) cs sc w
     else
       try_then (Some (entity_has_updates s base cur limits)) (\<lambda>updated.
       try_then
         (if updated then
            sparse_components_checked write_head write_index (length (components s)) limits base cur
              (components s) sc w
          else Some (Inr (w, sc))) (\<lambda>(w, sc).
       sparse_entities_checked write_head write_index s limits bs cs sc w)))"
| "sparse_entities_checked write_head write_index s limits bs cs sc w = Some (Inr (w, sc))"

lemma sparse_entities_total:
  "sparse_entities_checked wh wi s l bs cs sc w = Some (sparse_entities_loop wh wi s l bs cs sc w)"
proof (induction bs cs arbitrary: sc w rule: list_induct_merge)
  case (1 b bs c cs)
  have "(if updated then sparse_components_checked wh wi (length (components s)) l b c (components s) sc w
      else Some (Inr (w, sc))) = Some (if updated then sparse_components_loop wh wi (length (components s)) l b c
        (components s) sc w else Inr (w, sc))" for updated by (simp add: sparse_components_total)
  with 1 show ?case by (auto intro!: try_then_lift_total)
qed simp_all

definition encode_update_body_sparse_checked ::
  "(u32 \<Rightarrow> component_id \<Rightarrow> usize \<Rightarrow> bit_writer \<Rightarrow> codec_error + bit_writer) \<Rightarrow>
    (component_def \<Rightarrow> usize \<Rightarrow> bit_writer \<Rightarrow> codec_error + bit_writer) \<Rightarrow>
    schema \<Rightarrow> snapshot \<Rightarrow> snapshot \<Rightarrow> usize \<Rightarrow> codec_limits \<Rightarrow> codec_scratch \<Rightarrow> bit_writer \<Rightarrow>
    (codec_error + bit_writer \<times> codec_scratch) option" where
  "encode_update_body_sparse_checked write_head write_index s baseline current update_count limits sc w =
    (if update_count > max_entities_update limits then
       Some (Inl (CodecLimitsExceeded EntitiesUpdate (max_entities_update limits) update_count))
     else
       try_then (count_entities_checked s limits (sn_entities baseline) (sn_entities current) 0 sc)
         (\<lambda>(entry_count, sc).
       let entry_limit = saturating_mul (max_entities_update limits) (max_components_per_entity limits) in
       if entry_count > entry_limit then
         Some (Inl (CodecLimitsExceeded EntitiesUpdate entry_limit entry_count))
       else
         try_then (Some (lift_bit (writer_align_to_byte w))) (\<lambda>w.
         try_then (Some (lift_bit (write_varu32 (of_nat entry_count) w))) (\<lambda>w.
         try_then (sparse_entities_checked write_head write_index s limits
             (sn_entities baseline) (sn_entities current) sc w) (\<lambda>(w, sc).
         try_then (Some (lift_bit (writer_align_to_byte w))) (\<lambda>w. Some (Inr (w, sc))))))))"

lemma encode_update_body_sparse_total:
  "encode_update_body_sparse_checked wh wi s b c k l sc w = Some (encode_update_body_sparse wh wi s b c k l sc w)"
  by (auto simp: encode_update_body_sparse_checked_def encode_update_body_sparse_def count_entities_total
      count_sparse_update_entries_def sparse_entities_total Let_def intro!: try_then_lift_total)

section \<open>The masked body\<close>

text \<open>\<^verbatim>\<open>component_changed[idx] = true\<close> on the slice, which is a part of the scratch buffer.\<close>

fun changed_bits_checked ::
  "usize \<Rightarrow> codec_limits \<Rightarrow> entity_snapshot \<Rightarrow> entity_snapshot \<Rightarrow> usize \<Rightarrow> component_def list \<Rightarrow>
    codec_scratch \<Rightarrow> bit_writer \<Rightarrow> (codec_error + bit_writer \<times> codec_scratch) option" where
  "changed_bits_checked component_count limits base cur idx [] sc w = Some (Inr (w, sc))"
| "changed_bits_checked component_count limits base cur idx (component # cs) sc w =
    try_then (Some (matched_component component base cur limits)) (\<lambda>pair.
    case pair of
      Some (b, c) \<Rightarrow>
        try_then (field_mask_checked component_count component b c sc) (\<lambda>(mbits, sc).
        let any_changed = list_ex (\<lambda>b. b) mbits in
        try_then (Some (lift_bit (write_bit any_changed w))) (\<lambda>w.
        if any_changed \<and> idx \<ge> component_count then None
        else changed_bits_checked component_count limits base cur (Suc idx) cs
          (if any_changed
           then sc\<lparr>sc_component_changed := (sc_component_changed sc)[idx := True]\<rparr> else sc) w))
    | None \<Rightarrow>
        try_then (Some (lift_bit (write_bit False w))) (\<lambda>w.
        changed_bits_checked component_count limits base cur (Suc idx) cs sc w))"

lemma changed_bits_total:
  "idx + length cs \<le> n \<Longrightarrow>
    changed_bits_checked n l base cur idx cs sc w = Some (changed_bits_loop n l base cur idx cs sc w)"
  by (induction cs arbitrary: idx sc w)
    (auto simp: field_mask_checked_total Let_def intro!: try_then_lift_total split: option.split)

fun changed_fields_checked ::
  "usize \<Rightarrow> codec_limits \<Rightarrow> entity_snapshot \<Rightarrow> entity_snapshot \<Rightarrow> usize \<Rightarrow> component_def list \<Rightarrow>
    codec_scratch \<Rightarrow> bit_writer \<Rightarrow> (codec_error + bit_writer \<times> codec_scratch) option" where
  "changed_fields_checked component_count limits base cur idx [] sc w = Some (Inr (w, sc))"
| "changed_fields_checked component_count limits base cur idx (component # cs) sc w =
    (case (find_component base (cd_id component), find_component cur (cd_id component)) of
       (Some b, Some c) \<Rightarrow>
         if length (cd_fields component) > max_fields_per_component limits then
           Some (Inl (CodecLimitsExceeded FieldsPerComponent (max_fields_per_component limits)
             (length (cd_fields component))))
         else
           Option.bind (masks_checked component_count (length (cd_fields component)) sc)
             (\<lambda>(sc, component_changed, slots).
           Option.bind (index_or_panic component_changed idx) (\<lambda>changed.
           if changed then
             try_then (Some (compute_field_mask_into component b c slots)) (\<lambda>mbits.
             try_then (Some (write_changed_fields component b c mbits w)) (\<lambda>w.
             changed_fields_checked component_count limits base cur (Suc idx) cs
               (store_field_mask mbits sc) w))
           else changed_fields_checked component_count limits base cur (Suc idx) cs sc w))
     | _ \<Rightarrow> changed_fields_checked component_count limits base cur (Suc idx) cs sc w)"

lemma changed_fields_total:
  "idx + length cs \<le> n \<Longrightarrow>
    changed_fields_checked n l base cur idx cs sc w = Some (changed_fields_loop n l base cur idx cs sc w)"
  by (induction cs arbitrary: idx sc w)
    (auto simp: masks_checked_total index_or_panic_def scratch_slices_length Let_def
      intro!: try_then_lift_total split: option.split prod.split)

definition write_update_components_checked ::
  "schema \<Rightarrow> entity_snapshot \<Rightarrow> entity_snapshot \<Rightarrow> codec_limits \<Rightarrow> codec_scratch \<Rightarrow> bit_writer \<Rightarrow>
    (codec_error + bit_writer \<times> codec_scratch) option" where
  "write_update_components_checked s base cur limits sc w =
    (let component_count = length (components s)
     in Option.bind (masks_checked component_count 0 sc) (\<lambda>(sc, component_changed, _).
        let sc = fill_component_changed (length component_changed) sc
        in try_then (changed_bits_checked component_count limits base cur 0 (components s) sc w) (\<lambda>(w, sc).
           changed_fields_checked component_count limits base cur 0 (components s) sc w)))"

lemma write_update_components_total:
  "write_update_components_checked s base cur l sc w = Some (write_update_components s base cur l sc w)"
  by (auto simp: write_update_components_checked_def write_update_components_def masks_checked_total
      changed_bits_total changed_fields_total Let_def intro!: try_then_lift_total split: prod.split)

fun masked_checked ::
  "schema \<Rightarrow> codec_limits \<Rightarrow> entity_snapshot list \<Rightarrow> entity_snapshot list \<Rightarrow> codec_scratch \<Rightarrow>
    bit_writer \<Rightarrow> (codec_error + bit_writer \<times> codec_scratch) option" where
  "masked_checked s limits (b # bs) (c # cs) sc w =
    (if entity_raw (es_id b) < entity_raw (es_id c) then masked_checked s limits bs (c # cs) sc w
     else if entity_raw (es_id b) > entity_raw (es_id c) then masked_checked s limits (b # bs) cs sc w
     else
       try_then (Some (entity_has_updates s b c limits)) (\<lambda>updated.
       try_then
         (if updated then
            try_then (Some (lift_bit (writer_align_to_byte w))) (\<lambda>w.
            try_then (Some (lift_bit (write_u32_aligned (entity_raw (es_id c)) w))) (\<lambda>w.
            try_then (Some (ensure_component_presence_matches s b c)) (\<lambda>_.
            write_update_components_checked s b c limits sc w)))
          else Some (Inr (w, sc))) (\<lambda>(w, sc). masked_checked s limits bs cs sc w)))"
| "masked_checked s limits (b # bs) [] sc w = masked_checked s limits bs [] sc w"
| "masked_checked s limits [] (c # cs) sc w = masked_checked s limits [] cs sc w"
| "masked_checked s limits [] [] sc w = Some (Inr (w, sc))"

lemma masked_total: "masked_checked s l bs cs sc w = Some (masked_loop s l bs cs sc w)"
proof (induction s l bs cs sc w rule: masked_loop.induct)
  case (1 s l b bs c cs sc w)
  have "(if updated then
      try_then (Some (lift_bit (writer_align_to_byte w))) (\<lambda>w.
      try_then (Some (lift_bit (write_u32_aligned (entity_raw (es_id c)) w))) (\<lambda>w.
      try_then (Some (ensure_component_presence_matches s b c)) (\<lambda>_. write_update_components_checked s b c l sc w)))
    else Some (Inr (w, sc))) = Some (if updated then
      and_then (lift_bit (writer_align_to_byte w)) (\<lambda>w.
      and_then (lift_bit (write_u32_aligned (entity_raw (es_id c)) w)) (\<lambda>w.
      and_then (ensure_component_presence_matches s b c) (\<lambda>_. write_update_components s b c l sc w)))
    else Inr (w, sc))" for updated
    by (auto simp: write_update_components_total intro!: try_then_lift_total)
  with 1 show ?case by (auto intro!: try_then_lift)
qed simp_all

definition encode_update_body_masked_checked ::
  "schema \<Rightarrow> snapshot \<Rightarrow> snapshot \<Rightarrow> usize \<Rightarrow> codec_limits \<Rightarrow> codec_scratch \<Rightarrow> bit_writer \<Rightarrow>
    (codec_error + bit_writer \<times> codec_scratch) option" where
  "encode_update_body_masked_checked s baseline current update_count limits sc w =
    (if update_count > max_entities_update limits then
       Some (Inl (CodecLimitsExceeded EntitiesUpdate (max_entities_update limits) update_count))
     else
       try_then (Some (lift_bit (writer_align_to_byte w))) (\<lambda>w.
       try_then (Some (lift_bit (write_varu32 (of_nat update_count) w))) (\<lambda>w.
       try_then (masked_checked s limits (sn_entities baseline) (sn_entities current) sc w) (\<lambda>(w, sc).
       try_then (Some (lift_bit (writer_align_to_byte w))) (\<lambda>w. Some (Inr (w, sc)))))))"

lemma encode_update_body_masked_total:
  "encode_update_body_masked_checked s b c k l sc w = Some (encode_update_body_masked s b c k l sc w)"
  by (auto simp: encode_update_body_masked_checked_def encode_update_body_masked_def masked_total
      intro!: try_then_lift_total)

section \<open>The packet\<close>

text \<open>A section whose body may panic.\<close>

definition append_section_checked ::
  "section_tag \<Rightarrow> codec_limits \<Rightarrow> (bit_writer \<Rightarrow> (codec_error + bit_writer) option) \<Rightarrow> usize \<times> u8 list \<Rightarrow>
    (codec_error + usize \<times> u8 list) option" where
  "append_section_checked tag limits write_body st =
    (let room = drop (1 + VARINT_MAX_BYTES) (drop (fst st) (snd st)) in
     if 1 + VARINT_MAX_BYTES \<le> length (drop (fst st) (snd st)) \<and> write_body (writer_new room) = None then None
     else append_section tag limits (\<lambda>w. the (write_body w)) st)"

definition append_updates_checked ::
  "schema \<Rightarrow> snapshot \<Rightarrow> snapshot \<Rightarrow> usize \<Rightarrow> codec_limits \<Rightarrow> codec_scratch \<Rightarrow> encode_update_mode \<Rightarrow>
    usize \<times> u8 list \<Rightarrow> (codec_error + usize \<times> u8 list) option" where
  "append_updates_checked s baseline current update_count limits sc mode st =
    try_then
      (case mode of
         AutoMode \<Rightarrow> select_update_encoding_checked s baseline current limits sc
       | SparseMode \<Rightarrow> Some (Inr (Sparse, sc))) (\<lambda>(encoding, sc).
    case encoding of
      Masked \<Rightarrow>
        append_section_checked EntityUpdate limits
          (\<lambda>w. map_option (map_ok fst)
            (encode_update_body_masked_checked s baseline current update_count limits sc w)) st
    | Sparse \<Rightarrow>
        append_section_checked EntityUpdateSparsePacked limits
          (\<lambda>w. map_option (map_ok fst) (encode_update_body_sparse_checked write_head_packed write_index_packed
            s baseline current update_count limits sc w)) st)"

lemma append_updates_total:
  "append_updates_checked s b c k l sc mode st = append_updates s b c k l sc mode st"
proof -
  have cong: "try_then m f = try_then m g" if "\<And>x. f x = g x" for m :: "('e + 'x) option" and f g :: "'x \<Rightarrow> ('e + 'y) option"
    using that by (simp add: ext [of f g])
  show ?thesis
    unfolding append_updates_checked_def append_updates_def
    by (cases mode) (auto simp: select_update_encoding_total append_section_checked_def
        encode_update_body_masked_total encode_update_body_sparse_total encode_update_body_sparse_packed_def
        Let_def intro!: cong split: update_encoding.split)
qed

definition encode_delta_payload_checked ::
  "schema \<Rightarrow> snapshot_tick \<Rightarrow> snapshot \<Rightarrow> snapshot \<Rightarrow> codec_limits \<Rightarrow> codec_scratch \<Rightarrow> u8 list \<Rightarrow>
    encode_update_mode \<Rightarrow> (codec_error + usize \<times> u8 list) option" where
  "encode_delta_payload_checked s baseline_tick baseline current limits sc out mode =
    (if sn_tick baseline \<noteq> baseline_tick then
       Some (Inl (BaselineTickMismatch (tick_raw (sn_tick baseline)) (tick_raw baseline_tick)))
     else
     try_then (Some (ensure_entities_sorted (sn_entities baseline))) (\<lambda>_.
     try_then (Some (ensure_entities_sorted (sn_entities current))) (\<lambda>_.
     try_then (Some (diff_counts_of s baseline current limits diff_counts_default)) (\<lambda>counts.
     if dc_creates counts > max_entities_create limits then
       Some (Inl (CodecLimitsExceeded EntitiesCreate (max_entities_create limits) (dc_creates counts)))
     else if dc_updates counts > max_entities_update limits then
       Some (Inl (CodecLimitsExceeded EntitiesUpdate (max_entities_update limits) (dc_updates counts)))
     else if dc_destroys counts > max_entities_destroy limits then
       Some (Inl (CodecLimitsExceeded EntitiesDestroy (max_entities_destroy limits) (dc_destroys counts)))
     else
     try_then (append_section_if (dc_destroys counts) EntityDestroy limits
         (encode_destroy_body baseline current (dc_destroys counts) limits) (0, out)) (\<lambda>st.
     try_then (append_section_if (dc_creates counts) EntityCreate limits
         (delta_encode_create_body s baseline current (dc_creates counts) limits) st) (\<lambda>st.
     if dc_updates counts > 0
     then append_updates_checked s baseline current (dc_updates counts) limits sc mode st
     else Some (Inr st)))))))"

definition encode_delta_snapshot_checked ::
  "(u8 list \<Rightarrow> u8 list) \<Rightarrow> schema \<Rightarrow> snapshot_tick \<Rightarrow> snapshot_tick \<Rightarrow> snapshot \<Rightarrow> snapshot \<Rightarrow>
    codec_limits \<Rightarrow> codec_scratch \<Rightarrow> u8 list \<Rightarrow> encode_update_mode \<Rightarrow>
    (codec_error + usize \<times> u8 list) option" where
  "encode_delta_snapshot_checked blake3 s tick baseline_tick baseline current limits sc out mode =
    (if length out < HEADER_SIZE then Some (Inl (OutputTooSmall HEADER_SIZE (length out)))
     else
       try_then (encode_delta_payload_checked s baseline_tick baseline current limits sc
           (drop HEADER_SIZE out) mode) (\<lambda>(payload_len, payload).
       Some (finish_delta_packet blake3 s tick baseline_tick out payload_len payload)))"

theorem encode_delta_checked_same:
  "encode_delta_snapshot_checked blake3 s tick bt baseline current l sc out mode =
    encode_delta_snapshot_with_scratch_mode blake3 s tick bt baseline current l sc out mode"
  unfolding encode_delta_snapshot_checked_def encode_delta_snapshot_with_scratch_mode_def
      encode_delta_payload_checked_def encode_delta_payload_with_mode_def append_updates_total by (rule refl)

end
