(* ===== verification/Replication_Graph.thy ===== *)
theory Replication_Graph
  imports Codec_Types Delta_Decode "HOL-Library.Finite_Map"
begin

text \<open>
  The replication graph (\<^verbatim>\<open>repgraph/src/lib.rs\<close>): which entities a client is told about, from the
  spatial relevance of the tracked entities, the client's known entities and the pending removals.  A
  \<^verbatim>\<open>BTreeMap\<close> is a finite map that is iterated in key order (\<^const>\<open>sorted_list_of_fmap\<close>), a
  \<^verbatim>\<open>BTreeSet\<close> a set iterated with \<^const>\<open>sorted_list_of_set\<close>; the client table, whose order the code
  never uses, is a map.  The arithmetic of \<^verbatim>\<open>f32\<close> is a parameter: nothing proved here depends on how
  it rounds.
\<close>

section \<open>Positions and configuration\<close>

record 'f f32_ops =
  f_sub :: "'f \<Rightarrow> 'f \<Rightarrow> 'f"
  f_mul :: "'f \<Rightarrow> 'f \<Rightarrow> 'f"
  f_add :: "'f \<Rightarrow> 'f \<Rightarrow> 'f"
  f_le :: "'f \<Rightarrow> 'f \<Rightarrow> bool"

datatype client_id = ClientId u32

record 'f vec3 =
  v_x :: 'f
  v_y :: 'f
  v_z :: 'f

definition distance_sq :: "'f f32_ops \<Rightarrow> 'f vec3 \<Rightarrow> 'f vec3 \<Rightarrow> 'f" where
  "distance_sq ops self other =
    (let dx = f_sub ops (v_x self) (v_x other);
         dy = f_sub ops (v_y self) (v_y other);
         dz = f_sub ops (v_z self) (v_z other)
     in f_add ops (f_add ops (f_mul ops dx dx) (f_mul ops dy dy)) (f_mul ops dz dz))"

record client_budget =
  max_creates :: usize
  max_updates :: usize
  max_destroys :: usize

definition budget_unlimited :: client_budget where
  "budget_unlimited = \<lparr>max_creates = usize_max, max_updates = usize_max, max_destroys = usize_max\<rparr>"

record 'f client_view =
  vw_position :: "'f vec3"
  vw_radius :: 'f
  vw_budget :: client_budget

definition client_view_new :: "'f vec3 \<Rightarrow> 'f \<Rightarrow> 'f client_view" where
  "client_view_new position radius =
    \<lparr>vw_position = position, vw_radius = radius, vw_budget = budget_unlimited\<rparr>"

record replication_config =
  max_entities :: usize

definition replication_config_default :: replication_config where
  "replication_config_default = \<lparr>max_entities = 1000000\<rparr>"

record client_delta =
  cd_creates :: "entity_snapshot list"
  cd_destroys :: "entity_id list"
  cd_updates :: "delta_update_entity list"

definition client_delta_is_empty :: "client_delta \<Rightarrow> bool" where
  "client_delta_is_empty d \<longleftrightarrow> cd_creates d = [] \<and> cd_destroys d = [] \<and> cd_updates d = []"

text \<open>The \<^verbatim>\<open>WorldView\<close> trait: the application builds the payloads.\<close>

record world_view =
  wv_snapshot :: "entity_id \<Rightarrow> entity_snapshot"
  wv_update :: "entity_id \<Rightarrow> component_id list \<Rightarrow> delta_update_entity option"

section \<open>The graph\<close>

record 'f entity_entry =
  en_position :: "'f vec3"
  en_priority :: u8
  en_dirty :: "component_id list"

record 'f client_state =
  ct_view :: "'f client_view"
  ct_known :: "entity_id set"

record 'f replication_graph =
  rg_config :: replication_config
  rg_entities :: "(entity_id, 'f entity_entry) fmap"
  rg_removed :: "entity_id set"
  rg_clients :: "client_id \<rightharpoonup> 'f client_state"

definition graph_new :: "replication_config \<Rightarrow> 'f replication_graph" where
  "graph_new config =
    \<lparr>rg_config = config, rg_entities = fmempty, rg_removed = {}, rg_clients = Map.empty\<rparr>"

fun push_unique_components :: "component_id list \<Rightarrow> component_id list \<Rightarrow> component_id list" where
  "push_unique_components target [] = target"
| "push_unique_components target (component # cs) =
    push_unique_components (if component \<in> set target then target else target @ [component]) cs"

definition graph_update_entity ::
  "entity_id \<Rightarrow> 'f vec3 \<Rightarrow> component_id list \<Rightarrow> 'f replication_graph \<Rightarrow> 'f replication_graph" where
  "graph_update_entity entity position dirty g =
    (if length (sorted_list_of_fmap (rg_entities g)) \<ge> max_entities (rg_config g) \<and>
        fmlookup (rg_entities g) entity = None then g
     else
       let entry = (case fmlookup (rg_entities g) entity of
             None \<Rightarrow> \<lparr>en_position = position, en_priority = 0, en_dirty = []\<rparr>
           | Some entry \<Rightarrow> entry);
           entry = entry\<lparr>en_position := position,
             en_dirty := push_unique_components (en_dirty entry) dirty\<rparr>
       in g\<lparr>rg_entities := fmupd entity entry (rg_entities g)\<rparr>)"

definition graph_set_entity_priority ::
  "entity_id \<Rightarrow> u8 \<Rightarrow> 'f replication_graph \<Rightarrow> 'f replication_graph" where
  "graph_set_entity_priority entity priority g =
    (case fmlookup (rg_entities g) entity of
       Some entry \<Rightarrow> g\<lparr>rg_entities := fmupd entity (entry\<lparr>en_priority := priority\<rparr>) (rg_entities g)\<rparr>
     | None \<Rightarrow> g)"

definition graph_remove_entity :: "entity_id \<Rightarrow> 'f replication_graph \<Rightarrow> 'f replication_graph" where
  "graph_remove_entity entity g =
    g\<lparr>rg_entities := fmdrop entity (rg_entities g), rg_removed := insert entity (rg_removed g)\<rparr>"

definition graph_upsert_client ::
  "client_id \<Rightarrow> 'f client_view \<Rightarrow> 'f replication_graph \<Rightarrow> 'f replication_graph" where
  "graph_upsert_client client view g =
    g\<lparr>rg_clients := (rg_clients g)(client \<mapsto> (case rg_clients g client of
       Some state \<Rightarrow> state\<lparr>ct_view := view\<rparr>
     | None \<Rightarrow> \<lparr>ct_view = view, ct_known = {}\<rparr>))\<rparr>"

definition graph_remove_client :: "client_id \<Rightarrow> 'f replication_graph \<Rightarrow> 'f replication_graph" where
  "graph_remove_client client g = g\<lparr>rg_clients := (rg_clients g)(client := None)\<rparr>"

definition graph_clear_dirty :: "'f replication_graph \<Rightarrow> 'f replication_graph" where
  "graph_clear_dirty g = g\<lparr>rg_entities := fmmap (\<lambda>entry. entry\<lparr>en_dirty := []\<rparr>) (rg_entities g)\<rparr>"

definition graph_clear_removed :: "'f replication_graph \<Rightarrow> 'f replication_graph" where
  "graph_clear_removed g = g\<lparr>rg_removed := {}\<rparr>"

section \<open>The delta of a client\<close>

text \<open>The first loop: \<^verbatim>\<open>relevant\<close>, in key order; \<^verbatim>\<open>relevant_set\<close> holds the same ids.\<close>

definition relevant_entities ::
  "'f f32_ops \<Rightarrow> 'f client_view \<Rightarrow> (entity_id, 'f entity_entry) fmap \<Rightarrow> entity_id list" where
  "relevant_entities ops view entities =
    (let radius_sq = f_mul ops (vw_radius view) (vw_radius view) in
     map fst (filter (\<lambda>(i, entry).
       f_le ops (distance_sq ops (en_position entry) (vw_position view)) radius_sq)
       (sorted_list_of_fmap entities)))"

text \<open>The second loop, with the two vectors it pushes to.\<close>

fun collect_changes ::
  "world_view \<Rightarrow> (entity_id, 'f entity_entry) fmap \<Rightarrow> entity_id set \<Rightarrow> entity_id list \<Rightarrow>
    entity_snapshot list \<Rightarrow> delta_update_entity list \<Rightarrow> entity_snapshot list \<times> delta_update_entity list" where
  "collect_changes world entities known [] creates updates = (creates, updates)"
| "collect_changes world entities known (i # rest) creates updates =
    (if i \<notin> known then collect_changes world entities known rest (creates @ [wv_snapshot world i]) updates
     else
       collect_changes world entities known rest creates
         (case fmlookup entities i of
            Some entry \<Rightarrow>
              if en_dirty entry \<noteq> [] then
                (case wv_update world i (en_dirty entry) of
                   Some update \<Rightarrow> updates @ [update]
                 | None \<Rightarrow> updates)
              else updates
          | None \<Rightarrow> updates))"

text \<open>The two loops that push the destroyed ids, each id once.\<close>

fun push_irrelevant :: "entity_id set \<Rightarrow> entity_id list \<Rightarrow> entity_id list \<times> entity_id set \<Rightarrow>
    entity_id list \<times> entity_id set" where
  "push_irrelevant relevant [] st = st"
| "push_irrelevant relevant (i # rest) (destroys, destroys_set) =
    push_irrelevant relevant rest
      (if i \<notin> relevant then (destroys @ [i], insert i destroys_set) else (destroys, destroys_set))"

fun push_removed :: "entity_id set \<Rightarrow> entity_id list \<Rightarrow> entity_id list \<times> entity_id set \<Rightarrow>
    entity_id list \<times> entity_id set" where
  "push_removed known [] st = st"
| "push_removed known (i # rest) (destroys, destroys_set) =
    push_removed known rest
      (if i \<in> known \<and> i \<notin> destroys_set then (destroys @ [i], insert i destroys_set)
       else (destroys, destroys_set))"

definition collect_destroys :: "entity_id set \<Rightarrow> entity_id set \<Rightarrow> entity_id set \<Rightarrow> entity_id list" where
  "collect_destroys relevant known removed =
    (let (destroys, destroys_set) = push_irrelevant relevant (sorted_list_of_set known) ([], {});
         (destroys, destroys_set) = push_removed known (sorted_list_of_set removed) (destroys, destroys_set)
     in sort_key entity_raw destroys)"

definition apply_budget ::
  "entity_snapshot list \<Rightarrow> delta_update_entity list \<Rightarrow> entity_id list \<Rightarrow> client_budget \<Rightarrow>
    entity_snapshot list \<times> delta_update_entity list \<times> entity_id list" where
  "apply_budget creates updates destroys budget =
    (let creates = (if length creates > max_creates budget then take (max_creates budget) creates else creates);
         updates = (if length updates > max_updates budget then take (max_updates budget) updates else updates);
         destroys = (if length destroys > max_destroys budget then take (max_destroys budget) destroys
                     else destroys)
     in (creates, updates, destroys))"

definition build_client_delta ::
  "'f f32_ops \<Rightarrow> client_id \<Rightarrow> world_view \<Rightarrow> 'f replication_graph \<Rightarrow> client_delta \<times> 'f replication_graph" where
  "build_client_delta ops client world g =
    (case rg_clients g client of
       None \<Rightarrow> (\<lparr>cd_creates = [], cd_destroys = [], cd_updates = []\<rparr>, g)
     | Some state \<Rightarrow>
         let relevant = relevant_entities ops (ct_view state) (rg_entities g);
             (creates, updates) = collect_changes world (rg_entities g) (ct_known state) relevant [] [];
             destroys = collect_destroys (set relevant) (ct_known state) (rg_removed g);
             (creates, updates, destroys) = apply_budget creates updates destroys (vw_budget (ct_view state));
             known = ct_known state - set destroys;
             known = known \<union> es_id ` set creates
         in (\<lparr>cd_creates = creates, cd_destroys = destroys, cd_updates = updates\<rparr>,
             g\<lparr>rg_clients := (rg_clients g)(client \<mapsto> state\<lparr>ct_known := known\<rparr>)\<rparr>))"

end
