(* ===== verification/Graph_Delta.thy ===== *)
theory Graph_Delta
  imports Replication_Graph Delta_Apply Change_Packets
begin

text \<open>
  What \<^const>\<open>build_client_delta\<close> computes: its lists in closed form, the order that the change encoder
  asks for, and that a receiver whose entities are the client's known entities can apply them.
\<close>

section \<open>The lists in closed form\<close>

definition entity_relevant :: "'f f32_ops \<Rightarrow> 'f client_view \<Rightarrow> 'f entity_entry \<Rightarrow> bool" where
  "entity_relevant ops view entry \<longleftrightarrow> f_le ops (distance_sq ops (en_position entry) (vw_position view))
    (f_mul ops (vw_radius view) (vw_radius view))"

definition relevant_ids :: "'f f32_ops \<Rightarrow> 'f client_view \<Rightarrow> (entity_id, 'f entity_entry) fmap \<Rightarrow> entity_id set" where
  "relevant_ids ops view entities =
    {i. \<exists>entry. fmlookup entities i = Some entry \<and> entity_relevant ops view entry}"

lemma relevant_entities_filter:
  "relevant_entities ops view entities =
    filter (\<lambda>i. entity_relevant ops view (the (fmlookup entities i))) (sorted_list_of_fset (fmdom entities))"
  by (simp add: relevant_entities_def sorted_list_of_fmap_def filter_map comp_def entity_relevant_def)

lemma sorted_keys [simp]: "sorted_wrt (<) (sorted_list_of_fset A)"
  by (simp add: sorted_list_of_fset.rep_eq strict_sorted_iff)

lemma relevant_entities_sorted: "sorted_wrt (<) (relevant_entities ops view entities)"
  by (simp add: relevant_entities_filter sorted_wrt_filter)

lemma set_relevant_entities: "set (relevant_entities ops view entities) = relevant_ids ops view entities"
  by (auto simp: relevant_entities_filter relevant_ids_def fmlookup_dom_iff)

lemma relevant_tracked: "relevant_ids ops view entities \<subseteq> fset (fmdom entities)"
  by (auto simp: relevant_ids_def fmlookup_dom_iff)

definition dirty_update ::
  "world_view \<Rightarrow> (entity_id, 'f entity_entry) fmap \<Rightarrow> entity_id \<Rightarrow> delta_update_entity option" where
  "dirty_update world entities i =
    (case fmlookup entities i of
       Some entry \<Rightarrow> if en_dirty entry \<noteq> [] then wv_update world i (en_dirty entry) else None
     | None \<Rightarrow> None)"

lemma collect_changes_lists:
  "collect_changes world entities known ids creates updates =
    (creates @ map (wv_snapshot world) (filter (\<lambda>i. i \<notin> known) ids),
     updates @ List.map_filter (dirty_update world entities) (filter (\<lambda>i. i \<in> known) ids))"
  by (induction world entities known ids creates updates rule: collect_changes.induct)
    (auto simp: dirty_update_def split: option.splits)

lemma push_irrelevant_lists:
  "push_irrelevant relevant ids (ds, S) =
    (ds @ filter (\<lambda>i. i \<notin> relevant) ids, S \<union> {i \<in> set ids. i \<notin> relevant})"
  by (induction ids arbitrary: ds S) auto

lemma push_removed_lists:
  "distinct ids \<Longrightarrow> push_removed known ids (ds, S) =
    (ds @ filter (\<lambda>i. i \<in> known \<and> i \<notin> S) ids, S \<union> (set ids \<inter> known))"
proof (induction ids arbitrary: ds S)
  case (Cons i ids)
  then have "filter (\<lambda>j. j \<in> known \<and> j \<noteq> i \<and> j \<notin> S) ids = filter (\<lambda>j. j \<in> known \<and> j \<notin> S) ids"
    by (intro filter_cong) auto
  with Cons show ?case by auto
qed simp

lemma sort_key_raw: "sort_key entity_raw ids = sort ids"
proof -
  have "insort_key entity_raw i ids = insort i ids" for i ids
    by (induction ids) (simp_all add: less_eq_entity_id_def)
  then show ?thesis by (induction ids) simp_all
qed

lemma collect_destroys_list:
  assumes "finite known" and "finite removed"
  shows "collect_destroys relevant known removed =
    sorted_list_of_set (known - relevant \<union> (removed \<inter> known))"
proof -
  let ?k = "sorted_list_of_set known" and ?r = "sorted_list_of_set removed"
  define S where "S = {i \<in> set ?k. i \<notin> relevant}"
  define ds where "ds = filter (\<lambda>i. i \<notin> relevant) ?k @ filter (\<lambda>i. i \<in> known \<and> i \<notin> S) ?r"
  have "collect_destroys relevant known removed = sort ds"
    by (simp add: collect_destroys_def push_irrelevant_lists push_removed_lists sort_key_raw ds_def S_def)
  moreover have "distinct ds" by (auto simp: ds_def S_def)
  moreover have "set ds = known - relevant \<union> (removed \<inter> known)" using assms by (auto simp: ds_def S_def)
  ultimately show ?thesis
    by (metis distinct_remdups_id sorted_list_of_set_sort_remdups)
qed

lemma apply_budget_take:
  "apply_budget creates updates destroys budget =
    (take (max_creates budget) creates, take (max_updates budget) updates, take (max_destroys budget) destroys)"
  by (simp add: apply_budget_def Let_def)

text \<open>The three lists before the budget cuts them.\<close>

definition wanted_creates :: "entity_id set \<Rightarrow> entity_id list \<Rightarrow> entity_id list" where
  "wanted_creates known relevant = filter (\<lambda>i. i \<notin> known) relevant"

definition wanted_updates ::
  "world_view \<Rightarrow> (entity_id, 'f entity_entry) fmap \<Rightarrow> entity_id set \<Rightarrow> entity_id list \<Rightarrow> delta_update_entity list" where
  "wanted_updates world entities known relevant =
    List.map_filter (dirty_update world entities) (filter (\<lambda>i. i \<in> known) relevant)"

definition wanted_destroys :: "entity_id set \<Rightarrow> entity_id set \<Rightarrow> entity_id set \<Rightarrow> entity_id list" where
  "wanted_destroys known relevant removed = sorted_list_of_set (known - relevant \<union> (removed \<inter> known))"

lemmas wanted_defs = wanted_creates_def wanted_updates_def wanted_destroys_def

lemma build_client_delta_lists:
  fixes ops :: "'f f32_ops" and world :: world_view
  assumes "rg_clients g client = Some state" and "finite (ct_known state)" and "finite (rg_removed g)"
  defines "rel \<equiv> relevant_entities ops (ct_view state) (rg_entities g)" and "b \<equiv> vw_budget (ct_view state)"
  defines "cs \<equiv> take (max_creates b) (map (wv_snapshot world) (wanted_creates (ct_known state) rel))"
    and "us \<equiv> take (max_updates b) (wanted_updates world (rg_entities g) (ct_known state) rel)"
    and "ds \<equiv> take (max_destroys b) (wanted_destroys (ct_known state) (set rel) (rg_removed g))"
  shows "build_client_delta ops client world g =
    (\<lparr>cd_creates = cs, cd_destroys = ds, cd_updates = us\<rparr>,
     g\<lparr>rg_clients := (rg_clients g)(client \<mapsto>
       state\<lparr>ct_known := ct_known state - set ds \<union> es_id ` set cs\<rparr>)\<rparr>)"
  by (simp add: build_client_delta_def assms collect_changes_lists collect_destroys_list apply_budget_take
      wanted_defs Let_def)

lemma build_unknown_client:
  "rg_clients g client = None \<Longrightarrow> build_client_delta ops client world g =
    (\<lparr>cd_creates = [], cd_destroys = [], cd_updates = []\<rparr>, g)"
  by (simp add: build_client_delta_def)

section \<open>The contract of the world view\<close>

text \<open>
  The payloads carry the id they were asked for, on the entities that the application tracks.
\<close>

locale world_contract =
  fixes world :: world_view and tracked :: "entity_id set"
  assumes snapshot_id: "i \<in> tracked \<Longrightarrow> es_id (wv_snapshot world i) = i"
    and update_id: "i \<in> tracked \<Longrightarrow> wv_update world i cs = Some u \<Longrightarrow> ue_id u = i"
begin

lemma snapshot_ids: "set ids \<subseteq> tracked \<Longrightarrow> map es_id (map (wv_snapshot world) ids) = ids"
  by (induction ids) (simp_all add: snapshot_id)

lemma snapshots_sorted:
  assumes "set ids \<subseteq> tracked" and "sorted_wrt (<) ids"
  shows "ids_sorted (map (wv_snapshot world) ids)"
  using assms by (simp only: snapshot_ids)

lemma dirty_update_id: "i \<in> tracked \<Longrightarrow> dirty_update world entities i = Some u \<Longrightarrow> ue_id u = i"
  by (auto simp: dirty_update_def update_id split: option.splits if_splits)

lemma dirty_updates_ids:
  assumes "set ids \<subseteq> tracked"
  shows "map ue_id (List.map_filter (dirty_update world entities) ids) =
    filter (\<lambda>i. dirty_update world entities i \<noteq> None) ids"
  using assms by (induction ids) (auto simp: dirty_update_id split: option.splits)

lemma wanted_update_ids:
  assumes "set rel \<subseteq> tracked" and "sorted_wrt (<) rel"
  shows "sorted_wrt (<) (map ue_id (wanted_updates world entities known rel))"
    and "ue_id ` set (wanted_updates world entities known rel) \<subseteq> known \<inter> set rel"
proof -
  have "set (filter (\<lambda>i. i \<in> known) rel) \<subseteq> tracked" using assms by auto
  from dirty_updates_ids [OF this, of entities] have ids: "map ue_id (wanted_updates world entities known rel) =
      filter (\<lambda>i. dirty_update world entities i \<noteq> None) (filter (\<lambda>i. i \<in> known) rel)"
    by (simp add: wanted_updates_def)
  show "sorted_wrt (<) (map ue_id (wanted_updates world entities known rel))"
    unfolding ids by (intro sorted_wrt_filter assms)
  from arg_cong [OF ids, of set] show "ue_id ` set (wanted_updates world entities known rel) \<subseteq> known \<inter> set rel"
    by auto
qed

end

section \<open>The delta of a known client\<close>

lemma sorted_wrt_take: "sorted_wrt P xs \<Longrightarrow> sorted_wrt P (take n xs)"
  using sorted_wrt_append [of P "take n xs" "drop n xs"] by simp

lemma image_set_take_subset: "f ` set (take n xs) \<subseteq> f ` set xs"
  by (intro image_mono set_take_subset)

definition client_finite :: "'f replication_graph \<Rightarrow> client_id \<Rightarrow> bool" where
  "client_finite g client \<longleftrightarrow> finite (rg_removed g) \<and>
    (\<forall>state. rg_clients g client = Some state \<longrightarrow> finite (ct_known state))"

text \<open>Everything that the properties below need of one delta.\<close>

lemma client_delta_parts:
  assumes build: "build_client_delta ops client world g = (d, g')" and client: "rg_clients g client = Some state"
    and fin: "client_finite g client" and world: "world_contract world (fset (fmdom (rg_entities g)))"
  defines "rel \<equiv> relevant_ids ops (ct_view state) (rg_entities g)" and "b \<equiv> vw_budget (ct_view state)"
  obtains cs where "set cs \<subseteq> rel - ct_known state" and "sorted_wrt (<) cs"
    and "cs = take (max_creates b) (filter (\<lambda>i. i \<notin> ct_known state)
      (relevant_entities ops (ct_view state) (rg_entities g)))"
    and "map es_id (cd_creates d) = cs" and "cd_creates d = map (wv_snapshot world) cs"
    and "sorted_wrt (<) (cd_destroys d)"
    and "cd_destroys d = take (max_destroys b) (wanted_destroys (ct_known state) rel (rg_removed g))"
    and "set (cd_destroys d) \<subseteq> ct_known state - rel \<union> (rg_removed g \<inter> ct_known state)"
    and "sorted_wrt (<) (map ue_id (cd_updates d))" and "ue_id ` set (cd_updates d) \<subseteq> ct_known state \<inter> rel"
    and "g' = g\<lparr>rg_clients := (rg_clients g)(client \<mapsto>
      state\<lparr>ct_known := ct_known state - set (cd_destroys d) \<union> set cs\<rparr>)\<rparr>"
proof -
  let ?rel = "relevant_entities ops (ct_view state) (rg_entities g)"
  let ?cs = "take (max_creates b) (wanted_creates (ct_known state) ?rel)"
  let ?us = "wanted_updates world (rg_entities g) (ct_known state) ?rel"
  have tracked: "set ?rel \<subseteq> fset (fmdom (rg_entities g))"
    unfolding set_relevant_entities by (rule relevant_tracked)
  have "set ?cs \<subseteq> fset (fmdom (rg_entities g))"
    using tracked set_take_subset [of "max_creates b" "wanted_creates (ct_known state) ?rel"]
    by (auto simp: wanted_creates_def)
  note cs = world_contract.snapshot_ids [OF world this]
  have fin': "finite (ct_known state)" "finite (rg_removed g)" using fin client by (simp_all add: client_finite_def)
  note lists = build_client_delta_lists [where ops = ops and world = world, OF client fin', folded b_def]
  have d: "cd_creates d = map (wv_snapshot world) ?cs" "cd_updates d = take (max_updates b) ?us"
      "cd_destroys d = take (max_destroys b) (wanted_destroys (ct_known state) rel (rg_removed g))"
    using build unfolding lists by (auto simp: take_map rel_def set_relevant_entities)
  show thesis
  proof (rule that [of ?cs])
    show "map es_id (cd_creates d) = ?cs" unfolding d by (rule cs)
    have "es_id ` set (cd_creates d) = set ?cs" using cs unfolding d by (metis set_map)
    then show "g' = g\<lparr>rg_clients := (rg_clients g)(client \<mapsto>
        state\<lparr>ct_known := ct_known state - set (cd_destroys d) \<union> set ?cs\<rparr>)\<rparr>"
      using build d unfolding lists by (auto simp: take_map set_relevant_entities rel_def)
    show "set ?cs \<subseteq> rel - ct_known state"
      using set_take_subset [of "max_creates b" "wanted_creates (ct_known state) ?rel"]
      by (auto simp: wanted_creates_def rel_def set_relevant_entities)
    show "sorted_wrt (<) ?cs" unfolding wanted_creates_def
      by (intro sorted_wrt_take sorted_wrt_filter relevant_entities_sorted)
    show "sorted_wrt (<) (cd_destroys d)" unfolding d wanted_destroys_def
      by (intro sorted_wrt_take) simp
    show "set (cd_destroys d) \<subseteq> ct_known state - rel \<union> (rg_removed g \<inter> ct_known state)"
      using set_take_subset fin' unfolding d wanted_destroys_def by fastforce
    show "sorted_wrt (<) (map ue_id (cd_updates d))" unfolding d take_map [symmetric]
      by (intro sorted_wrt_take world_contract.wanted_update_ids(1) [OF world tracked relevant_entities_sorted])
    show "ue_id ` set (cd_updates d) \<subseteq> ct_known state \<inter> rel"
      using world_contract.wanted_update_ids(2) [OF world tracked relevant_entities_sorted]
        image_set_take_subset unfolding d rel_def set_relevant_entities by (metis subset_trans)
  qed (simp_all add: d wanted_creates_def)
qed

section \<open>The receiver\<close>

text \<open>
  A receiver whose entities are the known ones can apply the delta, unless an entity that is pending
  removal is relevant again: then it is destroyed and updated in one delta.
\<close>

lemma client_delta_applies:
  assumes build: "build_client_delta ops client world g = (d, g')" and client: "rg_clients g client = Some state"
    and fin: "client_finite g client" and world: "world_contract world (fset (fmdom (rg_entities g)))"
    and view: "ids_sorted es" "es_id ` set es = ct_known state"
    and created: "map es_id creates = map es_id (cd_creates d)"
    and fresh: "rg_removed g \<inter> ct_known state \<inter> relevant_ids ops (ct_view state) (rg_entities g) = {}"
  obtains es' where "and_then (apply_destroys es (cd_destroys d)) (\<lambda>rs. apply_creates rs creates) = Inr es'"
    and "ids_sorted es'" and "map_option ct_known (rg_clients g' client) = Some (es_id ` set es')"
    and "ue_id ` set (cd_updates d) \<subseteq> es_id ` set es'"
proof -
  let ?rel = "relevant_ids ops (ct_view state) (rg_entities g)"
  obtain cs where cs: "set cs \<subseteq> ?rel - ct_known state" "sorted_wrt (<) cs" "map es_id (cd_creates d) = cs"
    and ds: "sorted_wrt (<) (cd_destroys d)"
      "set (cd_destroys d) \<subseteq> ct_known state - ?rel \<union> (rg_removed g \<inter> ct_known state)"
    and us: "ue_id ` set (cd_updates d) \<subseteq> ct_known state \<inter> ?rel"
    and g': "g' = g\<lparr>rg_clients := (rg_clients g)(client \<mapsto>
      state\<lparr>ct_known := ct_known state - set (cd_destroys d) \<union> set cs\<rparr>)\<rparr>"
    by (rule client_delta_parts [OF build client fin world])
  let ?rs = "filter (\<lambda>e. es_id e \<notin> set (cd_destroys d)) es"
  have rs: "apply_destroys es (cd_destroys d) = Inr ?rs"
    using ds view fresh by (subst apply_destroys_iff) auto
  have sorted: "ids_sorted ?rs" "ids_sorted creates"
    using view cs created by (simp_all add: ids_sorted_filter)
  have new: "es_id ` set creates = set cs" using cs(3) created by (metis set_map)
  then have "es_id ` set ?rs \<inter> es_id ` set creates = {}" using cs(1) view by auto
  with apply_creates_complete [OF sorted] obtain es' where
    es': "apply_creates ?rs creates = Inr es'" by auto
  with apply_creates_iff [OF sorted] have res: "ids_sorted es'" "set es' = set ?rs \<union> set creates" by auto
  have ids: "es_id ` set es' = ct_known state - set (cd_destroys d) \<union> set cs"
    using view unfolding res(2) image_Un new by auto
  show thesis
  proof (rule that [of es'])
    show "ue_id ` set (cd_updates d) \<subseteq> es_id ` set es'" using us ds(2) fresh unfolding ids by blast
  qed (simp_all add: rs es' res(1) ids g')
qed

text \<open>The same over the wire: the change encoder's packet is decoded and applied.\<close>

lemma client_delta_delivered:
  assumes build: "build_client_delta ops client world g = (d, g')" and client: "rg_clients g client = Some state"
    and fin: "client_finite g client" and world: "world_contract world (fset (fmdom (rg_entities g)))"
    and enc: "encode_delta_snapshot_from_updates blake3 s tick bt (cd_destroys d) (cd_creates d) (cd_updates d) l out =
      Some (Inr (n, out'))"
    and s: "schema_ok s" "schema_ids_ok s" and ord: "\<forall>u \<in> set (cd_updates d). update_ordered u"
    and small: "length (cd_destroys d) < 2 ^ 32" "length (cd_creates d) < 2 ^ 32"
      "update_entry_count (cd_updates d) < 2 ^ 32"
    and room: "delta_room wl n" "tick_raw bt \<noteq> 0"
    and view: "ids_sorted es" "es_id ` set es = ct_known state"
    and fresh: "rg_removed g \<inter> ct_known state \<inter> relevant_ids ops (ct_view state) (rg_entities g) = {}"
  obtains dd es' where "and_then (map_err Wire (decode_packet (take n out') wl))
      (\<lambda>p. decode_delta_packet blake3 s p l) = Inr dd"
    and "and_then (apply_destroys es (dd_destroys dd)) (\<lambda>rs. apply_creates rs (dd_creates dd)) = Inr es'"
    and "ids_sorted es'" and "map_option ct_known (rg_clients g' client) = Some (es_id ` set es')"
    and "ue_id ` set (dd_updates dd) \<subseteq> es_id ` set es'"
proof -
  have "map es_id (map (canonical_entity s) (cd_creates d)) = map es_id (cd_creates d)"
    by (simp add: canonical_entity_id)
  from client_delta_applies [OF build client fin world view this fresh] obtain es' where
    "and_then (apply_destroys es (cd_destroys d)) (\<lambda>rs. apply_creates rs (map (canonical_entity s) (cd_creates d))) =
      Inr es'"
    and "ids_sorted es'" "map_option ct_known (rg_clients g' client) = Some (es_id ` set es')"
    and "ue_id ` set (cd_updates d) \<subseteq> es_id ` set es'" by blast
  with change_lists_decode [OF enc s ord small room] show thesis by (intro that) auto
qed

end
