(* ===== verification/Graph_Steps.thy ===== *)
theory Graph_Steps
  imports Graph_Delta
begin

text \<open>
  The replication graph over time: the invariant that every operation keeps, stated over the graphs
  that a program can reach; and a client that is served tick after tick, whose known entities become
  the relevant ones whatever its budget.
\<close>

section \<open>Reachable graphs\<close>

inductive graph_step :: "'f f32_ops \<Rightarrow> 'f replication_graph \<Rightarrow> 'f replication_graph \<Rightarrow> bool" for ops where
  step_update: "graph_step ops g (graph_update_entity entity position dirty g)"
| step_priority: "graph_step ops g (graph_set_entity_priority entity priority g)"
| step_remove: "graph_step ops g (graph_remove_entity entity g)"
| step_upsert: "graph_step ops g (graph_upsert_client client view g)"
| step_leave: "graph_step ops g (graph_remove_client client g)"
| step_build: "build_client_delta ops client world g = (d, g') \<Longrightarrow> graph_step ops g g'"
| step_clear_dirty: "graph_step ops g (graph_clear_dirty g)"
| step_clear_removed: "graph_step ops g (graph_clear_removed g)"

text \<open>
  Never more entities than configured, no component twice in a dirty list, and finitely many ids in
  every set.
\<close>

definition graph_ok :: "'f replication_graph \<Rightarrow> bool" where
  "graph_ok g \<longleftrightarrow> card (fmdom' (rg_entities g)) \<le> max_entities (rg_config g) \<and>
    (\<forall>i entry. fmlookup (rg_entities g) i = Some entry \<longrightarrow> distinct (en_dirty entry)) \<and>
    (\<forall>client. client_finite g client)"

lemma graph_new_ok: "graph_ok (graph_new config)"
  by (simp add: graph_ok_def graph_new_def client_finite_def)

lemma entity_count: "length (sorted_list_of_fmap m) = card (fmdom' m)"
  by (simp add: sorted_list_of_fmap_def sorted_list_of_fset.rep_eq fmdom'_alt_def)

lemma push_unique_components_distinct:
  "distinct target \<Longrightarrow> distinct (push_unique_components target cs)"
  by (induction target cs rule: push_unique_components.induct) simp_all

lemma push_unique_components_set: "set (push_unique_components target cs) = set target \<union> set cs"
  by (induction target cs rule: push_unique_components.induct) auto

lemma update_known_key:
  "fmlookup m k = Some v \<Longrightarrow> card (fmdom' (fmupd k v' m)) = card (fmdom' m)"
  by (simp add: insert_absorb fmdom'I)

lemma graph_update_entity_ok:
  assumes "graph_ok g"
  shows "graph_ok (graph_update_entity entity position dirty g)"
proof (cases "fmlookup (rg_entities g) entity")
  case None
  then have "entity \<notin> fmdom' (rg_entities g)" by (simp add: fmdom'_notI)
  with None assms show ?thesis
    by (auto simp: graph_update_entity_def graph_ok_def client_finite_def entity_count not_le
        push_unique_components_distinct)
next
  case (Some entry)
  with assms update_known_key [OF Some] show ?thesis
    by (auto simp: graph_update_entity_def graph_ok_def client_finite_def
        push_unique_components_distinct simp del: fmdom'_fmupd)
qed

lemma graph_set_entity_priority_ok:
  assumes "graph_ok g"
  shows "graph_ok (graph_set_entity_priority entity priority g)"
proof (cases "fmlookup (rg_entities g) entity")
  case (Some entry)
  with assms update_known_key [OF Some] show ?thesis
    by (auto simp: graph_set_entity_priority_def graph_ok_def client_finite_def simp del: fmdom'_fmupd)
qed (simp add: graph_set_entity_priority_def assms)

lemma graph_remove_entity_ok: "graph_ok g \<Longrightarrow> graph_ok (graph_remove_entity entity g)"
  using card_Diff1_le [of "fmdom' (rg_entities g)" entity]
  by (auto simp: graph_remove_entity_def graph_ok_def client_finite_def)

lemma graph_clear_dirty_ok: "graph_ok g \<Longrightarrow> graph_ok (graph_clear_dirty g)"
  by (auto simp: graph_clear_dirty_def graph_ok_def client_finite_def)

lemma build_client_delta_frame:
  assumes "build_client_delta ops client world g = (d, g')"
  shows "rg_config g' = rg_config g" "rg_entities g' = rg_entities g" "rg_removed g' = rg_removed g"
    "c \<noteq> client \<Longrightarrow> rg_clients g' c = rg_clients g c"
  using assms by (auto simp: build_client_delta_def Let_def split: option.splits prod.splits)

lemma build_client_delta_ok:
  assumes "graph_ok g" and build: "build_client_delta ops client world g = (d, g')"
  shows "graph_ok g'"
proof -
  have "client_finite g' c" for c
  proof (cases "c = client")
    case True
    have "client_finite g client" using assms(1) by (simp add: graph_ok_def)
    with True build_client_delta_lists [where g = g and client = client and ops = ops and world = world] build
    show ?thesis
      by (cases "rg_clients g client") (auto simp: client_finite_def build_unknown_client)
  next
    case False
    with assms build_client_delta_frame [OF build] show ?thesis by (simp add: graph_ok_def client_finite_def)
  qed
  with assms(1) build_client_delta_frame [OF build] show ?thesis by (simp add: graph_ok_def)
qed

lemma graph_step_ok: "graph_step ops g g' \<Longrightarrow> graph_ok g \<Longrightarrow> graph_ok g'"
proof (induction rule: graph_step.induct)
  case (step_upsert g client view)
  then show ?case by (auto simp: graph_upsert_client_def graph_ok_def client_finite_def split: option.splits)
next
  case (step_leave g client)
  then show ?case by (auto simp: graph_remove_client_def graph_ok_def client_finite_def)
next
  case (step_clear_removed g)
  then show ?case by (auto simp: graph_clear_removed_def graph_ok_def client_finite_def)
qed (simp_all add: graph_update_entity_ok graph_set_entity_priority_ok graph_remove_entity_ok
    graph_clear_dirty_ok build_client_delta_ok)

theorem graph_reachable_ok: "(graph_step ops)\<^sup>*\<^sup>* (graph_new config) g \<Longrightarrow> graph_ok g"
  by (induction rule: rtranclp_induct) (auto intro: graph_new_ok graph_step_ok)

section \<open>A client served tick after tick\<close>

text \<open>What a tick without changes to the world does to the graph, for one client.\<close>

definition serve :: "'f f32_ops \<Rightarrow> client_id \<Rightarrow> world_view \<Rightarrow> 'f replication_graph \<Rightarrow> 'f replication_graph" where
  "serve ops client world g = snd (build_client_delta ops client world g)"

text \<open>How far the known entities are from the relevant ones.\<close>

definition pending :: "entity_id set \<Rightarrow> entity_id set \<Rightarrow> usize" where
  "pending known relevant = card (known - relevant) + card (relevant - known)"

lemma take_nonempty_subset:
  assumes "xs \<noteq> []" and "0 < n"
  shows "set (take n xs) \<noteq> {}"
  using assms by (cases n) (simp_all add: neq_Nil_conv)

lemma card_minus_less: "finite A \<Longrightarrow> B \<subseteq> A \<Longrightarrow> B \<noteq> {} \<Longrightarrow> card (A - B) < card A"
  by (intro psubset_card_mono) auto

lemma serve_progress:
  fixes ops :: "'f f32_ops"
  assumes client: "rg_clients g client = Some state" and fin: "client_finite g client"
    and world: "world_contract world (fset (fmdom (rg_entities g)))"
    and budget: "0 < max_creates (vw_budget (ct_view state))" "0 < max_destroys (vw_budget (ct_view state))"
  defines "rel \<equiv> relevant_ids ops (ct_view state) (rg_entities g)"
  assumes fresh: "rg_removed g \<inter> ct_known state \<inter> rel = {}"
  obtains known where "serve ops client world g =
      g\<lparr>rg_clients := (rg_clients g)(client \<mapsto> state\<lparr>ct_known := known\<rparr>)\<rparr>"
    and "finite known"
    and "pending (ct_known state) rel = 0 \<longrightarrow> known = ct_known state"
    and "0 < pending (ct_known state) rel \<longrightarrow> pending known rel < pending (ct_known state) rel"
proof -
  obtain d g' where build: "build_client_delta ops client world g = (d, g')" by fastforce
  let ?k = "ct_known state"
  obtain cs where cs: "set cs \<subseteq> rel - ?k" and csl: "cs = take (max_creates (vw_budget (ct_view state)))
      (filter (\<lambda>i. i \<notin> ?k) (relevant_entities ops (ct_view state) (rg_entities g)))"
    and ds: "set (cd_destroys d) \<subseteq> ?k - rel \<union> (rg_removed g \<inter> ?k)"
    and dsl: "cd_destroys d = take (max_destroys (vw_budget (ct_view state))) (wanted_destroys ?k rel (rg_removed g))"
    and g': "g' = g\<lparr>rg_clients := (rg_clients g)(client \<mapsto>
      state\<lparr>ct_known := ?k - set (cd_destroys d) \<union> set cs\<rparr>)\<rparr>"
    using client_delta_parts [OF build client fin world] unfolding rel_def by blast
  let ?new = "?k - set (cd_destroys d) \<union> set cs"
  have finite: "finite ?k" "finite rel"
    using fin client relevant_tracked [of ops "ct_view state" "rg_entities g"] finite_fset
    by (auto simp: client_finite_def rel_def intro: finite_subset)
  have ds': "set (cd_destroys d) \<subseteq> ?k - rel" using ds fresh by blast
  have removed: "rg_removed g \<inter> ?k \<subseteq> ?k - rel" using fresh by blast
  have minus: "?new - rel = (?k - rel) - set (cd_destroys d)" "rel - ?new = (rel - ?k) - set cs"
    using cs ds' by blast+
  have destroyed: "set (cd_destroys d) \<noteq> {}" if "?k - rel \<noteq> {}"
    unfolding dsl wanted_destroys_def using that finite(1) budget(2)
    by (intro take_nonempty_subset) (auto simp: sorted_list_of_set_eq_Nil_iff)
  have created: "set cs \<noteq> {}" if "rel - ?k \<noteq> {}"
    unfolding csl using that budget(1)
    by (intro take_nonempty_subset) (auto simp: filter_empty_conv set_relevant_entities rel_def)
  have le: "card (?new - rel) \<le> card (?k - rel)" "card (rel - ?new) \<le> card (rel - ?k)"
    unfolding minus using finite by (auto intro: card_mono)
  have lt1: "card (?new - rel) < card (?k - rel)" if "?k - rel \<noteq> {}"
    unfolding minus using finite(1) by (intro card_minus_less ds' destroyed that) simp
  have lt2: "card (rel - ?new) < card (rel - ?k)" if "rel - ?k \<noteq> {}"
    unfolding minus using finite(2) by (intro card_minus_less cs created that) simp
  show thesis
  proof (rule that [of ?new])
    show "0 < pending ?k rel \<longrightarrow> pending ?new rel < pending ?k rel"
      using le lt1 lt2 unfolding pending_def by (cases "?k - rel = {}"; cases "rel - ?k = {}") auto
    show "pending ?k rel = 0 \<longrightarrow> ?new = ?k"
    proof
      assume "pending ?k rel = 0"
      then have "?k = rel" using finite by (auto simp: pending_def)
      then show "?new = ?k" using cs ds' by auto
    qed
  qed (use finite cs ds' in \<open>auto simp: serve_def build g'\<close>)
qed

theorem served_client_converges:
  assumes "rg_clients g client = Some state" and "client_finite g client"
    and "world_contract world (fset (fmdom (rg_entities g)))"
    and "0 < max_creates (vw_budget (ct_view state))" "0 < max_destroys (vw_budget (ct_view state))"
    and "rg_removed g \<inter> fset (fmdom (rg_entities g)) = {}"
    and "pending (ct_known state) (relevant_ids ops (ct_view state) (rg_entities g)) \<le> n"
  shows "map_option ct_known (rg_clients ((serve ops client world ^^ n) g) client) =
    Some (relevant_ids ops (ct_view state) (rg_entities g))"
  using assms
proof (induction n arbitrary: g state)
  case 0
  let ?rel = "relevant_ids ops (ct_view state) (rg_entities g)"
  have "finite (ct_known state)" "finite ?rel"
    using 0(1,2) relevant_tracked [of ops "ct_view state" "rg_entities g"] finite_fset
    by (auto simp: client_finite_def intro: finite_subset)
  with 0(7) have "ct_known state = ?rel" by (auto simp: pending_def)
  with 0(1) show ?case by simp
next
  case (Suc n)
  let ?rel = "relevant_ids ops (ct_view state) (rg_entities g)"
  have fresh: "rg_removed g \<inter> ct_known state \<inter> ?rel = {}"
    using Suc.prems(6) relevant_tracked [of ops "ct_view state" "rg_entities g"] by blast
  obtain known where served: "serve ops client world g =
      g\<lparr>rg_clients := (rg_clients g)(client \<mapsto> state\<lparr>ct_known := known\<rparr>)\<rparr>" (is "_ = ?g")
    and fin: "finite known"
    and steps: "pending (ct_known state) ?rel = 0 \<longrightarrow> known = ct_known state"
      "0 < pending (ct_known state) ?rel \<longrightarrow> pending known ?rel < pending (ct_known state) ?rel"
    by (rule serve_progress [OF Suc.prems(1-5) fresh])
  have "pending known ?rel \<le> n"
    using steps Suc.prems(7) by (cases "pending (ct_known state) ?rel = 0") auto
  moreover have "rg_clients ?g client = Some (state\<lparr>ct_known := known\<rparr>)" by simp
  moreover have "client_finite ?g client" using Suc.prems(2) fin by (simp add: client_finite_def)
  ultimately have "map_option ct_known (rg_clients ((serve ops client world ^^ n) ?g) client) = Some ?rel"
    using Suc.IH [of ?g "state\<lparr>ct_known := known\<rparr>"] Suc.prems(3-6) by simp
  then show ?case by (simp only: funpow_Suc_right comp_apply served)
qed

section \<open>Priorities and lost updates\<close>

lemma relevant_entities_cong:
  assumes "fmdom m = fmdom m'" and "\<And>i. i |\<in>| fmdom m' \<Longrightarrow>
    en_position (the (fmlookup m i)) = en_position (the (fmlookup m' i))"
  shows "relevant_entities ops view m = relevant_entities ops view m'"
  unfolding relevant_entities_filter assms(1)
  by (intro filter_cong) (simp_all add: entity_relevant_def assms(2))

lemma collect_changes_cong:
  assumes "\<And>i. map_option en_dirty (fmlookup m i) = map_option en_dirty (fmlookup m' i)"
  shows "collect_changes world m known ids cs us = collect_changes world m' known ids cs us"
proof -
  have "dirty_update world m i = dirty_update world m' i" for i
    using assms [of i] by (auto simp: dirty_update_def split: option.splits)
  then have "dirty_update world m = dirty_update world m'" by (rule ext)
  then show ?thesis by (simp only: collect_changes_lists)
qed

text \<open>The priority of an entity has no influence on any delta.\<close>

theorem priority_unused:
  "fst (build_client_delta ops client world (graph_set_entity_priority entity priority g)) =
    fst (build_client_delta ops client world g)"
proof (cases "fmlookup (rg_entities g) entity")
  case (Some entry)
  let ?m = "fmupd entity (entry\<lparr>en_priority := priority\<rparr>) (rg_entities g)"
  have dom: "fmdom ?m = fmdom (rg_entities g)" using Some by (auto simp: fmdomI)
  have "relevant_entities ops view ?m = relevant_entities ops view (rg_entities g)" for view
    by (rule relevant_entities_cong [OF dom]) (auto simp: Some)
  moreover have "collect_changes world ?m known ids cs us = collect_changes world (rg_entities g) known ids cs us"
    for known ids cs us by (rule collect_changes_cong) (auto simp: Some)
  ultimately show ?thesis
    by (simp add: build_client_delta_def graph_set_entity_priority_def Some Let_def split: option.split prod.split)
qed (simp add: graph_set_entity_priority_def)

text \<open>After the dirty lists are cleared no update is sent, whether or not an earlier delta had room for it.\<close>

theorem cleared_dirty_no_updates:
  assumes "client_finite g client"
  shows "cd_updates (fst (build_client_delta ops client world (graph_clear_dirty g))) = []"
proof -
  let ?g = "graph_clear_dirty g"
  have none: "dirty_update world (rg_entities ?g) i = None" for i
    by (simp add: dirty_update_def graph_clear_dirty_def split: option.split)
  have "List.map_filter (dirty_update world (rg_entities ?g)) ids = []" for ids
    by (induction ids) (simp_all add: none)
  with assms show ?thesis
    using build_client_delta_lists [where g = ?g and client = client and ops = ops and world = world]
    by (cases "rg_clients ?g client")
      (simp_all add: build_unknown_client wanted_updates_def client_finite_def graph_clear_dirty_def)
qed

end
