(* ===== verification/Graph_Readded.thy ===== *)
theory Graph_Readded
  imports Graph_Steps
begin

text \<open>
  An entity that a client knows, removed from the graph and added again before the client's next delta: the
  graph keeps it among the removed ones, so \<^const>\<open>collect_destroys\<close> destroys it, and it is known, so
  \<^const>\<open>collect_changes\<close> updates it and does not create it.  A receiver that applies the delta in the
  codec's order (destroys, creates, updates) fails at the updates.
\<close>

lemma apply_updates_known:
  "ids_sorted es \<Longrightarrow> apply_updates us es = Inr es' \<Longrightarrow> ue_id ` set us \<subseteq> es_id ` set es"
proof (induction us arbitrary: es)
  case (Cons u us)
  from Cons.prems(2) obtain es1 where one: "apply_update u es = Inr es1" and rest: "apply_updates us es1 = Inr es'"
    by (auto simp: apply_updates_def elim: and_then_E)
  from one obtain i where "binary_search_by_id es (entity_raw (ue_id u)) = Some i"
    by (auto simp: apply_update_def res_simps)
  then have "i < length es" "entity_raw (es_id (es ! i)) = entity_raw (ue_id u)"
    using search_entity_range unfolding binary_search_by_id_def by blast+
  moreover from this(2) have "es_id (es ! i) = ue_id u" by (cases "es_id (es ! i)"; cases "ue_id u") simp
  ultimately have "ue_id u \<in> es_id ` set es" by (metis image_eqI nth_mem)
  moreover have sorted: "ids_sorted es1" "es_id ` set es1 = es_id ` set es"
    using apply_update_sorted [OF Cons.prems(1) one] Cons.prems(1) by (metis, metis set_map)
  ultimately show ?case using Cons.IH [OF sorted(1) rest] by simp
qed simp

lemma push_unique_nonempty: "cs \<noteq> [] \<Longrightarrow> push_unique_components target cs \<noteq> []"
  using push_unique_components_set [of target cs] by auto

text \<open>The graph after the entity was removed and added again.\<close>

definition readded :: "entity_id \<Rightarrow> 'f vec3 \<Rightarrow> component_id list \<Rightarrow> 'f replication_graph \<Rightarrow> 'f replication_graph" where
  "readded i position dirty g = graph_update_entity i position dirty (graph_remove_entity i g)"

lemma readded_parts:
  assumes "length (sorted_list_of_fmap (fmdrop i (rg_entities g))) < max_entities (rg_config g)"
  shows "rg_entities (readded i position dirty g) = fmupd i
      \<lparr>en_position = position, en_priority = 0, en_dirty = push_unique_components [] dirty\<rparr> (fmdrop i (rg_entities g))"
    and "rg_removed (readded i position dirty g) = insert i (rg_removed g)"
    and "rg_clients (readded i position dirty g) = rg_clients g"
  using assms by (simp_all add: readded_def graph_remove_entity_def graph_update_entity_def)

theorem readded_entity_fails:
  assumes client: "rg_clients g client = Some state" and fin: "client_finite g client" and known: "i \<in> ct_known state"
    and room: "length (sorted_list_of_fmap (fmdrop i (rg_entities g))) < max_entities (rg_config g)"
    and near: "entity_relevant ops (ct_view state) \<lparr>en_position = position, en_priority = 0, en_dirty = []\<rparr>"
    and dirty: "dirty \<noteq> []" "wv_update world i (push_unique_components [] dirty) \<noteq> None"
    and world: "world_contract world (insert i (fset (fmdom (rg_entities g))))"
    and budget: "card (ct_known state) \<le> max_destroys (vw_budget (ct_view state))"
      "card (ct_known state) \<le> max_updates (vw_budget (ct_view state))"
    and build: "build_client_delta ops client world (readded i position dirty g) = (d, g')"
    and view: "ids_sorted es" "es_id ` set es = ct_known state"
  shows "i \<in> set (cd_destroys d)" and "i \<in> ue_id ` set (cd_updates d)" and "i \<notin> es_id ` set (cd_creates d)"
    and "\<exists>es'. and_then (apply_destroys es (cd_destroys d)) (\<lambda>rs. apply_creates rs (cd_creates d)) = Inr es' \<and>
      (\<exists>e. apply_updates (cd_updates d) es' = Inl e)"
proof -
  let ?g = "readded i position dirty g"
  let ?rel = "relevant_ids ops (ct_view state) (rg_entities ?g)"
  let ?list = "relevant_entities ops (ct_view state) (rg_entities ?g)"
  note parts = readded_parts [OF room, of position dirty]
  have client': "rg_clients ?g client = Some state" and fin': "client_finite ?g client"
    using client fin by (simp_all add: parts client_finite_def)
  have fin_known: "finite (ct_known state)" "finite (rg_removed ?g)" using client' fin' by (simp_all add: client_finite_def)
  have tracked: "fset (fmdom (rg_entities ?g)) = insert i (fset (fmdom (rg_entities g)))" by (auto simp: parts)
  have world': "world_contract world (fset (fmdom (rg_entities ?g)))" using world unfolding tracked .
  obtain cs where cs: "set cs \<subseteq> ?rel - ct_known state" "sorted_wrt (<) cs" "map es_id (cd_creates d) = cs"
    and ds: "cd_destroys d = take (max_destroys (vw_budget (ct_view state)))
      (wanted_destroys (ct_known state) ?rel (rg_removed ?g))"
      "sorted_wrt (<) (cd_destroys d)" "set (cd_destroys d) \<subseteq> ct_known state - ?rel \<union> (rg_removed ?g \<inter> ct_known state)"
    by (rule client_delta_parts [OF build client' fin' world'])
  have rel: "i \<in> ?rel" using near by (simp add: relevant_ids_def parts entity_relevant_def)
  have "card (ct_known state - ?rel \<union> (rg_removed ?g \<inter> ct_known state)) \<le> card (ct_known state)"
    using fin_known(1) by (intro card_mono) auto
  then have "length (wanted_destroys (ct_known state) ?rel (rg_removed ?g)) \<le> max_destroys (vw_budget (ct_view state))"
    using budget(1) by (simp add: wanted_destroys_def)
  then have "set (cd_destroys d) = ct_known state - ?rel \<union> (rg_removed ?g \<inter> ct_known state)"
    using fin_known unfolding ds(1) by (simp add: wanted_destroys_def)
  then show destroyed: "i \<in> set (cd_destroys d)" using known by (simp add: parts)
  have us: "cd_updates d = take (max_updates (vw_budget (ct_view state)))
      (wanted_updates world (rg_entities ?g) (ct_known state) ?list)"
    using build unfolding build_client_delta_lists [OF client' fin_known] by auto
  have "length (wanted_updates world (rg_entities ?g) (ct_known state) ?list) \<le>
      length (filter (\<lambda>i. i \<in> ct_known state) ?list)"
    unfolding wanted_updates_def List.map_filter_def by (simp only: length_map length_filter_le)
  also have "\<dots> = card (set (filter (\<lambda>i. i \<in> ct_known state) ?list))"
    using relevant_entities_sorted [of ops "ct_view state" "rg_entities ?g"]
    by (metis distinct_card distinct_filter strict_sorted_iff)
  also have "\<dots> \<le> card (ct_known state)" using fin_known(1) by (intro card_mono) auto
  finally have all: "cd_updates d = wanted_updates world (rg_entities ?g) (ct_known state) ?list"
    using us budget(2) by simp
  obtain u where u: "wv_update world i (push_unique_components [] dirty) = Some u"
    using dirty(2) by blast
  then have "dirty_update world (rg_entities ?g) i = Some u"
    using push_unique_nonempty [of dirty "[]"] dirty(1) by (simp add: dirty_update_def parts)
  then have "u \<in> set (cd_updates d)"
    using rel known unfolding all wanted_updates_def by (force simp: List.map_filter_def set_relevant_entities)
  moreover have "ue_id u = i" using world_contract.update_id [OF world _ u] by simp
  ultimately show updated: "i \<in> ue_id ` set (cd_updates d)" by force
  have new: "es_id ` set (cd_creates d) = set cs" using cs(3) by (metis set_map)
  with cs(1) known show "i \<notin> es_id ` set (cd_creates d)" by auto
  let ?rs = "filter (\<lambda>e. es_id e \<notin> set (cd_destroys d)) es"
  have rs: "apply_destroys es (cd_destroys d) = Inr ?rs"
    using ds view by (subst apply_destroys_iff) auto
  have sorted: "ids_sorted ?rs" "ids_sorted (cd_creates d)"
    using view cs by (simp_all add: ids_sorted_filter)
  have "es_id ` set ?rs \<inter> es_id ` set (cd_creates d) = {}" using cs(1) view new by auto
  with apply_creates_complete [OF sorted] obtain es' where
    es': "apply_creates ?rs (cd_creates d) = Inr es'" by auto
  with apply_creates_iff [OF sorted] have res: "ids_sorted es'" "set es' = set ?rs \<union> set (cd_creates d)" by auto
  have "i \<notin> es_id ` set es'" using destroyed new cs(1) known unfolding res(2) by auto
  with apply_updates_known [OF res(1)] updated have "apply_updates (cd_updates d) es' \<noteq> Inr x" for x by blast
  then have "\<exists>e. apply_updates (cd_updates d) es' = Inl e" by (metis sumE)
  with rs es' show "\<exists>es'. and_then (apply_destroys es (cd_destroys d)) (\<lambda>rs. apply_creates rs (cd_creates d)) = Inr es' \<and>
      (\<exists>e. apply_updates (cd_updates d) es' = Inl e)" by simp
qed

end
