(* ===== verification/Entity_Map.thy ===== *)
theory Entity_Map
  imports Codec_Types
begin

text \<open>
  The entity map of the engine adapter (\<^verbatim>\<open>sdec-bevy/src/mapping.rs\<close>): two hash maps that are meant to be
  inverse to each other, and the last id that was handed out.  The engine's \<^verbatim>\<open>Entity\<close> is a type
  variable.  What keeps the maps inverse is stated as an invariant; the two ways of losing it, an
  exhausted counter and the registration of an id that is in use, are stated as well.
\<close>

section \<open>The map and its operations\<close>

record 'e entity_map =
  em_next :: u32
  em_to_id :: "'e \<rightharpoonup> entity_id"
  em_to_entity :: "entity_id \<rightharpoonup> 'e"

definition entity_map_new :: "'e entity_map" where
  "entity_map_new = \<lparr>em_next = 0, em_to_id = (\<lambda>_. None), em_to_entity = (\<lambda>_. None)\<rparr>"

definition saturating_succ :: "u32 \<Rightarrow> u32" where
  "saturating_succ v = (if v = - 1 then v else v + 1)"

definition map_entity_id :: "'e \<Rightarrow> 'e entity_map \<Rightarrow> entity_id \<times> 'e entity_map" where
  "map_entity_id entity m =
    (case em_to_id m entity of
       Some i \<Rightarrow> (i, m)
     | None \<Rightarrow>
         let next' = max (saturating_succ (em_next m)) 1;
             i = EntityId next'
         in (i, m\<lparr>em_next := next', em_to_id := (em_to_id m)(entity \<mapsto> i),
                  em_to_entity := (em_to_entity m)(i \<mapsto> entity)\<rparr>))"

definition map_entity_id_known :: "'e \<Rightarrow> 'e entity_map \<Rightarrow> entity_id option" where
  "map_entity_id_known entity m = em_to_id m entity"

definition map_entity :: "entity_id \<Rightarrow> 'e entity_map \<Rightarrow> 'e option" where
  "map_entity i m = em_to_entity m i"

definition map_ids :: "'e entity_map \<Rightarrow> entity_id set" where
  "map_ids m = dom (em_to_entity m)"

definition map_register :: "entity_id \<Rightarrow> 'e \<Rightarrow> 'e entity_map \<Rightarrow> 'e entity_map" where
  "map_register i entity m =
    m\<lparr>em_to_id := (em_to_id m)(entity \<mapsto> i), em_to_entity := (em_to_entity m)(i \<mapsto> entity),
      em_next := max (em_next m) (entity_raw i)\<rparr>"

definition map_unregister :: "entity_id \<Rightarrow> 'e entity_map \<Rightarrow> 'e entity_map" where
  "map_unregister i m =
    (case em_to_entity m i of
       None \<Rightarrow> m
     | Some entity \<Rightarrow>
         m\<lparr>em_to_entity := (em_to_entity m)(i := None), em_to_id := (em_to_id m)(entity := None)\<rparr>)"

section \<open>The invariant\<close>

text \<open>The two maps are inverse to each other, and no id in use lies above the counter.\<close>

definition inverse_maps :: "('a \<rightharpoonup> 'b) \<Rightarrow> ('b \<rightharpoonup> 'a) \<Rightarrow> bool" where
  "inverse_maps f g \<longleftrightarrow> (\<forall>x y. f x = Some y \<longleftrightarrow> g y = Some x)"

lemma inverse_mapsD: "inverse_maps f g \<Longrightarrow> f x = Some y \<longleftrightarrow> g y = Some x"
  by (simp add: inverse_maps_def)

lemma inverse_maps_add:
  assumes inv: "inverse_maps f g" and "f x = None" "g y = None"
  shows "inverse_maps (f(x \<mapsto> y)) (g(y \<mapsto> x))"
  using assms(2,3) by (auto simp: inverse_maps_def inverse_mapsD [OF inv] dest: inverse_mapsD [OF inv, THEN iffD2])

lemma inverse_maps_remove:
  assumes inv: "inverse_maps f g" and "g y = Some x"
  shows "inverse_maps (f(x := None)) (g(y := None))"
proof -
  have unique: "y' = y" if "g y' = Some x" for y'
    using that assms(2) by (simp flip: inverse_mapsD [OF inv])
  show ?thesis using assms(2) by (auto simp: inverse_maps_def inverse_mapsD [OF inv] dest: unique)
qed

definition entity_map_ok :: "'e entity_map \<Rightarrow> bool" where
  "entity_map_ok m \<longleftrightarrow> inverse_maps (em_to_id m) (em_to_entity m) \<and>
    (\<forall>i \<in> dom (em_to_entity m). entity_raw i \<le> em_next m)"

lemma entity_map_okD:
  assumes "entity_map_ok m"
  shows "em_to_id m e = Some i \<longleftrightarrow> em_to_entity m i = Some e"
    and "em_to_entity m i = Some e \<Longrightarrow> entity_raw i \<le> em_next m"
  using assms by (auto simp: entity_map_ok_def inverse_mapsD)

lemma entity_map_new_ok: "entity_map_ok entity_map_new"
  by (simp add: entity_map_ok_def entity_map_new_def inverse_maps_def)

text \<open>Two entities of a map in order have two ids, and two ids two entities.\<close>

lemma entity_map_injective:
  assumes "entity_map_ok m"
  shows "em_to_id m a = Some i \<Longrightarrow> em_to_id m b = Some i \<Longrightarrow> a = b"
    and "em_to_entity m i = Some e \<Longrightarrow> em_to_entity m j = Some e \<Longrightarrow> i = j"
  using entity_map_okD(1) [OF assms] by (metis option.inject)+

text \<open>A new entity gets the id after the counter, as long as there is one.\<close>

lemma next_id:
  assumes "em_next m \<noteq> - 1"
  shows "max (saturating_succ (em_next m)) 1 = em_next m + 1" and "em_next m < em_next m + 1"
proof -
  have nz: "em_next m + 1 \<noteq> 0" using assms by (metis add_eq_0_iff add.commute)
  then have one: "1 \<le> em_next m + 1" by (simp add: word_neq_0_conv word_le_nat_alt word_less_nat_alt Suc_le_eq)
  then show "max (saturating_succ (em_next m)) 1 = em_next m + 1" using assms by (simp add: saturating_succ_def max_def)
  show "em_next m < em_next m + 1" using nz unatSuc [of "em_next m"] by (simp add: word_less_nat_alt add.commute)
qed

lemma map_entity_id_known_entity: "em_to_id m entity = Some i \<Longrightarrow> map_entity_id entity m = (i, m)"
  by (simp add: map_entity_id_def)

lemma map_entity_id_fresh:
  assumes "entity_map_ok m" and "em_next m \<noteq> - 1" and "em_to_id m entity = None"
  defines "i \<equiv> EntityId (em_next m + 1)"
  shows "map_entity_id entity m = (i, m\<lparr>em_next := em_next m + 1, em_to_id := (em_to_id m)(entity \<mapsto> i),
      em_to_entity := (em_to_entity m)(i \<mapsto> entity)\<rparr>)"
    and "em_to_entity m i = None"
proof -
  show "map_entity_id entity m = (i, m\<lparr>em_next := em_next m + 1, em_to_id := (em_to_id m)(entity \<mapsto> i),
      em_to_entity := (em_to_entity m)(i \<mapsto> entity)\<rparr>)"
    using assms(3) by (simp add: map_entity_id_def i_def next_id(1) [OF assms(2)] Let_def)
  show "em_to_entity m i = None"
    using entity_map_okD(2) [OF assms(1), of i] next_id(2) [OF assms(2)] by (cases "em_to_entity m i") (auto simp: i_def)
qed

lemma map_entity_id_ok:
  assumes "entity_map_ok m" and "em_next m \<noteq> - 1" and "map_entity_id entity m = (i, m')"
  shows "entity_map_ok m'" and "em_to_id m' entity = Some i" and "em_to_id m \<subseteq>\<^sub>m em_to_id m'"
    and "em_next m' \<le> em_next m + 1"
proof -
  have "entity_map_ok m' \<and> em_to_id m' entity = Some i \<and> em_to_id m \<subseteq>\<^sub>m em_to_id m' \<and> em_next m' \<le> em_next m + 1"
  proof (cases "em_to_id m entity")
    case (Some j)
    then show ?thesis using assms next_id(2) [OF assms(2)] by (auto simp: map_entity_id_def)
  next
    case None
    note fresh = map_entity_id_fresh [OF assms(1,2) None]
    have eq: "i = EntityId (em_next m + 1)" "em_to_id m' = (em_to_id m)(entity \<mapsto> i)"
        "em_to_entity m' = (em_to_entity m)(i \<mapsto> entity)" "em_next m' = em_next m + 1"
      using fresh(1) assms(3) by auto
    have above: "entity_raw j \<le> em_next m + 1" if "em_to_entity m j = Some e" for j e
      using entity_map_okD(2) [OF assms(1) that] next_id(2) [OF assms(2)] by simp
    have "inverse_maps (em_to_id m') (em_to_entity m')"
      unfolding eq(2,3) using assms(1) None fresh(2) by (intro inverse_maps_add) (simp_all add: entity_map_ok_def eq(1))
    then show ?thesis using None above by (auto simp: entity_map_ok_def eq map_le_def)
  qed
  then show "entity_map_ok m'" "em_to_id m' entity = Some i" "em_to_id m \<subseteq>\<^sub>m em_to_id m'"
    "em_next m' \<le> em_next m + 1" by simp_all
qed

lemma map_register_ok:
  assumes "entity_map_ok m" and "em_to_id m entity = None" and "em_to_entity m i = None"
  shows "entity_map_ok (map_register i entity m)"
  using assms unfolding entity_map_ok_def map_register_def by (auto simp: le_max_iff_disj inverse_maps_add)

lemma map_unregister_ok: "entity_map_ok m \<Longrightarrow> entity_map_ok (map_unregister i m)"
  unfolding entity_map_ok_def map_unregister_def by (auto split: option.split simp: inverse_maps_remove)

lemma map_unregister_forgets:
  assumes "entity_map_ok m"
  shows "map_entity i (map_unregister i m) = None" and "map_entity i m = Some e \<Longrightarrow> map_entity_id_known e (map_unregister i m) = None"
  using assms by (auto simp: map_entity_def map_entity_id_known_def map_unregister_def split: option.split)

text \<open>
  The steps of a map in use: an entity is given an id while there is one left, an id from the other side
  is registered for an entity when neither is in use, and an id is given back.
\<close>

inductive map_step :: "'e entity_map \<Rightarrow> 'e entity_map \<Rightarrow> bool" where
  give_id: "em_next m \<noteq> - 1 \<Longrightarrow> map_step m (snd (map_entity_id entity m))"
| register: "map_entity_id_known entity m = None \<Longrightarrow> map_entity i m = None \<Longrightarrow>
    map_step m (map_register i entity m)"
| unregister: "map_step m (map_unregister i m)"

inductive_cases map_stepE: "map_step m m'"

lemma map_step_ok: "map_step m m' \<Longrightarrow> entity_map_ok m \<Longrightarrow> entity_map_ok m'"
  by (erule map_stepE)
    (auto simp: map_entity_id_known_def map_entity_def intro: map_register_ok map_unregister_ok
      map_entity_id_ok(1) [OF _ _ prod.collapse [symmetric]])

lemma map_reachable_ok: "map_step\<^sup>*\<^sup>* entity_map_new m \<Longrightarrow> entity_map_ok m"
  by (induction rule: rtranclp_induct) (auto intro: entity_map_new_ok map_step_ok)

section \<open>Where the invariant is lost\<close>

text \<open>
  Once the counter stands at the largest id every new entity gets that id; the map then forgets which
  entity had it, and both entities are sent as one.
\<close>

lemma exhausted_ids_collide:
  assumes "em_next m = - 1" and "em_to_id m a = None" "em_to_id m b = None" "a \<noteq> b"
    and "map_entity_id a m = (i, m1)" and "map_entity_id b m1 = (j, m2)"
  shows "i = j" and "\<not> entity_map_ok m2"
proof -
  have top: "max (saturating_succ (- 1)) 1 = (- 1 :: u32)" by (simp add: saturating_succ_def)
  have "i = EntityId (- 1) \<and> m1 = m\<lparr>em_next := - 1, em_to_id := (em_to_id m)(a \<mapsto> i),
      em_to_entity := (em_to_entity m)(i \<mapsto> a)\<rparr>"
    using assms(1,2,5) top by (auto simp: map_entity_id_def Let_def)
  moreover from this assms(3,4,6) top have "j = EntityId (- 1) \<and> em_to_id m2 = (em_to_id m1)(b \<mapsto> j)"
    by (auto simp: map_entity_id_def Let_def)
  ultimately show same: "i = j" and "\<not> entity_map_ok m2"
    using assms(4) entity_map_injective(1) [of m2 a i b] by auto
qed

text \<open>
  Registering an id that another entity has leaves that entity's entry behind: the id now leads to the
  new entity, and the old one is still known under it.
\<close>

lemma registered_twice_stale:
  assumes "em_to_entity m i = Some old" and "em_to_id m old = Some i" and "old \<noteq> entity"
  shows "map_entity i (map_register i entity m) = Some entity"
    and "map_entity_id_known old (map_register i entity m) = Some i"
    and "\<not> entity_map_ok (map_register i entity m)"
proof -
  show "map_entity i (map_register i entity m) = Some entity"
    "map_entity_id_known old (map_register i entity m) = Some i"
    using assms by (simp_all add: map_entity_def map_entity_id_known_def map_register_def)
  then show "\<not> entity_map_ok (map_register i entity m)"
    using entity_map_okD(1) [of "map_register i entity m" old i] assms(3)
    by (auto simp: map_entity_def map_entity_id_known_def)
qed

end
