(* ===== verification/Bevy_Schema.thy ===== *)
theory Bevy_Schema
  imports Entity_Map Delta_Merge
begin

text \<open>
  The engine adapter's registry (\<^verbatim>\<open>sdec-bevy/src/schema.rs\<close>): the trait by which an application exposes
  its components, the adapters that read and write them in the engine's world, and the builder that
  turns the registered components into a schema.  The world and its entities belong to the engine:
  they are type variables, and \<open>world_ops\<close> holds the engine's operations that the adapter calls,
  keyed by the type of the component.  All component types share one value type, which stands for the
  disjoint union of the application's types.  Panics (\<^verbatim>\<open>expect\<close>, \<^verbatim>\<open>entity_mut\<close> of a dead entity) are
  \<^const>\<open>None\<close>.
\<close>

section \<open>Errors, the component trait and the world\<close>

datatype bevy_error =
    UnknownAdapter component_id
  | MissingData component_id
  | ComponentRejected string
  | SchemaInvalid schema_error
  | SessionStateMissing
  | WireFailed decode_error
  | CodecFailed codec_error

type_synonym type_id = nat

record replicated_field =
  rf_id :: u16
  rf_codec :: field_codec
  rf_change :: "change_policy option"

text \<open>\<^verbatim>\<open>apply_field\<close> takes the component by mutable reference: it may change it and fail.\<close>

record 'c replicated =
  rt_type :: type_id
  rt_component_id :: u16
  rt_fields :: "replicated_field list"
  rt_read_fields :: "'c \<Rightarrow> field_value list"
  rt_apply_field :: "usize \<Rightarrow> field_value \<Rightarrow> 'c \<Rightarrow> (bevy_error + unit) \<times> 'c"
  rt_from_fields :: "field_value list \<Rightarrow> bevy_error + 'c"

record ('w, 'e, 'c) world_ops =
  wo_get :: "type_id \<Rightarrow> 'e \<Rightarrow> 'w \<Rightarrow> 'c option"
  wo_write :: "type_id \<Rightarrow> 'e \<Rightarrow> 'c \<Rightarrow> 'w \<Rightarrow> 'w" \<comment> \<open>through \<^verbatim>\<open>get_mut\<close>\<close>
  wo_insert :: "type_id \<Rightarrow> 'e \<Rightarrow> 'c \<Rightarrow> 'w \<Rightarrow> 'w option" \<comment> \<open>through \<^verbatim>\<open>entity_mut\<close>\<close>
  wo_spawn :: "'w \<Rightarrow> 'e \<times> 'w"
  wo_despawn :: "'e \<Rightarrow> 'w \<Rightarrow> 'w"
  wo_added :: "type_id \<Rightarrow> 'w \<Rightarrow> 'e list"
  wo_changed :: "type_id \<Rightarrow> 'w \<Rightarrow> 'e list"
  wo_removed :: "type_id \<Rightarrow> 'w \<Rightarrow> 'e list"

section \<open>Component adapters\<close>

record 'c component_adapter =
  ca_trait :: "'c replicated"
  ca_component_id :: component_id
  ca_fields :: "replicated_field list"

definition adapter_new :: "'c replicated \<Rightarrow> 'c component_adapter option" where
  "adapter_new rt =
    map_option (\<lambda>i. \<lparr>ca_trait = rt, ca_component_id = i, ca_fields = rt_fields rt\<rparr>)
      (component_id_new (rt_component_id rt))"

definition adapter_type_id :: "'c component_adapter \<Rightarrow> type_id" where
  "adapter_type_id a = rt_type (ca_trait a)"

definition build_field_def :: "replicated_field \<Rightarrow> field_def option" where
  "build_field_def field =
    map_option (\<lambda>i.
      let def = field_def_new i (rf_codec field) in
      case rf_change field of Some change \<Rightarrow> field_def_change change def | None \<Rightarrow> def)
      (field_id_new (rf_id field))"

definition build_field_defs :: "'c component_adapter \<Rightarrow> field_def list option" where
  "build_field_defs a = those (map build_field_def (ca_fields a))"

definition schema_def :: "'c component_adapter \<Rightarrow> component_def option" where
  "schema_def a =
    map_option (\<lambda>fs. fold component_def_field fs (component_def_new (ca_component_id a))) (build_field_defs a)"

definition snapshot_component ::
  "('w, 'e, 'c) world_ops \<Rightarrow> 'w \<Rightarrow> 'e \<Rightarrow> 'c component_adapter \<Rightarrow> component_snapshot option" where
  "snapshot_component ops world entity a =
    map_option (\<lambda>component. \<lparr>cs_id = ca_component_id a, cs_fields = rt_read_fields (ca_trait a) component\<rparr>)
      (wo_get ops (adapter_type_id a) entity world)"

definition update_component_of ::
  "('w, 'e, 'c) world_ops \<Rightarrow> 'w \<Rightarrow> 'e \<Rightarrow> 'c component_adapter \<Rightarrow> delta_update_component option" where
  "update_component_of ops world entity a =
    map_option (\<lambda>component.
      \<lparr>uc_id = ca_component_id a, uc_fields = List.enumerate 0 (rt_read_fields (ca_trait a) component)\<rparr>)
      (wo_get ops (adapter_type_id a) entity world)"

fun apply_fields ::
  "'c replicated \<Rightarrow> (usize \<times> field_value) list \<Rightarrow> 'c \<Rightarrow> (bevy_error + unit) \<times> 'c" where
  "apply_fields rt [] component = (Inr (), component)"
| "apply_fields rt ((index, v) # rest) component =
    (case rt_apply_field rt index v component of
       (Inl e, component) \<Rightarrow> (Inl e, component)
     | (Inr _, component) \<Rightarrow> apply_fields rt rest component)"

text \<open>\<^verbatim>\<open>get_mut\<close> marks the component as changed only when a field is assigned through it.\<close>

definition adapter_apply_update ::
  "('w, 'e, 'c) world_ops \<Rightarrow> 'c component_adapter \<Rightarrow> 'e \<Rightarrow> (usize \<times> field_value) list \<Rightarrow> 'w \<Rightarrow>
    (bevy_error + unit) \<times> 'w" where
  "adapter_apply_update ops a entity fs world =
    (case wo_get ops (adapter_type_id a) entity world of
       None \<Rightarrow> (Inl (MissingData (ca_component_id a)), world)
     | Some component \<Rightarrow>
         if fs = [] then (Inr (), world)
         else
           let (result, component) = apply_fields (ca_trait a) fs component
           in (result, wo_write ops (adapter_type_id a) entity component world))"

definition adapter_insert_component ::
  "('w, 'e, 'c) world_ops \<Rightarrow> 'c component_adapter \<Rightarrow> 'e \<Rightarrow> field_value list \<Rightarrow> 'w \<Rightarrow>
    ((bevy_error + unit) \<times> 'w) option" where
  "adapter_insert_component ops a entity fs world =
    (case rt_from_fields (ca_trait a) fs of
       Inl e \<Rightarrow> Some (Inl e, world)
     | Inr component \<Rightarrow>
         map_option (\<lambda>world. (Inr (), world)) (wo_insert ops (adapter_type_id a) entity component world))"

definition added_entities :: "('w, 'e, 'c) world_ops \<Rightarrow> 'w \<Rightarrow> 'c component_adapter \<Rightarrow> 'e list" where
  "added_entities ops world a = wo_added ops (adapter_type_id a) world"

definition changed_entities :: "('w, 'e, 'c) world_ops \<Rightarrow> 'w \<Rightarrow> 'c component_adapter \<Rightarrow> 'e list" where
  "changed_entities ops world a = wo_changed ops (adapter_type_id a) world"

definition removed_entities :: "('w, 'e, 'c) world_ops \<Rightarrow> 'w \<Rightarrow> 'c component_adapter \<Rightarrow> 'e list" where
  "removed_entities ops world a = wo_removed ops (adapter_type_id a) world"

section \<open>The schema and its builder\<close>

record 'c bevy_schema =
  bs_schema :: schema
  bs_adapters :: "'c component_adapter list"
  bs_index :: "component_id \<rightharpoonup> usize"

definition adapter_by_component :: "'c bevy_schema \<Rightarrow> component_id \<Rightarrow> 'c component_adapter option" where
  "adapter_by_component bs i =
    Option.bind (bs_index bs i) (\<lambda>index.
      if index < length (bs_adapters bs) then Some (bs_adapters bs ! index) else None)"

definition snapshot_entity ::
  "('w, 'e, 'c) world_ops \<Rightarrow> 'c bevy_schema \<Rightarrow> 'w \<Rightarrow> 'e \<Rightarrow> component_snapshot list" where
  "snapshot_entity ops bs world entity = List.map_filter (snapshot_component ops world entity) (bs_adapters bs)"

definition apply_component_fields ::
  "('w, 'e, 'c) world_ops \<Rightarrow> 'c bevy_schema \<Rightarrow> 'e \<Rightarrow> component_id \<Rightarrow> (usize \<times> field_value) list \<Rightarrow> 'w \<Rightarrow>
    (bevy_error + unit) \<times> 'w" where
  "apply_component_fields ops bs entity i fs world =
    (case adapter_by_component bs i of
       None \<Rightarrow> (Inl (UnknownAdapter i), world)
     | Some a \<Rightarrow> adapter_apply_update ops a entity fs world)"

definition insert_component_fields ::
  "('w, 'e, 'c) world_ops \<Rightarrow> 'c bevy_schema \<Rightarrow> 'e \<Rightarrow> component_id \<Rightarrow> field_value list \<Rightarrow> 'w \<Rightarrow>
    ((bevy_error + unit) \<times> 'w) option" where
  "insert_component_fields ops bs entity i fs world =
    (case adapter_by_component bs i of
       None \<Rightarrow> Some (Inl (UnknownAdapter i), world)
     | Some a \<Rightarrow> adapter_insert_component ops a entity fs world)"

fun delta_components ::
  "('w, 'e, 'c) world_ops \<Rightarrow> 'c bevy_schema \<Rightarrow> 'w \<Rightarrow> 'e \<Rightarrow> component_id list \<Rightarrow>
    delta_update_component list option" where
  "delta_components ops bs world entity [] = Some []"
| "delta_components ops bs world entity (i # is) =
    Option.bind (adapter_by_component bs i) (\<lambda>a.
    Option.bind (delta_components ops bs world entity is) (\<lambda>rest.
      Some (case update_component_of ops world entity a of Some u \<Rightarrow> u # rest | None \<Rightarrow> rest)))"

definition build_delta_update ::
  "('w, 'e, 'c) world_ops \<Rightarrow> 'c bevy_schema \<Rightarrow> 'w \<Rightarrow> 'e \<Rightarrow> entity_id \<Rightarrow> component_id list \<Rightarrow>
    delta_update_entity option" where
  "build_delta_update ops bs world entity i is =
    Option.bind (delta_components ops bs world entity is) (\<lambda>us.
      if us = [] then None else Some \<lparr>ue_id = i, ue_components = us\<rparr>)"

text \<open>The builder: a type that is registered already is ignored.\<close>

definition bevy_component ::
  "'c replicated \<Rightarrow> 'c component_adapter list \<Rightarrow> 'c component_adapter list option" where
  "bevy_component rt adapters =
    map_option (\<lambda>a.
      if list_ex (\<lambda>existing. adapter_type_id existing = adapter_type_id a) adapters then adapters
      else adapters @ [a]) (adapter_new rt)"

definition bevy_build :: "'c component_adapter list \<Rightarrow> (bevy_error + 'c bevy_schema) option" where
  "bevy_build adapters =
    map_option (\<lambda>defs.
      and_then (map_err SchemaInvalid (schema_new defs)) (\<lambda>s.
        Inr \<lparr>bs_schema = s, bs_adapters = adapters,
             bs_index = map_of (rev (zip (map ca_component_id adapters) [0..<length adapters]))\<rparr>))
      (those (map schema_def adapters))"

section \<open>What the builder guarantees\<close>

definition adapters_ok :: "'c component_adapter list \<Rightarrow> bool" where
  "adapters_ok adapters \<longleftrightarrow> distinct (map adapter_type_id adapters) \<and>
    (\<forall>a \<in> set adapters. adapter_new (ca_trait a) = Some a)"

lemma adapters_ok_Nil: "adapters_ok []"
  by (simp add: adapters_ok_def)

lemma adapter_new_trait: "adapter_new rt = Some a \<Longrightarrow> ca_trait a = rt"
  by (auto simp: adapter_new_def)

lemma bevy_component_ok: "adapters_ok as \<Longrightarrow> bevy_component rt as = Some as' \<Longrightarrow> adapters_ok as'"
  by (auto simp: adapters_ok_def bevy_component_def list_ex_iff adapter_new_trait split: if_splits) blast

lemma schema_def_id: "schema_def a = Some d \<Longrightarrow> cd_id d = ca_component_id a"
proof -
  have "cd_id (fold component_def_field fs d) = cd_id d" for fs d
    by (induction fs arbitrary: d) (simp_all add: component_def_field_def)
  then show "schema_def a = Some d \<Longrightarrow> cd_id d = ca_component_id a"
    by (auto simp: schema_def_def component_def_new_def)
qed

lemma those_map_Some: "those (map f xs) = Some ys \<longleftrightarrow> list_all2 (\<lambda>x y. f x = Some y) xs ys"
  by (induction xs arbitrary: ys) (auto simp: list_all2_Cons1 split: option.split)

text \<open>A built schema: one component for each adapter, distinct ids, and the lookup finds each of them.\<close>

definition bevy_schema_ok :: "'c bevy_schema \<Rightarrow> bool" where
  "bevy_schema_ok bs \<longleftrightarrow> schema_ok (bs_schema bs) \<and>
    map cd_id (components (bs_schema bs)) = map ca_component_id (bs_adapters bs) \<and>
    distinct (map adapter_type_id (bs_adapters bs)) \<and>
    (\<forall>i. adapter_by_component bs i = find (\<lambda>a. ca_component_id a = i) (bs_adapters bs))"

lemma find_by_index:
  assumes "distinct (map key xs)"
  shows "Option.bind (map_of (rev (zip (map key xs) [0..<length xs])) k)
      (\<lambda>i. if i < length xs then Some (xs ! i) else None) = find (\<lambda>x. key x = k) xs"
proof (cases "find (\<lambda>x. key x = k) xs")
  case None
  then have "k \<notin> set (map key xs)" by (auto simp: find_None_iff)
  moreover have "fst ` set (zip (map key xs) [0..<length xs]) = set (map key xs)"
    by (metis diff_zero length_map length_upt map_fst_zip set_map)
  ultimately have "map_of (rev (zip (map key xs) [0..<length xs])) k = None"
    by (simp add: map_of_eq_None_iff)
  with None show ?thesis by simp
next
  case (Some x)
  then obtain i where i: "i < length xs" "key (xs ! i) = k" "x = xs ! i" by (auto simp: find_Some_iff)
  have "(k, i) \<in> set (zip (map key xs) [0..<length xs])" using i by (force simp: set_zip)
  then have "map_of (rev (zip (map key xs) [0..<length xs])) k = Some i"
    using assms by (simp add: map_of_eq_Some_iff map_fst_zip flip: rev_map)
  with Some i show ?thesis by simp
qed

theorem bevy_build_ok:
  assumes "adapters_ok adapters" and "bevy_build adapters = Some (Inr bs)"
  shows "bevy_schema_ok bs" and "bs_adapters bs = adapters"
proof -
  obtain defs where defs: "list_all2 (\<lambda>a d. schema_def a = Some d) adapters defs"
    and bs: "bs = \<lparr>bs_schema = \<lparr>components = defs\<rparr>, bs_adapters = adapters,
      bs_index = map_of (rev (zip (map ca_component_id adapters) [0..<length adapters]))\<rparr>"
    and ok: "schema_ok \<lparr>components = defs\<rparr>"
    using assms(2) by (auto simp: bevy_build_def those_map_Some res_simps schema_new_Inr)
  from defs have ids: "map cd_id defs = map ca_component_id adapters"
    by (induction rule: list_all2_induct) (auto dest: schema_def_id)
  then have dist: "distinct (map ca_component_id adapters)" using ok by (metis schema_ok_def schema.select_convs(1))
  show "bs_adapters bs = adapters" by (simp add: bs)
  have "adapter_by_component bs i = find (\<lambda>a. ca_component_id a = i) adapters" for i
    unfolding adapter_by_component_def bs bevy_schema.select_convs by (rule find_by_index [OF dist])
  then show "bevy_schema_ok bs"
    using assms(1) ok ids by (simp add: bevy_schema_ok_def bs adapters_ok_def)
qed

text \<open>The builder refuses two types with one component id, although the adapters would accept them.\<close>

lemma bevy_build_duplicate:
  assumes "\<not> distinct (map ca_component_id adapters)"
  shows "bevy_build adapters \<noteq> Some (Inr bs)"
proof -
  have False if defs: "list_all2 (\<lambda>a d. schema_def a = Some d) adapters defs" and "schema_ok \<lparr>components = defs\<rparr>" for defs
  proof -
    from defs have "map cd_id defs = map ca_component_id adapters"
      by (induction rule: list_all2_induct) (auto dest: schema_def_id)
    with that(2) assms show False by (metis schema_ok_def schema.select_convs(1))
  qed
  then show ?thesis by (auto simp: bevy_build_def those_map_Some res_simps schema_new_Inr)
qed

end
