(* ===== verification/Bevy_Apply.thy ===== *)
theory Bevy_Apply
  imports Bevy_Schema Delta_Apply
begin

text \<open>
  Applying a decoded delta to the engine's world (\<^verbatim>\<open>sdec-bevy/src/apply.rs\<close>), and its refinement: while
  the world shows a snapshot, applying changes to the world and to the snapshot keeps them the same.
  The world and the map are changed in place, so an error leaves them as they are at that moment; the
  steps return them beside the result.
\<close>

section \<open>The operations\<close>

type_synonym ('w, 'e) applied = "(bevy_error + unit) \<times> 'w \<times> 'e entity_map"

fun destroy_entities ::
  "('w, 'e, 'c) world_ops \<Rightarrow> entity_id list \<Rightarrow> 'w \<Rightarrow> 'e entity_map \<Rightarrow> 'w \<times> 'e entity_map" where
  "destroy_entities ops [] world m = (world, m)"
| "destroy_entities ops (d # ds) world m =
    (case map_entity d m of
       None \<Rightarrow> destroy_entities ops ds world m
     | Some entity \<Rightarrow> destroy_entities ops ds (wo_despawn ops entity world) (map_unregister d m))"

fun insert_components ::
  "('w, 'e, 'c) world_ops \<Rightarrow> 'c bevy_schema \<Rightarrow> 'e \<Rightarrow> component_snapshot list \<Rightarrow> 'w \<Rightarrow>
    ((bevy_error + unit) \<times> 'w) option" where
  "insert_components ops bs entity [] world = Some (Inr (), world)"
| "insert_components ops bs entity (c # cs) world =
    (case adapter_by_component bs (cs_id c) of
       None \<Rightarrow> Some (Inl (UnknownAdapter (cs_id c)), world)
     | Some a \<Rightarrow>
         Option.bind (adapter_insert_component ops a entity (cs_fields c) world) (\<lambda>(result, world).
           case result of Inl e \<Rightarrow> Some (Inl e, world)
           | Inr _ \<Rightarrow> insert_components ops bs entity cs world))"

fun create_entities ::
  "('w, 'e, 'c) world_ops \<Rightarrow> 'c bevy_schema \<Rightarrow> entity_snapshot list \<Rightarrow> 'w \<Rightarrow> 'e entity_map \<Rightarrow>
    ('w, 'e) applied option" where
  "create_entities ops bs [] world m = Some (Inr (), world, m)"
| "create_entities ops bs (c # cs) world m =
    (let (entity, world) = wo_spawn ops world;
         m = map_register (es_id c) entity m
     in Option.bind (insert_components ops bs entity (es_components c) world) (\<lambda>(result, world).
       case result of Inl e \<Rightarrow> Some (Inl e, world, m)
       | Inr _ \<Rightarrow> create_entities ops bs cs world m))"

fun update_components ::
  "('w, 'e, 'c) world_ops \<Rightarrow> 'c bevy_schema \<Rightarrow> 'e \<Rightarrow> delta_update_component list \<Rightarrow> 'w \<Rightarrow>
    (bevy_error + unit) \<times> 'w" where
  "update_components ops bs entity [] world = (Inr (), world)"
| "update_components ops bs entity (u # us) world =
    (case adapter_by_component bs (uc_id u) of
       None \<Rightarrow> (Inl (UnknownAdapter (uc_id u)), world)
     | Some a \<Rightarrow>
         (case adapter_apply_update ops a entity (uc_fields u) world of
            (Inl e, world) \<Rightarrow> (Inl e, world)
          | (Inr _, world) \<Rightarrow> update_components ops bs entity us world))"

text \<open>An update of an entity the map does not know is skipped.\<close>

fun apply_delta_updates ::
  "('w, 'e, 'c) world_ops \<Rightarrow> 'c bevy_schema \<Rightarrow> 'e entity_map \<Rightarrow> delta_update_entity list \<Rightarrow> 'w \<Rightarrow>
    (bevy_error + unit) \<times> 'w" where
  "apply_delta_updates ops bs m [] world = (Inr (), world)"
| "apply_delta_updates ops bs m (u # us) world =
    (case map_entity (ue_id u) m of
       None \<Rightarrow> apply_delta_updates ops bs m us world
     | Some entity \<Rightarrow>
         (case update_components ops bs entity (ue_components u) world of
            (Inl e, world) \<Rightarrow> (Inl e, world)
          | (Inr _, world) \<Rightarrow> apply_delta_updates ops bs m us world))"

definition bevy_apply_changes ::
  "('w, 'e, 'c) world_ops \<Rightarrow> 'c bevy_schema \<Rightarrow> entity_snapshot list \<Rightarrow> entity_id list \<Rightarrow>
    delta_update_entity list \<Rightarrow> 'w \<Rightarrow> 'e entity_map \<Rightarrow> ('w, 'e) applied option" where
  "bevy_apply_changes ops bs creates destroys updates world m =
    (let (world, m) = destroy_entities ops destroys world m
     in Option.bind (create_entities ops bs creates world m) (\<lambda>(result, world, m).
       case result of Inl e \<Rightarrow> Some (Inl e, world, m)
       | Inr _ \<Rightarrow>
           let (result, world) = apply_delta_updates ops bs m updates world in Some (result, world, m)))"

section \<open>What is relied on\<close>

text \<open>
  Of the engine: the documented effect of its calls on the components of the entities that are alive.
  Of the application's components: reading a component made from fs gives the fs, and
  assigning one field changes that field.
\<close>

definition world_laws :: "('w, 'e, 'c) world_ops \<Rightarrow> ('e \<Rightarrow> 'w \<Rightarrow> bool) \<Rightarrow> bool" where
  "world_laws ops alive \<longleftrightarrow>
    (\<forall>w e w'. wo_spawn ops w = (e, w') \<longrightarrow> \<not> alive e w \<and> (\<forall>e'. alive e' w' \<longleftrightarrow> alive e' w \<or> e' = e) \<and>
      (\<forall>t e'. wo_get ops t e' w' = (if e' = e then None else wo_get ops t e' w))) \<and>
    (\<forall>w e. (\<forall>e'. alive e' (wo_despawn ops e w) \<longleftrightarrow> alive e' w \<and> e' \<noteq> e) \<and>
      (\<forall>t e'. e' \<noteq> e \<longrightarrow> wo_get ops t e' (wo_despawn ops e w) = wo_get ops t e' w)) \<and>
    (\<forall>w e t c. alive e w \<longrightarrow> (\<exists>w'. wo_insert ops t e c w = Some w' \<and> (\<forall>e'. alive e' w' \<longleftrightarrow> alive e' w) \<and>
      (\<forall>t' e'. wo_get ops t' e' w' = (if t' = t \<and> e' = e then Some c else wo_get ops t' e' w)))) \<and>
    (\<forall>w e t c. wo_get ops t e w \<noteq> None \<longrightarrow> (\<forall>e'. alive e' (wo_write ops t e c w) \<longleftrightarrow> alive e' w) \<and>
      (\<forall>t' e'. wo_get ops t' e' (wo_write ops t e c w) =
        (if t' = t \<and> e' = e then Some c else wo_get ops t' e' w)))"

locale replicated_component =
  fixes rt :: "'c replicated" and valid :: "usize \<Rightarrow> field_value \<Rightarrow> bool"
  assumes read_from_fields: "rt_from_fields rt fs = Inr c \<Longrightarrow> \<forall>i < length fs. valid i (fs ! i) \<Longrightarrow>
      rt_read_fields rt c = fs"
    and read_apply_field: "rt_apply_field rt index v c = (Inr (), c') \<Longrightarrow> valid index v \<Longrightarrow>
      rt_read_fields rt c' = (rt_read_fields rt c)[index := v]"
    and read_length: "length (rt_read_fields rt c) = length (rt_fields rt)"
begin

text \<open>Assigning every field in order replaces them all.\<close>

lemma assign_all:
  "length vs = length fs \<Longrightarrow> assign_fields i (List.enumerate (length pre) fs) (pre @ vs) = Inr (pre @ fs)"
proof (induction fs arbitrary: pre vs)
  case (Cons f fs)
  then obtain v vs' where vs: "vs = v # vs'" "length vs' = length fs" by (cases vs) auto
  from Cons.IH [OF vs(2), of "pre @ [f]"] show ?case by (simp add: vs(1))
qed simp

lemma assign_every_field:
  assumes "length fs = length (rt_fields rt)"
  shows "assign_fields i (List.enumerate 0 fs) (rt_read_fields rt c) = Inr fs"
  using assign_all [of "rt_read_fields rt c" fs i "[]"] assms by (simp add: read_length)

lemma apply_fields_assigns:
  "apply_fields rt us c = (Inr (), c') \<Longrightarrow> \<forall>(i, v) \<in> set us. valid i v \<Longrightarrow>
    assign_fields i us (rt_read_fields rt c) = Inr vs \<Longrightarrow> rt_read_fields rt c' = vs"
proof (induction us arbitrary: c)
  case (Cons u us)
  obtain index v where u: "u = (index, v)" by fastforce
  with Cons.prems(1) obtain c1 where c1: "rt_apply_field rt index v c = (Inr (), c1)" "apply_fields rt us c1 = (Inr (), c')"
    by (auto split: prod.splits sum.splits)
  then have "rt_read_fields rt c1 = (rt_read_fields rt c)[index := v]"
    using read_apply_field Cons.prems(2) u by simp
  with Cons.IH [OF c1(2)] Cons.prems(2,3) u show ?case by (simp split: if_splits)
qed simp

end

text \<open>
  The values that the components hold without loss, by component, field index and value: the laws are
  asked for these only.
\<close>

definition snapshot_valid :: "(component_id \<Rightarrow> usize \<Rightarrow> field_value \<Rightarrow> bool) \<Rightarrow> component_snapshot \<Rightarrow> bool" where
  "snapshot_valid valid c \<longleftrightarrow> (\<forall>i < length (cs_fields c). valid (cs_id c) i (cs_fields c ! i))"

definition update_valid :: "(component_id \<Rightarrow> usize \<Rightarrow> field_value \<Rightarrow> bool) \<Rightarrow> delta_update_component \<Rightarrow> bool" where
  "update_valid valid u \<longleftrightarrow> (\<forall>(i, v) \<in> set (uc_fields u). valid (uc_id u) i v)"

definition engine_ok ::
  "('w, 'e, 'c) world_ops \<Rightarrow> ('e \<Rightarrow> 'w \<Rightarrow> bool) \<Rightarrow> (component_id \<Rightarrow> usize \<Rightarrow> field_value \<Rightarrow> bool) \<Rightarrow>
    'c bevy_schema \<Rightarrow> bool" where
  "engine_ok ops alive valid bs \<longleftrightarrow> world_laws ops alive \<and> bevy_schema_ok bs \<and>
    (\<forall>a \<in> set (bs_adapters bs). replicated_component (ca_trait a) (valid (ca_component_id a)))"

lemma engine_okD:
  assumes "engine_ok ops alive valid bs"
  shows "world_laws ops alive" "bevy_schema_ok bs"
    "\<And>a. a \<in> set (bs_adapters bs) \<Longrightarrow> replicated_component (ca_trait a) (valid (ca_component_id a))"
  using assms by (auto simp: engine_ok_def)

lemma spawn_law:
  assumes "world_laws ops alive" and "wo_spawn ops w = (e, w')"
  shows "\<not> alive e w" "alive e' w' \<longleftrightarrow> alive e' w \<or> e' = e"
    "wo_get ops t e' w' = (if e' = e then None else wo_get ops t e' w)"
  using assms by (auto simp: world_laws_def)

lemma despawn_law:
  assumes "world_laws ops alive"
  shows "alive e' (wo_despawn ops e w) \<longleftrightarrow> alive e' w \<and> e' \<noteq> e"
    "e' \<noteq> e \<Longrightarrow> wo_get ops t e' (wo_despawn ops e w) = wo_get ops t e' w"
  using assms by (simp_all add: world_laws_def)

lemma insert_law:
  assumes "world_laws ops alive" and "alive e w"
  obtains w' where "wo_insert ops t e c w = Some w'" "\<And>e'. alive e' w' \<longleftrightarrow> alive e' w"
    "\<And>t' e'. wo_get ops t' e' w' = (if t' = t \<and> e' = e then Some c else wo_get ops t' e' w)"
proof -
  from assms have "\<exists>w'. wo_insert ops t e c w = Some w' \<and> (\<forall>e'. alive e' w' \<longleftrightarrow> alive e' w) \<and>
      (\<forall>t' e'. wo_get ops t' e' w' = (if t' = t \<and> e' = e then Some c else wo_get ops t' e' w))"
    unfolding world_laws_def by simp
  then show thesis using that by blast
qed

lemma write_law:
  assumes "world_laws ops alive" and "wo_get ops t e w = Some c0"
  shows "alive e' (wo_write ops t e c w) \<longleftrightarrow> alive e' w"
    "wo_get ops t' e' (wo_write ops t e c w) = (if t' = t \<and> e' = e then Some c else wo_get ops t' e' w)"
  using assms by (simp_all add: world_laws_def)


section \<open>No panic\<close>

lemma insert_components_returns:
  assumes "world_laws ops alive"
  shows "alive e w \<Longrightarrow> insert_components ops bs e cs w \<noteq> None"
proof (induction cs arbitrary: w)
  case (Cons c cs)
  show ?case
  proof (cases "adapter_by_component bs (cs_id c)")
    case (Some a)
    show ?thesis
    proof (cases "rt_from_fields (ca_trait a) (cs_fields c)")
      case (Inr component)
      from insert_law [OF assms Cons.prems, of "adapter_type_id a" component] obtain w' where
        "wo_insert ops (adapter_type_id a) e component w = Some w'" "alive e w'" using Cons.prems by metis
      with Cons.IH Some Inr show ?thesis by (simp add: adapter_insert_component_def)
    qed (simp add: Some adapter_insert_component_def)
  qed simp
qed simp

lemma create_entities_returns:
  assumes "world_laws ops alive"
  shows "create_entities ops bs cs w m \<noteq> None"
proof (induction cs arbitrary: w m)
  case (Cons c cs)
  obtain e w1 where spawn: "wo_spawn ops w = (e, w1)" by fastforce
  with spawn_law [OF assms] insert_components_returns [OF assms] have
    "insert_components ops bs e (es_components c) w1 \<noteq> None" by blast
  with Cons.IH spawn show ?case by (auto simp: Let_def split: sum.split)
qed simp

theorem bevy_apply_returns:
  assumes "world_laws ops alive"
  shows "bevy_apply_changes ops bs cs ds us w m \<noteq> None"
proof -
  obtain w1 m1 where destroyed: "destroy_entities ops ds w m = (w1, m1)" by fastforce
  from create_entities_returns [OF assms] obtain r w2 m2 where "create_entities ops bs cs w1 m1 = Some (r, w2, m2)"
    by fast
  with destroyed show ?thesis by (simp add: bevy_apply_changes_def split: prod.split sum.split)
qed

section \<open>Reading an entity\<close>

lemma built_adapters:
  assumes "bevy_schema_ok bs"
  shows "adapter_by_component bs i = Some a \<Longrightarrow> a \<in> set (bs_adapters bs) \<and> ca_component_id a = i"
    and "a \<in> set (bs_adapters bs) \<Longrightarrow> b \<in> set (bs_adapters bs) \<Longrightarrow> adapter_type_id a = adapter_type_id b \<longleftrightarrow> a = b"
    and "a \<in> set (bs_adapters bs) \<Longrightarrow> b \<in> set (bs_adapters bs) \<Longrightarrow> ca_component_id a = ca_component_id b \<longleftrightarrow> a = b"
proof -
  have "distinct (map ca_component_id (bs_adapters bs))"
    using assms by (metis bevy_schema_ok_def schema_ok_def)
  moreover have "distinct (map adapter_type_id (bs_adapters bs))" using assms by (simp add: bevy_schema_ok_def)
  ultimately show "a \<in> set (bs_adapters bs) \<Longrightarrow> b \<in> set (bs_adapters bs) \<Longrightarrow> adapter_type_id a = adapter_type_id b \<longleftrightarrow> a = b"
    "a \<in> set (bs_adapters bs) \<Longrightarrow> b \<in> set (bs_adapters bs) \<Longrightarrow> ca_component_id a = ca_component_id b \<longleftrightarrow> a = b"
    by (auto simp: distinct_map dest: inj_onD)
  show "adapter_by_component bs i = Some a \<Longrightarrow> a \<in> set (bs_adapters bs) \<and> ca_component_id a = i"
    using assms by (auto simp: bevy_schema_ok_def find_Some_iff)
qed

lemma snapshot_component_id: "snapshot_component ops w e a = Some c \<Longrightarrow> cs_id c = ca_component_id a"
  by (auto simp: snapshot_component_def)

lemma map_filter_cong: "(\<And>x. x \<in> set xs \<Longrightarrow> f x = g x) \<Longrightarrow> List.map_filter f xs = List.map_filter g xs"
  by (induction xs) (simp_all add: List.map_filter_simps(1) split: option.split)

lemma snapshot_entity_cong:
  "(\<And>a. a \<in> set (bs_adapters bs) \<Longrightarrow> snapshot_component ops w' e a = snapshot_component ops w e a) \<Longrightarrow>
    snapshot_entity ops bs w' e = snapshot_entity ops bs w e"
  unfolding snapshot_entity_def by (rule map_filter_cong)

lemma snapshot_entity_frame:
  "(\<And>t. wo_get ops t e w' = wo_get ops t e w) \<Longrightarrow> snapshot_entity ops bs w' e = snapshot_entity ops bs w e"
  by (rule snapshot_entity_cong) (simp add: snapshot_component_def)

lemma map_filter_image: "List.map_filter (\<lambda>x. f (g x)) xs = List.map_filter f (map g xs)"
  by (simp add: List.map_filter_def filter_map o_def)

lemma map_map_filter: "map g (List.map_filter f xs) = List.map_filter (\<lambda>x. map_option g (f x)) xs"
  by (induction xs) (simp_all add: List.map_filter_simps(1) split: option.split)

lemma snapshot_entity_distinct:
  assumes "bevy_schema_ok bs"
  shows "distinct (map cs_id (snapshot_entity ops bs w e))"
proof -
  have "map cs_id (List.map_filter (snapshot_component ops w e) as) =
      map ca_component_id (filter (\<lambda>a. snapshot_component ops w e a \<noteq> None) as)" for as
    by (induction as) (auto simp: List.map_filter_simps(1) snapshot_component_id split: option.split)
  moreover have "distinct (map ca_component_id (bs_adapters bs))" using assms by (metis bevy_schema_ok_def schema_ok_def)
  ultimately show ?thesis by (simp add: snapshot_entity_def distinct_map_filter)
qed


section \<open>What the world shows\<close>

text \<open>
  The world shows a list of entities: the map is in order, it knows exactly their ids, every entity it
  leads to is alive, and reading it gives the components of the list's entity.
\<close>

definition shows_snapshot ::
  "('w, 'e, 'c) world_ops \<Rightarrow> ('e \<Rightarrow> 'w \<Rightarrow> bool) \<Rightarrow> 'c bevy_schema \<Rightarrow> entity_snapshot list \<Rightarrow> 'w \<Rightarrow>
    'e entity_map \<Rightarrow> bool" where
  "shows_snapshot ops alive bs es w m \<longleftrightarrow> entity_map_ok m \<and>
    (\<forall>i e. em_to_entity m i = Some e \<longrightarrow> alive e w) \<and> dom (em_to_entity m) = es_id ` set es \<and>
    (\<forall>x \<in> set es. \<forall>e. em_to_entity m (es_id x) = Some e \<longrightarrow> snapshot_entity ops bs w e = es_components x)"

lemma shows_snapshotD:
  assumes "shows_snapshot ops alive bs es w m"
  shows "entity_map_ok m" "em_to_entity m i = Some e \<Longrightarrow> alive e w" "dom (em_to_entity m) = es_id ` set es"
    "x \<in> set es \<Longrightarrow> em_to_entity m (es_id x) = Some e \<Longrightarrow> snapshot_entity ops bs w e = es_components x"
  using assms by (auto simp: shows_snapshot_def)

lemma shows_empty: "shows_snapshot ops alive bs [] w entity_map_new"
  by (simp add: shows_snapshot_def entity_map_new_ok) (simp add: entity_map_new_def)

lemma shows_destroyed:
  assumes laws: "world_laws ops alive" and view: "shows_snapshot ops alive bs es w m"
    and e: "em_to_entity m d = Some e"
  shows "shows_snapshot ops alive bs (filter (\<lambda>x. es_id x \<noteq> d) es) (wo_despawn ops e w) (map_unregister d m)"
proof -
  note ok = shows_snapshotD [OF view]
  have rest: "em_to_entity (map_unregister d m) = (em_to_entity m)(d := None)"
    using e by (simp add: map_unregister_def)
  have other: "e' \<noteq> e" if "i \<noteq> d" "em_to_entity m i = Some e'" for i e'
    using that e entity_map_injective(2) [OF ok(1), of i e d] by auto
  have "snapshot_entity ops bs (wo_despawn ops e w) e' = snapshot_entity ops bs w e'" if "e' \<noteq> e" for e'
    using despawn_law(2) [OF laws that] by (rule snapshot_entity_frame)
  with other ok(2,4) show ?thesis
    unfolding shows_snapshot_def rest using map_unregister_ok [OF ok(1)] ok(3) despawn_law(1) [OF laws]
    by (auto split: if_splits)
qed

lemma shows_destroys:
  assumes "world_laws ops alive"
  shows "shows_snapshot ops alive bs es w m \<Longrightarrow> destroy_entities ops ds w m = (w', m') \<Longrightarrow>
    shows_snapshot ops alive bs (filter (\<lambda>x. es_id x \<notin> set ds) es) w' m'"
proof (induction ds arbitrary: es w m)
  case (Cons d ds)
  show ?case
  proof (cases "map_entity d m")
    case None
    then have "d \<notin> es_id ` set es" using shows_snapshotD(3) [OF Cons.prems(1)] by (auto simp: map_entity_def)
    then have "filter (\<lambda>x. es_id x \<notin> set (d # ds)) es = filter (\<lambda>x. es_id x \<notin> set ds) es" by (auto intro: filter_cong)
    with Cons.IH [OF Cons.prems(1)] Cons.prems(2) None show ?thesis by simp
  next
    case (Some e)
    then have "shows_snapshot ops alive bs (filter (\<lambda>x. es_id x \<noteq> d) es) (wo_despawn ops e w) (map_unregister d m)"
      using shows_destroyed [OF assms Cons.prems(1)] by (simp add: map_entity_def)
    from Cons.IH [OF this] Cons.prems(2) Some show ?thesis by (simp add: conj_commute)
  qed
qed simp

section \<open>Creating entities\<close>

lemma insert_components_effect:
  assumes engine: "engine_ok ops alive valid bs"
  shows "insert_components ops bs e cs w = Some (Inr (), w') \<Longrightarrow> alive e w \<Longrightarrow> distinct (map cs_id cs) \<Longrightarrow>
    \<forall>c \<in> set cs. snapshot_valid valid c \<Longrightarrow>
    (\<forall>e'. alive e' w' \<longleftrightarrow> alive e' w) \<and> (\<forall>t e'. e' \<noteq> e \<longrightarrow> wo_get ops t e' w' = wo_get ops t e' w) \<and>
    (\<forall>a \<in> set (bs_adapters bs). snapshot_component ops w' e a =
      (case find (\<lambda>c. cs_id c = ca_component_id a) cs of Some c \<Rightarrow> Some c | None \<Rightarrow> snapshot_component ops w e a))"
proof (induction cs arbitrary: w)
  case (Cons c cs)
  note ok = engine_okD [OF engine]
  from Cons.prems(1) obtain a where a: "adapter_by_component bs (cs_id c) = Some a"
    by (auto split: option.splits)
  note a' = built_adapters(1) [OF ok(2) a]
  from Cons.prems(1) a obtain component where c: "rt_from_fields (ca_trait a) (cs_fields c) = Inr component"
    by (auto simp: adapter_insert_component_def bind_eq_Some_conv split: sum.splits)
  from insert_law [OF ok(1) Cons.prems(2)] obtain w1 where
    w1: "wo_insert ops (adapter_type_id a) e component w = Some w1" "\<And>e'. alive e' w1 \<longleftrightarrow> alive e' w"
      "\<And>t' e'. wo_get ops t' e' w1 = (if t' = adapter_type_id a \<and> e' = e then Some component else wo_get ops t' e' w)"
    by metis
  have rest: "insert_components ops bs e cs w1 = Some (Inr (), w')"
    using Cons.prems(1) a c w1(1) by (simp add: adapter_insert_component_def)
  note IH = Cons.IH [OF rest] w1(2) Cons.prems(2-4)
  have "rt_read_fields (ca_trait a) component = cs_fields c"
    using replicated_component.read_from_fields [OF ok(3) c] a' Cons.prems(4) by (simp add: snapshot_valid_def)
  then have here: "snapshot_component ops w1 e a = Some c"
    using a' by (simp add: snapshot_component_def w1(3))
  have there: "snapshot_component ops w1 e b = snapshot_component ops w e b"
    if "b \<in> set (bs_adapters bs)" "b \<noteq> a" for b
    using built_adapters(2) [OF ok(2) that(1)] a' that(2) by (simp add: snapshot_component_def w1(3))
  have gone: "find (\<lambda>x. cs_id x = ca_component_id a) cs = None"
    using Cons.prems(3) a' by (auto simp: find_None_iff rev_image_eqI)
  have "snapshot_component ops w' e b = (case find (\<lambda>x. cs_id x = ca_component_id b) (c # cs) of Some c \<Rightarrow> Some c
      | None \<Rightarrow> snapshot_component ops w e b)" if b: "b \<in> set (bs_adapters bs)" for b
    using IH b here gone a' there [OF b] built_adapters(3) [OF ok(2) b, of a] by (cases "b = a") (auto split: option.split)
  then show ?case using IH w1(2,3) by auto
qed simp

lemma reads_entity:
  assumes ok: "bevy_schema_ok bs" and canon: "canonical_entity (bs_schema bs) c = c"
    and here: "\<And>a. a \<in> set (bs_adapters bs) \<Longrightarrow> snapshot_component ops w e a = find_component c (ca_component_id a)"
  shows "snapshot_entity ops bs w e = es_components c"
proof -
  have ids: "map cd_id (components (bs_schema bs)) = map ca_component_id (bs_adapters bs)"
    using ok by (simp add: bevy_schema_ok_def)
  have "snapshot_entity ops bs w e =
      List.map_filter (\<lambda>a. find_component c (ca_component_id a)) (bs_adapters bs)"
    unfolding snapshot_entity_def by (rule map_filter_cong) (simp add: here)
  also have "\<dots> = List.map_filter (find_component c) (map ca_component_id (bs_adapters bs))"
    by (rule map_filter_image)
  also have "\<dots> = List.map_filter (\<lambda>d. find_component c (cd_id d)) (components (bs_schema bs))"
    unfolding ids(1) [symmetric] by (rule map_filter_image [symmetric])
  also have "\<dots> = es_components c" using canon by (metis canonical_entity_def entity_snapshot.ext_inject
      entity_snapshot.surjective entity_snapshot.update_convs(2))
  finally show ?thesis .
qed

lemma shows_created:
  assumes engine: "engine_ok ops alive valid bs" and view: "shows_snapshot ops alive bs es w m"
    and new: "es_id c \<notin> es_id ` set es" and canon: "canonical_entity (bs_schema bs) c = c"
    and vals: "\<forall>x \<in> set (es_components c). snapshot_valid valid x"
    and spawn: "wo_spawn ops w = (e, w1)" and insert: "insert_components ops bs e (es_components c) w1 = Some (Inr (), w2)"
  shows "shows_snapshot ops alive bs (c # es) w2 (map_register (es_id c) e m)"
proof -
  note ok = engine_okD [OF engine] and old = shows_snapshotD [OF view]
  note spawned = spawn_law [OF engine_okD(1) [OF engine] spawn]
  have "schema_ok (bs_schema bs)" using ok(2) by (simp add: bevy_schema_ok_def)
  from canonical_entity_ok [OF this, of c] have "distinct (map cs_id (es_components c))" using canon by (simp add: entity_ok_def)
  note effect = insert_components_effect [OF engine insert _ this vals]
  have alive: "alive e w1" using spawned(2) by simp
  note effect = effect [OF this]
  have unknown: "em_to_id m e = None" "em_to_entity m (es_id c) = None"
    using old(2) spawned(1) entity_map_okD(1) [OF old(1)] old(3) new by (metis not_None_eq, auto)
  have m': "em_to_entity (map_register (es_id c) e m) = (em_to_entity m)(es_id c \<mapsto> e)" by (simp add: map_register_def)
  have none: "snapshot_component ops w1 e a = None" for a by (simp add: snapshot_component_def spawned(3))
  have here: "snapshot_component ops w2 e a = find_component c (ca_component_id a)" if "a \<in> set (bs_adapters bs)" for a
    using effect none that by (simp add: find_component_def split: option.split)
  have shown: "snapshot_entity ops bs w2 e = es_components c" by (rule reads_entity [OF ok(2) canon here])
  have kept: "snapshot_entity ops bs w2 e' = snapshot_entity ops bs w e'" if "e' \<noteq> e" for e'
    using effect spawned(3) that by (intro snapshot_entity_frame) simp
  have other: "e' \<noteq> e" if "em_to_entity m i = Some e'" for i e' using old(2) [OF that] spawned(1) by auto
  show ?thesis
    unfolding shows_snapshot_def m'
  proof (intro conjI ballI allI impI)
    fix x e' assume x: "x \<in> set (c # es)" "((em_to_entity m)(es_id c \<mapsto> e)) (es_id x) = Some e'"
    show "snapshot_entity ops bs w2 e' = es_components x"
    proof (cases "x = c")
      case False
      then have "x \<in> set es" "es_id x \<noteq> es_id c" using x(1) new by (auto simp: rev_image_eqI)
      then show ?thesis using x(2) old(4) kept other by simp
    qed (use x(2) shown in simp)
  qed (use map_register_ok [OF old(1) unknown] effect spawned(2) old(2,3) in \<open>auto split: if_splits\<close>)
qed

lemma shows_creates:
  assumes engine: "engine_ok ops alive valid bs"
  shows "shows_snapshot ops alive bs es w m \<Longrightarrow> es_id ` set es \<inter> es_id ` set cs = {} \<Longrightarrow>
    distinct (map es_id cs) \<Longrightarrow> \<forall>c \<in> set cs. canonical_entity (bs_schema bs) c = c \<Longrightarrow>
    \<forall>c \<in> set cs. \<forall>x \<in> set (es_components c). snapshot_valid valid x \<Longrightarrow>
    create_entities ops bs cs w m = Some (Inr (), w', m') \<Longrightarrow> shows_snapshot ops alive bs (rev cs @ es) w' m'"
proof (induction cs arbitrary: es w m)
  case (Cons c cs)
  obtain e w1 where spawn: "wo_spawn ops w = (e, w1)" by fastforce
  from Cons.prems(6) spawn obtain r w2 where
    result: "insert_components ops bs e (es_components c) w1 = Some (r, w2)"
    by (auto simp: Let_def bind_eq_Some_conv)
  with Cons.prems(6) spawn have insert: "insert_components ops bs e (es_components c) w1 = Some (Inr (), w2)"
    and rest: "create_entities ops bs cs w2 (map_register (es_id c) e m) = Some (Inr (), w', m')"
    by (cases r, simp_all add: Let_def)+
  have "shows_snapshot ops alive bs (c # es) w2 (map_register (es_id c) e m)"
    using shows_created [OF engine Cons.prems(1) _ _ _ spawn insert] Cons.prems(2,4,5) by auto
  from Cons.IH [OF this _ _ _ _ rest] Cons.prems(2-5) show ?case by auto
qed simp

section \<open>Updating entities\<close>

lemma update_component_mapped:
  assumes "update_component eid u cs = Inr cs'" and "distinct (map cs_id cs)"
  obtains c vs where "c \<in> set cs" "cs_id c = uc_id u" "assign_fields (uc_id u) (uc_fields u) (cs_fields c) = Inr vs"
    "cs' = map (\<lambda>x. if cs_id x = uc_id u then x\<lparr>cs_fields := vs\<rparr> else x) cs"
proof -
  have "\<exists>c vs. c \<in> set cs \<and> cs_id c = uc_id u \<and> assign_fields (uc_id u) (uc_fields u) (cs_fields c) = Inr vs \<and>
      cs' = map (\<lambda>x. if cs_id x = uc_id u then x\<lparr>cs_fields := vs\<rparr> else x) cs"
    using assms
  proof (induction cs arbitrary: cs')
    case (Cons c cs)
    show ?case
    proof (cases "cs_id c = uc_id u")
      case True
      with Cons.prems(2) have "cs_id x \<noteq> uc_id u" if "x \<in> set cs" for x using that by (auto simp: rev_image_eqI)
      then have "map (\<lambda>x. if cs_id x = uc_id u then x\<lparr>cs_fields := vs\<rparr> else x) cs = cs" for vs
        by (intro map_idI) simp
      with True Cons.prems(1) show ?thesis by (auto simp: res_simps)
    next
      case False
      with Cons.prems Cons.IH show ?thesis by (fastforce simp: res_simps)
    qed
  qed simp
  then show thesis using that by blast
qed

text \<open>One component of an update, on the world and on the entity's components.\<close>

lemma adapter_apply_effect:
  assumes laws: "world_laws ops alive" "replicated_component (ca_trait a) valid"
    and vals: "\<forall>(i, v) \<in> set us. valid i v"
    and comp: "wo_get ops (adapter_type_id a) e w = Some component"
    and ran: "adapter_apply_update ops a e us w = (Inr (), w')"
    and vs: "assign_fields i us (rt_read_fields (ca_trait a) component) = Inr vs"
  obtains component' where "rt_read_fields (ca_trait a) component' = vs"
    "\<And>t e'. wo_get ops t e' w' = (if t = adapter_type_id a \<and> e' = e then Some component' else wo_get ops t e' w)"
    "\<And>e'. alive e' w' \<longleftrightarrow> alive e' w"
proof (cases "us = []")
  case True
  with ran vs comp show thesis by (intro that [of component]) (auto simp: adapter_apply_update_def)
next
  case False
  obtain r component' where run: "apply_fields (ca_trait a) us component = (r, component')" by fastforce
  with ran comp False have "r = Inr ()" "w' = wo_write ops (adapter_type_id a) e component' w"
    by (auto simp: adapter_apply_update_def)
  with run replicated_component.apply_fields_assigns [OF laws(2) _ vals vs] write_law [OF laws(1) comp] show thesis
    by (intro that [of component']) simp_all
qed

lemma update_one_component:
  assumes engine: "engine_ok ops alive valid bs" and a: "adapter_by_component bs (uc_id u) = Some a"
    and world: "adapter_apply_update ops a e (uc_fields u) w = (Inr (), w')"
    and vals: "update_valid valid u"
    and snap: "update_component eid u (snapshot_entity ops bs w e) = Inr cs'"
  shows "snapshot_entity ops bs w' e = cs'" and "alive e' w' \<longleftrightarrow> alive e' w"
    and "e' \<noteq> e \<Longrightarrow> wo_get ops t e' w' = wo_get ops t e' w"
proof -
  note ok = engine_okD [OF engine]
  note a' = built_adapters(1) [OF ok(2) a]
  from update_component_mapped [OF snap snapshot_entity_distinct [OF ok(2)]] obtain c vs where
    c: "c \<in> set (snapshot_entity ops bs w e)" "cs_id c = uc_id u"
    and vs: "assign_fields (uc_id u) (uc_fields u) (cs_fields c) = Inr vs"
    and cs': "cs' = map (\<lambda>x. if cs_id x = uc_id u then x\<lparr>cs_fields := vs\<rparr> else x) (snapshot_entity ops bs w e)" .
  from c(1) obtain b where b: "b \<in> set (bs_adapters bs)" "snapshot_component ops w e b = Some c"
    by (auto simp: snapshot_entity_def List.map_filter_def)
  have "b = a" using built_adapters(3) [OF ok(2) b(1)] a' snapshot_component_id [OF b(2)] c(2) by metis
  with b obtain component where comp: "wo_get ops (adapter_type_id a) e w = Some component"
    "cs_fields c = rt_read_fields (ca_trait a) component" by (auto simp: snapshot_component_def)
  obtain component' where new: "rt_read_fields (ca_trait a) component' = vs"
    "\<And>t e'. wo_get ops t e' w' = (if t = adapter_type_id a \<and> e' = e then Some component' else wo_get ops t e' w)"
    "\<And>e'. alive e' w' \<longleftrightarrow> alive e' w"
    using a' ok(3) [of a] vals
    by (rule_tac adapter_apply_effect [OF ok(1) _ _ comp(1) world vs [unfolded comp(2)], of "valid (uc_id u)"])
      (auto simp: update_valid_def)
  have there: "snapshot_component ops w' e b = map_option (\<lambda>x. if cs_id x = uc_id u then x\<lparr>cs_fields := vs\<rparr> else x)
      (snapshot_component ops w e b)" if b: "b \<in> set (bs_adapters bs)" for b
  proof (cases "b = a")
    case True
    with comp(1) new(1,2) a' show ?thesis by (simp add: snapshot_component_def)
  next
    case False
    then have "adapter_type_id b \<noteq> adapter_type_id a" "ca_component_id b \<noteq> uc_id u"
      using built_adapters(2,3) [OF ok(2) b, of a] a' by auto
    then show ?thesis by (simp add: snapshot_component_def new(2) option.map_comp o_def)
  qed
  show "snapshot_entity ops bs w' e = cs'"
    unfolding cs' snapshot_entity_def map_map_filter by (rule map_filter_cong) (rule there)
  show "alive e' w' \<longleftrightarrow> alive e' w" by (rule new(3))
  show  "e' \<noteq> e \<Longrightarrow> wo_get ops t e' w' = wo_get ops t e' w" by (simp add: new(2))
qed

lemma update_components_effect:
  assumes engine: "engine_ok ops alive valid bs"
  shows "update_components ops bs e us w = (Inr (), w') \<Longrightarrow>
    try_fold (update_component eid) us (snapshot_entity ops bs w e) = Inr cs' \<Longrightarrow>
    \<forall>u \<in> set us. update_valid valid u \<Longrightarrow>
    snapshot_entity ops bs w' e = cs' \<and> (\<forall>e'. alive e' w' \<longleftrightarrow> alive e' w) \<and>
    (\<forall>t e'. e' \<noteq> e \<longrightarrow> wo_get ops t e' w' = wo_get ops t e' w)"
proof (induction us arbitrary: w)
  case (Cons u us)
  from Cons.prems(1) obtain a where a: "adapter_by_component bs (uc_id u) = Some a"
    by (auto split: option.splits)
  obtain r w1 where run: "adapter_apply_update ops a e (uc_fields u) w = (r, w1)" by fastforce
  with Cons.prems(1) a have first: "adapter_apply_update ops a e (uc_fields u) w = (Inr (), w1)"
    and rest: "update_components ops bs e us w1 = (Inr (), w')"
    by (cases r, simp_all)+
  from Cons.prems(2) obtain cs1 where cs1: "update_component eid u (snapshot_entity ops bs w e) = Inr cs1"
    "try_fold (update_component eid) us cs1 = Inr cs'" by (auto simp: res_simps)
  have "update_valid valid u" using Cons.prems(3) by simp
  note one = update_one_component [OF engine a first this cs1(1)]
  from Cons.IH [OF rest] cs1(2) one Cons.prems(3) show ?case by simp
qed simp

lemma shows_updates:
  assumes engine: "engine_ok ops alive valid bs"
  shows "shows_snapshot ops alive bs es w m \<Longrightarrow> ids_sorted es \<Longrightarrow> apply_updates us es = Inr es' \<Longrightarrow>
    \<forall>u \<in> set us. \<forall>c \<in> set (ue_components u). update_valid valid c \<Longrightarrow>
    apply_delta_updates ops bs m us w = (Inr (), w') \<Longrightarrow> shows_snapshot ops alive bs es' w' m"
  unfolding apply_updates_def
proof (induction us arbitrary: es w)
  case (Cons u us)
  note view = shows_snapshotD [OF Cons.prems(1)]
  from Cons.prems(3) obtain es1 where es1: "apply_update u es = Inr es1" "try_fold apply_update us es1 = Inr es'"
    by (auto simp: res_simps)
  then obtain x x' where x: "x \<in> set es" "es_id x = ue_id u" "update_entity u x = Inr x'"
    and mapped: "es1 = map (\<lambda>y. if es_id y = ue_id u then x' else y) es"
    using apply_update_iff [OF Cons.prems(2)] by blast
  from x(1,2) view(3) obtain e where e: "em_to_entity m (ue_id u) = Some e" by force
  obtain r w1 where run: "update_components ops bs e (ue_components u) w = (r, w1)" by fastforce
  with Cons.prems(5) e have first: "update_components ops bs e (ue_components u) w = (Inr (), w1)"
    and rest: "apply_delta_updates ops bs m us w1 = (Inr (), w')"
    by (cases r, simp_all add: map_entity_def)+
  have shown: "snapshot_entity ops bs w e = es_components x" using view(4) [OF x(1)] x(2) e by simp
  from x(3) obtain cs where cs: "try_fold (update_component (entity_raw (ue_id u))) (ue_components u) (es_components x) = Inr cs"
    "x' = x\<lparr>es_components := cs\<rparr>" by (auto simp: update_entity_def res_simps)
  have vals: "\<forall>c \<in> set (ue_components u). update_valid valid c" using Cons.prems(4) by simp
  note effect = update_components_effect [OF engine first cs(1) [folded shown] vals]
  have kept: "snapshot_entity ops bs w1 e' = snapshot_entity ops bs w e'" if "e' \<noteq> e" for e'
    using effect that by (intro snapshot_entity_frame) simp
  have other: "e' \<noteq> e" if "i \<noteq> ue_id u" "em_to_entity m i = Some e'" for i e'
    using that e entity_map_injective(2) [OF view(1), of i e "ue_id u"] by auto
  have "map es_id es1 = map es_id es" using apply_update_sorted [OF Cons.prems(2) es1(1)] by simp
  then have ids: "es_id ` set es1 = es_id ` set es" by (metis set_map)
  have "shows_snapshot ops alive bs es1 w1 m"
    unfolding shows_snapshot_def ids
  proof (intro conjI ballI allI impI)
    fix y e' assume y: "y \<in> set es1" "em_to_entity m (es_id y) = Some e'"
    show "snapshot_entity ops bs w1 e' = es_components y"
    proof (cases "es_id y = ue_id u")
      case True
      then have "y = x'" using y(1) x(2) cs(2) unfolding mapped by auto
      with y(2) True e effect cs(2) show ?thesis by simp
    next
      case False
      then have "y \<in> set es" using y(1) x(2) cs(2) unfolding mapped by (auto split: if_splits)
      with kept [OF other [OF False y(2)]] view(4) y(2) show ?thesis by simp
    qed
  qed (use view effect in auto)
  from Cons.IH [OF this conjunct1 [OF apply_update_sorted [OF Cons.prems(2) es1(1)]] es1(2) _ rest] Cons.prems(4) show ?case by simp
qed simp

section \<open>The world follows the snapshot\<close>

theorem bevy_apply_refines:
  assumes engine: "engine_ok ops alive valid bs" and view: "shows_snapshot ops alive bs es w m"
    and sorted: "ids_sorted es" "sorted_wrt (<) ds" "ids_sorted cs"
    and codec: "apply_destroys es ds = Inr es1" "apply_creates es1 cs = Inr es2" "apply_updates us es2 = Inr es3"
    and canon: "\<forall>c \<in> set cs. canonical_entity (bs_schema bs) c = c"
    and vals: "\<forall>c \<in> set cs. \<forall>x \<in> set (es_components c). snapshot_valid valid x"
      "\<forall>u \<in> set us. \<forall>c \<in> set (ue_components u). update_valid valid c"
    and world: "bevy_apply_changes ops bs cs ds us w m = Some (Inr (), w', m')"
  shows "shows_snapshot ops alive bs es3 w' m'"
proof -
  obtain w1 m1 where destroyed: "destroy_entities ops ds w m = (w1, m1)" by fastforce
  from world destroyed obtain r w2 m2 where run: "create_entities ops bs cs w1 m1 = Some (r, w2, m2)"
    by (auto simp: bevy_apply_changes_def bind_eq_Some_conv)
  with world destroyed have made: "create_entities ops bs cs w1 m1 = Some (Inr (), w2, m2)"
    and updated: "apply_delta_updates ops bs m2 us w2 = (Inr (), w')" and m': "m' = m2"
    by (cases r, simp_all add: bevy_apply_changes_def split: prod.splits)+
  have es1: "es1 = filter (\<lambda>x. es_id x \<notin> set ds) es" using apply_destroys_iff [OF sorted(1,2)] codec(1) by blast
  then have s1: "ids_sorted es1" using sorted(1) by (simp add: ids_sorted_filter)
  have es2: "es_id ` set es1 \<inter> es_id ` set cs = {}" "ids_sorted es2" "set es2 = set es1 \<union> set cs"
    using apply_creates_iff [OF s1 sorted(3)] codec(2) by auto
  have "shows_snapshot ops alive bs es1 w1 m1"
    unfolding es1 by (rule shows_destroys [OF engine_okD(1) [OF engine] view destroyed])
  from shows_creates [OF engine this es2(1) _ canon vals(1) made] sorted(3)
  have "shows_snapshot ops alive bs (rev cs @ es1) w2 m2" by (simp add: strict_sorted_iff)
  then have "shows_snapshot ops alive bs es2 w2 m2" unfolding shows_snapshot_def es2(3) by (simp add: Un_commute)
  from shows_updates [OF engine this es2(2) codec(3) vals(2) updated] show ?thesis by (simp add: m')
qed

end
