(* ===== verification/Bevy_Extract.thy ===== *)
theory Bevy_Extract
  imports Bevy_Schema Delta_Apply Delta_Changes
begin

text \<open>
  Extracting a change set from the engine's world (\<^verbatim>\<open>sdec-bevy/src/extract.rs\<close>): entities with an added
  component become creates, entities with a changed one updates, entities with a removed one destroys.
  The order in which a \<^verbatim>\<open>HashSet\<close> or \<^verbatim>\<open>HashMap\<close> is iterated is a parameter; ids are handed out in that
  order, and the lists are sorted afterwards, so that the change encoder accepts them.
\<close>

section \<open>The operations\<close>

record bevy_change_set =
  bc_creates :: "entity_snapshot list"
  bc_destroys :: "entity_id list"
  bc_updates :: "delta_update_entity list"

definition change_set_default :: bevy_change_set where
  "change_set_default = \<lparr>bc_creates = [], bc_destroys = [], bc_updates = []\<rparr>"

record 'e extract_scratch =
  xs_create_entities :: "'e set"
  xs_update_entities :: "'e \<rightharpoonup> component_id list"
  xs_destroys :: "entity_id set"

definition extract_scratch_default :: "'e extract_scratch" where
  "extract_scratch_default =
    \<lparr>xs_create_entities = {}, xs_update_entities = (\<lambda>_. None), xs_destroys = {}\<rparr>"

definition note_changed :: "component_id \<Rightarrow> 'e \<Rightarrow> ('e \<rightharpoonup> component_id list) \<Rightarrow> ('e \<rightharpoonup> component_id list)" where
  "note_changed i entity updates =
    updates(entity \<mapsto> (case updates entity of Some is \<Rightarrow> is | None \<Rightarrow> []) @ [i])"

definition collect_adapter ::
  "('w, 'e, 'c) world_ops \<Rightarrow> 'w \<Rightarrow> 'e entity_map \<Rightarrow> 'c component_adapter \<Rightarrow> 'e extract_scratch \<Rightarrow>
    'e extract_scratch" where
  "collect_adapter ops world m a sc =
    sc\<lparr>xs_create_entities := xs_create_entities sc \<union> set (added_entities ops world a),
       xs_update_entities :=
         fold (note_changed (ca_component_id a)) (changed_entities ops world a) (xs_update_entities sc),
       xs_destroys := xs_destroys sc \<union>
         set (List.map_filter (\<lambda>entity. map_entity_id_known entity m) (removed_entities ops world a))\<rparr>"

fun extract_creates ::
  "('w, 'e, 'c) world_ops \<Rightarrow> 'c bevy_schema \<Rightarrow> 'w \<Rightarrow> 'e list \<Rightarrow> 'e entity_map \<Rightarrow>
    entity_snapshot list \<times> 'e entity_map" where
  "extract_creates ops bs world [] m = ([], m)"
| "extract_creates ops bs world (entity # rest) m =
    (let (i, m) = map_entity_id entity m;
         snap = snapshot_entity ops bs world entity;
         (creates, m) = extract_creates ops bs world rest m
     in (if snap = [] then creates else \<lparr>es_id = i, es_components = snap\<rparr> # creates, m))"

definition changed_components ::
  "('w, 'e, 'c) world_ops \<Rightarrow> 'c bevy_schema \<Rightarrow> 'w \<Rightarrow> 'e \<Rightarrow> component_id list \<Rightarrow> delta_update_component list" where
  "changed_components ops bs world entity =
    List.map_filter (\<lambda>i. Option.bind (adapter_by_component bs i) (update_component_of ops world entity))"

fun extract_updates ::
  "('w, 'e, 'c) world_ops \<Rightarrow> 'c bevy_schema \<Rightarrow> 'w \<Rightarrow> 'e set \<Rightarrow> ('e \<rightharpoonup> component_id list) \<Rightarrow> 'e list \<Rightarrow>
    'e entity_map \<Rightarrow> delta_update_entity list \<times> 'e entity_map" where
  "extract_updates ops bs world creating changed [] m = ([], m)"
| "extract_updates ops bs world creating changed (entity # rest) m =
    (if entity \<in> creating then extract_updates ops bs world creating changed rest m
     else
       let (i, m) = map_entity_id entity m;
           us = changed_components ops bs world entity (the (changed entity));
           (updates, m) = extract_updates ops bs world creating changed rest m
       in (if us = [] then updates else \<lparr>ue_id = i, ue_components = us\<rparr> # updates, m))"

text \<open>The scratch and the change set are cleared first; \<^verbatim>\<open>sort_by_key\<close> is a stable sort.\<close>

definition extract_changes_with_scratch ::
  "('w, 'e, 'c) world_ops \<Rightarrow> ('e set \<Rightarrow> 'e list) \<Rightarrow> 'c bevy_schema \<Rightarrow> 'w \<Rightarrow> 'e entity_map \<Rightarrow>
    'e extract_scratch \<Rightarrow> bevy_change_set \<Rightarrow> 'e entity_map \<times> 'e extract_scratch \<times> bevy_change_set" where
  "extract_changes_with_scratch ops order bs world m sc out =
    (let sc = sc\<lparr>xs_create_entities := {}, xs_update_entities := (\<lambda>_. None), xs_destroys := {}\<rparr>;
         sc = fold (collect_adapter ops world m) (bs_adapters bs) sc;
         (creates, m) = extract_creates ops bs world (order (xs_create_entities sc)) m;
         (updates, m) = extract_updates ops bs world (xs_create_entities sc) (xs_update_entities sc)
           (order (dom (xs_update_entities sc))) m
     in (m, sc, out\<lparr>bc_creates := sort_key (\<lambda>e. entity_raw (es_id e)) creates,
                    bc_destroys := sorted_list_of_set (xs_destroys sc),
                    bc_updates := sort_key (\<lambda>e. entity_raw (ue_id e)) updates\<rparr>))"

definition extract_changes ::
  "('w, 'e, 'c) world_ops \<Rightarrow> ('e set \<Rightarrow> 'e list) \<Rightarrow> 'c bevy_schema \<Rightarrow> 'w \<Rightarrow> 'e entity_map \<Rightarrow>
    bevy_change_set \<times> 'e entity_map" where
  "extract_changes ops order bs world m =
    (case extract_changes_with_scratch ops order bs world m extract_scratch_default change_set_default of
       (m, sc, changes) \<Rightarrow> (changes, m))"

section \<open>What is collected\<close>

definition added_set :: "('w, 'e, 'c) world_ops \<Rightarrow> 'c bevy_schema \<Rightarrow> 'w \<Rightarrow> 'e set" where
  "added_set ops bs world = (\<Union>a \<in> set (bs_adapters bs). set (added_entities ops world a))"

definition changed_set :: "('w, 'e, 'c) world_ops \<Rightarrow> 'c bevy_schema \<Rightarrow> 'w \<Rightarrow> 'e set" where
  "changed_set ops bs world = (\<Union>a \<in> set (bs_adapters bs). set (changed_entities ops world a))"

definition removed_ids ::
  "('w, 'e, 'c) world_ops \<Rightarrow> 'c bevy_schema \<Rightarrow> 'w \<Rightarrow> 'e entity_map \<Rightarrow> entity_id set" where
  "removed_ids ops bs world m =
    {i. \<exists>a \<in> set (bs_adapters bs). \<exists>e \<in> set (removed_entities ops world a). em_to_id m e = Some i}"

lemma dom_note_changed_all: "dom (fold (note_changed i) es us) = dom us \<union> set es"
  by (induction es arbitrary: us) (auto simp: note_changed_def)

lemma set_known: "set (List.map_filter (\<lambda>e. map_entity_id_known e m) es) = {i. \<exists>e \<in> set es. em_to_id m e = Some i}"
  by (force simp: List.map_filter_def map_entity_id_known_def)

lemma collect_adapters:
  fixes ops :: "('w, 'e, 'c) world_ops"
  shows "xs_create_entities (fold (collect_adapter ops world m) as sc) =
      xs_create_entities sc \<union> (\<Union>a \<in> set as. set (added_entities ops world a))" (is ?creates)
    and "dom (xs_update_entities (fold (collect_adapter ops world m) as sc)) =
      dom (xs_update_entities sc) \<union> (\<Union>a \<in> set as. set (changed_entities ops world a))" (is ?updates)
    and "xs_destroys (fold (collect_adapter ops world m) as sc) = xs_destroys sc \<union>
      {i. \<exists>a \<in> set as. \<exists>e \<in> set (removed_entities ops world a). em_to_id m e = Some i}" (is ?destroys)
proof -
  have "?creates \<and> ?updates \<and> ?destroys"
    by (induction as arbitrary: sc) (auto simp: collect_adapter_def dom_note_changed_all set_known)
  then show ?creates ?updates ?destroys by simp_all
qed

text \<open>The components of an update come in the order of the adapters, each of them once.\<close>

definition changed_once :: "('w, 'e, 'c) world_ops \<Rightarrow> 'c bevy_schema \<Rightarrow> 'w \<Rightarrow> bool" where
  "changed_once ops bs world \<longleftrightarrow> (\<forall>a \<in> set (bs_adapters bs). distinct (changed_entities ops world a))"

lemma note_changed_all:
  "distinct es \<Longrightarrow> fold (note_changed i) es us e =
    (if e \<in> set es then Some ((case us e of Some is \<Rightarrow> is | None \<Rightarrow> []) @ [i]) else us e)"
  by (induction es arbitrary: us) (auto simp: note_changed_def)

lemma collected_updates:
  "\<forall>a \<in> set as. distinct (changed_entities ops world a) \<Longrightarrow>
    (case xs_update_entities (fold (collect_adapter ops world m) as sc) e of Some is \<Rightarrow> is | None \<Rightarrow> []) =
    (case xs_update_entities sc e of Some is \<Rightarrow> is | None \<Rightarrow> []) @
      map ca_component_id (filter (\<lambda>a. e \<in> set (changed_entities ops world a)) as)"
  by (induction as arbitrary: sc) (auto simp: collect_adapter_def note_changed_all)

lemma collected_ids:
  assumes once: "changed_once ops bs world" and e: "e \<in> changed_set ops bs world"
    and ran: "extract_changes_with_scratch ops order bs world m sc out = (m', sc', changes)"
  shows "the (xs_update_entities sc' e) =
    map ca_component_id (filter (\<lambda>a. e \<in> set (changed_entities ops world a)) (bs_adapters bs))"
proof -
  let ?sc = "sc\<lparr>xs_create_entities := {}, xs_update_entities := (\<lambda>_. None), xs_destroys := {}\<rparr>"
  have sc': "sc' = fold (collect_adapter ops world m) (bs_adapters bs) ?sc"
    using ran by (auto simp: extract_changes_with_scratch_def Let_def split: prod.splits)
  have "e \<in> dom (xs_update_entities sc')" using e unfolding sc' collect_adapters by (simp add: changed_set_def)
  then show ?thesis
    using collected_updates [of "bs_adapters bs" ops world m ?sc e] once unfolding sc' changed_once_def by auto
qed

lemma extracted_update_ordered:
  assumes built: "bevy_schema_ok bs" and order: "sorted_wrt (<) (map cd_id (components (bs_schema bs)))"
    and once: "changed_once ops bs world"
    and ran: "extract_changes_with_scratch ops order bs world m sc out = (m', sc', changes)"
    and e: "e \<in> changed_set ops bs world"
  shows "update_ordered \<lparr>ue_id = i, ue_components = changed_components ops bs world e (the (xs_update_entities sc' e))\<rparr>"
proof -
  let ?is = "map ca_component_id (filter (\<lambda>a. e \<in> set (changed_entities ops world a)) (bs_adapters bs))"
  have ids: "the (xs_update_entities sc' e) = ?is" by (rule collected_ids [OF once e ran])
  have "sorted_wrt (<) (map ca_component_id (bs_adapters bs))" using built order by (metis bevy_schema_ok_def)
  then have sorted: "sorted_wrt (<) ?is" by (simp add: sorted_wrt_map sorted_wrt_filter)
  have found: "Option.bind (adapter_by_component bs i) (update_component_of ops world e) = Some u \<Longrightarrow>
      uc_id u = i \<and> sorted_wrt (<) (map fst (uc_fields u))" for i u
    using built by (auto simp: bevy_schema_ok_def bind_eq_Some_conv find_Some_iff update_component_of_def)
  have "sorted_wrt (<) is \<Longrightarrow> sorted_wrt (<) (map uc_id (changed_components ops bs world e is)) \<and>
      uc_id ` set (changed_components ops bs world e is) \<subseteq> set is" for "is"
    unfolding changed_components_def
    by (induction "is") (auto simp: List.map_filter_simps(1) found split: option.splits)
  then show ?thesis
    using sorted found unfolding update_ordered_def ids by (auto simp: changed_components_def List.map_filter_def)
qed

section \<open>Handing out ids\<close>

lemma map_entity_id_room:
  assumes "entity_map_ok m" and "unat (em_next m) < 2 ^ 32 - 1" and "map_entity_id entity m = (i, m')"
  shows "entity_map_ok m'" "em_to_id m' entity = Some i" "em_to_id m \<subseteq>\<^sub>m em_to_id m'"
    "unat (em_next m') \<le> Suc (unat (em_next m))"
proof -
  have room: "em_next m \<noteq> - 1" using assms(2) by (auto simp: unsigned_minus_1_eq_mask mask_eq_exp_minus_1)
  note step = map_entity_id_ok [OF assms(1) room assms(3)]
  have "unat (em_next m + 1) \<le> Suc (unat (em_next m))" by (simp add: unat_word_ariths mod_le_divisor mod_less_eq_dividend)
  with step show "entity_map_ok m'" "em_to_id m' entity = Some i" "em_to_id m \<subseteq>\<^sub>m em_to_id m'"
    "unat (em_next m') \<le> Suc (unat (em_next m))" by (auto simp: word_le_nat_alt)
qed

lemma extract_creates_lists:
  "entity_map_ok m \<Longrightarrow> unat (em_next m) + length es < 2 ^ 32 \<Longrightarrow>
    extract_creates ops bs world es m = (creates, m') \<Longrightarrow>
    entity_map_ok m' \<and> em_to_id m \<subseteq>\<^sub>m em_to_id m' \<and> set es \<subseteq> dom (em_to_id m') \<and>
    unat (em_next m') \<le> unat (em_next m) + length es \<and>
    creates = map (\<lambda>e. \<lparr>es_id = the (em_to_id m' e), es_components = snapshot_entity ops bs world e\<rparr>)
      (filter (\<lambda>e. snapshot_entity ops bs world e \<noteq> []) es)"
proof (induction es arbitrary: m creates)
  case (Cons e es)
  obtain i m1 where i: "map_entity_id e m = (i, m1)" by fastforce
  have "unat (em_next m) < 2 ^ 32 - 1" using Cons.prems(2) by simp
  note one = map_entity_id_room [OF Cons.prems(1) this i]
  obtain creates1 where rest: "extract_creates ops bs world es m1 = (creates1, m')"
    and creates: "creates = (if snapshot_entity ops bs world e = [] then creates1
      else \<lparr>es_id = i, es_components = snapshot_entity ops bs world e\<rparr> # creates1)"
    using Cons.prems(3) i by (auto simp: Let_def split: prod.splits if_splits)
  have "unat (em_next m1) + length es < 2 ^ 32" using one(4) Cons.prems(2) by simp
  note IH = Cons.IH [OF one(1) this rest]
  then have "em_to_id m' e = Some i" using one(2) by (auto simp: map_le_def dom_def)
  with IH one creates show ?case by (auto intro: map_le_trans)
qed simp

lemma extract_updates_lists:
  "entity_map_ok m \<Longrightarrow> unat (em_next m) + length es < 2 ^ 32 \<Longrightarrow>
    extract_updates ops bs world creating changed es m = (updates, m') \<Longrightarrow>
    entity_map_ok m' \<and> em_to_id m \<subseteq>\<^sub>m em_to_id m' \<and> set es - creating \<subseteq> dom (em_to_id m') \<and>
    unat (em_next m') \<le> unat (em_next m) + length es \<and>
    updates = map (\<lambda>e. \<lparr>ue_id = the (em_to_id m' e),
        ue_components = changed_components ops bs world e (the (changed e))\<rparr>)
      (filter (\<lambda>e. e \<notin> creating \<and> changed_components ops bs world e (the (changed e)) \<noteq> []) es)"
proof (induction es arbitrary: m updates)
  case (Cons e es)
  show ?case
  proof (cases "e \<in> creating")
    case True
    with Cons.IH [OF Cons.prems(1)] Cons.prems(2,3) show ?thesis by force
  next
    case False
    obtain i m1 where i: "map_entity_id e m = (i, m1)" by fastforce
    have "unat (em_next m) < 2 ^ 32 - 1" using Cons.prems(2) by simp
    note one = map_entity_id_room [OF Cons.prems(1) this i]
    obtain updates1 where rest: "extract_updates ops bs world creating changed es m1 = (updates1, m')"
      and updates: "updates = (if changed_components ops bs world e (the (changed e)) = [] then updates1
        else \<lparr>ue_id = i, ue_components = changed_components ops bs world e (the (changed e))\<rparr> # updates1)"
      using Cons.prems(3) i False by (auto simp: Let_def split: prod.splits if_splits)
    have "unat (em_next m1) + length es < 2 ^ 32" using one(4) Cons.prems(2) by simp
    note IH = Cons.IH [OF one(1) this rest]
    then have "em_to_id m' e = Some i" using one(2) by (auto simp: map_le_def dom_def)
    with IH one updates False show ?thesis by (auto intro: map_le_trans)
  qed
qed simp

section \<open>The change set\<close>

lemma sort_by_raw:
  assumes "distinct (map key xs)"
  shows "sorted_wrt (<) (map key (sort_key (\<lambda>x. entity_raw (key x)) xs))"
proof -
  let ?ys = "sort_key (\<lambda>x. entity_raw (key x)) xs"
  have "sorted (map (\<lambda>x. entity_raw (key x)) ?ys)" by (rule sorted_sort_key)
  then have "sorted (map key ?ys)" by (simp add: sorted_map less_eq_entity_id_def)
  moreover have "distinct (map key ?ys)" using assms by (simp add: distinct_map)
  ultimately show ?thesis by (simp add: strict_sorted_iff)
qed

definition iteration_order :: "('e set \<Rightarrow> 'e list) \<Rightarrow> bool" where
  "iteration_order order \<longleftrightarrow> (\<forall>S. finite S \<longrightarrow> set (order S) = S \<and> distinct (order S))"

lemma order_length: "iteration_order order \<Longrightarrow> finite S \<Longrightarrow> length (order S) = card S"
  by (metis distinct_card iteration_order_def)

lemma finite_extracted: "finite (added_set ops bs world)" "finite (changed_set ops bs world)"
  by (simp_all add: added_set_def changed_set_def)

text \<open>The change set as a function of the collected sets, with the ids of the map after the call.\<close>

lemma extract_changes_lists:
  assumes order: "iteration_order order" and ok: "entity_map_ok m"
    and room: "unat (em_next m) + card (added_set ops bs world) + card (changed_set ops bs world) < 2 ^ 32"
    and ran: "extract_changes_with_scratch ops order bs world m sc out = (m', sc', changes)"
  obtains added changed comps where
    "distinct added" "set added = {e \<in> added_set ops bs world. snapshot_entity ops bs world e \<noteq> []}"
    "distinct changed" "set changed \<subseteq> changed_set ops bs world - added_set ops bs world"
    "set changed = {e \<in> changed_set ops bs world - added_set ops bs world. comps e \<noteq> []}"
    "entity_map_ok m'" "em_to_id m \<subseteq>\<^sub>m em_to_id m'"
    "added_set ops bs world \<union> changed_set ops bs world \<subseteq> dom (em_to_id m')"
    "bc_creates changes = sort_key (\<lambda>e. entity_raw (es_id e))
      (map (\<lambda>e. \<lparr>es_id = the (em_to_id m' e), es_components = snapshot_entity ops bs world e\<rparr>) added)"
    "bc_updates changes = sort_key (\<lambda>e. entity_raw (ue_id e))
      (map (\<lambda>e. \<lparr>ue_id = the (em_to_id m' e), ue_components = comps e\<rparr>) changed)"
    "comps = (\<lambda>e. changed_components ops bs world e (the (xs_update_entities sc' e)))"
    "bc_destroys changes = sorted_list_of_set (removed_ids ops bs world m)"
proof -
  let ?A = "added_set ops bs world" and ?C = "changed_set ops bs world"
  define sc1 where "sc1 = fold (collect_adapter ops world m) (bs_adapters bs)
    (sc\<lparr>xs_create_entities := {}, xs_update_entities := (\<lambda>_. None), xs_destroys := {}\<rparr>)"
  define comps where "comps e = changed_components ops bs world e (the (xs_update_entities sc1 e))" for e
  have sets: "xs_create_entities sc1 = ?A" "dom (xs_update_entities sc1) = ?C"
      "xs_destroys sc1 = removed_ids ops bs world m"
    unfolding sc1_def collect_adapters by (simp_all add: added_set_def changed_set_def removed_ids_def)
  note fin = finite_extracted [of ops bs world]
  have A: "set (order ?A) = ?A" "distinct (order ?A)" and C: "set (order ?C) = ?C" "distinct (order ?C)"
    using order fin by (simp_all add: iteration_order_def)
  have len: "length (order ?A) = card ?A" "length (order ?C) = card ?C" using order_length [OF order] fin by simp_all
  obtain creates m1 where c: "extract_creates ops bs world (order ?A) m = (creates, m1)" by fastforce
  obtain updates m2 where u: "extract_updates ops bs world ?A (xs_update_entities sc1) (order ?C) m1 = (updates, m2)"
    by fastforce
  from ran [folded sc1_def] c u have res: "m' = m2" "sc' = sc1" "bc_creates changes = sort_key (\<lambda>e. entity_raw (es_id e)) creates"
      "bc_updates changes = sort_key (\<lambda>e. entity_raw (ue_id e)) updates"
      "bc_destroys changes = sorted_list_of_set (removed_ids ops bs world m)"
    by (auto simp: extract_changes_with_scratch_def sc1_def [symmetric] sets Let_def)
  have room1: "unat (em_next m) + length (order ?A) < 2 ^ 32" using room len by simp
  note made = extract_creates_lists [OF ok room1 c]
  then have room2: "unat (em_next m1) + length (order ?C) < 2 ^ 32" using room len by simp
  note changed = extract_updates_lists [OF conjunct1 [OF made] room2 u, folded comps_def]
  have same: "em_to_id m2 e = em_to_id m1 e" if "e \<in> ?A" for e
    using made changed A(1) that by (auto simp: map_le_def dom_def)
  show thesis
  proof (rule that [of "filter (\<lambda>e. snapshot_entity ops bs world e \<noteq> []) (order ?A)"
        "filter (\<lambda>e. e \<notin> ?A \<and> comps e \<noteq> []) (order ?C)" comps])
    show "em_to_id m \<subseteq>\<^sub>m em_to_id m'" unfolding res(1) using made changed by (auto intro: map_le_trans)
    have "?A \<subseteq> dom (em_to_id m1)" "dom (em_to_id m1) \<subseteq> dom (em_to_id m2)"
      using made changed A(1) by (simp_all add: map_le_implies_dom_le)
    moreover have "?C - ?A \<subseteq> dom (em_to_id m2)" using changed C(1) by simp
    ultimately show "?A \<union> ?C \<subseteq> dom (em_to_id m')" unfolding res(1) by blast
    have "creates = map (\<lambda>e. \<lparr>es_id = the (em_to_id m2 e), es_components = snapshot_entity ops bs world e\<rparr>)
        (filter (\<lambda>e. snapshot_entity ops bs world e \<noteq> []) (order ?A))"
      using made A(1) same by auto
    then show "bc_creates changes = sort_key (\<lambda>e. entity_raw (es_id e))
        (map (\<lambda>e. \<lparr>es_id = the (em_to_id m' e), es_components = snapshot_entity ops bs world e\<rparr>)
          (filter (\<lambda>e. snapshot_entity ops bs world e \<noteq> []) (order ?A)))"
      unfolding res(1,3) by simp
  qed (use A C changed res in \<open>auto simp: comps_def\<close>)
qed

text \<open>
  While ids are left, the lists are strictly sorted, no entity is created and updated at once, and the
  checks of the change encoder pass.
\<close>

theorem extract_accepted:
  assumes "iteration_order order" and "entity_map_ok m"
    and "unat (em_next m) + card (added_set ops bs world) + card (changed_set ops bs world) < 2 ^ 32"
    and "extract_changes_with_scratch ops order bs world m sc out = (m', sc', changes)"
  shows "entity_map_ok m'" and "ensure_entities_sorted (bc_creates changes) = Inr ()"
    and "ensure_entity_ids_sorted (bc_destroys changes) = Inr ()"
    and "sorted_wrt (<) (map ue_id (bc_updates changes))"
    and "es_id ` set (bc_creates changes) \<inter> ue_id ` set (bc_updates changes) = {}"
proof -
  from assms show "entity_map_ok m'" by (rule extract_changes_lists)
  obtain added changed comps where lists: "distinct added" "set added \<subseteq> added_set ops bs world"
      "distinct changed" "set changed \<subseteq> changed_set ops bs world - added_set ops bs world" "entity_map_ok m'"
    and known: "added_set ops bs world \<union> changed_set ops bs world \<subseteq> dom (em_to_id m')"
    and creates: "bc_creates changes = sort_key (\<lambda>e. entity_raw (es_id e))
      (map (\<lambda>e. \<lparr>es_id = the (em_to_id m' e), es_components = snapshot_entity ops bs world e\<rparr>) added)"
    and updates: "bc_updates changes = sort_key (\<lambda>e. entity_raw (ue_id e))
      (map (\<lambda>e. \<lparr>ue_id = the (em_to_id m' e), ue_components = comps e\<rparr>) changed)"
    and destroys: "bc_destroys changes = sorted_list_of_set (removed_ids ops bs world m)"
    by (rule extract_changes_lists [OF assms]) auto
  have inj: "inj_on (\<lambda>e. the (em_to_id m' e)) (added_set ops bs world \<union> changed_set ops bs world)"
  proof (rule inj_onI)
    fix a b assume "a \<in> added_set ops bs world \<union> changed_set ops bs world"
      "b \<in> added_set ops bs world \<union> changed_set ops bs world" "the (em_to_id m' a) = the (em_to_id m' b)"
    with known entity_map_injective(1) [OF lists(5), of a _ b] show "a = b" by (auto simp: dom_def) force+
  qed
  have "inj_on (\<lambda>e. the (em_to_id m' e)) (set added)" "inj_on (\<lambda>e. the (em_to_id m' e)) (set changed)"
    using lists(2,4) by (auto intro: inj_on_subset [OF inj])
  then have "distinct (map (\<lambda>e. the (em_to_id m' e)) added)" "distinct (map (\<lambda>e. the (em_to_id m' e)) changed)"
    using lists(1,3) by (simp_all add: distinct_map)
  then have sorted: "sorted_wrt (<) (map es_id (bc_creates changes))" "sorted_wrt (<) (map ue_id (bc_updates changes))"
    unfolding creates updates by (auto intro!: sort_by_raw simp: o_def)
  then show "ensure_entities_sorted (bc_creates changes) = Inr ()" "sorted_wrt (<) (map ue_id (bc_updates changes))"
    by (simp_all add: ensure_entities_sorted_Inr)
  show "ensure_entity_ids_sorted (bc_destroys changes) = Inr ()"
    by (simp add: ensure_entity_ids_sorted_Inr destroys)
  show "es_id ` set (bc_creates changes) \<inter> ue_id ` set (bc_updates changes) = {}"
    unfolding creates updates using lists(2,4) inj by (auto simp: inj_on_def) blast
qed

text \<open>
  What a receiver sees of an entity that is known already: one more component makes it a create again,
  under its old id, and the loss of one component destroys it.
\<close>

lemma known_entity_created_again:
  assumes "iteration_order order" and "entity_map_ok m"
    and "unat (em_next m) + card (added_set ops bs world) + card (changed_set ops bs world) < 2 ^ 32"
    and "extract_changes_with_scratch ops order bs world m sc out = (m', sc', changes)"
    and "e \<in> added_set ops bs world" "snapshot_entity ops bs world e \<noteq> []" and "map_entity_id_known e m = Some i"
  shows "i \<in> es_id ` set (bc_creates changes)"
proof -
  obtain added where "set added = {e \<in> added_set ops bs world. snapshot_entity ops bs world e \<noteq> []}"
    "em_to_id m \<subseteq>\<^sub>m em_to_id m'"
    "bc_creates changes = sort_key (\<lambda>e. entity_raw (es_id e))
      (map (\<lambda>e. \<lparr>es_id = the (em_to_id m' e), es_components = snapshot_entity ops bs world e\<rparr>) added)"
    by (rule extract_changes_lists [OF assms(1-4)])
  moreover have "the (em_to_id m' e) = i" using calculation(2) assms(7)
    by (auto simp: map_entity_id_known_def map_le_def dom_def) 
  ultimately show ?thesis using assms(5,6) by (force simp: image_iff)
qed

lemma removed_component_destroys:
  assumes "extract_changes_with_scratch ops order bs world m sc out = (m', sc', changes)"
    and "a \<in> set (bs_adapters bs)" "e \<in> set (removed_entities ops world a)" and "map_entity_id_known e m = Some i"
  shows "i \<in> set (bc_destroys changes)"
proof -
  have "finite (removed_ids ops bs world m)"
  proof -
    have "removed_ids ops bs world m = (\<Union>a \<in> set (bs_adapters bs). set (List.map_filter (em_to_id m) (removed_entities ops world a)))"
      by (force simp: removed_ids_def List.map_filter_def)
    then show ?thesis by simp
  qed
  moreover have "bc_destroys changes = sorted_list_of_set (removed_ids ops bs world m)"
    using assms(1) by (auto simp: extract_changes_with_scratch_def collect_adapters removed_ids_def Let_def split: prod.splits)
  moreover have "i \<in> removed_ids ops bs world m"
    using assms(2-4) by (auto simp: removed_ids_def map_entity_id_known_def)
  ultimately show ?thesis by simp
qed

end
