(* ===== verification/Codec_Session.thy ===== *)
theory Codec_Session
  imports Delta_Roundtrip
begin

text \<open>
  Sessions (codec/src/session.rs): the init packet that opens one, the state that a receiver keeps,
  and the decoder of compact packets, which rebuilds the full header from that state.  The encoder of
  compact packets is in \<open>Delta_Encode\<close>.
\<close>

section \<open>The session state\<close>

datatype compact_header_mode = SessionV1

fun mode_raw :: "compact_header_mode \<Rightarrow> u8" where
  "mode_raw SessionV1 = 1"

definition mode_from_raw :: "u8 \<Rightarrow> compact_header_mode option" where
  "mode_from_raw raw = (if raw = 1 then Some SessionV1 else None)"

record session_state =
  ss_schema_hash :: u64
  ss_session_id :: "u64 option"
  ss_last_tick :: snapshot_tick
  ss_compact_mode :: compact_header_mode

section \<open>The init packet\<close>

definition encode_session_init_body ::
  "u64 option \<Rightarrow> compact_header_mode \<Rightarrow> bit_writer \<Rightarrow> codec_error + bit_writer" where
  "encode_session_init_body session_id compact_mode w =
    and_then (lift_bit (writer_align_to_byte w)) (\<lambda>w.
    and_then (lift_bit (write_u64_aligned (case session_id of Some i \<Rightarrow> i | None \<Rightarrow> 0) w)) (\<lambda>w.
    and_then (lift_bit (write_u8_aligned (mode_raw compact_mode) w)) (\<lambda>w.
    lift_bit (writer_align_to_byte w))))"

text \<open>
  Unlike the snapshot encoders, this one takes \<^verbatim>\<open>&mut out[HEADER_SIZE..]\<close> without a check: a shorter
  buffer panics.
\<close>

definition encode_session_init_packet ::
  "(u8 list \<Rightarrow> u8 list) \<Rightarrow> schema \<Rightarrow> snapshot_tick \<Rightarrow> u64 option \<Rightarrow> compact_header_mode \<Rightarrow> codec_limits \<Rightarrow>
    u8 list \<Rightarrow> (codec_error + usize \<times> u8 list) option" where
  "encode_session_init_packet blake3 s tick session_id compact_mode limits out =
    (if length out < HEADER_SIZE then None
     else
       try_then (write_section SessionInit (drop HEADER_SIZE out) limits
           (encode_session_init_body session_id compact_mode)) (\<lambda>(body_len, payload).
       let offset = HEADER_SIZE + body_len;
           payload_len = offset - HEADER_SIZE;
           header = \<lparr>ph_version = VERSION, ph_flags = flags_session_init,
             ph_schema_hash = schema_hash blake3 s, ph_tick = tick_raw tick,
             ph_baseline_tick = 0, ph_payload_len = of_nat payload_len\<rparr>
       in case encode_header header (take HEADER_SIZE out) of
            Inl _ \<Rightarrow> Some (Inl (OutputTooSmall HEADER_SIZE (length out)))
          | Inr (_, head) \<Rightarrow> Some (Inr (offset, head @ payload))))"

definition decode_session_init_body ::
  "u8 list \<Rightarrow> codec_limits \<Rightarrow> codec_error + u64 option \<times> compact_header_mode" where
  "decode_session_init_body body limits =
    (if length body > max_section_bytes limits then
       Inl (CodecLimitsExceeded SectionBytes (max_section_bytes limits) (length body))
     else
     let r = reader_new body in
     and_then (lift_bit (reader_align_to_byte r)) (\<lambda>r.
     and_then (lift_bit (read_u64_aligned r)) (\<lambda>(session_id, r).
     and_then (lift_bit (read_u8_aligned r)) (\<lambda>(mode, r).
     and_then (lift_bit (reader_align_to_byte r)) (\<lambda>r.
     if reader_bits_remaining r \<noteq> 0 then
       Inl (TrailingSectionData SessionInit (reader_bits_remaining r))
     else
     and_then (ok_or (SessionUnsupportedMode mode) (mode_from_raw mode)) (\<lambda>compact_mode.
       Inr (if session_id = 0 then None else Some session_id, compact_mode)))))))"

fun session_init_section ::
  "wire_section list \<Rightarrow> wire_section option \<Rightarrow> codec_error + wire_section option" where
  "session_init_section [] init = Inr init"
| "session_init_section (sec # secs) init =
    (if ws_tag sec = SessionInit then
       if init \<noteq> None then Inl SessionInitInvalid else session_init_section secs (Some sec)
     else Inl (UnexpectedSection (ws_tag sec)))"

definition decode_session_init_packet ::
  "(u8 list \<Rightarrow> u8 list) \<Rightarrow> schema \<Rightarrow> wire_packet \<Rightarrow> codec_limits \<Rightarrow> codec_error + session_state" where
  "decode_session_init_packet blake3 s packet limits =
    (let header = wp_header packet in
     if \<not> is_session_init (ph_flags header) then Inl SessionMissing
     else if is_full_snapshot (ph_flags header) \<or> is_delta_snapshot (ph_flags header) then
       Inl SessionInitInvalid
     else if ph_baseline_tick header \<noteq> 0 then Inl SessionInitInvalid
     else if ph_schema_hash header \<noteq> schema_hash blake3 s then
       Inl (SchemaMismatch (schema_hash blake3 s) (ph_schema_hash header))
     else
     and_then (session_init_section (wp_sections packet) None) (\<lambda>init.
     and_then (ok_or SessionInitInvalid init) (\<lambda>sec.
     and_then (decode_session_init_body (ws_body sec) limits) (\<lambda>(session_id, compact_mode).
       Inr \<lparr>ss_schema_hash = ph_schema_hash header, ss_session_id = session_id,
            ss_last_tick = SnapshotTick (ph_tick header), ss_compact_mode = compact_mode\<rparr>))))"

section \<open>Compact packets\<close>

text \<open>The session is returned with the packet; on an error it is as it was.\<close>

definition decode_session_packet ::
  "(u8 list \<Rightarrow> u8 list) \<Rightarrow> schema \<Rightarrow> session_state \<Rightarrow> u8 list \<Rightarrow> limits \<Rightarrow>
    codec_error + wire_packet \<times> session_state" where
  "decode_session_packet blake3 s session bytes wire_limits =
    (if ss_schema_hash session \<noteq> schema_hash blake3 s then
       Inl (SchemaMismatch (schema_hash blake3 s) (ss_schema_hash session))
     else
     and_then (map_err Wire (decode_session_header bytes (tick_raw (ss_last_tick session)))) (\<lambda>header.
     if sh_tick header \<le> tick_raw (ss_last_tick session) then
       Inl (SessionOutOfOrder (tick_raw (ss_last_tick session)) (sh_tick header))
     else
     let payload_start = sh_header_len header;
         payload_end = payload_start + unat (sh_payload_len header) in
     if payload_end > length bytes then
       Inl (Wire (PayloadLengthMismatch (sh_payload_len header)
         (saturating_sub (length bytes) payload_start)))
     else
     let payload = sub_slice bytes payload_start payload_end in
     and_then (map_err Wire (decode_sections payload wire_limits)) (\<lambda>sections.
     let session' = session\<lparr>ss_last_tick := SnapshotTick (sh_tick header)\<rparr>;
         flags = if session_is_full_snapshot (sh_flags header) then flags_full_snapshot
           else flags_delta_snapshot
     in Inr (\<lparr>wp_header = \<lparr>ph_version = VERSION, ph_flags = flags,
           ph_schema_hash = ss_schema_hash session, ph_tick = sh_tick header,
           ph_baseline_tick = sh_baseline_tick header, ph_payload_len = sh_payload_len header\<rparr>,
         wp_sections = sections\<rparr>, session'))))"

section \<open>The init packet is read back\<close>

lemma session_init_body_writer: "body_writer (encode_session_init_body i m)"
  unfolding body_writer_def encode_session_init_body_def
  by (auto simp: res_simps dest!: writer_align_extends u64s.wr_extends write_u8_extends
      intro: extends_trans)

lemma session_init_body_read:
  assumes wr: "encode_session_init_body i m (writer_new buf) = Inr w"
    and sz: "writer_finish w \<le> max_section_bytes l"
  shows "decode_session_init_body (written_body w) l = Inr (if i = Some 0 then None else i, m)"
proof -
  let ?d = "written_body w"
  from wr obtain w1 w2 w3 where w1: "writer_align_to_byte (writer_new buf) = Inr w1"
    and w2: "write_u64_aligned (case i of Some i \<Rightarrow> i | None \<Rightarrow> 0) w1 = Inr w2"
    and w3: "write_u8_aligned (mode_raw m) w2 = Inr w3" and w4: "writer_align_to_byte w3 = Inr w"
    by (auto simp: encode_session_init_body_def res_simps)
  have wok: "writer_ok w"
    using body_writerD [OF session_init_body_writer wr] by (rule extends_ok) simp
  have h4: "holds ?d w" using wok by (rule written_body_holds)
  have h3: "holds ?d w3" using h4 writer_align_extends [OF w4] by (rule holds_extends)
  have h2: "holds ?d w2" using h3 write_u8_extends [OF w3] by (rule holds_extends)
  have h1: "holds ?d w1" using h2 u64s.wr_extends [OF w2] by (rule holds_extends)
  have "reader_align_to_byte (reader_new ?d) = Inr (reader_at ?d (bw_pos w1))"
    using reader_align_written [OF w1 h1] by (simp add: reader_new_at writer_new_def)
  moreover have "length ?d \<le> max_section_bytes l" using sz written_body_length [OF wok] by simp
  moreover have "bw_pos w mod 8 = 0" using padding_pos [OF w4] by simp
  ultimately show ?thesis
    using u64s.rd_wr [OF w2 _ h2] u8s.rd_wr [OF w3 _ h3] reader_align_written [OF w4 h4]
      written_body_remaining [of w]
    by (cases m; cases i) (simp_all add: decode_session_init_body_def mode_from_raw_def Let_def)
qed

lemma encode_session_init_packet_bytes:
  assumes "encode_session_init_packet blake3 s tick i m l out = Some (Inr (n, out'))"
  obtains w buf where "encode_session_init_body i m (writer_new buf) = Inr w"
    and "writer_finish w \<le> max_section_bytes l" and "writer_finish w < 2 ^ 32"
    and "take n out' = header_bytes \<lparr>ph_version = VERSION, ph_flags = flags_session_init,
             ph_schema_hash = schema_hash blake3 s, ph_tick = tick_raw tick, ph_baseline_tick = 0,
             ph_payload_len = of_nat (n - HEADER_SIZE)\<rparr> @
        section_bytes \<lparr>ws_tag = SessionInit, ws_body = written_body w\<rparr>"
    and "n = HEADER_SIZE + length (section_bytes \<lparr>ws_tag = SessionInit, ws_body = written_body w\<rparr>)"
    and "length (written_body w) = writer_finish w"
proof -
  from assms obtain k payload where len: "28 \<le> length out"
    and ws: "write_section SessionInit (drop 28 out) l (encode_session_init_body i m) = Some (Inr (k, payload))"
    and out: "n = 28 + k" "out' = header_bytes \<lparr>ph_version = VERSION, ph_flags = flags_session_init,
             ph_schema_hash = schema_hash blake3 s, ph_tick = tick_raw tick, ph_baseline_tick = 0,
             ph_payload_len = of_nat k\<rparr> @ payload"
    by (auto simp: encode_session_init_packet_def res_simps Let_def HEADER_SIZE_eq encode_header_exact
        split: if_splits)
  from write_section_inv [OF ws session_init_body_writer] obtain w where
    w: "encode_session_init_body i m (writer_new (drop 6 (drop 28 out))) = Inr w" "writer_ok w"
      "k = length (section_bytes \<lparr>ws_tag = SessionInit, ws_body = written_body w\<rparr>)"
      "take k payload = section_bytes \<lparr>ws_tag = SessionInit, ws_body = written_body w\<rparr>"
      "writer_finish w \<le> max_section_bytes l" "writer_finish w < 2 ^ 32" .
  show thesis
    by (rule that [OF w(1,5,6)])
      (use w(3,4) out written_body_length [OF w(2)] in \<open>simp_all add: HEADER_SIZE_eq\<close>)
qed

lemma header_session_ok:
  "ph_version h = VERSION \<Longrightarrow> ph_flags h = flags_session_init \<Longrightarrow> header_ok h"
  by (simp add: header_ok_def flags_session_init_def SESSION_INIT_def is_valid_v2_iff)

theorem session_init_decodes:
  assumes enc: "encode_session_init_packet blake3 s tick i m l out = Some (Inr (n, out'))"
    and room: "wire_room wl n"
  shows "and_then (map_err Wire (decode_packet (take n out') wl)) (\<lambda>p. decode_session_init_packet blake3 s p l) =
    Inr \<lparr>ss_schema_hash = schema_hash blake3 s, ss_session_id = (if i = Some 0 then None else i),
         ss_last_tick = tick, ss_compact_mode = m\<rparr>"
proof -
  from encode_session_init_packet_bytes [OF enc] obtain w buf where
    w: "encode_session_init_body i m (writer_new buf) = Inr w" "writer_finish w \<le> max_section_bytes l"
      "writer_finish w < 2 ^ 32"
    and bytes: "take n out' = header_bytes \<lparr>ph_version = VERSION, ph_flags = flags_session_init,
             ph_schema_hash = schema_hash blake3 s, ph_tick = tick_raw tick, ph_baseline_tick = 0,
             ph_payload_len = of_nat (n - HEADER_SIZE)\<rparr> @
        section_bytes \<lparr>ws_tag = SessionInit, ws_body = written_body w\<rparr>"
    and n: "n = HEADER_SIZE + length (section_bytes \<lparr>ws_tag = SessionInit, ws_body = written_body w\<rparr>)"
    and len: "length (written_body w) = writer_finish w" .
  let ?sec = "\<lparr>ws_tag = SessionInit, ws_body = written_body w\<rparr>"
  let ?h = "\<lparr>ph_version = VERSION, ph_flags = flags_session_init, ph_schema_hash = schema_hash blake3 s,
    ph_tick = tick_raw tick, ph_baseline_tick = 0, ph_payload_len = of_nat (n - HEADER_SIZE)\<rparr>"
  have "decode_packet (header_bytes ?h @ section_bytes ?sec) wl = Inr \<lparr>wp_header = ?h, wp_sections = [?sec]\<rparr>"
  proof (rule decode_packet_built)
    show "header_ok ?h" by (rule header_session_ok) simp_all
    show "unat (ph_payload_len ?h) = length (section_bytes ?sec)"
      using room n by (simp add: wire_room_def unat_of_nat_u32)
    show "framed (section_bytes ?sec) [?sec]" using len w(3) by (intro framed_single) simp
    show "sections_within wl [?sec]" using room n by (intro section_bytes_within) (simp_all add: wire_room_def)
    show "28 + length (section_bytes ?sec) \<le> max_packet_bytes wl"
      using room n by (simp add: wire_room_def HEADER_SIZE_eq)
  qed
  with bytes show ?thesis
    by (cases tick) (simp add: decode_session_init_packet_def flags_session_init_def SESSION_INIT_def
        session_init_body_read [OF w(1,2)])
qed

theorem session_init_panics_iff:
  "encode_session_init_packet blake3 s tick i m l out = None \<longleftrightarrow> length out < HEADER_SIZE"
  using write_section_no_panic [OF session_init_body_writer, of SessionInit "drop HEADER_SIZE out" l i m]
  by (auto simp: encode_session_init_packet_def try_then_None Let_def case_sum_Some simp del: not_None_eq
      split: if_splits sum.splits)

end
