(* ===== verification/Session_Stream.thy ===== *)
theory Session_Stream
  imports Codec_Session
begin

text \<open>
  The stream of compact packets of a session: each is decoded with the state that the one before it
  left, and replicates the sender's snapshots one after the other.
\<close>

section \<open>The compact packet\<close>

lemma payload_written:
  assumes "encode_delta_payload_with_mode s bt baseline current l sc out mode = Some (Inr (k, payload))"
  shows "k \<le> length payload \<and> length payload = length out"
proof -
  from assms obtain counts :: diff_counts and st st' where
    sorted: "ids_sorted (sn_entities baseline)" "ids_sorted (sn_entities current)"
    and d: "append_section_if (dc_destroys counts) EntityDestroy l
      (encode_destroy_body baseline current (dc_destroys counts) l) (0, out) = Some (Inr st)"
    and c: "append_section_if (dc_creates counts) EntityCreate l
         (delta_encode_create_body s baseline current (dc_creates counts) l) st = Some (Inr st')"
    and u: "(if dc_updates counts > 0 then append_updates s baseline current (dc_updates counts) l sc mode st'
       else Some (Inr st')) = Some (Inr (k, payload))"
    by (auto simp: encode_delta_payload_with_mode_def try_then_Inr if_Some_Inl_Inr ensure_entities_sorted_Inr)
  have "sections_written (length out) [] (0, out)" by (simp add: sections_written_def)
  from append_if_written [OF d destroy_body_writer [OF sorted] this]
  obtain secs where "sections_written (length out) secs st" ..
  from append_if_written [OF c create_body_writer [OF sorted] this]
  obtain secs' where secs': "sections_written (length out) secs' st'" ..
  have "\<exists>secs. sections_written (length out) secs (k, payload)"
  proof (cases "dc_updates counts > 0")
    case True
    with u have "append_updates s baseline current (dc_updates counts) l sc mode st' = Some (Inr (k, payload))"
      by simp
    then show ?thesis
      by (cases rule: append_updates_cases)
        (simp, metis append_section_written [OF _ masked_body_writer secs'],
          metis append_section_written [OF _ packed_body_writer secs'])
  next
    case False
    with u secs' show ?thesis by auto
  qed
  then show ?thesis by (auto simp: sections_written_def)
qed

lemma copy_within_down:
  assumes "length head = m" and "h \<le> m" and "k \<le> length payload"
  shows "take (h + k) (copy_within (head @ payload) m (m + k) h) = take h head @ take k payload"
proof -
  have body: "sub_slice (head @ payload) m (m + k) = take k payload"
    using assms(1) by (simp add: sub_slice_def)
  have "take (h + length (take k payload)) (splice (head @ payload) h (take k payload)) =
      take h (head @ payload) @ take k payload"
    using assms by (intro take_splice_end) simp
  then show ?thesis using assms by (simp add: copy_within_def body)
qed

definition compact_header :: "snapshot_tick \<Rightarrow> snapshot_tick \<Rightarrow> snapshot_tick \<Rightarrow> usize \<Rightarrow> u8 list" where
  "compact_header last_tick tick bt k =
    session_header_bytes session_flags_delta_snapshot (tick_raw tick - tick_raw last_tick)
      (tick_raw tick - tick_raw bt) (of_nat k)"

lemma compact_header_length: "length (compact_header last_tick tick bt k) \<le> SESSION_MAX_HEADER_SIZE"
  unfolding compact_header_def by (rule session_header_bytes_length)

lemma delta_flags_valid: "session_flags_is_valid session_flags_delta_snapshot"
  unfolding session_flags_delta_snapshot_def SESSION_DELTA_SNAPSHOT_def
  by (simp only: session_flags_valid_iff) simp

text \<open>Once the payload is written nothing fails: the header is put in front and the payload moved down.\<close>

lemma session_encoder_finishes:
  assumes len: "SESSION_MAX_HEADER_SIZE \<le> length out"
    and ticks: "tick_raw last_tick < tick_raw tick" "tick_raw bt \<le> tick_raw tick"
    and p: "encode_delta_payload_with_mode s bt baseline current l sc (drop SESSION_MAX_HEADER_SIZE out) SparseMode =
      Some (Inr (k, payload))"
  shows "\<exists>out'. encode_delta_snapshot_for_client_session_with_scratch s tick bt baseline current l sc last_tick out =
      Some (Inr (length (compact_header last_tick tick bt k) + k, out', tick)) \<and>
    take (length (compact_header last_tick tick bt k) + k) out' = compact_header last_tick tick bt k @ take k payload"
proof -
  let ?m = SESSION_MAX_HEADER_SIZE and ?h = "compact_header last_tick tick bt k"
  have "?m \<le> length (take ?m out)" using len by simp
  from encode_session_header_bytes [OF this delta_flags_valid] obtain head where
    head: "encode_session_header (take ?m out) session_flags_delta_snapshot (tick_raw tick - tick_raw last_tick)
      (tick_raw tick - tick_raw bt) (of_nat k) = Some (Inr (length ?h, head))"
    and hl: "length head = ?m" "take (length ?h) head = ?h"
    unfolding compact_header_def using len by (metis length_take min.absorb2)
  note k = payload_written [OF p]
  then have fits: "?m + k \<le> length head + length payload" "length ?h + k \<le> length head + length payload"
    using hl(1) compact_header_length [of last_tick tick bt k] by simp_all
  let ?out = "if length ?h < ?m then copy_within (head @ payload) ?m (?m + k) (length ?h) else head @ payload"
  have "encode_delta_snapshot_for_client_session_with_scratch s tick bt baseline current l sc last_tick out =
      Some (Inr (length ?h + k, ?out, tick))"
    using len ticks p head fits
    by (simp add: encode_delta_snapshot_for_client_session_with_scratch_def Let_def not_le not_less)
  moreover have "take (length ?h + k) ?out = ?h @ take k payload"
  proof (cases "length ?h < ?m")
    case True
    then show ?thesis
      using copy_within_down [OF hl(1), of "length ?h" k payload] k hl(2) by simp
  next
    case False
    then have "length ?h = ?m" using compact_header_length [of last_tick tick bt k] by simp
    then show ?thesis using hl by simp
  qed
  ultimately show ?thesis by blast
qed

lemma session_encoder_starts:
  assumes "encode_delta_snapshot_for_client_session_with_scratch s tick bt baseline current l sc last_tick out = r"
    and "\<And>e. r \<noteq> Some (Inl e)"
  obtains k payload where "SESSION_MAX_HEADER_SIZE \<le> length out"
    and "tick_raw last_tick < tick_raw tick" and "tick_raw bt \<le> tick_raw tick"
    and "encode_delta_payload_with_mode s bt baseline current l sc (drop SESSION_MAX_HEADER_SIZE out) SparseMode =
      Some (Inr (k, payload))"
proof -
  let ?p = "encode_delta_payload_with_mode s bt baseline current l sc (drop SESSION_MAX_HEADER_SIZE out) SparseMode"
  have "?p \<noteq> None" by (rule payload_no_panic)
  moreover have "?p \<noteq> Some (Inl e)" for e
  proof
    assume "?p = Some (Inl e)"
    with assms show False
      by (auto simp: encode_delta_snapshot_for_client_session_with_scratch_def Let_def split: if_splits)
  qed
  ultimately obtain k payload where "?p = Some (Inr (k, payload))"
    by (metis not_None_eq sum.exhaust surj_pair)
  with assms that [of k payload] show thesis
    by (auto simp: encode_delta_snapshot_for_client_session_with_scratch_def Let_def split: if_splits)
qed

lemma session_packet_bytes:
  assumes enc: "encode_delta_snapshot_for_client_session_with_scratch s tick bt baseline current l sc last_tick out =
      Some (Inr (n, out', last'))"
  obtains k payload where
    "encode_delta_payload_with_mode s bt baseline current l sc (drop SESSION_MAX_HEADER_SIZE out) SparseMode =
      Some (Inr (k, payload))"
    and "n = length (compact_header last_tick tick bt k) + k"
    and "take n out' = compact_header last_tick tick bt k @ take k payload"
    and "last' = tick" and "tick_raw last_tick < tick_raw tick" and "tick_raw bt \<le> tick_raw tick"
proof -
  have "Some (Inr (n, out', last')) \<noteq> Some (Inl e)" for e :: codec_error by simp
  from session_encoder_starts [OF enc this] obtain k payload where
    starts: "SESSION_MAX_HEADER_SIZE \<le> length out" "tick_raw last_tick < tick_raw tick" "tick_raw bt \<le> tick_raw tick"
      "encode_delta_payload_with_mode s bt baseline current l sc (drop SESSION_MAX_HEADER_SIZE out) SparseMode =
      Some (Inr (k, payload))" .
  from session_encoder_finishes [OF this] enc starts that [of k payload] show thesis by auto
qed

theorem encode_session_no_panic:
  "encode_delta_snapshot_for_client_session_with_scratch s tick bt baseline current l sc last_tick out \<noteq> None"
proof
  assume none: "encode_delta_snapshot_for_client_session_with_scratch s tick bt baseline current l sc last_tick out = None"
  from none obtain k payload where
    starts: "SESSION_MAX_HEADER_SIZE \<le> length out" "tick_raw last_tick < tick_raw tick" "tick_raw bt \<le> tick_raw tick"
      "encode_delta_payload_with_mode s bt baseline current l sc (drop SESSION_MAX_HEADER_SIZE out) SparseMode =
      Some (Inr (k, payload))" by (rule session_encoder_starts) simp_all
  from session_encoder_finishes [OF this] none show False by auto
qed

section \<open>The receiver\<close>

definition session_room :: "limits \<Rightarrow> usize \<Rightarrow> bool" where
  "session_room l n \<longleftrightarrow> n < 2 ^ 32 \<and> n \<le> max_section_len l \<and> 3 \<le> max_sections l"

lemma session_sections_within:
  assumes "length (concat (map section_bytes secs)) \<le> n" and "session_room l n" and "length secs \<le> 3"
  shows "sections_within l secs"
  using assms section_length_le [of _ secs] by (fastforce simp: sections_within_def session_room_def list_all_iff)

lemma compact_header_decodes:
  assumes ticks: "tick_raw last_tick < tick_raw tick" "tick_raw bt \<le> tick_raw tick" and bt: "tick_raw bt \<noteq> 0"
  shows "decode_session_header (compact_header last_tick tick bt k @ payload) (tick_raw last_tick) =
    Inr \<lparr>sh_flags = session_flags_delta_snapshot, sh_tick = tick_raw tick, sh_baseline_tick = tick_raw bt,
         sh_payload_len = of_nat k, sh_header_len = length (compact_header last_tick tick bt k)\<rparr>"
proof -
  let ?a = "tick_raw tick - tick_raw last_tick" and ?b = "tick_raw tick - tick_raw bt"
  have "unat ?a = unat (tick_raw tick) - unat (tick_raw last_tick)"
    using ticks(1) by (simp add: unat_sub)
  then have sum: "unat (tick_raw last_tick) + unat ?a < 2 ^ 32"
    using ticks(1) unsigned_less [of "tick_raw tick", where 'a = nat] by (simp add: word_less_nat_alt)
  have delta: "\<not> session_is_full_snapshot session_flags_delta_snapshot"
    unfolding session_flags_delta_snapshot_def SESSION_DELTA_SNAPSHOT_def by simp
  have b: "?b \<le> tick_raw tick" "?b < tick_raw tick"
  proof -
    have "unat ?b = unat (tick_raw tick) - unat (tick_raw bt)" using ticks(2) by (simp add: unat_sub)
    moreover have "0 < unat (tick_raw bt)" using bt by (simp add: unat_gt_0)
    ultimately show "?b \<le> tick_raw tick" "?b < tick_raw tick"
      using ticks by (simp_all add: word_le_nat_alt word_less_nat_alt)
  qed
  show ?thesis
    using decode_session_header_encoded [OF delta_flags_valid _ sum, of ?b "of_nat k" payload] ticks delta b
    by (auto simp: compact_header_def)
qed

lemma session_packet_decodes:
  assumes enc: "encode_delta_snapshot_for_client_session_with_scratch s tick bt baseline current l sc
      (ss_last_tick st) out = Some (Inr (n, out', last'))"
    and ok: "schema_ok s" "schema_ids_ok s" "sorted_wrt (<) (map cd_id (components s))"
    and fit: "counts_fit s baseline current" and room: "session_room wl n" and bt: "tick_raw bt \<noteq> 0"
    and hash: "ss_schema_hash st = schema_hash blake3 s"
  obtains p us where
    "decode_session_packet blake3 s st (take n out') wl = Inr (p, st\<lparr>ss_last_tick := tick\<rparr>)"
    and "wp_header p = header_delta_snapshot (schema_hash blake3 s) (tick_raw tick) (tick_raw bt)
      (ph_payload_len (wp_header p))"
    and "last' = tick" and "sn_tick baseline = bt"
    and "ids_sorted (sn_entities baseline)" and "ids_sorted (sn_entities current)"
    and "diff_updates s l (sn_entities baseline) (sn_entities current) = Inr us"
    and "decode_delta_sections s p l =
      Inr (map es_id (destroyed (sn_entities baseline) (sn_entities current)),
        map (canonical_entity s) (created (sn_entities baseline) (sn_entities current)), us)"
proof -
  from session_packet_bytes [OF enc] obtain k payload where
    p: "encode_delta_payload_with_mode s bt baseline current l sc (drop SESSION_MAX_HEADER_SIZE out) SparseMode =
      Some (Inr (k, payload))"
    and n: "n = length (compact_header (ss_last_tick st) tick bt k) + k"
    and bytes: "take n out' = compact_header (ss_last_tick st) tick bt k @ take k payload"
    and last': "last' = tick"
    and ticks: "tick_raw (ss_last_tick st) < tick_raw tick" "tick_raw bt \<le> tick_raw tick" .
  let ?h = "compact_header (ss_last_tick st) tick bt k"
  obtain secs us where kp: "k \<le> length payload"
    and "length payload = length (drop SESSION_MAX_HEADER_SIZE out)"
    and secs: "take k payload = concat (map section_bytes secs)"
      "list_all (\<lambda>sec. length (ws_body sec) < 2 ^ 32) secs" "length secs \<le> 3"
    and facts: "sn_tick baseline = bt" "ids_sorted (sn_entities baseline)" "ids_sorted (sn_entities current)"
      "diff_updates s l (sn_entities baseline) (sn_entities current) = Inr us"
    and dec: "\<forall>h. decode_delta_sections s \<lparr>wp_header = h, wp_sections = secs\<rparr> l =
      Inr (map es_id (destroyed (sn_entities baseline) (sn_entities current)),
        map (canonical_entity s) (created (sn_entities baseline) (sn_entities current)), us)"
    by (rule payload_decodes [OF p ok fit])
  have k: "length (take k payload) = k" using kp by (simp only: length_take min.absorb2)
  have k32: "unat (of_nat k :: u32) = k" using room n by (simp add: session_room_def unat_of_nat_u32)
  have within: "sections_within wl secs"
    using session_sections_within [OF _ room secs(3)] k n unfolding secs(1) by simp
  have "framed (take k payload) secs" unfolding secs(1) by (rule framed_section_bytes [OF secs(2)])
  with within have secs': "decode_sections (take k payload) wl = Inr secs" by (simp add: decode_sections_iff)
  have slice: "sub_slice (?h @ take k payload) (length ?h) (length ?h + k) = take k payload"
    using k by (simp add: sub_slice_def)
  have delta: "\<not> session_is_full_snapshot session_flags_delta_snapshot"
    unfolding session_flags_delta_snapshot_def SESSION_DELTA_SNAPSHOT_def by simp
  let ?p = "\<lparr>wp_header = header_delta_snapshot (schema_hash blake3 s) (tick_raw tick) (tick_raw bt) (of_nat k),
    wp_sections = secs\<rparr>"
  have "decode_session_packet blake3 s st (take n out') wl = Inr (?p, st\<lparr>ss_last_tick := tick\<rparr>)"
    using hash ticks k k32 secs' slice delta
    by (simp add: decode_session_packet_def bytes compact_header_decodes [OF ticks bt] Let_def
        header_delta_snapshot_def not_le SnapshotTick_raw)
  then show thesis
    using facts dec last' by (intro that [of ?p us]) (simp_all add: header_delta_snapshot_def)
qed

theorem session_delta_replicates:
  assumes enc: "encode_delta_snapshot_for_client_session_with_scratch s tick bt baseline current l sc
      (ss_last_tick st) out = Some (Inr (n, out', last'))"
    and ok: "schema_ok s" "schema_ids_ok s" "sorted_wrt (<) (map cd_id (components s))"
    and ents: "\<forall>b \<in> set (sn_entities baseline). entity_ok b"
    and fit: "counts_fit s baseline current" and room: "session_room wl n" and bt: "tick_raw bt \<noteq> 0"
    and hash: "ss_schema_hash st = schema_hash blake3 s"
    and total: "length (sn_entities current) \<le> max_total_entities_after_apply l"
  shows "\<exists>p. decode_session_packet blake3 s st (take n out') wl = Inr (p, st\<lparr>ss_last_tick := tick\<rparr>) \<and>
    apply_delta_snapshot_from_packet blake3 s baseline p l = Inr \<lparr>sn_tick = tick,
      sn_entities = delta_target s (sn_entities baseline) (sn_entities current)\<rparr> \<and> last' = tick"
proof -
  obtain p us where p: "decode_session_packet blake3 s st (take n out') wl = Inr (p, st\<lparr>ss_last_tick := tick\<rparr>)"
    and h: "wp_header p = header_delta_snapshot (schema_hash blake3 s) (tick_raw tick) (tick_raw bt)
      (ph_payload_len (wp_header p))"
    and last': "last' = tick" and tick: "sn_tick baseline = bt"
    and d: "ids_sorted (sn_entities baseline)" "ids_sorted (sn_entities current)"
      "diff_updates s l (sn_entities baseline) (sn_entities current) = Inr us"
      "decode_delta_sections s p l =
      Inr (map es_id (destroyed (sn_entities baseline) (sn_entities current)),
        map (canonical_entity s) (created (sn_entities baseline) (sn_entities current)), us)"
    by (rule session_packet_decodes [OF enc ok fit room bt hash])
  note hf = header_delta_fields [OF h bt]
  with tick have "ph_baseline_tick (wp_header p) = tick_raw (sn_tick baseline)" by simp
  from apply_decoded [OF _ _ this d ok(1) ents] hf total p last' show ?thesis by simp
qed

section \<open>Any input: what an accepted packet guarantees\<close>

lemma decode_session_packet_parts:
  assumes "decode_session_packet blake3 s st bytes wl = Inr (p, st')"
  obtains h where "ss_schema_hash st = schema_hash blake3 s"
    and "decode_session_header bytes (tick_raw (ss_last_tick st)) = Inr h"
    and "sh_header_len h + unat (sh_payload_len h) \<le> length bytes"
    and "decode_sections (sub_slice bytes (sh_header_len h) (sh_header_len h + unat (sh_payload_len h))) wl =
      Inr (wp_sections p)"
    and "wp_header p = \<lparr>ph_version = VERSION,
      ph_flags = (if session_is_full_snapshot (sh_flags h) then flags_full_snapshot else flags_delta_snapshot),
      ph_schema_hash = ss_schema_hash st, ph_tick = sh_tick h, ph_baseline_tick = sh_baseline_tick h,
      ph_payload_len = sh_payload_len h\<rparr>"
    and "st' = st\<lparr>ss_last_tick := SnapshotTick (sh_tick h)\<rparr>"
  using assms by (auto simp: decode_session_packet_def res_simps Let_def not_less)

lemma decode_session_packet_built:
  assumes "ss_schema_hash st = schema_hash blake3 s"
    and h: "decode_session_header bytes (tick_raw (ss_last_tick st)) = Inr h"
    and "sh_header_len h + unat (sh_payload_len h) \<le> length bytes"
    and "decode_sections (sub_slice bytes (sh_header_len h) (sh_header_len h + unat (sh_payload_len h))) wl = Inr secs"
  shows "decode_session_packet blake3 s st bytes wl = Inr (\<lparr>wp_header = \<lparr>ph_version = VERSION,
      ph_flags = (if session_is_full_snapshot (sh_flags h) then flags_full_snapshot else flags_delta_snapshot),
      ph_schema_hash = ss_schema_hash st, ph_tick = sh_tick h, ph_baseline_tick = sh_baseline_tick h,
      ph_payload_len = sh_payload_len h\<rparr>, wp_sections = secs\<rparr>,
    st\<lparr>ss_last_tick := SnapshotTick (sh_tick h)\<rparr>)"
  using assms decode_session_header_sound(1) [OF h] by (simp add: decode_session_packet_def Let_def not_le)

lemma decode_session_packet_sound:
  assumes "decode_session_packet blake3 s st bytes wl = Inr (p, st')"
  shows "tick_raw (ss_last_tick st) < ph_tick (wp_header p)"
    and "st' = st\<lparr>ss_last_tick := SnapshotTick (ph_tick (wp_header p))\<rparr>"
    and "ph_schema_hash (wp_header p) = schema_hash blake3 s"
    and "ph_baseline_tick (wp_header p) \<le> ph_tick (wp_header p)"
    and "is_full_snapshot (ph_flags (wp_header p)) \<noteq> is_delta_snapshot (ph_flags (wp_header p))"
    and "is_delta_snapshot (ph_flags (wp_header p)) \<longrightarrow> ph_baseline_tick (wp_header p) \<noteq> 0"
    and "is_full_snapshot (ph_flags (wp_header p)) \<longrightarrow> ph_baseline_tick (wp_header p) = ph_tick (wp_header p)"
    and "sections_within wl (wp_sections p)"
proof -
  from assms obtain h where hash: "ss_schema_hash st = schema_hash blake3 s"
    and h: "decode_session_header bytes (tick_raw (ss_last_tick st)) = Inr h"
    and secs: "decode_sections (sub_slice bytes (sh_header_len h) (sh_header_len h + unat (sh_payload_len h))) wl =
      Inr (wp_sections p)"
    and p: "wp_header p = \<lparr>ph_version = VERSION,
      ph_flags = (if session_is_full_snapshot (sh_flags h) then flags_full_snapshot else flags_delta_snapshot),
      ph_schema_hash = ss_schema_hash st, ph_tick = sh_tick h, ph_baseline_tick = sh_baseline_tick h,
      ph_payload_len = sh_payload_len h\<rparr>"
    and st': "st' = st\<lparr>ss_last_tick := SnapshotTick (sh_tick h)\<rparr>"
    by (rule decode_session_packet_parts)
  note sound = decode_session_header_sound [OF h]
  have flags: "is_full_snapshot flags_full_snapshot" "\<not> is_delta_snapshot flags_full_snapshot"
    "\<not> is_full_snapshot flags_delta_snapshot" "is_delta_snapshot flags_delta_snapshot"
    by (simp_all add: flags_full_snapshot_def flags_delta_snapshot_def FULL_SNAPSHOT_def DELTA_SNAPSHOT_def)
  have xor: "session_is_full_snapshot (sh_flags h) \<noteq> session_is_delta_snapshot (sh_flags h)"
    using sound(5) by (auto simp: session_flags_is_valid_def Let_def)
  show "tick_raw (ss_last_tick st) < ph_tick (wp_header p)" using sound(1) p by simp
  show "st' = st\<lparr>ss_last_tick := SnapshotTick (ph_tick (wp_header p))\<rparr>" using st' p by simp
  show "ph_schema_hash (wp_header p) = schema_hash blake3 s" using hash p by simp
  show "ph_baseline_tick (wp_header p) \<le> ph_tick (wp_header p)" using sound(2) p by simp
  show "is_full_snapshot (ph_flags (wp_header p)) \<noteq> is_delta_snapshot (ph_flags (wp_header p))"
    using flags p by simp
  show "is_delta_snapshot (ph_flags (wp_header p)) \<longrightarrow> ph_baseline_tick (wp_header p) \<noteq> 0"
    using flags xor sound(6) p by (auto split: if_splits)
  show "is_full_snapshot (ph_flags (wp_header p)) \<longrightarrow> ph_baseline_tick (wp_header p) = ph_tick (wp_header p)"
    using flags sound(7) p by (auto split: if_splits)
  show "sections_within wl (wp_sections p)" using secs by (simp add: decode_sections_iff)
qed

text \<open>The order check behind the header decoder never fires: the header decoder has made it.\<close>

theorem session_out_of_order_unreachable:
  "decode_session_packet blake3 s st bytes wl \<noteq> Inl (SessionOutOfOrder a b)"
proof (cases "decode_session_header bytes (tick_raw (ss_last_tick st))")
  case (Inl e)
  then show ?thesis by (simp add: decode_session_packet_def)
next
  case (Inr h)
  from decode_session_header_sound(1) [OF Inr] Inr show ?thesis
    by (cases "decode_sections (sub_slice bytes (sh_header_len h)
        (sh_header_len h + unat (sh_payload_len h))) wl")
      (auto simp: decode_session_packet_def Let_def)
qed

section \<open>Replays\<close>

lemma decode_session_header_parts:
  assumes "decode_session_header buf last_tick = Inr h"
  obtains a k1 b k2 where "buf \<noteq> []" and "sh_flags h = SessionFlags (buf ! 0)"
    and "session_flags_is_valid (sh_flags h)" and "a \<noteq> 0"
    and "session_read_varu32 buf 1 = Inr (a, k1)" and "checked_add_u32 last_tick a = Some (sh_tick h)"
    and "session_read_varu32 buf k1 = Inr (b, k2)"
    and "checked_sub_u32 (sh_tick h) b = Some (sh_baseline_tick h)"
    and "session_is_full_snapshot (sh_flags h) \<longrightarrow> b = 0"
    and "session_is_delta_snapshot (sh_flags h) \<longrightarrow> sh_baseline_tick h \<noteq> 0"
    and "session_read_varu32 buf k2 = Inr (sh_payload_len h, sh_header_len h)"
  using assms by (auto simp: decode_session_header_def Let_def res_simps split: if_splits)

lemma decode_session_header_again:
  assumes h: "decode_session_header buf last_tick = Inr h"
    and fits: "2 * unat (sh_tick h) - unat last_tick < 2 ^ 32"
  obtains h' where "decode_session_header buf (sh_tick h) = Inr h'"
    and "sh_tick h' = sh_tick h + (sh_tick h - last_tick)"
    and "sh_flags h' = sh_flags h" and "sh_payload_len h' = sh_payload_len h"
    and "sh_header_len h' = sh_header_len h"
proof -
  from decode_session_header_parts [OF h] obtain a k1 b k2 where
    flags: "buf \<noteq> []" "sh_flags h = SessionFlags (buf ! 0)" "session_flags_is_valid (sh_flags h)" "a \<noteq> 0"
    and r1: "session_read_varu32 buf 1 = Inr (a, k1)" and a: "checked_add_u32 last_tick a = Some (sh_tick h)"
    and r2: "session_read_varu32 buf k1 = Inr (b, k2)"
    and b: "checked_sub_u32 (sh_tick h) b = Some (sh_baseline_tick h)"
    and full: "session_is_full_snapshot (sh_flags h) \<longrightarrow> b = 0"
    and r3: "session_read_varu32 buf k2 = Inr (sh_payload_len h, sh_header_len h)" .
  have t: "sh_tick h = last_tick + a" "unat last_tick + unat a < 2 ^ 32"
    using a by (auto simp: checked_add_u32_def split: if_splits)
  then have ut: "unat (sh_tick h) = unat last_tick + unat a" by (simp add: unat_plus_if')
  with fits have add: "unat (sh_tick h) + unat a < 2 ^ 32" by simp
  then have ut': "unat (sh_tick h + a) = unat (sh_tick h) + unat a" by (simp add: unat_plus_if')
  have "b \<le> sh_tick h" using b by (auto simp: checked_sub_u32_def split: if_splits)
  moreover have apos: "unat a \<noteq> 0" using flags(4) by (simp add: unsigned_eq_0_iff)
  ultimately have b': "b \<le> sh_tick h + a" "b \<noteq> sh_tick h + a"
    using ut' apos by (auto simp: word_le_nat_alt)
  then have nz: "sh_tick h + a - b \<noteq> 0" by simp
  let ?h = "\<lparr>sh_flags = sh_flags h, sh_tick = sh_tick h + a, sh_baseline_tick = sh_tick h + a - b,
    sh_payload_len = sh_payload_len h, sh_header_len = sh_header_len h\<rparr>"
  have "decode_session_header buf (sh_tick h) = Inr ?h"
    unfolding decode_session_header_def
    using flags r1 r2 r3 full add b' nz
    by (simp add: Let_def checked_add_u32_def checked_sub_u32_def)
  then show thesis by (rule that) (simp_all add: t(1))
qed

theorem session_replay_accepted:
  assumes d: "decode_session_packet blake3 s st bytes wl = Inr (p, st')"
    and fits: "2 * unat (ph_tick (wp_header p)) - unat (tick_raw (ss_last_tick st)) < 2 ^ 32"
  shows "\<exists>p' st''. decode_session_packet blake3 s st' bytes wl = Inr (p', st'') \<and>
    wp_sections p' = wp_sections p \<and> ph_flags (wp_header p') = ph_flags (wp_header p) \<and>
    ph_tick (wp_header p') = ph_tick (wp_header p) + (ph_tick (wp_header p) - tick_raw (ss_last_tick st))"
proof -
  from d obtain h where hash: "ss_schema_hash st = schema_hash blake3 s"
    and h: "decode_session_header bytes (tick_raw (ss_last_tick st)) = Inr h"
    and len: "sh_header_len h + unat (sh_payload_len h) \<le> length bytes"
    and secs: "decode_sections (sub_slice bytes (sh_header_len h) (sh_header_len h + unat (sh_payload_len h))) wl =
      Inr (wp_sections p)"
    and p: "wp_header p = \<lparr>ph_version = VERSION,
      ph_flags = (if session_is_full_snapshot (sh_flags h) then flags_full_snapshot else flags_delta_snapshot),
      ph_schema_hash = ss_schema_hash st, ph_tick = sh_tick h, ph_baseline_tick = sh_baseline_tick h,
      ph_payload_len = sh_payload_len h\<rparr>"
    and st': "st' = st\<lparr>ss_last_tick := SnapshotTick (sh_tick h)\<rparr>"
    by (rule decode_session_packet_parts)
  from fits p have "2 * unat (sh_tick h) - unat (tick_raw (ss_last_tick st)) < 2 ^ 32" by simp
  from decode_session_header_again [OF h this] obtain h' where
    h': "decode_session_header bytes (sh_tick h) = Inr h'"
      "sh_tick h' = sh_tick h + (sh_tick h - tick_raw (ss_last_tick st))"
      "sh_flags h' = sh_flags h" "sh_payload_len h' = sh_payload_len h" "sh_header_len h' = sh_header_len h" .
  have "ss_schema_hash st' = schema_hash blake3 s" "tick_raw (ss_last_tick st') = sh_tick h"
    using hash st' by simp_all
  from decode_session_packet_built [OF this(1), of bytes h' wl "wp_sections p", unfolded this(2), OF h'(1)]
  show ?thesis using len secs p h' by simp
qed

end
