(* ===== verification/Replication.thy ===== *)
theory Replication
  imports Session_Stream
begin

text \<open>
  Sessions over time.  A receiver's run over a stream of packets is an inductive relation, equal to
  the function that folds the decoder; the replication of one sender to one receiver over a reliable
  channel is a step relation whose steps are the calls of the code, and its invariant is that the
  receiver sees the sender's last snapshot.
\<close>

section \<open>A receiver's run\<close>

inductive session_run ::
  "(u8 list \<Rightarrow> u8 list) \<Rightarrow> schema \<Rightarrow> limits \<Rightarrow>
    session_state \<Rightarrow> u8 list list \<Rightarrow> wire_packet list \<Rightarrow> session_state \<Rightarrow> bool"
  for blake3 s wl where
  run_Nil: "session_run blake3 s wl st [] [] st"
| run_accept: "decode_session_packet blake3 s st bytes wl = Inr (p, st1) \<Longrightarrow>
    session_run blake3 s wl st1 bs ps st2 \<Longrightarrow> session_run blake3 s wl st (bytes # bs) (p # ps) st2"
| run_reject: "decode_session_packet blake3 s st bytes wl = Inl e \<Longrightarrow>
    session_run blake3 s wl st bs ps st2 \<Longrightarrow> session_run blake3 s wl st (bytes # bs) ps st2"

inductive_cases session_run_NilE: "session_run blake3 s wl st [] ps st'"
inductive_cases session_run_ConsE: "session_run blake3 s wl st (bytes # bs) ps st'"

fun receive_all ::
  "(u8 list \<Rightarrow> u8 list) \<Rightarrow> schema \<Rightarrow> limits \<Rightarrow> session_state \<Rightarrow> u8 list list \<Rightarrow> wire_packet list \<times> session_state" where
  "receive_all blake3 s wl st [] = ([], st)"
| "receive_all blake3 s wl st (bytes # bs) =
    (case decode_session_packet blake3 s st bytes wl of
       Inl _ \<Rightarrow> receive_all blake3 s wl st bs
     | Inr (p, st1) \<Rightarrow> (let (ps, st2) = receive_all blake3 s wl st1 bs in (p # ps, st2)))"

lemma session_run_receive_all:
  "session_run blake3 s wl st bs ps st' \<longleftrightarrow> receive_all blake3 s wl st bs = (ps, st')"
proof
  assume "session_run blake3 s wl st bs ps st'"
  then show "receive_all blake3 s wl st bs = (ps, st')" by induction simp_all
next
  assume "receive_all blake3 s wl st bs = (ps, st')"
  then show "session_run blake3 s wl st bs ps st'"
  proof (induction bs arbitrary: st ps)
    case Nil
    then show ?case by (simp add: run_Nil)
  next
    case (Cons bytes bs)
    show ?case
    proof (cases "decode_session_packet blake3 s st bytes wl")
      case (Inl e)
      with Cons show ?thesis by (auto intro: run_reject)
    next
      case (Inr r)
      with Cons.prems obtain p st1 qs where "r = (p, st1)" "receive_all blake3 s wl st1 bs = (qs, st')" "ps = p # qs"
        by (auto split: prod.splits)
      with Inr Cons.IH show ?thesis by (auto intro: run_accept)
    qed
  qed
qed

abbreviation packet_tick :: "wire_packet \<Rightarrow> u32" where
  "packet_tick p \<equiv> ph_tick (wp_header p)"

text \<open>The ticks of the accepted packets rise strictly, from the session's tick to its new one.\<close>

theorem session_run_ticks:
  assumes "session_run blake3 s wl st bs ps st'"
  shows "sorted_wrt (<) (tick_raw (ss_last_tick st) # map packet_tick ps) \<and>
    st' = st\<lparr>ss_last_tick := SnapshotTick (last (tick_raw (ss_last_tick st) # map packet_tick ps))\<rparr> \<and>
    (\<forall>p \<in> set ps. ph_schema_hash (wp_header p) = schema_hash blake3 s)"
  using assms
proof induction
  case (run_accept st bytes p st1 bs ps st2)
  note sound = decode_session_packet_sound [OF run_accept.hyps(1)]
  with run_accept.IH show ?case by (auto dest: order_less_trans)
qed simp_all

section \<open>The sender, the channel and the receiver\<close>

record replica =
  rp_last :: snapshot_tick \<comment> \<open>the sender's last tick\<close>
  rp_sent :: snapshot \<comment> \<open>the sender's last snapshot, its next baseline\<close>
  rp_session :: session_state \<comment> \<open>the receiver's session\<close>
  rp_view :: snapshot \<comment> \<open>the receiver's snapshot\<close>

text \<open>Components in schema order, and thresholds on booleans only.\<close>

definition canonical_snapshot :: "schema \<Rightarrow> snapshot \<Rightarrow> bool" where
  "canonical_snapshot s sn \<longleftrightarrow> (\<forall>e \<in> set (sn_entities sn). canonical_entity s e = e \<and> exact_values s e)"

definition sendable :: "schema \<Rightarrow> codec_limits \<Rightarrow> limits \<Rightarrow> snapshot \<Rightarrow> snapshot \<Rightarrow> usize \<Rightarrow> bool" where
  "sendable s l wl base cur n \<longleftrightarrow> canonical_snapshot s cur \<and> counts_fit s base cur \<and> session_room wl n \<and>
    length (sn_entities cur) \<le> max_total_entities_after_apply l"

inductive replication_step ::
  "(u8 list \<Rightarrow> u8 list) \<Rightarrow> schema \<Rightarrow> codec_limits \<Rightarrow> limits \<Rightarrow> replica \<Rightarrow> replica \<Rightarrow> bool"
  for blake3 s l wl where
  replicate_delta:
  "encode_delta_snapshot_for_client_session_with_scratch s (sn_tick cur) (sn_tick (rp_sent r)) (rp_sent r) cur l sc
      (rp_last r) out = Some (Inr (n, out', last')) \<Longrightarrow>
    sendable s l wl (rp_sent r) cur n \<Longrightarrow>
    decode_session_packet blake3 s (rp_session r) (take n out') wl = Inr (p, session') \<Longrightarrow>
    apply_delta_snapshot_from_packet blake3 s (rp_view r) p l = Inr view' \<Longrightarrow>
    replication_step blake3 s l wl r
      \<lparr>rp_last = last', rp_sent = cur, rp_session = session', rp_view = view'\<rparr>"

inductive_cases replication_stepE: "replication_step blake3 s l wl r r'"

text \<open>The schemas for which replication is exact: components in id order.\<close>

definition exact_schema :: "schema \<Rightarrow> bool" where
  "exact_schema s \<longleftrightarrow> schema_ok s \<and> schema_ids_ok s \<and> sorted_wrt (<) (map cd_id (components s))"

definition in_sync :: "(u8 list \<Rightarrow> u8 list) \<Rightarrow> schema \<Rightarrow> replica \<Rightarrow> bool" where
  "in_sync blake3 s r \<longleftrightarrow> rp_view r = rp_sent r \<and> ss_last_tick (rp_session r) = rp_last r \<and>
    ss_schema_hash (rp_session r) = schema_hash blake3 s \<and> canonical_snapshot s (rp_sent r) \<and>
    tick_raw (sn_tick (rp_sent r)) \<noteq> 0"

lemma session_delta_exact:
  assumes "exact_schema s" and sync: "in_sync blake3 s r"
    and enc: "encode_delta_snapshot_for_client_session_with_scratch s (sn_tick cur) (sn_tick (rp_sent r))
      (rp_sent r) cur l sc (rp_last r) out = Some (Inr (n, out', last'))"
    and send: "sendable s l wl (rp_sent r) cur n"
  shows "\<exists>p. decode_session_packet blake3 s (rp_session r) (take n out') wl =
      Inr (p, (rp_session r)\<lparr>ss_last_tick := sn_tick cur\<rparr>) \<and>
    apply_delta_snapshot_from_packet blake3 s (rp_view r) p l = Inr cur \<and>
    last' = sn_tick cur \<and> tick_raw (sn_tick cur) \<noteq> 0"
proof -
  let ?bs = "sn_entities (rp_sent r)" and ?cs = "sn_entities cur"
  have ok: "schema_ok s" "schema_ids_ok s" "sorted_wrt (<) (map cd_id (components s))"
    using assms(1) by (simp_all add: exact_schema_def)
  have r: "rp_view r = rp_sent r" "ss_last_tick (rp_session r) = rp_last r"
      "ss_schema_hash (rp_session r) = schema_hash blake3 s" "tick_raw (sn_tick (rp_sent r)) \<noteq> 0"
    and canon: "\<forall>e \<in> set ?bs \<union> set ?cs. canonical_entity s e = e" and exact: "\<forall>e \<in> set ?cs. exact_values s e"
    and fit: "counts_fit s (rp_sent r) cur" "session_room wl n"
      "length ?cs \<le> max_total_entities_after_apply l"
    using sync send by (auto simp: in_sync_def sendable_def canonical_snapshot_def)
  have ents: "\<forall>b \<in> set ?bs. entity_ok b" using canon canonical_entity_ok [OF ok(1)] by (metis Un_iff)
  note enc' = enc [folded r(2)]
  obtain us where sorted: "ids_sorted ?bs" "ids_sorted ?cs" and us: "diff_updates s l ?bs ?cs = Inr us"
    by (rule session_packet_decodes [OF enc' ok(1-3) fit(1,2) r(4,3)])
  have "tick_raw (rp_last r) < tick_raw (sn_tick cur)" by (rule session_packet_bytes [OF enc])
  then have "tick_raw (sn_tick cur) \<noteq> 0" by auto
  moreover have "\<lparr>sn_tick = sn_tick cur, sn_entities = delta_target s ?bs ?cs\<rparr> = cur"
    using delta_target_current [OF ok(1) exact us sorted canon] by simp
  ultimately show ?thesis
    using session_delta_replicates [OF enc' ok(1-3) ents fit(1,2) r(4,3) fit(3)] r(1) by simp
qed

theorem replication_progress:
  assumes "exact_schema s" and "in_sync blake3 s r"
    and "encode_delta_snapshot_for_client_session_with_scratch s (sn_tick cur) (sn_tick (rp_sent r))
      (rp_sent r) cur l sc (rp_last r) out = Some (Inr (n, out', last'))"
    and "sendable s l wl (rp_sent r) cur n"
  shows "\<exists>r'. replication_step blake3 s l wl r r' \<and> rp_view r' = cur"
proof -
  from session_delta_exact [OF assms] obtain p where
    "decode_session_packet blake3 s (rp_session r) (take n out') wl =
      Inr (p, (rp_session r)\<lparr>ss_last_tick := sn_tick cur\<rparr>)"
    and "apply_delta_snapshot_from_packet blake3 s (rp_view r) p l = Inr cur" by blast
  note step = replicate_delta [OF assms(3,4) this]
  show ?thesis by (rule exI, rule conjI, rule step) simp
qed

lemma in_sync_step:
  assumes "exact_schema s" and "in_sync blake3 s r" and "replication_step blake3 s l wl r r'"
  shows "in_sync blake3 s r'"
proof -
  from assms(3) obtain cur sc out n out' last' p session' view' where
    enc: "encode_delta_snapshot_for_client_session_with_scratch s (sn_tick cur) (sn_tick (rp_sent r))
      (rp_sent r) cur l sc (rp_last r) out = Some (Inr (n, out', last'))"
    and send: "sendable s l wl (rp_sent r) cur n"
    and rcv: "decode_session_packet blake3 s (rp_session r) (take n out') wl = Inr (p, session')"
      "apply_delta_snapshot_from_packet blake3 s (rp_view r) p l = Inr view'"
    and r': "r' = \<lparr>rp_last = last', rp_sent = cur, rp_session = session', rp_view = view'\<rparr>"
    by (elim replication_stepE)
  from session_delta_exact [OF assms(1,2) enc send] rcv
  have "view' = cur" "session' = (rp_session r)\<lparr>ss_last_tick := sn_tick cur\<rparr>" "last' = sn_tick cur"
    "tick_raw (sn_tick cur) \<noteq> 0"
    by auto
  with r' send assms(2) show ?thesis by (simp add: in_sync_def sendable_def)
qed

theorem replication_in_sync:
  assumes "exact_schema s" and "in_sync blake3 s r" and "(replication_step blake3 s l wl)\<^sup>*\<^sup>* r r'"
  shows "in_sync blake3 s r'"
  using assms(3) by induction (use assms(1,2) in_sync_step in blast)+

section \<open>The start: an init packet and a full snapshot\<close>

definition replica_start :: "snapshot \<Rightarrow> session_state \<Rightarrow> snapshot \<Rightarrow> replica" where
  "replica_start sn session view = \<lparr>rp_last = sn_tick sn, rp_sent = sn, rp_session = session, rp_view = view\<rparr>"

theorem replication_starts_in_sync:
  assumes init: "encode_session_init_packet blake3 s (sn_tick sn) i m l out0 = Some (Inr (k, init))"
    and full: "encode_full_snapshot blake3 s (sn_tick sn) (sn_entities sn) l out1 = Some (Inr (n, bytes))"
    and ok: "schema_ok s" and fit: "length (sn_entities sn) < 2 ^ 32" and room: "wire_room wl k" "wire_room wl n"
    and canon: "canonical_snapshot s sn" and tick: "tick_raw (sn_tick sn) \<noteq> 0"
  shows "\<exists>session view. and_then (map_err Wire (decode_packet (take k init) wl))
      (\<lambda>p. decode_session_init_packet blake3 s p l) = Inr session \<and>
    decode_full_snapshot blake3 s (take n bytes) wl l = Inr view \<and>
    in_sync blake3 s (replica_start sn session view)"
proof -
  have "map (canonical_entity s) (sn_entities sn) = sn_entities sn"
    using canon by (intro map_idI) (simp add: canonical_snapshot_def)
  with full_snapshot_decodes [OF full ok fit room(2)] session_init_decodes [OF init room(1)] canon tick
  show ?thesis by (simp add: in_sync_def replica_start_def)
qed

end
