(* ===== verification/Bevy_Replicator.thy ===== *)
theory Bevy_Replicator
  imports Bevy_Apply Bevy_Extract Change_Packets Replication
begin

text \<open>
  The replicator of the engine adapter (\<^verbatim>\<open>sdec-bevy/src/replicator.rs\<close>): a frame is extracted from one
  world, encoded by the change encoder, decoded on the other side and applied to the other world.  The
  metrics sink, which only receives the packet's size and a wall-clock time, is left out.
\<close>

section \<open>The operations\<close>

record ('e, 'c) bevy_replicator =
  br_schema :: "'c bevy_schema"
  br_limits :: codec_limits
  br_wire_limits :: limits
  br_entities :: "'e entity_map"
  br_session :: "session_state option"
  br_change_set :: bevy_change_set
  br_scratch :: "'e extract_scratch"

definition replicator_new :: "'c bevy_schema \<Rightarrow> ('e, 'c) bevy_replicator" where
  "replicator_new bs =
    \<lparr>br_schema = bs, br_limits = codec_limits_default, br_wire_limits = limits_default,
     br_entities = entity_map_new, br_session = None, br_change_set = change_set_default,
     br_scratch = extract_scratch_default\<rparr>"

definition replicator_with_limits ::
  "codec_limits \<Rightarrow> limits \<Rightarrow> ('e, 'c) bevy_replicator \<Rightarrow> ('e, 'c) bevy_replicator" where
  "replicator_with_limits l wl r = r\<lparr>br_limits := l, br_wire_limits := wl\<rparr>"

definition replicator_update_session :: "session_state \<Rightarrow> ('e, 'c) bevy_replicator \<Rightarrow> ('e, 'c) bevy_replicator" where
  "replicator_update_session session r = r\<lparr>br_session := Some session\<rparr>"

definition encode_frame ::
  "(u8 list \<Rightarrow> u8 list) \<Rightarrow> ('w, 'e, 'c) world_ops \<Rightarrow> ('e set \<Rightarrow> 'e list) \<Rightarrow> 'w \<Rightarrow> snapshot_tick \<Rightarrow>
    snapshot_tick \<Rightarrow> u8 list \<Rightarrow> ('e, 'c) bevy_replicator \<Rightarrow>
    ((bevy_error + usize \<times> u8 list) \<times> ('e, 'c) bevy_replicator) option" where
  "encode_frame blake3 ops order world tick baseline_tick out r =
    (let (m, sc, changes) = extract_changes_with_scratch ops order (br_schema r) world (br_entities r)
           (br_scratch r) (br_change_set r);
         r = r\<lparr>br_entities := m, br_scratch := sc, br_change_set := changes\<rparr>;
         encoder = session_encoder_new (bs_schema (br_schema r)) (br_limits r)
     in map_option (\<lambda>result. (map_err CodecFailed result, r))
          (encode_delta_from_changes blake3 encoder tick baseline_tick (bc_creates changes) (bc_destroys changes)
            (bc_updates changes) out))"

definition apply_decoded_changes ::
  "('w, 'e, 'c) world_ops \<Rightarrow> delta_decoded \<Rightarrow> 'w \<Rightarrow> ('e, 'c) bevy_replicator \<Rightarrow>
    ((bevy_error + unit) \<times> 'w \<times> ('e, 'c) bevy_replicator) option" where
  "apply_decoded_changes ops decoded world r =
    map_option (\<lambda>(result, world, m). (result, world, r\<lparr>br_entities := m\<rparr>))
      (bevy_apply_changes ops (br_schema r) (dd_creates decoded) (dd_destroys decoded) (dd_updates decoded)
        world (br_entities r))"

definition apply_frame ::
  "(u8 list \<Rightarrow> u8 list) \<Rightarrow> ('w, 'e, 'c) world_ops \<Rightarrow> u8 list \<Rightarrow> 'w \<Rightarrow> ('e, 'c) bevy_replicator \<Rightarrow>
    ((bevy_error + unit) \<times> 'w \<times> ('e, 'c) bevy_replicator) option" where
  "apply_frame blake3 ops bytes world r =
    (case decode_packet bytes (br_wire_limits r) of
       Inl e \<Rightarrow> Some (Inl (WireFailed e), world, r)
     | Inr packet \<Rightarrow>
         (case decode_delta_packet blake3 (bs_schema (br_schema r)) packet (br_limits r) of
            Inl e \<Rightarrow> Some (Inl (CodecFailed e), world, r)
          | Inr decoded \<Rightarrow> apply_decoded_changes ops decoded world r))"

text \<open>
  The compact frame: the session is advanced by \<^verbatim>\<open>decode_session_packet\<close> before the payload is decoded,
  and stays advanced when that fails.
\<close>

definition apply_compact_frame ::
  "(u8 list \<Rightarrow> u8 list) \<Rightarrow> ('w, 'e, 'c) world_ops \<Rightarrow> u8 list \<Rightarrow> 'w \<Rightarrow> ('e, 'c) bevy_replicator \<Rightarrow>
    ((bevy_error + unit) \<times> 'w \<times> ('e, 'c) bevy_replicator) option" where
  "apply_compact_frame blake3 ops bytes world r =
    (case br_session r of
       None \<Rightarrow> Some (Inl SessionStateMissing, world, r)
     | Some session \<Rightarrow>
         (case decode_session_packet blake3 (bs_schema (br_schema r)) session bytes (br_wire_limits r) of
            Inl e \<Rightarrow> Some (Inl (CodecFailed e), world, r)
          | Inr (packet, session) \<Rightarrow>
              let r = r\<lparr>br_session := Some session\<rparr> in
              (case decode_delta_packet blake3 (bs_schema (br_schema r)) packet (br_limits r) of
                 Inl e \<Rightarrow> Some (Inl (CodecFailed e), world, r)
               | Inr decoded \<Rightarrow> apply_decoded_changes ops decoded world r)))"

section \<open>No frame panics\<close>

theorem frames_return:
  assumes "world_laws ops alive"
  shows "encode_frame blake3 ops order world tick bt out r \<noteq> None"
    and "apply_frame blake3 ops bytes world r \<noteq> None" and "apply_compact_frame blake3 ops bytes world r \<noteq> None"
proof -
  obtain m sc changes where ran: "extract_changes_with_scratch ops order (br_schema r) world (br_entities r)
      (br_scratch r) (br_change_set r) = (m, sc, changes)" by (rule prod_cases3)
  show "encode_frame blake3 ops order world tick bt out r \<noteq> None"
    unfolding encode_frame_def ran prod.case Let_def option.map_disc_iff encode_delta_from_changes_def
    by (rule change_lists_no_panic)
  have applied: "apply_decoded_changes ops decoded world r = None \<longleftrightarrow> False" for decoded and r :: "('b, 'c) bevy_replicator"
    unfolding apply_decoded_changes_def option.map_disc_iff using bevy_apply_returns [OF assms] by blast
  show "apply_frame blake3 ops bytes world r \<noteq> None"
    unfolding apply_frame_def by (simp add: applied del: not_None_eq split: sum.split)
  show "apply_compact_frame blake3 ops bytes world r \<noteq> None"
    unfolding apply_compact_frame_def Let_def by (simp add: applied del: not_None_eq split: sum.split option.split prod.split)
qed

section \<open>What is extracted is canonical\<close>

lemma extracted_canonical:
  assumes "bevy_schema_ok bs"
  shows "canonical_entity (bs_schema bs) \<lparr>es_id = i, es_components = snapshot_entity ops bs world e\<rparr> =
    \<lparr>es_id = i, es_components = snapshot_entity ops bs world e\<rparr>"
proof -
  let ?x = "\<lparr>es_id = i, es_components = snapshot_entity ops bs world e\<rparr>"
  have ids: "map cd_id (components (bs_schema bs)) = map ca_component_id (bs_adapters bs)"
    using assms by (simp add: bevy_schema_ok_def)
  have found: "find_component ?x (ca_component_id a) = snapshot_component ops world e a" if a: "a \<in> set (bs_adapters bs)" for a
  proof (cases "snapshot_component ops world e a")
    case None
    have "snapshot_component ops world e b \<noteq> Some c" if "b \<in> set (bs_adapters bs)" "cs_id c = ca_component_id a" for b c
      using built_adapters(3) [OF assms that(1) a] snapshot_component_id [of ops world e b c] None that(2) by auto
    with None show ?thesis
      by (auto simp: find_component_def find_None_iff snapshot_entity_def List.map_filter_def)
  next
    case (Some c)
    have "c \<in> set (snapshot_entity ops bs world e)" using a Some by (force simp: snapshot_entity_def List.map_filter_def)
    then have "find (\<lambda>x. cs_id x = cs_id c) (snapshot_entity ops bs world e) = Some c"
      using snapshot_entity_distinct [OF assms, of ops world e] by (auto simp: find_Some_iff distinct_conv_nth in_set_conv_nth)
    with Some snapshot_component_id show ?thesis by (metis entity_snapshot.select_convs(2) find_component_def)
  qed
  have "List.map_filter (\<lambda>d. find_component ?x (cd_id d)) (components (bs_schema bs)) =
      List.map_filter (\<lambda>a. find_component ?x (ca_component_id a)) (bs_adapters bs)"
    by (metis ids map_filter_image)
  also have "\<dots> = snapshot_entity ops bs world e" unfolding snapshot_entity_def
    by (rule map_filter_cong) (simp add: found [unfolded snapshot_entity_def])
  finally show ?thesis by (simp add: canonical_entity_def)
qed


text \<open>The change set of a frame: canonical creates, and updates in the order the encoder needs.\<close>

theorem extracted_frame:
  assumes "iteration_order order" "entity_map_ok m" and "bevy_schema_ok bs"
    and "unat (em_next m) + card (added_set ops bs world) + card (changed_set ops bs world) < 2 ^ 32"
    and "sorted_wrt (<) (map cd_id (components (bs_schema bs)))" and "changed_once ops bs world"
    and "extract_changes_with_scratch ops order bs world m sc out = (m', sc', changes)"
  shows "\<forall>c \<in> set (bc_creates changes). canonical_entity (bs_schema bs) c = c"
    and "\<forall>u \<in> set (bc_updates changes). update_ordered u"
proof -
  obtain added changed comps where "set changed \<subseteq> changed_set ops bs world - added_set ops bs world"
    and creates: "bc_creates changes = sort_key (\<lambda>e. entity_raw (es_id e))
      (map (\<lambda>e. \<lparr>es_id = the (em_to_id m' e), es_components = snapshot_entity ops bs world e\<rparr>) added)"
    and updates: "bc_updates changes = sort_key (\<lambda>e. entity_raw (ue_id e))
      (map (\<lambda>e. \<lparr>ue_id = the (em_to_id m' e), ue_components = comps e\<rparr>) changed)"
    and comps: "comps = (\<lambda>e. changed_components ops bs world e (the (xs_update_entities sc' e)))"
    by (rule extract_changes_lists [OF assms(1,2,4,7)])
  then show "\<forall>u \<in> set (bc_updates changes). update_ordered u"
    using extracted_update_ordered [OF assms(3,5-7)] unfolding updates comps by auto
  show "\<forall>c \<in> set (bc_creates changes). canonical_entity (bs_schema bs) c = c"
    unfolding creates by (simp add: extracted_canonical [OF assms(3)])
qed

section \<open>A frame delivered\<close>

lemma change_lists_sorted:
  "encode_delta_snapshot_from_updates blake3 s tick bt ds cs us l out = Some (Inr (n, out')) \<Longrightarrow>
    sorted_wrt (<) ds \<and> ids_sorted cs"
  by (auto simp: encode_delta_snapshot_from_updates_def encode_delta_payload_from_updates_def Let_def try_then_Inr
      if_Some_Inl_Inr ensure_entity_ids_sorted_Inr ensure_entities_sorted_Inr)

lemma find_in_components:
  "distinct (map cd_id ds) \<Longrightarrow> d \<in> set ds \<Longrightarrow>
    find (\<lambda>c. cs_id c = cd_id d) (List.map_filter (\<lambda>d. find_component e (cd_id d)) ds) = find_component e (cd_id d)"
proof (induction ds)
  case (Cons x ds)
  have other: "find (\<lambda>c. cs_id c = cd_id x) (List.map_filter (\<lambda>d. find_component e (cd_id d)) ds) = None"
    using Cons.prems(1) subsetD [OF present_components_ids [of e ds]] unfolding find_None_iff by (metis (lifting)
      distinct.simps(2) image_eqI list.simps(9) set_map)
  with Cons find_component_id show ?case by (auto simp: List.map_filter_simps(1) split: option.split)
qed simp

lemma canonical_components: "set (es_components (canonical_entity s e)) \<subseteq> set (es_components e)"
proof
  fix c assume "c \<in> set (es_components (canonical_entity s e))"
  then obtain i where "find_component e i = Some c" by (auto simp: canonical_entity_def List.map_filter_def)
  then show "c \<in> set (es_components e)" by (auto simp: find_component_def find_Some_iff)
qed

lemma canonical_idem: "schema_ok s \<Longrightarrow> canonical_entity s (canonical_entity s e) = canonical_entity s e"
  using find_in_components [of "components s" _ e]
  by (simp add: canonical_entity_def schema_ok_def find_component_def cong: map_filter_cong)

text \<open>
  While the receiver's world shows a snapshot, a frame that the sender encodes and the receiver applies
  leaves the receiver's world showing the snapshot with the sender's changes applied.
\<close>

theorem frame_delivered:
  assumes enc: "encode_delta_from_changes blake3 (session_encoder_new (bs_schema bs) l) tick bt cs ds us out =
      Some (Inr (n, out'))"
    and ord: "\<forall>u \<in> set us. update_ordered u"
    and small: "length ds < 2 ^ 32" "length cs < 2 ^ 32" "update_entry_count us < 2 ^ 32"
    and room: "delta_room (br_wire_limits r) n" "tick_raw bt \<noteq> 0"
    and receiver: "br_limits r = l" "br_schema r = bs" "engine_ok ops alive valid bs" "schema_ids_ok (bs_schema bs)"
    and view: "shows_snapshot ops alive bs es world (br_entities r)" "ids_sorted es"
    and applied: "apply_destroys es ds = Inr es1"
      "apply_creates es1 (map (canonical_entity (bs_schema bs)) cs) = Inr es2"
      "apply_updates (nonempty_updates us) es2 = Inr es3"
    and vals: "\<forall>c \<in> set cs. \<forall>x \<in> set (es_components c). snapshot_valid valid x"
      "\<forall>u \<in> set us. \<forall>c \<in> set (ue_components u). update_valid valid c"
    and world: "apply_frame blake3 ops (take n out') world r = Some (Inr (), world', r')"
  shows "shows_snapshot ops alive bs es3 world' (br_entities r')"
proof -
  let ?s = "bs_schema bs"
  have s: "schema_ok ?s" using engine_okD(2) [OF receiver(3)] by (simp add: bevy_schema_ok_def)
  have enc': "encode_delta_snapshot_from_updates blake3 ?s tick bt ds cs us l out = Some (Inr (n, out'))"
    using enc by (simp add: encode_delta_from_changes_def session_encoder_new_def)
  from change_lists_decode [OF enc' s receiver(4) ord small room] obtain p where
    p: "decode_packet (take n out') (br_wire_limits r) = Inr p"
    and d: "decode_delta_packet blake3 ?s p l = Inr \<lparr>dd_tick = tick, dd_baseline_tick = bt, dd_destroys = ds,
      dd_creates = map (canonical_entity ?s) cs, dd_updates = nonempty_updates us\<rparr>"
    by (auto simp: res_simps)
  have run: "bevy_apply_changes ops bs (map (canonical_entity ?s) cs) ds (nonempty_updates us) world (br_entities r) =
      Some (Inr (), world', br_entities r')"
    using world p d receiver(1,2) by (auto simp: apply_frame_def apply_decoded_changes_def)
  have sorted: "sorted_wrt (<) ds" "ids_sorted cs"
    using change_lists_sorted [OF enc'] by simp_all
  then have "ids_sorted (map (canonical_entity ?s) cs)" by (simp add: o_def)
  moreover have "\<forall>c \<in> set (map (canonical_entity ?s) cs). canonical_entity ?s c = c"
    using canonical_idem [OF s] by simp
  moreover have "\<forall>c \<in> set (map (canonical_entity ?s) cs). \<forall>x \<in> set (es_components c). snapshot_valid valid x"
    using vals(1) canonical_components [of ?s] by auto
  moreover have "\<forall>u \<in> set (nonempty_updates us). \<forall>c \<in> set (ue_components u). update_valid valid c"
    using vals(2) by auto
  ultimately show ?thesis
    using bevy_apply_refines [OF receiver(3) view(1,2) sorted(1) _ applied _ _ _ run] by blast
qed

end
