(* ===== verification/Bevy_Frame.thy ===== *)
theory Bevy_Frame
  imports Bevy_Replicator
begin

text \<open>
  A frame between two replicators, from world to world.  The sender's replicator extracts what the engine
  reports as added, changed and removed since its last frame; if these reports are complete, the receiver
  that showed the sender's last state shows its present state after applying the frame.
\<close>

section \<open>What the engine's change detection promises\<close>

text \<open>
  The entities \<open>es\<close> are what the receiver shows.  A removal is reported for entities among them only.
  Each of the others belongs to an entity of the sender's world to which no component was added, and a
  component that reads differently is reported as changed, and neither appeared nor disappeared.  An
  entity with a reported change is new or one of these.
\<close>

text \<open>One component of an entity that is known: it reads as shown, or \<open>P\<close> reports it as changed.\<close>

definition change_reported ::
  "('w, 'e, 'c) world_ops \<Rightarrow> 'w \<Rightarrow> 'e \<Rightarrow> ('c component_adapter \<Rightarrow> bool) \<Rightarrow> entity_snapshot \<Rightarrow> 'c component_adapter \<Rightarrow>
    bool" where
  "change_reported ops ws e P x a \<longleftrightarrow> find_component x (ca_component_id a) = snapshot_component ops ws e a \<or>
    P a \<and> find_component x (ca_component_id a) \<noteq> None \<and> snapshot_component ops ws e a \<noteq> None"

definition changes_detected ::
  "('w, 'e, 'c) world_ops \<Rightarrow> 'c bevy_schema \<Rightarrow> 'w \<Rightarrow> 'e entity_map \<Rightarrow> entity_snapshot list \<Rightarrow> bool" where
  "changes_detected ops bs ws m es \<longleftrightarrow>
    removed_ids ops bs ws m \<subseteq> es_id ` set es \<and>
    (\<forall>x \<in> set es. es_id x \<notin> removed_ids ops bs ws m \<longrightarrow>
      (\<exists>e. em_to_id m e = Some (es_id x) \<and> e \<notin> added_set ops bs ws \<and>
        (\<forall>a \<in> set (bs_adapters bs).
          change_reported ops ws e (\<lambda>a. e \<in> set (changed_entities ops ws a)) x a))) \<and>
    (\<forall>e \<in> changed_set ops bs ws - added_set ops bs ws.
      \<exists>x \<in> set es. em_to_id m e = Some (es_id x) \<and> es_id x \<notin> removed_ids ops bs ws m)"

section \<open>A full update rewrites its components\<close>

definition refreshed :: "delta_update_component list \<Rightarrow> component_snapshot \<Rightarrow> component_snapshot" where
  "refreshed us c =
    (case find (\<lambda>u. uc_id u = cs_id c) us of Some u \<Rightarrow> c\<lparr>cs_fields := map snd (uc_fields u)\<rparr> | None \<Rightarrow> c)"

lemma assign_full: "length vs = length fs \<Longrightarrow> assign_fields i (List.enumerate (length pre) fs) (pre @ vs) = Inr (pre @ fs)"
proof (induction fs arbitrary: pre vs)
  case (Cons f fs)
  then obtain v vs' where vs: "vs = v # vs'" "length vs' = length fs" by (cases vs) auto
  from Cons.IH [OF vs(2), of "pre @ [f]"] show ?case by (simp add: vs(1))
qed simp

lemma updates_refresh:
  "distinct (map cs_id cs) \<Longrightarrow> distinct (map uc_id us) \<Longrightarrow>
    \<forall>u \<in> set us. \<exists>c \<in> set cs. \<exists>fs. cs_id c = uc_id u \<and> uc_fields u = List.enumerate 0 fs \<and>
      length (cs_fields c) = length fs \<Longrightarrow>
    try_fold (update_component eid) us cs = Inr (map (refreshed us) cs)"
proof (induction us arbitrary: cs)
  case (Cons u us)
  from Cons.prems(3) obtain c fs where c: "c \<in> set cs" "cs_id c = uc_id u" and fs: "uc_fields u = List.enumerate 0 fs"
    and len: "length (cs_fields c) = length fs" by auto
  let ?h = "\<lambda>x. if cs_id x = uc_id u then x\<lparr>cs_fields := fs\<rparr> else x"
  have "assign_fields (uc_id u) (uc_fields u) (cs_fields c) = Inr fs"
    using assign_full [OF len, of "uc_id u" "[]"] by (simp add: fs)
  moreover have only: "x = c" if "x \<in> set cs" "cs_id x = uc_id u" for x
    using Cons.prems(1) that c unfolding distinct_map by (metis inj_onD)
  have "find (\<lambda>c. cs_id c = uc_id u) cs = Some c"
    using find_by_id [OF Cons.prems(1) c(1)] by (simp add: c(2))
  ultimately have "update_component eid u cs = Inr (map (\<lambda>x. if cs_id x = uc_id u then c\<lparr>cs_fields := fs\<rparr> else x) cs)"
    by (rule_tac update_component_map [OF Cons.prems(1)])
  moreover have "map (\<lambda>x. if cs_id x = uc_id u then c\<lparr>cs_fields := fs\<rparr> else x) cs = map ?h cs"
    using only by (intro map_cong) auto
  ultimately have first: "update_component eid u cs = Inr (map ?h cs)" by simp
  have ids: "map cs_id (map ?h cs) = map cs_id cs" by simp
  have fresh: "uc_id v \<noteq> uc_id u" if "v \<in> set us" for v using Cons.prems(2) that by (auto simp: rev_image_eqI)
  have "\<forall>v \<in> set us. \<exists>c \<in> set (map ?h cs). \<exists>fs. cs_id c = uc_id v \<and> uc_fields v = List.enumerate 0 fs \<and>
      length (cs_fields c) = length fs"
    using Cons.prems(3) fresh by fastforce
  from Cons.IH [OF _ _ this, unfolded ids] Cons.prems(1,2)
  have rest: "try_fold (update_component eid) us (map ?h cs) = Inr (map (refreshed us) (map ?h cs))" by simp
  have "find (\<lambda>v. uc_id v = uc_id u) us = None" using fresh by (auto simp: find_None_iff)
  then have "refreshed us (?h x) = refreshed (u # us) x" for x by (auto simp: refreshed_def fs)
  with first rest show ?case by (simp add: o_def)
qed (simp add: refreshed_def [abs_def])

section \<open>An entity that was known and stays\<close>

lemma full_updates:
  assumes ok: "bevy_schema_ok bs" and as: "set as \<subseteq> set (bs_adapters bs)"
  shows "changed_components ops bs ws e (map ca_component_id as) = List.map_filter (update_component_of ops ws e) as"
  using as
proof (induction as)
  case (Cons a as)
  have "adapter_by_component bs (ca_component_id a) = Some a"
  proof -
    have "distinct (map ca_component_id (bs_adapters bs))" using ok by (metis bevy_schema_ok_def schema_ok_def)
    from find_by_id [OF this, of a] ok Cons.prems show ?thesis by (simp add: bevy_schema_ok_def)
  qed
  with Cons show ?case by (simp add: changed_components_def List.map_filter_simps(1) split: option.split)
qed (simp add: changed_components_def List.map_filter_def)

lemma shown_canonical:
  assumes ok: "bevy_schema_ok bs" and view: "shows_snapshot ops alive bs es w m" and x: "x \<in> set es"
  obtains e where "em_to_entity m (es_id x) = Some e" "es_components x = snapshot_entity ops bs w e"
    "canonical_entity (bs_schema bs) x = x"
proof -
  from shows_snapshotD(3) [OF view] x obtain e where e: "em_to_entity m (es_id x) = Some e" by force
  with shows_snapshotD(4) [OF view x] have c: "es_components x = snapshot_entity ops bs w e" by simp
  have "canonical_entity (bs_schema bs) x = x"
    using extracted_canonical [OF ok, of "es_id x" ops w e] by (cases x) (simp flip: c)
  with e c show thesis by (rule that)
qed

lemma canonical_by_adapters:
  assumes "bevy_schema_ok bs" and "canonical_entity (bs_schema bs) x = x"
  shows "es_components x = List.map_filter (\<lambda>a. find_component x (ca_component_id a)) (bs_adapters bs)"
proof -
  have "map cd_id (components (bs_schema bs)) = map ca_component_id (bs_adapters bs)"
    using assms(1) by (simp add: bevy_schema_ok_def)
  then have "List.map_filter (\<lambda>d. find_component x (cd_id d)) (components (bs_schema bs)) =
      List.map_filter (\<lambda>a. find_component x (ca_component_id a)) (bs_adapters bs)" by (metis map_filter_image)
  with assms(2) show ?thesis by (metis canonical_entity_def entity_snapshot.ext_inject
      entity_snapshot.surjective entity_snapshot.update_convs(2))
qed

text \<open>The full update of the components whose adapter satisfies \<open>P\<close>.\<close>

abbreviation full_update ::
  "('w, 'e, 'c) world_ops \<Rightarrow> 'c bevy_schema \<Rightarrow> 'w \<Rightarrow> 'e \<Rightarrow> ('c component_adapter \<Rightarrow> bool) \<Rightarrow>
    delta_update_component list" where
  "full_update ops bs ws e P \<equiv> List.map_filter (update_component_of ops ws e) (filter P (bs_adapters bs))"

lemma update_of_snapshot:
  "update_component_of ops ws e a =
    map_option (\<lambda>c. \<lparr>uc_id = cs_id c, uc_fields = List.enumerate 0 (cs_fields c)\<rparr>) (snapshot_component ops ws e a)"
  by (simp add: update_component_of_def snapshot_component_def option.map_comp o_def)

lemma full_update_ids:
  "map uc_id (full_update ops bs ws e P) =
    map ca_component_id (filter (\<lambda>a. P a \<and> update_component_of ops ws e a \<noteq> None) (bs_adapters bs))"
proof -
  have "map uc_id (List.map_filter (update_component_of ops ws e) as) =
      map ca_component_id (filter (\<lambda>a. update_component_of ops ws e a \<noteq> None) as)" for as
    by (induction as) (auto simp: List.map_filter_simps(1) update_component_of_def split: option.split)
  then show ?thesis by (simp add: conj_commute)
qed

lemma full_update_distinct:
  assumes "bevy_schema_ok bs"
  shows "distinct (map uc_id (full_update ops bs ws e P))"
  unfolding full_update_ids by (rule distinct_map_filter) (use assms in \<open>metis bevy_schema_ok_def schema_ok_def\<close>)

lemma full_update_find:
  assumes ok: "bevy_schema_ok bs" and a: "a \<in> set (bs_adapters bs)"
  shows "find (\<lambda>u. uc_id u = ca_component_id a) (full_update ops bs ws e P) =
    (if P a then update_component_of ops ws e a else None)"
proof (cases "P a \<and> update_component_of ops ws e a \<noteq> None")
  case True
  then obtain u where u: "update_component_of ops ws e a = Some u" "u \<in> set (full_update ops bs ws e P)" using a
    by (force simp: List.map_filter_def)
  then have "uc_id u = ca_component_id a" by (auto simp: update_component_of_def)
  with find_by_id [OF full_update_distinct [OF ok] u(2)] u(1) True show ?thesis by simp
next
  case False
  have "ca_component_id b \<noteq> ca_component_id a"
    if "b \<in> set (bs_adapters bs)" "P b \<and> update_component_of ops ws e b \<noteq> None" for b
    using built_adapters(3) [OF ok that(1) a] that(2) False by auto
  then have "ca_component_id a \<notin> set (map uc_id (full_update ops bs ws e P))"
    unfolding full_update_ids set_map set_filter by (fastforce simp del: not_None_eq)
  then have "find (\<lambda>u. uc_id u = ca_component_id a) (full_update ops bs ws e P) = None"
    unfolding find_key_None set_map .
  with False show ?thesis by auto
qed

lemma snapshot_fields:
  assumes "engine_ok ops alive valid bs" and "a \<in> set (bs_adapters bs)"
    and "find_component \<lparr>es_id = i, es_components = snapshot_entity ops' bs w e\<rparr> (ca_component_id a) = Some c"
  shows "snapshot_component ops' w e a = Some c" "length (cs_fields c) = length (rt_fields (ca_trait a))"
proof -
  note ok = engine_okD [OF assms(1)]
  from assms(3) have c: "c \<in> set (snapshot_entity ops' bs w e)" "cs_id c = ca_component_id a"
    by (auto simp: find_component_def find_Some_iff)
  then obtain b where b: "b \<in> set (bs_adapters bs)" "snapshot_component ops' w e b = Some c"
    by (auto simp: snapshot_entity_def List.map_filter_def)
  have "b = a" using built_adapters(3) [OF ok(2) b(1) assms(2)] c(2) snapshot_component_id [OF b(2)] by simp
  with b(2) show "snapshot_component ops' w e a = Some c" by simp
  with replicated_component.read_length [OF ok(3) [OF assms(2)]]
  show "length (cs_fields c) = length (rt_fields (ca_trait a))" by (auto simp: snapshot_component_def)
qed

text \<open>
  The components of \<open>x\<close>, which the receiver shows, are brought to what the sender's entity reads by the
  full update of those that are reported as changed.
\<close>

lemma component_refreshed:
  assumes "bevy_schema_ok bs" and a: "a \<in> set (bs_adapters bs)" and reported: "change_reported ops ws e P x a"
  shows "map_option (refreshed (full_update ops bs ws e P)) (find_component x (ca_component_id a)) =
    snapshot_component ops ws e a"
proof (cases "find_component x (ca_component_id a)")
  case (Some c)
  note c = find_component_id [OF Some] and found = full_update_find [OF assms(1) a, of ops ws e P]
  from reported Some obtain c' where c': "snapshot_component ops ws e a = Some c'"
    by (cases "snapshot_component ops ws e a") (auto simp: change_reported_def)
  then have id: "cs_id c' = ca_component_id a" by (rule snapshot_component_id)
  show ?thesis
  proof (cases "P a")
    case True
    with found c' id have "find (\<lambda>u. uc_id u = cs_id c) (full_update ops bs ws e P) =
      Some \<lparr>uc_id = cs_id c', uc_fields = List.enumerate 0 (cs_fields c')\<rparr>" by (simp add: c update_of_snapshot)
    with id c have "refreshed (full_update ops bs ws e P) c = c'" by (simp add: refreshed_def)
    with Some c' show ?thesis by simp
  next
    case False
    with found have "refreshed (full_update ops bs ws e P) c = c" by (simp add: refreshed_def c)
    with False reported Some c' show ?thesis by (simp add: change_reported_def)
  qed
qed (use reported in \<open>auto simp: change_reported_def\<close>)

lemma kept_entity_follows:
  fixes rops :: "('v, 'f, 'c) world_ops"
  assumes engine: "engine_ok rops alive valid bs" and view: "shows_snapshot rops alive bs es w rm" and x: "x \<in> set es"
    and reported: "\<forall>a \<in> set (bs_adapters bs). change_reported ops ws e P x a"
  shows "try_fold (update_component eid) (full_update ops bs ws e P) (es_components x) =
    Inr (snapshot_entity ops bs ws e)"
proof -
  note ok = engine_okD(2) [OF engine]
  obtain f where f: "es_components x = snapshot_entity rops bs w f" and canon: "canonical_entity (bs_schema bs) x = x"
    by (rule shown_canonical [OF ok view x])
  have "\<exists>c \<in> set (es_components x). \<exists>fs. cs_id c = uc_id u \<and> uc_fields u = List.enumerate 0 fs \<and>
      length (cs_fields c) = length fs" if u: "u \<in> set (full_update ops bs ws e P)" for u
  proof -
    from u obtain a c' where a: "a \<in> set (bs_adapters bs)" and c': "snapshot_component ops ws e a = Some c'"
      and u': "u = \<lparr>uc_id = cs_id c', uc_fields = List.enumerate 0 (cs_fields c')\<rparr>"
      by (auto simp: List.map_filter_def update_of_snapshot)
    from component_refreshed [OF ok a, of ops ws e P x] reported a c'
    obtain c where c: "find_component x (ca_component_id a) = Some c" by auto
    then have "c \<in> set (es_components x)" "cs_id c = cs_id c'"
      using find_component_id [OF c] snapshot_component_id [OF c'] by (auto simp: find_component_def find_Some_iff)
    moreover have "length (cs_fields c) = length (rt_fields (ca_trait a))"
      by (rule snapshot_fields(2) [OF engine a, of "es_id x" rops w f]) (use c in \<open>simp add: find_component_def f\<close>)
    moreover have "length (cs_fields c') = length (rt_fields (ca_trait a))"
      using c' replicated_component.read_length [OF engine_okD(3) [OF engine a]] by (auto simp: snapshot_component_def)
    ultimately show ?thesis using u' by (intro bexI [of _ c] exI [of _ "cs_fields c'"]) simp_all
  qed
  then have "try_fold (update_component eid) (full_update ops bs ws e P) (es_components x) =
      Inr (map (refreshed (full_update ops bs ws e P)) (es_components x))"
    by (intro updates_refresh full_update_distinct [OF ok]) (auto simp: f snapshot_entity_distinct [OF ok])
  moreover have "map (refreshed (full_update ops bs ws e P)) (es_components x) = snapshot_entity ops bs ws e"
    unfolding canonical_by_adapters [OF ok canon] map_map_filter snapshot_entity_def
    by (rule map_filter_cong) (use component_refreshed [OF ok _ bspec [OF reported]] in blast)
  ultimately show ?thesis by simp
qed

section \<open>The change set takes the receiver's entities to the sender's\<close>

lemma no_full_update:
  "full_update ops bs ws e P = [] \<Longrightarrow> a \<in> set (bs_adapters bs) \<Longrightarrow> change_reported ops ws e P x a \<Longrightarrow>
    find_component x (ca_component_id a) = snapshot_component ops ws e a"
  by (auto simp: change_reported_def List.map_filter_def filter_empty_conv update_of_snapshot)

lemma kept_entity_updated:
  assumes engine: "engine_ok rops alive valid bs" and view: "shows_snapshot rops alive bs es w rm" and x: "x \<in> set es"
    and once: "changed_once ops bs ws" and map: "entity_map_ok m'" "em_to_id m' e = Some (es_id x)" "e \<notin> added_set ops bs ws"
    and reported: "\<forall>a \<in> set (bs_adapters bs). change_reported ops ws e (\<lambda>a. e \<in> set (changed_entities ops ws a)) x a"
    and ran: "extract_changes_with_scratch ops order bs ws m sc out = (m', sc', changes)"
    and updates: "distinct (map ue_id us)" "set us = (\<lambda>e. \<lparr>ue_id = the (em_to_id m' e), ue_components = comps e\<rparr>) ` set changed"
    and comps: "comps = (\<lambda>e. changed_components ops bs ws e (the (xs_update_entities sc' e)))"
    and changed: "set changed = {e \<in> changed_set ops bs ws - added_set ops bs ws. comps e \<noteq> []}"
      "changed_set ops bs ws \<subseteq> dom (em_to_id m')"
  shows "updated_entity us x = Inr (x\<lparr>es_components := snapshot_entity ops bs ws e\<rparr>)"
proof -
  note ok = engine_okD(2) [OF engine]
  let ?P = "\<lambda>a. e \<in> set (changed_entities ops ws a)"
  note follows = kept_entity_follows [OF engine view x reported]
  have full: "comps e = full_update ops bs ws e ?P" if "e \<in> changed_set ops bs ws"
    unfolding comps collected_ids [OF once that ran] by (rule full_updates [OF ok]) auto
  show ?thesis
  proof (cases "e \<in> set changed")
    case True
    let ?u = "\<lparr>ue_id = es_id x, ue_components = comps e\<rparr>"
    have "?u \<in> set us" unfolding updates(2) using True map(2) by force
    from find_by_id [OF updates(1) this] have "find (\<lambda>u. ue_id u = es_id x) us = Some ?u" by simp
    moreover have "comps e = full_update ops bs ws e ?P" using full True changed(1) by simp
    ultimately show ?thesis by (simp add: updated_entity_def update_entity_def follows)
  next
    case False
    have "ue_id u \<noteq> es_id x" if "u \<in> set us" for u
    proof
      assume u: "ue_id u = es_id x"
      from that obtain f where f: "f \<in> set changed" "ue_id u = the (em_to_id m' f)" unfolding updates(2) by auto
      with u changed have "em_to_id m' f = Some (es_id x)" by (metis (mono_tags, lifting) DiffE domD mem_Collect_eq
        option.sel subsetD)
      with map(2) entity_map_injective(1) [OF map(1)] f(1) False show False by metis
    qed
    then have none: "find (\<lambda>u. ue_id u = es_id x) us = None" by (auto simp: find_None_iff)
    have "full_update ops bs ws e ?P = []"
    proof (cases "e \<in> changed_set ops bs ws")
      case False
      then have "filter ?P (bs_adapters bs) = []" by (auto simp: filter_empty_conv changed_set_def)
      then show ?thesis by (simp add: List.map_filter_def)
    qed (use full changed(1) \<open>e \<notin> set changed\<close> map(3) in auto)
    with follows [of undefined] have "es_components x = snapshot_entity ops bs ws e" by simp
    then show ?thesis by (simp add: updated_entity_def none)
  qed
qed

lemma created_shown:
  assumes order: "iteration_order order" and ok: "entity_map_ok m"
    and room: "unat (em_next m) + card (added_set ops bs ws) + card (changed_set ops bs ws) < 2 ^ 32"
    and ran: "extract_changes_with_scratch ops order bs ws m sc out = (m', sc', changes)"
  shows "c \<in> set (bc_creates changes) \<Longrightarrow> \<exists>e \<in> added_set ops bs ws. em_to_id m' e = Some (es_id c) \<and>
      es_components c = snapshot_entity ops bs ws e"
    and "es_id ` set (bc_creates changes) =
      {i. \<exists>e \<in> added_set ops bs ws. em_to_id m' e = Some i \<and> snapshot_entity ops bs ws e \<noteq> []}" (is "?l = ?r")
proof -
  obtain added where added: "set added = {e \<in> added_set ops bs ws. snapshot_entity ops bs ws e \<noteq> []}"
    and m': "added_set ops bs ws \<union> changed_set ops bs ws \<subseteq> dom (em_to_id m')"
    and creates: "bc_creates changes = sort_key (\<lambda>e. entity_raw (es_id e))
      (map (\<lambda>e. \<lparr>es_id = the (em_to_id m' e), es_components = snapshot_entity ops bs ws e\<rparr>) added)"
    by (rule extract_changes_lists [OF order ok room ran])
  show "\<exists>e \<in> added_set ops bs ws. em_to_id m' e = Some (es_id c) \<and> es_components c = snapshot_entity ops bs ws e"
    if "c \<in> set (bc_creates changes)" using that added m' unfolding creates by force
  show "?l = ?r"
  proof
    show "?l \<subseteq> ?r" using added m' unfolding creates by fastforce
    show "?r \<subseteq> ?l" using added unfolding creates by (force simp: image_iff)
  qed
qed

lemma kept_shown:
  assumes order: "iteration_order order" and ok: "entity_map_ok m"
    and room: "unat (em_next m) + card (added_set ops bs ws) + card (changed_set ops bs ws) < 2 ^ 32"
    and once: "changed_once ops bs ws"
    and ran: "extract_changes_with_scratch ops order bs ws m sc out = (m', sc', changes)"
    and engine: "engine_ok rops alive valid bs" and view: "shows_snapshot rops alive bs es w rm"
    and detected: "changes_detected ops bs ws m es"
  shows "x \<in> set es \<Longrightarrow> es_id x \<notin> removed_ids ops bs ws m \<Longrightarrow>
      \<exists>e. em_to_id m' e = Some (es_id x) \<and> e \<notin> added_set ops bs ws \<and>
        updated_entity (bc_updates changes) x = Inr (x\<lparr>es_components := snapshot_entity ops bs ws e\<rparr>)"
    and "ue_id ` set (bc_updates changes) \<subseteq> {i \<in> es_id ` set es. i \<notin> removed_ids ops bs ws m}"
    and "nonempty_updates (bc_updates changes) = bc_updates changes"
proof -
  note accepted = extract_accepted [OF order ok room ran]
  obtain changed comps where changed: "set changed = {e \<in> changed_set ops bs ws - added_set ops bs ws. comps e \<noteq> []}"
    and m': "em_to_id m \<subseteq>\<^sub>m em_to_id m'" "added_set ops bs ws \<union> changed_set ops bs ws \<subseteq> dom (em_to_id m')"
    and updates: "bc_updates changes = sort_key (\<lambda>e. entity_raw (ue_id e))
      (map (\<lambda>e. \<lparr>ue_id = the (em_to_id m' e), ue_components = comps e\<rparr>) changed)"
    and comps: "comps = (\<lambda>e. changed_components ops bs ws e (the (xs_update_entities sc' e)))"
    by (rule extract_changes_lists [OF order ok room ran])
  show "\<exists>e. em_to_id m' e = Some (es_id x) \<and> e \<notin> added_set ops bs ws \<and>
      updated_entity (bc_updates changes) x = Inr (x\<lparr>es_components := snapshot_entity ops bs ws e\<rparr>)"
    if x: "x \<in> set es" "es_id x \<notin> removed_ids ops bs ws m"
  proof -
    from x detected obtain e where e: "em_to_id m e = Some (es_id x)" "e \<notin> added_set ops bs ws"
      and reported: "\<forall>a \<in> set (bs_adapters bs). change_reported ops ws e (\<lambda>a. e \<in> set (changed_entities ops ws a)) x a"
      by (auto simp: changes_detected_def)
    have e': "em_to_id m' e = Some (es_id x)" using e(1) m'(1) by (auto simp: map_le_def dom_def)
    have "updated_entity (bc_updates changes) x = Inr (x\<lparr>es_components := snapshot_entity ops bs ws e\<rparr>)"
      by (rule kept_entity_updated [OF engine view x(1) once accepted(1) e' e(2) reported ran _ _ comps changed])
        (use m'(2) accepted(4) in \<open>auto simp: updates strict_sorted_iff\<close>)
    with e' e(2) show ?thesis by blast
  qed
  show "ue_id ` set (bc_updates changes) \<subseteq> {i \<in> es_id ` set es. i \<notin> removed_ids ops bs ws m}"
  proof
    fix i assume "i \<in> ue_id ` set (bc_updates changes)"
    then obtain e where e: "e \<in> changed_set ops bs ws - added_set ops bs ws" "i = the (em_to_id m' e)"
      using changed unfolding updates by auto
    with detected obtain x where "x \<in> set es" "em_to_id m e = Some (es_id x)" "es_id x \<notin> removed_ids ops bs ws m"
      unfolding changes_detected_def by blast
    with e(2) m'(1) show "i \<in> {i \<in> es_id ` set es. i \<notin> removed_ids ops bs ws m}" by (auto simp: map_le_def dom_def)
  qed
  show "nonempty_updates (bc_updates changes) = bc_updates changes"
    unfolding filter_id_conv using changed unfolding updates by auto
qed

theorem changes_followed:
  assumes order: "iteration_order order" and ok: "entity_map_ok m"
    and room: "unat (em_next m) + card (added_set ops bs ws) + card (changed_set ops bs ws) < 2 ^ 32"
    and once: "changed_once ops bs ws"
    and ran: "extract_changes_with_scratch ops order bs ws m sc out = (m', sc', changes)"
    and engine: "engine_ok rops alive valid bs"
    and view: "shows_snapshot rops alive bs es w rm" "ids_sorted es" and detected: "changes_detected ops bs ws m es"
  obtains es1 es2 es3 where "apply_destroys es (bc_destroys changes) = Inr es1"
    "apply_creates es1 (bc_creates changes) = Inr es2" "apply_updates (bc_updates changes) es2 = Inr es3"
    "nonempty_updates (bc_updates changes) = bc_updates changes" "ids_sorted es3"
    "es_id ` set es3 = es_id ` set es - removed_ids ops bs ws m \<union>
      {i. \<exists>e \<in> added_set ops bs ws. em_to_id m' e = Some i \<and> snapshot_entity ops bs ws e \<noteq> []}"
    "\<forall>x \<in> set es3. \<exists>e. em_to_id m' e = Some (es_id x) \<and> es_components x = snapshot_entity ops bs ws e"
proof -
  let ?D = "removed_ids ops bs ws m"
  note accepted = extract_accepted [OF order ok room ran] and made = created_shown [OF order ok room ran]
  note kept = kept_shown [OF order ok room once ran engine view(1) detected]
  have destroys: "bc_destroys changes = sorted_list_of_set ?D" by (rule extract_changes_lists [OF order ok room ran])
  have D: "?D \<subseteq> es_id ` set es" and finite: "finite ?D"
    using detected by (auto simp: changes_detected_def intro: finite_subset)
  define es1 where "es1 = filter (\<lambda>x. es_id x \<notin> ?D) es"
  have es1: "apply_destroys es (bc_destroys changes) = Inr es1"
    unfolding destroys by (subst apply_destroys_iff [OF view(2)]) (use D finite in \<open>simp_all add: es1_def\<close>)
  have sorted1: "ids_sorted es1" unfolding es1_def by (rule ids_sorted_filter [OF view(2)])
  have "es_id ` set es1 \<inter> es_id ` set (bc_creates changes) = {}"
    using kept(1) made(1) entity_map_injective(1) [OF accepted(1)] by (fastforce simp: es1_def)
  moreover have sorted: "ids_sorted (bc_creates changes)" using accepted(2) by (simp add: ensure_entities_sorted_Inr)
  ultimately obtain es2 where es2: "apply_creates es1 (bc_creates changes) = Inr es2"
    using apply_creates_complete [OF sorted1] by blast
  note sound2 = apply_creates_sound [OF sorted1 sorted es2]
  define g :: "entity_snapshot \<Rightarrow> entity_snapshot"
    where "g x = x\<lparr>es_components := snapshot_entity ops bs ws (the (em_to_entity m' (es_id x)))\<rparr>" for x
  have named: "em_to_id m' e = Some i \<Longrightarrow> the (em_to_entity m' i) = e" for i e
    using entity_map_okD(1) [OF accepted(1)] by simp
  have each: "updated_entity (bc_updates changes) x = Inr (g x) \<and> (\<exists>e. em_to_id m' e = Some (es_id x))"
    if "x \<in> set es2" for x
  proof (cases "x \<in> set es1")
    case True
    then have "x \<in> set es" "es_id x \<notin> ?D" by (simp_all add: es1_def)
    from kept(1) [OF this] named show ?thesis by (auto simp: g_def)
  next
    case False
    then have x: "x \<in> set (bc_creates changes)" using that sound2 by blast
    then have "es_id x \<notin> ue_id ` set (bc_updates changes)" using accepted(5) by blast
    then have "find (\<lambda>u. ue_id u = es_id x) (bc_updates changes) = None" by (simp add: find_key_None)
    moreover have "g x = x" using made(1) [OF x] named by (auto simp: g_def)
    ultimately show ?thesis using made(1) [OF x] by (auto simp: updated_entity_def)
  qed
  have known: "ue_id ` set (bc_updates changes) \<subseteq> es_id ` set es2" using sound2 kept(2) by (auto simp: es1_def)
  have "distinct (map ue_id (bc_updates changes))" using accepted(4) by (simp add: strict_sorted_iff)
  from apply_updates_pointwise [OF _ this known conjunct1 [OF each]] sound2
  have es3: "apply_updates (bc_updates changes) es2 = Inr (map g es2)" by blast
  have id: "es_id (g x) = es_id x" for x by (simp add: g_def)
  have "es_id ` set (map g es2) = es_id ` set es1 \<union> es_id ` set (bc_creates changes)"
    using sound2 by (simp add: image_image id image_Un)
  moreover have "es_id ` set es1 = es_id ` set es - ?D" by (auto simp: es1_def)
  moreover have "\<exists>e. em_to_id m' e = Some (es_id (g x)) \<and> es_components (g x) = snapshot_entity ops bs ws e"
    if "x \<in> set es2" for x using each [OF that] named by (auto simp: g_def)
  ultimately show thesis
    by (intro that [OF es1 es2 es3 kept(3)]) (use sound2 made(2) in \<open>simp_all add: o_def id\<close>)
qed

section \<open>A frame from world to world\<close>

lemma encode_frame_run:
  assumes "encode_frame blake3 ops order ws tick bt out s = Some (Inr (n, out'), s')"
  obtains sc' where
    "extract_changes_with_scratch ops order (br_schema s) ws (br_entities s) (br_scratch s) (br_change_set s) =
      (br_entities s', sc', br_change_set s')"
    "encode_delta_from_changes blake3 (session_encoder_new (bs_schema (br_schema s)) (br_limits s)) tick bt
      (bc_creates (br_change_set s')) (bc_destroys (br_change_set s')) (bc_updates (br_change_set s')) out =
      Some (Inr (n, out'))"
proof -
  obtain m sc changes where ran: "extract_changes_with_scratch ops order (br_schema s) ws (br_entities s)
      (br_scratch s) (br_change_set s) = (m, sc, changes)" by (rule prod_cases3)
  with assms show thesis by (intro that [of sc]) (auto simp: encode_frame_def Let_def res_simps)
qed

definition values_kept ::
  "('w, 'e, 'c) world_ops \<Rightarrow> 'c bevy_schema \<Rightarrow> 'w \<Rightarrow> (component_id \<Rightarrow> usize \<Rightarrow> field_value \<Rightarrow> bool) \<Rightarrow> bool" where
  "values_kept ops bs ws valid \<longleftrightarrow>
    (\<forall>e. \<forall>a \<in> set (bs_adapters bs). \<forall>c. snapshot_component ops ws e a = Some c \<longrightarrow> snapshot_valid valid c)"

lemma extracted_values:
  assumes ran: "extract_changes_with_scratch ops order bs ws m sc out = (m', sc', changes)"
    and lists: "iteration_order order" "entity_map_ok m"
      "unat (em_next m) + card (added_set ops bs ws) + card (changed_set ops bs ws) < 2 ^ 32"
    and ok: "bevy_schema_ok bs" and vals: "values_kept ops bs ws valid"
  shows "\<forall>c \<in> set (bc_creates changes). \<forall>x \<in> set (es_components c). snapshot_valid valid x"
    and "\<forall>u \<in> set (bc_updates changes). \<forall>c \<in> set (ue_components u). update_valid valid c"
proof -
  obtain added changed comps where creates: "bc_creates changes = sort_key (\<lambda>e. entity_raw (es_id e))
      (map (\<lambda>e. \<lparr>es_id = the (em_to_id m' e), es_components = snapshot_entity ops bs ws e\<rparr>) added)"
    and updates: "bc_updates changes = sort_key (\<lambda>e. entity_raw (ue_id e))
      (map (\<lambda>e. \<lparr>ue_id = the (em_to_id m' e), ue_components = comps e\<rparr>) changed)"
    and comps: "comps = (\<lambda>e. changed_components ops bs ws e (the (xs_update_entities sc' e)))"
    by (rule extract_changes_lists [OF lists ran])
  show "\<forall>c \<in> set (bc_creates changes). \<forall>x \<in> set (es_components c). snapshot_valid valid x"
    using vals by (auto simp: creates values_kept_def snapshot_entity_def List.map_filter_def)
  have "update_valid valid u" if "u \<in> set (changed_components ops bs ws e is)" for u e "is"
  proof -
    from that obtain i a where "adapter_by_component bs i = Some a" "update_component_of ops ws e a = Some u"
      by (auto simp: changed_components_def List.map_filter_def bind_eq_Some_conv)
    moreover from this(1) have "a \<in> set (bs_adapters bs)" using built_adapters(1) [OF ok] by blast
    ultimately obtain c where "snapshot_valid valid c"
      "u = \<lparr>uc_id = cs_id c, uc_fields = List.enumerate 0 (cs_fields c)\<rparr>"
      using vals unfolding values_kept_def update_of_snapshot by blast
    then show ?thesis by (auto simp: snapshot_valid_def update_valid_def in_set_enumerate_eq)
  qed
  then show "\<forall>u \<in> set (bc_updates changes). \<forall>c \<in> set (ue_components u). update_valid valid c"
    by (auto simp: updates comps)
qed

theorem frame_followed:
  assumes enc: "encode_frame blake3 ops order ws tick bt out s = Some (Inr (n, out'), s')"
    and sender: "br_schema s = bs" "iteration_order order" "entity_map_ok (br_entities s)"
      "unat (em_next (br_entities s)) + card (added_set ops bs ws) + card (changed_set ops bs ws) < 2 ^ 32"
    and schema: "schema_ids_ok (bs_schema bs)" "sorted_wrt (<) (map cd_id (components (bs_schema bs)))"
    and once: "changed_once ops bs ws" and detected: "changes_detected ops bs ws (br_entities s) es"
    and vals: "values_kept ops bs ws valid"
    and receiver: "br_limits r = br_limits s" "br_schema r = bs" "engine_ok rops alive valid bs"
    and view: "shows_snapshot rops alive bs es w (br_entities r)" "ids_sorted es"
    and small: "length (bc_destroys (br_change_set s')) < 2 ^ 32" "length (bc_creates (br_change_set s')) < 2 ^ 32"
      "update_entry_count (bc_updates (br_change_set s')) < 2 ^ 32"
    and room: "delta_room (br_wire_limits r) n" "tick_raw bt \<noteq> 0"
    and world: "apply_frame blake3 rops (take n out') w r = Some (Inr (), w', r')"
  shows "\<exists>es'. shows_snapshot rops alive bs es' w' (br_entities r') \<and> ids_sorted es' \<and>
    es_id ` set es' = es_id ` set es - removed_ids ops bs ws (br_entities s) \<union>
      {i. \<exists>e \<in> added_set ops bs ws. em_to_id (br_entities s') e = Some i \<and> snapshot_entity ops bs ws e \<noteq> []} \<and>
    (\<forall>x \<in> set es'. \<exists>e. em_to_id (br_entities s') e = Some (es_id x) \<and>
      es_components x = snapshot_entity ops bs ws e)"
proof -
  obtain sc' where ran: "extract_changes_with_scratch ops order bs ws (br_entities s) (br_scratch s) (br_change_set s) =
      (br_entities s', sc', br_change_set s')"
    and sent: "encode_delta_from_changes blake3 (session_encoder_new (bs_schema bs) (br_limits s)) tick bt
      (bc_creates (br_change_set s')) (bc_destroys (br_change_set s')) (bc_updates (br_change_set s')) out =
      Some (Inr (n, out'))" using encode_frame_run [OF enc] by (metis sender(1))
  note ok = engine_okD(2) [OF receiver(3)]
  note frame = extracted_frame [OF sender(2,3) ok sender(4) schema(2) once ran]
  obtain es1 es2 es3 where steps: "apply_destroys es (bc_destroys (br_change_set s')) = Inr es1"
      "apply_creates es1 (bc_creates (br_change_set s')) = Inr es2"
      "apply_updates (bc_updates (br_change_set s')) es2 = Inr es3"
      "nonempty_updates (bc_updates (br_change_set s')) = bc_updates (br_change_set s')"
    and es3: "ids_sorted es3" "es_id ` set es3 = es_id ` set es - removed_ids ops bs ws (br_entities s) \<union>
      {i. \<exists>e \<in> added_set ops bs ws. em_to_id (br_entities s') e = Some i \<and> snapshot_entity ops bs ws e \<noteq> []}"
      "\<forall>x \<in> set es3. \<exists>e. em_to_id (br_entities s') e = Some (es_id x) \<and> es_components x = snapshot_entity ops bs ws e"
    by (rule changes_followed [OF sender(2-4) once ran receiver(3) view detected])
  have canonical: "map (canonical_entity (bs_schema bs)) (bc_creates (br_change_set s')) = bc_creates (br_change_set s')"
    using frame(1) by (intro map_idI) blast
  have "shows_snapshot rops alive bs es3 w' (br_entities r')"
    by (rule frame_delivered [OF sent frame(2) small room receiver(1,2,3) schema(1) view steps(1) _ _
        extracted_values [OF ran sender(2-4) ok vals] world])
      (use steps canonical in simp_all)
  with es3 show ?thesis by blast
qed

end
