(* ===== verification/Delta_Scratch.thy ===== *)
theory Delta_Scratch
  imports Delta_Payload
begin

text \<open>
  No result of the encoder depends on what the scratch buffers hold.  Two runs are compared by the
  relator of sums: the same error, or the same value beside buffers in a relation.
\<close>

section \<open>Runs that agree\<close>

abbreviation runs_agree :: "('a \<Rightarrow> 'b \<Rightarrow> bool) \<Rightarrow> 'e + 'a \<Rightarrow> 'e + 'b \<Rightarrow> bool" where
  "runs_agree R \<equiv> rel_sum (=) R"

lemma agree_then:
  assumes "runs_agree A m m'" and "\<And>x y. A x y \<Longrightarrow> runs_agree B (f x) (g y)"
  shows "runs_agree B (and_then m f) (and_then m' g)"
  using assms by (cases m; cases m') auto

lemma agree_same: "(\<And>x. m = Inr x \<Longrightarrow> runs_agree B (f x) (g x)) \<Longrightarrow> runs_agree B (and_then m f) (and_then m g)"
  by (cases m) auto

lemma agree_fst: "runs_agree (rel_prod (=) R) m m' \<Longrightarrow> map_ok fst m = map_ok fst m'"
  by (cases m; cases m') auto

text \<open>The changed flags of the first components agree; they are the only state that is read again.\<close>

definition flags_agree :: "usize \<Rightarrow> codec_scratch \<Rightarrow> codec_scratch \<Rightarrow> bool" where
  "flags_agree n sc sc' \<longleftrightarrow> n \<le> length (sc_component_changed sc) \<and> n \<le> length (sc_component_changed sc') \<and>
    take n (sc_component_changed sc) = take n (sc_component_changed sc')"

abbreviation any_scratch :: "codec_scratch \<Rightarrow> codec_scratch \<Rightarrow> bool" where
  "any_scratch sc sc' \<equiv> True"

lemma agree_any: "map_ok fst m = map_ok fst m' \<Longrightarrow> runs_agree (rel_prod (=) any_scratch) m m'"
  by (cases m; cases m') auto

lemma agree_pair:
  assumes "pair = None \<Longrightarrow> runs_agree R m m'"
    and "\<And>b c. pair = Some (b, c) \<Longrightarrow> runs_agree R (f b c) (g b c)"
  shows "runs_agree R (case pair of Some (b, c) \<Rightarrow> f b c | None \<Rightarrow> m)
    (case pair of Some (b, c) \<Rightarrow> g b c | None \<Rightarrow> m')"
  using assms by (auto split: option.split)

lemma agree_mask:
  assumes "check_field_counts component b c l = Inr u"
    and "\<And>m t t'. runs_agree B (f (m, t)) (g (m, t'))"
  shows "runs_agree B (and_then (scratch_field_mask n component b c sc) f)
    (and_then (scratch_field_mask n component b c sc') g)"
proof -
  have "runs_agree (rel_prod (=) any_scratch) (scratch_field_mask n component b c sc)
    (scratch_field_mask n component b c sc')"
    by (rule agree_any) (simp add: scratch_field_mask_changed [OF assms(1)])
  then show ?thesis by (rule agree_then) (use assms(2) in auto)
qed

section \<open>The choice of the encoding and the count of entries\<close>

lemma select_components_agree:
  "runs_agree (rel_prod (=) (rel_prod (=) any_scratch))
    (select_components_loop n l base cur cs mb sb sc) (select_components_loop n l base cur cs mb sb sc')"
proof (induction cs arbitrary: mb sb sc sc')
  case (Cons c cs)
  show ?case
    unfolding select_components_loop.simps
  proof (rule agree_same, rule agree_pair, goal_cases)
    case (1 pair)
    show ?case by (rule Cons.IH)
  next
    case (2 pair b x)
    then have "check_field_counts c b x l = Inr ()" by (simp add: matched_component_Some)
    then show ?case by (rule agree_mask) (simp add: Let_def Cons.IH)
  qed
qed simp

lemma select_entities_agree:
  "runs_agree (rel_prod (=) (rel_prod (=) any_scratch))
    (select_entities_loop s l bs cs mb sb sc) (select_entities_loop s l bs cs mb sb sc')"
proof (induction bs cs arbitrary: mb sb sc sc' rule: list_induct_merge)
  case (1 b bs c cs)
  have "runs_agree (rel_prod (=) (rel_prod (=) any_scratch))
      (and_then (select_components_loop (length (components s)) l b c (components s) mb sb sc)
        (\<lambda>(mb, sb, sc). select_entities_loop s l bs cs mb sb sc))
      (and_then (select_components_loop (length (components s)) l b c (components s) mb sb sc')
        (\<lambda>(mb, sb, sc). select_entities_loop s l bs cs mb sb sc))"
    by (rule agree_then [OF select_components_agree]) (use "1.IH"(3) in auto)
  with "1.IH"(1,2) show ?case by simp
qed simp_all

lemma select_agree:
  "runs_agree (rel_prod (=) any_scratch)
    (select_update_encoding s baseline current l sc) (select_update_encoding s baseline current l sc')"
  unfolding select_update_encoding_def by (rule agree_then [OF select_entities_agree]) auto

lemma count_components_agree:
  "runs_agree (rel_prod (=) any_scratch)
    (count_components_loop n l base cur cs k sc) (count_components_loop n l base cur cs k sc')"
proof (induction cs arbitrary: k sc sc')
  case (Cons c cs)
  show ?case
    unfolding count_components_loop.simps
  proof (rule agree_same, rule agree_pair, goal_cases)
    case (1 pair)
    show ?case by (rule Cons.IH)
  next
    case (2 pair b x)
    then have "check_field_counts c b x l = Inr ()" by (simp add: matched_component_Some)
    then show ?case by (rule agree_mask) (simp add: Cons.IH)
  qed
qed simp

text \<open>One pair of entities, visited when it has updates, in front of the rest of the lists.\<close>

lemma agree_visit:
  assumes "runs_agree (rel_prod (=) any_scratch) (body sc) (body sc')"
    and "\<And>x t t'. runs_agree B (rest (x, t)) (rest (x, t'))"
  shows "runs_agree B
    (and_then updated (\<lambda>u. and_then (if u then body sc else Inr (y, sc)) rest))
    (and_then updated (\<lambda>u. and_then (if u then body sc' else Inr (y, sc')) rest))"
proof (rule agree_same)
  fix u
  have "runs_agree (rel_prod (=) any_scratch) (if u then body sc else Inr (y, sc))
      (if u then body sc' else Inr (y, sc'))"
    using assms(1) by simp
  then show "runs_agree B (and_then (if u then body sc else Inr (y, sc)) rest)
      (and_then (if u then body sc' else Inr (y, sc')) rest)"
    by (rule agree_then) (use assms(2) in auto)
qed

lemma count_entities_agree:
  "runs_agree (rel_prod (=) any_scratch)
    (count_entities_loop s l bs cs k sc) (count_entities_loop s l bs cs k sc')"
proof (induction bs cs arbitrary: k sc sc' rule: list_induct_merge)
  case (1 b bs c cs)
  have "runs_agree (rel_prod (=) any_scratch)
      (and_then (entity_has_updates s b c l) (\<lambda>updated. and_then
        (if updated then count_components_loop (length (components s)) l b c (components s) k sc
         else Inr (k, sc)) (\<lambda>(k, sc). count_entities_loop s l bs cs k sc)))
      (and_then (entity_has_updates s b c l) (\<lambda>updated. and_then
        (if updated then count_components_loop (length (components s)) l b c (components s) k sc'
         else Inr (k, sc')) (\<lambda>(k, sc). count_entities_loop s l bs cs k sc)))"
    by (rule agree_visit) (simp_all add: count_components_agree "1.IH"(3))
  with "1.IH"(1,2) show ?case by simp
qed simp_all

section \<open>The update bodies\<close>

lemma sparse_components_agree:
  "runs_agree (rel_prod (=) any_scratch)
    (sparse_components_loop wh wi n l base cur cs sc w) (sparse_components_loop wh wi n l base cur cs sc' w)"
proof (induction cs arbitrary: sc sc' w)
  case (Cons c cs)
  show ?case
    unfolding sparse_components_loop.simps
  proof (rule agree_same, rule agree_pair, goal_cases)
    case (1 pair)
    show ?case by (rule Cons.IH)
  next
    case (2 pair b x)
    then have "check_field_counts c b x l = Inr ()" by (simp add: matched_component_Some)
    then show ?case
    proof (rule agree_mask, goal_cases)
      case (1 m t t')
      show ?case unfolding prod.case Let_def by (rule agree_same) (rule Cons.IH)
    qed
  qed
qed simp

lemma sparse_entities_agree:
  "runs_agree (rel_prod (=) any_scratch)
    (sparse_entities_loop wh wi s l bs cs sc w) (sparse_entities_loop wh wi s l bs cs sc' w)"
proof (induction bs cs arbitrary: sc sc' w rule: list_induct_merge)
  case (1 b bs c cs)
  have "runs_agree (rel_prod (=) any_scratch)
      (and_then (entity_has_updates s b c l) (\<lambda>updated. and_then
        (if updated then sparse_components_loop wh wi (length (components s)) l b c (components s) sc w
         else Inr (w, sc)) (\<lambda>(w, sc). sparse_entities_loop wh wi s l bs cs sc w)))
      (and_then (entity_has_updates s b c l) (\<lambda>updated. and_then
        (if updated then sparse_components_loop wh wi (length (components s)) l b c (components s) sc' w
         else Inr (w, sc')) (\<lambda>(w, sc). sparse_entities_loop wh wi s l bs cs sc w)))"
    by (rule agree_visit [where body = "\<lambda>sc. sparse_components_loop wh wi (length (components s)) l b c (components s) sc w"])
      (simp_all add: sparse_components_agree "1.IH"(3))
  with "1.IH"(1,2) show ?case by simp
qed simp_all

lemma agree_beside: "runs_agree (rel_prod (=) any_scratch) (and_then m (\<lambda>w. Inr (w, t))) (and_then m (\<lambda>w. Inr (w, t')))"
  by (rule agree_same) simp

lemma sparse_body_agree:
  "runs_agree (rel_prod (=) any_scratch)
    (encode_update_body_sparse wh wi s baseline current n l sc w)
    (encode_update_body_sparse wh wi s baseline current n l sc' w)"
proof (cases "n > max_entities_update l")
  case False
  have rest: "runs_agree (rel_prod (=) any_scratch)
      (and_then (sparse_entities_loop wh wi s l bs cs t w) (\<lambda>(w, sc).
        and_then (lift_bit (writer_align_to_byte w)) (\<lambda>w. Inr (w, sc))))
      (and_then (sparse_entities_loop wh wi s l bs cs t' w) (\<lambda>(w, sc).
        and_then (lift_bit (writer_align_to_byte w)) (\<lambda>w. Inr (w, sc))))" for bs cs t t' w
    by (rule agree_then [OF sparse_entities_agree]) (use agree_beside in auto)
  show ?thesis
    unfolding encode_update_body_sparse_def count_sparse_update_entries_def Let_def if_not_P [OF False]
    by (rule agree_then [OF count_entities_agree]) (auto intro!: agree_same rest)
qed (simp add: encode_update_body_sparse_def)

text \<open>The masked body reads the flags of its first loop again in its second one.\<close>

lemma masks_mut_agree:
  assumes "flags_agree n sc sc'"
  obtains sc1 sc1' changed slots slots' where
    "component_and_field_masks_mut n m sc = (sc1, changed, slots)"
    and "component_and_field_masks_mut n m sc' = (sc1', changed, slots')"
    and "flags_agree n sc1 sc1'" and "length slots = m" and "length slots' = m"
proof -
  obtain sc1 changed slots where a: "component_and_field_masks_mut n m sc = (sc1, changed, slots)"
    by (cases "component_and_field_masks_mut n m sc") auto
  obtain sc1' changed' slots' where b: "component_and_field_masks_mut n m sc' = (sc1', changed', slots')"
    by (cases "component_and_field_masks_mut n m sc'") auto
  have len: "n \<le> length (sc_component_changed sc)" "n \<le> length (sc_component_changed sc')"
    using assms by (simp_all add: flags_agree_def)
  note wa = masks_mut_within [OF a len(1)] and wb = masks_mut_within [OF b len(2)]
  have "changed' = changed" using wa(2) wb(2) assms by (simp add: flags_agree_def)
  with a b wa wb assms show thesis
    by (intro that [of sc1 changed slots sc1' slots']) (simp_all add: flags_agree_def)
qed

lemma scratch_mask_flags:
  assumes "check_field_counts component b c l = Inr u" and r: "flags_agree n sc sc'"
    and rest: "\<And>m t t'. flags_agree n t t' \<Longrightarrow> runs_agree B (f (m, t)) (g (m, t'))"
  shows "runs_agree B (and_then (scratch_field_mask n component b c sc) f)
    (and_then (scratch_field_mask n component b c sc') g)"
proof -
  have len: "n \<le> length (sc_component_changed sc)" "n \<le> length (sc_component_changed sc')"
    using r by (simp_all add: flags_agree_def)
  have same: "map_ok fst (scratch_field_mask n component b c sc) = map_ok fst (scratch_field_mask n component b c sc')"
    by (simp add: scratch_field_mask_changed [OF assms(1)])
  show ?thesis
  proof (cases "scratch_field_mask n component b c sc")
    case (Inl e)
    with same show ?thesis by (cases "scratch_field_mask n component b c sc'") auto
  next
    case (Inr p)
    obtain m t where p: "p = (m, t)" by (cases p)
    from same Inr p obtain t' where t': "scratch_field_mask n component b c sc' = Inr (m, t')"
      by (cases "scratch_field_mask n component b c sc'") auto
    have "flags_agree n t t'"
      using scratch_mask_keeps [OF len(1)] scratch_mask_keeps [OF len(2) t'] Inr p r
      by (simp add: flags_agree_def)
    from rest [OF this] Inr p t' show ?thesis by simp
  qed
qed

lemma changed_bits_agree:
  "flags_agree n sc sc' \<Longrightarrow>
    runs_agree (rel_prod (=) (flags_agree n))
      (changed_bits_loop n l base cur idx cs sc w) (changed_bits_loop n l base cur idx cs sc' w)"
proof (induction cs arbitrary: idx sc sc' w)
  case (Cons c cs)
  have upd: "flags_agree n (if a then t\<lparr>sc_component_changed := (sc_component_changed t)[i := True]\<rparr> else t)
      (if a then t'\<lparr>sc_component_changed := (sc_component_changed t')[i := True]\<rparr> else t')"
    if "flags_agree n t t'" for a t t' i
    using that by (simp add: flags_agree_def take_update_swap)
  show ?case
    unfolding changed_bits_loop.simps
  proof (rule agree_same, rule agree_pair, goal_cases)
    case (1 pair)
    show ?case by (rule agree_same) (rule Cons.IH [OF Cons.prems])
  next
    case (2 pair b x)
    then have "check_field_counts c b x l = Inr ()" by (simp add: matched_component_Some)
    from this Cons.prems show ?case
    proof (rule scratch_mask_flags, goal_cases)
      case (1 m t t')
      then show ?case unfolding prod.case Let_def by (intro agree_same Cons.IH upd)
    qed
  qed
qed simp

lemma changed_bits_matched:
  "changed_bits_loop n l base cur idx cs sc w = Inr r \<Longrightarrow> c \<in> set cs \<Longrightarrow>
    find_component base (cd_id c) = Some b \<Longrightarrow> find_component cur (cd_id c) = Some x \<Longrightarrow>
    check_field_counts c b x l = Inr ()"
proof (induction cs arbitrary: idx sc w)
  case (Cons d cs)
  from Cons.prems(1) obtain pair where pair: "matched_component d base cur l = Inr pair"
    by (auto elim: and_then_E)
  show ?case
  proof (cases "c = d")
    case True
    with pair Cons.prems(3,4) show ?thesis by (auto simp: matched_component_def res_simps)
  next
    case False
    then have c: "c \<in> set cs" using Cons.prems(2) by simp
    from Cons.prems(1) pair obtain idx sc w where "changed_bits_loop n l base cur idx cs sc w = Inr r"
      by (auto simp: Let_def res_simps split: option.splits elim!: and_then_E)
    from Cons.IH [OF this c Cons.prems(3,4)] show ?thesis .
  qed
qed simp

lemma changed_fields_agree:
  "flags_agree n sc sc' \<Longrightarrow>
    (\<And>c b x. c \<in> set cs \<Longrightarrow> find_component base (cd_id c) = Some b \<Longrightarrow>
      find_component cur (cd_id c) = Some x \<Longrightarrow> check_field_counts c b x l = Inr ()) \<Longrightarrow>
    runs_agree (rel_prod (=) any_scratch)
      (changed_fields_loop n l base cur idx cs sc w) (changed_fields_loop n l base cur idx cs sc' w)"
proof (induction cs arbitrary: idx sc sc' w)
  case (Cons c cs)
  have IH: "runs_agree (rel_prod (=) any_scratch)
      (changed_fields_loop n l base cur (Suc idx) cs t w) (changed_fields_loop n l base cur (Suc idx) cs t' w)"
    if "flags_agree n t t'" for t t' w
    using that by (rule Cons.IH) (use Cons.prems(2) in auto)
  from Cons.prems(1) obtain sc1 sc1' changed slots slots' where
    mm: "component_and_field_masks_mut n (length (cd_fields c)) sc = (sc1, changed, slots)"
      "component_and_field_masks_mut n (length (cd_fields c)) sc' = (sc1', changed, slots')"
    and r: "flags_agree n sc1 sc1'" and len: "length slots = length (cd_fields c)" "length slots' = length (cd_fields c)"
    by (rule masks_mut_agree)
  show ?case
  proof (cases "find_component base (cd_id c)")
    case None
    then show ?thesis using IH [OF Cons.prems(1)] by simp
  next
    case (Some b)
    show ?thesis
    proof (cases "find_component cur (cd_id c)")
      case None
      then show ?thesis using Some IH [OF Cons.prems(1)] by simp
    next
      case x: (Some x)
      have counts: "check_field_counts c b x l = Inr ()" using Cons.prems(2) Some x by simp
      have stored: "flags_agree n (store_field_mask m sc1) (store_field_mask m sc1')" for m
        using r by (simp add: flags_agree_def store_field_mask_def)
      have "runs_agree (rel_prod (=) any_scratch)
          (and_then (compute_field_mask_into c b x slots) (\<lambda>mbits.
            and_then (write_changed_fields c b x mbits w) (\<lambda>w.
            changed_fields_loop n l base cur (Suc idx) cs (store_field_mask mbits sc1) w)))
          (and_then (compute_field_mask_into c b x slots') (\<lambda>mbits.
            and_then (write_changed_fields c b x mbits w) (\<lambda>w.
            changed_fields_loop n l base cur (Suc idx) cs (store_field_mask mbits sc1') w)))"
        unfolding compute_is_changed_mask [OF counts len(1)] compute_is_changed_mask [OF counts len(2)]
        by (intro agree_same IH stored)
      then show ?thesis
        using Some x counts mm IH [OF r] by (simp add: check_field_counts_Inr)
    qed
  qed
qed simp

lemma write_update_components_agree:
  "runs_agree (rel_prod (=) any_scratch)
    (write_update_components s base cur l sc w) (write_update_components s base cur l sc' w)"
proof -
  let ?n = "length (components s)"
  have start: "\<exists>sc1 slots. component_and_field_masks_mut ?n 0 sc = (sc1, slots) \<and>
      ?n \<le> length (sc_component_changed sc1) \<and> length (fst slots) = ?n" for sc
    by (auto simp: component_and_field_masks_mut_def Let_def ensure_component_capacity_def ensure_field_capacity_def)
  obtain sc1 slots where a: "component_and_field_masks_mut ?n 0 sc = (sc1, slots)"
    "?n \<le> length (sc_component_changed sc1)" "length (fst slots) = ?n" using start by blast
  obtain sc1' slots' where b: "component_and_field_masks_mut ?n 0 sc' = (sc1', slots')"
    "?n \<le> length (sc_component_changed sc1')" "length (fst slots') = ?n" using start by blast
  have "flags_agree ?n (fill_component_changed ?n sc1) (fill_component_changed ?n sc1')"
    using a(2) b(2) by (simp add: flags_agree_def fill_component_changed_def splice_def)
  from changed_bits_agree [OF this]
  have bits: "runs_agree (rel_prod (=) (flags_agree ?n))
      (changed_bits_loop ?n l base cur 0 (components s) (fill_component_changed ?n sc1) w)
      (changed_bits_loop ?n l base cur 0 (components s) (fill_component_changed ?n sc1') w)" .
  have "runs_agree (rel_prod (=) any_scratch)
      (and_then (changed_bits_loop ?n l base cur 0 (components s) (fill_component_changed ?n sc1) w)
        (\<lambda>(w, sc). changed_fields_loop ?n l base cur 0 (components s) sc w))
      (and_then (changed_bits_loop ?n l base cur 0 (components s) (fill_component_changed ?n sc1') w)
        (\<lambda>(w, sc). changed_fields_loop ?n l base cur 0 (components s) sc w))"
  proof (cases "changed_bits_loop ?n l base cur 0 (components s) (fill_component_changed ?n sc1) w")
    case (Inl e)
    with bits show ?thesis
      by (cases "changed_bits_loop ?n l base cur 0 (components s) (fill_component_changed ?n sc1') w") auto
  next
    case (Inr p)
    obtain v t where p: "p = (v, t)" by (cases p)
    from bits Inr p obtain t' where
      t': "changed_bits_loop ?n l base cur 0 (components s) (fill_component_changed ?n sc1') w = Inr (v, t')"
      and r: "flags_agree ?n t t'"
      by (cases "changed_bits_loop ?n l base cur 0 (components s) (fill_component_changed ?n sc1') w") auto
    from changed_fields_agree [OF r changed_bits_matched [OF Inr]] p t' Inr show ?thesis by simp
  qed
  with a b show ?thesis
    by (cases slots; cases slots') (simp add: write_update_components_def Let_def)
qed

lemma masked_loop_agree:
  "runs_agree (rel_prod (=) any_scratch) (masked_loop s l bs cs sc w) (masked_loop s l bs cs sc' w)"
proof (induction bs cs arbitrary: sc sc' w rule: list_induct_merge)
  case (1 b bs c cs)
  let ?body = "\<lambda>sc. and_then (lift_bit (writer_align_to_byte w)) (\<lambda>w.
    and_then (lift_bit (write_u32_aligned (entity_raw (es_id c)) w)) (\<lambda>w.
    and_then (ensure_component_presence_matches s b c) (\<lambda>_. write_update_components s b c l sc w)))"
  have "runs_agree (rel_prod (=) any_scratch) (?body sc) (?body sc')"
    by (intro agree_same write_update_components_agree)
  then have "runs_agree (rel_prod (=) any_scratch)
      (and_then (entity_has_updates s b c l) (\<lambda>updated. and_then (if updated then ?body sc else Inr (w, sc))
        (\<lambda>(w, sc). masked_loop s l bs cs sc w)))
      (and_then (entity_has_updates s b c l) (\<lambda>updated. and_then (if updated then ?body sc' else Inr (w, sc'))
        (\<lambda>(w, sc). masked_loop s l bs cs sc w)))"
    by (rule agree_visit) (simp add: "1.IH"(3))
  with "1.IH"(1,2) show ?case by simp
next
  case (2 cs)
  show ?case by (induction cs) simp_all
next
  case (3 bs)
  show ?case by (induction bs) simp_all
qed

lemma masked_body_agree:
  "runs_agree (rel_prod (=) any_scratch)
    (encode_update_body_masked s baseline current n l sc w) (encode_update_body_masked s baseline current n l sc' w)"
proof (cases "n > max_entities_update l")
  case False
  have rest: "runs_agree (rel_prod (=) any_scratch)
      (and_then (masked_loop s l bs cs t w) (\<lambda>(w, sc).
        and_then (lift_bit (writer_align_to_byte w)) (\<lambda>w. Inr (w, sc))))
      (and_then (masked_loop s l bs cs t' w) (\<lambda>(w, sc).
        and_then (lift_bit (writer_align_to_byte w)) (\<lambda>w. Inr (w, sc))))" for bs cs t t' w
    by (rule agree_then [OF masked_loop_agree]) (use agree_beside in auto)
  show ?thesis
    unfolding encode_update_body_masked_def if_not_P [OF False] by (intro agree_same rest)
qed (simp add: encode_update_body_masked_def)

section \<open>The payload\<close>

lemma append_updates_scratch:
  "append_updates s baseline current n l sc mode st = append_updates s baseline current n l sc' mode st"
proof -
  have masked: "(\<lambda>w. map_ok fst (encode_update_body_masked s baseline current n l t w)) =
      (\<lambda>w. map_ok fst (encode_update_body_masked s baseline current n l t' w))" for t t'
    by (rule ext) (rule agree_fst [OF masked_body_agree])
  have sparse: "(\<lambda>w. map_ok fst (encode_update_body_sparse_packed s baseline current n l t w)) =
      (\<lambda>w. map_ok fst (encode_update_body_sparse_packed s baseline current n l t' w))" for t t'
    unfolding encode_update_body_sparse_packed_def by (rule ext) (rule agree_fst [OF sparse_body_agree])
  show ?thesis
  proof (cases mode)
    case SparseMode
    then show ?thesis using sparse [of sc sc'] by (simp add: append_updates_def)
  next
    case AutoMode
    note sel = select_agree [of s baseline current l sc sc']
    show ?thesis
    proof (cases "select_update_encoding s baseline current l sc")
      case (Inl e)
      with sel AutoMode show ?thesis
        by (cases "select_update_encoding s baseline current l sc'") (auto simp: append_updates_def)
    next
      case (Inr p)
      obtain enc t where p: "p = (enc, t)" by (cases p)
      from sel Inr p obtain t' where t': "select_update_encoding s baseline current l sc' = Inr (enc, t')"
        by (cases "select_update_encoding s baseline current l sc'") auto
      show ?thesis
        using AutoMode Inr p t' masked [of t t'] sparse [of t t']
        by (cases enc) (simp_all add: append_updates_def)
    qed
  qed
qed

lemma payload_scratch:
  "encode_delta_payload_with_mode s bt baseline current l sc out mode =
    encode_delta_payload_with_mode s bt baseline current l sc' out mode"
  unfolding encode_delta_payload_with_mode_def append_updates_scratch [of s baseline current _ l sc mode _ sc'] ..

end
