(* ===== verification/Packet_Tools.thy ===== *)
theory Packet_Tools
  imports Delta_Decode Delta_Diff Full_Snapshot "HOL-Library.Finite_Map" "HOL-Library.Multiset"
begin

text \<open>
  The introspection library (\<^verbatim>\<open>tools/src/lib.rs\<close>): the report of a packet's sections, the summary of
  its updates, and the output structures that the command line tools serialise.  An \<^verbatim>\<open>anyhow\<close> error
  is the list of its contexts, outermost first, with its root cause.
\<close>

section \<open>Errors\<close>

datatype root_cause =
    WireCause decode_error
  | BitCause bit_error
  | CodecCause codec_error
  | MessageCause string

type_synonym tool_error = "string list \<times> root_cause"

definition context_err :: "string \<Rightarrow> ('e \<Rightarrow> root_cause) \<Rightarrow> 'e + 'a \<Rightarrow> tool_error + 'a" where
  "context_err text cause m = map_err (\<lambda>e. ([text], cause e)) m"

definition with_context :: "string \<Rightarrow> tool_error + 'a \<Rightarrow> tool_error + 'a" where
  "with_context text m = map_err (\<lambda>(texts, cause). (text # texts, cause)) m"

lemma context_err_Inr [res_simps]: "context_err text cause m = Inr x \<longleftrightarrow> m = Inr x"
  by (cases m) (simp_all add: context_err_def)

lemma with_context_Inr [res_simps]: "with_context text m = Inr x \<longleftrightarrow> m = Inr x"
  by (cases m) (simp_all add: with_context_def)

section \<open>Reports\<close>

record section_report =
  sr_tag :: section_tag
  sr_byte_len :: usize
  sr_entity_count :: "usize option"

record component_field_count =
  fc_component_id :: u16
  fc_changed_fields :: usize

record update_summary =
  us_changed_components :: usize
  us_changed_fields :: usize
  us_by_component :: "component_field_count list"

record inspect_report =
  ir_header :: packet_header
  ir_sections :: "section_report list"
  ir_update_summary :: "update_summary option"

definition read_section_count_tools :: "u8 list \<Rightarrow> tool_error + usize" where
  "read_section_count_tools body =
    and_then (context_err ''align to byte'' BitCause (reader_align_to_byte (reader_new body))) (\<lambda>r.
    and_then (context_err ''read varu32'' BitCause (read_varu32 r)) (\<lambda>(count, _). Inr (unat count)))"

text \<open>The two nested loops of \<^verbatim>\<open>summarize_updates\<close> over the map of counts.\<close>

definition add_component_fields :: "delta_update_component \<Rightarrow> (u16, usize) fmap \<Rightarrow> (u16, usize) fmap" where
  "add_component_fields component by_component =
    (let i = component_id_get (uc_id component);
         n = (case fmlookup by_component i of Some n \<Rightarrow> n | None \<Rightarrow> 0)
     in fmupd i (n + length (uc_fields component)) by_component)"

fun summarize_loop :: "delta_update_entity list \<Rightarrow> usize \<Rightarrow> usize \<Rightarrow> (u16, usize) fmap \<Rightarrow>
    usize \<times> usize \<times> (u16, usize) fmap" where
  "summarize_loop [] changed_components changed_fields by_component =
    (changed_components, changed_fields, by_component)"
| "summarize_loop (entity # rest) changed_components changed_fields by_component =
    summarize_loop rest (changed_components + length (ue_components entity))
      (fold (\<lambda>component n. n + length (uc_fields component)) (ue_components entity) changed_fields)
      (fold add_component_fields (ue_components entity) by_component)"

text \<open>\<^verbatim>\<open>sort_by\<close>: most changed fields first, then by id.\<close>

fun insert_field_count :: "component_field_count \<Rightarrow> component_field_count list \<Rightarrow> component_field_count list" where
  "insert_field_count a [] = [a]"
| "insert_field_count a (b # rest) =
    (if fc_changed_fields b < fc_changed_fields a \<or>
        fc_changed_fields a = fc_changed_fields b \<and> fc_component_id a \<le> fc_component_id b
     then a # b # rest else b # insert_field_count a rest)"

definition sort_field_counts :: "component_field_count list \<Rightarrow> component_field_count list" where
  "sort_field_counts counts = foldr insert_field_count counts []"

definition summarize_updates :: "delta_update_entity list \<Rightarrow> update_summary" where
  "summarize_updates updates =
    (let (changed_components, changed_fields, by_component) = summarize_loop updates 0 0 fmempty
     in \<lparr>us_changed_components = changed_components, us_changed_fields = changed_fields,
         us_by_component = sort_field_counts (map (\<lambda>(i, n).
           \<lparr>fc_component_id = i, fc_changed_fields = n\<rparr>) (sorted_list_of_fmap by_component))\<rparr>)"

fun report_sections :: "wire_section list \<Rightarrow> tool_error + section_report list" where
  "report_sections [] = Inr []"
| "report_sections (sec # rest) =
    and_then (case ws_tag sec of
        SessionInit \<Rightarrow> Inr None
      | _ \<Rightarrow> map_ok Some (with_context ''read section count'' (read_section_count_tools (ws_body sec)))) (\<lambda>count.
    and_then (report_sections rest) (\<lambda>reports.
      Inr (\<lparr>sr_tag = ws_tag sec, sr_byte_len = length (ws_body sec), sr_entity_count = count\<rparr> # reports)))"

definition inspect_packet ::
  "(u8 list \<Rightarrow> u8 list) \<Rightarrow> u8 list \<Rightarrow> schema option \<Rightarrow> limits \<Rightarrow> codec_limits \<Rightarrow>
    tool_error + inspect_report" where
  "inspect_packet blake3 bytes s wire_limits codec_limits =
    and_then (context_err ''decode packet'' WireCause (decode_packet bytes wire_limits)) (\<lambda>packet.
    and_then (report_sections (wp_sections packet)) (\<lambda>sections.
    and_then (case (s, is_delta_snapshot (ph_flags (wp_header packet))) of
        (Some s, True) \<Rightarrow>
          and_then (context_err ''decode delta packet'' CodecCause (decode_delta_packet blake3 s packet codec_limits))
            (\<lambda>decoded. Inr (Some (summarize_updates (dd_updates decoded))))
      | _ \<Rightarrow> Inr None) (\<lambda>summary.
      Inr \<lparr>ir_header = wp_header packet, ir_sections = sections, ir_update_summary = summary\<rparr>)))"

section \<open>Output structures\<close>

text \<open>The values of \<^verbatim>\<open>serde_json\<close> that occur.\<close>

datatype json_value = JsonBool bool | JsonNumber int

record field_value_output =
  fo_kind :: string
  fo_value :: json_value

record full_component_output =
  fco_id :: u16
  fco_fields :: "field_value_output list"

record full_entity_output =
  feo_id :: u32
  feo_components :: "full_component_output list"

record full_snapshot_output_rec =
  fso_entities :: "full_entity_output list"

record delta_update_field_output =
  dfo_index :: usize
  dfo_value :: field_value_output

record delta_update_component_output =
  duc_id :: u16
  duc_fields :: "delta_update_field_output list"

record delta_update_entity_output =
  due_id :: u32
  due_components :: "delta_update_component_output list"

record delta_snapshot_output_rec =
  dso_destroys :: "u32 list"
  dso_creates :: "full_entity_output list"
  dso_updates :: "delta_update_entity_output list"

record header_output =
  ho_version :: u16
  ho_flags_raw :: u16
  ho_is_full_snapshot :: bool
  ho_is_delta_snapshot :: bool
  ho_schema_hash :: u64
  ho_tick :: u32
  ho_baseline_tick :: u32
  ho_payload_len :: u32

record decode_output =
  do_kind :: string
  do_header :: header_output
  do_full_snapshot :: "full_snapshot_output_rec option"
  do_delta_snapshot :: "delta_snapshot_output_rec option"

text \<open>Decimal digits, as \<^verbatim>\<open>format!\<close> writes a number.\<close>

definition digit_char :: "nat \<Rightarrow> char" where
  "digit_char d = char_of (48 + d)"

fun show_nat :: "nat \<Rightarrow> string" where
  "show_nat n = (if n < 10 then [digit_char n] else show_nat (n div 10) @ [digit_char (n mod 10)])"

fun value_kind :: "field_value \<Rightarrow> string" where
  "value_kind (BoolV _) = ''bool''"
| "value_kind (UIntV _) = ''uint''"
| "value_kind (SIntV _) = ''sint''"
| "value_kind (VarUIntV _) = ''varuint''"
| "value_kind (VarSIntV _) = ''varsint''"
| "value_kind (FixedPointV _) = ''fixed-point-q''"

fun value_json :: "field_value \<Rightarrow> json_value" where
  "value_json (BoolV v) = JsonBool v"
| "value_json (UIntV v) = JsonNumber (uint v)"
| "value_json (SIntV v) = JsonNumber (sint v)"
| "value_json (VarUIntV v) = JsonNumber (uint v)"
| "value_json (VarSIntV v) = JsonNumber (sint v)"
| "value_json (FixedPointV v) = JsonNumber (sint v)"

definition field_value_output_of :: "usize \<Rightarrow> field_value \<Rightarrow> field_value_output" where
  "field_value_output_of index v =
    \<lparr>fo_kind = value_kind v @ ''['' @ show_nat index @ '']'', fo_value = value_json v\<rparr>"

definition full_component_output_of :: "component_snapshot \<Rightarrow> full_component_output" where
  "full_component_output_of component =
    \<lparr>fco_id = component_id_get (cs_id component),
     fco_fields = map (\<lambda>(index, v). field_value_output_of index v) (enumerate 0 (cs_fields component))\<rparr>"

definition full_entity_output_of :: "entity_snapshot \<Rightarrow> full_entity_output" where
  "full_entity_output_of entity =
    \<lparr>feo_id = entity_raw (es_id entity), feo_components = map full_component_output_of (es_components entity)\<rparr>"

definition full_snapshot_output :: "snapshot \<Rightarrow> full_snapshot_output_rec" where
  "full_snapshot_output sn = \<lparr>fso_entities = map full_entity_output_of (sn_entities sn)\<rparr>"

definition update_component_output_of :: "delta_update_component \<Rightarrow> delta_update_component_output" where
  "update_component_output_of component =
    \<lparr>duc_id = component_id_get (uc_id component),
     duc_fields = map (\<lambda>(index, v). \<lparr>dfo_index = index, dfo_value = field_value_output_of index v\<rparr>)
       (uc_fields component)\<rparr>"

definition update_entity_output_of :: "delta_update_entity \<Rightarrow> delta_update_entity_output" where
  "update_entity_output_of entity =
    \<lparr>due_id = entity_raw (ue_id entity), due_components = map update_component_output_of (ue_components entity)\<rparr>"

definition delta_snapshot_output :: "delta_decoded \<Rightarrow> delta_snapshot_output_rec" where
  "delta_snapshot_output delta =
    \<lparr>dso_destroys = map entity_raw (dd_destroys delta),
     dso_creates = map full_entity_output_of (dd_creates delta),
     dso_updates = map update_entity_output_of (dd_updates delta)\<rparr>"

definition header_output_of :: "packet_header \<Rightarrow> header_output" where
  "header_output_of header =
    \<lparr>ho_version = ph_version header, ho_flags_raw = flags_raw (ph_flags header),
     ho_is_full_snapshot = is_full_snapshot (ph_flags header),
     ho_is_delta_snapshot = is_delta_snapshot (ph_flags header),
     ho_schema_hash = ph_schema_hash header, ho_tick = ph_tick header,
     ho_baseline_tick = ph_baseline_tick header, ho_payload_len = ph_payload_len header\<rparr>"

definition build_decode_output ::
  "(u8 list \<Rightarrow> u8 list) \<Rightarrow> schema \<Rightarrow> wire_packet \<Rightarrow> codec_limits \<Rightarrow> tool_error + decode_output" where
  "build_decode_output blake3 s packet codec_limits =
    (let header = wp_header packet;
         header_out = header_output_of header
     in if is_full_snapshot (ph_flags header) then
          and_then (context_err ''decode full snapshot'' CodecCause
              (decode_full_snapshot_from_packet blake3 s packet codec_limits)) (\<lambda>sn.
            Inr \<lparr>do_kind = ''full_snapshot'', do_header = header_out,
              do_full_snapshot = Some (full_snapshot_output sn), do_delta_snapshot = None\<rparr>)
        else if is_delta_snapshot (ph_flags header) then
          and_then (context_err ''decode delta'' CodecCause (decode_delta_packet blake3 s packet codec_limits)) (\<lambda>delta.
            Inr \<lparr>do_kind = ''delta_snapshot'', do_header = header_out,
              do_full_snapshot = None, do_delta_snapshot = Some (delta_snapshot_output delta)\<rparr>)
        else Inl ([], MessageCause ''packet flags do not indicate snapshot type''))"

definition decode_packet_json ::
  "(u8 list \<Rightarrow> u8 list) \<Rightarrow> u8 list \<Rightarrow> schema \<Rightarrow> limits \<Rightarrow> codec_limits \<Rightarrow> tool_error + decode_output" where
  "decode_packet_json blake3 bytes s wire_limits codec_limits =
    and_then (context_err ''decode packet'' WireCause (decode_packet bytes wire_limits)) (\<lambda>packet.
      build_decode_output blake3 s packet codec_limits)"

section \<open>The output loses no value\<close>

lemma component_id_get_inject [simp]: "component_id_get a = component_id_get b \<longleftrightarrow> a = b"
  by (cases a; cases b) simp

lemma bracket_prefix:
  "a @ ''['' @ x = b @ ''['' @ y \<Longrightarrow> CHR ''['' \<notin> set a \<Longrightarrow> CHR ''['' \<notin> set b \<Longrightarrow> a = b"
proof (induction a arbitrary: b)
  case Nil
  then show ?case by (cases b) auto
next
  case (Cons c a)
  then show ?case by (cases b) auto
qed

lemma value_kind_no_bracket: "CHR ''['' \<notin> set (value_kind v)"
  by (cases v) simp_all

lemma field_value_output_inject: "field_value_output_of i v = field_value_output_of j w \<Longrightarrow> v = w"
proof -
  assume eq: "field_value_output_of i v = field_value_output_of j w"
  then have "value_kind v @ ''['' @ show_nat i @ '']'' = value_kind w @ ''['' @ show_nat j @ '']''"
    by (simp add: field_value_output_of_def del: show_nat.simps)
  then have "value_kind v = value_kind w" by (rule bracket_prefix [OF _ value_kind_no_bracket value_kind_no_bracket])
  with eq show "v = w"
    by (cases v; cases w)
      (auto simp: field_value_output_of_def simp del: show_nat.simps dest: word_uint_eqI signed_word_eqI)
qed

lemma enumerate_output_inject:
  "map (\<lambda>(i, v). field_value_output_of i v) (enumerate n vs) =
    map (\<lambda>(i, v). field_value_output_of i v) (enumerate n ws) \<Longrightarrow> vs = ws"
proof (induction vs arbitrary: n ws)
  case (Cons v vs)
  then obtain w ws' where ws: "ws = w # ws'" by (cases ws) auto
  with Cons show ?case by (auto dest: field_value_output_inject)
next
  case Nil
  then show ?case by (cases ws) simp_all
qed

lemma inj_full_component: "inj full_component_output_of"
  by (rule injI) (auto simp: full_component_output_of_def intro!: component_snapshot.equality
      dest: enumerate_output_inject)

lemma inj_full_entity: "inj full_entity_output_of"
  by (rule injI) (auto simp: full_entity_output_of_def inj_map_eq_map [OF inj_full_component]
      intro!: entity_snapshot.equality)

lemma inj_update_field:
  "inj (\<lambda>(index, v). \<lparr>dfo_index = index, dfo_value = field_value_output_of index v\<rparr>)"
  by (rule injI) (auto dest: field_value_output_inject)

lemma inj_update_component: "inj update_component_output_of"
  by (rule injI) (auto simp: update_component_output_of_def inj_map_eq_map [OF inj_update_field]
      intro!: delta_update_component.equality)

lemma inj_update_entity: "inj update_entity_output_of"
  by (rule injI) (auto simp: update_entity_output_of_def inj_map_eq_map [OF inj_update_component]
      intro!: delta_update_entity.equality)

lemma inj_entity_raw: "inj entity_raw"
  by (rule injI) simp

lemma delta_output_inject:
  "delta_snapshot_output a = delta_snapshot_output b \<Longrightarrow> dd_tick a = dd_tick b \<Longrightarrow>
    dd_baseline_tick a = dd_baseline_tick b \<Longrightarrow> a = b"
  by (auto simp: delta_snapshot_output_def inj_map_eq_map [OF inj_full_entity] inj_map_eq_map [OF inj_update_entity]
      inj_map_eq_map [OF inj_entity_raw] intro!: delta_decoded.equality)

lemma full_output_inject:
  "full_snapshot_output a = full_snapshot_output b \<Longrightarrow> sn_tick a = sn_tick b \<Longrightarrow> a = b"
  by (auto simp: full_snapshot_output_def inj_map_eq_map [OF inj_full_entity] intro!: snapshot.equality)

section \<open>The summary adds up\<close>

definition field_total :: "(u16, usize) fmap \<Rightarrow> usize" where
  "field_total m = (\<Sum>i \<in> fmdom' m. the (fmlookup m i))"

lemma field_total_empty [simp]: "field_total fmempty = 0"
  by (simp add: field_total_def)

lemma field_total_add: "field_total (add_component_fields c m) = field_total m + length (uc_fields c)"
proof (cases "fmlookup m (component_id_get (uc_id c))")
  case None
  let ?i = "component_id_get (uc_id c)"
  have "?i \<notin> fmdom' m" using None by (simp add: fmdom'_notI)
  then have "(\<Sum>i \<in> fmdom' m. the (fmlookup (fmupd ?i (length (uc_fields c)) m) i)) = field_total m"
    unfolding field_total_def by (intro sum.cong) auto
  with None \<open>?i \<notin> fmdom' m\<close> show ?thesis
    by (simp add: add_component_fields_def field_total_def)
next
  case (Some n)
  let ?i = "component_id_get (uc_id c)"
  have i: "?i \<in> fmdom' m" using Some by (simp add: fmdom'I)
  have "(\<Sum>i \<in> fmdom' m - {?i}. the (fmlookup (fmupd ?i (n + length (uc_fields c)) m) i)) =
      (\<Sum>i \<in> fmdom' m - {?i}. the (fmlookup m i))"
    by (intro sum.cong) auto
  with Some i show ?thesis
    by (simp add: add_component_fields_def field_total_def insert_absorb sum.remove [of "fmdom' m" ?i])
qed

lemma summarize_loop_total:
  "summarize_loop us k n m = (k', n', m') \<Longrightarrow> n = field_total m \<Longrightarrow>
    k' = k + sum_list (map (\<lambda>u. length (ue_components u)) us) \<and> n' = field_total m' \<and>
    n' = n + sum_list (map (\<lambda>u. sum_list (map (\<lambda>c. length (uc_fields c)) (ue_components u))) us)"
proof (induction us k n m rule: summarize_loop.induct)
  case (2 u us k n m)
  have counted: "fold (\<lambda>c n. n + length (uc_fields c)) cs n = n + sum_list (map (\<lambda>c. length (uc_fields c)) cs)"
    for cs n by (induction cs arbitrary: n) simp_all
  have total: "field_total (fold add_component_fields cs m) =
      field_total m + sum_list (map (\<lambda>c. length (uc_fields c)) cs)" for cs m
    by (induction cs arbitrary: m) (simp_all add: field_total_add)
  from 2 show ?case by (simp add: counted total)
qed simp

lemma insert_field_count_mset: "mset (insert_field_count a counts) = add_mset a (mset counts)"
  by (induction a counts rule: insert_field_count.induct) auto

lemma sort_field_counts_mset: "mset (sort_field_counts counts) = mset counts"
  by (induction counts) (simp_all add: sort_field_counts_def insert_field_count_mset)

definition count_before :: "component_field_count \<Rightarrow> component_field_count \<Rightarrow> bool" where
  "count_before a b \<longleftrightarrow> fc_changed_fields b < fc_changed_fields a \<or>
    fc_changed_fields a = fc_changed_fields b \<and> fc_component_id a \<le> fc_component_id b"

lemma insert_field_count_sorted:
  "sorted_wrt count_before counts \<Longrightarrow> sorted_wrt count_before (insert_field_count a counts)"
proof (induction a counts rule: insert_field_count.induct)
  case (2 a b rest)
  have "set (insert_field_count a rest) = insert a (set rest)"
    using insert_field_count_mset [of a rest] by (metis set_mset_add_mset_insert set_mset_mset)
  with 2 show ?case by (auto simp: count_before_def)
qed simp

lemma sort_field_counts_sorted: "sorted_wrt count_before (sort_field_counts counts)"
  by (induction counts) (simp_all add: sort_field_counts_def insert_field_count_sorted)

theorem summary_adds_up:
  fixes us :: "delta_update_entity list"
  defines "summary \<equiv> summarize_updates us"
  shows "us_changed_components summary = sum_list (map (\<lambda>u. length (ue_components u)) us) \<and>
    us_changed_fields summary =
      sum_list (map (\<lambda>u. sum_list (map (\<lambda>c. length (uc_fields c)) (ue_components u))) us) \<and>
    us_changed_fields summary = sum_list (map fc_changed_fields (us_by_component summary)) \<and>
    sorted_wrt count_before (us_by_component summary) \<and>
    distinct (map fc_component_id (us_by_component summary))"
proof -
  obtain k n m where loop: "summarize_loop us 0 0 fmempty = (k, n, m)" using prod_cases3 by blast
  let ?counts = "map (\<lambda>(i, n). \<lparr>fc_component_id = i, fc_changed_fields = n\<rparr>) (sorted_list_of_fmap m)"
  have summary: "us_changed_components summary = k" "us_changed_fields summary = n"
      "us_by_component summary = sort_field_counts ?counts"
    by (simp_all add: summary_def summarize_updates_def loop)
  have "sum_list (map f (sort_field_counts cs)) = sum_list (map f cs)" for f :: "component_field_count \<Rightarrow> nat" and cs
    using sort_field_counts_mset [of cs] by (metis mset_map sum_mset_sum_list)
  moreover have "sum_list (map fc_changed_fields ?counts) = field_total m"
    by (simp add: sorted_list_of_fmap_def comp_def field_total_def fmdom'_alt_def sum_list_distinct_conv_sum_set
        sorted_list_of_fset.rep_eq)
  moreover have "distinct (map fc_component_id ?counts)"
    by (simp add: sorted_list_of_fmap_def comp_def sorted_list_of_fset.rep_eq)
  then have "distinct (map fc_component_id (sort_field_counts ?counts))"
    using sort_field_counts_mset [of ?counts] by (metis mset_eq_imp_distinct_iff mset_map)
  ultimately show ?thesis
    using summarize_loop_total [OF loop] sort_field_counts_sorted [of ?counts] by (simp add: summary)
qed

section \<open>The reported counts\<close>

lemma read_section_count_reported:
  "read_section_count body kind limit = Inr (n, r) \<Longrightarrow> read_section_count_tools body = Inr n"
  by (auto simp: read_section_count_def read_section_count_tools_def Let_def context_err_def res_simps
      split: if_splits)

lemma decode_destroy_loop_length: "decode_destroy_loop n prev r = Inr (ids, r') \<Longrightarrow> length ids = n"
  by (induction n arbitrary: prev r ids r') (auto elim!: and_then_E split: prod.splits)

lemma decode_create_loop_length: "delta_decode_create_loop s l n prev r = Inr (es, r') \<Longrightarrow> length es = n"
  by (induction n arbitrary: prev r es r') (auto simp: Let_def elim!: and_then_E split: prod.splits)

lemma decode_masked_loop_length: "decode_masked_loop s l n prev r = Inr (us, r') \<Longrightarrow> length us = n"
  by (induction n arbitrary: prev r us r') (auto elim!: and_then_E split: prod.splits)

definition entry_total :: "delta_update_entity list \<Rightarrow> usize" where
  "entry_total us = sum_list (map (\<lambda>u. length (ue_components u)) us)"

lemma entry_total_push: "entry_total (push_update i c us) = Suc (entry_total us)"
  by (cases us rule: rev_cases) (simp_all add: entry_total_def push_update_def)

lemma entry_total_Nil [simp]: "entry_total [] = 0"
  by (simp add: entry_total_def)

lemma decode_sparse_loop_total:
  "decode_sparse_loop rh ri s l n pe pc us r = Inr (us', r') \<Longrightarrow> n + entry_total us = entry_total us'"
proof (induction n arbitrary: pe pc us r)
  case (Suc n)
  then show ?case by (fastforce simp: Let_def entry_total_push elim!: and_then_E split: prod.splits)
qed simp

lemma reported_counts:
  "decode_destroy_section body l = Inr ids \<Longrightarrow> read_section_count_tools body = Inr (length ids)"
  "delta_decode_create_section s body l = Inr es \<Longrightarrow> read_section_count_tools body = Inr (length es)"
  "decode_update_section_masked s body l = Inr us \<Longrightarrow> read_section_count_tools body = Inr (length us)"
  by (auto simp: decode_destroy_section_def delta_decode_create_section_def decode_update_section_masked_def
      dest: decode_destroy_loop_length decode_create_loop_length decode_masked_loop_length
        read_section_count_reported elim!: and_then_E split: prod.splits)

lemma reported_entries:
  assumes "decode_update_section_sparse rh ri tag s body l = Inr us"
  shows "read_section_count_tools body = Inr (entry_total us)"
proof -
  from assms obtain n r r' kind limit where "read_section_count body kind limit = Inr (n, r)"
    and "decode_sparse_loop rh ri s l n None None [] r = Inr (us, r')"
    by (auto simp: decode_update_section_sparse_def Let_def elim!: and_then_E split: prod.splits if_splits)
  then show ?thesis using read_section_count_reported decode_sparse_loop_total by fastforce
qed

end
