(* ===== verification/Sim_State.thy ===== *)
theory Sim_State
  imports Replication
begin

text \<open>
  The schema and the entity states of the reference simulation (\<^verbatim>\<open>demo-schema/src/lib.rs\<close>): fixed-point
  positions and velocities, a yaw of 12 bits and three flags.  Signed quantities are 64-bit words.
  Simulated states within the bounds of the schema become snapshots that the codec reproduces exactly.
\<close>

section \<open>The schema\<close>

definition POS_SCALE :: u32 where "POS_SCALE = 100"

definition POS_MIN :: i64 where "POS_MIN = - 100000"

definition POS_MAX :: i64 where "POS_MAX = 100000"

definition VEL_SCALE :: u32 where "VEL_SCALE = 100"

definition VEL_MIN :: i64 where "VEL_MIN = - 10000"

definition VEL_MAX :: i64 where "VEL_MAX = 10000"

lemmas sim_bounds = POS_MIN_def POS_MAX_def VEL_MIN_def VEL_MAX_def

text \<open>\<^verbatim>\<open>component_id()\<close> and \<^verbatim>\<open>field_id(value)\<close>; the \<^verbatim>\<open>expect\<close> is on constants that are not zero.\<close>

definition sim_component_id :: component_id where
  "sim_component_id = ComponentId 1"

definition sim_field_id :: "u16 \<Rightarrow> field_id" where
  "sim_field_id v = FieldId v"

lemma sim_ids_exist: "component_id_new 1 = Some sim_component_id" "v \<noteq> 0 \<Longrightarrow> field_id_new v = Some (sim_field_id v)"
  by (simp_all add: component_id_new_def field_id_new_def sim_component_id_def sim_field_id_def)

definition sim_component :: component_def where
  "sim_component =
    component_def_field (field_def_change (Threshold 1) (field_def_new (sim_field_id 10) codec_bool))
    (component_def_field (field_def_new (sim_field_id 9) codec_bool)
    (component_def_field (field_def_new (sim_field_id 8) codec_bool)
    (component_def_field (field_def_new (sim_field_id 7) (codec_uint 12))
    (component_def_field (field_def_new (sim_field_id 6) (codec_fixed_point VEL_MIN VEL_MAX VEL_SCALE))
    (component_def_field (field_def_new (sim_field_id 5) (codec_fixed_point VEL_MIN VEL_MAX VEL_SCALE))
    (component_def_field (field_def_new (sim_field_id 4) (codec_fixed_point VEL_MIN VEL_MAX VEL_SCALE))
    (component_def_field (field_def_new (sim_field_id 3) (codec_fixed_point POS_MIN POS_MAX POS_SCALE))
    (component_def_field (field_def_new (sim_field_id 2) (codec_fixed_point POS_MIN POS_MAX POS_SCALE))
    (component_def_field (field_def_new (sim_field_id 1) (codec_fixed_point POS_MIN POS_MAX POS_SCALE))
      (component_def_new sim_component_id))))))))))"

text \<open>\<^verbatim>\<open>demo_schema()\<close>; \<^const>\<open>None\<close> is the panic of its \<^verbatim>\<open>expect\<close>.\<close>

definition sim_schema_result :: "schema option" where
  "sim_schema_result = (case schema_new [sim_component] of Inr s \<Rightarrow> Some s | Inl _ \<Rightarrow> None)"

definition sim_schema :: schema where
  "sim_schema = \<lparr>components = [sim_component]\<rparr>"

lemma sim_component_fields: "cd_id sim_component = sim_component_id"
  "cd_fields sim_component =
    map (\<lambda>i. field_def_new (sim_field_id i) (codec_fixed_point POS_MIN POS_MAX POS_SCALE)) [1, 2, 3] @
    map (\<lambda>i. field_def_new (sim_field_id i) (codec_fixed_point VEL_MIN VEL_MAX VEL_SCALE)) [4, 5, 6] @
    [field_def_new (sim_field_id 7) (codec_uint 12), field_def_new (sim_field_id 8) codec_bool,
     field_def_new (sim_field_id 9) codec_bool,
     field_def_change (Threshold 1) (field_def_new (sim_field_id 10) codec_bool)]"
  by (simp_all add: sim_component_def component_def_field_def component_def_new_def)

lemma sim_schema_valid: "sim_schema_result = Some sim_schema"
  by code_simp

lemma sim_schema_exact: "exact_schema sim_schema"
proof -
  have "schema_ok sim_schema" using sim_schema_valid schema_new_Inr [of "[sim_component]" sim_schema]
    by (auto simp: sim_schema_result_def split: sum.splits)
  moreover have "schema_ids_ok sim_schema"
    by (simp add: schema_ids_ok_def sim_schema_def sim_component_fields sim_component_id_def sim_field_id_def
        field_def_new_def field_def_change_def)
  ultimately show ?thesis by (simp add: exact_schema_def sim_schema_def)
qed

section \<open>States and snapshots\<close>

record demo_entity_state =
  st_id :: entity_id
  st_pos :: "i64 list" \<comment> \<open>\<^verbatim>\<open>[i64; 3]\<close>\<close>
  st_vel :: "i64 list" \<comment> \<open>\<^verbatim>\<open>[i64; 3]\<close>\<close>
  st_yaw :: u16
  st_flags :: "bool list" \<comment> \<open>\<^verbatim>\<open>[bool; 3]\<close>\<close>

definition state_values :: "demo_entity_state \<Rightarrow> field_value list" where
  "state_values st =
    [FixedPointV (st_pos st ! 0), FixedPointV (st_pos st ! 1), FixedPointV (st_pos st ! 2),
     FixedPointV (st_vel st ! 0), FixedPointV (st_vel st ! 1), FixedPointV (st_vel st ! 2),
     UIntV (ucast (st_yaw st)), BoolV (st_flags st ! 0), BoolV (st_flags st ! 1), BoolV (st_flags st ! 2)]"

definition to_snapshot :: "demo_entity_state \<Rightarrow> entity_snapshot" where
  "to_snapshot st = \<lparr>es_id = st_id st, es_components =
    [\<lparr>cs_id = sim_component_id, cs_fields = state_values st\<rparr>]\<rparr>"

text \<open>\<^verbatim>\<open>sort_by_key(|entity| entity.id.raw())\<close>.\<close>

definition sort_entities :: "entity_snapshot list \<Rightarrow> entity_snapshot list" where
  "sort_entities entities = sort_key (\<lambda>e. entity_raw (es_id e)) entities"

definition build_snapshot :: "snapshot_tick \<Rightarrow> demo_entity_state list \<Rightarrow> snapshot" where
  "build_snapshot tick states =
    \<lparr>sn_tick = tick, sn_entities = sort_entities (map to_snapshot states)\<rparr>"

definition in_bounds :: "i64 \<Rightarrow> i64 \<Rightarrow> i64 \<Rightarrow> bool" where
  "in_bounds lo hi v \<longleftrightarrow> sint lo \<le> sint v \<and> sint v \<le> sint hi"

text \<open>The states of the simulation: three axes within their bounds, a yaw of 12 bits.\<close>

definition state_ok :: "demo_entity_state \<Rightarrow> bool" where
  "state_ok st \<longleftrightarrow> length (st_pos st) = 3 \<and> length (st_vel st) = 3 \<and> length (st_flags st) = 3 \<and>
    (\<forall>v \<in> set (st_pos st). in_bounds POS_MIN POS_MAX v) \<and>
    (\<forall>v \<in> set (st_vel st). in_bounds VEL_MIN VEL_MAX v) \<and> st_yaw st < 4096"

section \<open>What the codec makes of them\<close>

lemma state_values_fit:
  assumes "state_ok st"
  shows "list_all2 value_ok (map fd_codec (cd_fields sim_component)) (state_values st)"
proof -
  have "in_bounds POS_MIN POS_MAX (st_pos st ! i)" "in_bounds VEL_MIN VEL_MAX (st_vel st ! i)" if "i < 3" for i
    using assms that by (simp_all add: state_ok_def)
  moreover have "unat (st_yaw st) < 2 ^ 12" using assms by (simp add: state_ok_def word_less_nat_alt)
  then have "unat (ucast (st_yaw st) :: u64) < 2 ^ 12"
    by (simp add: unsigned_ucast_eq take_bit_nat_eq_self)
  ultimately show ?thesis
    by (simp add: sim_component_fields state_values_def field_def_new_def field_def_change_def codec_uint_def
        codec_bool_def codec_fixed_point_def fixed_point_new_def in_bounds_def)
qed

lemma to_snapshot_canonical: "canonical_entity sim_schema (to_snapshot st) = to_snapshot st"
  by (simp add: canonical_entity_def to_snapshot_def sim_schema_def find_component_def sim_component_fields(1)
      List.map_filter_def)

lemma to_snapshot_exact: "exact_values sim_schema (to_snapshot st)"
  by (simp add: exact_values_def sim_schema_def to_snapshot_def sim_component_fields state_values_def
      exact_field_def field_def_new_def field_def_change_def)

lemma set_sort_entities [simp]: "set (sort_entities es) = set es"
  by (simp add: sort_entities_def)

lemma length_sort_entities [simp]: "length (sort_entities es) = length es"
  by (simp add: sort_entities_def)

lemma sort_entities_sorted:
  assumes "distinct (map es_id es)"
  shows "ids_sorted (sort_entities es)"
proof -
  have "sorted (map (\<lambda>e. entity_raw (es_id e)) (sort_entities es))"
    unfolding sort_entities_def by (rule sorted_sort_key)
  moreover have "distinct (map (\<lambda>e. entity_raw (es_id e)) es)"
    using assms by (simp add: distinct_map inj_on_def)
  then have "distinct (map (\<lambda>e. entity_raw (es_id e)) (sort_entities es))"
    by (simp add: sort_entities_def distinct_map)
  ultimately have "sorted_wrt (<) (map (\<lambda>e. entity_raw (es_id e)) (sort_entities es))"
    by (simp only: strict_sorted_iff)
  then show ?thesis by (simp add: sorted_wrt_map)
qed

lemma built_canonical:
  "canonical_snapshot sim_schema \<lparr>sn_tick = tick, sn_entities = sort_entities (map to_snapshot states)\<rparr>"
  by (auto simp: canonical_snapshot_def to_snapshot_canonical to_snapshot_exact)

end
