(* ===== verification/Sim_Steps.thy ===== *)
theory Sim_Steps
  imports Sim_State
begin

text \<open>
  The world of the reference simulation (\<^verbatim>\<open>demo-sim/src/main.rs\<close>): its random numbers, the initial
  states, one step of every entity and what a client sees.  The random generator is a 64-bit word
  passed from call to call.  Every state that the simulation reaches is within the bounds of the schema.
\<close>

section \<open>Random numbers\<close>

type_synonym rng = u64

definition rng_new :: "u64 \<Rightarrow> rng" where
  "rng_new seed = seed"

definition next_u32 :: "rng \<Rightarrow> u32 \<times> rng" where
  "next_u32 state =
    (let state = state * 6364136223846793005 + 1 in (ucast (drop_bit 32 state), state))"

definition range_i64 :: "i64 \<Rightarrow> i64 \<Rightarrow> rng \<Rightarrow> i64 \<times> rng" where
  "range_i64 lo hi state =
    (let span = max (unsigned_abs (hi - lo)) 1 + 1;
         (v, state) = next_u32 state;
         v = ucast v mod span
     in (lo + v, state))"

definition clamp :: "i64 \<Rightarrow> i64 \<Rightarrow> i64 \<Rightarrow> i64" where
  "clamp v lo hi =
    (let v = (if sint hi < sint v then hi else v) in if sint v < sint lo then lo else v)"

section \<open>Initial states\<close>

fun range_times :: "nat \<Rightarrow> i64 \<Rightarrow> i64 \<Rightarrow> rng \<Rightarrow> i64 list \<times> rng" where
  "range_times 0 lo hi state = ([], state)"
| "range_times (Suc n) lo hi state =
    (let (v, state) = range_i64 lo hi state; (vs, state) = range_times n lo hi state in (v # vs, state))"

text \<open>The halves and tenths of the bounds are constants.\<close>

definition init_state :: "u32 \<Rightarrow> rng \<Rightarrow> demo_entity_state \<times> rng" where
  "init_state idx state =
    (let (pos, state) = range_times 3 (- 50000) 50000 state;
         (vel, state) = range_times 3 (- 1000) 1000 state;
         (v, state) = next_u32 state;
         yaw = ucast (v mod 4096)
     in (\<lparr>st_id = EntityId (idx + 1), st_pos = pos, st_vel = vel, st_yaw = yaw,
          st_flags = [False, False, False]\<rparr>, state))"

text \<open>\<^verbatim>\<open>for idx in 0..players\<close>, with the indices that are left.\<close>

fun init_loop :: "u32 list \<Rightarrow> rng \<Rightarrow> demo_entity_state list \<times> rng" where
  "init_loop [] state = ([], state)"
| "init_loop (idx # rest) state =
    (let (st, state) = init_state idx state; (sts, state) = init_loop rest state in (st # sts, state))"

definition init_states :: "u32 \<Rightarrow> rng \<Rightarrow> demo_entity_state list \<times> rng" where
  "init_states players state = init_loop (map of_nat [0..<unat players]) state"

section \<open>One step\<close>

definition jitter_velocity :: "nat \<Rightarrow> demo_entity_state \<Rightarrow> rng \<Rightarrow> demo_entity_state \<times> rng" where
  "jitter_velocity axis st state =
    (let (v, state) = next_u32 state in
     if v mod 20 = 0 then
       let (delta, state) = range_i64 (- 50) 50 state
       in (st\<lparr>st_vel := (st_vel st)[axis := clamp (st_vel st ! axis + delta) VEL_MIN VEL_MAX]\<rparr>, state)
     else (st, state))"

definition move_axis :: "nat \<Rightarrow> demo_entity_state \<Rightarrow> demo_entity_state" where
  "move_axis axis st =
    (let st = st\<lparr>st_pos := (st_pos st)[axis := clamp (st_pos st ! axis + st_vel st ! axis) POS_MIN POS_MAX]\<rparr>
     in if st_pos st ! axis = POS_MIN \<or> st_pos st ! axis = POS_MAX
        then st\<lparr>st_vel := (st_vel st)[axis := - (st_vel st ! axis)]\<rparr> else st)"

definition step_axis :: "nat \<Rightarrow> demo_entity_state \<times> rng \<Rightarrow> demo_entity_state \<times> rng" where
  "step_axis axis = (\<lambda>(st, state). let (st, state) = jitter_velocity axis st state in (move_axis axis st, state))"

definition turn :: "u32 \<Rightarrow> demo_entity_state \<Rightarrow> demo_entity_state" where
  "turn angle st = st\<lparr>st_yaw := ucast ((ucast (st_yaw st) + angle) mod 4096 :: u32)\<rparr>"

definition flip_flag :: "nat \<Rightarrow> demo_entity_state \<Rightarrow> demo_entity_state" where
  "flip_flag i st = st\<lparr>st_flags := (st_flags st)[i := \<not> st_flags st ! i]\<rparr>"

definition step_entity :: "bool \<Rightarrow> demo_entity_state \<Rightarrow> rng \<Rightarrow> demo_entity_state \<times> rng" where
  "step_entity burst_now st state =
    (let (st, state) = fold step_axis [0, 1, 2] (st, state);
         (v, state) = next_u32 state;
         st = turn (v mod 13) st;
         st = (if burst_now then turn 97 (flip_flag 1 (flip_flag 0 st)) else st);
         (v, state) = next_u32 state
     in (if v mod 50 = 0 then flip_flag 2 st else st, state))"

fun step_loop ::
  "(demo_entity_state \<Rightarrow> rng \<Rightarrow> demo_entity_state \<times> rng) \<Rightarrow> demo_entity_state list \<Rightarrow> rng \<Rightarrow>
    demo_entity_state list \<times> rng" where
  "step_loop step [] state = ([], state)"
| "step_loop step (st # sts) state =
    (let (st, state) = step st state; (sts, state) = step_loop step sts state in (st # sts, state))"

definition burst_tick :: "u32 option \<Rightarrow> u32 \<Rightarrow> bool" where
  "burst_tick burst tick \<longleftrightarrow> (case burst of Some every \<Rightarrow> every > 0 \<and> tick mod every = 0 | None \<Rightarrow> False)"

definition step_states ::
  "demo_entity_state list \<Rightarrow> rng \<Rightarrow> u32 \<Rightarrow> u32 option \<Rightarrow> demo_entity_state list \<times> rng" where
  "step_states states state tick burst =
    (let burst_now = burst_tick burst tick in step_loop (step_entity burst_now) states state)"

section \<open>What a client sees\<close>

text \<open>Distances are computed in 128 bits, in which they do not overflow: integers here.\<close>

definition VIS_RADIUS :: int where "VIS_RADIUS = 30000"

definition visible_from :: "demo_entity_state \<Rightarrow> demo_entity_state \<Rightarrow> bool" where
  "visible_from observer st \<longleftrightarrow>
    (if st_id st = st_id observer then True
     else
       let dx = sint (st_pos st ! 0) - sint (st_pos observer ! 0);
           dy = sint (st_pos st ! 1) - sint (st_pos observer ! 1);
           dz = sint (st_pos st ! 2) - sint (st_pos observer ! 2)
       in dx * dx + dy * dy + dz * dz \<le> VIS_RADIUS * VIS_RADIUS)"

text \<open>\<^verbatim>\<open>states[client_idx]\<close> panics out of range: \<^const>\<open>None\<close>.\<close>

definition build_visible_snapshot ::
  "snapshot_tick \<Rightarrow> demo_entity_state list \<Rightarrow> nat \<Rightarrow> snapshot option" where
  "build_visible_snapshot tick states client_idx =
    (if client_idx < length states then
       let client_state = states ! client_idx;
           entities = map to_snapshot (filter (visible_from client_state) states)
       in Some \<lparr>sn_tick = tick, sn_entities = sort_entities entities\<rparr>
     else None)"

section \<open>Bounds\<close>

lemma sint_bounds: "sint POS_MIN = - 100000" "sint POS_MAX = 100000" "sint VEL_MIN = - 10000" "sint VEL_MAX = 10000"
  by (simp_all add: sim_bounds)

lemma clamp_in_bounds: "sint lo \<le> sint hi \<Longrightarrow> in_bounds lo hi (clamp v lo hi)"
  by (auto simp: clamp_def in_bounds_def Let_def)

lemma clamp_id: "in_bounds lo hi v \<Longrightarrow> clamp v lo hi = v"
  by (auto simp: clamp_def in_bounds_def)

text \<open>
  A value drawn from a range lies in it, when the range has at least two values; of a range with one
  value the code also returns the next one.
\<close>

lemma range_i64_in_bounds:
  assumes "sint lo < sint hi" and "sint hi - sint lo < 2 ^ 63"
  shows "in_bounds lo hi (fst (range_i64 lo hi state))"
proof -
  obtain v state' where draw: "next_u32 state = (v, state')" by fastforce
  define span where "span = max (unsigned_abs (hi - lo)) 1 + 1"
  have diff: "sint (hi - lo) = sint hi - sint lo" using assms by (intro sint_diff_exact) simp_all
  have abs: "unat (unsigned_abs (hi - lo)) = nat (sint hi - sint lo)" using assms(1) diff by (simp add: unsigned_abs_value)
  then have le1: "1 \<le> unsigned_abs (hi - lo)" using assms(1) by (simp add: word_le_nat_alt)
  have "unat (unsigned_abs (hi - lo) + 1) = (unat (unsigned_abs (hi - lo)) + 1) mod 2 ^ 64"
    by (simp add: unat_word_ariths)
  also have "\<dots> = Suc (unat (unsigned_abs (hi - lo)))" using abs assms by simp
  finally have span: "unat span = Suc (nat (sint hi - sint lo))" using le1 abs by (simp add: span_def max_def)
  define x where "x = (ucast v :: u64) mod span"
  have "unat x < unat span" unfolding x_def unat_mod using span by (intro mod_less_divisor) simp
  then have "unat x \<le> nat (sint hi - sint lo)" using span by simp
  then have x: "int (unat x) \<le> sint hi - sint lo" using assms(1) by linarith
  have "lo + x = word_of_int (sint lo + int (unat x))" by simp
  then have "sint (lo + x) = signed_take_bit 63 (sint lo + int (unat x))" by (simp only: sint_sbintrunc') simp
  also have "\<dots> = sint lo + int (unat x)"
  proof (rule signed_take_bit_int_eq_self)
    have "- (2 ^ 63) \<le> sint lo" "sint hi < 2 ^ 63" using sint_greater_eq [of lo] sint_less [of hi] by simp_all
    then show "- (2 ^ 63) \<le> sint lo + int (unat x)" "sint lo + int (unat x) < 2 ^ 63" using x by linarith+
  qed
  finally have "sint (lo + x) = sint lo + int (unat x)" .
  with x show ?thesis by (simp add: in_bounds_def range_i64_def draw Let_def span_def x_def)
qed

lemma range_times_in_bounds:
  assumes "sint lo < sint hi" and "sint hi - sint lo < 2 ^ 63"
  shows "length (fst (range_times n lo hi state)) = n \<and> (\<forall>v \<in> set (fst (range_times n lo hi state)). in_bounds lo hi v)"
proof (induction n arbitrary: state)
  case (Suc n)
  obtain v state' where "range_i64 lo hi state = (v, state')" by fastforce
  with Suc [of state'] range_i64_in_bounds [OF assms, of state] show ?case by (auto split: prod.splits)
qed simp

lemma in_bounds_mono: "in_bounds lo hi v \<Longrightarrow> sint lo' \<le> sint lo \<Longrightarrow> sint hi \<le> sint hi' \<Longrightarrow> in_bounds lo' hi' v"
  by (simp add: in_bounds_def)

lemma yaw_mod: "(ucast (v mod 4096 :: u32) :: u16) < 4096"
proof -
  have "unat (v mod 4096) < 4096" unfolding unat_mod by simp
  then show ?thesis by (simp add: word_less_nat_alt unsigned_ucast_eq take_bit_nat_eq_self)
qed

lemma init_state_ok: "state_ok (fst (init_state idx state))"
proof -
  obtain pos s1 where pos: "range_times 3 (- 50000) 50000 state = (pos, s1)" by fastforce
  obtain vel s2 where vel: "range_times 3 (- 1000) 1000 s1 = (vel, s2)" by fastforce
  show ?thesis
    using range_times_in_bounds [of "- 50000" 50000 3 state] range_times_in_bounds [of "- 1000" 1000 3 s1]
    by (auto simp: init_state_def pos vel Let_def state_ok_def sint_bounds yaw_mod
        elim!: in_bounds_mono split: prod.splits)
qed

lemma init_state_id: "st_id (fst (init_state idx state)) = EntityId (idx + 1)"
  by (simp add: init_state_def Let_def split: prod.splits)

lemma init_loop_states:
  "(\<forall>st \<in> set (fst (init_loop ids state)). state_ok st) \<and>
    map st_id (fst (init_loop ids state)) = map (\<lambda>i. EntityId (i + 1)) ids"
proof (induction ids arbitrary: state)
  case (Cons i ids)
  obtain st s1 where "init_state i state = (st, s1)" by fastforce
  with Cons [of s1] init_state_ok [of i state] init_state_id [of i state] show ?case
    by (auto split: prod.splits)
qed simp

text \<open>What every step keeps: the bounds and the id.\<close>

definition keeps_state :: "demo_entity_state \<Rightarrow> demo_entity_state \<Rightarrow> bool" where
  "keeps_state st st' \<longleftrightarrow> st_id st' = st_id st \<and> (state_ok st \<longrightarrow> state_ok st')"

lemma keeps_refl [simp]: "keeps_state st st"
  by (simp add: keeps_state_def)

lemma keeps_trans: "keeps_state a b \<Longrightarrow> keeps_state b c \<Longrightarrow> keeps_state a c"
  by (simp add: keeps_state_def)

lemma list_update_all: "(\<forall>x \<in> set xs. P x) \<Longrightarrow> P y \<Longrightarrow> \<forall>x \<in> set (xs[i := y]). P x"
  using set_update_subset_insert [of xs i y] by auto

lemma set_vel_keeps: "in_bounds VEL_MIN VEL_MAX v \<Longrightarrow> keeps_state st (st\<lparr>st_vel := (st_vel st)[axis := v]\<rparr>)"
  by (auto simp: keeps_state_def state_ok_def dest: list_update_all [rotated] set_update_subset_insert [THEN subsetD])

lemma set_pos_keeps: "in_bounds POS_MIN POS_MAX v \<Longrightarrow> keeps_state st (st\<lparr>st_pos := (st_pos st)[axis := v]\<rparr>)"
  by (auto simp: keeps_state_def state_ok_def dest: list_update_all [rotated] set_update_subset_insert [THEN subsetD])

lemma turn_keeps: "keeps_state st (turn angle st)"
  by (simp add: keeps_state_def state_ok_def turn_def yaw_mod)

lemma flip_flag_keeps: "keeps_state st (flip_flag i st)"
  by (simp add: keeps_state_def state_ok_def flip_flag_def)

lemma jitter_velocity_keeps: "keeps_state st (fst (jitter_velocity axis st state))"
  by (auto simp: jitter_velocity_def Let_def split: prod.splits
      intro!: set_vel_keeps clamp_in_bounds) (simp add: sint_bounds)

lemma neg_in_bounds:
  assumes "in_bounds VEL_MIN VEL_MAX v"
  shows "in_bounds VEL_MIN VEL_MAX (- v)"
proof -
  have "sint (0 - v) = sint (0 :: i64) - sint v"
    using assms by (intro sint_diff_exact) (simp_all add: in_bounds_def sint_bounds)
  with assms show ?thesis by (simp add: in_bounds_def sint_bounds)
qed

lemma move_axis_keeps:
  assumes "axis < 3"
  shows "keeps_state st (move_axis axis st)"
proof -
  let ?st = "st\<lparr>st_pos := (st_pos st)[axis := clamp (st_pos st ! axis + st_vel st ! axis) POS_MIN POS_MAX]\<rparr>"
  have moved: "keeps_state st ?st" by (intro set_pos_keeps clamp_in_bounds) (simp add: sint_bounds)
  have turned: "keeps_state ?st (?st\<lparr>st_vel := (st_vel ?st)[axis := - (st_vel ?st ! axis)]\<rparr>)"
  proof (cases "state_ok ?st")
    case True
    then have "in_bounds VEL_MIN VEL_MAX (st_vel ?st ! axis)" using assms by (simp add: state_ok_def)
    then show ?thesis by (intro set_vel_keeps neg_in_bounds)
  qed (simp add: keeps_state_def)
  from moved keeps_trans [OF moved turned] show ?thesis by (simp add: move_axis_def Let_def)
qed

lemma step_axis_keeps:
  assumes "axis < 3" and "step_axis axis (st, state) = (st', state')"
  shows "keeps_state st st'"
proof -
  obtain st1 s1 where jitter: "jitter_velocity axis st state = (st1, s1)" by fastforce
  then have "keeps_state st st1" using jitter_velocity_keeps [of st axis state] by simp
  with assms jitter show ?thesis by (auto simp: step_axis_def intro: keeps_trans move_axis_keeps)
qed

lemma fold_axes_keeps:
  "\<forall>axis \<in> set axes. axis < 3 \<Longrightarrow> fold step_axis axes (st, state) = (st', state') \<Longrightarrow> keeps_state st st'"
proof (induction axes arbitrary: st state)
  case (Cons axis axes)
  obtain st1 s1 where one: "step_axis axis (st, state) = (st1, s1)" by fastforce
  with Cons show ?case using step_axis_keeps [OF _ one] by (auto intro: keeps_trans)
qed simp

lemma step_entity_keeps: "keeps_state st (fst (step_entity burst st state))"
proof -
  obtain st1 s1 where axes: "fold step_axis [0, 1, 2] (st, state) = (st1, s1)" by fastforce
  obtain v s2 where v: "next_u32 s1 = (v, s2)" by fastforce
  let ?turned = "turn (v mod 13) st1"
  let ?st = "if burst then turn 97 (flip_flag 1 (flip_flag 0 ?turned)) else ?turned"
  have "keeps_state st ?turned"
    by (rule keeps_trans [OF fold_axes_keeps [OF _ axes] turn_keeps]) simp
  moreover have "keeps_state ?turned (turn 97 (flip_flag 1 (flip_flag 0 ?turned)))"
    by (rule keeps_trans [OF keeps_trans [OF flip_flag_keeps flip_flag_keeps] turn_keeps])
  ultimately have "keeps_state st ?st" by (cases burst) (simp_all only: if_True if_False keeps_trans)
  moreover from keeps_trans [OF this flip_flag_keeps] have "keeps_state st (flip_flag 2 ?st)" .
  ultimately show ?thesis using axes v by (cases burst) (simp_all add: step_entity_def Let_def split: prod.split)
qed

lemma step_loop_keeps:
  assumes "\<And>st state. keeps_state st (fst (step st state))"
  shows "map st_id (fst (step_loop step sts state)) = map st_id sts \<and>
    ((\<forall>st \<in> set sts. state_ok st) \<longrightarrow> (\<forall>st \<in> set (fst (step_loop step sts state)). state_ok st))"
proof (induction sts arbitrary: state)
  case (Cons st sts)
  obtain st' s1 where "step st state = (st', s1)" by fastforce
  with Cons [of s1] assms [of st state] show ?case by (auto simp: keeps_state_def split: prod.splits)
qed simp

section \<open>The world over time\<close>

definition world_ok :: "demo_entity_state list \<Rightarrow> bool" where
  "world_ok states \<longleftrightarrow> (\<forall>st \<in> set states. state_ok st) \<and> distinct (map st_id states)"

lemma init_states_ok: "world_ok (fst (init_states players state))"
proof -
  have "inj_on (\<lambda>i. EntityId (of_nat i + 1)) {0..<unat players}"
  proof (rule inj_onI)
    fix i j :: nat assume "i \<in> {0..<unat players}" "j \<in> {0..<unat players}"
    moreover have "unat players < 2 ^ 32" using unsigned_less [of players] by simp
    ultimately have "i < 2 ^ 32" "j < 2 ^ 32" by simp_all
    moreover assume "EntityId (of_nat i + 1) = EntityId (of_nat j + 1)"
    then have "unat (of_nat i :: u32) = unat (of_nat j :: u32)" by simp
    ultimately show "i = j" by (simp only: unat_of_nat_u32)
  qed
  then have "distinct (map (\<lambda>i. EntityId (i + 1)) (map of_nat [0..<unat players]))"
    by (simp add: comp_def distinct_map)
  with init_loop_states [of "map of_nat [0..<unat players]" state] show ?thesis
    by (simp add: world_ok_def init_states_def)
qed

lemma step_states_ok:
  assumes "world_ok states"
  shows "world_ok (fst (step_states states state tick burst))"
    and "map st_id (fst (step_states states state tick burst)) = map st_id states"
  using assms step_loop_keeps [of "step_entity (burst_tick burst tick)" states state] step_entity_keeps
  by (auto simp: world_ok_def step_states_def)

text \<open>The states after the first \<open>n\<close> ticks.\<close>

fun world_at :: "u32 \<Rightarrow> u64 \<Rightarrow> u32 option \<Rightarrow> nat \<Rightarrow> demo_entity_state list \<times> rng" where
  "world_at players seed burst 0 = init_states players (rng_new seed)"
| "world_at players seed burst (Suc n) =
    (let (states, state) = world_at players seed burst n
     in step_states states state (of_nat (Suc n)) burst)"

lemma world_at_ok:
  "world_ok (fst (world_at players seed burst n)) \<and> length (fst (world_at players seed burst n)) = unat players"
proof (induction n)
  case 0
  have "map st_id (fst (init_states players (rng_new seed))) =
      map (\<lambda>i. EntityId (i + 1)) (map of_nat [0..<unat players])"
    using init_loop_states by (simp add: init_states_def)
  from arg_cong [OF this, of length] show ?case by (simp add: init_states_ok)
next
  case (Suc n)
  obtain states state where "world_at players seed burst n = (states, state)" by fastforce
  with Suc step_states_ok [of states state "of_nat (Suc n)" burst] show ?case
    using map_eq_imp_length_eq by fastforce
qed

lemma visible_snapshot_sorted:
  assumes "world_ok states" and "build_visible_snapshot tick states i = Some sn"
  shows "ids_sorted (sn_entities sn)" and "canonical_snapshot sim_schema sn"
    and "sn_tick sn = tick" and "length (sn_entities sn) \<le> length states"
    and "to_snapshot (states ! i) \<in> set (sn_entities sn)"
proof -
  from assms(2) have sn: "sn = \<lparr>sn_tick = tick,
      sn_entities = sort_entities (map to_snapshot (filter (visible_from (states ! i)) states))\<rparr>"
    and i: "i < length states"
    by (simp_all add: build_visible_snapshot_def Let_def split: if_splits)
  have "map es_id (map to_snapshot sts) = map st_id sts" for sts by (simp add: to_snapshot_def comp_def)
  then have "distinct (map es_id (map to_snapshot (filter (visible_from (states ! i)) states)))"
    using assms(1) by (simp only: world_ok_def distinct_map_filter)
  then show "ids_sorted (sn_entities sn)" unfolding sn by (simp add: sort_entities_sorted)
  show "canonical_snapshot sim_schema sn" unfolding sn by (rule built_canonical)
  show "sn_tick sn = tick" "length (sn_entities sn) \<le> length states" by (simp_all add: sn)
  show "to_snapshot (states ! i) \<in> set (sn_entities sn)"
    using i by (auto simp: sn visible_from_def)
qed

end
