(* ===== verification/Sim_Capture.thy ===== *)
theory Sim_Capture
  imports Sim_Steps Packet_Tools
begin

text \<open>
  The capture run of the reference simulation (\<^verbatim>\<open>main\<close> of \<^verbatim>\<open>demo-sim/src/main.rs\<close>) without its files
  and reports: the session handshake, a full snapshot for every client at the first tick, then for
  every tick and client a compact delta that is decoded, applied and compared with what was encoded.
  \<^const>\<open>None\<close> is a panic.  The comparison never fails: a run ends early only when an encoder returns an
  error or a packet exceeds the wire limits, whose sections are half as long as the encoder's.
\<close>

section \<open>The run\<close>

definition capture_buffer :: "codec_limits \<Rightarrow> u8 list" where
  "capture_buffer l = replicate (max (max_section_bytes l) HEADER_SIZE * 4) 0"

definition encode_full ::
  "(u8 list \<Rightarrow> u8 list) \<Rightarrow> schema \<Rightarrow> snapshot \<Rightarrow> codec_limits \<Rightarrow> (tool_error + u8 list) option" where
  "encode_full blake3 s sn l =
    map_option (\<lambda>r. map_ok (\<lambda>(n, buf). take n buf) (context_err ''encode full snapshot'' CodecCause r))
      (encode_full_snapshot blake3 s (sn_tick sn) (sn_entities sn) l (capture_buffer l))"

definition validate_packet ::
  "(u8 list \<Rightarrow> u8 list) \<Rightarrow> schema \<Rightarrow> limits \<Rightarrow> codec_limits \<Rightarrow> u8 list \<Rightarrow> snapshot \<Rightarrow> snapshot option \<Rightarrow>
    tool_error + unit" where
  "validate_packet blake3 s wl l bytes expected baseline =
    and_then (context_err ''decode packet'' WireCause (decode_packet bytes wl)) (\<lambda>packet.
    and_then (with_context ''tools decode'' (decode_packet_json blake3 bytes s wl l)) (\<lambda>_.
    if is_full_snapshot (ph_flags (wp_header packet)) then
      and_then (context_err ''decode full snapshot'' CodecCause (decode_full_snapshot_from_packet blake3 s packet l))
        (\<lambda>decoded. if sn_entities decoded \<noteq> sn_entities expected
          then Inl ([], MessageCause ''full snapshot decode mismatch'') else Inr ())
    else
      and_then (ok_or ([], MessageCause ''missing baseline for delta validation'') baseline) (\<lambda>baseline.
      and_then (context_err ''apply delta snapshot'' CodecCause
          (apply_delta_snapshot_from_packet blake3 s baseline packet l)) (\<lambda>applied.
        if sn_entities applied \<noteq> sn_entities expected
        then Inl ([], MessageCause ''delta apply produced mismatched snapshot'') else Inr ()))))"

text \<open>The session state is changed in place; a failed run ends, so it is returned on success only.\<close>

definition validate_session_delta ::
  "(u8 list \<Rightarrow> u8 list) \<Rightarrow> schema \<Rightarrow> limits \<Rightarrow> codec_limits \<Rightarrow> u8 list \<Rightarrow> snapshot \<Rightarrow> snapshot \<Rightarrow>
    session_state \<Rightarrow> tool_error + session_state" where
  "validate_session_delta blake3 s wl l bytes expected baseline session =
    and_then (context_err ''decode session'' CodecCause (decode_session_packet blake3 s session bytes wl))
      (\<lambda>(packet, session).
    and_then (with_context ''tools decode session'' (build_decode_output blake3 s packet l)) (\<lambda>_.
    and_then (context_err ''apply delta snapshot'' CodecCause
        (apply_delta_snapshot_from_packet blake3 s baseline packet l)) (\<lambda>applied.
      if sn_entities applied \<noteq> sn_entities expected
      then Inl ([], MessageCause ''session delta apply produced mismatched snapshot'') else Inr session)))"

text \<open>The three vectors that \<^verbatim>\<open>main\<close> keeps per client, as one record per client.\<close>

record sim_client =
  sc_baseline :: snapshot
  sc_session :: session_state
  sc_last_tick :: snapshot_tick

definition capture_session ::
  "(u8 list \<Rightarrow> u8 list) \<Rightarrow> schema \<Rightarrow> limits \<Rightarrow> codec_limits \<Rightarrow> u64 \<Rightarrow> (tool_error + session_state) option" where
  "capture_session blake3 s wl l seed =
    try_then (map_option (context_err ''encode session init'' CodecCause)
      (encode_session_init_packet blake3 s (SnapshotTick 1) (Some seed) SessionV1 l
        (replicate (HEADER_SIZE + max (max_section_bytes l) 32) 0))) (\<lambda>(session_len, session_buf).
    let session_buf = take session_len session_buf in
    Some (and_then (context_err ''decode session init'' WireCause (decode_packet session_buf wl)) (\<lambda>session_packet.
    and_then (context_err ''decode session init'' CodecCause (decode_session_init_packet blake3 s session_packet l))
      (\<lambda>session_state.
    and_then (with_context ''tools inspect session init'' (inspect_packet blake3 session_buf None wl l)) (\<lambda>_.
    Inr session_state)))))"

text \<open>The first tick of one client, and each later one.\<close>

definition capture_full_client ::
  "(u8 list \<Rightarrow> u8 list) \<Rightarrow> schema \<Rightarrow> limits \<Rightarrow> codec_limits \<Rightarrow> demo_entity_state list \<Rightarrow> u32 \<Rightarrow>
    session_state \<Rightarrow> nat \<Rightarrow> (tool_error + sim_client) option" where
  "capture_full_client blake3 s wl l states tick session client_idx =
    (case build_visible_snapshot (SnapshotTick tick) states client_idx of
       None \<Rightarrow> None
     | Some sn \<Rightarrow>
         try_then (encode_full blake3 s sn l) (\<lambda>bytes.
         try_then (Some (validate_packet blake3 s wl l bytes sn None)) (\<lambda>_.
         Some (Inr \<lparr>sc_baseline = sn, sc_session = session, sc_last_tick = SnapshotTick 1\<rparr>))))"

definition capture_delta_client ::
  "(u8 list \<Rightarrow> u8 list) \<Rightarrow> schema \<Rightarrow> limits \<Rightarrow> codec_limits \<Rightarrow> demo_entity_state list \<Rightarrow> u32 \<Rightarrow>
    nat \<Rightarrow> sim_client \<Rightarrow> (tool_error + sim_client) option" where
  "capture_delta_client blake3 s wl l states tick client_idx client =
    (let baseline = sc_baseline client in
     case build_visible_snapshot (SnapshotTick tick) states client_idx of
       None \<Rightarrow> None
     | Some sn \<Rightarrow>
         try_then (map_option (context_err ''encode session delta'' CodecCause)
           (encode_delta_snapshot_for_client_session s (sn_tick sn) (sn_tick baseline) baseline sn l
             (sc_last_tick client) (capture_buffer l))) (\<lambda>(n, buf, last_tick).
         try_then (Some (validate_session_delta blake3 s wl l (take n buf) sn baseline (sc_session client)))
           (\<lambda>session.
         Some (Inr \<lparr>sc_baseline = sn, sc_session = session, sc_last_tick = last_tick\<rparr>))))"

fun capture_full_clients ::
  "(nat \<Rightarrow> (tool_error + sim_client) option) \<Rightarrow> nat list \<Rightarrow> (tool_error + sim_client list) option" where
  "capture_full_clients step [] = Some (Inr [])"
| "capture_full_clients step (client_idx # rest) =
    try_then (step client_idx) (\<lambda>client.
    try_then (capture_full_clients step rest) (\<lambda>clients. Some (Inr (client # clients))))"

fun capture_delta_clients ::
  "(nat \<Rightarrow> sim_client \<Rightarrow> (tool_error + sim_client) option) \<Rightarrow> nat \<Rightarrow> sim_client list \<Rightarrow>
    (tool_error + sim_client list) option" where
  "capture_delta_clients step client_idx [] = Some (Inr [])"
| "capture_delta_clients step client_idx (client # rest) =
    try_then (step client_idx client) (\<lambda>client.
    try_then (capture_delta_clients step (Suc client_idx) rest) (\<lambda>clients. Some (Inr (client # clients))))"

text \<open>\<^verbatim>\<open>for tick in 1..=cli.ticks\<close>, with the ticks that are left.\<close>

fun capture_loop ::
  "(u8 list \<Rightarrow> u8 list) \<Rightarrow> schema \<Rightarrow> limits \<Rightarrow> codec_limits \<Rightarrow> u32 option \<Rightarrow> nat \<Rightarrow> session_state \<Rightarrow>
    u32 list \<Rightarrow> demo_entity_state list \<Rightarrow> rng \<Rightarrow> sim_client list \<Rightarrow> (tool_error + sim_client list) option" where
  "capture_loop blake3 s wl l burst clients session [] states state captured = Some (Inr captured)"
| "capture_loop blake3 s wl l burst clients session (tick # ticks) states state captured =
    (let (states, state) = step_states states state tick burst in
     try_then
       (if tick = 1 then
          capture_full_clients (capture_full_client blake3 s wl l states tick session) [0..<clients]
        else capture_delta_clients (capture_delta_client blake3 s wl l states tick) 0 captured) (\<lambda>captured.
     capture_loop blake3 s wl l burst clients session ticks states state captured))"

definition capture_run ::
  "(u8 list \<Rightarrow> u8 list) \<Rightarrow> u32 \<Rightarrow> u32 \<Rightarrow> u32 \<Rightarrow> u64 \<Rightarrow> u32 option \<Rightarrow> (tool_error + sim_client list) option" where
  "capture_run blake3 players requested_clients ticks seed burst =
    (if players = 0 then Some (Inl ([], MessageCause ''players must be > 0''))
     else
       case sim_schema_result of
         None \<Rightarrow> None
       | Some s \<Rightarrow>
           let l = codec_limits_default;
               wl = limits_default;
               clients = max (min requested_clients players) 1 in
           try_then (capture_session blake3 s wl l seed) (\<lambda>session.
           let (states, state) = init_states players (rng_new seed) in
           capture_loop blake3 s wl l burst (unat clients) session (map of_nat [1..<Suc (unat ticks)])
             states state []))"

section \<open>How a run can end early\<close>

definition encoder_error :: "tool_error \<Rightarrow> bool" where
  "encoder_error e \<longleftrightarrow> (\<exists>cause. snd e = CodecCause cause) \<and>
    fst e \<in> {[''encode session init''], [''encode full snapshot''], [''encode session delta'']}"

text \<open>The wire decoder refuses a packet that really is larger, or has a larger section, than its limit.\<close>

definition oversized :: "limits \<Rightarrow> decode_error \<Rightarrow> bool" where
  "oversized wl e \<longleftrightarrow> (\<exists>n > max_packet_bytes wl. e = LimitsExceeded PacketBytes (max_packet_bytes wl) n) \<or>
    (\<exists>n > max_section_len wl. e = LimitsExceeded SectionLength (max_section_len wl) n)"

definition size_refusal :: "limits \<Rightarrow> tool_error \<Rightarrow> bool" where
  "size_refusal wl e \<longleftrightarrow> (\<exists>cause. oversized wl cause \<and>
    e \<in> {([''decode packet''], WireCause cause), ([''decode session''], CodecCause (Wire cause))})"

definition ends_well :: "limits \<Rightarrow> ('a \<Rightarrow> bool) \<Rightarrow> (tool_error + 'a) option \<Rightarrow> bool" where
  "ends_well wl P r \<longleftrightarrow>
    (case r of None \<Rightarrow> False | Some (Inl e) \<Rightarrow> encoder_error e \<or> size_refusal wl e | Some (Inr x) \<Rightarrow> P x)"

lemma ends_well_Inr [simp]: "ends_well wl P (Some (Inr x)) = P x"
  by (simp add: ends_well_def)

lemma ends_well_mono: "ends_well wl P r \<Longrightarrow> (\<And>x. P x \<Longrightarrow> Q x) \<Longrightarrow> ends_well wl Q r"
  by (auto simp: ends_well_def split: option.splits sum.splits)

lemma ends_well_then:
  assumes "ends_well wl P m" and "\<And>x. m = Some (Inr x) \<Longrightarrow> P x \<Longrightarrow> ends_well wl Q (f x)"
  shows "ends_well wl Q (try_then m f)"
  using assms by (auto simp: ends_well_def split: option.splits sum.splits)

text \<open>An encoder call is well under its context, whatever error it returns.\<close>

lemma encoder_ends_well:
  assumes "r \<noteq> None" and "\<And>x. r = Some (Inr x) \<Longrightarrow> P x"
    and "[text] \<in> {[''encode session init''], [''encode full snapshot''], [''encode session delta'']}"
  shows "ends_well wl P (map_option (context_err text CodecCause) r)"
  using assms by (cases r; cases "the r") (auto simp: ends_well_def encoder_error_def context_err_def)

text \<open>
  What the runs need of the limits: the default ones satisfy it.  Wire limits with room for the whole buffer
  let every packet pass; those of the run let the same packets pass, or refuse them for their size.
\<close>

definition capture_room :: "limits \<Rightarrow> codec_limits \<Rightarrow> usize \<Rightarrow> bool" where
  "capture_room wl l players \<longleftrightarrow> max (max_section_bytes l) HEADER_SIZE * 4 < 2 ^ 32 \<and>
    64 \<le> max_packet_bytes wl \<and> 64 \<le> max_section_len wl \<and> 3 \<le> max_sections wl \<and>
    players \<le> max_total_entities_after_apply l"

definition relaxed :: "limits \<Rightarrow> limits" where
  "relaxed wl = wl\<lparr>max_packet_bytes := 2 ^ 32, max_section_len := 2 ^ 32\<rparr>"

lemma relaxed_room:
  "capture_room wl l players \<Longrightarrow> n \<le> length (capture_buffer l) \<Longrightarrow>
    wire_room (relaxed wl) n \<and> session_room (relaxed wl) n"
  by (auto simp: capture_room_def capture_buffer_def wire_room_def session_room_def relaxed_def)

lemma relaxed_sections_loop:
  "decode_sections_loop d (relaxed wl) k acc = Inr secs \<Longrightarrow>
    decode_sections_loop d wl k acc = Inr secs \<or>
    (\<exists>e. oversized wl e \<and> decode_sections_loop d wl k acc = Inl e)"
proof (induction d "relaxed wl" k acc rule: decode_sections_loop.induct)
  case (1 d k acc)
  note un = decode_sections_loop.simps [of d _ k acc]
  show ?case
  proof (cases "k < length d")
    case True
    with "1.prems" obtain len k' t where few: "length acc < max_sections wl"
      and len: "packet_read_varu32 d (k + 1) = Inr (len, k')" and fits: "\<not> length d < k' + unat len"
      and t: "parse_section_tag (d ! k) = Inr t"
      and rest: "decode_sections_loop d (relaxed wl) (k' + unat len)
        (acc @ [\<lparr>ws_tag = t, ws_body = sub_slice d k' (k' + unat len)\<rparr>]) = Inr secs"
      by (subst (asm) un) (auto simp: relaxed_def Let_def res_simps split: if_splits)
    show ?thesis
    proof (cases "unat len > max_section_len wl")
      case True
      then have "decode_sections_loop d wl k acc = Inl (LimitsExceeded SectionLength (max_section_len wl) (unat len))"
        using \<open>k < length d\<close> few len by (subst un) simp
      with True show ?thesis by (auto simp: oversized_def)
    next
      case False
      have "decode_sections_loop d wl k acc = decode_sections_loop d wl (k' + unat len)
          (acc @ [\<lparr>ws_tag = t, ws_body = sub_slice d k' (k' + unat len)\<rparr>])"
        using \<open>k < length d\<close> few len fits t False by (subst un) (simp add: Let_def)
      moreover have "decode_sections_loop d wl (k' + unat len)
            (acc @ [\<lparr>ws_tag = t, ws_body = sub_slice d k' (k' + unat len)\<rparr>]) = Inr secs \<or>
          (\<exists>e. oversized wl e \<and> decode_sections_loop d wl (k' + unat len)
            (acc @ [\<lparr>ws_tag = t, ws_body = sub_slice d k' (k' + unat len)\<rparr>]) = Inl e)"
        using \<open>k < length d\<close> few len fits t rest unsigned_less [of len, where 'a = nat]
        by (intro "1.hyps" [OF _ _ refl len]) (auto simp: relaxed_def)
      ultimately show ?thesis by simp
    qed
  qed (use "1.prems" un [of "relaxed wl"] un [of wl] in simp)
qed

lemma relaxed_sections:
  "decode_sections d (relaxed wl) = Inr secs \<Longrightarrow>
    decode_sections d wl = Inr secs \<or> (\<exists>e. oversized wl e \<and> decode_sections d wl = Inl e)"
  unfolding decode_sections_def by (rule relaxed_sections_loop)

lemma relaxed_packet:
  assumes "decode_packet bytes (relaxed wl) = Inr p"
  shows "decode_packet bytes wl = Inr p \<or> (\<exists>e. oversized wl e \<and> decode_packet bytes wl = Inl e)"
proof (cases "length bytes > max_packet_bytes wl")
  case True
  with assms have "decode_packet bytes wl = Inl (LimitsExceeded PacketBytes (max_packet_bytes wl) (length bytes))"
    by (simp add: decode_packet_def split: if_splits)
  with True show ?thesis by (auto simp: oversized_def)
next
  case False
  from assms obtain secs where secs: "decode_sections (drop HEADER_SIZE bytes) (relaxed wl) = Inr secs"
    by (auto simp: decode_packet_def Let_def res_simps split: if_splits)
  with assms False relaxed_sections [OF secs] show ?thesis
    by (auto simp: decode_packet_def Let_def res_simps split: if_splits)
qed

lemma relaxed_session:
  assumes "decode_session_packet blake3 s st bytes (relaxed wl) = Inr r"
  shows "decode_session_packet blake3 s st bytes wl = Inr r \<or>
    (\<exists>e. oversized wl e \<and> decode_session_packet blake3 s st bytes wl = Inl (Wire e))"
proof -
  from assms obtain header secs where header: "decode_session_header bytes (tick_raw (ss_last_tick st)) = Inr header"
    and secs: "decode_sections (sub_slice bytes (sh_header_len header)
      (sh_header_len header + unat (sh_payload_len header))) (relaxed wl) = Inr secs"
    by (auto simp: decode_session_packet_def Let_def res_simps split: if_splits)
  with assms relaxed_sections [OF secs] show ?thesis
    by (auto simp: decode_session_packet_def Let_def res_simps split: if_splits)
qed

lemma init_sections_only:
  "session_init_section secs init = Inr r \<Longrightarrow> \<exists>reports. report_sections secs = Inr reports"
  by (induction secs init rule: session_init_section.induct) (auto split: if_splits)

lemma init_body_length:
  assumes "encode_session_init_body i m (writer_new buf) = Inr w"
  shows "writer_finish w = 9"
  using assms
  by (auto simp: encode_session_init_body_def res_simps writer_align_to_byte_def writer_new_def write_u64_aligned_def
      write_u8_aligned_def write_bytes_aligned_def writer_finish_def div_ceil_def Let_def split: if_splits)

lemma init_packet_length:
  assumes "encode_session_init_packet blake3 s tick i m l out = Some (Inr (n, out'))"
  shows "n \<le> 64"
proof -
  from assms obtain w buf where w: "encode_session_init_body i m (writer_new buf) = Inr w"
    and n: "n = HEADER_SIZE + length (section_bytes \<lparr>ws_tag = SessionInit, ws_body = written_body w\<rparr>)"
    and "length (written_body w) = writer_finish w" by (rule encode_session_init_packet_bytes)
  moreover have "length (varint_encode v) \<le> 5" for v by (rule varint_length(1))
  from this [of "of_nat (length (written_body w))"]
  have "length (section_bytes \<lparr>ws_tag = SessionInit, ws_body = written_body w\<rparr>) \<le> 6 + length (written_body w)"
    by (simp add: section_bytes_def)
  ultimately show ?thesis using init_body_length [OF w] by (simp add: HEADER_SIZE_eq)
qed

lemma capture_session_ends_well:
  assumes "capture_room wl l players"
  shows "ends_well wl (\<lambda>session. ss_schema_hash session = schema_hash blake3 s \<and> ss_last_tick session = SnapshotTick 1)
    (capture_session blake3 s wl l seed)"
  unfolding capture_session_def
proof (rule ends_well_then [OF encoder_ends_well [where P = "\<lambda>_. True"]])
  let ?out = "replicate (HEADER_SIZE + max (max_section_bytes l) 32) 0"
  let ?enc = "encode_session_init_packet blake3 s (SnapshotTick 1) (Some seed) SessionV1 l ?out"
  show "?enc \<noteq> None" using session_init_panics_iff [of blake3 s "SnapshotTick 1" "Some seed" SessionV1 l ?out] by simp
  fix x assume x: "map_option (context_err ''encode session init'' CodecCause) ?enc = Some (Inr x)"
  obtain n buf where nb: "x = (n, buf)" by fastforce
  with x have enc: "?enc = Some (Inr (n, buf))" by (auto simp: res_simps)
  have room: "wire_room wl n"
    using init_packet_length [OF enc] assms by (simp add: wire_room_def capture_room_def)
  let ?st = "\<lparr>ss_schema_hash = schema_hash blake3 s, ss_session_id = (if Some seed = Some 0 then None else Some seed),
    ss_last_tick = SnapshotTick 1, ss_compact_mode = SessionV1\<rparr>"
  from session_init_decodes [OF enc room] obtain p where p: "decode_packet (take n buf) wl = Inr p"
    and st: "decode_session_init_packet blake3 s p l = Inr ?st" by (auto simp: res_simps)
  from st obtain init where "session_init_section (wp_sections p) None = Inr init"
    by (auto simp: decode_session_init_packet_def Let_def res_simps)
  from init_sections_only [OF this] p obtain report where
    report: "inspect_packet blake3 (take n buf) None wl l = Inr report"
    by (auto simp: inspect_packet_def context_err_def)
  show "ends_well wl (\<lambda>session. ss_schema_hash session = schema_hash blake3 s \<and> ss_last_tick session = SnapshotTick 1)
      ((case x of (session_len, session_buf) \<Rightarrow> let session_buf = take session_len session_buf in
        Some (and_then (context_err ''decode session init'' WireCause (decode_packet session_buf wl)) (\<lambda>session_packet.
        and_then (context_err ''decode session init'' CodecCause (decode_session_init_packet blake3 s session_packet l))
          (\<lambda>session_state.
        and_then (with_context ''tools inspect session init'' (inspect_packet blake3 session_buf None wl l)) (\<lambda>_.
        Inr session_state))))))"
    by (simp add: nb p st report context_err_def with_context_def)
qed simp_all

text \<open>A client between two ticks: in sync with its own baseline.\<close>

definition client_synced :: "(u8 list \<Rightarrow> u8 list) \<Rightarrow> nat \<Rightarrow> sim_client \<Rightarrow> bool" where
  "client_synced blake3 players c \<longleftrightarrow> in_sync blake3 sim_schema
     \<lparr>rp_last = sc_last_tick c, rp_sent = sc_baseline c, rp_session = sc_session c, rp_view = sc_baseline c\<rparr> \<and>
   length (sn_entities (sc_baseline c)) \<le> players"

lemma sim_schema_parts: "schema_ok sim_schema" "length (components sim_schema) = 1"
  using sim_schema_exact by (simp_all add: exact_schema_def sim_schema_def)

lemma canonical_map: "canonical_snapshot s sn \<Longrightarrow> map (canonical_entity s) (sn_entities sn) = sn_entities sn"
  by (intro map_idI) (simp add: canonical_snapshot_def)

lemma capture_full_client_ends_well:
  assumes room: "capture_room wl l (length states)" and world: "world_ok states" and small: "length states < 2 ^ 32"
    and i: "client_idx < length states" and tick: "tick \<noteq> 0"
    and session: "ss_schema_hash session = schema_hash blake3 sim_schema" "ss_last_tick session = SnapshotTick 1"
  shows "ends_well wl (client_synced blake3 (length states))
    (capture_full_client blake3 sim_schema wl l states tick session client_idx)"
proof -
  obtain sn where sn: "build_visible_snapshot (SnapshotTick tick) states client_idx = Some sn"
    using i by (auto simp: build_visible_snapshot_def Let_def)
  note vis = visible_snapshot_sorted [OF world sn]
  have valid: "ends_well wl (\<lambda>_. True) (Some (validate_packet blake3 sim_schema wl l bytes sn None))"
    if bytes: "encode_full blake3 sim_schema sn l = Some (Inr bytes)" for bytes
  proof -
    from bytes obtain n buf where enc: "encode_full_snapshot blake3 sim_schema (sn_tick sn) (sn_entities sn) l
        (capture_buffer l) = Some (Inr (n, buf))" and b: "bytes = take n buf"
      by (auto simp: encode_full_def res_simps)
    from enc have "n \<le> length (capture_buffer l)" by (rule encode_full_snapshot_bytes) simp
    with room have wr: "wire_room (relaxed wl) n" using relaxed_room by blast
    have "length (sn_entities sn) < 2 ^ 32" using vis(4) small by simp
    from full_snapshot_decodes [OF enc sim_schema_parts(1) this wr] canonical_map [OF vis(2)]
    obtain p where p: "decode_packet bytes (relaxed wl) = Inr p"
      and d: "decode_full_snapshot_from_packet blake3 sim_schema p l =
        Inr \<lparr>sn_tick = sn_tick sn, sn_entities = sn_entities sn\<rparr>"
      by (auto simp: decode_full_snapshot_def res_simps b)
    from d have "is_full_snapshot (ph_flags (wp_header p))"
      by (auto simp: decode_full_snapshot_from_packet_def Let_def split: if_splits)
    with relaxed_packet [OF p] d show ?thesis
      by (auto simp: validate_packet_def decode_packet_json_def build_decode_output_def context_err_def
          with_context_def ends_well_def size_refusal_def)
  qed
  have enc: "ends_well wl (\<lambda>_. True) (encode_full blake3 sim_schema sn l)"
    using encode_full_snapshot_no_panic [of blake3 sim_schema "sn_tick sn" "sn_entities sn" l "capture_buffer l"]
    by (cases "the (encode_full_snapshot blake3 sim_schema (sn_tick sn) (sn_entities sn) l (capture_buffer l))")
      (auto simp: encode_full_def ends_well_def encoder_error_def context_err_def)
  have "ends_well wl (client_synced blake3 (length states)) (try_then (encode_full blake3 sim_schema sn l) (\<lambda>bytes.
      try_then (Some (validate_packet blake3 sim_schema wl l bytes sn None)) (\<lambda>_.
      Some (Inr \<lparr>sc_baseline = sn, sc_session = session, sc_last_tick = SnapshotTick 1\<rparr>))))"
    by (rule ends_well_then [OF enc], rule ends_well_then [OF valid])
      (use vis tick session in \<open>simp_all add: client_synced_def in_sync_def\<close>)
  then show ?thesis by (simp add: capture_full_client_def sn)
qed

lemma session_packet_length:
  assumes "encode_delta_snapshot_for_client_session_with_scratch s tick bt baseline current l sc last_tick out =
    Some (Inr (n, out', last'))"
  shows "n \<le> length out"
proof -
  have "Some (Inr (n, out', last')) \<noteq> Some (Inl e)" for e :: codec_error by simp
  from session_encoder_starts [OF assms this] obtain k payload where
    starts: "SESSION_MAX_HEADER_SIZE \<le> length out" "tick_raw last_tick < tick_raw tick" "tick_raw bt \<le> tick_raw tick"
      "encode_delta_payload_with_mode s bt baseline current l sc (drop SESSION_MAX_HEADER_SIZE out) SparseMode =
      Some (Inr (k, payload))" .
  from session_encoder_finishes [OF this] assms have "n = length (compact_header last_tick tick bt k) + k" by auto
  moreover from payload_written [OF starts(4)] have "k \<le> length out - SESSION_MAX_HEADER_SIZE" by simp
  ultimately show ?thesis using compact_header_length [of last_tick tick bt k] starts(1) by linarith
qed

lemma applied_delta_decodes:
  assumes "apply_delta_snapshot_from_packet blake3 s base p l = Inr sn"
  shows "is_delta_snapshot (ph_flags (wp_header p))" and "\<exists>dd. decode_delta_packet blake3 s p l = Inr dd"
  using assms
  by (auto simp: apply_delta_snapshot_from_packet_def decode_delta_packet_def check_delta_flags_def Let_def
      elim!: and_then_E split: if_splits)

lemma capture_delta_client_ends_well:
  assumes room: "capture_room wl l (length states)" and world: "world_ok states" and small: "length states < 2 ^ 32"
    and i: "client_idx < length states" and synced: "client_synced blake3 (length states) c"
  shows "ends_well wl (client_synced blake3 (length states))
    (capture_delta_client blake3 sim_schema wl l states tick client_idx c)"
proof -
  let ?r = "\<lparr>rp_last = sc_last_tick c, rp_sent = sc_baseline c, rp_session = sc_session c, rp_view = sc_baseline c\<rparr>"
  obtain sn where sn: "build_visible_snapshot (SnapshotTick tick) states client_idx = Some sn"
    using i by (auto simp: build_visible_snapshot_def Let_def)
  note vis = visible_snapshot_sorted [OF world sn]
  let ?enc = "encode_delta_snapshot_for_client_session sim_schema (sn_tick sn) (sn_tick (sc_baseline c)) (sc_baseline c)
    sn l (sc_last_tick c) (capture_buffer l)"
  have step: "ends_well wl (\<lambda>session. session = (sc_session c)\<lparr>ss_last_tick := sn_tick sn\<rparr>)
        (Some (validate_session_delta blake3 sim_schema wl l (take n buf) sn (sc_baseline c) (sc_session c))) \<and>
      client_synced blake3 (length states) \<lparr>sc_baseline = sn,
        sc_session = (sc_session c)\<lparr>ss_last_tick := sn_tick sn\<rparr>, sc_last_tick = last'\<rparr>"
    if enc: "?enc = Some (Inr (n, buf, last'))" for n buf last'
  proof -
    note enc' = enc [unfolded encode_delta_snapshot_for_client_session_def]
    have "session_room (relaxed wl) n" using session_packet_length [OF enc'] room relaxed_room by blast
    moreover have "counts_fit sim_schema (sc_baseline c) sn"
      using synced vis(4) small by (simp add: counts_fit_def client_synced_def sim_schema_parts)
    moreover have "length (sn_entities sn) \<le> max_total_entities_after_apply l"
      using vis(4) room by (simp add: capture_room_def)
    ultimately have send: "sendable sim_schema l (relaxed wl) (rp_sent ?r) sn n" using vis(2) by (simp add: sendable_def)
    have sync: "in_sync blake3 sim_schema ?r" using synced by (simp add: client_synced_def)
    from session_delta_exact [OF sim_schema_exact sync _ send, of codec_scratch_new "capture_buffer l" buf last'] enc'
    obtain p where
      p: "decode_session_packet blake3 sim_schema (sc_session c) (take n buf) (relaxed wl) =
        Inr (p, (sc_session c)\<lparr>ss_last_tick := sn_tick sn\<rparr>)"
      and a: "apply_delta_snapshot_from_packet blake3 sim_schema (sc_baseline c) p l = Inr sn"
      and last': "last' = sn_tick sn" and t: "tick_raw (sn_tick sn) \<noteq> 0" by auto
    from decode_session_packet_sound(5) [OF p] applied_delta_decodes [OF a] obtain dd where
      "\<not> is_full_snapshot (ph_flags (wp_header p))" "is_delta_snapshot (ph_flags (wp_header p))"
      "decode_delta_packet blake3 sim_schema p l = Inr dd" by auto
    with relaxed_session [OF p] a have "ends_well wl (\<lambda>session. session = (sc_session c)\<lparr>ss_last_tick := sn_tick sn\<rparr>)
        (Some (validate_session_delta blake3 sim_schema wl l (take n buf) sn (sc_baseline c) (sc_session c)))"
      by (auto simp: validate_session_delta_def build_decode_output_def context_err_def with_context_def ends_well_def
          size_refusal_def)
    with last' t vis sync show ?thesis by (simp add: client_synced_def in_sync_def)
  qed
  have enc: "ends_well wl (\<lambda>_. True) (map_option (context_err ''encode session delta'' CodecCause) ?enc)"
    by (rule encoder_ends_well) (simp_all add: encode_delta_snapshot_for_client_session_def encode_session_no_panic
        del: not_None_eq)
  have "ends_well wl (client_synced blake3 (length states))
    (try_then (map_option (context_err ''encode session delta'' CodecCause) ?enc) (\<lambda>(n, buf, last_tick).
     try_then (Some (validate_session_delta blake3 sim_schema wl l (take n buf) sn (sc_baseline c) (sc_session c)))
       (\<lambda>session. Some (Inr \<lparr>sc_baseline = sn, sc_session = session, sc_last_tick = last_tick\<rparr>))))"
    by (rule ends_well_then [OF enc]) (auto simp: res_simps dest!: step intro!: ends_well_then)
  then show ?thesis by (simp add: capture_delta_client_def sn Let_def)
qed

section \<open>All clients, all ticks\<close>

lemma capture_full_clients_end_well:
  assumes "\<And>i. i \<in> set ids \<Longrightarrow> ends_well wl P (step i)"
  shows "ends_well wl (\<lambda>cs. length cs = length ids \<and> (\<forall>c \<in> set cs. P c)) (capture_full_clients step ids)"
  using assms
proof (induction ids)
  case (Cons i ids)
  have "ends_well wl (\<lambda>cs. length cs = length ids \<and> (\<forall>c \<in> set cs. P c)) (capture_full_clients step ids)"
    using Cons by simp
  with Cons.prems [of i] show ?case by (auto intro!: ends_well_then)
qed simp

lemma capture_delta_clients_end_well:
  assumes "\<And>i c. i < k + length cs \<Longrightarrow> P c \<Longrightarrow> ends_well wl P (step i c)" and "\<forall>c \<in> set cs. P c"
  shows "ends_well wl (\<lambda>cs'. length cs' = length cs \<and> (\<forall>c \<in> set cs'. P c)) (capture_delta_clients step k cs)"
  using assms
proof (induction cs arbitrary: k)
  case (Cons c cs)
  have "ends_well wl (\<lambda>cs'. length cs' = length cs \<and> (\<forall>c \<in> set cs'. P c)) (capture_delta_clients step (Suc k) cs)"
    using Cons.prems by (intro Cons.IH) simp_all
  moreover have "ends_well wl P (step k c)" using Cons.prems by simp
  ultimately show ?case by (auto intro!: ends_well_then)
qed simp

lemma capture_loop_ends_well:
  assumes room: "capture_room wl l players" and small: "players < 2 ^ 32" and clients: "clients \<le> players"
    and session: "ss_schema_hash session = schema_hash blake3 sim_schema" "ss_last_tick session = SnapshotTick 1"
    and ticks: "\<forall>tick \<in> set ticks. tick \<noteq> 0"
    and world: "world_ok states" "length states = players"
    and captured: "length captured \<le> players" "\<forall>c \<in> set captured. client_synced blake3 players c"
  shows "ends_well wl (\<lambda>cs. \<forall>c \<in> set cs. client_synced blake3 players c)
    (capture_loop blake3 sim_schema wl l burst clients session ticks states state captured)"
  using ticks world captured
proof (induction ticks arbitrary: states state captured)
  case (Cons tick ticks)
  obtain states' state' where step: "step_states states state tick burst = (states', state')" by fastforce
  with step_states_ok [OF Cons.prems(2), of state tick burst] Cons.prems(3)
  have world': "world_ok states'" "length states' = players" using map_eq_imp_length_eq by fastforce+
  let ?now = "if tick = 1 then
      capture_full_clients (capture_full_client blake3 sim_schema wl l states' tick session) [0..<clients]
    else capture_delta_clients (capture_delta_client blake3 sim_schema wl l states' tick) 0 captured"
  have now: "ends_well wl (\<lambda>cs. length cs \<le> players \<and> (\<forall>c \<in> set cs. client_synced blake3 players c)) ?now"
  proof (cases "tick = 1")
    case True
    have "ends_well wl (client_synced blake3 players)
        (capture_full_client blake3 sim_schema wl l states' tick session i)" if "i \<in> set [0..<clients]" for i
      using capture_full_client_ends_well [OF _ world'(1) _ _ _ session, of wl l i tick] room small clients that True
        world'(2) by simp
    then have "ends_well wl (\<lambda>cs. length cs = length [0..<clients] \<and> (\<forall>c \<in> set cs. client_synced blake3 players c)) ?now"
      unfolding True by (simp only: simp_thms if_True) (rule capture_full_clients_end_well)
    then show ?thesis by (rule ends_well_mono) (use clients in simp)
  next
    case False
    have "ends_well wl (client_synced blake3 players)
        (capture_delta_client blake3 sim_schema wl l states' tick i c)"
      if "i < 0 + length captured" "client_synced blake3 players c" for i c
      using capture_delta_client_ends_well [OF _ world'(1) _ _ _, of wl l i blake3 c tick] room small that
        world'(2) Cons.prems(4) by simp
    then have "ends_well wl (\<lambda>cs. length cs = length captured \<and> (\<forall>c \<in> set cs. client_synced blake3 players c)) ?now"
      using False Cons.prems(5) by (simp only: if_False) (rule capture_delta_clients_end_well)
    then show ?thesis by (rule ends_well_mono) (use Cons.prems(4) in simp)
  qed
  have "ends_well wl (\<lambda>cs. \<forall>c \<in> set cs. client_synced blake3 players c)
      (capture_loop blake3 sim_schema wl l burst clients session ticks states' state' cs)"
    if "length cs \<le> players \<and> (\<forall>c \<in> set cs. client_synced blake3 players c)" for cs
    using Cons.IH [of states' cs state'] Cons.prems(1) world' that by simp
  from ends_well_then [OF now this] step show ?case by simp
qed simp

theorem capture_run_ends_well:
  assumes "players \<noteq> 0" and few: "unat players \<le> max_total_entities_after_apply codec_limits_default"
  shows "ends_well limits_default (\<lambda>cs. \<forall>c \<in> set cs. client_synced blake3 (unat players) c)
    (capture_run blake3 players clients ticks seed burst)"
proof -
  let ?l = codec_limits_default and ?wl = limits_default
  have room: "capture_room ?wl ?l (unat players)"
    using few by (simp add: capture_room_def limits_default_def codec_limits_default_def HEADER_SIZE_eq)
  let ?clients = "max (min clients players) 1"
  have clients: "unat ?clients \<le> unat players"
    using assms(1) by (auto simp: max_def min_def word_le_nat_alt unat_gt_0 [symmetric] not_le Suc_le_eq)
  have "unat ticks < 2 ^ 32" "unat players < 2 ^ 32" using unsigned_less [of ticks] unsigned_less [of players] by simp_all
  then have ticks: "\<forall>tick \<in> set (map of_nat [1..<Suc (unat ticks)]). tick \<noteq> (0 :: u32)"
    by (auto dest: arg_cong [of _ _ unat] simp: unat_of_nat_u32)
  obtain states state where init: "init_states players (rng_new seed) = (states, state)" by fastforce
  with world_at_ok [of players seed burst 0] have world: "world_ok states" "length states = unat players" by simp_all
  have "ends_well ?wl (\<lambda>cs. \<forall>c \<in> set cs. client_synced blake3 (unat players) c)
      (try_then (capture_session blake3 sim_schema ?wl ?l seed) (\<lambda>session.
        capture_loop blake3 sim_schema ?wl ?l burst (unat ?clients) session (map of_nat [1..<Suc (unat ticks)])
          states state []))"
    by (rule ends_well_then [OF capture_session_ends_well [OF room]])
      (use room \<open>unat players < 2 ^ 32\<close> clients ticks world in \<open>intro capture_loop_ends_well; simp\<close>)
  then show ?thesis using assms(1) by (simp add: capture_run_def sim_schema_valid init Let_def)
qed

end
