(* ===== verification/Bench_World.thy ===== *)
theory Bench_World
  imports Sim_Steps Graph_Steps
begin

text \<open>
  The benchmark's world (\<^verbatim>\<open>simbench/src/main.rs\<close>): its schema, its initial states and steps, the world
  view that feeds the replication graph, and the updates it derives from two snapshots.  The entity
  states, the random generator and the movement of an entity are those of the reference simulation.
  Comparisons of a random number with an \<^verbatim>\<open>f32\<close> ratio are a parameter.
\<close>

section \<open>Schema\<close>

definition bench_component :: "u32 \<Rightarrow> component_def" where
  "bench_component threshold_q =
    (let threshold = Threshold threshold_q in
     component_def_field (field_def_new (sim_field_id 10) codec_bool)
    (component_def_field (field_def_new (sim_field_id 9) codec_bool)
    (component_def_field (field_def_new (sim_field_id 8) codec_bool)
    (component_def_field (field_def_change threshold (field_def_new (sim_field_id 7) (codec_uint 12)))
    (component_def_field (field_def_change threshold
      (field_def_new (sim_field_id 6) (codec_fixed_point VEL_MIN VEL_MAX VEL_SCALE)))
    (component_def_field (field_def_change threshold
      (field_def_new (sim_field_id 5) (codec_fixed_point VEL_MIN VEL_MAX VEL_SCALE)))
    (component_def_field (field_def_change threshold
      (field_def_new (sim_field_id 4) (codec_fixed_point VEL_MIN VEL_MAX VEL_SCALE)))
    (component_def_field (field_def_change threshold
      (field_def_new (sim_field_id 3) (codec_fixed_point POS_MIN POS_MAX POS_SCALE)))
    (component_def_field (field_def_change threshold
      (field_def_new (sim_field_id 2) (codec_fixed_point POS_MIN POS_MAX POS_SCALE)))
    (component_def_field (field_def_change threshold
      (field_def_new (sim_field_id 1) (codec_fixed_point POS_MIN POS_MAX POS_SCALE)))
      (component_def_new sim_component_id)))))))))))"

definition bench_schema :: "u32 \<Rightarrow> schema" where
  "bench_schema threshold_q = \<lparr>components = [bench_component threshold_q]\<rparr>"

definition bench_schema_result :: "u32 \<Rightarrow> schema option" where
  "bench_schema_result threshold_q =
    (case schema_new [bench_component threshold_q] of Inr s \<Rightarrow> Some s | Inl _ \<Rightarrow> None)"

lemma bench_component_fields: "cd_id (bench_component q) = sim_component_id"
  "length (cd_fields (bench_component q)) = 10" "cd_fields (bench_component q) \<noteq> []"
  by (simp_all add: bench_component_def component_def_field_def component_def_new_def Let_def)

lemma bench_schema_valid: "bench_schema_result q = Some (bench_schema q)"
  by (simp add: bench_schema_result_def bench_schema_def schema_new_def schema_validate_def bench_component_def
      component_def_field_def component_def_new_def sim_component_id_def sim_field_id_def field_def_new_def
      field_def_change_def validate_field_def validate_fixed_point_def codec_bool_def codec_uint_def
      codec_fixed_point_def fixed_point_new_def sim_bounds VEL_SCALE_def POS_SCALE_def Let_def)

section \<open>The world view\<close>

text \<open>\<^verbatim>\<open>expect("entity exists")\<close> panics: \<^const>\<open>None\<close>.\<close>

definition bench_snapshot :: "demo_entity_state list \<Rightarrow> entity_id \<Rightarrow> entity_snapshot option" where
  "bench_snapshot states entity = map_option to_snapshot (find (\<lambda>state. st_id state = entity) states)"

definition bench_update ::
  "demo_entity_state list \<Rightarrow> entity_id \<Rightarrow> component_id list \<Rightarrow> delta_update_entity option" where
  "bench_update states entity dirty_components =
    (if dirty_components = [] then None
     else
       case find (\<lambda>state. st_id state = entity) states of
         None \<Rightarrow> None
       | Some state \<Rightarrow> Some \<lparr>ue_id = st_id state, ue_components =
           [\<lparr>uc_id = sim_component_id, uc_fields =
             [(0, FixedPointV (st_pos state ! 0)), (1, FixedPointV (st_pos state ! 1)),
              (2, FixedPointV (st_pos state ! 2)), (3, FixedPointV (st_vel state ! 0)),
              (4, FixedPointV (st_vel state ! 1)), (5, FixedPointV (st_vel state ! 2)),
              (6, UIntV (ucast (st_yaw state))), (7, BoolV (st_flags state ! 0)),
              (8, BoolV (st_flags state ! 1)), (9, BoolV (st_flags state ! 2))]\<rparr>]\<rparr>)"

text \<open>The view as the graph takes it: it asks for snapshots of entities that exist.\<close>

definition bench_world :: "demo_entity_state list \<Rightarrow> world_view" where
  "bench_world states = \<lparr>wv_snapshot = (\<lambda>entity. the (bench_snapshot states entity)),
    wv_update = bench_update states\<rparr>"

lemma bench_snapshot_exists: "i \<in> st_id ` set states \<Longrightarrow> \<exists>e. bench_snapshot states i = Some e"
  by (cases "find (\<lambda>state. st_id state = i) states") (auto simp: bench_snapshot_def find_None_iff)

lemma bench_world_contract: "world_contract (bench_world states) (st_id ` set states)"
proof
  fix i assume "i \<in> st_id ` set states"
  then obtain st where "find (\<lambda>state. st_id state = i) states = Some st"
    by (cases "find (\<lambda>state. st_id state = i) states") (auto simp: find_None_iff)
  moreover from this have "st_id st = i" by (auto simp: find_Some_iff)
  ultimately show "es_id (wv_snapshot (bench_world states) i) = i"
    by (simp add: bench_world_def bench_snapshot_def to_snapshot_def)
next
  fix i cs u assume "wv_update (bench_world states) i cs = Some u"
  then show "ue_id u = i"
    by (auto simp: bench_world_def bench_update_def find_Some_iff split: if_splits option.splits)
qed

interpretation bench: world_contract "bench_world states" "st_id ` set states"
  by (rule bench_world_contract)

text \<open>Every update of the benchmark passes the validation of the change encoder, in the order it needs.\<close>

lemma bench_update_accepted:
  assumes "bench_update states i cs = Some u" and "10 \<le> max_fields_per_component l" "1 \<le> max_components_per_entity l"
  shows "update_ordered u" and "length (ue_components u) \<le> max_components_per_entity l"
    and "c \<in> set (ue_components u) \<Longrightarrow> update_known (bench_schema q) l c"
proof -
  have "cs \<noteq> []" "find (\<lambda>state. st_id state = i) states \<noteq> None"
    using assms(1) by (auto simp: bench_update_def split: if_splits option.splits)
  then obtain st where "find (\<lambda>state. st_id state = i) states = Some st" by auto
  with \<open>cs \<noteq> []\<close> assms(1) have u: "u = \<lparr>ue_id = st_id st, ue_components =
      [\<lparr>uc_id = sim_component_id, uc_fields =
        [(0, FixedPointV (st_pos st ! 0)), (1, FixedPointV (st_pos st ! 1)), (2, FixedPointV (st_pos st ! 2)),
         (3, FixedPointV (st_vel st ! 0)), (4, FixedPointV (st_vel st ! 1)), (5, FixedPointV (st_vel st ! 2)),
         (6, UIntV (ucast (st_yaw st))), (7, BoolV (st_flags st ! 0)), (8, BoolV (st_flags st ! 1)),
         (9, BoolV (st_flags st ! 2))]\<rparr>]\<rparr>"
    by (simp add: bench_update_def)
  show "update_ordered u" by (simp add: u update_ordered_def)
  show "length (ue_components u) \<le> max_components_per_entity l" using assms(3) by (simp add: u)
  show "c \<in> set (ue_components u) \<Longrightarrow> update_known (bench_schema q) l c"
    using assms(2) by (simp add: u update_known_def bench_schema_def bench_component_fields)
qed

text \<open>
  So the delta of any client passes it, whatever the graph, as long as it tracks only entities that exist.
\<close>

lemma wanted_updates_made:
  "u \<in> set (wanted_updates world entities known rel) \<Longrightarrow> \<exists>i cs. wv_update world i cs = Some u"
proof -
  assume "u \<in> set (wanted_updates world entities known rel)"
  then obtain i where "dirty_update world entities i = Some u" by (auto simp: wanted_updates_def List.map_filter_def)
  then show ?thesis by (auto simp: dirty_update_def split: option.splits if_splits)
qed

lemma bench_delta_accepted:
  assumes build: "build_client_delta ops client (bench_world states) g = (d, g')" and fin: "client_finite g client"
    and tracked: "fset (fmdom (rg_entities g)) \<subseteq> st_id ` set states"
    and l: "10 \<le> max_fields_per_component l" "1 \<le> max_components_per_entity l"
  shows "ensure_entity_ids_sorted (cd_destroys d) = Inr ()" and "ensure_entities_sorted (cd_creates d) = Inr ()"
    and "validate_updates_for_encoding (bench_schema q) (cd_updates d) l (build_component_lookup (bench_schema q)) = Inr ()"
    and "\<forall>u \<in> set (cd_updates d). update_ordered u"
proof -
  have s: "schema_ok (bench_schema q)"
    using bench_schema_valid [of q] schema_new_Inr [of "[bench_component q]" "bench_schema q"]
    by (auto simp: bench_schema_result_def split: sum.splits)
  have world: "world_contract (bench_world states) (fset (fmdom (rg_entities g)))"
    using bench_world_contract [of states] tracked by (auto simp: world_contract_def)
  have sorted: "sorted_wrt (<) (cd_destroys d) \<and> ids_sorted (cd_creates d) \<and> sorted_wrt (<) (map ue_id (cd_updates d)) \<and>
    (\<forall>u \<in> set (cd_updates d). \<exists>i cs. bench_update states i cs = Some u)"
  proof (cases "rg_clients g client")
    case None
    with build show ?thesis by (auto simp: build_unknown_client)
  next
    case (Some state)
    then have fin': "finite (ct_known state)" "finite (rg_removed g)" using fin by (simp_all add: client_finite_def)
    note lists = build_client_delta_lists [where ops = ops and world = "bench_world states", OF Some fin']
    have "cd_updates d = take (max_updates (vw_budget (ct_view state))) (wanted_updates (bench_world states)
        (rg_entities g) (ct_known state) (relevant_entities ops (ct_view state) (rg_entities g)))"
      using build unfolding lists by auto
    then have "\<forall>u \<in> set (cd_updates d). \<exists>i cs. bench_update states i cs = Some u"
      by (auto dest!: in_set_takeD wanted_updates_made) (auto simp: bench_world_def)
    moreover obtain cs where "map es_id (cd_creates d) = cs" "sorted_wrt (<) cs" "sorted_wrt (<) (cd_destroys d)"
      "sorted_wrt (<) (map ue_id (cd_updates d))"
      by (rule client_delta_parts [OF build Some fin world])
    ultimately show ?thesis by simp
  qed
  then show "ensure_entity_ids_sorted (cd_destroys d) = Inr ()" "ensure_entities_sorted (cd_creates d) = Inr ()"
    by (simp_all add: ensure_entity_ids_sorted_Inr ensure_entities_sorted_Inr)
  have accepted: "update_ordered u \<and> length (ue_components u) \<le> max_components_per_entity l \<and>
      (\<forall>c \<in> set (ue_components u). update_known (bench_schema q) l c)" if "u \<in> set (cd_updates d)" for u
  proof -
    from sorted that obtain i cs where "bench_update states i cs = Some u" by metis
    from bench_update_accepted [OF this l] show ?thesis by simp
  qed
  then show "\<forall>u \<in> set (cd_updates d). update_ordered u" by simp
  show "validate_updates_for_encoding (bench_schema q) (cd_updates d) l (build_component_lookup (bench_schema q)) = Inr ()"
    unfolding validate_updates_Inr [OF s] using sorted accepted by simp
qed

section \<open>Initial states and steps\<close>

text \<open>
  \<open>grid\<close> is \<^verbatim>\<open>(players as f64).sqrt().ceil() as u32\<close>, a parameter.  \<^verbatim>\<open>idx / grid\<close> panics when it is
  zero; the loop does not run without players.  The division of an \<^verbatim>\<open>i64\<close> truncates.
\<close>

definition i64_div :: "i64 \<Rightarrow> i64 \<Rightarrow> i64" where
  "i64_div a b = word_of_int (sgn (sint a) * sgn (sint b) * (\<bar>sint a\<bar> div \<bar>sint b\<bar>))"

definition i64_max :: "i64 \<Rightarrow> i64 \<Rightarrow> i64" where
  "i64_max a b = (if sint a < sint b then b else a)"

definition bench_init_state :: "u32 \<Rightarrow> i64 \<Rightarrow> i64 \<Rightarrow> u32 \<Rightarrow> rng \<Rightarrow> demo_entity_state \<times> rng" where
  "bench_init_state grid spacing world_size_q idx state =
    (let i = EntityId (idx + 1);
         row = idx div grid;
         col = idx mod grid;
         base_x = ucast col * spacing - i64_div world_size_q 2;
         base_y = ucast row * spacing - i64_div world_size_q 2;
         (dx, state) = range_i64 (- 50) 50 state;
         (dy, state) = range_i64 (- 50) 50 state;
         (z, state) = range_i64 (- 10000) 10000 state;
         (vel, state) = range_times 3 (- 1000) 1000 state;
         (v, state) = next_u32 state
     in (\<lparr>st_id = i, st_pos = [clamp (base_x + dx) POS_MIN POS_MAX, clamp (base_y + dy) POS_MIN POS_MAX, z],
          st_vel = vel, st_yaw = ucast (v mod 4096), st_flags = [False, False, False]\<rparr>, state))"

fun bench_init_loop :: "u32 \<Rightarrow> i64 \<Rightarrow> i64 \<Rightarrow> u32 list \<Rightarrow> rng \<Rightarrow> demo_entity_state list \<times> rng" where
  "bench_init_loop grid spacing world_size_q [] state = ([], state)"
| "bench_init_loop grid spacing world_size_q (idx # rest) state =
    (let (st, state) = bench_init_state grid spacing world_size_q idx state;
         (sts, state) = bench_init_loop grid spacing world_size_q rest state in (st # sts, state))"

definition bench_init_states :: "u32 \<Rightarrow> u32 \<Rightarrow> rng \<Rightarrow> i64 \<Rightarrow> demo_entity_state list \<times> rng" where
  "bench_init_states grid players state world_size_q =
    (let spacing = i64_max (i64_div world_size_q (ucast (max grid 1))) 1
     in bench_init_loop grid spacing world_size_q (map of_nat [0..<unat players]) state)"

definition step_dense ::
  "demo_entity_state list \<Rightarrow> rng \<Rightarrow> u32 \<Rightarrow> u32 option \<Rightarrow> demo_entity_state list \<times> rng" where
  "step_dense states state tick burst =
    (let burst_now = burst_tick burst tick in step_loop (step_entity burst_now) states state)"

text \<open>\<open>ratio\<close> is \<^verbatim>\<open>(x as f32 / u32::MAX as f32) < ratio\<close>.\<close>

definition idle_axis :: "i64 \<Rightarrow> nat \<Rightarrow> demo_entity_state \<times> rng \<Rightarrow> demo_entity_state \<times> rng" where
  "idle_axis jitter_q axis = (\<lambda>(st, state).
    let (delta, state) = range_i64 (- jitter_q) jitter_q state;
        st = st\<lparr>st_pos := (st_pos st)[axis := clamp (st_pos st ! axis + delta) POS_MIN POS_MAX]\<rparr>;
        (vel_delta, state) = range_i64 (- jitter_q) jitter_q state
    in (st\<lparr>st_vel := (st_vel st)[axis := clamp (st_vel st ! axis + vel_delta) VEL_MIN VEL_MAX]\<rparr>, state))"

text \<open>\<^verbatim>\<open>((yaw as i64 + delta).rem_euclid(4096)) as u16\<close>.\<close>

definition turn_signed :: "i64 \<Rightarrow> demo_entity_state \<Rightarrow> demo_entity_state" where
  "turn_signed delta st = st\<lparr>st_yaw := word_of_int (sint (ucast (st_yaw st) + delta) mod 4096)\<rparr>"

definition step_idle_entity :: "(u32 \<Rightarrow> bool) \<Rightarrow> i64 \<Rightarrow> demo_entity_state \<Rightarrow> rng \<Rightarrow> demo_entity_state \<times> rng" where
  "step_idle_entity ratio jitter_q st state =
    (let (v, state) = next_u32 state in
     if ratio v then
       let (st, state) = fold (idle_axis jitter_q) [0, 1, 2] (st, state);
           (yaw_delta, state) = range_i64 (- jitter_q) jitter_q state
       in (turn_signed yaw_delta st, state)
     else
       let (st, state) = fold step_axis [0, 1, 2] (st, state);
           (v, state) = next_u32 state
       in (turn (v mod 13) st, state))"

definition step_idle ::
  "demo_entity_state list \<Rightarrow> rng \<Rightarrow> (u32 \<Rightarrow> bool) \<Rightarrow> i64 \<Rightarrow> demo_entity_state list \<times> rng" where
  "step_idle states state ratio jitter_q = step_loop (step_idle_entity ratio jitter_q) states state"

definition burst_axis :: "i64 \<Rightarrow> nat \<Rightarrow> demo_entity_state \<times> rng \<Rightarrow> demo_entity_state \<times> rng" where
  "burst_axis amplitude axis = (\<lambda>(st, state).
    let (v, state) = next_u32 state;
        delta = (if v mod 2 = 0 then amplitude else - amplitude)
    in (st\<lparr>st_pos := (st_pos st)[axis := clamp (st_pos st ! axis + delta) POS_MIN POS_MAX]\<rparr>, state))"

definition step_burst_entity :: "(u32 \<Rightarrow> bool) \<Rightarrow> i64 \<Rightarrow> demo_entity_state \<Rightarrow> rng \<Rightarrow> demo_entity_state \<times> rng" where
  "step_burst_entity ratio amplitude st state =
    (let (v, state) = next_u32 state in
     if ratio v then
       let (st, state) = fold (burst_axis amplitude) [0, 1, 2] (st, state)
       in (flip_flag 0 (turn_signed amplitude st), state)
     else (st, state))"

definition step_burst ::
  "demo_entity_state list \<Rightarrow> rng \<Rightarrow> u32 \<Rightarrow> u32 option \<Rightarrow> (u32 \<Rightarrow> bool) \<Rightarrow> i64 \<Rightarrow> demo_entity_state list \<times> rng" where
  "step_burst states state tick burst_every ratio amplitude =
    (let (states, state) = step_dense states state tick None;
         burst_now = burst_tick burst_every tick
     in if \<not> burst_now then (states, state)
        else step_loop (step_burst_entity ratio amplitude) states state)"

datatype scenario = Dense | Idle | Burst | Visibility

record bench_cli =
  bc_scenario :: scenario
  bc_burst_every :: "u32 option"
  bc_idle_ratio :: "u32 \<Rightarrow> bool"
  bc_jitter_amplitude_q :: i64
  bc_burst_fraction :: "u32 \<Rightarrow> bool"
  bc_burst_amplitude_q :: i64

definition bench_step_states ::
  "demo_entity_state list \<Rightarrow> rng \<Rightarrow> u32 \<Rightarrow> bench_cli \<Rightarrow> demo_entity_state list \<times> rng" where
  "bench_step_states states state tick cli =
    (case bc_scenario cli of
       Dense \<Rightarrow> step_dense states state tick (bc_burst_every cli)
     | Visibility \<Rightarrow> step_dense states state tick (bc_burst_every cli)
     | Idle \<Rightarrow> step_idle states state (bc_idle_ratio cli) (bc_jitter_amplitude_q cli)
     | Burst \<Rightarrow> step_burst states state tick (bc_burst_every cli) (bc_burst_fraction cli)
         (bc_burst_amplitude_q cli))"

lemma range_i64_of_one:
  "range_i64 0 0 state = (if odd (fst (next_u32 state)) then 1 else 0, snd (next_u32 state))"
proof -
  obtain v state' where v: "next_u32 state = (v, state')" by fastforce
  have "odd (ucast v :: u64) \<longleftrightarrow> odd v" by (simp add: bit_simps flip: bit_0)
  then have "(ucast v :: u64) mod 2 = (if odd v then 1 else 0)" by (auto simp: mod2_eq_if)
  with v show ?thesis by (simp add: range_i64_def unsigned_abs_def Let_def)
qed

lemma fold_keeps:
  assumes "\<And>axis st state. axis \<in> set axes \<Longrightarrow> keeps_state st (fst (step axis (st, state)))"
  shows "keeps_state st (fst (fold step axes (st, state)))"
  using assms
proof (induction axes arbitrary: st state)
  case (Cons axis axes)
  obtain st1 s1 where one: "step axis (st, state) = (st1, s1)" by fastforce
  have "keeps_state st1 (fst (fold step axes (st1, s1)))" using Cons by simp
  moreover have "keeps_state st st1" using Cons.prems [of axis st state] one by simp
  ultimately show ?case by (simp add: one keeps_trans)
qed simp

lemma idle_axis_keeps: "keeps_state st (fst (idle_axis jitter_q axis (st, state)))"
proof -
  have "keeps_state st (st\<lparr>st_pos := (st_pos st)[axis := clamp v POS_MIN POS_MAX],
      st_vel := (st_vel st)[axis := clamp w VEL_MIN VEL_MAX]\<rparr>)" for v w
    using keeps_trans [OF set_pos_keeps set_vel_keeps, of "clamp v POS_MIN POS_MAX" "clamp w VEL_MIN VEL_MAX" st axis axis]
      clamp_in_bounds [of POS_MIN POS_MAX v] clamp_in_bounds [of VEL_MIN VEL_MAX w] by (simp add: sint_bounds)
  then show ?thesis by (simp add: idle_axis_def split: prod.split)
qed

lemma burst_axis_keeps: "keeps_state st (fst (burst_axis amplitude axis (st, state)))"
  by (auto simp: burst_axis_def sint_bounds Let_def split: prod.split intro!: set_pos_keeps clamp_in_bounds)

lemma turn_signed_keeps: "keeps_state st (turn_signed delta st)"
proof -
  have "(word_of_int (sint (ucast (st_yaw st) + delta) mod 4096) :: u16) < 4096"
    by (simp add: word_less_alt uint_word_of_int)
  then show ?thesis by (simp add: keeps_state_def state_ok_def turn_signed_def)
qed

lemma step_axes_keep: "keeps_state st (fst (fold step_axis [0, 1, 2] (st, state)))"
  by (rule fold_keeps) (auto intro: step_axis_keeps [OF _ prod.collapse [symmetric]])

lemma step_idle_keeps: "keeps_state st (fst (step_idle_entity ratio jitter_q st state))"
proof -
  obtain v s1 where v: "next_u32 state = (v, s1)" by fastforce
  obtain st1 s2 where idle: "fold (idle_axis jitter_q) [0, 1, 2] (st, s1) = (st1, s2)" by fastforce
  obtain st2 s3 where moved: "fold step_axis [0, 1, 2] (st, s1) = (st2, s3)" by fastforce
  have "keeps_state st st1" "keeps_state st st2"
    using fold_keeps [of "[0, 1, 2]" "idle_axis jitter_q" st s1] idle_axis_keeps step_axes_keep [of st s1] idle moved
    by simp_all
  then show ?thesis
    using keeps_trans turn_signed_keeps turn_keeps v idle moved
    by (simp add: step_idle_entity_def Let_def split: prod.split)
qed

lemma step_burst_keeps: "keeps_state st (fst (step_burst_entity ratio amplitude st state))"
proof -
  obtain v s1 where v: "next_u32 state = (v, s1)" by fastforce
  obtain st1 s2 where moved: "fold (burst_axis amplitude) [0, 1, 2] (st, s1) = (st1, s2)" by fastforce
  have "keeps_state st st1"
    using fold_keeps [of "[0, 1, 2]" "burst_axis amplitude" st s1] burst_axis_keeps moved by simp
  then have "keeps_state st (flip_flag 0 (turn_signed amplitude st1))"
    by (rule keeps_trans [OF keeps_trans [OF _ turn_signed_keeps] flip_flag_keeps])
  with v moved show ?thesis by (simp add: step_burst_entity_def Let_def)
qed

lemma step_loop_world:
  assumes "\<And>st state. keeps_state st (fst (step st state))" and "world_ok states"
  shows "world_ok (fst (step_loop step states state)) \<and> map st_id (fst (step_loop step states state)) = map st_id states"
  using step_loop_keeps [of step states state, OF assms(1)] assms(2) by (simp add: world_ok_def)

lemma step_dense_world:
  "world_ok states \<Longrightarrow> world_ok (fst (step_dense states state tick burst)) \<and>
    map st_id (fst (step_dense states state tick burst)) = map st_id states"
  unfolding step_dense_def Let_def by (rule step_loop_world) (rule step_entity_keeps)

theorem bench_step_world:
  assumes "world_ok states"
  shows "world_ok (fst (bench_step_states states state tick cli)) \<and>
    map st_id (fst (bench_step_states states state tick cli)) = map st_id states"
proof -
  have "world_ok (fst (step_burst states state tick burst ratio amplitude)) \<and>
      map st_id (fst (step_burst states state tick burst ratio amplitude)) = map st_id states"
    for burst ratio amplitude
  proof -
    obtain states1 s1 where dense: "step_dense states state tick None = (states1, s1)" by fastforce
    with step_dense_world [OF assms, of state tick None] have "world_ok states1" "map st_id states1 = map st_id states"
      by simp_all
    with step_loop_world [of "step_burst_entity ratio amplitude" states1 s1] step_burst_keeps dense show ?thesis
      by (simp add: step_burst_def)
  qed
  moreover have "world_ok (fst (step_idle states state ratio jitter_q)) \<and>
      map st_id (fst (step_idle states state ratio jitter_q)) = map st_id states" for ratio jitter_q
    unfolding step_idle_def using step_idle_keeps assms by (rule step_loop_world)
  ultimately show ?thesis
    using step_dense_world [OF assms] by (cases "bc_scenario cli") (simp_all add: bench_step_states_def)
qed

end
