(* ===== verification/Bench_Diff.thy ===== *)
theory Bench_Diff
  imports Bench_World Bit_Vec_Writer
begin

text \<open>
  The differences the benchmark takes itself (\<^verbatim>\<open>simbench/src/main.rs\<close>): the dirty mask of the states, the
  update lists it feeds to the change encoder, the naive delta, and the masked difference of the
  \<^verbatim>\<open>LightyearState\<close> baseline with its statistics.  The update lists are compared with the scan of the
  delta encoder.
\<close>

section \<open>Dirty states\<close>

definition state_changed :: "demo_entity_state \<Rightarrow> demo_entity_state \<Rightarrow> bool" where
  "state_changed prev cur \<longleftrightarrow> st_id prev \<noteq> st_id cur \<or> st_pos prev \<noteq> st_pos cur \<or> st_vel prev \<noteq> st_vel cur \<or>
    st_yaw prev \<noteq> st_yaw cur \<or> st_flags prev \<noteq> st_flags cur"

definition build_dirty_mask :: "demo_entity_state list option \<Rightarrow> demo_entity_state list \<Rightarrow> bool list" where
  "build_dirty_mask prev_states states =
    (case prev_states of
       None \<Rightarrow> replicate (length states) True
     | Some prev \<Rightarrow>
         if length prev \<noteq> length states then replicate (length states) True
         else map2 state_changed prev states)"

lemma dirty_mask_exact:
  "length prev = length states \<Longrightarrow> i < length states \<Longrightarrow>
    build_dirty_mask (Some prev) states ! i \<longleftrightarrow> prev ! i \<noteq> states ! i"
  by (cases "prev ! i"; cases "states ! i") (auto simp: build_dirty_mask_def state_changed_def)

section \<open>Dirty updates\<close>

datatype bench_error =
    BaselineDestroyed
  | BaselineCreated
  | ComponentPresence component_id
  | MissingComponent
  | FieldTypeMismatch field_id
  | NaiveWrite bit_error
  | SessionTick u32 u32
  | BenchCodec codec_error
  | BenchDecode decode_error
  | BenchHeader encode_error
  | BenchSerialize string
  | StateLengths

fun dirty_fields :: "usize \<Rightarrow> field_value list \<Rightarrow> field_value list \<Rightarrow> (usize \<times> field_value) list" where
  "dirty_fields idx (b # bs) (c # cs) =
    (if b \<noteq> c then (idx, c) # dirty_fields (Suc idx) bs cs else dirty_fields (Suc idx) bs cs)"
| "dirty_fields idx bs cs = []"

fun dirty_components ::
  "entity_snapshot \<Rightarrow> entity_snapshot \<Rightarrow> component_def list \<Rightarrow> bench_error + delta_update_component list" where
  "dirty_components b c [] = Inr []"
| "dirty_components b c (component # rest) =
    (let base = find_component b (cd_id component);
         cur = find_component c (cd_id component)
     in if (base \<noteq> None) \<noteq> (cur \<noteq> None) then Inl (ComponentPresence (cd_id component))
        else
          and_then (dirty_components b c rest) (\<lambda>us.
            Inr (case (base, cur) of
                (Some base, Some cur) \<Rightarrow>
                  let fs = dirty_fields 0 (cs_fields base) (cs_fields cur)
                  in if fs = [] then us else \<lparr>uc_id = cd_id component, uc_fields = fs\<rparr> # us
              | _ \<Rightarrow> us)))"

fun dirty_updates_loop ::
  "schema \<Rightarrow> entity_snapshot list \<Rightarrow> entity_snapshot list \<Rightarrow> bench_error + delta_update_entity list" where
  "dirty_updates_loop s (b # bs) (c # cs) =
    (if entity_raw (es_id b) < entity_raw (es_id c) then Inl BaselineDestroyed
     else if entity_raw (es_id b) > entity_raw (es_id c) then Inl BaselineCreated
     else
       and_then (dirty_components b c (components s)) (\<lambda>us.
       and_then (dirty_updates_loop s bs cs) (\<lambda>rest.
         Inr (if us = [] then rest else \<lparr>ue_id = es_id c, ue_components = us\<rparr> # rest))))"
| "dirty_updates_loop s (b # bs) [] = Inl BaselineDestroyed"
| "dirty_updates_loop s [] (c # cs) = Inl BaselineCreated"
| "dirty_updates_loop s [] [] = Inr []"

definition build_dirty_updates :: "schema \<Rightarrow> snapshot \<Rightarrow> snapshot \<Rightarrow> bench_error + delta_update_entity list" where
  "build_dirty_updates s baseline current = dirty_updates_loop s (sn_entities baseline) (sn_entities current)"

text \<open>Where values are compared exactly, the list is the one that the delta encoder's own scan finds.\<close>

lemma exact_changed: "field_changed c f a b = Inr v \<Longrightarrow> exact_field (f, b) \<Longrightarrow> v \<longleftrightarrow> a \<noteq> b"
  by (cases b; cases a; cases "fd_change f") (auto simp: field_changed_def exact_field_def)

lemma dirty_fields_picked:
  "field_mask_loop c fs as bs slots = Inr m \<Longrightarrow> length as = length fs \<Longrightarrow> length bs = length fs \<Longrightarrow>
    length slots = length fs \<Longrightarrow> list_all exact_field (zip fs bs) \<Longrightarrow>
    dirty_fields i as bs = picked i m bs \<and> (list_ex (\<lambda>b. b) m \<longleftrightarrow> dirty_fields i as bs \<noteq> [])"
proof (induction c fs as bs slots arbitrary: m i rule: field_mask_loop.induct)
  case (1 c f fs a as b bs slot slots)
  from "1.prems"(1) obtain v m' where v: "field_changed c f a b = Inr v"
    and m': "field_mask_loop c fs as bs slots = Inr m'" "m = v # m'"
    by (auto elim!: and_then_E)
  have "v \<longleftrightarrow> a \<noteq> b" using exact_changed [OF v] "1.prems"(5) by simp
  moreover have "dirty_fields (Suc i) as bs = picked (Suc i) m' bs \<and>
      (list_ex (\<lambda>b. b) m' \<longleftrightarrow> dirty_fields (Suc i) as bs \<noteq> [])"
    using "1.prems" by (intro "1.IH" [OF v m'(1)]) simp_all
  ultimately show ?case using m'(2) by auto
qed auto

lemma dirty_components_scan:
  "entity_changes l base cur cs = Inr us \<Longrightarrow>
    (\<And>d c. d \<in> set cs \<Longrightarrow> find_component cur (cd_id d) = Some c \<Longrightarrow>
      list_all exact_field (zip (cd_fields d) (cs_fields c))) \<Longrightarrow>
    dirty_components base cur cs = Inr us"
proof (induction cs arbitrary: us)
  case (Cons d cs)
  from Cons.prems(1) obtain u us' where u: "component_change l base cur d = Inr u"
    and us': "entity_changes l base cur cs = Inr us'" and us: "us = (case u of Some u \<Rightarrow> u # us' | None \<Rightarrow> us')"
    by (auto simp: res_simps)
  have IH: "dirty_components base cur cs = Inr us'" using Cons.IH [OF us'] Cons.prems(2) by simp
  from u obtain pair where pair: "matched_component d base cur l = Inr pair"
    by (auto simp: component_change_def res_simps)
  show ?case
  proof (cases pair)
    case None
    with pair have "find_component base (cd_id d) = None" "find_component cur (cd_id d) = None"
      by (simp_all add: matched_component_None)
    with IH u us pair None show ?thesis by (simp add: component_change_def)
  next
    case (Some bc)
    obtain b c where bc: "bc = (b, c)" by fastforce
    with pair Some have found: "find_component base (cd_id d) = Some b" "find_component cur (cd_id d) = Some c"
      "check_field_counts d b c l = Inr ()" by (simp_all add: matched_component_Some)
    from u pair Some bc obtain m where m: "changed_mask d b c = Inr m"
      and u': "u = (if list_ex (\<lambda>b. b) m then Some \<lparr>uc_id = cd_id d, uc_fields = picked 0 m (cs_fields c)\<rparr> else None)"
      by (auto simp: component_change_def res_simps)
    have "dirty_fields 0 (cs_fields b) (cs_fields c) = picked 0 m (cs_fields c) \<and>
        (list_ex (\<lambda>b. b) m \<longleftrightarrow> dirty_fields 0 (cs_fields b) (cs_fields c) \<noteq> [])"
      using m found(3) Cons.prems(2) [OF _ found(2)]
      by (intro dirty_fields_picked [of "cd_id d" "cd_fields d" _ _ "replicate (length (cd_fields d)) False"])
         (simp_all add: changed_mask_def compute_field_mask_into_def check_field_counts_Inr)
    with IH found us u' show ?thesis by (simp add: Let_def)
  qed
qed simp

theorem dirty_updates_scan:
  assumes "diff_updates s l bs cs = Inr us" and "map es_id bs = map es_id cs"
    and "\<forall>c \<in> set cs. exact_values s c"
  shows "dirty_updates_loop s bs cs = Inr us"
  using assms
proof (induction s bs cs arbitrary: us rule: dirty_updates_loop.induct)
  case (1 s b bs c cs)
  then have id: "es_id b = es_id c" and ids: "map es_id bs = map es_id cs" by simp_all
  from "1.prems"(1) id obtain updated where up: "entity_has_updates s b c l = Inr updated"
    and rest: "(if updated then and_then (entity_changes l b c (components s)) (\<lambda>us.
         and_then (diff_updates s l bs cs) (\<lambda>rest. Inr (\<lparr>ue_id = es_id c, ue_components = us\<rparr> # rest)))
       else diff_updates s l bs cs) = Inr us"
    by (auto simp: res_simps)
  have "\<exists>ch us'. entity_changes l b c (components s) = Inr ch \<and> diff_updates s l bs cs = Inr us' \<and>
      us = (if ch = [] then us' else \<lparr>ue_id = es_id c, ue_components = ch\<rparr> # us')"
  proof (cases updated)
    case True
    with rest obtain ch us' where ch: "entity_changes l b c (components s) = Inr ch" "diff_updates s l bs cs = Inr us'"
      "us = \<lparr>ue_id = es_id c, ue_components = ch\<rparr> # us'" by (auto simp: res_simps)
    then show ?thesis using entity_has_updates_changes [OF up ch(1)] True by auto
  next
    case False
    with rest entity_has_no_updates [of s b c l] up show ?thesis by auto
  qed
  then obtain ch us' where ch: "entity_changes l b c (components s) = Inr ch" and us': "diff_updates s l bs cs = Inr us'"
    and us: "us = (if ch = [] then us' else \<lparr>ue_id = es_id c, ue_components = ch\<rparr> # us')" by auto
  have comps: "dirty_components b c (components s) = Inr ch"
    using exact_valuesD [of s c] "1.prems"(3) by (intro dirty_components_scan [OF ch]) simp
  have "dirty_updates_loop s bs cs = Inr us'"
    using "1.IH" [OF _ _ comps us' ids] id "1.prems"(3) by simp
  with comps id us show ?case by simp
qed auto

text \<open>Success alone already says that no entity appeared or vanished.\<close>

lemma dirty_updates_same_ids: "dirty_updates_loop s bs cs = Inr us \<Longrightarrow> map es_id bs = map es_id cs"
proof (induction s bs cs arbitrary: us rule: dirty_updates_loop.induct)
  case (1 s b bs c cs)
  from "1.prems" have "\<not> entity_raw (es_id b) < entity_raw (es_id c)" "\<not> entity_raw (es_id b) > entity_raw (es_id c)"
    by (auto split: if_splits)
  moreover from this "1.prems" obtain ch us' where "dirty_components b c (components s) = Inr ch"
    "dirty_updates_loop s bs cs = Inr us'" by (auto simp: res_simps)
  ultimately show ?case using "1.IH" by (auto simp: not_less)
qed auto

end
