(* ===== verification/Bench_Baselines.thy ===== *)
theory Bench_Baselines
  imports Bench_Diff
begin

text \<open>
  The encodings the benchmark compares with (\<^verbatim>\<open>simbench/src/main.rs\<close>): the naive varint delta, the masked
  difference of \<^verbatim>\<open>LightyearState\<close>, the size of a session frame, and the statistics that are kept of them.
  The serialisers of third-party crates are not modelled.
\<close>

section \<open>The naive delta\<close>

fun bench_field_differs :: "field_def \<Rightarrow> field_value \<Rightarrow> field_value \<Rightarrow> bench_error + bool" where
  "bench_field_differs f (BoolV a) (BoolV b) = Inr (a \<noteq> b)"
| "bench_field_differs f (UIntV a) (UIntV b) = Inr (a \<noteq> b)"
| "bench_field_differs f (SIntV a) (SIntV b) = Inr (a \<noteq> b)"
| "bench_field_differs f (VarUIntV a) (VarUIntV b) = Inr (a \<noteq> b)"
| "bench_field_differs f (VarSIntV a) (VarSIntV b) = Inr (a \<noteq> b)"
| "bench_field_differs f (FixedPointV a) (FixedPointV b) = Inr (a \<noteq> b)"
| "bench_field_differs f a b = Inl (FieldTypeMismatch (fd_id f))"

fun bench_field_exceeds_threshold ::
  "field_def \<Rightarrow> field_value \<Rightarrow> field_value \<Rightarrow> u32 \<Rightarrow> bench_error + bool" where
  "bench_field_exceeds_threshold f (FixedPointV a) (FixedPointV b) q = Inr (unsigned_abs (a - b) > ucast q)"
| "bench_field_exceeds_threshold f (UIntV a) (UIntV b) q = Inr (abs_diff a b > ucast q)"
| "bench_field_exceeds_threshold f (SIntV a) (SIntV b) q = Inr (unsigned_abs (a - b) > ucast q)"
| "bench_field_exceeds_threshold f (VarUIntV a) (VarUIntV b) q = Inr (abs_diff a b > ucast q)"
| "bench_field_exceeds_threshold f (VarSIntV a) (VarSIntV b) q = Inr (unsigned_abs (a - b) > ucast q)"
| "bench_field_exceeds_threshold f (BoolV a) (BoolV b) q = Inr (a \<noteq> b)"
| "bench_field_exceeds_threshold f a b q = Inl (FieldTypeMismatch (fd_id f))"

definition bench_field_changed :: "field_def \<Rightarrow> field_value \<Rightarrow> field_value \<Rightarrow> bench_error + bool" where
  "bench_field_changed f baseline current =
    (case fd_change f of
       Always \<Rightarrow> bench_field_differs f baseline current
     | Threshold q \<Rightarrow> bench_field_exceeds_threshold f baseline current q)"

fun diff_fields_loop ::
  "usize \<Rightarrow> field_def list \<Rightarrow> field_value list \<Rightarrow> field_value list \<Rightarrow>
    bench_error + (usize \<times> field_value) list" where
  "diff_fields_loop idx (f # fs) (b # bs) (c # cs) =
    and_then (bench_field_changed f b c) (\<lambda>changed.
    and_then (diff_fields_loop (Suc idx) fs bs cs) (\<lambda>rest.
      Inr (if changed then (idx, c) # rest else rest)))"
| "diff_fields_loop idx fs bs cs = Inr []"

definition diff_entity_fields ::
  "schema \<Rightarrow> entity_snapshot \<Rightarrow> entity_snapshot \<Rightarrow> bench_error + (usize \<times> field_value) list" where
  "diff_entity_fields s baseline current =
    (case (es_components baseline, es_components current) of
       (base # _, cur # _) \<Rightarrow>
         (case components s of
            [] \<Rightarrow> Inl MissingComponent
          | component # _ \<Rightarrow> diff_fields_loop 0 (cd_fields component) (cs_fields base) (cs_fields cur))
     | _ \<Rightarrow> Inr [])"

fun changed_entities_loop ::
  "schema \<Rightarrow> entity_snapshot list \<Rightarrow> entity_snapshot list \<Rightarrow>
    bench_error + (u32 \<times> (usize \<times> field_value) list) list" where
  "changed_entities_loop s baseline [] = Inr []"
| "changed_entities_loop s baseline (e # es) =
    (case find (\<lambda>b. es_id b = es_id e) baseline of
       None \<Rightarrow> changed_entities_loop s baseline es
     | Some base \<Rightarrow>
         and_then (diff_entity_fields s base e) (\<lambda>changed.
         and_then (changed_entities_loop s baseline es) (\<lambda>rest.
           Inr (if changed = [] then rest else (entity_raw (es_id e), changed) # rest))))"

text \<open>Every value goes out as a 32-bit varint: the casts drop the upper half of a 64-bit value.\<close>

definition naive_varint :: "field_value \<Rightarrow> u32" where
  "naive_varint v =
    (case v of BoolV b \<Rightarrow> (if b then 1 else 0) | UIntV n \<Rightarrow> ucast n | VarUIntV n \<Rightarrow> ucast n
     | SIntV n \<Rightarrow> zigzag_encode (ucast n) | VarSIntV n \<Rightarrow> zigzag_encode (ucast n)
     | FixedPointV n \<Rightarrow> zigzag_encode (ucast n))"

definition write_field_value_naive :: "field_value \<Rightarrow> bit_vec_writer \<Rightarrow> bit_error + bit_vec_writer" where
  "write_field_value_naive v w =
    (case v of
       BoolV b \<Rightarrow> vec_write_varu32 (if b then 1 else 0) w
     | UIntV n \<Rightarrow> vec_write_varu32 (ucast n) w
     | VarUIntV n \<Rightarrow> vec_write_varu32 (ucast n) w
     | SIntV n \<Rightarrow> vec_write_vars32 (ucast n) w
     | VarSIntV n \<Rightarrow> vec_write_vars32 (ucast n) w
     | FixedPointV n \<Rightarrow> vec_write_vars32 (ucast n) w)"

definition write_naive_field :: "usize \<times> field_value \<Rightarrow> bit_vec_writer \<Rightarrow> bit_error + bit_vec_writer" where
  "write_naive_field = (\<lambda>(idx, v) w. and_then (vec_write_varu32 (of_nat idx) w) (write_field_value_naive v))"

definition write_naive_entity ::
  "u32 \<times> (usize \<times> field_value) list \<Rightarrow> bit_vec_writer \<Rightarrow> bit_error + bit_vec_writer" where
  "write_naive_entity = (\<lambda>(i, fs) w.
    and_then (vec_write_varu32 i w) (\<lambda>w.
    and_then (vec_write_varu32 (of_nat (length fs)) w) (try_fold write_naive_field fs)))"

definition encode_naive_delta :: "schema \<Rightarrow> snapshot \<Rightarrow> snapshot \<Rightarrow> bench_error + usize" where
  "encode_naive_delta s baseline current =
    and_then (changed_entities_loop s (sn_entities baseline) (sn_entities current)) (\<lambda>entries.
    map_err NaiveWrite
      (and_then (vec_write_varu32 (of_nat (length entries)) (vec_align_to_byte vec_writer_new)) (\<lambda>w.
       and_then (try_fold write_naive_entity entries w) (\<lambda>w. Inr (length (vec_finish w))))))"

text \<open>The field comparison is the delta encoder's.\<close>

lemma bench_field_changed_agrees: "bench_field_changed f a b = Inr v \<longleftrightarrow> field_changed c f a b = Inr v"
  by (cases a; cases b; cases "fd_change f") (simp_all add: bench_field_changed_def field_changed_def)

text \<open>Nothing but a difference of types can stop it, and its size is that of the varints.\<close>

definition varint_size :: "u32 \<Rightarrow> nat" where
  "varint_size v = length (varint_encode v)"

definition naive_entity_size :: "u32 \<times> (usize \<times> field_value) list \<Rightarrow> nat" where
  "naive_entity_size = (\<lambda>(i, fs). varint_size i + varint_size (of_nat (length fs)) +
    (\<Sum>(idx, v) \<leftarrow> fs. varint_size (of_nat idx) + varint_size (naive_varint v)))"

definition wrote :: "bit_vec_writer \<Rightarrow> nat \<Rightarrow> bit_error + bit_vec_writer \<Rightarrow> bool" where
  "wrote w n r \<longleftrightarrow> (\<exists>w'. r = Inr w' \<and> vec_ok w' \<and> vw_pos w' mod 8 = 0 \<and>
    length (vw_buf w') = length (vw_buf w) + n)"

lemma wrote_varint:
  "vec_ok w \<Longrightarrow> vw_pos w mod 8 = 0 \<Longrightarrow> wrote w (varint_size x) (vec_write_varu32 x w)"
  using vec_ok_append [of w "varint_encode x"] by (simp add: wrote_def vec_write_varu32_append varint_size_def)

lemma wrote_value:
  "vec_ok w \<Longrightarrow> vw_pos w mod 8 = 0 \<Longrightarrow> wrote w (varint_size (naive_varint v)) (write_field_value_naive v w)"
  by (cases v) (simp_all add: write_field_value_naive_def naive_varint_def vec_write_vars32_def wrote_varint)

lemma wrote_then:
  assumes "wrote w n r" and "\<And>w'. vec_ok w' \<Longrightarrow> vw_pos w' mod 8 = 0 \<Longrightarrow> wrote w' k (f w')"
  shows "wrote w (n + k) (and_then r f)"
proof -
  from assms(1) obtain w' where "r = Inr w'" "vec_ok w'" "vw_pos w' mod 8 = 0"
    "length (vw_buf w') = length (vw_buf w) + n" by (auto simp: wrote_def)
  with assms(2) [of w'] show ?thesis by (auto simp: wrote_def)
qed

lemma wrote_fold:
  assumes "\<And>x w. vec_ok w \<Longrightarrow> vw_pos w mod 8 = 0 \<Longrightarrow> wrote w (size_of x) (f x w)"
  shows "vec_ok w \<Longrightarrow> vw_pos w mod 8 = 0 \<Longrightarrow> wrote w (\<Sum>x \<leftarrow> xs. size_of x) (try_fold f xs w)"
proof (induction xs arbitrary: w)
  case Nil
  then show ?case by (simp add: wrote_def)
next
  case (Cons x xs)
  then show ?case using wrote_then [OF assms [OF Cons.prems], of "\<Sum>x \<leftarrow> xs. size_of x"] by simp
qed

lemma wrote_entity:
  "vec_ok w \<Longrightarrow> vw_pos w mod 8 = 0 \<Longrightarrow> wrote w (naive_entity_size e) (write_naive_entity e w)"
proof -
  assume w: "vec_ok w" "vw_pos w mod 8 = 0"
  obtain i fs where e: "e = (i, fs)" by fastforce
  have field: "wrote w ((\<lambda>(idx, v). varint_size (of_nat idx) + varint_size (naive_varint v)) f) (write_naive_field f w)"
    if "vec_ok w" "vw_pos w mod 8 = 0" for f w
    using wrote_then [OF wrote_varint [OF that] wrote_value] by (simp add: write_naive_field_def split: prod.split)
  show ?thesis
    unfolding e naive_entity_size_def write_naive_entity_def prod.case add.assoc
    by (intro wrote_then wrote_varint wrote_fold field w)
qed

theorem naive_delta_size:
  assumes "changed_entities_loop s (sn_entities baseline) (sn_entities current) = Inr entries"
  shows "encode_naive_delta s baseline current =
    Inr (varint_size (of_nat (length entries)) + (\<Sum>e \<leftarrow> entries. naive_entity_size e))"
proof -
  have start: "vec_align_to_byte vec_writer_new = vec_writer_new" "vec_ok vec_writer_new" "vw_pos vec_writer_new mod 8 = 0"
    "vw_buf vec_writer_new = []"
    by (simp_all add: vec_align_to_byte_def vec_writer_new_def vec_ok_def div_ceil_def)
  have "wrote vec_writer_new (varint_size (of_nat (length entries)) + (\<Sum>e \<leftarrow> entries. naive_entity_size e))
      (and_then (vec_write_varu32 (of_nat (length entries)) vec_writer_new) (try_fold write_naive_entity entries))"
    by (intro wrote_then wrote_varint wrote_fold wrote_entity start(2,3))
  then obtain w' where "and_then (vec_write_varu32 (of_nat (length entries)) vec_writer_new)
      (try_fold write_naive_entity entries) = Inr w'" "vec_ok w'"
      "length (vw_buf w') = varint_size (of_nat (length entries)) + (\<Sum>e \<leftarrow> entries. naive_entity_size e)"
    by (auto simp: wrote_def start(4))
  then show ?thesis using assms by (auto simp: encode_naive_delta_def start(1) res_simps vec_ok_finish)
qed


section \<open>The masked difference\<close>

record lightyear_state =
  ly_pos :: "i64 list"
  ly_vel :: "i64 list"
  ly_yaw :: u16
  ly_flags :: "bool list"

definition lightyear_state_from :: "demo_entity_state \<Rightarrow> lightyear_state" where
  "lightyear_state_from st =
    \<lparr>ly_pos = st_pos st, ly_vel = st_vel st, ly_yaw = st_yaw st, ly_flags = st_flags st\<rparr>"

datatype lightyear_value = LyFixedPoint i64 | LyUInt u16 | LyBool bool

record lightyear_delta =
  ly_mask :: u16
  ly_values :: "lightyear_value list"

text \<open>
  The ten blocks of \<^verbatim>\<open>diff\<close> and of \<^verbatim>\<open>apply_diff\<close>, one for each bit of the mask: the value that the block
  compares and pushes, and the assignment that it makes, which ignores a value of another kind.
\<close>

definition ly_value :: "nat \<Rightarrow> lightyear_state \<Rightarrow> lightyear_value" where
  "ly_value k st =
    (if k < 3 then LyFixedPoint (ly_pos st ! k)
     else if k < 6 then LyFixedPoint (ly_vel st ! (k - 3))
     else if k = 6 then LyUInt (ly_yaw st)
     else LyBool (ly_flags st ! (k - 7)))"

definition ly_assign :: "nat \<Rightarrow> lightyear_value \<Rightarrow> lightyear_state \<Rightarrow> lightyear_state" where
  "ly_assign k v st =
    (if k < 3 then (case v of LyFixedPoint n \<Rightarrow> st\<lparr>ly_pos := (ly_pos st)[k := n]\<rparr> | _ \<Rightarrow> st)
     else if k < 6 then (case v of LyFixedPoint n \<Rightarrow> st\<lparr>ly_vel := (ly_vel st)[k - 3 := n]\<rparr> | _ \<Rightarrow> st)
     else if k = 6 then (case v of LyUInt n \<Rightarrow> st\<lparr>ly_yaw := n\<rparr> | _ \<Rightarrow> st)
     else (case v of LyBool b \<Rightarrow> st\<lparr>ly_flags := (ly_flags st)[k - 7 := b]\<rparr> | _ \<Rightarrow> st))"

definition ly_diff_block :: "lightyear_state \<Rightarrow> lightyear_state \<Rightarrow> nat \<Rightarrow> u16 \<times> lightyear_value list \<Rightarrow>
    u16 \<times> lightyear_value list" where
  "ly_diff_block self new k = (\<lambda>(mbits, vs).
    if ly_value k self \<noteq> ly_value k new then (mbits OR push_bit k 1, vs @ [ly_value k new]) else (mbits, vs))"

definition ly_diff :: "lightyear_state \<Rightarrow> lightyear_state \<Rightarrow> lightyear_delta" where
  "ly_diff self new =
    (case fold (ly_diff_block self new) [0, 1, 2, 3, 4, 5, 6, 7, 8, 9] (0, []) of
       (mbits, vs) \<Rightarrow> \<lparr>ly_mask = mbits, ly_values = vs\<rparr>)"

definition ly_apply_block :: "u16 \<Rightarrow> nat \<Rightarrow> lightyear_state \<times> lightyear_value list \<Rightarrow>
    lightyear_state \<times> lightyear_value list" where
  "ly_apply_block mbits k = (\<lambda>(st, vs).
    if mbits AND push_bit k 1 \<noteq> 0 then (case vs of [] \<Rightarrow> (st, []) | v # vs \<Rightarrow> (ly_assign k v st, vs)) else (st, vs))"

definition ly_apply_diff :: "lightyear_delta \<Rightarrow> lightyear_state \<Rightarrow> lightyear_state" where
  "ly_apply_diff delta st =
    fst (fold (ly_apply_block (ly_mask delta)) [0, 1, 2, 3, 4, 5, 6, 7, 8, 9] (st, ly_values delta))"

definition ly_shape :: "lightyear_state \<Rightarrow> bool" where
  "ly_shape st \<longleftrightarrow> length (ly_pos st) = 3 \<and> length (ly_vel st) = 3 \<and> length (ly_flags st) = 3"

lemma and_push_bit: "m AND 2 ^ k \<noteq> 0 \<longleftrightarrow> bit m k" for m :: u16
  by (simp add: and_exp_eq_0_iff_not_bit)

lemma ly_apply_block:
  "ly_apply_block mbits k (st, vs) =
    (if bit mbits k then (case vs of [] \<Rightarrow> (st, []) | v # vs \<Rightarrow> (ly_assign k v st, vs)) else (st, vs))"
  by (simp add: ly_apply_block_def and_push_bit)

lemma ly_diff_blocks:
  "\<forall>k \<in> set ks. k < 16 \<Longrightarrow> distinct ks \<Longrightarrow> fold (ly_diff_block self new) ks (mbits, vs) = (mbits', vs') \<Longrightarrow>
    (\<forall>j. bit mbits' j \<longleftrightarrow> bit mbits j \<or> j \<in> set ks \<and> ly_value j self \<noteq> ly_value j new) \<and>
    vs' = vs @ map (\<lambda>k. ly_value k new) (filter (\<lambda>k. ly_value k self \<noteq> ly_value k new) ks)"
proof (induction ks arbitrary: mbits vs)
  case (Cons k ks)
  obtain m v where block: "ly_diff_block self new k (mbits, vs) = (m, v)" by fastforce
  then have "(\<forall>j. bit m j \<longleftrightarrow> bit mbits j \<or> j = k \<and> ly_value k self \<noteq> ly_value k new) \<and>
      v = vs @ (if ly_value k self \<noteq> ly_value k new then [ly_value k new] else [])"
    using Cons.prems(1) by (auto simp: ly_diff_block_def bit_or_iff bit_exp_iff split: if_splits)
  with Cons.IH [of m v] Cons.prems block show ?case by auto
qed simp

lemma ly_assign_value:
  "ly_shape st \<Longrightarrow> k < 10 \<Longrightarrow> j < 10 \<Longrightarrow>
    ly_value j (ly_assign k (ly_value k new) st) = (if j = k then ly_value k new else ly_value j st)"
  by (auto simp: ly_value_def ly_assign_def ly_shape_def nth_list_update)

lemma ly_assign_shape: "ly_shape st \<Longrightarrow> ly_shape (ly_assign k v st)"
  by (simp add: ly_shape_def ly_assign_def split: lightyear_value.split)

lemma ly_apply_blocks:
  "ly_shape st \<Longrightarrow> \<forall>k \<in> set ks. k < 10 \<Longrightarrow> distinct ks \<Longrightarrow>
    fold (ly_apply_block mbits) ks (st, map (\<lambda>k. ly_value k new) (filter (\<lambda>k. bit mbits k) ks)) = (st', vs') \<Longrightarrow>
    ly_shape st' \<and> (\<forall>j < 10. ly_value j st' = (if j \<in> set ks \<and> bit mbits j then ly_value j new else ly_value j st))"
proof (induction ks arbitrary: st)
  case (Cons k ks)
  show ?case
  proof (cases "bit mbits k")
    case True
    let ?st = "ly_assign k (ly_value k new) st"
    have "fold (ly_apply_block mbits) ks (?st, map (\<lambda>k. ly_value k new) (filter (\<lambda>k. bit mbits k) ks)) = (st', vs')"
      using Cons.prems(4) True by (simp add: ly_apply_block)
    from Cons.IH [OF ly_assign_shape [OF Cons.prems(1)] _ _ this] Cons.prems(2,3)
    show ?thesis using True ly_assign_value [OF Cons.prems(1)] by auto
  next
    case False
    then have "fold (ly_apply_block mbits) ks (st, map (\<lambda>k. ly_value k new) (filter (\<lambda>k. bit mbits k) ks)) = (st', vs')"
      using Cons.prems(4) by (simp add: ly_apply_block)
    from Cons.IH [OF Cons.prems(1) _ _ this] Cons.prems(2,3) False show ?thesis by auto
  qed
qed simp

lemma ly_value_ext:
  assumes "ly_shape a" and "ly_shape b" and same: "\<And>k. k < 10 \<Longrightarrow> ly_value k a = ly_value k b"
  shows "a = b"
proof -
  have "ly_pos a = ly_pos b"
  proof (rule nth_equalityI)
    fix i assume "i < length (ly_pos a)"
    then show "ly_pos a ! i = ly_pos b ! i" using same [of i] assms(1) by (simp add: ly_value_def ly_shape_def)
  qed (use assms(1,2) in \<open>simp add: ly_shape_def\<close>)
  moreover have "ly_vel a = ly_vel b"
  proof (rule nth_equalityI)
    fix i assume "i < length (ly_vel a)"
    then show "ly_vel a ! i = ly_vel b ! i" using same [of "i + 3"] assms(1) by (simp add: ly_value_def ly_shape_def)
  qed (use assms(1,2) in \<open>simp add: ly_shape_def\<close>)
  moreover have "ly_flags a = ly_flags b"
  proof (rule nth_equalityI)
    fix i assume "i < length (ly_flags a)"
    then show "ly_flags a ! i = ly_flags b ! i" using same [of "i + 7"] assms(1) by (simp add: ly_value_def ly_shape_def)
  qed (use assms(1,2) in \<open>simp add: ly_shape_def\<close>)
  moreover have "ly_yaw a = ly_yaw b" using same [of 6] by (simp add: ly_value_def)
  ultimately show ?thesis by simp
qed

theorem ly_apply_diff_exact:
  assumes "ly_shape old" and "ly_shape new"
  shows "ly_apply_diff (ly_diff old new) old = new" and "ly_mask (ly_diff old new) = 0 \<longleftrightarrow> old = new"
proof -
  let ?ks = "[0, 1, 2, 3, 4, 5, 6, 7, 8, 9] :: nat list"
  obtain mbits vs where d: "fold (ly_diff_block old new) ?ks (0, []) = (mbits, vs)" by fastforce
  have ks: "\<forall>k \<in> set ?ks. k < 10" "\<forall>k \<in> set ?ks. k < 16" "distinct ?ks" "\<And>j. j < 10 \<Longrightarrow> j \<in> set ?ks" by auto
  note blocks = ly_diff_blocks [OF ks(2,3) d]
  then have bits: "bit mbits j \<longleftrightarrow> j \<in> set ?ks \<and> ly_value j old \<noteq> ly_value j new" for j by simp
  have vs: "vs = map (\<lambda>k. ly_value k new) (filter (\<lambda>k. bit mbits k) ?ks)"
    using blocks filter_cong [OF refl, of ?ks "\<lambda>k. ly_value k old \<noteq> ly_value k new" "bit mbits"] bits by auto
  obtain st' vs' where a: "fold (ly_apply_block mbits) ?ks (old, vs) = (st', vs')" by fastforce
  note applied = ly_apply_blocks [OF assms(1) ks(1,3) a [unfolded vs]]
  then have "ly_value k st' = ly_value k new" if "k < 10" for k using that bits ks(4) by auto
  with applied ly_value_ext assms(2) have "st' = new" by blast
  with d a show "ly_apply_diff (ly_diff old new) old = new" by (simp add: ly_diff_def ly_apply_diff_def)
  have "mbits = 0 \<longleftrightarrow> (\<forall>k. \<not> bit mbits k)" by (auto intro: bit_eqI)
  also have "\<dots> \<longleftrightarrow> (\<forall>k < 10. ly_value k old = ly_value k new)" unfolding bits using ks(1,4) by blast
  also have "\<dots> \<longleftrightarrow> old = new" using ly_value_ext [OF assms] by auto
  finally show "ly_mask (ly_diff old new) = 0 \<longleftrightarrow> old = new" using d by (simp add: ly_diff_def)
qed


section \<open>Statistics\<close>

record encoder_stats =
  sa_sizes :: "u64 list"
  sa_encode_us :: "u64 list"
  sa_total_bytes :: u64
  sa_count :: u32
  sa_max_encode_us :: u64
  sa_max_encode_bytes :: u64
  sa_max_encode_tick :: "u32 option"

definition encoder_stats_default :: encoder_stats where
  "encoder_stats_default =
    \<lparr>sa_sizes = [], sa_encode_us = [], sa_total_bytes = 0, sa_count = 0, sa_max_encode_us = 0,
     sa_max_encode_bytes = 0, sa_max_encode_tick = None\<rparr>"

definition add_with_tick :: "u64 \<Rightarrow> u64 \<Rightarrow> u32 \<Rightarrow> encoder_stats \<Rightarrow> encoder_stats" where
  "add_with_tick bytes us tick st =
    (let st = st\<lparr>sa_total_bytes := sa_total_bytes st + bytes, sa_count := sa_count st + 1,
           sa_sizes := sa_sizes st @ [bytes]\<rparr>;
         st = (if us > 0 then st\<lparr>sa_encode_us := sa_encode_us st @ [us]\<rparr> else st)
     in if us > sa_max_encode_us st then
          st\<lparr>sa_max_encode_us := us, sa_max_encode_bytes := bytes, sa_max_encode_tick := Some tick\<rparr>
        else st)"

definition stats_add :: "u64 \<Rightarrow> u64 \<Rightarrow> encoder_stats \<Rightarrow> encoder_stats" where
  "stats_add bytes us st = add_with_tick bytes us 0 st"

text \<open>\<open>rank\<close> is \<^verbatim>\<open>((len as f64) * 0.95).ceil() as usize\<close>, a parameter.\<close>

definition p95 :: "(usize \<Rightarrow> usize) \<Rightarrow> u64 list \<Rightarrow> u64" where
  "p95 rank values =
    (let values = sort values;
         idx = min (rank (length values) - 1) (length values - 1)
     in values ! idx)"

record encoder_summary =
  su_delta_count :: u32
  su_delta_bytes_total :: u64
  su_delta_avg :: u64
  su_delta_p95 :: u64
  su_encode_us_avg :: u64
  su_encode_us_p95 :: u64

text \<open>The vectors are sorted in place; the summary does not depend on their order.\<close>

definition stats_finalize :: "(usize \<Rightarrow> usize) \<Rightarrow> encoder_stats \<Rightarrow> encoder_summary" where
  "stats_finalize rank st =
    \<lparr>su_delta_count = sa_count st, su_delta_bytes_total = sa_total_bytes st,
     su_delta_avg = (if sa_count st > 0 then sa_total_bytes st div ucast (sa_count st) else 0),
     su_delta_p95 = (if sa_sizes st = [] then 0 else p95 rank (sa_sizes st)),
     su_encode_us_avg = (if sa_encode_us st = [] then 0
       else sum_list (sa_encode_us st) div of_nat (length (sa_encode_us st))),
     su_encode_us_p95 = (if sa_encode_us st = [] then 0 else p95 rank (sa_encode_us st))\<rparr>"

datatype budget_error = OverP95 u64 u64 | OverAverage u64 u64

definition assert_budgets :: "u64 option \<Rightarrow> u64 option \<Rightarrow> encoder_summary \<Rightarrow> budget_error + unit" where
  "assert_budgets max_p95 max_avg sdec =
    and_then (case max_p95 of
        Some limit \<Rightarrow> if su_delta_p95 sdec > limit then Inl (OverP95 (su_delta_p95 sdec) limit) else Inr ()
      | None \<Rightarrow> Inr ()) (\<lambda>_.
    case max_avg of
        Some limit \<Rightarrow> if su_delta_avg sdec > limit then Inl (OverAverage (su_delta_avg sdec) limit) else Inr ()
      | None \<Rightarrow> Inr ())"

lemma p95_member: "values \<noteq> [] \<Longrightarrow> p95 rank values \<in> set values"
proof -
  assume "values \<noteq> []"
  then have "min (rank (length values) - 1) (length values - 1) < length (sort values)"
    by (cases "length values") auto
  from nth_mem [OF this] show ?thesis by (simp add: p95_def Let_def)
qed

text \<open>At least as many values as the rank says are at most the percentile.\<close>

lemma p95_rank:
  assumes "values \<noteq> []" and "0 < rank (length values)" "rank (length values) \<le> length values"
  shows "rank (length values) \<le> length (filter (\<lambda>v. v \<le> p95 rank values) values)"
proof -
  let ?n = "rank (length values)" and ?vs = "sort values"
  have p: "p95 rank values = ?vs ! (?n - 1)" using assms by (simp add: p95_def Let_def)
  have "v \<le> p95 rank values" if v: "v \<in> set (take ?n ?vs)" for v
  proof -
    from v obtain i where "i < ?n" "v = ?vs ! i" using assms(3) by (auto simp: in_set_conv_nth)
    then show ?thesis unfolding p using assms(3) by (simp add: sorted_nth_mono)
  qed
  then have "filter (\<lambda>v. v \<le> p95 rank values) (take ?n ?vs) = take ?n ?vs" by (simp add: filter_id_conv)
  moreover have "length (take ?n ?vs) = ?n" using assms(3) by simp
  ultimately have "?n \<le> length (filter (\<lambda>v. v \<le> p95 rank values) ?vs)"
    by (metis append_take_drop_id filter_append le_add1 length_append)
  moreover have "length (filter P ?vs) = length (filter P values)" for P
    by (simp add: filter_sort)
  ultimately show ?thesis by simp
qed

text \<open>What the statistics hold after a run: every packet is counted, and the slowest one is remembered.\<close>

abbreviation stats_run :: "(u64 \<times> u64 \<times> u32) list \<Rightarrow> encoder_stats" where
  "stats_run run \<equiv> fold (\<lambda>(bytes, us, tick). add_with_tick bytes us tick) run encoder_stats_default"

lemma add_with_tick_fields:
  "sa_sizes (add_with_tick b us t st) = sa_sizes st @ [b]" "sa_total_bytes (add_with_tick b us t st) = sa_total_bytes st + b"
  "sa_count (add_with_tick b us t st) = sa_count st + 1" "sa_max_encode_us (add_with_tick b us t st) = max us (sa_max_encode_us st)"
  "sa_max_encode_bytes (add_with_tick b us t st) = (if us > sa_max_encode_us st then b else sa_max_encode_bytes st)"
  "sa_max_encode_tick (add_with_tick b us t st) = (if us > sa_max_encode_us st then Some t else sa_max_encode_tick st)"
  by (cases "us > sa_max_encode_us st"; cases "us > 0"; simp add: add_with_tick_def Let_def)+

theorem stats_of_run:
  shows "sa_sizes (stats_run run) = map fst run" and "sa_total_bytes (stats_run run) = sum_list (map fst run)"
    and "sa_count (stats_run run) = of_nat (length run)"
    and "\<forall>(bytes, us, tick) \<in> set run. us \<le> sa_max_encode_us (stats_run run)"
    and "case sa_max_encode_tick (stats_run run) of
        Some tick \<Rightarrow> (sa_max_encode_bytes (stats_run run), sa_max_encode_us (stats_run run), tick) \<in> set run
      | None \<Rightarrow> sa_max_encode_us (stats_run run) = 0"
proof -
  show "sa_sizes (stats_run run) = map fst run" "sa_total_bytes (stats_run run) = sum_list (map fst run)"
    "sa_count (stats_run run) = of_nat (length run)"
    by (induction run rule: rev_induct) (auto simp: encoder_stats_default_def add_with_tick_fields add.commute)
  show "\<forall>(bytes, us, tick) \<in> set run. us \<le> sa_max_encode_us (stats_run run)"
    by (induction run rule: rev_induct) (auto simp: add_with_tick_fields le_max_iff_disj)
  show "case sa_max_encode_tick (stats_run run) of
        Some tick \<Rightarrow> (sa_max_encode_bytes (stats_run run), sa_max_encode_us (stats_run run), tick) \<in> set run
      | None \<Rightarrow> sa_max_encode_us (stats_run run) = 0"
  proof (induction run rule: rev_induct)
    case (snoc x run)
    obtain bytes us tick where x: "x = (bytes, us, tick)" by (metis prod_cases3)
    show ?case
    proof (cases "us > sa_max_encode_us (stats_run run)")
      case True
      then show ?thesis by (simp add: x add_with_tick_fields)
    next
      case False
      with snoc show ?thesis by (simp add: x add_with_tick_fields max.absorb2 split: option.splits)
    qed
  qed (simp add: encoder_stats_default_def)
qed

end
