(* ===== verification/Bench_Visibility.thy ===== *)
theory Bench_Visibility
  imports Bench_Baselines Change_Packets
begin

text \<open>
  The visibility scenario of the benchmark (\<^verbatim>\<open>simbench/src/main.rs\<close>): every tick the replication graph is
  told the positions and the dirty states, and each client's delta is built and encoded.  The conversion
  \<^verbatim>\<open>as f32\<close> is a parameter, like the arithmetic of the graph; so are the size that the bincode crate
  gives and the times that are measured.
\<close>

section \<open>The loop over the clients\<close>

definition position_of :: "(i64 \<Rightarrow> 'f) \<Rightarrow> demo_entity_state \<Rightarrow> 'f vec3" where
  "position_of of_i64 st =
    \<lparr>v_x = of_i64 (st_pos st ! 0), v_y = of_i64 (st_pos st ! 1), v_z = of_i64 (st_pos st ! 2)\<rparr>"

text \<open>The filter of the baseline snapshots: two dimensions, in wrapping \<^verbatim>\<open>i64\<close> arithmetic.\<close>

definition within_radius :: "i64 \<Rightarrow> demo_entity_state \<Rightarrow> demo_entity_state \<Rightarrow> bool" where
  "within_radius radius_sq observer st \<longleftrightarrow>
    (let dx = st_pos st ! 0 - st_pos observer ! 0;
         dy = st_pos st ! 1 - st_pos observer ! 1
     in sint (dx * dx + dy * dy) \<le> sint radius_sq)"

record per_client_stats =
  pc_clients :: u32
  pc_sdec :: encoder_stats
  pc_naive :: encoder_stats
  pc_full_bincode_total :: u64

definition per_client_stats_new :: "u32 \<Rightarrow> per_client_stats" where
  "per_client_stats_new clients =
    \<lparr>pc_clients = clients, pc_sdec = encoder_stats_default, pc_naive = encoder_stats_default,
     pc_full_bincode_total = 0\<rparr>"

text \<open>
  One round of \<^verbatim>\<open>run_visibility\<close>.  \<open>bincode\<close> is \<^verbatim>\<open>encode_bincode_snapshot\<close>, which rests on a third-party
  serialiser, and \<open>clock\<close> gives the two times that the round measures; the printout of a breakdown is off.
\<close>

definition visibility_client ::
  "'f f32_ops \<Rightarrow> (i64 \<Rightarrow> 'f) \<Rightarrow> (u8 list \<Rightarrow> u8 list) \<Rightarrow> (demo_entity_state list \<Rightarrow> bench_error + usize) \<Rightarrow>
    (nat \<Rightarrow> u64 \<times> u64) \<Rightarrow> schema \<Rightarrow> session_encoder \<Rightarrow> demo_entity_state list \<Rightarrow> u32 \<Rightarrow> i64 \<Rightarrow> nat \<Rightarrow>
    per_client_stats \<Rightarrow> snapshot \<Rightarrow> 'f replication_graph \<Rightarrow>
    (bench_error + per_client_stats \<times> snapshot \<times> 'f replication_graph) option" where
  "visibility_client ops of_i64 blake3 bincode clock s session states tick radius_q idx stats baseline graph =
    (if states = [] then None
     else
       let radius_sq = radius_q * radius_q;
           encode_buf = replicate (max (max_section_bytes (se_limits session)) HEADER_SIZE * 4) 0;
           observer = states ! (idx mod length states);
           client = ClientId (of_nat idx);
           graph = graph_upsert_client client
             (client_view_new (position_of of_i64 observer) (of_i64 radius_q)) graph;
           relevant = filter (within_radius radius_sq observer) states;
           snapshot = build_snapshot (SnapshotTick tick) relevant
       in try_then (Some (bincode relevant)) (\<lambda>full.
            let stats = stats\<lparr>pc_full_bincode_total := pc_full_bincode_total stats + of_nat full\<rparr>;
                (delta, graph) = build_client_delta ops client (bench_world states) graph
            in if tick > 1 then
                 try_then (map_option (map_err BenchCodec)
                   (encode_delta_from_changes blake3 session (SnapshotTick tick) (sn_tick baseline)
                     (cd_creates delta) (cd_destroys delta) (cd_updates delta) encode_buf)) (\<lambda>(delta_bytes, encode_buf).
                 let stats = stats\<lparr>pc_sdec := stats_add (of_nat delta_bytes) (fst (clock idx)) (pc_sdec stats)\<rparr> in
                 Some (and_then (encode_naive_delta s baseline snapshot) (\<lambda>naive_bytes.
                   Inr (stats\<lparr>pc_naive := stats_add (of_nat naive_bytes) (snd (clock idx)) (pc_naive stats)\<rparr>,
                     snapshot, graph))))
               else Some (Inr (stats, snapshot, graph))))"

fun run_visibility ::
  "'f f32_ops \<Rightarrow> (i64 \<Rightarrow> 'f) \<Rightarrow> (u8 list \<Rightarrow> u8 list) \<Rightarrow> (demo_entity_state list \<Rightarrow> bench_error + usize) \<Rightarrow>
    (nat \<Rightarrow> u64 \<times> u64) \<Rightarrow> schema \<Rightarrow> session_encoder \<Rightarrow> demo_entity_state list \<Rightarrow> u32 \<Rightarrow> i64 \<Rightarrow> nat \<Rightarrow>
    snapshot list \<Rightarrow> per_client_stats \<Rightarrow> 'f replication_graph \<Rightarrow>
    (bench_error + per_client_stats \<times> snapshot list \<times> 'f replication_graph) option" where
  "run_visibility ops of_i64 blake3 bincode clock s session states tick radius_q idx [] stats graph =
    Some (Inr (stats, [], graph))"
| "run_visibility ops of_i64 blake3 bincode clock s session states tick radius_q idx (baseline # rest) stats graph =
    try_then (visibility_client ops of_i64 blake3 bincode clock s session states tick radius_q idx stats baseline graph)
      (\<lambda>(stats, snapshot, graph).
    try_then (run_visibility ops of_i64 blake3 bincode clock s session states tick radius_q (Suc idx) rest stats graph)
      (\<lambda>(stats, snapshots, graph). Some (Inr (stats, snapshot # snapshots, graph))))"

definition observe_state ::
  "(i64 \<Rightarrow> 'f) \<Rightarrow> demo_entity_state \<times> bool \<Rightarrow> 'f replication_graph \<Rightarrow> 'f replication_graph" where
  "observe_state of_i64 = (\<lambda>(st, dirty) graph.
    graph_update_entity (st_id st) (position_of of_i64 st) (if dirty then [sim_component_id] else []) graph)"

text \<open>The part of a tick of \<^verbatim>\<open>main\<close> that concerns the graph.\<close>

definition visibility_tick ::
  "'f f32_ops \<Rightarrow> (i64 \<Rightarrow> 'f) \<Rightarrow> (u8 list \<Rightarrow> u8 list) \<Rightarrow> (demo_entity_state list \<Rightarrow> bench_error + usize) \<Rightarrow>
    (nat \<Rightarrow> u64 \<times> u64) \<Rightarrow> schema \<Rightarrow> session_encoder \<Rightarrow> demo_entity_state list option \<Rightarrow> demo_entity_state list \<Rightarrow>
    u32 \<Rightarrow> i64 \<Rightarrow> snapshot list \<Rightarrow> per_client_stats \<Rightarrow> 'f replication_graph \<Rightarrow>
    (bench_error + per_client_stats \<times> snapshot list \<times> 'f replication_graph) option" where
  "visibility_tick ops of_i64 blake3 bincode clock s session last_states states tick radius_q baselines stats graph =
    (let graph = fold (observe_state of_i64) (zip states (build_dirty_mask last_states states)) graph
     in try_then (run_visibility ops of_i64 blake3 bincode clock s session states tick radius_q 0 baselines stats graph)
          (\<lambda>(stats, snapshots, graph).
            Some (Inr (stats, snapshots, graph_clear_removed (graph_clear_dirty graph)))))"

section \<open>No panic, and a graph that tracks the states\<close>

text \<open>A panic-free computation, with one rule for each way to build one.\<close>

definition returns :: "'a option \<Rightarrow> bool" where
  "returns m \<longleftrightarrow> m \<noteq> None"

lemma returns_rules:
  shows "returns (Some x)"
    and "returns m \<Longrightarrow> (\<And>x. m = Some (Inr x) \<Longrightarrow> returns (f x)) \<Longrightarrow> returns (try_then m f)"
    and "returns m \<Longrightarrow> returns (map_option h m)"
    and "returns a \<Longrightarrow> returns b \<Longrightarrow> returns (if P then a else b)"
    and "(\<And>x y. p = (x, y) \<Longrightarrow> returns (g x y)) \<Longrightarrow> returns (case p of (x, y) \<Rightarrow> g x y)"
    and "(z = None \<Longrightarrow> returns a) \<Longrightarrow> (\<And>y. z = Some y \<Longrightarrow> returns (k y)) \<Longrightarrow>
      returns (case z of None \<Rightarrow> a | Some y \<Rightarrow> k y)"
  by (auto simp: returns_def try_then_None split: prod.splits option.splits)

lemma changes_return: "returns (encode_delta_from_changes blake3 session tick bt cs ds us out)"
  using change_lists_no_panic by (simp add: returns_def encode_delta_from_changes_def)

lemma visibility_client_returns:
  assumes "states \<noteq> []"
  shows "returns (visibility_client ops of_i64 blake3 bincode clock s session states tick radius_q idx stats baseline graph)"
  unfolding visibility_client_def Let_def if_not_P [OF assms] by (intro returns_rules changes_return)

lemma run_visibility_returns:
  assumes "states \<noteq> [] \<or> baselines = []"
  shows "returns (run_visibility ops of_i64 blake3 bincode clock s session states tick radius_q idx baselines stats graph)"
  using assms
proof (induction baselines arbitrary: idx stats graph)
  case (Cons b bs)
  then have "states \<noteq> []" by simp
  with Cons.IH show ?case unfolding run_visibility.simps by (intro returns_rules visibility_client_returns) simp_all
qed (simp add: returns_rules(1))

lemma visibility_tick_returns:
  "states \<noteq> [] \<or> baselines = [] \<Longrightarrow>
    returns (visibility_tick ops of_i64 blake3 bincode clock s session prev states tick radius_q baselines stats graph)"
  unfolding visibility_tick_def Let_def by (intro returns_rules run_visibility_returns)

definition tracked :: "'f replication_graph \<Rightarrow> entity_id set" where
  "tracked g = fset (fmdom (rg_entities g))"

lemma tracked_observed: "tracked (observe_state of_i64 (st, dirty) g) \<subseteq> insert (st_id st) (tracked g)"
  by (auto simp: observe_state_def graph_update_entity_def tracked_def Let_def)

lemma tracked_observed_all:
  "tracked (fold (observe_state of_i64) (zip states mbits) g) \<subseteq> st_id ` set states \<union> tracked g"
proof (induction states arbitrary: mbits g)
  case (Cons st states)
  show ?case
  proof (cases mbits)
    case (Cons m ms)
    then show ?thesis using Cons.IH [of ms "observe_state of_i64 (st, m) g"] tracked_observed [of of_i64 st m g] by auto
  qed auto
qed simp

lemma tracked_client:
  assumes "visibility_client ops of_i64 blake3 bincode clock s session states tick radius_q idx st b g =
      Some (Inr (st', b', g'))"
  shows "tracked g' = tracked g"
proof -
  let ?g = "graph_upsert_client (ClientId (of_nat idx))
    (client_view_new (position_of of_i64 (states ! (idx mod length states))) (of_i64 radius_q)) g"
  obtain d g1 where build: "build_client_delta ops (ClientId (of_nat idx)) (bench_world states) ?g = (d, g1)"
    by fastforce
  with assms have "g' = g1"
    by (auto simp: visibility_client_def Let_def res_simps split: if_splits)
  with build_client_delta_frame(2) [OF build] show ?thesis
    by (simp add: tracked_def graph_upsert_client_def split: option.split)
qed

text \<open>
  The delta that is encoded for a client passes the validation of the change encoder, whatever the graph,
  as long as the graph tracks only states that exist.
\<close>

theorem visibility_delta_accepted:
  fixes graph :: "'f replication_graph" and client view
  defines "after \<equiv> graph_upsert_client client view graph"
  assumes "build_client_delta ops client (bench_world states) after = (d, graph')"
    and "graph_ok graph" and "tracked graph \<subseteq> st_id ` set states"
    and "10 \<le> max_fields_per_component l" "1 \<le> max_components_per_entity l"
  shows "ensure_entity_ids_sorted (cd_destroys d) = Inr ()" and "ensure_entities_sorted (cd_creates d) = Inr ()"
    and "validate_updates_for_encoding (bench_schema q) (cd_updates d) l (build_component_lookup (bench_schema q)) = Inr ()"
    and "\<forall>u \<in> set (cd_updates d). update_ordered u" and "tracked graph' = tracked graph"
proof -
  have same: "rg_entities after = rg_entities graph"
    by (simp add: after_def graph_upsert_client_def split: option.split)
  have "client_finite after client"
    using assms(3) by (auto simp: after_def graph_ok_def client_finite_def graph_upsert_client_def split: option.splits)
  note accepted = bench_delta_accepted [OF assms(2) this _ assms(5,6)]
  have "fset (fmdom (rg_entities after)) \<subseteq> st_id ` set states" using assms(4) same by (simp add: tracked_def)
  from accepted [OF this] show "ensure_entity_ids_sorted (cd_destroys d) = Inr ()"
    "ensure_entities_sorted (cd_creates d) = Inr ()"
    "validate_updates_for_encoding (bench_schema q) (cd_updates d) l (build_component_lookup (bench_schema q)) = Inr ()"
    "\<forall>u \<in> set (cd_updates d). update_ordered u" by simp_all
  show "tracked graph' = tracked graph" using build_client_delta_frame(2) [OF assms(2)] same by (simp add: tracked_def)
qed

section \<open>The first tick\<close>

text \<open>
  On the first tick the delta is built and not encoded: the client counts as knowing the entities in it,
  although no packet has told it about them.
\<close>

theorem first_tick_not_sent:
  assumes "visibility_client ops of_i64 blake3 bincode clock s session states 1 radius_q idx stats baseline graph =
      Some (Inr (stats', snapshot, graph'))"
    and "build_client_delta ops (ClientId (of_nat idx)) (bench_world states)
      (graph_upsert_client (ClientId (of_nat idx))
        (client_view_new (position_of of_i64 (states ! (idx mod length states))) (of_i64 radius_q)) graph) = (d, g1)"
  shows "pc_sdec stats' = pc_sdec stats" and "graph' = g1"
  using assms by (auto simp: visibility_client_def Let_def res_simps split: if_splits)

end
