(* ===== verification/Bench_Dirty.thy ===== *)
theory Bench_Dirty
  imports Bench_Baselines Change_Packets
begin

text \<open>
  The packets that the benchmark makes of two snapshots (\<^verbatim>\<open>simbench/src/main.rs\<close>): the full snapshot and
  its compact header, the delta of the scan, and the delta of a list of dirty updates.  The dirty updates
  compare values exactly, so their packet takes the baseline to the current snapshot whatever the
  thresholds of the schema, which the scan's packet does not.
\<close>

section \<open>The encoders\<close>

definition bench_buffer :: "codec_limits \<Rightarrow> u8 list" where
  "bench_buffer limits = replicate (max (max_section_bytes limits) HEADER_SIZE * 4) 0"

text \<open>\<^verbatim>\<open>buf.truncate(bytes)\<close> after an encoder's success.\<close>

definition truncated :: "(codec_error + usize \<times> u8 list) option \<Rightarrow> (bench_error + u8 list) option" where
  "truncated r = map_option (\<lambda>m. map_err BenchCodec (map_ok (\<lambda>(bytes, buf). take bytes buf) m)) r"

definition bench_encode_full ::
  "(u8 list \<Rightarrow> u8 list) \<Rightarrow> schema \<Rightarrow> snapshot \<Rightarrow> codec_limits \<Rightarrow> (bench_error + u8 list) option" where
  "bench_encode_full blake3 s snapshot limits =
    truncated (encode_full_snapshot blake3 s (sn_tick snapshot) (sn_entities snapshot) limits (bench_buffer limits))"

text \<open>The session is changed in place; it is returned with the size.\<close>

definition encode_full_snapshot_session_header ::
  "snapshot \<Rightarrow> session_state \<Rightarrow> usize \<Rightarrow> (bench_error + usize \<times> session_state) option" where
  "encode_full_snapshot_session_header snapshot session full_bytes_len =
    (let payload_len = full_bytes_len - HEADER_SIZE;
         tick = tick_raw (sn_tick snapshot);
         last_tick = tick_raw (ss_last_tick session)
     in if tick \<le> last_tick then Some (Inl (SessionTick tick last_tick))
        else
          let tick_delta = tick - last_tick; baseline_delta = tick in
          try_then (map_option (map_err BenchHeader)
            (encode_session_header (replicate SESSION_MAX_HEADER_SIZE 0) session_flags_full_snapshot
              tick_delta baseline_delta (of_nat payload_len))) (\<lambda>(header_len, header_buf).
          Some (Inr (header_len + payload_len, session\<lparr>ss_last_tick := sn_tick snapshot\<rparr>))))"

definition encode_delta_with_scratch ::
  "(u8 list \<Rightarrow> u8 list) \<Rightarrow> schema \<Rightarrow> snapshot \<Rightarrow> snapshot \<Rightarrow> codec_limits \<Rightarrow> codec_scratch \<Rightarrow>
    (bench_error + u8 list) option" where
  "encode_delta_with_scratch blake3 s baseline current limits scratch =
    truncated (encode_delta_snapshot_with_scratch blake3 s (sn_tick current) (sn_tick baseline) baseline current
      limits scratch (bench_buffer limits))"

definition encode_dirty_delta ::
  "(u8 list \<Rightarrow> u8 list) \<Rightarrow> session_encoder \<Rightarrow> snapshot_tick \<Rightarrow> snapshot_tick \<Rightarrow> delta_update_entity list \<Rightarrow>
    (bench_error + u8 list) option" where
  "encode_dirty_delta blake3 session tick baseline_tick updates =
    (let limits = se_limits session in
     truncated (encode_delta_from_changes blake3 session tick baseline_tick [] [] updates (bench_buffer limits)))"

lemma truncated_Inr: "truncated r = Some (Inr bytes) \<longleftrightarrow> (\<exists>n buf. r = Some (Inr (n, buf)) \<and> bytes = take n buf)"
  by (auto simp: truncated_def map_err_Inr_iff map_ok_Inr_iff)

lemma truncated_None [simp]: "truncated r = None \<longleftrightarrow> r = None"
  by (simp add: truncated_def)

section \<open>What the dirty updates do\<close>

lemma dirty_fields_assign:
  "length bs = length cs \<Longrightarrow>
    assign_fields i (dirty_fields (length pre) bs cs) (pre @ bs) = Inr (pre @ cs)"
proof (induction bs cs arbitrary: pre rule: list_induct2)
  case (Cons b bs c cs)
  from Cons.IH [of "pre @ [c]"] show ?case by simp
qed simp

lemma dirty_fields_empty: "length bs = length cs \<Longrightarrow> dirty_fields i bs cs = [] \<Longrightarrow> bs = cs"
  by (induction i bs cs rule: dirty_fields.induct) (auto split: if_splits)

lemma dirty_fields_sorted:
  "sorted_wrt (<) (map fst (dirty_fields i bs cs)) \<and> (\<forall>f \<in> set (dirty_fields i bs cs). i \<le> fst f)"
  by (induction i bs cs rule: dirty_fields.induct) (auto simp: Suc_le_eq less_imp_le)

lemma update_component_at:
  "\<forall>c \<in> set pre. cs_id c \<noteq> uc_id u \<Longrightarrow> cs_id x = uc_id u \<Longrightarrow>
    assign_fields (uc_id u) (uc_fields u) (cs_fields x) = Inr vs \<Longrightarrow>
    update_component eid u (pre @ x # rest) = Inr (pre @ x\<lparr>cs_fields := vs\<rparr> # rest)"
  by (induction pre) auto

text \<open>The components of an entity that the schema's components find, in schema order.\<close>

abbreviation found_components :: "component_def list \<Rightarrow> entity_snapshot \<Rightarrow> component_snapshot list" where
  "found_components ds e \<equiv> List.map_filter (\<lambda>d. find_component e (cd_id d)) ds"

definition same_shape :: "schema \<Rightarrow> entity_snapshot \<Rightarrow> entity_snapshot \<Rightarrow> bool" where
  "same_shape s b c \<longleftrightarrow> (\<forall>d \<in> set (components s). \<forall>x y. find_component b (cd_id d) = Some x \<longrightarrow>
    find_component c (cd_id d) = Some y \<longrightarrow> length (cs_fields x) = length (cs_fields y))"

lemma dirty_components_Cons:
  assumes "dirty_components b c (d # ds) = Inr us"
  obtains us' where "dirty_components b c ds = Inr us'"
    and "find_component b (cd_id d) = None" "find_component c (cd_id d) = None" "us = us'"
  | us' x y where "dirty_components b c ds = Inr us'"
    and "find_component b (cd_id d) = Some x" "find_component c (cd_id d) = Some y"
    and "us = (if dirty_fields 0 (cs_fields x) (cs_fields y) = [] then us'
      else \<lparr>uc_id = cd_id d, uc_fields = dirty_fields 0 (cs_fields x) (cs_fields y)\<rparr> # us')"
  using assms by (cases "find_component b (cd_id d)"; cases "find_component c (cd_id d)") (auto simp: Let_def res_simps)

lemma dirty_components_apply:
  assumes "dirty_components b c ds = Inr us" and "distinct (map cd_id ds)"
    and "cs_id ` set pre \<inter> cd_id ` set ds = {}"
    and "\<And>d x y. d \<in> set ds \<Longrightarrow> find_component b (cd_id d) = Some x \<Longrightarrow>
      find_component c (cd_id d) = Some y \<Longrightarrow> length (cs_fields x) = length (cs_fields y)"
  shows "try_fold (update_component eid) us (pre @ found_components ds b) = Inr (pre @ found_components ds c)"
  using assms
proof (induction ds arbitrary: us pre)
  case (Cons d ds)
  have IH: "try_fold (update_component eid) us' (p @ found_components ds b) = Inr (p @ found_components ds c)"
    if us': "dirty_components b c ds = Inr us'" and p: "cs_id ` set p \<inter> cd_id ` set ds = {}" for us' p
  proof (rule Cons.IH [OF us' _ p])
    show "length (cs_fields x) = length (cs_fields y)"
      if "d' \<in> set ds" "find_component b (cd_id d') = Some x" "find_component c (cd_id d') = Some y" for d' x y
      using that by (intro Cons.prems(4) [of d']) simp_all
  qed (use Cons.prems(2) in simp)
  from Cons.prems(1) show ?case
  proof (cases rule: dirty_components_Cons)
    case (1 us')
    with IH Cons.prems(3) show ?thesis by (simp add: List.map_filter_simps)
  next
    case (2 us' x y)
    have ids: "cs_id x = cd_id d" "cs_id y = cd_id d" using find_component_id 2(2,3) by auto
    have len: "length (cs_fields x) = length (cs_fields y)" using Cons.prems(4) [OF _ 2(2,3)] by simp
    let ?fs = "dirty_fields 0 (cs_fields x) (cs_fields y)"
    have "cs_id ` set (pre @ [y]) \<inter> cd_id ` set ds = {}" using Cons.prems(2,3) ids by auto
    from IH [OF 2(1) this]
    have rest: "try_fold (update_component eid) us' (pre @ y # found_components ds b) =
        Inr (pre @ y # found_components ds c)" by simp
    show ?thesis
    proof (cases "?fs = []")
      case True
      with dirty_fields_empty [OF len] ids have "x = y" by simp
      with True rest 2 show ?thesis by (simp add: List.map_filter_simps)
    next
      case False
      have "assign_fields (cd_id d) ?fs (cs_fields x) = Inr (cs_fields y)"
        using dirty_fields_assign [OF len, of "cd_id d" "[]"] by simp
      moreover have "x\<lparr>cs_fields := cs_fields y\<rparr> = y" using ids by simp
      moreover have "\<forall>z \<in> set pre. cs_id z \<noteq> cd_id d" using Cons.prems(3) by (auto simp: image_iff)
      ultimately have "update_component eid \<lparr>uc_id = cd_id d, uc_fields = ?fs\<rparr> (pre @ x # found_components ds b) =
          Inr (pre @ y # found_components ds b)"
        using update_component_at [of pre "\<lparr>uc_id = cd_id d, uc_fields = ?fs\<rparr>" x "cs_fields y" eid] ids by simp
      with False rest 2 show ?thesis by (simp add: List.map_filter_simps)
    qed
  qed
qed (simp add: List.map_filter_simps)

lemma dirty_components_empty:
  assumes "dirty_components b c ds = Inr []" and "distinct (map cd_id ds)"
    and "\<And>d x y. d \<in> set ds \<Longrightarrow> find_component b (cd_id d) = Some x \<Longrightarrow>
      find_component c (cd_id d) = Some y \<Longrightarrow> length (cs_fields x) = length (cs_fields y)"
  shows "found_components ds b = found_components ds c"
  using dirty_components_apply [OF assms(1,2), of "[]"] assms(3) by simp

lemma dirty_components_ordered:
  "dirty_components b c ds = Inr us \<Longrightarrow> sorted_wrt (<) (map cd_id ds) \<Longrightarrow>
    sorted_wrt (<) (map uc_id us) \<and> uc_id ` set us \<subseteq> cd_id ` set ds \<and>
    (\<forall>u \<in> set us. sorted_wrt (<) (map fst (uc_fields u)))"
proof (induction ds arbitrary: us)
  case (Cons d ds)
  show ?case
  proof (rule dirty_components_Cons [OF Cons.prems(1)])
    fix us' x y
    assume us': "dirty_components b c ds = Inr us'" and "us = (if dirty_fields 0 (cs_fields x) (cs_fields y) = []
      then us' else \<lparr>uc_id = cd_id d, uc_fields = dirty_fields 0 (cs_fields x) (cs_fields y)\<rparr> # us')"
    with Cons.IH [OF us'] Cons.prems(2) dirty_fields_sorted show ?thesis by (fastforce split: if_splits)
  qed (use Cons in auto)
qed simp

lemma dirty_components_length: "dirty_components b c ds = Inr us \<Longrightarrow> length us \<le> length ds"
proof (induction ds arbitrary: us)
  case (Cons d ds)
  show ?case by (rule dirty_components_Cons [OF Cons.prems]) (use Cons.IH in \<open>auto split: if_splits\<close>)
qed simp

section \<open>The dirty packet is lossless\<close>

lemma apply_update_at:
  assumes "ids_sorted (pre @ b # bs)" and "ue_id u = es_id b" and "update_entity u b = Inr c"
  shows "apply_update u (pre @ b # bs) = Inr (pre @ c # bs)"
proof -
  have "es_id x \<noteq> es_id b" if "x \<in> set pre \<union> set bs" for x
    using assms(1) that by (auto simp: sorted_wrt_append)
  then have "pre @ c # bs = map (\<lambda>x. if es_id x = ue_id u then c else x) (pre @ b # bs)"
    using assms(2) by (simp add: map_idI)
  with assms show ?thesis by (auto simp: apply_update_iff)
qed

lemma dirty_updates_apply:
  "dirty_updates_loop s bs cs = Inr us \<Longrightarrow> distinct (map cd_id (components s)) \<Longrightarrow> ids_sorted (pre @ bs) \<Longrightarrow>
    list_all2 (same_shape s) bs cs \<Longrightarrow> \<forall>e \<in> set bs \<union> set cs. canonical_entity s e = e \<Longrightarrow>
    apply_updates us (pre @ bs) = Inr (pre @ cs)"
proof (induction s bs cs arbitrary: us pre rule: dirty_updates_loop.induct)
  case (1 s b bs c cs)
  from "1.prems"(1) obtain ch us' where ids: "\<not> entity_raw (es_id b) < entity_raw (es_id c)"
      "\<not> entity_raw (es_id b) > entity_raw (es_id c)"
    and ch: "dirty_components b c (components s) = Inr ch" and us': "dirty_updates_loop s bs cs = Inr us'"
    and us: "us = (if ch = [] then us' else \<lparr>ue_id = es_id c, ue_components = ch\<rparr> # us')"
    by (auto simp: res_simps split: if_splits)
  then have id: "es_id b = es_id c" by auto
  have canon: "es_components b = found_components (components s) b" "es_components c = found_components (components s) c"
    using "1.prems"(5) by (metis UnI1 UnI2 canonical_entity_def entity_snapshot.ext_inject
        entity_snapshot.surjective entity_snapshot.update_convs(2) list.set_intros(1))+
  have shape: "\<And>d x y. d \<in> set (components s) \<Longrightarrow> find_component b (cd_id d) = Some x \<Longrightarrow>
      find_component c (cd_id d) = Some y \<Longrightarrow> length (cs_fields x) = length (cs_fields y)"
    using "1.prems"(4) by (simp add: same_shape_def)
  have "ids_sorted ((pre @ [c]) @ bs)" using "1.prems"(3) id by simp
  then have rest: "apply_updates us' ((pre @ [c]) @ bs) = Inr ((pre @ [c]) @ cs)"
    using "1.prems"(4,5) by (intro "1.IH" [OF ids ch us' "1.prems"(2)]) simp_all
  show ?case
  proof (cases "ch = []")
    case True
    with dirty_components_empty [of b c "components s", OF _ "1.prems"(2) shape] ch canon id have "b = c" by simp
    with True us rest show ?thesis by simp
  next
    case False
    have "try_fold (update_component (entity_raw (es_id c))) ch (es_components b) = Inr (es_components c)"
      using dirty_components_apply [OF ch "1.prems"(2), of "[]" "entity_raw (es_id c)"] shape canon by simp
    then have "update_entity \<lparr>ue_id = es_id c, ue_components = ch\<rparr> b = Inr c"
      using id by (simp add: update_entity_def)
    with apply_update_at [OF "1.prems"(3), of "\<lparr>ue_id = es_id c, ue_components = ch\<rparr>" c] id False us rest
    show ?thesis by (simp add: apply_updates_def)
  qed
qed (simp_all add: apply_updates_def)

lemma dirty_updates_ordered:
  "dirty_updates_loop s bs cs = Inr us \<Longrightarrow> sorted_wrt (<) (map cd_id (components s)) \<Longrightarrow>
    (\<forall>u \<in> set us. update_ordered u \<and> ue_components u \<noteq> []) \<and>
    update_entry_count us \<le> length cs * length (components s)"
proof (induction s bs cs arbitrary: us rule: dirty_updates_loop.induct)
  case (1 s b bs c cs)
  from "1.prems"(1) obtain ch us' where ids: "\<not> entity_raw (es_id b) < entity_raw (es_id c)"
      "\<not> entity_raw (es_id b) > entity_raw (es_id c)"
    and ch: "dirty_components b c (components s) = Inr ch" and us': "dirty_updates_loop s bs cs = Inr us'"
    and us: "us = (if ch = [] then us' else \<lparr>ue_id = es_id c, ue_components = ch\<rparr> # us')"
    by (auto simp: res_simps split: if_splits)
  from "1.IH" [OF ids ch us' "1.prems"(2)] us dirty_components_ordered [OF ch "1.prems"(2)]
    dirty_components_length [OF ch]
  show ?case by (auto simp: update_ordered_def update_entry_count_def intro: add_mono)
qed (simp_all add: update_entry_count_def)

lemma apply_no_destroys: "apply_destroys bs [] = Inr bs"
  by (induction bs) simp_all

lemma apply_no_creates: "apply_creates bs [] = Inr bs"
  by (induction bs) simp_all

lemma change_packet_length:
  assumes enc: "encode_delta_snapshot_from_updates blake3 s tick bt ds cs us l out = Some (Inr (n, out'))"
    and s: "schema_ok s" "schema_ids_ok s" and ord: "\<forall>u \<in> set us. update_ordered u"
    and small: "length ds < 2 ^ 32" "length cs < 2 ^ 32" "update_entry_count us < 2 ^ 32"
  shows "n \<le> length out'"
proof -
  from enc obtain k payload where len: "HEADER_SIZE \<le> length out"
    and p: "encode_delta_payload_from_updates s ds cs us l (drop HEADER_SIZE out) = Some (Inr (k, payload))"
    and f: "finish_delta_packet blake3 s tick bt out k payload = Inr (n, out')"
    by (auto simp: encode_delta_snapshot_from_updates_def try_then_Inr if_Some_Inl_Inr not_less)
  have "length (take HEADER_SIZE out) = 28" using len by (simp add: HEADER_SIZE_eq)
  from encode_header_exact [OF this] f have "n = HEADER_SIZE + k" "length out' = HEADER_SIZE + length payload"
    by (auto simp: finish_delta_packet_def Let_def HEADER_SIZE_eq)
  moreover have "k \<le> length payload" by (rule change_payload_decodes [OF p s ord small])
  ultimately show ?thesis by simp
qed

theorem dirty_packet_applied:
  assumes us: "build_dirty_updates s baseline current = Inr us"
    and enc: "encode_dirty_delta blake3 (session_encoder_new s l) (sn_tick current) (sn_tick baseline) us = Some (Inr bytes)"
    and s: "schema_ok s" "schema_ids_ok s" "sorted_wrt (<) (map cd_id (components s))"
    and sorted: "ids_sorted (sn_entities baseline)"
    and shape: "list_all2 (same_shape s) (sn_entities baseline) (sn_entities current)"
    and canon: "\<forall>e \<in> set (sn_entities baseline) \<union> set (sn_entities current). canonical_entity s e = e"
    and small: "length (sn_entities current) * length (components s) < 2 ^ 32"
      "length (sn_entities current) \<le> max_total_entities_after_apply l"
    and room: "delta_room wl (length bytes)" and bt: "tick_raw (sn_tick baseline) \<noteq> 0"
  shows "apply_delta_snapshot blake3 s baseline bytes wl l = Inr current"
proof -
  let ?bs = "sn_entities baseline" and ?cs = "sn_entities current" and ?bt = "sn_tick baseline"
  from enc obtain n out' where enc': "encode_delta_snapshot_from_updates blake3 s (sn_tick current) ?bt [] [] us l
      (bench_buffer l) = Some (Inr (n, out'))" and bytes: "bytes = take n out'"
    by (auto simp: encode_dirty_delta_def session_encoder_new_def encode_delta_from_changes_def truncated_Inr)
  have loop: "dirty_updates_loop s ?bs ?cs = Inr us" using us by (simp add: build_dirty_updates_def)
  from dirty_updates_ordered [OF loop s(3)] small(1) have ord: "\<forall>u \<in> set us. update_ordered u"
    and non: "nonempty_updates us = us" and count: "update_entry_count us < 2 ^ 32"
    by (auto intro: filter_True)
  have empties: "length ([] :: entity_id list) < 2 ^ 32" "length ([] :: entity_snapshot list) < 2 ^ 32" by simp_all
  have "n = length bytes" using change_packet_length [OF enc' s(1,2) ord empties count] bytes by simp
  with room have room': "delta_room wl n" by simp
  obtain p where p: "decode_packet (take n out') wl = Inr p"
    and h: "wp_header p = header_delta_snapshot (schema_hash blake3 s) (tick_raw (sn_tick current)) (tick_raw ?bt)
      (ph_payload_len (wp_header p))"
    and d: "decode_delta_sections s p l = Inr ([], map (canonical_entity s) [], nonempty_updates us)"
    by (rule change_packet_decodes [OF enc' s(1,2) ord empties count room' bt])
  have "distinct (map cd_id (components s))" using s(3) by (simp add: strict_sorted_iff)
  from dirty_updates_apply [OF loop this, of "[]"] sorted shape canon have "apply_updates us ?bs = Inr ?cs" by simp
  moreover have "length ?bs = length ?cs" using shape by (rule list_all2_lengthD)
  moreover have "ensure_entities_sorted ?bs = Inr ()" "ensure_entities_sorted [] = Inr ()"
    using sorted by (simp_all add: ensure_entities_sorted_Inr)
  ultimately show ?thesis using header_delta_fields [OF h bt] small(2)
    by (simp add: bytes p apply_delta_snapshot_def apply_delta_snapshot_from_packet_def d non Let_def
        apply_no_destroys apply_no_creates)
qed

section \<open>A tick of the benchmark\<close>

lemma dirty_components_total:
  "(\<And>d. d \<in> set ds \<Longrightarrow> (find_component b (cd_id d) \<noteq> None) = (find_component c (cd_id d) \<noteq> None)) \<Longrightarrow>
    \<exists>us. dirty_components b c ds = Inr us"
  by (induction ds) (auto simp: Let_def)

lemma dirty_updates_total:
  "map es_id bs = map es_id cs \<Longrightarrow> list_all2 (\<lambda>b c. \<forall>d \<in> set (components s).
      (find_component b (cd_id d) \<noteq> None) = (find_component c (cd_id d) \<noteq> None)) bs cs \<Longrightarrow>
    \<exists>us. dirty_updates_loop s bs cs = Inr us"
proof (induction s bs cs rule: dirty_updates_loop.induct)
  case (1 s b bs c cs)
  then obtain ch where ch: "dirty_components b c (components s) = Inr ch"
    using dirty_components_total [of "components s" b c] by auto
  from "1.IH" [OF _ _ ch] "1.prems" obtain us where "dirty_updates_loop s bs cs = Inr us" by auto
  with ch "1.prems" show ?case by simp
qed simp_all

lemma bench_schema_facts: "schema_ok (bench_schema q)" "schema_ids_ok (bench_schema q)"
  "sorted_wrt (<) (map cd_id (components (bench_schema q)))" "length (components (bench_schema q)) = 1"
  using bench_schema_valid [of q] schema_new_Inr [of "[bench_component q]" "bench_schema q"]
  by (auto simp: bench_schema_result_def schema_ids_ok_def bench_schema_def bench_component_fields(1)
      sim_component_id_def split: sum.splits)

lemma bench_find: "d \<in> set (components (bench_schema q)) \<Longrightarrow>
    find_component (to_snapshot st) (cd_id d) = Some \<lparr>cs_id = sim_component_id, cs_fields = state_values st\<rparr>"
  by (simp add: bench_schema_def bench_component_fields(1) find_component_def to_snapshot_def)

lemma bench_canonical: "canonical_entity (bench_schema q) (to_snapshot st) = to_snapshot st"
  by (simp add: canonical_entity_def bench_schema_def bench_component_fields(1) find_component_def to_snapshot_def
      List.map_filter_def)

lemma bench_shape: "same_shape (bench_schema q) (to_snapshot a) (to_snapshot b)"
  by (simp add: same_shape_def bench_find state_values_def)

lemma sort_entities_ids: "map es_id bs = map es_id cs \<Longrightarrow> distinct (map es_id bs) \<Longrightarrow>
    map es_id (sort_entities bs) = map es_id (sort_entities cs)"
proof (rule sorted_distinct_set_unique)
  assume same: "map es_id bs = map es_id cs" and distinct: "distinct (map es_id bs)"
  with sort_entities_sorted [of bs] sort_entities_sorted [of cs]
  show "sorted (map es_id (sort_entities bs))" "distinct (map es_id (sort_entities bs))"
    "sorted (map es_id (sort_entities cs))" "distinct (map es_id (sort_entities cs))"
    by (simp_all add: strict_sorted_iff)
  show "set (map es_id (sort_entities bs)) = set (map es_id (sort_entities cs))"
    using arg_cong [OF same, of set] by simp
qed

lemma built_pairs:
  assumes "length states = length states'" and "\<And>a b. P (to_snapshot a) (to_snapshot b)"
  shows "list_all2 P (sort_entities (map to_snapshot states)) (sort_entities (map to_snapshot states'))"
proof (rule list_all2_all_nthI)
  fix i assume i: "i < length (sort_entities (map to_snapshot states))"
  have "sort_entities (map to_snapshot xs) ! i \<in> to_snapshot ` set xs" if "i < length xs" for xs
    using nth_mem [of i "sort_entities (map to_snapshot xs)"] that by simp
  from this [of states] this [of states'] i assms
  show "P (sort_entities (map to_snapshot states) ! i) (sort_entities (map to_snapshot states') ! i)" by auto
qed (simp add: assms(1))

theorem dirty_tick_lossless:
  assumes world: "world_ok states" and after: "states' = fst (bench_step_states states state (tick + 1) cli)"
    and size: "length states < 2 ^ 32" "length states \<le> max_total_entities_after_apply l" and tick: "tick \<noteq> 0"
  shows "\<exists>us. build_dirty_updates (bench_schema q) (build_snapshot (SnapshotTick tick) states)
      (build_snapshot (SnapshotTick (tick + 1)) states') = Inr us \<and>
    (\<forall>bytes. encode_dirty_delta blake3 (session_encoder_new (bench_schema q) l) (SnapshotTick (tick + 1))
        (SnapshotTick tick) us = Some (Inr bytes) \<and> delta_room wl (length bytes) \<longrightarrow>
      apply_delta_snapshot blake3 (bench_schema q) (build_snapshot (SnapshotTick tick) states) bytes wl l =
        Inr (build_snapshot (SnapshotTick (tick + 1)) states'))"
proof -
  let ?base = "build_snapshot (SnapshotTick tick) states" and ?cur = "build_snapshot (SnapshotTick (tick + 1)) states'"
  have ids: "map st_id states' = map st_id states" using bench_step_world [OF world] by (simp add: after)
  then have len: "length states' = length states" by (rule map_eq_imp_length_eq)
  have idmap: "map es_id (map to_snapshot xs) = map st_id xs" for xs by (simp add: to_snapshot_def)
  have distinct: "distinct (map es_id (map to_snapshot states))"
    using world unfolding idmap by (simp add: world_ok_def)
  note parts = build_snapshot_def snapshot.simps
  have "map es_id (sn_entities ?base) = map es_id (sn_entities ?cur)"
    unfolding parts using distinct ids by (intro sort_entities_ids) (simp_all only: idmap)
  moreover have "list_all2 (\<lambda>b c. \<forall>d \<in> set (components (bench_schema q)).
      (find_component b (cd_id d) \<noteq> None) = (find_component c (cd_id d) \<noteq> None)) (sn_entities ?base) (sn_entities ?cur)"
    unfolding parts by (rule built_pairs) (simp_all add: len bench_find)
  ultimately obtain us where us: "build_dirty_updates (bench_schema q) ?base ?cur = Inr us"
    unfolding build_dirty_updates_def using dirty_updates_total by blast
  have "list_all2 (same_shape (bench_schema q)) (sn_entities ?base) (sn_entities ?cur)"
    unfolding parts by (rule built_pairs) (simp_all add: len bench_shape)
  moreover have "ids_sorted (sn_entities ?base)" unfolding parts by (rule sort_entities_sorted [OF distinct])
  moreover have "\<forall>e \<in> set (sn_entities ?base) \<union> set (sn_entities ?cur). canonical_entity (bench_schema q) e = e"
    by (auto simp: build_snapshot_def bench_canonical)
  moreover have "length (sn_entities ?cur) = length states" by (simp add: build_snapshot_def len)
  ultimately show ?thesis
    using dirty_packet_applied [OF us _ bench_schema_facts(1-3)] us size tick bench_schema_facts(4)
    by (intro exI [of _ us]) (simp add: build_snapshot_def)
qed

section \<open>The compact header of a full snapshot\<close>

text \<open>The baseline delta that the benchmark writes is the tick, where the wire format demands zero.\<close>

lemma full_header_refused:
  assumes f: "session_flags_is_valid f" "session_is_full_snapshot f" and a: "a \<noteq> 0" "unat last_tick + unat a < 2 ^ 32"
    and b: "b \<noteq> 0" "b \<le> last_tick + a"
  shows "decode_session_header (session_header_bytes f a b c @ payload) last_tick =
    Inl (InvalidBaselineTick (last_tick + a - b) (ucast (session_flags_raw f)))"
proof -
  let ?buf = "session_header_bytes f a b c @ payload"
  let ?la = "length (varint_encode a)"
  have d: "drop 1 ?buf = varint_encode a @ (varint_encode b @ varint_encode c @ payload)"
    "drop (1 + ?la) ?buf = varint_encode b @ (varint_encode c @ payload)"
    by (simp_all add: session_header_bytes_def)
  have l: "1 < length ?buf" "1 + ?la < length ?buf" by (simp_all add: session_header_bytes_def)
  note rd = session_read_encoded [OF d(1) l(1)] session_read_encoded [OF d(2) l(2)]
  have f0: "SessionFlags (?buf ! 0) = f" "?buf \<noteq> []" by (cases f; simp add: session_header_bytes_def)+
  show ?thesis
    unfolding decode_session_header_def using assms f0 rd
    by (simp add: Let_def checked_add_u32_def checked_sub_u32_def)
qed

theorem bench_full_header_refused:
  assumes "encode_full_snapshot_session_header sn session k = Some (Inr (n, session'))"
  obtains h buf where "encode_session_header (replicate SESSION_MAX_HEADER_SIZE 0) session_flags_full_snapshot
      (tick_raw (sn_tick sn) - tick_raw (ss_last_tick session)) (tick_raw (sn_tick sn))
      (of_nat (k - HEADER_SIZE)) = Some (Inr (h, buf))"
    and "n = h + (k - HEADER_SIZE)" and "session' = session\<lparr>ss_last_tick := sn_tick sn\<rparr>"
    and "\<forall>payload. decode_session_header (take h buf @ payload) (tick_raw (ss_last_tick session)) =
      Inl (InvalidBaselineTick 0 1)"
proof -
  let ?t = "tick_raw (sn_tick sn)" and ?l = "tick_raw (ss_last_tick session)"
  let ?out = "replicate SESSION_MAX_HEADER_SIZE 0 :: u8 list" and ?c = "of_nat (k - HEADER_SIZE) :: u32"
  from assms obtain h buf where less: "?l < ?t"
    and enc: "encode_session_header ?out session_flags_full_snapshot (?t - ?l) ?t ?c = Some (Inr (h, buf))"
    and n: "n = h + (k - HEADER_SIZE)" "session' = session\<lparr>ss_last_tick := sn_tick sn\<rparr>"
    by (auto simp: encode_full_snapshot_session_header_def Let_def try_then_Inr map_err_Inr_iff not_le if_Some_Inl_Inr)
  have valid: "session_flags_is_valid session_flags_full_snapshot" "session_is_full_snapshot session_flags_full_snapshot"
    "session_flags_raw session_flags_full_snapshot = 1" by code_simp+
  from encode_session_header_bytes [of ?out, OF _ valid(1), of "?t - ?l" ?t ?c] enc
  have bytes: "take h buf = session_header_bytes session_flags_full_snapshot (?t - ?l) ?t ?c"
    by (metis Pair_inject length_replicate option.inject order_refl sum.inject(2))
  have "unat ?l + unat (?t - ?l) = unat ?t" using less by (simp add: unat_sub less_imp_le word_less_nat_alt)
  with unsigned_less [of ?t] have "unat ?l + unat (?t - ?l) < 2 ^ 32" by simp
  moreover have "?t - ?l \<noteq> 0" "?t \<noteq> 0" using less by auto
  ultimately have "decode_session_header (take h buf @ payload) ?l = Inl (InvalidBaselineTick 0 1)" for payload
    using full_header_refused [OF valid(1,2), of "?t - ?l" ?l ?t ?c payload] by (simp add: bytes valid(3))
  with enc n that show thesis by blast
qed

end
