(* ===== verification/Bench_Run.thy ===== *)
theory Bench_Run
  imports Bench_Dirty Bench_Visibility Codec_Session
begin

text \<open>
  The benchmark's \<^verbatim>\<open>main\<close> (\<^verbatim>\<open>simbench/src/main.rs\<close>): the statistics of the full encodings, what is handed to
  the third-party serialisers, one tick of the run in its three forms (full snapshots only, the first tick,
  a delta tick) with the visibility scenario, the loop over the ticks, the summary and its checks.  The
  serialisers, the clock, the floating-point expressions and the digest are the record \<open>bench_env\<close>;
  reading the arguments, the printouts and the summary file are left out.
\<close>

section \<open>Statistics of the full encodings\<close>

record size_time_stats =
  zt_sizes :: "u64 list"
  zt_encode_us :: "u64 list"
  zt_total_bytes :: u64
  zt_count :: u32

definition size_time_default :: size_time_stats where
  "size_time_default = \<lparr>zt_sizes = [], zt_encode_us = [], zt_total_bytes = 0, zt_count = 0\<rparr>"

definition size_time_add :: "u64 \<Rightarrow> u64 \<Rightarrow> size_time_stats \<Rightarrow> size_time_stats" where
  "size_time_add bytes us st =
    (let st = st\<lparr>zt_total_bytes := zt_total_bytes st + bytes, zt_count := zt_count st + 1,
           zt_sizes := zt_sizes st @ [bytes]\<rparr>
     in if us > 0 then st\<lparr>zt_encode_us := zt_encode_us st @ [us]\<rparr> else st)"

record size_time_summary =
  zs_count :: u32
  zs_bytes_total :: u64
  zs_bytes_avg :: u64
  zs_bytes_p95 :: u64
  zs_encode_us_avg :: u64
  zs_encode_us_p95 :: u64

definition size_time_finalize :: "(usize \<Rightarrow> usize) \<Rightarrow> size_time_stats \<Rightarrow> size_time_summary" where
  "size_time_finalize rank st =
    \<lparr>zs_count = zt_count st, zs_bytes_total = zt_total_bytes st,
     zs_bytes_avg = (if zt_count st > 0 then zt_total_bytes st div ucast (zt_count st) else 0),
     zs_bytes_p95 = (if zt_sizes st = [] then 0 else p95 rank (zt_sizes st)),
     zs_encode_us_avg = (if zt_encode_us st = [] then 0
       else sum_list (zt_encode_us st) div of_nat (length (zt_encode_us st))),
     zs_encode_us_p95 = (if zt_encode_us st = [] then 0 else p95 rank (zt_encode_us st))\<rparr>"

section \<open>What is serialised\<close>

record serde_entity =
  sr_id :: u32
  sr_pos :: "i64 list"
  sr_vel :: "i64 list"
  sr_yaw :: u16
  sr_flags :: "bool list"

definition serde_snapshot :: "demo_entity_state list \<Rightarrow> serde_entity list" where
  "serde_snapshot states =
    map (\<lambda>st. \<lparr>sr_id = entity_raw (st_id st), sr_pos = st_pos st, sr_vel = st_vel st, sr_yaw = st_yaw st,
      sr_flags = st_flags st\<rparr>) states"

datatype serde_value =
    SerdeBool bool | SerdeUInt u64 | SerdeSInt i64 | SerdeVarUInt u64 | SerdeVarSInt i64 | SerdeFixedPoint i64

fun serde_field_value :: "field_value \<Rightarrow> serde_value" where
  "serde_field_value (BoolV b) = SerdeBool b"
| "serde_field_value (UIntV n) = SerdeUInt n"
| "serde_field_value (SIntV n) = SerdeSInt n"
| "serde_field_value (VarUIntV n) = SerdeVarUInt n"
| "serde_field_value (VarSIntV n) = SerdeVarSInt n"
| "serde_field_value (FixedPointV n) = SerdeFixedPoint n"

type_synonym serde_delta_entity = "u32 \<times> (u16 \<times> serde_value) list"

text \<open>An entity of the lightyear message: its id, the previous tick and the masked difference.\<close>

type_synonym lightyear_delta_entity = "u32 \<times> u16 \<times> lightyear_delta"

text \<open>The encodings that a tick measures, each with a time of its own.\<close>

datatype bench_timer =
  BincodeFull | BitcodeFull | FullSession | SdecDelta | DirtyDelta | NaiveDelta | BincodeDelta | LightyearDelta

record bench_env =
  be_blake3 :: "u8 list \<Rightarrow> u8 list"
  be_bincode_states :: "serde_entity list \<Rightarrow> usize option"
  be_bitcode_states :: "serde_entity list \<Rightarrow> usize"
  be_bincode_delta :: "serde_delta_entity list \<Rightarrow> usize option"
  be_lightyear :: "lightyear_delta_entity list \<Rightarrow> usize option"
  be_clock :: "u32 \<Rightarrow> bench_timer \<Rightarrow> u64"
  be_client_clock :: "u32 \<Rightarrow> nat \<Rightarrow> u64 \<times> u64"
  be_rank :: "usize \<Rightarrow> usize"
  be_grid :: u32

definition encode_bincode_snapshot :: "bench_env \<Rightarrow> demo_entity_state list \<Rightarrow> bench_error + usize" where
  "encode_bincode_snapshot env states =
    ok_or (BenchSerialize ''bincode snapshot'') (be_bincode_states env (serde_snapshot states))"

definition encode_bitcode_snapshot :: "bench_env \<Rightarrow> demo_entity_state list \<Rightarrow> usize" where
  "encode_bitcode_snapshot env states = be_bitcode_states env (serde_snapshot states)"

text \<open>The loop over the entities is the one of the naive delta.\<close>

definition encode_bincode_delta :: "bench_env \<Rightarrow> schema \<Rightarrow> snapshot \<Rightarrow> snapshot \<Rightarrow> bench_error + usize" where
  "encode_bincode_delta env s baseline current =
    and_then (changed_entities_loop s (sn_entities baseline) (sn_entities current)) (\<lambda>entities.
    let entities = map (\<lambda>(i, changed). (i, map (\<lambda>(idx, v). (of_nat idx, serde_field_value v)) changed)) entities
    in ok_or (BenchSerialize ''bincode delta'') (be_bincode_delta env entities))"

definition encode_lightyear_delta ::
  "bench_env \<Rightarrow> demo_entity_state list \<Rightarrow> demo_entity_state list \<Rightarrow> u32 \<Rightarrow> bench_error + usize" where
  "encode_lightyear_delta env prev_states states prev_tick =
    (if length prev_states \<noteq> length states then Inl StateLengths
     else
       let entities = List.map_filter (\<lambda>(prev, cur).
         let delta = ly_diff (lightyear_state_from prev) (lightyear_state_from cur)
         in if ly_mask delta \<noteq> 0 then Some (entity_raw (st_id cur), ucast prev_tick, delta) else None)
         (zip prev_states states)
       in ok_or (BenchSerialize ''lightyear delta serialize'') (be_lightyear env entities))"

section \<open>The state of the run\<close>

record bench_args = bench_cli +
  ba_players :: u32
  ba_ticks :: u32
  ba_seed :: u64
  ba_threshold_q :: u32
  ba_clients :: u32
  ba_visibility_radius_q :: i64
  ba_world_size_q :: i64
  ba_full_only :: bool
  ba_max_p95 :: "u64 option"
  ba_max_avg :: "u64 option"

record bench_stats =
  bs_sdec :: encoder_stats
  bs_dirty :: encoder_stats
  bs_naive :: encoder_stats
  bs_bincode_delta :: encoder_stats
  bs_lightyear_delta :: encoder_stats
  bs_bincode_full :: size_time_stats
  bs_lightyear_bitcode :: size_time_stats
  bs_full_session :: size_time_stats
  bs_full_bytes_total :: u64
  bs_full_count :: u32

definition bench_stats_default :: bench_stats where
  "bench_stats_default =
    \<lparr>bs_sdec = encoder_stats_default, bs_dirty = encoder_stats_default, bs_naive = encoder_stats_default,
     bs_bincode_delta = encoder_stats_default, bs_lightyear_delta = encoder_stats_default,
     bs_bincode_full = size_time_default, bs_lightyear_bitcode = size_time_default,
     bs_full_session = size_time_default, bs_full_bytes_total = 0, bs_full_count = 0\<rparr>"

text \<open>The locals of \<^verbatim>\<open>main\<close> that the loop changes; the graph and the client statistics exist together.\<close>

record 'f bench_state =
  bn_states :: "demo_entity_state list"
  bn_rng :: rng
  bn_last_states :: "demo_entity_state list option"
  bn_baseline :: snapshot
  bn_session :: "session_state option"
  bn_visibility :: "('f replication_graph \<times> per_client_stats) option"
  bn_client_baselines :: "snapshot list"
  bn_stats :: bench_stats

section \<open>A tick\<close>

definition add_full :: "u8 list \<Rightarrow> bench_stats \<Rightarrow> bench_stats" where
  "add_full bytes st = st\<lparr>bs_full_bytes_total := bs_full_bytes_total st + of_nat (length bytes),
    bs_full_count := bs_full_count st + 1\<rparr>"

text \<open>\<^verbatim>\<open>if cli.full_only\<close>.\<close>

definition full_tick ::
  "bench_env \<Rightarrow> schema \<Rightarrow> codec_limits \<Rightarrow> u32 \<Rightarrow> snapshot \<Rightarrow> session_state option \<Rightarrow> bench_stats \<Rightarrow>
    (bench_error + session_state option \<times> bench_stats) option" where
  "full_tick env s l tick snapshot session st =
    try_then (bench_encode_full (be_blake3 env) s snapshot l) (\<lambda>full_bytes.
    let st = add_full full_bytes st
    in case session of None \<Rightarrow> Some (Inr (None, st))
       | Some session \<Rightarrow>
           try_then (encode_full_snapshot_session_header snapshot session (length full_bytes)) (\<lambda>(session_bytes, session).
           Some (Inr (Some session, st\<lparr>bs_full_session :=
             size_time_add (of_nat session_bytes) (be_clock env tick FullSession) (bs_full_session st)\<rparr>))))"

text \<open>
  The last branch: the delta encodings, each with its statistics, in the order of the code.  The scratch
  buffers that the code keeps between the ticks make no difference to the packet.
\<close>

definition delta_tick ::
  "bench_env \<Rightarrow> schema \<Rightarrow> codec_limits \<Rightarrow> session_encoder \<Rightarrow> u32 \<Rightarrow> snapshot \<Rightarrow> snapshot \<Rightarrow>
    demo_entity_state list option \<Rightarrow> demo_entity_state list \<Rightarrow> bench_stats \<Rightarrow> (bench_error + bench_stats) option" where
  "delta_tick env s l dirty_session tick baseline snapshot last_states states st =
    (let us = be_clock env tick in
     try_then (encode_delta_with_scratch (be_blake3 env) s baseline snapshot l codec_scratch_new) (\<lambda>delta_bytes.
     let st = st\<lparr>bs_sdec := add_with_tick (of_nat (length delta_bytes)) (us SdecDelta) tick (bs_sdec st)\<rparr> in
     try_then (Some (build_dirty_updates s baseline snapshot)) (\<lambda>dirty_updates.
     try_then (encode_dirty_delta (be_blake3 env) dirty_session (sn_tick snapshot) (sn_tick baseline) dirty_updates)
       (\<lambda>dirty_bytes.
     let st = st\<lparr>bs_dirty := add_with_tick (of_nat (length dirty_bytes)) (us DirtyDelta) tick (bs_dirty st)\<rparr> in
     try_then (Some (encode_naive_delta s baseline snapshot)) (\<lambda>naive_bytes.
     let st = st\<lparr>bs_naive := add_with_tick (of_nat naive_bytes) (us NaiveDelta) tick (bs_naive st)\<rparr> in
     try_then (Some (encode_bincode_delta env s baseline snapshot)) (\<lambda>bincode_bytes.
     let st = st\<lparr>bs_bincode_delta := add_with_tick (of_nat bincode_bytes) (us BincodeDelta) tick (bs_bincode_delta st)\<rparr>
     in case last_states of None \<Rightarrow> Some (Inr st)
        | Some prev_states \<Rightarrow>
            try_then (Some (encode_lightyear_delta env prev_states states (if tick > 0 then tick - 1 else 0))) (\<lambda>lightyear_bytes.
            Some (Inr (st\<lparr>bs_lightyear_delta :=
              add_with_tick (of_nat lightyear_bytes) (us LightyearDelta) tick (bs_lightyear_delta st)\<rparr>)))))))))"

text \<open>The visibility part of the tick, when there is a graph.\<close>

definition bench_visibility ::
  "bench_env \<Rightarrow> 'f f32_ops \<Rightarrow> (i64 \<Rightarrow> 'f) \<Rightarrow> bench_args \<Rightarrow> schema \<Rightarrow> session_encoder \<Rightarrow> u32 \<Rightarrow> 'f bench_state \<Rightarrow>
    (bench_error + 'f bench_state) option" where
  "bench_visibility env ops of_i64 args s repgraph_session tick b =
    (case bn_visibility b of
       None \<Rightarrow> Some (Inr b)
     | Some (graph, stats) \<Rightarrow>
         let baselines = (if bn_client_baselines b = []
               then replicate (unat (ba_clients args)) \<lparr>sn_tick = SnapshotTick 0, sn_entities = []\<rparr>
               else bn_client_baselines b)
         in try_then (visibility_tick ops of_i64 (be_blake3 env) (encode_bincode_snapshot env)
              (be_client_clock env tick) s repgraph_session (bn_last_states b) (bn_states b) tick
              (ba_visibility_radius_q args) baselines stats graph) (\<lambda>(stats, baselines, graph).
            Some (Inr (b\<lparr>bn_visibility := Some (graph, stats), bn_client_baselines := baselines\<rparr>))))"

text \<open>The three forms of a tick.\<close>

definition encode_tick ::
  "bench_env \<Rightarrow> bench_args \<Rightarrow> schema \<Rightarrow> codec_limits \<Rightarrow> session_encoder \<Rightarrow> u32 \<Rightarrow> snapshot \<Rightarrow> 'f bench_state \<Rightarrow>
    bench_stats \<Rightarrow> (bench_error + session_state option \<times> bench_stats) option" where
  "encode_tick env args s l dirty_session tick snapshot b st =
    (if ba_full_only args then full_tick env s l tick snapshot (bn_session b) st
     else if tick = 1 then
       try_then (bench_encode_full (be_blake3 env) s snapshot l) (\<lambda>full_bytes.
         Some (Inr (bn_session b, add_full full_bytes st)))
     else
       try_then (delta_tick env s l dirty_session tick (bn_baseline b) snapshot (bn_last_states b) (bn_states b) st)
         (\<lambda>st. Some (Inr (bn_session b, st))))"

definition bench_tick ::
  "bench_env \<Rightarrow> 'f f32_ops \<Rightarrow> (i64 \<Rightarrow> 'f) \<Rightarrow> bench_args \<Rightarrow> schema \<Rightarrow> codec_limits \<Rightarrow> session_encoder \<Rightarrow>
    session_encoder \<Rightarrow> u32 \<Rightarrow> 'f bench_state \<Rightarrow> (bench_error + 'f bench_state) option" where
  "bench_tick env ops of_i64 args s l dirty_session repgraph_session tick b =
    (let (states, rng) = bench_step_states (bn_states b) (bn_rng b) tick (bench_cli.truncate args);
         b = b\<lparr>bn_states := states, bn_rng := rng\<rparr>;
         snapshot = build_snapshot (SnapshotTick tick) states;
         st = bn_stats b
     in try_then (Some (encode_bincode_snapshot env states)) (\<lambda>bincode_bytes.
        let st = st\<lparr>bs_bincode_full :=
              size_time_add (of_nat bincode_bytes) (be_clock env tick BincodeFull) (bs_bincode_full st)\<rparr>;
            st = st\<lparr>bs_lightyear_bitcode :=
              size_time_add (of_nat (encode_bitcode_snapshot env states)) (be_clock env tick BitcodeFull)
                (bs_lightyear_bitcode st)\<rparr>
        in try_then (encode_tick env args s l dirty_session tick snapshot b st) (\<lambda>(session, st).
        try_then (bench_visibility env ops of_i64 args s repgraph_session tick
          (b\<lparr>bn_session := session, bn_stats := st\<rparr>)) (\<lambda>b.
        Some (Inr (b\<lparr>bn_last_states := Some states, bn_baseline := snapshot\<rparr>))))))"

text \<open>\<^verbatim>\<open>for tick in 1..=cli.ticks\<close>, with the ticks that are left.\<close>

fun bench_loop ::
  "bench_env \<Rightarrow> 'f f32_ops \<Rightarrow> (i64 \<Rightarrow> 'f) \<Rightarrow> bench_args \<Rightarrow> schema \<Rightarrow> codec_limits \<Rightarrow> session_encoder \<Rightarrow>
    session_encoder \<Rightarrow> u32 list \<Rightarrow> 'f bench_state \<Rightarrow> (bench_error + 'f bench_state) option" where
  "bench_loop env ops of_i64 args s l dirty_session repgraph_session [] b = Some (Inr b)"
| "bench_loop env ops of_i64 args s l dirty_session repgraph_session (tick # ticks) b =
    try_then (bench_tick env ops of_i64 args s l dirty_session repgraph_session tick b)
      (bench_loop env ops of_i64 args s l dirty_session repgraph_session ticks)"

section \<open>The summary\<close>

record full_summary =
  fu_full_count :: u32
  fu_full_bytes_total :: u64
  fu_full_bincode_bytes_total :: u64
  fu_avg_full_bytes :: u64
  fu_avg_full_bincode_bytes :: u64
  fu_full_bincode_p95_bytes :: u64
  fu_full_bincode_encode_us_avg :: u64
  fu_full_bincode_encode_us_p95 :: u64

record per_client_summary =
  cu_clients :: u32
  cu_sdec_avg_per_client :: u64
  cu_naive_avg_per_client :: u64
  cu_full_bincode_avg_per_client :: u64

record bench_summary =
  sm_sdec :: encoder_summary
  sm_sdec_dirty :: encoder_summary
  sm_delta_naive :: encoder_summary
  sm_delta_bincode :: encoder_summary
  sm_lightyear_delta :: encoder_summary
  sm_sdec_full_session :: size_time_summary
  sm_sdec_session_init_bytes :: u64
  sm_full_bincode :: full_summary
  sm_lightyear_bitcode :: size_time_summary
  sm_per_client :: "per_client_summary option"

text \<open>The last division has no guard: without ticks it panics, \<^const>\<open>None\<close>.\<close>

definition per_client_summary_new :: "(usize \<Rightarrow> usize) \<Rightarrow> u32 \<Rightarrow> per_client_stats \<Rightarrow> per_client_summary option" where
  "per_client_summary_new rank ticks stats =
    (let sdec_summary = stats_finalize rank (pc_sdec stats);
         naive_summary = stats_finalize rank (pc_naive stats);
         denom = ucast (max (pc_clients stats) 1) * ucast ticks
     in if denom = 0 then None
        else Some \<lparr>cu_clients = pc_clients stats, cu_sdec_avg_per_client = su_delta_avg sdec_summary,
               cu_naive_avg_per_client = su_delta_avg naive_summary,
               cu_full_bincode_avg_per_client = pc_full_bincode_total stats div denom\<rparr>)"

definition summary_new ::
  "(usize \<Rightarrow> usize) \<Rightarrow> u32 \<Rightarrow> bench_stats \<Rightarrow> u64 \<Rightarrow> per_client_stats option \<Rightarrow> bench_summary option" where
  "summary_new rank ticks st session_init_bytes per_client_stats =
    (let bincode_full_summary = size_time_finalize rank (bs_bincode_full st);
         avg_full = (if ticks > 0 then bs_full_bytes_total st div ucast ticks else 0);
         avg_bincode = (if ticks > 0 then zs_bytes_total bincode_full_summary div ucast ticks else 0)
     in Option.bind (case per_client_stats of
            None \<Rightarrow> Some None
          | Some stats \<Rightarrow> map_option Some (per_client_summary_new rank ticks stats)) (\<lambda>per_client.
        Some \<lparr>sm_sdec = stats_finalize rank (bs_sdec st), sm_sdec_dirty = stats_finalize rank (bs_dirty st),
              sm_delta_naive = stats_finalize rank (bs_naive st),
              sm_delta_bincode = stats_finalize rank (bs_bincode_delta st),
              sm_lightyear_delta = stats_finalize rank (bs_lightyear_delta st),
              sm_sdec_full_session = size_time_finalize rank (bs_full_session st),
              sm_sdec_session_init_bytes = session_init_bytes,
              sm_full_bincode =
                \<lparr>fu_full_count = bs_full_count st, fu_full_bytes_total = bs_full_bytes_total st,
                 fu_full_bincode_bytes_total = zs_bytes_total bincode_full_summary,
                 fu_avg_full_bytes = avg_full, fu_avg_full_bincode_bytes = avg_bincode,
                 fu_full_bincode_p95_bytes = zs_bytes_p95 bincode_full_summary,
                 fu_full_bincode_encode_us_avg = zs_encode_us_avg bincode_full_summary,
                 fu_full_bincode_encode_us_p95 = zs_encode_us_p95 bincode_full_summary\<rparr>,
              sm_lightyear_bitcode = size_time_finalize rank (bs_lightyear_bitcode st),
              sm_per_client = per_client\<rparr>))"

section \<open>The run\<close>

datatype run_error = RunFailed bench_error | OverBudget budget_error | OverPacketLimit u64 usize

definition bench_session ::
  "bench_env \<Rightarrow> schema \<Rightarrow> codec_limits \<Rightarrow> (bench_error + session_state option \<times> u64) option" where
  "bench_session env s l =
    try_then (map_option (map_err BenchCodec)
      (encode_session_init_packet (be_blake3 env) s (SnapshotTick 0) (Some 1) SessionV1 l (replicate 128 0)))
      (\<lambda>(init_len, init_buf).
    Some (and_then (map_err BenchDecode (decode_packet (take init_len init_buf) limits_default)) (\<lambda>init_packet.
      and_then (map_err BenchCodec (decode_session_init_packet (be_blake3 env) s init_packet l)) (\<lambda>session.
        Inr (Some session, of_nat init_len)))))"

definition bench_start :: "bench_env \<Rightarrow> bench_args \<Rightarrow> session_state option \<Rightarrow> 'f bench_state" where
  "bench_start env args session =
    (let (states, rng) = bench_init_states (be_grid env) (ba_players args) (rng_new (ba_seed args)) (ba_world_size_q args)
     in \<lparr>bn_states = states, bn_rng = rng, bn_last_states = None,
         bn_baseline = \<lparr>sn_tick = SnapshotTick 0, sn_entities = []\<rparr>, bn_session = session,
         bn_visibility = (if bc_scenario args = Visibility
           then Some (graph_new replication_config_default, per_client_stats_new (ba_clients args)) else None),
         bn_client_baselines = [], bn_stats = bench_stats_default\<rparr>)"

definition bench_main ::
  "bench_env \<Rightarrow> 'f f32_ops \<Rightarrow> (i64 \<Rightarrow> 'f) \<Rightarrow> bench_args \<Rightarrow> (run_error + bench_summary) option" where
  "bench_main env ops of_i64 args =
    (case bench_schema_result (ba_threshold_q args) of
       None \<Rightarrow> None
     | Some s \<Rightarrow>
         let l = codec_limits_default; encoder = session_encoder_new s l in
         try_then (map_option (map_err RunFailed)
           (if ba_full_only args then bench_session env s l else Some (Inr (None, 0)))) (\<lambda>(session, session_init_bytes).
         try_then (map_option (map_err RunFailed)
           (bench_loop env ops of_i64 args s l encoder encoder (map of_nat [1..<Suc (unat (ba_ticks args))])
             (bench_start env args session))) (\<lambda>b.
         case summary_new (be_rank env) (ba_ticks args) (bn_stats b) session_init_bytes
                (map_option snd (bn_visibility b)) of
           None \<Rightarrow> None
         | Some summary \<Rightarrow>
             Some (and_then (map_err OverBudget (assert_budgets (ba_max_p95 args) (ba_max_avg args) (sm_sdec summary)))
               (\<lambda>_. if su_delta_p95 (sm_sdec summary) > of_nat (max_packet_bytes limits_default)
                 then Inl (OverPacketLimit (su_delta_p95 (sm_sdec summary)) (max_packet_bytes limits_default))
                 else Inr summary)))))"

section \<open>No panic but in two corners\<close>

lemma full_session_header_returns: "returns (encode_full_snapshot_session_header sn session k)"
proof -
  have valid: "session_flags_is_valid session_flags_full_snapshot" by code_simp
  have "returns (encode_session_header (replicate SESSION_MAX_HEADER_SIZE 0) session_flags_full_snapshot a b c)" for a b c
    by (rule encode_session_header_bytes [OF _ valid, of "replicate SESSION_MAX_HEADER_SIZE 0" a b c])
      (simp_all add: returns_rules(1))
  then show ?thesis unfolding encode_full_snapshot_session_header_def Let_def by (intro returns_rules)
qed

lemma bench_encoders_return:
  "returns (bench_encode_full blake3 s sn l)" "returns (encode_delta_with_scratch blake3 s base cur l sc)"
  "returns (encode_dirty_delta blake3 session tick bt us)"
  using encode_full_snapshot_no_panic encode_delta_no_panic change_lists_no_panic
  by (simp_all add: returns_def bench_encode_full_def encode_delta_with_scratch_def encode_dirty_delta_def
    encode_delta_snapshot_with_scratch_def encode_delta_from_changes_def Let_def del: not_None_eq)

lemma full_tick_returns: "returns (full_tick env s l tick sn session st)"
  unfolding full_tick_def Let_def by (intro returns_rules bench_encoders_return full_session_header_returns)

lemma delta_tick_returns: "returns (delta_tick env s l session tick base sn prev states st)"
  unfolding delta_tick_def Let_def by (intro returns_rules bench_encoders_return)

lemma step_loop_length: "length (fst (step_loop step states state)) = length states"
proof (induction states arbitrary: state)
  case (Cons st states)
  obtain st' s1 where one: "step st state = (st', s1)" by fastforce
  obtain sts s2 where "step_loop step states s1 = (sts, s2)" by fastforce
  with one Cons [of s1] show ?case by simp
qed simp

lemma bench_step_length: "length (fst (bench_step_states states state tick cli)) = length states"
proof -
  obtain states1 s1 where dense: "step_dense states state tick None = (states1, s1)" by fastforce
  have "length states1 = length states"
    using step_loop_length [of "step_entity (burst_tick None tick)" states state] dense by (simp add: step_dense_def)
  with dense show ?thesis
    using step_loop_length by (cases "bc_scenario cli")
      (simp_all add: bench_step_states_def step_dense_def [of states state tick "bc_burst_every cli"] step_idle_def step_burst_def)
qed

lemma encode_tick_returns: "returns (encode_tick env args s l session tick sn b st)"
  unfolding encode_tick_def by (intro returns_rules full_tick_returns delta_tick_returns bench_encoders_return)

text \<open>The states in which the loop cannot panic: there is no graph, or an observer for every client.\<close>

definition can_run :: "bench_args \<Rightarrow> 'f bench_state \<Rightarrow> bool" where
  "can_run args b \<longleftrightarrow> bn_visibility b = None \<or> bn_states b \<noteq> [] \<or> ba_clients args = 0 \<and> bn_client_baselines b = []"

lemma bench_visibility_returns:
  assumes "can_run args b"
  shows "returns (bench_visibility env ops of_i64 args s session tick b)"
  unfolding bench_visibility_def Let_def
  by (intro returns_rules visibility_tick_returns) (use assms in \<open>auto simp: can_run_def\<close>)

lemma run_visibility_length:
  "run_visibility ops of_i64 blake3 bincode clock s session states tick radius_q idx baselines stats graph =
    Some (Inr (stats', snapshots, graph')) \<Longrightarrow> length snapshots = length baselines"
  by (induction baselines arbitrary: idx stats graph snapshots) (auto simp: res_simps)

lemma bench_visibility_keeps:
  assumes "bench_visibility env ops of_i64 args s session tick b = Some (Inr b')"
  shows "bn_states b' = bn_states b" and "bn_stats b' = bn_stats b" and "bn_session b' = bn_session b"
    and "bn_visibility b' = None \<longleftrightarrow> bn_visibility b = None" and "can_run args b \<Longrightarrow> can_run args b'"
  using assms
  by (auto simp: bench_visibility_def can_run_def visibility_tick_def Let_def res_simps split: option.splits if_splits
      dest!: run_visibility_length)

lemma bench_tick_returns:
  assumes "can_run args b"
  shows "returns (bench_tick env ops of_i64 args s l dirty session tick b)"
proof -
  obtain states rng where step: "bench_step_states (bn_states b) (bn_rng b) tick (bench_cli.truncate args) = (states, rng)"
    by fastforce
  with bench_step_length [of "bn_states b" "bn_rng b" tick "bench_cli.truncate args"]
  have "can_run args (b\<lparr>bn_states := states, bn_rng := rng, bn_session := ss, bn_stats := st\<rparr>)" for ss st
    using assms by (auto simp: can_run_def)
  then show ?thesis
    unfolding bench_tick_def step prod.case Let_def
    by (intro returns_rules bench_visibility_returns encode_tick_returns)
qed

lemma bench_tick_parts:
  assumes "bench_tick env ops of_i64 args s l dirty session tick b = Some (Inr b')"
  obtains states rng x y ss st b1 where
    "bench_step_states (bn_states b) (bn_rng b) tick (bench_cli.truncate args) = (states, rng)"
    and "encode_tick env args s l dirty tick (build_snapshot (SnapshotTick tick) states)
      (b\<lparr>bn_states := states, bn_rng := rng\<rparr>) ((bn_stats b)\<lparr>bs_bincode_full := x, bs_lightyear_bitcode := y\<rparr>) =
      Some (Inr (ss, st))"
    and "bench_visibility env ops of_i64 args s session tick
      (b\<lparr>bn_states := states, bn_rng := rng, bn_session := ss, bn_stats := st\<rparr>) = Some (Inr b1)"
    and "b' = b1\<lparr>bn_last_states := Some states, bn_baseline := build_snapshot (SnapshotTick tick) states\<rparr>"
proof -
  obtain states rng where step: "bench_step_states (bn_states b) (bn_rng b) tick (bench_cli.truncate args) = (states, rng)"
    by fastforce
  with assms that [OF step] show thesis by (auto simp: bench_tick_def Let_def res_simps)
qed

lemma can_run_tick:
  assumes "bench_tick env ops of_i64 args s l dirty session tick b = Some (Inr b')" and "can_run args b"
  shows "can_run args b'"
  using assms(1)
proof (rule bench_tick_parts)
  fix states rng st ss b1
  assume step: "bench_step_states (bn_states b) (bn_rng b) tick (bench_cli.truncate args) = (states, rng)"
    and vis: "bench_visibility env ops of_i64 args s session tick
      (b\<lparr>bn_states := states, bn_rng := rng, bn_session := ss, bn_stats := st\<rparr>) = Some (Inr b1)"
    and b': "b' = b1\<lparr>bn_last_states := Some states, bn_baseline := build_snapshot (SnapshotTick tick) states\<rparr>"
  have "length states = length (bn_states b)"
    using bench_step_length [of "bn_states b" "bn_rng b" tick "bench_cli.truncate args"] step by simp
  with assms(2) have "can_run args (b\<lparr>bn_states := states, bn_rng := rng, bn_session := ss, bn_stats := st\<rparr>)"
    by (auto simp: can_run_def)
  from bench_visibility_keeps(5) [OF vis this] show ?thesis by (simp add: b' can_run_def)
qed

lemma bench_loop_returns:
  "can_run args b \<Longrightarrow> returns (bench_loop env ops of_i64 args s l dirty session ticks b)"
proof (induction ticks arbitrary: b)
  case (Cons tick ticks)
  show ?case unfolding bench_loop.simps
    using Cons by (intro returns_rules bench_tick_returns) (auto intro: can_run_tick)
qed (simp add: returns_rules(1))

lemma bench_start_states: "length (bn_states (bench_start env args session)) = unat (ba_players args)"
proof -
  have "length (fst (bench_init_loop grid spacing world idxs state)) = length idxs" for grid spacing world idxs state
  proof (induction idxs arbitrary: state)
    case (Cons idx idxs)
    obtain st s1 where one: "bench_init_state grid spacing world idx state = (st, s1)" by fastforce
    obtain sts s2 where "bench_init_loop grid spacing world idxs s1 = (sts, s2)" by fastforce
    with one Cons [of s1] show ?case by simp
  qed simp
  then have "length (fst (bench_init_states grid (ba_players args) rng world)) = unat (ba_players args)" for grid rng world
    by (simp add: bench_init_states_def Let_def)
  then show ?thesis by (simp add: bench_start_def case_prod_unfold Let_def)
qed

lemma bench_session_returns: "returns (bench_session env s l)"
proof -
  have "returns (encode_session_init_packet (be_blake3 env) s (SnapshotTick 0) (Some 1) SessionV1 l (replicate 128 0))"
    using session_init_panics_iff by (simp add: returns_def HEADER_SIZE_eq del: not_None_eq)
  then show ?thesis unfolding bench_session_def Let_def by (intro returns_rules)
qed

lemma bench_loop_visibility:
  "bench_loop env ops of_i64 args s l dirty session ticks b = Some (Inr b') \<Longrightarrow>
    bn_visibility b' = None \<longleftrightarrow> bn_visibility b = None"
proof (induction ticks arbitrary: b)
  case (Cons tick ticks)
  from Cons.prems obtain b1 where one: "bench_tick env ops of_i64 args s l dirty session tick b = Some (Inr b1)"
    and rest: "bench_loop env ops of_i64 args s l dirty session ticks b1 = Some (Inr b')" by (auto simp: try_then_Inr)
  from one have "bn_visibility b1 = None \<longleftrightarrow> bn_visibility b = None"
    by (rule bench_tick_parts) (auto dest!: bench_visibility_keeps(4))
  with Cons.IH [OF rest] show ?case by simp
qed simp

lemma per_client_summary_returns: "ticks \<noteq> 0 \<Longrightarrow> returns (per_client_summary_new rank ticks stats)"
proof -
  let ?c = "max (pc_clients stats) 1"
  assume "ticks \<noteq> 0"
  moreover have "?c \<noteq> 0" by (auto simp: max_def split: if_splits)
  ultimately have pos: "0 < unat ?c * unat ticks" by (simp add: unat_gt_0)
  have "unat ?c < 2 ^ 32" "unat ticks < 2 ^ 32" using unsigned_less [of ?c] unsigned_less [of ticks] by simp_all
  then have "unat ?c * unat ticks < 2 ^ 32 * 2 ^ 32" by (intro mult_strict_mono) simp_all
  then have "unat (ucast ?c * ucast ticks :: u64) = unat ?c * unat ticks"
    using \<open>unat ?c < 2 ^ 32\<close> \<open>unat ticks < 2 ^ 32\<close> by (simp add: unat_word_ariths(2) unsigned_ucast_eq take_bit_nat_eq_self)
  with pos have "(ucast ?c * ucast ticks :: u64) \<noteq> 0" by (metis less_irrefl unat_0)
  then show ?thesis by (simp add: per_client_summary_new_def returns_def Let_def)
qed

theorem bench_main_returns:
  assumes "bc_scenario args = Visibility \<longrightarrow> ba_ticks args \<noteq> 0 \<and> (ba_players args = 0 \<longrightarrow> ba_clients args = 0)"
  shows "bench_main env ops of_i64 args \<noteq> None"
proof -
  let ?s = "bench_schema (ba_threshold_q args)" and ?l = codec_limits_default
  let ?loop = "bench_loop env ops of_i64 args ?s ?l (session_encoder_new ?s ?l) (session_encoder_new ?s ?l)
    (map of_nat [1..<Suc (unat (ba_ticks args))])"
  have start: "can_run args (bench_start env args session)" for session
    using assms bench_start_states [of env args session] unat_eq_zero [of "ba_players args"]
    by (auto simp: can_run_def bench_start_def Let_def split: prod.split)
  have summary: "returns (summary_new (be_rank env) (ba_ticks args) (bn_stats b) n (map_option snd (bn_visibility b)))"
    if "?loop (bench_start env args session) = Some (Inr b)" for session b n
  proof (cases "bn_visibility b")
    case (Some gs)
    with bench_loop_visibility [OF that] assms have "ba_ticks args \<noteq> 0"
      by (auto simp: bench_start_def Let_def split: prod.splits if_splits)
    from per_client_summary_returns [OF this, of "be_rank env" "snd gs"] Some show ?thesis
      by (auto simp: summary_new_def Let_def returns_def)
  qed (simp add: summary_new_def Let_def returns_def)
  have "returns (bench_main env ops of_i64 args)"
    unfolding bench_main_def bench_schema_valid option.case Let_def
  proof (intro returns_rules bench_session_returns bench_loop_returns start)
    fix x session n b
    assume "map_option (map_err RunFailed) (?loop (bench_start env args session)) = Some (Inr b)"
      and none: "summary_new (be_rank env) (ba_ticks args) (bn_stats b) n (map_option snd (bn_visibility b)) = None"
    then have "?loop (bench_start env args session) = Some (Inr b)" by (auto simp: map_err_Inr_iff)
    from summary [OF this, of n] none show "returns None" by (simp add: returns_def)
  qed
  then show ?thesis by (simp add: returns_def)
qed

theorem bench_main_panics:
  assumes "bc_scenario args = Visibility" and "ba_ticks args = 0" and "\<not> ba_full_only args"
  shows "bench_main env ops of_i64 args = None"
  using assms by (simp add: bench_main_def bench_schema_valid Let_def bench_start_def summary_new_def
      per_client_summary_new_def split: prod.split)

section \<open>What the statistics count\<close>

definition tallied :: "encoder_stats \<Rightarrow> nat \<Rightarrow> bool" where
  "tallied st k \<longleftrightarrow> length (sa_sizes st) = k \<and> sa_count st = of_nat k \<and> sa_total_bytes st = sum_list (sa_sizes st)"

lemma tallied_add: "tallied st k \<Longrightarrow> tallied (add_with_tick bytes us tick st) (Suc k)"
  by (simp add: tallied_def add_with_tick_fields ac_simps)

definition deltas_tallied :: "bench_stats \<Rightarrow> nat \<Rightarrow> bool" where
  "deltas_tallied st k \<longleftrightarrow> tallied (bs_sdec st) k \<and> tallied (bs_dirty st) k \<and> tallied (bs_naive st) k \<and>
    tallied (bs_bincode_delta st) k \<and> tallied (bs_lightyear_delta st) k"

lemma delta_tick_tallied:
  assumes "delta_tick env s l session tick base sn (Some prev) states st = Some (Inr st')" and "deltas_tallied st k"
  shows "deltas_tallied st' (Suc k)" and "bs_full_count st' = bs_full_count st"
  using assms by (auto simp: delta_tick_def Let_def res_simps deltas_tallied_def intro!: tallied_add)

lemma bench_tick_tallied:
  assumes run: "bench_tick env ops of_i64 args s l dirty session (of_nat (Suc n)) b = Some (Inr b')"
    and n: "Suc n < 2 ^ 32" and only: "\<not> ba_full_only args"
    and before: "deltas_tallied (bn_stats b) (n - 1)" "bs_full_count (bn_stats b) = (if n = 0 then 0 else 1)"
      "n \<noteq> 0 \<longrightarrow> bn_last_states b \<noteq> None"
  shows "deltas_tallied (bn_stats b') n" and "bs_full_count (bn_stats b') = 1" and "bn_last_states b' \<noteq> None"
proof -
  from run obtain states rng x y ss st b1 where
    enc: "encode_tick env args s l dirty (of_nat (Suc n)) (build_snapshot (SnapshotTick (of_nat (Suc n))) states)
      (b\<lparr>bn_states := states, bn_rng := rng\<rparr>) ((bn_stats b)\<lparr>bs_bincode_full := x, bs_lightyear_bitcode := y\<rparr>) =
      Some (Inr (ss, st))"
    and vis: "bench_visibility env ops of_i64 args s session (of_nat (Suc n))
      (b\<lparr>bn_states := states, bn_rng := rng, bn_session := ss, bn_stats := st\<rparr>) = Some (Inr b1)"
    and b': "b' = b1\<lparr>bn_last_states := Some states,
      bn_baseline := build_snapshot (SnapshotTick (of_nat (Suc n))) states\<rparr>" by (rule bench_tick_parts)
  let ?st = "(bn_stats b)\<lparr>bs_bincode_full := x, bs_lightyear_bitcode := y\<rparr>"
  have first: "(of_nat (Suc n) :: u32) = 1 \<longleftrightarrow> n = 0"
    using n by (metis One_nat_def Suc_inject of_nat_1 unat_1 unat_of_nat_u32)
  have st: "deltas_tallied ?st (n - 1)" using before(1) by (simp add: deltas_tallied_def)
  have "deltas_tallied st n \<and> bs_full_count st = 1"
  proof (cases "n = 0")
    case True
    with enc only first before(1,2) show ?thesis
      by (auto simp: encode_tick_def res_simps add_full_def deltas_tallied_def simp del: of_nat_Suc)
  next
    case False
    then obtain prev where prev: "bn_last_states b = Some prev" using before(3) by auto
    with enc only first False have "delta_tick env s l dirty (of_nat (Suc n)) (bn_baseline b)
        (build_snapshot (SnapshotTick (of_nat (Suc n))) states) (Some prev) states ?st = Some (Inr st)"
      by (auto simp: encode_tick_def res_simps simp del: of_nat_Suc)
    from delta_tick_tallied [OF this st] False before(2) show ?thesis by simp
  qed
  with bench_visibility_keeps(2) [OF vis] b'
  show "deltas_tallied (bn_stats b') n" "bs_full_count (bn_stats b') = 1" "bn_last_states b' \<noteq> None" by simp_all
qed

lemma bench_ticks_tallied:
  "bench_loop env ops of_i64 args s l dirty session (map of_nat [Suc k..<Suc (k + m)]) b = Some (Inr b') \<Longrightarrow>
    k + m < 2 ^ 32 \<Longrightarrow> \<not> ba_full_only args \<Longrightarrow> deltas_tallied (bn_stats b) (k - 1) \<Longrightarrow>
    bs_full_count (bn_stats b) = (if k = 0 then 0 else 1) \<Longrightarrow> (k \<noteq> 0 \<longrightarrow> bn_last_states b \<noteq> None) \<Longrightarrow>
    deltas_tallied (bn_stats b') (k + m - 1) \<and> bs_full_count (bn_stats b') = (if k + m = 0 then 0 else 1)"
proof (induction m arbitrary: k b)
  case (Suc m)
  have ticks: "map of_nat [Suc k..<Suc (k + Suc m)] = (of_nat (Suc k) :: u32) # map of_nat [Suc (Suc k)..<Suc (Suc k + m)]"
    by (subst upt_conv_Cons) simp_all
  from Suc.prems(1) obtain b1 where
    one: "bench_tick env ops of_i64 args s l dirty session (of_nat (Suc k)) b = Some (Inr b1)"
    and rest: "bench_loop env ops of_i64 args s l dirty session (map of_nat [Suc (Suc k)..<Suc (Suc k + m)]) b1 =
      Some (Inr b')" unfolding ticks bench_loop.simps try_then_Inr by blast
  have "Suc k < 2 ^ 32" using Suc.prems(2) by simp
  note after = bench_tick_tallied [OF one this Suc.prems(3-6)]
  from Suc.IH [OF rest _ Suc.prems(3)] after Suc.prems(2) show ?case by simp
qed simp

theorem bench_loop_tallied:
  fixes ops :: "'f f32_ops"
  assumes "bench_loop env ops of_i64 args s l dirty session (map of_nat [1..<Suc n]) (bench_start env args ss) =
      Some (Inr b)" and "n < 2 ^ 32" and "\<not> ba_full_only args"
  shows "deltas_tallied (bn_stats b) (n - 1)" and "bs_full_count (bn_stats b) = (if n = 0 then 0 else 1)"
proof -
  let ?start = "bench_start env args ss :: 'f bench_state"
  have start: "deltas_tallied (bn_stats ?start) 0" "bs_full_count (bn_stats ?start) = 0"
    by (simp_all add: bench_start_def Let_def bench_stats_default_def deltas_tallied_def tallied_def encoder_stats_default_def
        split: prod.split)
  with bench_ticks_tallied [where k = 0 and m = n, unfolded add_0 One_nat_def [symmetric], OF assms]
  have "deltas_tallied (bn_stats b) (n - 1) \<and> bs_full_count (bn_stats b) = (if n = 0 then 0 else 1)" by simp
  then show "deltas_tallied (bn_stats b) (n - 1)" "bs_full_count (bn_stats b) = (if n = 0 then 0 else 1)"
    by (rule conjunct1, rule conjunct2)
qed

end
