(* ===== verification/Bench_Breakdown.thy ===== *)
theory Bench_Breakdown
  imports Packet_Tools Bench_Diff
begin

text \<open>
  The breakdown of the packets that the visibility scenario of the benchmark prints
  (\<^verbatim>\<open>record_client_breakdown_packet\<close> of \<^verbatim>\<open>simbench/src/main.rs\<close>), and how its counters relate to the packet
  and to the update summary of the inspection tool.
\<close>

section \<open>The counters\<close>

record client_breakdown =
  cb_packets :: u64
  cb_packet_bytes :: u64
  cb_destroy_bytes :: u64
  cb_create_bytes :: u64
  cb_update_masked_bytes :: u64
  cb_update_sparse_bytes :: u64
  cb_update_entities :: u64
  cb_update_components :: u64
  cb_update_fields :: u64

definition client_breakdown_default :: client_breakdown where
  "client_breakdown_default =
    \<lparr>cb_packets = 0, cb_packet_bytes = 0, cb_destroy_bytes = 0, cb_create_bytes = 0, cb_update_masked_bytes = 0,
     cb_update_sparse_bytes = 0, cb_update_entities = 0, cb_update_components = 0, cb_update_fields = 0\<rparr>"

definition count_section :: "wire_section \<Rightarrow> client_breakdown \<Rightarrow> client_breakdown" where
  "count_section sec b =
    (let n = of_nat (length (ws_body sec)) in
     case ws_tag sec of
       EntityDestroy \<Rightarrow> b\<lparr>cb_destroy_bytes := cb_destroy_bytes b + n\<rparr>
     | EntityCreate \<Rightarrow> b\<lparr>cb_create_bytes := cb_create_bytes b + n\<rparr>
     | EntityUpdate \<Rightarrow> b\<lparr>cb_update_masked_bytes := cb_update_masked_bytes b + n\<rparr>
     | EntityUpdateSparse \<Rightarrow> b\<lparr>cb_update_sparse_bytes := cb_update_sparse_bytes b + n\<rparr>
     | EntityUpdateSparsePacked \<Rightarrow> b\<lparr>cb_update_sparse_bytes := cb_update_sparse_bytes b + n\<rparr>
     | _ \<Rightarrow> b)"

definition count_component :: "delta_update_component \<Rightarrow> client_breakdown \<Rightarrow> client_breakdown" where
  "count_component component b = b\<lparr>cb_update_fields := cb_update_fields b + of_nat (length (uc_fields component))\<rparr>"

definition count_entity :: "delta_update_entity \<Rightarrow> client_breakdown \<Rightarrow> client_breakdown" where
  "count_entity entity b =
    fold count_component (ue_components entity)
      (b\<lparr>cb_update_components := cb_update_components b + of_nat (length (ue_components entity))\<rparr>)"

text \<open>The breakdown is changed in place, also when the packet's updates do not decode.\<close>

definition record_client_breakdown_packet ::
  "(u8 list \<Rightarrow> u8 list) \<Rightarrow> schema \<Rightarrow> u8 list \<Rightarrow> client_breakdown \<Rightarrow> (bench_error + unit) \<times> client_breakdown" where
  "record_client_breakdown_packet blake3 s bytes b =
    (case decode_packet bytes limits_default of
       Inl e \<Rightarrow> (Inl (BenchDecode e), b)
     | Inr packet \<Rightarrow>
         let b = b\<lparr>cb_packets := cb_packets b + 1, cb_packet_bytes := cb_packet_bytes b + of_nat (length bytes)\<rparr>;
             b = fold count_section (wp_sections packet) b
         in if is_delta_snapshot (ph_flags (wp_header packet)) then
              (case decode_delta_packet blake3 s packet codec_limits_default of
                 Inl e \<Rightarrow> (Inl (BenchCodec e), b)
               | Inr decoded \<Rightarrow>
                   let b = b\<lparr>cb_update_entities := cb_update_entities b + of_nat (length (dd_updates decoded))\<rparr>
                   in (Inr (), fold count_entity (dd_updates decoded) b))
            else (Inr (), b))"

section \<open>What they count\<close>

definition section_total :: "client_breakdown \<Rightarrow> u64" where
  "section_total b = cb_destroy_bytes b + cb_create_bytes b + cb_update_masked_bytes b + cb_update_sparse_bytes b"

lemma count_sections_fields:
  "cb_update_entities (fold count_section secs b) = cb_update_entities b"
  "cb_update_components (fold count_section secs b) = cb_update_components b"
  "cb_update_fields (fold count_section secs b) = cb_update_fields b"
  "cb_packets (fold count_section secs b) = cb_packets b"
  "cb_packet_bytes (fold count_section secs b) = cb_packet_bytes b"
  by (induction secs arbitrary: b) (simp_all add: count_section_def Let_def split: section_tag.split)

lemma count_sections_total:
  "\<forall>sec \<in> set secs. ws_tag sec \<noteq> SessionInit \<Longrightarrow>
    section_total (fold count_section secs b) = section_total b + of_nat (\<Sum>sec \<leftarrow> secs. length (ws_body sec))"
proof (induction secs arbitrary: b)
  case (Cons sec secs)
  have "section_total (count_section sec b) = section_total b + of_nat (length (ws_body sec))"
    using Cons.prems by (simp add: count_section_def section_total_def Let_def split: section_tag.split)
  with Cons.IH [of "count_section sec b"] Cons.prems show ?case by simp
qed simp

lemma count_components: "fold count_component cs b =
    b\<lparr>cb_update_fields := cb_update_fields b + of_nat (\<Sum>c \<leftarrow> cs. length (uc_fields c))\<rparr>"
  by (induction cs arbitrary: b) (simp_all add: count_component_def ac_simps)

lemma count_entities: "fold count_entity us b =
    b\<lparr>cb_update_components := cb_update_components b + of_nat (\<Sum>u \<leftarrow> us. length (ue_components u)),
      cb_update_fields := cb_update_fields b + of_nat (\<Sum>u \<leftarrow> us. \<Sum>c \<leftarrow> ue_components u. length (uc_fields c))\<rparr>"
  by (induction us arbitrary: b) (simp_all add: count_entity_def count_components ac_simps)

text \<open>The counters of a delta packet are those of the inspection tool.\<close>

theorem breakdown_is_summary:
  assumes "record_client_breakdown_packet blake3 s bytes client_breakdown_default = (Inr (), b)"
    and "decode_packet bytes limits_default = Inr packet"
    and "decode_delta_packet blake3 s packet codec_limits_default = Inr decoded"
    and "is_delta_snapshot (ph_flags (wp_header packet))"
  shows "cb_update_components b = of_nat (us_changed_components (summarize_updates (dd_updates decoded)))"
    and "cb_update_fields b = of_nat (us_changed_fields (summarize_updates (dd_updates decoded)))"
    and "cb_update_entities b = of_nat (length (dd_updates decoded))" and "cb_packet_bytes b = of_nat (length bytes)"
proof -
  let ?start = "client_breakdown_default\<lparr>cb_packets := 1, cb_packet_bytes := of_nat (length bytes)\<rparr>"
  let ?us = "dd_updates decoded" and ?counted = "fold count_section (wp_sections packet) ?start"
  have "b = fold count_entity ?us (?counted\<lparr>cb_update_entities := cb_update_entities ?counted + of_nat (length ?us)\<rparr>)"
    using assms by (simp add: record_client_breakdown_packet_def Let_def) (simp add: client_breakdown_default_def)
  moreover have "cb_update_components ?counted = 0" "cb_update_fields ?counted = 0" "cb_update_entities ?counted = 0"
      "cb_packet_bytes ?counted = of_nat (length bytes)"
    by (simp_all add: count_sections_fields client_breakdown_default_def)
  ultimately show "cb_update_components b = of_nat (us_changed_components (summarize_updates ?us))"
    and "cb_update_fields b = of_nat (us_changed_fields (summarize_updates ?us))"
    and "cb_update_entities b = of_nat (length ?us)" and "cb_packet_bytes b = of_nat (length bytes)"
    using summary_adds_up [of ?us] by (simp_all add: count_entities)
qed

lemma framed_bodies: "framed payload secs \<Longrightarrow> (\<Sum>sec \<leftarrow> secs. length (ws_body sec)) + length secs \<le> length payload"
  by (induction rule: framed.induct) simp_all

text \<open>The section bytes are what is left of the packet when the header and the framing are taken off.\<close>

theorem breakdown_within_packet:
  assumes "decode_packet bytes limits_default = Inr packet" and "\<forall>sec \<in> set (wp_sections packet). ws_tag sec \<noteq> SessionInit"
  shows "unat (section_total (snd (record_client_breakdown_packet blake3 s bytes client_breakdown_default))) +
    length (wp_sections packet) + HEADER_SIZE \<le> length bytes"
proof -
  let ?total = "\<Sum>sec \<leftarrow> wp_sections packet. length (ws_body sec)"
  from assms(1) [unfolded decode_packet_iff] have size: "HEADER_SIZE \<le> length bytes" "length bytes \<le> 64 * 1024"
    and framed: "framed (drop HEADER_SIZE bytes) (wp_sections packet)" by (simp_all add: limits_default_def)
  from framed_bodies [OF framed] size(1) have within: "?total + length (wp_sections packet) + HEADER_SIZE \<le> length bytes" by simp
  have keep: "section_total (fold count_entity us (b\<lparr>cb_update_entities := n\<rparr>)) = section_total b" for us b n
    by (simp add: count_entities section_total_def)
  have "section_total (snd (record_client_breakdown_packet blake3 s bytes client_breakdown_default)) = of_nat ?total"
    using count_sections_total [OF assms(2)] assms(1)
    by (auto simp: record_client_breakdown_packet_def Let_def keep split: sum.split)
      (simp_all add: section_total_def client_breakdown_default_def)
  moreover have "?total < 2 ^ 64" using within size(2) by simp
  ultimately show ?thesis using within by (simp add: unsigned_of_nat take_bit_nat_eq_self)
qed

end
