(* ===== verification/Sim_Summary.thy ===== *)
theory Sim_Summary
  imports Sim_Capture Bench_Baselines
begin

text \<open>
  The summary of the simulator's capture run (\<^verbatim>\<open>Summary\<close> of \<^verbatim>\<open>demo-sim/src/main.rs\<close>): what is pushed during the
  run, the averages and the percentile computed at the end, and the budgets they are held against.  The
  rank \<^verbatim>\<open>((len as f64) * 0.95).ceil()\<close> is a parameter, as in the benchmark.
\<close>

section \<open>The summary\<close>

record sim_summary =
  sy_players :: u32
  sy_clients :: u32
  sy_ticks :: u32
  sy_seed :: u64
  sy_burst_every :: "u32 option"
  sy_session_init_bytes :: u64
  sy_full_count :: u32
  sy_delta_count :: u32
  sy_full_bytes_total :: u64
  sy_delta_bytes_total :: u64
  sy_avg_bytes_per_client_tick :: u64
  sy_avg_delta_bytes :: u64
  sy_p95_delta_bytes :: u64
  sy_delta_sizes :: "u64 list"

definition sim_summary_new :: "u32 \<Rightarrow> u32 \<Rightarrow> u32 \<Rightarrow> u64 \<Rightarrow> u32 option \<Rightarrow> sim_summary" where
  "sim_summary_new players clients ticks seed burst_every =
    \<lparr>sy_players = players, sy_clients = clients, sy_ticks = ticks, sy_seed = seed, sy_burst_every = burst_every,
     sy_session_init_bytes = 0, sy_full_count = 0, sy_delta_count = 0, sy_full_bytes_total = 0,
     sy_delta_bytes_total = 0, sy_avg_bytes_per_client_tick = 0, sy_avg_delta_bytes = 0, sy_p95_delta_bytes = 0,
     sy_delta_sizes = []\<rparr>"

definition set_session_init_bytes :: "u64 \<Rightarrow> sim_summary \<Rightarrow> sim_summary" where
  "set_session_init_bytes bytes y = y\<lparr>sy_session_init_bytes := bytes\<rparr>"

definition push_full :: "u64 \<Rightarrow> sim_summary \<Rightarrow> sim_summary" where
  "push_full bytes y =
    y\<lparr>sy_full_count := sy_full_count y + 1, sy_full_bytes_total := sy_full_bytes_total y + bytes\<rparr>"

definition push_delta :: "u64 \<Rightarrow> sim_summary \<Rightarrow> sim_summary" where
  "push_delta bytes y =
    y\<lparr>sy_delta_count := sy_delta_count y + 1, sy_delta_bytes_total := sy_delta_bytes_total y + bytes,
      sy_delta_sizes := sy_delta_sizes y @ [bytes]\<rparr>"

text \<open>The product of two 32-bit numbers does not saturate.\<close>

definition sim_finalize :: "(usize \<Rightarrow> usize) \<Rightarrow> sim_summary \<Rightarrow> sim_summary" where
  "sim_finalize rank y =
    (let y = (if sy_ticks y > 0 \<and> sy_clients y > 0 then
          let denom = ucast (sy_ticks y) * ucast (sy_clients y)
          in y\<lparr>sy_avg_bytes_per_client_tick := (sy_full_bytes_total y + sy_delta_bytes_total y) div denom\<rparr>
        else y)
     in if sy_delta_count y > 0 then
          let sizes = sort (sy_delta_sizes y);
              idx = min (rank (length sizes) - 1) (length sizes - 1)
          in y\<lparr>sy_avg_delta_bytes := sy_delta_bytes_total y div ucast (sy_delta_count y), sy_delta_sizes := sizes,
               sy_p95_delta_bytes := sizes ! idx\<rparr>
        else y)"

definition sim_assert_budgets :: "u64 option \<Rightarrow> u64 option \<Rightarrow> sim_summary \<Rightarrow> budget_error + unit" where
  "sim_assert_budgets max_p95 max_avg y =
    and_then (case max_p95 of
        Some limit \<Rightarrow> if sy_p95_delta_bytes y > limit then Inl (OverP95 (sy_p95_delta_bytes y) limit) else Inr ()
      | None \<Rightarrow> Inr ()) (\<lambda>_.
    case max_avg of
        Some limit \<Rightarrow> if sy_avg_delta_bytes y > limit then Inl (OverAverage (sy_avg_delta_bytes y) limit) else Inr ()
      | None \<Rightarrow> Inr ())"

section \<open>What a passed budget says\<close>

text \<open>The summary of a run: the full snapshots of the first tick, then the deltas.\<close>

abbreviation run_summary :: "sim_summary \<Rightarrow> u64 list \<Rightarrow> u64 list \<Rightarrow> sim_summary" where
  "run_summary y fulls deltas \<equiv> fold push_delta deltas (fold push_full fulls y)"

lemma run_summary_fields:
  assumes "sy_full_count y = 0" "sy_delta_count y = 0" "sy_full_bytes_total y = 0" "sy_delta_bytes_total y = 0"
    "sy_delta_sizes y = []"
  shows "sy_full_count (run_summary y fulls deltas) = of_nat (length fulls)"
    "sy_full_bytes_total (run_summary y fulls deltas) = sum_list fulls"
    "sy_delta_count (run_summary y fulls deltas) = of_nat (length deltas)"
    "sy_delta_bytes_total (run_summary y fulls deltas) = sum_list deltas"
    "sy_delta_sizes (run_summary y fulls deltas) = deltas"
    "sy_ticks (run_summary y fulls deltas) = sy_ticks y" "sy_clients (run_summary y fulls deltas) = sy_clients y"
proof -
  have full: "sy_full_count (fold push_full fulls y) = of_nat (length fulls) \<and>
      sy_full_bytes_total (fold push_full fulls y) = sum_list fulls \<and> sy_delta_count (fold push_full fulls y) = 0 \<and>
      sy_delta_bytes_total (fold push_full fulls y) = 0 \<and> sy_delta_sizes (fold push_full fulls y) = [] \<and>
      sy_ticks (fold push_full fulls y) = sy_ticks y \<and> sy_clients (fold push_full fulls y) = sy_clients y" for fulls
    using assms by (induction fulls rule: rev_induct) (simp_all add: push_full_def ac_simps)
  show "sy_full_count (run_summary y fulls deltas) = of_nat (length fulls)"
    "sy_full_bytes_total (run_summary y fulls deltas) = sum_list fulls"
    "sy_delta_count (run_summary y fulls deltas) = of_nat (length deltas)"
    "sy_delta_bytes_total (run_summary y fulls deltas) = sum_list deltas"
    "sy_delta_sizes (run_summary y fulls deltas) = deltas"
    "sy_ticks (run_summary y fulls deltas) = sy_ticks y" "sy_clients (run_summary y fulls deltas) = sy_clients y"
    using full [of fulls] by (induction deltas rule: rev_induct) (simp_all add: push_delta_def ac_simps)
qed

lemma finalized_percentile:
  assumes "sy_delta_count y > 0"
  shows "sy_p95_delta_bytes (sim_finalize rank y) = p95 rank (sy_delta_sizes y)"
    and "sy_avg_delta_bytes (sim_finalize rank y) = sy_delta_bytes_total y div ucast (sy_delta_count y)"
  using assms by (simp_all add: sim_finalize_def p95_def Let_def)

text \<open>
  When the percentile budget passes, at least as many delta packets as the rank says were within it.
\<close>

theorem budget_holds:
  assumes y: "y = run_summary (sim_summary_new players clients ticks seed burst) fulls deltas"
    and some: "deltas \<noteq> []" "length deltas < 2 ^ 32"
    and rank: "0 < rank (length deltas)" "rank (length deltas) \<le> length deltas"
    and passed: "sim_assert_budgets (Some limit) max_avg (sim_finalize rank y) = Inr ()"
  shows "rank (length deltas) \<le> length (filter (\<lambda>bytes. bytes \<le> limit) deltas)"
proof -
  note fields = run_summary_fields [where y = "sim_summary_new players clients ticks seed burst" and fulls = fulls and deltas = deltas,
      folded y]
  have sizes: "sy_delta_sizes y = deltas" "sy_delta_count y = of_nat (length deltas)"
    using fields by (simp_all add: sim_summary_new_def)
  have "(of_nat (length deltas) :: u32) \<noteq> 0"
  proof
    assume "(of_nat (length deltas) :: u32) = 0"
    then have "unat (of_nat (length deltas) :: u32) = 0" by simp
    with some show False by (simp add: unat_of_nat_u32)
  qed
  then have "sy_delta_count y > 0" by (simp add: sizes word_neq_0_conv)
  from passed finalized_percentile(1) [OF this, of rank] have "p95 rank deltas \<le> limit"
    by (auto simp: sim_assert_budgets_def sizes res_simps not_less split: if_splits)
  then have "filter (\<lambda>v. v \<le> p95 rank deltas) deltas = filter (\<lambda>v. v \<le> p95 rank deltas) (filter (\<lambda>v. v \<le> limit) deltas)"
    by (auto intro: filter_cong)
  then have "length (filter (\<lambda>v. v \<le> p95 rank deltas) deltas) \<le> length (filter (\<lambda>v. v \<le> limit) deltas)"
    by (metis length_filter_le)
  with p95_rank [of deltas rank] some(1) rank show ?thesis by simp
qed

end
