(* ===== verification/Tools_Pretty.thy ===== *)
theory Tools_Pretty
  imports Packet_Tools
begin

text \<open>
  The readable listing of a decoded packet (\<^verbatim>\<open>format_decode_pretty\<close> of \<^verbatim>\<open>tools/src/lib.rs\<close>), line by line,
  with the number formats it uses, and what the listing shows.
\<close>

section \<open>Numbers\<close>

definition hex_char :: "nat \<Rightarrow> char" where
  "hex_char d = ''0123456789abcdef'' ! d"

text \<open>\<^verbatim>\<open>{:04x}\<close> and \<^verbatim>\<open>{:016x}\<close>: as many digits as the type has.\<close>

fun show_hex :: "nat \<Rightarrow> nat \<Rightarrow> string" where
  "show_hex 0 n = []"
| "show_hex (Suc w) n = show_hex w (n div 16) @ [hex_char (n mod 16)]"

definition show_int :: "int \<Rightarrow> string" where
  "show_int n = (if n < 0 then ''-'' @ show_nat (nat (- n)) else show_nat (nat n))"

fun show_json :: "json_value \<Rightarrow> string" where
  "show_json (JsonBool b) = (if b then ''true'' else ''false'')"
| "show_json (JsonNumber n) = show_int n"

text \<open>\<^verbatim>\<open>join\<close>, of lines with a line feed and of list items with a comma.\<close>

fun join_with :: "string \<Rightarrow> string list \<Rightarrow> string" where
  "join_with sep [] = []"
| "join_with sep [x] = x"
| "join_with sep (x # y # xs) = x @ sep @ join_with sep (y # xs)"

definition show_ids :: "u32 list \<Rightarrow> string" where
  "show_ids ids = ''['' @ join_with '', '' (map (\<lambda>i. show_nat (unat i)) ids) @ '']''"

section \<open>The listing\<close>

definition field_line :: "field_value_output \<Rightarrow> string" where
  "field_line field = ''      '' @ fo_kind field @ '' = '' @ show_json (fo_value field)"

definition component_lines :: "full_component_output \<Rightarrow> string list" where
  "component_lines component =
    (''    component '' @ show_nat (unat (fco_id component))) # map field_line (fco_fields component)"

definition entity_lines :: "string \<Rightarrow> full_entity_output \<Rightarrow> string list" where
  "entity_lines label entity =
    (''  '' @ label @ '' '' @ show_nat (unat (feo_id entity))) # concat (map component_lines (feo_components entity))"

definition update_field_line :: "delta_update_field_output \<Rightarrow> string" where
  "update_field_line field =
    ''      field['' @ show_nat (dfo_index field) @ ''] = '' @ show_json (fo_value (dfo_value field))"

definition update_component_lines :: "delta_update_component_output \<Rightarrow> string list" where
  "update_component_lines component =
    (''    component '' @ show_nat (unat (duc_id component))) # map update_field_line (duc_fields component)"

definition update_lines :: "delta_update_entity_output \<Rightarrow> string list" where
  "update_lines entity =
    (''  update '' @ show_nat (unat (due_id entity))) # concat (map update_component_lines (due_components entity))"

definition header_lines :: "decode_output \<Rightarrow> string list" where
  "header_lines output =
    (let header = do_header output in
     [''kind: '' @ do_kind output,
      ''version: '' @ show_nat (unat (ho_version header)) @ '' flags: 0x'' @ show_hex 4 (unat (ho_flags_raw header)) @
        '' schema_hash: 0x'' @ show_hex 16 (unat (ho_schema_hash header)),
      ''tick: '' @ show_nat (unat (ho_tick header)) @ '' baseline_tick: '' @ show_nat (unat (ho_baseline_tick header)) @
        '' payload_len: '' @ show_nat (unat (ho_payload_len header))])"

definition full_lines :: "full_snapshot_output_rec \<Rightarrow> string list" where
  "full_lines full =
    (''entities: '' @ show_nat (length (fso_entities full))) # concat (map (entity_lines ''entity'') (fso_entities full))"

definition delta_lines :: "delta_snapshot_output_rec \<Rightarrow> string list" where
  "delta_lines delta =
    [''destroys: '' @ show_nat (length (dso_destroys delta))] @
    (if dso_destroys delta = [] then [] else [''  ids: '' @ show_ids (dso_destroys delta)]) @
    [''creates: '' @ show_nat (length (dso_creates delta))] @
    concat (map (entity_lines ''create'') (dso_creates delta)) @
    [''updates: '' @ show_nat (length (dso_updates delta))] @
    concat (map update_lines (dso_updates delta))"

definition pretty_lines :: "decode_output \<Rightarrow> string list" where
  "pretty_lines output =
    header_lines output @
    (case do_full_snapshot output of Some full \<Rightarrow> full_lines full | None \<Rightarrow> []) @
    (case do_delta_snapshot output of Some delta \<Rightarrow> delta_lines delta | None \<Rightarrow> [])"

definition format_decode_pretty :: "decode_output \<Rightarrow> string" where
  "format_decode_pretty output = join_with ''\<newline>'' (pretty_lines output)"

section \<open>Every value has its line\<close>

lemma length_show_hex [simp]: "length (show_hex w n) = w"
  by (induction w arbitrary: n) simp_all

lemma hex_char_inject: "a < 16 \<Longrightarrow> b < 16 \<Longrightarrow> hex_char a = hex_char b \<longleftrightarrow> a = b"
  unfolding hex_char_def by (rule nth_eq_iff_index_eq) simp_all

text \<open>A hash or a flag word can be read off its digits.\<close>

lemma show_hex_inject: "show_hex w a = show_hex w b \<longleftrightarrow> a mod 16 ^ w = b mod 16 ^ w"
proof (induction w arbitrary: a b)
  case (Suc w)
  have split: "n mod 16 ^ Suc w = 16 * (n div 16 mod 16 ^ w) + n mod 16" for n :: nat
    unfolding power_Suc by (rule mod_mult2_eq)
  have digits: "16 * x + a mod 16 = 16 * y + b mod 16 \<longleftrightarrow> x = y \<and> a mod 16 = b mod 16" for x y :: nat
  proof
    assume eq: "16 * x + a mod 16 = 16 * y + b mod 16"
    show "x = y \<and> a mod 16 = b mod 16"
      using arg_cong [OF eq, of "\<lambda>n. n div 16"] arg_cong [OF eq, of "\<lambda>n. n mod 16"] by simp
  qed simp
  show ?case unfolding split digits by (simp add: Suc.IH hex_char_inject)
qed simp

theorem shown_hash_exact: "show_hex 16 (unat (a :: u64)) = show_hex 16 (unat b) \<longleftrightarrow> a = b"
proof -
  have "unat c mod 16 ^ 16 = unat c" for c :: u64 using unsigned_less [of c] by (intro mod_less) simp
  then show ?thesis unfolding show_hex_inject by (auto dest: unsigned_word_eqI)
qed

definition snapshot_field_count :: "snapshot \<Rightarrow> usize" where
  "snapshot_field_count sn = sum_list (map (\<lambda>e. sum_list (map (\<lambda>c. length (cs_fields c)) (es_components e))) (sn_entities sn))"

lemma length_entity_lines:
  "length (entity_lines label (full_entity_output_of e)) =
    Suc (length (es_components e) + sum_list (map (\<lambda>c. length (cs_fields c)) (es_components e)))"
proof -
  have "length (component_lines (full_component_output_of c)) = Suc (length (cs_fields c))" for c
    by (simp add: component_lines_def full_component_output_of_def)
  then have "length (concat (map component_lines (map full_component_output_of cs))) =
      length cs + sum_list (map (\<lambda>c. length (cs_fields c)) cs)" for cs
    by (induction cs) simp_all
  then show ?thesis by (simp add: entity_lines_def full_entity_output_of_def)
qed

theorem full_listing_complete:
  assumes "build_decode_output blake3 s p l = Inr output" and "is_full_snapshot (ph_flags (wp_header p))"
    and "decode_full_snapshot_from_packet blake3 s p l = Inr sn"
  shows "length (pretty_lines output) = 4 + length (sn_entities sn) +
    sum_list (map (\<lambda>e. length (es_components e)) (sn_entities sn)) + snapshot_field_count sn"
proof -
  have "length (concat (map (entity_lines label) (map full_entity_output_of es))) = length es +
      sum_list (map (\<lambda>e. length (es_components e)) es) +
      sum_list (map (\<lambda>e. sum_list (map (\<lambda>c. length (cs_fields c)) (es_components e))) es)" for label es
    by (induction es) (simp_all add: length_entity_lines)
  moreover have "do_full_snapshot output = Some (full_snapshot_output sn)" "do_delta_snapshot output = None"
    using assms by (auto simp: build_decode_output_def Let_def res_simps)
  ultimately show ?thesis
    by (simp add: Let_def pretty_lines_def header_lines_def full_lines_def full_snapshot_output_def snapshot_field_count_def)
qed

end
