(* ===== verification/Demo_Component.thy ===== *)
theory Demo_Component
  imports Bevy_Replicator Graph_Steps
begin

text \<open>
  The demonstration's component (\<^verbatim>\<open>sdec-bevy-demo/src/main.rs\<close>): \<^verbatim>\<open>PositionYaw\<close> and its implementation of
  the component trait, the world view it gives to the replication graph, the visibility test and the
  digest that compares server and client.
\<close>

section \<open>The component\<close>

record position_yaw =
  py_x :: i64
  py_y :: i64
  py_yaw :: u16

definition position_fields :: "replicated_field list" where
  "position_fields =
    [\<lparr>rf_id = 1, rf_codec = codec_fixed_point (- 100000) 100000 100, rf_change = None\<rparr>,
     \<lparr>rf_id = 2, rf_codec = codec_fixed_point (- 100000) 100000 100, rf_change = None\<rparr>,
     \<lparr>rf_id = 3, rf_codec = codec_uint 12, rf_change = None\<rparr>]"

definition position_read_fields :: "position_yaw \<Rightarrow> field_value list" where
  "position_read_fields p = [FixedPointV (py_x p), FixedPointV (py_y p), UIntV (ucast (py_yaw p))]"

definition position_apply_field :: "usize \<Rightarrow> field_value \<Rightarrow> position_yaw \<Rightarrow> (bevy_error + unit) \<times> position_yaw" where
  "position_apply_field index v p =
    (case v of
       FixedPointV n \<Rightarrow>
         if index = 0 then (Inr (), p\<lparr>py_x := n\<rparr>)
         else if index = 1 then (Inr (), p\<lparr>py_y := n\<rparr>)
         else (Inl (ComponentRejected ''invalid field index/value''), p)
     | UIntV n \<Rightarrow>
         if index = 2 then (Inr (), p\<lparr>py_yaw := ucast n\<rparr>)
         else (Inl (ComponentRejected ''invalid field index/value''), p)
     | _ \<Rightarrow> (Inl (ComponentRejected ''invalid field index/value''), p))"

definition position_from_fields :: "field_value list \<Rightarrow> bevy_error + position_yaw" where
  "position_from_fields fs =
    (if length fs \<noteq> 3 then Inl (ComponentRejected ''expected 3 fields'')
     else
       and_then (case fs ! 0 of FixedPointV v \<Rightarrow> Inr v | _ \<Rightarrow> Inl (ComponentRejected ''invalid field 0'')) (\<lambda>x.
       and_then (case fs ! 1 of FixedPointV v \<Rightarrow> Inr v | _ \<Rightarrow> Inl (ComponentRejected ''invalid field 1'')) (\<lambda>y.
       and_then (case fs ! 2 of UIntV v \<Rightarrow> Inr (ucast v) | _ \<Rightarrow> Inl (ComponentRejected ''invalid field 2'')) (\<lambda>yaw.
         Inr \<lparr>py_x = x, py_y = y, py_yaw = yaw\<rparr>))))"

text \<open>\<open>t\<close> is the component's \<^verbatim>\<open>TypeId\<close>.\<close>

definition position_component :: "type_id \<Rightarrow> position_yaw replicated" where
  "position_component t =
    \<lparr>rt_type = t, rt_component_id = 1, rt_fields = position_fields, rt_read_fields = position_read_fields,
     rt_apply_field = position_apply_field, rt_from_fields = position_from_fields\<rparr>"

text \<open>
  The component keeps the yaw in 16 bits: a larger unsigned value is truncated, so the laws hold for the
  values below \<open>2 ^ 16\<close>.  The codec of the field decodes only values below \<open>2 ^ 12\<close>.
\<close>

definition position_valid :: "usize \<Rightarrow> field_value \<Rightarrow> bool" where
  "position_valid index v \<longleftrightarrow> (case v of UIntV n \<Rightarrow> n < 65536 | _ \<Rightarrow> True)"

lemma yaw_kept: "n < 65536 \<Longrightarrow> ucast (ucast n :: u16) = n" for n :: u64
  by (simp add: word_uint_eq_iff unsigned_ucast_eq unsigned_take_bit_eq take_bit_int_eq_self word_less_def)

lemma yaw_lost: "position_from_fields [FixedPointV 0, FixedPointV 0, UIntV 65536] = Inr \<lparr>py_x = 0, py_y = 0, py_yaw = 0\<rparr>"
  by (simp add: position_from_fields_def)

interpretation position: replicated_component "position_component t" position_valid
proof
  fix fs c assume "rt_from_fields (position_component t) fs = Inr c" "\<forall>i < length fs. position_valid i (fs ! i)"
  moreover from this obtain a b d where "fs = [a, b, d]"
    by (auto simp: position_component_def position_from_fields_def length_Suc_conv numeral_3_eq_3 split: if_splits)
  ultimately show "rt_read_fields (position_component t) c = fs"
    by (auto simp: position_component_def position_from_fields_def position_read_fields_def position_valid_def
        yaw_kept res_simps split: field_value.splits)
next
  fix index v c c' assume "rt_apply_field (position_component t) index v c = (Inr (), c')" "position_valid index v"
  then show "rt_read_fields (position_component t) c' = (rt_read_fields (position_component t) c)[index := v]"
    by (auto simp: position_component_def position_apply_field_def position_read_fields_def position_valid_def
        yaw_kept numeral_2_eq_2 split: field_value.splits if_splits)
qed (simp add: position_component_def position_fields_def position_read_fields_def)

section \<open>The registry of the demonstration\<close>

definition position_adapter :: "type_id \<Rightarrow> position_yaw component_adapter" where
  "position_adapter t = \<lparr>ca_trait = position_component t, ca_component_id = ComponentId 1, ca_fields = position_fields\<rparr>"

definition position_schema :: "type_id \<Rightarrow> position_yaw bevy_schema" where
  "position_schema t =
    \<lparr>bs_schema = \<lparr>components = [\<lparr>cd_id = ComponentId 1, cd_fields =
       [field_def_new (FieldId 1) (codec_fixed_point (- 100000) 100000 100),
        field_def_new (FieldId 2) (codec_fixed_point (- 100000) 100000 100),
        field_def_new (FieldId 3) (codec_uint 12)]\<rparr>]\<rparr>,
     bs_adapters = [position_adapter t], bs_index = [ComponentId 1 \<mapsto> 0]\<rparr>"

lemma position_registered: "bevy_component (position_component t) [] = Some [position_adapter t]"
  by (simp add: bevy_component_def adapter_new_def component_id_new_def position_component_def position_adapter_def)

lemma position_built: "bevy_build [position_adapter t] = Some (Inr (position_schema t))"
  by (simp add: bevy_build_def schema_def_def build_field_defs_def build_field_def_def position_adapter_def
      position_fields_def field_id_new_def field_def_new_def component_def_field_def component_def_new_def
      schema_new_def schema_validate_def validate_field_def validate_fixed_point_def codec_fixed_point_def
      fixed_point_new_def codec_uint_def position_schema_def Let_def)

lemma position_engine_ok:
  assumes "world_laws ops alive"
  shows "engine_ok ops alive (\<lambda>_. position_valid) (position_schema t)"
proof -
  have "adapters_ok [position_adapter t]" using bevy_component_ok [OF adapters_ok_Nil position_registered] .
  with bevy_build_ok [OF this position_built] assms position.replicated_component_axioms show ?thesis
    by (simp add: engine_ok_def position_schema_def position_adapter_def)
qed

section \<open>The world view\<close>

definition demo_world_view ::
  "('w, 'e, 'c) world_ops \<Rightarrow> 'c bevy_schema \<Rightarrow> 'w \<Rightarrow> 'e entity_map \<Rightarrow> world_view" where
  "demo_world_view ops bs world m =
    \<lparr>wv_snapshot = (\<lambda>i.
       case map_entity i m of
         None \<Rightarrow> \<lparr>es_id = i, es_components = []\<rparr>
       | Some e \<Rightarrow> \<lparr>es_id = i, es_components = snapshot_entity ops bs world e\<rparr>),
     wv_update = (\<lambda>i dirty. Option.bind (map_entity i m) (\<lambda>e. build_delta_update ops bs world e i dirty))\<rparr>"

interpretation demo_view: world_contract "demo_world_view ops bs world m" entities
  by unfold_locales
    (auto simp: demo_world_view_def build_delta_update_def bind_eq_Some_conv split: option.split if_splits)

section \<open>Visibility and digests\<close>

definition i64_sat :: "int \<Rightarrow> i64" where
  "i64_sat v = word_of_int (max (- (2 ^ 63)) (min (2 ^ 63 - 1) v))"

definition i64_saturating_mul :: "i64 \<Rightarrow> i64 \<Rightarrow> i64" where
  "i64_saturating_mul a b = i64_sat (sint a * sint b)"

definition i64_saturating_add :: "i64 \<Rightarrow> i64 \<Rightarrow> i64" where
  "i64_saturating_add a b = i64_sat (sint a + sint b)"

definition in_view :: "i64 \<times> i64 \<Rightarrow> i64 \<Rightarrow> position_yaw \<Rightarrow> bool" where
  "in_view client_pos radius pos \<longleftrightarrow>
    (let radius_sq = i64_saturating_mul radius radius;
         dx = py_x pos - fst client_pos;
         dy = py_y pos - snd client_pos;
         dist_sq = i64_saturating_add (i64_saturating_mul dx dx) (i64_saturating_mul dy dy)
     in sint dist_sq \<le> sint radius_sq)"

definition visible_entity_ids_snapshot ::
  "(entity_id \<times> position_yaw) list \<Rightarrow> i64 \<times> i64 \<Rightarrow> i64 \<Rightarrow> entity_id set" where
  "visible_entity_ids_snapshot entities client_pos radius =
    set (map fst (filter (\<lambda>(i, pos). in_view client_pos radius pos) entities))"

definition mix_hash :: "u64 \<Rightarrow> position_yaw \<Rightarrow> u64" where
  "mix_hash hash p =
    (let hash = hash * 0x9E3779B97F4A7C15 + py_x p;
         hash = hash * 0x9E3779B97F4A7C15 + py_y p
     in hash * 0x9E3779B97F4A7C15 + ucast (py_yaw p))"

definition state_digest_snapshot ::
  "(entity_id \<times> position_yaw) list \<Rightarrow> entity_id set \<Rightarrow> u64 \<times> u64" where
  "state_digest_snapshot entities expected_ids =
    fold (\<lambda>(i, p) (count, hash). if i \<notin> expected_ids then (count, hash) else (count + 1, mix_hash hash p))
      entities (0, 0)"

text \<open>The client's digest goes through the expected ids in order, skipping those it does not have.\<close>

definition state_digest ::
  "('w, 'e, position_yaw) world_ops \<Rightarrow> type_id \<Rightarrow> 'w \<Rightarrow> 'e entity_map \<Rightarrow> entity_id set \<Rightarrow> u64 \<times> u64" where
  "state_digest ops t world m expected_ids =
    fold (\<lambda>i (count, hash).
      case Option.bind (map_entity i m) (\<lambda>e. wo_get ops t e world) of
        Some p \<Rightarrow> (count + 1, mix_hash hash p)
      | None \<Rightarrow> (count, hash))
      (sorted_list_of_set expected_ids) (0, 0)"

lemma fold_skipped:
  "(\<And>x s. x \<in> set xs \<Longrightarrow> \<not> P x \<Longrightarrow> f x s = s) \<Longrightarrow> fold f xs s = fold f (filter P xs) s"
  by (induction xs arbitrary: s) simp_all

lemma fold_looked_up:
  assumes "\<And>i p. (i, p) \<in> set es \<Longrightarrow> look i = Some p"
  shows "fold (\<lambda>i s. case look i of Some p \<Rightarrow> step p s | None \<Rightarrow> s) (map fst es) s = fold (\<lambda>(i, p). step p) es s"
  using assms
proof (induction es arbitrary: s)
  case (Cons e es)
  have "look (fst e) = Some (snd e)" by (rule Cons.prems) simp
  moreover have "look i = Some p" if "(i, p) \<in> set es" for i p using that by (intro Cons.prems) simp
  ultimately show ?case using Cons.IH by (simp add: case_prod_unfold)
qed simp

text \<open>The expected ids the client knows, in order, are the ids of the entities that are expected.\<close>

lemma expected_known:
  assumes "sorted_wrt (<) (map fst entities)" and "finite expected"
  shows "filter (\<lambda>i. map_of entities i \<noteq> None) (sorted_list_of_set expected) =
    map fst (filter (\<lambda>(i, p). i \<in> expected) entities)"
proof (rule sym, rule strict_sorted_equal)
  show "sorted_wrt (<) (filter (\<lambda>i. map_of entities i \<noteq> None) (sorted_list_of_set expected))"
    by (simp add: sorted_wrt_filter)
  show "sorted_wrt (<) (map fst (filter (\<lambda>(i, p). i \<in> expected) entities))"
    using assms(1) by (simp add: sorted_wrt_map sorted_wrt_filter)
  show "set (map fst (filter (\<lambda>(i, p). i \<in> expected) entities)) =
      set (filter (\<lambda>i. map_of entities i \<noteq> None) (sorted_list_of_set expected))"
    using assms(2) by (force simp: map_of_eq_None_iff)
qed

definition digest_step :: "position_yaw \<Rightarrow> u64 \<times> u64 \<Rightarrow> u64 \<times> u64" where
  "digest_step p s = (fst s + 1, mix_hash (snd s) p)"

text \<open>Equal states have equal digests.\<close>

theorem digests_agree:
  assumes "sorted_wrt (<) (map fst entities)" and "finite expected"
    and "\<And>i. i \<in> expected \<Longrightarrow> Option.bind (map_entity i m) (\<lambda>e. wo_get ops t e world) = map_of entities i"
  shows "state_digest ops t world m expected = state_digest_snapshot entities expected"
proof -
  let ?look = "\<lambda>i. Option.bind (map_entity i m) (\<lambda>e. wo_get ops t e world)"
  let ?es = "filter (\<lambda>(i, p). i \<in> expected) entities"
  have distinct: "distinct (map fst entities)" using assms(1) by (simp add: strict_sorted_iff)
  have look: "?look i = Some p" if "(i, p) \<in> set ?es" for i p
    using that assms(3) distinct by simp
  have "state_digest ops t world m expected =
      fold (\<lambda>i s. case ?look i of Some p \<Rightarrow> digest_step p s | None \<Rightarrow> s) (sorted_list_of_set expected) (0, 0)"
    unfolding state_digest_def
    by (rule fold_cong) (auto simp: digest_step_def fun_eq_iff split: option.split)
  also have "\<dots> = fold (\<lambda>i s. case ?look i of Some p \<Rightarrow> digest_step p s | None \<Rightarrow> s)
      (filter (\<lambda>i. map_of entities i \<noteq> None) (sorted_list_of_set expected)) (0, 0)"
    using assms(2,3) by (intro fold_skipped) simp
  also have "\<dots> = fold (\<lambda>(i, p). digest_step p) ?es (0, 0)"
    unfolding expected_known [OF assms(1,2)] by (rule fold_looked_up) (rule look)
  also have "\<dots> = fold (\<lambda>(i, p) (count, hash). if i \<notin> expected then (count, hash) else (count + 1, mix_hash hash p))
      ?es (0, 0)"
    by (rule fold_cong) (auto simp: digest_step_def fun_eq_iff)
  also have "\<dots> = state_digest_snapshot entities expected"
    unfolding state_digest_snapshot_def
    by (rule fold_skipped [symmetric]) auto
  finally show ?thesis .
qed

end
