(* ===== verification/Demo_Sync.thy ===== *)
theory Demo_Sync
  imports Demo_Component
begin

text \<open>
  The demonstration's synchronisation (\<^verbatim>\<open>sdec-bevy-demo/src/main.rs\<close>): how it encodes with a growing
  buffer, applies a packet of either kind, rebuilds a client from a full snapshot, and writes a compact
  packet by hand.  The iteration order of a hash set is the parameter \<open>order\<close>.
\<close>

section \<open>The operations\<close>

datatype demo_error =
    DemoWire decode_error
  | DemoCodec codec_error
  | DemoBevy bevy_error
  | SessionInitMissing
  | RetryOverflow
  | TickWentBackwards
  | TickDeltaZero
  | BaselineAhead
  | SessionHeaderFailed encode_error

text \<open>
  The two retry functions have the same loop around two encoders.  A failed attempt leaves something in
  the buffer: \<open>spoil\<close> stands for it.
\<close>

fun retry_loop ::
  "nat \<Rightarrow> (u8 list \<Rightarrow> (codec_error + usize \<times> u8 list) option) \<Rightarrow> (u8 list \<Rightarrow> u8 list) \<Rightarrow> usize \<Rightarrow> u8 list \<Rightarrow>
    (demo_error + usize \<times> u8 list) option" where
  "retry_loop 0 enc spoil size' buf = Some (Inl RetryOverflow)"
| "retry_loop (Suc rounds) enc spoil size' buf =
    (let buf = (if length buf < size' then buf @ replicate (size' - length buf) 0 else buf)
     in Option.bind (enc buf) (\<lambda>result.
       case result of
         Inr (len, buf) \<Rightarrow> Some (Inr (len, buf))
       | Inl (OutputTooSmall needed available) \<Rightarrow>
           retry_loop rounds enc spoil (saturating_mul (max size' needed) 2) (spoil buf)
       | Inl (Bitstream err) \<Rightarrow> retry_loop rounds enc spoil (saturating_mul size' 2) (spoil buf)
       | Inl err \<Rightarrow> Some (Inl (DemoCodec err))))"

definition encode_full_snapshot_retry ::
  "(u8 list \<Rightarrow> u8 list) \<Rightarrow> schema \<Rightarrow> snapshot_tick \<Rightarrow> entity_snapshot list \<Rightarrow> codec_limits \<Rightarrow>
    (u8 list \<Rightarrow> u8 list) \<Rightarrow> u8 list \<Rightarrow> (demo_error + usize \<times> u8 list) option" where
  "encode_full_snapshot_retry blake3 s tick snapshot l spoil buf =
    retry_loop 5 (encode_full_snapshot blake3 s tick snapshot l) spoil (max (length buf) 1024) buf"

definition encode_delta_retry ::
  "(u8 list \<Rightarrow> u8 list) \<Rightarrow> session_encoder \<Rightarrow> snapshot_tick \<Rightarrow> snapshot_tick \<Rightarrow> entity_snapshot list \<Rightarrow>
    entity_id list \<Rightarrow> delta_update_entity list \<Rightarrow> (u8 list \<Rightarrow> u8 list) \<Rightarrow> u8 list \<Rightarrow>
    (demo_error + usize \<times> u8 list) option" where
  "encode_delta_retry blake3 encoder tick baseline_tick creates destroys updates spoil buf =
    retry_loop 5 (encode_delta_from_changes blake3 encoder tick baseline_tick creates destroys updates) spoil
      (max (length buf) 1024) buf"

definition build_sdec_snapshot_for_ids ::
  "('w, 'e, 'c) world_ops \<Rightarrow> (entity_id set \<Rightarrow> entity_id list) \<Rightarrow> 'c bevy_schema \<Rightarrow> 'w \<Rightarrow> 'e entity_map \<Rightarrow>
    entity_id set \<Rightarrow> entity_snapshot list" where
  "build_sdec_snapshot_for_ids ops order bs world m ids =
    sort_key (\<lambda>e. entity_raw (es_id e))
      (List.map_filter (\<lambda>i.
        Option.bind (map_entity i m) (\<lambda>e.
          let cs = snapshot_entity ops bs world e
          in if cs = [] then None else Some \<lparr>es_id = i, es_components = cs\<rparr>)) (order ids))"

text \<open>One component: its fields are assigned, and when that fails the component is inserted.\<close>

fun overwrite_components ::
  "('w, 'e, 'c) world_ops \<Rightarrow> 'c bevy_schema \<Rightarrow> 'e \<Rightarrow> component_snapshot list \<Rightarrow> 'w \<Rightarrow>
    ((bevy_error + unit) \<times> 'w) option" where
  "overwrite_components ops bs entity [] world = Some (Inr (), world)"
| "overwrite_components ops bs entity (c # cs) world =
    (case apply_component_fields ops bs entity (cs_id c) (List.enumerate 0 (cs_fields c)) world of
       (Inr _, world) \<Rightarrow> overwrite_components ops bs entity cs world
     | (Inl _, world) \<Rightarrow>
         Option.bind (insert_component_fields ops bs entity (cs_id c) (cs_fields c) world) (\<lambda>(result, world).
           case result of Inl e \<Rightarrow> Some (Inl e, world)
           | Inr _ \<Rightarrow> overwrite_components ops bs entity cs world))"

fun overwrite_entities ::
  "('w, 'e, 'c) world_ops \<Rightarrow> 'c bevy_schema \<Rightarrow> entity_snapshot list \<Rightarrow> 'w \<Rightarrow> 'e entity_map \<Rightarrow>
    ('w, 'e) applied option" where
  "overwrite_entities ops bs [] world m = Some (Inr (), world, m)"
| "overwrite_entities ops bs (x # xs) world m =
    (let (entity, world, m) = (case map_entity (es_id x) m of
           Some e \<Rightarrow> (e, world, m)
         | None \<Rightarrow> let (e, world) = wo_spawn ops world in (e, world, map_register (es_id x) e m))
     in Option.bind (overwrite_components ops bs entity (es_components x) world) (\<lambda>(result, world).
       case result of Inl e \<Rightarrow> Some (Inl e, world, m)
       | Inr _ \<Rightarrow> overwrite_entities ops bs xs world m))"

definition apply_full_snapshot ::
  "('w, 'e, 'c) world_ops \<Rightarrow> (entity_id set \<Rightarrow> entity_id list) \<Rightarrow> 'c bevy_schema \<Rightarrow> snapshot \<Rightarrow> 'w \<Rightarrow>
    'e entity_map \<Rightarrow> ('w, 'e) applied option" where
  "apply_full_snapshot ops order bs sn world m =
    Option.bind (overwrite_entities ops bs (sn_entities sn) world m) (\<lambda>(result, world, m).
      case result of Inl e \<Rightarrow> Some (Inl e, world, m)
      | Inr _ \<Rightarrow>
          let seen = es_id ` set (sn_entities sn);
              (world, m) = destroy_entities ops (filter (\<lambda>i. i \<notin> seen) (order (map_ids m))) world m
          in Some (Inr (), world, m))"

datatype applied_packet = FullApplied snapshot_tick | DeltaApplied snapshot_tick

text \<open>
  The client's state, in the order of the code's arguments: the world, the entity map and the session.
  The session advances in \<^verbatim>\<open>decode_session_packet\<close> and stays advanced when the payload is refused.
\<close>

type_synonym ('w, 'e) client = "'w \<times> 'e entity_map \<times> session_state option"

definition apply_full_packet ::
  "(u8 list \<Rightarrow> u8 list) \<Rightarrow> ('w, 'e, 'c) world_ops \<Rightarrow> (entity_id set \<Rightarrow> entity_id list) \<Rightarrow> 'c bevy_schema \<Rightarrow>
    codec_limits \<Rightarrow> u8 list \<Rightarrow> ('w, 'e) client \<Rightarrow> ((demo_error + applied_packet) \<times> ('w, 'e) client) option" where
  "apply_full_packet blake3 ops order bs l bytes client =
    (let (world, m, session) = client in
     case decode_packet bytes limits_default of
       Inl e \<Rightarrow> Some (Inl (DemoWire e), client)
     | Inr packet \<Rightarrow>
         (case decode_full_snapshot_from_packet blake3 (bs_schema bs) packet l of
            Inl e \<Rightarrow> Some (Inl (DemoCodec e), client)
          | Inr sn \<Rightarrow>
              Option.bind (apply_full_snapshot ops order bs sn world m) (\<lambda>(result, world, m).
                case result of Inl e \<Rightarrow> Some (Inl (DemoBevy e), world, m, session)
                | Inr _ \<Rightarrow>
                    Some (Inr (FullApplied (sn_tick sn)), world, m,
                      map_option (\<lambda>state. state\<lparr>ss_last_tick := sn_tick sn\<rparr>) session))))"

definition apply_sdec_packet ::
  "(u8 list \<Rightarrow> u8 list) \<Rightarrow> ('w, 'e, 'c) world_ops \<Rightarrow> (entity_id set \<Rightarrow> entity_id list) \<Rightarrow> 'c bevy_schema \<Rightarrow>
    codec_limits \<Rightarrow> u8 list \<Rightarrow> ('w, 'e) client \<Rightarrow> ((demo_error + applied_packet) \<times> ('w, 'e) client) option" where
  "apply_sdec_packet blake3 ops order bs l bytes client =
    (if 4 \<le> length bytes \<and> (from_le_bytes (take 4 bytes) :: u32) = MAGIC then
       apply_full_packet blake3 ops order bs l bytes client
     else
       let (world, m, session) = client in
       case session of
         None \<Rightarrow> Some (Inl SessionInitMissing, client)
       | Some state \<Rightarrow>
           (case decode_session_packet blake3 (bs_schema bs) state bytes limits_default of
              Inl e \<Rightarrow> Some (Inl (DemoCodec e), client)
            | Inr (packet, state) \<Rightarrow>
                (case decode_delta_packet blake3 (bs_schema bs) packet l of
                   Inl e \<Rightarrow> Some (Inl (DemoCodec e), world, m, Some state)
                 | Inr decoded \<Rightarrow>
                     Option.bind (bevy_apply_changes ops bs (dd_creates decoded) (dd_destroys decoded)
                       (dd_updates decoded) world m) (\<lambda>(result, world, m).
                       case result of Inl e \<Rightarrow> Some (Inl (DemoBevy e), world, m, Some state)
                       | Inr _ \<Rightarrow> Some (Inr (DeltaApplied (ss_last_tick state)), world, m, Some state)))))"

text \<open>The tick of a resynchronisation: \<open>1\<close> more than the client's, wrapping around at \<open>2 ^ 32\<close>.\<close>

definition resync_tick :: "session_state option \<Rightarrow> snapshot_tick" where
  "resync_tick session = SnapshotTick ((case session of Some s \<Rightarrow> tick_raw (ss_last_tick s) | None \<Rightarrow> 0) + 1)"

definition resync_client ::
  "(u8 list \<Rightarrow> u8 list) \<Rightarrow> ('w, 'e, 'c) world_ops \<Rightarrow> (entity_id set \<Rightarrow> entity_id list) \<Rightarrow> (u8 list \<Rightarrow> u8 list) \<Rightarrow>
    'c bevy_schema \<Rightarrow> 'w \<Rightarrow> 'e entity_map \<Rightarrow> entity_id set \<Rightarrow> codec_limits \<Rightarrow> ('w, 'e) client \<Rightarrow>
    ((demo_error + bool) \<times> ('w, 'e) client) option" where
  "resync_client blake3 ops order spoil bs server_world server_entities visible_ids l client =
    (let snapshot = build_sdec_snapshot_for_ids ops order bs server_world server_entities visible_ids
     in if snapshot = [] then Some (Inr False, client)
        else
          Option.bind (encode_full_snapshot_retry blake3 (bs_schema bs) (resync_tick (snd (snd client))) snapshot l
            spoil (replicate (256 * 1024) 0)) (\<lambda>result.
            case result of Inl e \<Rightarrow> Some (Inl e, client)
            | Inr (len, buf) \<Rightarrow>
                map_option (\<lambda>(applied, client). (and_then applied (\<lambda>_. Inr True), client))
                  (apply_sdec_packet blake3 ops order bs l (take len buf) client)))"

definition build_compact_packet ::
  "u8 list \<Rightarrow> session_flags \<Rightarrow> snapshot_tick \<Rightarrow> snapshot_tick \<Rightarrow> snapshot_tick \<Rightarrow> u8 list \<Rightarrow>
    (demo_error + usize \<times> u8 list) option" where
  "build_compact_packet out flags last_tick tick baseline_tick payload =
    (case checked_sub_u32 (tick_raw tick) (tick_raw last_tick) of
       None \<Rightarrow> Some (Inl TickWentBackwards)
     | Some tick_delta \<Rightarrow>
         if tick_delta = 0 then Some (Inl TickDeltaZero)
         else
           case checked_sub_u32 (tick_raw tick) (tick_raw baseline_tick) of
             None \<Rightarrow> Some (Inl BaselineAhead)
           | Some baseline_delta \<Rightarrow>
               let needed = SESSION_MAX_HEADER_SIZE + length payload;
                   out = (if length out < needed then out @ replicate (needed - length out) 0 else out)
               in Option.bind (encode_session_header out flags tick_delta baseline_delta (of_nat (length payload)))
                 (\<lambda>result.
                   case result of Inl e \<Rightarrow> Some (Inl (SessionHeaderFailed e))
                   | Inr (header_len, out) \<Rightarrow>
                       Some (Inr (header_len + length payload, splice out header_len payload))))"

section \<open>The retry loop\<close>

text \<open>What the loop returns, some attempt returned, on a buffer of at least the size asked for.\<close>

lemma retry_loop_attempt:
  "retry_loop rounds enc spoil size' buf = Some (Inr (n, out)) \<Longrightarrow>
    \<exists>b. enc b = Some (Inr (n, out)) \<and> min size' usize_max \<le> length b"
proof (induction rounds arbitrary: size' buf)
  case (Suc rounds)
  let ?buf = "if length buf < size' then buf @ replicate (size' - length buf) 0 else buf"
  have big: "size' \<le> length ?buf" by simp
  from Suc.prems obtain r where r: "enc ?buf = Some r" by (auto simp: Let_def bind_eq_Some_conv)
  have again: ?case if "min size' usize_max \<le> size''" "retry_loop rounds enc spoil size'' b = Some (Inr (n, out))" for size'' b
    using Suc.IH [OF that(2)] that(1) by auto
  have grows: "min size' usize_max \<le> saturating_mul size' 2" "min size' usize_max \<le> saturating_mul (max size' k) 2" for k
    by (auto simp: saturating_mul_def)
  show ?case
  proof (cases r)
    case (Inl e)
    with Suc.prems r show ?thesis
      by (cases e) (auto simp: Let_def intro: again [OF grows(1)] again [OF grows(2)])
  next
    case (Inr p)
    with Suc.prems r big show ?thesis by (cases p) (auto simp: Let_def intro!: exI [of _ ?buf])
  qed
qed simp

lemma retry_loop_returns: "(\<And>b. enc b \<noteq> None) \<Longrightarrow> retry_loop rounds enc spoil size' buf \<noteq> None"
proof (induction rounds arbitrary: size' buf)
  case (Suc rounds)
  let ?buf = "if length buf < size' then buf @ replicate (size' - length buf) 0 else buf"
  obtain r where r: "enc ?buf = Some r" using Suc.prems by blast
  show ?case
  proof (cases r)
    case (Inl e)
    with r Suc.IH [OF Suc.prems] show ?thesis by (cases e) (simp_all add: Let_def)
  qed (use r in \<open>auto simp: Let_def\<close>)
qed simp

section \<open>A client rebuilt from a full snapshot\<close>

text \<open>
  The snapshot's entities must hold every registered component: the code leaves a component that the
  snapshot does not name as it was.
\<close>

definition holds_every_component :: "'c bevy_schema \<Rightarrow> entity_snapshot \<Rightarrow> bool" where
  "holds_every_component bs x \<longleftrightarrow> (\<forall>a \<in> set (bs_adapters bs). \<exists>c. find_component x (ca_component_id a) = Some c \<and>
    length (cs_fields c) = length (rt_fields (ca_trait a)))"

lemma apply_update_frame:
  assumes "world_laws ops alive" and "adapter_apply_update ops a e us w = (r, w')"
  shows "alive e' w' \<longleftrightarrow> alive e' w"
    and "t \<noteq> adapter_type_id a \<or> e' \<noteq> e \<Longrightarrow> wo_get ops t e' w' = wo_get ops t e' w"
  using assms(2) write_law [OF assms(1)]
  by (auto simp: adapter_apply_update_def split: option.splits if_splits prod.splits)

lemma insert_effect:
  assumes laws: "world_laws ops alive" "replicated_component (ca_trait a) valid" and alive: "alive e w"
    and vals: "\<forall>i < length fs. valid i (fs ! i)"
    and ran: "adapter_insert_component ops a e fs w = Some (Inr (), w')"
  obtains component where "rt_read_fields (ca_trait a) component = fs"
    "\<And>t e'. wo_get ops t e' w' = (if t = adapter_type_id a \<and> e' = e then Some component else wo_get ops t e' w)"
    "\<And>e'. alive e' w' \<longleftrightarrow> alive e' w"
proof -
  from ran obtain component where c: "rt_from_fields (ca_trait a) fs = Inr component"
    "wo_insert ops (adapter_type_id a) e component w = Some w'"
    by (auto simp: adapter_insert_component_def split: sum.splits)
  from insert_law [OF laws(1) alive, of "adapter_type_id a" component] c(2) have
    "\<And>t e'. wo_get ops t e' w' = (if t = adapter_type_id a \<and> e' = e then Some component else wo_get ops t e' w)"
    "\<And>e'. alive e' w' \<longleftrightarrow> alive e' w"
    by (metis option.inject)+
  with replicated_component.read_from_fields [OF laws(2) c(1) vals] show thesis by (rule that)
qed

text \<open>One component, whichever of the two ways wrote it.\<close>

lemma overwrite_component:
  assumes engine: "engine_ok ops alive valid bs" and alive: "alive e w"
    and a: "adapter_by_component bs (cs_id c) = Some a" "length (cs_fields c) = length (rt_fields (ca_trait a))"
    and vals: "snapshot_valid valid c"
    and ran: "overwrite_components ops bs e (c # cs) w = Some (Inr (), w')"
  obtains w1 component where "overwrite_components ops bs e cs w1 = Some (Inr (), w')"
    "rt_read_fields (ca_trait a) component = cs_fields c"
    "\<And>t e'. wo_get ops t e' w1 = (if t = adapter_type_id a \<and> e' = e then Some component else wo_get ops t e' w)"
    "\<And>e'. alive e' w1 \<longleftrightarrow> alive e' w"
proof -
  note laws = engine_okD(1) [OF engine] and a' = built_adapters(1) [OF engine_okD(2) [OF engine] a(1)]
  have comp: "replicated_component (ca_trait a) (valid (cs_id c))" using engine_okD(3) [OF engine] a' by metis
  have inserted: "\<forall>i < length (cs_fields c). valid (cs_id c) i (cs_fields c ! i)"
    using vals by (simp add: snapshot_valid_def)
  then have updated: "\<forall>(i, v) \<in> set (List.enumerate 0 (cs_fields c)). valid (cs_id c) i v"
    by (auto simp: in_set_enumerate_eq)
  obtain r w1 where run: "adapter_apply_update ops a e (List.enumerate 0 (cs_fields c)) w = (r, w1)" by fastforce
  show thesis
  proof (cases r)
    case (Inr u)
    with run have run: "adapter_apply_update ops a e (List.enumerate 0 (cs_fields c)) w = (Inr (), w1)" by simp
    then obtain old where old: "wo_get ops (adapter_type_id a) e w = Some old"
      by (auto simp: adapter_apply_update_def split: option.splits)
    from adapter_apply_effect [OF laws comp updated old run
        replicated_component.assign_every_field [OF comp a(2), of "cs_id c"]] that [of w1] ran a(1) run
    show thesis by (simp add: apply_component_fields_def) metis
  next
    case (Inl err)
    from ran a(1) run Inl obtain r2 w2 where ins: "adapter_insert_component ops a e (cs_fields c) w1 = Some (r2, w2)"
      by (auto simp: apply_component_fields_def insert_component_fields_def bind_eq_Some_conv)
    with ran a(1) run Inl have w2: "adapter_insert_component ops a e (cs_fields c) w1 = Some (Inr (), w2)"
      "overwrite_components ops bs e cs w2 = Some (Inr (), w')"
      by (cases r2, simp_all add: apply_component_fields_def insert_component_fields_def)+
    note frame = apply_update_frame [OF laws run]
    from frame(1) alive have "alive e w1" by simp
    from insert_effect [OF laws comp this inserted w2(1)] obtain component where
      "rt_read_fields (ca_trait a) component = cs_fields c"
      "\<And>t e'. wo_get ops t e' w2 = (if t = adapter_type_id a \<and> e' = e then Some component else wo_get ops t e' w1)"
      "\<And>e'. alive e' w2 \<longleftrightarrow> alive e' w1" by metis
    with that [OF w2(2)] frame show thesis by simp
  qed
qed

lemma overwrite_components_effect:
  assumes engine: "engine_ok ops alive valid bs"
  shows "overwrite_components ops bs e cs w = Some (Inr (), w') \<Longrightarrow> alive e w \<Longrightarrow> distinct (map cs_id cs) \<Longrightarrow>
    \<forall>c \<in> set cs. snapshot_valid valid c \<and> (\<exists>a. adapter_by_component bs (cs_id c) = Some a \<and>
      length (cs_fields c) = length (rt_fields (ca_trait a))) \<Longrightarrow>
    (\<forall>e'. alive e' w' \<longleftrightarrow> alive e' w) \<and> (\<forall>t e'. e' \<noteq> e \<longrightarrow> wo_get ops t e' w' = wo_get ops t e' w) \<and>
    (\<forall>a \<in> set (bs_adapters bs). snapshot_component ops w' e a =
      (case find (\<lambda>c. cs_id c = ca_component_id a) cs of Some c \<Rightarrow> Some c | None \<Rightarrow> snapshot_component ops w e a))"
proof (induction cs arbitrary: w)
  case (Cons c cs)
  note ok = engine_okD [OF engine]
  from Cons.prems(4) obtain a where a: "adapter_by_component bs (cs_id c) = Some a"
    "length (cs_fields c) = length (rt_fields (ca_trait a))" and vals: "snapshot_valid valid c" by auto
  note a' = built_adapters(1) [OF ok(2) a(1)]
  from overwrite_component [OF engine Cons.prems(2) a vals Cons.prems(1)] obtain w1 component where
    rest: "overwrite_components ops bs e cs w1 = Some (Inr (), w')" and read: "rt_read_fields (ca_trait a) component = cs_fields c"
    and w1: "\<And>t e'. wo_get ops t e' w1 = (if t = adapter_type_id a \<and> e' = e then Some component else wo_get ops t e' w)"
      "\<And>e'. alive e' w1 \<longleftrightarrow> alive e' w" by metis
  note IH = Cons.IH [OF rest] w1(2) Cons.prems(2-4)
  have here: "snapshot_component ops w1 e a = Some c" using a' read by (simp add: snapshot_component_def w1(1))
  have there: "snapshot_component ops w1 e b = snapshot_component ops w e b"
    if "b \<in> set (bs_adapters bs)" "b \<noteq> a" for b
    using built_adapters(2) [OF ok(2) that(1)] a' that(2) by (simp add: snapshot_component_def w1(1))
  have gone: "find (\<lambda>x. cs_id x = ca_component_id a) cs = None"
    using Cons.prems(3) a' by (auto simp: find_None_iff rev_image_eqI)
  have "snapshot_component ops w' e b = (case find (\<lambda>x. cs_id x = ca_component_id b) (c # cs) of Some c \<Rightarrow> Some c
      | None \<Rightarrow> snapshot_component ops w e b)" if b: "b \<in> set (bs_adapters bs)" for b
    using IH b here gone a' there [OF b] built_adapters(3) [OF ok(2) b, of a] by (cases "b = a") (auto split: option.split)
  then show ?case using IH w1 by auto
qed simp

text \<open>A known entity rewritten: the view holds the snapshot's entity in its place.\<close>

lemma shows_overwritten:
  assumes engine: "engine_ok ops alive valid bs" and view: "shows_snapshot ops alive bs es w m"
    and canon: "canonical_entity (bs_schema bs) x = x" and full: "holds_every_component bs x"
    and vals: "\<forall>c \<in> set (es_components x). snapshot_valid valid c"
    and known: "em_to_entity m (es_id x) = Some e"
    and ran: "overwrite_components ops bs e (es_components x) w = Some (Inr (), w')"
  shows "shows_snapshot ops alive bs (x # filter (\<lambda>y. es_id y \<noteq> es_id x) es) w' m"
proof -
  note ok = engine_okD [OF engine] and old = shows_snapshotD [OF view]
  have "schema_ok (bs_schema bs)" and ids: "map cd_id (components (bs_schema bs)) = map ca_component_id (bs_adapters bs)"
    using ok(2) by (simp_all add: bevy_schema_ok_def)
  from canonical_entity_ok [OF this(1), of x] have dist: "distinct (map cs_id (es_components x))"
    using canon by (simp add: entity_ok_def)
  have adapted: "\<exists>a. adapter_by_component bs (cs_id c) = Some a \<and> length (cs_fields c) = length (rt_fields (ca_trait a))"
    if c: "c \<in> set (es_components x)" for c
  proof -
    from c have "c \<in> set (es_components (canonical_entity (bs_schema bs) x))" by (simp add: canon)
    then obtain d where d: "d \<in> set (components (bs_schema bs))" "find_component x (cd_id d) = Some c"
      by (auto simp: canonical_entity_def List.map_filter_def)
    then obtain a where a: "a \<in> set (bs_adapters bs)" "ca_component_id a = cd_id d" by (metis ids image_iff set_map)
    with full d(2) have "length (cs_fields c) = length (rt_fields (ca_trait a))" by (force simp: holds_every_component_def)
    moreover have "adapter_by_component bs (cs_id c) = Some a"
      using a built_adapters(3) [OF ok(2) _ a(1)] ok(2) find_component_id [OF d(2)]
      by (cases "find (\<lambda>b. ca_component_id b = cs_id c) (bs_adapters bs)")
        (auto simp: bevy_schema_ok_def find_None_iff find_Some_iff)
    ultimately show ?thesis by blast
  qed
  note effect = overwrite_components_effect [OF engine ran old(2) [OF known] dist]
  have effect: "\<forall>e'. alive e' w' \<longleftrightarrow> alive e' w" "\<forall>t e'. e' \<noteq> e \<longrightarrow> wo_get ops t e' w' = wo_get ops t e' w"
    "\<forall>a \<in> set (bs_adapters bs). snapshot_component ops w' e a = find_component x (ca_component_id a)"
    using effect adapted vals full by (fastforce simp: holds_every_component_def find_component_def)+
  have shown: "snapshot_entity ops bs w' e = es_components x"
    by (rule reads_entity [OF ok(2) canon]) (simp add: effect(3))
  have other: "e' \<noteq> e" if "i \<noteq> es_id x" "em_to_entity m i = Some e'" for i e'
    using that known entity_map_injective(2) [OF old(1), of i e "es_id x"] by auto
  have kept: "snapshot_entity ops bs w' e' = snapshot_entity ops bs w e'" if "e' \<noteq> e" for e'
    using effect(2) that by (intro snapshot_entity_frame) simp
  have "dom (em_to_entity m) = es_id ` set (x # filter (\<lambda>y. es_id y \<noteq> es_id x) es)"
    using old(3) known by (auto simp: image_iff)
  moreover have "snapshot_entity ops bs w' e' = es_components y"
    if "y \<in> set (x # filter (\<lambda>y. es_id y \<noteq> es_id x) es)" "em_to_entity m (es_id y) = Some e'" for y e'
    using that old(4) kept other shown known by (cases "y = x") auto
  ultimately show ?thesis unfolding shows_snapshot_def using old(1,2) effect(1) by blast
qed

lemma filter_twice: "filter P (filter Q xs) = filter (\<lambda>x. Q x \<and> P x) xs"
  by (simp add: conj_commute)

lemma shows_rewritten:
  assumes engine: "engine_ok ops alive valid bs"
  shows "shows_snapshot ops alive bs es w m \<Longrightarrow> distinct (map es_id xs) \<Longrightarrow>
    \<forall>x \<in> set xs. canonical_entity (bs_schema bs) x = x \<and> holds_every_component bs x \<and>
      (\<forall>c \<in> set (es_components x). snapshot_valid valid c) \<Longrightarrow>
    overwrite_entities ops bs xs w m = Some (Inr (), w', m') \<Longrightarrow>
    shows_snapshot ops alive bs (rev xs @ filter (\<lambda>y. es_id y \<notin> es_id ` set xs) es) w' m'"
proof (induction xs arbitrary: es w m)
  case (Cons x xs)
  have x: "canonical_entity (bs_schema bs) x = x" "holds_every_component bs x"
    "\<forall>c \<in> set (es_components x). snapshot_valid valid c" using Cons.prems(3) by simp_all
  \<comment> \<open>whether the entity was known or was spawned, the map leads to one that is then rewritten\<close>
  have "\<exists>e w1 m1 es1. em_to_entity m1 (es_id x) = Some e \<and> shows_snapshot ops alive bs es1 w1 m1 \<and>
      filter (\<lambda>y. es_id y \<noteq> es_id x) es1 = filter (\<lambda>y. es_id y \<noteq> es_id x) es \<and>
      (case map_entity (es_id x) m of Some e \<Rightarrow> (e, w, m)
       | None \<Rightarrow> let (e, w) = wo_spawn ops w in (e, w, map_register (es_id x) e m)) = (e, w1, m1)"
  proof (cases "map_entity (es_id x) m")
    case None
    obtain e w1 where spawn: "wo_spawn ops w = (e, w1)" by fastforce
    let ?x = "\<lparr>es_id = es_id x, es_components = []\<rparr>"
    have "es_id ?x \<notin> es_id ` set es" using None shows_snapshotD(3) [OF Cons.prems(1)] by (auto simp: map_entity_def)
    moreover have "canonical_entity (bs_schema bs) ?x = ?x"
      by (simp add: canonical_entity_def List.map_filter_def find_component_def)
    ultimately have "shows_snapshot ops alive bs (?x # es) w1 (map_register (es_id ?x) e m)"
      using spawn by (intro shows_created [OF engine Cons.prems(1)]) simp_all
    with None spawn show ?thesis
      by (intro exI [of _ e] exI [of _ w1] exI [of _ "map_register (es_id x) e m"] exI [of _ "?x # es"])
        (simp add: map_register_def)
  qed (use Cons.prems(1) in \<open>auto simp: map_entity_def\<close>)
  then obtain e w1 m1 es1 where entity: "em_to_entity m1 (es_id x) = Some e" "shows_snapshot ops alive bs es1 w1 m1"
      "filter (\<lambda>y. es_id y \<noteq> es_id x) es1 = filter (\<lambda>y. es_id y \<noteq> es_id x) es"
    and found: "(case map_entity (es_id x) m of Some e \<Rightarrow> (e, w, m)
       | None \<Rightarrow> let (e, w) = wo_spawn ops w in (e, w, map_register (es_id x) e m)) = (e, w1, m1)" by blast
  from Cons.prems(4) obtain r w2 where "overwrite_components ops bs e (es_components x) w1 = Some (r, w2)"
    unfolding overwrite_entities.simps(2) found by (auto simp: Let_def bind_eq_Some_conv)
  with Cons.prems(4) have wrote: "overwrite_components ops bs e (es_components x) w1 = Some (Inr (), w2)"
    and rest: "overwrite_entities ops bs xs w2 m1 = Some (Inr (), w', m')"
    unfolding overwrite_entities.simps(2) found by (cases r, simp_all add: Let_def)+
  note view = shows_overwritten [OF engine entity(2) x entity(1) wrote, unfolded entity(3)]
  from Cons.IH [OF view _ _ rest] Cons.prems(2,3) show ?case
    by (auto simp: filter_twice conj_commute)
qed simp

text \<open>After a full snapshot the client's world shows that snapshot, whatever it showed before.\<close>

theorem full_snapshot_shown:
  assumes engine: "engine_ok ops alive valid bs" and order: "iteration_order order"
    and view: "shows_snapshot ops alive bs es w m"
    and distinct: "distinct (map es_id (sn_entities sn))"
    and whole: "\<forall>x \<in> set (sn_entities sn). canonical_entity (bs_schema bs) x = x \<and> holds_every_component bs x \<and>
      (\<forall>c \<in> set (es_components x). snapshot_valid valid c)"
    and ran: "apply_full_snapshot ops order bs sn w m = Some (Inr (), w', m')"
  shows "shows_snapshot ops alive bs (sn_entities sn) w' m'"
proof -
  let ?xs = "sn_entities sn"
  from ran obtain r w1 m1 where run: "overwrite_entities ops bs ?xs w m = Some (r, w1, m1)"
    by (auto simp: apply_full_snapshot_def bind_eq_Some_conv)
  let ?ds = "filter (\<lambda>i. i \<notin> es_id ` set ?xs) (order (map_ids m1))"
  from ran have "r = Inr ()" by (cases r) (simp_all add: apply_full_snapshot_def run)
  with run have run: "overwrite_entities ops bs ?xs w m = Some (Inr (), w1, m1)" by simp
  from ran have dropped: "destroy_entities ops ?ds w1 m1 = (w', m')"
    by (simp add: apply_full_snapshot_def run Let_def split: prod.splits)
  let ?es = "rev ?xs @ filter (\<lambda>y. es_id y \<notin> es_id ` set ?xs) es"
  note shown = shows_rewritten [OF engine view distinct whole run]
  note final = shows_destroys [OF engine_okD(1) [OF engine] shown dropped]
  have ids: "map_ids m1 = es_id ` set ?es" using shows_snapshotD(3) [OF shown] by (simp add: map_ids_def)
  have "finite (map_ids m1)" unfolding ids by (rule finite_imageI) (rule finite_set)
  with order have "set (order (map_ids m1)) = es_id ` set ?es" using ids by (simp add: iteration_order_def)
  then have "set (filter (\<lambda>x. es_id x \<notin> set ?ds) ?es) = set ?xs" by auto
  with final show ?thesis unfolding shows_snapshot_def by simp
qed

section \<open>A resynchronisation\<close>

text \<open>The server's snapshot: distinct ids, canonical entities, read from the server's world.\<close>

lemma built_snapshot:
  fixes ops :: "('w, 'e, 'c) world_ops" and world :: 'w and m :: "'e entity_map"
  assumes "bevy_schema_ok bs" and "iteration_order order" "finite ids"
  defines "sn \<equiv> build_sdec_snapshot_for_ids ops order bs world m ids"
  shows "distinct (map es_id sn)" and "x \<in> set sn \<Longrightarrow> canonical_entity (bs_schema bs) x = x"
    and "x \<in> set sn \<longleftrightarrow> (\<exists>i \<in> ids. \<exists>e. map_entity i m = Some e \<and> snapshot_entity ops bs world e \<noteq> [] \<and>
      x = \<lparr>es_id = i, es_components = snapshot_entity ops bs world e\<rparr>)"
proof -
  let ?f = "\<lambda>i. Option.bind (map_entity i m) (\<lambda>e.
          let cs = snapshot_entity ops bs world e
          in if cs = [] then None else Some \<lparr>es_id = i, es_components = cs\<rparr>)"
  have ids: "set (order ids) = ids" "distinct (order ids)" using assms(2,3) by (simp_all add: iteration_order_def)
  have id_of: "?f i = Some y \<Longrightarrow> es_id y = i" for i y by (auto simp: Let_def bind_eq_Some_conv split: if_splits)
  have "map es_id (List.map_filter ?f xs) = filter (\<lambda>i. ?f i \<noteq> None) xs" for xs
    by (induction xs) (auto simp: List.map_filter_simps(1) id_of split: option.split)
  with ids(2) have "distinct (map es_id (List.map_filter ?f (order ids)))" by simp
  then show "distinct (map es_id sn)"
    unfolding sn_def build_sdec_snapshot_for_ids_def unfolding distinct_map by simp
  have member: "x \<in> set (List.map_filter ?f xs) \<longleftrightarrow> (\<exists>i \<in> set xs. ?f i = Some x)" for x xs
    by (induction xs) (auto simp: List.map_filter_simps(1) split: option.splits)
  show iff: "x \<in> set sn \<longleftrightarrow> (\<exists>i \<in> ids. \<exists>e. map_entity i m = Some e \<and> snapshot_entity ops bs world e \<noteq> [] \<and>
      x = \<lparr>es_id = i, es_components = snapshot_entity ops bs world e\<rparr>)" for x
    unfolding sn_def build_sdec_snapshot_for_ids_def set_sort member ids
    by (auto simp: Let_def bind_eq_Some_conv split: if_splits)
  show "canonical_entity (bs_schema bs) x = x" if "x \<in> set sn"
    using that extracted_canonical [OF assms(1)] unfolding iff by fastforce
qed

lemma full_packet_magic:
  assumes "encode_full_snapshot blake3 s tick es l out = Some (Inr (n, out'))"
  shows "4 \<le> length (take n out')" and "(from_le_bytes (take 4 (take n out')) :: u32) = MAGIC"
proof -
  from encode_full_snapshot_bytes [OF assms] obtain h payload where bytes: "take n out' = header_bytes h @ payload" by metis
  then show "4 \<le> length (take n out')" by simp
  have "take 4 (take n out') = to_le_bytes 4 MAGIC" unfolding bytes by (simp add: header_bytes_def)
  then show "(from_le_bytes (take 4 (take n out')) :: u32) = MAGIC" by (simp add: from_to_le_bytes)
qed

text \<open>
  A client that is sent the snapshot of the ids it may see shows exactly that snapshot, and its session
  stands at the snapshot's tick.
\<close>

theorem resync_shows:
  fixes ops :: "('w, 'e, 'c) world_ops" and server_world :: 'w and server_map :: "'e entity_map"
  assumes engine: "engine_ok ops alive valid bs" and order: "iteration_order order" and fin: "finite visible"
  defines "sn \<equiv> build_sdec_snapshot_for_ids ops order bs server_world server_map visible"
  assumes whole: "\<forall>x \<in> set sn. holds_every_component bs x \<and> (\<forall>c \<in> set (es_components x). snapshot_valid valid c)"
    and cnt: "max_entities_create l < 2 ^ 32"
    and fits: "\<And>n out. encode_full_snapshot_retry blake3 (bs_schema bs) (resync_tick session) sn l spoil
      (replicate (256 * 1024) 0) = Some (Inr (n, out)) \<Longrightarrow> wire_room limits_default n"
    and view: "shows_snapshot ops alive bs es w m"
    and ran: "resync_client blake3 ops order spoil bs server_world server_map visible l (w, m, session) =
      Some (Inr True, w', m', session')"
  shows "shows_snapshot ops alive bs sn w' m' \<and>
    session' = map_option (\<lambda>state. state\<lparr>ss_last_tick := resync_tick session\<rparr>) session"
proof -
  have ok: "bevy_schema_ok bs" "schema_ok (bs_schema bs)" using engine_okD(2) [OF engine] by (simp_all add: bevy_schema_ok_def)
  note built = built_snapshot [OF ok(1) order fin, where ops = ops and world = server_world and m = server_map, folded sn_def]
  let ?retry = "encode_full_snapshot_retry blake3 (bs_schema bs) (resync_tick session) sn l spoil (replicate (256 * 1024) 0)"
  from ran have "sn \<noteq> []" by (auto simp: resync_client_def Let_def sn_def)
  with ran obtain r where r: "?retry = Some r" by (auto simp: resync_client_def Let_def bind_eq_Some_conv simp flip: sn_def)
  with ran \<open>sn \<noteq> []\<close> obtain n out where sent: "?retry = Some (Inr (n, out))"
    by (cases r) (auto simp: resync_client_def Let_def simp flip: sn_def)
  with ran \<open>sn \<noteq> []\<close> obtain applied where
    recv: "apply_sdec_packet blake3 ops order bs l (take n out) (w, m, session) = Some (Inr applied, w', m', session')"
    by (auto simp: resync_client_def Let_def res_simps simp flip: sn_def)
  from retry_loop_attempt [OF sent [unfolded encode_full_snapshot_retry_def]] obtain b where
    enc: "encode_full_snapshot blake3 (bs_schema bs) (resync_tick session) sn l b = Some (Inr (n, out))" by blast
  have small: "length sn < 2 ^ 32" using encode_full_snapshot_bytes [OF enc] cnt by fastforce
  have canon: "map (canonical_entity (bs_schema bs)) sn = sn" using built(2) by (simp add: map_idI)
  let ?sn = "\<lparr>sn_tick = resync_tick session, sn_entities = sn\<rparr>"
  from full_snapshot_decodes [OF enc ok(2) small fits [OF sent]] canon obtain p where
    p: "decode_packet (take n out) limits_default = Inr p"
      "decode_full_snapshot_from_packet blake3 (bs_schema bs) p l = Inr ?sn"
    by (auto simp: decode_full_snapshot_def res_simps)
  have magic: "4 \<le> length (take n out)" "from_le_bytes (take 4 (take n out)) = MAGIC"
    using full_packet_magic [OF enc] by simp_all
  have *: "apply_full_packet blake3 ops order bs l (take n out) (w, m, session) = Some (Inr applied, w', m', session')"
    using recv magic by (simp add: apply_sdec_packet_def)
  then obtain r w1 m1 where run: "apply_full_snapshot ops order bs ?sn w m = Some (r, w1, m1)"
    using p by (auto simp: apply_full_packet_def bind_eq_Some_conv)
  with * p have run: "apply_full_snapshot ops order bs ?sn w m = Some (Inr (), w', m')"
    and session': "session' = map_option (\<lambda>state. state\<lparr>ss_last_tick := resync_tick session\<rparr>) session"
    by (cases r, simp_all add: apply_full_packet_def)+
  from full_snapshot_shown [OF engine order view _ _ run] built(1,2) whole session' show ?thesis by simp
qed

section \<open>A compact packet written by hand\<close>

theorem compact_packet_header:
  assumes "build_compact_packet out flags last_tick tick bt payload = Some (Inr (n, out'))"
    and "session_is_full_snapshot flags \<Longrightarrow> bt = tick" and "session_is_delta_snapshot flags \<Longrightarrow> tick_raw bt \<noteq> 0"
  shows "\<exists>h. decode_session_header (take n out') (tick_raw last_tick) =
      Inr \<lparr>sh_flags = flags, sh_tick = tick_raw tick, sh_baseline_tick = tick_raw bt,
           sh_payload_len = of_nat (length payload), sh_header_len = h\<rparr> \<and>
    n = h + length payload \<and> drop h (take n out') = payload"
proof -
  let ?td = "tick_raw tick - tick_raw last_tick" and ?bd = "tick_raw tick - tick_raw bt"
  let ?needed = "SESSION_MAX_HEADER_SIZE + length payload"
  let ?out = "if length out < ?needed then out @ replicate (?needed - length out) 0 else out"
  have later: "tick_raw last_tick \<le> tick_raw tick" "?td \<noteq> 0" "tick_raw bt \<le> tick_raw tick"
    using assms(1) by (auto simp: build_compact_packet_def checked_sub_u32_def split: if_splits)
  then obtain r where "encode_session_header ?out flags ?td ?bd (of_nat (length payload)) = Some r"
    using assms(1) by (auto simp: build_compact_packet_def checked_sub_u32_def Let_def bind_eq_Some_conv)
  with assms(1) later obtain h out1 where
    enc: "encode_session_header ?out flags ?td ?bd (of_nat (length payload)) = Some (Inr (h, out1))"
    and n: "n = h + length payload" "out' = splice out1 h payload"
    by (cases r) (auto simp: build_compact_packet_def checked_sub_u32_def Let_def)
  have len: "h \<le> SESSION_MAX_HEADER_SIZE" "length out1 = length ?out"
    using enc encode_session_header_bytes [of ?out flags ?td ?bd "of_nat (length payload)"]
      session_header_bytes_length [of flags ?td ?bd "of_nat (length payload)"]
    by (auto simp: encode_session_header_def SESSION_MAX_HEADER_SIZE_def split: if_splits)
  have bytes: "take n out' = take h out1 @ payload"
    using len unfolding n by (intro take_splice_end) (auto simp: not_less)
  have "unat (tick_raw last_tick) + unat ?td = unat (tick_raw tick)"
    using later(1) by (simp add: unat_sub word_le_nat_alt)
  then have wrap: "unat (tick_raw last_tick) + unat ?td < 2 ^ 32" using unsigned_less [of "tick_raw tick", where 'a = nat] by simp
  have "session_is_delta_snapshot flags \<Longrightarrow> 0 < unat (tick_raw bt)" using assms(3) by (simp add: unat_gt_0)
  then have bd: "session_is_full_snapshot flags \<Longrightarrow> ?bd = 0" "session_is_delta_snapshot flags \<Longrightarrow> ?bd < tick_raw tick"
    "?bd \<le> tick_raw tick"
    using assms(2,3) later(3) by (auto simp: word_less_nat_alt word_le_nat_alt unat_sub)
  from encode_session_header_decodes [OF enc later(2) wrap, of payload] bd have header:
    "decode_session_header (take h out1 @ payload) (tick_raw last_tick) =
      Inr \<lparr>sh_flags = flags, sh_tick = tick_raw tick, sh_baseline_tick = tick_raw bt,
           sh_payload_len = of_nat (length payload), sh_header_len = h\<rparr>" by simp
  have "h \<le> length out1" using len by (auto split: if_splits)
  then have "drop h (take h out1 @ payload) = payload" by simp
  with header n(1) show ?thesis unfolding bytes by blast
qed

end
