(* ===== verification/Demo_Views.thy ===== *)
theory Demo_Views
  imports Demo_Sync Sim_Steps
begin

text \<open>
  The server's world in the demonstration (\<^verbatim>\<open>sdec-bevy-demo/src/main.rs\<close>): the random walk of the positions,
  the server snapshot and the entities a client sees, and the plain snapshots that the comparison modes
  send and apply.  What a query of the engine iterates over is given as a list of entities and positions.
\<close>

section \<open>The walk\<close>

text \<open>\<open>skips\<close> is \<^verbatim>\<open>chance() > dirty_pct\<close>, a floating-point comparison of the number that was drawn.\<close>

definition step_position :: "(u32 \<Rightarrow> bool) \<Rightarrow> position_yaw \<Rightarrow> rng \<Rightarrow> position_yaw \<times> rng" where
  "step_position skips pos state =
    (let (v, state) = next_u32 state in
     if skips v then (pos, state)
     else
       let (dx, state) = range_i64 (- 500) 500 state;
           x = clamp (py_x pos + dx) (- 100000) 100000;
           (dy, state) = range_i64 (- 500) 500 state;
           y = clamp (py_y pos + dy) (- 100000) 100000;
           (v, state) = next_u32 state
       in (\<lparr>py_x = x, py_y = y, py_yaw = ucast ((ucast (py_yaw pos) + v mod 13) mod 4096)\<rparr>, state))"

fun step_positions :: "(u32 \<Rightarrow> bool) \<Rightarrow> position_yaw list \<Rightarrow> rng \<Rightarrow> position_yaw list \<times> rng" where
  "step_positions skips [] state = ([], state)"
| "step_positions skips (pos # rest) state =
    (let (pos, state) = step_position skips pos state;
         (rest, state) = step_positions skips rest state
     in (pos # rest, state))"

text \<open>The positions that the fields of the component can carry.\<close>

definition position_ok :: "position_yaw \<Rightarrow> bool" where
  "position_ok pos \<longleftrightarrow> in_bounds (- 100000) 100000 (py_x pos) \<and> in_bounds (- 100000) 100000 (py_y pos) \<and>
    py_yaw pos < 4096"

lemma step_position_ok: "position_ok pos \<Longrightarrow> position_ok (fst (step_position skips pos state))"
proof -
  have "(ucast ((v :: u32) mod 4096) :: u16) < 4096" for v
  proof -
    have "unat (v mod 4096) < 4096" by (simp add: unat_mod)
    then show ?thesis by (simp add: word_less_nat_alt unsigned_ucast_eq take_bit_nat_eq_self)
  qed
  then show "position_ok pos \<Longrightarrow> position_ok (fst (step_position skips pos state))"
    using clamp_in_bounds [of "- 100000" 100000]
    by (auto simp: step_position_def position_ok_def Let_def split: prod.split)
qed

lemma step_positions_ok:
  "\<forall>pos \<in> set ps. position_ok pos \<Longrightarrow> (\<forall>pos \<in> set (fst (step_positions skips ps state)). position_ok pos) \<and>
    length (fst (step_positions skips ps state)) = length ps"
proof (induction ps arbitrary: state)
  case (Cons pos rest)
  obtain pos' s1 where one: "step_position skips pos state = (pos', s1)" by fastforce
  obtain rest' s2 where more: "step_positions skips rest s1 = (rest', s2)" by fastforce
  from Cons.IH [of s1] Cons.prems step_position_ok [of pos skips state] one more show ?case by simp
qed simp

section \<open>What a client sees\<close>

fun build_entries ::
  "('e \<times> position_yaw) list \<Rightarrow> 'e entity_map \<Rightarrow> (entity_id \<times> position_yaw) list \<times> 'e entity_map" where
  "build_entries [] m = ([], m)"
| "build_entries ((entity, pos) # rest) m =
    (let (i, m) = map_entity_id entity m; (entries, m) = build_entries rest m in ((i, pos) # entries, m))"

definition build_server_snapshot ::
  "('e \<times> position_yaw) list \<Rightarrow> 'e entity_map \<Rightarrow> (entity_id \<times> position_yaw) list \<times> 'e entity_map" where
  "build_server_snapshot positions m =
    (let (entries, m) = build_entries positions m in (sort_key (\<lambda>(i, _). entity_raw i) entries, m))"

fun visible_entity_ids ::
  "('e \<times> position_yaw) list \<Rightarrow> 'e entity_map \<Rightarrow> i64 \<times> i64 \<Rightarrow> i64 \<Rightarrow> entity_id set \<times> 'e entity_map" where
  "visible_entity_ids [] m client_pos radius = ({}, m)"
| "visible_entity_ids ((entity, pos) # rest) m client_pos radius =
    (if in_view client_pos radius pos then
       let (i, m) = map_entity_id entity m; (visible, m) = visible_entity_ids rest m client_pos radius
       in (insert i visible, m)
     else visible_entity_ids rest m client_pos radius)"

lemma map_entity_id_keeps:
  assumes "map_entity_id entity m = (i, m')"
  shows "em_to_id m' entity = Some i" and "em_to_id m e = Some j \<Longrightarrow> em_to_id m' e = Some j"
  using assms by (auto simp: map_entity_id_def Let_def split: option.splits)

lemma build_entries_ids:
  "build_entries ps m = (entries, m') \<Longrightarrow>
    entries = map (\<lambda>(e, pos). (the (em_to_id m' e), pos)) ps \<and> (\<forall>(e, pos) \<in> set ps. em_to_id m' e \<noteq> None) \<and>
    (\<forall>e j. em_to_id m e = Some j \<longrightarrow> em_to_id m' e = Some j)"
proof (induction ps arbitrary: m entries)
  case (Cons p ps)
  obtain e pos where p: "p = (e, pos)" by fastforce
  obtain i m1 where one: "map_entity_id e m = (i, m1)" by fastforce
  obtain rest m2 where more: "build_entries ps m1 = (rest, m2)" by fastforce
  from Cons.prems p one more have eq: "entries = (i, pos) # rest" "m2 = m'" by simp_all
  from Cons.IH [OF more [unfolded eq(2)]] map_entity_id_keeps [OF one] show ?case by (auto simp: p eq(1))
qed simp

lemma visible_known:
  "\<forall>(e, pos) \<in> set ps. em_to_id m e \<noteq> None \<Longrightarrow>
    visible_entity_ids ps m client_pos radius =
      ({the (em_to_id m e) |e pos. (e, pos) \<in> set ps \<and> in_view client_pos radius pos}, m)"
proof (induction ps)
  case (Cons p ps)
  obtain e pos where p: "p = (e, pos)" by fastforce
  from Cons.prems p obtain i where i: "em_to_id m e = Some i" by auto
  have IH: "visible_entity_ids ps m client_pos radius =
      ({the (em_to_id m e) |e pos. (e, pos) \<in> set ps \<and> in_view client_pos radius pos}, m)"
    using Cons by simp
  show ?case
    by (cases "in_view client_pos radius pos")
      (auto simp: p IH map_entity_id_known_entity [OF i] i, metis i option.sel)
qed simp

text \<open>Both ways to compute what a client sees agree, once the server snapshot has named every entity.\<close>

theorem visible_ids_agree:
  assumes "build_server_snapshot positions m = (entries, m')"
  shows "visible_entity_ids positions m' client_pos radius =
    (visible_entity_ids_snapshot entries client_pos radius, m')"
proof -
  obtain es where built: "build_entries positions m = (es, m')" and entries: "entries = sort_key (\<lambda>(i, _). entity_raw i) es"
    using assms by (auto simp: build_server_snapshot_def split: prod.splits)
  from build_entries_ids [OF built] have es: "es = map (\<lambda>(e, pos). (the (em_to_id m' e), pos)) positions"
    and known: "\<forall>(e, pos) \<in> set positions. em_to_id m' e \<noteq> None" by simp_all
  have "{the (em_to_id m' e) |e pos. (e, pos) \<in> set positions \<and> in_view client_pos radius pos} =
      visible_entity_ids_snapshot entries client_pos radius"
    by (force simp: visible_entity_ids_snapshot_def entries es)
  with visible_known [OF known] show ?thesis by simp
qed

text \<open>The snapshot is in the strict order that the digest needs, as long as there are ids left.\<close>

lemma build_entries_ok:
  "build_entries ps m = (entries, m') \<Longrightarrow> entity_map_ok m \<Longrightarrow> unat (em_next m) + length ps < 2 ^ 32 \<Longrightarrow>
    entity_map_ok m'"
proof (induction ps arbitrary: m entries)
  case (Cons p ps)
  obtain e pos where p: "p = (e, pos)" by fastforce
  obtain i m1 where one: "map_entity_id e m = (i, m1)" by fastforce
  obtain rest m2 where more: "build_entries ps m1 = (rest, m2)" by fastforce
  have "em_next m \<noteq> - 1" using Cons.prems(3) by (auto simp: unsigned_minus_1_eq_mask mask_eq_exp_minus_1)
  note ok = map_entity_id_ok [OF Cons.prems(2) this one]
  have "unat (em_next m + 1) \<le> unat (em_next m) + 1" by (metis Suc_eq_plus1 add.commute unatSuc unat_0 le0 le_refl)
  with ok(4) Cons.prems(3) have "unat (em_next m1) + length ps < 2 ^ 32" by (simp add: word_le_nat_alt)
  moreover from Cons.prems(1) have "m2 = m'" by (simp add: p one more)
  ultimately show ?case using Cons.IH [OF _ ok(1)] more by simp
qed simp

theorem server_snapshot_sorted:
  assumes "build_server_snapshot positions m = (entries, m')" and "entity_map_ok m"
    and "distinct (map fst positions)" and "unat (em_next m) + length positions < 2 ^ 32"
  shows "sorted_wrt (<) (map fst entries)" and "entity_map_ok m'"
    and "\<forall>(i, pos) \<in> set entries. \<exists>e. em_to_entity m' i = Some e \<and> (e, pos) \<in> set positions"
proof -
  obtain es where built: "build_entries positions m = (es, m')" and entries: "entries = sort_key (\<lambda>(i, _). entity_raw i) es"
    using assms(1) by (auto simp: build_server_snapshot_def split: prod.splits)
  from build_entries_ids [OF built] have es: "es = map (\<lambda>(e, pos). (the (em_to_id m' e), pos)) positions"
    and known: "\<forall>(e, pos) \<in> set positions. em_to_id m' e \<noteq> None" by simp_all
  show ok: "entity_map_ok m'" by (rule build_entries_ok [OF built assms(2,4)])
  have "inj_on (\<lambda>e. the (em_to_id m' e)) (fst ` set positions)"
  proof (rule inj_onI)
    fix a b assume "a \<in> fst ` set positions" "b \<in> fst ` set positions" and same: "the (em_to_id m' a) = the (em_to_id m' b)"
    with known obtain i j where "em_to_id m' a = Some i" "em_to_id m' b = Some j" by fastforce
    with same entity_map_injective(1) [OF ok] show "a = b" by simp
  qed
  with assms(3) have "distinct (map (\<lambda>e. the (em_to_id m' e)) (map fst positions))"
    unfolding distinct_map [of "\<lambda>e. the (em_to_id m' e)"] set_map by blast
  then have "distinct (map fst es)" by (simp add: es o_def case_prod_unfold)
  then have "distinct (map entity_raw (map fst es))" unfolding distinct_map [of entity_raw] by (simp add: inj_on_def)
  then have "distinct (map (\<lambda>(i, _). entity_raw i) es)" by (simp add: o_def case_prod_unfold)
  then have "sorted_wrt (<) (map (\<lambda>(i, _). entity_raw i) entries)"
    unfolding strict_sorted_iff entries by (simp add: distinct_map)
  then show "sorted_wrt (<) (map fst entries)" by (simp add: sorted_wrt_map case_prod_unfold)
  show "\<forall>(i, pos) \<in> set entries. \<exists>e. em_to_entity m' i = Some e \<and> (e, pos) \<in> set positions"
  proof (clarsimp simp: entries es)
    fix e pos assume "(e, pos) \<in> set positions"
    with known obtain i where "em_to_id m' e = Some i" by auto
    with entity_map_okD(1) [OF ok, of e i] \<open>(e, pos) \<in> set positions\<close>
    show "\<exists>e'. em_to_entity m' (the (em_to_id m' e)) = Some e' \<and> (e', pos) \<in> set positions" by auto
  qed
qed

section \<open>The plain snapshots of the comparison modes\<close>

definition build_snapshot_for_ids ::
  "('e \<times> position_yaw) list \<Rightarrow> 'e entity_map \<Rightarrow> entity_id set \<Rightarrow> (u32 \<times> position_yaw) list \<times> 'e entity_map" where
  "build_snapshot_for_ids positions m ids =
    (let (entries, m) = build_entries positions m;
         snapshots = map (\<lambda>(i, pos). (entity_raw i, pos)) (filter (\<lambda>(i, pos). i \<in> ids) entries)
     in (sort_key fst snapshots, m))"

text \<open>\<^verbatim>\<open>world.spawn(position)\<close> spawns an entity and inserts the component; \<^verbatim>\<open>get_mut\<close> fails without one.\<close>

fun apply_entries ::
  "('w, 'e, position_yaw) world_ops \<Rightarrow> type_id \<Rightarrow> (u32 \<times> position_yaw) list \<Rightarrow> 'w \<Rightarrow> 'e entity_map \<Rightarrow>
    ('w \<times> 'e entity_map) option" where
  "apply_entries ops t [] world m = Some (world, m)"
| "apply_entries ops t ((raw, pos) # rest) world m =
    (let i = EntityId raw in
     Option.bind (case map_entity i m of
         Some e \<Rightarrow> Some (e, world, m)
       | None \<Rightarrow>
           let (e, world) = wo_spawn ops world
           in map_option (\<lambda>world. (e, world, map_register i e m)) (wo_insert ops t e pos world)) (\<lambda>(e, world, m).
     let world = (case wo_get ops t e world of None \<Rightarrow> world | Some _ \<Rightarrow> wo_write ops t e pos world)
     in apply_entries ops t rest world m))"

definition apply_snapshot ::
  "('w, 'e, position_yaw) world_ops \<Rightarrow> (entity_id set \<Rightarrow> entity_id list) \<Rightarrow> type_id \<Rightarrow> 'w \<Rightarrow> 'e entity_map \<Rightarrow>
    (u32 \<times> position_yaw) list \<Rightarrow> ('w \<times> 'e entity_map) option" where
  "apply_snapshot ops order t world m entities =
    map_option (\<lambda>(world, m).
      let seen = set (map (\<lambda>(raw, _). EntityId raw) entities)
      in destroy_entities ops (filter (\<lambda>i. i \<notin> seen) (order (map_ids m))) world m)
      (apply_entries ops t entities world m)"

text \<open>The client holds the positions \<open>f\<close>: its map is in order and leads, for each id of \<open>f\<close>, to an entity with that position.\<close>

definition holds_positions ::
  "('w, 'e, position_yaw) world_ops \<Rightarrow> ('e \<Rightarrow> 'w \<Rightarrow> bool) \<Rightarrow> type_id \<Rightarrow> 'w \<Rightarrow> 'e entity_map \<Rightarrow>
    (entity_id \<rightharpoonup> position_yaw) \<Rightarrow> bool" where
  "holds_positions ops alive t w m f \<longleftrightarrow> entity_map_ok m \<and> dom (em_to_entity m) = dom f \<and>
    (\<forall>i e. em_to_entity m i = Some e \<longrightarrow> alive e w \<and> wo_get ops t e w = f i)"

lemma holds_positionsD:
  assumes "holds_positions ops alive t w m f"
  shows "entity_map_ok m" "dom (em_to_entity m) = dom f"
    "em_to_entity m i = Some e \<Longrightarrow> alive e w" "em_to_entity m i = Some e \<Longrightarrow> wo_get ops t e w = f i"
  using assms by (auto simp: holds_positions_def)

lemma holds_written:
  assumes laws: "world_laws ops alive" and view: "holds_positions ops alive t w m f" and e: "em_to_entity m i = Some e"
  shows "holds_positions ops alive t (wo_write ops t e pos w) m (f(i \<mapsto> pos))"
proof -
  note ok = holds_positionsD [OF view]
  have "i \<in> dom f" using e ok(2) by auto
  then obtain pos0 where "wo_get ops t e w = Some pos0" using ok(4) [OF e] by auto
  note written = write_law [OF laws this, where c = pos]
  have other: "e' \<noteq> e" if "j \<noteq> i" "em_to_entity m j = Some e'" for j e'
    using that e entity_map_injective(2) [OF ok(1), of j e i] by auto
  have "dom (f(i \<mapsto> pos)) = dom f" using \<open>i \<in> dom f\<close> by auto
  with ok other e show ?thesis by (auto simp: holds_positions_def written)
qed

lemma holds_spawned:
  assumes laws: "world_laws ops alive" and view: "holds_positions ops alive t w m f" and new: "em_to_entity m i = None"
    and spawn: "wo_spawn ops w = (e, w1)" and insert: "wo_insert ops t e pos w1 = Some w2"
  shows "holds_positions ops alive t w2 (map_register i e m) (f(i \<mapsto> pos))"
proof -
  note ok = holds_positionsD [OF view] and spawned = spawn_law [OF laws spawn]
  have "alive e w1" by (simp add: spawned(2))
  from insert_law [OF laws this, of t pos] insert
  have inserted: "alive e' w2 \<longleftrightarrow> alive e' w1" "wo_get ops t e' w2 = (if e' = e then Some pos else wo_get ops t e' w1)" for e'
    by (metis option.inject)+
  have other: "e' \<noteq> e" if "em_to_entity m j = Some e'" for j e' using ok(3) [OF that] spawned(1) by auto
  then have "em_to_id m e = None" using entity_map_okD(1) [OF ok(1)] by (metis not_Some_eq)
  from map_register_ok [OF ok(1) this new] ok other show ?thesis
    by (auto simp: holds_positions_def map_register_def inserted spawned)
qed

lemma apply_entries_holds:
  assumes laws: "world_laws ops alive"
  shows "holds_positions ops alive t w m f \<Longrightarrow> apply_entries ops t es w m = Some (w', m') \<Longrightarrow>
    distinct (map fst es) \<Longrightarrow>
    holds_positions ops alive t w' m' (f ++ map_of (map (\<lambda>(raw, pos). (EntityId raw, pos)) es))"
proof (induction es arbitrary: w m f)
  case (Cons x es)
  obtain raw pos where x: "x = (raw, pos)" by fastforce
  let ?i = "EntityId raw" and ?more = "map_of (map (\<lambda>(raw, pos). (EntityId raw, pos)) es)"
  have "\<exists>e w1 m1. holds_positions ops alive t (wo_write ops t e pos w1) m1 (f(?i \<mapsto> pos)) \<and> wo_get ops t e w1 \<noteq> None \<and>
      (case map_entity ?i m of Some e \<Rightarrow> Some (e, w, m) | None \<Rightarrow> let (e, w) = wo_spawn ops w
        in map_option (\<lambda>w. (e, w, map_register ?i e m)) (wo_insert ops t e pos w)) = Some (e, w1, m1)"
  proof (cases "em_to_entity m ?i")
    case (Some e)
    then have "?i \<in> dom f" using holds_positionsD(2) [OF Cons.prems(1)] by auto
    with Some holds_written [OF laws Cons.prems(1) Some, of pos] holds_positionsD(4) [OF Cons.prems(1) Some]
    show ?thesis by (auto simp: map_entity_def)
  next
    case None
    obtain e w1 where spawn: "wo_spawn ops w = (e, w1)" by fastforce
    from insert_law [OF laws, of e w1 t pos] spawn_law(2) [OF laws spawn] obtain w2 where insert: "wo_insert ops t e pos w1 = Some w2"
      by metis
    note view = holds_spawned [OF laws Cons.prems(1) None spawn insert]
    have mapped: "em_to_entity (map_register ?i e m) ?i = Some e" by (simp add: map_register_def)
    from holds_written [OF laws view mapped, of pos] holds_positionsD(4) [OF view mapped] None spawn insert
    show ?thesis by (auto simp: map_entity_def)
  qed
  then obtain e w1 m1 where view: "holds_positions ops alive t (wo_write ops t e pos w1) m1 (f(?i \<mapsto> pos))"
    and get: "wo_get ops t e w1 \<noteq> None"
    and found: "(case map_entity ?i m of Some e \<Rightarrow> Some (e, w, m) | None \<Rightarrow> let (e, w) = wo_spawn ops w
        in map_option (\<lambda>w. (e, w, map_register ?i e m)) (wo_insert ops t e pos w)) = Some (e, w1, m1)" by blast
  from Cons.prems(2) get have "apply_entries ops t es (wo_write ops t e pos w1) m1 = Some (w', m')"
    unfolding x apply_entries.simps Let_def [of ?i] found by (auto simp: Let_def)
  note rest = Cons.IH [OF view this]
  have "raw \<notin> fst ` set es" using Cons.prems(3) by (simp add: x)
  then have "?more ?i = None" by (auto simp: map_of_eq_None_iff image_iff)
  then have "f(?i \<mapsto> pos) ++ ?more = f ++ (?more(?i \<mapsto> pos))" by (auto simp: fun_eq_iff map_add_def split: option.split)
  also have "?more(?i \<mapsto> pos) = map_of (map (\<lambda>(raw, pos). (EntityId raw, pos)) (x # es))" by (simp add: x)
  finally have all: "f(?i \<mapsto> pos) ++ ?more = f ++ map_of (map (\<lambda>(raw, pos). (EntityId raw, pos)) (x # es))" .
  have "distinct (map fst es)" using Cons.prems(3) by simp
  from rest [OF this] show ?case unfolding all .
qed simp

lemma holds_destroyed:
  assumes laws: "world_laws ops alive" and view: "holds_positions ops alive t w m f" and e: "em_to_entity m d = Some e"
  shows "holds_positions ops alive t (wo_despawn ops e w) (map_unregister d m) (f(d := None))"
proof -
  note ok = holds_positionsD [OF view]
  have other: "e' \<noteq> e" if "i \<noteq> d" "em_to_entity m i = Some e'" for i e'
    using that e entity_map_injective(2) [OF ok(1), of i e d] by auto
  with ok e show ?thesis
    using map_unregister_ok [OF ok(1), of d] despawn_law [OF laws, where e = e and w = w]
    by (auto simp: holds_positions_def map_unregister_def)
qed

lemma holds_destroys:
  assumes "world_laws ops alive"
  shows "holds_positions ops alive t w m f \<Longrightarrow> destroy_entities ops ds w m = (w', m') \<Longrightarrow>
    holds_positions ops alive t w' m' (f |` (- set ds))"
proof (induction ds arbitrary: w m f)
  case (Cons d ds)
  have restrict: "f |` (- set (d # ds)) = (f(d := None)) |` (- set ds)" by (auto simp: fun_eq_iff restrict_map_def)
  show ?case
  proof (cases "map_entity d m")
    case None
    then have "f d = None" using holds_positionsD(2) [OF Cons.prems(1)] by (auto simp: map_entity_def)
    then have "f(d := None) = f" by auto
    with Cons.IH [OF Cons.prems(1)] Cons.prems(2) None show ?thesis unfolding restrict by simp
  next
    case (Some e)
    then have "holds_positions ops alive t (wo_despawn ops e w) (map_unregister d m) (f(d := None))"
      using holds_destroyed [OF assms Cons.prems(1)] by (simp add: map_entity_def)
    moreover have "destroy_entities ops ds (wo_despawn ops e w) (map_unregister d m) = (w', m')"
      using Cons.prems(2) Some by simp
    ultimately show ?thesis unfolding restrict by (rule Cons.IH)
  qed
qed (simp add: restrict_map_def)

text \<open>Whatever the client held before, afterwards it holds the snapshot and nothing else.\<close>

theorem plain_snapshot_applied:
  assumes laws: "world_laws ops alive" and order: "iteration_order order"
    and view: "holds_positions ops alive t w m f" and "finite (dom f)" and distinct: "distinct (map fst es)"
    and ran: "apply_snapshot ops order t w m es = Some (w', m')"
  shows "holds_positions ops alive t w' m' (map_of (map (\<lambda>(raw, pos). (EntityId raw, pos)) es))"
proof -
  let ?data = "map (\<lambda>(raw, pos). (EntityId raw, pos)) es" and ?seen = "set (map (\<lambda>(raw, _). EntityId raw) es)"
  from ran obtain w1 m1 where run: "apply_entries ops t es w m = Some (w1, m1)"
    and dropped: "destroy_entities ops (filter (\<lambda>i. i \<notin> ?seen) (order (map_ids m1))) w1 m1 = (w', m')"
    by (auto simp: apply_snapshot_def Let_def)
  note held = apply_entries_holds [OF laws view run distinct]
  have seen: "dom (map_of ?data) = ?seen" by (auto simp: dom_map_of_conv_image_fst image_image case_prod_unfold)
  have "finite (map_ids m1)" using holds_positionsD(2) [OF held] assms(4) finite_dom_map_of [of ?data]
    by (simp add: map_ids_def)
  then have "set (filter (\<lambda>i. i \<notin> ?seen) (order (map_ids m1))) = dom (f ++ map_of ?data) - ?seen"
    using order holds_positionsD(2) [OF held] by (auto simp: iteration_order_def map_ids_def)
  then have "(f ++ map_of ?data) |` (- set (filter (\<lambda>i. i \<notin> ?seen) (order (map_ids m1)))) = map_of ?data"
    unfolding seen [symmetric] by (auto simp: fun_eq_iff restrict_map_def map_add_def split: option.split)
  with holds_destroys [OF laws held dropped] show ?thesis by simp
qed

text \<open>The snapshot for some ids has each of their entries once.\<close>

lemma plain_snapshot_data:
  assumes server: "build_server_snapshot positions ms = (entries, ms1)"
      "build_snapshot_for_ids positions ms1 ids = (data, ms2)"
    and ms: "entity_map_ok ms" "distinct (map fst positions)" "unat (em_next ms) + length positions < 2 ^ 32"
  shows "distinct (map fst data)"
    and "set (map (\<lambda>(raw, pos). (EntityId raw, pos)) data) = {(i, pos) \<in> set entries. i \<in> ids}"
proof -
  let ?es = "map (\<lambda>(e, pos). (the (em_to_id ms1 e), pos)) positions"
  obtain es where built: "build_entries positions ms = (es, ms1)" and entries: "entries = sort_key (\<lambda>(i, _). entity_raw i) es"
    using server(1) by (auto simp: build_server_snapshot_def split: prod.splits)
  note ids = build_entries_ids [OF built]
  have es: "es = ?es" using ids by simp
  obtain es' where again: "build_entries positions ms1 = (es', ms2)"
    and data: "data = sort_key fst (map (\<lambda>(i, pos). (entity_raw i, pos)) (filter (\<lambda>(i, pos). i \<in> ids) es'))"
    using server(2) by (auto simp: build_snapshot_for_ids_def split: prod.splits)
  have kept: "the (em_to_id ms2 e) = the (em_to_id ms1 e)" if "(e, pos) \<in> set positions" for e pos
    using that ids build_entries_ids [OF again] by fastforce
  have "es' = map (\<lambda>(e, pos). (the (em_to_id ms2 e), pos)) positions" using build_entries_ids [OF again] by simp
  also have "\<dots> = es" using kept by (auto simp: es)
  finally have es': "es' = es" .
  have distinct: "distinct (map fst entries)"
    using server_snapshot_sorted(1) [OF server(1) ms] by (simp add: strict_sorted_iff)
  show "set (map (\<lambda>(raw, pos). (EntityId raw, pos)) data) = {(i, pos) \<in> set entries. i \<in> ids}"
    by (force simp: data entries es' image_iff)
  have "distinct (map fst es)" using distinct unfolding entries by (simp add: distinct_map)
  then have "distinct (map fst (filter (\<lambda>(i, pos). i \<in> ids) es))" by (rule distinct_map_filter)
  then have "distinct (map entity_raw (map fst (filter (\<lambda>(i, pos). i \<in> ids) es)))"
    unfolding distinct_map [of entity_raw] by (simp add: inj_on_def)
  moreover have "map entity_raw (map fst (filter (\<lambda>(i, pos). i \<in> ids) es)) =
      map fst (map (\<lambda>(i, pos). (entity_raw i, pos)) (filter (\<lambda>(i, pos). i \<in> ids) es))" by (simp add: case_prod_unfold)
  ultimately show "distinct (map fst data)"
    unfolding data es' by (simp only: distinct_map [of fst] distinct_sort set_sort)
qed

text \<open>
  A tick of a comparison mode: the server's snapshot of the ids that a client sees, applied by the client,
  leaves both with the same digest.
\<close>

theorem plain_snapshot_digest:
  assumes laws: "world_laws ops alive" and order: "iteration_order order"
    and view: "holds_positions ops alive t w m f" "finite (dom f)" "finite ids"
    and server: "build_server_snapshot positions ms = (entries, ms1)"
      "build_snapshot_for_ids positions ms1 ids = (data, ms2)"
    and ms: "entity_map_ok ms" "distinct (map fst positions)" "unat (em_next ms) + length positions < 2 ^ 32"
    and ran: "apply_snapshot ops order t w m data = Some (w', m')"
  shows "state_digest ops t w' m' ids = state_digest_snapshot entries ids"
proof -
  let ?data = "map (\<lambda>(raw, pos). (EntityId raw, pos)) data"
  note raws = plain_snapshot_data(1) [OF server ms] and set_data = plain_snapshot_data(2) [OF server ms]
  have sorted: "sorted_wrt (<) (map fst entries)" by (rule server_snapshot_sorted [OF server(1) ms])
  then have distinct: "distinct (map fst entries)" by (simp add: strict_sorted_iff)
  from raws have "distinct (map EntityId (map fst data))" unfolding distinct_map [of EntityId] by (simp add: inj_on_def)
  then have keys: "distinct (map fst ?data)" by (simp add: o_def case_prod_unfold)
  have same: "map_of ?data i = map_of entries i" if "i \<in> ids" for i
  proof -
    have "map_of ?data i = Some pos \<longleftrightarrow> map_of entries i = Some pos" for pos
      using that set_data by (auto simp: map_of_eq_Some_iff [OF keys] map_of_eq_Some_iff [OF distinct])
    then show ?thesis by (metis not_Some_eq)
  qed
  note held = plain_snapshot_applied [OF laws order view(1,2) raws ran]
  show ?thesis
  proof (rule digests_agree [OF sorted view(3)])
    fix i assume "i \<in> ids"
    have "Option.bind (map_entity i m') (\<lambda>e. wo_get ops t e w') = map_of ?data i"
    proof (cases "em_to_entity m' i")
      case None
      then have "map_of ?data i = None" using holds_positionsD(2) [OF held] by (metis domIff)
      with None show ?thesis by (simp add: map_entity_def)
    qed (use holds_positionsD(4) [OF held] in \<open>simp add: map_entity_def\<close>)
    with same [OF \<open>i \<in> ids\<close>] show "Option.bind (map_entity i m') (\<lambda>e. wo_get ops t e w') = map_of entries i" by simp
  qed
qed

end
