(* ===== verification/Demo_Run.thy ===== *)
theory Demo_Run
  imports Demo_Views
begin

text \<open>
  The demonstration's \<^verbatim>\<open>main\<close> (\<^verbatim>\<open>sdec-bevy-demo/src/main.rs\<close>): the server's world, one tick with all its
  clients (what is sent, the lossy queue, what is applied, the resynchronisation and the validation), the
  loop over the ticks and the counters of the summary.  The engine, the floating-point expressions and
  comparisons, and the serialisers of the comparison modes are the record \<open>demo_env\<close>; reading the
  arguments, the elapsed times and writing the summary file are left out.
\<close>

section \<open>Parameters and arguments\<close>

datatype demo_mode = SdecMode | NaiveMode | LightyearMode

datatype demo_scenario = DenseRun | RelevancyRun | LossRun

record demo_args =
  da_entities :: u32
  da_ticks :: u32
  da_seed :: u64
  da_mode :: demo_mode
  da_scenario :: demo_scenario
  da_clients :: "u32 option"
  da_visibility_radius :: "i64 option"
  da_validate :: bool

text \<open>
  \<open>de_query\<close> is the order in which a query over the component visits the entities.  The three predicates
  compare a drawn number, as a fraction, with the dirty percentage (\<^verbatim>\<open>>\<close>), the drop rate (\<^verbatim>\<open>>=\<close>) and the
  reorder rate (\<^verbatim>\<open><\<close>).  \<open>de_ring\<close> is the place of a client on the circle, moved by its jitter.
\<close>

type_synonym plain_snapshot = "(u32 \<times> position_yaw) list"

record ('w, 'e, 'f) demo_env =
  de_blake3 :: "u8 list \<Rightarrow> u8 list"
  de_ops :: "('w, 'e, position_yaw) world_ops"
  de_type :: type_id
  de_new_world :: 'w
  de_query :: "'w \<Rightarrow> 'e list"
  de_clear_trackers :: "'w \<Rightarrow> 'w"
  de_order_ids :: "entity_id set \<Rightarrow> entity_id list"
  de_order :: "'e set \<Rightarrow> 'e list"
  de_spoil :: "u8 list \<Rightarrow> u8 list"
  de_f32 :: "'f f32_ops"
  de_of_i64 :: "i64 \<Rightarrow> 'f"
  de_f32_max :: 'f
  de_ring :: "u32 \<Rightarrow> u32 \<Rightarrow> i64 \<Rightarrow> i64 \<Rightarrow> i64 \<times> i64"
  de_skips :: "u32 \<Rightarrow> bool"
  de_delivers :: "u32 \<Rightarrow> bool"
  de_swaps :: "u32 \<Rightarrow> bool"
  de_bincode :: "plain_snapshot \<Rightarrow> u8 list option"
  de_from_bincode :: "u8 list \<Rightarrow> plain_snapshot option"
  de_bitcode :: "plain_snapshot \<Rightarrow> u8 list"
  de_from_bitcode :: "u8 list \<Rightarrow> plain_snapshot option"
  de_rank :: "usize \<Rightarrow> usize"

definition scenario_config :: "demo_args \<Rightarrow> u32 \<times> i64" where
  "scenario_config args =
    (let (default_clients, default_radius) = (case da_scenario args of
           DenseRun \<Rightarrow> (1, 0) | RelevancyRun \<Rightarrow> (64, 30000) | LossRun \<Rightarrow> (64, 30000));
         clients = max (case da_clients args of Some n \<Rightarrow> n | None \<Rightarrow> default_clients) 1;
         radius = (case da_visibility_radius args of Some r \<Rightarrow> r | None \<Rightarrow> default_radius)
     in (clients, radius))"

text \<open>\<^verbatim>\<open>for idx in 0..clients\<close>, with the indices that are left.\<close>

fun client_positions_loop ::
  "(u32 \<Rightarrow> u32 \<Rightarrow> i64 \<Rightarrow> i64 \<Rightarrow> i64 \<times> i64) \<Rightarrow> u32 \<Rightarrow> u32 list \<Rightarrow> rng \<Rightarrow> (i64 \<times> i64) list \<times> rng" where
  "client_positions_loop ring clients [] state = ([], state)"
| "client_positions_loop ring clients (idx # rest) state =
    (let (jitter_x, state) = range_i64 (- 1000) 1000 state;
         (jitter_y, state) = range_i64 (- 1000) 1000 state;
         (positions, state) = client_positions_loop ring clients rest state
     in (ring idx clients jitter_x jitter_y # positions, state))"

definition build_client_positions ::
  "(u32 \<Rightarrow> u32 \<Rightarrow> i64 \<Rightarrow> i64 \<Rightarrow> i64 \<times> i64) \<Rightarrow> u32 \<Rightarrow> rng \<Rightarrow> (i64 \<times> i64) list \<times> rng" where
  "build_client_positions ring clients state =
    client_positions_loop ring clients (map of_nat [0..<unat clients]) state"

section \<open>The state of the run\<close>

record demo_totals =
  dt_create_entities :: u64
  dt_create_components :: u64
  dt_create_fields :: u64
  dt_update_entities :: u64
  dt_update_components :: u64
  dt_update_fields :: u64
  dt_destroy_entities :: u64

text \<open>The world, the entity map and the session of a client are \<open>dc_sync\<close>; its encoder has no state.\<close>

record ('w, 'e) demo_client =
  dc_id :: client_id
  dc_sync :: "('w, 'e) client"
  dc_visible :: "entity_id set"
  dc_last_tick :: snapshot_tick
  dc_last_applied_tick :: snapshot_tick
  dc_last_applied_full :: bool
  dc_queue :: "u8 list list"
  dc_errors :: u64
  dc_delta_buf :: "u8 list"
  dc_send_buf :: "u8 list"

definition demo_client_new :: "'w \<Rightarrow> client_id \<Rightarrow> usize \<Rightarrow> usize \<Rightarrow> ('w, 'e) demo_client" where
  "demo_client_new new_world client delta_buf_size send_buf_size =
    \<lparr>dc_id = client, dc_sync = (new_world, entity_map_new, None), dc_visible = {}, dc_last_tick = SnapshotTick 0,
     dc_last_applied_tick = SnapshotTick 0, dc_last_applied_full = False, dc_queue = [], dc_errors = 0,
     dc_delta_buf = replicate delta_buf_size 0, dc_send_buf = replicate send_buf_size 0\<rparr>"

type_synonym server_snapshot = "u32 \<times> (entity_id \<times> position_yaw) list"

text \<open>The locals of \<^verbatim>\<open>main\<close> that the loop changes, but for the clients.\<close>

record ('w, 'e, 'f) demo_state =
  ds_world :: 'w
  ds_entities :: "'e entity_map"
  ds_rng :: rng
  ds_graph :: "'f replication_graph"
  ds_snapshots :: "server_snapshot list"
  ds_bytes :: "u64 list"
  ds_errors :: u64
  ds_resyncs :: u64
  ds_validation_errors :: u64
  ds_totals :: demo_totals

datatype demo_failure =
    Stopped demo_error
  | SchemaRejected bevy_error
  | SessionDecode decode_error
  | SessionCodec codec_error
  | NaiveSerialize
  | NaiveDeserialize
  | BitcodeDecode

section \<open>The server's world\<close>

text \<open>\<^verbatim>\<open>step_positions\<close> on the world: a position that is skipped is not written, so it is not marked as changed.\<close>

fun step_world ::
  "('w, 'e, position_yaw) world_ops \<Rightarrow> type_id \<Rightarrow> (u32 \<Rightarrow> bool) \<Rightarrow> 'e list \<Rightarrow> 'w \<Rightarrow> rng \<Rightarrow> 'w \<times> rng" where
  "step_world ops t skips [] world state = (world, state)"
| "step_world ops t skips (entity # rest) world state =
    (case wo_get ops t entity world of
       None \<Rightarrow> step_world ops t skips rest world state
     | Some pos \<Rightarrow>
         let (pos, state') = step_position skips pos state;
             world = (if skips (fst (next_u32 state)) then world else wo_write ops t entity pos world)
         in step_world ops t skips rest world state')"

definition collect_positions ::
  "('w, 'e, position_yaw) world_ops \<Rightarrow> type_id \<Rightarrow> ('w \<Rightarrow> 'e list) \<Rightarrow> 'w \<Rightarrow> ('e \<times> position_yaw) list" where
  "collect_positions ops t query world =
    List.map_filter (\<lambda>entity. map_option (Pair entity) (wo_get ops t entity world)) (query world)"

text \<open>The components that changed, by entity; each entity's entry is removed when it is reported to the graph.\<close>

definition note_dirty ::
  "delta_update_entity \<Rightarrow> (entity_id \<rightharpoonup> component_id list) \<Rightarrow> (entity_id \<rightharpoonup> component_id list)" where
  "note_dirty update dirty_map =
    dirty_map(ue_id update \<mapsto>
      push_unique_components (case dirty_map (ue_id update) of Some cs \<Rightarrow> cs | None \<Rightarrow> [])
        (map uc_id (ue_components update)))"

fun observe_positions ::
  "(i64 \<Rightarrow> 'f) \<Rightarrow> ('e \<times> position_yaw) list \<Rightarrow> (entity_id \<rightharpoonup> component_id list) \<Rightarrow> 'e entity_map \<Rightarrow>
    'f replication_graph \<Rightarrow> 'e entity_map \<times> 'f replication_graph" where
  "observe_positions of_i64 [] dirty_map m graph = (m, graph)"
| "observe_positions of_i64 ((entity, pos) # rest) dirty_map m graph =
    (let (i, m) = map_entity_id entity m;
         dirty = (case dirty_map i of Some cs \<Rightarrow> cs | None \<Rightarrow> []);
         dirty_map = dirty_map(i := None);
         graph = graph_update_entity i
           \<lparr>v_x = of_i64 (py_x pos), v_y = of_i64 (py_y pos), v_z = of_i64 0\<rparr> dirty graph
     in observe_positions of_i64 rest dirty_map m graph)"

text \<open>\<^verbatim>\<open>push_back\<close>, then \<^verbatim>\<open>pop_front\<close> while there are more than 256.\<close>

definition push_snapshot :: "server_snapshot \<Rightarrow> server_snapshot list \<Rightarrow> server_snapshot list" where
  "push_snapshot snapshot snapshots =
    (let snapshots = snapshots @ [snapshot] in drop (length snapshots - 256) snapshots)"

section \<open>What is sent\<close>

definition count_delta :: "client_delta \<Rightarrow> demo_totals \<Rightarrow> demo_totals" where
  "count_delta delta t =
    (let creates = concat (map es_components (cd_creates delta));
         updates = concat (map ue_components (cd_updates delta))
     in \<lparr>dt_create_entities = dt_create_entities t + of_nat (length (cd_creates delta)),
         dt_create_components = dt_create_components t + of_nat (length creates),
         dt_create_fields = dt_create_fields t + of_nat (sum_list (map (\<lambda>c. length (cs_fields c)) creates)),
         dt_update_entities = dt_update_entities t + of_nat (length (cd_updates delta)),
         dt_update_components = dt_update_components t + of_nat (length updates),
         dt_update_fields = dt_update_fields t + of_nat (sum_list (map (\<lambda>c. length (uc_fields c)) updates)),
         dt_destroy_entities = dt_destroy_entities t + of_nat (length (cd_destroys delta))\<rparr>)"

text \<open>
  \<^verbatim>\<open>Mode::Sdec\<close>: a full snapshot of the created entities in the first tick, then compact deltas.  The send
  buffer is moved into the payload, an empty vector stays behind.
\<close>

definition sdec_payload ::
  "('w, 'e, 'f) demo_env \<Rightarrow> position_yaw bevy_schema \<Rightarrow> codec_limits \<Rightarrow> u32 \<Rightarrow> ('w, 'e) demo_client \<Rightarrow>
    ('w, 'e, 'f) demo_state \<Rightarrow> (demo_failure + u8 list \<times> ('w, 'e) demo_client \<times> ('w, 'e, 'f) demo_state) option" where
  "sdec_payload env bs l tick c st =
    (let (delta, graph) = build_client_delta (de_f32 env) (dc_id c)
           (demo_world_view (de_ops env) bs (ds_world st) (ds_entities st)) (ds_graph st);
         st = st\<lparr>ds_graph := graph, ds_totals := count_delta delta (ds_totals st)\<rparr>;
         encoder = session_encoder_new (bs_schema bs) l;
         baseline_tick = SnapshotTick (if tick > 0 then tick - 1 else 0)
     in if tick = 1 then
          try_then (map_option (map_err Stopped)
            (encode_full_snapshot_retry (de_blake3 env) (bs_schema bs) (SnapshotTick tick) (cd_creates delta) l
              (de_spoil env) (dc_send_buf c))) (\<lambda>(len, send_buf).
          Some (Inr (take len send_buf, c\<lparr>dc_send_buf := [], dc_last_tick := SnapshotTick tick\<rparr>, st)))
        else
          try_then (map_option (map_err Stopped)
            (encode_delta_retry (de_blake3 env) encoder (SnapshotTick tick) baseline_tick (cd_creates delta)
              (cd_destroys delta) (cd_updates delta) (de_spoil env) (dc_delta_buf c))) (\<lambda>(len, delta_buf).
          if len < HEADER_SIZE \<or> length delta_buf < len then None
          else
            try_then (map_option (map_err Stopped)
              (build_compact_packet (dc_send_buf c) session_flags_delta_snapshot (dc_last_tick c)
                (SnapshotTick tick) baseline_tick (sub_slice delta_buf HEADER_SIZE len))) (\<lambda>(compact_len, send_buf).
            Some (Inr (take compact_len send_buf,
              c\<lparr>dc_delta_buf := delta_buf, dc_send_buf := [], dc_last_tick := SnapshotTick tick\<rparr>, st)))))"

definition plain_payload ::
  "('w, 'e, 'f) demo_env \<Rightarrow> (plain_snapshot \<Rightarrow> demo_failure + u8 list) \<Rightarrow> ('w, 'e) demo_client \<Rightarrow>
    ('w, 'e, 'f) demo_state \<Rightarrow> (demo_failure + u8 list \<times> ('w, 'e) demo_client \<times> ('w, 'e, 'f) demo_state) option" where
  "plain_payload env encode c st =
    (let (snapshot, m) = build_snapshot_for_ids
           (collect_positions (de_ops env) (de_type env) (de_query env) (ds_world st)) (ds_entities st) (dc_visible c)
     in Some (and_then (encode snapshot) (\<lambda>payload. Inr (payload, c, st\<lparr>ds_entities := m\<rparr>))))"

definition client_payload ::
  "('w, 'e, 'f) demo_env \<Rightarrow> position_yaw bevy_schema \<Rightarrow> codec_limits \<Rightarrow> demo_mode \<Rightarrow> u32 \<Rightarrow> ('w, 'e) demo_client \<Rightarrow>
    ('w, 'e, 'f) demo_state \<Rightarrow> (demo_failure + u8 list \<times> ('w, 'e) demo_client \<times> ('w, 'e, 'f) demo_state) option" where
  "client_payload env bs l mode tick c st =
    (case mode of
       SdecMode \<Rightarrow> sdec_payload env bs l tick c st
     | NaiveMode \<Rightarrow> plain_payload env (\<lambda>sn. ok_or NaiveSerialize (de_bincode env sn)) c st
     | LightyearMode \<Rightarrow> plain_payload env (\<lambda>sn. Inr (de_bitcode env sn)) c st)"

text \<open>
  The lossy queue.  A number is drawn for the drop, and in the loss scenario one for the reordering, which
  exchanges the two newest packets.  A dropped packet leaves its (emptied) memory to the send buffer.
\<close>

definition swap_newest :: "'a list \<Rightarrow> 'a list" where
  "swap_newest xs =
    (let n = length xs in if n \<ge> 2 then xs[n - 1 := xs ! (n - 2), n - 2 := xs ! (n - 1)] else xs)"

definition send_packet ::
  "(u32 \<Rightarrow> bool) \<Rightarrow> (u32 \<Rightarrow> bool) \<Rightarrow> demo_scenario \<Rightarrow> u8 list \<Rightarrow> u8 list list \<Rightarrow> rng \<Rightarrow> u8 list list \<times> rng" where
  "send_packet delivers swaps scenario payload queue state =
    (let (v, state) = next_u32 state in
     if \<not> delivers v then (queue, state)
     else
       let queue = queue @ [payload] in
       if scenario \<noteq> LossRun then (queue, state)
       else
         let (v, state) = next_u32 state
         in (if swaps v \<and> length queue \<ge> 2 then swap_newest queue else queue, state))"

section \<open>What is received\<close>

text \<open>The ids that both sides are compared on, and whether they differ.\<close>

definition expected_ids ::
  "demo_scenario \<Rightarrow> i64 \<Rightarrow> i64 \<times> i64 \<Rightarrow> 'e entity_map \<Rightarrow> (entity_id \<times> position_yaw) list \<Rightarrow> entity_id set" where
  "expected_ids scenario radius client_pos m entries =
    (if scenario = LossRun then map_ids m
     else if sint radius \<le> 0 then set (map fst entries)
     else visible_entity_ids_snapshot entries client_pos radius)"

definition client_differs ::
  "('w, 'e, 'f) demo_env \<Rightarrow> demo_scenario \<Rightarrow> i64 \<Rightarrow> i64 \<times> i64 \<Rightarrow> u32 \<Rightarrow> server_snapshot list \<Rightarrow> ('w, 'e) client \<Rightarrow> bool" where
  "client_differs env scenario radius client_pos tick snapshots client =
    (case find (\<lambda>(t, entries). t = tick) snapshots of
       None \<Rightarrow> False
     | Some (t, entries) \<Rightarrow>
         let (world, m, session) = client;
             expected = expected_ids scenario radius client_pos m entries
         in state_digest (de_ops env) (de_type env) world m expected \<noteq> state_digest_snapshot entries expected)"

text \<open>A packet that was applied: the validation against the server's snapshot of its tick.\<close>

definition validate_applied ::
  "('w, 'e, 'f) demo_env \<Rightarrow> demo_args \<Rightarrow> i64 \<Rightarrow> i64 \<times> i64 \<Rightarrow> ('w, 'e) demo_client \<Rightarrow>
    ('w, 'e, 'f) demo_state \<Rightarrow> ('w, 'e, 'f) demo_state" where
  "validate_applied env args radius client_pos c st =
    (let tick = tick_raw (dc_last_applied_tick c)
     in if da_validate args \<and> \<not> (da_scenario args = LossRun \<and> \<not> dc_last_applied_full c) \<and> tick > 0 \<and>
          client_differs env (da_scenario args) radius client_pos tick (ds_snapshots st) (dc_sync c)
        then st\<lparr>ds_validation_errors := ds_validation_errors st + 1\<rparr> else st)"

text \<open>A packet that was refused: the client is rebuilt from a full snapshot of what it sees.\<close>

definition resync_refused ::
  "('w, 'e, 'f) demo_env \<Rightarrow> position_yaw bevy_schema \<Rightarrow> codec_limits \<Rightarrow> demo_args \<Rightarrow> i64 \<Rightarrow> i64 \<times> i64 \<Rightarrow>
    ('w, 'e) demo_client \<Rightarrow> ('w, 'e, 'f) demo_state \<Rightarrow> (('w, 'e) demo_client \<times> ('w, 'e, 'f) demo_state) option" where
  "resync_refused env bs l args radius client_pos c st =
    (let tick = resync_tick (snd (snd (dc_sync c)));
         st = st\<lparr>ds_errors := ds_errors st + 1\<rparr>;
         c = c\<lparr>dc_errors := dc_errors c + 1\<rparr>
     in map_option (\<lambda>(result, sync).
          let c = c\<lparr>dc_sync := sync\<rparr>
          in if result \<noteq> Inr True then (c, st)
             else
               let st = st\<lparr>ds_resyncs := ds_resyncs st + 1\<rparr>;
                   c = c\<lparr>dc_last_applied_tick := tick, dc_last_applied_full := True\<rparr>
               in if \<not> da_validate args then (c, st)
                  else
                    let (entries, m) = build_server_snapshot
                          (collect_positions (de_ops env) (de_type env) (de_query env) (ds_world st)) (ds_entities st);
                        snapshots = push_snapshot (tick_raw tick, entries) (ds_snapshots st);
                        st = st\<lparr>ds_entities := m, ds_snapshots := snapshots\<rparr>
                    in (c, if client_differs env (da_scenario args) radius client_pos (tick_raw tick) snapshots sync
                           then st\<lparr>ds_validation_errors := ds_validation_errors st + 1\<rparr> else st))
          (resync_client (de_blake3 env) (de_ops env) (de_order_ids env) (de_spoil env) bs (ds_world st)
            (ds_entities st) (dc_visible c) l (dc_sync c)))"

definition apply_sdec ::
  "('w, 'e, 'f) demo_env \<Rightarrow> position_yaw bevy_schema \<Rightarrow> codec_limits \<Rightarrow> demo_args \<Rightarrow> i64 \<Rightarrow> i64 \<times> i64 \<Rightarrow> u8 list \<Rightarrow>
    ('w, 'e) demo_client \<Rightarrow> ('w, 'e, 'f) demo_state \<Rightarrow> (('w, 'e) demo_client \<times> ('w, 'e, 'f) demo_state) option" where
  "apply_sdec env bs l args radius client_pos delivered c st =
    Option.bind (apply_sdec_packet (de_blake3 env) (de_ops env) (de_order_ids env) bs l delivered (dc_sync c))
      (\<lambda>(result, sync).
      let c = c\<lparr>dc_sync := sync\<rparr>
      in case result of
           Inl e \<Rightarrow> resync_refused env bs l args radius client_pos c st
         | Inr applied \<Rightarrow>
             let c = (case applied of
                   FullApplied t \<Rightarrow> c\<lparr>dc_last_applied_tick := t, dc_last_applied_full := True\<rparr>
                 | DeltaApplied t \<Rightarrow> c\<lparr>dc_last_applied_tick := t, dc_last_applied_full := False\<rparr>)
             in Some (c, validate_applied env args radius client_pos c st))"

definition apply_plain ::
  "('w, 'e, 'f) demo_env \<Rightarrow> (u8 list \<Rightarrow> demo_failure + plain_snapshot) \<Rightarrow> demo_args \<Rightarrow> i64 \<Rightarrow> i64 \<times> i64 \<Rightarrow> u32 \<Rightarrow>
    u8 list \<Rightarrow> ('w, 'e) demo_client \<Rightarrow> ('w, 'e, 'f) demo_state \<Rightarrow>
    (demo_failure + ('w, 'e) demo_client \<times> ('w, 'e, 'f) demo_state) option" where
  "apply_plain env decode args radius client_pos tick delivered c st =
    try_then (Some (decode delivered)) (\<lambda>snapshot.
      let (world, m, session) = dc_sync c
      in map_option (\<lambda>(world, m).
           let c = c\<lparr>dc_sync := (world, m, session), dc_last_applied_tick := SnapshotTick tick,
                 dc_last_applied_full := True\<rparr>
           in Inr (c, validate_applied env args radius client_pos c st))
         (apply_snapshot (de_ops env) (de_order_ids env) (de_type env) world m snapshot))"

definition receive_packet ::
  "('w, 'e, 'f) demo_env \<Rightarrow> position_yaw bevy_schema \<Rightarrow> codec_limits \<Rightarrow> demo_args \<Rightarrow> i64 \<Rightarrow> i64 \<times> i64 \<Rightarrow> u32 \<Rightarrow>
    u8 list \<Rightarrow> ('w, 'e) demo_client \<Rightarrow> ('w, 'e, 'f) demo_state \<Rightarrow>
    (demo_failure + ('w, 'e) demo_client \<times> ('w, 'e, 'f) demo_state) option" where
  "receive_packet env bs l args radius client_pos tick delivered c st =
    (case da_mode args of
       SdecMode \<Rightarrow> map_option Inr (apply_sdec env bs l args radius client_pos delivered c st)
     | NaiveMode \<Rightarrow> apply_plain env (\<lambda>b. ok_or NaiveDeserialize (de_from_bincode env b)) args radius client_pos tick delivered c st
     | LightyearMode \<Rightarrow> apply_plain env (\<lambda>b. ok_or BitcodeDecode (de_from_bitcode env b)) args radius client_pos tick delivered c st)"

section \<open>A tick\<close>

text \<open>One client's part of a tick: its view, its packet, the queue, and at most one packet received.\<close>

definition client_tick ::
  "('w, 'e, 'f) demo_env \<Rightarrow> position_yaw bevy_schema \<Rightarrow> codec_limits \<Rightarrow> demo_args \<Rightarrow> i64 \<Rightarrow>
    ('e \<times> position_yaw) list \<Rightarrow> entity_id set \<Rightarrow> u32 \<Rightarrow> i64 \<times> i64 \<Rightarrow> ('w, 'e) demo_client \<Rightarrow>
    ('w, 'e, 'f) demo_state \<Rightarrow> (demo_failure + ('w, 'e) demo_client \<times> ('w, 'e, 'f) demo_state) option" where
  "client_tick env bs l args radius positions all_ids tick client_pos c st =
    (let (visible, m) = (if sint radius \<le> 0 then (all_ids, ds_entities st)
           else visible_entity_ids positions (ds_entities st) client_pos radius);
         c = c\<lparr>dc_visible := visible\<rparr>;
         st = st\<lparr>ds_entities := m\<rparr>
     in try_then (client_payload env bs l (da_mode args) tick c st) (\<lambda>(payload, c, st).
        let st = st\<lparr>ds_bytes := ds_bytes st @ [of_nat (length payload)]\<rparr>;
            (queue, rng) = send_packet (de_delivers env) (de_swaps env) (da_scenario args) payload (dc_queue c) (ds_rng st);
            st = st\<lparr>ds_rng := rng\<rparr>
        in case queue of
             [] \<Rightarrow> Some (Inr (c\<lparr>dc_queue := []\<rparr>, st))
           | delivered # queue \<Rightarrow>
               receive_packet env bs l args radius client_pos tick delivered (c\<lparr>dc_queue := queue\<rparr>) st))"

fun clients_loop ::
  "('w, 'e, 'f) demo_env \<Rightarrow> position_yaw bevy_schema \<Rightarrow> codec_limits \<Rightarrow> demo_args \<Rightarrow> i64 \<Rightarrow>
    ('e \<times> position_yaw) list \<Rightarrow> entity_id set \<Rightarrow> u32 \<Rightarrow> ((i64 \<times> i64) \<times> ('w, 'e) demo_client) list \<Rightarrow>
    ('w, 'e, 'f) demo_state \<Rightarrow>
    (demo_failure + ((i64 \<times> i64) \<times> ('w, 'e) demo_client) list \<times> ('w, 'e, 'f) demo_state) option" where
  "clients_loop env bs l args radius positions all_ids tick [] st = Some (Inr ([], st))"
| "clients_loop env bs l args radius positions all_ids tick ((client_pos, c) # rest) st =
    try_then (client_tick env bs l args radius positions all_ids tick client_pos c st) (\<lambda>(c, st).
    try_then (clients_loop env bs l args radius positions all_ids tick rest st) (\<lambda>(cs, st).
    Some (Inr ((client_pos, c) # cs, st))))"

text \<open>The server's part: the walk, the changes, the snapshot to validate against, and the graph.\<close>

definition server_tick ::
  "('w, 'e, 'f) demo_env \<Rightarrow> position_yaw bevy_schema \<Rightarrow> demo_args \<Rightarrow> u32 \<Rightarrow> ('w, 'e, 'f) demo_state \<Rightarrow>
    ('e \<times> position_yaw) list \<times> entity_id set \<times> ('w, 'e, 'f) demo_state" where
  "server_tick env bs args tick st =
    (let (world, rng) = step_world (de_ops env) (de_type env) (de_skips env) (de_query env (ds_world st)) (ds_world st) (ds_rng st);
         positions = collect_positions (de_ops env) (de_type env) (de_query env) world;
         (named, m) = build_entries positions (ds_entities st);
         all_ids = set (map fst named);
         (changes, m) = extract_changes (de_ops env) (de_order env) bs world m;
         (snapshots, m) = (if \<not> da_validate args then (ds_snapshots st, m)
           else let (entries, m) = build_server_snapshot positions m
                in (push_snapshot (tick, entries) (ds_snapshots st), m));
         dirty_map = fold note_dirty (bc_updates changes) Map.empty;
         (m, graph) = observe_positions (de_of_i64 env) positions dirty_map m (ds_graph st);
         graph = fold graph_remove_entity (bc_destroys changes) graph
     in (positions, all_ids,
         st\<lparr>ds_world := world, ds_entities := m, ds_rng := rng, ds_graph := graph, ds_snapshots := snapshots\<rparr>))"

definition demo_tick ::
  "('w, 'e, 'f) demo_env \<Rightarrow> position_yaw bevy_schema \<Rightarrow> codec_limits \<Rightarrow> demo_args \<Rightarrow> i64 \<Rightarrow> u32 \<Rightarrow>
    ((i64 \<times> i64) \<times> ('w, 'e) demo_client) list \<Rightarrow> ('w, 'e, 'f) demo_state \<Rightarrow>
    (demo_failure + ((i64 \<times> i64) \<times> ('w, 'e) demo_client) list \<times> ('w, 'e, 'f) demo_state) option" where
  "demo_tick env bs l args radius tick cs st =
    (let (positions, all_ids, st) = server_tick env bs args tick st
     in try_then (clients_loop env bs l args radius positions all_ids tick cs st) (\<lambda>(cs, st).
        Some (Inr (cs, st\<lparr>ds_graph := graph_clear_removed (graph_clear_dirty (ds_graph st)),
          ds_world := de_clear_trackers env (ds_world st)\<rparr>))))"

text \<open>\<^verbatim>\<open>for tick in 1..=cli.ticks\<close>, with the ticks that are left.\<close>

fun demo_loop ::
  "('w, 'e, 'f) demo_env \<Rightarrow> position_yaw bevy_schema \<Rightarrow> codec_limits \<Rightarrow> demo_args \<Rightarrow> i64 \<Rightarrow> u32 list \<Rightarrow>
    ((i64 \<times> i64) \<times> ('w, 'e) demo_client) list \<Rightarrow> ('w, 'e, 'f) demo_state \<Rightarrow>
    (demo_failure + ((i64 \<times> i64) \<times> ('w, 'e) demo_client) list \<times> ('w, 'e, 'f) demo_state) option" where
  "demo_loop env bs l args radius [] cs st = Some (Inr (cs, st))"
| "demo_loop env bs l args radius (tick # ticks) cs st =
    try_then (demo_tick env bs l args radius tick cs st) (\<lambda>(cs, st). demo_loop env bs l args radius ticks cs st)"

section \<open>The run\<close>

text \<open>\<^verbatim>\<open>for _ in 0..cli.entities\<close>: an entity is spawned with its position and named.\<close>

fun spawn_entities ::
  "('w, 'e, position_yaw) world_ops \<Rightarrow> type_id \<Rightarrow> nat \<Rightarrow> 'w \<Rightarrow> 'e entity_map \<Rightarrow> rng \<Rightarrow>
    ('w \<times> 'e entity_map \<times> rng) option" where
  "spawn_entities ops t 0 world m state = Some (world, m, state)"
| "spawn_entities ops t (Suc n) world m state =
    (let (x, state) = range_i64 (- 50000) 50000 state;
         (y, state) = range_i64 (- 50000) 50000 state;
         (v, state) = next_u32 state;
         (entity, world) = wo_spawn ops world
     in Option.bind (wo_insert ops t entity \<lparr>py_x = x, py_y = y, py_yaw = ucast (v mod 4096)\<rparr> world) (\<lambda>world.
        let (i, m) = map_entity_id entity m in spawn_entities ops t n world m state))"

definition demo_limits :: "u32 \<Rightarrow> codec_limits" where
  "demo_limits entities =
    (let n = unat entities; l = codec_limits_default
     in l\<lparr>max_section_bytes := 16 * 1024 * 1024,
          max_entities_create := max (max_entities_create l) n,
          max_entities_destroy := max (max_entities_destroy l) n,
          codec_limits.max_entities_update := max (codec_limits.max_entities_update l) (n * 2),
          max_total_entities_after_apply := max (max_total_entities_after_apply l) (n * 2)\<rparr>)"

definition demo_clients ::
  "('w, 'e, 'f) demo_env \<Rightarrow> u32 \<Rightarrow> (i64 \<times> i64) list \<Rightarrow> ((i64 \<times> i64) \<times> ('w, 'e) demo_client) list" where
  "demo_clients env entities client_positions =
    (let full_buf_size = max (saturating_mul (unat entities) 1024) (16 * 1024 * 1024);
         delta_buf_size = max (saturating_mul (unat entities) 512) (4 * 1024 * 1024);
         send_buf_size = max full_buf_size delta_buf_size
     in map (\<lambda>(idx, pos). (pos, demo_client_new (de_new_world env) (ClientId (of_nat idx + 1)) delta_buf_size send_buf_size))
          (List.enumerate 0 client_positions))"

definition client_views ::
  "('w, 'e, 'f) demo_env \<Rightarrow> i64 \<Rightarrow> ((i64 \<times> i64) \<times> ('w, 'e) demo_client) list \<Rightarrow> 'f replication_graph \<Rightarrow>
    'f replication_graph" where
  "client_views env radius cs graph =
    (let view_radius = (if sint radius \<le> 0 then de_f32_max env else de_of_i64 env radius)
     in fold (\<lambda>((x, y), c). graph_upsert_client (dc_id c)
          (client_view_new \<lparr>v_x = de_of_i64 env x, v_y = de_of_i64 env y, v_z = de_of_i64 env 0\<rparr> view_radius)) cs graph)"

text \<open>The session of each client, with the buffer and the counter of the bytes.\<close>

fun init_sessions ::
  "(u8 list \<Rightarrow> u8 list) \<Rightarrow> schema \<Rightarrow> codec_limits \<Rightarrow> nat \<Rightarrow> u8 list \<Rightarrow> u64 \<Rightarrow>
    ((i64 \<times> i64) \<times> ('w, 'e) demo_client) list \<Rightarrow>
    (demo_failure + u64 \<times> ((i64 \<times> i64) \<times> ('w, 'e) demo_client) list) option" where
  "init_sessions blake3 s l idx init_buf sent [] = Some (Inr (sent, []))"
| "init_sessions blake3 s l idx init_buf sent ((pos, c) # rest) =
    try_then (map_option (map_err SessionCodec)
      (encode_session_init_packet blake3 s (SnapshotTick 0) (Some (of_nat (idx + 1))) SessionV1 l
        (take 128 init_buf @ replicate (128 - length init_buf) 0)))
      (\<lambda>(init_len, init_buf).
    try_then (Some (map_err SessionDecode (decode_packet (take init_len init_buf) limits_default))) (\<lambda>init_packet.
    try_then (Some (map_err SessionCodec (decode_session_init_packet blake3 s init_packet l))) (\<lambda>session.
    let (world, m, _) = dc_sync c
    in try_then (init_sessions blake3 s l (Suc idx) init_buf (sent + of_nat init_len) rest) (\<lambda>(sent, cs).
       Some (Inr (sent, (pos, c\<lparr>dc_sync := (world, m, Some session)\<rparr>) # cs))))))"

definition avg_u64 :: "u64 list \<Rightarrow> u64" where
  "avg_u64 vs = (if vs = [] then 0 else sum_list vs div of_nat (length vs))"

text \<open>\<open>rank n\<close> is \<^verbatim>\<open>((n as f64) * 0.95).ceil() as usize\<close>.\<close>

definition p95_u64 :: "(usize \<Rightarrow> usize) \<Rightarrow> u64 list \<Rightarrow> u64" where
  "p95_u64 rank vs =
    (let vs = sort vs; idx = min (rank (length vs) - 1) (length vs - 1)
     in if idx < length vs then vs ! idx else 0)"

record demo_summary =
  dy_clients :: u32
  dy_visibility_radius :: i64
  dy_session_init_bytes :: u64
  dy_bytes_avg :: u64
  dy_bytes_p95 :: u64
  dy_errors :: u64
  dy_resyncs :: u64
  dy_validation_errors :: u64
  dy_totals :: demo_totals

definition demo_main ::
  "('w, 'e, 'f) demo_env \<Rightarrow> demo_args \<Rightarrow> (demo_failure + demo_summary) option" where
  "demo_main env args =
    (let (clients, radius) = scenario_config args
     in Option.bind (Option.bind (bevy_component (position_component (de_type env)) []) bevy_build) (\<lambda>built.
        try_then (Some (map_err SchemaRejected built)) (\<lambda>bs.
        Option.bind (spawn_entities (de_ops env) (de_type env) (unat (da_entities args)) (de_new_world env)
          entity_map_new (rng_new (da_seed args))) (\<lambda>(world, m, rng).
        let l = demo_limits (da_entities args);
            (client_positions, rng) = build_client_positions (de_ring env) clients rng;
            cs = demo_clients env (da_entities args) client_positions;
            st = \<lparr>ds_world = world, ds_entities = m, ds_rng = rng,
                  ds_graph = client_views env radius cs (graph_new replication_config_default),
                  ds_snapshots = [], ds_bytes = [], ds_errors = 0, ds_resyncs = 0, ds_validation_errors = 0,
                  ds_totals = \<lparr>dt_create_entities = 0, dt_create_components = 0, dt_create_fields = 0,
                    dt_update_entities = 0, dt_update_components = 0, dt_update_fields = 0, dt_destroy_entities = 0\<rparr>\<rparr>
        in try_then (if da_mode args = SdecMode
               then init_sessions (de_blake3 env) (bs_schema bs) l 0 (replicate 128 0) 0 cs
               else Some (Inr (0, cs))) (\<lambda>(session_init_bytes, cs).
           try_then (demo_loop env bs l args radius (map of_nat [1..<Suc (unat (da_ticks args))]) cs st) (\<lambda>(cs, st).
           Some (Inr \<lparr>dy_clients = clients, dy_visibility_radius = radius, dy_session_init_bytes = session_init_bytes,
             dy_bytes_avg = avg_u64 (ds_bytes st), dy_bytes_p95 = p95_u64 (de_rank env) (ds_bytes st),
             dy_errors = ds_errors st, dy_resyncs = ds_resyncs st, dy_validation_errors = ds_validation_errors st,
             dy_totals = ds_totals st\<rparr>)))))))"

end
