(* ===== verification/Demo_Queue.thy ===== *)
theory Demo_Queue
  imports Demo_Run
begin

text \<open>
  The lossy queue of the demonstration: every client receives right after the server sent, so a packet
  never waits, no two packets are ever in a queue, and the simulated reordering cannot happen: the run is
  the same whatever the reorder rate is.
\<close>

section \<open>A queue of at most one packet\<close>

lemma try_then_cong: "(\<And>x. m = Some (Inr x) \<Longrightarrow> f x = g x) \<Longrightarrow> try_then m f = try_then m g"
  by (cases "(m, f)" rule: try_then.cases) simp_all

lemma send_packet_alone:
  "send_packet delivers swaps scenario payload [] state = send_packet delivers swaps' scenario payload [] state"
  "fst (send_packet delivers swaps scenario payload [] state) \<in> {[], [payload]}"
  by (auto simp: send_packet_def Let_def split: prod.split)

lemma client_payload_queue:
  "client_payload env bs l mode tick c st = Some (Inr (payload, c', st')) \<Longrightarrow> dc_queue c' = dc_queue c"
  by (auto simp: client_payload_def sdec_payload_def plain_payload_def Let_def res_simps
      split: demo_mode.splits prod.splits if_splits)

lemma resync_refused_queue:
  "resync_refused env bs l args radius pos c st = Some (c', st') \<Longrightarrow> dc_queue c' = dc_queue c"
  by (auto simp: resync_refused_def Let_def split: prod.splits if_splits)

lemma apply_sdec_queue:
  assumes "apply_sdec env bs l args radius pos delivered c st = Some (c', st')"
  shows "dc_queue c' = dc_queue c"
proof -
  from assms obtain result sync where
    "apply_sdec_packet (de_blake3 env) (de_ops env) (de_order_ids env) bs l delivered (dc_sync c) = Some (result, sync)"
    by (auto simp: apply_sdec_def bind_eq_Some_conv)
  with assms show ?thesis
    by (cases result) (auto simp: apply_sdec_def Let_def dest: resync_refused_queue split: applied_packet.splits)
qed

lemma apply_plain_queue:
  "apply_plain env decode args radius pos tick delivered c st = Some (Inr (c', st')) \<Longrightarrow> dc_queue c' = dc_queue c"
  by (cases "dc_sync c") (auto simp: apply_plain_def Let_def res_simps)

lemma receive_packet_queue:
  assumes "receive_packet env bs l args radius pos tick delivered c st = Some (Inr (c', st'))"
  shows "dc_queue c' = dc_queue c"
proof (cases "da_mode args")
  case SdecMode
  with assms have "apply_sdec env bs l args radius pos delivered c st = Some (c', st')"
    by (simp add: receive_packet_def)
  then show ?thesis by (rule apply_sdec_queue)
qed (use assms in \<open>auto simp: receive_packet_def dest!: apply_plain_queue\<close>)

lemma client_tick_queue:
  assumes "dc_queue c = []" and "client_tick env bs l args radius positions ids tick pos c st = Some (Inr (c', st'))"
  shows "dc_queue c' = []"
proof -
  obtain visible m where view: "(if sint radius \<le> 0 then (ids, ds_entities st)
      else visible_entity_ids positions (ds_entities st) pos radius) = (visible, m)" by fastforce
  from assms(2) obtain payload c1 st1 where
    sent: "client_payload env bs l (da_mode args) tick (c\<lparr>dc_visible := visible\<rparr>) (st\<lparr>ds_entities := m\<rparr>) =
      Some (Inr (payload, c1, st1))"
    by (auto simp: client_tick_def view res_simps)
  have "dc_queue c1 = []" using client_payload_queue [OF sent] assms(1) by simp
  obtain queue rng where queue: "send_packet (de_delivers env) (de_swaps env) (da_scenario args) payload [] (ds_rng st1) = (queue, rng)"
    by fastforce
  then have "queue = [] \<or> queue = [payload]"
    using send_packet_alone(2) [of "de_delivers env" "de_swaps env" "da_scenario args" payload "ds_rng st1"] by auto
  then show ?thesis
    using assms(2) \<open>dc_queue c1 = []\<close> queue
    by (auto simp: client_tick_def view sent dest!: receive_packet_queue)
qed

definition queues_empty :: "((i64 \<times> i64) \<times> ('w, 'e) demo_client) list \<Rightarrow> bool" where
  "queues_empty cs \<longleftrightarrow> (\<forall>(pos, c) \<in> set cs. dc_queue c = [])"

lemma clients_loop_queues:
  "queues_empty cs \<Longrightarrow> clients_loop env bs l args radius positions ids tick cs st = Some (Inr (cs', st')) \<Longrightarrow>
    queues_empty cs'"
proof (induction cs arbitrary: st cs')
  case (Cons p cs)
  obtain pos c where p: "p = (pos, c)" by fastforce
  with Cons show ?case by (fastforce simp: queues_empty_def res_simps dest: client_tick_queue)
qed simp

lemma demo_tick_queues:
  "queues_empty cs \<Longrightarrow> demo_tick env bs l args radius tick cs st = Some (Inr (cs', st')) \<Longrightarrow> queues_empty cs'"
  by (auto simp: demo_tick_def res_simps dest: clients_loop_queues split: prod.splits)

lemma demo_clients_queues: "queues_empty (demo_clients env entities positions)"
  by (auto simp: queues_empty_def demo_clients_def demo_client_new_def Let_def)

lemma init_sessions_queues:
  "queues_empty cs \<Longrightarrow> init_sessions blake3 s l idx buf sent cs = Some (Inr (sent', cs')) \<Longrightarrow> queues_empty cs'"
proof (induction cs arbitrary: idx buf sent sent' cs')
  case (Cons p cs)
  obtain pos c where p: "p = (pos, c)" by fastforce
  obtain w m s0 where c: "dc_sync c = (w, m, s0)" by (cases "dc_sync c")
  from Cons.prems(1) have empty: "dc_queue c = []" "queues_empty cs" by (auto simp: queues_empty_def p)
  from Cons.prems(2) obtain n buf1 session sent1 cs1 where
    "init_sessions blake3 s l (Suc idx) buf1 (sent + of_nat n) cs = Some (Inr (sent1, cs1))"
    "cs' = (pos, c\<lparr>dc_sync := (w, m, Some session)\<rparr>) # cs1"
    by (auto simp: p c res_simps Let_def split: prod.splits)
  with Cons.IH [OF empty(2)] empty(1) show ?case by (auto simp: queues_empty_def)
qed simp

section \<open>The reorder rate does not matter\<close>

lemma swaps_sel:
  fixes env :: "('w, 'e, 'f) demo_env"
  shows "de_blake3 (env\<lparr>de_swaps := p\<rparr>) = de_blake3 env"
    "de_ops (env\<lparr>de_swaps := p\<rparr>) = de_ops env"
    "de_type (env\<lparr>de_swaps := p\<rparr>) = de_type env"
    "de_new_world (env\<lparr>de_swaps := p\<rparr>) = de_new_world env"
    "de_query (env\<lparr>de_swaps := p\<rparr>) = de_query env"
    "de_clear_trackers (env\<lparr>de_swaps := p\<rparr>) = de_clear_trackers env"
    "de_order_ids (env\<lparr>de_swaps := p\<rparr>) = de_order_ids env"
    "de_order (env\<lparr>de_swaps := p\<rparr>) = de_order env"
    "de_spoil (env\<lparr>de_swaps := p\<rparr>) = de_spoil env"
    "de_f32 (env\<lparr>de_swaps := p\<rparr>) = de_f32 env"
    "de_of_i64 (env\<lparr>de_swaps := p\<rparr>) = de_of_i64 env"
    "de_f32_max (env\<lparr>de_swaps := p\<rparr>) = de_f32_max env"
    "de_ring (env\<lparr>de_swaps := p\<rparr>) = de_ring env"
    "de_skips (env\<lparr>de_swaps := p\<rparr>) = de_skips env"
    "de_delivers (env\<lparr>de_swaps := p\<rparr>) = de_delivers env"
    "de_bincode (env\<lparr>de_swaps := p\<rparr>) = de_bincode env"
    "de_from_bincode (env\<lparr>de_swaps := p\<rparr>) = de_from_bincode env"
    "de_bitcode (env\<lparr>de_swaps := p\<rparr>) = de_bitcode env"
    "de_from_bitcode (env\<lparr>de_swaps := p\<rparr>) = de_from_bitcode env"
    "de_rank (env\<lparr>de_swaps := p\<rparr>) = de_rank env"
  by simp_all

lemma payload_swaps: "client_payload (env\<lparr>de_swaps := p\<rparr>) = client_payload env"
  unfolding client_payload_def [abs_def] sdec_payload_def [abs_def] plain_payload_def [abs_def] swaps_sel ..

lemma receive_swaps: "receive_packet (env\<lparr>de_swaps := p\<rparr>) = receive_packet env"
  unfolding receive_packet_def [abs_def] apply_sdec_def [abs_def] apply_plain_def [abs_def] resync_refused_def [abs_def]
    validate_applied_def [abs_def] client_differs_def [abs_def] swaps_sel ..

lemma server_tick_swaps: "server_tick (env\<lparr>de_swaps := p\<rparr>) = server_tick env"
  unfolding server_tick_def [abs_def] swaps_sel ..

lemma start_swaps:
  "demo_clients (env\<lparr>de_swaps := p\<rparr>) = demo_clients env" "client_views (env\<lparr>de_swaps := p\<rparr>) = client_views env"
  unfolding demo_clients_def [abs_def] client_views_def [abs_def] swaps_sel by (rule refl)+

lemma client_tick_swaps:
  assumes "dc_queue c = []"
  shows "client_tick (env\<lparr>de_swaps := p\<rparr>) bs l args radius positions ids tick pos c st =
    client_tick env bs l args radius positions ids tick pos c st"
proof -
  obtain visible m where view: "(if sint radius \<le> 0 then (ids, ds_entities st)
      else visible_entity_ids positions (ds_entities st) pos radius) = (visible, m)" by fastforce
  show ?thesis
    unfolding client_tick_def view Let_def prod.case payload_swaps receive_swaps swaps_sel
    by (rule try_then_cong, clarify, drule client_payload_queue)
      (simp add: assms send_packet_alone(1) [of _ p _ _ _ "de_swaps env"])
qed

lemma clients_loop_swaps:
  "queues_empty cs \<Longrightarrow> clients_loop (env\<lparr>de_swaps := p\<rparr>) bs l args radius positions ids tick cs st =
    clients_loop env bs l args radius positions ids tick cs st"
proof (induction cs arbitrary: st)
  case (Cons x cs)
  obtain pos c where x: "x = (pos, c)" by fastforce
  from Cons.prems have "dc_queue c = []" "queues_empty cs" by (auto simp: queues_empty_def x)
  with Cons.IH show ?case by (simp add: x client_tick_swaps)
qed simp

lemma demo_loop_swaps:
  "queues_empty cs \<Longrightarrow> demo_loop (env\<lparr>de_swaps := p\<rparr>) bs l args radius ticks cs st =
    demo_loop env bs l args radius ticks cs st"
proof (induction ticks arbitrary: cs st)
  case (Cons tick ticks)
  have same: "demo_tick (env\<lparr>de_swaps := p\<rparr>) bs l args radius tick cs st = demo_tick env bs l args radius tick cs st"
    by (simp add: demo_tick_def server_tick_swaps clients_loop_swaps [OF Cons.prems])
  show ?case
    unfolding demo_loop.simps same by (rule try_then_cong) (use Cons.IH demo_tick_queues [OF Cons.prems] in fastforce)
qed simp

text \<open>What the loop starts with.\<close>

lemma demo_start_queues:
  "(if da_mode args = SdecMode then init_sessions blake3 s l 0 buf 0 (demo_clients env n positions)
    else Some (Inr (0, demo_clients env n positions))) = Some (Inr (sent, cs)) \<Longrightarrow> queues_empty cs"
  using init_sessions_queues [OF demo_clients_queues] demo_clients_queues by (auto split: if_splits)

theorem reorder_rate_unused: "demo_main (env\<lparr>de_swaps := p\<rparr>) args = demo_main env args"
  unfolding demo_main_def Let_def start_swaps swaps_sel
  by (intro Option.bind_cong refl try_then_cong prod.case_cong)
    (auto intro!: try_then_cong Option.bind_cong simp: demo_loop_swaps dest!: demo_start_queues split: prod.split)

end
