(* ===== verification/Demo_Compare.thy ===== *)
theory Demo_Compare
  imports Demo_Queue
begin

text \<open>
  A run of the demonstration in a comparison mode, from the first tick to the summary: under the documented
  laws of the engine and of the serialiser it returns, and its validation never finds a difference,
  whatever packets are dropped.
\<close>

section \<open>What is relied on\<close>

text \<open>
  The query visits each living entity with the component once, change detection reports such entities only,
  \<^verbatim>\<open>clear_trackers\<close> changes no entity, and a new world is empty.
\<close>

definition demo_laws :: "('w, 'e, 'f) demo_env \<Rightarrow> ('e \<Rightarrow> 'w \<Rightarrow> bool) \<Rightarrow> bool" where
  "demo_laws env alive \<longleftrightarrow>
    world_laws (de_ops env) alive \<and> iteration_order (de_order_ids env) \<and> iteration_order (de_order env) \<and>
    (\<forall>w. distinct (de_query env w) \<and>
      set (de_query env w) = {e. alive e w \<and> wo_get (de_ops env) (de_type env) e w \<noteq> None}) \<and>
    (\<forall>w. set (wo_added (de_ops env) (de_type env) w) \<subseteq> set (de_query env w) \<and>
      set (wo_changed (de_ops env) (de_type env) w) \<subseteq> set (de_query env w)) \<and>
    (\<forall>w e. (alive e (de_clear_trackers env w) \<longleftrightarrow> alive e w) \<and>
      (\<forall>t. wo_get (de_ops env) t e (de_clear_trackers env w) = wo_get (de_ops env) t e w)) \<and>
    (\<forall>e. \<not> alive e (de_new_world env))"

definition serialiser_laws :: "('w, 'e, 'f) demo_env \<Rightarrow> bool" where
  "serialiser_laws env \<longleftrightarrow> (\<forall>sn. \<exists>b. de_bincode env sn = Some b \<and> de_from_bincode env b = Some sn) \<and>
    (\<forall>sn. de_from_bitcode env (de_bitcode env sn) = Some sn)"

lemma demo_lawsD:
  assumes "demo_laws env alive"
  shows "world_laws (de_ops env) alive" "iteration_order (de_order_ids env)" "iteration_order (de_order env)"
    "distinct (de_query env w)"
    "set (de_query env w) = {e. alive e w \<and> wo_get (de_ops env) (de_type env) e w \<noteq> None}"
    "set (wo_added (de_ops env) (de_type env) w) \<subseteq> set (de_query env w)"
    "set (wo_changed (de_ops env) (de_type env) w) \<subseteq> set (de_query env w)"
    "alive e (de_clear_trackers env w) \<longleftrightarrow> alive e w"
    "wo_get (de_ops env) t e (de_clear_trackers env w) = wo_get (de_ops env) t e w"
    "\<not> alive e (de_new_world env)"
  using assms unfolding demo_laws_def by blast+

section \<open>Operations on a map that knows every entity\<close>

lemma build_entries_known:
  "\<forall>e \<in> fst ` set ps. em_to_id m e \<noteq> None \<Longrightarrow>
    build_entries ps m = (map (\<lambda>(e, pos). (the (em_to_id m e), pos)) ps, m)"
proof (induction ps)
  case (Cons p ps)
  obtain e pos where p: "p = (e, pos)" by fastforce
  from Cons.prems p obtain i where "em_to_id m e = Some i" by auto
  with Cons show ?case by (simp add: p map_entity_id_known_entity)
qed simp

lemma build_server_snapshot_known:
  "\<forall>e \<in> fst ` set ps. em_to_id m e \<noteq> None \<Longrightarrow> snd (build_server_snapshot ps m) = m"
  by (simp add: build_server_snapshot_def build_entries_known)

lemma build_snapshot_for_ids_known:
  "\<forall>e \<in> fst ` set ps. em_to_id m e \<noteq> None \<Longrightarrow> snd (build_snapshot_for_ids ps m ids) = m"
  by (simp add: build_snapshot_for_ids_def build_entries_known)

lemma observe_positions_known:
  "\<forall>e \<in> fst ` set ps. em_to_id m e \<noteq> None \<Longrightarrow> fst (observe_positions of_i64 ps dirty m g) = m"
proof (induction ps arbitrary: dirty g)
  case (Cons p ps)
  obtain e pos where p: "p = (e, pos)" by fastforce
  from Cons.prems p obtain i where "em_to_id m e = Some i" by auto
  with Cons show ?case by (simp add: p map_entity_id_known_entity)
qed simp

lemma extract_creates_known:
  "\<forall>e \<in> set es. em_to_id m e \<noteq> None \<Longrightarrow> snd (extract_creates ops bs world es m) = m"
proof (induction es)
  case (Cons e es)
  then obtain i where "em_to_id m e = Some i" by auto
  with Cons show ?case by (auto simp: map_entity_id_known_entity Let_def split: prod.split)
qed simp

lemma extract_updates_known:
  "\<forall>e \<in> set es. em_to_id m e \<noteq> None \<Longrightarrow> snd (extract_updates ops bs world creating changed es m) = m"
proof (induction es)
  case (Cons e es)
  then obtain i where "em_to_id m e = Some i" by auto
  with Cons show ?case by (auto simp: map_entity_id_known_entity Let_def split: prod.split)
qed simp

lemma extract_changes_known:
  assumes order: "iteration_order order" and known: "\<forall>e \<in> added_set ops bs world \<union> changed_set ops bs world. em_to_id m e \<noteq> None"
  shows "snd (extract_changes ops order bs world m) = m"
proof -
  let ?sc = "fold (collect_adapter ops world m) (bs_adapters bs) extract_scratch_default"
  have "xs_create_entities ?sc = added_set ops bs world" "dom (xs_update_entities ?sc) = changed_set ops bs world"
    by (simp_all add: collect_adapters added_set_def changed_set_def extract_scratch_default_def)
  then have "\<forall>e \<in> set (order (xs_create_entities ?sc)). em_to_id m e \<noteq> None"
    "\<forall>e \<in> set (order (dom (xs_update_entities ?sc))). em_to_id m e \<noteq> None"
    using order known by (auto simp: iteration_order_def finite_extracted)
  then obtain creates updates where
    "extract_creates ops bs world (order (xs_create_entities ?sc)) m = (creates, m)"
    "extract_updates ops bs world (xs_create_entities ?sc) (xs_update_entities ?sc) (order (dom (xs_update_entities ?sc))) m =
      (updates, m)"
    using extract_creates_known extract_updates_known by (metis prod.collapse)
  then show ?thesis
    by (simp add: extract_changes_def extract_changes_with_scratch_def extract_scratch_default_def Let_def)
qed

section \<open>The server\<close>

definition server_ok :: "('w, 'e, 'f) demo_env \<Rightarrow> 'w \<Rightarrow> 'e entity_map \<Rightarrow> bool" where
  "server_ok env w m \<longleftrightarrow> entity_map_ok m \<and> (\<forall>e \<in> set (de_query env w). em_to_id m e \<noteq> None) \<and>
    unat (em_next m) + length (de_query env w) < 2 ^ 32"

lemma server_okD:
  assumes "server_ok env w m"
  shows "entity_map_ok m" "e \<in> set (de_query env w) \<Longrightarrow> em_to_id m e \<noteq> None"
    "unat (em_next m) + length (de_query env w) < 2 ^ 32"
  using assms by (auto simp: server_ok_def)

lemma server_ok_same:
  assumes laws: "demo_laws env alive" and ok: "server_ok env w m"
    and same: "\<And>e. alive e w' \<longleftrightarrow> alive e w" "\<And>e. wo_get (de_ops env) (de_type env) e w' = None \<longleftrightarrow> wo_get (de_ops env) (de_type env) e w = None"
  shows "server_ok env w' m"
proof -
  have query: "set (de_query env w') = set (de_query env w)" by (simp add: demo_lawsD(5) [OF laws] same)
  then have "length (de_query env w') = length (de_query env w)"
    by (metis demo_lawsD(4) [OF laws] distinct_card)
  with ok query show ?thesis by (simp add: server_ok_def)
qed

lemma step_world_same:
  assumes laws: "world_laws ops alive"
  shows "(alive e (fst (step_world ops t skips es w s)) \<longleftrightarrow> alive e w) \<and>
    (wo_get ops t e (fst (step_world ops t skips es w s)) = None \<longleftrightarrow> wo_get ops t e w = None)"
proof (induction es arbitrary: w s)
  case (Cons x es)
  show ?case
  proof (cases "wo_get ops t x w")
    case (Some pos)
    then show ?thesis
      using Cons.IH write_law [OF laws Some] by (simp add: Let_def split: prod.split)
  qed (simp add: Cons.IH)
qed simp

lemma positions_of_query:
  assumes "demo_laws env alive"
  shows "map fst (collect_positions (de_ops env) (de_type env) (de_query env) w) = de_query env w"
proof -
  have "map fst (List.map_filter (\<lambda>e. map_option (Pair e) (wo_get (de_ops env) (de_type env) e w)) es) = es"
    if "set es \<subseteq> set (de_query env w)" for es
    using that by (induction es) (auto simp: List.map_filter_simps demo_lawsD(5) [OF assms])
  then show ?thesis by (simp add: collect_positions_def)
qed

lemma positions_known:
  assumes "demo_laws env alive" and "server_ok env w m"
  shows "\<forall>e \<in> fst ` set (collect_positions (de_ops env) (de_type env) (de_query env) w). em_to_id m e \<noteq> None"
  using server_okD(2) [OF assms(2)] positions_of_query [OF assms(1), of w] by (metis list.set_map)

lemma extracted_known:
  assumes "demo_laws env alive" and "server_ok env w m"
  shows "snd (extract_changes (de_ops env) (de_order env) (position_schema (de_type env)) w m) = m"
proof (rule extract_changes_known [OF demo_lawsD(3) [OF assms(1)]])
  show "\<forall>e \<in> added_set (de_ops env) (position_schema (de_type env)) w \<union>
      changed_set (de_ops env) (position_schema (de_type env)) w. em_to_id m e \<noteq> None"
    using demo_lawsD(6,7) [OF assms(1), of w] server_okD(2) [OF assms(2)]
    by (auto simp: added_set_def changed_set_def added_entities_def changed_entities_def position_schema_def
        position_adapter_def adapter_type_id_def position_component_def)
qed

lemma server_tick_ok:
  assumes laws: "demo_laws env alive" and ok: "server_ok env (ds_world st) (ds_entities st)"
    and tick: "server_tick env (position_schema (de_type env)) args tick st = (positions, ids, st')"
  shows "server_ok env (ds_world st') (ds_entities st')"
    and "positions = collect_positions (de_ops env) (de_type env) (de_query env) (ds_world st')"
    and "ids = fst ` set (fst (build_server_snapshot positions (ds_entities st')))"
    and "ds_snapshots st' = (if da_validate args
      then push_snapshot (tick, fst (build_server_snapshot positions (ds_entities st'))) (ds_snapshots st) else ds_snapshots st)"
    and "ds_errors st' = ds_errors st" "ds_resyncs st' = ds_resyncs st" "ds_validation_errors st' = ds_validation_errors st"
proof -
  let ?ops = "de_ops env" and ?t = "de_type env" and ?m = "ds_entities st"
  obtain w rng where world: "step_world ?ops ?t (de_skips env) (de_query env (ds_world st)) (ds_world st) (ds_rng st) = (w, rng)"
    by fastforce
  have w: "server_ok env w ?m"
    using step_world_same [OF demo_lawsD(1) [OF laws]] world by (intro server_ok_same [OF laws ok]) (metis fst_conv)+
  let ?positions = "collect_positions ?ops ?t (de_query env) w"
  note known = positions_known [OF laws w]
  obtain changes where changes: "extract_changes ?ops (de_order env) (position_schema ?t) w ?m = (changes, ?m)"
    using extracted_known [OF laws w] by (metis prod.collapse)
  obtain entries where entries: "build_server_snapshot ?positions ?m = (entries, ?m)"
    using build_server_snapshot_known [OF known] by (metis prod.collapse)
  obtain graph where graph: "observe_positions (de_of_i64 env) ?positions (fold note_dirty (bc_updates changes) Map.empty) ?m
      (ds_graph st) = (?m, graph)"
    using observe_positions_known [OF known] by (metis prod.collapse)
  obtain named where named: "build_entries ?positions ?m = (named, ?m)"
    using build_entries_known [OF known] by simp
  then have "fst ` set entries = fst ` set named"
    using entries by (auto simp: build_server_snapshot_def)
  moreover have "positions = ?positions \<and> ids = fst ` set named \<and>
      st' = (let st1 = st\<lparr>ds_world := w, ds_entities := ?m, ds_rng := rng,
          ds_graph := fold graph_remove_entity (bc_destroys changes) graph\<rparr>
        in if da_validate args then st1\<lparr>ds_snapshots := push_snapshot (tick, entries) (ds_snapshots st)\<rparr> else st1)"
    using tick by (cases "da_validate args")
      (simp_all add: server_tick_def world named changes entries graph Let_def)
  ultimately show "server_ok env (ds_world st') (ds_entities st')"
    "positions = collect_positions ?ops ?t (de_query env) (ds_world st')"
    "ids = fst ` set (fst (build_server_snapshot positions (ds_entities st')))"
    "ds_snapshots st' = (if da_validate args
      then push_snapshot (tick, fst (build_server_snapshot positions (ds_entities st'))) (ds_snapshots st) else ds_snapshots st)"
    "ds_errors st' = ds_errors st" "ds_resyncs st' = ds_resyncs st" "ds_validation_errors st' = ds_validation_errors st"
    using w by (simp_all add: entries Let_def)
qed

text \<open>The newest snapshot is found by its tick.\<close>

lemma find_pushed:
  assumes "\<forall>(t, e) \<in> set snapshots. t \<noteq> tick"
  shows "find (\<lambda>(t, e). t = tick) (push_snapshot (tick, entries) snapshots) = Some (tick, entries)"
proof -
  have "\<forall>(t, e) \<in> set (drop n snapshots). t \<noteq> tick" for n using assms by (meson in_set_dropD)
  then have none: "find (\<lambda>(t, e). t = tick) (drop n snapshots) = None" for n by (auto simp: find_None_iff)
  have found: "find P (xs @ [x]) = Some x" if "find P xs = None" "P x" for P and xs :: "server_snapshot list" and x
    using that by (induction xs) (auto split: if_splits)
  show ?thesis unfolding push_snapshot_def Let_def by (simp add: found none)
qed

section \<open>A client\<close>

definition client_shows :: "('w, 'e, 'f) demo_env \<Rightarrow> ('e \<Rightarrow> 'w \<Rightarrow> bool) \<Rightarrow> ('w, 'e) demo_client \<Rightarrow> bool" where
  "client_shows env alive c \<longleftrightarrow> dc_queue c = [] \<and> (\<exists>f. finite (dom f) \<and>
    holds_positions (de_ops env) alive (de_type env) (fst (dc_sync c)) (fst (snd (dc_sync c))) f)"

lemma apply_entries_returns:
  assumes laws: "world_laws ops alive"
  shows "apply_entries ops t es w m \<noteq> None"
proof (induction es arbitrary: w m)
  case (Cons x es)
  obtain raw pos where x: "x = (raw, pos)" by fastforce
  obtain e w1 where spawn: "wo_spawn ops w = (e, w1)" by fastforce
  from insert_law [OF laws, of e w1 t pos] spawn_law(2) [OF laws spawn] obtain w2 where "wo_insert ops t e pos w1 = Some w2"
    by metis
  with spawn Cons.IH show ?case by (simp add: x Let_def split: option.split)
qed simp

lemma image_restricted: "S \<subseteq> fst ` E \<Longrightarrow> fst ` {(i, p) \<in> E. i \<in> S} = S"
  by force

lemma plain_packet_agrees:
  assumes laws: "demo_laws env alive" and ok: "server_ok env w m"
    and view: "holds_positions (de_ops env) alive (de_type env) wc mc f" "finite (dom f)"
    and entries: "build_server_snapshot (collect_positions (de_ops env) (de_type env) (de_query env) w) m = (entries, m)"
    and data: "build_snapshot_for_ids (collect_positions (de_ops env) (de_type env) (de_query env) w) m
      (if sint radius \<le> 0 then fst ` set entries else visible_entity_ids_snapshot entries pos radius) = (data, m)"
  obtains wc' mc' where "apply_snapshot (de_ops env) (de_order_ids env) (de_type env) wc mc data = Some (wc', mc')"
    "\<exists>f'. finite (dom f') \<and> holds_positions (de_ops env) alive (de_type env) wc' mc' f'"
    "let ids = expected_ids scenario radius pos mc' entries in
      state_digest (de_ops env) (de_type env) wc' mc' ids = state_digest_snapshot entries ids"
proof -
  let ?ids = "if sint radius \<le> 0 then fst ` set entries else visible_entity_ids_snapshot entries pos radius"
  let ?data = "map (\<lambda>(raw, pos). (EntityId raw, pos)) data"
  note positions = positions_of_query [OF laws, of w]
  have ms: "entity_map_ok m" "distinct (map fst (collect_positions (de_ops env) (de_type env) (de_query env) w))"
    "unat (em_next m) + length (collect_positions (de_ops env) (de_type env) (de_query env) w) < 2 ^ 32"
    using server_okD [OF ok] positions demo_lawsD(4) [OF laws] by (simp_all, metis length_map)
  note drawn = plain_snapshot_data [OF entries data ms]
  have "apply_snapshot (de_ops env) (de_order_ids env) (de_type env) wc mc data \<noteq> None"
    by (simp add: apply_snapshot_def apply_entries_returns [OF demo_lawsD(1) [OF laws]])
  then obtain wc' mc' where ran: "apply_snapshot (de_ops env) (de_order_ids env) (de_type env) wc mc data = Some (wc', mc')"
    by auto
  note held = plain_snapshot_applied [OF demo_lawsD(1,2) [OF laws] view drawn(1) ran]
  have seen: "?ids \<subseteq> fst ` set entries" by (auto simp: visible_entity_ids_snapshot_def)
  have "map_ids mc' = fst ` {(i, pos) \<in> set entries. i \<in> ?ids}"
    unfolding map_ids_def holds_positionsD(2) [OF held] dom_map_of_conv_image_fst drawn(2) ..
  with image_restricted [OF seen] have "map_ids mc' = ?ids" by simp
  then have "expected_ids scenario radius pos mc' entries = ?ids" by (auto simp: expected_ids_def)
  moreover have "finite ?ids" using seen by (rule finite_subset) simp
  from plain_snapshot_digest [OF demo_lawsD(1,2) [OF laws] view this entries data ms ran]
  have "state_digest (de_ops env) (de_type env) wc' mc' ?ids = state_digest_snapshot entries ?ids" .
  ultimately have digests: "let ids = expected_ids scenario radius pos mc' entries in
      state_digest (de_ops env) (de_type env) wc' mc' ids = state_digest_snapshot entries ids"
    unfolding Let_def by simp
  from held finite_dom_map_of [of ?data]
  have "\<exists>f'. finite (dom f') \<and> holds_positions (de_ops env) alive (de_type env) wc' mc' f'" by blast
  from that [OF ran this digests] show thesis .
qed

section \<open>A tick\<close>

text \<open>What the clients' part of a tick leaves of the server, in a comparison mode.\<close>

definition undisturbed :: "('w, 'e, 'f) demo_state \<Rightarrow> ('w, 'e, 'f) demo_state \<Rightarrow> bool" where
  "undisturbed st st' \<longleftrightarrow> ds_world st' = ds_world st \<and> ds_entities st' = ds_entities st \<and> ds_snapshots st' = ds_snapshots st \<and>
    ds_errors st' = ds_errors st \<and> ds_resyncs st' = ds_resyncs st \<and> ds_validation_errors st' = ds_validation_errors st"

text \<open>The packet of a comparison mode is read back as the snapshot that was sent.\<close>

lemma plain_packet:
  assumes codec: "serialiser_laws env" and mode: "da_mode args \<noteq> SdecMode"
    and data: "build_snapshot_for_ids (collect_positions (de_ops env) (de_type env) (de_query env) (ds_world st)) (ds_entities st)
      (dc_visible c) = (data, ds_entities st)"
  obtains payload decode where "client_payload env bs l (da_mode args) tick c st = Some (Inr (payload, c, st))"
    "decode payload = Inr data"
    "\<And>c st. receive_packet env bs l args radius pos tick payload c st = apply_plain env decode args radius pos tick payload c st"
proof (cases "da_mode args")
  case NaiveMode
  from codec obtain b where b: "de_bincode env data = Some b" "de_from_bincode env b = Some data"
    by (auto simp: serialiser_laws_def)
  show thesis
    by (rule that [of b "\<lambda>b. ok_or NaiveDeserialize (de_from_bincode env b)"])
      (simp_all add: client_payload_def plain_payload_def receive_packet_def NaiveMode data b)
next
  case LightyearMode
  with codec show thesis
    by (intro that [of "de_bitcode env data" "\<lambda>b. ok_or BitcodeDecode (de_from_bitcode env b)"])
      (simp_all add: client_payload_def plain_payload_def receive_packet_def data serialiser_laws_def)
qed (use mode in simp)

lemma client_tick_agrees:
  fixes st :: "('w, 'e, 'f) demo_state"
  assumes laws: "demo_laws env alive" and codec: "serialiser_laws env" and mode: "da_mode args \<noteq> SdecMode"
    and ok: "server_ok env (ds_world st) (ds_entities st)" and c: "client_shows env alive c"
    and positions: "positions = collect_positions (de_ops env) (de_type env) (de_query env) (ds_world st)"
    and entries: "build_server_snapshot positions (ds_entities st) = (entries, ds_entities st)"
    and found: "da_validate args \<Longrightarrow> find (\<lambda>(t, e). t = tick) (ds_snapshots st) = Some (tick, entries)"
  obtains c' st' where
    "client_tick env bs l args radius positions (fst ` set entries) tick pos c st = Some (Inr (c', st'))"
    "client_shows env alive c'" "undisturbed st st'"
proof -
  obtain visible where visible:
    "visible = (if sint radius \<le> 0 then fst ` set entries else visible_entity_ids_snapshot entries pos radius)" by simp
  let ?c = "c\<lparr>dc_visible := visible\<rparr>"
  have view: "(if sint radius \<le> 0 then (fst ` set entries, ds_entities st)
      else visible_entity_ids positions (ds_entities st) pos radius) = (visible, ds_entities st)"
    by (simp add: visible_ids_agree [OF entries] visible)
  obtain data where data: "build_snapshot_for_ids positions (ds_entities st) visible = (data, ds_entities st)"
    using build_snapshot_for_ids_known [OF positions_known [OF laws ok]] unfolding positions by (metis prod.collapse)
  from plain_packet [OF codec mode, of st ?c data bs l tick radius pos] data [unfolded positions]
  obtain payload decode where sent: "client_payload env bs l (da_mode args) tick ?c st = Some (Inr (payload, ?c, st))"
    and decode: "decode payload = Inr data"
    and receive: "\<And>c st. receive_packet env bs l args radius pos tick payload c st =
      apply_plain env decode args radius pos tick payload c st" by auto
  obtain wc mc session where sync: "dc_sync c = (wc, mc, session)" by (cases "dc_sync c")
  from c obtain f where shown: "dc_queue c = []" "finite (dom f)" "holds_positions (de_ops env) alive (de_type env) wc mc f"
    by (auto simp: client_shows_def sync)
  let ?st = "st\<lparr>ds_bytes := ds_bytes st @ [of_nat (length payload)]\<rparr>"
  obtain queue rng where queue: "send_packet (de_delivers env) (de_swaps env) (da_scenario args) payload [] (ds_rng st) = (queue, rng)"
    by fastforce
  have step: "client_tick env bs l args radius positions (fst ` set entries) tick pos c st =
      (case queue of [] \<Rightarrow> Some (Inr (?c\<lparr>dc_queue := []\<rparr>, ?st\<lparr>ds_rng := rng\<rparr>))
       | delivered # queue \<Rightarrow> receive_packet env bs l args radius pos tick delivered (?c\<lparr>dc_queue := queue\<rparr>) (?st\<lparr>ds_rng := rng\<rparr>))"
    using sent queue shown(1) unfolding client_tick_def view by (simp add: Let_def)
  have "queue = [] \<or> queue = [payload]"
    using send_packet_alone(2) [of "de_delivers env" "de_swaps env" "da_scenario args" payload "ds_rng st"] queue by auto
  then show thesis
  proof
    assume "queue = []"
    with step c show thesis by (intro that [of "?c\<lparr>dc_queue := []\<rparr>" "?st\<lparr>ds_rng := rng\<rparr>"])
      (auto simp: client_shows_def undisturbed_def)
  next
    assume q: "queue = [payload]"
    from plain_packet_agrees [OF laws ok shown(3,2) entries [unfolded positions] data [unfolded positions visible], of "da_scenario args"]
    obtain wc' mc' where applied: "apply_snapshot (de_ops env) (de_order_ids env) (de_type env) wc mc data = Some (wc', mc')"
      and held: "\<exists>f'. finite (dom f') \<and> holds_positions (de_ops env) alive (de_type env) wc' mc' f'"
      and same: "let ids = expected_ids (da_scenario args) radius pos mc' entries in
        state_digest (de_ops env) (de_type env) wc' mc' ids = state_digest_snapshot entries ids" by metis
    let ?c' = "?c\<lparr>dc_queue := [], dc_sync := (wc', mc', session), dc_last_applied_tick := SnapshotTick tick,
      dc_last_applied_full := True\<rparr>"
    have "\<not> client_differs env (da_scenario args) radius pos tick (ds_snapshots st) (wc', mc', session)" if "da_validate args"
      using same by (simp add: client_differs_def found [OF that] Let_def)
    then have "validate_applied env args radius pos ?c' (?st\<lparr>ds_rng := rng\<rparr>) = ?st\<lparr>ds_rng := rng\<rparr>"
      by (auto simp: validate_applied_def Let_def)
    then have "receive_packet env bs l args radius pos tick payload (?c\<lparr>dc_queue := []\<rparr>) (?st\<lparr>ds_rng := rng\<rparr>) =
        Some (Inr (?c', ?st\<lparr>ds_rng := rng\<rparr>))"
      unfolding receive by (simp add: apply_plain_def decode sync applied)
    with step q show thesis
      using held by (intro that [of ?c' "?st\<lparr>ds_rng := rng\<rparr>"]) (auto simp: client_shows_def undisturbed_def)
  qed
qed

lemma undisturbed_trans: "undisturbed st st1 \<Longrightarrow> undisturbed st1 st2 \<Longrightarrow> undisturbed st st2"
  by (simp add: undisturbed_def)

lemma clients_loop_agrees:
  assumes laws: "demo_laws env alive" and codec: "serialiser_laws env" and mode: "da_mode args \<noteq> SdecMode"
  shows "server_ok env (ds_world st) (ds_entities st) \<Longrightarrow> \<forall>(pos, c) \<in> set cs. client_shows env alive c \<Longrightarrow>
    positions = collect_positions (de_ops env) (de_type env) (de_query env) (ds_world st) \<Longrightarrow>
    build_server_snapshot positions (ds_entities st) = (entries, ds_entities st) \<Longrightarrow>
    (da_validate args \<Longrightarrow> find (\<lambda>(t, e). t = tick) (ds_snapshots st) = Some (tick, entries)) \<Longrightarrow>
    \<exists>cs' st'. clients_loop env bs l args radius positions (fst ` set entries) tick cs st = Some (Inr (cs', st')) \<and>
      (\<forall>(pos, c) \<in> set cs'. client_shows env alive c) \<and> undisturbed st st'"
proof (induction cs arbitrary: st)
  case (Cons p cs)
  obtain pos c where p: "p = (pos, c)" by fastforce
  from Cons.prems(2) have c: "client_shows env alive c" "\<forall>(pos, c) \<in> set cs. client_shows env alive c" by (auto simp: p)
  from client_tick_agrees [OF laws codec mode Cons.prems(1) c(1) Cons.prems(3-5), of bs l radius pos] obtain c' st1 where
    one: "client_tick env bs l args radius positions (fst ` set entries) tick pos c st = Some (Inr (c', st1))"
      "client_shows env alive c'" "undisturbed st st1" by metis
  then have "\<exists>cs' st'. clients_loop env bs l args radius positions (fst ` set entries) tick cs st1 = Some (Inr (cs', st')) \<and>
      (\<forall>(pos, c) \<in> set cs'. client_shows env alive c) \<and> undisturbed st1 st'"
    using Cons.prems c(2) by (intro Cons.IH) (simp_all add: undisturbed_def)
  with one show ?case by (force simp: p dest: undisturbed_trans)
qed (simp add: undisturbed_def)

text \<open>The ticks of the snapshots that are kept, and those that are still to come.\<close>

definition snapshots_before :: "server_snapshot list \<Rightarrow> u32 list \<Rightarrow> bool" where
  "snapshots_before snapshots ticks \<longleftrightarrow> (\<forall>(t, e) \<in> set snapshots. \<forall>t' \<in> set ticks. t < t')"

lemma snapshots_pushed:
  assumes "snapshots_before snapshots (tick # ticks)" and "sorted_wrt (<) (tick # ticks)"
  shows "snapshots_before (push_snapshot (tick, entries) snapshots) ticks"
proof -
  have "set (push_snapshot (tick, entries) snapshots) \<subseteq> set (snapshots @ [(tick, entries)])"
    unfolding push_snapshot_def Let_def by (rule set_drop_subset)
  with assms show ?thesis unfolding snapshots_before_def by fastforce
qed

lemma demo_tick_agrees:
  fixes st :: "('w, 'e, 'f) demo_state"
  assumes laws: "demo_laws env alive" and codec: "serialiser_laws env" and mode: "da_mode args \<noteq> SdecMode"
    and ok: "server_ok env (ds_world st) (ds_entities st)" and cs: "\<forall>(pos, c) \<in> set cs. client_shows env alive c"
    and before: "snapshots_before (ds_snapshots st) (tick # ticks)" "sorted_wrt (<) (tick # ticks)"
  obtains cs' st' where "demo_tick env (position_schema (de_type env)) l args radius tick cs st = Some (Inr (cs', st'))"
    "server_ok env (ds_world st') (ds_entities st')" "\<forall>(pos, c) \<in> set cs'. client_shows env alive c"
    "snapshots_before (ds_snapshots st') ticks"
    "ds_errors st' = ds_errors st" "ds_resyncs st' = ds_resyncs st" "ds_validation_errors st' = ds_validation_errors st"
proof -
  obtain positions ids st1 where tick: "server_tick env (position_schema (de_type env)) args tick st = (positions, ids, st1)"
    by (metis prod_cases3)
  note server = server_tick_ok [OF laws ok tick]
  obtain entries where entries: "build_server_snapshot positions (ds_entities st1) = (entries, ds_entities st1)"
    using build_server_snapshot_known [OF positions_known [OF laws server(1)]] unfolding server(2) by (metis prod.collapse)
  with server(3) have ids: "ids = fst ` set entries" by simp
  from before(1) have "\<forall>(t, e) \<in> set (ds_snapshots st). t \<noteq> tick" by (auto simp: snapshots_before_def)
  then have "find (\<lambda>(t, e). t = tick) (ds_snapshots st1) = Some (tick, entries)" if "da_validate args"
    using that by (simp add: server(4) entries find_pushed)
  from clients_loop_agrees [OF laws codec mode server(1) cs server(2) entries this, of "position_schema (de_type env)" l radius]
  obtain cs' st2 where ran:
    "clients_loop env (position_schema (de_type env)) l args radius positions ids tick cs st1 = Some (Inr (cs', st2))"
    "\<forall>(pos, c) \<in> set cs'. client_shows env alive c" "undisturbed st1 st2" by (auto simp: ids)
  have "snapshots_before (ds_snapshots st1) ticks"
    using snapshots_pushed [OF before] before(1) by (auto simp: server(4) snapshots_before_def)
  moreover from ran(3) server(1) have "server_ok env (ds_world st2) (ds_entities st2)" by (simp add: undisturbed_def)
  from server_ok_same [OF laws this demo_lawsD(8) [OF laws]] demo_lawsD(9) [OF laws]
  have "server_ok env (de_clear_trackers env (ds_world st2)) (ds_entities st2)" by metis
  moreover have run: "demo_tick env (position_schema (de_type env)) l args radius tick cs st = Some (Inr (cs',
      st2\<lparr>ds_graph := graph_clear_removed (graph_clear_dirty (ds_graph st2)), ds_world := de_clear_trackers env (ds_world st2)\<rparr>))"
    by (simp add: demo_tick_def tick ran(1))
  ultimately show thesis using ran(2,3) server(5-7)
    by (intro that [OF run _ ran(2)]) (simp_all add: undisturbed_def)
qed

lemma demo_loop_agrees:
  fixes st :: "('w, 'e, 'f) demo_state"
  assumes laws: "demo_laws env alive" and codec: "serialiser_laws env" and mode: "da_mode args \<noteq> SdecMode"
  shows "server_ok env (ds_world st) (ds_entities st) \<Longrightarrow> \<forall>(pos, c) \<in> set cs. client_shows env alive c \<Longrightarrow>
    snapshots_before (ds_snapshots st) ticks \<Longrightarrow> sorted_wrt (<) ticks \<Longrightarrow>
    \<exists>cs' st'. demo_loop env (position_schema (de_type env)) l args radius ticks cs st = Some (Inr (cs', st')) \<and>
      ds_errors st' = ds_errors st \<and> ds_resyncs st' = ds_resyncs st \<and> ds_validation_errors st' = ds_validation_errors st"
proof (induction ticks arbitrary: cs st)
  case (Cons tick ticks)
  from demo_tick_agrees [OF laws codec mode Cons.prems, of l radius] obtain cs1 st1 where
    one: "demo_tick env (position_schema (de_type env)) l args radius tick cs st = Some (Inr (cs1, st1))"
    and next': "server_ok env (ds_world st1) (ds_entities st1)" "\<forall>(pos, c) \<in> set cs1. client_shows env alive c"
      "snapshots_before (ds_snapshots st1) ticks"
    and same: "ds_errors st1 = ds_errors st" "ds_resyncs st1 = ds_resyncs st" "ds_validation_errors st1 = ds_validation_errors st"
    by metis
  from Cons.prems(4) have "sorted_wrt (<) ticks" by simp
  from Cons.IH [OF next' this] one same show ?case by auto
qed simp

lemma ticks_sorted:
  assumes "n < 2 ^ 32"
  shows "sorted_wrt (<) (map of_nat [1..<Suc n] :: u32 list)"
proof -
  have "(of_nat x :: u32) < of_nat y" if "x < y" "y \<le> n" for x y
    using that assms by (simp add: word_less_nat_alt unsigned_of_nat take_bit_nat_eq_self)
  then have "sorted_wrt (\<lambda>x y. (of_nat x :: u32) < of_nat y) [1..<Suc n]"
    by (intro sorted_wrt_mono_rel [OF _ sorted_wrt_upt]) (auto simp: less_Suc_eq_le)
  then show ?thesis by (simp only: sorted_wrt_map)
qed

section \<open>The run\<close>

text \<open>The entities that are spawned at the start are all named.\<close>

definition all_named :: "('e \<Rightarrow> 'w \<Rightarrow> bool) \<Rightarrow> 'w \<Rightarrow> 'e entity_map \<Rightarrow> bool" where
  "all_named alive w m \<longleftrightarrow> entity_map_ok m \<and> (\<forall>e. alive e w \<longleftrightarrow> em_to_id m e \<noteq> None)"

lemma spawned_ok:
  assumes laws: "demo_laws env alive"
  shows "all_named alive w m \<Longrightarrow> unat (em_next m) \<le> k \<Longrightarrow> length (de_query env w) \<le> k \<Longrightarrow> k + n < 2 ^ 32 - 1 \<Longrightarrow>
    \<exists>w' m' s'. spawn_entities (de_ops env) (de_type env) n w m s = Some (w', m', s') \<and> all_named alive w' m' \<and>
      unat (em_next m') \<le> k + n \<and> length (de_query env w') \<le> k + n"
proof (induction n arbitrary: w m s k)
  case (Suc n)
  let ?ops = "de_ops env" and ?t = "de_type env"
  obtain x s1 where x: "range_i64 (- 50000) 50000 s = (x, s1)" by fastforce
  obtain y s2 where y: "range_i64 (- 50000) 50000 s1 = (y, s2)" by fastforce
  obtain v s3 where v: "next_u32 s2 = (v, s3)" by fastforce
  obtain e w1 where spawn: "wo_spawn ?ops w = (e, w1)" by fastforce
  note spawned = spawn_law [OF demo_lawsD(1) [OF laws] spawn]
  let ?c = "\<lparr>py_x = x, py_y = y, py_yaw = ucast (v mod 4096)\<rparr>"
  have "alive e w1" by (simp add: spawned)
  from insert_law [OF demo_lawsD(1) [OF laws] this, of ?t ?c] obtain w2 where
    insert: "wo_insert ?ops ?t e ?c w1 = Some w2" "\<And>e'. alive e' w2 \<longleftrightarrow> alive e' w1"
      "\<And>t' e'. wo_get ?ops t' e' w2 = (if t' = ?t \<and> e' = e then Some ?c else wo_get ?ops t' e' w1)" by metis
  obtain i m1 where named: "map_entity_id e m = (i, m1)" by fastforce
  have ok: "entity_map_ok m" and names: "\<And>e. alive e w \<longleftrightarrow> em_to_id m e \<noteq> None" using Suc.prems(1) by (simp_all add: all_named_def)
  have free: "em_next m \<noteq> - 1"
    using Suc.prems(2,4) by (auto simp: unsigned_minus_1_eq_mask mask_eq_exp_minus_1)
  note map_ok = map_entity_id_ok [OF ok free named]
  have "em_to_id m e = None" using names spawned(1) by auto
  then have m1: "em_to_id m1 = (em_to_id m)(e \<mapsto> i)" using named by (auto simp: map_entity_id_def Let_def)
  have "set (de_query env w2) \<subseteq> Set.insert e (set (de_query env w))"
    by (auto simp: demo_lawsD(5) [OF laws] insert(2,3) spawned split: if_splits)
  then have "card (set (de_query env w2)) \<le> card (Set.insert e (set (de_query env w)))" by (intro card_mono) simp_all
  also have "\<dots> \<le> Suc (card (set (de_query env w)))" by (simp add: card_insert_if)
  finally have "card (set (de_query env w2)) \<le> Suc (card (set (de_query env w)))" .
  then have "length (de_query env w2) \<le> Suc (length (de_query env w))"
    by (simp add: distinct_card demo_lawsD(4) [OF laws])
  moreover have "unat (em_next m1) \<le> unat (em_next m) + 1"
    using map_ok(4) unat_word_ariths(1) [of "em_next m" 1] by (simp add: word_le_nat_alt)
  moreover have "all_named alive w2 m1" using map_ok(1) names by (auto simp: all_named_def insert(2) spawned m1)
  ultimately have "\<exists>w' m' s'. spawn_entities ?ops ?t n w2 m1 s3 = Some (w', m', s') \<and> all_named alive w' m' \<and>
      unat (em_next m') \<le> Suc k + n \<and> length (de_query env w') \<le> Suc k + n"
    using Suc.prems(2-4) by (intro Suc.IH) simp_all
  then show ?case by (simp add: x y v spawn insert(1) named Let_def)
qed simp

theorem comparison_run:
  assumes laws: "demo_laws env alive" and codec: "serialiser_laws env" and mode: "da_mode args \<noteq> SdecMode"
    and ids: "2 * unat (da_entities args) < 2 ^ 32 - 1"
  shows "\<exists>summary. demo_main env args = Some (Inr summary) \<and> dy_errors summary = 0 \<and> dy_resyncs summary = 0 \<and>
    dy_validation_errors summary = 0"
proof -
  obtain clients radius where config: "scenario_config args = (clients, radius)" by fastforce
  let ?n = "unat (da_entities args)"
  have empty: "de_query env (de_new_world env) = []"
    using demo_lawsD(5,10) [OF laws] by (metis (no_types, lifting) Collect_empty_eq set_empty)
  have "all_named alive (de_new_world env) entity_map_new"
    using demo_lawsD(10) [OF laws] by (simp add: all_named_def entity_map_new_ok, simp add: entity_map_new_def)
  from spawned_ok [OF laws this, of 0 ?n "rng_new (da_seed args)"] ids empty obtain w m s where
    spawned: "spawn_entities (de_ops env) (de_type env) ?n (de_new_world env) entity_map_new (rng_new (da_seed args)) = Some (w, m, s)"
    and named: "all_named alive w m" "unat (em_next m) \<le> ?n" "length (de_query env w) \<le> ?n"
    by (auto simp: entity_map_new_def)
  have ok: "server_ok env w m" using named ids by (auto simp: server_ok_def all_named_def demo_lawsD(5) [OF laws])
  obtain client_positions s' where positions: "build_client_positions (de_ring env) clients s = (client_positions, s')" by fastforce
  have "holds_positions (de_ops env) alive (de_type env) (de_new_world env) entity_map_new Map.empty"
    by (simp add: holds_positions_def entity_map_new_ok, simp add: entity_map_new_def)
  then have cs: "\<forall>(pos, c) \<in> set (demo_clients env (da_entities args) client_positions). client_shows env alive c"
    by (auto simp: demo_clients_def demo_client_new_def client_shows_def Let_def intro!: exI [of _ Map.empty])
  let ?ticks = "map of_nat [1..<Suc (unat (da_ticks args))] :: u32 list"
  have "sorted_wrt (<) ?ticks" using unsigned_less [of "da_ticks args"] by (intro ticks_sorted) simp
  moreover obtain st where st: "st = \<lparr>ds_world = w, ds_entities = m, ds_rng = s',
       ds_graph = client_views env radius (demo_clients env (da_entities args) client_positions) (graph_new replication_config_default),
       ds_snapshots = [], ds_bytes = [], ds_errors = 0, ds_resyncs = 0, ds_validation_errors = 0,
       ds_totals = \<lparr>dt_create_entities = 0, dt_create_components = 0, dt_create_fields = 0, dt_update_entities = 0,
         dt_update_components = 0, dt_update_fields = 0, dt_destroy_entities = 0\<rparr>\<rparr>" by simp
  have "server_ok env (ds_world st) (ds_entities st)" "snapshots_before (ds_snapshots st) ?ticks"
    using ok by (simp_all add: st snapshots_before_def)
  ultimately obtain cs' st' where "demo_loop env (position_schema (de_type env)) (demo_limits (da_entities args)) args radius ?ticks
      (demo_clients env (da_entities args) client_positions) st = Some (Inr (cs', st'))"
    and same: "ds_errors st' = ds_errors st" "ds_resyncs st' = ds_resyncs st" "ds_validation_errors st' = ds_validation_errors st"
    using demo_loop_agrees [OF laws codec mode _ cs, of st ?ticks] by metis
  with mode have "demo_main env args = Some (Inr
      \<lparr>dy_clients = clients, dy_visibility_radius = radius, dy_session_init_bytes = 0,
       dy_bytes_avg = avg_u64 (ds_bytes st'), dy_bytes_p95 = p95_u64 (de_rank env) (ds_bytes st'),
       dy_errors = ds_errors st', dy_resyncs = ds_resyncs st', dy_validation_errors = ds_validation_errors st',
       dy_totals = ds_totals st'\<rparr>)"
    by (simp add: demo_main_def config position_registered position_built spawned positions Let_def flip: st)
  then show ?thesis by (simp add: same, simp add: st)
qed

end
