(* ===== verification/Small_Engine.thy ===== *)
theory Small_Engine
  imports Demo_Sync
begin

text \<open>
  A small engine that satisfies the hypotheses on the real one: entities are numbers, the world is the
  number of the next entity and the components of those that are alive.  The witnesses of the properties
  that speak of an engine run on it, with a component of one boolean field.
\<close>

section \<open>The engine\<close>

type_synonym 'c small_world = "nat \<times> (nat \<rightharpoonup> type_id \<rightharpoonup> 'c)"

definition small_engine :: "('c small_world, nat, 'c) world_ops" where
  "small_engine =
    \<lparr>wo_get = (\<lambda>t e (n, f). Option.bind (f e) (\<lambda>g. g t)),
     wo_write = (\<lambda>t e c (n, f). (n, case f e of None \<Rightarrow> f | Some g \<Rightarrow> f(e \<mapsto> g(t \<mapsto> c)))),
     wo_insert = (\<lambda>t e c (n, f). map_option (\<lambda>g. (n, f(e \<mapsto> g(t \<mapsto> c)))) (f e)),
     wo_spawn = (\<lambda>(n, f). (n, Suc n, f(n \<mapsto> Map.empty))),
     wo_despawn = (\<lambda>e (n, f). (n, f(e := None))),
     wo_added = (\<lambda>t (n, f). filter (\<lambda>e. Option.bind (f e) (\<lambda>g. g t) \<noteq> None) [0..<n]),
     wo_changed = (\<lambda>t (n, f). filter (\<lambda>e. Option.bind (f e) (\<lambda>g. g t) \<noteq> None) [0..<n]),
     wo_removed = (\<lambda>t w. [])\<rparr>"

definition small_alive :: "nat \<Rightarrow> 'c small_world \<Rightarrow> bool" where
  "small_alive e w \<longleftrightarrow> e < fst w \<and> snd w e \<noteq> None"

lemma small_engine_laws: "world_laws small_engine small_alive"
  by (auto simp: world_laws_def small_engine_def small_alive_def bind_eq_Some_conv split: option.splits)

lemma small_order: "iteration_order (sorted_list_of_set :: 'a :: linorder set \<Rightarrow> 'a list)"
  by (simp add: iteration_order_def)

section \<open>A component of one flag\<close>

definition flag_component :: "bool replicated" where
  "flag_component =
    \<lparr>rt_type = 7, rt_component_id = 1, rt_fields = [\<lparr>rf_id = 1, rf_codec = BoolCodec, rf_change = None\<rparr>],
     rt_read_fields = (\<lambda>c. [BoolV c]),
     rt_apply_field = (\<lambda>index v c. case v of
         BoolV b \<Rightarrow> if index = 0 then (Inr (), b) else (Inl (ComponentRejected ''index''), c)
       | _ \<Rightarrow> (Inl (ComponentRejected ''value''), c)),
     rt_from_fields = (\<lambda>fs. case fs of [BoolV b] \<Rightarrow> Inr b | _ \<Rightarrow> Inl (ComponentRejected ''fields''))\<rparr>"

lemma flag_laws: "replicated_component flag_component (\<lambda>_ _. True)"
  by unfold_locales (auto simp: flag_component_def split: list.splits field_value.splits if_splits)

definition flag_adapter :: "bool component_adapter" where
  "flag_adapter = \<lparr>ca_trait = flag_component, ca_component_id = ComponentId 1, ca_fields = rt_fields flag_component\<rparr>"

definition flag_schema :: "bool bevy_schema" where
  "flag_schema = \<lparr>bs_schema = \<lparr>components = [\<lparr>cd_id = ComponentId 1, cd_fields = [field_def_new (FieldId 1) BoolCodec]\<rparr>]\<rparr>,
    bs_adapters = [flag_adapter], bs_index = [ComponentId 1 \<mapsto> 0]\<rparr>"

lemma flag_registered: "bevy_component flag_component [] = Some [flag_adapter]"
  by (simp add: bevy_component_def adapter_new_def component_id_new_def flag_component_def flag_adapter_def)

lemma flag_built: "bevy_build [flag_adapter] = Some (Inr flag_schema)"
  by (simp add: bevy_build_def schema_def_def build_field_defs_def build_field_def_def flag_adapter_def
      flag_component_def field_id_new_def field_def_new_def component_def_field_def component_def_new_def
      schema_new_def schema_validate_def validate_field_def flag_schema_def Let_def)

lemma flag_adapters_ok: "adapters_ok [flag_adapter]"
  by (rule bevy_component_ok [OF adapters_ok_Nil flag_registered])

lemma flag_engine_ok: "engine_ok small_engine small_alive (\<lambda>_ _ _. True) flag_schema"
  using bevy_build_ok [OF flag_adapters_ok flag_built] flag_laws small_engine_laws
  by (simp add: engine_ok_def flag_adapter_def)

section \<open>A world with two entities\<close>

definition flag_entity :: "u32 \<Rightarrow> bool \<Rightarrow> entity_snapshot" where
  "flag_entity i b = \<lparr>es_id = EntityId i, es_components = [\<lparr>cs_id = ComponentId 1, cs_fields = [BoolV b]\<rparr>]\<rparr>"

definition flag_world :: "bool small_world" where
  "flag_world = (2, [0 \<mapsto> [7 \<mapsto> True], 1 \<mapsto> [7 \<mapsto> True]])"

definition flag_map :: "nat entity_map" where
  "flag_map = map_register (EntityId 5) 1 (map_register (EntityId 2) 0 entity_map_new)"

lemmas flag_simps = small_engine_def map_entity_def map_register_def map_unregister_def
  entity_map_new_def adapter_by_component_def flag_schema_def flag_adapter_def adapter_insert_component_def
  adapter_apply_update_def adapter_type_id_def flag_component_def flag_world_def flag_map_def flag_entity_def

lemma flag_canonical: "canonical_entity (bs_schema flag_schema) (flag_entity i b) = flag_entity i b"
  by (simp add: canonical_entity_def flag_entity_def flag_schema_def find_component_def List.map_filter_def)

lemma flag_valid: "snapshot_valid (\<lambda>_ _ _. True) c" "update_valid (\<lambda>_ _ _. True) u"
  by (simp_all add: snapshot_valid_def update_valid_def)

lemma flag_created:
  "create_entities small_engine flag_schema [flag_entity 2 True, flag_entity 5 True] (0, Map.empty) entity_map_new =
    Some (Inr (), flag_world, flag_map)"
  by (simp add: flag_simps Let_def)

lemma flag_shown:
  "shows_snapshot small_engine small_alive flag_schema [flag_entity 2 True, flag_entity 5 True] flag_world flag_map"
proof -
  have "shows_snapshot small_engine small_alive flag_schema (rev [flag_entity 2 True, flag_entity 5 True] @ [])
      flag_world flag_map"
    by (rule shows_creates [OF flag_engine_ok shows_empty _ _ _ _ flag_created])
      (simp_all add: flag_canonical flag_valid, simp add: flag_entity_def)
  then show ?thesis by (auto simp: shows_snapshot_def)
qed

definition flag_updates :: "delta_update_entity list" where
  "flag_updates = [\<lparr>ue_id = EntityId 5, ue_components =
    [\<lparr>uc_id = ComponentId 1, uc_fields = [(0, BoolV False)]\<rparr>]\<rparr>]"

lemma flag_applied: "\<exists>w' m'. bevy_apply_changes small_engine flag_schema [flag_entity 7 True] [EntityId 2] flag_updates
    flag_world flag_map = Some (Inr (), w', m')"
  by (simp add: bevy_apply_changes_def flag_updates_def flag_simps Let_def)

lemma flag_rebuilt: "\<exists>w' m'. apply_full_snapshot small_engine sorted_list_of_set flag_schema
    \<lparr>sn_tick = SnapshotTick 9, sn_entities = [flag_entity 5 False, flag_entity 7 True]\<rparr> flag_world flag_map =
    Some (Inr (), w', m')"
  by (simp add: apply_full_snapshot_def map_ids_def apply_component_fields_def insert_component_fields_def
      flag_simps Let_def split: prod.split)

end
