(* ===== verification/Spec2Isabelle.thy ===== *)
theory Spec2Isabelle
  imports Bit_Vec_Writer Varint_Writers Thresholds Unordered_Updates Delta_Indexed Graph_Readded Bevy_Frame Wire_Packet Wire_Session Schema_Hash Baseline_Store Full_Snapshot Delta_Roundtrip Delta_Scratch Replication Change_Packets Packet_Tools Sim_Capture Bench_Baselines Bench_Visibility Bench_Dirty Bench_Run Bench_Breakdown Sim_Summary Tools_Pretty Demo_Views Demo_Compare Small_Engine
begin

text \<open>
A verification library for sdec, a snapshot and delta codec for replicated game state, written in Rust.
  A server describes its entities as snapshots (entities, components, field values under a schema); the
  codec turns a snapshot, or the difference of two, into a packet of bytes, and the receiver rebuilds the
  snapshot.  Around the codec the repository has a replication graph (which client is told what), an
  adapter to a game engine, inspection tools, a simulator, a benchmark and a demonstration.

  \<^bold>\<open>The theories\<close>, each modelling the files it names in its own text, bottom up:

  \<^item> \<^verbatim>\<open>Sdec_Prelude\<close>: machine words, results (\<^verbatim>\<open>Result\<close> is a sum, \<^verbatim>\<open>?\<close> is \<open>and_then\<close>), slices, little-endian bytes,
    and the collection \<open>res_simps\<close> by which the proofs take sequences of fallible steps apart.
  \<^item> \<^verbatim>\<open>bitstream\<close>: \<open>Bit_Reader\<close>, \<open>Bit_Writer\<close>, \<open>Bit_Vec_Writer\<close>, \<open>Varint\<close>; \<open>Bit_Roundtrip\<close> states the contract between a writer and a
    reader once, as the locale \<open>bit_codec\<close>, and interprets it for every primitive.  \<open>Varint_Writers\<close> computes what every varint
    loop of the repository writes.
  \<^item> \<^verbatim>\<open>wire\<close>: \<open>Wire_Header\<close>, \<open>Wire_Packet\<close> (the accepted packets are exactly those of a grammar), \<open>Wire_Session\<close>.
  \<^item> \<^verbatim>\<open>schema\<close>: \<open>Schema_Model\<close> (validation), \<open>Schema_Hash\<close> (the bytes that are hashed determine the schema).
  \<^item> \<^verbatim>\<open>codec\<close>: the data (\<open>Codec_Types\<close>), the ring of baselines (\<open>Baseline_Store\<close>, refining a bounded history), one field
    (\<open>Field_Codec\<close>), sections (\<open>Section_Writer\<close>), full snapshots (\<open>Full_Snapshot\<close>), sessions (\<open>Codec_Session\<close>), and the delta codec:
    differences (\<open>Delta_Diff\<close>, \<open>Delta_Changes\<close>), the encoder (\<open>Delta_Encode\<close>, with \<open>Delta_Scratch\<close> on its reused buffers and \<open>Delta_Indexed\<close>,
    the same encoder with every index and slice explicit, on their range), the decoder (\<open>Delta_Decode\<close>), application (\<open>Delta_Apply\<close>), and the proofs that they fit (\<open>Delta_Payload\<close>, \<open>Delta_Sections\<close>,
    \<open>Delta_Sparse\<close>, \<open>Delta_Merge\<close>, \<open>Delta_Roundtrip\<close>); the encoder of recorded changes (\<open>Change_Lists\<close>, \<open>Change_Roundtrip\<close>,
    \<open>Change_Packets\<close>); where the encoders go wrong (\<open>Thresholds\<close>, \<open>Unordered_Updates\<close>); compact packets and a server with a client over time (\<open>Session_Stream\<close>, \<open>Replication\<close>).
  \<^item> \<^verbatim>\<open>repgraph\<close>: \<open>Replication_Graph\<close> (operations), \<open>Graph_Delta\<close> (what a delta holds and that it can be applied; the locale
    \<open>world_contract\<close> is what the graph needs of an application's view of its world), \<open>Graph_Steps\<close> (reachable graphs, progress),
    \<open>Graph_Readded\<close> (an entity removed and added again).
  \<^item> \<^verbatim>\<open>sdec-bevy\<close>: \<open>Entity_Map\<close>, \<open>Bevy_Schema\<close>, \<open>Bevy_Apply\<close>, \<open>Bevy_Extract\<close>, \<open>Bevy_Replicator\<close>, \<open>Bevy_Frame\<close> (a frame from
    world to world).  The locale \<open>replicated_component\<close> holds
    the laws of an application's component; the predicate \<open>shows_snapshot\<close> relates a world and an entity map to the
    snapshot they show, and is kept by every operation.
  \<^item> \<^verbatim>\<open>tools\<close>: \<open>Packet_Tools\<close> (inspection), \<open>Tools_Pretty\<close> (the readable listing).  \<^verbatim>\<open>demo-schema\<close> and \<^verbatim>\<open>demo-sim\<close>: \<open>Sim_State\<close>,
    \<open>Sim_Steps\<close>, \<open>Sim_Capture\<close>, \<open>Sim_Summary\<close>.
  \<^item> \<^verbatim>\<open>simbench\<close>: \<open>Bench_World\<close> (the worlds), \<open>Bench_Diff\<close> (dirty updates), \<open>Bench_Baselines\<close> (the naive and Lightyear
    baselines, statistics), \<open>Bench_Dirty\<close> (the packets; the dirty path is lossless), \<open>Bench_Visibility\<close> (with the
    replication graph), \<open>Bench_Run\<close> (\<^verbatim>\<open>main\<close>: when it panics, what it counts), \<open>Bench_Breakdown\<close>.
  \<^item> \<^verbatim>\<open>sdec-bevy-demo\<close>: \<open>Demo_Component\<close>, \<open>Demo_Sync\<close> (packets, resynchronisation), \<open>Demo_Views\<close> (what a client sees, plain
    snapshots), \<open>Demo_Run\<close> (\<^verbatim>\<open>main\<close>), \<open>Demo_Queue\<close> (its queues never hold two packets), \<open>Demo_Compare\<close> (a run of a
    comparison mode validates).  The world views of the benchmark and the demonstration interpret \<open>world_contract\<close>, the
    demonstration's component interprets \<open>replicated_component\<close>.
  \<^item> \<open>Small_Engine\<close> is a small engine that satisfies the hypotheses on the real one, for the witnesses.

  \<^bold>\<open>Conventions.\<close>  A structure is a record with the field names of the code behind a prefix, an enum a datatype.
  Mutable arguments are passed and returned.  A panic of the code (an index out of bounds, \<^verbatim>\<open>expect\<close>, an
  exhausted slice) is \<^const>\<open>None\<close>, an \<^verbatim>\<open>Err\<close> is \<^const>\<open>Inl\<close>, so that \<open>f x = Some (Inr y)\<close> reads: the code returns
  \<^verbatim>\<open>Ok(y)\<close>.  Words have the width of the code and wrap around, as in a release build; where a debug build
  would panic on the overflow, this is said.  A \<^verbatim>\<open>usize\<close> is a natural number: sizes are bounded by memory,
  and the saturating operations saturate at \<open>2 ^ 64 - 1\<close>.  Loops are recursion on the data or on a counter;
  where that is not structural the termination is proved, so every function is total and no fuel is used,
  except for the five rounds that the demonstration's retry loop has in the code.

  \<^bold>\<open>Parameters.\<close>  The digest of the third-party hash crate (\<open>blake3\<close>; no law is assumed of it), the arithmetic and
  comparison of 32-bit floats in the graph (\<open>f32_ops\<close>; no law), the iteration order of hash sets (\<open>order\<close>: some
  order of a finite set's elements), the game engine (\<open>world_ops\<close>; the laws in \<open>world_laws\<close> are the documented
  effects of spawn, despawn, insert and the component accessors on entities without children and components that
  require no others; \<open>changes_detected\<close> is what a frame needs of the engine's change detection), the index of a percentile (computed with
  floats), what a failed encoding attempt leaves in a buffer (\<open>spoil\<close>; no law), and the benchmark's third-party
  serialisers, clock and float expressions (\<open>bench_env\<close>; no law), and those of the demonstration with the order
  of its queries (\<open>demo_env\<close>; the laws in \<open>demo_laws\<close> are that a query visits the entities that have the component,
  those in \<open>serialiser_laws\<close> that what was serialised is read back).

  \<^bold>\<open>What the properties show.\<close>  Both delta encoders and the full snapshot encoder are inverted by the decoders, and
  applying a decoded delta to the baseline gives the target, exactly where no threshold hides a change, as long as the
  schema lists its components by increasing id; the delta encoder does not panic; a server and a client that exchange packets stay in sync, and a later packet repairs
  what thresholds held back; decoded data satisfies the invariants the code relies on.  The engine's world
  follows the snapshot, and a receiver's world the sender's; a replication client is told about exactly the relevant entities after enough ticks,
  whatever its budget, if no entity is pending for removal; a capture run of the simulator never finds a difference in its
  own validation (it can stop at a packet above the wire limits), nor does a run of the demonstration in a comparison mode.  The properties of kind
  \<^emph>\<open>error\<close> and \<^emph>\<open>bounds\<close> show where the code does less than its documentation says.

  \<^bold>\<open>Not modelled.\<close>  The texts of errors and of printed reports (\<^verbatim>\<open>Display\<close>, the averages and breakdowns behind the
  debug switches), serde implementations, files, clocks and command lines (the \<^verbatim>\<open>main\<close> functions of tools and simulator
  beyond the steps named above; of the benchmark's and the demonstration's \<^verbatim>\<open>main\<close> the argument parser and the
  summary file), the metrics callback, reserved capacities of vectors, and the comparison program
  \<^verbatim>\<open>lightyear_full.rs\<close>, whose logic is the configuration of a networking library: none of them takes part in
  what is encoded, decoded or applied.
\<close>

section \<open>A small instance\<close>

text \<open>
  The schema of the codec's own tests (one component with one boolean field), an entity with it, a
  digest and the packet they encode to: the witnesses below evaluate the model on them.
\<close>

definition demo_digest :: "u8 list \<Rightarrow> u8 list" where
  "demo_digest bytes = replicate 32 7"

definition demo_schema :: schema where
  "demo_schema = \<lparr>components =
    [\<lparr>cd_id = ComponentId 1, cd_fields = [field_def_new (FieldId 1) BoolCodec]\<rparr>]\<rparr>"

definition demo_entity :: entity_snapshot where
  "demo_entity = \<lparr>es_id = EntityId 5, es_components =
    [\<lparr>cs_id = ComponentId 1, cs_fields = [BoolV True]\<rparr>]\<rparr>"

definition demo_full_packet :: "u8 list" where
  "demo_full_packet =
    [67, 69, 68, 83, 2, 0, 1, 0, 7, 7, 7, 7, 7, 7, 7, 7, 3, 0, 0, 0, 0, 0, 0, 0, 8, 0, 0, 0,
     1, 6, 1, 5, 0, 0, 0, 224]"

definition demo_entity_off :: entity_snapshot where
  "demo_entity_off = \<lparr>es_id = EntityId 5, es_components =
    [\<lparr>cs_id = ComponentId 1, cs_fields = [BoolV False]\<rparr>]\<rparr>"

definition demo_baseline :: snapshot where
  "demo_baseline = \<lparr>sn_tick = SnapshotTick 3,
    sn_entities = [demo_entity\<lparr>es_id := EntityId 2\<rparr>, demo_entity]\<rparr>"

definition demo_current :: snapshot where
  "demo_current = \<lparr>sn_tick = SnapshotTick 9,
    sn_entities = [demo_entity_off, demo_entity\<lparr>es_id := EntityId 7\<rparr>]\<rparr>"

definition demo_delta_packet :: "u8 list" where
  "demo_delta_packet =
    [67, 69, 68, 83, 2, 0, 2, 0, 7, 7, 7, 7, 7, 7, 7, 7, 9, 0, 0, 0, 3, 0, 0, 0, 23, 0, 0, 0,
     2, 5, 1, 2, 0, 0, 0, 1, 6, 1, 7, 0, 0, 0, 224, 3, 6, 1, 5, 0, 0, 0, 192]"

definition demo_updates :: "delta_update_entity list" where
  "demo_updates = [\<lparr>ue_id = EntityId 5, ue_components =
    [\<lparr>uc_id = ComponentId 1, uc_fields = [(0, BoolV False)]\<rparr>]\<rparr>]"

definition unordered_schema :: schema where
  "unordered_schema = \<lparr>components =
    [\<lparr>cd_id = ComponentId 2, cd_fields = [field_def_new (FieldId 1) BoolCodec]\<rparr>,
     \<lparr>cd_id = ComponentId 1, cd_fields = [field_def_new (FieldId 1) BoolCodec]\<rparr>]\<rparr>"

definition unordered_snapshot :: "u32 \<Rightarrow> bool \<Rightarrow> snapshot" where
  "unordered_snapshot tick v = \<lparr>sn_tick = SnapshotTick tick, sn_entities =
    [\<lparr>es_id = EntityId 5, es_components =
      [\<lparr>cs_id = ComponentId 1, cs_fields = [BoolV v]\<rparr>,
       \<lparr>cs_id = ComponentId 2, cs_fields = [BoolV v]\<rparr>]\<rparr>]\<rparr>"

lemma demo_schema_ok: "schema_ok demo_schema"
  by (simp add: demo_schema_def schema_ok_def component_ok_def field_def_new_def)

lemma demo_schema_ids: "schema_ids_ok demo_schema" "sorted_wrt (<) (map cd_id (components demo_schema))"
  by (simp_all add: demo_schema_def schema_ids_ok_def)

lemma demo_sorted: "ids_sorted (sn_entities demo_baseline)" "ids_sorted (sn_entities demo_current)"
  by (simp_all add: demo_baseline_def demo_current_def demo_entity_def demo_entity_off_def less_entity_id_def)

lemma demo_delta_encoded:
  "encode_delta_snapshot_with_scratch_mode demo_digest demo_schema (SnapshotTick 9) (SnapshotTick 3)
    demo_baseline demo_current codec_limits_default codec_scratch_new (replicate 55 0) AutoMode =
    Some (Inr (51, demo_delta_packet @ [0, 0, 0, 192]))"
  by code_simp

lemma demo_delta_facts:
  "\<forall>b \<in> set (sn_entities demo_baseline). entity_ok b" "counts_fit demo_schema demo_baseline demo_current"
  "delta_room limits_default 51" "tick_raw (SnapshotTick 3) \<noteq> 0"
  "length (sn_entities demo_current) \<le> max_total_entities_after_apply codec_limits_default"
  "\<not> max_total_entities_after_apply codec_limits_default < length (sn_entities demo_current)"
  by (simp_all add: entity_ok_def demo_baseline_def demo_current_def demo_entity_def counts_fit_def
      demo_schema_def delta_room_def limits_default_def codec_limits_default_def)

definition demo_session :: session_state where
  "demo_session = \<lparr>ss_schema_hash = schema_hash demo_digest demo_schema, ss_session_id = Some 42,
    ss_last_tick = SnapshotTick 3, ss_compact_mode = SessionV1\<rparr>"

definition demo_replica :: replica where
  "demo_replica = replica_start demo_baseline demo_session demo_baseline"

definition demo_session_bytes :: "u8 list" where
  "demo_session_bytes = [2, 6, 6, 22, 2, 5, 1, 2, 0, 0, 0, 1, 6, 1, 7, 0, 0, 0, 224, 5, 5, 1, 5, 1, 1, 0,
    7, 0, 0, 0, 224, 5, 5, 1, 5, 1, 1, 0, 5, 1, 1, 0, 0, 0, 0, 0, 0, 0]"

definition demo_init_bytes :: "u8 list" where
  "demo_init_bytes = [67, 69, 68, 83, 2, 0, 4, 0, 7, 7, 7, 7, 7, 7, 7, 7, 3, 0, 0, 0, 0, 0, 0, 0,
    11, 0, 0, 0, 6, 9, 42, 0, 0, 0, 0, 0, 0, 0, 1, 0, 0, 0, 1]"

definition demo_start_bytes :: "u8 list" where
  "demo_start_bytes = [67, 69, 68, 83, 2, 0, 1, 0, 7, 7, 7, 7, 7, 7, 7, 7, 3, 0, 0, 0, 0, 0, 0, 0,
    13, 0, 0, 0, 1, 11, 2, 2, 0, 0, 0, 224, 5, 0, 0, 0, 224, 0, 0, 0, 224]"

lemma demo_session_encoded:
  "encode_delta_snapshot_for_client_session_with_scratch demo_schema (SnapshotTick 9) (SnapshotTick 3) demo_baseline
    demo_current codec_limits_default codec_scratch_new (SnapshotTick 3) (replicate 48 0) =
    Some (Inr (26, demo_session_bytes, SnapshotTick 9))"
  by code_simp

lemma demo_no_thresholds: "no_thresholds demo_schema"
  by (simp add: no_thresholds_def demo_schema_def field_def_new_def)

lemma demo_canonical: "canonical_snapshot demo_schema demo_baseline" "canonical_snapshot demo_schema demo_current"
proof -
  have "list_all (\<lambda>e. canonical_entity demo_schema e = e) (sn_entities demo_baseline)"
    "list_all (\<lambda>e. canonical_entity demo_schema e = e) (sn_entities demo_current)" by code_simp+
  then show "canonical_snapshot demo_schema demo_baseline" "canonical_snapshot demo_schema demo_current"
    using no_thresholds_exact [OF demo_no_thresholds] by (simp_all add: canonical_snapshot_def list_all_iff)
qed

lemma demo_exact: "exact_schema demo_schema"
  using demo_schema_ok demo_schema_ids by (simp add: exact_schema_def)

lemma demo_in_sync: "in_sync demo_digest demo_schema demo_replica"
  using demo_canonical(1)
  by (simp add: in_sync_def demo_replica_def replica_start_def demo_session_def) (simp add: demo_baseline_def)

lemma demo_replica_fields: "rp_sent demo_replica = demo_baseline" "rp_last demo_replica = SnapshotTick 3"
    "sn_tick demo_baseline = SnapshotTick 3" "sn_tick demo_current = SnapshotTick 9"
  by (simp_all add: demo_current_def demo_replica_def replica_start_def demo_baseline_def)

lemma demo_replica_encoded:
  "encode_delta_snapshot_for_client_session_with_scratch demo_schema (sn_tick demo_current)
    (sn_tick (rp_sent demo_replica)) (rp_sent demo_replica) demo_current codec_limits_default codec_scratch_new
    (rp_last demo_replica) (replicate 48 0) = Some (Inr (26, demo_session_bytes, SnapshotTick 9))"
  by (simp only: demo_replica_fields demo_session_encoded)

lemma demo_sendable:
  "sendable demo_schema codec_limits_default limits_default (rp_sent demo_replica) demo_current 26"
  using demo_canonical(2) demo_delta_facts
  by (simp add: sendable_def session_room_def limits_default_def demo_replica_fields)

definition demo_change_packet :: "u8 list" where
  "demo_change_packet =
    [67, 69, 68, 83, 2, 0, 2, 0, 7, 7, 7, 7, 7, 7, 7, 7, 9, 0, 0, 0, 3, 0, 0, 0, 22, 0, 0, 0,
     2, 5, 1, 2, 0, 0, 0, 1, 6, 1, 7, 0, 0, 0, 224, 5, 5, 1, 5, 1, 1, 0, 5, 1, 1, 0, 0]"

definition pair_schema :: schema where
  "pair_schema = \<lparr>components = [\<lparr>cd_id = ComponentId 1,
    cd_fields = [field_def_new (FieldId 1) BoolCodec, field_def_new (FieldId 2) BoolCodec]\<rparr>]\<rparr>"

definition unordered_updates :: "delta_update_entity list" where
  "unordered_updates = [\<lparr>ue_id = EntityId 5, ue_components =
    [\<lparr>uc_id = ComponentId 1, uc_fields = [(1, BoolV True), (0, BoolV False)]\<rparr>]\<rparr>]"

lemma demo_changes_encoded:
  "encode_delta_from_changes demo_digest (session_encoder_new demo_schema codec_limits_default) (SnapshotTick 9)
    (SnapshotTick 3) [demo_entity\<lparr>es_id := EntityId 7\<rparr>] [EntityId 2] demo_updates (replicate 55 0) =
    Some (Inr (50, demo_change_packet))"
  by code_simp


section \<open>An engine, a client and a graph\<close>

lemma flag_demo:
  "bs_schema flag_schema = demo_schema" "demo_entity = flag_entity 5 True" "demo_entity\<lparr>es_id := EntityId 7\<rparr> = flag_entity 7 True"
  "demo_updates = flag_updates"
  by (simp_all add: flag_schema_def demo_schema_def flag_entity_def demo_entity_def demo_updates_def flag_updates_def)

definition flag_receiver :: "(nat, bool) bevy_replicator" where
  "flag_receiver = (replicator_new flag_schema)\<lparr>br_entities := flag_map\<rparr>"

lemma flag_decoded:
  "and_then (map_err Wire (decode_packet (take 50 demo_change_packet) limits_default)) (\<lambda>p.
      decode_delta_packet demo_digest demo_schema p codec_limits_default) =
    Inr \<lparr>dd_tick = SnapshotTick 9, dd_baseline_tick = SnapshotTick 3, dd_destroys = [EntityId 2],
      dd_creates = [flag_entity 7 True], dd_updates = flag_updates\<rparr>"
  by code_simp

lemma flag_frame:
  "\<exists>w' r'. apply_frame demo_digest small_engine (take 50 demo_change_packet) flag_world flag_receiver = Some (Inr (), w', r')"
proof -
  from flag_decoded obtain p where "decode_packet (take 50 demo_change_packet) limits_default = Inr p"
    "decode_delta_packet demo_digest demo_schema p codec_limits_default =
      Inr \<lparr>dd_tick = SnapshotTick 9, dd_baseline_tick = SnapshotTick 3, dd_destroys = [EntityId 2],
        dd_creates = [flag_entity 7 True], dd_updates = flag_updates\<rparr>" by (auto simp: res_simps)
  with flag_applied show ?thesis
    by (auto simp: apply_frame_def apply_decoded_changes_def flag_receiver_def replicator_new_def flag_demo)
qed

definition sender_engine :: "(bool small_world, nat, bool) world_ops" where
  "sender_engine = small_engine\<lparr>wo_added := \<lambda>t w. [2], wo_changed := \<lambda>t w. [1], wo_removed := \<lambda>t w. [0]\<rparr>"

definition sender_world :: "bool small_world" where
  "sender_world = (3, [1 \<mapsto> [7 \<mapsto> False], 2 \<mapsto> [7 \<mapsto> True]])"

definition flag_sender :: "(nat, bool) bevy_replicator" where
  "flag_sender = (replicator_new flag_schema)\<lparr>br_entities := flag_map\<lparr>em_next := 6\<rparr>\<rparr>"

lemma sender_reports:
  "added_set sender_engine flag_schema sender_world = {2}" "changed_set sender_engine flag_schema sender_world = {1}"
  "removed_ids sender_engine flag_schema sender_world (br_entities flag_sender) = {EntityId 2}"
  "changed_once sender_engine flag_schema sender_world"
  by (simp_all add: added_set_def changed_set_def removed_ids_def changed_once_def added_entities_def changed_entities_def
      removed_entities_def sender_engine_def flag_sender_def flag_simps)

lemma sender_map: "entity_map_ok (br_entities flag_sender)"
  by (auto simp: entity_map_ok_def inverse_maps_def flag_sender_def flag_simps)

lemma sender_extracts:
  "\<exists>m' sc'. extract_changes_with_scratch sender_engine sorted_list_of_set flag_schema sender_world
    (br_entities flag_sender) (br_scratch flag_sender) (br_change_set flag_sender) =
    (m', sc', \<lparr>bc_creates = [flag_entity 7 True], bc_destroys = [EntityId 2], bc_updates = flag_updates\<rparr>) \<and>
    em_to_id m' = [0 \<mapsto> EntityId 2, 1 \<mapsto> EntityId 5, 2 \<mapsto> EntityId 7]"
  by (auto simp: extract_changes_with_scratch_def collect_adapter_def note_changed_def sender_engine_def flag_sender_def
      added_entities_def changed_entities_def removed_entities_def map_entity_id_known_def map_entity_id_def flag_simps
      sender_world_def snapshot_entity_def snapshot_component_def changed_components_def update_component_of_def
      List.map_filter_def change_set_default_def extract_scratch_default_def replicator_new_def flag_updates_def 
      adapter_by_component_def saturating_succ_def Let_def)

lemma sender_detects:
  "changes_detected sender_engine flag_schema sender_world (br_entities flag_sender) [flag_entity 2 True, flag_entity 5 True]"
  unfolding changes_detected_def sender_reports
  by (auto simp: change_reported_def sender_engine_def changed_entities_def flag_sender_def flag_simps sender_world_def
      find_component_def snapshot_component_def)

lemma sender_reads: "snapshot_entity sender_engine flag_schema sender_world 2 \<noteq> []"
  by (auto simp: snapshot_entity_def snapshot_component_def sender_engine_def sender_world_def List.map_filter_def flag_simps)

lemma sender_sends:
  "\<exists>s'. encode_frame demo_digest sender_engine sorted_list_of_set sender_world (SnapshotTick 9) (SnapshotTick 3)
      (replicate 55 0) flag_sender = Some (Inr (50, demo_change_packet), s') \<and>
    br_change_set s' = \<lparr>bc_creates = [flag_entity 7 True], bc_destroys = [EntityId 2], bc_updates = flag_updates\<rparr> \<and>
    em_to_id (br_entities s') = [0 \<mapsto> EntityId 2, 1 \<mapsto> EntityId 5, 2 \<mapsto> EntityId 7]"
proof -
  have s: "br_schema flag_sender = flag_schema" "br_limits flag_sender = codec_limits_default"
    by (simp_all add: flag_sender_def replicator_new_def)
  note encoded = demo_changes_encoded [folded flag_demo(1), unfolded flag_demo(3,4)]
  from sender_extracts encoded show ?thesis by (auto simp: encode_frame_def s res_simps)
qed

lemma flag_view:
  "apply_destroys [flag_entity 2 True, flag_entity 5 True] [EntityId 2] = Inr [flag_entity 5 True]"
  "apply_creates [flag_entity 5 True] [flag_entity 7 True] = Inr [flag_entity 5 True, flag_entity 7 True]"
  "apply_updates flag_updates [flag_entity 5 True, flag_entity 7 True] = Inr [flag_entity 5 False, flag_entity 7 True]"
  by code_simp+

lemma flag_sorted: "ids_sorted [flag_entity i b]" "ids_sorted [flag_entity 2 True, flag_entity 5 True]"
  by (simp_all add: flag_entity_def less_entity_id_def)

lemma flag_ordered: "\<forall>u \<in> set flag_updates. update_ordered u" "filter (\<lambda>u. ue_components u \<noteq> []) flag_updates = flag_updates"
  by (simp_all add: flag_updates_def update_ordered_def)

definition int_ops :: "int f32_ops" where
  "int_ops = \<lparr>f_sub = (-), f_mul = (*), f_add = (+), f_le = (\<le>)\<rparr>"

definition point :: "int \<Rightarrow> int vec3" where
  "point x = \<lparr>v_x = x, v_y = 0, v_z = 0\<rparr>"

definition demo_graph :: "int replication_graph" where
  "demo_graph = graph_upsert_client (ClientId 0) (client_view_new (point 0) 10)
    (graph_update_entity (EntityId 5) (point 3) [ComponentId 1]
      (graph_update_entity (EntityId 2) (point 40) [] (graph_new replication_config_default)))"

definition flag_view_of :: world_view where
  "flag_view_of = demo_world_view small_engine flag_schema flag_world flag_map"

lemma demo_graph_parts:
  "rg_clients demo_graph (ClientId 0) = Some \<lparr>ct_view = client_view_new (point 0) 10, ct_known = {}\<rparr>"
  "client_finite demo_graph client" "rg_removed demo_graph = {}"
  "fset (fmdom (rg_entities demo_graph)) = {EntityId 2, EntityId 5}"
  "relevant_ids int_ops (client_view_new (point 0) 10) (rg_entities demo_graph) = {EntityId 5}"
  by (auto simp: demo_graph_def graph_upsert_client_def graph_update_entity_def graph_new_def client_finite_def
      replication_config_default_def relevant_ids_def entity_relevant_def int_ops_def point_def client_view_new_def
      distance_sq_def entity_count split: if_splits option.splits)

lemma flag_view_contract: "world_contract flag_view_of ids"
  unfolding flag_view_of_def by (rule demo_view.world_contract_axioms)

lemma demo_delta_built: "fst (build_client_delta int_ops (ClientId 0) flag_view_of demo_graph) =
    \<lparr>cd_creates = [flag_entity 5 True], cd_destroys = [], cd_updates = []\<rparr>"
  by code_simp


section \<open>A change below its threshold\<close>





section \<open>A run of the comparison\<close>

text \<open>A serialiser of plain snapshots: 22 bytes an entity.\<close>

definition plain_entry :: "u32 \<times> position_yaw \<Rightarrow> u8 list" where
  "plain_entry x =
    to_le_bytes 4 (fst x) @ to_le_bytes 8 (py_x (snd x)) @ to_le_bytes 8 (py_y (snd x)) @ to_le_bytes 2 (py_yaw (snd x))"

definition read_plain_entry :: "u8 list \<Rightarrow> u32 \<times> position_yaw" where
  "read_plain_entry bs = (from_le_bytes (take 4 bs),
    \<lparr>py_x = from_le_bytes (take 8 (drop 4 bs)), py_y = from_le_bytes (take 8 (drop 12 bs)),
     py_yaw = from_le_bytes (take 2 (drop 20 bs))\<rparr>)"

fun read_plain :: "nat \<Rightarrow> u8 list \<Rightarrow> plain_snapshot" where
  "read_plain 0 bs = []"
| "read_plain (Suc n) bs = read_plain_entry bs # read_plain n (drop 22 bs)"

definition plain_bytes :: "plain_snapshot \<Rightarrow> u8 list" where
  "plain_bytes sn = concat (map plain_entry sn)"

lemma read_plain_bytes: "read_plain (length sn) (plain_bytes sn @ rest) = sn"
proof (induction sn)
  case (Cons x sn)
  have "read_plain_entry (plain_entry x @ bs) = x" for bs
    by (cases x) (simp add: read_plain_entry_def plain_entry_def from_to_le_bytes)
  moreover have "length (plain_entry x) = 22" by (simp add: plain_entry_def)
  ultimately show ?case using Cons by (simp add: plain_bytes_def)
qed simp

lemma length_plain_bytes: "length (plain_bytes sn) = 22 * length sn"
  by (induction sn) (simp_all add: plain_bytes_def plain_entry_def)

definition read_snapshot :: "u8 list \<Rightarrow> plain_snapshot option" where
  "read_snapshot bs = (if length bs mod 22 = 0 then Some (read_plain (length bs div 22) bs) else None)"

lemma read_snapshot_bytes: "read_snapshot (plain_bytes sn) = Some sn"
  using read_plain_bytes [of sn "[]"] by (simp add: read_snapshot_def length_plain_bytes)

text \<open>The demonstration on the small engine: every other packet is dropped, every second position moves.\<close>

definition run_env :: "(position_yaw small_world, nat, i64) demo_env" where
  "run_env =
    \<lparr>de_blake3 = demo_digest, de_ops = small_engine, de_type = 7, de_new_world = (0, Map.empty),
     de_query = (\<lambda>w. wo_added small_engine 7 w), de_clear_trackers = (\<lambda>w. w),
     de_order_ids = sorted_list_of_set, de_order = sorted_list_of_set, de_spoil = (\<lambda>b. b),
     de_f32 = \<lparr>f_sub = (-), f_mul = (*), f_add = (+), f_le = (\<le>)\<rparr>, de_of_i64 = (\<lambda>v. v), de_f32_max = - 1,
     de_ring = (\<lambda>i n x y. (x, y)), de_skips = (\<lambda>v. v mod 2 = 0), de_delivers = (\<lambda>v. v mod 2 = 0), de_swaps = (\<lambda>v. True),
     de_bincode = (\<lambda>sn. Some (plain_bytes sn)), de_from_bincode = read_snapshot,
     de_bitcode = plain_bytes, de_from_bitcode = read_snapshot, de_rank = (\<lambda>n. n)\<rparr>"

definition run_args :: demo_args where
  "run_args = \<lparr>da_entities = 16, da_ticks = 300, da_seed = 1, da_mode = NaiveMode, da_scenario = LossRun,
     da_clients = None, da_visibility_radius = None, da_validate = True\<rparr>"

lemma run_laws: "demo_laws run_env small_alive" "serialiser_laws run_env"
  by (auto simp: demo_laws_def serialiser_laws_def run_env_def small_engine_laws small_order read_snapshot_bytes)
    (auto simp: small_engine_def small_alive_def bind_eq_Some_conv)

section \<open>Properties\<close>

text \<open>
  C1: A delta packet encoded from a baseline and a current snapshot, with the body of its updates
  that the encoder chooses (masked, or sparse with bit-packed indices), is decoded and applied to
  the baseline: the result has the new tick and exactly the current entities, where an entity that
  was in the baseline keeps its baseline fields except those the change policy counts as changed,
  and an entity that was not is taken over in schema order. The only way to fail is the receiver's
  limit on the number of entities. The schema must be valid, without component id 0 and with its
  components in the order of their ids; no entity of the baseline lists a component twice; the
  entity and entry counts fit 32 bits, the packet fits the receiver's wire limits, and the
  baseline tick is not 0. Scratch contents, digest, output buffer and encoding mode are arbitrary.
\<close>

theorem delta_roundtrip:
  assumes "encode_delta_snapshot_with_scratch_mode blake3 s tick bt baseline current l sc out mode =
      Some (Inr (n, out'))"
    and "schema_ok s" and "schema_ids_ok s" and "sorted_wrt (<) (map cd_id (components s))"
    and "\<forall>b \<in> set (sn_entities baseline). entity_ok b"
    and "counts_fit s baseline current" and "delta_room wl n" and "tick_raw bt \<noteq> 0"
  shows "apply_delta_snapshot blake3 s baseline (take n out') wl l =
    (if length (sn_entities current) > max_total_entities_after_apply l then
       Inl (CodecLimitsExceeded TotalEntitiesAfterApply (max_total_entities_after_apply l)
         (length (sn_entities current)))
     else Inr \<lparr>sn_tick = tick,
       sn_entities = delta_target s (sn_entities baseline) (sn_entities current)\<rparr>)"
  by (rule delta_roundtrip_target) (use assms in simp_all)

lemma delta_roundtrip_witness:
  "apply_delta_snapshot demo_digest demo_schema demo_baseline (take 51 (demo_delta_packet @ [0, 0, 0, 192]))
      limits_default codec_limits_default =
    Inr \<lparr>sn_tick = SnapshotTick 9, sn_entities = sn_entities demo_current\<rparr>"
proof -
  have "delta_target demo_schema (sn_entities demo_baseline) (sn_entities demo_current) =
      sn_entities demo_current" by code_simp
  with delta_roundtrip [OF demo_delta_encoded demo_schema_ok demo_schema_ids, of limits_default]
  show ?thesis by (simp add: demo_delta_facts)
qed

text \<open>
  C2: Applying the delta packet to the baseline reproduces the current snapshot exactly, if
  thresholds never apply to a field of the current snapshot other than a boolean, the entities of
  both snapshots list their components in schema order, and the schema is valid, without component
  id 0 and with its components in the order of their ids (see sparse_needs_id_order for what
  happens otherwise). As before, the counts fit 32 bits, the packet fits the receiver's wire
  limits, the baseline tick is not 0, and the current snapshot is within the receiver's limit on
  the number of entities.
\<close>

theorem delta_roundtrip_exact:
  assumes "encode_delta_snapshot_with_scratch_mode blake3 s tick bt baseline current l sc out mode =
      Some (Inr (n, out'))"
    and "schema_ok s" and "schema_ids_ok s" and "sorted_wrt (<) (map cd_id (components s))"
    and "\<forall>e \<in> set (sn_entities current). exact_values s e"
    and "\<forall>e \<in> set (sn_entities baseline) \<union> set (sn_entities current). canonical_entity s e = e"
    and "counts_fit s baseline current" and "delta_room wl n" and "tick_raw bt \<noteq> 0"
    and "length (sn_entities current) \<le> max_total_entities_after_apply l"
  shows "apply_delta_snapshot blake3 s baseline (take n out') wl l =
    Inr \<lparr>sn_tick = tick, sn_entities = sn_entities current\<rparr>"
  by (rule delta_roundtrip_current) (use assms in simp_all)

lemma delta_roundtrip_exact_witness:
  "apply_delta_snapshot demo_digest demo_schema demo_baseline (take 51 (demo_delta_packet @ [0, 0, 0, 192]))
      limits_default codec_limits_default = Inr \<lparr>sn_tick = SnapshotTick 9, sn_entities = sn_entities demo_current\<rparr>"
proof -
  have "\<forall>e \<in> set (sn_entities demo_current). exact_values demo_schema e"
    using no_thresholds_exact [OF demo_no_thresholds] by simp
  moreover have "list_all (\<lambda>e. canonical_entity demo_schema e = e)
      (sn_entities demo_baseline @ sn_entities demo_current)" by code_simp
  then have "\<forall>e \<in> set (sn_entities demo_baseline) \<union> set (sn_entities demo_current).
      canonical_entity demo_schema e = e" by (simp add: list_all_iff ball_Un)
  ultimately show ?thesis
    using delta_roundtrip_exact [OF demo_delta_encoded demo_schema_ok demo_schema_ids]
    by (simp add: demo_delta_facts)
qed

text \<open>
  C3: Over a reliable channel the receiver always sees the sender's last snapshot: from any state
  in which both agree, after any number of steps on snapshots in schema order with thresholds on
  booleans only (the sender encodes a compact delta against its last snapshot, the receiver
  decodes it with its session and applies it to its own) the receiver's snapshot equals the
  sender's, the session's last tick equals the sender's, and the schema hash is still the
  schema's.
\<close>

theorem replication_keeps_sync:
  assumes "exact_schema s" and "in_sync blake3 s r" and "(replication_step blake3 s l wl)\<^sup>*\<^sup>* r r'"
  shows "rp_view r' = rp_sent r' \<and> ss_last_tick (rp_session r') = rp_last r' \<and>
    ss_schema_hash (rp_session r') = schema_hash blake3 s"
  using replication_in_sync [OF assms] by (simp add: in_sync_def)

lemma replication_keeps_sync_witness:
  "\<exists>r'. (replication_step demo_digest demo_schema codec_limits_default limits_default)\<^sup>*\<^sup>* demo_replica r' \<and>
    rp_sent r' = demo_current \<and> rp_view r' = demo_current"
proof -
  from replication_progress [OF demo_exact demo_in_sync demo_replica_encoded demo_sendable]
  obtain r' where step: "replication_step demo_digest demo_schema codec_limits_default limits_default demo_replica r'"
    and "rp_view r' = demo_current" by blast
  moreover from r_into_rtranclp [of "replication_step demo_digest demo_schema codec_limits_default limits_default",
      OF step]
  have "rp_view r' = rp_sent r'" using replication_keeps_sync [OF demo_exact demo_in_sync] by blast
  ultimately show ?thesis by (intro exI [of _ r']) auto
qed

text \<open>
  C4: Applying decoded changes to the game engine's world refines applying them to a snapshot: as
  long as the world shows a snapshot (the entity map is in order, knows exactly the snapshot's
  ids, and reading each entity gives its components), a run of apply_changes that returns Ok
  leaves a world that shows what the codec's destroys, creates and updates make of that snapshot.
  Of the engine and of the application's components only the documented laws in engine_ok are
  used, and only for values the components hold without loss.
\<close>

theorem world_follows_snapshot:
  assumes "engine_ok ops alive valid bs" and "shows_snapshot ops alive bs es w m"
    and "ids_sorted es" and "sorted_wrt (<) ds" and "ids_sorted cs"
    and "apply_destroys es ds = Inr es1" and "apply_creates es1 cs = Inr es2" and "apply_updates us es2 = Inr es3"
    and "\<forall>c \<in> set cs. canonical_entity (bs_schema bs) c = c"
    and "\<forall>c \<in> set cs. \<forall>x \<in> set (es_components c). snapshot_valid valid x"
    and "\<forall>u \<in> set us. \<forall>c \<in> set (ue_components u). update_valid valid c"
    and "bevy_apply_changes ops bs cs ds us w m = Some (Inr (), w', m')"
  shows "shows_snapshot ops alive bs es3 w' m'"
  by (rule bevy_apply_refines [OF assms])

lemma world_follows_snapshot_witness:
  "\<exists>w' m'. bevy_apply_changes small_engine flag_schema [flag_entity 7 True] [EntityId 2] flag_updates flag_world flag_map =
      Some (Inr (), w', m') \<and>
    shows_snapshot small_engine small_alive flag_schema [flag_entity 5 False, flag_entity 7 True] w' m'"
proof -
  from flag_applied obtain w' m' where run: "bevy_apply_changes small_engine flag_schema [flag_entity 7 True] [EntityId 2]
      flag_updates flag_world flag_map = Some (Inr (), w', m')" by blast
  from world_follows_snapshot [OF flag_engine_ok flag_shown flag_sorted(2) _ flag_sorted(1) flag_view _ _ _ run] run show ?thesis
    by (simp add: flag_canonical flag_valid)
qed

text \<open>
  C5: A replicator's frame from world to world: the sender's encode_frame extracts what the engine
  reports as added, changed and removed and encodes it; when the receiver's apply_frame returns Ok
  on these bytes, the receiver's world, which showed the entities of the frame before, shows
  exactly the old entities but the removed ones plus the newly added ones, each with the
  components that the sender's world holds now. The reports must be complete: only shown entities
  are removed, a shown entity that stays gained and lost no component, those of its components
  that read differently are reported as changed, each once, and a reported entity is new or one of
  these. Also needed: the receiver has the same schema and limits, a schema registered in id order
  without id 0, components that keep all values that occur, an engine and components that satisfy
  the laws of engine_ok, ids left, counts that fit 32 bits, a packet within the receiver's wire
  limits, a baseline tick other than 0.
\<close>

theorem frame_keeps_view:
  assumes "encode_frame blake3 ops order ws tick bt out s = Some (Inr (n, out'), s')"
    and "br_schema s = bs" and "iteration_order order" and "entity_map_ok (br_entities s)"
    and "unat (em_next (br_entities s)) + card (added_set ops bs ws) + card (changed_set ops bs ws) < 2 ^ 32"
    and "schema_ids_ok (bs_schema bs)" and "sorted_wrt (<) (map cd_id (components (bs_schema bs)))"
    and "changed_once ops bs ws" and "changes_detected ops bs ws (br_entities s) es" and "values_kept ops bs ws valid"
    and "br_limits r = br_limits s" and "br_schema r = bs" and "engine_ok rops alive valid bs"
    and "shows_snapshot rops alive bs es w (br_entities r)" and "ids_sorted es"
    and "length (bc_destroys (br_change_set s')) < 2 ^ 32" and "length (bc_creates (br_change_set s')) < 2 ^ 32"
    and "update_entry_count (bc_updates (br_change_set s')) < 2 ^ 32"
    and "delta_room (br_wire_limits r) n" and "tick_raw bt \<noteq> 0"
    and "apply_frame blake3 rops (take n out') w r = Some (Inr (), w', r')"
  shows "\<exists>es'. shows_snapshot rops alive bs es' w' (br_entities r') \<and> ids_sorted es' \<and>
    es_id ` set es' = es_id ` set es - removed_ids ops bs ws (br_entities s) \<union>
      {i. \<exists>e \<in> added_set ops bs ws. em_to_id (br_entities s') e = Some i \<and> snapshot_entity ops bs ws e \<noteq> []} \<and>
    (\<forall>x \<in> set es'. \<exists>e. em_to_id (br_entities s') e = Some (es_id x) \<and>
      es_components x = snapshot_entity ops bs ws e)"
  by (rule frame_followed [OF assms])

lemma frame_keeps_view_witness:
  "\<exists>s' w' r' es'. encode_frame demo_digest sender_engine sorted_list_of_set sender_world (SnapshotTick 9)
      (SnapshotTick 3) (replicate 55 0) flag_sender = Some (Inr (50, demo_change_packet), s') \<and>
    apply_frame demo_digest small_engine (take 50 demo_change_packet) flag_world flag_receiver =
      Some (Inr (), w', r') \<and>
    shows_snapshot small_engine small_alive flag_schema es' w' (br_entities r') \<and>
    es_id ` set es' = {EntityId 5, EntityId 7} \<and>
    (\<forall>x \<in> set es'. \<exists>e. em_to_id (br_entities s') e = Some (es_id x) \<and>
      es_components x = snapshot_entity sender_engine flag_schema sender_world e)"
proof -
  let ?changes = "\<lparr>bc_creates = [flag_entity 7 True], bc_destroys = [EntityId 2], bc_updates = flag_updates\<rparr>"
  obtain s' where sent: "encode_frame demo_digest sender_engine sorted_list_of_set sender_world (SnapshotTick 9)
      (SnapshotTick 3) (replicate 55 0) flag_sender = Some (Inr (50, demo_change_packet), s')"
    and s': "br_change_set s' = ?changes" "em_to_id (br_entities s') = [0 \<mapsto> EntityId 2, 1 \<mapsto> EntityId 5, 2 \<mapsto> EntityId 7]"
    using sender_sends by blast
  from flag_frame obtain w' r' where run: "apply_frame demo_digest small_engine (take 50 demo_change_packet) flag_world
      flag_receiver = Some (Inr (), w', r')" by blast
  have r: "br_limits flag_receiver = br_limits flag_sender" "br_schema flag_receiver = flag_schema"
    "br_entities flag_receiver = flag_map" "br_wire_limits flag_receiver = limits_default" "br_schema flag_sender = flag_schema"
    "unat (em_next (br_entities flag_sender)) = 6"
    by (simp_all add: flag_receiver_def flag_sender_def replicator_new_def)
  have new: "{i. \<exists>e \<in> {2 :: nat}. em_to_id (br_entities s') e = Some i \<and>
      snapshot_entity sender_engine flag_schema sender_world e \<noteq> []} = {EntityId 7}" and kept: "es_id ` set [flag_entity 2 True, flag_entity 5 True] - {EntityId 2} = {EntityId 5}"
    unfolding s' by (simp_all add: sender_reads flag_entity_def)
  have "\<exists>es'. shows_snapshot small_engine small_alive flag_schema es' w' (br_entities r') \<and> ids_sorted es' \<and>
    es_id ` set es' = es_id ` set [flag_entity 2 True, flag_entity 5 True] - {EntityId 2} \<union>
      {i. \<exists>e \<in> {2 :: nat}. em_to_id (br_entities s') e = Some i \<and>
        snapshot_entity sender_engine flag_schema sender_world e \<noteq> []} \<and>
    (\<forall>x \<in> set es'. \<exists>e. em_to_id (br_entities s') e = Some (es_id x) \<and>
      es_components x = snapshot_entity sender_engine flag_schema sender_world e)"
  proof (rule frame_keeps_view [OF sent r(5) small_order sender_map _ _ _ sender_reports(4) sender_detects _ r(1,2)
      flag_engine_ok _ flag_sorted(2) _ _ _ _ _ run, unfolded sender_reports])
    show "delta_room (br_wire_limits flag_receiver) 50" by (simp add: r delta_room_def limits_default_def)
    show "values_kept sender_engine flag_schema sender_world (\<lambda>_ _ _. True)" by (simp add: values_kept_def flag_valid)
  qed (simp_all add: r s' flag_shown flag_demo demo_schema_ids, simp_all add: flag_updates_def update_entry_count_def
      demo_schema_def)
  then show ?thesis unfolding new kept using sent run by auto
qed



text \<open>
  C7: A full snapshot encoded into any output buffer is decoded from the written prefix to the
  same tick and to the same entities, each with its component list brought into schema order (the
  form the encoder visits them in), for every valid schema, every digest function and every limits
  that leave room for the packet.
\<close>

theorem full_snapshot_roundtrip:
  assumes "encode_full_snapshot blake3 s tick es l out = Some (Inr (n, out'))"
    and "schema_ok s" and "length es < 2 ^ 32" and "wire_room wl n"
  shows "decode_full_snapshot blake3 s (take n out') wl l =
    Inr \<lparr>sn_tick = tick, sn_entities = map (canonical_entity s) es\<rparr>"
  by (rule full_snapshot_decodes) (use assms in simp_all)

lemma full_snapshot_roundtrip_witness:
  "decode_full_snapshot demo_digest demo_schema (take 36 (demo_full_packet @ [0, 0, 0, 224])) limits_default
      codec_limits_default =
    Inr \<lparr>sn_tick = SnapshotTick 3, sn_entities = [canonical_entity demo_schema demo_entity]\<rparr>"
proof -
  have "encode_full_snapshot demo_digest demo_schema (SnapshotTick 3) [demo_entity] codec_limits_default
      (replicate 40 0) = Some (Inr (36, demo_full_packet @ [0, 0, 0, 224]))"
    by code_simp
  from full_snapshot_roundtrip [OF this] show ?thesis
    by (simp add: demo_schema_ok wire_room_def limits_default_def)
qed

text \<open>
  C8: A compact delta packet, encoded relative to the tick that the receiver's session is at, is
  decoded by that session and applied to the baseline to the target snapshot; both ends then hold
  the new tick. The compact header is rebuilt into the full header that the delta decoder checks.
  The schema must be valid, without component id 0 and with its components in the order of their
  ids, and be the one the session was set up with; no entity of the baseline lists a component
  twice; the counts fit 32 bits, the sections fit the receiver's wire limits, the current entities
  fit its limit on the number of entities, and the baseline tick is not 0.
\<close>

theorem session_delta_roundtrip:
  assumes "encode_delta_snapshot_for_client_session_with_scratch s tick bt baseline current l sc
      (ss_last_tick st) out = Some (Inr (n, out', last'))"
    and "schema_ok s" and "schema_ids_ok s" and "sorted_wrt (<) (map cd_id (components s))"
    and "\<forall>b \<in> set (sn_entities baseline). entity_ok b"
    and "counts_fit s baseline current" and "session_room wl n" and "tick_raw bt \<noteq> 0"
    and "ss_schema_hash st = schema_hash blake3 s"
    and "length (sn_entities current) \<le> max_total_entities_after_apply l"
  shows "\<exists>p. decode_session_packet blake3 s st (take n out') wl = Inr (p, st\<lparr>ss_last_tick := tick\<rparr>) \<and>
    apply_delta_snapshot_from_packet blake3 s baseline p l = Inr \<lparr>sn_tick = tick,
      sn_entities = delta_target s (sn_entities baseline) (sn_entities current)\<rparr> \<and> last' = tick"
  by (rule session_delta_replicates) (use assms in simp_all)

lemma session_delta_roundtrip_witness:
  "\<exists>p. decode_session_packet demo_digest demo_schema demo_session (take 26 demo_session_bytes) limits_default =
      Inr (p, demo_session\<lparr>ss_last_tick := SnapshotTick 9\<rparr>) \<and>
    apply_delta_snapshot_from_packet demo_digest demo_schema demo_baseline p codec_limits_default =
      Inr \<lparr>sn_tick = SnapshotTick 9, sn_entities = delta_target demo_schema (sn_entities demo_baseline)
        (sn_entities demo_current)\<rparr>"
proof -
  have last: "ss_last_tick demo_session = SnapshotTick 3" by (simp add: demo_session_def)
  have hash: "ss_schema_hash demo_session = schema_hash demo_digest demo_schema" by (simp add: demo_session_def)
  have room: "session_room limits_default 26" by (simp add: session_room_def limits_default_def)
  have enc: "encode_delta_snapshot_for_client_session_with_scratch demo_schema (SnapshotTick 9) (SnapshotTick 3)
      demo_baseline demo_current codec_limits_default codec_scratch_new (ss_last_tick demo_session) (replicate 48 0) =
      Some (Inr (26, demo_session_bytes, SnapshotTick 9))"
    by (simp only: last demo_session_encoded)
  from session_delta_roundtrip [OF enc demo_schema_ok demo_schema_ids
      demo_delta_facts(1,2) room demo_delta_facts(4) hash demo_delta_facts(5)]
  show ?thesis by blast
qed

text \<open>
  C9: A client that is served tick after tick while the tracked entities rest is told about
  exactly the relevant ones after finitely many ticks, whatever its budget, if the budget allows
  at least one create and one destroy: as many ticks as entities are missing or too many are
  enough. No tracked entity may be pending for removal (an entity that was removed and added again
  is destroyed and created in turn for ever, until clear_removed is called); the sets of known and
  of removed ids are finite, and the application's world names the entities it is asked for. The
  order of the float comparison is a parameter.
\<close>

theorem served_client_catches_up:
  assumes "rg_clients g client = Some state" and "client_finite g client"
    and "world_contract world (fset (fmdom (rg_entities g)))"
    and "0 < max_creates (vw_budget (ct_view state))" and "0 < max_destroys (vw_budget (ct_view state))"
    and "rg_removed g \<inter> fset (fmdom (rg_entities g)) = {}"
    and "pending (ct_known state) (relevant_ids ops (ct_view state) (rg_entities g)) \<le> n"
  shows "map_option ct_known (rg_clients (((\<lambda>g. snd (build_client_delta ops client world g)) ^^ n) g) client) =
    Some (relevant_ids ops (ct_view state) (rg_entities g))"
  using served_client_converges [OF assms] unfolding serve_def .

lemma served_client_catches_up_witness:
  "map_option ct_known (rg_clients (((\<lambda>g. snd (build_client_delta int_ops (ClientId 0) flag_view_of g)) ^^ 1) demo_graph)
    (ClientId 0)) = Some {EntityId 5}"
  using served_client_catches_up [OF demo_graph_parts(1,2) flag_view_contract, of int_ops 1]
  by (simp add: demo_graph_parts pending_def) (simp add: client_view_new_def budget_unlimited_def usize_max_def)

text \<open>
  C10: A client's delta from the replication graph, encoded as a packet, decoded and applied on
  the other side: if the receiver holds the entities the graph believes known, then the decoded
  destroys and creates apply without an error, the receiver afterwards holds exactly the entities
  the graph now believes known, and every decoded update names one of them. Conditions: each
  update that the application's world returns lists its components by increasing id and their
  fields by increasing index (the graph passes dirty components on in the order they were marked
  and does not sort them), the world names the entities it is asked for, no relevant known entity
  is pending for removal, the schema is valid and has no component id 0, the known and removed ids
  are finitely many, the counts fit 32 bits, the packet fits the receiver's wire limits, and the
  baseline tick is not 0.
\<close>

theorem graph_delta_delivered:
  assumes "build_client_delta ops client world g = (d, g')" and "rg_clients g client = Some state"
    and "client_finite g client" and "world_contract world (fset (fmdom (rg_entities g)))"
    and "encode_delta_snapshot_from_updates blake3 s tick bt (cd_destroys d) (cd_creates d) (cd_updates d) l out =
      Some (Inr (n, out'))"
    and "schema_ok s" and "schema_ids_ok s" and "\<forall>u \<in> set (cd_updates d). update_ordered u"
    and "length (cd_destroys d) < 2 ^ 32" and "length (cd_creates d) < 2 ^ 32"
    and "update_entry_count (cd_updates d) < 2 ^ 32" and "delta_room wl n" and "tick_raw bt \<noteq> 0"
    and "ids_sorted es" and "es_id ` set es = ct_known state"
    and "rg_removed g \<inter> ct_known state \<inter> relevant_ids ops (ct_view state) (rg_entities g) = {}"
  shows "\<exists>dd es'. and_then (map_err Wire (decode_packet (take n out') wl))
      (\<lambda>p. decode_delta_packet blake3 s p l) = Inr dd \<and>
    and_then (apply_destroys es (dd_destroys dd)) (\<lambda>rs. apply_creates rs (dd_creates dd)) = Inr es' \<and>
    ids_sorted es' \<and> map_option ct_known (rg_clients g' client) = Some (es_id ` set es') \<and>
    ue_id ` set (dd_updates dd) \<subseteq> es_id ` set es'"
  by (rule client_delta_delivered [OF assms]) blast

lemma graph_delta_delivered_witness:
  "\<exists>out'. encode_delta_snapshot_from_updates demo_digest demo_schema (SnapshotTick 9) (SnapshotTick 3) []
      [flag_entity 5 True] [] codec_limits_default (replicate 60 0) = Some (Inr (36, out')) \<and>
    (\<exists>dd es'. and_then (map_err Wire (decode_packet (take 36 out') limits_default))
        (\<lambda>p. decode_delta_packet demo_digest demo_schema p codec_limits_default) = Inr dd \<and>
      and_then (apply_destroys [] (dd_destroys dd)) (\<lambda>rs. apply_creates rs (dd_creates dd)) = Inr es')"
proof -
  obtain d g' where built: "build_client_delta int_ops (ClientId 0) flag_view_of demo_graph = (d, g')" by fastforce
  with demo_delta_built have d: "d = \<lparr>cd_creates = [flag_entity 5 True], cd_destroys = [], cd_updates = []\<rparr>" by simp
  have "\<exists>out'. encode_delta_snapshot_from_updates demo_digest demo_schema (SnapshotTick 9) (SnapshotTick 3) []
      [flag_entity 5 True] [] codec_limits_default (replicate 60 0) = Some (Inr (36, out'))"
    by (rule exI [of _ "[67, 69, 68, 83, 2, 0, 2, 0, 7, 7, 7, 7, 7, 7, 7, 7, 9, 0, 0, 0, 3, 0, 0, 0, 8, 0, 0, 0,
      1, 6, 1, 5, 0, 0, 0, 224, 0, 0, 0, 224] @ replicate 20 0"]) code_simp
  then obtain out' where enc: "encode_delta_snapshot_from_updates demo_digest demo_schema (SnapshotTick 9)
      (SnapshotTick 3) [] [flag_entity 5 True] [] codec_limits_default (replicate 60 0) = Some (Inr (36, out'))" by blast
  have "\<exists>dd es'. and_then (map_err Wire (decode_packet (take 36 out') limits_default))
        (\<lambda>p. decode_delta_packet demo_digest demo_schema p codec_limits_default) = Inr dd \<and>
      and_then (apply_destroys [] (dd_destroys dd)) (\<lambda>rs. apply_creates rs (dd_creates dd)) = Inr es'"
    using graph_delta_delivered [OF built demo_graph_parts(1,2) flag_view_contract,
        of demo_digest demo_schema "SnapshotTick 9" "SnapshotTick 3" codec_limits_default "replicate 60 0" 36 out'
          limits_default "[]"] enc
    by (simp add: d demo_schema_ok demo_schema_ids demo_graph_parts update_entry_count_def delta_room_def limits_default_def)
      blast
  with enc show ?thesis by blast
qed

text \<open>
  C11: Applying a full snapshot rebuilds a client: whatever snapshot the client's world showed
  before, after apply_full_snapshot returns Ok it shows exactly the new snapshot's entities. Known
  entities are rewritten field by field or by inserting the component, unknown ones are spawned
  and registered, and all others are despawned and forgotten. The snapshot's entities must have
  distinct ids, list their components in schema order, hold every registered component with all
  its fields (the code leaves a component that is missing from the snapshot as it was), and hold
  only values that the client's components keep without loss (a yaw above 16 bits is not one). Of
  the engine and of the components only the laws in engine_ok are used; the order in which hash
  maps are iterated is arbitrary.
\<close>

theorem client_rebuilt:
  assumes "engine_ok ops alive valid bs" and "iteration_order order"
    and "shows_snapshot ops alive bs es w m" and "distinct (map es_id (sn_entities sn))"
    and "\<forall>x \<in> set (sn_entities sn). canonical_entity (bs_schema bs) x = x \<and> holds_every_component bs x \<and>
      (\<forall>c \<in> set (es_components x). snapshot_valid valid c)"
    and "apply_full_snapshot ops order bs sn w m = Some (Inr (), w', m')"
  shows "shows_snapshot ops alive bs (sn_entities sn) w' m'"
  by (rule full_snapshot_shown [OF assms])

lemma client_rebuilt_witness:
  "\<exists>w' m'. apply_full_snapshot small_engine sorted_list_of_set flag_schema
      \<lparr>sn_tick = SnapshotTick 9, sn_entities = [flag_entity 5 False, flag_entity 7 True]\<rparr> flag_world flag_map =
      Some (Inr (), w', m') \<and>
    shows_snapshot small_engine small_alive flag_schema [flag_entity 5 False, flag_entity 7 True] w' m'"
proof -
  from flag_rebuilt obtain w' m' where run: "apply_full_snapshot small_engine sorted_list_of_set flag_schema
      \<lparr>sn_tick = SnapshotTick 9, sn_entities = [flag_entity 5 False, flag_entity 7 True]\<rparr> flag_world flag_map =
      Some (Inr (), w', m')" by blast
  have "holds_every_component flag_schema (flag_entity i b)" for i b
    by (simp add: holds_every_component_def flag_simps find_component_def)
  with client_rebuilt [OF flag_engine_ok small_order flag_shown _ _ run] run show ?thesis
    by (simp add: flag_canonical flag_valid) (simp add: flag_entity_def)
qed

text \<open>
  C12: What the engine adapter extracts from a world, the change encoder accepts: the created
  entities and the destroyed ids strictly increase, the updates strictly increase and name no
  created entity, the created entities are in the schema's component order, the components and
  field indices of each update increase, and the entity map stays in order. It needs ids left for
  the new entities and, for the order of components, a schema registered in the order of its ids.
\<close>

theorem extracted_changes_encodable:
  assumes "iteration_order order" and "entity_map_ok m" and "bevy_schema_ok bs"
    and "unat (em_next m) + card (added_set ops bs world) + card (changed_set ops bs world) < 2 ^ 32"
    and "sorted_wrt (<) (map cd_id (components (bs_schema bs)))" and "changed_once ops bs world"
    and "extract_changes_with_scratch ops order bs world m sc out = (m', sc', changes)"
  shows "entity_map_ok m' \<and> ensure_entities_sorted (bc_creates changes) = Inr () \<and>
    ensure_entity_ids_sorted (bc_destroys changes) = Inr () \<and> sorted_wrt (<) (map ue_id (bc_updates changes)) \<and>
    es_id ` set (bc_creates changes) \<inter> ue_id ` set (bc_updates changes) = {} \<and>
    (\<forall>c \<in> set (bc_creates changes). canonical_entity (bs_schema bs) c = c) \<and>
    (\<forall>u \<in> set (bc_updates changes). update_ordered u)"
  using extract_accepted [OF assms(1,2,4,7)] extracted_frame [OF assms] by blast

lemma extracted_changes_encodable_witness:
  "\<exists>m' sc' changes. extract_changes_with_scratch small_engine sorted_list_of_set flag_schema flag_world entity_map_new
      extract_scratch_default change_set_default = (m', sc', changes) \<and>
    entity_map_ok m' \<and> ensure_entities_sorted (bc_creates changes) = Inr () \<and>
    (\<forall>c \<in> set (bc_creates changes). canonical_entity (bs_schema flag_schema) c = c)"
proof -
  obtain m' sc' changes where run: "extract_changes_with_scratch small_engine sorted_list_of_set flag_schema flag_world
      entity_map_new extract_scratch_default change_set_default = (m', sc', changes)" by (rule prod_cases3)
  have sets: "added_set small_engine flag_schema flag_world = {0, 1}" "changed_set small_engine flag_schema flag_world = {0, 1}"
    by (auto simp: added_set_def changed_set_def added_entities_def changed_entities_def flag_simps)
  from extracted_changes_encodable [OF small_order entity_map_new_ok _ _ _ _ run] bevy_build_ok [OF flag_adapters_ok flag_built]
  have "entity_map_ok m' \<and> ensure_entities_sorted (bc_creates changes) = Inr () \<and>
    (\<forall>c \<in> set (bc_creates changes). canonical_entity (bs_schema flag_schema) c = c)"
    by (simp add: sets changed_once_def changed_entities_def flag_demo demo_schema_ids)
      (simp add: flag_simps)
  with run show ?thesis by blast
qed

text \<open>
  C13: The replication graph in every state a program can reach with its public operations: never
  more tracked entities than configured, no component twice in an entity's dirty list, and for
  each client finitely many known ids and finitely many pending removals.
\<close>

theorem graph_invariant:
  assumes "(graph_step ops)\<^sup>*\<^sup>* (graph_new config) g"
  shows "card (fmdom' (rg_entities g)) \<le> max_entities (rg_config g) \<and>
    (\<forall>i entry. fmlookup (rg_entities g) i = Some entry \<longrightarrow> distinct (en_dirty entry)) \<and>
    (\<forall>client. client_finite g client)"
  using graph_reachable_ok [OF assms] by (simp add: graph_ok_def)

lemma graph_invariant_witness:
  "card (fmdom' (rg_entities (graph_update_entity (EntityId 5) (point 3) [ComponentId 1, ComponentId 1]
    (graph_new \<lparr>max_entities = 1\<rparr>)))) \<le> 1"
proof -
  let ?g = "graph_update_entity (EntityId 5) (point 3) [ComponentId 1, ComponentId 1] (graph_new \<lparr>max_entities = 1\<rparr>)"
  have "(graph_step int_ops)\<^sup>*\<^sup>* (graph_new \<lparr>max_entities = 1\<rparr>) ?g"
    by (rule r_into_rtranclp, rule step_update)
  from graph_invariant [OF this] have "card (fmdom' (rg_entities ?g)) \<le> max_entities (rg_config ?g)" by blast
  also have "max_entities (rg_config ?g) = 1" by (simp add: graph_update_entity_def graph_new_def split: option.split)
  finally show ?thesis .
qed

text \<open>
  C14: Every entity map that can be reached from the empty one by handing out ids while there is
  one left, registering free ids for unknown entities and giving ids back keeps its two hash maps
  inverse to each other, with no id in use above the counter.
\<close>

theorem entity_map_invariant:
  assumes "map_step\<^sup>*\<^sup>* entity_map_new m"
  shows "(\<forall>e i. map_entity_id_known e m = Some i \<longleftrightarrow> map_entity i m = Some e) \<and>
    (\<forall>i \<in> map_ids m. entity_raw i \<le> em_next m)"
  using map_reachable_ok [OF assms]
  by (auto simp: map_entity_id_known_def map_entity_def map_ids_def entity_map_okD)

lemma entity_map_invariant_witness:
  "\<forall>e i. map_entity_id_known e (snd (map_entity_id (4 :: nat) entity_map_new)) = Some i \<longleftrightarrow>
    map_entity i (snd (map_entity_id 4 entity_map_new)) = Some e"
proof -
  have "map_step\<^sup>*\<^sup>* entity_map_new (snd (map_entity_id (4 :: nat) entity_map_new))"
    by (rule r_into_rtranclp, rule give_id) (simp add: entity_map_new_def)
  from entity_map_invariant [OF this] show ?thesis by blast
qed

text \<open>
  C15: The capture run of the simulator, with the default limits that it uses, on any seed, number
  of clients and ticks, burst cadence, and from 1 to 4096 players (the receiver's default entity
  limit): it never panics, and it ends in one of three ways. It finishes, every packet it wrote
  having been decoded, applied and compared with the state it was made from, and every client in
  sync with the server; or an encoder returns an error; or the wire decoder refuses a packet that
  is larger than 64 KiB or has a section larger than 32 KiB, which the encoders with their section
  limit of 64 KiB may write. A mismatch between what was sent and what was decoded, a refused
  delta, a session out of order or any other decoding error cannot occur. With no player the run
  stops with its own message.
\<close>

theorem capture_always_validates:
  assumes "players \<noteq> 0" and "unat players \<le> 4096"
  shows "ends_well limits_default (\<lambda>cs. \<forall>c \<in> set cs. client_synced blake3 (unat players) c)
    (capture_run blake3 players clients ticks seed burst)"
  by (rule capture_run_ends_well) (use assms in \<open>simp_all add: codec_limits_default_def\<close>)

lemma capture_always_validates_witness:
  "ends_well limits_default (\<lambda>cs. \<forall>c \<in> set cs. client_synced demo_digest 16 c)
    (capture_run demo_digest 16 4 300 1 None)"
  using capture_always_validates [of 16 demo_digest 4 300 1 None] by simp

text \<open>
  C16: A whole run of the demonstration in a comparison mode, on any seed, number of entities,
  clients and ticks, any scenario and any pattern of dropped packets: it does not panic, it ends
  with its summary, and the summary reports no error, no resynchronisation and no validation
  error. Every tick the server moves its entities, takes the snapshot of what each client sees and
  sends it; the client applies what arrives; and the digests that the validation compares are
  equal. Of the engine and the serialisers only their documented laws are used, and twice as many
  ids as entities must be left.
\<close>

theorem comparison_run_validates:
  assumes "demo_laws env alive" and "serialiser_laws env" and "da_mode args \<noteq> SdecMode"
    and "2 * unat (da_entities args) < 2 ^ 32 - 1"
  shows "\<exists>summary. demo_main env args = Some (Inr summary) \<and> dy_errors summary = 0 \<and> dy_resyncs summary = 0 \<and>
    dy_validation_errors summary = 0"
  by (rule comparison_run) (fact assms)+

lemma comparison_run_validates_witness:
  "\<exists>summary. demo_main run_env run_args = Some (Inr summary) \<and> dy_errors summary = 0 \<and> dy_resyncs summary = 0 \<and>
    dy_validation_errors summary = 0"
  by (rule comparison_run_validates [OF run_laws]) (simp_all add: run_args_def)



text \<open>
  C18: Progress of a session: from a state in which sender and receiver agree, a snapshot that the
  sender's compact encoder accepts is also accepted by the receiver (decoding and applying
  succeed) and becomes the receiver's snapshot, provided it can be sent: its entities list their
  components in schema order, thresholds apply to none of its fields but booleans, the counts fit
  32 bits, the encoded length fits the receiver's wire limits, and the number of entities is
  within the receiver's limit. The schema must be valid, without component id 0 and with its
  components in the order of their ids.
\<close>

theorem replication_goes_on:
  assumes "exact_schema s" and "in_sync blake3 s r"
    and "encode_delta_snapshot_for_client_session_with_scratch s (sn_tick cur) (sn_tick (rp_sent r))
      (rp_sent r) cur l sc (rp_last r) out = Some (Inr (n, out', last'))"
    and "sendable s l wl (rp_sent r) cur n"
  shows "\<exists>r'. replication_step blake3 s l wl r r' \<and> rp_view r' = cur"
  by (rule replication_progress [OF assms])

lemma replication_goes_on_witness:
  "\<exists>r'. replication_step demo_digest demo_schema codec_limits_default limits_default demo_replica r' \<and>
    rp_view r' = demo_current"
  using replication_goes_on [OF demo_exact demo_in_sync demo_replica_encoded
      demo_sendable] .

text \<open>
  C19: The delta encoder never panics on a slice or an index, whatever the schema, the snapshots,
  the scratch buffers, the limits, the output buffer and the choice of update encoding: it returns
  a length or an error value. The first half makes the indices explicit:
  encode_delta_snapshot_checked is the encoder with each slice of the scratch buffers
  (component_changed[..n], field_mask[..n]) and each index of the update bodies (field_mask[idx],
  fields[idx], component_changed[idx]) as an operation that panics when it is out of range;
  because of the guards on field counts it is the same function as the encoder of the other
  theorems, which takes these values by matching. The second half excludes the panics that remain,
  the slices of the output buffer. (Overflow checks of debug builds and the bit writer's own
  indexing are not part of this.)
\<close>

theorem encode_delta_returns:
  "encode_delta_snapshot_checked blake3 s tick bt baseline current l sc out mode =
      encode_delta_snapshot_with_scratch_mode blake3 s tick bt baseline current l sc out mode \<and>
    encode_delta_snapshot_checked blake3 s tick bt baseline current l sc out mode \<noteq> None"
  by (simp add: encode_delta_checked_same encode_delta_no_panic del: not_None_eq)

text \<open>
  C20: Whatever packet a delta is applied from, a success means: it is flagged as a delta, it is
  against the tick of this very baseline (and not against tick 0), it was built with this schema,
  and the result carries the packet's tick, keeps the entities strictly sorted by id and stays
  within the limit on the number of entities.
\<close>

theorem delta_applied_sound:
  assumes "apply_delta_snapshot_from_packet blake3 s baseline p l = Inr sn"
  shows "is_delta_snapshot (ph_flags (wp_header p)) \<and>
    ph_baseline_tick (wp_header p) = tick_raw (sn_tick baseline) \<and> tick_raw (sn_tick baseline) \<noteq> 0 \<and>
    ph_schema_hash (wp_header p) = schema_hash blake3 s \<and>
    tick_raw (sn_tick sn) = ph_tick (wp_header p) \<and>
    ids_sorted (sn_entities baseline) \<and> ids_sorted (sn_entities sn) \<and>
    length (sn_entities sn) \<le> max_total_entities_after_apply l"
  using apply_delta_sound [OF assms] by simp

lemma delta_applied_sound_witness:
  "tick_raw (sn_tick demo_baseline) = 3 \<and> ids_sorted (sn_entities demo_current)"
proof -
  have "apply_delta_snapshot_from_packet demo_digest demo_schema demo_baseline
      \<lparr>wp_header = header_delta_snapshot (schema_hash demo_digest demo_schema) 9 3 23,
        wp_sections = [\<lparr>ws_tag = EntityDestroy, ws_body = [1, 2, 0, 0, 0]\<rparr>,
          \<lparr>ws_tag = EntityCreate, ws_body = [1, 7, 0, 0, 0, 224]\<rparr>,
          \<lparr>ws_tag = EntityUpdate, ws_body = [1, 5, 0, 0, 0, 192]\<rparr>]\<rparr>
      codec_limits_default = Inr \<lparr>sn_tick = SnapshotTick 9, sn_entities = sn_entities demo_current\<rparr>"
    by code_simp
  from delta_applied_sound [OF this] show ?thesis by (simp add: header_delta_snapshot_def)
qed

text \<open>
  C21: The three encodings of entity updates (component and field masks, entries with varint
  indices, entries with bit-packed indices) carry the same information: for the same two
  snapshots, sorted by id, each body, if its encoder accepts the snapshots, is decoded to the one
  list of changed entities, components and fields that the comparison of the snapshots finds. The
  schema must be valid, without component id 0 and with its components in the order of their ids,
  the update and entry counts fit 32 bits, and each body is within the limit on section bytes.
\<close>

theorem update_encodings_same:
  assumes "ids_sorted (sn_entities baseline)" and "ids_sorted (sn_entities current)"
    and "schema_ok s" and "schema_ids_ok s" and "sorted_wrt (<) (map cd_id (components s))"
    and "diff_updates s l (sn_entities baseline) (sn_entities current) = Inr us"
    and "length us < 2 ^ 32" and "update_entry_count us < 2 ^ 32"
    and "map_ok fst (encode_update_body_masked s baseline current (length us) l sc (writer_new buf)) = Inr w1"
    and "map_ok fst (encode_update_body_sparse_packed s baseline current (length us) l sc (writer_new buf)) = Inr w2"
    and "map_ok fst (encode_update_body_sparse_varint s baseline current (length us) l sc (writer_new buf)) = Inr w3"
    and "\<forall>w \<in> {w1, w2, w3}. writer_finish w \<le> max_section_bytes l"
  shows "decode_update_section_masked s (written_body w1) l = Inr us \<and>
    decode_update_section_sparse_packed s (written_body w2) l = Inr us \<and>
    decode_update_section_sparse_varint s (written_body w3) l = Inr us"
  using assms(12) update_encodings_agree(1) [OF assms(1-6) refl assms(7,8,9)]
    update_encodings_agree(2) [OF assms(1-6) refl assms(7,8,10)]
    update_encodings_agree(3) [OF assms(1-6) refl assms(7,8,11)] by simp

lemma update_encodings_same_witness:
  "decode_update_section_masked demo_schema [1, 5, 0, 0, 0, 192] codec_limits_default = Inr demo_updates \<and>
    decode_update_section_sparse_packed demo_schema [1, 5, 1, 1, 0] codec_limits_default = Inr demo_updates \<and>
    decode_update_section_sparse_varint demo_schema [1, 5, 0, 0, 0, 1, 0, 1, 0, 0] codec_limits_default =
      Inr demo_updates"
proof -
  have run: "map_ok fst (encode_update_body_masked demo_schema demo_baseline demo_current (length demo_updates)
      codec_limits_default codec_scratch_new (writer_new (replicate 10 0))) =
      Inr \<lparr>bw_buf = [1, 5, 0, 0, 0, 192, 0, 0, 0, 0], bw_pos = 48\<rparr>"
    "map_ok fst (encode_update_body_sparse_packed demo_schema demo_baseline demo_current (length demo_updates)
      codec_limits_default codec_scratch_new (writer_new (replicate 10 0))) =
      Inr \<lparr>bw_buf = [1, 5, 1, 1, 0, 0, 0, 0, 0, 0], bw_pos = 40\<rparr>"
    "map_ok fst (encode_update_body_sparse_varint demo_schema demo_baseline demo_current (length demo_updates)
      codec_limits_default codec_scratch_new (writer_new (replicate 10 0))) =
      Inr \<lparr>bw_buf = [1, 5, 0, 0, 0, 1, 0, 1, 0, 0], bw_pos = 80\<rparr>"
    by code_simp+
  have us: "diff_updates demo_schema codec_limits_default (sn_entities demo_baseline) (sn_entities demo_current) =
      Inr demo_updates" by code_simp
  have small: "length demo_updates < 2 ^ 32" "update_entry_count demo_updates < 2 ^ 32"
    by (simp_all add: demo_updates_def update_entry_count_def)
  show ?thesis
    using update_encodings_same [OF demo_sorted demo_schema_ok demo_schema_ids us small run]
    by (simp add: written_body_def writer_finish_def codec_limits_default_def div_ceil_def)
qed

text \<open>
  C22: After the update of an entity is applied, the entity differs from the current one in
  nothing that the schema counts as changed: diffing again finds no update, so the sender sends
  each change once.
\<close>

theorem delta_update_converges:
  assumes "schema_ok s" and "entity_ok base"
    and "entity_changes l base cur (components s) = Inr us"
    and "update_entity \<lparr>ue_id = i, ue_components = us\<rparr> base = Inr e"
  shows "entity_has_updates s e cur l = Inr False"
  by (rule update_converges [OF assms])

lemma delta_update_converges_witness:
  "entity_has_updates demo_schema (demo_entity\<lparr>es_components :=
      [\<lparr>cs_id = ComponentId 1, cs_fields = [BoolV False]\<rparr>]\<rparr>) demo_entity_off codec_limits_default = Inr False"
proof (rule delta_update_converges [OF demo_schema_ok])
  show "entity_ok demo_entity" by (simp add: entity_ok_def demo_entity_def)
  show "entity_changes codec_limits_default demo_entity demo_entity_off (components demo_schema) =
      Inr [\<lparr>uc_id = ComponentId 1, uc_fields = [(0, BoolV False)]\<rparr>]" by code_simp
  show "update_entity \<lparr>ue_id = EntityId 5, ue_components =
        [\<lparr>uc_id = ComponentId 1, uc_fields = [(0, BoolV False)]\<rparr>]\<rparr> demo_entity =
      Inr (demo_entity\<lparr>es_components := [\<lparr>cs_id = ComponentId 1, cs_fields = [BoolV False]\<rparr>]\<rparr>)" by code_simp
qed

text \<open>
  C23: The scratch buffers only save allocations: the packet and the result of the delta encoder
  do not depend on what earlier calls left in them.
\<close>

theorem scratch_irrelevant:
  "encode_delta_snapshot_with_scratch_mode blake3 s tick bt baseline current l sc out mode =
    encode_delta_snapshot_with_scratch_mode blake3 s tick bt baseline current l sc' out mode"
  by (simp only: encode_delta_snapshot_with_scratch_mode_def payload_scratch [of s bt baseline current l sc _ mode sc'])

text \<open>
  C24: What a threshold decides, for every pair of values of one integer type: on unsigned values
  and unsigned varints the field counts as changed exactly when the distance of the two values
  exceeds the threshold; on signed values, signed varints and fixed-point values, whose difference
  is computed in 64 bits, exactly when the smaller of the distance and 2^64 minus the distance
  does. So up to a distance of 2^63 a threshold means what it says, and beyond it a larger change
  can count as none: the largest and the smallest signed value count as 1 apart, and under a
  threshold of 1 the change is never sent. (This is the wrapping arithmetic of a release build;
  with overflow checks the subtraction panics beyond 2^63.)
\<close>

theorem threshold_wraps:
  assumes "value_distance a b = Some n" and "fd_change f = Threshold q"
  shows "field_changed c f a b = Inr (unat q < (if value_subtracted a then min n (2 ^ 64 - n) else n))"
  by (rule threshold_decides [OF assms])

lemma threshold_wraps_witness:
  "field_changed (ComponentId 1) \<lparr>fd_id = FieldId 1, fd_codec = SIntCodec 64, fd_change = Threshold 1\<rparr>
    (SIntV 0x7FFFFFFFFFFFFFFF) (SIntV 0x8000000000000000) = Inr False"
  using threshold_wraps [of "SIntV 0x7FFFFFFFFFFFFFFF" "SIntV 0x8000000000000000" "2 ^ 64 - 1"] by simp

text \<open>
  C25: The delta encoder for clients lists the changed components of an entity in the order of the
  schema, while the decoder of the sparse encoding wants strictly increasing component ids. So if
  between two snapshots some entity's changes, in schema order, do not have increasing component
  ids (possible only with a valid schema whose components are not in the order of their ids), then
  the packet that the encoder writes without an error is applied by no receiver: whatever snapshot
  it holds, and whatever its wire limits, codec limits and digest, it returns an error. The schema
  is valid and has no component id 0; the counts fit 32 bits.
\<close>

theorem sparse_needs_id_order:
  assumes "encode_delta_snapshot_for_client blake3 s tick bt baseline current l out = Some (Inr (n, out'))"
    and "schema_ok s" and "schema_ids_ok s" and "counts_fit s baseline current"
    and "diff_updates s l (sn_entities baseline) (sn_entities current) = Inr us"
    and "u \<in> set us" and "\<not> sorted_wrt (<) (map uc_id (ue_components u))"
  shows "\<exists>e. apply_delta_snapshot blake3' s view (take n out') wl l' = Inl e"
proof -
  have "\<not> update_ordered u" using assms(7) by (simp add: update_ordered_def)
  from unordered_delta_refused [OF assms(1) [unfolded encode_delta_snapshot_for_client_def
      encode_delta_snapshot_for_client_with_scratch_def] assms(2-6) this]
  show ?thesis by (metis sumE)
qed

lemma sparse_needs_id_order_witness:
  "\<exists>e. apply_delta_snapshot demo_digest unordered_schema (unordered_snapshot 3 True)
    (take 39 ([67, 69, 68, 83, 2, 0, 2, 0, 7, 7, 7, 7, 7, 7, 7, 7, 9, 0, 0, 0, 3, 0, 0, 0,
      11, 0, 0, 0, 5, 9, 2, 5, 2, 1, 0, 5, 1, 1, 0, 5, 1, 1, 0] @ replicate 21 0)) limits_default
    codec_limits_default = Inl e"
proof -
  let ?out = "[67, 69, 68, 83, 2, 0, 2, 0, 7, 7, 7, 7, 7, 7, 7, 7, 9, 0, 0, 0, 3, 0, 0, 0,
      11, 0, 0, 0, 5, 9, 2, 5, 2, 1, 0, 5, 1, 1, 0, 5, 1, 1, 0] @ replicate 21 0 :: u8 list"
  let ?us = "[\<lparr>ue_id = EntityId 5, ue_components = [\<lparr>uc_id = ComponentId 2, uc_fields = [(0, BoolV False)]\<rparr>,
      \<lparr>uc_id = ComponentId 1, uc_fields = [(0, BoolV False)]\<rparr>]\<rparr>]"
  have "encode_delta_snapshot_for_client demo_digest unordered_schema (SnapshotTick 9) (SnapshotTick 3)
      (unordered_snapshot 3 True) (unordered_snapshot 9 False) codec_limits_default (replicate 64 0) =
      Some (Inr (39, ?out))"
    by code_simp
  moreover have "schema_ok unordered_schema" "schema_ids_ok unordered_schema"
    by (simp_all add: unordered_schema_def schema_ok_def component_ok_def field_def_new_def schema_ids_ok_def)
  moreover have "counts_fit unordered_schema (unordered_snapshot 3 True) (unordered_snapshot 9 False)"
    by (simp add: counts_fit_def unordered_schema_def unordered_snapshot_def)
  moreover have "diff_updates unordered_schema codec_limits_default (sn_entities (unordered_snapshot 3 True))
      (sn_entities (unordered_snapshot 9 False)) = Inr ?us"
    by code_simp
  ultimately show ?thesis
    by (rule sparse_needs_id_order [where u = "hd ?us"]) (simp_all add: less_component_id_def)
qed

text \<open>
  C26: The handshake brings both sides into agreement: the init packet and the full snapshot that
  the sender encodes for one tick are decoded into a session and a snapshot for which sender and
  receiver are in sync, whatever the session id. The snapshot's entities must list their
  components in schema order with no thresholds on fields other than booleans, its tick is not 0,
  it has fewer than 2^32 entities, the schema is valid, and both packets fit the receiver's wire
  limits.
\<close>

theorem replication_starts:
  assumes "encode_session_init_packet blake3 s (sn_tick sn) i m l out0 = Some (Inr (k, init))"
    and "encode_full_snapshot blake3 s (sn_tick sn) (sn_entities sn) l out1 = Some (Inr (n, bytes))"
    and "schema_ok s" and "length (sn_entities sn) < 2 ^ 32" and "wire_room wl k" and "wire_room wl n"
    and "canonical_snapshot s sn" and "tick_raw (sn_tick sn) \<noteq> 0"
  shows "\<exists>session view. and_then (map_err Wire (decode_packet (take k init) wl))
      (\<lambda>p. decode_session_init_packet blake3 s p l) = Inr session \<and>
    decode_full_snapshot blake3 s (take n bytes) wl l = Inr view \<and>
    in_sync blake3 s (replica_start sn session view)"
  by (rule replication_starts_in_sync [OF assms])

lemma replication_starts_witness:
  "\<exists>session view. decode_full_snapshot demo_digest demo_schema (take 41 demo_start_bytes) limits_default
      codec_limits_default = Inr view \<and> in_sync demo_digest demo_schema (replica_start demo_baseline session view)"
proof -
  have full: "encode_full_snapshot demo_digest demo_schema (sn_tick demo_baseline) (sn_entities demo_baseline)
      codec_limits_default (replicate 45 0) = Some (Inr (41, demo_start_bytes))"
    by code_simp
  have init: "encode_session_init_packet demo_digest demo_schema (sn_tick demo_baseline) (Some 42) SessionV1
      codec_limits_default (replicate 43 0) = Some (Inr (39, demo_init_bytes))"
    by code_simp
  show ?thesis
    using replication_starts [OF init full demo_schema_ok, of limits_default] demo_canonical(1)
    by (auto simp: wire_room_def limits_default_def demo_baseline_def)
qed

text \<open>
  C27: The init packet encoder panics exactly when the output buffer is shorter than a packet
  header: it slices the buffer before any length check, where the snapshot encoders return an
  error.
\<close>

theorem session_init_needs_header_room:
  "encode_session_init_packet blake3 s tick i m l out = None \<longleftrightarrow> length out < HEADER_SIZE"
  by (rule session_init_panics_iff)

text \<open>
  C28: A compact packet carries its tick only as a difference, so the decoder cannot tell a
  duplicate from a new packet: the bytes that were just accepted are accepted once more, with the
  same sections and a tick that is further ahead by the same difference.
\<close>

theorem session_replay_decoded:
  assumes "decode_session_packet blake3 s st bytes wl = Inr (p, st')"
    and "2 * unat (packet_tick p) - unat (tick_raw (ss_last_tick st)) < 2 ^ 32"
  shows "\<exists>p' st''. decode_session_packet blake3 s st' bytes wl = Inr (p', st'') \<and>
    wp_sections p' = wp_sections p \<and> ph_flags (wp_header p') = ph_flags (wp_header p) \<and>
    packet_tick p' = packet_tick p + (packet_tick p - tick_raw (ss_last_tick st))"
  by (rule session_replay_accepted [OF assms])

lemma session_replay_decoded_witness:
  "\<exists>p st' p' st''. decode_session_packet demo_digest demo_schema demo_session (take 26 demo_session_bytes)
      limits_default = Inr (p, st') \<and>
    decode_session_packet demo_digest demo_schema st' (take 26 demo_session_bytes) limits_default = Inr (p', st'') \<and>
    packet_tick p = 9 \<and> packet_tick p' = 15"
proof -
  let ?d = "decode_session_packet demo_digest demo_schema demo_session (take 26 demo_session_bytes) limits_default"
  have "case ?d of Inr (p, st') \<Rightarrow> packet_tick p = 9 | Inl _ \<Rightarrow> False" by code_simp
  then obtain p st' where d: "?d = Inr (p, st')" and tick: "packet_tick p = 9"
    by (auto split: sum.splits)
  have last: "ss_last_tick demo_session = SnapshotTick 3" by (simp add: demo_session_def)
  have "2 * unat (packet_tick p) - unat (tick_raw (ss_last_tick demo_session)) < 2 ^ 32"
    by (simp add: tick last)
  from session_replay_decoded [OF d this] obtain p' st'' where
    "decode_session_packet demo_digest demo_schema st' (take 26 demo_session_bytes) limits_default = Inr (p', st'')"
    "packet_tick p' = 15"
    unfolding tick last by auto
  with d tick show ?thesis by blast
qed

text \<open>
  C29: The two delta encoders agree: encoding the destroyed ids, created entities and updates that
  a scan of two snapshots finds gives a packet that has on the receiver the same result, snapshot
  or error, as the packet of the scanning encoder. Both snapshots are sorted by id, the first has
  the baseline tick (not 0) and no component twice in an entity, the schema is valid, without
  component id 0 and with its components in the order of their ids, both encoders succeed, the
  counts fit 32 bits, and both packets fit the receiver's wire limits.
\<close>

theorem changes_as_scan:
  assumes "encode_delta_from_changes blake3 (session_encoder_new s l) tick bt
      (created (sn_entities baseline) (sn_entities current))
      (map es_id (destroyed (sn_entities baseline) (sn_entities current))) us out = Some (Inr (n, out'))"
    and "encode_delta_snapshot_with_scratch_mode blake3 s tick bt baseline current l sc out2 mode =
      Some (Inr (n2, out2'))"
    and "diff_updates s l (sn_entities baseline) (sn_entities current) = Inr us"
    and "schema_ok s" and "schema_ids_ok s" and "sorted_wrt (<) (map cd_id (components s))"
    and "ids_sorted (sn_entities baseline)" and "ids_sorted (sn_entities current)"
    and "\<forall>b \<in> set (sn_entities baseline). entity_ok b"
    and "counts_fit s baseline current" and "delta_room wl n" and "delta_room wl n2"
    and "tick_raw bt \<noteq> 0" and "sn_tick baseline = bt"
  shows "apply_delta_snapshot blake3 s baseline (take n out') wl l =
    apply_delta_snapshot blake3 s baseline (take n2 out2') wl l"
  using scanned_changes_applied [of blake3 s tick bt baseline current us l out n out' wl]
    delta_roundtrip_target [OF assms(2)] assms
  by (simp add: encode_delta_from_changes_def session_encoder_new_def)

lemma changes_as_scan_witness:
  "apply_delta_snapshot demo_digest demo_schema demo_baseline (take 50 demo_change_packet)
      limits_default codec_limits_default =
    apply_delta_snapshot demo_digest demo_schema demo_baseline (take 51 (demo_delta_packet @ [0, 0, 0, 192]))
      limits_default codec_limits_default"
proof (rule changes_as_scan [OF _ demo_delta_encoded _ demo_schema_ok demo_schema_ids demo_sorted demo_delta_facts(1,2) _
      demo_delta_facts(3,4)])
  have "created (sn_entities demo_baseline) (sn_entities demo_current) = [demo_entity\<lparr>es_id := EntityId 7\<rparr>]"
    "map es_id (destroyed (sn_entities demo_baseline) (sn_entities demo_current)) = [EntityId 2]" by code_simp+
  then show "encode_delta_from_changes demo_digest (session_encoder_new demo_schema codec_limits_default)
      (SnapshotTick 9) (SnapshotTick 3) (created (sn_entities demo_baseline) (sn_entities demo_current))
      (map es_id (destroyed (sn_entities demo_baseline) (sn_entities demo_current))) demo_updates (replicate 55 0) =
      Some (Inr (50, demo_change_packet))" by (simp only: demo_changes_encoded)
  show "diff_updates demo_schema codec_limits_default (sn_entities demo_baseline) (sn_entities demo_current) =
      Inr demo_updates" by code_simp
qed (simp_all add: delta_room_def limits_default_def demo_baseline_def)

text \<open>
  C30: The order inside an update is checked when decoding but not when encoding: if in change
  lists that the encoder accepts some update's component ids or some component's field indices do
  not strictly increase, then the packet written is decoded by no receiver with this schema:
  whatever its wire limits, codec limits and digest, it returns an error. (An encoder that
  rejected such lists would make this vacuous; the witness shows one that is accepted, field 1
  listed before field 0.) The schema is valid and has no component id 0; the number of entries and
  of fields in each fits 32 bits.
\<close>

theorem changes_order_unchecked:
  assumes "encode_delta_from_changes blake3 (session_encoder_new s l) tick bt cs ds us out = Some (Inr (n, out'))"
    and "schema_ok s" and "schema_ids_ok s" and "update_entry_count us < 2 ^ 32"
    and "\<forall>u \<in> set us. \<forall>c \<in> set (ue_components u). length (uc_fields c) < 2 ^ 32"
    and "u \<in> set us" and "\<not> update_ordered u"
  shows "\<exists>e. and_then (map_err Wire (decode_packet (take n out') wl)) (\<lambda>p. decode_delta_packet blake3' s p l') = Inl e"
proof -
  have "encode_delta_snapshot_from_updates blake3 s tick bt ds cs us l out = Some (Inr (n, out'))"
    using assms(1) by (simp add: encode_delta_from_changes_def session_encoder_new_def)
  from unordered_changes_refused [OF this assms(2-7)] show ?thesis by (metis sumE)
qed

lemma changes_order_unchecked_witness:
  "\<exists>e. and_then (map_err Wire (decode_packet (take 35 [67, 69, 68, 83, 2, 0, 2, 0, 7, 7, 7, 7, 7, 7, 7, 7,
      9, 0, 0, 0, 3, 0, 0, 0, 7, 0, 0, 0, 5, 5, 1, 5, 1, 2, 192, 5, 1, 2, 192, 0]) limits_default))
    (\<lambda>p. decode_delta_packet demo_digest pair_schema p codec_limits_default) = Inl e"
proof -
  have "encode_delta_from_changes demo_digest (session_encoder_new pair_schema codec_limits_default)
      (SnapshotTick 9) (SnapshotTick 3) [] [] unordered_updates (replicate 40 0) =
      Some (Inr (35, [67, 69, 68, 83, 2, 0, 2, 0, 7, 7, 7, 7, 7, 7, 7, 7, 9, 0, 0, 0, 3, 0, 0, 0, 7, 0, 0, 0,
        5, 5, 1, 5, 1, 2, 192, 5, 1, 2, 192, 0]))"
    by code_simp
  moreover have "schema_ok pair_schema" "schema_ids_ok pair_schema" by code_simp+
  ultimately show ?thesis
    by (rule changes_order_unchecked [where u = "hd unordered_updates"])
      (simp_all add: unordered_updates_def update_entry_count_def update_ordered_def)
qed

text \<open>
  C31: Where the id counter saturates: once it stands at the largest 32-bit value, two different
  new entities are given the same id, and the map is no longer in order, so the two would be
  replicated as one.
\<close>

theorem entity_ids_run_out:
  assumes "em_next m = - 1" and "em_to_id m a = None" and "em_to_id m b = None" and "a \<noteq> b"
  shows "fst (map_entity_id b (snd (map_entity_id a m))) = fst (map_entity_id a m) \<and>
    \<not> entity_map_ok (snd (map_entity_id b (snd (map_entity_id a m))))"
  using exhausted_ids_collide [OF assms, of _ _ "fst (map_entity_id b (snd (map_entity_id a m)))"]
  by (simp add: prod_eq_iff)

lemma entity_ids_run_out_witness:
  "fst (map_entity_id (1 :: nat) (snd (map_entity_id 0 (entity_map_new\<lparr>em_next := - 1\<rparr>)))) =
    fst (map_entity_id (0 :: nat) (entity_map_new\<lparr>em_next := - 1\<rparr>))"
  by (rule entity_ids_run_out [THEN conjunct1]) (simp_all add: entity_map_new_def)

text \<open>
  C32: An entity that a client knows and that is removed from the graph and added again, near the
  client and with a dirty component, before the client's next delta, is both destroyed and updated
  by that delta and not created: on a receiver that holds the entities the client knows, the
  delta's destroys and creates apply, and then its updates fail. (So the entity is lost until a
  later delta creates it again.) Conditions: the graph has room for the entity, the application's
  world has an update for its dirty components and names the entities it is asked for, the
  client's budget is at least the number of entities it knows for destroys and for updates, and
  the known and removed ids are finitely many.
\<close>

theorem readded_entity_breaks_client:
  assumes "rg_clients g client = Some state" and "client_finite g client" and "i \<in> ct_known state"
    and "length (sorted_list_of_fmap (fmdrop i (rg_entities g))) < max_entities (rg_config g)"
    and "entity_relevant ops (ct_view state) \<lparr>en_position = position, en_priority = 0, en_dirty = []\<rparr>"
    and "dirty \<noteq> []" and "wv_update world i (push_unique_components [] dirty) \<noteq> None"
    and "world_contract world (insert i (fset (fmdom (rg_entities g))))"
    and "card (ct_known state) \<le> max_destroys (vw_budget (ct_view state))"
    and "card (ct_known state) \<le> max_updates (vw_budget (ct_view state))"
    and "build_client_delta ops client world (graph_update_entity i position dirty (graph_remove_entity i g)) = (d, g')"
    and "ids_sorted es" and "es_id ` set es = ct_known state"
  shows "i \<in> set (cd_destroys d) \<and> i \<in> ue_id ` set (cd_updates d) \<and> i \<notin> es_id ` set (cd_creates d) \<and>
    (\<exists>es'. and_then (apply_destroys es (cd_destroys d)) (\<lambda>rs. apply_creates rs (cd_creates d)) = Inr es' \<and>
      (\<exists>e. apply_updates (cd_updates d) es' = Inl e))"
  using readded_entity_fails [OF assms(1-10) assms(11) [folded readded_def] assms(12,13)] by blast

lemma readded_entity_breaks_client_witness:
  "\<exists>d g' es'. build_client_delta int_ops (ClientId 0) flag_view_of
      (graph_update_entity (EntityId 5) (point 3) [ComponentId 1]
        (graph_remove_entity (EntityId 5) (snd (build_client_delta int_ops (ClientId 0) flag_view_of demo_graph)))) = (d, g') \<and>
    and_then (apply_destroys [flag_entity 5 True] (cd_destroys d)) (\<lambda>rs. apply_creates rs (cd_creates d)) = Inr es' \<and>
    (\<exists>e. apply_updates (cd_updates d) es' = Inl e)"
proof -
  let ?g = "snd (build_client_delta int_ops (ClientId 0) flag_view_of demo_graph)"
  let ?state = "\<lparr>ct_view = client_view_new (point 0) 10, ct_known = {EntityId 5}\<rparr>"
  obtain d0 g0 where built: "build_client_delta int_ops (ClientId 0) flag_view_of demo_graph = (d0, g0)" by fastforce
  have d0: "cd_creates d0 = [flag_entity 5 True]" "cd_destroys d0 = []" using demo_delta_built built by simp_all
  obtain cs where "map es_id (cd_creates d0) = cs"
    and "g0 = demo_graph\<lparr>rg_clients := (rg_clients demo_graph)(ClientId 0 \<mapsto>
      \<lparr>ct_view = client_view_new (point 0) 10, ct_known = {}\<rparr>\<lparr>ct_known :=
        ct_known \<lparr>ct_view = client_view_new (point 0) 10, ct_known = {}\<rparr> - set (cd_destroys d0) \<union> set cs\<rparr>)\<rparr>"
    by (rule client_delta_parts [OF built demo_graph_parts(1,2) flag_view_contract])
  then have g: "?g = demo_graph\<lparr>rg_clients := (rg_clients demo_graph)(ClientId 0 \<mapsto> ?state)\<rparr>"
    by (auto simp: built d0 flag_entity_def)
  have parts: "rg_clients ?g (ClientId 0) = Some ?state" "client_finite ?g (ClientId 0)"
    "rg_entities ?g = rg_entities demo_graph" "rg_config ?g = rg_config demo_graph"
    unfolding g using demo_graph_parts(3) by (simp_all add: client_finite_def)
  have room: "length (sorted_list_of_fmap (fmdrop (EntityId 5) (rg_entities ?g))) < max_entities (rg_config ?g)"
    unfolding parts by code_simp
  have near: "entity_relevant int_ops (ct_view ?state) \<lparr>en_position = point 3, en_priority = 0, en_dirty = []\<rparr>"
    by (simp add: entity_relevant_def int_ops_def point_def client_view_new_def distance_sq_def)
  have update: "wv_update flag_view_of (EntityId 5) (push_unique_components [] [ComponentId 1]) \<noteq> None" by code_simp
  obtain d g' where delta: "build_client_delta int_ops (ClientId 0) flag_view_of
      (graph_update_entity (EntityId 5) (point 3) [ComponentId 1] (graph_remove_entity (EntityId 5) ?g)) = (d, g')"
    by fastforce
  have "ids_sorted [flag_entity 5 True]" "es_id ` set [flag_entity 5 True] = ct_known ?state"
    by (simp_all add: flag_entity_def)
  from readded_entity_breaks_client [OF parts(1,2) _ room near _ update flag_view_contract _ _ delta this]
  have "\<exists>es'. and_then (apply_destroys [flag_entity 5 True] (cd_destroys d)) (\<lambda>rs. apply_creates rs (cd_creates d)) = Inr es' \<and>
      (\<exists>e. apply_updates (cd_updates d) es' = Inl e)"
    by (simp add: client_view_new_def budget_unlimited_def usize_max_def)
  with delta show ?thesis by blast
qed

text \<open>
  C33: The update summary of the inspection tool is consistent: the number of changed components
  and fields are the sums over the decoded updates, the per-component counts add up to the number
  of changed fields, each component is listed once, and the list is ordered by falling count and
  rising id.
\<close>

theorem update_summary_adds_up:
  "us_changed_components (summarize_updates us) = sum_list (map (\<lambda>u. length (ue_components u)) us) \<and>
    us_changed_fields (summarize_updates us) =
      sum_list (map (\<lambda>u. sum_list (map (\<lambda>c. length (uc_fields c)) (ue_components u))) us) \<and>
    us_changed_fields (summarize_updates us) =
      sum_list (map fc_changed_fields (us_by_component (summarize_updates us))) \<and>
    sorted_wrt count_before (us_by_component (summarize_updates us)) \<and>
    distinct (map fc_component_id (us_by_component (summarize_updates us)))"
  by (rule summary_adds_up)

text \<open>
  C34: A full snapshot in a compact packet can be accepted but never decoded: the session decoder
  requires its baseline delta to be 0 and so reports the packet's own tick, which is never 0, as
  the baseline tick, and the snapshot decoder demands baseline tick 0.
\<close>

theorem compact_full_never_decodes:
  assumes "decode_session_packet blake3 s st bytes wl = Inr (p, st')"
    and "is_full_snapshot (ph_flags (wp_header p))"
  shows "decode_full_snapshot_from_packet blake3 s p l =
    Inl (Wire (InvalidBaselineTick (ph_tick (wp_header p)) (flags_raw (ph_flags (wp_header p)))))"
proof -
  note sound = decode_session_packet_sound [OF assms(1)]
  have "ph_tick (wp_header p) \<noteq> 0" using sound(1) by auto
  with sound(7) assms(2) show ?thesis by (simp add: decode_full_snapshot_from_packet_def Let_def)
qed

lemma compact_full_never_decodes_witness:
  "\<exists>p st' e. decode_session_packet demo_digest demo_schema demo_session [1, 6, 0, 0] limits_default = Inr (p, st') \<and>
    decode_full_snapshot_from_packet demo_digest demo_schema p codec_limits_default = Inl e"
proof -
  let ?d = "decode_session_packet demo_digest demo_schema demo_session [1, 6, 0, 0] limits_default"
  have "case ?d of Inr (p, st') \<Rightarrow> is_full_snapshot (ph_flags (wp_header p)) | Inl _ \<Rightarrow> False" by code_simp
  then obtain p st' where d: "?d = Inr (p, st')" "is_full_snapshot (ph_flags (wp_header p))"
    by (auto split: sum.splits)
  from compact_full_never_decodes [OF this] d(1) show ?thesis by blast
qed


text \<open>
  C36: The ring buffer of baselines refines a bounded list: after inserting any sequence of
  snapshots into a new store of capacity n, iterating it yields exactly the last n of them, oldest
  first, whatever the wrap-around of the buffer.
\<close>

theorem baseline_history_kept:
  assumes "0 < n" and "ring.ins_all xs (store_new n) = Inr b"
  shows "store_iter b = drop (length xs - n) xs"
  using ring.ins_all_entries [OF ring.new_valid [OF assms(1)] assms(2)]
  by (simp add: ring.new_entries)

lemma baseline_history_kept_witness:
  "store_iter (\<lparr>bs_entries = [Some \<lparr>en_tick = SnapshotTick 5, en_value = True\<rparr>,
       Some \<lparr>en_tick = SnapshotTick 3, en_value = False\<rparr>],
     bs_head = 1, bs_len = 2, bs_last_tick = Some (SnapshotTick 5)\<rparr> :: bool baseline_store) =
   [(SnapshotTick 3, False), (SnapshotTick 5, True)]"
proof -
  let ?b = "\<lparr>bs_entries = [Some \<lparr>en_tick = SnapshotTick 5, en_value = True\<rparr>,
       Some \<lparr>en_tick = SnapshotTick 3, en_value = False\<rparr>],
     bs_head = 1, bs_len = 2, bs_last_tick = Some (SnapshotTick 5)\<rparr> :: bool baseline_store"
  let ?xs = "[(SnapshotTick 1, True), (SnapshotTick 3, False), (SnapshotTick 5, True)]"
  have "store_insert (SnapshotTick 1) True (store_new 2) = Inr
      \<lparr>bs_entries = [Some \<lparr>en_tick = SnapshotTick 1, en_value = True\<rparr>, None],
        bs_head = 0, bs_len = 1, bs_last_tick = Some (SnapshotTick 1)\<rparr>"
    and "store_insert (SnapshotTick 3) False
      \<lparr>bs_entries = [Some \<lparr>en_tick = SnapshotTick 1, en_value = True\<rparr>, None],
        bs_head = 0, bs_len = 1, bs_last_tick = Some (SnapshotTick 1)\<rparr> = Inr
      \<lparr>bs_entries = [Some \<lparr>en_tick = SnapshotTick 1, en_value = True\<rparr>,
          Some \<lparr>en_tick = SnapshotTick 3, en_value = False\<rparr>],
        bs_head = 0, bs_len = 2, bs_last_tick = Some (SnapshotTick 3)\<rparr>"
    and "store_insert (SnapshotTick 5) True
      \<lparr>bs_entries = [Some \<lparr>en_tick = SnapshotTick 1, en_value = True\<rparr>,
          Some \<lparr>en_tick = SnapshotTick 3, en_value = False\<rparr>],
        bs_head = 0, bs_len = 2, bs_last_tick = Some (SnapshotTick 3)\<rparr> = Inr ?b"
    by code_simp+
  then have "ring.ins_all ?xs (store_new 2) = Inr ?b" by simp
  from baseline_history_kept [OF _ this] show ?thesis by simp
qed

text \<open>
  C37: A field value written at any bit position is read back by the field reader, which ends at
  the bit the writer ended at: for every codec (booleans, packed unsigned and two's-complement
  signed fields of 1 to 64 bits, both varints with their byte alignment, fixed point as an
  offset), and whatever the writer's caller appends later.
\<close>

theorem field_value_roundtrip:
  assumes "write_field_value c f v w = Inr w'" and "codec_ok (fd_codec f)" and "holds d w'"
  shows "read_field_value c f (reader_at d (bw_pos w)) = Inr (v, reader_at d (bw_pos w'))"
  by (rule read_field_value_written) (use assms in simp_all)

lemma field_value_roundtrip_witness:
  "read_field_value (ComponentId 1) (field_def_new (FieldId 1) (SIntCodec 5)) (reader_at [0x80] 0) =
    Inr (SIntV (- 16), reader_at [0x80] 5)"
proof -
  have "write_field_value (ComponentId 1) (field_def_new (FieldId 1) (SIntCodec 5)) (SIntV (- 16))
      (writer_new [0]) = Inr \<lparr>bw_buf = [0x80], bw_pos = 5\<rparr>"
    by code_simp
  moreover have "holds [0x80] \<lparr>bw_buf = [0x80], bw_pos = 5\<rparr>"
    by (simp add: holds_def bit_capacity_def saturating_mul_def usize_max_def)
  ultimately show ?thesis
    using field_value_roundtrip [of "ComponentId 1" "field_def_new (FieldId 1) (SIntCodec 5)"
      "SIntV (- 16)" "writer_new [0]" "\<lparr>bw_buf = [0x80], bw_pos = 5\<rparr>" "[0x80]"]
    by (simp add: field_def_new_def writer_new_def)
qed

text \<open>
  C38: The bytes that the schema hash digests determine the schema: two schemas of fewer than 2^32
  components and fields per component that feed the digest the same bytes are equal, so schemas
  with different hashes differ and equal hashes of different schemas are collisions of the digest
  itself.
\<close>

theorem schema_hash_input_injective:
  assumes "schema_counts_ok s" and "schema_counts_ok t" and "schema_hash_input s = schema_hash_input t"
  shows "s = t"
  by (rule schema_hash_input_inj) (use assms in simp_all)

lemma schema_hash_input_injective_witness:
  "schema_hash_input demo_schema \<noteq> schema_hash_input \<lparr>components = []\<rparr>"
  using schema_hash_input_injective [of demo_schema "\<lparr>components = []\<rparr>"]
  by (auto simp: schema_counts_ok_def demo_schema_def count_ok_def)

text \<open>
  C39: A schema is built exactly when it is well formed: component ids are distinct, field ids are
  distinct within each component, bit widths are 1 to 64 and fixed-point codecs have a positive
  scale and a non-empty range; and then it has exactly the given components.
\<close>

theorem schema_new_checked:
  "schema_new cs = Inr s \<longleftrightarrow> s = \<lparr>components = cs\<rparr> \<and> schema_ok s"
  by (rule schema_new_Inr)

text \<open>
  C40: The varint loops end within five rounds on every 32-bit value and write its seven-bit
  groups, low group first and with the continuation bit on all but the last: as many bytes as the
  length functions of the packet writer, of the section writer and of the delta encoder's size
  estimate compute, which is the least number of groups that the value fits into and at most the
  VARINT_MAX_BYTES that the section writer reserves. The loops of the section and packet writers
  put these bytes at the offset they are given and overwrite nothing else, or run out of the slice
  (a panic) exactly when it is too short; the bit writer does the same at its position, and
  returns an error when it is not byte aligned or the buffer is too short.
\<close>

theorem varint_encoding_terminates:
  "1 \<le> varu32_len v \<and> varu32_len v \<le> VARINT_MAX_BYTES \<and> unat v < 2 ^ (7 * varu32_len v) \<and>
    (varu32_len v = 1 \<or> 2 ^ (7 * (varu32_len v - 1)) \<le> unat v) \<and>
    section_varu32_len v = varu32_len v \<and> delta_varu32_len v = varu32_len v \<and>
    section_write_varu32_loop v out k =
      (if k + varu32_len v \<le> length out
       then Some (take k out @ varint_bytes v (varu32_len v) @ drop (k + varu32_len v) out) else None) \<and>
    packet_write_varu32 v out k =
      (if k + varu32_len v \<le> length out
       then Some (varu32_len v, take k out @ varint_bytes v (varu32_len v) @ drop (k + varu32_len v) out)
       else None) \<and>
    (if bw_pos w mod 8 = 0 \<and> bw_pos w + 8 * varu32_len v \<le> bit_capacity (bw_buf w)
     then write_varu32 v w = Inr (w\<lparr>
       bw_buf := splice (bw_buf w) (bw_pos w div 8) (varint_bytes v (varu32_len v)),
       bw_pos := bw_pos w + 8 * varu32_len v\<rparr>)
     else \<exists>e. write_varu32 v w = Inl e)"
proof -
  have "varu32_len v = 1 \<or> 2 ^ (7 * (varu32_len v - 1)) \<le> unat v"
    using varint_encode_fits [of v] varint_length(2) [of v] unfolding varu32_len_length by linarith
  then show ?thesis
    using varint_encode_fits [of v] varint_length [of v] write_varu32_closed [of w v]
    unfolding section_write_loop_closed packet_write_closed delta_varu32_len_closed section_varu32_len_length
      VARINT_MAX_BYTES_def varu32_len_length by (simp add: Suc_le_eq)
qed

end
